(* ===== verification/Prelude.thy ===== *)
theory Prelude
  imports Main "HOL-Library.Word" "HOL-Library.Signed_Division" "HOL-Library.Monad_Syntax"
begin

text \<open>
  What every theory of the development shares: the C integer types, the failure monad, and the
  rules that take a computation in that monad apart.

  Integers.  size_t, uintptr_t and int64_t values are HOL integers; every arithmetic operation the
  C code performs at a fixed width is wrapped where it is performed: \<open>u64\<close> is the reduction of an
  unsigned 64-bit (size_t) operation, \<open>i64\<close> that of an int64_t operation and \<open>i32\<close> that of an int
  (two's complement, as the compilers the project uses produce it).  Division and remainder of
  signed values truncate (\<open>sdiv\<close>, \<open>smod\<close>).  Addresses are integers, NULL is 0.

  Failure.  The modelled build is the release build (NDEBUG): assert() does nothing there, a failing
  GGML_ASSERT, a GGML_ABORT, a division by zero and the dereference of a pointer to nothing end the
  program.  All of these are the value None of the option monad.
\<close>

unbundle bit_operations_syntax

named_theorems monad_simps "rules that take a successful computation of the option monad apart"
named_theorems wrap_simps "reductions of wrapped arithmetic that is in range"

type_synonym ptr = int

abbreviation (input) NULL :: ptr where "NULL \<equiv> 0"

section \<open>Fixed-width integers\<close>

definition SIZE_MAX :: int where
  "SIZE_MAX = 2 ^ 64 - 1"

definition u64 :: "int \<Rightarrow> int" where
  "u64 x = x mod 2 ^ 64"

definition i64 :: "int \<Rightarrow> int" where
  "i64 x = (x + 2 ^ 63) mod 2 ^ 64 - 2 ^ 63"

definition i32 :: "int \<Rightarrow> int" where
  "i32 x = (x + 2 ^ 31) mod 2 ^ 32 - 2 ^ 31"

definition is_u64 :: "int \<Rightarrow> bool" where
  "is_u64 x \<longleftrightarrow> 0 \<le> x \<and> x < 2 ^ 64"

definition is_i64 :: "int \<Rightarrow> bool" where
  "is_i64 x \<longleftrightarrow> - (2 ^ 63) \<le> x \<and> x < 2 ^ 63"

definition is_i32 :: "int \<Rightarrow> bool" where
  "is_i32 x \<longleftrightarrow> - (2 ^ 31) \<le> x \<and> x < 2 ^ 31"

lemma u64_id [wrap_simps]: "0 \<le> x \<Longrightarrow> x < 18446744073709551616 \<Longrightarrow> u64 x = x"
  by (simp add: u64_def)

lemma i64_id [wrap_simps]:
  "- 9223372036854775808 \<le> x \<Longrightarrow> x < 9223372036854775808 \<Longrightarrow> i64 x = x"
  by (simp add: i64_def)

lemma i32_id [wrap_simps]: "- 2147483648 \<le> x \<Longrightarrow> x < 2147483648 \<Longrightarrow> i32 x = x"
  by (simp add: i32_def)

lemma u64_range: "0 \<le> u64 x" "u64 x < 18446744073709551616"
  by (simp_all add: u64_def)

lemma is_u64_u64 [simp]: "is_u64 (u64 x)"
  by (simp add: is_u64_def u64_def)

lemma is_i64_i64 [simp]: "is_i64 (i64 x)"
  by (simp add: is_i64_def i64_def)

lemma is_i32_i32 [simp]: "is_i32 (i32 x)"
  by (simp add: is_i32_def i32_def)

lemma is_u64_id [simp]: "is_u64 x \<Longrightarrow> u64 x = x"
  by (simp add: is_u64_def u64_def)

lemma is_i64_id [simp]: "is_i64 x \<Longrightarrow> i64 x = x"
  by (simp add: is_i64_def i64_def)

lemma u64_idem [simp]: "u64 (u64 x) = u64 x"
  by (simp add: u64_def)

lemma i64_idem [simp]: "i64 (i64 x) = i64 x"
  by (simp add: i64_def)

lemma u64_mult_left: "u64 (u64 x * y) = u64 (x * y)"
  by (simp add: u64_def mod_mult_left_eq)

lemma u64_mult_right: "u64 (x * u64 y) = u64 (x * y)"
  by (simp add: u64_def mod_mult_right_eq)

lemma u64_add_left: "u64 (u64 x + y) = u64 (x + y)"
  by (simp add: u64_def mod_add_left_eq)

lemma u64_add_right: "u64 (x + u64 y) = u64 (x + y)"
  by (simp add: u64_def mod_add_right_eq)

lemma i64_cong: "x mod 2 ^ 64 = y mod 2 ^ 64 \<Longrightarrow> i64 x = i64 y"
  unfolding i64_def by (metis mod_add_left_eq)

lemma i32_add_left: "i32 (i32 a + c) = i32 (a + c)"
  by (simp add: i32_def mod_simps algebra_simps)

lemma i32_add_cong: "i32 a = i32 b \<Longrightarrow> i32 (a + c) = i32 (b + c)"
  by (metis i32_add_left)

lemma u64_i64: "u64 (i64 x) = u64 x"
proof -
  have "((x + 2 ^ 63) mod 2 ^ 64 - 2 ^ 63) mod 2 ^ 64 = (x + 2 ^ 63 - 2 ^ 63) mod (2 ^ 64 :: int)"
    by (rule mod_diff_left_eq)
  then show ?thesis by (simp add: u64_def i64_def)
qed

lemma i64_u64: "i64 (u64 x) = i64 x"
  by (rule i64_cong) (simp add: u64_def)

text \<open>GGML_PAD of ggml.h, a macro: the mask arithmetic on size_t operands.\<close>

definition GGML_PAD :: "int \<Rightarrow> int \<Rightarrow> int" where
  "GGML_PAD x n = u64 (u64 (x + n) - 1) AND u64 (NOT (n - 1))"

definition GGML_MEM_ALIGN :: int where
  "GGML_MEM_ALIGN = 16"

lemma and_not_mask_int: "(x::int) AND NOT (2 ^ k - 1) = x div 2 ^ k * 2 ^ k"
proof -
  have "x AND NOT (mask k) = push_bit k (drop_bit k x)"
    by (rule bit_eqI) (auto simp: bit_simps)
  then show ?thesis
    by (simp add: mask_eq_exp_minus_1 push_bit_eq_mult drop_bit_eq_div)
qed

lemma and_u64_not_mask:
  assumes "is_u64 x" and "k \<le> 64"
  shows "x AND u64 (NOT (2 ^ k - 1)) = x div 2 ^ k * 2 ^ k"
proof -
  have "x = take_bit 64 x"
    using assms(1) by (simp add: is_u64_def take_bit_eq_mod)
  moreover have "u64 (NOT (2 ^ k - 1)) = take_bit 64 (NOT (2 ^ k - 1))"
    by (simp add: u64_def take_bit_eq_mod)
  ultimately have "x AND u64 (NOT (2 ^ k - 1)) = take_bit 64 (x AND NOT (2 ^ k - 1))"
    by (metis take_bit_and)
  also have "\<dots> = take_bit 64 (x div 2 ^ k * 2 ^ k)"
    by (simp only: and_not_mask_int)
  also have "\<dots> = x div 2 ^ k * 2 ^ k"
  proof -
    have "0 \<le> x div 2 ^ k * 2 ^ k"
      using assms(1) by (simp add: is_u64_def pos_imp_zdiv_nonneg_iff)
    moreover have "x div 2 ^ k * 2 ^ k \<le> x"
    proof -
      have "0 \<le> x mod 2 ^ k" by simp
      then show ?thesis using div_mult_mod_eq [of x "2 ^ k"] by linarith
    qed
    ultimately show ?thesis
      using assms(1) by (simp add: is_u64_def take_bit_eq_mod)
  qed
  finally show ?thesis .
qed

lemma GGML_PAD_16:
  assumes "0 \<le> x" "x \<le> SIZE_MAX - 15"
  shows "GGML_PAD x 16 = (x + 15) div 16 * 16"
proof (cases "x + 16 = 2 ^ 64")
  case True
  then have "x = 2 ^ 64 - 16" by simp
  then show ?thesis by (simp add: GGML_PAD_def u64_def)
next
  case False
  then have *: "u64 (u64 (x + 16) - 1) = x + 15"
    using assms by (simp add: SIZE_MAX_def u64_def)
  have "(x + 15) AND u64 (NOT (2 ^ 4 - 1)) = (x + 15) div 2 ^ 4 * 2 ^ 4"
    by (rule and_u64_not_mask) (use assms in \<open>simp_all add: is_u64_def SIZE_MAX_def\<close>)
  then show ?thesis
    using * by (simp add: GGML_PAD_def)
qed

lemma GGML_PAD_16_bounds:
  assumes "0 \<le> x" "x \<le> SIZE_MAX - 15"
  shows "x \<le> GGML_PAD x 16" "GGML_PAD x 16 < x + 16" "GGML_PAD x 16 mod 16 = 0" "0 \<le> GGML_PAD x 16"
  using assms by (simp_all add: GGML_PAD_16, presburger?)

section \<open>Failure\<close>

definition gassert :: "bool \<Rightarrow> unit option" where
  "gassert b = (if b then Some () else None)"

lemma gassert_Some [simp]: "gassert b = Some u \<longleftrightarrow> b"
  by (simp add: gassert_def)

lemma gassert_bind [simp]: "gassert b \<bind> f = (if b then f () else None)"
  by (simp add: gassert_def)

definition cdiv :: "int \<Rightarrow> int \<Rightarrow> int option" where
  "cdiv a b = (if b = 0 then None else Some (i64 (a sdiv b)))"

definition cmod :: "int \<Rightarrow> int \<Rightarrow> int option" where
  "cmod a b = (if b = 0 then None else Some (a smod b))"

lemma bind_Some_iff [monad_simps]: "m \<bind> f = Some y \<longleftrightarrow> (\<exists>x. m = Some x \<and> f x = Some y)"
  by (cases m) auto

lemma cdiv_Some [simp]: "cdiv a b = Some q \<longleftrightarrow> b \<noteq> 0 \<and> q = i64 (a sdiv b)"
  by (auto simp: cdiv_def)

lemma cmod_Some [simp]: "cmod a b = Some q \<longleftrightarrow> b \<noteq> 0 \<and> q = a smod b"
  by (auto simp: cmod_def)

lemma sdiv_nonneg: "0 \<le> a \<Longrightarrow> 0 \<le> b \<Longrightarrow> a sdiv b = (a::int) div b"
  by (simp add: signed_divide_int_def sgn_if)

lemma smod_nonneg: "0 \<le> a \<Longrightarrow> 0 < b \<Longrightarrow> a smod b = (a::int) mod b"
  by (simp add: signed_modulo_int_def sgn_if)

section \<open>Loops\<close>

primrec for_each :: "('a \<Rightarrow> 's \<Rightarrow> 's option) \<Rightarrow> 'a list \<Rightarrow> 's \<Rightarrow> 's option" where
  "for_each f [] s = Some s"
| "for_each f (x # xs) s = f x s \<bind> for_each f xs"

lemma for_each_mono [partial_function_mono]:
  assumes "\<And>x s. mono_option (\<lambda>f. F f x s)"
  shows "mono_option (\<lambda>f. for_each (F f) xs s)"
  using assms by (induction xs arbitrary: s) (auto intro!: partial_function_mono)

lemma for_each_append: "for_each f (xs @ ys) s = for_each f xs s \<bind> for_each f ys"
  by (induction xs arbitrary: s) (auto split: Option.bind_split)

lemma for_each_rule:
  assumes "I 0 s"
    and "\<And>i s. i < length xs \<Longrightarrow> I i s \<Longrightarrow> \<exists>s'. f (xs ! i) s = Some s' \<and> I (Suc i) s'"
  shows "\<exists>s'. for_each f xs s = Some s' \<and> I (length xs) s'"
  using assms
proof (induction xs arbitrary: s I)
  case Nil
  then show ?case by simp
next
  case (Cons x xs)
  obtain s1 where s1: "f x s = Some s1" "I (Suc 0) s1" using Cons.prems(2) [of 0 s] Cons.prems(1) by auto
  have "\<exists>s'. for_each f xs s1 = Some s' \<and> I (Suc (length xs)) s'"
    using Cons.IH [of "\<lambda>i. I (Suc i)" s1] s1(2) Cons.prems(2) by force
  then show ?case using s1(1) by auto
qed

lemma for_each_inv:
  assumes "for_each f xs s = Some s'" "I 0 s"
    and "\<And>i s s'. i < length xs \<Longrightarrow> I i s \<Longrightarrow> f (xs ! i) s = Some s' \<Longrightarrow> I (Suc i) s'"
  shows "I (length xs) s'"
  using assms
proof (induction xs arbitrary: s I)
  case Nil
  then show ?case by simp
next
  case (Cons x xs)
  obtain s1 where s1: "f x s = Some s1" "for_each f xs s1 = Some s'" using Cons.prems(1) by (auto simp: bind_Some_iff)
  have "I (Suc 0) s1" using Cons.prems(3) [of 0 s s1] Cons.prems(2) s1(1) by simp
  from Cons.IH [OF s1(2), of "\<lambda>i. I (Suc i)", OF this] show ?case using Cons.prems(3) by force
qed

section \<open>Failing for lack of room\<close>

text \<open>
  The outcome of a computation that fails only without room: a failure rules out room, a result satisfies P.
  It is total correctness when there is room, and partial correctness in any case.
\<close>

definition settles :: "bool \<Rightarrow> ('a \<Rightarrow> bool) \<Rightarrow> 'a option \<Rightarrow> bool" where
  "settles room P r \<longleftrightarrow> (case r of None \<Rightarrow> \<not> room | Some x \<Rightarrow> P x)"

lemma settles_simps [simp]: "settles room P None \<longleftrightarrow> \<not> room" "settles room P (Some x) \<longleftrightarrow> P x"
  by (simp_all add: settles_def)

lemma settlesD:
  assumes "settles room P r"
  shows "room \<Longrightarrow> \<exists>x. r = Some x \<and> P x" "r = Some x \<Longrightarrow> P x"
  using assms by (auto simp: settles_def split: option.splits)

lemma settles_bind: "settles room P m \<Longrightarrow> (\<And>x. P x \<Longrightarrow> settles room Q (f x)) \<Longrightarrow> settles room Q (m \<bind> f)"
  by (cases m) simp_all

lemma settles_for_each:
  assumes "I 0 s" and "\<And>i s. i < length xs \<Longrightarrow> I i s \<Longrightarrow> settles room (I (Suc i)) (f (xs ! i) s)"
  shows "settles room (I (length xs)) (for_each f xs s)"
  using assms
proof (induction xs arbitrary: s I)
  case (Cons x xs)
  have "settles room (I (Suc 0)) (f x s)" using Cons.prems(2) [of 0 s] Cons.prems(1) by simp
  moreover have "settles room (I (Suc (length xs))) (for_each f xs s1)" if "I (Suc 0) s1" for s1
    using Cons.IH [of "\<lambda>i. I (Suc i)" s1] that Cons.prems(2) by force
  ultimately show ?case by (auto intro: settles_bind)
qed simp

end
