(* ===== verification/GgmlTypes.thy ===== *)
theory GgmlTypes
  imports Prelude
begin

text \<open>
  The enumerations of ggml.h (ggml_type, ggml_op, ggml_unary_op, ggml_glu_op, ggml_ftype), the
  type_traits table of ggml.c with the block and element sizes of every storage type (the block
  structs of ggml-common.h), the name tables, and the accessors over them.  The to_float and
  from_float_ref entries are kept as the fact that the entry is not NULL.
\<close>

section \<open>Storage types\<close>

datatype (plugins only: code) ggml_type =
    GGML_TYPE_F32
  | GGML_TYPE_F16
  | GGML_TYPE_Q4_0
  | GGML_TYPE_Q4_1
  | GGML_TYPE_Q5_0
  | GGML_TYPE_Q5_1
  | GGML_TYPE_Q8_0
  | GGML_TYPE_Q8_1
  | GGML_TYPE_Q2_K
  | GGML_TYPE_Q3_K
  | GGML_TYPE_Q4_K
  | GGML_TYPE_Q5_K
  | GGML_TYPE_Q6_K
  | GGML_TYPE_Q8_K
  | GGML_TYPE_IQ2_XXS
  | GGML_TYPE_IQ2_XS
  | GGML_TYPE_IQ3_XXS
  | GGML_TYPE_IQ1_S
  | GGML_TYPE_IQ4_NL
  | GGML_TYPE_IQ3_S
  | GGML_TYPE_IQ2_S
  | GGML_TYPE_IQ4_XS
  | GGML_TYPE_I8
  | GGML_TYPE_I16
  | GGML_TYPE_I32
  | GGML_TYPE_I64
  | GGML_TYPE_F64
  | GGML_TYPE_IQ1_M
  | GGML_TYPE_BF16
  | GGML_TYPE_TQ1_0
  | GGML_TYPE_TQ2_0
  | GGML_TYPE_MXFP4
  | GGML_TYPE_NVFP4
  | GGML_TYPE_TURBO3_0
  | GGML_TYPE_TURBO4_0
  | GGML_TYPE_TURBO2_0
  | GGML_TYPE_PLANAR3_0
  | GGML_TYPE_ISO3_0
  | GGML_TYPE_PLANAR4_0
  | GGML_TYPE_ISO4_0

text \<open>The enumeration's values (ggml.h): 4, 5, 31-33 and 36-38 were removed and name no type.\<close>


primrec enum_of_type :: "ggml_type \<Rightarrow> int" where
    "enum_of_type GGML_TYPE_F32 = 0"
  | "enum_of_type GGML_TYPE_F16 = 1"
  | "enum_of_type GGML_TYPE_Q4_0 = 2"
  | "enum_of_type GGML_TYPE_Q4_1 = 3"
  | "enum_of_type GGML_TYPE_Q5_0 = 6"
  | "enum_of_type GGML_TYPE_Q5_1 = 7"
  | "enum_of_type GGML_TYPE_Q8_0 = 8"
  | "enum_of_type GGML_TYPE_Q8_1 = 9"
  | "enum_of_type GGML_TYPE_Q2_K = 10"
  | "enum_of_type GGML_TYPE_Q3_K = 11"
  | "enum_of_type GGML_TYPE_Q4_K = 12"
  | "enum_of_type GGML_TYPE_Q5_K = 13"
  | "enum_of_type GGML_TYPE_Q6_K = 14"
  | "enum_of_type GGML_TYPE_Q8_K = 15"
  | "enum_of_type GGML_TYPE_IQ2_XXS = 16"
  | "enum_of_type GGML_TYPE_IQ2_XS = 17"
  | "enum_of_type GGML_TYPE_IQ3_XXS = 18"
  | "enum_of_type GGML_TYPE_IQ1_S = 19"
  | "enum_of_type GGML_TYPE_IQ4_NL = 20"
  | "enum_of_type GGML_TYPE_IQ3_S = 21"
  | "enum_of_type GGML_TYPE_IQ2_S = 22"
  | "enum_of_type GGML_TYPE_IQ4_XS = 23"
  | "enum_of_type GGML_TYPE_I8 = 24"
  | "enum_of_type GGML_TYPE_I16 = 25"
  | "enum_of_type GGML_TYPE_I32 = 26"
  | "enum_of_type GGML_TYPE_I64 = 27"
  | "enum_of_type GGML_TYPE_F64 = 28"
  | "enum_of_type GGML_TYPE_IQ1_M = 29"
  | "enum_of_type GGML_TYPE_BF16 = 30"
  | "enum_of_type GGML_TYPE_TQ1_0 = 34"
  | "enum_of_type GGML_TYPE_TQ2_0 = 35"
  | "enum_of_type GGML_TYPE_MXFP4 = 39"
  | "enum_of_type GGML_TYPE_NVFP4 = 40"
  | "enum_of_type GGML_TYPE_TURBO3_0 = 41"
  | "enum_of_type GGML_TYPE_TURBO4_0 = 42"
  | "enum_of_type GGML_TYPE_TURBO2_0 = 43"
  | "enum_of_type GGML_TYPE_PLANAR3_0 = 44"
  | "enum_of_type GGML_TYPE_ISO3_0 = 45"
  | "enum_of_type GGML_TYPE_PLANAR4_0 = 46"
  | "enum_of_type GGML_TYPE_ISO4_0 = 47"

record ggml_type_traits =
  tt_type_name :: string
  tt_blck_size :: int
  tt_type_size :: int
  tt_is_quantized :: bool
  tt_to_float :: bool
  tt_from_float_ref :: bool

abbreviation (input) QK_K :: int where "QK_K \<equiv> 256"

primrec type_traits :: "ggml_type \<Rightarrow> ggml_type_traits" where
    "type_traits GGML_TYPE_F32 =
      \<lparr> tt_type_name = ''f32'', tt_blck_size = 1, tt_type_size = 4, tt_is_quantized = False,
        tt_to_float = False, tt_from_float_ref = False \<rparr>"
  | "type_traits GGML_TYPE_F16 =
      \<lparr> tt_type_name = ''f16'', tt_blck_size = 1, tt_type_size = 2, tt_is_quantized = False,
        tt_to_float = True, tt_from_float_ref = True \<rparr>"
  | "type_traits GGML_TYPE_Q4_0 =
      \<lparr> tt_type_name = ''q4_0'', tt_blck_size = 32, tt_type_size = 2 + 32 div 2, tt_is_quantized = True,
        tt_to_float = True, tt_from_float_ref = True \<rparr>"
  | "type_traits GGML_TYPE_Q4_1 =
      \<lparr> tt_type_name = ''q4_1'', tt_blck_size = 32, tt_type_size = 2 * 2 + 32 div 2, tt_is_quantized = True,
        tt_to_float = True, tt_from_float_ref = True \<rparr>"
  | "type_traits GGML_TYPE_Q5_0 =
      \<lparr> tt_type_name = ''q5_0'', tt_blck_size = 32, tt_type_size = 2 + 4 + 32 div 2, tt_is_quantized = True,
        tt_to_float = True, tt_from_float_ref = True \<rparr>"
  | "type_traits GGML_TYPE_Q5_1 =
      \<lparr> tt_type_name = ''q5_1'', tt_blck_size = 32, tt_type_size = 2 * 2 + 4 + 32 div 2, tt_is_quantized = True,
        tt_to_float = True, tt_from_float_ref = True \<rparr>"
  | "type_traits GGML_TYPE_Q8_0 =
      \<lparr> tt_type_name = ''q8_0'', tt_blck_size = 32, tt_type_size = 2 + 32, tt_is_quantized = True,
        tt_to_float = True, tt_from_float_ref = True \<rparr>"
  | "type_traits GGML_TYPE_Q8_1 =
      \<lparr> tt_type_name = ''q8_1'', tt_blck_size = 32, tt_type_size = 2 * 2 + 32, tt_is_quantized = True,
        tt_to_float = False, tt_from_float_ref = True \<rparr>"
  | "type_traits GGML_TYPE_Q2_K =
      \<lparr> tt_type_name = ''q2_K'', tt_blck_size = QK_K, tt_type_size = 2 * 2 + QK_K div 16 + QK_K div 4, tt_is_quantized = True,
        tt_to_float = True, tt_from_float_ref = True \<rparr>"
  | "type_traits GGML_TYPE_Q3_K =
      \<lparr> tt_type_name = ''q3_K'', tt_blck_size = QK_K, tt_type_size = 2 + QK_K div 4 + QK_K div 8 + 12, tt_is_quantized = True,
        tt_to_float = True, tt_from_float_ref = True \<rparr>"
  | "type_traits GGML_TYPE_Q4_K =
      \<lparr> tt_type_name = ''q4_K'', tt_blck_size = QK_K, tt_type_size = 2 * 2 + 12 + QK_K div 2, tt_is_quantized = True,
        tt_to_float = True, tt_from_float_ref = True \<rparr>"
  | "type_traits GGML_TYPE_Q5_K =
      \<lparr> tt_type_name = ''q5_K'', tt_blck_size = QK_K, tt_type_size = 2 * 2 + 12 + QK_K div 2 + QK_K div 8, tt_is_quantized = True,
        tt_to_float = True, tt_from_float_ref = True \<rparr>"
  | "type_traits GGML_TYPE_Q6_K =
      \<lparr> tt_type_name = ''q6_K'', tt_blck_size = QK_K, tt_type_size = 2 + QK_K div 16 + 3 * QK_K div 4, tt_is_quantized = True,
        tt_to_float = True, tt_from_float_ref = True \<rparr>"
  | "type_traits GGML_TYPE_Q8_K =
      \<lparr> tt_type_name = ''q8_K'', tt_blck_size = QK_K, tt_type_size = 4 + QK_K + QK_K div 16 * 2, tt_is_quantized = True,
        tt_to_float = False, tt_from_float_ref = False \<rparr>"
  | "type_traits GGML_TYPE_IQ2_XXS =
      \<lparr> tt_type_name = ''iq2_xxs'', tt_blck_size = QK_K, tt_type_size = 2 + QK_K div 8 * 2, tt_is_quantized = True,
        tt_to_float = True, tt_from_float_ref = False \<rparr>"
  | "type_traits GGML_TYPE_IQ2_XS =
      \<lparr> tt_type_name = ''iq2_xs'', tt_blck_size = QK_K, tt_type_size = 2 + QK_K div 8 * 2 + QK_K div 32, tt_is_quantized = True,
        tt_to_float = True, tt_from_float_ref = False \<rparr>"
  | "type_traits GGML_TYPE_IQ3_XXS =
      \<lparr> tt_type_name = ''iq3_xxs'', tt_blck_size = QK_K, tt_type_size = 2 + 3 * (QK_K div 8), tt_is_quantized = True,
        tt_to_float = True, tt_from_float_ref = True \<rparr>"
  | "type_traits GGML_TYPE_IQ1_S =
      \<lparr> tt_type_name = ''iq1_s'', tt_blck_size = QK_K, tt_type_size = 2 + QK_K div 8 + QK_K div 16, tt_is_quantized = True,
        tt_to_float = True, tt_from_float_ref = False \<rparr>"
  | "type_traits GGML_TYPE_IQ4_NL =
      \<lparr> tt_type_name = ''iq4_nl'', tt_blck_size = 32, tt_type_size = 2 + 32 div 2, tt_is_quantized = True,
        tt_to_float = True, tt_from_float_ref = True \<rparr>"
  | "type_traits GGML_TYPE_IQ3_S =
      \<lparr> tt_type_name = ''iq3_s'', tt_blck_size = QK_K, tt_type_size = 2 + 13 * (QK_K div 32) + QK_K div 64, tt_is_quantized = True,
        tt_to_float = True, tt_from_float_ref = True \<rparr>"
  | "type_traits GGML_TYPE_IQ2_S =
      \<lparr> tt_type_name = ''iq2_s'', tt_blck_size = QK_K, tt_type_size = 2 + QK_K div 4 + QK_K div 16, tt_is_quantized = True,
        tt_to_float = True, tt_from_float_ref = True \<rparr>"
  | "type_traits GGML_TYPE_IQ4_XS =
      \<lparr> tt_type_name = ''iq4_xs'', tt_blck_size = QK_K, tt_type_size = 2 + 2 + QK_K div 64 + QK_K div 2, tt_is_quantized = True,
        tt_to_float = True, tt_from_float_ref = True \<rparr>"
  | "type_traits GGML_TYPE_I8 =
      \<lparr> tt_type_name = ''i8'', tt_blck_size = 1, tt_type_size = 1, tt_is_quantized = False,
        tt_to_float = False, tt_from_float_ref = False \<rparr>"
  | "type_traits GGML_TYPE_I16 =
      \<lparr> tt_type_name = ''i16'', tt_blck_size = 1, tt_type_size = 2, tt_is_quantized = False,
        tt_to_float = False, tt_from_float_ref = False \<rparr>"
  | "type_traits GGML_TYPE_I32 =
      \<lparr> tt_type_name = ''i32'', tt_blck_size = 1, tt_type_size = 4, tt_is_quantized = False,
        tt_to_float = False, tt_from_float_ref = False \<rparr>"
  | "type_traits GGML_TYPE_I64 =
      \<lparr> tt_type_name = ''i64'', tt_blck_size = 1, tt_type_size = 8, tt_is_quantized = False,
        tt_to_float = False, tt_from_float_ref = False \<rparr>"
  | "type_traits GGML_TYPE_F64 =
      \<lparr> tt_type_name = ''f64'', tt_blck_size = 1, tt_type_size = 8, tt_is_quantized = False,
        tt_to_float = False, tt_from_float_ref = False \<rparr>"
  | "type_traits GGML_TYPE_IQ1_M =
      \<lparr> tt_type_name = ''iq1_m'', tt_blck_size = QK_K, tt_type_size = QK_K div 8 + QK_K div 16 + QK_K div 32, tt_is_quantized = True,
        tt_to_float = True, tt_from_float_ref = False \<rparr>"
  | "type_traits GGML_TYPE_BF16 =
      \<lparr> tt_type_name = ''bf16'', tt_blck_size = 1, tt_type_size = 2, tt_is_quantized = False,
        tt_to_float = True, tt_from_float_ref = True \<rparr>"
  | "type_traits GGML_TYPE_TQ1_0 =
      \<lparr> tt_type_name = ''tq1_0'', tt_blck_size = QK_K, tt_type_size = 2 + QK_K div 64 + (QK_K - 4 * QK_K div 64) div 5, tt_is_quantized = True,
        tt_to_float = True, tt_from_float_ref = True \<rparr>"
  | "type_traits GGML_TYPE_TQ2_0 =
      \<lparr> tt_type_name = ''tq2_0'', tt_blck_size = QK_K, tt_type_size = 2 + QK_K div 4, tt_is_quantized = True,
        tt_to_float = True, tt_from_float_ref = True \<rparr>"
  | "type_traits GGML_TYPE_MXFP4 =
      \<lparr> tt_type_name = ''mxfp4'', tt_blck_size = 32, tt_type_size = 1 + 32 div 2, tt_is_quantized = True,
        tt_to_float = True, tt_from_float_ref = True \<rparr>"
  | "type_traits GGML_TYPE_NVFP4 =
      \<lparr> tt_type_name = ''nvfp4'', tt_blck_size = 64, tt_type_size = 1 * (64 div 16) + 64 div 2, tt_is_quantized = True,
        tt_to_float = True, tt_from_float_ref = True \<rparr>"
  | "type_traits GGML_TYPE_TURBO3_0 =
      \<lparr> tt_type_name = ''turbo3'', tt_blck_size = 128, tt_type_size = 2 + 128 div 4 + 128 div 8, tt_is_quantized = True,
        tt_to_float = True, tt_from_float_ref = True \<rparr>"
  | "type_traits GGML_TYPE_TURBO4_0 =
      \<lparr> tt_type_name = ''turbo4'', tt_blck_size = 128, tt_type_size = 68, tt_is_quantized = True,
        tt_to_float = True, tt_from_float_ref = True \<rparr>"
  | "type_traits GGML_TYPE_TURBO2_0 =
      \<lparr> tt_type_name = ''turbo2'', tt_blck_size = 128, tt_type_size = 2 + 128 div 4, tt_is_quantized = True,
        tt_to_float = True, tt_from_float_ref = True \<rparr>"
  | "type_traits GGML_TYPE_PLANAR3_0 =
      \<lparr> tt_type_name = ''planar3'', tt_blck_size = 128, tt_type_size = 2 + 128 div 4 + 128 div 8, tt_is_quantized = True,
        tt_to_float = True, tt_from_float_ref = True \<rparr>"
  | "type_traits GGML_TYPE_ISO3_0 =
      \<lparr> tt_type_name = ''iso3'', tt_blck_size = 128, tt_type_size = 2 + 128 div 4 + 128 div 8, tt_is_quantized = True,
        tt_to_float = True, tt_from_float_ref = True \<rparr>"
  | "type_traits GGML_TYPE_PLANAR4_0 =
      \<lparr> tt_type_name = ''planar4'', tt_blck_size = 128, tt_type_size = 68, tt_is_quantized = True,
        tt_to_float = True, tt_from_float_ref = True \<rparr>"
  | "type_traits GGML_TYPE_ISO4_0 =
      \<lparr> tt_type_name = ''iso4'', tt_blck_size = 128, tt_type_size = 68, tt_is_quantized = True,
        tt_to_float = True, tt_from_float_ref = True \<rparr>"

section \<open>Operations\<close>

datatype (plugins only: extraction) ggml_op =
    GGML_OP_NONE
  | GGML_OP_DUP
  | GGML_OP_ADD
  | GGML_OP_ADD_ID
  | GGML_OP_ADD1
  | GGML_OP_ACC
  | GGML_OP_SUB
  | GGML_OP_MUL
  | GGML_OP_DIV
  | GGML_OP_SQR
  | GGML_OP_SQRT
  | GGML_OP_LOG
  | GGML_OP_SIN
  | GGML_OP_COS
  | GGML_OP_SUM
  | GGML_OP_SUM_ROWS
  | GGML_OP_CUMSUM
  | GGML_OP_MEAN
  | GGML_OP_ARGMAX
  | GGML_OP_COUNT_EQUAL
  | GGML_OP_REPEAT
  | GGML_OP_REPEAT_BACK
  | GGML_OP_CONCAT
  | GGML_OP_SILU_BACK
  | GGML_OP_NORM
  | GGML_OP_RMS_NORM
  | GGML_OP_RMS_NORM_BACK
  | GGML_OP_GROUP_NORM
  | GGML_OP_L2_NORM
  | GGML_OP_MUL_MAT
  | GGML_OP_MUL_MAT_ID
  | GGML_OP_OUT_PROD
  | GGML_OP_SCALE
  | GGML_OP_SET
  | GGML_OP_CPY
  | GGML_OP_CONT
  | GGML_OP_RESHAPE
  | GGML_OP_VIEW
  | GGML_OP_PERMUTE
  | GGML_OP_TRANSPOSE
  | GGML_OP_GET_ROWS
  | GGML_OP_GET_ROWS_BACK
  | GGML_OP_SET_ROWS
  | GGML_OP_DIAG
  | GGML_OP_DIAG_MASK_INF
  | GGML_OP_DIAG_MASK_ZERO
  | GGML_OP_SOFT_MAX
  | GGML_OP_SOFT_MAX_BACK
  | GGML_OP_ROPE
  | GGML_OP_ROPE_BACK
  | GGML_OP_CLAMP
  | GGML_OP_CONV_TRANSPOSE_1D
  | GGML_OP_IM2COL
  | GGML_OP_IM2COL_BACK
  | GGML_OP_IM2COL_3D
  | GGML_OP_CONV_2D
  | GGML_OP_CONV_3D
  | GGML_OP_CONV_2D_DW
  | GGML_OP_CONV_TRANSPOSE_2D
  | GGML_OP_POOL_1D
  | GGML_OP_POOL_2D
  | GGML_OP_POOL_2D_BACK
  | GGML_OP_UPSCALE
  | GGML_OP_PAD
  | GGML_OP_PAD_REFLECT_1D
  | GGML_OP_ROLL
  | GGML_OP_ARANGE
  | GGML_OP_TIMESTEP_EMBEDDING
  | GGML_OP_ARGSORT
  | GGML_OP_TOP_K
  | GGML_OP_LEAKY_RELU
  | GGML_OP_TRI
  | GGML_OP_FILL
  | GGML_OP_FLASH_ATTN_EXT
  | GGML_OP_FLASH_ATTN_BACK
  | GGML_OP_SSM_CONV
  | GGML_OP_SSM_SCAN
  | GGML_OP_WIN_PART
  | GGML_OP_WIN_UNPART
  | GGML_OP_GET_REL_POS
  | GGML_OP_ADD_REL_POS
  | GGML_OP_RWKV_WKV6
  | GGML_OP_GATED_LINEAR_ATTN
  | GGML_OP_RWKV_WKV7
  | GGML_OP_SOLVE_TRI
  | GGML_OP_GATED_DELTA_NET
  | GGML_OP_TURBO_WHT
  | GGML_OP_UNARY
  | GGML_OP_MAP_CUSTOM1
  | GGML_OP_MAP_CUSTOM2
  | GGML_OP_MAP_CUSTOM3
  | GGML_OP_CUSTOM
  | GGML_OP_CROSS_ENTROPY_LOSS
  | GGML_OP_CROSS_ENTROPY_LOSS_BACK
  | GGML_OP_OPT_STEP_ADAMW
  | GGML_OP_OPT_STEP_SGD
  | GGML_OP_GLU

primrec GGML_OP_NAME :: "ggml_op \<Rightarrow> string" where
    "GGML_OP_NAME GGML_OP_NONE = ''NONE''"
  | "GGML_OP_NAME GGML_OP_DUP = ''DUP''"
  | "GGML_OP_NAME GGML_OP_ADD = ''ADD''"
  | "GGML_OP_NAME GGML_OP_ADD_ID = ''ADD_ID''"
  | "GGML_OP_NAME GGML_OP_ADD1 = ''ADD1''"
  | "GGML_OP_NAME GGML_OP_ACC = ''ACC''"
  | "GGML_OP_NAME GGML_OP_SUB = ''SUB''"
  | "GGML_OP_NAME GGML_OP_MUL = ''MUL''"
  | "GGML_OP_NAME GGML_OP_DIV = ''DIV''"
  | "GGML_OP_NAME GGML_OP_SQR = ''SQR''"
  | "GGML_OP_NAME GGML_OP_SQRT = ''SQRT''"
  | "GGML_OP_NAME GGML_OP_LOG = ''LOG''"
  | "GGML_OP_NAME GGML_OP_SIN = ''SIN''"
  | "GGML_OP_NAME GGML_OP_COS = ''COS''"
  | "GGML_OP_NAME GGML_OP_SUM = ''SUM''"
  | "GGML_OP_NAME GGML_OP_SUM_ROWS = ''SUM_ROWS''"
  | "GGML_OP_NAME GGML_OP_CUMSUM = ''CUMSUM''"
  | "GGML_OP_NAME GGML_OP_MEAN = ''MEAN''"
  | "GGML_OP_NAME GGML_OP_ARGMAX = ''ARGMAX''"
  | "GGML_OP_NAME GGML_OP_COUNT_EQUAL = ''COUNT_EQUAL''"
  | "GGML_OP_NAME GGML_OP_REPEAT = ''REPEAT''"
  | "GGML_OP_NAME GGML_OP_REPEAT_BACK = ''REPEAT_BACK''"
  | "GGML_OP_NAME GGML_OP_CONCAT = ''CONCAT''"
  | "GGML_OP_NAME GGML_OP_SILU_BACK = ''SILU_BACK''"
  | "GGML_OP_NAME GGML_OP_NORM = ''NORM''"
  | "GGML_OP_NAME GGML_OP_RMS_NORM = ''RMS_NORM''"
  | "GGML_OP_NAME GGML_OP_RMS_NORM_BACK = ''RMS_NORM_BACK''"
  | "GGML_OP_NAME GGML_OP_GROUP_NORM = ''GROUP_NORM''"
  | "GGML_OP_NAME GGML_OP_L2_NORM = ''L2_NORM''"
  | "GGML_OP_NAME GGML_OP_MUL_MAT = ''MUL_MAT''"
  | "GGML_OP_NAME GGML_OP_MUL_MAT_ID = ''MUL_MAT_ID''"
  | "GGML_OP_NAME GGML_OP_OUT_PROD = ''OUT_PROD''"
  | "GGML_OP_NAME GGML_OP_SCALE = ''SCALE''"
  | "GGML_OP_NAME GGML_OP_SET = ''SET''"
  | "GGML_OP_NAME GGML_OP_CPY = ''CPY''"
  | "GGML_OP_NAME GGML_OP_CONT = ''CONT''"
  | "GGML_OP_NAME GGML_OP_RESHAPE = ''RESHAPE''"
  | "GGML_OP_NAME GGML_OP_VIEW = ''VIEW''"
  | "GGML_OP_NAME GGML_OP_PERMUTE = ''PERMUTE''"
  | "GGML_OP_NAME GGML_OP_TRANSPOSE = ''TRANSPOSE''"
  | "GGML_OP_NAME GGML_OP_GET_ROWS = ''GET_ROWS''"
  | "GGML_OP_NAME GGML_OP_GET_ROWS_BACK = ''GET_ROWS_BACK''"
  | "GGML_OP_NAME GGML_OP_SET_ROWS = ''SET_ROWS''"
  | "GGML_OP_NAME GGML_OP_DIAG = ''DIAG''"
  | "GGML_OP_NAME GGML_OP_DIAG_MASK_INF = ''DIAG_MASK_INF''"
  | "GGML_OP_NAME GGML_OP_DIAG_MASK_ZERO = ''DIAG_MASK_ZERO''"
  | "GGML_OP_NAME GGML_OP_SOFT_MAX = ''SOFT_MAX''"
  | "GGML_OP_NAME GGML_OP_SOFT_MAX_BACK = ''SOFT_MAX_BACK''"
  | "GGML_OP_NAME GGML_OP_ROPE = ''ROPE''"
  | "GGML_OP_NAME GGML_OP_ROPE_BACK = ''ROPE_BACK''"
  | "GGML_OP_NAME GGML_OP_CLAMP = ''CLAMP''"
  | "GGML_OP_NAME GGML_OP_CONV_TRANSPOSE_1D = ''CONV_TRANSPOSE_1D''"
  | "GGML_OP_NAME GGML_OP_IM2COL = ''IM2COL''"
  | "GGML_OP_NAME GGML_OP_IM2COL_BACK = ''IM2COL_BACK''"
  | "GGML_OP_NAME GGML_OP_IM2COL_3D = ''IM2COL_3D''"
  | "GGML_OP_NAME GGML_OP_CONV_2D = ''CONV_2D''"
  | "GGML_OP_NAME GGML_OP_CONV_3D = ''CONV_3D''"
  | "GGML_OP_NAME GGML_OP_CONV_2D_DW = ''CONV_2D_DW''"
  | "GGML_OP_NAME GGML_OP_CONV_TRANSPOSE_2D = ''CONV_TRANSPOSE_2D''"
  | "GGML_OP_NAME GGML_OP_POOL_1D = ''POOL_1D''"
  | "GGML_OP_NAME GGML_OP_POOL_2D = ''POOL_2D''"
  | "GGML_OP_NAME GGML_OP_POOL_2D_BACK = ''POOL_2D_BACK''"
  | "GGML_OP_NAME GGML_OP_UPSCALE = ''UPSCALE''"
  | "GGML_OP_NAME GGML_OP_PAD = ''PAD''"
  | "GGML_OP_NAME GGML_OP_PAD_REFLECT_1D = ''PAD_REFLECT_1D''"
  | "GGML_OP_NAME GGML_OP_ROLL = ''ROLL''"
  | "GGML_OP_NAME GGML_OP_ARANGE = ''ARANGE''"
  | "GGML_OP_NAME GGML_OP_TIMESTEP_EMBEDDING = ''TIMESTEP_EMBEDDING''"
  | "GGML_OP_NAME GGML_OP_ARGSORT = ''ARGSORT''"
  | "GGML_OP_NAME GGML_OP_TOP_K = ''TOP_K''"
  | "GGML_OP_NAME GGML_OP_LEAKY_RELU = ''LEAKY_RELU''"
  | "GGML_OP_NAME GGML_OP_TRI = ''TRI''"
  | "GGML_OP_NAME GGML_OP_FILL = ''FILL''"
  | "GGML_OP_NAME GGML_OP_FLASH_ATTN_EXT = ''FLASH_ATTN_EXT''"
  | "GGML_OP_NAME GGML_OP_FLASH_ATTN_BACK = ''FLASH_ATTN_BACK''"
  | "GGML_OP_NAME GGML_OP_SSM_CONV = ''SSM_CONV''"
  | "GGML_OP_NAME GGML_OP_SSM_SCAN = ''SSM_SCAN''"
  | "GGML_OP_NAME GGML_OP_WIN_PART = ''WIN_PART''"
  | "GGML_OP_NAME GGML_OP_WIN_UNPART = ''WIN_UNPART''"
  | "GGML_OP_NAME GGML_OP_GET_REL_POS = ''GET_REL_POS''"
  | "GGML_OP_NAME GGML_OP_ADD_REL_POS = ''ADD_REL_POS''"
  | "GGML_OP_NAME GGML_OP_RWKV_WKV6 = ''RWKV_WKV6''"
  | "GGML_OP_NAME GGML_OP_GATED_LINEAR_ATTN = ''GATED_LINEAR_ATTN''"
  | "GGML_OP_NAME GGML_OP_RWKV_WKV7 = ''RWKV_WKV7''"
  | "GGML_OP_NAME GGML_OP_SOLVE_TRI = ''SOLVE_TRI''"
  | "GGML_OP_NAME GGML_OP_GATED_DELTA_NET = ''GATED_DELTA_NET''"
  | "GGML_OP_NAME GGML_OP_TURBO_WHT = ''TURBO_WHT''"
  | "GGML_OP_NAME GGML_OP_UNARY = ''UNARY''"
  | "GGML_OP_NAME GGML_OP_MAP_CUSTOM1 = ''MAP_CUSTOM1''"
  | "GGML_OP_NAME GGML_OP_MAP_CUSTOM2 = ''MAP_CUSTOM2''"
  | "GGML_OP_NAME GGML_OP_MAP_CUSTOM3 = ''MAP_CUSTOM3''"
  | "GGML_OP_NAME GGML_OP_CUSTOM = ''CUSTOM''"
  | "GGML_OP_NAME GGML_OP_CROSS_ENTROPY_LOSS = ''CROSS_ENTROPY_LOSS''"
  | "GGML_OP_NAME GGML_OP_CROSS_ENTROPY_LOSS_BACK = ''CROSS_ENTROPY_LOSS_BACK''"
  | "GGML_OP_NAME GGML_OP_OPT_STEP_ADAMW = ''OPT_STEP_ADAMW''"
  | "GGML_OP_NAME GGML_OP_OPT_STEP_SGD = ''OPT_STEP_SGD''"
  | "GGML_OP_NAME GGML_OP_GLU = ''GLU''"

datatype (plugins only: code) ggml_unary_op =
    GGML_UNARY_OP_ABS
  | GGML_UNARY_OP_SGN
  | GGML_UNARY_OP_NEG
  | GGML_UNARY_OP_STEP
  | GGML_UNARY_OP_TANH
  | GGML_UNARY_OP_ELU
  | GGML_UNARY_OP_RELU
  | GGML_UNARY_OP_SIGMOID
  | GGML_UNARY_OP_GELU
  | GGML_UNARY_OP_GELU_QUICK
  | GGML_UNARY_OP_SILU
  | GGML_UNARY_OP_HARDSWISH
  | GGML_UNARY_OP_HARDSIGMOID
  | GGML_UNARY_OP_EXP
  | GGML_UNARY_OP_EXPM1
  | GGML_UNARY_OP_SOFTPLUS
  | GGML_UNARY_OP_GELU_ERF
  | GGML_UNARY_OP_XIELU
  | GGML_UNARY_OP_FLOOR
  | GGML_UNARY_OP_CEIL
  | GGML_UNARY_OP_ROUND
  | GGML_UNARY_OP_TRUNC

primrec GGML_UNARY_OP_NAME :: "ggml_unary_op \<Rightarrow> string" where
    "GGML_UNARY_OP_NAME GGML_UNARY_OP_ABS = ''ABS''"
  | "GGML_UNARY_OP_NAME GGML_UNARY_OP_SGN = ''SGN''"
  | "GGML_UNARY_OP_NAME GGML_UNARY_OP_NEG = ''NEG''"
  | "GGML_UNARY_OP_NAME GGML_UNARY_OP_STEP = ''STEP''"
  | "GGML_UNARY_OP_NAME GGML_UNARY_OP_TANH = ''TANH''"
  | "GGML_UNARY_OP_NAME GGML_UNARY_OP_ELU = ''ELU''"
  | "GGML_UNARY_OP_NAME GGML_UNARY_OP_RELU = ''RELU''"
  | "GGML_UNARY_OP_NAME GGML_UNARY_OP_SIGMOID = ''SIGMOID''"
  | "GGML_UNARY_OP_NAME GGML_UNARY_OP_GELU = ''GELU''"
  | "GGML_UNARY_OP_NAME GGML_UNARY_OP_GELU_QUICK = ''GELU_QUICK''"
  | "GGML_UNARY_OP_NAME GGML_UNARY_OP_SILU = ''SILU''"
  | "GGML_UNARY_OP_NAME GGML_UNARY_OP_HARDSWISH = ''HARDSWISH''"
  | "GGML_UNARY_OP_NAME GGML_UNARY_OP_HARDSIGMOID = ''HARDSIGMOID''"
  | "GGML_UNARY_OP_NAME GGML_UNARY_OP_EXP = ''EXP''"
  | "GGML_UNARY_OP_NAME GGML_UNARY_OP_EXPM1 = ''EXPM1''"
  | "GGML_UNARY_OP_NAME GGML_UNARY_OP_SOFTPLUS = ''SOFTPLUS''"
  | "GGML_UNARY_OP_NAME GGML_UNARY_OP_GELU_ERF = ''GELU_ERF''"
  | "GGML_UNARY_OP_NAME GGML_UNARY_OP_XIELU = ''XIELU''"
  | "GGML_UNARY_OP_NAME GGML_UNARY_OP_FLOOR = ''FLOOR''"
  | "GGML_UNARY_OP_NAME GGML_UNARY_OP_CEIL = ''CEIL''"
  | "GGML_UNARY_OP_NAME GGML_UNARY_OP_ROUND = ''ROUND''"
  | "GGML_UNARY_OP_NAME GGML_UNARY_OP_TRUNC = ''TRUNC''"

datatype (plugins only: code) ggml_glu_op =
    GGML_GLU_OP_REGLU
  | GGML_GLU_OP_GEGLU
  | GGML_GLU_OP_SWIGLU
  | GGML_GLU_OP_SWIGLU_OAI
  | GGML_GLU_OP_GEGLU_ERF
  | GGML_GLU_OP_GEGLU_QUICK

primrec GGML_GLU_OP_NAME :: "ggml_glu_op \<Rightarrow> string" where
    "GGML_GLU_OP_NAME GGML_GLU_OP_REGLU = ''REGLU''"
  | "GGML_GLU_OP_NAME GGML_GLU_OP_GEGLU = ''GEGLU''"
  | "GGML_GLU_OP_NAME GGML_GLU_OP_SWIGLU = ''SWIGLU''"
  | "GGML_GLU_OP_NAME GGML_GLU_OP_SWIGLU_OAI = ''SWIGLU_OAI''"
  | "GGML_GLU_OP_NAME GGML_GLU_OP_GEGLU_ERF = ''GEGLU_ERF''"
  | "GGML_GLU_OP_NAME GGML_GLU_OP_GEGLU_QUICK = ''GEGLU_QUICK''"

definition ggml_ops :: "ggml_op list" where
  "ggml_ops = [GGML_OP_NONE,
    GGML_OP_DUP,
    GGML_OP_ADD,
    GGML_OP_ADD_ID,
    GGML_OP_ADD1,
    GGML_OP_ACC,
    GGML_OP_SUB,
    GGML_OP_MUL,
    GGML_OP_DIV,
    GGML_OP_SQR,
    GGML_OP_SQRT,
    GGML_OP_LOG,
    GGML_OP_SIN,
    GGML_OP_COS,
    GGML_OP_SUM,
    GGML_OP_SUM_ROWS,
    GGML_OP_CUMSUM,
    GGML_OP_MEAN,
    GGML_OP_ARGMAX,
    GGML_OP_COUNT_EQUAL,
    GGML_OP_REPEAT,
    GGML_OP_REPEAT_BACK,
    GGML_OP_CONCAT,
    GGML_OP_SILU_BACK,
    GGML_OP_NORM,
    GGML_OP_RMS_NORM,
    GGML_OP_RMS_NORM_BACK,
    GGML_OP_GROUP_NORM,
    GGML_OP_L2_NORM,
    GGML_OP_MUL_MAT,
    GGML_OP_MUL_MAT_ID,
    GGML_OP_OUT_PROD,
    GGML_OP_SCALE,
    GGML_OP_SET,
    GGML_OP_CPY,
    GGML_OP_CONT,
    GGML_OP_RESHAPE,
    GGML_OP_VIEW,
    GGML_OP_PERMUTE,
    GGML_OP_TRANSPOSE,
    GGML_OP_GET_ROWS,
    GGML_OP_GET_ROWS_BACK,
    GGML_OP_SET_ROWS,
    GGML_OP_DIAG,
    GGML_OP_DIAG_MASK_INF,
    GGML_OP_DIAG_MASK_ZERO,
    GGML_OP_SOFT_MAX,
    GGML_OP_SOFT_MAX_BACK,
    GGML_OP_ROPE,
    GGML_OP_ROPE_BACK,
    GGML_OP_CLAMP,
    GGML_OP_CONV_TRANSPOSE_1D,
    GGML_OP_IM2COL,
    GGML_OP_IM2COL_BACK,
    GGML_OP_IM2COL_3D,
    GGML_OP_CONV_2D,
    GGML_OP_CONV_3D,
    GGML_OP_CONV_2D_DW,
    GGML_OP_CONV_TRANSPOSE_2D,
    GGML_OP_POOL_1D,
    GGML_OP_POOL_2D,
    GGML_OP_POOL_2D_BACK,
    GGML_OP_UPSCALE,
    GGML_OP_PAD,
    GGML_OP_PAD_REFLECT_1D,
    GGML_OP_ROLL,
    GGML_OP_ARANGE,
    GGML_OP_TIMESTEP_EMBEDDING,
    GGML_OP_ARGSORT,
    GGML_OP_TOP_K,
    GGML_OP_LEAKY_RELU,
    GGML_OP_TRI,
    GGML_OP_FILL,
    GGML_OP_FLASH_ATTN_EXT,
    GGML_OP_FLASH_ATTN_BACK,
    GGML_OP_SSM_CONV,
    GGML_OP_SSM_SCAN,
    GGML_OP_WIN_PART,
    GGML_OP_WIN_UNPART,
    GGML_OP_GET_REL_POS,
    GGML_OP_ADD_REL_POS,
    GGML_OP_RWKV_WKV6,
    GGML_OP_GATED_LINEAR_ATTN,
    GGML_OP_RWKV_WKV7,
    GGML_OP_SOLVE_TRI,
    GGML_OP_GATED_DELTA_NET,
    GGML_OP_TURBO_WHT,
    GGML_OP_UNARY,
    GGML_OP_MAP_CUSTOM1,
    GGML_OP_MAP_CUSTOM2,
    GGML_OP_MAP_CUSTOM3,
    GGML_OP_CUSTOM,
    GGML_OP_CROSS_ENTROPY_LOSS,
    GGML_OP_CROSS_ENTROPY_LOSS_BACK,
    GGML_OP_OPT_STEP_ADAMW,
    GGML_OP_OPT_STEP_SGD,
    GGML_OP_GLU]"

primrec enum_of_op :: "ggml_op \<Rightarrow> int" where
    "enum_of_op GGML_OP_NONE = 0"
  | "enum_of_op GGML_OP_DUP = 1"
  | "enum_of_op GGML_OP_ADD = 2"
  | "enum_of_op GGML_OP_ADD_ID = 3"
  | "enum_of_op GGML_OP_ADD1 = 4"
  | "enum_of_op GGML_OP_ACC = 5"
  | "enum_of_op GGML_OP_SUB = 6"
  | "enum_of_op GGML_OP_MUL = 7"
  | "enum_of_op GGML_OP_DIV = 8"
  | "enum_of_op GGML_OP_SQR = 9"
  | "enum_of_op GGML_OP_SQRT = 10"
  | "enum_of_op GGML_OP_LOG = 11"
  | "enum_of_op GGML_OP_SIN = 12"
  | "enum_of_op GGML_OP_COS = 13"
  | "enum_of_op GGML_OP_SUM = 14"
  | "enum_of_op GGML_OP_SUM_ROWS = 15"
  | "enum_of_op GGML_OP_CUMSUM = 16"
  | "enum_of_op GGML_OP_MEAN = 17"
  | "enum_of_op GGML_OP_ARGMAX = 18"
  | "enum_of_op GGML_OP_COUNT_EQUAL = 19"
  | "enum_of_op GGML_OP_REPEAT = 20"
  | "enum_of_op GGML_OP_REPEAT_BACK = 21"
  | "enum_of_op GGML_OP_CONCAT = 22"
  | "enum_of_op GGML_OP_SILU_BACK = 23"
  | "enum_of_op GGML_OP_NORM = 24"
  | "enum_of_op GGML_OP_RMS_NORM = 25"
  | "enum_of_op GGML_OP_RMS_NORM_BACK = 26"
  | "enum_of_op GGML_OP_GROUP_NORM = 27"
  | "enum_of_op GGML_OP_L2_NORM = 28"
  | "enum_of_op GGML_OP_MUL_MAT = 29"
  | "enum_of_op GGML_OP_MUL_MAT_ID = 30"
  | "enum_of_op GGML_OP_OUT_PROD = 31"
  | "enum_of_op GGML_OP_SCALE = 32"
  | "enum_of_op GGML_OP_SET = 33"
  | "enum_of_op GGML_OP_CPY = 34"
  | "enum_of_op GGML_OP_CONT = 35"
  | "enum_of_op GGML_OP_RESHAPE = 36"
  | "enum_of_op GGML_OP_VIEW = 37"
  | "enum_of_op GGML_OP_PERMUTE = 38"
  | "enum_of_op GGML_OP_TRANSPOSE = 39"
  | "enum_of_op GGML_OP_GET_ROWS = 40"
  | "enum_of_op GGML_OP_GET_ROWS_BACK = 41"
  | "enum_of_op GGML_OP_SET_ROWS = 42"
  | "enum_of_op GGML_OP_DIAG = 43"
  | "enum_of_op GGML_OP_DIAG_MASK_INF = 44"
  | "enum_of_op GGML_OP_DIAG_MASK_ZERO = 45"
  | "enum_of_op GGML_OP_SOFT_MAX = 46"
  | "enum_of_op GGML_OP_SOFT_MAX_BACK = 47"
  | "enum_of_op GGML_OP_ROPE = 48"
  | "enum_of_op GGML_OP_ROPE_BACK = 49"
  | "enum_of_op GGML_OP_CLAMP = 50"
  | "enum_of_op GGML_OP_CONV_TRANSPOSE_1D = 51"
  | "enum_of_op GGML_OP_IM2COL = 52"
  | "enum_of_op GGML_OP_IM2COL_BACK = 53"
  | "enum_of_op GGML_OP_IM2COL_3D = 54"
  | "enum_of_op GGML_OP_CONV_2D = 55"
  | "enum_of_op GGML_OP_CONV_3D = 56"
  | "enum_of_op GGML_OP_CONV_2D_DW = 57"
  | "enum_of_op GGML_OP_CONV_TRANSPOSE_2D = 58"
  | "enum_of_op GGML_OP_POOL_1D = 59"
  | "enum_of_op GGML_OP_POOL_2D = 60"
  | "enum_of_op GGML_OP_POOL_2D_BACK = 61"
  | "enum_of_op GGML_OP_UPSCALE = 62"
  | "enum_of_op GGML_OP_PAD = 63"
  | "enum_of_op GGML_OP_PAD_REFLECT_1D = 64"
  | "enum_of_op GGML_OP_ROLL = 65"
  | "enum_of_op GGML_OP_ARANGE = 66"
  | "enum_of_op GGML_OP_TIMESTEP_EMBEDDING = 67"
  | "enum_of_op GGML_OP_ARGSORT = 68"
  | "enum_of_op GGML_OP_TOP_K = 69"
  | "enum_of_op GGML_OP_LEAKY_RELU = 70"
  | "enum_of_op GGML_OP_TRI = 71"
  | "enum_of_op GGML_OP_FILL = 72"
  | "enum_of_op GGML_OP_FLASH_ATTN_EXT = 73"
  | "enum_of_op GGML_OP_FLASH_ATTN_BACK = 74"
  | "enum_of_op GGML_OP_SSM_CONV = 75"
  | "enum_of_op GGML_OP_SSM_SCAN = 76"
  | "enum_of_op GGML_OP_WIN_PART = 77"
  | "enum_of_op GGML_OP_WIN_UNPART = 78"
  | "enum_of_op GGML_OP_GET_REL_POS = 79"
  | "enum_of_op GGML_OP_ADD_REL_POS = 80"
  | "enum_of_op GGML_OP_RWKV_WKV6 = 81"
  | "enum_of_op GGML_OP_GATED_LINEAR_ATTN = 82"
  | "enum_of_op GGML_OP_RWKV_WKV7 = 83"
  | "enum_of_op GGML_OP_SOLVE_TRI = 84"
  | "enum_of_op GGML_OP_GATED_DELTA_NET = 85"
  | "enum_of_op GGML_OP_TURBO_WHT = 86"
  | "enum_of_op GGML_OP_UNARY = 87"
  | "enum_of_op GGML_OP_MAP_CUSTOM1 = 88"
  | "enum_of_op GGML_OP_MAP_CUSTOM2 = 89"
  | "enum_of_op GGML_OP_MAP_CUSTOM3 = 90"
  | "enum_of_op GGML_OP_CUSTOM = 91"
  | "enum_of_op GGML_OP_CROSS_ENTROPY_LOSS = 92"
  | "enum_of_op GGML_OP_CROSS_ENTROPY_LOSS_BACK = 93"
  | "enum_of_op GGML_OP_OPT_STEP_ADAMW = 94"
  | "enum_of_op GGML_OP_OPT_STEP_SGD = 95"
  | "enum_of_op GGML_OP_GLU = 96"

definition unary_ops :: "ggml_unary_op list" where
  "unary_ops = [GGML_UNARY_OP_ABS,
    GGML_UNARY_OP_SGN,
    GGML_UNARY_OP_NEG,
    GGML_UNARY_OP_STEP,
    GGML_UNARY_OP_TANH,
    GGML_UNARY_OP_ELU,
    GGML_UNARY_OP_RELU,
    GGML_UNARY_OP_SIGMOID,
    GGML_UNARY_OP_GELU,
    GGML_UNARY_OP_GELU_QUICK,
    GGML_UNARY_OP_SILU,
    GGML_UNARY_OP_HARDSWISH,
    GGML_UNARY_OP_HARDSIGMOID,
    GGML_UNARY_OP_EXP,
    GGML_UNARY_OP_EXPM1,
    GGML_UNARY_OP_SOFTPLUS,
    GGML_UNARY_OP_GELU_ERF,
    GGML_UNARY_OP_XIELU,
    GGML_UNARY_OP_FLOOR,
    GGML_UNARY_OP_CEIL,
    GGML_UNARY_OP_ROUND,
    GGML_UNARY_OP_TRUNC]"

definition glu_ops :: "ggml_glu_op list" where
  "glu_ops = [GGML_GLU_OP_REGLU,
    GGML_GLU_OP_GEGLU,
    GGML_GLU_OP_SWIGLU,
    GGML_GLU_OP_SWIGLU_OAI,
    GGML_GLU_OP_GEGLU_ERF,
    GGML_GLU_OP_GEGLU_QUICK]"

primrec enum_of_unary :: "ggml_unary_op \<Rightarrow> int" where
    "enum_of_unary GGML_UNARY_OP_ABS = 0"
  | "enum_of_unary GGML_UNARY_OP_SGN = 1"
  | "enum_of_unary GGML_UNARY_OP_NEG = 2"
  | "enum_of_unary GGML_UNARY_OP_STEP = 3"
  | "enum_of_unary GGML_UNARY_OP_TANH = 4"
  | "enum_of_unary GGML_UNARY_OP_ELU = 5"
  | "enum_of_unary GGML_UNARY_OP_RELU = 6"
  | "enum_of_unary GGML_UNARY_OP_SIGMOID = 7"
  | "enum_of_unary GGML_UNARY_OP_GELU = 8"
  | "enum_of_unary GGML_UNARY_OP_GELU_QUICK = 9"
  | "enum_of_unary GGML_UNARY_OP_SILU = 10"
  | "enum_of_unary GGML_UNARY_OP_HARDSWISH = 11"
  | "enum_of_unary GGML_UNARY_OP_HARDSIGMOID = 12"
  | "enum_of_unary GGML_UNARY_OP_EXP = 13"
  | "enum_of_unary GGML_UNARY_OP_EXPM1 = 14"
  | "enum_of_unary GGML_UNARY_OP_SOFTPLUS = 15"
  | "enum_of_unary GGML_UNARY_OP_GELU_ERF = 16"
  | "enum_of_unary GGML_UNARY_OP_XIELU = 17"
  | "enum_of_unary GGML_UNARY_OP_FLOOR = 18"
  | "enum_of_unary GGML_UNARY_OP_CEIL = 19"
  | "enum_of_unary GGML_UNARY_OP_ROUND = 20"
  | "enum_of_unary GGML_UNARY_OP_TRUNC = 21"

primrec enum_of_glu :: "ggml_glu_op \<Rightarrow> int" where
    "enum_of_glu GGML_GLU_OP_REGLU = 0"
  | "enum_of_glu GGML_GLU_OP_GEGLU = 1"
  | "enum_of_glu GGML_GLU_OP_SWIGLU = 2"
  | "enum_of_glu GGML_GLU_OP_SWIGLU_OAI = 3"
  | "enum_of_glu GGML_GLU_OP_GEGLU_ERF = 4"
  | "enum_of_glu GGML_GLU_OP_GEGLU_QUICK = 5"

section \<open>Accessors\<close>

definition ggml_get_type_traits :: "ggml_type \<Rightarrow> ggml_type_traits" where
  "ggml_get_type_traits ty = type_traits ty"

definition ggml_blck_size :: "ggml_type \<Rightarrow> int" where
  "ggml_blck_size ty = tt_blck_size (type_traits ty)"

definition ggml_type_size :: "ggml_type \<Rightarrow> int" where
  "ggml_type_size ty = tt_type_size (type_traits ty)"

definition ggml_type_name :: "ggml_type \<Rightarrow> string" where
  "ggml_type_name ty = tt_type_name (type_traits ty)"

definition ggml_is_quantized :: "ggml_type \<Rightarrow> bool" where
  "ggml_is_quantized ty = tt_is_quantized (type_traits ty)"

text \<open>size_t times int64_t is a size_t product; the division by the block size is unsigned.\<close>

definition ggml_row_size :: "ggml_type \<Rightarrow> int \<Rightarrow> int" where
  "ggml_row_size ty ne = u64 (ggml_type_size ty * ne) div ggml_blck_size ty"

definition ggml_op_name :: "ggml_op \<Rightarrow> string" where
  "ggml_op_name op = GGML_OP_NAME op"

definition ggml_unary_op_name :: "ggml_unary_op \<Rightarrow> string" where
  "ggml_unary_op_name op = GGML_UNARY_OP_NAME op"

definition ggml_glu_op_name :: "ggml_glu_op \<Rightarrow> string" where
  "ggml_glu_op_name op = GGML_GLU_OP_NAME op"

section \<open>Model file types\<close>

datatype (plugins only: code) ggml_ftype =
    GGML_FTYPE_ALL_F32
  | GGML_FTYPE_MOSTLY_F16
  | GGML_FTYPE_MOSTLY_BF16
  | GGML_FTYPE_MOSTLY_Q4_0
  | GGML_FTYPE_MOSTLY_Q4_1
  | GGML_FTYPE_MOSTLY_Q5_0
  | GGML_FTYPE_MOSTLY_Q5_1
  | GGML_FTYPE_MOSTLY_Q8_0
  | GGML_FTYPE_MOSTLY_MXFP4
  | GGML_FTYPE_MOSTLY_NVFP4
  | GGML_FTYPE_MOSTLY_Q2_K
  | GGML_FTYPE_MOSTLY_Q3_K
  | GGML_FTYPE_MOSTLY_Q4_K
  | GGML_FTYPE_MOSTLY_Q5_K
  | GGML_FTYPE_MOSTLY_Q6_K
  | GGML_FTYPE_MOSTLY_IQ2_XXS
  | GGML_FTYPE_MOSTLY_IQ2_XS
  | GGML_FTYPE_MOSTLY_IQ3_XXS
  | GGML_FTYPE_MOSTLY_IQ1_S
  | GGML_FTYPE_MOSTLY_IQ1_M
  | GGML_FTYPE_MOSTLY_IQ4_NL
  | GGML_FTYPE_MOSTLY_IQ4_XS
  | GGML_FTYPE_MOSTLY_IQ3_S
  | GGML_FTYPE_MOSTLY_IQ2_S
  | GGML_FTYPE_UNKNOWN
  | GGML_FTYPE_MOSTLY_Q4_1_SOME_F16

text \<open>The two cases the switch maps to GGML_TYPE_COUNT fail the assertion after it.\<close>

primrec ggml_ftype_to_ggml_type :: "ggml_ftype \<Rightarrow> ggml_type option" where
    "ggml_ftype_to_ggml_type GGML_FTYPE_ALL_F32 = Some GGML_TYPE_F32"
  | "ggml_ftype_to_ggml_type GGML_FTYPE_MOSTLY_F16 = Some GGML_TYPE_F16"
  | "ggml_ftype_to_ggml_type GGML_FTYPE_MOSTLY_BF16 = Some GGML_TYPE_BF16"
  | "ggml_ftype_to_ggml_type GGML_FTYPE_MOSTLY_Q4_0 = Some GGML_TYPE_Q4_0"
  | "ggml_ftype_to_ggml_type GGML_FTYPE_MOSTLY_Q4_1 = Some GGML_TYPE_Q4_1"
  | "ggml_ftype_to_ggml_type GGML_FTYPE_MOSTLY_Q5_0 = Some GGML_TYPE_Q5_0"
  | "ggml_ftype_to_ggml_type GGML_FTYPE_MOSTLY_Q5_1 = Some GGML_TYPE_Q5_1"
  | "ggml_ftype_to_ggml_type GGML_FTYPE_MOSTLY_Q8_0 = Some GGML_TYPE_Q8_0"
  | "ggml_ftype_to_ggml_type GGML_FTYPE_MOSTLY_MXFP4 = Some GGML_TYPE_MXFP4"
  | "ggml_ftype_to_ggml_type GGML_FTYPE_MOSTLY_NVFP4 = Some GGML_TYPE_NVFP4"
  | "ggml_ftype_to_ggml_type GGML_FTYPE_MOSTLY_Q2_K = Some GGML_TYPE_Q2_K"
  | "ggml_ftype_to_ggml_type GGML_FTYPE_MOSTLY_Q3_K = Some GGML_TYPE_Q3_K"
  | "ggml_ftype_to_ggml_type GGML_FTYPE_MOSTLY_Q4_K = Some GGML_TYPE_Q4_K"
  | "ggml_ftype_to_ggml_type GGML_FTYPE_MOSTLY_Q5_K = Some GGML_TYPE_Q5_K"
  | "ggml_ftype_to_ggml_type GGML_FTYPE_MOSTLY_Q6_K = Some GGML_TYPE_Q6_K"
  | "ggml_ftype_to_ggml_type GGML_FTYPE_MOSTLY_IQ2_XXS = Some GGML_TYPE_IQ2_XXS"
  | "ggml_ftype_to_ggml_type GGML_FTYPE_MOSTLY_IQ2_XS = Some GGML_TYPE_IQ2_XS"
  | "ggml_ftype_to_ggml_type GGML_FTYPE_MOSTLY_IQ3_XXS = Some GGML_TYPE_IQ3_XXS"
  | "ggml_ftype_to_ggml_type GGML_FTYPE_MOSTLY_IQ1_S = Some GGML_TYPE_IQ1_S"
  | "ggml_ftype_to_ggml_type GGML_FTYPE_MOSTLY_IQ1_M = Some GGML_TYPE_IQ1_M"
  | "ggml_ftype_to_ggml_type GGML_FTYPE_MOSTLY_IQ4_NL = Some GGML_TYPE_IQ4_NL"
  | "ggml_ftype_to_ggml_type GGML_FTYPE_MOSTLY_IQ4_XS = Some GGML_TYPE_IQ4_XS"
  | "ggml_ftype_to_ggml_type GGML_FTYPE_MOSTLY_IQ3_S = Some GGML_TYPE_IQ3_S"
  | "ggml_ftype_to_ggml_type GGML_FTYPE_MOSTLY_IQ2_S = Some GGML_TYPE_IQ2_S"
  | "ggml_ftype_to_ggml_type GGML_FTYPE_UNKNOWN = None"
  | "ggml_ftype_to_ggml_type GGML_FTYPE_MOSTLY_Q4_1_SOME_F16 = None"

section \<open>Facts about the tables\<close>

lemma ggml_blck_size_pos [simp]: "0 < ggml_blck_size ty"
  by (cases ty) (simp_all add: ggml_blck_size_def)

lemma ggml_blck_size_nz [simp]: "ggml_blck_size ty \<noteq> 0"
  by (metis ggml_blck_size_pos less_irrefl)

lemma ggml_blck_size_le: "ggml_blck_size ty \<le> 256"
  by (cases ty) (simp_all add: ggml_blck_size_def)

lemma ggml_type_size_pos [simp]: "0 < ggml_type_size ty"
  by (cases ty) (simp_all add: ggml_type_size_def)

lemma ggml_type_size_le: "ggml_type_size ty \<le> 292"
  by (cases ty) (simp_all add: ggml_type_size_def)

lemma ggml_is_quantized_iff: "ggml_is_quantized ty \<longleftrightarrow> 1 < ggml_blck_size ty"
  by (cases ty) (simp_all add: ggml_is_quantized_def ggml_blck_size_def)

lemma ggml_type_size_block: "ggml_is_quantized ty \<Longrightarrow> ggml_type_size ty < 2 * ggml_blck_size ty"
  by (cases ty) (simp_all add: ggml_is_quantized_def ggml_blck_size_def ggml_type_size_def)

lemma ggml_sizes_F32 [simp]:
  "ggml_blck_size GGML_TYPE_F32 = 1" "ggml_type_size GGML_TYPE_F32 = 4"
  "ggml_blck_size GGML_TYPE_F16 = 1" "ggml_type_size GGML_TYPE_F16 = 2"
  "ggml_blck_size GGML_TYPE_I32 = 1" "ggml_type_size GGML_TYPE_I32 = 4"
  "ggml_blck_size GGML_TYPE_I64 = 1" "ggml_type_size GGML_TYPE_I64 = 8"
  by (simp_all add: ggml_blck_size_def ggml_type_size_def)

text \<open>The enumeration values identify the constructors.\<close>

lemma ggml_ops_enum: "ggml_ops ! nat (enum_of_op x) = x"
  by (cases x; simp add: ggml_ops_def)

lemma enum_of_op_range: "0 \<le> enum_of_op x" "enum_of_op x < 97"
  by (cases x; simp)+

lemma enum_of_op_inj: "enum_of_op x = enum_of_op y \<longleftrightarrow> x = y"
  by (metis ggml_ops_enum)

lemma unary_ops_enum: "unary_ops ! nat (enum_of_unary x) = x"
  by (cases x; simp add: unary_ops_def)

lemma enum_of_unary_range: "0 \<le> enum_of_unary x" "enum_of_unary x < 22"
  by (cases x; simp)+

lemma glu_ops_enum: "glu_ops ! nat (enum_of_glu x) = x"
  by (cases x; simp add: glu_ops_def)

lemma enum_of_glu_range: "0 \<le> enum_of_glu x" "enum_of_glu x < 6"
  by (cases x; simp)+

lemma enum_of_type_inj: "enum_of_type x = enum_of_type y \<Longrightarrow> x = y"
  by (cases x; cases y) simp_all

text \<open>Operations and types are ordered by their enumeration values.\<close>

instantiation ggml_op :: linorder
begin

definition less_eq_ggml_op :: "ggml_op \<Rightarrow> ggml_op \<Rightarrow> bool" where
  "x \<le> y \<longleftrightarrow> enum_of_op x \<le> enum_of_op y"

definition less_ggml_op :: "ggml_op \<Rightarrow> ggml_op \<Rightarrow> bool" where
  "x < y \<longleftrightarrow> enum_of_op x < enum_of_op y"

instance
  by standard (auto simp: less_eq_ggml_op_def less_ggml_op_def enum_of_op_inj)

end

instantiation ggml_type :: linorder
begin

definition less_eq_ggml_type :: "ggml_type \<Rightarrow> ggml_type \<Rightarrow> bool" where
  "x \<le> y \<longleftrightarrow> enum_of_type x \<le> enum_of_type y"

definition less_ggml_type :: "ggml_type \<Rightarrow> ggml_type \<Rightarrow> bool" where
  "x < y \<longleftrightarrow> enum_of_type x < enum_of_type y"

instance
  by standard (auto simp: less_eq_ggml_type_def less_ggml_type_def dest: enum_of_type_inj)

end

end
