(* ===== verification/Tensor.thy ===== *)
theory Tensor
  imports GgmlTypes
begin

text \<open>
  struct ggml_tensor and the functions of ggml.c and ggml-impl.h that read one tensor or compare
  two: element, row and byte counts, the shape, stride and contiguity predicates, the operation
  parameters, the name, and the multi-index of an element.  The laws connect them: the byte size of
  a freshly laid out tensor, what contiguity means for the strides, when one shape repeats into
  another, and that unravelling an index inverts the row-major numbering.
\<close>

section \<open>The tensor\<close>

record ggml_tensor =
  t_type :: ggml_type
  t_buffer :: ptr
  t_ne :: "int list"
  t_nb :: "int list"
  t_op :: ggml_op
  t_op_params :: "32 word list"
  t_flags :: int
  t_src :: "ptr list"
  t_view_src :: ptr
  t_view_offs :: int
  t_data :: ptr
  t_name :: string
  t_extra :: ptr

definition GGML_MAX_DIMS :: nat where "GGML_MAX_DIMS = 4"

definition GGML_MAX_SRC :: nat where "GGML_MAX_SRC = 10"

definition GGML_MAX_NAME :: nat where "GGML_MAX_NAME = 64"

text \<open>GGML_MAX_OP_PARAMS is 64 bytes, 16 parameters of 32 bits.\<close>

definition GGML_N_OP_PARAMS :: nat where "GGML_N_OP_PARAMS = 16"

definition GGML_TENSOR_SIZE :: int where "GGML_TENSOR_SIZE = 336"

abbreviation ne_at :: "ggml_tensor \<Rightarrow> nat \<Rightarrow> int" where
  "ne_at t i \<equiv> t_ne t ! i"

abbreviation nb_at :: "ggml_tensor \<Rightarrow> nat \<Rightarrow> int" where
  "nb_at t i \<equiv> t_nb t ! i"

text \<open>The fixed lengths of the arrays.\<close>

definition tensor_shape_ok :: "ggml_tensor \<Rightarrow> bool" where
  "tensor_shape_ok t \<longleftrightarrow>
     length (t_ne t) = GGML_MAX_DIMS \<and> length (t_nb t) = GGML_MAX_DIMS \<and>
     length (t_op_params t) = GGML_N_OP_PARAMS \<and> length (t_src t) = GGML_MAX_SRC"

section \<open>Sizes\<close>

text \<open>
  Products of int64_t extents: the wrap after each multiplication and one wrap of the whole
  product are the same number.
\<close>

definition ggml_nelements :: "ggml_tensor \<Rightarrow> int" where
  "ggml_nelements t = i64 (ne_at t 0 * ne_at t 1 * ne_at t 2 * ne_at t 3)"

definition ggml_nrows :: "ggml_tensor \<Rightarrow> int" where
  "ggml_nrows t = i64 (ne_at t 1 * ne_at t 2 * ne_at t 3)"

text \<open>
  In ggml_nbytes every extent is an int64_t operand of a size_t product.  The loop over the
  dimensions adds (ne[i] - 1) * nb[i] to what has been counted.
\<close>

definition nbytes_strides :: "ggml_tensor \<Rightarrow> nat list \<Rightarrow> int \<Rightarrow> int" where
  "nbytes_strides t is n = fold (\<lambda>i acc. u64 (acc + (ne_at t i - 1) * nb_at t i)) is n"

definition ggml_nbytes :: "ggml_tensor \<Rightarrow> int" where
  "ggml_nbytes t =
     (if (\<exists>i \<in> set [0..<GGML_MAX_DIMS]. ne_at t i \<le> 0) then 0
      else if ggml_blck_size (t_type t) = 1
      then nbytes_strides t [0..<GGML_MAX_DIMS] (ggml_type_size (t_type t))
      else nbytes_strides t [1..<GGML_MAX_DIMS]
             (u64 (ne_at t 0 * nb_at t 0) div ggml_blck_size (t_type t)))"

definition ggml_nbytes_pad :: "ggml_tensor \<Rightarrow> int" where
  "ggml_nbytes_pad t = GGML_PAD (ggml_nbytes t) GGML_MEM_ALIGN"

definition ggml_element_size :: "ggml_tensor \<Rightarrow> int" where
  "ggml_element_size t = ggml_type_size (t_type t)"

text \<open>The strides ggml_new_tensor_impl gives a tensor without a source.\<close>

definition fresh_strides :: "ggml_type \<Rightarrow> int list \<Rightarrow> int list" where
  "fresh_strides ty ne =
     (let nb0 = ggml_type_size ty;
          nb1 = u64 (nb0 * (ne ! 0 sdiv ggml_blck_size ty));
          nb2 = u64 (nb1 * ne ! 1);
          nb3 = u64 (nb2 * ne ! 2)
      in [nb0, nb1, nb2, nb3])"

section \<open>Shape and stride predicates\<close>

definition ggml_is_scalar :: "ggml_tensor \<Rightarrow> bool" where
  "ggml_is_scalar t \<longleftrightarrow> ne_at t 0 = 1 \<and> ne_at t 1 = 1 \<and> ne_at t 2 = 1 \<and> ne_at t 3 = 1"

definition ggml_is_vector :: "ggml_tensor \<Rightarrow> bool" where
  "ggml_is_vector t \<longleftrightarrow> ne_at t 1 = 1 \<and> ne_at t 2 = 1 \<and> ne_at t 3 = 1"

definition ggml_is_matrix :: "ggml_tensor \<Rightarrow> bool" where
  "ggml_is_matrix t \<longleftrightarrow> ne_at t 2 = 1 \<and> ne_at t 3 = 1"

definition ggml_is_3d :: "ggml_tensor \<Rightarrow> bool" where
  "ggml_is_3d t \<longleftrightarrow> ne_at t 3 = 1"

text \<open>The loop runs over the dimensions 3, 2, 1 and returns at the first extent above 1.\<close>

fun n_dims_loop :: "ggml_tensor \<Rightarrow> nat \<Rightarrow> int" where
  "n_dims_loop t 0 = 1"
| "n_dims_loop t (Suc i) = (if ne_at t (Suc i) > 1 then int (Suc i) + 1 else n_dims_loop t i)"

definition ggml_n_dims :: "ggml_tensor \<Rightarrow> int" where
  "ggml_n_dims t = n_dims_loop t (GGML_MAX_DIMS - 1)"

definition ggml_is_transposed :: "ggml_tensor \<Rightarrow> bool" where
  "ggml_is_transposed t \<longleftrightarrow> nb_at t 0 > nb_at t 1"

fun contiguous_loop :: "ggml_tensor \<Rightarrow> nat \<Rightarrow> nat list \<Rightarrow> int \<Rightarrow> bool" where
  "contiguous_loop t n [] next_nb = True"
| "contiguous_loop t n (i # is) next_nb =
     (if i > n
      then (if ne_at t i \<noteq> 1 \<and> nb_at t i \<noteq> next_nb then False
            else contiguous_loop t n is (u64 (next_nb * ne_at t i)))
      else contiguous_loop t n is (u64 (ne_at t i * nb_at t i)))"

definition ggml_is_contiguous_n :: "ggml_tensor \<Rightarrow> nat \<Rightarrow> bool" where
  "ggml_is_contiguous_n t n =
     (let next_nb = ggml_type_size (t_type t) in
      if ne_at t 0 \<noteq> ggml_blck_size (t_type t) \<and> nb_at t 0 \<noteq> next_nb then False
      else contiguous_loop t n [1..<GGML_MAX_DIMS]
             (u64 (next_nb * (ne_at t 0 sdiv ggml_blck_size (t_type t)))))"

definition ggml_is_contiguous_0 :: "ggml_tensor \<Rightarrow> bool" where
  "ggml_is_contiguous_0 t = ggml_is_contiguous_n t 0"

definition ggml_is_contiguous :: "ggml_tensor \<Rightarrow> bool" where
  "ggml_is_contiguous t = ggml_is_contiguous_0 t"

definition ggml_is_contiguous_1 :: "ggml_tensor \<Rightarrow> bool" where
  "ggml_is_contiguous_1 t = ggml_is_contiguous_n t 1"

definition ggml_is_contiguous_2 :: "ggml_tensor \<Rightarrow> bool" where
  "ggml_is_contiguous_2 t = ggml_is_contiguous_n t 2"

definition ggml_is_contiguously_allocated :: "ggml_tensor \<Rightarrow> bool" where
  "ggml_is_contiguously_allocated t \<longleftrightarrow>
     ggml_nbytes t = u64 (ggml_nelements t * ggml_type_size (t_type t)) div ggml_blck_size (t_type t)"

definition ggml_is_permuted :: "ggml_tensor \<Rightarrow> bool" where
  "ggml_is_permuted t \<longleftrightarrow> nb_at t 0 > nb_at t 1 \<or> nb_at t 1 > nb_at t 2 \<or> nb_at t 2 > nb_at t 3"

definition ggml_is_contiguous_channels :: "ggml_tensor \<Rightarrow> bool" where
  "ggml_is_contiguous_channels t \<longleftrightarrow>
     nb_at t 0 > nb_at t 2 \<and> nb_at t 1 > nb_at t 0 \<and> nb_at t 2 = ggml_type_size (t_type t)"

definition ggml_is_contiguous_rows :: "ggml_tensor \<Rightarrow> bool" where
  "ggml_is_contiguous_rows t \<longleftrightarrow>
     ne_at t 0 = ggml_blck_size (t_type t) \<or> nb_at t 0 = ggml_type_size (t_type t)"

definition ggml_is_padded_1d :: "ggml_tensor \<Rightarrow> bool" where
  "ggml_is_padded_1d t \<longleftrightarrow>
     nb_at t 0 = ggml_type_size (t_type t) \<and>
     nb_at t 2 = u64 (nb_at t 1 * ne_at t 1) \<and>
     nb_at t 3 = u64 (nb_at t 2 * ne_at t 2)"

definition ggml_is_empty :: "ggml_tensor \<Rightarrow> bool" where
  "ggml_is_empty t \<longleftrightarrow> (\<exists>i \<in> set [0..<GGML_MAX_DIMS]. ne_at t i = 0)"

definition ggml_are_same_shape :: "ggml_tensor \<Rightarrow> ggml_tensor \<Rightarrow> bool" where
  "ggml_are_same_shape t0 t1 \<longleftrightarrow>
     ne_at t0 0 = ne_at t1 0 \<and> ne_at t0 1 = ne_at t1 1 \<and> ne_at t0 2 = ne_at t1 2 \<and> ne_at t0 3 = ne_at t1 3"

definition ggml_are_same_stride :: "ggml_tensor \<Rightarrow> ggml_tensor \<Rightarrow> bool" where
  "ggml_are_same_stride t0 t1 \<longleftrightarrow>
     nb_at t0 0 = nb_at t1 0 \<and> nb_at t0 1 = nb_at t1 1 \<and> nb_at t0 2 = nb_at t1 2 \<and> nb_at t0 3 = nb_at t1 3"

definition ggml_is_view :: "ggml_tensor \<Rightarrow> bool" where
  "ggml_is_view t \<longleftrightarrow> t_view_src t \<noteq> NULL"

text \<open>The remainders are taken only when t0 has no zero extent.\<close>

definition ggml_can_repeat :: "ggml_tensor \<Rightarrow> ggml_tensor \<Rightarrow> bool" where
  "ggml_can_repeat t0 t1 \<longleftrightarrow>
     (if ggml_is_empty t0 then ggml_is_empty t1
      else ne_at t1 0 smod ne_at t0 0 = 0 \<and> ne_at t1 1 smod ne_at t0 1 = 0 \<and>
           ne_at t1 2 smod ne_at t0 2 = 0 \<and> ne_at t1 3 smod ne_at t0 3 = 0)"

definition ggml_can_repeat_rows :: "ggml_tensor \<Rightarrow> ggml_tensor \<Rightarrow> bool" where
  "ggml_can_repeat_rows t0 t1 \<longleftrightarrow> ne_at t0 0 = ne_at t1 0 \<and> ggml_can_repeat t0 t1"

definition ggml_are_same_layout :: "ggml_tensor \<Rightarrow> ggml_tensor \<Rightarrow> bool" where
  "ggml_are_same_layout a b \<longleftrightarrow>
     t_type a = t_type b \<and>
     (\<forall>i \<in> set [0..<GGML_MAX_DIMS]. ne_at a i = ne_at b i \<and> nb_at a i = nb_at b i)"

definition ggml_op_is_empty :: "ggml_op \<Rightarrow> bool" where
  "ggml_op_is_empty op \<longleftrightarrow>
     op \<in> {GGML_OP_NONE, GGML_OP_RESHAPE, GGML_OP_TRANSPOSE, GGML_OP_VIEW, GGML_OP_PERMUTE}"

section \<open>Operation parameters and names\<close>

text \<open>
  op_params holds 16 parameters of 32 bits: an int32_t or the bits of a float.  memcpy of a
  parameter array overwrites a prefix.
\<close>

definition ggml_set_op_params :: "32 word list \<Rightarrow> ggml_tensor \<Rightarrow> ggml_tensor" where
  "ggml_set_op_params params t = t\<lparr> t_op_params := params @ drop (length params) (t_op_params t) \<rparr>"

definition ggml_get_op_params_i32 :: "ggml_tensor \<Rightarrow> nat \<Rightarrow> int" where
  "ggml_get_op_params_i32 t i = sint (t_op_params t ! i)"

definition ggml_get_op_params_f32 :: "ggml_tensor \<Rightarrow> nat \<Rightarrow> 32 word" where
  "ggml_get_op_params_f32 t i = t_op_params t ! i"

definition ggml_set_op_params_i32 :: "nat \<Rightarrow> int \<Rightarrow> ggml_tensor \<Rightarrow> ggml_tensor" where
  "ggml_set_op_params_i32 i v t = t\<lparr> t_op_params := (t_op_params t)[i := word_of_int v] \<rparr>"

definition ggml_set_op_params_f32 :: "nat \<Rightarrow> 32 word \<Rightarrow> ggml_tensor \<Rightarrow> ggml_tensor" where
  "ggml_set_op_params_f32 i v t = t\<lparr> t_op_params := (t_op_params t)[i := v] \<rparr>"

text \<open>The values stored are enumerators, so the C cast back to the enum is a table lookup.\<close>

definition ggml_get_unary_op :: "ggml_tensor \<Rightarrow> ggml_unary_op option" where
  "ggml_get_unary_op t = do {
     gassert (t_op t = GGML_OP_UNARY);
     let v = ggml_get_op_params_i32 t 0;
     if 0 \<le> v \<and> v < 22 then Some (unary_ops ! nat v) else None }"

definition ggml_get_glu_op :: "ggml_tensor \<Rightarrow> ggml_glu_op option" where
  "ggml_get_glu_op t = do {
     gassert (t_op t = GGML_OP_GLU);
     let v = ggml_get_op_params_i32 t 0;
     if 0 \<le> v \<and> v < 6 then Some (glu_ops ! nat v) else None }"

definition ggml_op_desc :: "ggml_tensor \<Rightarrow> string option" where
  "ggml_op_desc t =
     (if t_op t = GGML_OP_UNARY then map_option ggml_unary_op_name (ggml_get_unary_op t)
      else if t_op t = GGML_OP_GLU then map_option ggml_glu_op_name (ggml_get_glu_op t)
      else Some (ggml_op_name (t_op t)))"

text \<open>
  Names are C strings in an array of 64 characters.  ggml_set_name copies up to 63 characters;
  vsnprintf in ggml_format_name keeps the first 63 of the formatted text.
\<close>

definition ggml_set_name :: "string \<Rightarrow> ggml_tensor \<Rightarrow> ggml_tensor" where
  "ggml_set_name name t = t\<lparr> t_name := take (GGML_MAX_NAME - 1) name \<rparr>"

definition ggml_format_name :: "string \<Rightarrow> ggml_tensor \<Rightarrow> ggml_tensor" where
  "ggml_format_name text t = t\<lparr> t_name := take (GGML_MAX_NAME - 1) text \<rparr>"

section \<open>The multi-index of an element\<close>

definition ggml_unravel_index :: "ggml_tensor \<Rightarrow> int \<Rightarrow> (int \<times> int \<times> int \<times> int) option" where
  "ggml_unravel_index t i = do {
     let ne2 = ne_at t 2; let ne1 = ne_at t 1; let ne0 = ne_at t 0;
     i3 \<leftarrow> cdiv i (i64 (ne2 * ne1 * ne0));
     i2 \<leftarrow> cdiv (i64 (i - i3 * ne2 * ne1 * ne0)) (i64 (ne1 * ne0));
     i1 \<leftarrow> cdiv (i64 (i - i3 * ne2 * ne1 * ne0 - i2 * ne1 * ne0)) ne0;
     Some (i64 (i - i3 * ne2 * ne1 * ne0 - i2 * ne1 * ne0 - i1 * ne0), i1, i2, i3) }"

section \<open>Laws\<close>

lemma dims_upt [simp]:
  "[0..<GGML_MAX_DIMS] = [0, 1, 2, 3]" "[Suc 0..<GGML_MAX_DIMS] = [1, 2, 3]" "[1..<GGML_MAX_DIMS] = [1, 2, 3]"
  by (simp_all add: GGML_MAX_DIMS_def upt_rec)

lemma smod_eq_0_iff_dvd: "(a::int) smod b = 0 \<longleftrightarrow> b dvd a"
  by (cases "a = 0") (simp_all add: signed_modulo_int_def sgn_if mod_eq_0_iff_dvd)

lemma ggml_can_repeat_iff:
  "ggml_can_repeat t0 t1 \<longleftrightarrow>
     (if ggml_is_empty t0 then ggml_is_empty t1 else \<forall>i < 4. ne_at t0 i dvd ne_at t1 i)"
proof -
  have "(\<forall>i < 4. P i) \<longleftrightarrow> P 0 \<and> P 1 \<and> P 2 \<and> P (3::nat)" for P
    by (auto simp: numeral_eq_Suc less_Suc_eq)
  then show ?thesis
    by (simp add: ggml_can_repeat_def smod_eq_0_iff_dvd)
qed

lemma n_dims_loop_spec:
  "1 \<le> n_dims_loop t k \<and> n_dims_loop t k \<le> int k + 1 \<and>
   (\<forall>i. n_dims_loop t k \<le> int i \<and> i \<le> k \<longrightarrow> ne_at t i \<le> 1) \<and>
   (1 < n_dims_loop t k \<longrightarrow> 1 < ne_at t (nat (n_dims_loop t k - 1)))"
  by (induction k) (auto simp: le_Suc_eq nat_add_distrib)

text \<open>Extents that are positive, hold whole blocks and whose bytes fit in an int64_t.\<close>

definition sane_shape :: "ggml_type \<Rightarrow> int list \<Rightarrow> bool" where
  "sane_shape ty ne \<longleftrightarrow>
     length ne = GGML_MAX_DIMS \<and> (\<forall>n \<in> set ne. 0 < n) \<and> ne ! 0 mod ggml_blck_size ty = 0 \<and>
     ggml_type_size ty * (ne ! 0 * ne ! 1 * ne ! 2 * ne ! 3) < 2 ^ 63"

lemma sane_shapeD:
  assumes "sane_shape ty ne"
  shows "0 < ne ! 0" "0 < ne ! 1" "0 < ne ! 2" "0 < ne ! 3"
    "ne ! 0 = (ne ! 0 div ggml_blck_size ty) * ggml_blck_size ty"
    "0 < ne ! 0 div ggml_blck_size ty"
    "ggml_type_size ty * (ne ! 0 * ne ! 1 * ne ! 2 * ne ! 3) < 9223372036854775808"
proof -
  show pos: "0 < ne ! 0" "0 < ne ! 1" "0 < ne ! 2" "0 < ne ! 3"
    using assms by (simp_all add: sane_shape_def GGML_MAX_DIMS_def)
  show eq: "ne ! 0 = (ne ! 0 div ggml_blck_size ty) * ggml_blck_size ty"
    using assms div_mult_mod_eq [of "ne ! 0" "ggml_blck_size ty"] by (simp add: sane_shape_def)
  have "\<not> ne ! 0 div ggml_blck_size ty \<le> 0"
  proof
    assume "ne ! 0 div ggml_blck_size ty \<le> 0"
    then have "(ne ! 0 div ggml_blck_size ty) * ggml_blck_size ty \<le> 0"
      by (simp add: mult_nonpos_nonneg order_less_imp_le)
    then show False using eq pos by linarith
  qed
  then show "0 < ne ! 0 div ggml_blck_size ty" by simp
  show "ggml_type_size ty * (ne ! 0 * ne ! 1 * ne ! 2 * ne ! 3) < 9223372036854775808"
    using assms by (simp add: sane_shape_def)
qed

lemma mult_le_right: "0 < b \<Longrightarrow> 0 \<le> a \<Longrightarrow> a \<le> a * (b::int)"
  using mult_left_mono [of 1 b a] by simp

lemma fresh_strides_sane:
  assumes "sane_shape ty ne"
  defines "q \<equiv> ne ! 0 div ggml_blck_size ty" and "s \<equiv> ggml_type_size ty"
  shows "fresh_strides ty ne = [s, s * q, s * q * ne ! 1, s * q * ne ! 1 * ne ! 2]"
    and "0 < q" "s * q \<le> s * q * ne ! 1" "s * q * ne ! 1 \<le> s * q * ne ! 1 * ne ! 2"
    and "s * q * ne ! 1 * ne ! 2 \<le> s * q * ne ! 1 * ne ! 2 * ne ! 3"
    and "s * q * ne ! 1 * ne ! 2 * ne ! 3 < 9223372036854775808" "0 < s * q"
proof -
  note p = sane_shapeD [OF assms(1)]
  show q: "0 < q" using p unfolding q_def by simp
  have s: "0 < s" by (simp add: s_def)
  show sq: "0 < s * q" using s q by simp
  show l1: "s * q \<le> s * q * ne ! 1" using sq p by (intro mult_le_right) simp_all
  show l2: "s * q * ne ! 1 \<le> s * q * ne ! 1 * ne ! 2" using sq l1 p by (intro mult_le_right) linarith+
  show l3: "s * q * ne ! 1 * ne ! 2 \<le> s * q * ne ! 1 * ne ! 2 * ne ! 3"
    using sq l1 l2 p by (intro mult_le_right) linarith+
  have "q \<le> ne ! 0" using p(5) q mult_le_right [of "ggml_blck_size ty" q]
    unfolding q_def by simp
  then have "q * (s * ne ! 1 * ne ! 2 * ne ! 3) \<le> ne ! 0 * (s * ne ! 1 * ne ! 2 * ne ! 3)"
    using s p by (intro mult_right_mono) simp_all
  also have "\<dots> = s * (ne ! 0 * ne ! 1 * ne ! 2 * ne ! 3)" by (simp add: ac_simps)
  also have "\<dots> < 9223372036854775808" using p(7) by (simp add: s_def)
  finally show l4: "s * q * ne ! 1 * ne ! 2 * ne ! 3 < 9223372036854775808"
    by (simp add: ac_simps)
  have sd: "ne ! 0 sdiv ggml_blck_size ty = q"
    unfolding q_def using p(1) by (intro sdiv_nonneg) (simp_all add: order_less_imp_le)
  have "u64 (s * q) = s * q" "u64 (s * q * ne ! 1) = s * q * ne ! 1"
    "u64 (s * q * ne ! 1 * ne ! 2) = s * q * ne ! 1 * ne ! 2"
    using sq l1 l2 l3 l4 by (intro u64_id; linarith)+
  then show "fresh_strides ty ne = [s, s * q, s * q * ne ! 1, s * q * ne ! 1 * ne ! 2]"
    by (simp add: fresh_strides_def Let_def sd flip: s_def)
qed

lemma nbytes_of_strides:
  assumes "sane_shape (t_type t) (t_ne t)" "t_nb t = fresh_strides (t_type t) (t_ne t)"
  shows "ggml_nbytes t = ggml_row_size (t_type t) (ne_at t 0) * ne_at t 1 * ne_at t 2 * ne_at t 3"
    and "ggml_row_size (t_type t) (ne_at t 0) =
         ggml_type_size (t_type t) * (ne_at t 0 div ggml_blck_size (t_type t))"
proof -
  let ?s = "ggml_type_size (t_type t)" and ?b = "ggml_blck_size (t_type t)"
  let ?q = "ne_at t 0 div ?b"
  note p = sane_shapeD [OF assms(1)] and f = fresh_strides_sane [OF assms(1)]
  have s: "0 < ?s" "0 < ?b" by simp_all
  have le: "?s * ne_at t 0 < 9223372036854775808"
  proof -
    have "ne_at t 0 \<le> ne_at t 0 * (ne_at t 1 * ne_at t 2 * ne_at t 3)"
      using p by (intro mult_le_right) simp_all
    from mult_left_mono [OF this, of ?s] have "?s * ne_at t 0 \<le> ?s * (ne_at t 0 * (ne_at t 1 * ne_at t 2 * ne_at t 3))"
      using s by (simp add: mult_left_mono)
    also have "\<dots> < 9223372036854775808" using p(7) by (simp add: ac_simps)
    finally show ?thesis .
  qed
  then have u: "u64 (?s * ne_at t 0) = ?s * ne_at t 0"
    using p(1) s by (intro u64_id mult_nonneg_nonneg; linarith)
  have d: "?s * ne_at t 0 div ?b = ?s * ?q"
    by (subst p(5)) (simp add: mult.assoc [symmetric])
  show row: "ggml_row_size (t_type t) (ne_at t 0) = ?s * ?q"
    by (simp add: ggml_row_size_def u d)
  have head: "u64 (ne_at t 0 * nb_at t 0) div ?b = ?s * ?q"
    using u d by (simp add: assms(2) f(1) mult.commute)
  have one: "?s + (ne_at t 0 - 1) * nb_at t 0 = ?s * ?q" if "?b = 1"
    using that by (simp add: assms(2) f(1) algebra_simps)
  have s1: "?s * ?q + (ne_at t 1 - 1) * nb_at t 1 = ?s * ?q * ne_at t 1"
    and s2: "?s * ?q * ne_at t 1 + (ne_at t 2 - 1) * nb_at t 2 = ?s * ?q * ne_at t 1 * ne_at t 2"
    and s3: "?s * ?q * ne_at t 1 * ne_at t 2 + (ne_at t 3 - 1) * nb_at t 3 =
             ?s * ?q * ne_at t 1 * ne_at t 2 * ne_at t 3"
    by (simp_all add: assms(2) f(1) algebra_simps)
  have w: "u64 (?s * ?q) = ?s * ?q" "u64 (?s * ?q * ne_at t 1) = ?s * ?q * ne_at t 1"
    "u64 (?s * ?q * ne_at t 1 * ne_at t 2) = ?s * ?q * ne_at t 1 * ne_at t 2"
    "u64 (?s * ?q * ne_at t 1 * ne_at t 2 * ne_at t 3) = ?s * ?q * ne_at t 1 * ne_at t 2 * ne_at t 3"
    using f by (intro u64_id; linarith)+
  have pos: "\<not> (\<exists>i \<in> set [0..<GGML_MAX_DIMS]. ne_at t i \<le> 0)"
    using p by simp
  have "ggml_nbytes t = ?s * ?q * ne_at t 1 * ne_at t 2 * ne_at t 3"
  proof (cases "?b = 1")
    case True
    have "nbytes_strides t [0..<GGML_MAX_DIMS] ?s = ?s * ?q * ne_at t 1 * ne_at t 2 * ne_at t 3"
      by (simp only: dims_upt nbytes_strides_def fold.simps o_apply id_apply one [OF True] s1 s2 s3 w)
    then show ?thesis
      by (simp only: ggml_nbytes_def if_not_P [OF pos] if_P [OF True])
  next
    case False
    have "nbytes_strides t [1..<GGML_MAX_DIMS] (?s * ?q) = ?s * ?q * ne_at t 1 * ne_at t 2 * ne_at t 3"
      by (simp only: dims_upt nbytes_strides_def fold.simps o_apply id_apply s1 s2 s3 w)
    then show ?thesis
      by (simp only: ggml_nbytes_def if_not_P [OF pos] if_not_P [OF False] head)
  qed
  then show "ggml_nbytes t = ggml_row_size (t_type t) (ne_at t 0) * ne_at t 1 * ne_at t 2 * ne_at t 3"
    by (simp only: row)
qed

lemma contiguous_of_strides:
  assumes "t_nb t = fresh_strides (t_type t) (t_ne t)"
  shows "ggml_is_contiguous t"
proof -
  have "contiguous_loop t 0 [1, 2, 3]
     (u64 (ggml_type_size (t_type t) * (ne_at t 0 sdiv ggml_blck_size (t_type t))))"
    by (simp add: assms fresh_strides_def Let_def)
  then show ?thesis
    by (simp add: ggml_is_contiguous_def ggml_is_contiguous_0_def ggml_is_contiguous_n_def assms
        fresh_strides_def Let_def)
qed

lemma contiguous_loop_step:
  "0 < i \<Longrightarrow> contiguous_loop t 0 (i # is) nn \<longleftrightarrow>
     (ne_at t i = 1 \<or> nb_at t i = nn) \<and> contiguous_loop t 0 is (u64 (nn * ne_at t i))"
  by auto

text \<open>
  What contiguity says of the strides: each one is the size of the dimension below, unless the
  extent is 1 (then the stride is never used to step).
\<close>

lemma ggml_is_contiguous_iff:
  assumes "sane_shape (t_type t) (t_ne t)"
  shows "ggml_is_contiguous t \<longleftrightarrow>
    (let s = ggml_type_size (t_type t); q = ne_at t 0 div ggml_blck_size (t_type t) in
      (ne_at t 0 = ggml_blck_size (t_type t) \<or> nb_at t 0 = s) \<and>
      (ne_at t 1 = 1 \<or> nb_at t 1 = s * q) \<and>
      (ne_at t 2 = 1 \<or> nb_at t 2 = s * q * ne_at t 1) \<and>
      (ne_at t 3 = 1 \<or> nb_at t 3 = s * q * ne_at t 1 * ne_at t 2))"
proof -
  let ?s = "ggml_type_size (t_type t)" and ?q = "ne_at t 0 div ggml_blck_size (t_type t)"
  note f = fresh_strides_sane [OF assms] and p = sane_shapeD [OF assms]
  have w: "u64 (?s * ?q) = ?s * ?q" "u64 (?s * ?q * ne_at t 1) = ?s * ?q * ne_at t 1"
    "u64 (?s * ?q * ne_at t 1 * ne_at t 2) = ?s * ?q * ne_at t 1 * ne_at t 2"
    using f by (intro u64_id; linarith)+
  have sd: "ne_at t 0 sdiv ggml_blck_size (t_type t) = ?q"
    using p(1) by (intro sdiv_nonneg) (simp_all add: order_less_imp_le)
  have "contiguous_loop t 0 [1, 2, 3] (?s * ?q) \<longleftrightarrow>
      (ne_at t 1 = 1 \<or> nb_at t 1 = ?s * ?q) \<and> (ne_at t 2 = 1 \<or> nb_at t 2 = ?s * ?q * ne_at t 1) \<and>
      (ne_at t 3 = 1 \<or> nb_at t 3 = ?s * ?q * ne_at t 1 * ne_at t 2)"
    by (simp only: contiguous_loop_step zero_less_one zero_less_numeral w contiguous_loop.simps(1) simp_thms)
  then show ?thesis
    unfolding ggml_is_contiguous_def ggml_is_contiguous_0_def ggml_is_contiguous_n_def Let_def sd w dims_upt
    by argo
qed

text \<open>Every element of a tensor with positive extents lies inside its ggml_nbytes bytes.\<close>

definition element_offset :: "ggml_tensor \<Rightarrow> int \<Rightarrow> int \<Rightarrow> int \<Rightarrow> int \<Rightarrow> int" where
  "element_offset t i0 i1 i2 i3 = i0 * nb_at t 0 + i1 * nb_at t 1 + i2 * nb_at t 2 + i3 * nb_at t 3"

lemma element_offset_bound:
  assumes "ggml_blck_size (t_type t) = 1"
    and "0 \<le> nb_at t 0" "0 \<le> nb_at t 1" "0 \<le> nb_at t 2" "0 \<le> nb_at t 3"
    and "0 \<le> i0" "i0 < ne_at t 0" "0 \<le> i1" "i1 < ne_at t 1"
    and "0 \<le> i2" "i2 < ne_at t 2" "0 \<le> i3" "i3 < ne_at t 3"
    and fits: "ggml_type_size (t_type t) + element_offset t (ne_at t 0 - 1) (ne_at t 1 - 1)
                 (ne_at t 2 - 1) (ne_at t 3 - 1) < 2 ^ 64"
  shows "element_offset t i0 i1 i2 i3 + ggml_type_size (t_type t) \<le> ggml_nbytes t"
proof -
  let ?s = "ggml_type_size (t_type t)"
  let ?m = "\<lambda>i. (ne_at t i - 1) * nb_at t i"
  have m: "0 \<le> ?m 0" "0 \<le> ?m 1" "0 \<le> ?m 2" "0 \<le> ?m 3"
    using assms by simp_all
  have s: "0 < ?s" by simp
  have fit: "?s + ?m 0 + ?m 1 + ?m 2 + ?m 3 < 18446744073709551616"
    using fits by (simp add: element_offset_def)
  have w: "u64 (?s + ?m 0) = ?s + ?m 0" "u64 (?s + ?m 0 + ?m 1) = ?s + ?m 0 + ?m 1"
    "u64 (?s + ?m 0 + ?m 1 + ?m 2) = ?s + ?m 0 + ?m 1 + ?m 2"
    "u64 (?s + ?m 0 + ?m 1 + ?m 2 + ?m 3) = ?s + ?m 0 + ?m 1 + ?m 2 + ?m 3"
    using m s fit by (intro u64_id; linarith)+
  have pos: "\<not> (\<exists>i \<in> set [0..<GGML_MAX_DIMS]. ne_at t i \<le> 0)"
    using assms by simp
  have n: "ggml_nbytes t = ?s + ?m 0 + ?m 1 + ?m 2 + ?m 3"
    unfolding ggml_nbytes_def if_not_P [OF pos] if_P [OF assms(1)]
    by (simp only: nbytes_strides_def dims_upt fold.simps o_apply id_apply w)
  have "i0 * nb_at t 0 \<le> ?m 0" "i1 * nb_at t 1 \<le> ?m 1" "i2 * nb_at t 2 \<le> ?m 2" "i3 * nb_at t 3 \<le> ?m 3"
    using assms by (intro mult_right_mono; simp)+
  then show ?thesis
    unfolding n element_offset_def by linarith
qed

text \<open>Unravelling inverts the row-major numbering.\<close>

lemma div_less_mult: "0 < q \<Longrightarrow> m < n * q \<Longrightarrow> m div q < (n::int)"
  by (metis div_mult_mod_eq le_add_same_cancel1 mult_le_cancel_right_pos not_le order.strict_trans1
      pos_mod_sign)

lemma div_le_self: "0 \<le> m \<Longrightarrow> 0 < q \<Longrightarrow> m div q \<le> (m::int)"
  using zdiv_mono2 [of m 1 q] by simp

lemma row_major_digits:
  fixes i :: int
  assumes "0 < a" "0 < b" "0 < c" "0 \<le> i" "i < a * b * c * d"
  defines "k \<equiv> i div (c * b * a)" and "r \<equiv> i mod (c * b * a)"
  defines "j \<equiv> r div (b * a)" and "s \<equiv> r mod (b * a)"
  shows "i = s mod a + a * (s div a + b * (j + c * k))"
    and "0 \<le> s mod a" "s mod a < a" "0 \<le> s div a" "s div a < b" "0 \<le> j" "j < c" "0 \<le> k" "k < d"
proof -
  have ba: "0 < b * a" and cba: "0 < c * b * a" using assms by simp_all
  show "0 \<le> s mod a" "s mod a < a" "0 \<le> k" "0 \<le> j" "0 \<le> s div a"
    using assms ba cba by (simp_all add: pos_imp_zdiv_nonneg_iff)
  show "k < d"
  proof -
    have "i < d * (c * b * a)" using assms(5) by (simp add: ac_simps)
    then show ?thesis unfolding k_def using div_less_mult [OF cba] by blast
  qed
  have "r < c * (b * a)" using cba by (simp add: r_def ac_simps)
  then show "j < c" unfolding j_def using div_less_mult [OF ba] by blast
  have "s < b * a" using ba by (simp add: s_def)
  then show "s div a < b" using div_less_mult [OF assms(1)] by blast
  have "i = k * (c * b * a) + r" "r = j * (b * a) + s" "s = (s div a) * a + s mod a"
    by (simp_all only: k_def r_def j_def s_def div_mult_mod_eq)
  then have "i = k * (c * b * a) + (j * (b * a) + ((s div a) * a + s mod a))"
    by metis
  then show "i = s mod a + a * (s div a + b * (j + c * k))"
    by (simp add: algebra_simps)
qed


lemma ggml_unravel_index_spec:
  assumes pos: "0 < ne_at t 0" "0 < ne_at t 1" "0 < ne_at t 2"
    and i: "0 \<le> i" "i < ne_at t 0 * ne_at t 1 * ne_at t 2 * ne_at t 3"
    and fits: "ne_at t 0 * ne_at t 1 * ne_at t 2 < 2 ^ 63" "i < 2 ^ 63"
  shows "\<exists>i0 i1 i2 i3. ggml_unravel_index t i = Some (i0, i1, i2, i3) \<and>
    i = i0 + ne_at t 0 * (i1 + ne_at t 1 * (i2 + ne_at t 2 * i3)) \<and>
    0 \<le> i0 \<and> i0 < ne_at t 0 \<and> 0 \<le> i1 \<and> i1 < ne_at t 1 \<and>
    0 \<le> i2 \<and> i2 < ne_at t 2 \<and> 0 \<le> i3 \<and> i3 < ne_at t 3"
proof -
  define a b c where "a = ne_at t 0" and "b = ne_at t 1" and "c = ne_at t 2"
  define k r where "k = i div (c * b * a)" and "r = i mod (c * b * a)"
  define j s where "j = r div (b * a)" and "s = r mod (b * a)"
  note abc = pos [folded a_def b_def c_def]
  have ba: "0 < b * a" and cba: "0 < c * b * a" using abc by simp_all
  note d = row_major_digits [OF abc i [folded a_def b_def c_def], folded k_def r_def, folded j_def s_def]
  have le: "b * a \<le> c * b * a" using mult_le_right [of c "b * a"] ba abc by (simp add: ac_simps)
  have lt: "c * b * a < 9223372036854775808"
    using fits(1) by (simp add: a_def b_def c_def ac_simps)
  have "a \<le> b * a" using mult_le_right [of b a] abc by (simp add: ac_simps)
  have r0: "0 \<le> r" "r < 9223372036854775808" "0 \<le> s" "s < 9223372036854775808"
  proof -
    have "r < c * b * a" "s < b * a" "0 \<le> r" "0 \<le> s"
      unfolding r_def s_def using ba cba by (simp_all del: mult_pos_pos)
    then show "0 \<le> r" "r < 9223372036854775808" "0 \<le> s" "s < 9223372036854775808"
      using le lt by linarith+
  qed
  have s1: "i sdiv (c * b * a) = k" "r sdiv (b * a) = j" "s sdiv a = s div a"
    unfolding k_def j_def using i(1) r0 ba cba abc by (intro sdiv_nonneg; linarith)+
  have kle: "k \<le> i" "j \<le> r" "s div a \<le> s"
    unfolding k_def j_def using i(1) r0 ba cba abc by (intro div_le_self; linarith)+
  have e: "i - k * c * b * a = r" "r - j * b * a = s" "s - s div a * a = s mod a"
    unfolding k_def r_def j_def s_def by (simp_all add: minus_div_mult_eq_mod [symmetric] mult.assoc)
  have w: "i64 (c * b * a) = c * b * a" "i64 (b * a) = b * a" "i64 k = k" "i64 r = r" "i64 j = j"
    "i64 s = s" "i64 (s div a) = s div a" "i64 (s mod a) = s mod a"
    using ba cba le lt kle r0 d(2-) fits(2) [simplified] \<open>a \<le> b * a\<close> by (intro i64_id; linarith)+
  have "ggml_unravel_index t i = Some (s mod a, s div a, j, k)"
    unfolding ggml_unravel_index_def Let_def a_def [symmetric] b_def [symmetric] c_def [symmetric]
    using ba cba abc by (simp add: cdiv_def w s1 e)
  then show ?thesis
    using d unfolding a_def [symmetric] b_def [symmetric] c_def [symmetric] by blast
qed

section \<open>Properties\<close>

text \<open>A tensor with the strides ggml_new_tensor_impl computes, used in examples.\<close>

definition demo_tensor :: "ggml_type \<Rightarrow> int list \<Rightarrow> ggml_tensor" where
  "demo_tensor ty ne =
     \<lparr> t_type = ty, t_buffer = 0, t_ne = ne, t_nb = fresh_strides ty ne, t_op = GGML_OP_NONE,
       t_op_params = replicate GGML_N_OP_PARAMS 0, t_flags = 0, t_src = replicate GGML_MAX_SRC 0,
       t_view_src = 0, t_view_offs = 0, t_data = 4096, t_name = [], t_extra = 0 \<rparr>"

text \<open>C24: The index ggml_unravel_index computes for an element in row-major order is the inverse of the
  row-major order: it is in range in every dimension and numbers the element i again.  The
  extents of the first three dimensions are positive, and their product and i fit the int64_t of the code.\<close>

theorem unravel_roundtrip:
  assumes "0 < ne_at t 0" "0 < ne_at t 1" "0 < ne_at t 2"
    and "0 \<le> i" "i < ne_at t 0 * ne_at t 1 * ne_at t 2 * ne_at t 3"
    and "ne_at t 0 * ne_at t 1 * ne_at t 2 < 2 ^ 63" "i < 2 ^ 63"
  shows "\<exists>i0 i1 i2 i3. ggml_unravel_index t i = Some (i0, i1, i2, i3) \<and>
    i = i0 + ne_at t 0 * (i1 + ne_at t 1 * (i2 + ne_at t 2 * i3)) \<and>
    i0 \<in> {0..<ne_at t 0} \<and> i1 \<in> {0..<ne_at t 1} \<and> i2 \<in> {0..<ne_at t 2} \<and> i3 \<in> {0..<ne_at t 3}"
  using ggml_unravel_index_spec [OF assms] by fastforce

theorem unravel_roundtrip_witness:
  "\<exists>i0 i1 i2 i3. ggml_unravel_index (demo_tensor GGML_TYPE_F32 [2, 3, 4, 5]) 100 = Some (i0, i1, i2, i3) \<and>
    100 = i0 + 2 * (i1 + 3 * (i2 + 4 * i3))"
  using unravel_roundtrip [of "demo_tensor GGML_TYPE_F32 [2, 3, 4, 5]" 100] by (auto simp: demo_tensor_def)

text \<open>C20: A tensor with freshly computed strides is contiguous, and ggml_nbytes is the size of a row of
  blocks times the number of rows, with no wrap-around, for every type and every shape whose bytes fit in
  an int64_t.\<close>

theorem fresh_tensor_bytes:
  assumes "sane_shape (t_type t) (t_ne t)" "t_nb t = fresh_strides (t_type t) (t_ne t)"
  shows "ggml_is_contiguous t \<and>
    ggml_nbytes t = ggml_type_size (t_type t) * (ne_at t 0 div ggml_blck_size (t_type t)) *
      ne_at t 1 * ne_at t 2 * ne_at t 3"
  using contiguous_of_strides [OF assms(2)] nbytes_of_strides [OF assms] by simp

theorem fresh_tensor_bytes_witness:
  "ggml_is_contiguous (demo_tensor GGML_TYPE_Q4_0 [64, 3, 1, 1]) \<and>
    ggml_nbytes (demo_tensor GGML_TYPE_Q4_0 [64, 3, 1, 1]) = 108"
  using fresh_tensor_bytes [of "demo_tensor GGML_TYPE_Q4_0 [64, 3, 1, 1]"]
  by (simp add: demo_tensor_def sane_shape_def GGML_MAX_DIMS_def ggml_blck_size_def ggml_type_size_def)

text \<open>C25: ggml_is_contiguous holds exactly when every stride is the size of the dimension below it, except
  that the strides of dimensions with one element (one block in the first) do not matter.\<close>

theorem contiguous_strides:
  assumes "sane_shape (t_type t) (t_ne t)"
  shows "ggml_is_contiguous t \<longleftrightarrow>
    (let s = ggml_type_size (t_type t); q = ne_at t 0 div ggml_blck_size (t_type t) in
      (ne_at t 0 = ggml_blck_size (t_type t) \<or> nb_at t 0 = s) \<and>
      (ne_at t 1 = 1 \<or> nb_at t 1 = s * q) \<and>
      (ne_at t 2 = 1 \<or> nb_at t 2 = s * q * ne_at t 1) \<and>
      (ne_at t 3 = 1 \<or> nb_at t 3 = s * q * ne_at t 1 * ne_at t 2))"
  by (rule ggml_is_contiguous_iff [OF assms])

theorem contiguous_strides_witness:
  "ggml_is_contiguous (demo_tensor GGML_TYPE_F32 [4, 1, 2, 1] \<lparr> t_nb := [4, 99, 16, 77] \<rparr>)"
  using contiguous_strides [of "demo_tensor GGML_TYPE_F32 [4, 1, 2, 1] \<lparr> t_nb := [4, 99, 16, 77] \<rparr>"]
  by (simp add: demo_tensor_def sane_shape_def GGML_MAX_DIMS_def ggml_blck_size_def ggml_type_size_def)

text \<open>C26: With nonnegative strides, every element of a tensor of unblocked type lies within ggml_nbytes of
  its data: any strided view of it stays inside the bytes the size function reports, when the end of the last
  element is below 2^64, so that the size_t sum of ggml_nbytes does not wrap.\<close>

theorem elements_within_nbytes:
  assumes "ggml_blck_size (t_type t) = 1" "\<forall>k < 4. 0 \<le> nb_at t k"
    and "i0 \<in> {0..<ne_at t 0}" "i1 \<in> {0..<ne_at t 1}" "i2 \<in> {0..<ne_at t 2}" "i3 \<in> {0..<ne_at t 3}"
    and "ggml_type_size (t_type t) + element_offset t (ne_at t 0 - 1) (ne_at t 1 - 1)
           (ne_at t 2 - 1) (ne_at t 3 - 1) < 2 ^ 64"
  shows "0 \<le> element_offset t i0 i1 i2 i3 \<and>
    element_offset t i0 i1 i2 i3 + ggml_type_size (t_type t) \<le> ggml_nbytes t"
proof
  have nb: "0 \<le> nb_at t 0" "0 \<le> nb_at t 1" "0 \<le> nb_at t 2" "0 \<le> nb_at t 3" using assms(2) by simp_all
  show "0 \<le> element_offset t i0 i1 i2 i3" using nb assms(3-6) by (simp add: element_offset_def)
  show "element_offset t i0 i1 i2 i3 + ggml_type_size (t_type t) \<le> ggml_nbytes t"
    by (rule element_offset_bound [OF assms(1) nb]) (use assms(3-7) in simp_all)
qed

theorem elements_within_nbytes_witness:
  "element_offset (demo_tensor GGML_TYPE_F32 [2, 3, 4, 5]) 1 2 3 4 + 4
    \<le> ggml_nbytes (demo_tensor GGML_TYPE_F32 [2, 3, 4, 5])"
proof -
  let ?t = "demo_tensor GGML_TYPE_F32 [2, 3, 4, 5]"
  have f: "t_type ?t = GGML_TYPE_F32" "t_ne ?t = [2, 3, 4, 5]" "t_nb ?t = [4, 8, 24, 96]"
    by (simp_all add: demo_tensor_def fresh_strides_def u64_def signed_divide_int_def)
  show ?thesis
    using elements_within_nbytes [of ?t 1 2 3 4]
    by (simp add: f element_offset_def u64_def All_less_Suc numeral_eq_Suc)
qed

end
