(* ===== verification/HashSet.thy ===== *)
theory HashSet
  imports Prelude
begin

text \<open>
  The bitset and the open-addressing hash set of ggml-impl.h, ggml_hash_size and the constructor of
  ggml.c, over which the graph builder and the graph allocator record the tensors they have seen.
  Slots are natural numbers below the table size; the returned slot, GGML_HASHSET_FULL and
  GGML_HASHSET_ALREADY_EXISTS share the size_t result as in the code.  A table with no slot makes
  the first remainder a division by zero and a slot outside the table an access out of bounds: None.

  The contract is the locale \<open>key_set\<close>: a set of keys under insertion, with slots that stay where
  they are.  Linear probing meets it: \<open>hs_inv\<close> says that the slots from a key's home slot up to the
  key are all in use.
\<close>

section \<open>Bitsets\<close>

definition ggml_bitset_size :: "nat \<Rightarrow> nat" where
  "ggml_bitset_size n = drop_bit 5 (n + 31)"

definition ggml_bitset_get :: "32 word list \<Rightarrow> nat \<Rightarrow> bool" where
  "ggml_bitset_get bs i \<longleftrightarrow> (bs ! drop_bit 5 i) AND push_bit (i AND 31) 1 \<noteq> 0"

definition ggml_bitset_set :: "32 word list \<Rightarrow> nat \<Rightarrow> 32 word list" where
  "ggml_bitset_set bs i = bs[drop_bit 5 i := (bs ! drop_bit 5 i) OR push_bit (i AND 31) 1]"

definition ggml_bitset_clear :: "32 word list \<Rightarrow> nat \<Rightarrow> 32 word list" where
  "ggml_bitset_clear bs i = bs[drop_bit 5 i := (bs ! drop_bit 5 i) AND NOT (push_bit (i AND 31) 1)]"

lemma shr5 [simp]: "drop_bit 5 (n::nat) = n div 32"
  by (simp add: drop_bit_eq_div)

lemma and31 [simp]: "(n::nat) AND 31 = n mod 32"
proof -
  have "n AND mask 5 = n mod 2 ^ 5" by (simp add: take_bit_eq_mod flip: take_bit_eq_mask)
  then show ?thesis by (simp add: mask_eq_exp_minus_1)
qed

lemma ggml_bitset_get_bit: "ggml_bitset_get bs i \<longleftrightarrow> bit (bs ! (i div 32)) (i mod 32)"
  unfolding ggml_bitset_get_def shr5 and31 by (rule bit_iff_and_push_bit_not_eq_0 [symmetric])

lemma ggml_bitset_get_set:
  assumes "i div 32 < length bs"
  shows "ggml_bitset_get (ggml_bitset_set bs i) j \<longleftrightarrow> j = i \<or> ggml_bitset_get bs j"
proof (cases "j div 32 = i div 32")
  case True
  then have "j mod 32 = i mod 32 \<longleftrightarrow> j = i"
    by (metis mult_div_mod_eq)
  with True assms show ?thesis
    by (auto simp: ggml_bitset_get_bit ggml_bitset_set_def bit_simps)
next
  case False
  then show ?thesis by (auto simp: ggml_bitset_get_bit ggml_bitset_set_def)
qed

lemma ggml_bitset_get_clear:
  assumes "i div 32 < length bs"
  shows "ggml_bitset_get (ggml_bitset_clear bs i) j \<longleftrightarrow> j \<noteq> i \<and> ggml_bitset_get bs j"
proof (cases "j div 32 = i div 32")
  case True
  then have "j mod 32 = i mod 32 \<longleftrightarrow> j = i"
    by (metis mult_div_mod_eq)
  with True assms show ?thesis
    by (auto simp: ggml_bitset_get_bit ggml_bitset_clear_def bit_simps)
next
  case False
  then show ?thesis by (auto simp: ggml_bitset_get_bit ggml_bitset_clear_def)
qed

lemma ggml_bitset_set_length [simp]: "length (ggml_bitset_set bs i) = length bs"
  by (simp add: ggml_bitset_set_def)

lemma ggml_bitset_get_zero: "i div 32 < n \<Longrightarrow> \<not> ggml_bitset_get (replicate n 0) i"
  by (simp add: ggml_bitset_get_bit)

lemma ggml_bitset_size_covers: "i < n \<Longrightarrow> i div 32 < ggml_bitset_size n"
  by (simp add: ggml_bitset_size_def)

section \<open>The hash set\<close>

definition GGML_HASHSET_FULL :: nat where
  "GGML_HASHSET_FULL = 2 ^ 64 - 1"

definition GGML_HASHSET_ALREADY_EXISTS :: nat where
  "GGML_HASHSET_ALREADY_EXISTS = 2 ^ 64 - 2"

record ggml_hash_set =
  hs_size :: nat
  hs_used :: "32 word list"
  hs_keys :: "ptr list"

definition ggml_hash :: "ptr \<Rightarrow> nat" where
  "ggml_hash p = nat (drop_bit 4 (u64 p))"

definition hash_primes :: "nat list" where
  "hash_primes =
    [2, 3, 5, 11, 17, 37, 67, 131, 257, 521, 1031,
     2053, 4099, 8209, 16411, 32771, 65537, 131101,
     262147, 524309, 1048583, 2097169, 4194319, 8388617,
     16777259, 33554467, 67108879, 134217757, 268435459,
     536870923, 1073741827, 2147483659]"

function hash_size_search :: "nat \<Rightarrow> nat \<Rightarrow> nat \<Rightarrow> nat" where
  "hash_size_search min_sz l r =
     (if l < r
      then let m = (l + r) div 2 in
           if hash_primes ! m < min_sz then hash_size_search min_sz (m + 1) r
           else hash_size_search min_sz l m
      else l)"
  by pat_completeness auto
termination
  by (relation "measure (\<lambda>(min_sz, l, r). r - l)") auto

declare hash_size_search.simps [simp del]

definition ggml_hash_size :: "nat \<Rightarrow> nat" where
  "ggml_hash_size min_sz =
     (let n_primes = length hash_primes; l = hash_size_search min_sz 0 n_primes in
      if l < n_primes then hash_primes ! l else min_sz OR 1)"

text \<open>The keys array comes from malloc: its content is the argument \<open>junk\<close>.\<close>

definition ggml_hash_set_new :: "(nat \<Rightarrow> ptr) \<Rightarrow> nat \<Rightarrow> ggml_hash_set" where
  "ggml_hash_set_new junk n =
     (let size = ggml_hash_size n in
      \<lparr> hs_size = size, hs_used = replicate (ggml_bitset_size size) 0, hs_keys = map junk [0..<size] \<rparr>)"

definition ggml_hash_set_reset :: "ggml_hash_set \<Rightarrow> ggml_hash_set" where
  "ggml_hash_set_reset hs = hs\<lparr> hs_used := replicate (ggml_bitset_size (hs_size hs)) 0 \<rparr>"

abbreviation hs_get :: "ggml_hash_set \<Rightarrow> nat \<Rightarrow> bool" where
  "hs_get hs i \<equiv> ggml_bitset_get (hs_used hs) i"

text \<open>
  The probing loops: \<open>h\<close> is the home slot, \<open>i\<close> the slot looked at.  Each loop stops after the slot
  before \<open>h\<close>.
\<close>

lemma probe_measure:
  assumes "i < n" "(i + 1) mod n \<noteq> (h::nat)" "h < n"
  shows "(h + n - Suc ((i + 1) mod n)) mod n < (h + n - Suc i) mod n"
proof (cases "i + 1 = n")
  case True
  then have "0 < h" using assms by simp
  have "(h + n - Suc i) mod n = h mod n" using True by (metis Suc_eq_plus1 add_diff_cancel_right')
  moreover have "(h + n - Suc ((i + 1) mod n)) mod n = (h - 1) mod n"
  proof -
    have "h + n - Suc ((i + 1) mod n) = (h - 1) + n" using True \<open>0 < h\<close> by simp
    then show ?thesis by simp
  qed
  ultimately show ?thesis using assms \<open>0 < h\<close> by simp
next
  case False
  then have i: "(i + 1) mod n = i + 1" using assms by simp
  show ?thesis
  proof (cases "i < h")
    case True
    then have "i + 1 < h" using assms i by simp
    then have "h + n - Suc ((i + 1) mod n) = (h - i - 2) + n" "h + n - Suc i = (h - i - 1) + n"
      using i by simp_all
    moreover have "((h - i - 2) + n) mod n = h - i - 2" "((h - i - 1) + n) mod n = h - i - 1"
      using assms by simp_all
    ultimately show ?thesis using \<open>i + 1 < h\<close> by simp
  next
    case False
    then show ?thesis using i assms \<open>i + 1 \<noteq> n\<close> by simp
  qed
qed

function hash_find_loop :: "ggml_hash_set \<Rightarrow> ptr \<Rightarrow> nat \<Rightarrow> nat \<Rightarrow> nat option" where
  "hash_find_loop hs key h i =
     (if \<not> (i < hs_size hs \<and> h < hs_size hs) then None
      else if hs_get hs i \<and> hs_keys hs ! i \<noteq> key
      then let i' = (i + 1) mod hs_size hs in
           if i' = h then Some GGML_HASHSET_FULL else hash_find_loop hs key h i'
      else Some i)"
  by pat_completeness auto
termination
  by (relation "measure (\<lambda>(hs, key, h, i). (h + hs_size hs - Suc i) mod hs_size hs)")
    (auto simp: probe_measure [simplified])

declare hash_find_loop.simps [simp del]

definition ggml_hash_find :: "ggml_hash_set \<Rightarrow> ptr \<Rightarrow> nat option" where
  "ggml_hash_find hs key =
     (let h = ggml_hash key mod hs_size hs in hash_find_loop hs key h h)"

definition ggml_hash_contains :: "ggml_hash_set \<Rightarrow> ptr \<Rightarrow> bool option" where
  "ggml_hash_contains hs key = do {
     i \<leftarrow> ggml_hash_find hs key;
     Some (i \<noteq> GGML_HASHSET_FULL \<and> hs_get hs i) }"

definition hs_put :: "ggml_hash_set \<Rightarrow> nat \<Rightarrow> ptr \<Rightarrow> ggml_hash_set" where
  "hs_put hs i key = hs\<lparr> hs_used := ggml_bitset_set (hs_used hs) i, hs_keys := (hs_keys hs)[i := key] \<rparr>"

text \<open>
  The two insertions share the loop and differ in what they return for a key that is there:
  GGML_HASHSET_ALREADY_EXISTS, or its slot (the argument \<open>found\<close>).
\<close>

function hash_insert_loop ::
    "(nat \<Rightarrow> nat) \<Rightarrow> ggml_hash_set \<Rightarrow> ptr \<Rightarrow> nat \<Rightarrow> nat \<Rightarrow> (nat \<times> ggml_hash_set) option" where
  "hash_insert_loop found hs key h i =
     (if \<not> (i < hs_size hs \<and> h < hs_size hs) then None
      else if \<not> hs_get hs i then Some (i, hs_put hs i key)
      else if hs_keys hs ! i = key then Some (found i, hs)
      else let i' = (i + 1) mod hs_size hs in
           if i' = h then None else hash_insert_loop found hs key h i')"
  by pat_completeness auto
termination
  by (relation "measure (\<lambda>(found, hs, key, h, i). (h + hs_size hs - Suc i) mod hs_size hs)")
    (auto simp: probe_measure [simplified])

declare hash_insert_loop.simps [simp del]

definition ggml_hash_insert :: "ggml_hash_set \<Rightarrow> ptr \<Rightarrow> (nat \<times> ggml_hash_set) option" where
  "ggml_hash_insert hs key =
     (let h = ggml_hash key mod hs_size hs in
      hash_insert_loop (\<lambda>_. GGML_HASHSET_ALREADY_EXISTS) hs key h h)"

definition ggml_hash_find_or_insert :: "ggml_hash_set \<Rightarrow> ptr \<Rightarrow> (nat \<times> ggml_hash_set) option" where
  "ggml_hash_find_or_insert hs key =
     (let h = ggml_hash key mod hs_size hs in hash_insert_loop (\<lambda>i. i) hs key h h)"

section \<open>Linear probing\<close>

definition hs_home :: "ggml_hash_set \<Rightarrow> ptr \<Rightarrow> nat" where
  "hs_home hs key = ggml_hash key mod hs_size hs"

definition hs_probe :: "ggml_hash_set \<Rightarrow> ptr \<Rightarrow> nat \<Rightarrow> nat" where
  "hs_probe hs key d = (hs_home hs key + d) mod hs_size hs"

definition hs_blocked :: "ggml_hash_set \<Rightarrow> ptr \<Rightarrow> nat \<Rightarrow> bool" where
  "hs_blocked hs key i \<longleftrightarrow> hs_get hs i \<and> hs_keys hs ! i \<noteq> key"

text \<open>The first probe distance, from d on, whose slot stops the search.\<close>

definition hs_stop :: "ggml_hash_set \<Rightarrow> ptr \<Rightarrow> nat \<Rightarrow> nat option" where
  "hs_stop hs key d = List.find (\<lambda>e. \<not> hs_blocked hs key (hs_probe hs key e)) [d..<hs_size hs]"

definition hs_set :: "ggml_hash_set \<Rightarrow> ptr set" where
  "hs_set hs = {hs_keys hs ! i | i. i < hs_size hs \<and> hs_get hs i}"

definition hs_inv :: "ggml_hash_set \<Rightarrow> bool" where
  "hs_inv hs \<longleftrightarrow>
     0 < hs_size hs \<and> hs_size hs < GGML_HASHSET_ALREADY_EXISTS \<and> length (hs_keys hs) = hs_size hs \<and>
     (\<forall>i < hs_size hs. i div 32 < length (hs_used hs)) \<and>
     (\<forall>i < hs_size hs. hs_get hs i \<longrightarrow>
        (\<exists>d < hs_size hs. i = hs_probe hs (hs_keys hs ! i) d \<and>
           (\<forall>e < d. hs_blocked hs (hs_keys hs ! i) (hs_probe hs (hs_keys hs ! i) e))))"

lemma hs_probe_less: "0 < hs_size hs \<Longrightarrow> hs_probe hs key d < hs_size hs"
  by (simp add: hs_probe_def)

lemma hs_probe_0 [simp]: "hs_probe hs key 0 = hs_home hs key"
  by (simp add: hs_probe_def hs_home_def)

lemma hs_probe_Suc: "hs_probe hs key (Suc d) = (hs_probe hs key d + 1) mod hs_size hs"
  by (simp add: hs_probe_def mod_simps)

lemma mod_wrap_iff: "h < n \<Longrightarrow> d < n \<Longrightarrow> (h + Suc d) mod n = h \<longleftrightarrow> Suc d = (n::nat)"
proof -
  assume a: "h < n" "d < n"
  show ?thesis
  proof (cases "h + Suc d < n")
    case False
    then have "(h + Suc d) mod n = h + Suc d - n"
      using a le_mod_geq [of n "h + Suc d"] by simp
    then show ?thesis using False a by linarith
  qed (use a in simp)
qed

lemma hs_probe_home_iff:
  "d < hs_size hs \<Longrightarrow> hs_probe hs key (Suc d) = hs_home hs key \<longleftrightarrow> Suc d = hs_size hs"
  unfolding hs_probe_def by (rule mod_wrap_iff) (auto simp: hs_home_def)

lemma hs_probe_inj:
  assumes "hs_probe hs key d = hs_probe hs key e" "d < hs_size hs" "e < hs_size hs"
  shows "d = e"
proof -
  have "d = e" if "d \<le> e" "hs_probe hs key d = hs_probe hs key e" "e < hs_size hs" for d e
  proof -
    have "hs_size hs dvd (hs_home hs key + e) - (hs_home hs key + d)"
      using that unfolding hs_probe_def by (intro mod_eq_dvd_iff_nat [THEN iffD1]) auto
    then show ?thesis using that by (auto dest: dvd_imp_le)
  qed
  then show ?thesis using assms by (metis nat_le_linear)
qed

lemma hs_probe_surj:
  assumes "i < hs_size hs"
  shows "\<exists>d < hs_size hs. i = hs_probe hs key d"
proof -
  have "inj_on (hs_probe hs key) {..<hs_size hs}"
    by (auto intro: inj_onI hs_probe_inj)
  moreover have "hs_probe hs key ` {..<hs_size hs} \<subseteq> {..<hs_size hs}"
    using assms hs_probe_less by auto
  ultimately have "hs_probe hs key ` {..<hs_size hs} = {..<hs_size hs}"
    by (meson endo_inj_surj finite_lessThan)
  then show ?thesis using assms by (metis imageE lessThan_iff)
qed

lemma hs_stop_step:
  "d < hs_size hs \<Longrightarrow> hs_stop hs key d =
     (if hs_blocked hs key (hs_probe hs key d) then hs_stop hs key (Suc d) else Some d)"
  by (simp add: hs_stop_def upt_rec)

lemma hs_stop_end: "hs_size hs \<le> d \<Longrightarrow> hs_stop hs key d = None"
  by (simp add: hs_stop_def)

lemma hash_find_loop_stop:
  assumes "d < hs_size hs"
  shows "hash_find_loop hs key (hs_home hs key) (hs_probe hs key d) =
    Some (case hs_stop hs key d of None \<Rightarrow> GGML_HASHSET_FULL | Some e \<Rightarrow> hs_probe hs key e)"
  using assms
proof (induction "hs_size hs - d" arbitrary: d rule: less_induct)
  case less
  have *: "hs_probe hs key d < hs_size hs" "hs_home hs key < hs_size hs"
    using less.prems by (auto simp: hs_probe_less hs_home_def)
  show ?case
  proof (cases "hs_blocked hs key (hs_probe hs key d) \<and> Suc d < hs_size hs")
    case True
    then have "hs_probe hs key (Suc d) \<noteq> hs_home hs key"
      using hs_probe_home_iff [of d hs key] by auto
    with True less.hyps [of "Suc d"] less.prems * show ?thesis
      by (subst hash_find_loop.simps)
        (auto simp: Let_def hs_blocked_def hs_probe_Suc hs_stop_step)
  next
    case False
    then have "\<not> hs_blocked hs key (hs_probe hs key d) \<or> Suc d = hs_size hs"
      using less.prems by auto
    then show ?thesis
      using * less.prems hs_probe_home_iff [of d hs key]
      by (subst hash_find_loop.simps)
        (auto simp: Let_def hs_blocked_def hs_probe_Suc hs_stop_step hs_stop_end)
  qed
qed

lemma hash_insert_loop_stop:
  assumes "d < hs_size hs"
  shows "hash_insert_loop found hs key (hs_home hs key) (hs_probe hs key d) =
    (case hs_stop hs key d of None \<Rightarrow> None
     | Some e \<Rightarrow> let i = hs_probe hs key e in
         if hs_get hs i then Some (found i, hs) else Some (i, hs_put hs i key))"
  using assms
proof (induction "hs_size hs - d" arbitrary: d rule: less_induct)
  case less
  have *: "hs_probe hs key d < hs_size hs" "hs_home hs key < hs_size hs"
    using less.prems by (auto simp: hs_probe_less hs_home_def)
  show ?case
  proof (cases "hs_blocked hs key (hs_probe hs key d) \<and> Suc d < hs_size hs")
    case True
    then have "hs_probe hs key (Suc d) \<noteq> hs_home hs key"
      using hs_probe_home_iff [of d hs key] by auto
    with True less.hyps [of "Suc d"] less.prems * show ?thesis
      by (subst hash_insert_loop.simps)
        (auto simp: Let_def hs_blocked_def hs_probe_Suc hs_stop_step)
  next
    case False
    then have "\<not> hs_blocked hs key (hs_probe hs key d) \<or> Suc d = hs_size hs"
      using less.prems by auto
    then show ?thesis
      using * less.prems hs_probe_home_iff [of d hs key]
      by (subst hash_insert_loop.simps)
        (auto simp: Let_def hs_blocked_def hs_probe_Suc hs_stop_step hs_stop_end)
  qed
qed

section \<open>The operations as operations on a set\<close>

definition hs_full :: "ggml_hash_set \<Rightarrow> bool" where
  "hs_full hs \<longleftrightarrow> (\<forall>i < hs_size hs. hs_get hs i)"

lemma hs_stop_Some:
  "hs_stop hs key 0 = Some e \<longleftrightarrow> e < hs_size hs \<and> \<not> hs_blocked hs key (hs_probe hs key e) \<and>
     (\<forall>c < e. hs_blocked hs key (hs_probe hs key c))"
proof -
  have "hs_stop hs key 0 = Some e \<longleftrightarrow> (\<exists>i < hs_size hs. \<not> hs_blocked hs key (hs_probe hs key i) \<and> e = i \<and>
      (\<forall>j < i. \<not> \<not> hs_blocked hs key (hs_probe hs key j)))"
    unfolding hs_stop_def find_Some_iff by (auto simp: atLeast0LessThan) 
  then show ?thesis by auto
qed

lemma hs_stop_None:
  "hs_stop hs key 0 = None \<longleftrightarrow> (\<forall>e < hs_size hs. hs_blocked hs key (hs_probe hs key e))"
  by (auto simp: hs_stop_def find_None_iff)

lemma hs_invD:
  assumes "hs_inv hs"
  shows "0 < hs_size hs" "hs_size hs < GGML_HASHSET_ALREADY_EXISTS" "length (hs_keys hs) = hs_size hs"
    and "i < hs_size hs \<Longrightarrow> i div 32 < length (hs_used hs)"
  using assms by (auto simp: hs_inv_def)

lemma hs_stop_member:
  assumes "hs_inv hs" "i < hs_size hs" "hs_get hs i" "hs_keys hs ! i = key"
  shows "\<exists>d. hs_stop hs key 0 = Some d \<and> hs_probe hs key d = i"
proof -
  obtain d where "d < hs_size hs" "i = hs_probe hs key d" "\<forall>e < d. hs_blocked hs key (hs_probe hs key e)"
    using assms unfolding hs_inv_def by blast
  then show ?thesis using assms by (auto simp: hs_stop_Some hs_blocked_def)
qed

lemma hs_keys_distinct:
  assumes "hs_inv hs" "i < hs_size hs" "hs_get hs i" "j < hs_size hs" "hs_get hs j"
    "hs_keys hs ! i = hs_keys hs ! j"
  shows "i = j"
  using hs_stop_member [OF assms(1-3) refl] hs_stop_member [OF assms(1,4,5) refl] assms(6) by auto

lemma hs_set_finite: "finite (hs_set hs)"
proof -
  have "hs_set hs \<subseteq> (\<lambda>i. hs_keys hs ! i) ` {..<hs_size hs}" by (auto simp: hs_set_def)
  then show ?thesis by (rule finite_subset) simp
qed

lemma hs_full_card:
  assumes "hs_inv hs"
  shows "hs_full hs \<longleftrightarrow> card (hs_set hs) = hs_size hs"
proof -
  let ?u = "{i. i < hs_size hs \<and> hs_get hs i}"
  have eq: "hs_set hs = (\<lambda>i. hs_keys hs ! i) ` ?u" by (auto simp: hs_set_def)
  have "inj_on (\<lambda>i. hs_keys hs ! i) ?u"
    by (rule inj_onI) (use hs_keys_distinct [OF assms] in auto)
  then have c: "card (hs_set hs) = card ?u" unfolding eq by (rule card_image)
  show ?thesis
  proof
    assume "hs_full hs"
    then have "?u = {..<hs_size hs}" by (auto simp: hs_full_def)
    then show "card (hs_set hs) = hs_size hs" using c by simp
  next
    assume "card (hs_set hs) = hs_size hs"
    then have "?u = {..<hs_size hs}"
      using c by (intro card_subset_eq) auto
    then show "hs_full hs" by (auto simp: hs_full_def)
  qed
qed

lemma hs_card_le: "hs_inv hs \<Longrightarrow> card (hs_set hs) \<le> hs_size hs"
proof -
  have "hs_set hs \<subseteq> (\<lambda>i. hs_keys hs ! i) ` {..<hs_size hs}" by (auto simp: hs_set_def)
  then have "card (hs_set hs) \<le> card ((\<lambda>i. hs_keys hs ! i) ` {..<hs_size hs})" by (simp add: card_mono)
  also have "\<dots> \<le> card {..<hs_size hs}" by (rule card_image_le) simp
  finally show ?thesis by simp
qed

lemma hs_stop_new:
  assumes "hs_inv hs" "key \<notin> hs_set hs"
  shows "if hs_full hs then hs_stop hs key 0 = None
    else \<exists>d. hs_stop hs key 0 = Some d \<and> \<not> hs_get hs (hs_probe hs key d)"
proof (cases "hs_full hs")
  case True
  have "hs_blocked hs key (hs_probe hs key e)" for e
  proof -
    have "hs_probe hs key e < hs_size hs" by (rule hs_probe_less [OF hs_invD(1) [OF assms(1)]])
    then show ?thesis using True assms(2) by (auto simp: hs_full_def hs_blocked_def hs_set_def)
  qed
  then show ?thesis using True by (simp add: hs_stop_None)
next
  case False
  then obtain i where i: "i < hs_size hs" "\<not> hs_get hs i" by (auto simp: hs_full_def)
  from hs_probe_surj [OF i(1)] obtain d0 where "d0 < hs_size hs" "i = hs_probe hs key d0" by metis
  with i have "hs_stop hs key 0 \<noteq> None" by (auto simp: hs_stop_None hs_blocked_def)
  then obtain d where d: "hs_stop hs key 0 = Some d" by auto
  then have "\<not> hs_get hs (hs_probe hs key d)"
    using assms hs_probe_less [OF hs_invD(1) [OF assms(1)]]
    by (auto simp: hs_stop_Some hs_blocked_def hs_set_def)
  with False d show ?thesis by auto
qed

lemma ggml_hash_find_spec:
  assumes "hs_inv hs"
  shows "\<exists>r. ggml_hash_find hs key = Some r \<and>
    (if key \<in> hs_set hs then r < hs_size hs \<and> hs_get hs r \<and> hs_keys hs ! r = key
     else if hs_full hs then r = GGML_HASHSET_FULL else r < hs_size hs \<and> \<not> hs_get hs r)"
proof -
  note inv = hs_invD [OF assms]
  have f: "ggml_hash_find hs key =
    Some (case hs_stop hs key 0 of None \<Rightarrow> GGML_HASHSET_FULL | Some e \<Rightarrow> hs_probe hs key e)"
    using hash_find_loop_stop [OF inv(1)] by (simp add: ggml_hash_find_def Let_def hs_home_def)
  show ?thesis
  proof (cases "key \<in> hs_set hs")
    case True
    then obtain i where "i < hs_size hs" "hs_get hs i" "hs_keys hs ! i = key" by (auto simp: hs_set_def)
    with hs_stop_member [OF assms this] True f show ?thesis by auto
  next
    case False
    with hs_stop_new [OF assms False] f hs_probe_less [OF inv(1)] show ?thesis
      by (auto split: if_splits)
  qed
qed

lemma ggml_hash_contains_spec:
  assumes "hs_inv hs"
  shows "ggml_hash_contains hs key = Some (key \<in> hs_set hs)"
proof -
  obtain r where "ggml_hash_find hs key = Some r"
    "if key \<in> hs_set hs then r < hs_size hs \<and> hs_get hs r \<and> hs_keys hs ! r = key
     else if hs_full hs then r = GGML_HASHSET_FULL else r < hs_size hs \<and> \<not> hs_get hs r"
    using ggml_hash_find_spec [OF assms] by blast
  with hs_invD(2) [OF assms] show ?thesis
    by (auto simp: ggml_hash_contains_def GGML_HASHSET_FULL_def GGML_HASHSET_ALREADY_EXISTS_def split: if_splits)
qed

lemma hs_put_simps [simp]:
  "hs_size (hs_put hs i key) = hs_size hs" "hs_home (hs_put hs i key) k = hs_home hs k"
  "hs_probe (hs_put hs i key) k d = hs_probe hs k d"
  "hs_keys (hs_put hs i key) = (hs_keys hs)[i := key]"
  "length (hs_used (hs_put hs i key)) = length (hs_used hs)"
  by (simp_all add: hs_put_def hs_home_def hs_probe_def)

lemma hs_put_get:
  assumes "hs_inv hs" "i < hs_size hs"
  shows "hs_get (hs_put hs i key) j \<longleftrightarrow> j = i \<or> hs_get hs j"
  using ggml_bitset_get_set [OF hs_invD(4) [OF assms(1,2)]] by (simp add: hs_put_def)

lemma hs_put_blocked:
  assumes "hs_inv hs" "i < hs_size hs" "\<not> hs_get hs i" "hs_blocked hs k j"
  shows "hs_blocked (hs_put hs i key) k j"
  using assms hs_put_get [OF assms(1,2)] by (cases "j = i") (auto simp: hs_blocked_def)

lemma hs_put_inv:
  assumes inv: "hs_inv hs" and stop: "hs_stop hs key 0 = Some d" and i: "i = hs_probe hs key d"
    and free: "\<not> hs_get hs i"
  shows "hs_inv (hs_put hs i key)"
proof -
  note D = hs_invD [OF inv]
  have il: "i < hs_size hs" using i hs_probe_less [OF D(1)] by simp
  note b = hs_put_blocked [OF inv il free] and g = hs_put_get [OF inv il]
  have d: "d < hs_size hs" "\<forall>c < d. hs_blocked hs key (hs_probe hs key c)"
    using stop by (auto simp: hs_stop_Some)
  have "\<exists>d < hs_size hs. j = hs_probe hs ((hs_keys hs)[i := key] ! j) d \<and>
      (\<forall>e < d. hs_blocked (hs_put hs i key) ((hs_keys hs)[i := key] ! j)
         (hs_probe hs ((hs_keys hs)[i := key] ! j) e))"
    if j: "j < hs_size hs" "hs_get (hs_put hs i key) j" for j
  proof (cases "j = i")
    case True
    then show ?thesis using d i il b D(3) by auto
  next
    case False
    then have "hs_get hs j" using g j by auto
    then obtain d' where "d' < hs_size hs" "j = hs_probe hs (hs_keys hs ! j) d'"
      "\<forall>e < d'. hs_blocked hs (hs_keys hs ! j) (hs_probe hs (hs_keys hs ! j) e)"
      using inv j(1) unfolding hs_inv_def by blast
    then show ?thesis using False b by auto
  qed
  then show ?thesis
    using D unfolding hs_inv_def by simp
qed

lemma hs_put_set:
  assumes "hs_inv hs" "i < hs_size hs" "\<not> hs_get hs i"
  shows "hs_set (hs_put hs i key) = insert key (hs_set hs)"
  using hs_put_get [OF assms(1,2)] hs_invD(3) [OF assms(1)] assms
  by (auto simp: hs_set_def nth_list_update split: if_splits) (metis nth_list_update)+

lemma hash_insert_spec:
  assumes inv: "hs_inv hs"
  shows "hash_insert_loop found hs key (hs_home hs key) (hs_home hs key) = res \<Longrightarrow>
    if key \<in> hs_set hs then \<exists>i. res = Some (found i, hs) \<and> i < hs_size hs \<and> hs_get hs i \<and> hs_keys hs ! i = key
    else if hs_full hs then res = None
    else \<exists>i. res = Some (i, hs_put hs i key) \<and> i < hs_size hs \<and> \<not> hs_get hs i \<and>
      hs_inv (hs_put hs i key) \<and> hs_set (hs_put hs i key) = insert key (hs_set hs)"
proof -
  note D = hs_invD [OF inv]
  assume "hash_insert_loop found hs key (hs_home hs key) (hs_home hs key) = res"
  then have r: "res = (case hs_stop hs key 0 of None \<Rightarrow> None
     | Some e \<Rightarrow> let i = hs_probe hs key e in
         if hs_get hs i then Some (found i, hs) else Some (i, hs_put hs i key))"
    using hash_insert_loop_stop [OF D(1)] by simp
  show ?thesis
  proof (cases "key \<in> hs_set hs")
    case True
    then obtain i where "i < hs_size hs" "hs_get hs i" "hs_keys hs ! i = key" by (auto simp: hs_set_def)
    with hs_stop_member [OF inv this] True r show ?thesis by (auto simp: Let_def)
  next
    case False
    note n = hs_stop_new [OF inv False]
    show ?thesis
    proof (cases "hs_full hs")
      case True
      then show ?thesis using n r False by simp
    next
      case nf: False
      then obtain d where d: "hs_stop hs key 0 = Some d" "\<not> hs_get hs (hs_probe hs key d)"
        using n by auto
      have "hs_probe hs key d < hs_size hs" by (rule hs_probe_less [OF D(1)])
      then show ?thesis
        using hs_put_inv [OF inv d(1) refl d(2)] hs_put_set [OF inv _ d(2)] d r False nf by (auto simp: Let_def)
    qed
  qed
qed

lemma ggml_hash_insert_home: "ggml_hash_insert hs key =
    hash_insert_loop (\<lambda>_. GGML_HASHSET_ALREADY_EXISTS) hs key (hs_home hs key) (hs_home hs key)"
  by (simp add: ggml_hash_insert_def hs_home_def Let_def)

lemma ggml_hash_find_or_insert_home: "ggml_hash_find_or_insert hs key =
    hash_insert_loop (\<lambda>i. i) hs key (hs_home hs key) (hs_home hs key)"
  by (simp add: ggml_hash_find_or_insert_def hs_home_def Let_def)

lemma ggml_hash_insert_old:
  assumes "hs_inv hs" "key \<in> hs_set hs"
  shows "ggml_hash_insert hs key = Some (GGML_HASHSET_ALREADY_EXISTS, hs)"
  using hash_insert_spec [OF assms(1) refl, where found = "\<lambda>_. GGML_HASHSET_ALREADY_EXISTS" and key = key] assms(2)
  by (simp add: ggml_hash_insert_home)

lemma ggml_hash_insert_new:
  assumes "hs_inv hs" "key \<notin> hs_set hs" "card (hs_set hs) < hs_size hs"
  shows "\<exists>i. ggml_hash_insert hs key = Some (i, hs_put hs i key) \<and> i < hs_size hs \<and> \<not> hs_get hs i \<and>
    hs_inv (hs_put hs i key) \<and> hs_set (hs_put hs i key) = insert key (hs_set hs)"
  using hash_insert_spec [OF assms(1) refl, where found = "\<lambda>_. GGML_HASHSET_ALREADY_EXISTS" and key = key] assms
  by (simp add: ggml_hash_insert_home hs_full_card)

lemma ggml_hash_insert_full:
  assumes "hs_inv hs" "key \<notin> hs_set hs" "card (hs_set hs) = hs_size hs"
  shows "ggml_hash_insert hs key = None"
  using hash_insert_spec [OF assms(1) refl, where found = "\<lambda>_. GGML_HASHSET_ALREADY_EXISTS" and key = key] assms
  by (simp add: ggml_hash_insert_home hs_full_card)

text \<open>A key that is not in the table is found at the slot where an insertion puts it.\<close>

lemma ggml_hash_find_new:
  assumes "hs_inv hs" "key \<notin> hs_set hs" "card (hs_set hs) < hs_size hs"
  shows "\<exists>i. ggml_hash_find hs key = Some i \<and> i < hs_size hs \<and> \<not> hs_get hs i \<and>
    hs_inv (hs_put hs i key) \<and> hs_set (hs_put hs i key) = insert key (hs_set hs)"
proof -
  have "\<not> hs_full hs" using assms by (simp add: hs_full_card)
  then obtain d where d: "hs_stop hs key 0 = Some d" "\<not> hs_get hs (hs_probe hs key d)"
    using hs_stop_new [OF assms(1,2)] by auto
  have "ggml_hash_find hs key = Some (hs_probe hs key d)"
    using hash_find_loop_stop [OF hs_invD(1) [OF assms(1)]] d(1)
    by (simp add: ggml_hash_find_def Let_def hs_home_def)
  moreover have "hs_probe hs key d < hs_size hs" by (rule hs_probe_less [OF hs_invD(1) [OF assms(1)]])
  ultimately show ?thesis
    using hs_put_inv [OF assms(1) d(1) refl d(2)] hs_put_set [OF assms(1) _ d(2)] d(2) by blast
qed

section \<open>The size of a table\<close>

lemma hash_primes_sorted: "sorted hash_primes"
  by (simp add: hash_primes_def)

lemma hash_size_search_spec:
  assumes "l \<le> r" "r \<le> length hash_primes"
    and "\<forall>i < l. hash_primes ! i < n" "\<forall>i. r \<le> i \<and> i < length hash_primes \<longrightarrow> n \<le> hash_primes ! i"
  shows "let k = hash_size_search n l r in
    k \<le> length hash_primes \<and> (\<forall>i < k. hash_primes ! i < n) \<and>
    (\<forall>i. k \<le> i \<and> i < length hash_primes \<longrightarrow> n \<le> hash_primes ! i)"
  using assms
proof (induction n l r rule: hash_size_search.induct)
  case (1 n l r)
  note s = sorted_nth_mono [OF hash_primes_sorted]
  show ?case
  proof (cases "l < r")
    case False
    with 1(3-6) show ?thesis by (subst hash_size_search.simps) (auto simp: Let_def)
  next
    case True
    let ?m = "(l + r) div 2"
    have m: "l \<le> ?m" "?m < r" using True by auto
    show ?thesis
    proof (cases "hash_primes ! ?m < n")
      case lt: True
      have "\<forall>i < ?m + 1. hash_primes ! i < n"
      proof (intro allI impI)
        fix i assume "i < ?m + 1"
        then have "hash_primes ! i \<le> hash_primes ! ?m" using m 1(4) by (intro s) auto
        with lt show "hash_primes ! i < n" by simp
      qed
      then show ?thesis
        using 1(1) [OF True refl lt] 1(4-6) m True lt by (subst hash_size_search.simps) (simp add: Let_def)
    next
      case ge: False
      have "\<forall>i. ?m \<le> i \<and> i < length hash_primes \<longrightarrow> n \<le> hash_primes ! i"
      proof (intro allI impI)
        fix i assume "?m \<le> i \<and> i < length hash_primes"
        then have "hash_primes ! ?m \<le> hash_primes ! i" by (intro s) auto
        with ge show "n \<le> hash_primes ! i" by simp
      qed
      then show ?thesis
        using 1(2) [OF True refl ge] 1(4-6) m True ge by (subst hash_size_search.simps) (simp add: Let_def)
    qed
  qed
qed

text \<open>The smallest prime of the table that is at least n, or, past the table, n made odd.\<close>

lemma ggml_hash_size_cases:
  "(\<exists>k < length hash_primes. ggml_hash_size n = hash_primes ! k \<and> n \<le> hash_primes ! k \<and>
      (\<forall>i < k. hash_primes ! i < n)) \<or>
   (\<forall>p \<in> set hash_primes. p < n) \<and> ggml_hash_size n = n + (if even n then 1 else 0)"
proof -
  let ?k = "hash_size_search n 0 (length hash_primes)"
  have k: "?k \<le> length hash_primes" "\<forall>i < ?k. hash_primes ! i < n"
    "\<forall>i. ?k \<le> i \<and> i < length hash_primes \<longrightarrow> n \<le> hash_primes ! i"
    using hash_size_search_spec [of 0 "length hash_primes" n] by (auto simp: Let_def)
  show ?thesis
  proof (cases "?k < length hash_primes")
    case True
    then show ?thesis using k by (auto simp: ggml_hash_size_def Let_def)
  next
    case False
    then have "\<forall>p \<in> set hash_primes. p < n" using k by (auto simp: in_set_conv_nth)
    with False show ?thesis by (auto simp: ggml_hash_size_def Let_def or_Suc_0_eq)
  qed
qed

lemma hash_primes_bounds: "p \<in> set hash_primes \<Longrightarrow> 2 \<le> p \<and> p \<le> 2147483659"
  by (auto simp: hash_primes_def)

lemma ggml_hash_size_ge: "n \<le> ggml_hash_size n"
  using ggml_hash_size_cases [of n] by (auto split: if_splits)

lemma ggml_hash_size_pos: "0 < ggml_hash_size n"
  using ggml_hash_size_cases [of n] hash_primes_bounds by (force simp: in_set_conv_nth split: if_splits)

lemma ggml_hash_size_le: "ggml_hash_size n \<le> max 2147483659 (n + 1)"
  using ggml_hash_size_cases [of n]
proof (elim disjE exE conjE)
  fix k assume "k < length hash_primes" "ggml_hash_size n = hash_primes ! k"
  then have "ggml_hash_size n \<in> set hash_primes" by simp
  then show ?thesis using hash_primes_bounds [of "ggml_hash_size n"] by linarith
qed (auto split: if_splits)

lemma hs_empty:
  assumes "0 < hs_size hs" "hs_size hs < GGML_HASHSET_ALREADY_EXISTS" "length (hs_keys hs) = hs_size hs"
    "hs_used hs = replicate (ggml_bitset_size (hs_size hs)) 0"
  shows "hs_inv hs \<and> hs_set hs = {}"
  using assms by (auto simp: hs_inv_def hs_set_def ggml_bitset_get_zero ggml_bitset_size_covers)

lemma ggml_hash_set_new_spec:
  assumes "n < 2 ^ 63"
  shows "hs_inv (ggml_hash_set_new junk n) \<and> hs_set (ggml_hash_set_new junk n) = {} \<and>
    hs_size (ggml_hash_set_new junk n) = ggml_hash_size n"
  using hs_empty [of "ggml_hash_set_new junk n"] ggml_hash_size_pos [of n] ggml_hash_size_le [of n] assms
  by (auto simp: ggml_hash_set_new_def GGML_HASHSET_ALREADY_EXISTS_def Let_def)

lemma ggml_hash_set_reset_spec:
  assumes "hs_inv hs"
  shows "hs_inv (ggml_hash_set_reset hs) \<and> hs_set (ggml_hash_set_reset hs) = {} \<and>
    hs_size (ggml_hash_set_reset hs) = hs_size hs"
  using hs_empty [of "ggml_hash_set_reset hs"] hs_invD [OF assms]
  by (auto simp: ggml_hash_set_reset_def)

section \<open>The contract\<close>

text \<open>
  What the graph builder and the allocator rely on: membership, insertion below the capacity, and
  slots that later insertions do not move.
\<close>

locale key_set =
  fixes inv :: "'s \<Rightarrow> bool"
    and elems :: "'s \<Rightarrow> ptr set"
    and capacity :: "'s \<Rightarrow> nat"
    and occupied :: "'s \<Rightarrow> nat \<Rightarrow> ptr \<Rightarrow> bool"
    and member :: "'s \<Rightarrow> ptr \<Rightarrow> bool option"
    and insert_key :: "'s \<Rightarrow> ptr \<Rightarrow> (nat \<times> 's) option"
    and reset :: "'s \<Rightarrow> 's"
  assumes member_law: "inv s \<Longrightarrow> member s k = Some (k \<in> elems s)"
    and insert_old: "inv s \<Longrightarrow> k \<in> elems s \<Longrightarrow> \<exists>i. insert_key s k = Some (i, s)"
    and insert_new: "inv s \<Longrightarrow> k \<notin> elems s \<Longrightarrow> card (elems s) < capacity s \<Longrightarrow>
      \<exists>i s'. insert_key s k = Some (i, s') \<and> inv s' \<and> elems s' = insert k (elems s) \<and>
        capacity s' = capacity s \<and> occupied s' i k \<and> (\<forall>j x. occupied s j x \<longrightarrow> occupied s' j x)"
    and reset_law: "inv s \<Longrightarrow> inv (reset s) \<and> elems (reset s) = {} \<and> capacity (reset s) = capacity s"
    and elems_finite: "inv s \<Longrightarrow> finite (elems s)"
begin

fun insert_all :: "'s \<Rightarrow> ptr list \<Rightarrow> 's option" where
  "insert_all s [] = Some s"
| "insert_all s (k # ks) = (case insert_key s k of None \<Rightarrow> None | Some (i, s') \<Rightarrow> insert_all s' ks)"

lemma insert_cases:
  assumes "inv s" "k \<in> elems s \<or> card (elems s) < capacity s"
  obtains i s' where "insert_key s k = Some (i, s')" "inv s'" "elems s' = insert k (elems s)"
    "capacity s' = capacity s" "\<forall>j x. occupied s j x \<longrightarrow> occupied s' j x"
proof (cases "k \<in> elems s")
  case True
  then obtain i where "insert_key s k = Some (i, s)" using insert_old [OF assms(1)] by blast
  with True assms show thesis by (intro that [of i s]) auto
next
  case False
  with assms insert_new [OF assms(1) False] show thesis using that by blast
qed

lemma insert_all_spec:
  assumes "inv s" "card (elems s \<union> set ks) \<le> capacity s"
  shows "\<exists>s'. insert_all s ks = Some s' \<and> inv s' \<and> elems s' = elems s \<union> set ks \<and>
    capacity s' = capacity s \<and> (\<forall>j x. occupied s j x \<longrightarrow> occupied s' j x)"
  using assms
proof (induction ks arbitrary: s)
  case Nil
  then show ?case by simp
next
  case (Cons k ks)
  have fin: "finite (elems s)" using Cons.prems elems_finite by blast
  have "k \<in> elems s \<or> card (elems s) < capacity s"
  proof (rule disjCI)
    assume "\<not> card (elems s) < capacity s"
    moreover have "card (insert k (elems s)) \<le> card (elems s \<union> set (k # ks))"
      using fin by (intro card_mono) auto
    ultimately show "k \<in> elems s" using Cons.prems fin by (cases "k \<in> elems s") auto
  qed
  with Cons.prems(1) obtain i s' where s': "insert_key s k = Some (i, s')" "inv s'"
    "elems s' = insert k (elems s)" "capacity s' = capacity s" "\<forall>j x. occupied s j x \<longrightarrow> occupied s' j x"
    by (rule insert_cases)
  have "card (elems s' \<union> set ks) \<le> capacity s'" using s' Cons.prems by simp
  from Cons.IH [OF s'(2) this] s' show ?case by auto
qed

lemma insert_all_after_reset:
  assumes "inv s" "length ks \<le> capacity s"
  shows "\<exists>s'. insert_all (reset s) ks = Some s' \<and> inv s' \<and> elems s' = set ks"
proof -
  have "card (elems (reset s) \<union> set ks) \<le> capacity (reset s)"
    using reset_law [OF assms(1)] assms(2) card_length [of ks] by simp
  then show ?thesis using insert_all_spec [of "reset s" ks] reset_law [OF assms(1)] by auto
qed

end

definition hs_occupied :: "ggml_hash_set \<Rightarrow> nat \<Rightarrow> ptr \<Rightarrow> bool" where
  "hs_occupied hs i key \<longleftrightarrow> i < hs_size hs \<and> hs_get hs i \<and> hs_keys hs ! i = key"

lemma hs_put_occupied:
  assumes "hs_inv hs" "i < hs_size hs" "\<not> hs_get hs i"
  shows "hs_occupied (hs_put hs i key) i key"
    and "hs_occupied hs j x \<Longrightarrow> hs_occupied (hs_put hs i key) j x"
  using assms hs_put_get [OF assms(1,2)] hs_invD(3) [OF assms(1)]
  by (auto simp: hs_occupied_def nth_list_update)

interpretation probing: key_set hs_inv hs_set hs_size hs_occupied ggml_hash_contains ggml_hash_insert
  ggml_hash_set_reset
proof
  show "ggml_hash_contains s k = Some (k \<in> hs_set s)" if "hs_inv s" for s k
    using that by (rule ggml_hash_contains_spec)
  show "\<exists>i. ggml_hash_insert s k = Some (i, s)" if "hs_inv s" "k \<in> hs_set s" for s k
    using ggml_hash_insert_old [OF that] by blast
  show "\<exists>i s'. ggml_hash_insert s k = Some (i, s') \<and> hs_inv s' \<and> hs_set s' = insert k (hs_set s) \<and>
      hs_size s' = hs_size s \<and> hs_occupied s' i k \<and> (\<forall>j x. hs_occupied s j x \<longrightarrow> hs_occupied s' j x)"
    if "hs_inv s" "k \<notin> hs_set s" "card (hs_set s) < hs_size s" for s k
    using ggml_hash_insert_new [OF that] hs_put_occupied [OF that(1)] hs_put_simps(1) by blast
  show "hs_inv (ggml_hash_set_reset s) \<and> hs_set (ggml_hash_set_reset s) = {} \<and>
      hs_size (ggml_hash_set_reset s) = hs_size s" if "hs_inv s" for s
    using that by (rule ggml_hash_set_reset_spec)
  show "finite (hs_set s)" if "hs_inv s" for s by (rule hs_set_finite)
qed

section \<open>Properties\<close>

text \<open>C6: On a table in a state the operations produce, ggml_hash_contains answers membership; inserting
  a key that is there leaves the table as it is and reports GGML_HASHSET_ALREADY_EXISTS; inserting a new
  key below the capacity adds exactly that key in a slot that was free and returns the slot; inserting a
  new key into a full table aborts.\<close>

theorem hash_set_operations:
  assumes "hs_inv hs"
  shows "ggml_hash_contains hs k = Some (k \<in> hs_set hs) \<and>
    (case ggml_hash_insert hs k of
       None \<Rightarrow> k \<notin> hs_set hs \<and> card (hs_set hs) = hs_size hs
     | Some (i, hs') \<Rightarrow> hs_inv hs' \<and> hs_set hs' = insert k (hs_set hs) \<and> hs_size hs' = hs_size hs \<and>
         (if k \<in> hs_set hs then i = GGML_HASHSET_ALREADY_EXISTS \<and> hs' = hs
          else i < hs_size hs \<and> \<not> hs_get hs i \<and> hs_get hs' i \<and> hs_keys hs' ! i = k))"
proof (cases "k \<in> hs_set hs")
  case True
  then show ?thesis
    using ggml_hash_contains_spec [OF assms] ggml_hash_insert_old [OF assms] assms by auto
next
  case False
  then show ?thesis
    using ggml_hash_contains_spec [OF assms] ggml_hash_insert_full [OF assms] ggml_hash_insert_new [OF assms]
      hs_card_le [OF assms] hs_put_occupied(1) [OF assms] hs_put_simps(1)
    by (cases "card (hs_set hs) = hs_size hs") (force simp: hs_occupied_def)+
qed

theorem hash_set_operations_witness:
  "ggml_hash_contains (ggml_hash_set_new (\<lambda>_. 0) 3) 4096 = Some False"
  using hash_set_operations [of "ggml_hash_set_new (\<lambda>_. 0) 3" 4096] ggml_hash_set_new_spec [of 3 "\<lambda>_. 0"]
  by simp

text \<open>C22: ggml_hash_size returns the least prime of the table that is at least the requested size, and
  the requested size with its lowest bit set beyond the table.\<close>

theorem hash_size_least_prime:
  "ggml_hash_size n = (if n \<le> 2147483659 then Min {p \<in> set hash_primes. n \<le> p} else n OR 1)"
  using ggml_hash_size_cases [of n]
proof (elim disjE exE conjE)
  fix k assume k: "k < length hash_primes" "ggml_hash_size n = hash_primes ! k" "n \<le> hash_primes ! k"
    "\<forall>i < k. hash_primes ! i < n"
  have in_tab: "hash_primes ! k \<in> set hash_primes" using k(1) by simp
  have "Min {p \<in> set hash_primes. n \<le> p} = hash_primes ! k"
  proof (rule Min_eqI)
    fix p assume "p \<in> {p \<in> set hash_primes. n \<le> p}"
    then obtain j where j: "j < length hash_primes" "p = hash_primes ! j" "n \<le> p" by (auto simp: in_set_conv_nth)
    then have "k \<le> j" using k(4) by (metis not_less)
    then show "hash_primes ! k \<le> p" using sorted_nth_mono [OF hash_primes_sorted] j by simp
  qed (use in_tab k(3) in auto)
  moreover have "n \<le> 2147483659" using hash_primes_bounds [OF in_tab] k(3) by simp
  ultimately show ?thesis using k(2) by simp
next
  assume big: "\<forall>p \<in> set hash_primes. p < n" and s: "ggml_hash_size n = n + (if even n then 1 else 0)"
  have "2147483659 \<in> set hash_primes" by (simp add: hash_primes_def)
  then have "\<not> n \<le> 2147483659" using big by (meson not_less)
  then show ?thesis using s by (simp add: or_Suc_0_eq)
qed

text \<open>C23: After a reset, a table takes any sequence of at most as many keys as it has slots, repeated keys
  included, and then holds exactly those keys.\<close>

theorem hash_reset_then_fill:
  assumes "hs_inv hs" "length ks \<le> hs_size hs"
  shows "\<exists>hs'. probing.insert_all (ggml_hash_set_reset hs) ks = Some hs' \<and> hs_inv hs' \<and> hs_set hs' = set ks"
  using assms by (rule probing.insert_all_after_reset)

theorem hash_reset_then_fill_witness:
  "\<exists>hs'. probing.insert_all (ggml_hash_set_reset (ggml_hash_set_new (\<lambda>_. 0) 3)) [4096, 8192, 4096] = Some hs' \<and>
    hs_inv hs' \<and> hs_set hs' = {4096, 8192}"
  using hash_reset_then_fill [of "ggml_hash_set_new (\<lambda>_. 0) 3" "[4096, 8192, 4096]"]
    ggml_hash_set_new_spec [of 3 "\<lambda>_. 0"] ggml_hash_size_ge [of 3]
  by (simp add: insert_commute)

end
