(* ===== verification/ContextPool.thy ===== *)
theory ContextPool
  imports Tensor HashSet
begin

text \<open>
  ggml contexts (ggml.c): a memory pool in which objects are laid out one after the other and
  linked, each a header of 32 bytes followed by its payload.  The store maps addresses to the
  structures that live there: contexts, object headers, tensors and computation graphs.  An object
  lives until ggml_reset or ggml_free ends it.

  The invariant \<open>pools_ok\<close> says that every context's list is exactly the sequence of headers found
  by walking its pool from the start, that they stay inside the pool and are aligned, that pools do
  not overlap, and that every live tensor is the payload of such an object.  Allocation keeps it
  and returns an address that nothing lives at.
\<close>

section \<open>Structures\<close>

datatype ggml_object_type =
    GGML_OBJECT_TYPE_TENSOR
  | GGML_OBJECT_TYPE_GRAPH
  | GGML_OBJECT_TYPE_WORK_BUFFER

record ggml_object =
  o_offs :: int
  o_size :: int
  o_next :: ptr
  o_type :: ggml_object_type

definition GGML_OBJECT_SIZE :: int where "GGML_OBJECT_SIZE = 32"

record ggml_context =
  c_mem_size :: int
  c_mem_buffer :: ptr
  c_mem_buffer_owned :: bool
  c_no_alloc :: bool
  c_n_objects :: int
  c_objects_begin :: ptr
  c_objects_end :: ptr

record ggml_init_params =
  ip_mem_size :: int
  ip_mem_buffer :: ptr
  ip_no_alloc :: bool

datatype ggml_cgraph_eval_order =
    GGML_CGRAPH_EVAL_ORDER_LEFT_TO_RIGHT
  | GGML_CGRAPH_EVAL_ORDER_RIGHT_TO_LEFT
  | GGML_CGRAPH_EVAL_ORDER_COUNT

text \<open>
  A computation graph.  nodes and leafs are arrays of g_size entries; grads and grad_accs are NULL
  (None) or arrays over the slots of the visited set, as use_counts is.
\<close>

record ggml_cgraph =
  g_size :: int
  g_n_nodes :: int
  g_n_leafs :: int
  g_nodes :: "ptr list"
  g_grads :: "ptr list option"
  g_grad_accs :: "ptr list option"
  g_leafs :: "ptr list"
  g_use_counts :: "int list"
  g_visited :: ggml_hash_set
  g_order :: ggml_cgraph_eval_order

record heap =
  h_ctxs :: "ptr \<Rightarrow> ggml_context option"
  h_objs :: "ptr \<Rightarrow> ggml_object option"
  h_tensors :: "ptr \<Rightarrow> ggml_tensor option"
  h_graphs :: "ptr \<Rightarrow> ggml_cgraph option"

section \<open>Access\<close>

definition cget :: "heap \<Rightarrow> ptr \<Rightarrow> ggml_context option" where
  "cget h p = (if p = NULL then None else h_ctxs h p)"

definition oget :: "heap \<Rightarrow> ptr \<Rightarrow> ggml_object option" where
  "oget h p = (if p = NULL then None else h_objs h p)"

definition tget :: "heap \<Rightarrow> ptr \<Rightarrow> ggml_tensor option" where
  "tget h p = (if p = NULL then None else h_tensors h p)"

definition tset :: "heap \<Rightarrow> ptr \<Rightarrow> (ggml_tensor \<Rightarrow> ggml_tensor) \<Rightarrow> heap option" where
  "tset h p f = do {
     t \<leftarrow> tget h p;
     Some (h\<lparr> h_tensors := (h_tensors h)(p \<mapsto> f t) \<rparr>) }"

section \<open>Contexts\<close>

text \<open>
  The addresses the two allocations of ggml_init return are arguments.  ggml_malloc aborts instead
  of returning NULL; a NULL buffer fails the assertion.
\<close>

definition ggml_init :: "heap \<Rightarrow> ggml_init_params \<Rightarrow> ptr \<Rightarrow> ptr \<Rightarrow> (ptr \<times> heap) option" where
  "ggml_init h params ctx_addr buf_addr = do {
     gassert (ctx_addr \<noteq> NULL);
     let req = (if ip_mem_size params = 0 then GGML_MEM_ALIGN else ip_mem_size params);
     let mem_size = (if ip_mem_buffer params \<noteq> NULL then req else GGML_PAD req GGML_MEM_ALIGN);
     let ctx = \<lparr> c_mem_size = mem_size,
                 c_mem_buffer = (if ip_mem_buffer params \<noteq> NULL then ip_mem_buffer params else buf_addr),
                 c_mem_buffer_owned = (if ip_mem_buffer params \<noteq> NULL then False else True),
                 c_no_alloc = ip_no_alloc params,
                 c_n_objects = 0, c_objects_begin = NULL, c_objects_end = NULL \<rparr>;
     gassert (c_mem_buffer ctx \<noteq> NULL);
     gassert (c_mem_buffer ctx mod GGML_MEM_ALIGN = 0);
     Some (ctx_addr, h\<lparr> h_ctxs := (h_ctxs h)(ctx_addr \<mapsto> ctx) \<rparr>) }"

text \<open>
  ggml_reset only forgets the objects: what the pool held stays in its memory until it is written over.  ggml_free
  releases the memory if the context owns it, and leaves a buffer of the caller as it is; \<open>drop_pool\<close> is the
  store without the structures of a pool.
\<close>

definition in_pool :: "ggml_context \<Rightarrow> ptr \<Rightarrow> bool" where
  "in_pool c p \<longleftrightarrow> c_mem_buffer c \<le> p \<and> p < c_mem_buffer c + c_mem_size c"

definition drop_pool :: "heap \<Rightarrow> ggml_context \<Rightarrow> heap" where
  "drop_pool h c = h\<lparr>
     h_objs := (\<lambda>p. if in_pool c p then None else h_objs h p),
     h_tensors := (\<lambda>p. if in_pool c p then None else h_tensors h p),
     h_graphs := (\<lambda>p. if in_pool c p then None else h_graphs h p) \<rparr>"

definition ggml_reset :: "heap \<Rightarrow> ptr \<Rightarrow> heap option" where
  "ggml_reset h ctx =
     (if ctx = NULL then Some h
      else do {
        c \<leftarrow> cget h ctx;
        Some (h\<lparr> h_ctxs := (h_ctxs h)(ctx \<mapsto> c\<lparr> c_n_objects := 0, c_objects_begin := NULL,
                                                c_objects_end := NULL \<rparr>) \<rparr>) })"

definition ggml_free :: "heap \<Rightarrow> ptr \<Rightarrow> heap option" where
  "ggml_free h ctx =
     (if ctx = NULL then Some h
      else do {
        c \<leftarrow> cget h ctx;
        let h = (if c_mem_buffer_owned c then drop_pool h c else h);
        Some (h\<lparr> h_ctxs := (h_ctxs h)(ctx := None) \<rparr>) })"

definition ggml_used_mem :: "heap \<Rightarrow> ptr \<Rightarrow> int option" where
  "ggml_used_mem h ctx = do {
     c \<leftarrow> cget h ctx;
     if c_objects_end c = NULL then Some 0
     else do { ob \<leftarrow> oget h (c_objects_end c); Some (u64 (o_offs ob + o_size ob)) } }"

definition ggml_get_no_alloc :: "heap \<Rightarrow> ptr \<Rightarrow> bool option" where
  "ggml_get_no_alloc h ctx = map_option c_no_alloc (cget h ctx)"

definition ggml_set_no_alloc :: "heap \<Rightarrow> ptr \<Rightarrow> bool \<Rightarrow> heap option" where
  "ggml_set_no_alloc h ctx no_alloc = do {
     c \<leftarrow> cget h ctx;
     Some (h\<lparr> h_ctxs := (h_ctxs h)(ctx \<mapsto> c\<lparr> c_no_alloc := no_alloc \<rparr>) \<rparr>) }"

definition ggml_get_mem_buffer :: "heap \<Rightarrow> ptr \<Rightarrow> ptr option" where
  "ggml_get_mem_buffer h ctx = map_option c_mem_buffer (cget h ctx)"

definition ggml_get_mem_size :: "heap \<Rightarrow> ptr \<Rightarrow> int option" where
  "ggml_get_mem_size h ctx = map_option c_mem_size (cget h ctx)"

section \<open>Allocation of objects\<close>

text \<open>When the pool is too small the release build logs a warning and returns NULL.\<close>

definition ggml_new_object :: "heap \<Rightarrow> ptr \<Rightarrow> ggml_object_type \<Rightarrow> int \<Rightarrow> (ptr \<times> heap) option" where
  "ggml_new_object h ctx type sz = do {
     c \<leftarrow> cget h ctx;
     let obj_cur = c_objects_end c;
     (cur_offs, cur_size) \<leftarrow>
       (if obj_cur = NULL then Some (0, 0)
        else do { ob \<leftarrow> oget h obj_cur; Some (o_offs ob, o_size ob) });
     let cur_end = u64 (cur_offs + cur_size);
     gassert (sz \<le> SIZE_MAX - (GGML_MEM_ALIGN - 1));
     let size_needed = GGML_PAD sz GGML_MEM_ALIGN;
     let obj_new = u64 (c_mem_buffer c + cur_end);
     if cur_end > SIZE_MAX - size_needed then Some (NULL, h)
     else if cur_end + size_needed > SIZE_MAX - GGML_OBJECT_SIZE then Some (NULL, h)
     else if cur_end + size_needed + GGML_OBJECT_SIZE > c_mem_size c then Some (NULL, h)
     else do {
       let ob = \<lparr> o_offs = cur_end + GGML_OBJECT_SIZE, o_size = size_needed, o_next = NULL, o_type = type \<rparr>;
       gassert (u64 (c_mem_buffer c + o_offs ob) mod GGML_MEM_ALIGN = 0);
       let objs = (h_objs h)(obj_new \<mapsto> ob);
       (objs, begin) \<leftarrow>
         (if obj_cur \<noteq> NULL
          then do { cur \<leftarrow> objs obj_cur;
                    Some (objs(obj_cur \<mapsto> cur\<lparr> o_next := obj_new \<rparr>), c_objects_begin c) }
          else Some (objs, obj_new));
       Some (obj_new,
         h\<lparr> h_objs := objs,
            h_ctxs := (h_ctxs h)(ctx \<mapsto> c\<lparr> c_objects_begin := begin, c_objects_end := obj_new \<rparr>) \<rparr>) } }"

section \<open>Allocation of tensors\<close>

text \<open>The extents beyond n_dims are 1.\<close>

definition pad_dims :: "nat \<Rightarrow> int list \<Rightarrow> int list" where
  "pad_dims n_dims ne = map (\<lambda>i. if i < n_dims then ne ! i else 1) [0..<GGML_MAX_DIMS]"

text \<open>The structure ggml_new_tensor_impl fills in.\<close>

definition fresh_tensor :: "ggml_type \<Rightarrow> int list \<Rightarrow> ptr \<Rightarrow> int \<Rightarrow> ptr \<Rightarrow> ggml_tensor" where
  "fresh_tensor type ne view_src view_offs data =
     \<lparr> t_type = type, t_buffer = NULL, t_ne = ne, t_nb = fresh_strides type ne,
       t_op = GGML_OP_NONE, t_op_params = replicate GGML_N_OP_PARAMS 0, t_flags = 0,
       t_src = replicate GGML_MAX_SRC NULL, t_view_src = view_src, t_view_offs = view_offs,
       t_data = data, t_name = [], t_extra = NULL \<rparr>"

text \<open>The tensor a view is based on and the absolute offset into it.\<close>

definition view_base :: "heap \<Rightarrow> ptr \<Rightarrow> int \<Rightarrow> (ptr \<times> int) option" where
  "view_base h view_src view_offs =
     (if view_src \<noteq> NULL
      then do { v \<leftarrow> tget h view_src;
                Some (if t_view_src v \<noteq> NULL then (t_view_src v, u64 (view_offs + t_view_offs v))
                      else (view_src, view_offs)) }
      else Some (view_src, view_offs))"

text \<open>The second half of ggml_new_tensor_impl: the object, and the tensor in its payload.\<close>

definition place_tensor ::
    "heap \<Rightarrow> ptr \<Rightarrow> ggml_type \<Rightarrow> int list \<Rightarrow> ptr \<Rightarrow> int \<Rightarrow> ptr \<Rightarrow> int \<Rightarrow> (ptr \<times> heap) option" where
  "place_tensor h ctx type ne view_src view_offs data obj_alloc_size = do {
     gassert (GGML_TENSOR_SIZE \<le> SIZE_MAX - obj_alloc_size);
     (obj_new, h) \<leftarrow> ggml_new_object h ctx GGML_OBJECT_TYPE_TENSOR (GGML_TENSOR_SIZE + obj_alloc_size);
     gassert (obj_new \<noteq> NULL);
     ob \<leftarrow> oget h obj_new;
     c \<leftarrow> cget h ctx;
     let result = u64 (c_mem_buffer c + o_offs ob);
     let data = (if obj_alloc_size > 0 then u64 (result + GGML_TENSOR_SIZE) else data);
     Some (result,
       h\<lparr> h_tensors := (h_tensors h)(result \<mapsto> fresh_tensor type ne view_src view_offs data),
          h_ctxs := (h_ctxs h)(ctx \<mapsto> c\<lparr> c_n_objects := i32 (c_n_objects c + 1) \<rparr>) \<rparr>) }"

definition ggml_new_tensor_impl ::
    "heap \<Rightarrow> ptr \<Rightarrow> ggml_type \<Rightarrow> nat \<Rightarrow> int list \<Rightarrow> ptr \<Rightarrow> int \<Rightarrow> (ptr \<times> heap) option" where
  "ggml_new_tensor_impl h ctx type n_dims ne view_src view_offs = do {
     gassert (1 \<le> n_dims \<and> n_dims \<le> GGML_MAX_DIMS);
     (view_src, view_offs) \<leftarrow> view_base h view_src view_offs;
     let data_size = fold (\<lambda>i s. u64 (s * ne ! i)) [1..<n_dims] (ggml_row_size type (ne ! 0));
     src_data \<leftarrow>
       (if view_src \<noteq> NULL
        then do { v \<leftarrow> tget h view_src;
                  gassert (data_size = 0 \<or> u64 (data_size + view_offs) \<le> ggml_nbytes v);
                  Some (t_data v) }
        else Some NULL);
     let data = (if src_data \<noteq> NULL then u64 (src_data + view_offs) else src_data);
     c \<leftarrow> cget h ctx;
     let obj_alloc_size = (if view_src = NULL \<and> \<not> c_no_alloc c then data_size else 0);
     place_tensor h ctx type (pad_dims n_dims ne) view_src view_offs data obj_alloc_size }"

definition ggml_new_tensor :: "heap \<Rightarrow> ptr \<Rightarrow> ggml_type \<Rightarrow> nat \<Rightarrow> int list \<Rightarrow> (ptr \<times> heap) option" where
  "ggml_new_tensor h ctx type n_dims ne = ggml_new_tensor_impl h ctx type n_dims ne NULL 0"

definition ggml_new_tensor_1d :: "heap \<Rightarrow> ptr \<Rightarrow> ggml_type \<Rightarrow> int \<Rightarrow> (ptr \<times> heap) option" where
  "ggml_new_tensor_1d h ctx type ne0 = ggml_new_tensor h ctx type 1 [ne0]"

definition ggml_new_tensor_2d :: "heap \<Rightarrow> ptr \<Rightarrow> ggml_type \<Rightarrow> int \<Rightarrow> int \<Rightarrow> (ptr \<times> heap) option" where
  "ggml_new_tensor_2d h ctx type ne0 ne1 = ggml_new_tensor h ctx type 2 [ne0, ne1]"

definition ggml_new_tensor_3d ::
    "heap \<Rightarrow> ptr \<Rightarrow> ggml_type \<Rightarrow> int \<Rightarrow> int \<Rightarrow> int \<Rightarrow> (ptr \<times> heap) option" where
  "ggml_new_tensor_3d h ctx type ne0 ne1 ne2 = ggml_new_tensor h ctx type 3 [ne0, ne1, ne2]"

definition ggml_new_tensor_4d ::
    "heap \<Rightarrow> ptr \<Rightarrow> ggml_type \<Rightarrow> int \<Rightarrow> int \<Rightarrow> int \<Rightarrow> int \<Rightarrow> (ptr \<times> heap) option" where
  "ggml_new_tensor_4d h ctx type ne0 ne1 ne2 ne3 = ggml_new_tensor h ctx type 4 [ne0, ne1, ne2, ne3]"

text \<open>ggml_new_buffer uses the object without a check for NULL.\<close>

definition ggml_new_buffer :: "heap \<Rightarrow> ptr \<Rightarrow> int \<Rightarrow> (ptr \<times> heap) option" where
  "ggml_new_buffer h ctx nbytes = do {
     (obj, h) \<leftarrow> ggml_new_object h ctx GGML_OBJECT_TYPE_WORK_BUFFER nbytes;
     c \<leftarrow> cget h ctx;
     ob \<leftarrow> oget h obj;
     Some (u64 (c_mem_buffer c + o_offs ob), h) }"

definition ggml_dup_tensor :: "heap \<Rightarrow> ptr \<Rightarrow> ptr \<Rightarrow> (ptr \<times> heap) option" where
  "ggml_dup_tensor h ctx src = do {
     s \<leftarrow> tget h src;
     ggml_new_tensor h ctx (t_type s) GGML_MAX_DIMS (t_ne s) }"

definition ggml_view_tensor :: "heap \<Rightarrow> ptr \<Rightarrow> ptr \<Rightarrow> (ptr \<times> heap) option" where
  "ggml_view_tensor h ctx src = do {
     s \<leftarrow> tget h src;
     (result, h) \<leftarrow> ggml_new_tensor_impl h ctx (t_type s) GGML_MAX_DIMS (t_ne s) src 0;
     h \<leftarrow> tset h result (ggml_format_name (t_name s @ '' (view)''));
     h \<leftarrow> tset h result (\<lambda>t. t\<lparr> t_nb := t_nb s \<rparr>);
     Some (result, h) }"

section \<open>Walking a context\<close>

text \<open>
  The while loops over the object list: the first tensor at or after \<open>obj\<close> (NULL when there is
  none), and the first one whose name is asked for.  A list with a cycle would not end: None.
\<close>

partial_function (option) tensor_at_or_after :: "heap \<Rightarrow> ptr \<Rightarrow> ptr \<Rightarrow> ptr option" where
  "tensor_at_or_after h mem_buffer obj =
     (if obj = NULL then Some NULL
      else do {
        ob \<leftarrow> oget h obj;
        if o_type ob = GGML_OBJECT_TYPE_TENSOR then Some (u64 (mem_buffer + o_offs ob))
        else tensor_at_or_after h mem_buffer (o_next ob) })"

definition ggml_get_first_tensor :: "heap \<Rightarrow> ptr \<Rightarrow> ptr option" where
  "ggml_get_first_tensor h ctx = do {
     c \<leftarrow> cget h ctx;
     tensor_at_or_after h (c_mem_buffer c) (c_objects_begin c) }"

definition ggml_get_next_tensor :: "heap \<Rightarrow> ptr \<Rightarrow> ptr \<Rightarrow> ptr option" where
  "ggml_get_next_tensor h ctx tensor = do {
     ob \<leftarrow> oget h (u64 (tensor - GGML_OBJECT_SIZE));
     c \<leftarrow> cget h ctx;
     tensor_at_or_after h (c_mem_buffer c) (o_next ob) }"

partial_function (option) named_at_or_after :: "heap \<Rightarrow> ptr \<Rightarrow> string \<Rightarrow> ptr \<Rightarrow> ptr option" where
  "named_at_or_after h mem_buffer name obj =
     (if obj = NULL then Some NULL
      else do {
        ob \<leftarrow> oget h obj;
        found \<leftarrow>
          (if o_type ob = GGML_OBJECT_TYPE_TENSOR
           then do { cur \<leftarrow> tget h (u64 (mem_buffer + o_offs ob)); Some (t_name cur = name) }
           else Some False);
        if found then Some (u64 (mem_buffer + o_offs ob))
        else named_at_or_after h mem_buffer name (o_next ob) })"

definition ggml_get_tensor :: "heap \<Rightarrow> ptr \<Rightarrow> string \<Rightarrow> ptr option" where
  "ggml_get_tensor h ctx name = do {
     c \<leftarrow> cget h ctx;
     named_at_or_after h (c_mem_buffer c) name (c_objects_begin c) }"

partial_function (option) max_size_loop :: "heap \<Rightarrow> ptr \<Rightarrow> ptr \<Rightarrow> int \<Rightarrow> int option" where
  "max_size_loop h ctx tensor max_size =
     (if tensor = NULL then Some max_size
      else do {
        t \<leftarrow> tget h tensor;
        next \<leftarrow> ggml_get_next_tensor h ctx tensor;
        max_size_loop h ctx next (max max_size (ggml_nbytes t)) })"

definition ggml_get_max_tensor_size :: "heap \<Rightarrow> ptr \<Rightarrow> int option" where
  "ggml_get_max_tensor_size h ctx = do {
     first \<leftarrow> ggml_get_first_tensor h ctx;
     max_size_loop h ctx first 0 }"

section \<open>The pool invariant\<close>

text \<open>
  Walking the pool at \<open>base\<close> from offset \<open>off\<close> meets the headers \<open>os\<close> and ends at offset \<open>fin\<close>.
\<close>

fun obj_chain :: "(ptr \<Rightarrow> ggml_object option) \<Rightarrow> ptr \<Rightarrow> int \<Rightarrow> ptr list \<Rightarrow> int \<Rightarrow> bool" where
  "obj_chain objs base off [] fin \<longleftrightarrow> fin = off"
| "obj_chain objs base off (p # ps) fin \<longleftrightarrow> p = base + off \<and>
     (case objs p of None \<Rightarrow> False
      | Some ob \<Rightarrow> o_offs ob = off + GGML_OBJECT_SIZE \<and> 0 \<le> o_size ob \<and> o_size ob mod 16 = 0 \<and>
          (o_type ob = GGML_OBJECT_TYPE_TENSOR \<longrightarrow> GGML_TENSOR_SIZE \<le> o_size ob) \<and>
          o_next ob = (if ps = [] then NULL else hd ps) \<and>
          obj_chain objs base (o_offs ob + o_size ob) ps fin)"

definition ctx_ok :: "(ptr \<Rightarrow> ggml_object option) \<Rightarrow> ggml_context \<Rightarrow> ptr list \<Rightarrow> int \<Rightarrow> bool" where
  "ctx_ok objs c ps fin \<longleftrightarrow>
     0 < c_mem_buffer c \<and> c_mem_buffer c mod 16 = 0 \<and> 0 \<le> c_mem_size c \<and>
     c_mem_buffer c + c_mem_size c < 2 ^ 64 \<and>
     obj_chain objs (c_mem_buffer c) 0 ps fin \<and> fin \<le> c_mem_size c \<and>
     c_objects_begin c = (if ps = [] then NULL else hd ps) \<and>
     c_objects_end c = (if ps = [] then NULL else last ps)"

lemma obj_chain_bounds:
  "obj_chain objs base off ps fin \<Longrightarrow>
     off \<le> fin \<and> (\<forall>p \<in> set ps. base + off \<le> p \<and> p + 32 \<le> base + fin) \<and>
     (off mod 16 = 0 \<longrightarrow> fin mod 16 = 0)"
proof (induction ps arbitrary: off)
  case (Cons p ps)
  from Cons.prems obtain ob where ob: "objs p = Some ob" "p = base + off" "o_offs ob = off + 32"
    "0 \<le> o_size ob" "o_size ob mod 16 = 0" "obj_chain objs base (o_offs ob + o_size ob) ps fin"
    by (auto simp: GGML_OBJECT_SIZE_def split: option.splits)
  from Cons.IH [OF ob(6)] ob show ?case by auto
qed simp

lemma obj_chain_cong:
  "(\<And>p. p \<in> set ps \<Longrightarrow> objs p = objs' p) \<Longrightarrow> obj_chain objs base off ps fin = obj_chain objs' base off ps fin"
  by (induction ps arbitrary: off) (auto split: option.splits)

lemma obj_chain_last:
  "obj_chain objs base off ps fin \<Longrightarrow> ps \<noteq> [] \<Longrightarrow>
     \<exists>ob. objs (last ps) = Some ob \<and> o_offs ob + o_size ob = fin \<and> base + off \<le> last ps \<and> last ps < base + fin"
proof (induction ps arbitrary: off)
  case (Cons p ps)
  then show ?case
    by (cases ps) (force simp: GGML_OBJECT_SIZE_def split: option.splits)+
qed simp

text \<open>The store after a header is linked at the end of the chain.\<close>

definition link_obj :: "(ptr \<Rightarrow> ggml_object option) \<Rightarrow> ptr list \<Rightarrow> ptr \<Rightarrow> ggml_object \<Rightarrow> ptr \<Rightarrow> ggml_object option"
  where
  "link_obj objs ps p ob =
     (let objs' = objs(p \<mapsto> ob) in
      if ps = [] then objs' else objs'(last ps := map_option (o_next_update (\<lambda>_. p)) (objs (last ps))))"

lemma obj_chain_append:
  assumes "obj_chain objs base off ps fin" "p = base + fin" "o_offs ob = fin + 32" "0 \<le> o_size ob"
    "o_size ob mod 16 = 0" "o_type ob = GGML_OBJECT_TYPE_TENSOR \<longrightarrow> GGML_TENSOR_SIZE \<le> o_size ob"
    "o_next ob = NULL"
  shows "obj_chain (link_obj objs ps p ob) base off (ps @ [p]) (fin + 32 + o_size ob)"
  using assms(1)
proof (induction ps arbitrary: off)
  case Nil
  then show ?case using assms by (simp add: link_obj_def GGML_OBJECT_SIZE_def)
next
  case (Cons q qs)
  from Cons.prems obtain qb where q: "objs q = Some qb" "q = base + off" "o_offs qb = off + 32"
    "0 \<le> o_size qb" "o_size qb mod 16 = 0" "o_next qb = (if qs = [] then NULL else hd qs)"
    "o_type qb = GGML_OBJECT_TYPE_TENSOR \<longrightarrow> GGML_TENSOR_SIZE \<le> o_size qb"
    "obj_chain objs base (o_offs qb + o_size qb) qs fin"
    by (auto simp: GGML_OBJECT_SIZE_def split: option.splits)
  note b = obj_chain_bounds [OF q(8)]
  have "q \<noteq> p" using b q assms(2) by auto
  show ?case
  proof (cases "qs = []")
    case True
    with q have f: "fin = o_offs qb + o_size qb" by simp
    have "link_obj objs [q] p ob p = Some ob" "link_obj objs [q] p ob q = Some (qb\<lparr> o_next := p \<rparr>)"
      using \<open>q \<noteq> p\<close> q by (auto simp: link_obj_def)
    then show ?thesis using q True f assms by (simp add: GGML_OBJECT_SIZE_def)
  next
    case False
    have "link_obj objs (q # qs) p ob = link_obj objs qs p ob" using False by (simp add: link_obj_def)
    moreover have "link_obj objs qs p ob q = Some qb"
    proof -
      have "base + (o_offs qb + o_size qb) \<le> last qs" using b last_in_set [OF False] by blast
      then have "q \<noteq> last qs" using q by linarith
      then show ?thesis using False \<open>q \<noteq> p\<close> q by (simp add: link_obj_def)
    qed
    ultimately show ?thesis
      using Cons.IH [OF q(8)] q False by (simp add: GGML_OBJECT_SIZE_def hd_append)
  qed
qed

lemma ggml_new_object_eq:
  assumes c: "cget h ctx = Some c" "ctx_ok (h_objs h) c ps fin" and sz: "0 \<le> sz"
    and res: "ggml_new_object h ctx ty sz = Some (p, h')"
  shows "p = NULL \<and> h' = h \<or>
    (let ob = \<lparr> o_offs = fin + 32, o_size = GGML_PAD sz 16, o_next = NULL, o_type = ty \<rparr> in
      p = c_mem_buffer c + fin \<and> fin + 32 + GGML_PAD sz 16 \<le> c_mem_size c \<and> sz \<le> SIZE_MAX - 15 \<and>
      h' = h\<lparr> h_objs := link_obj (h_objs h) ps p ob,
              h_ctxs := (h_ctxs h)(ctx \<mapsto> c\<lparr> c_objects_begin := hd (ps @ [p]), c_objects_end := p \<rparr>) \<rparr>)"
proof -
  note k = c(2) [unfolded ctx_ok_def]
  have chain: "obj_chain (h_objs h) (c_mem_buffer c) 0 ps fin" using k by simp
  note b = obj_chain_bounds [OF chain]
  have fin: "0 \<le> fin" "fin < 18446744073709551616" "c_mem_buffer c + fin < 18446744073709551616"
    using k b by auto
  have uf: "u64 fin = fin" "u64 (c_mem_buffer c + fin) = c_mem_buffer c + fin"
    using fin k by (intro u64_id; linarith)+
  show ?thesis
  proof (cases "ps = []")
    case True
    then have "fin = 0" "c_objects_end c = NULL" using k chain by simp_all
    then show ?thesis
      using res c(1) True uf
      by (auto simp: ggml_new_object_def Let_def link_obj_def monad_simps GGML_OBJECT_SIZE_def
          GGML_MEM_ALIGN_def split: if_splits)
  next
    case False
    then obtain ob where ob: "h_objs h (last ps) = Some ob" "o_offs ob + o_size ob = fin"
      "c_mem_buffer c + 0 \<le> last ps" "last ps < c_mem_buffer c + fin"
      using obj_chain_last [OF chain] by blast
    have e: "c_objects_end c = last ps" "c_objects_begin c = hd ps" "last ps \<noteq> NULL" "last ps \<noteq> 0"
      "last ps \<noteq> c_mem_buffer c + fin"
      using k False ob by auto
    have g: "oget h (last ps) = Some ob" using e ob by (simp add: oget_def)
    show ?thesis
      using res c(1) False uf e ob g
      by (auto simp: ggml_new_object_def Let_def link_obj_def monad_simps GGML_OBJECT_SIZE_def
          GGML_MEM_ALIGN_def hd_append split: if_splits)
  qed
qed

definition obj_payload :: "heap \<Rightarrow> ggml_context \<Rightarrow> ptr \<Rightarrow> ggml_object_type \<Rightarrow> ptr \<Rightarrow> bool" where
  "obj_payload h c q ty p \<longleftrightarrow>
     (case h_objs h q of None \<Rightarrow> False | Some ob \<Rightarrow> o_type ob = ty \<and> p = c_mem_buffer c + o_offs ob)"

definition pool_with :: "heap \<Rightarrow> ggml_context \<Rightarrow> ptr list \<Rightarrow> int \<Rightarrow> bool" where
  "pool_with h c ps fin \<longleftrightarrow>
     ctx_ok (h_objs h) c ps fin \<and>
     (\<forall>p. in_pool c p \<longrightarrow> h_objs h p \<noteq> None \<longrightarrow> p \<in> set ps) \<and>
     (\<forall>p. in_pool c p \<longrightarrow> (h_tensors h p \<noteq> None \<longleftrightarrow> (\<exists>q \<in> set ps. obj_payload h c q GGML_OBJECT_TYPE_TENSOR p))) \<and>
     (\<forall>p. in_pool c p \<longrightarrow> h_graphs h p \<noteq> None \<longrightarrow> (\<exists>q \<in> set ps. obj_payload h c q GGML_OBJECT_TYPE_GRAPH p))"

definition pools_disjoint :: "heap \<Rightarrow> bool" where
  "pools_disjoint h \<longleftrightarrow> (\<forall>a b c d. h_ctxs h a = Some c \<and> h_ctxs h b = Some d \<and> a \<noteq> b \<longrightarrow>
     c_mem_buffer c + c_mem_size c \<le> c_mem_buffer d \<or> c_mem_buffer d + c_mem_size d \<le> c_mem_buffer c)"

definition pools_ok :: "heap \<Rightarrow> bool" where
  "pools_ok h \<longleftrightarrow>
     (\<forall>a c. h_ctxs h a = Some c \<longrightarrow> a \<noteq> NULL \<and> (\<exists>ps fin. pool_with h c ps fin)) \<and>
     pools_disjoint h \<and>
     (\<forall>p. h_objs h p \<noteq> None \<or> h_tensors h p \<noteq> None \<or> h_graphs h p \<noteq> None \<longrightarrow>
        (\<exists>a c. h_ctxs h a = Some c \<and> in_pool c p))"

text \<open>The part of a context that never changes while it lives.\<close>

definition ctx_frame :: "ggml_context \<Rightarrow> int \<times> ptr \<times> bool \<times> bool" where
  "ctx_frame c = (c_mem_size c, c_mem_buffer c, c_mem_buffer_owned c, c_no_alloc c)"

text \<open>\<open>h'\<close> is \<open>h\<close> with the one new tensor \<open>t\<close> at an address where nothing lived.\<close>

definition new_node :: "heap \<Rightarrow> ptr \<Rightarrow> ggml_tensor \<Rightarrow> heap \<Rightarrow> bool" where
  "new_node h r t h' \<longleftrightarrow>
     h_tensors h r = None \<and> r \<noteq> NULL \<and> h_tensors h' = (h_tensors h)(r \<mapsto> t) \<and>
     h_graphs h' = h_graphs h \<and> pools_ok h' \<and>
     (\<forall>a. map_option ctx_frame (h_ctxs h' a) = map_option ctx_frame (h_ctxs h a))"

lemma obj_chain_payload:
  "obj_chain objs base off ps fin \<Longrightarrow> q \<in> set ps \<Longrightarrow> objs q = Some ob \<Longrightarrow>
     o_offs ob = q - base + 32 \<and> o_offs ob + o_size ob \<le> fin \<and> off + 32 \<le> o_offs ob \<and>
     (o_type ob = GGML_OBJECT_TYPE_TENSOR \<longrightarrow> GGML_TENSOR_SIZE \<le> o_size ob)"
proof (induction ps arbitrary: off)
  case (Cons p ps)
  from Cons.prems obtain pb where pb: "objs p = Some pb" "p = base + off" "o_offs pb = off + 32"
    "0 \<le> o_size pb" "obj_chain objs base (o_offs pb + o_size pb) ps fin"
    "o_type pb = GGML_OBJECT_TYPE_TENSOR \<longrightarrow> GGML_TENSOR_SIZE \<le> o_size pb"
    by (auto simp: GGML_OBJECT_SIZE_def split: option.splits)
  show ?case
  proof (cases "q = p")
    case True
    then show ?thesis using pb Cons.prems obj_chain_bounds [OF pb(5)] by auto
  next
    case False
    then show ?thesis using Cons.IH [OF pb(5)] pb Cons.prems by auto
  qed
qed simp

lemma pool_with_in_pool:
  assumes "pool_with h c ps fin" "q \<in> set ps"
  shows "in_pool c q" "obj_payload h c q GGML_OBJECT_TYPE_TENSOR p \<Longrightarrow> in_pool c p"
proof -
  have k: "ctx_ok (h_objs h) c ps fin" using assms by (simp add: pool_with_def)
  then have ch: "obj_chain (h_objs h) (c_mem_buffer c) 0 ps fin" and f: "fin \<le> c_mem_size c"
    by (simp_all add: ctx_ok_def)
  show "in_pool c q" using obj_chain_bounds [OF ch] assms(2) f by (force simp: in_pool_def)
  assume "obj_payload h c q GGML_OBJECT_TYPE_TENSOR p"
  then obtain ob where ob: "h_objs h q = Some ob" "o_type ob = GGML_OBJECT_TYPE_TENSOR" "p = c_mem_buffer c + o_offs ob"
    by (auto simp: obj_payload_def split: option.splits)
  then show "in_pool c p"
    using obj_chain_payload [OF ch assms(2) ob(1)] f by (simp add: in_pool_def GGML_TENSOR_SIZE_def)
qed

lemma pool_with_cong:
  assumes "pool_with h c ps fin"
    and eq: "\<And>p. in_pool c p \<Longrightarrow> h_objs h' p = h_objs h p \<and> h_tensors h' p = h_tensors h p \<and> h_graphs h' p = h_graphs h p"
  shows "pool_with h' c ps fin"
proof -
  have o: "h_objs h' q = h_objs h q" if "q \<in> set ps" for q
    using eq pool_with_in_pool(1) [OF assms(1) that] by blast
  then have pay: "obj_payload h' c q ty p = obj_payload h c q ty p" if "q \<in> set ps" for q ty p
    using that by (simp add: obj_payload_def)
  have "ctx_ok (h_objs h') c ps fin"
    using assms(1) obj_chain_cong [of ps "h_objs h'" "h_objs h"] o by (simp add: pool_with_def ctx_ok_def)
  then show ?thesis
    using assms eq pay unfolding pool_with_def by (metis (no_types, lifting))
qed

lemma pools_disjoint_in_pool:
  assumes "pools_disjoint h" "h_ctxs h a = Some c" "h_ctxs h b = Some d" "a \<noteq> b" "in_pool c p"
  shows "\<not> in_pool d p"
  using assms unfolding pools_disjoint_def in_pool_def by fastforce

lemma pools_disjoint_cong:
  assumes "pools_disjoint h" "\<And>a. map_option ctx_frame (h_ctxs h' a) = map_option ctx_frame (h_ctxs h a)"
  shows "pools_disjoint h'"
  unfolding pools_disjoint_def
proof (intro allI impI, elim conjE)
  fix a b c d assume ab: "h_ctxs h' a = Some c" "h_ctxs h' b = Some d" "a \<noteq> b"
  have "\<exists>c0. h_ctxs h a = Some c0 \<and> ctx_frame c0 = ctx_frame c" if "h_ctxs h' a = Some c" for a c
    using assms(2) [of a] that by (cases "h_ctxs h a") auto
  then obtain c0 d0 where "h_ctxs h a = Some c0" "ctx_frame c0 = ctx_frame c"
    "h_ctxs h b = Some d0" "ctx_frame d0 = ctx_frame d" using ab by metis
  with assms(1) ab(3) show "c_mem_buffer c + c_mem_size c \<le> c_mem_buffer d \<or>
      c_mem_buffer d + c_mem_size d \<le> c_mem_buffer c"
    unfolding pools_disjoint_def ctx_frame_def by (metis prod.inject)
qed

lemma link_obj_other: "q \<noteq> p \<Longrightarrow> q \<noteq> last ps \<or> ps = [] \<Longrightarrow> link_obj objs ps p ob q = objs q"
  by (auto simp: link_obj_def Let_def)

lemma link_obj_new: "ps = [] \<or> last ps \<noteq> p \<Longrightarrow> link_obj objs ps p ob p = Some ob"
  by (auto simp: link_obj_def Let_def)

lemma link_obj_payload:
  assumes "q \<noteq> p"
  shows "(case link_obj objs ps p ob q of None \<Rightarrow> False | Some x \<Rightarrow> o_type x = ty \<and> y = b + o_offs x) =
         (case objs q of None \<Rightarrow> False | Some x \<Rightarrow> o_type x = ty \<and> y = b + o_offs x)"
  using assms by (auto simp: link_obj_def Let_def split: option.splits)

lemma link_obj_dom: "link_obj objs ps p ob q \<noteq> None \<longleftrightarrow> objs q \<noteq> None \<or> q = p \<and> (ps = [] \<or> last ps \<noteq> p)"
  by (auto simp: link_obj_def Let_def)

lemma pools_ok_alloc:
  assumes ok: "pools_ok h" and c: "h_ctxs h ctx = Some c" and pool: "pool_with h c ps fin"
    and p: "p = c_mem_buffer c + fin" and r: "r = c_mem_buffer c + fin + 32"
    and ob: "ob = \<lparr> o_offs = fin + 32, o_size = psz, o_next = NULL, o_type = ty \<rparr>"
    and psz: "0 < psz" "psz mod 16 = 0" "fin + 32 + psz \<le> c_mem_size c"
      "ty = GGML_OBJECT_TYPE_TENSOR \<longrightarrow> GGML_TENSOR_SIZE \<le> psz"
    and objs: "h_objs h' = link_obj (h_objs h) ps p ob" and ctxs: "h_ctxs h' = (h_ctxs h)(ctx \<mapsto> c')"
    and c': "c_objects_begin c' = hd (ps @ [p])" "c_objects_end c' = p" "ctx_frame c' = ctx_frame c"
    and ts: "h_tensors h' = (if ty = GGML_OBJECT_TYPE_TENSOR then (h_tensors h)(r \<mapsto> t) else h_tensors h)"
    and gs: "h_graphs h' = h_graphs h \<or> ty = GGML_OBJECT_TYPE_GRAPH \<and> (\<exists>g. h_graphs h' = (h_graphs h)(r \<mapsto> g))"
  shows "pools_ok h'" "h_tensors h r = None" "h_graphs h r = None" "in_pool c r"
proof -
  have k: "ctx_ok (h_objs h) c ps fin"
    and po: "\<And>p. in_pool c p \<Longrightarrow> h_objs h p \<noteq> None \<Longrightarrow> p \<in> set ps"
    and pt: "\<And>p. in_pool c p \<Longrightarrow> h_tensors h p \<noteq> None \<longleftrightarrow> (\<exists>q \<in> set ps. obj_payload h c q GGML_OBJECT_TYPE_TENSOR p)"
    and pg: "\<And>p. in_pool c p \<Longrightarrow> h_graphs h p \<noteq> None \<Longrightarrow> (\<exists>q \<in> set ps. obj_payload h c q GGML_OBJECT_TYPE_GRAPH p)"
    using pool unfolding pool_with_def by blast+
  have chain: "obj_chain (h_objs h) (c_mem_buffer c) 0 ps fin"
    and base: "0 < c_mem_buffer c" "c_mem_buffer c mod 16 = 0" "0 \<le> c_mem_size c" "c_mem_buffer c + c_mem_size c < 2 ^ 64"
    using k by (simp_all add: ctx_ok_def)
  note b = obj_chain_bounds [OF chain]
  have fin0: "0 \<le> fin" using b by simp
  have inr: "in_pool c r" and inp: "in_pool c p" using psz r p fin0 by (auto simp: in_pool_def)
  then show "in_pool c r" by simp
  have np: "p \<notin> set ps" using b p by force
  then have lp: "ps = [] \<or> last ps \<noteq> p" by (metis last_in_set)
  have nopay: "\<not> obj_payload h c q ty' r" if "q \<in> set ps" for q ty'
    using that obj_chain_payload [OF chain that] obj_chain_bounds [OF chain] r fin0
    by (force simp: obj_payload_def split: option.splits)
  show tr: "h_tensors h r = None" using pt [OF inr] nopay by blast
  show "h_graphs h r = None" using pg [OF inr] nopay by blast
  have fr: "in_pool c' = in_pool c" "c_mem_buffer c' = c_mem_buffer c" "c_mem_size c' = c_mem_size c"
    using c'(3) by (auto simp: ctx_frame_def in_pool_def fun_eq_iff)
  have pay: "obj_payload h' c' q ty' y = obj_payload h c q ty' y" if "q \<in> set ps" for q ty' y
    unfolding obj_payload_def objs fr(2) by (rule link_obj_payload) (use that np in auto)
  have payp: "obj_payload h' c' p ty' y \<longleftrightarrow> ty' = ty \<and> y = r" for ty' y
    using link_obj_new [OF lp] ob r by (auto simp: obj_payload_def objs fr)
  have A: "pool_with h' c' (ps @ [p]) (fin + 32 + psz)"
    unfolding pool_with_def
  proof (intro conjI allI impI)
    have "obj_chain (link_obj (h_objs h) ps p ob) (c_mem_buffer c) 0 (ps @ [p]) (fin + 32 + o_size ob)"
      by (rule obj_chain_append [OF chain p]) (use ob psz in auto)
    then show "ctx_ok (h_objs h') c' (ps @ [p]) (fin + 32 + psz)"
      using base c' fr psz ob unfolding ctx_ok_def objs by simp
  next
    fix y assume "in_pool c' y" "h_objs h' y \<noteq> None"
    then have "h_objs h y \<noteq> None \<or> y = p" "in_pool c y" using fr(1) unfolding objs link_obj_dom by auto
    then show "y \<in> set (ps @ [p])" using po by auto
  next
    fix y assume y: "in_pool c' y"
    show "h_tensors h' y \<noteq> None \<longleftrightarrow> (\<exists>q \<in> set (ps @ [p]). obj_payload h' c' q GGML_OBJECT_TYPE_TENSOR y)"
      using pt [of y] y fr pay payp ts by auto
  next
    fix y assume y: "in_pool c' y" "h_graphs h' y \<noteq> None"
    show "\<exists>q \<in> set (ps @ [p]). obj_payload h' c' q GGML_OBJECT_TYPE_GRAPH y"
    proof (cases "h_graphs h y = None")
      case True
      then show ?thesis using gs y payp by (auto split: if_splits)
    next
      case False
      then show ?thesis using pg [of y] y fr pay by auto
    qed
  qed
  have B: "\<exists>ps fin. pool_with h' d ps fin" if d: "h_ctxs h a = Some d" "a \<noteq> ctx" for a d
  proof -
    obtain qs f where "pool_with h d qs f" using ok d unfolding pools_ok_def by blast
    moreover have "h_objs h' y = h_objs h y \<and> h_tensors h' y = h_tensors h y \<and> h_graphs h' y = h_graphs h y"
      if "in_pool d y" for y
    proof -
      have ny: "\<not> in_pool c y"
        using pools_disjoint_in_pool [of h a d ctx c y] ok d c that by (simp add: pools_ok_def)
      then have "y \<noteq> p" "y \<noteq> r" using inp inr by auto
      moreover have "y \<noteq> last ps \<or> ps = []" using ny pool_with_in_pool(1) [OF pool] last_in_set by metis
      ultimately show ?thesis using objs ts gs by (auto simp: link_obj_other)
    qed
    ultimately show ?thesis using pool_with_cong [of h d qs f h'] by blast
  qed
  have C: "pools_disjoint h'"
    by (rule pools_disjoint_cong [of h]) (use ok c c'(3) in \<open>auto simp: pools_ok_def ctxs\<close>)
  have D: "\<exists>a d. h_ctxs h' a = Some d \<and> in_pool d y"
    if "h_objs h' y \<noteq> None \<or> h_tensors h' y \<noteq> None \<or> h_graphs h' y \<noteq> None" for y
  proof (cases "in_pool c y")
    case True
    then show ?thesis using fr ctxs by auto
  next
    case False
    then have "h_objs h y \<noteq> None \<or> h_tensors h y \<noteq> None \<or> h_graphs h y \<noteq> None"
    proof -
      have "y \<noteq> p" "y \<noteq> r" using False inp inr by auto
      then show ?thesis
        using that ts gs link_obj_dom [of "h_objs h" ps p ob y] objs by (auto split: if_splits)
    qed
    then obtain a d where "h_ctxs h a = Some d" "in_pool d y" using ok unfolding pools_ok_def by blast
    moreover from this have "a \<noteq> ctx" using False c by auto
    ultimately show ?thesis using ctxs by auto
  qed
  have E: "a \<noteq> NULL" if "h_ctxs h' a = Some d" for a d
    using that ok c ctxs unfolding pools_ok_def by (auto split: if_splits)
  have F: "\<exists>ps fin. pool_with h' d ps fin" if "h_ctxs h' a = Some d" for a d
    using A B [of a d] that ctxs by (cases "a = ctx") auto
  show "pools_ok h'"
    unfolding pools_ok_def using C D E F by blast
qed

lemma cget_Some [simp]: "cget h p = Some c \<longleftrightarrow> p \<noteq> NULL \<and> h_ctxs h p = Some c"
  by (simp add: cget_def)

lemma oget_Some [simp]: "oget h p = Some c \<longleftrightarrow> p \<noteq> NULL \<and> h_objs h p = Some c"
  by (simp add: oget_def)

lemma tget_Some [simp]: "tget h p = Some t \<longleftrightarrow> p \<noteq> NULL \<and> h_tensors h p = Some t"
  by (simp add: tget_def)

lemma tset_Some: "tset h p f = Some h' \<longleftrightarrow>
    (\<exists>t. p \<noteq> NULL \<and> h_tensors h p = Some t \<and> h' = h\<lparr> h_tensors := (h_tensors h)(p \<mapsto> f t) \<rparr>)"
  by (auto simp: tset_def monad_simps)

lemma data_size_nonneg: "0 \<le> fold (\<lambda>i s. u64 (s * ne ! i)) is (ggml_row_size ty n)"
proof -
  have "0 \<le> ggml_row_size ty n"
    by (simp add: ggml_row_size_def pos_imp_zdiv_nonneg_iff u64_range(1))
  moreover have "0 \<le> s \<Longrightarrow> 0 \<le> fold (\<lambda>i s. u64 (s * ne ! i)) is s" for s
    by (induction "is" arbitrary: s) (auto simp: u64_range(1))
  ultimately show ?thesis by blast
qed

text \<open>What the object allocator does to the store, when it finds room.\<close>

lemma ggml_new_object_alloc:
  assumes ok: "pools_ok h" and res: "ggml_new_object h ctx ty sz = Some (p, h')" and p: "p \<noteq> NULL"
    and sz: "0 \<le> sz"
  obtains c ps fin where "h_ctxs h ctx = Some c" "pool_with h c ps fin" "ctx \<noteq> NULL"
    "p = c_mem_buffer c + fin" "fin + 32 + GGML_PAD sz 16 \<le> c_mem_size c" "sz \<le> GGML_PAD sz 16"
    "GGML_PAD sz 16 mod 16 = 0" "0 \<le> fin"
    "h' = h\<lparr> h_objs := link_obj (h_objs h) ps p
              \<lparr> o_offs = fin + 32, o_size = GGML_PAD sz 16, o_next = NULL, o_type = ty \<rparr>,
            h_ctxs := (h_ctxs h)(ctx \<mapsto> c\<lparr> c_objects_begin := hd (ps @ [p]), c_objects_end := p \<rparr>) \<rparr>"
    "h_objs h' p = Some \<lparr> o_offs = fin + 32, o_size = GGML_PAD sz 16, o_next = NULL, o_type = ty \<rparr>"
proof -
  obtain c where c: "cget h ctx = Some c" using res by (auto simp: ggml_new_object_def monad_simps)
  then obtain ps fin where pool: "pool_with h c ps fin" using ok unfolding pools_ok_def by auto metis
  then have k: "ctx_ok (h_objs h) c ps fin" by (simp add: pool_with_def)
  have e: "p = c_mem_buffer c + fin" "fin + 32 + GGML_PAD sz 16 \<le> c_mem_size c" "sz \<le> SIZE_MAX - 15"
    "h' = h\<lparr> h_objs := link_obj (h_objs h) ps p
              \<lparr> o_offs = fin + 32, o_size = GGML_PAD sz 16, o_next = NULL, o_type = ty \<rparr>,
            h_ctxs := (h_ctxs h)(ctx \<mapsto> c\<lparr> c_objects_begin := hd (ps @ [p]), c_objects_end := p \<rparr>) \<rparr>"
    using ggml_new_object_eq [OF c k sz res] p by (simp_all add: Let_def)
  have chain: "obj_chain (h_objs h) (c_mem_buffer c) 0 ps fin" using k by (simp add: ctx_ok_def)
  note b = obj_chain_bounds [OF chain]
  have "p \<notin> set ps" using b e(1) by force
  then have "ps = [] \<or> last ps \<noteq> p" by (metis last_in_set)
  from link_obj_new [OF this] e(4) have
    "h_objs h' p = Some \<lparr> o_offs = fin + 32, o_size = GGML_PAD sz 16, o_next = NULL, o_type = ty \<rparr>" by simp
  then show thesis
    using that [of c ps fin] c pool e GGML_PAD_16_bounds [OF sz e(3)] b by auto
qed

lemma place_tensor_node:
  assumes ok: "pools_ok h" and res: "place_tensor h ctx ty ne vs vo d al = Some (r, h')" and al: "0 \<le> al"
  shows "\<exists>dat. new_node h r (fresh_tensor ty ne vs vo dat) h' \<and>
    dat = (if al > 0 then u64 (r + GGML_TENSOR_SIZE) else d)"
proof -
  define sz where "sz = GGML_TENSOR_SIZE + al"
  from res obtain p h1 ob c1 where o: "ggml_new_object h ctx GGML_OBJECT_TYPE_TENSOR sz = Some (p, h1)"
    and p: "p \<noteq> NULL" and ob: "h_objs h1 p = Some ob" and c1: "h_ctxs h1 ctx = Some c1"
    and r: "r = u64 (c_mem_buffer c1 + o_offs ob)"
    and h'0: "h' = h1\<lparr> h_tensors := (h_tensors h1)(r \<mapsto> fresh_tensor ty ne vs vo (if al > 0 then u64 (r + GGML_TENSOR_SIZE) else d)),
          h_ctxs := (h_ctxs h1)(ctx \<mapsto> c1\<lparr> c_n_objects := i32 (c_n_objects c1 + 1) \<rparr>) \<rparr>"
    unfolding place_tensor_def sz_def [symmetric] by (auto simp: bind_Some_iff Let_def split: if_splits)
  define dat where "dat = (if al > 0 then u64 (r + GGML_TENSOR_SIZE) else d)"
  note h' = h'0 [folded dat_def]
  have sz: "GGML_TENSOR_SIZE \<le> sz" using al by (simp add: sz_def)
  have sz0: "0 \<le> sz" using sz by (simp add: GGML_TENSOR_SIZE_def)
  obtain c ps fin where a: "h_ctxs h ctx = Some c" "pool_with h c ps fin" "ctx \<noteq> NULL"
    "p = c_mem_buffer c + fin" "fin + 32 + GGML_PAD sz 16 \<le> c_mem_size c" "sz \<le> GGML_PAD sz 16"
    "GGML_PAD sz 16 mod 16 = 0" "0 \<le> fin"
    "h1 = h\<lparr> h_objs := link_obj (h_objs h) ps p
              \<lparr> o_offs = fin + 32, o_size = GGML_PAD sz 16, o_next = NULL, o_type = GGML_OBJECT_TYPE_TENSOR \<rparr>,
            h_ctxs := (h_ctxs h)(ctx \<mapsto> c\<lparr> c_objects_begin := hd (ps @ [p]), c_objects_end := p \<rparr>) \<rparr>"
    "h_objs h1 p = Some \<lparr> o_offs = fin + 32, o_size = GGML_PAD sz 16, o_next = NULL, o_type = GGML_OBJECT_TYPE_TENSOR \<rparr>"
    by (rule ggml_new_object_alloc [OF ok o p sz0]) (rule that; assumption)
  have c1': "c1 = c\<lparr> c_objects_begin := hd (ps @ [p]), c_objects_end := p \<rparr>" using a(9) c1 by simp
  have k: "ctx_ok (h_objs h) c ps fin" using a(2) by (simp add: pool_with_def)
  then have "u64 (c_mem_buffer c + (fin + 32)) = c_mem_buffer c + (fin + 32)"
    using a(5,6,8) sz0 unfolding ctx_ok_def by (intro u64_id) auto
  moreover have "o_offs ob = fin + 32" using ob a(10) by (metis ggml_object.select_convs(1) option.inject)
  ultimately have r': "r = c_mem_buffer c + fin + 32" using r c1' by (simp add: add.assoc)
  define c' where "c' = c1\<lparr> c_n_objects := i32 (c_n_objects c1 + 1) \<rparr>"
  define t where "t = fresh_tensor ty ne vs vo dat"
  have psz: "0 < GGML_PAD sz 16" "GGML_TENSOR_SIZE \<le> GGML_PAD sz 16"
    using a(6) sz by (simp_all add: GGML_TENSOR_SIZE_def)
  have f: "h_objs h' = link_obj (h_objs h) ps p
              \<lparr> o_offs = fin + 32, o_size = GGML_PAD sz 16, o_next = NULL, o_type = GGML_OBJECT_TYPE_TENSOR \<rparr>"
    "h_ctxs h' = (h_ctxs h)(ctx \<mapsto> c')" "h_tensors h' = (h_tensors h)(r \<mapsto> t)" "h_graphs h' = h_graphs h"
    "c_objects_begin c' = hd (ps @ [p])" "c_objects_end c' = p" "ctx_frame c' = ctx_frame c"
    using h' a(9) c1' by (simp_all add: t_def c'_def ctx_frame_def)
  have "pools_ok h'" and "h_tensors h r = None"
    using pools_ok_alloc(1,2) [OF ok a(1,2,4) r' refl psz(1) a(7,5) _ f(1,2,5,6,7), where t = t] psz(2) f(3,4)
    by simp_all
  moreover have "r \<noteq> NULL" using r' k a(8) by (auto simp: ctx_ok_def)
  ultimately have "new_node h r t h'"
    using f(2-4,7) a(1) by (simp add: new_node_def)
  then show ?thesis unfolding t_def dat_def by blast
qed

lemma ggml_new_tensor_impl_node:
  assumes ok: "pools_ok h" and res: "ggml_new_tensor_impl h ctx ty nd ne vs vo = Some (r, h')"
  shows "\<exists>vs' vo' dat. view_base h vs vo = Some (vs', vo') \<and> 1 \<le> nd \<and> nd \<le> GGML_MAX_DIMS \<and>
    new_node h r (fresh_tensor ty (pad_dims nd ne) vs' vo' dat) h' \<and> (vs' \<noteq> NULL \<longrightarrow> h_tensors h vs' \<noteq> None)"
proof -
  obtain vs' vo' where v: "view_base h vs vo = Some (vs', vo')" and nd: "1 \<le> nd" "nd \<le> GGML_MAX_DIMS"
    using res by (auto simp: ggml_new_tensor_impl_def bind_Some_iff split: if_splits)
  have "\<exists>d al. (vs' \<noteq> NULL \<longrightarrow> h_tensors h vs' \<noteq> None) \<and> 0 \<le> al \<and>
      place_tensor h ctx ty (pad_dims nd ne) vs' vo' d al = Some (r, h')"
  proof (cases "vs' = NULL")
    case True
    with res v nd obtain c :: ggml_context where "place_tensor h ctx ty (pad_dims nd ne) vs' vo' NULL
        (if \<not> c_no_alloc c then fold (\<lambda>i s. u64 (s * ne ! i)) [Suc 0..<nd] (ggml_row_size ty (ne ! 0)) else 0) = Some (r, h')"
      by (auto simp: ggml_new_tensor_impl_def bind_Some_iff Let_def)
    moreover have "0 \<le> (if \<not> c_no_alloc c then fold (\<lambda>i s. u64 (s * ne ! i)) [Suc 0..<nd] (ggml_row_size ty (ne ! 0)) else 0)"
      using data_size_nonneg by simp
    ultimately show ?thesis using True by blast
  next
    case False
    with res v nd obtain x :: ggml_tensor and d where "h_tensors h vs' = Some x"
      "place_tensor h ctx ty (pad_dims nd ne) vs' vo' (if d \<noteq> NULL then u64 (d + vo') else d) 0 = Some (r, h')"
      by (auto simp: ggml_new_tensor_impl_def bind_Some_iff Let_def)
    then show ?thesis by blast
  qed
  then obtain d al where vd: "vs' \<noteq> NULL \<longrightarrow> h_tensors h vs' \<noteq> None" and al: "0 \<le> al"
    and pt: "place_tensor h ctx ty (pad_dims nd ne) vs' vo' d al = Some (r, h')"
    by blast
  from place_tensor_node [OF ok pt al] v nd vd show ?thesis by blast
qed

section \<open>The tensor graph in the store\<close>

text \<open>
  A tensor is well formed when its arrays have their lengths, its sources are NULL, itself or live
  (all NULL when it is not the result of an operation), and what it is a view of is live and is not a
  view.
\<close>

definition live :: "heap \<Rightarrow> ptr \<Rightarrow> bool" where
  "live h p \<longleftrightarrow> p = NULL \<or> h_tensors h p \<noteq> None"

definition node_wf :: "heap \<Rightarrow> ptr \<Rightarrow> ggml_tensor \<Rightarrow> bool" where
  "node_wf h r t \<longleftrightarrow> tensor_shape_ok t \<and>
     (t_op t = GGML_OP_NONE \<longrightarrow> set (t_src t) \<subseteq> {NULL}) \<and>
     (\<forall>s \<in> set (t_src t). s = r \<or> live h s) \<and>
     (t_view_src t = NULL \<or> (\<exists>v. h_tensors h (t_view_src t) = Some v \<and> t_view_src v = NULL))"

definition tensors_wf :: "heap \<Rightarrow> bool" where
  "tensors_wf h \<longleftrightarrow> (\<forall>p t. h_tensors h p = Some t \<longrightarrow> node_wf h p t)"

definition heap_inv :: "heap \<Rightarrow> bool" where
  "heap_inv h \<longleftrightarrow> pools_ok h \<and> tensors_wf h"

text \<open>Apart from a tensor that has itself as a source, the sources form no cycle.\<close>

definition graph_rank :: "heap \<Rightarrow> (ptr \<Rightarrow> nat) \<Rightarrow> bool" where
  "graph_rank h rk \<longleftrightarrow> (\<forall>p t. h_tensors h p = Some t \<longrightarrow>
     (\<forall>s \<in> set (t_src t). s \<noteq> NULL \<longrightarrow> s \<noteq> p \<longrightarrow> rk s < rk p))"

definition acyclic_heap :: "heap \<Rightarrow> bool" where
  "acyclic_heap h \<longleftrightarrow> (\<exists>rk. graph_rank h rk)"

text \<open>\<open>extends h h'\<close>: nothing that lived in \<open>h\<close> was changed, and the invariants carry over.\<close>

definition extends :: "heap \<Rightarrow> heap \<Rightarrow> bool" where
  "extends h h' \<longleftrightarrow> h_tensors h \<subseteq>\<^sub>m h_tensors h' \<and> h_graphs h' = h_graphs h \<and>
     (\<forall>a. map_option ctx_frame (h_ctxs h' a) = map_option ctx_frame (h_ctxs h a)) \<and>
     heap_inv h' \<and> (acyclic_heap h \<longrightarrow> acyclic_heap h')"

lemma live_mono: "h_tensors h \<subseteq>\<^sub>m h_tensors h' \<Longrightarrow> live h p \<Longrightarrow> live h' p"
  by (force simp: live_def map_le_def dom_def)

lemma live_NULL [simp]: "live h NULL"
  by (simp add: live_def)

lemma live_Some [intro]: "h_tensors h p = Some t \<Longrightarrow> live h p"
  by (simp add: live_def)

lemma map_le_Some: "m \<subseteq>\<^sub>m m' \<Longrightarrow> m p = Some v \<Longrightarrow> m' p = Some v"
  by (force simp: map_le_def dom_def)

lemma node_wf_mono:
  assumes le: "h_tensors h \<subseteq>\<^sub>m h_tensors h'" and wf: "node_wf h p t"
  shows "node_wf h' p t"
  unfolding node_wf_def
proof (intro conjI ballI)
  show "tensor_shape_ok t" using wf by (simp add: node_wf_def)
  show "t_op t = GGML_OP_NONE \<longrightarrow> set (t_src t) \<subseteq> {NULL}" using wf by (simp add: node_wf_def)
  show "s = p \<or> live h' s" if "s \<in> set (t_src t)" for s
    using that wf live_mono [OF le] by (auto simp: node_wf_def)
  show "t_view_src t = NULL \<or> (\<exists>v. h_tensors h' (t_view_src t) = Some v \<and> t_view_src v = NULL)"
    using wf map_le_Some [OF le] unfolding node_wf_def by metis
qed

lemma new_node_le: "new_node h r t h' \<Longrightarrow> h_tensors h \<subseteq>\<^sub>m h_tensors h'"
  by (auto simp: new_node_def map_le_def)

lemma new_node_wf:
  assumes "tensors_wf h" "new_node h r t h'" "node_wf h r t"
  shows "tensors_wf h'"
  unfolding tensors_wf_def
proof (intro allI impI)
  fix p s assume p: "h_tensors h' p = Some s"
  note le = new_node_le [OF assms(2)]
  show "node_wf h' p s"
  proof (cases "p = r")
    case True
    then show ?thesis using p assms(2,3) node_wf_mono [OF le] by (auto simp: new_node_def)
  next
    case False
    then show ?thesis using p assms(1,2) node_wf_mono [OF le] by (auto simp: new_node_def tensors_wf_def)
  qed
qed

lemma new_node_acyclic:
  assumes "tensors_wf h" "new_node h r t h'" "node_wf h r t" "acyclic_heap h"
  shows "acyclic_heap h'"
proof -
  obtain rk where rk: "graph_rank h rk" using assms(4) by (auto simp: acyclic_heap_def)
  define rk' where "rk' = rk(r := Suc (sum_list (map rk (t_src t))))"
  have "graph_rank h' rk'"
    unfolding graph_rank_def
  proof (intro allI impI ballI)
    fix p u s assume p: "h_tensors h' p = Some u" and s: "s \<in> set (t_src u)" "s \<noteq> NULL" "s \<noteq> p"
    show "rk' s < rk' p"
    proof (cases "p = r")
      case True
      then have "u = t" using p assms(2) by (simp add: new_node_def)
      then have "rk s \<le> sum_list (map rk (t_src t))" using s by (simp add: member_le_sum_list)
      then show ?thesis using True s by (simp add: rk'_def)
    next
      case False
      then have u: "h_tensors h p = Some u" using p assms(2) by (simp add: new_node_def)
      then have "live h s" using assms(1) s unfolding tensors_wf_def node_wf_def by blast
      then have "s \<noteq> r" using assms(2) s by (auto simp: new_node_def live_def)
      then show ?thesis using rk u s False unfolding graph_rank_def rk'_def by simp
    qed
  qed
  then show ?thesis by (auto simp: acyclic_heap_def)
qed

lemma new_node_extends:
  assumes "heap_inv h" "new_node h r t h'" "node_wf h r t"
  shows "extends h h'"
  using assms new_node_le [OF assms(2)] new_node_wf new_node_acyclic
  by (auto simp: extends_def heap_inv_def new_node_def)

lemma extends_refl: "heap_inv h \<Longrightarrow> extends h h"
  by (simp add: extends_def)

lemma extends_trans: "extends h1 h2 \<Longrightarrow> extends h2 h3 \<Longrightarrow> extends h1 h3"
  unfolding extends_def by (metis map_le_trans)

lemma extends_inv: "extends h h' \<Longrightarrow> heap_inv h'"
  by (simp add: extends_def)

lemma extends_live: "extends h h' \<Longrightarrow> live h p \<Longrightarrow> live h' p"
  by (auto simp: extends_def intro: live_mono)

lemma extends_tensor: "extends h h' \<Longrightarrow> h_tensors h p = Some t \<Longrightarrow> h_tensors h' p = Some t"
  by (force simp: extends_def map_le_def dom_def)

section \<open>Operations that add one tensor\<close>

text \<open>
  The operation constructors of ggml.c allocate a result and then set fields of it: \<open>mk_node\<close> runs the
  allocation and applies the assignments, in the order the code has them.
\<close>

definition mk_node :: "(ptr \<times> heap) option \<Rightarrow> (ggml_tensor \<Rightarrow> ggml_tensor) list \<Rightarrow> (ptr \<times> heap) option" where
  "mk_node m fs = do {
     (result, h) \<leftarrow> m;
     h \<leftarrow> tset h result (fold (\<lambda>f t. f t) fs);
     Some (result, h) }"

definition set_op :: "ggml_op \<Rightarrow> ggml_tensor \<Rightarrow> ggml_tensor" where
  "set_op op t = t\<lparr> t_op := op \<rparr>"

definition set_src :: "nat \<Rightarrow> ptr \<Rightarrow> ggml_tensor \<Rightarrow> ggml_tensor" where
  "set_src i p t = t\<lparr> t_src := (t_src t)[i := p] \<rparr>"

definition set_nb :: "nat \<Rightarrow> int \<Rightarrow> ggml_tensor \<Rightarrow> ggml_tensor" where
  "set_nb i n t = t\<lparr> t_nb := (t_nb t)[i := n] \<rparr>"

definition set_ne :: "nat \<Rightarrow> int \<Rightarrow> ggml_tensor \<Rightarrow> ggml_tensor" where
  "set_ne i n t = t\<lparr> t_ne := (t_ne t)[i := n] \<rparr>"

text \<open>The pool invariant only asks where tensors are.\<close>

lemma pools_ok_tensor_update:
  assumes "pools_ok h" "h_tensors h r = Some t"
  shows "pools_ok (h\<lparr> h_tensors := (h_tensors h)(r \<mapsto> u) \<rparr>)"
proof -
  let ?h = "h\<lparr> h_tensors := (h_tensors h)(r \<mapsto> u) \<rparr>"
  have d: "h_tensors ?h p \<noteq> None \<longleftrightarrow> h_tensors h p \<noteq> None" for p using assms(2) by auto
  have "pool_with ?h c ps fin = pool_with h c ps fin" for c ps fin
    unfolding pool_with_def d by (simp add: obj_payload_def)
  then have "(\<exists>ps fin. pool_with ?h c ps fin) = (\<exists>ps fin. pool_with h c ps fin)" for c
    by simp
  then show ?thesis
    using assms(1) unfolding pools_ok_def d pools_disjoint_def by simp
qed

text \<open>What an operation guarantees: a well-formed new tensor with property P.\<close>

definition creates :: "heap \<Rightarrow> (ptr \<times> heap) option \<Rightarrow> (ggml_tensor \<Rightarrow> bool) \<Rightarrow> bool" where
  "creates h m P \<longleftrightarrow> (\<forall>r h'. m = Some (r, h') \<longrightarrow> (\<exists>t. new_node h r t h' \<and> node_wf h r t \<and> P t))"

named_theorems creates_intros "allocations and operations that add one well-formed tensor"
named_theorems node_simps "well-formedness under the assignments of the constructors"

lemma createsD:
  "creates h m P \<Longrightarrow> m = Some (r, h') \<Longrightarrow> \<exists>t. new_node h r t h' \<and> node_wf h r t \<and> P t"
  by (simp add: creates_def)

lemma creates_None [simp]: "creates h None P"
  by (simp add: creates_def)

lemma creates_if: "(b \<Longrightarrow> creates h m P) \<Longrightarrow> (\<not> b \<Longrightarrow> creates h m' P) \<Longrightarrow> creates h (if b then m else m') P"
  by simp

lemma creates_bind: "(\<And>x. m = Some x \<Longrightarrow> creates h (f x) P) \<Longrightarrow> creates h (m \<bind> f) P"
  by (cases m) simp_all

lemma creates_let: "creates h (f x) P \<Longrightarrow> creates h (let y = x in f y) P"
  by simp

lemma creates_weaken: "creates h m P \<Longrightarrow> (\<And>t. P t \<Longrightarrow> Q t) \<Longrightarrow> creates h m Q"
  unfolding creates_def by blast

lemma mk_node_creates:
  assumes "creates h m P"
    and "\<And>r t. P t \<Longrightarrow> node_wf h r t \<Longrightarrow> node_wf h r (fold (\<lambda>f t. f t) fs t) \<and> Q (fold (\<lambda>f t. f t) fs t)"
  shows "creates h (mk_node m fs) Q"
  unfolding creates_def
proof (intro allI impI)
  fix r h' assume "mk_node m fs = Some (r, h')"
  then obtain h1 t1 where m: "m = Some (r, h1)" and t1: "r \<noteq> NULL" "h_tensors h1 r = Some t1"
    and h': "h' = h1\<lparr> h_tensors := (h_tensors h1)(r \<mapsto> fold (\<lambda>f t. f t) fs t1) \<rparr>"
    by (auto simp: mk_node_def bind_Some_iff tset_Some)
  from assms(1) m obtain t where t: "new_node h r t h1" "node_wf h r t" "P t" unfolding creates_def by blast
  with t1 have "t = t1" by (simp add: new_node_def)
  have "new_node h r (fold (\<lambda>f t. f t) fs t) h'"
    unfolding new_node_def
  proof (intro conjI)
    show "pools_ok h'"
      unfolding h' by (rule pools_ok_tensor_update) (use t(1) t1(2) in \<open>simp_all add: new_node_def\<close>)
  qed (use t(1) h' \<open>t = t1\<close> in \<open>auto simp: new_node_def\<close>)
  with assms(2) [OF t(3,2)] show "\<exists>t. new_node h r t h' \<and> node_wf h r t \<and> Q t" by blast
qed

lemma creates_any: "creates h m P \<Longrightarrow> creates h m (\<lambda>_. True)"
  unfolding creates_def by blast

lemma pad_dims_length [simp]: "length (pad_dims n ne) = GGML_MAX_DIMS"
  by (simp add: pad_dims_def del: dims_upt)

lemma pad_dims_full: "length ne = GGML_MAX_DIMS \<Longrightarrow> pad_dims GGML_MAX_DIMS ne = ne"
  by (auto simp: pad_dims_def intro!: nth_equalityI simp del: dims_upt)

lemma fresh_strides_length [simp]: "length (fresh_strides ty ne) = GGML_MAX_DIMS"
  by (simp add: fresh_strides_def Let_def GGML_MAX_DIMS_def)

lemma node_wf_shape:
  assumes "tensors_wf h" "h_tensors h p = Some t"
  shows "length (t_ne t) = GGML_MAX_DIMS" "length (t_nb t) = GGML_MAX_DIMS"
    "length (t_op_params t) = GGML_N_OP_PARAMS" "length (t_src t) = GGML_MAX_SRC"
  using assms by (auto simp: tensors_wf_def node_wf_def tensor_shape_ok_def)

text \<open>Views are based on tensors that are not views.\<close>

lemma view_base_root:
  assumes "tensors_wf h" "view_base h vs vo = Some (vs', vo')"
  shows "vs' = NULL \<or> (\<exists>v. h_tensors h vs' = Some v \<and> t_view_src v = NULL)"
  using assms by (auto simp: view_base_def bind_Some_iff tensors_wf_def node_wf_def split: if_splits)

lemma ggml_new_tensor_impl_creates:
  assumes "heap_inv h"
  shows "creates h (ggml_new_tensor_impl h ctx ty nd ne vs vo)
    (\<lambda>t. \<exists>vs' vo' dat. view_base h vs vo = Some (vs', vo') \<and> t = fresh_tensor ty (pad_dims nd ne) vs' vo' dat)"
  unfolding creates_def
proof (intro allI impI)
  fix r h' assume "ggml_new_tensor_impl h ctx ty nd ne vs vo = Some (r, h')"
  with assms obtain vs' vo' dat where v: "view_base h vs vo = Some (vs', vo')"
    and n: "new_node h r (fresh_tensor ty (pad_dims nd ne) vs' vo' dat) h'"
    using ggml_new_tensor_impl_node unfolding heap_inv_def by blast
  have "node_wf h r (fresh_tensor ty (pad_dims nd ne) vs' vo' dat)"
    using view_base_root [OF _ v] assms by (auto simp: node_wf_def tensor_shape_ok_def fresh_tensor_def heap_inv_def)
  with v n show "\<exists>t. new_node h r t h' \<and> node_wf h r t \<and>
      (\<exists>vs' vo' dat. view_base h vs vo = Some (vs', vo') \<and> t = fresh_tensor ty (pad_dims nd ne) vs' vo' dat)"
    by blast
qed

lemma ggml_new_tensor_creates:
  assumes "heap_inv h"
  shows "creates h (ggml_new_tensor h ctx ty nd ne) (\<lambda>t. \<exists>dat. t = fresh_tensor ty (pad_dims nd ne) NULL 0 dat)"
  unfolding ggml_new_tensor_def
  by (rule creates_weaken [OF ggml_new_tensor_impl_creates [OF assms]]) (auto simp: view_base_def)

lemma ggml_dup_tensor_creates:
  assumes "heap_inv h"
  shows "creates h (ggml_dup_tensor h ctx a)
    (\<lambda>t. \<exists>s dat. h_tensors h a = Some s \<and> t = fresh_tensor (t_type s) (t_ne s) NULL 0 dat)"
  unfolding ggml_dup_tensor_def
proof (rule creates_bind)
  fix s assume s: "tget h a = Some s"
  then have "length (t_ne s) = GGML_MAX_DIMS" using assms node_wf_shape by (auto simp: heap_inv_def)
  from pad_dims_full [OF this] s
  show "creates h (ggml_new_tensor h ctx (t_type s) GGML_MAX_DIMS (t_ne s))
    (\<lambda>t. \<exists>s dat. h_tensors h a = Some s \<and> t = fresh_tensor (t_type s) (t_ne s) NULL 0 dat)"
    by (intro creates_weaken [OF ggml_new_tensor_creates [OF assms]]) auto
qed

lemma ggml_view_tensor_mk_node:
  "ggml_view_tensor h ctx a = do {
     s \<leftarrow> tget h a;
     mk_node (ggml_new_tensor_impl h ctx (t_type s) GGML_MAX_DIMS (t_ne s) a 0)
       [ggml_format_name (t_name s @ '' (view)''), \<lambda>t. t\<lparr> t_nb := t_nb s \<rparr>] }"
proof -
  have "tset h r (f \<circ> g) = (tset h r g \<bind> (\<lambda>h. tset h r f))" for h r f g
    by (auto simp: tset_def tget_def split: option.splits)
  then show ?thesis
    by (cases "tget h a") (simp_all add: ggml_view_tensor_def mk_node_def split_def bind_assoc)
qed

lemma node_wf_set [node_simps]:
  "node_wf h r t \<Longrightarrow> op \<noteq> GGML_OP_NONE \<Longrightarrow> node_wf h r (set_op op t)"
  "node_wf h r t \<Longrightarrow> node_wf h r (set_nb i n t)"
  "node_wf h r t \<Longrightarrow> node_wf h r (set_ne i n t)"
  "node_wf h r t \<Longrightarrow> node_wf h r (ggml_set_op_params_i32 i v t)"
  "node_wf h r t \<Longrightarrow> node_wf h r (ggml_set_op_params_f32 i w t)"
  "node_wf h r t \<Longrightarrow> node_wf h r (ggml_format_name s t)"
  "node_wf h r t \<Longrightarrow> node_wf h r (ggml_set_name s t)"
  "node_wf h r t \<Longrightarrow> length ps \<le> GGML_N_OP_PARAMS \<Longrightarrow> node_wf h r (ggml_set_op_params ps t)"
  "node_wf h r t \<Longrightarrow> length nb = GGML_MAX_DIMS \<Longrightarrow> node_wf h r (t\<lparr> t_nb := nb \<rparr>)"
  by (auto simp: node_wf_def tensor_shape_ok_def set_op_def set_nb_def set_ne_def
      ggml_set_op_params_i32_def ggml_set_op_params_f32_def ggml_format_name_def ggml_set_name_def
      ggml_set_op_params_def)

lemma t_op_set [node_simps]:
  "t_op (set_op op t) = op" "t_op (set_src i p t) = t_op t" "t_op (set_nb i n t) = t_op t"
  "t_op (set_ne i n t) = t_op t" "t_op (ggml_set_op_params_i32 i v t) = t_op t"
  "t_op (ggml_set_op_params_f32 i w t) = t_op t" "t_op (ggml_format_name s t) = t_op t"
  "t_op (ggml_set_name s t) = t_op t" "t_op (ggml_set_op_params ps t) = t_op t"
  by (simp_all add: set_op_def set_src_def set_nb_def set_ne_def ggml_set_op_params_i32_def
      ggml_set_op_params_f32_def ggml_format_name_def ggml_set_name_def ggml_set_op_params_def)

lemma node_wf_set_src [node_simps]:
  "node_wf h r t \<Longrightarrow> t_op t \<noteq> GGML_OP_NONE \<Longrightarrow> live h p \<Longrightarrow> node_wf h r (set_src i p t)"
proof -
  assume a: "node_wf h r t" "t_op t \<noteq> GGML_OP_NONE" "live h p"
  then have "\<forall>s \<in> set ((t_src t)[i := p]). s = r \<or> live h s"
    using set_update_subset_insert [of "t_src t" i p] by (auto simp: node_wf_def)
  with a show ?thesis by (auto simp: node_wf_def tensor_shape_ok_def set_src_def)
qed

lemma node_wf_set_self: "node_wf h r t \<Longrightarrow> t_op t \<noteq> GGML_OP_NONE \<Longrightarrow> node_wf h r (set_src i r t)"
proof -
  assume a: "node_wf h r t" "t_op t \<noteq> GGML_OP_NONE"
  then have "\<forall>s \<in> set ((t_src t)[i := r]). s = r \<or> live h s"
    using set_update_subset_insert [of "t_src t" i r] by (auto simp: node_wf_def)
  with a show ?thesis by (auto simp: node_wf_def tensor_shape_ok_def set_src_def)
qed

lemma ggml_view_tensor_creates:
  assumes "heap_inv h"
  shows "creates h (ggml_view_tensor h ctx a)
    (\<lambda>t. \<exists>s vs vo dat. h_tensors h a = Some s \<and> view_base h a 0 = Some (vs, vo) \<and>
      t = (fresh_tensor (t_type s) (t_ne s) vs vo dat)
        \<lparr> t_nb := t_nb s, t_name := take 63 (t_name s @ '' (view)'') \<rparr>)"
  unfolding ggml_view_tensor_mk_node
proof (rule creates_bind)
  fix s assume s: "tget h a = Some s"
  then have l: "length (t_ne s) = GGML_MAX_DIMS" "length (t_nb s) = GGML_MAX_DIMS"
    using assms node_wf_shape by (auto simp: heap_inv_def)
  let ?fs = "[ggml_format_name (t_name s @ '' (view)''), \<lambda>t. t\<lparr> t_nb := t_nb s \<rparr>]"
  show "creates h (mk_node (ggml_new_tensor_impl h ctx (t_type s) GGML_MAX_DIMS (t_ne s) a 0) ?fs)
    (\<lambda>t. \<exists>s vs vo dat. h_tensors h a = Some s \<and> view_base h a 0 = Some (vs, vo) \<and>
      t = (fresh_tensor (t_type s) (t_ne s) vs vo dat)
        \<lparr> t_nb := t_nb s, t_name := take 63 (t_name s @ '' (view)'') \<rparr>)"
  proof (rule mk_node_creates [OF ggml_new_tensor_impl_creates [OF assms]], rule conjI)
    fix r t
    assume "node_wf h r t"
    then show "node_wf h r (fold (\<lambda>f t. f t) ?fs t)" using l by (simp add: node_simps)
  next
    fix r t
    assume "\<exists>vs' vo' dat. view_base h a 0 = Some (vs', vo') \<and>
        t = fresh_tensor (t_type s) (pad_dims GGML_MAX_DIMS (t_ne s)) vs' vo' dat"
    then obtain vs vo dat where "view_base h a 0 = Some (vs, vo)" "t = fresh_tensor (t_type s) (t_ne s) vs vo dat"
      using pad_dims_full [OF l(1)] by auto
    moreover from this have "fold (\<lambda>f t. f t) ?fs t = (fresh_tensor (t_type s) (t_ne s) vs vo dat)
        \<lparr> t_nb := t_nb s, t_name := take 63 (t_name s @ '' (view)'') \<rparr>"
      by (simp add: ggml_format_name_def GGML_MAX_NAME_def fresh_tensor_def)
    ultimately show "\<exists>s vs vo dat. h_tensors h a = Some s \<and> view_base h a 0 = Some (vs, vo) \<and>
      fold (\<lambda>f t. f t) ?fs t = (fresh_tensor (t_type s) (t_ne s) vs vo dat)
        \<lparr> t_nb := t_nb s, t_name := take 63 (t_name s @ '' (view)'') \<rparr>"
      using s by auto
  qed
qed

lemma mk_node_any:
  assumes "creates h m (\<lambda>_. True)" "\<And>r t. node_wf h r t \<Longrightarrow> node_wf h r (fold (\<lambda>f t. f t) fs t)"
  shows "creates h (mk_node m fs) (\<lambda>_. True)"
  by (rule mk_node_creates [OF assms(1)]) (use assms(2) in blast)

lemmas alloc_any [creates_intros] =
  ggml_new_tensor_impl_creates [THEN creates_any] ggml_new_tensor_creates [THEN creates_any]
  ggml_dup_tensor_creates [THEN creates_any] ggml_view_tensor_creates [THEN creates_any]

lemma new_tensor_nd_any [creates_intros]:
  assumes "heap_inv h"
  shows "creates h (ggml_new_tensor_1d h ctx ty n0) (\<lambda>_. True)"
    "creates h (ggml_new_tensor_2d h ctx ty n0 n1) (\<lambda>_. True)"
    "creates h (ggml_new_tensor_3d h ctx ty n0 n1 n2) (\<lambda>_. True)"
    "creates h (ggml_new_tensor_4d h ctx ty n0 n1 n2 n3) (\<lambda>_. True)"
  unfolding ggml_new_tensor_1d_def ggml_new_tensor_2d_def ggml_new_tensor_3d_def ggml_new_tensor_4d_def
  using assms by (simp_all add: alloc_any)

section \<open>Operations that add several tensors\<close>

definition grows :: "heap \<Rightarrow> (ptr \<times> heap) option \<Rightarrow> bool" where
  "grows h m \<longleftrightarrow> (\<forall>r h'. m = Some (r, h') \<longrightarrow>
     extends h h' \<and> h_tensors h r = None \<and> h_tensors h' r \<noteq> None \<and> r \<noteq> NULL)"

named_theorems grows_intros "operations that add well-formed tensors"

lemma growsD:
  "grows h m \<Longrightarrow> m = Some (r, h') \<Longrightarrow> extends h h' \<and> h_tensors h r = None \<and> live h' r \<and> r \<noteq> NULL"
  by (auto simp: grows_def live_def)

lemma creates_grows: "heap_inv h \<Longrightarrow> creates h m P \<Longrightarrow> grows h m"
  unfolding creates_def grows_def using new_node_extends by (fastforce simp: new_node_def)

lemma grows_None [simp]: "grows h None"
  by (simp add: grows_def)

lemma grows_bind: "(\<And>x. m = Some x \<Longrightarrow> grows h (f x)) \<Longrightarrow> grows h (m \<bind> f)"
  by (cases m) simp_all

lemma grows_seq:
  assumes "grows h m"
    and "\<And>r h1. heap_inv h1 \<Longrightarrow> live h1 r \<Longrightarrow> (\<And>p. live h p \<Longrightarrow> live h1 p) \<Longrightarrow> grows h1 (f r h1)"
  shows "grows h (m \<bind> (\<lambda>(r, h1). f r h1))"
  unfolding grows_def
proof (intro allI impI)
  fix r2 h2 assume "(m \<bind> (\<lambda>(r, h1). f r h1)) = Some (r2, h2)"
  then obtain r h1 where m: "m = Some (r, h1)" and f: "f r h1 = Some (r2, h2)" by (auto simp: bind_Some_iff)
  note g = growsD [OF assms(1) m]
  then have "grows h1 (f r h1)" using assms(2) extends_inv extends_live by blast
  from growsD [OF this f] g have "extends h h2" "h_tensors h1 r2 = None" "live h2 r2" "r2 \<noteq> NULL"
    using extends_trans by blast+
  moreover from this g have "h_tensors h r2 = None" using extends_tensor by (metis option.exhaust option.distinct(1))
  ultimately show "extends h h2 \<and> h_tensors h r2 = None \<and> h_tensors h2 r2 \<noteq> None \<and> r2 \<noteq> NULL"
    by (simp add: live_def)
qed

end
