(* ===== verification/OpsBasic.thy ===== *)
theory OpsBasic
  imports ContextPool
begin

text \<open>
  The element-wise, unary, gated and normalising operation constructors of ggml.c: each checks the
  shapes and types of its arguments, allocates its result as a copy of a shape or as a view, and
  records the operation, its parameters and its sources.  Floats are passed as their bits.  Every
  constructor adds one well-formed tensor to the store (the collection \<open>creates_intros\<close>).
\<close>

type_synonym node_result = "(ptr \<times> heap) option"


section \<open>Element-wise operations\<close>

definition ggml_dup_impl :: "heap \<Rightarrow> ptr \<Rightarrow> ptr \<Rightarrow> bool \<Rightarrow> node_result" where
  "ggml_dup_impl h ctx a inplace =
     mk_node (if inplace then ggml_view_tensor h ctx a else ggml_dup_tensor h ctx a)
       [set_op GGML_OP_DUP, set_src 0 a]"

definition ggml_dup :: "heap \<Rightarrow> ptr \<Rightarrow> ptr \<Rightarrow> node_result" where
  "ggml_dup h ctx a =
     ggml_dup_impl h ctx a False"

definition ggml_dup_inplace :: "heap \<Rightarrow> ptr \<Rightarrow> ptr \<Rightarrow> node_result" where
  "ggml_dup_inplace h ctx a =
     ggml_dup_impl h ctx a True"

definition ggml_add_impl :: "heap \<Rightarrow> ptr \<Rightarrow> ptr \<Rightarrow> ptr \<Rightarrow> bool \<Rightarrow> node_result" where
  "ggml_add_impl h ctx a b inplace =
     do {
     ta \<leftarrow> tget h a; tb \<leftarrow> tget h b;
     gassert (ggml_can_repeat tb ta);
     mk_node (if inplace then ggml_view_tensor h ctx a else ggml_dup_tensor h ctx a)
       [set_op GGML_OP_ADD, set_src 0 a, set_src 1 b] }"

definition ggml_add :: "heap \<Rightarrow> ptr \<Rightarrow> ptr \<Rightarrow> ptr \<Rightarrow> node_result" where
  "ggml_add h ctx a b =
     ggml_add_impl h ctx a b False"

definition ggml_add_inplace :: "heap \<Rightarrow> ptr \<Rightarrow> ptr \<Rightarrow> ptr \<Rightarrow> node_result" where
  "ggml_add_inplace h ctx a b =
     ggml_add_impl h ctx a b True"

definition ggml_add_cast :: "heap \<Rightarrow> ptr \<Rightarrow> ptr \<Rightarrow> ptr \<Rightarrow> ggml_type \<Rightarrow> node_result" where
  "ggml_add_cast h ctx a b type =
     do {
     ta \<leftarrow> tget h a; tb \<leftarrow> tget h b;
     gassert (ggml_can_repeat_rows tb ta);
     gassert (ggml_is_quantized (t_type ta) \<or> t_type ta = GGML_TYPE_F16 \<or> t_type ta = GGML_TYPE_BF16);
     mk_node (ggml_new_tensor h ctx type GGML_MAX_DIMS (t_ne ta))
       [set_op GGML_OP_ADD, set_src 0 a, set_src 1 b] }"

definition ggml_add_id :: "heap \<Rightarrow> ptr \<Rightarrow> ptr \<Rightarrow> ptr \<Rightarrow> ptr \<Rightarrow> node_result" where
  "ggml_add_id h ctx a b ids =
     do {
     ta \<leftarrow> tget h a; tb \<leftarrow> tget h b; ti \<leftarrow> tget h ids;
     gassert (ne_at ta 0 = ne_at tb 0);
     gassert (ne_at ta 1 = ne_at ti 0);
     gassert (ne_at ta 2 = ne_at ti 1);
     gassert (t_type ti = GGML_TYPE_I32);
     mk_node (ggml_dup_tensor h ctx a)
       [set_op GGML_OP_ADD_ID, set_src 0 a, set_src 1 b, set_src 2 ids] }"

definition ggml_add1_impl :: "heap \<Rightarrow> ptr \<Rightarrow> ptr \<Rightarrow> ptr \<Rightarrow> bool \<Rightarrow> node_result" where
  "ggml_add1_impl h ctx a b inplace =
     do {
     ta \<leftarrow> tget h a; tb \<leftarrow> tget h b;
     gassert (ggml_is_scalar tb);
     gassert (ggml_is_padded_1d ta);
     mk_node (if inplace then ggml_view_tensor h ctx a else ggml_dup_tensor h ctx a)
       [set_op GGML_OP_ADD1, set_src 0 a, set_src 1 b] }"

definition ggml_add1 :: "heap \<Rightarrow> ptr \<Rightarrow> ptr \<Rightarrow> ptr \<Rightarrow> node_result" where
  "ggml_add1 h ctx a b =
     ggml_add1_impl h ctx a b False"

definition ggml_add1_inplace :: "heap \<Rightarrow> ptr \<Rightarrow> ptr \<Rightarrow> ptr \<Rightarrow> node_result" where
  "ggml_add1_inplace h ctx a b =
     ggml_add1_impl h ctx a b True"

text \<open>The parameters are size_t values truncated to int32_t.\<close>

definition ggml_acc_impl :: "heap \<Rightarrow> ptr \<Rightarrow> ptr \<Rightarrow> ptr \<Rightarrow> int \<Rightarrow> int \<Rightarrow> int \<Rightarrow> int \<Rightarrow> bool \<Rightarrow> node_result" where
  "ggml_acc_impl h ctx a b nb1 nb2 nb3 offset inplace =
     do {
     ta \<leftarrow> tget h a; tb \<leftarrow> tget h b;
     gassert (ggml_nelements tb \<le> ggml_nelements ta);
     gassert (ggml_is_contiguous ta);
     gassert (t_type ta = GGML_TYPE_F32);
     gassert (t_type tb = GGML_TYPE_F32);
     mk_node (if inplace then ggml_view_tensor h ctx a else ggml_dup_tensor h ctx a)
       [ggml_set_op_params [word_of_int nb1, word_of_int nb2, word_of_int nb3, word_of_int offset,
                            if inplace then 1 else 0],
        set_op GGML_OP_ACC, set_src 0 a, set_src 1 b] }"

definition ggml_acc :: "heap \<Rightarrow> ptr \<Rightarrow> ptr \<Rightarrow> ptr \<Rightarrow> int \<Rightarrow> int \<Rightarrow> int \<Rightarrow> int \<Rightarrow> node_result" where
  "ggml_acc h ctx a b nb1 nb2 nb3 offset =
     ggml_acc_impl h ctx a b nb1 nb2 nb3 offset False"

definition ggml_acc_inplace :: "heap \<Rightarrow> ptr \<Rightarrow> ptr \<Rightarrow> ptr \<Rightarrow> int \<Rightarrow> int \<Rightarrow> int \<Rightarrow> int \<Rightarrow> node_result" where
  "ggml_acc_inplace h ctx a b nb1 nb2 nb3 offset =
     ggml_acc_impl h ctx a b nb1 nb2 nb3 offset True"

definition ggml_sub_impl :: "heap \<Rightarrow> ptr \<Rightarrow> ptr \<Rightarrow> ptr \<Rightarrow> bool \<Rightarrow> node_result" where
  "ggml_sub_impl h ctx a b inplace =
     do {
     ta \<leftarrow> tget h a; tb \<leftarrow> tget h b;
     gassert (ggml_can_repeat tb ta);
     mk_node (if inplace then ggml_view_tensor h ctx a else ggml_dup_tensor h ctx a)
       [set_op GGML_OP_SUB, set_src 0 a, set_src 1 b] }"

definition ggml_sub :: "heap \<Rightarrow> ptr \<Rightarrow> ptr \<Rightarrow> ptr \<Rightarrow> node_result" where
  "ggml_sub h ctx a b =
     ggml_sub_impl h ctx a b False"

definition ggml_sub_inplace :: "heap \<Rightarrow> ptr \<Rightarrow> ptr \<Rightarrow> ptr \<Rightarrow> node_result" where
  "ggml_sub_inplace h ctx a b =
     ggml_sub_impl h ctx a b True"

definition ggml_mul_impl :: "heap \<Rightarrow> ptr \<Rightarrow> ptr \<Rightarrow> ptr \<Rightarrow> bool \<Rightarrow> node_result" where
  "ggml_mul_impl h ctx a b inplace =
     do {
     ta \<leftarrow> tget h a; tb \<leftarrow> tget h b;
     gassert (ggml_can_repeat tb ta);
     mk_node (if inplace then ggml_view_tensor h ctx a else ggml_dup_tensor h ctx a)
       [set_op GGML_OP_MUL, set_src 0 a, set_src 1 b] }"

definition ggml_mul :: "heap \<Rightarrow> ptr \<Rightarrow> ptr \<Rightarrow> ptr \<Rightarrow> node_result" where
  "ggml_mul h ctx a b =
     ggml_mul_impl h ctx a b False"

definition ggml_mul_inplace :: "heap \<Rightarrow> ptr \<Rightarrow> ptr \<Rightarrow> ptr \<Rightarrow> node_result" where
  "ggml_mul_inplace h ctx a b =
     ggml_mul_impl h ctx a b True"

definition ggml_div_impl :: "heap \<Rightarrow> ptr \<Rightarrow> ptr \<Rightarrow> ptr \<Rightarrow> bool \<Rightarrow> node_result" where
  "ggml_div_impl h ctx a b inplace =
     do {
     ta \<leftarrow> tget h a; tb \<leftarrow> tget h b;
     gassert (ggml_can_repeat tb ta);
     mk_node (if inplace then ggml_view_tensor h ctx a else ggml_dup_tensor h ctx a)
       [set_op GGML_OP_DIV, set_src 0 a, set_src 1 b] }"

definition ggml_div :: "heap \<Rightarrow> ptr \<Rightarrow> ptr \<Rightarrow> ptr \<Rightarrow> node_result" where
  "ggml_div h ctx a b =
     ggml_div_impl h ctx a b False"

definition ggml_div_inplace :: "heap \<Rightarrow> ptr \<Rightarrow> ptr \<Rightarrow> ptr \<Rightarrow> node_result" where
  "ggml_div_inplace h ctx a b =
     ggml_div_impl h ctx a b True"

definition ggml_sqr_impl :: "heap \<Rightarrow> ptr \<Rightarrow> ptr \<Rightarrow> bool \<Rightarrow> node_result" where
  "ggml_sqr_impl h ctx a inplace =
     mk_node (if inplace then ggml_view_tensor h ctx a else ggml_dup_tensor h ctx a)
       [set_op GGML_OP_SQR, set_src 0 a]"

definition ggml_sqr :: "heap \<Rightarrow> ptr \<Rightarrow> ptr \<Rightarrow> node_result" where
  "ggml_sqr h ctx a =
     ggml_sqr_impl h ctx a False"

definition ggml_sqr_inplace :: "heap \<Rightarrow> ptr \<Rightarrow> ptr \<Rightarrow> node_result" where
  "ggml_sqr_inplace h ctx a =
     ggml_sqr_impl h ctx a True"

definition ggml_sqrt_impl :: "heap \<Rightarrow> ptr \<Rightarrow> ptr \<Rightarrow> bool \<Rightarrow> node_result" where
  "ggml_sqrt_impl h ctx a inplace =
     mk_node (if inplace then ggml_view_tensor h ctx a else ggml_dup_tensor h ctx a)
       [set_op GGML_OP_SQRT, set_src 0 a]"

definition ggml_sqrt :: "heap \<Rightarrow> ptr \<Rightarrow> ptr \<Rightarrow> node_result" where
  "ggml_sqrt h ctx a =
     ggml_sqrt_impl h ctx a False"

definition ggml_sqrt_inplace :: "heap \<Rightarrow> ptr \<Rightarrow> ptr \<Rightarrow> node_result" where
  "ggml_sqrt_inplace h ctx a =
     ggml_sqrt_impl h ctx a True"

definition ggml_log_impl :: "heap \<Rightarrow> ptr \<Rightarrow> ptr \<Rightarrow> bool \<Rightarrow> node_result" where
  "ggml_log_impl h ctx a inplace =
     mk_node (if inplace then ggml_view_tensor h ctx a else ggml_dup_tensor h ctx a)
       [set_op GGML_OP_LOG, set_src 0 a]"

definition ggml_log :: "heap \<Rightarrow> ptr \<Rightarrow> ptr \<Rightarrow> node_result" where
  "ggml_log h ctx a =
     ggml_log_impl h ctx a False"

definition ggml_log_inplace :: "heap \<Rightarrow> ptr \<Rightarrow> ptr \<Rightarrow> node_result" where
  "ggml_log_inplace h ctx a =
     ggml_log_impl h ctx a True"

definition ggml_sin_impl :: "heap \<Rightarrow> ptr \<Rightarrow> ptr \<Rightarrow> bool \<Rightarrow> node_result" where
  "ggml_sin_impl h ctx a inplace =
     mk_node (if inplace then ggml_view_tensor h ctx a else ggml_dup_tensor h ctx a)
       [set_op GGML_OP_SIN, set_src 0 a]"

definition ggml_sin :: "heap \<Rightarrow> ptr \<Rightarrow> ptr \<Rightarrow> node_result" where
  "ggml_sin h ctx a =
     ggml_sin_impl h ctx a False"

definition ggml_sin_inplace :: "heap \<Rightarrow> ptr \<Rightarrow> ptr \<Rightarrow> node_result" where
  "ggml_sin_inplace h ctx a =
     ggml_sin_impl h ctx a True"

definition ggml_cos_impl :: "heap \<Rightarrow> ptr \<Rightarrow> ptr \<Rightarrow> bool \<Rightarrow> node_result" where
  "ggml_cos_impl h ctx a inplace =
     mk_node (if inplace then ggml_view_tensor h ctx a else ggml_dup_tensor h ctx a)
       [set_op GGML_OP_COS, set_src 0 a]"

definition ggml_cos :: "heap \<Rightarrow> ptr \<Rightarrow> ptr \<Rightarrow> node_result" where
  "ggml_cos h ctx a =
     ggml_cos_impl h ctx a False"

definition ggml_cos_inplace :: "heap \<Rightarrow> ptr \<Rightarrow> ptr \<Rightarrow> node_result" where
  "ggml_cos_inplace h ctx a =
     ggml_cos_impl h ctx a True"

section \<open>Unary functions\<close>

definition ggml_unary_impl :: "heap \<Rightarrow> ptr \<Rightarrow> ptr \<Rightarrow> ggml_unary_op \<Rightarrow> bool \<Rightarrow> node_result" where
  "ggml_unary_impl h ctx a op inplace =
     do {
     ta \<leftarrow> tget h a;
     gassert (ggml_is_contiguous_rows ta);
     mk_node (if inplace then ggml_view_tensor h ctx a else ggml_dup_tensor h ctx a)
       [ggml_set_op_params_i32 0 (enum_of_unary op), set_op GGML_OP_UNARY, set_src 0 a] }"

definition ggml_unary :: "heap \<Rightarrow> ptr \<Rightarrow> ptr \<Rightarrow> ggml_unary_op \<Rightarrow> node_result" where
  "ggml_unary h ctx a op =
     ggml_unary_impl h ctx a op False"

definition ggml_unary_inplace :: "heap \<Rightarrow> ptr \<Rightarrow> ptr \<Rightarrow> ggml_unary_op \<Rightarrow> node_result" where
  "ggml_unary_inplace h ctx a op =
     ggml_unary_impl h ctx a op True"

definition ggml_abs :: "heap \<Rightarrow> ptr \<Rightarrow> ptr \<Rightarrow> node_result" where
  "ggml_abs h ctx a =
     ggml_unary h ctx a GGML_UNARY_OP_ABS"

definition ggml_abs_inplace :: "heap \<Rightarrow> ptr \<Rightarrow> ptr \<Rightarrow> node_result" where
  "ggml_abs_inplace h ctx a =
     ggml_unary_inplace h ctx a GGML_UNARY_OP_ABS"

definition ggml_sgn :: "heap \<Rightarrow> ptr \<Rightarrow> ptr \<Rightarrow> node_result" where
  "ggml_sgn h ctx a =
     ggml_unary h ctx a GGML_UNARY_OP_SGN"

definition ggml_sgn_inplace :: "heap \<Rightarrow> ptr \<Rightarrow> ptr \<Rightarrow> node_result" where
  "ggml_sgn_inplace h ctx a =
     ggml_unary_inplace h ctx a GGML_UNARY_OP_SGN"

definition ggml_neg :: "heap \<Rightarrow> ptr \<Rightarrow> ptr \<Rightarrow> node_result" where
  "ggml_neg h ctx a =
     ggml_unary h ctx a GGML_UNARY_OP_NEG"

definition ggml_neg_inplace :: "heap \<Rightarrow> ptr \<Rightarrow> ptr \<Rightarrow> node_result" where
  "ggml_neg_inplace h ctx a =
     ggml_unary_inplace h ctx a GGML_UNARY_OP_NEG"

definition ggml_step :: "heap \<Rightarrow> ptr \<Rightarrow> ptr \<Rightarrow> node_result" where
  "ggml_step h ctx a =
     ggml_unary h ctx a GGML_UNARY_OP_STEP"

definition ggml_step_inplace :: "heap \<Rightarrow> ptr \<Rightarrow> ptr \<Rightarrow> node_result" where
  "ggml_step_inplace h ctx a =
     ggml_unary_inplace h ctx a GGML_UNARY_OP_STEP"

definition ggml_tanh :: "heap \<Rightarrow> ptr \<Rightarrow> ptr \<Rightarrow> node_result" where
  "ggml_tanh h ctx a =
     ggml_unary h ctx a GGML_UNARY_OP_TANH"

definition ggml_tanh_inplace :: "heap \<Rightarrow> ptr \<Rightarrow> ptr \<Rightarrow> node_result" where
  "ggml_tanh_inplace h ctx a =
     ggml_unary_inplace h ctx a GGML_UNARY_OP_TANH"

definition ggml_elu :: "heap \<Rightarrow> ptr \<Rightarrow> ptr \<Rightarrow> node_result" where
  "ggml_elu h ctx a =
     ggml_unary h ctx a GGML_UNARY_OP_ELU"

definition ggml_elu_inplace :: "heap \<Rightarrow> ptr \<Rightarrow> ptr \<Rightarrow> node_result" where
  "ggml_elu_inplace h ctx a =
     ggml_unary_inplace h ctx a GGML_UNARY_OP_ELU"

definition ggml_relu :: "heap \<Rightarrow> ptr \<Rightarrow> ptr \<Rightarrow> node_result" where
  "ggml_relu h ctx a =
     ggml_unary h ctx a GGML_UNARY_OP_RELU"

definition ggml_relu_inplace :: "heap \<Rightarrow> ptr \<Rightarrow> ptr \<Rightarrow> node_result" where
  "ggml_relu_inplace h ctx a =
     ggml_unary_inplace h ctx a GGML_UNARY_OP_RELU"

definition ggml_sigmoid :: "heap \<Rightarrow> ptr \<Rightarrow> ptr \<Rightarrow> node_result" where
  "ggml_sigmoid h ctx a =
     ggml_unary h ctx a GGML_UNARY_OP_SIGMOID"

definition ggml_sigmoid_inplace :: "heap \<Rightarrow> ptr \<Rightarrow> ptr \<Rightarrow> node_result" where
  "ggml_sigmoid_inplace h ctx a =
     ggml_unary_inplace h ctx a GGML_UNARY_OP_SIGMOID"

definition ggml_gelu :: "heap \<Rightarrow> ptr \<Rightarrow> ptr \<Rightarrow> node_result" where
  "ggml_gelu h ctx a =
     ggml_unary h ctx a GGML_UNARY_OP_GELU"

definition ggml_gelu_inplace :: "heap \<Rightarrow> ptr \<Rightarrow> ptr \<Rightarrow> node_result" where
  "ggml_gelu_inplace h ctx a =
     ggml_unary_inplace h ctx a GGML_UNARY_OP_GELU"

definition ggml_gelu_erf :: "heap \<Rightarrow> ptr \<Rightarrow> ptr \<Rightarrow> node_result" where
  "ggml_gelu_erf h ctx a =
     ggml_unary h ctx a GGML_UNARY_OP_GELU_ERF"

definition ggml_gelu_erf_inplace :: "heap \<Rightarrow> ptr \<Rightarrow> ptr \<Rightarrow> node_result" where
  "ggml_gelu_erf_inplace h ctx a =
     ggml_unary_inplace h ctx a GGML_UNARY_OP_GELU_ERF"

definition ggml_gelu_quick :: "heap \<Rightarrow> ptr \<Rightarrow> ptr \<Rightarrow> node_result" where
  "ggml_gelu_quick h ctx a =
     ggml_unary h ctx a GGML_UNARY_OP_GELU_QUICK"

definition ggml_gelu_quick_inplace :: "heap \<Rightarrow> ptr \<Rightarrow> ptr \<Rightarrow> node_result" where
  "ggml_gelu_quick_inplace h ctx a =
     ggml_unary_inplace h ctx a GGML_UNARY_OP_GELU_QUICK"

definition ggml_silu :: "heap \<Rightarrow> ptr \<Rightarrow> ptr \<Rightarrow> node_result" where
  "ggml_silu h ctx a =
     ggml_unary h ctx a GGML_UNARY_OP_SILU"

definition ggml_silu_inplace :: "heap \<Rightarrow> ptr \<Rightarrow> ptr \<Rightarrow> node_result" where
  "ggml_silu_inplace h ctx a =
     ggml_unary_inplace h ctx a GGML_UNARY_OP_SILU"

definition ggml_exp :: "heap \<Rightarrow> ptr \<Rightarrow> ptr \<Rightarrow> node_result" where
  "ggml_exp h ctx a =
     ggml_unary h ctx a GGML_UNARY_OP_EXP"

definition ggml_exp_inplace :: "heap \<Rightarrow> ptr \<Rightarrow> ptr \<Rightarrow> node_result" where
  "ggml_exp_inplace h ctx a =
     ggml_unary_inplace h ctx a GGML_UNARY_OP_EXP"

definition ggml_expm1 :: "heap \<Rightarrow> ptr \<Rightarrow> ptr \<Rightarrow> node_result" where
  "ggml_expm1 h ctx a =
     ggml_unary h ctx a GGML_UNARY_OP_EXPM1"

definition ggml_expm1_inplace :: "heap \<Rightarrow> ptr \<Rightarrow> ptr \<Rightarrow> node_result" where
  "ggml_expm1_inplace h ctx a =
     ggml_unary_inplace h ctx a GGML_UNARY_OP_EXPM1"

definition ggml_softplus :: "heap \<Rightarrow> ptr \<Rightarrow> ptr \<Rightarrow> node_result" where
  "ggml_softplus h ctx a =
     ggml_unary h ctx a GGML_UNARY_OP_SOFTPLUS"

definition ggml_softplus_inplace :: "heap \<Rightarrow> ptr \<Rightarrow> ptr \<Rightarrow> node_result" where
  "ggml_softplus_inplace h ctx a =
     ggml_unary_inplace h ctx a GGML_UNARY_OP_SOFTPLUS"

definition ggml_floor :: "heap \<Rightarrow> ptr \<Rightarrow> ptr \<Rightarrow> node_result" where
  "ggml_floor h ctx a =
     ggml_unary h ctx a GGML_UNARY_OP_FLOOR"

definition ggml_floor_inplace :: "heap \<Rightarrow> ptr \<Rightarrow> ptr \<Rightarrow> node_result" where
  "ggml_floor_inplace h ctx a =
     ggml_unary_inplace h ctx a GGML_UNARY_OP_FLOOR"

definition ggml_ceil :: "heap \<Rightarrow> ptr \<Rightarrow> ptr \<Rightarrow> node_result" where
  "ggml_ceil h ctx a =
     ggml_unary h ctx a GGML_UNARY_OP_CEIL"

definition ggml_ceil_inplace :: "heap \<Rightarrow> ptr \<Rightarrow> ptr \<Rightarrow> node_result" where
  "ggml_ceil_inplace h ctx a =
     ggml_unary_inplace h ctx a GGML_UNARY_OP_CEIL"

definition ggml_round :: "heap \<Rightarrow> ptr \<Rightarrow> ptr \<Rightarrow> node_result" where
  "ggml_round h ctx a =
     ggml_unary h ctx a GGML_UNARY_OP_ROUND"

definition ggml_round_inplace :: "heap \<Rightarrow> ptr \<Rightarrow> ptr \<Rightarrow> node_result" where
  "ggml_round_inplace h ctx a =
     ggml_unary_inplace h ctx a GGML_UNARY_OP_ROUND"

definition ggml_trunc :: "heap \<Rightarrow> ptr \<Rightarrow> ptr \<Rightarrow> node_result" where
  "ggml_trunc h ctx a =
     ggml_unary h ctx a GGML_UNARY_OP_TRUNC"

definition ggml_trunc_inplace :: "heap \<Rightarrow> ptr \<Rightarrow> ptr \<Rightarrow> node_result" where
  "ggml_trunc_inplace h ctx a =
     ggml_unary_inplace h ctx a GGML_UNARY_OP_TRUNC"

definition ggml_hardswish :: "heap \<Rightarrow> ptr \<Rightarrow> ptr \<Rightarrow> node_result" where
  "ggml_hardswish h ctx a =
     ggml_unary h ctx a GGML_UNARY_OP_HARDSWISH"

definition ggml_hardsigmoid :: "heap \<Rightarrow> ptr \<Rightarrow> ptr \<Rightarrow> node_result" where
  "ggml_hardsigmoid h ctx a =
     ggml_unary h ctx a GGML_UNARY_OP_HARDSIGMOID"

definition ggml_leaky_relu :: "heap \<Rightarrow> ptr \<Rightarrow> ptr \<Rightarrow> 32 word \<Rightarrow> bool \<Rightarrow> node_result" where
  "ggml_leaky_relu h ctx a negative_slope inplace =
     mk_node (if inplace then ggml_view_tensor h ctx a else ggml_dup_tensor h ctx a)
       [ggml_set_op_params [negative_slope], set_op GGML_OP_LEAKY_RELU, set_src 0 a]"

text \<open>
  The processor's float arithmetic and the C library's float functions, on the bits of the floats,
  are an argument where a constructor computes with floats.
\<close>

record float_ops =
  f_add :: "32 word \<Rightarrow> 32 word \<Rightarrow> 32 word"
  f_sub :: "32 word \<Rightarrow> 32 word \<Rightarrow> 32 word"
  f_mul :: "32 word \<Rightarrow> 32 word \<Rightarrow> 32 word"
  f_div :: "32 word \<Rightarrow> 32 word \<Rightarrow> 32 word"
  f_gt :: "32 word \<Rightarrow> 32 word \<Rightarrow> bool"
  f_exp :: "32 word \<Rightarrow> 32 word"
  f_log :: "32 word \<Rightarrow> 32 word"
  f_ceil :: "32 word \<Rightarrow> 32 word"
  f_floor :: "32 word \<Rightarrow> 32 word"
  f_of_int :: "int \<Rightarrow> 32 word"
  f_to_int :: "32 word \<Rightarrow> int"

definition ggml_compute_softplus_f32 :: "float_ops \<Rightarrow> 32 word \<Rightarrow> 32 word" where
  "ggml_compute_softplus_f32 fo input =
     (if f_gt fo input (f_of_int fo 20) then input
      else f_log fo (f_add fo (f_of_int fo 1) (f_exp fo input)))"

definition ggml_xielu ::
    "float_ops \<Rightarrow> heap \<Rightarrow> ptr \<Rightarrow> ptr \<Rightarrow> 32 word \<Rightarrow> 32 word \<Rightarrow> 32 word \<Rightarrow> 32 word \<Rightarrow> node_result" where
  "ggml_xielu fo h ctx a alpha_n alpha_p beta eps =
     mk_node (ggml_dup_tensor h ctx a)
       [ggml_set_op_params_i32 0 (enum_of_unary GGML_UNARY_OP_XIELU),
        ggml_set_op_params_f32 1 (f_add fo beta (ggml_compute_softplus_f32 fo alpha_n)),
        ggml_set_op_params_f32 2 (ggml_compute_softplus_f32 fo alpha_p),
        ggml_set_op_params_f32 3 beta,
        ggml_set_op_params_f32 4 eps,
        set_op GGML_OP_UNARY, set_src 0 a]"

definition ggml_silu_back :: "heap \<Rightarrow> ptr \<Rightarrow> ptr \<Rightarrow> ptr \<Rightarrow> node_result" where
  "ggml_silu_back h ctx a b =
     mk_node (ggml_dup_tensor h ctx a)
       [set_op GGML_OP_SILU_BACK, set_src 0 a, set_src 1 b]"

section \<open>Reductions and repetition\<close>

definition ggml_sum :: "heap \<Rightarrow> ptr \<Rightarrow> ptr \<Rightarrow> node_result" where
  "ggml_sum h ctx a =
     do {
     ta \<leftarrow> tget h a;
     mk_node (ggml_new_tensor_1d h ctx (t_type ta) 1) [set_op GGML_OP_SUM, set_src 0 a] }"

definition ggml_sum_rows :: "heap \<Rightarrow> ptr \<Rightarrow> ptr \<Rightarrow> node_result" where
  "ggml_sum_rows h ctx a =
     do {
     ta \<leftarrow> tget h a;
     let ne = [1, ne_at ta 1, ne_at ta 2, ne_at ta 3];
     mk_node (ggml_new_tensor h ctx (t_type ta) GGML_MAX_DIMS ne) [set_op GGML_OP_SUM_ROWS, set_src 0 a] }"

definition ggml_cumsum :: "heap \<Rightarrow> ptr \<Rightarrow> ptr \<Rightarrow> node_result" where
  "ggml_cumsum h ctx a =
     do {
     ta \<leftarrow> tget h a;
     gassert (t_type ta = GGML_TYPE_F32);
     mk_node (ggml_dup_tensor h ctx a) [set_op GGML_OP_CUMSUM, set_src 0 a] }"

definition ggml_mean :: "heap \<Rightarrow> ptr \<Rightarrow> ptr \<Rightarrow> node_result" where
  "ggml_mean h ctx a =
     do {
     ta \<leftarrow> tget h a;
     let ne = [1, ne_at ta 1, ne_at ta 2, ne_at ta 3];
     mk_node (ggml_new_tensor h ctx GGML_TYPE_F32 4 ne) [set_op GGML_OP_MEAN, set_src 0 a] }"

definition ggml_argmax :: "heap \<Rightarrow> ptr \<Rightarrow> ptr \<Rightarrow> node_result" where
  "ggml_argmax h ctx a =
     do {
     ta \<leftarrow> tget h a;
     gassert (ggml_is_matrix ta);
     gassert (ne_at ta 0 \<le> 2147483647);
     mk_node (ggml_new_tensor_1d h ctx GGML_TYPE_I32 (ne_at ta 1)) [set_op GGML_OP_ARGMAX, set_src 0 a] }"

definition ggml_count_equal :: "heap \<Rightarrow> ptr \<Rightarrow> ptr \<Rightarrow> ptr \<Rightarrow> node_result" where
  "ggml_count_equal h ctx a b =
     do {
     ta \<leftarrow> tget h a; tb \<leftarrow> tget h b;
     gassert (ggml_are_same_shape ta tb);
     mk_node (ggml_new_tensor_1d h ctx GGML_TYPE_I64 1)
       [set_op GGML_OP_COUNT_EQUAL, set_src 0 a, set_src 1 b] }"

definition ggml_repeat :: "heap \<Rightarrow> ptr \<Rightarrow> ptr \<Rightarrow> ptr \<Rightarrow> node_result" where
  "ggml_repeat h ctx a b =
     do {
     ta \<leftarrow> tget h a; tb \<leftarrow> tget h b;
     gassert (ggml_can_repeat ta tb);
     mk_node (ggml_new_tensor h ctx (t_type ta) GGML_MAX_DIMS (t_ne tb))
       [set_op GGML_OP_REPEAT, set_src 0 a] }"

definition ggml_repeat_4d :: "heap \<Rightarrow> ptr \<Rightarrow> ptr \<Rightarrow> int \<Rightarrow> int \<Rightarrow> int \<Rightarrow> int \<Rightarrow> node_result" where
  "ggml_repeat_4d h ctx a ne0 ne1 ne2 ne3 =
     do {
     ta \<leftarrow> tget h a;
     gassert (ggml_is_empty ta \<or>
       (ne0 smod ne_at ta 0 = 0 \<and> ne1 smod ne_at ta 1 = 0 \<and>
        ne2 smod ne_at ta 2 = 0 \<and> ne3 smod ne_at ta 3 = 0));
     mk_node (ggml_new_tensor_4d h ctx (t_type ta) ne0 ne1 ne2 ne3)
       [set_op GGML_OP_REPEAT, set_src 0 a] }"

definition ggml_repeat_back :: "heap \<Rightarrow> ptr \<Rightarrow> ptr \<Rightarrow> ptr \<Rightarrow> node_result" where
  "ggml_repeat_back h ctx a b =
     do {
     ta \<leftarrow> tget h a; tb \<leftarrow> tget h b;
     gassert (ggml_can_repeat tb ta);
     mk_node (ggml_new_tensor h ctx (t_type ta) GGML_MAX_DIMS (t_ne tb))
       [set_op GGML_OP_REPEAT_BACK, set_src 0 a] }"

text \<open>Along every dimension but dim the extents must agree; along dim they add up.\<close>

definition ggml_concat :: "heap \<Rightarrow> ptr \<Rightarrow> ptr \<Rightarrow> ptr \<Rightarrow> int \<Rightarrow> node_result" where
  "ggml_concat h ctx a b dim =
     do {
     gassert (0 \<le> dim \<and> dim < int GGML_MAX_DIMS);
     ta \<leftarrow> tget h a; tb \<leftarrow> tget h b;
     gassert (t_type ta = t_type tb);
     gassert (\<forall>d \<in> set [0..<GGML_MAX_DIMS]. int d \<noteq> dim \<longrightarrow> ne_at ta d = ne_at tb d);
     let ne = map (\<lambda>d. if int d = dim then i64 (ne_at ta d + ne_at tb d) else ne_at ta d) [0..<GGML_MAX_DIMS];
     mk_node (ggml_new_tensor h ctx (t_type ta) GGML_MAX_DIMS ne)
       [ggml_set_op_params_i32 0 dim, set_op GGML_OP_CONCAT, set_src 0 a, set_src 1 b] }"

section \<open>Gated linear units\<close>

text \<open>b may be NULL: then the one source holds both halves of every row.\<close>

definition ggml_glu_impl :: "heap \<Rightarrow> ptr \<Rightarrow> ptr \<Rightarrow> ptr \<Rightarrow> ggml_glu_op \<Rightarrow> bool \<Rightarrow> node_result" where
  "ggml_glu_impl h ctx a b op swapped =
     do {
     ta \<leftarrow> tget h a;
     gassert (ggml_is_contiguous_1 ta);
     (if b \<noteq> NULL
      then do { tb \<leftarrow> tget h b;
                gassert (ggml_is_contiguous_1 tb);
                gassert (ggml_are_same_shape ta tb);
                gassert (t_type ta = t_type tb) }
      else Some ());
     let ne = [ne_at ta 0 sdiv 2, ne_at ta 1, ne_at ta 2, ne_at ta 3];
     mk_node (ggml_new_tensor_impl h ctx (t_type ta) GGML_MAX_DIMS (if b \<noteq> NULL then t_ne ta else ne) NULL 0)
       [ggml_set_op_params_i32 0 (enum_of_glu op), ggml_set_op_params_i32 1 (if swapped then 1 else 0),
        set_op GGML_OP_GLU, set_src 0 a, set_src 1 b] }"

definition ggml_glu :: "heap \<Rightarrow> ptr \<Rightarrow> ptr \<Rightarrow> ggml_glu_op \<Rightarrow> bool \<Rightarrow> node_result" where
  "ggml_glu h ctx a op swapped =
     ggml_glu_impl h ctx a NULL op swapped"

definition ggml_glu_split :: "heap \<Rightarrow> ptr \<Rightarrow> ptr \<Rightarrow> ptr \<Rightarrow> ggml_glu_op \<Rightarrow> node_result" where
  "ggml_glu_split h ctx a b op =
     ggml_glu_impl h ctx a b op False"

definition ggml_reglu :: "heap \<Rightarrow> ptr \<Rightarrow> ptr \<Rightarrow> node_result" where
  "ggml_reglu h ctx a =
     ggml_glu_impl h ctx a NULL GGML_GLU_OP_REGLU False"

definition ggml_reglu_swapped :: "heap \<Rightarrow> ptr \<Rightarrow> ptr \<Rightarrow> node_result" where
  "ggml_reglu_swapped h ctx a =
     ggml_glu_impl h ctx a NULL GGML_GLU_OP_REGLU True"

definition ggml_reglu_split :: "heap \<Rightarrow> ptr \<Rightarrow> ptr \<Rightarrow> ptr \<Rightarrow> node_result" where
  "ggml_reglu_split h ctx a b =
     ggml_glu_impl h ctx a b GGML_GLU_OP_REGLU False"

definition ggml_geglu :: "heap \<Rightarrow> ptr \<Rightarrow> ptr \<Rightarrow> node_result" where
  "ggml_geglu h ctx a =
     ggml_glu_impl h ctx a NULL GGML_GLU_OP_GEGLU False"

definition ggml_geglu_swapped :: "heap \<Rightarrow> ptr \<Rightarrow> ptr \<Rightarrow> node_result" where
  "ggml_geglu_swapped h ctx a =
     ggml_glu_impl h ctx a NULL GGML_GLU_OP_GEGLU True"

definition ggml_geglu_split :: "heap \<Rightarrow> ptr \<Rightarrow> ptr \<Rightarrow> ptr \<Rightarrow> node_result" where
  "ggml_geglu_split h ctx a b =
     ggml_glu_impl h ctx a b GGML_GLU_OP_GEGLU False"

definition ggml_swiglu :: "heap \<Rightarrow> ptr \<Rightarrow> ptr \<Rightarrow> node_result" where
  "ggml_swiglu h ctx a =
     ggml_glu_impl h ctx a NULL GGML_GLU_OP_SWIGLU False"

definition ggml_swiglu_swapped :: "heap \<Rightarrow> ptr \<Rightarrow> ptr \<Rightarrow> node_result" where
  "ggml_swiglu_swapped h ctx a =
     ggml_glu_impl h ctx a NULL GGML_GLU_OP_SWIGLU True"

definition ggml_swiglu_split :: "heap \<Rightarrow> ptr \<Rightarrow> ptr \<Rightarrow> ptr \<Rightarrow> node_result" where
  "ggml_swiglu_split h ctx a b =
     ggml_glu_impl h ctx a b GGML_GLU_OP_SWIGLU False"

definition ggml_geglu_erf :: "heap \<Rightarrow> ptr \<Rightarrow> ptr \<Rightarrow> node_result" where
  "ggml_geglu_erf h ctx a =
     ggml_glu_impl h ctx a NULL GGML_GLU_OP_GEGLU_ERF False"

definition ggml_geglu_erf_swapped :: "heap \<Rightarrow> ptr \<Rightarrow> ptr \<Rightarrow> node_result" where
  "ggml_geglu_erf_swapped h ctx a =
     ggml_glu_impl h ctx a NULL GGML_GLU_OP_GEGLU_ERF True"

definition ggml_geglu_erf_split :: "heap \<Rightarrow> ptr \<Rightarrow> ptr \<Rightarrow> ptr \<Rightarrow> node_result" where
  "ggml_geglu_erf_split h ctx a b =
     ggml_glu_impl h ctx a b GGML_GLU_OP_GEGLU_ERF False"

definition ggml_geglu_quick :: "heap \<Rightarrow> ptr \<Rightarrow> ptr \<Rightarrow> node_result" where
  "ggml_geglu_quick h ctx a =
     ggml_glu_impl h ctx a NULL GGML_GLU_OP_GEGLU_QUICK False"

definition ggml_geglu_quick_swapped :: "heap \<Rightarrow> ptr \<Rightarrow> ptr \<Rightarrow> node_result" where
  "ggml_geglu_quick_swapped h ctx a =
     ggml_glu_impl h ctx a NULL GGML_GLU_OP_GEGLU_QUICK True"

definition ggml_geglu_quick_split :: "heap \<Rightarrow> ptr \<Rightarrow> ptr \<Rightarrow> ptr \<Rightarrow> node_result" where
  "ggml_geglu_quick_split h ctx a b =
     ggml_glu_impl h ctx a b GGML_GLU_OP_GEGLU_QUICK False"

definition ggml_swiglu_oai :: "heap \<Rightarrow> ptr \<Rightarrow> ptr \<Rightarrow> ptr \<Rightarrow> 32 word \<Rightarrow> 32 word \<Rightarrow> node_result" where
  "ggml_swiglu_oai h ctx a b alpha limit =
     mk_node (ggml_glu_impl h ctx a b GGML_GLU_OP_SWIGLU_OAI False)
       [ggml_set_op_params_f32 2 alpha, ggml_set_op_params_f32 3 limit]"

section \<open>Normalisation\<close>

definition ggml_norm_impl :: "heap \<Rightarrow> ptr \<Rightarrow> ptr \<Rightarrow> 32 word \<Rightarrow> bool \<Rightarrow> node_result" where
  "ggml_norm_impl h ctx a eps inplace =
     mk_node (if inplace then ggml_view_tensor h ctx a else ggml_dup_tensor h ctx a)
       [ggml_set_op_params [eps], set_op GGML_OP_NORM, set_src 0 a]"

definition ggml_norm :: "heap \<Rightarrow> ptr \<Rightarrow> ptr \<Rightarrow> 32 word \<Rightarrow> node_result" where
  "ggml_norm h ctx a eps =
     ggml_norm_impl h ctx a eps False"

definition ggml_norm_inplace :: "heap \<Rightarrow> ptr \<Rightarrow> ptr \<Rightarrow> 32 word \<Rightarrow> node_result" where
  "ggml_norm_inplace h ctx a eps =
     ggml_norm_impl h ctx a eps True"

definition ggml_rms_norm_impl :: "heap \<Rightarrow> ptr \<Rightarrow> ptr \<Rightarrow> 32 word \<Rightarrow> bool \<Rightarrow> node_result" where
  "ggml_rms_norm_impl h ctx a eps inplace =
     mk_node (if inplace then ggml_view_tensor h ctx a else ggml_dup_tensor h ctx a)
       [ggml_set_op_params [eps], set_op GGML_OP_RMS_NORM, set_src 0 a]"

definition ggml_rms_norm :: "heap \<Rightarrow> ptr \<Rightarrow> ptr \<Rightarrow> 32 word \<Rightarrow> node_result" where
  "ggml_rms_norm h ctx a eps =
     ggml_rms_norm_impl h ctx a eps False"

definition ggml_rms_norm_inplace :: "heap \<Rightarrow> ptr \<Rightarrow> ptr \<Rightarrow> 32 word \<Rightarrow> node_result" where
  "ggml_rms_norm_inplace h ctx a eps =
     ggml_rms_norm_impl h ctx a eps True"

definition ggml_rms_norm_back :: "heap \<Rightarrow> ptr \<Rightarrow> ptr \<Rightarrow> ptr \<Rightarrow> 32 word \<Rightarrow> node_result" where
  "ggml_rms_norm_back h ctx a b eps =
     mk_node (ggml_dup_tensor h ctx a)
       [ggml_set_op_params [eps], set_op GGML_OP_RMS_NORM_BACK, set_src 0 a, set_src 1 b]"

definition ggml_group_norm_impl :: "heap \<Rightarrow> ptr \<Rightarrow> ptr \<Rightarrow> int \<Rightarrow> 32 word \<Rightarrow> bool \<Rightarrow> node_result" where
  "ggml_group_norm_impl h ctx a n_groups eps inplace =
     mk_node (if inplace then ggml_view_tensor h ctx a else ggml_dup_tensor h ctx a)
       [ggml_set_op_params_i32 0 n_groups, ggml_set_op_params_f32 1 eps, set_op GGML_OP_GROUP_NORM, set_src 0 a]"

definition ggml_group_norm :: "heap \<Rightarrow> ptr \<Rightarrow> ptr \<Rightarrow> int \<Rightarrow> 32 word \<Rightarrow> node_result" where
  "ggml_group_norm h ctx a n_groups eps =
     ggml_group_norm_impl h ctx a n_groups eps False"

definition ggml_group_norm_inplace :: "heap \<Rightarrow> ptr \<Rightarrow> ptr \<Rightarrow> int \<Rightarrow> 32 word \<Rightarrow> node_result" where
  "ggml_group_norm_inplace h ctx a n_groups eps =
     ggml_group_norm_impl h ctx a n_groups eps True"

definition ggml_l2_norm_impl :: "heap \<Rightarrow> ptr \<Rightarrow> ptr \<Rightarrow> 32 word \<Rightarrow> bool \<Rightarrow> node_result" where
  "ggml_l2_norm_impl h ctx a eps inplace =
     mk_node (if inplace then ggml_view_tensor h ctx a else ggml_dup_tensor h ctx a)
       [ggml_set_op_params_f32 0 eps, set_op GGML_OP_L2_NORM, set_src 0 a]"

definition ggml_l2_norm :: "heap \<Rightarrow> ptr \<Rightarrow> ptr \<Rightarrow> 32 word \<Rightarrow> node_result" where
  "ggml_l2_norm h ctx a eps =
     ggml_l2_norm_impl h ctx a eps False"

definition ggml_l2_norm_inplace :: "heap \<Rightarrow> ptr \<Rightarrow> ptr \<Rightarrow> 32 word \<Rightarrow> node_result" where
  "ggml_l2_norm_inplace h ctx a eps =
     ggml_l2_norm_impl h ctx a eps True"

section \<open>Every constructor adds one well-formed tensor\<close>

lemma basic_impl_a_creates [creates_intros]:
  assumes "heap_inv h" "live h a"
  shows "creates h (ggml_dup_impl h ctx a inplace) (\<lambda>_. True)"
    "creates h (ggml_sqr_impl h ctx a inplace) (\<lambda>_. True)"
    "creates h (ggml_sqrt_impl h ctx a inplace) (\<lambda>_. True)"
    "creates h (ggml_log_impl h ctx a inplace) (\<lambda>_. True)"
    "creates h (ggml_sin_impl h ctx a inplace) (\<lambda>_. True)"
    "creates h (ggml_cos_impl h ctx a inplace) (\<lambda>_. True)"
    "creates h (ggml_unary_impl h ctx a op inplace) (\<lambda>_. True)"
    "creates h (ggml_unary h ctx a op) (\<lambda>_. True)"
    "creates h (ggml_unary_inplace h ctx a op) (\<lambda>_. True)"
    "creates h (ggml_norm_impl h ctx a eps inplace) (\<lambda>_. True)"
    "creates h (ggml_rms_norm_impl h ctx a eps inplace) (\<lambda>_. True)"
    "creates h (ggml_group_norm_impl h ctx a n_groups eps inplace) (\<lambda>_. True)"
    "creates h (ggml_l2_norm_impl h ctx a eps inplace) (\<lambda>_. True)"
  unfolding ggml_dup_impl_def
    ggml_sqr_impl_def
    ggml_sqrt_impl_def
    ggml_log_impl_def
    ggml_sin_impl_def
    ggml_cos_impl_def
    ggml_unary_impl_def
    ggml_unary_def
    ggml_unary_inplace_def
    ggml_norm_impl_def
    ggml_rms_norm_impl_def
    ggml_group_norm_impl_def
    ggml_l2_norm_impl_def
  using assms
  by (intro creates_bind creates_let creates_if mk_node_any creates_intros; simp add: node_simps GGML_N_OP_PARAMS_def)+

lemma basic_impl_a_b_creates [creates_intros]:
  assumes "heap_inv h" "live h a" "live h b"
  shows "creates h (ggml_add_impl h ctx a b inplace) (\<lambda>_. True)"
    "creates h (ggml_add1_impl h ctx a b inplace) (\<lambda>_. True)"
    "creates h (ggml_acc_impl h ctx a b nb1 nb2 nb3 offset inplace) (\<lambda>_. True)"
    "creates h (ggml_sub_impl h ctx a b inplace) (\<lambda>_. True)"
    "creates h (ggml_mul_impl h ctx a b inplace) (\<lambda>_. True)"
    "creates h (ggml_div_impl h ctx a b inplace) (\<lambda>_. True)"
    "creates h (ggml_glu_impl h ctx a b op swapped) (\<lambda>_. True)"
  unfolding ggml_add_impl_def
    ggml_add1_impl_def
    ggml_acc_impl_def
    ggml_sub_impl_def
    ggml_mul_impl_def
    ggml_div_impl_def
    ggml_glu_impl_def
  using assms
  by (intro creates_bind creates_let creates_if mk_node_any creates_intros; simp add: node_simps GGML_N_OP_PARAMS_def)+

lemma basic_a_creates [creates_intros]:
  assumes "heap_inv h" "live h a"
  shows "creates h (ggml_dup h ctx a) (\<lambda>_. True)"
    "creates h (ggml_dup_inplace h ctx a) (\<lambda>_. True)"
    "creates h (ggml_sqr h ctx a) (\<lambda>_. True)"
    "creates h (ggml_sqr_inplace h ctx a) (\<lambda>_. True)"
    "creates h (ggml_sqrt h ctx a) (\<lambda>_. True)"
    "creates h (ggml_sqrt_inplace h ctx a) (\<lambda>_. True)"
    "creates h (ggml_log h ctx a) (\<lambda>_. True)"
    "creates h (ggml_log_inplace h ctx a) (\<lambda>_. True)"
    "creates h (ggml_sin h ctx a) (\<lambda>_. True)"
    "creates h (ggml_sin_inplace h ctx a) (\<lambda>_. True)"
    "creates h (ggml_cos h ctx a) (\<lambda>_. True)"
    "creates h (ggml_cos_inplace h ctx a) (\<lambda>_. True)"
    "creates h (ggml_abs h ctx a) (\<lambda>_. True)"
    "creates h (ggml_abs_inplace h ctx a) (\<lambda>_. True)"
    "creates h (ggml_sgn h ctx a) (\<lambda>_. True)"
    "creates h (ggml_sgn_inplace h ctx a) (\<lambda>_. True)"
    "creates h (ggml_neg h ctx a) (\<lambda>_. True)"
    "creates h (ggml_neg_inplace h ctx a) (\<lambda>_. True)"
    "creates h (ggml_step h ctx a) (\<lambda>_. True)"
    "creates h (ggml_step_inplace h ctx a) (\<lambda>_. True)"
    "creates h (ggml_tanh h ctx a) (\<lambda>_. True)"
    "creates h (ggml_tanh_inplace h ctx a) (\<lambda>_. True)"
    "creates h (ggml_elu h ctx a) (\<lambda>_. True)"
    "creates h (ggml_elu_inplace h ctx a) (\<lambda>_. True)"
    "creates h (ggml_relu h ctx a) (\<lambda>_. True)"
    "creates h (ggml_relu_inplace h ctx a) (\<lambda>_. True)"
    "creates h (ggml_sigmoid h ctx a) (\<lambda>_. True)"
    "creates h (ggml_sigmoid_inplace h ctx a) (\<lambda>_. True)"
    "creates h (ggml_gelu h ctx a) (\<lambda>_. True)"
    "creates h (ggml_gelu_inplace h ctx a) (\<lambda>_. True)"
    "creates h (ggml_gelu_erf h ctx a) (\<lambda>_. True)"
    "creates h (ggml_gelu_erf_inplace h ctx a) (\<lambda>_. True)"
    "creates h (ggml_gelu_quick h ctx a) (\<lambda>_. True)"
    "creates h (ggml_gelu_quick_inplace h ctx a) (\<lambda>_. True)"
    "creates h (ggml_silu h ctx a) (\<lambda>_. True)"
    "creates h (ggml_silu_inplace h ctx a) (\<lambda>_. True)"
    "creates h (ggml_exp h ctx a) (\<lambda>_. True)"
    "creates h (ggml_exp_inplace h ctx a) (\<lambda>_. True)"
    "creates h (ggml_expm1 h ctx a) (\<lambda>_. True)"
    "creates h (ggml_expm1_inplace h ctx a) (\<lambda>_. True)"
    "creates h (ggml_softplus h ctx a) (\<lambda>_. True)"
    "creates h (ggml_softplus_inplace h ctx a) (\<lambda>_. True)"
    "creates h (ggml_floor h ctx a) (\<lambda>_. True)"
    "creates h (ggml_floor_inplace h ctx a) (\<lambda>_. True)"
    "creates h (ggml_ceil h ctx a) (\<lambda>_. True)"
    "creates h (ggml_ceil_inplace h ctx a) (\<lambda>_. True)"
    "creates h (ggml_round h ctx a) (\<lambda>_. True)"
    "creates h (ggml_round_inplace h ctx a) (\<lambda>_. True)"
    "creates h (ggml_trunc h ctx a) (\<lambda>_. True)"
    "creates h (ggml_trunc_inplace h ctx a) (\<lambda>_. True)"
    "creates h (ggml_hardswish h ctx a) (\<lambda>_. True)"
    "creates h (ggml_hardsigmoid h ctx a) (\<lambda>_. True)"
    "creates h (ggml_leaky_relu h ctx a negative_slope inplace) (\<lambda>_. True)"
    "creates h (ggml_sum h ctx a) (\<lambda>_. True)"
    "creates h (ggml_sum_rows h ctx a) (\<lambda>_. True)"
    "creates h (ggml_cumsum h ctx a) (\<lambda>_. True)"
    "creates h (ggml_mean h ctx a) (\<lambda>_. True)"
    "creates h (ggml_argmax h ctx a) (\<lambda>_. True)"
    "creates h (ggml_repeat_4d h ctx a ne0 ne1 ne2 ne3) (\<lambda>_. True)"
    "creates h (ggml_glu h ctx a op swapped) (\<lambda>_. True)"
    "creates h (ggml_reglu h ctx a) (\<lambda>_. True)"
    "creates h (ggml_reglu_swapped h ctx a) (\<lambda>_. True)"
    "creates h (ggml_geglu h ctx a) (\<lambda>_. True)"
    "creates h (ggml_geglu_swapped h ctx a) (\<lambda>_. True)"
    "creates h (ggml_swiglu h ctx a) (\<lambda>_. True)"
    "creates h (ggml_swiglu_swapped h ctx a) (\<lambda>_. True)"
    "creates h (ggml_geglu_erf h ctx a) (\<lambda>_. True)"
    "creates h (ggml_geglu_erf_swapped h ctx a) (\<lambda>_. True)"
    "creates h (ggml_geglu_quick h ctx a) (\<lambda>_. True)"
    "creates h (ggml_geglu_quick_swapped h ctx a) (\<lambda>_. True)"
    "creates h (ggml_norm h ctx a eps) (\<lambda>_. True)"
    "creates h (ggml_norm_inplace h ctx a eps) (\<lambda>_. True)"
    "creates h (ggml_rms_norm h ctx a eps) (\<lambda>_. True)"
    "creates h (ggml_rms_norm_inplace h ctx a eps) (\<lambda>_. True)"
    "creates h (ggml_group_norm h ctx a n_groups eps) (\<lambda>_. True)"
    "creates h (ggml_group_norm_inplace h ctx a n_groups eps) (\<lambda>_. True)"
    "creates h (ggml_l2_norm h ctx a eps) (\<lambda>_. True)"
    "creates h (ggml_l2_norm_inplace h ctx a eps) (\<lambda>_. True)"
  unfolding ggml_dup_def
    ggml_dup_inplace_def
    ggml_sqr_def
    ggml_sqr_inplace_def
    ggml_sqrt_def
    ggml_sqrt_inplace_def
    ggml_log_def
    ggml_log_inplace_def
    ggml_sin_def
    ggml_sin_inplace_def
    ggml_cos_def
    ggml_cos_inplace_def
    ggml_abs_def
    ggml_abs_inplace_def
    ggml_sgn_def
    ggml_sgn_inplace_def
    ggml_neg_def
    ggml_neg_inplace_def
    ggml_step_def
    ggml_step_inplace_def
    ggml_tanh_def
    ggml_tanh_inplace_def
    ggml_elu_def
    ggml_elu_inplace_def
    ggml_relu_def
    ggml_relu_inplace_def
    ggml_sigmoid_def
    ggml_sigmoid_inplace_def
    ggml_gelu_def
    ggml_gelu_inplace_def
    ggml_gelu_erf_def
    ggml_gelu_erf_inplace_def
    ggml_gelu_quick_def
    ggml_gelu_quick_inplace_def
    ggml_silu_def
    ggml_silu_inplace_def
    ggml_exp_def
    ggml_exp_inplace_def
    ggml_expm1_def
    ggml_expm1_inplace_def
    ggml_softplus_def
    ggml_softplus_inplace_def
    ggml_floor_def
    ggml_floor_inplace_def
    ggml_ceil_def
    ggml_ceil_inplace_def
    ggml_round_def
    ggml_round_inplace_def
    ggml_trunc_def
    ggml_trunc_inplace_def
    ggml_hardswish_def
    ggml_hardsigmoid_def
    ggml_leaky_relu_def
    ggml_sum_def
    ggml_sum_rows_def
    ggml_cumsum_def
    ggml_mean_def
    ggml_argmax_def
    ggml_repeat_4d_def
    ggml_glu_def
    ggml_reglu_def
    ggml_reglu_swapped_def
    ggml_geglu_def
    ggml_geglu_swapped_def
    ggml_swiglu_def
    ggml_swiglu_swapped_def
    ggml_geglu_erf_def
    ggml_geglu_erf_swapped_def
    ggml_geglu_quick_def
    ggml_geglu_quick_swapped_def
    ggml_norm_def
    ggml_norm_inplace_def
    ggml_rms_norm_def
    ggml_rms_norm_inplace_def
    ggml_group_norm_def
    ggml_group_norm_inplace_def
    ggml_l2_norm_def
    ggml_l2_norm_inplace_def
  using assms
  by (intro creates_bind creates_let creates_if mk_node_any creates_intros; simp add: node_simps GGML_N_OP_PARAMS_def)+

lemma basic_a_b_creates [creates_intros]:
  assumes "heap_inv h" "live h a" "live h b"
  shows "creates h (ggml_add h ctx a b) (\<lambda>_. True)"
    "creates h (ggml_add_inplace h ctx a b) (\<lambda>_. True)"
    "creates h (ggml_add_cast h ctx a b type) (\<lambda>_. True)"
    "creates h (ggml_add1 h ctx a b) (\<lambda>_. True)"
    "creates h (ggml_add1_inplace h ctx a b) (\<lambda>_. True)"
    "creates h (ggml_acc h ctx a b nb1 nb2 nb3 offset) (\<lambda>_. True)"
    "creates h (ggml_acc_inplace h ctx a b nb1 nb2 nb3 offset) (\<lambda>_. True)"
    "creates h (ggml_sub h ctx a b) (\<lambda>_. True)"
    "creates h (ggml_sub_inplace h ctx a b) (\<lambda>_. True)"
    "creates h (ggml_mul h ctx a b) (\<lambda>_. True)"
    "creates h (ggml_mul_inplace h ctx a b) (\<lambda>_. True)"
    "creates h (ggml_div h ctx a b) (\<lambda>_. True)"
    "creates h (ggml_div_inplace h ctx a b) (\<lambda>_. True)"
    "creates h (ggml_silu_back h ctx a b) (\<lambda>_. True)"
    "creates h (ggml_count_equal h ctx a b) (\<lambda>_. True)"
    "creates h (ggml_repeat h ctx a b) (\<lambda>_. True)"
    "creates h (ggml_repeat_back h ctx a b) (\<lambda>_. True)"
    "creates h (ggml_concat h ctx a b dim) (\<lambda>_. True)"
    "creates h (ggml_glu_split h ctx a b op) (\<lambda>_. True)"
    "creates h (ggml_reglu_split h ctx a b) (\<lambda>_. True)"
    "creates h (ggml_geglu_split h ctx a b) (\<lambda>_. True)"
    "creates h (ggml_swiglu_split h ctx a b) (\<lambda>_. True)"
    "creates h (ggml_geglu_erf_split h ctx a b) (\<lambda>_. True)"
    "creates h (ggml_geglu_quick_split h ctx a b) (\<lambda>_. True)"
    "creates h (ggml_swiglu_oai h ctx a b alpha limit) (\<lambda>_. True)"
    "creates h (ggml_rms_norm_back h ctx a b eps) (\<lambda>_. True)"
  unfolding ggml_add_def
    ggml_add_inplace_def
    ggml_add_cast_def
    ggml_add1_def
    ggml_add1_inplace_def
    ggml_acc_def
    ggml_acc_inplace_def
    ggml_sub_def
    ggml_sub_inplace_def
    ggml_mul_def
    ggml_mul_inplace_def
    ggml_div_def
    ggml_div_inplace_def
    ggml_silu_back_def
    ggml_count_equal_def
    ggml_repeat_def
    ggml_repeat_back_def
    ggml_concat_def
    ggml_glu_split_def
    ggml_reglu_split_def
    ggml_geglu_split_def
    ggml_swiglu_split_def
    ggml_geglu_erf_split_def
    ggml_geglu_quick_split_def
    ggml_swiglu_oai_def
    ggml_rms_norm_back_def
  using assms
  by (intro creates_bind creates_let creates_if mk_node_any creates_intros; simp add: node_simps GGML_N_OP_PARAMS_def)+

lemma basic_a_b_ids_creates [creates_intros]:
  assumes "heap_inv h" "live h a" "live h b" "live h ids"
  shows "creates h (ggml_add_id h ctx a b ids) (\<lambda>_. True)"
  unfolding ggml_add_id_def
  using assms
  by (intro creates_bind creates_let creates_if mk_node_any creates_intros; simp add: node_simps GGML_N_OP_PARAMS_def)+

lemma ggml_xielu_creates [creates_intros]:
  assumes "heap_inv h" "live h a"
  shows "creates h (ggml_xielu fo h ctx a alpha_n alpha_p beta eps) (\<lambda>_. True)"
  unfolding ggml_xielu_def using assms
  by (intro creates_bind creates_let creates_if mk_node_any creates_intros; simp add: node_simps GGML_N_OP_PARAMS_def)+

end
