(* ===== verification/OpsShape.thy ===== *)
theory OpsShape
  imports OpsBasic
begin

text \<open>
  The constructors of ggml.c for matrix products, scaling, setting and copying, for the views that
  reinterpret the data of a tensor (reshape, view, permute, transpose), for rows, masks, soft-max
  and rotary embeddings.  A division by a zero extent ends the program: None.
\<close>

section \<open>Matrix products\<close>

definition ggml_can_mul_mat :: "ggml_tensor \<Rightarrow> ggml_tensor \<Rightarrow> bool option" where
  "ggml_can_mul_mat t0 t1 =
     (if ne_at t0 0 \<noteq> ne_at t1 0 then Some False
      else do {
        m2 \<leftarrow> cmod (ne_at t1 2) (ne_at t0 2);
        if m2 \<noteq> 0 then Some False
        else do { m3 \<leftarrow> cmod (ne_at t1 3) (ne_at t0 3); Some (m3 = 0) } })"

definition ggml_mul_mat :: "heap \<Rightarrow> ptr \<Rightarrow> ptr \<Rightarrow> ptr \<Rightarrow> node_result" where
  "ggml_mul_mat h ctx a b =
     do {
     ta \<leftarrow> tget h a; tb \<leftarrow> tget h b;
     can \<leftarrow> ggml_can_mul_mat ta tb;
     gassert can;
     gassert (\<not> ggml_is_transposed ta);
     let ne = [ne_at ta 1, ne_at tb 1, ne_at tb 2, ne_at tb 3];
     mk_node (ggml_new_tensor h ctx GGML_TYPE_F32 4 ne)
       [set_op GGML_OP_MUL_MAT, set_src 0 a, set_src 1 b] }"

datatype ggml_prec = GGML_PREC_DEFAULT | GGML_PREC_F32

primrec enum_of_prec :: "ggml_prec \<Rightarrow> int" where
    "enum_of_prec GGML_PREC_DEFAULT = 0"
  | "enum_of_prec GGML_PREC_F32 = 10"

definition ggml_mul_mat_set_prec :: "heap \<Rightarrow> ptr \<Rightarrow> ggml_prec \<Rightarrow> heap option" where
  "ggml_mul_mat_set_prec h a prec = do {
     ta \<leftarrow> tget h a;
     gassert (t_op ta = GGML_OP_MUL_MAT);
     tset h a (ggml_set_op_params_i32 0 (enum_of_prec prec)) }"

definition ggml_mul_mat_id :: "heap \<Rightarrow> ptr \<Rightarrow> ptr \<Rightarrow> ptr \<Rightarrow> ptr \<Rightarrow> node_result" where
  "ggml_mul_mat_id h ctx as b ids =
     do {
     ta \<leftarrow> tget h as; tb \<leftarrow> tget h b; ti \<leftarrow> tget h ids;
     gassert (\<not> ggml_is_transposed ta);
     gassert (t_type ti = GGML_TYPE_I32);
     gassert (ne_at ta 3 = 1);
     gassert (ne_at tb 3 = 1);
     gassert (ne_at ti 2 = 1 \<and> ne_at ti 3 = 1);
     gassert (ne_at ti 1 = ne_at tb 2);
     gassert (ne_at ta 0 = ne_at tb 0);
     m \<leftarrow> cmod (ne_at ti 0) (ne_at tb 1);
     gassert (m = 0);
     let ne = [ne_at ta 1, ne_at ti 0, ne_at tb 2, 1];
     mk_node (ggml_new_tensor h ctx GGML_TYPE_F32 4 ne)
       [set_op GGML_OP_MUL_MAT_ID, set_src 0 as, set_src 1 b, set_src 2 ids] }"

definition ggml_can_out_prod :: "ggml_tensor \<Rightarrow> ggml_tensor \<Rightarrow> bool option" where
  "ggml_can_out_prod t0 t1 =
     (if ne_at t0 1 \<noteq> ne_at t1 1 then Some False
      else do {
        m2 \<leftarrow> cmod (ne_at t1 2) (ne_at t0 2);
        if m2 \<noteq> 0 then Some False
        else do { m3 \<leftarrow> cmod (ne_at t1 3) (ne_at t0 3); Some (m3 = 0) } })"

definition ggml_out_prod :: "heap \<Rightarrow> ptr \<Rightarrow> ptr \<Rightarrow> ptr \<Rightarrow> node_result" where
  "ggml_out_prod h ctx a b =
     do {
     ta \<leftarrow> tget h a; tb \<leftarrow> tget h b;
     can \<leftarrow> ggml_can_out_prod ta tb;
     gassert can;
     gassert (\<not> ggml_is_transposed ta);
     let ne = [ne_at ta 0, ne_at tb 0, ne_at tb 2, ne_at tb 3];
     mk_node (ggml_new_tensor h ctx GGML_TYPE_F32 4 ne)
       [set_op GGML_OP_OUT_PROD, set_src 0 a, set_src 1 b] }"

section \<open>Scaling, setting and copying\<close>

definition ggml_scale_impl :: "heap \<Rightarrow> ptr \<Rightarrow> ptr \<Rightarrow> 32 word \<Rightarrow> 32 word \<Rightarrow> bool \<Rightarrow> node_result" where
  "ggml_scale_impl h ctx a s b inplace =
     do {
     ta \<leftarrow> tget h a;
     gassert (ggml_is_padded_1d ta);
     mk_node (if inplace then ggml_view_tensor h ctx a else ggml_dup_tensor h ctx a)
       [ggml_set_op_params [s, b], set_op GGML_OP_SCALE, set_src 0 a] }"

definition ggml_scale :: "heap \<Rightarrow> ptr \<Rightarrow> ptr \<Rightarrow> 32 word \<Rightarrow> node_result" where
  "ggml_scale h ctx a s =
     ggml_scale_impl h ctx a s 0 False"

definition ggml_scale_inplace :: "heap \<Rightarrow> ptr \<Rightarrow> ptr \<Rightarrow> 32 word \<Rightarrow> node_result" where
  "ggml_scale_inplace h ctx a s =
     ggml_scale_impl h ctx a s 0 True"

definition ggml_scale_bias :: "heap \<Rightarrow> ptr \<Rightarrow> ptr \<Rightarrow> 32 word \<Rightarrow> 32 word \<Rightarrow> node_result" where
  "ggml_scale_bias h ctx a s b =
     ggml_scale_impl h ctx a s b False"

definition ggml_scale_bias_inplace :: "heap \<Rightarrow> ptr \<Rightarrow> ptr \<Rightarrow> 32 word \<Rightarrow> 32 word \<Rightarrow> node_result" where
  "ggml_scale_bias_inplace h ctx a s b =
     ggml_scale_impl h ctx a s b True"

definition ggml_set_impl :: "heap \<Rightarrow> ptr \<Rightarrow> ptr \<Rightarrow> ptr \<Rightarrow> int \<Rightarrow> int \<Rightarrow> int \<Rightarrow> int \<Rightarrow> bool \<Rightarrow> node_result" where
  "ggml_set_impl h ctx a b nb1 nb2 nb3 offset inplace =
     do {
     ta \<leftarrow> tget h a; tb \<leftarrow> tget h b;
     gassert (ggml_nelements ta \<ge> ggml_nelements tb);
     gassert (offset < 2 ^ 30);
     mk_node (if inplace then ggml_view_tensor h ctx a else ggml_dup_tensor h ctx a)
       [ggml_set_op_params [word_of_int nb1, word_of_int nb2, word_of_int nb3, word_of_int offset,
                            if inplace then 1 else 0],
        set_op GGML_OP_SET, set_src 0 a, set_src 1 b] }"

definition ggml_set :: "heap \<Rightarrow> ptr \<Rightarrow> ptr \<Rightarrow> ptr \<Rightarrow> int \<Rightarrow> int \<Rightarrow> int \<Rightarrow> int \<Rightarrow> node_result" where
  "ggml_set h ctx a b nb1 nb2 nb3 offset =
     ggml_set_impl h ctx a b nb1 nb2 nb3 offset False"

definition ggml_set_inplace :: "heap \<Rightarrow> ptr \<Rightarrow> ptr \<Rightarrow> ptr \<Rightarrow> int \<Rightarrow> int \<Rightarrow> int \<Rightarrow> int \<Rightarrow> node_result" where
  "ggml_set_inplace h ctx a b nb1 nb2 nb3 offset =
     ggml_set_impl h ctx a b nb1 nb2 nb3 offset True"

definition ggml_set_1d :: "heap \<Rightarrow> ptr \<Rightarrow> ptr \<Rightarrow> ptr \<Rightarrow> int \<Rightarrow> node_result" where
  "ggml_set_1d h ctx a b offset =
     do { ta \<leftarrow> tget h a; ggml_set_impl h ctx a b (nb_at ta 1) (nb_at ta 2) (nb_at ta 3) offset False }"

definition ggml_set_1d_inplace :: "heap \<Rightarrow> ptr \<Rightarrow> ptr \<Rightarrow> ptr \<Rightarrow> int \<Rightarrow> node_result" where
  "ggml_set_1d_inplace h ctx a b offset =
     do { ta \<leftarrow> tget h a; ggml_set_impl h ctx a b (nb_at ta 1) (nb_at ta 2) (nb_at ta 3) offset True }"

definition ggml_set_2d :: "heap \<Rightarrow> ptr \<Rightarrow> ptr \<Rightarrow> ptr \<Rightarrow> int \<Rightarrow> int \<Rightarrow> node_result" where
  "ggml_set_2d h ctx a b nb1 offset =
     do { ta \<leftarrow> tget h a; ggml_set_impl h ctx a b nb1 (nb_at ta 2) (nb_at ta 3) offset False }"

definition ggml_set_2d_inplace :: "heap \<Rightarrow> ptr \<Rightarrow> ptr \<Rightarrow> ptr \<Rightarrow> int \<Rightarrow> int \<Rightarrow> node_result" where
  "ggml_set_2d_inplace h ctx a b nb1 offset =
     do { ta \<leftarrow> tget h a; ggml_set_impl h ctx a b nb1 (nb_at ta 2) (nb_at ta 3) offset True }"

text \<open>A copy is a view of its destination; the destination is also a source.\<close>

definition ggml_cpy_impl :: "heap \<Rightarrow> ptr \<Rightarrow> ptr \<Rightarrow> ptr \<Rightarrow> node_result" where
  "ggml_cpy_impl h ctx a b =
     do {
     ta \<leftarrow> tget h a; tb \<leftarrow> tget h b;
     gassert (ggml_nelements ta = ggml_nelements tb);
     mk_node (ggml_view_tensor h ctx b)
       [if length (t_name tb) > 0
        then ggml_format_name (t_name tb @ '' (copy of '' @ t_name ta @ '')'')
        else ggml_format_name (t_name ta @ '' (copy)''),
        set_op GGML_OP_CPY, set_src 0 a, set_src 1 b] }"

definition ggml_cpy :: "heap \<Rightarrow> ptr \<Rightarrow> ptr \<Rightarrow> ptr \<Rightarrow> node_result" where
  "ggml_cpy h ctx a b =
     ggml_cpy_impl h ctx a b"

text \<open>The result of ggml_cast is its own second source.\<close>

definition ggml_cast :: "heap \<Rightarrow> ptr \<Rightarrow> ptr \<Rightarrow> ggml_type \<Rightarrow> node_result" where
  "ggml_cast h ctx a type =
     do {
     ta \<leftarrow> tget h a;
     (result, h) \<leftarrow> mk_node (ggml_new_tensor h ctx type GGML_MAX_DIMS (t_ne ta))
       [ggml_format_name (t_name ta @ '' (copy)''), set_op GGML_OP_CPY, set_src 0 a];
     h \<leftarrow> tset h result (set_src 1 result);
     Some (result, h) }"

definition ggml_cont_impl :: "heap \<Rightarrow> ptr \<Rightarrow> ptr \<Rightarrow> node_result" where
  "ggml_cont_impl h ctx a =
     do {
     ta \<leftarrow> tget h a;
     mk_node (ggml_dup_tensor h ctx a)
       [ggml_format_name (t_name ta @ '' (cont)''), set_op GGML_OP_CONT, set_src 0 a] }"

definition ggml_cont :: "heap \<Rightarrow> ptr \<Rightarrow> ptr \<Rightarrow> node_result" where
  "ggml_cont h ctx a =
     ggml_cont_impl h ctx a"

definition ggml_cont_4d :: "heap \<Rightarrow> ptr \<Rightarrow> ptr \<Rightarrow> int \<Rightarrow> int \<Rightarrow> int \<Rightarrow> int \<Rightarrow> node_result" where
  "ggml_cont_4d h ctx a ne0 ne1 ne2 ne3 =
     do {
     ta \<leftarrow> tget h a;
     gassert (ggml_nelements ta = i64 (ne0 * ne1 * ne2 * ne3));
     mk_node (ggml_new_tensor_4d h ctx (t_type ta) ne0 ne1 ne2 ne3)
       [ggml_format_name (t_name ta @ '' (cont)''), set_op GGML_OP_CONT, set_src 0 a] }"

definition ggml_cont_1d :: "heap \<Rightarrow> ptr \<Rightarrow> ptr \<Rightarrow> int \<Rightarrow> node_result" where
  "ggml_cont_1d h ctx a ne0 =
     ggml_cont_4d h ctx a ne0 1 1 1"

definition ggml_cont_2d :: "heap \<Rightarrow> ptr \<Rightarrow> ptr \<Rightarrow> int \<Rightarrow> int \<Rightarrow> node_result" where
  "ggml_cont_2d h ctx a ne0 ne1 =
     ggml_cont_4d h ctx a ne0 ne1 1 1"

definition ggml_cont_3d :: "heap \<Rightarrow> ptr \<Rightarrow> ptr \<Rightarrow> int \<Rightarrow> int \<Rightarrow> int \<Rightarrow> node_result" where
  "ggml_cont_3d h ctx a ne0 ne1 ne2 =
     ggml_cont_4d h ctx a ne0 ne1 ne2 1"

section \<open>Views of the same data\<close>

definition ggml_reshape :: "heap \<Rightarrow> ptr \<Rightarrow> ptr \<Rightarrow> ptr \<Rightarrow> node_result" where
  "ggml_reshape h ctx a b =
     do {
     ta \<leftarrow> tget h a; tb \<leftarrow> tget h b;
     gassert (ggml_is_contiguous ta);
     gassert (ggml_nelements ta = ggml_nelements tb);
     mk_node (ggml_new_tensor_impl h ctx (t_type ta) GGML_MAX_DIMS (t_ne tb) a 0)
       [ggml_format_name (t_name ta @ '' (reshaped)''), set_op GGML_OP_RESHAPE, set_src 0 a] }"

definition ggml_reshape_1d :: "heap \<Rightarrow> ptr \<Rightarrow> ptr \<Rightarrow> int \<Rightarrow> node_result" where
  "ggml_reshape_1d h ctx a ne0 =
     do {
     ta \<leftarrow> tget h a;
     gassert (ggml_is_contiguous ta);
     gassert (ggml_nelements ta = ne0);
     mk_node (ggml_new_tensor_impl h ctx (t_type ta) 1 [ne0] a 0)
       [ggml_format_name (t_name ta @ '' (reshaped)''), set_op GGML_OP_RESHAPE, set_src 0 a] }"

definition ggml_reshape_2d :: "heap \<Rightarrow> ptr \<Rightarrow> ptr \<Rightarrow> int \<Rightarrow> int \<Rightarrow> node_result" where
  "ggml_reshape_2d h ctx a ne0 ne1 =
     do {
     ta \<leftarrow> tget h a;
     gassert (ggml_is_contiguous ta);
     gassert (ggml_nelements ta = i64 (ne0 * ne1));
     mk_node (ggml_new_tensor_impl h ctx (t_type ta) 2 [ne0, ne1] a 0)
       [ggml_format_name (t_name ta @ '' (reshaped)''), set_op GGML_OP_RESHAPE, set_src 0 a] }"

definition ggml_reshape_3d :: "heap \<Rightarrow> ptr \<Rightarrow> ptr \<Rightarrow> int \<Rightarrow> int \<Rightarrow> int \<Rightarrow> node_result" where
  "ggml_reshape_3d h ctx a ne0 ne1 ne2 =
     do {
     ta \<leftarrow> tget h a;
     gassert (ggml_is_contiguous ta);
     gassert (ggml_nelements ta = i64 (ne0 * ne1 * ne2));
     mk_node (ggml_new_tensor_impl h ctx (t_type ta) 3 [ne0, ne1, ne2] a 0)
       [ggml_format_name (t_name ta @ '' (reshaped)''), set_op GGML_OP_RESHAPE, set_src 0 a] }"

definition ggml_reshape_4d :: "heap \<Rightarrow> ptr \<Rightarrow> ptr \<Rightarrow> int \<Rightarrow> int \<Rightarrow> int \<Rightarrow> int \<Rightarrow> node_result" where
  "ggml_reshape_4d h ctx a ne0 ne1 ne2 ne3 =
     do {
     ta \<leftarrow> tget h a;
     gassert (ggml_is_contiguous ta);
     gassert (ggml_nelements ta = i64 (ne0 * ne1 * ne2 * ne3));
     mk_node (ggml_new_tensor_impl h ctx (t_type ta) 4 [ne0, ne1, ne2, ne3] a 0)
       [ggml_format_name (t_name ta @ '' (reshaped)''), set_op GGML_OP_RESHAPE, set_src 0 a] }"

text \<open>The offset is stored as its eight bytes: two parameters, the low half first.\<close>

definition ggml_view_impl :: "heap \<Rightarrow> ptr \<Rightarrow> ptr \<Rightarrow> nat \<Rightarrow> int list \<Rightarrow> int \<Rightarrow> node_result" where
  "ggml_view_impl h ctx a n_dims ne offset = do {
     ta \<leftarrow> tget h a;
     mk_node (ggml_new_tensor_impl h ctx (t_type ta) n_dims ne a offset)
       [ggml_format_name (t_name ta @ '' (view)''),
        ggml_set_op_params [word_of_int offset, word_of_int (offset div 2 ^ 32)],
        set_op GGML_OP_VIEW, set_src 0 a] }"

definition ggml_view_1d :: "heap \<Rightarrow> ptr \<Rightarrow> ptr \<Rightarrow> int \<Rightarrow> int \<Rightarrow> node_result" where
  "ggml_view_1d h ctx a ne0 offset =
     ggml_view_impl h ctx a 1 [ne0] offset"

definition ggml_view_2d :: "heap \<Rightarrow> ptr \<Rightarrow> ptr \<Rightarrow> int \<Rightarrow> int \<Rightarrow> int \<Rightarrow> int \<Rightarrow> node_result" where
  "ggml_view_2d h ctx a ne0 ne1 nb1 offset =
     mk_node (ggml_view_impl h ctx a 2 [ne0, ne1] offset)
       [set_nb 1 nb1, set_nb 2 (u64 (nb1 * ne1)), set_nb 3 (u64 (nb1 * ne1))]"

definition ggml_view_3d :: "heap \<Rightarrow> ptr \<Rightarrow> ptr \<Rightarrow> int \<Rightarrow> int \<Rightarrow> int \<Rightarrow> int \<Rightarrow> int \<Rightarrow> int \<Rightarrow> node_result" where
  "ggml_view_3d h ctx a ne0 ne1 ne2 nb1 nb2 offset =
     mk_node (ggml_view_impl h ctx a 3 [ne0, ne1, ne2] offset)
       [set_nb 1 nb1, set_nb 2 nb2, set_nb 3 (u64 (nb2 * ne2))]"

definition ggml_view_4d :: "heap \<Rightarrow> ptr \<Rightarrow> ptr \<Rightarrow> int \<Rightarrow> int \<Rightarrow> int \<Rightarrow> int \<Rightarrow> int \<Rightarrow> int \<Rightarrow> int \<Rightarrow> int \<Rightarrow> node_result" where
  "ggml_view_4d h ctx a ne0 ne1 ne2 ne3 nb1 nb2 nb3 offset =
     mk_node (ggml_view_impl h ctx a 4 [ne0, ne1, ne2, ne3] offset)
       [set_nb 1 nb1, set_nb 2 nb2, set_nb 3 nb3]"

text \<open>
  The local arrays ne and nb of ggml_permute have type int: extents and strides pass through
  32 bits.  The four axes are distinct, so every entry of the arrays is set.
\<close>

definition permute_entries :: "int \<Rightarrow> int \<Rightarrow> int \<Rightarrow> int \<Rightarrow> int list \<Rightarrow> int list" where
  "permute_entries axis0 axis1 axis2 axis3 xs =
     (replicate GGML_MAX_DIMS 0)
       [nat axis0 := i32 (xs ! 0), nat axis1 := i32 (xs ! 1), nat axis2 := i32 (xs ! 2), nat axis3 := i32 (xs ! 3)]"

definition ggml_permute :: "heap \<Rightarrow> ptr \<Rightarrow> ptr \<Rightarrow> int \<Rightarrow> int \<Rightarrow> int \<Rightarrow> int \<Rightarrow> node_result" where
  "ggml_permute h ctx a axis0 axis1 axis2 axis3 =
     do {
     gassert (0 \<le> axis0 \<and> axis0 < int GGML_MAX_DIMS);
     gassert (0 \<le> axis1 \<and> axis1 < int GGML_MAX_DIMS);
     gassert (0 \<le> axis2 \<and> axis2 < int GGML_MAX_DIMS);
     gassert (0 \<le> axis3 \<and> axis3 < int GGML_MAX_DIMS);
     gassert (axis0 \<noteq> axis1);
     gassert (axis0 \<noteq> axis2);
     gassert (axis0 \<noteq> axis3);
     gassert (axis1 \<noteq> axis2);
     gassert (axis1 \<noteq> axis3);
     gassert (axis2 \<noteq> axis3);
     ta \<leftarrow> tget h a;
     let ne = permute_entries axis0 axis1 axis2 axis3 (t_ne ta);
     let nb = permute_entries axis0 axis1 axis2 axis3 (t_nb ta);
     mk_node (ggml_view_tensor h ctx a)
       [ggml_format_name (t_name ta @ '' (permuted)''),
        set_ne 0 (ne ! 0), set_ne 1 (ne ! 1), set_ne 2 (ne ! 2), set_ne 3 (ne ! 3),
        set_nb 0 (u64 (nb ! 0)), set_nb 1 (u64 (nb ! 1)), set_nb 2 (u64 (nb ! 2)), set_nb 3 (u64 (nb ! 3)),
        set_op GGML_OP_PERMUTE, set_src 0 a,
        ggml_set_op_params [word_of_int axis0, word_of_int axis1, word_of_int axis2, word_of_int axis3]] }"

definition ggml_transpose :: "heap \<Rightarrow> ptr \<Rightarrow> ptr \<Rightarrow> node_result" where
  "ggml_transpose h ctx a =
     do {
     ta \<leftarrow> tget h a;
     mk_node (ggml_view_tensor h ctx a)
       [ggml_format_name (t_name ta @ '' (transposed)''),
        set_ne 0 (ne_at ta 1), set_ne 1 (ne_at ta 0), set_nb 0 (nb_at ta 1), set_nb 1 (nb_at ta 0),
        set_op GGML_OP_TRANSPOSE, set_src 0 a] }"

section \<open>Rows and diagonals\<close>

definition ggml_get_rows :: "heap \<Rightarrow> ptr \<Rightarrow> ptr \<Rightarrow> ptr \<Rightarrow> node_result" where
  "ggml_get_rows h ctx a b =
     do {
     ta \<leftarrow> tget h a; tb \<leftarrow> tget h b;
     gassert (ne_at ta 2 = ne_at tb 1);
     gassert (ne_at ta 3 = ne_at tb 2);
     gassert (ne_at tb 3 = 1);
     gassert (t_type tb = GGML_TYPE_I32);
     let type = (if t_type ta = GGML_TYPE_I32 then t_type ta else GGML_TYPE_F32);
     mk_node (ggml_new_tensor_4d h ctx type (ne_at ta 0) (ne_at tb 0) (ne_at tb 1) (ne_at tb 2))
       [set_op GGML_OP_GET_ROWS, set_src 0 a, set_src 1 b] }"

definition ggml_get_rows_back :: "heap \<Rightarrow> ptr \<Rightarrow> ptr \<Rightarrow> ptr \<Rightarrow> ptr \<Rightarrow> node_result" where
  "ggml_get_rows_back h ctx a b c =
     do {
     ta \<leftarrow> tget h a; tb \<leftarrow> tget h b; tc \<leftarrow> tget h c;
     gassert (ggml_is_matrix ta \<and> ggml_is_vector tb \<and> t_type tb = GGML_TYPE_I32);
     gassert (ggml_is_matrix tc \<and> ne_at ta 0 = ne_at tc 0);
     mk_node (ggml_new_tensor_2d h ctx GGML_TYPE_F32 (ne_at tc 0) (ne_at tc 1))
       [set_op GGML_OP_GET_ROWS_BACK, set_src 0 a, set_src 1 b] }"

definition ggml_set_rows :: "heap \<Rightarrow> ptr \<Rightarrow> ptr \<Rightarrow> ptr \<Rightarrow> ptr \<Rightarrow> node_result" where
  "ggml_set_rows h ctx a b c =
     do {
     ta \<leftarrow> tget h a; tb \<leftarrow> tget h b; tc \<leftarrow> tget h c;
     gassert (ne_at ta 0 = ne_at tb 0);
     gassert (ne_at ta 2 = ne_at tb 2);
     gassert (ne_at ta 3 = ne_at tb 3);
     gassert (ne_at tb 1 = ne_at tc 0);
     m1 \<leftarrow> cmod (ne_at tb 2) (ne_at tc 1);
     gassert (m1 = 0);
     m2 \<leftarrow> cmod (ne_at tb 3) (ne_at tc 2);
     gassert (m2 = 0);
     gassert (ne_at tc 3 = 1);
     gassert (t_type tb = GGML_TYPE_F32);
     gassert (t_type tc = GGML_TYPE_I64 \<or> t_type tc = GGML_TYPE_I32);
     gassert (ggml_is_contiguous_rows ta);
     gassert (ggml_is_contiguous_rows tb);
     mk_node (ggml_view_tensor h ctx a)
       [set_op GGML_OP_SET_ROWS, set_src 0 b, set_src 1 c, set_src 2 a] }"

definition ggml_diag :: "heap \<Rightarrow> ptr \<Rightarrow> ptr \<Rightarrow> node_result" where
  "ggml_diag h ctx a =
     do {
     ta \<leftarrow> tget h a;
     gassert (ne_at ta 1 = 1);
     let ne = [ne_at ta 0, ne_at ta 0, ne_at ta 2, ne_at ta 3];
     mk_node (ggml_new_tensor h ctx (t_type ta) 4 ne) [set_op GGML_OP_DIAG, set_src 0 a] }"

definition ggml_diag_mask_inf_impl :: "heap \<Rightarrow> ptr \<Rightarrow> ptr \<Rightarrow> int \<Rightarrow> bool \<Rightarrow> node_result" where
  "ggml_diag_mask_inf_impl h ctx a n_past inplace =
     mk_node (if inplace then ggml_view_tensor h ctx a else ggml_dup_tensor h ctx a)
       [ggml_set_op_params [word_of_int n_past], set_op GGML_OP_DIAG_MASK_INF, set_src 0 a]"

definition ggml_diag_mask_inf :: "heap \<Rightarrow> ptr \<Rightarrow> ptr \<Rightarrow> int \<Rightarrow> node_result" where
  "ggml_diag_mask_inf h ctx a n_past =
     ggml_diag_mask_inf_impl h ctx a n_past False"

definition ggml_diag_mask_inf_inplace :: "heap \<Rightarrow> ptr \<Rightarrow> ptr \<Rightarrow> int \<Rightarrow> node_result" where
  "ggml_diag_mask_inf_inplace h ctx a n_past =
     ggml_diag_mask_inf_impl h ctx a n_past True"

definition ggml_diag_mask_zero_impl :: "heap \<Rightarrow> ptr \<Rightarrow> ptr \<Rightarrow> int \<Rightarrow> bool \<Rightarrow> node_result" where
  "ggml_diag_mask_zero_impl h ctx a n_past inplace =
     mk_node (if inplace then ggml_view_tensor h ctx a else ggml_dup_tensor h ctx a)
       [ggml_set_op_params [word_of_int n_past], set_op GGML_OP_DIAG_MASK_ZERO, set_src 0 a]"

definition ggml_diag_mask_zero :: "heap \<Rightarrow> ptr \<Rightarrow> ptr \<Rightarrow> int \<Rightarrow> node_result" where
  "ggml_diag_mask_zero h ctx a n_past =
     ggml_diag_mask_zero_impl h ctx a n_past False"

definition ggml_diag_mask_zero_inplace :: "heap \<Rightarrow> ptr \<Rightarrow> ptr \<Rightarrow> int \<Rightarrow> node_result" where
  "ggml_diag_mask_zero_inplace h ctx a n_past =
     ggml_diag_mask_zero_impl h ctx a n_past True"

section \<open>Soft-max\<close>

text \<open>The float comparison x > 0 on the bits of x: no sign, not zero and not a NaN.\<close>

definition f32_positive :: "32 word \<Rightarrow> bool" where
  "f32_positive x \<longleftrightarrow> 0 < x \<and> x \<le> 0x7F800000"

definition ggml_soft_max_impl :: "heap \<Rightarrow> ptr \<Rightarrow> ptr \<Rightarrow> ptr \<Rightarrow> 32 word \<Rightarrow> 32 word \<Rightarrow> bool \<Rightarrow> node_result" where
  "ggml_soft_max_impl h ctx a msk scale max_bias inplace =
     do {
     ta \<leftarrow> tget h a;
     gassert (ggml_is_contiguous ta);
     (if msk \<noteq> NULL
      then do {
        tm \<leftarrow> tget h msk;
        gassert (t_type tm = GGML_TYPE_F16 \<or> t_type tm = GGML_TYPE_F32);
        gassert (ggml_is_contiguous tm);
        gassert (ne_at tm 0 = ne_at ta 0);
        gassert (ne_at tm 1 \<ge> ne_at ta 1);
        m2 \<leftarrow> cmod (ne_at ta 2) (ne_at tm 2);
        gassert (m2 = 0);
        m3 \<leftarrow> cmod (ne_at ta 3) (ne_at tm 3);
        gassert (m3 = 0) }
      else Some ());
     gassert (f32_positive max_bias \<longrightarrow> msk \<noteq> NULL);
     mk_node (if inplace then ggml_view_tensor h ctx a else ggml_dup_tensor h ctx a)
       [ggml_set_op_params [scale, max_bias], set_op GGML_OP_SOFT_MAX, set_src 0 a, set_src 1 msk] }"

definition ggml_soft_max :: "heap \<Rightarrow> ptr \<Rightarrow> ptr \<Rightarrow> node_result" where
  "ggml_soft_max h ctx a =
     ggml_soft_max_impl h ctx a NULL 0x3F800000 0 False"

definition ggml_soft_max_inplace :: "heap \<Rightarrow> ptr \<Rightarrow> ptr \<Rightarrow> node_result" where
  "ggml_soft_max_inplace h ctx a =
     ggml_soft_max_impl h ctx a NULL 0x3F800000 0 True"

definition ggml_soft_max_ext :: "heap \<Rightarrow> ptr \<Rightarrow> ptr \<Rightarrow> ptr \<Rightarrow> 32 word \<Rightarrow> 32 word \<Rightarrow> node_result" where
  "ggml_soft_max_ext h ctx a msk scale max_bias =
     ggml_soft_max_impl h ctx a msk scale max_bias False"

definition ggml_soft_max_ext_inplace :: "heap \<Rightarrow> ptr \<Rightarrow> ptr \<Rightarrow> ptr \<Rightarrow> 32 word \<Rightarrow> 32 word \<Rightarrow> node_result" where
  "ggml_soft_max_ext_inplace h ctx a msk scale max_bias =
     ggml_soft_max_impl h ctx a msk scale max_bias True"

definition ggml_soft_max_add_sinks :: "heap \<Rightarrow> ptr \<Rightarrow> ptr \<Rightarrow> heap option" where
  "ggml_soft_max_add_sinks h a sinks =
     (if sinks = NULL then tset h a (set_src 2 NULL)
      else do {
        ta \<leftarrow> tget h a;
        gassert (t_op ta = GGML_OP_SOFT_MAX);
        gassert (t_src ta ! 2 = NULL);
        t0 \<leftarrow> tget h (t_src ta ! 0); ts \<leftarrow> tget h sinks;
        gassert (ne_at t0 2 = ne_at ts 0);
        gassert (t_type ts = GGML_TYPE_F32);
        tset h a (set_src 2 sinks) })"

definition ggml_soft_max_ext_back_impl :: "heap \<Rightarrow> ptr \<Rightarrow> ptr \<Rightarrow> ptr \<Rightarrow> 32 word \<Rightarrow> 32 word \<Rightarrow> bool \<Rightarrow> node_result" where
  "ggml_soft_max_ext_back_impl h ctx a b scale max_bias inplace =
     mk_node (if inplace then ggml_view_tensor h ctx a else ggml_dup_tensor h ctx a)
       [set_op GGML_OP_SOFT_MAX_BACK, set_src 0 a, set_src 1 b,
        ggml_set_op_params_f32 0 scale, ggml_set_op_params_f32 1 max_bias]"

definition ggml_soft_max_ext_back :: "heap \<Rightarrow> ptr \<Rightarrow> ptr \<Rightarrow> ptr \<Rightarrow> 32 word \<Rightarrow> 32 word \<Rightarrow> node_result" where
  "ggml_soft_max_ext_back h ctx a b scale max_bias =
     ggml_soft_max_ext_back_impl h ctx a b scale max_bias False"

definition ggml_soft_max_ext_back_inplace :: "heap \<Rightarrow> ptr \<Rightarrow> ptr \<Rightarrow> ptr \<Rightarrow> 32 word \<Rightarrow> 32 word \<Rightarrow> node_result" where
  "ggml_soft_max_ext_back_inplace h ctx a b scale max_bias =
     ggml_soft_max_ext_back_impl h ctx a b scale max_bias True"

section \<open>Rotary position embedding\<close>

text \<open>sections is a pointer to four ints, or NULL (None); c may be NULL.\<close>

definition ggml_rope_impl :: "heap \<Rightarrow> ptr \<Rightarrow> ptr \<Rightarrow> ptr \<Rightarrow> ptr \<Rightarrow> int \<Rightarrow> int list option \<Rightarrow> int \<Rightarrow> int \<Rightarrow> 32 word \<Rightarrow> 32 word \<Rightarrow> 32 word \<Rightarrow> 32 word \<Rightarrow> 32 word \<Rightarrow> 32 word \<Rightarrow> bool \<Rightarrow> node_result" where
  "ggml_rope_impl h ctx a b c n_dims sections mode n_ctx_orig freq_base freq_scale ext_factor attn_factor beta_fast beta_slow inplace =
     do {
     tb \<leftarrow> tget h b; ta \<leftarrow> tget h a;
     gassert (mode AND 1 = 0);
     gassert (ggml_is_vector tb);
     gassert (t_type tb = GGML_TYPE_I32);
     let mrope_used = (mode AND 8 \<noteq> 0);
     gassert (if mrope_used then i64 (ne_at ta 2 * 4) = ne_at tb 0 else ne_at ta 2 = ne_at tb 0);
     (if c \<noteq> NULL
      then do {
        tc \<leftarrow> tget h c;
        gassert (t_type tc = GGML_TYPE_F32);
        gassert (ne_at tc 0 \<ge> n_dims sdiv 2) }
      else Some ());
     let secs = (case sections of Some s \<Rightarrow> if mrope_used then map word_of_int (take 4 s) else [0, 0, 0, 0]
                 | None \<Rightarrow> [0, 0, 0, 0]);
     let params = [0, word_of_int n_dims, word_of_int mode, 0, word_of_int n_ctx_orig,
                   freq_base, freq_scale, ext_factor, attn_factor, beta_fast, beta_slow] @ secs;
     mk_node (if inplace then ggml_view_tensor h ctx a else ggml_dup_tensor h ctx a)
       [ggml_set_op_params params, set_op GGML_OP_ROPE, set_src 0 a, set_src 1 b, set_src 2 c] }"

definition ggml_rope :: "heap \<Rightarrow> ptr \<Rightarrow> ptr \<Rightarrow> ptr \<Rightarrow> int \<Rightarrow> int \<Rightarrow> node_result" where
  "ggml_rope h ctx a b n_dims mode =
     ggml_rope_impl h ctx a b NULL n_dims None mode 0 0x461C4000 0x3F800000 0 0x3F800000 0 0 False"

definition ggml_rope_multi :: "heap \<Rightarrow> ptr \<Rightarrow> ptr \<Rightarrow> ptr \<Rightarrow> ptr \<Rightarrow> int \<Rightarrow> int list option \<Rightarrow> int \<Rightarrow> int \<Rightarrow> 32 word \<Rightarrow> 32 word \<Rightarrow> 32 word \<Rightarrow> 32 word \<Rightarrow> 32 word \<Rightarrow> 32 word \<Rightarrow> node_result" where
  "ggml_rope_multi h ctx a b c n_dims sections mode n_ctx_orig freq_base freq_scale ext_factor attn_factor beta_fast beta_slow =
     ggml_rope_impl h ctx a b c n_dims sections mode n_ctx_orig freq_base freq_scale ext_factor attn_factor beta_fast beta_slow False"

definition ggml_rope_ext :: "heap \<Rightarrow> ptr \<Rightarrow> ptr \<Rightarrow> ptr \<Rightarrow> ptr \<Rightarrow> int \<Rightarrow> int \<Rightarrow> int \<Rightarrow> 32 word \<Rightarrow> 32 word \<Rightarrow> 32 word \<Rightarrow> 32 word \<Rightarrow> 32 word \<Rightarrow> 32 word \<Rightarrow> node_result" where
  "ggml_rope_ext h ctx a b c n_dims mode n_ctx_orig freq_base freq_scale ext_factor attn_factor beta_fast beta_slow =
     ggml_rope_impl h ctx a b c n_dims None mode n_ctx_orig freq_base freq_scale ext_factor attn_factor beta_fast beta_slow False"

definition ggml_rope_custom :: "heap \<Rightarrow> ptr \<Rightarrow> ptr \<Rightarrow> ptr \<Rightarrow> int \<Rightarrow> int \<Rightarrow> int \<Rightarrow> 32 word \<Rightarrow> 32 word \<Rightarrow> 32 word \<Rightarrow> 32 word \<Rightarrow> 32 word \<Rightarrow> 32 word \<Rightarrow> node_result" where
  "ggml_rope_custom h ctx a b n_dims mode n_ctx_orig freq_base freq_scale ext_factor attn_factor beta_fast beta_slow =
     ggml_rope_impl h ctx a b NULL n_dims None mode n_ctx_orig freq_base freq_scale ext_factor attn_factor beta_fast beta_slow False"

definition ggml_rope_inplace :: "heap \<Rightarrow> ptr \<Rightarrow> ptr \<Rightarrow> ptr \<Rightarrow> int \<Rightarrow> int \<Rightarrow> node_result" where
  "ggml_rope_inplace h ctx a b n_dims mode =
     ggml_rope_impl h ctx a b NULL n_dims None mode 0 0x461C4000 0x3F800000 0 0x3F800000 0 0 True"

definition ggml_rope_multi_inplace :: "heap \<Rightarrow> ptr \<Rightarrow> ptr \<Rightarrow> ptr \<Rightarrow> ptr \<Rightarrow> int \<Rightarrow> int list option \<Rightarrow> int \<Rightarrow> int \<Rightarrow> 32 word \<Rightarrow> 32 word \<Rightarrow> 32 word \<Rightarrow> 32 word \<Rightarrow> 32 word \<Rightarrow> 32 word \<Rightarrow> node_result" where
  "ggml_rope_multi_inplace h ctx a b c n_dims sections mode n_ctx_orig freq_base freq_scale ext_factor attn_factor beta_fast beta_slow =
     ggml_rope_impl h ctx a b c n_dims sections mode n_ctx_orig freq_base freq_scale ext_factor attn_factor beta_fast beta_slow True"

definition ggml_rope_ext_inplace :: "heap \<Rightarrow> ptr \<Rightarrow> ptr \<Rightarrow> ptr \<Rightarrow> ptr \<Rightarrow> int \<Rightarrow> int \<Rightarrow> int \<Rightarrow> 32 word \<Rightarrow> 32 word \<Rightarrow> 32 word \<Rightarrow> 32 word \<Rightarrow> 32 word \<Rightarrow> 32 word \<Rightarrow> node_result" where
  "ggml_rope_ext_inplace h ctx a b c n_dims mode n_ctx_orig freq_base freq_scale ext_factor attn_factor beta_fast beta_slow =
     ggml_rope_impl h ctx a b c n_dims None mode n_ctx_orig freq_base freq_scale ext_factor attn_factor beta_fast beta_slow True"

definition ggml_rope_custom_inplace :: "heap \<Rightarrow> ptr \<Rightarrow> ptr \<Rightarrow> ptr \<Rightarrow> int \<Rightarrow> int \<Rightarrow> int \<Rightarrow> 32 word \<Rightarrow> 32 word \<Rightarrow> 32 word \<Rightarrow> 32 word \<Rightarrow> 32 word \<Rightarrow> 32 word \<Rightarrow> node_result" where
  "ggml_rope_custom_inplace h ctx a b n_dims mode n_ctx_orig freq_base freq_scale ext_factor attn_factor beta_fast beta_slow =
     ggml_rope_impl h ctx a b NULL n_dims None mode n_ctx_orig freq_base freq_scale ext_factor attn_factor beta_fast beta_slow True"

definition ggml_rope_ext_back :: "heap \<Rightarrow> ptr \<Rightarrow> ptr \<Rightarrow> ptr \<Rightarrow> ptr \<Rightarrow> int \<Rightarrow> int \<Rightarrow> int \<Rightarrow> 32 word \<Rightarrow> 32 word \<Rightarrow> 32 word \<Rightarrow> 32 word \<Rightarrow> 32 word \<Rightarrow> 32 word \<Rightarrow> node_result" where
  "ggml_rope_ext_back h ctx a b c n_dims mode n_ctx_orig freq_base freq_scale ext_factor attn_factor beta_fast beta_slow =
     mk_node (ggml_rope_ext h ctx a b c n_dims mode n_ctx_orig freq_base freq_scale ext_factor attn_factor beta_fast beta_slow) [set_op GGML_OP_ROPE_BACK]"

definition ggml_rope_multi_back :: "heap \<Rightarrow> ptr \<Rightarrow> ptr \<Rightarrow> ptr \<Rightarrow> ptr \<Rightarrow> int \<Rightarrow> int list option \<Rightarrow> int \<Rightarrow> int \<Rightarrow> 32 word \<Rightarrow> 32 word \<Rightarrow> 32 word \<Rightarrow> 32 word \<Rightarrow> 32 word \<Rightarrow> 32 word \<Rightarrow> node_result" where
  "ggml_rope_multi_back h ctx a b c n_dims sections mode n_ctx_orig freq_base freq_scale ext_factor attn_factor beta_fast beta_slow =
     mk_node (ggml_rope_multi h ctx a b c n_dims sections mode n_ctx_orig freq_base freq_scale ext_factor attn_factor beta_fast beta_slow) [set_op GGML_OP_ROPE_BACK]"

definition ggml_clamp :: "heap \<Rightarrow> ptr \<Rightarrow> ptr \<Rightarrow> 32 word \<Rightarrow> 32 word \<Rightarrow> node_result" where
  "ggml_clamp h ctx a mn mx =
     mk_node (ggml_view_tensor h ctx a)
       [ggml_set_op_params [mn, mx], set_op GGML_OP_CLAMP, set_src 0 a]"

section \<open>Every constructor adds one well-formed tensor\<close>

lemma shape_impl_a_creates [creates_intros]:
  assumes "heap_inv h" "live h a"
  shows "creates h (ggml_scale_impl h ctx a s b inplace) (\<lambda>_. True)"
    "creates h (ggml_cont_impl h ctx a) (\<lambda>_. True)"
    "creates h (ggml_cont_4d h ctx a ne0 ne1 ne2 ne3) (\<lambda>_. True)"
    "creates h (ggml_view_impl h ctx a n_dims ne offset) (\<lambda>_. True)"
    "creates h (ggml_diag_mask_inf_impl h ctx a n_past inplace) (\<lambda>_. True)"
    "creates h (ggml_diag_mask_zero_impl h ctx a n_past inplace) (\<lambda>_. True)"
  unfolding ggml_scale_impl_def
    ggml_cont_impl_def
    ggml_cont_4d_def
    ggml_view_impl_def
    ggml_diag_mask_inf_impl_def
    ggml_diag_mask_zero_impl_def
  using assms
  by (intro creates_bind creates_let creates_if mk_node_any creates_intros; simp add: node_simps GGML_N_OP_PARAMS_def)+

lemma shape_impl_a_b_creates [creates_intros]:
  assumes "heap_inv h" "live h a" "live h b"
  shows "creates h (ggml_set_impl h ctx a b nb1 nb2 nb3 offset inplace) (\<lambda>_. True)"
    "creates h (ggml_cpy_impl h ctx a b) (\<lambda>_. True)"
    "creates h (ggml_soft_max_ext_back_impl h ctx a b scale max_bias inplace) (\<lambda>_. True)"
  unfolding ggml_set_impl_def
    ggml_cpy_impl_def
    ggml_soft_max_ext_back_impl_def
  using assms
  by (intro creates_bind creates_let creates_if mk_node_any creates_intros; simp add: node_simps GGML_N_OP_PARAMS_def)+

lemma shape_impl_a_msk_creates [creates_intros]:
  assumes "heap_inv h" "live h a" "live h msk"
  shows "creates h (ggml_soft_max_impl h ctx a msk scale max_bias inplace) (\<lambda>_. True)"
  unfolding ggml_soft_max_impl_def
  using assms
  by (intro creates_bind creates_let creates_if mk_node_any creates_intros; simp add: node_simps GGML_N_OP_PARAMS_def)+

lemma shape_a_b_creates [creates_intros]:
  assumes "heap_inv h" "live h a" "live h b"
  shows "creates h (ggml_mul_mat h ctx a b) (\<lambda>_. True)"
    "creates h (ggml_out_prod h ctx a b) (\<lambda>_. True)"
    "creates h (ggml_set h ctx a b nb1 nb2 nb3 offset) (\<lambda>_. True)"
    "creates h (ggml_set_inplace h ctx a b nb1 nb2 nb3 offset) (\<lambda>_. True)"
    "creates h (ggml_set_1d h ctx a b offset) (\<lambda>_. True)"
    "creates h (ggml_set_1d_inplace h ctx a b offset) (\<lambda>_. True)"
    "creates h (ggml_set_2d h ctx a b nb1 offset) (\<lambda>_. True)"
    "creates h (ggml_set_2d_inplace h ctx a b nb1 offset) (\<lambda>_. True)"
    "creates h (ggml_cpy h ctx a b) (\<lambda>_. True)"
    "creates h (ggml_reshape h ctx a b) (\<lambda>_. True)"
    "creates h (ggml_get_rows h ctx a b) (\<lambda>_. True)"
    "creates h (ggml_soft_max_ext_back h ctx a b scale max_bias) (\<lambda>_. True)"
    "creates h (ggml_soft_max_ext_back_inplace h ctx a b scale max_bias) (\<lambda>_. True)"
  unfolding ggml_mul_mat_def
    ggml_out_prod_def
    ggml_set_def
    ggml_set_inplace_def
    ggml_set_1d_def
    ggml_set_1d_inplace_def
    ggml_set_2d_def
    ggml_set_2d_inplace_def
    ggml_cpy_def
    ggml_reshape_def
    ggml_get_rows_def
    ggml_soft_max_ext_back_def
    ggml_soft_max_ext_back_inplace_def
  using assms
  by (intro creates_bind creates_let creates_if mk_node_any creates_intros; simp add: node_simps GGML_N_OP_PARAMS_def)+

lemma shape_as_b_ids_creates [creates_intros]:
  assumes "heap_inv h" "live h as" "live h b" "live h ids"
  shows "creates h (ggml_mul_mat_id h ctx as b ids) (\<lambda>_. True)"
  unfolding ggml_mul_mat_id_def
  using assms
  by (intro creates_bind creates_let creates_if mk_node_any creates_intros; simp add: node_simps GGML_N_OP_PARAMS_def)+

lemma shape_a_creates [creates_intros]:
  assumes "heap_inv h" "live h a"
  shows "creates h (ggml_scale h ctx a s) (\<lambda>_. True)"
    "creates h (ggml_scale_inplace h ctx a s) (\<lambda>_. True)"
    "creates h (ggml_scale_bias h ctx a s b) (\<lambda>_. True)"
    "creates h (ggml_scale_bias_inplace h ctx a s b) (\<lambda>_. True)"
    "creates h (ggml_cont h ctx a) (\<lambda>_. True)"
    "creates h (ggml_cont_1d h ctx a ne0) (\<lambda>_. True)"
    "creates h (ggml_cont_2d h ctx a ne0 ne1) (\<lambda>_. True)"
    "creates h (ggml_cont_3d h ctx a ne0 ne1 ne2) (\<lambda>_. True)"
    "creates h (ggml_reshape_1d h ctx a ne0) (\<lambda>_. True)"
    "creates h (ggml_reshape_2d h ctx a ne0 ne1) (\<lambda>_. True)"
    "creates h (ggml_reshape_3d h ctx a ne0 ne1 ne2) (\<lambda>_. True)"
    "creates h (ggml_reshape_4d h ctx a ne0 ne1 ne2 ne3) (\<lambda>_. True)"
    "creates h (ggml_view_1d h ctx a ne0 offset) (\<lambda>_. True)"
    "creates h (ggml_view_2d h ctx a ne0 ne1 nb1 offset) (\<lambda>_. True)"
    "creates h (ggml_view_3d h ctx a ne0 ne1 ne2 nb1 nb2 offset) (\<lambda>_. True)"
    "creates h (ggml_view_4d h ctx a ne0 ne1 ne2 ne3 nb1 nb2 nb3 offset) (\<lambda>_. True)"
    "creates h (ggml_permute h ctx a axis0 axis1 axis2 axis3) (\<lambda>_. True)"
    "creates h (ggml_transpose h ctx a) (\<lambda>_. True)"
    "creates h (ggml_diag h ctx a) (\<lambda>_. True)"
    "creates h (ggml_diag_mask_inf h ctx a n_past) (\<lambda>_. True)"
    "creates h (ggml_diag_mask_inf_inplace h ctx a n_past) (\<lambda>_. True)"
    "creates h (ggml_diag_mask_zero h ctx a n_past) (\<lambda>_. True)"
    "creates h (ggml_diag_mask_zero_inplace h ctx a n_past) (\<lambda>_. True)"
    "creates h (ggml_soft_max h ctx a) (\<lambda>_. True)"
    "creates h (ggml_soft_max_inplace h ctx a) (\<lambda>_. True)"
    "creates h (ggml_clamp h ctx a mn mx) (\<lambda>_. True)"
  unfolding ggml_scale_def
    ggml_scale_inplace_def
    ggml_scale_bias_def
    ggml_scale_bias_inplace_def
    ggml_cont_def
    ggml_cont_1d_def
    ggml_cont_2d_def
    ggml_cont_3d_def
    ggml_reshape_1d_def
    ggml_reshape_2d_def
    ggml_reshape_3d_def
    ggml_reshape_4d_def
    ggml_view_1d_def
    ggml_view_2d_def
    ggml_view_3d_def
    ggml_view_4d_def
    ggml_permute_def
    ggml_transpose_def
    ggml_diag_def
    ggml_diag_mask_inf_def
    ggml_diag_mask_inf_inplace_def
    ggml_diag_mask_zero_def
    ggml_diag_mask_zero_inplace_def
    ggml_soft_max_def
    ggml_soft_max_inplace_def
    ggml_clamp_def
  using assms
  by (intro creates_bind creates_let creates_if mk_node_any creates_intros; simp add: node_simps GGML_N_OP_PARAMS_def)+

lemma shape_a_b_c_creates [creates_intros]:
  assumes "heap_inv h" "live h a" "live h b" "live h c"
  shows "creates h (ggml_get_rows_back h ctx a b c) (\<lambda>_. True)"
    "creates h (ggml_set_rows h ctx a b c) (\<lambda>_. True)"
  unfolding ggml_get_rows_back_def
    ggml_set_rows_def
  using assms
  by (intro creates_bind creates_let creates_if mk_node_any creates_intros; simp add: node_simps GGML_N_OP_PARAMS_def)+

lemma shape_a_msk_creates [creates_intros]:
  assumes "heap_inv h" "live h a" "live h msk"
  shows "creates h (ggml_soft_max_ext h ctx a msk scale max_bias) (\<lambda>_. True)"
    "creates h (ggml_soft_max_ext_inplace h ctx a msk scale max_bias) (\<lambda>_. True)"
  unfolding ggml_soft_max_ext_def
    ggml_soft_max_ext_inplace_def
  using assms
  by (intro creates_bind creates_let creates_if mk_node_any creates_intros; simp add: node_simps GGML_N_OP_PARAMS_def)+

text \<open>The self-reference of ggml_cast is a source of the tensor itself.\<close>

lemma ggml_cast_creates [creates_intros]:
  assumes "heap_inv h" "live h a"
  shows "creates h (ggml_cast h ctx a type) (\<lambda>_. True)"
  unfolding creates_def
proof (intro allI impI)
  fix r h' assume "ggml_cast h ctx a type = Some (r, h')"
  then obtain ta :: ggml_tensor and h1 where m: "mk_node (ggml_new_tensor h ctx type GGML_MAX_DIMS (t_ne ta))
       [ggml_format_name (t_name ta @ '' (copy)''), set_op GGML_OP_CPY, set_src 0 a] = Some (r, h1)"
    and s: "tset h1 r (set_src 1 r) = Some h'"
    by (auto simp: ggml_cast_def bind_Some_iff)
  have "creates h (mk_node (ggml_new_tensor h ctx type GGML_MAX_DIMS (t_ne ta))
       [ggml_format_name (t_name ta @ '' (copy)''), set_op GGML_OP_CPY, set_src 0 a]) (\<lambda>t. t_op t \<noteq> GGML_OP_NONE)"
    by (rule mk_node_creates [where P = "\<lambda>_. True"])
      (use assms in \<open>auto intro: alloc_any simp: node_simps\<close>)
  from createsD [OF this m] obtain t where t: "new_node h r t h1" "node_wf h r t" "t_op t \<noteq> GGML_OP_NONE" by blast
  have h': "h' = h1\<lparr> h_tensors := (h_tensors h1)(r \<mapsto> set_src 1 r t) \<rparr>"
    using s t(1) by (auto simp: tset_Some new_node_def)
  have "pools_ok h'"
    unfolding h' by (rule pools_ok_tensor_update) (use t(1) in \<open>simp_all add: new_node_def\<close>)
  then have "new_node h r (set_src 1 r t) h'" using t(1) h' by (auto simp: new_node_def)
  then show "\<exists>t. new_node h r t h' \<and> node_wf h r t \<and> True" using node_wf_set_self [OF t(2,3)] by blast
qed

lemma ggml_rope_impl_creates [creates_intros]:
  assumes "heap_inv h" "live h a" "live h b" "live h c"
  shows "creates h (ggml_rope_impl h ctx a b c n_dims sections mode n_ctx_orig freq_base freq_scale
    ext_factor attn_factor beta_fast beta_slow inplace) (\<lambda>_. True)"
  unfolding ggml_rope_impl_def using assms
  by (intro creates_bind creates_let creates_if mk_node_any creates_intros;
      simp add: node_simps GGML_N_OP_PARAMS_def split: option.splits)

lemma rope_a_b_creates [creates_intros]:
  assumes "heap_inv h" "live h a" "live h b"
  shows "creates h (ggml_rope h ctx a b n_dims mode) (\<lambda>_. True)"
    "creates h (ggml_rope_custom h ctx a b n_dims mode n_ctx_orig freq_base freq_scale ext_factor attn_factor beta_fast beta_slow) (\<lambda>_. True)"
    "creates h (ggml_rope_inplace h ctx a b n_dims mode) (\<lambda>_. True)"
    "creates h (ggml_rope_custom_inplace h ctx a b n_dims mode n_ctx_orig freq_base freq_scale ext_factor attn_factor beta_fast beta_slow) (\<lambda>_. True)"
  unfolding ggml_rope_def
    ggml_rope_custom_def
    ggml_rope_inplace_def
    ggml_rope_custom_inplace_def
  using assms
  by (intro creates_bind creates_let creates_if mk_node_any creates_intros; simp add: node_simps GGML_N_OP_PARAMS_def)+

lemma rope_a_b_c_creates [creates_intros]:
  assumes "heap_inv h" "live h a" "live h b" "live h c"
  shows "creates h (ggml_rope_multi h ctx a b c n_dims sections mode n_ctx_orig freq_base freq_scale ext_factor attn_factor beta_fast beta_slow) (\<lambda>_. True)"
    "creates h (ggml_rope_ext h ctx a b c n_dims mode n_ctx_orig freq_base freq_scale ext_factor attn_factor beta_fast beta_slow) (\<lambda>_. True)"
    "creates h (ggml_rope_multi_inplace h ctx a b c n_dims sections mode n_ctx_orig freq_base freq_scale ext_factor attn_factor beta_fast beta_slow) (\<lambda>_. True)"
    "creates h (ggml_rope_ext_inplace h ctx a b c n_dims mode n_ctx_orig freq_base freq_scale ext_factor attn_factor beta_fast beta_slow) (\<lambda>_. True)"
  unfolding ggml_rope_multi_def
    ggml_rope_ext_def
    ggml_rope_multi_inplace_def
    ggml_rope_ext_inplace_def
  using assms
  by (intro creates_bind creates_let creates_if mk_node_any creates_intros; simp add: node_simps GGML_N_OP_PARAMS_def)+

lemma rope_back_a_b_c_creates [creates_intros]:
  assumes "heap_inv h" "live h a" "live h b" "live h c"
  shows "creates h (ggml_rope_ext_back h ctx a b c n_dims mode n_ctx_orig freq_base freq_scale ext_factor attn_factor beta_fast beta_slow) (\<lambda>_. True)"
    "creates h (ggml_rope_multi_back h ctx a b c n_dims sections mode n_ctx_orig freq_base freq_scale ext_factor attn_factor beta_fast beta_slow) (\<lambda>_. True)"
  unfolding ggml_rope_ext_back_def
    ggml_rope_multi_back_def
  using assms
  by (intro creates_bind creates_let creates_if mk_node_any creates_intros; simp add: node_simps GGML_N_OP_PARAMS_def)+

end
