(* ===== verification/OpsConv.thy ===== *)
theory OpsConv
  imports OpsShape
begin

text \<open>
  The constructors of ggml.c for convolutions, pooling, resizing, padding, sorting and generation.
  Some of them call other constructors and add several tensors: for those the statement is \<open>grows\<close>,
  a chain of one-tensor steps.  Float arithmetic that decides a shape is the argument \<open>fo\<close>.
\<close>

section \<open>Convolution sizes\<close>

definition ggml_calc_conv_output_size :: "int \<Rightarrow> int \<Rightarrow> int \<Rightarrow> int \<Rightarrow> int \<Rightarrow> int option" where
  "ggml_calc_conv_output_size ins ks s p d = do {
     q \<leftarrow> cdiv (i64 (ins + i32 (2 * p) - d * (ks - 1) - 1)) s;
     Some (i64 (q + 1)) }"

definition ggml_calc_conv_transpose_1d_output_size :: "int \<Rightarrow> int \<Rightarrow> int \<Rightarrow> int \<Rightarrow> int \<Rightarrow> int" where
  "ggml_calc_conv_transpose_1d_output_size ins ks s p d =
     i64 ((ins - 1) * s - i32 (2 * p) + d * (ks - 1) + 1)"

definition ggml_calc_conv_transpose_output_size :: "int \<Rightarrow> int \<Rightarrow> int \<Rightarrow> int \<Rightarrow> int" where
  "ggml_calc_conv_transpose_output_size ins ks s p = i64 ((ins - 1) * s - i32 (2 * p) + ks)"

section \<open>Image to column\<close>

definition ggml_im2col :: "heap \<Rightarrow> ptr \<Rightarrow> ptr \<Rightarrow> ptr \<Rightarrow> int \<Rightarrow> int \<Rightarrow> int \<Rightarrow> int \<Rightarrow> int \<Rightarrow> int \<Rightarrow> bool \<Rightarrow> ggml_type \<Rightarrow> node_result" where
  "ggml_im2col h ctx a b s0 s1 p0 p1 d0 d1 is_2D dst_type =
     do {
     ta \<leftarrow> tget h a; tb \<leftarrow> tget h b;
     gassert (if is_2D then ne_at ta 2 = ne_at tb 2 else ne_at tb 1 = ne_at ta 1 \<and> ne_at tb 3 = 1);
     OH \<leftarrow> (if is_2D then ggml_calc_conv_output_size (ne_at tb 1) (ne_at ta 1) s1 p1 d1 else Some 0);
     OW \<leftarrow> ggml_calc_conv_output_size (ne_at tb 0) (ne_at ta 0) s0 p0 d0;
     gassert (\<not> is_2D \<or> OH > 0);
     gassert (OW > 0);
     let ne = [if is_2D then i64 (ne_at ta 2 * ne_at ta 1 * ne_at ta 0) else i64 (ne_at ta 1 * ne_at ta 0),
               OW,
               if is_2D then OH else ne_at tb 2,
               if is_2D then ne_at tb 3 else 1];
     mk_node (ggml_new_tensor h ctx dst_type 4 ne)
       [ggml_set_op_params [word_of_int s0, word_of_int s1, word_of_int p0, word_of_int p1,
                            word_of_int d0, word_of_int d1, if is_2D then 1 else 0],
        set_op GGML_OP_IM2COL, set_src 0 a, set_src 1 b] }"

definition ggml_im2col_back :: "heap \<Rightarrow> ptr \<Rightarrow> ptr \<Rightarrow> ptr \<Rightarrow> int list \<Rightarrow> int \<Rightarrow> int \<Rightarrow> int \<Rightarrow> int \<Rightarrow> int \<Rightarrow> int \<Rightarrow> bool \<Rightarrow> node_result" where
  "ggml_im2col_back h ctx a b ne s0 s1 p0 p1 d0 d1 is_2D =
     mk_node (ggml_new_tensor h ctx GGML_TYPE_F32 4 ne)
       [ggml_set_op_params [word_of_int s0, word_of_int s1, word_of_int p0, word_of_int p1,
                            word_of_int d0, word_of_int d1, if is_2D then 1 else 0],
        set_op GGML_OP_IM2COL_BACK, set_src 0 a, set_src 1 b]"

definition ggml_im2col_3d :: "heap \<Rightarrow> ptr \<Rightarrow> ptr \<Rightarrow> ptr \<Rightarrow> int \<Rightarrow> int \<Rightarrow> int \<Rightarrow> int \<Rightarrow> int \<Rightarrow> int \<Rightarrow> int \<Rightarrow> int \<Rightarrow> int \<Rightarrow> int \<Rightarrow> ggml_type \<Rightarrow> node_result" where
  "ggml_im2col_3d h ctx a b IC s0 s1 s2 p0 p1 p2 d0 d1 d2 dst_type =
     do {
     ta \<leftarrow> tget h a; tb \<leftarrow> tget h b;
     N \<leftarrow> cdiv (ne_at tb 3) IC;
     let ID = ne_at tb 2; let IH = ne_at tb 1; let IW = ne_at tb 0;
     OC \<leftarrow> cdiv (ne_at ta 3) IC;
     let KD = ne_at ta 2; let KH = ne_at ta 1; let KW = ne_at ta 0;
     OD \<leftarrow> ggml_calc_conv_output_size ID KD s2 p2 d2;
     OH \<leftarrow> ggml_calc_conv_output_size IH KH s1 p1 d1;
     OW \<leftarrow> ggml_calc_conv_output_size IW KW s0 p0 d0;
     gassert (OD > 0);
     gassert (OH > 0);
     gassert (OW > 0);
     let ne = [i64 (KW * KH * KD * IC), OW, OH, i64 (OD * N)];
     mk_node (ggml_new_tensor h ctx dst_type 4 ne)
       [ggml_set_op_params (map word_of_int [s0, s1, s2, p0, p1, p2, d0, d1, d2, IC]),
        set_op GGML_OP_IM2COL_3D, set_src 0 a, set_src 1 b] }"

section \<open>Convolutions built from other operations\<close>

text \<open>
  These constructors call others and add several tensors.  Where two calls are arguments of one
  call, the model makes them in the order they are written.
\<close>

definition ggml_conv_1d :: "heap \<Rightarrow> ptr \<Rightarrow> ptr \<Rightarrow> ptr \<Rightarrow> int \<Rightarrow> int \<Rightarrow> int \<Rightarrow> node_result" where
  "ggml_conv_1d h ctx a b s0 p0 d0 =
     do {
     (im2col, h) \<leftarrow> ggml_im2col h ctx a b s0 0 p0 0 d0 0 False GGML_TYPE_F16;
     ti \<leftarrow> tget h im2col; ta \<leftarrow> tget h a;
     (x, h) \<leftarrow> ggml_reshape_2d h ctx im2col (ne_at ti 0) (i64 (ne_at ti 2 * ne_at ti 1));
     (y, h) \<leftarrow> ggml_reshape_2d h ctx a (i64 (ne_at ta 0 * ne_at ta 1)) (ne_at ta 2);
     (result, h) \<leftarrow> ggml_mul_mat h ctx x y;
     ggml_reshape_3d h ctx result (ne_at ti 1) (ne_at ta 2) (ne_at ti 2) }"

definition ggml_conv_1d_ph :: "heap \<Rightarrow> ptr \<Rightarrow> ptr \<Rightarrow> ptr \<Rightarrow> int \<Rightarrow> int \<Rightarrow> node_result" where
  "ggml_conv_1d_ph h ctx a b s d =
     do {
     ta \<leftarrow> tget h a;
     ggml_conv_1d h ctx a b s (i32 (ne_at ta 0 sdiv 2)) d }"

definition ggml_conv_1d_dw :: "heap \<Rightarrow> ptr \<Rightarrow> ptr \<Rightarrow> ptr \<Rightarrow> int \<Rightarrow> int \<Rightarrow> int \<Rightarrow> node_result" where
  "ggml_conv_1d_dw h ctx a b s0 p0 d0 =
     do {
     tb \<leftarrow> tget h b;
     (new_b, h) \<leftarrow> ggml_reshape_4d h ctx b (ne_at tb 0) 1 (ne_at tb 1) (ne_at tb 2);
     (im2col, h) \<leftarrow> ggml_im2col h ctx a new_b s0 0 p0 0 d0 0 False GGML_TYPE_F16;
     (result, h) \<leftarrow> ggml_mul_mat h ctx im2col a;
     tr \<leftarrow> tget h result;
     ggml_reshape_3d h ctx result (ne_at tr 0) (ne_at tr 2) 1 }"

definition ggml_conv_1d_dw_ph :: "heap \<Rightarrow> ptr \<Rightarrow> ptr \<Rightarrow> ptr \<Rightarrow> int \<Rightarrow> int \<Rightarrow> node_result" where
  "ggml_conv_1d_dw_ph h ctx a b s0 d0 =
     do {
     ta \<leftarrow> tget h a;
     ggml_conv_1d_dw h ctx a b s0 (i32 (ne_at ta 0 sdiv 2)) d0 }"

definition ggml_conv_2d :: "heap \<Rightarrow> ptr \<Rightarrow> ptr \<Rightarrow> ptr \<Rightarrow> int \<Rightarrow> int \<Rightarrow> int \<Rightarrow> int \<Rightarrow> int \<Rightarrow> int \<Rightarrow> node_result" where
  "ggml_conv_2d h ctx a b s0 s1 p0 p1 d0 d1 =
     do {
     ta \<leftarrow> tget h a;
     (im2col, h) \<leftarrow> ggml_im2col h ctx a b s0 s1 p0 p1 d0 d1 True (t_type ta);
     ti \<leftarrow> tget h im2col;
     (x, h) \<leftarrow> ggml_reshape_2d h ctx im2col (ne_at ti 0) (i64 (ne_at ti 3 * ne_at ti 2 * ne_at ti 1));
     (y, h) \<leftarrow> ggml_reshape_2d h ctx a (i64 (ne_at ta 0 * ne_at ta 1 * ne_at ta 2)) (ne_at ta 3);
     (result, h) \<leftarrow> ggml_mul_mat h ctx x y;
     (result, h) \<leftarrow> ggml_reshape_4d h ctx result (ne_at ti 1) (ne_at ti 2) (ne_at ti 3) (ne_at ta 3);
     (p, h) \<leftarrow> ggml_permute h ctx result 0 1 3 2;
     ggml_cont h ctx p }"

definition ggml_conv_3d :: "heap \<Rightarrow> ptr \<Rightarrow> ptr \<Rightarrow> ptr \<Rightarrow> int \<Rightarrow> int \<Rightarrow> int \<Rightarrow> int \<Rightarrow> int \<Rightarrow> int \<Rightarrow> int \<Rightarrow> int \<Rightarrow> int \<Rightarrow> int \<Rightarrow> node_result" where
  "ggml_conv_3d h ctx a b IC s0 s1 s2 p0 p1 p2 d0 d1 d2 =
     do {
     ta \<leftarrow> tget h a; tb \<leftarrow> tget h b;
     (im2col, h) \<leftarrow> ggml_im2col_3d h ctx a b IC s0 s1 s2 p0 p1 p2 d0 d1 d2 (t_type ta);
     ti \<leftarrow> tget h im2col;
     OC \<leftarrow> cdiv (ne_at ta 3) IC;
     N \<leftarrow> cdiv (ne_at tb 3) IC;
     (x, h) \<leftarrow> ggml_reshape_2d h ctx im2col (ne_at ti 0) (i64 (ne_at ti 3 * ne_at ti 2 * ne_at ti 1));
     (y, h) \<leftarrow> ggml_reshape_2d h ctx a (i64 (ne_at ta 0 * ne_at ta 1 * ne_at ta 2 * IC)) OC;
     (result, h) \<leftarrow> ggml_mul_mat h ctx x y;
     OD \<leftarrow> cdiv (ne_at ti 3) N;
     (result, h) \<leftarrow> ggml_reshape_4d h ctx result (i64 (ne_at ti 1 * ne_at ti 2)) OD N OC;
     (p, h) \<leftarrow> ggml_permute h ctx result 0 1 3 2;
     (result, h) \<leftarrow> ggml_cont h ctx p;
     ggml_reshape_4d h ctx result (ne_at ti 1) (ne_at ti 2) OD (i64 (OC * N)) }"

definition ggml_conv_2d_sk_p0 :: "heap \<Rightarrow> ptr \<Rightarrow> ptr \<Rightarrow> ptr \<Rightarrow> node_result" where
  "ggml_conv_2d_sk_p0 h ctx a b =
     do {
     ta \<leftarrow> tget h a;
     ggml_conv_2d h ctx a b (i32 (ne_at ta 0)) (i32 (ne_at ta 1)) 0 0 1 1 }"

definition ggml_conv_2d_s1_ph :: "heap \<Rightarrow> ptr \<Rightarrow> ptr \<Rightarrow> ptr \<Rightarrow> node_result" where
  "ggml_conv_2d_s1_ph h ctx a b =
     do {
     ta \<leftarrow> tget h a;
     ggml_conv_2d h ctx a b 1 1 (i32 (ne_at ta 0 sdiv 2)) (i32 (ne_at ta 1 sdiv 2)) 1 1 }"

definition ggml_conv_2d_dw :: "heap \<Rightarrow> ptr \<Rightarrow> ptr \<Rightarrow> ptr \<Rightarrow> int \<Rightarrow> int \<Rightarrow> int \<Rightarrow> int \<Rightarrow> int \<Rightarrow> int \<Rightarrow> node_result" where
  "ggml_conv_2d_dw h ctx a b s0 s1 p0 p1 d0 d1 =
     do {
     ta \<leftarrow> tget h a; tb \<leftarrow> tget h b;
     (new_a, h) \<leftarrow> ggml_reshape_4d h ctx a (ne_at ta 0) (ne_at ta 1) 1 (i64 (ne_at ta 2 * ne_at ta 3));
     (rb, h) \<leftarrow> ggml_reshape_4d h ctx b (ne_at tb 0) (ne_at tb 1) 1 (i64 (ne_at tb 2 * ne_at tb 3));
     (im2col, h) \<leftarrow> ggml_im2col h ctx new_a rb s0 s1 p0 p1 d0 d1 True GGML_TYPE_F16;
     ti \<leftarrow> tget h im2col;
     (new_b, h) \<leftarrow> ggml_reshape_4d h ctx im2col (ne_at ti 0) (i64 (ne_at ti 2 * ne_at ti 1)) (ne_at tb 2) (ne_at tb 3);
     tn \<leftarrow> tget h new_a;
     (new_a, h) \<leftarrow> ggml_reshape_4d h ctx new_a (i64 (ne_at tn 0 * ne_at tn 1)) (ne_at tn 2) (ne_at tn 3) 1;
     (result, h) \<leftarrow> ggml_mul_mat h ctx new_a new_b;
     ggml_reshape_4d h ctx result (ne_at ti 1) (ne_at ti 2) (ne_at tb 2) (ne_at tb 3) }"

section \<open>Direct convolutions\<close>

definition ggml_conv_transpose_1d :: "heap \<Rightarrow> ptr \<Rightarrow> ptr \<Rightarrow> ptr \<Rightarrow> int \<Rightarrow> int \<Rightarrow> int \<Rightarrow> node_result" where
  "ggml_conv_transpose_1d h ctx a b s0 p0 d0 =
     do {
     ta \<leftarrow> tget h a; tb \<leftarrow> tget h b;
     gassert (ggml_is_matrix tb);
     gassert (ne_at ta 2 = ne_at tb 1);
     gassert (ne_at ta 3 = 1);
     gassert (p0 = 0);
     gassert (d0 = 1);
     let ne = [ggml_calc_conv_transpose_1d_output_size (ne_at tb 0) (ne_at ta 0) s0 0 1,
               ne_at ta 1, ne_at tb 2, 1];
     mk_node (ggml_new_tensor h ctx GGML_TYPE_F32 4 ne)
       [ggml_set_op_params [word_of_int s0, word_of_int p0, word_of_int d0],
        set_op GGML_OP_CONV_TRANSPOSE_1D, set_src 0 a, set_src 1 b] }"

definition ggml_conv_2d_dw_direct :: "heap \<Rightarrow> ptr \<Rightarrow> ptr \<Rightarrow> ptr \<Rightarrow> int \<Rightarrow> int \<Rightarrow> int \<Rightarrow> int \<Rightarrow> int \<Rightarrow> int \<Rightarrow> node_result" where
  "ggml_conv_2d_dw_direct h ctx a b stride0 stride1 pad0 pad1 dilation0 dilation1 =
     do {
     ta \<leftarrow> tget h a; tb \<leftarrow> tget h b;
     gassert (ne_at ta 2 = 1);
     gassert (ne_at ta 3 = ne_at tb 2);
     n0 \<leftarrow> ggml_calc_conv_output_size (ne_at tb 0) (ne_at ta 0) stride0 pad0 dilation0;
     n1 \<leftarrow> ggml_calc_conv_output_size (ne_at tb 1) (ne_at ta 1) stride1 pad1 dilation1;
     let ne = [n0, n1, ne_at tb 2, ne_at tb 3];
     let type_size = ggml_type_size (t_type tb);
     gassert (ggml_is_contiguous_channels tb \<longrightarrow> ggml_blck_size (t_type tb) = 1);
     let nb0 = u64 (ne ! 2 * type_size);
     mk_node (ggml_new_tensor h ctx (t_type tb) 4 ne)
       ((if ggml_is_contiguous_channels tb
         then [set_nb 0 nb0, set_nb 1 (u64 (ne ! 0 * nb0)), set_nb 2 type_size] else []) @
        [ggml_set_op_params [word_of_int stride0, word_of_int stride1, word_of_int pad0, word_of_int pad1,
                             word_of_int dilation0, word_of_int dilation1],
         set_op GGML_OP_CONV_2D_DW, set_src 0 a, set_src 1 b]) }"

definition ggml_conv_2d_direct :: "heap \<Rightarrow> ptr \<Rightarrow> ptr \<Rightarrow> ptr \<Rightarrow> int \<Rightarrow> int \<Rightarrow> int \<Rightarrow> int \<Rightarrow> int \<Rightarrow> int \<Rightarrow> node_result" where
  "ggml_conv_2d_direct h ctx a b s0 s1 p0 p1 d0 d1 =
     do {
     ta \<leftarrow> tget h a; tb \<leftarrow> tget h b;
     gassert (ne_at ta 2 = ne_at tb 2);
     n0 \<leftarrow> ggml_calc_conv_output_size (ne_at tb 0) (ne_at ta 0) s0 p0 d0;
     n1 \<leftarrow> ggml_calc_conv_output_size (ne_at tb 1) (ne_at ta 1) s1 p1 d1;
     let ne = [n0, n1, ne_at ta 3, ne_at tb 3];
     mk_node (ggml_new_tensor h ctx (t_type tb) 4 ne)
       [ggml_set_op_params_i32 0 s0, ggml_set_op_params_i32 1 s1, ggml_set_op_params_i32 2 p0,
        ggml_set_op_params_i32 3 p1, ggml_set_op_params_i32 4 d0, ggml_set_op_params_i32 5 d1,
        set_op GGML_OP_CONV_2D, set_src 0 a, set_src 1 b] }"

definition ggml_conv_3d_direct :: "heap \<Rightarrow> ptr \<Rightarrow> ptr \<Rightarrow> ptr \<Rightarrow> int \<Rightarrow> int \<Rightarrow> int \<Rightarrow> int \<Rightarrow> int \<Rightarrow> int \<Rightarrow> int \<Rightarrow> int \<Rightarrow> int \<Rightarrow> int \<Rightarrow> int \<Rightarrow> int \<Rightarrow> node_result" where
  "ggml_conv_3d_direct h ctx a b s0 s1 s2 p0 p1 p2 d0 d1 d2 c n oc =
     do {
     ta \<leftarrow> tget h a; tb \<leftarrow> tget h b;
     gassert (ne_at ta 3 = i64 (c * oc));
     gassert (ne_at tb 3 = i64 (c * n));
     n0 \<leftarrow> ggml_calc_conv_output_size (ne_at tb 0) (ne_at ta 0) s0 p0 d0;
     n1 \<leftarrow> ggml_calc_conv_output_size (ne_at tb 1) (ne_at ta 1) s1 p1 d1;
     n2 \<leftarrow> ggml_calc_conv_output_size (ne_at tb 2) (ne_at ta 2) s2 p2 d2;
     let ne = [n0, n1, n2, i64 (oc * n)];
     mk_node (ggml_new_tensor h ctx GGML_TYPE_F32 4 ne)
       [ggml_set_op_params_i32 0 s0, ggml_set_op_params_i32 1 s1, ggml_set_op_params_i32 2 s2,
        ggml_set_op_params_i32 3 p0, ggml_set_op_params_i32 4 p1, ggml_set_op_params_i32 5 p2,
        ggml_set_op_params_i32 6 d0, ggml_set_op_params_i32 7 d1, ggml_set_op_params_i32 8 d2,
        ggml_set_op_params_i32 9 c, ggml_set_op_params_i32 10 n, ggml_set_op_params_i32 11 oc,
        set_op GGML_OP_CONV_3D, set_src 0 a, set_src 1 b] }"

definition ggml_conv_transpose_2d_p0 :: "heap \<Rightarrow> ptr \<Rightarrow> ptr \<Rightarrow> ptr \<Rightarrow> int \<Rightarrow> node_result" where
  "ggml_conv_transpose_2d_p0 h ctx a b stride =
     do {
     ta \<leftarrow> tget h a; tb \<leftarrow> tget h b;
     gassert (ne_at ta 3 = ne_at tb 2);
     let ne = [ggml_calc_conv_transpose_output_size (ne_at tb 0) (ne_at ta 0) stride 0,
               ggml_calc_conv_transpose_output_size (ne_at tb 1) (ne_at ta 1) stride 0,
               ne_at ta 2, ne_at tb 3];
     mk_node (ggml_new_tensor h ctx GGML_TYPE_F32 4 ne)
       [ggml_set_op_params_i32 0 stride, set_op GGML_OP_CONV_TRANSPOSE_2D, set_src 0 a, set_src 1 b] }"

section \<open>Pooling\<close>

datatype ggml_op_pool = GGML_OP_POOL_MAX | GGML_OP_POOL_AVG

primrec enum_of_pool :: "ggml_op_pool \<Rightarrow> int" where
    "enum_of_pool GGML_OP_POOL_MAX = 0"
  | "enum_of_pool GGML_OP_POOL_AVG = 1"

text \<open>The padding is a float, so the size is computed in float arithmetic and truncated.\<close>

definition ggml_calc_pool_output_size :: "float_ops \<Rightarrow> int \<Rightarrow> int \<Rightarrow> int \<Rightarrow> 32 word \<Rightarrow> int" where
  "ggml_calc_pool_output_size fo ins ks s p =
     (let x = f_sub fo (f_add fo (f_of_int fo ins) (f_mul fo (f_of_int fo 2) p)) (f_of_int fo ks) in
      i64 (f_to_int fo (f_add fo (f_div fo x (f_of_int fo s)) (f_of_int fo 1))))"

definition ggml_pool_1d :: "float_ops \<Rightarrow> heap \<Rightarrow> ptr \<Rightarrow> ptr \<Rightarrow> ggml_op_pool \<Rightarrow> int \<Rightarrow> int \<Rightarrow> int \<Rightarrow> node_result" where
  "ggml_pool_1d fo h ctx a op k0 s0 p0 =
     do {
     ta \<leftarrow> tget h a;
     let ne = [ggml_calc_pool_output_size fo (ne_at ta 0) k0 s0 (f_of_int fo p0), ne_at ta 1, ne_at ta 2, ne_at ta 3];
     gassert (ne ! 0 > 0);
     mk_node (ggml_new_tensor h ctx GGML_TYPE_F32 4 ne)
       [ggml_set_op_params [word_of_int (enum_of_pool op), word_of_int k0, word_of_int s0, word_of_int p0],
        set_op GGML_OP_POOL_1D, set_src 0 a] }"

definition ggml_pool_2d :: "float_ops \<Rightarrow> heap \<Rightarrow> ptr \<Rightarrow> ptr \<Rightarrow> ggml_op_pool \<Rightarrow> int \<Rightarrow> int \<Rightarrow> int \<Rightarrow> int \<Rightarrow> 32 word \<Rightarrow> 32 word \<Rightarrow> node_result" where
  "ggml_pool_2d fo h ctx a op k0 k1 s0 s1 p0 p1 =
     do {
     ta \<leftarrow> tget h a;
     let ne = [ggml_calc_pool_output_size fo (ne_at ta 0) k0 s0 p0,
               ggml_calc_pool_output_size fo (ne_at ta 1) k1 s1 p1, ne_at ta 2, ne_at ta 3];
     gassert (ne ! 0 > 0);
     gassert (ne ! 1 > 0);
     mk_node (ggml_new_tensor h ctx GGML_TYPE_F32 4 ne)
       [ggml_set_op_params [word_of_int (enum_of_pool op), word_of_int k0, word_of_int k1, word_of_int s0,
                            word_of_int s1, word_of_int (f_to_int fo p0), word_of_int (f_to_int fo p1)],
        set_op GGML_OP_POOL_2D, set_src 0 a] }"

definition ggml_pool_2d_back :: "float_ops \<Rightarrow> heap \<Rightarrow> ptr \<Rightarrow> ptr \<Rightarrow> ptr \<Rightarrow> ggml_op_pool \<Rightarrow> int \<Rightarrow> int \<Rightarrow> int \<Rightarrow> int \<Rightarrow> 32 word \<Rightarrow> 32 word \<Rightarrow> node_result" where
  "ggml_pool_2d_back fo h ctx a af op k0 k1 s0 s1 p0 p1 =
     do {
     tf \<leftarrow> tget h af;
     mk_node (ggml_new_tensor h ctx GGML_TYPE_F32 4 (t_ne tf))
       [ggml_set_op_params [word_of_int (enum_of_pool op), word_of_int k0, word_of_int k1, word_of_int s0,
                            word_of_int s1, word_of_int (f_to_int fo p0), word_of_int (f_to_int fo p1)],
        set_op GGML_OP_POOL_2D_BACK, set_src 0 a, set_src 1 af] }"

section \<open>Resizing and padding\<close>

definition ggml_interpolate_impl :: "heap \<Rightarrow> ptr \<Rightarrow> ptr \<Rightarrow> int \<Rightarrow> int \<Rightarrow> int \<Rightarrow> int \<Rightarrow> int \<Rightarrow> node_result" where
  "ggml_interpolate_impl h ctx a ne0 ne1 ne2 ne3 mode =
     do {
     gassert (mode AND 0xFF < 3);
     gassert (mode AND 512 = 0 \<or> mode AND 0xFF = 1);
     ta \<leftarrow> tget h a;
     gassert (t_type ta = GGML_TYPE_F32);
     mk_node (ggml_new_tensor_4d h ctx (t_type ta) ne0 ne1 ne2 ne3)
       [ggml_set_op_params_i32 0 mode, set_op GGML_OP_UPSCALE, set_src 0 a] }"

definition ggml_upscale :: "heap \<Rightarrow> ptr \<Rightarrow> ptr \<Rightarrow> int \<Rightarrow> int \<Rightarrow> node_result" where
  "ggml_upscale h ctx a scale_factor mode =
     do {
     gassert (scale_factor > 1);
     ta \<leftarrow> tget h a;
     ggml_interpolate_impl h ctx a (i64 (ne_at ta 0 * scale_factor)) (i64 (ne_at ta 1 * scale_factor))
       (ne_at ta 2) (ne_at ta 3) mode }"

definition ggml_upscale_ext :: "heap \<Rightarrow> ptr \<Rightarrow> ptr \<Rightarrow> int \<Rightarrow> int \<Rightarrow> int \<Rightarrow> int \<Rightarrow> int \<Rightarrow> node_result" where
  "ggml_upscale_ext h ctx a ne0 ne1 ne2 ne3 mode =
     ggml_interpolate_impl h ctx a ne0 ne1 ne2 ne3 mode"

definition ggml_interpolate :: "heap \<Rightarrow> ptr \<Rightarrow> ptr \<Rightarrow> int \<Rightarrow> int \<Rightarrow> int \<Rightarrow> int \<Rightarrow> int \<Rightarrow> node_result" where
  "ggml_interpolate h ctx a ne0 ne1 ne2 ne3 mode =
     ggml_interpolate_impl h ctx a ne0 ne1 ne2 ne3 mode"

definition ggml_pad_ext :: "heap \<Rightarrow> ptr \<Rightarrow> ptr \<Rightarrow> int \<Rightarrow> int \<Rightarrow> int \<Rightarrow> int \<Rightarrow> int \<Rightarrow> int \<Rightarrow> int \<Rightarrow> int \<Rightarrow> node_result" where
  "ggml_pad_ext h ctx a lp0 rp0 lp1 rp1 lp2 rp2 lp3 rp3 =
     do {
     ta \<leftarrow> tget h a;
     mk_node (ggml_new_tensor_4d h ctx (t_type ta)
         (i64 (ne_at ta 0 + lp0 + rp0)) (i64 (ne_at ta 1 + lp1 + rp1))
         (i64 (ne_at ta 2 + lp2 + rp2)) (i64 (ne_at ta 3 + lp3 + rp3)))
       [ggml_set_op_params_i32 0 lp0, ggml_set_op_params_i32 1 rp0, ggml_set_op_params_i32 2 lp1,
        ggml_set_op_params_i32 3 rp1, ggml_set_op_params_i32 4 lp2, ggml_set_op_params_i32 5 rp2,
        ggml_set_op_params_i32 6 lp3, ggml_set_op_params_i32 7 rp3, ggml_set_op_params_i32 8 0,
        set_op GGML_OP_PAD, set_src 0 a] }"

definition ggml_pad_ext_circular :: "heap \<Rightarrow> ptr \<Rightarrow> ptr \<Rightarrow> int \<Rightarrow> int \<Rightarrow> int \<Rightarrow> int \<Rightarrow> int \<Rightarrow> int \<Rightarrow> int \<Rightarrow> int \<Rightarrow> node_result" where
  "ggml_pad_ext_circular h ctx a lp0 rp0 lp1 rp1 lp2 rp2 lp3 rp3 =
     mk_node (ggml_pad_ext h ctx a lp0 rp0 lp1 rp1 lp2 rp2 lp3 rp3) [ggml_set_op_params_i32 8 1]"

definition ggml_pad :: "heap \<Rightarrow> ptr \<Rightarrow> ptr \<Rightarrow> int \<Rightarrow> int \<Rightarrow> int \<Rightarrow> int \<Rightarrow> node_result" where
  "ggml_pad h ctx a p0 p1 p2 p3 =
     ggml_pad_ext h ctx a 0 p0 0 p1 0 p2 0 p3"

definition ggml_pad_circular :: "heap \<Rightarrow> ptr \<Rightarrow> ptr \<Rightarrow> int \<Rightarrow> int \<Rightarrow> int \<Rightarrow> int \<Rightarrow> node_result" where
  "ggml_pad_circular h ctx a p0 p1 p2 p3 =
     ggml_pad_ext_circular h ctx a 0 p0 0 p1 0 p2 0 p3"

definition ggml_pad_reflect_1d :: "heap \<Rightarrow> ptr \<Rightarrow> ptr \<Rightarrow> int \<Rightarrow> int \<Rightarrow> node_result" where
  "ggml_pad_reflect_1d h ctx a p0 p1 =
     do {
     gassert (p0 \<ge> 0);
     gassert (p1 \<ge> 0);
     ta \<leftarrow> tget h a;
     gassert (p0 < ne_at ta 0);
     gassert (p1 < ne_at ta 0);
     gassert (ggml_is_contiguous ta);
     gassert (t_type ta = GGML_TYPE_F32);
     mk_node (ggml_new_tensor_4d h ctx (t_type ta) (i64 (ne_at ta 0 + p0 + p1)) (ne_at ta 1) (ne_at ta 2) (ne_at ta 3))
       [ggml_set_op_params [word_of_int p0, word_of_int p1], set_op GGML_OP_PAD_REFLECT_1D, set_src 0 a] }"

definition ggml_roll :: "heap \<Rightarrow> ptr \<Rightarrow> ptr \<Rightarrow> int \<Rightarrow> int \<Rightarrow> int \<Rightarrow> int \<Rightarrow> node_result" where
  "ggml_roll h ctx a shift0 shift1 shift2 shift3 =
     do {
     ta \<leftarrow> tget h a;
     gassert (nb_at ta 0 = ggml_type_size (t_type ta));
     gassert (\<bar>shift0\<bar> < ne_at ta 0);
     gassert (\<bar>shift1\<bar> < ne_at ta 1);
     gassert (\<bar>shift2\<bar> < ne_at ta 2);
     gassert (\<bar>shift3\<bar> < ne_at ta 3);
     mk_node (ggml_dup_tensor h ctx a)
       [ggml_set_op_params_i32 0 shift0, ggml_set_op_params_i32 1 shift1, ggml_set_op_params_i32 2 shift2,
        ggml_set_op_params_i32 3 shift3, set_op GGML_OP_ROLL, set_src 0 a] }"

section \<open>Generation, masking and sorting\<close>

definition ggml_timestep_embedding :: "heap \<Rightarrow> ptr \<Rightarrow> ptr \<Rightarrow> int \<Rightarrow> int \<Rightarrow> node_result" where
  "ggml_timestep_embedding h ctx timesteps dim max_period =
     do {
     tt \<leftarrow> tget h timesteps;
     mk_node (ggml_new_tensor_2d h ctx GGML_TYPE_F32 dim (ne_at tt 0))
       [ggml_set_op_params_i32 0 dim, ggml_set_op_params_i32 1 max_period,
        set_op GGML_OP_TIMESTEP_EMBEDDING, set_src 0 timesteps] }"

datatype ggml_tri_type =
    GGML_TRI_TYPE_UPPER_DIAG | GGML_TRI_TYPE_UPPER | GGML_TRI_TYPE_LOWER_DIAG | GGML_TRI_TYPE_LOWER

primrec enum_of_tri :: "ggml_tri_type \<Rightarrow> int" where
    "enum_of_tri GGML_TRI_TYPE_UPPER_DIAG = 0"
  | "enum_of_tri GGML_TRI_TYPE_UPPER = 1"
  | "enum_of_tri GGML_TRI_TYPE_LOWER_DIAG = 2"
  | "enum_of_tri GGML_TRI_TYPE_LOWER = 3"

definition ggml_tri :: "heap \<Rightarrow> ptr \<Rightarrow> ptr \<Rightarrow> ggml_tri_type \<Rightarrow> node_result" where
  "ggml_tri h ctx a type =
     do {
     ta \<leftarrow> tget h a;
     gassert (t_type ta = GGML_TYPE_F32);
     gassert (ggml_is_contiguous ta);
     gassert (ne_at ta 0 = ne_at ta 1);
     mk_node (ggml_dup_tensor h ctx a)
       [ggml_set_op_params_i32 0 (enum_of_tri type), set_op GGML_OP_TRI, set_src 0 a] }"

definition ggml_fill_impl :: "heap \<Rightarrow> ptr \<Rightarrow> ptr \<Rightarrow> 32 word \<Rightarrow> bool \<Rightarrow> node_result" where
  "ggml_fill_impl h ctx a c inplace =
     do {
     ta \<leftarrow> tget h a;
     gassert (t_type ta = GGML_TYPE_F32);
     gassert (ggml_is_contiguous ta);
     mk_node (if inplace then ggml_view_tensor h ctx a else ggml_dup_tensor h ctx a)
       [ggml_set_op_params_f32 0 c, set_op GGML_OP_FILL, set_src 0 a] }"

definition ggml_fill :: "heap \<Rightarrow> ptr \<Rightarrow> ptr \<Rightarrow> 32 word \<Rightarrow> node_result" where
  "ggml_fill h ctx a c =
     ggml_fill_impl h ctx a c False"

definition ggml_fill_inplace :: "heap \<Rightarrow> ptr \<Rightarrow> ptr \<Rightarrow> 32 word \<Rightarrow> node_result" where
  "ggml_fill_inplace h ctx a c =
     ggml_fill_impl h ctx a c True"

datatype ggml_sort_order = GGML_SORT_ORDER_ASC | GGML_SORT_ORDER_DESC

primrec enum_of_order :: "ggml_sort_order \<Rightarrow> int" where
    "enum_of_order GGML_SORT_ORDER_ASC = 0"
  | "enum_of_order GGML_SORT_ORDER_DESC = 1"

definition ggml_argsort :: "heap \<Rightarrow> ptr \<Rightarrow> ptr \<Rightarrow> ggml_sort_order \<Rightarrow> node_result" where
  "ggml_argsort h ctx a order =
     do {
     ta \<leftarrow> tget h a;
     gassert (ne_at ta 0 \<le> 2147483647);
     mk_node (ggml_new_tensor h ctx GGML_TYPE_I32 GGML_MAX_DIMS (t_ne ta))
       [ggml_set_op_params_i32 0 (enum_of_order order), set_op GGML_OP_ARGSORT, set_src 0 a] }"

definition ggml_argsort_top_k :: "heap \<Rightarrow> ptr \<Rightarrow> ptr \<Rightarrow> int \<Rightarrow> node_result" where
  "ggml_argsort_top_k h ctx a k =
     do {
     ta \<leftarrow> tget h a;
     gassert (ne_at ta 0 \<ge> k);
     (result, h) \<leftarrow> ggml_argsort h ctx a GGML_SORT_ORDER_DESC;
     tr \<leftarrow> tget h result;
     ggml_view_4d h ctx result k (ne_at tr 1) (ne_at tr 2) (ne_at tr 3) (nb_at tr 1) (nb_at tr 2) (nb_at tr 3) 0 }"

definition ggml_top_k :: "heap \<Rightarrow> ptr \<Rightarrow> ptr \<Rightarrow> int \<Rightarrow> node_result" where
  "ggml_top_k h ctx a k =
     do {
     ta \<leftarrow> tget h a;
     gassert (ne_at ta 0 \<ge> k);
     mk_node (ggml_new_tensor_4d h ctx GGML_TYPE_I32 k (ne_at ta 1) (ne_at ta 2) (ne_at ta 3))
       [set_op GGML_OP_TOP_K, set_src 0 a] }"

definition ggml_arange :: "float_ops \<Rightarrow> heap \<Rightarrow> ptr \<Rightarrow> 32 word \<Rightarrow> 32 word \<Rightarrow> 32 word \<Rightarrow> node_result" where
  "ggml_arange fo h ctx start stop step =
     do {
     gassert (f_gt fo stop start);
     let steps = f_to_int fo (f_ceil fo (f_div fo (f_sub fo stop start) step));
     mk_node (ggml_new_tensor_1d h ctx GGML_TYPE_F32 steps)
       [ggml_set_op_params_f32 0 start, ggml_set_op_params_f32 1 stop, ggml_set_op_params_f32 2 step,
        set_op GGML_OP_ARANGE] }"

section \<open>Every constructor adds well-formed tensors\<close>

lemma conv_impl_a_creates [creates_intros]:
  assumes "heap_inv h" "live h a"
  shows "creates h (ggml_interpolate_impl h ctx a ne0 ne1 ne2 ne3 mode) (\<lambda>_. True)"
    "creates h (ggml_pad_ext h ctx a lp0 rp0 lp1 rp1 lp2 rp2 lp3 rp3) (\<lambda>_. True)"
    "creates h (ggml_pad_ext_circular h ctx a lp0 rp0 lp1 rp1 lp2 rp2 lp3 rp3) (\<lambda>_. True)"
    "creates h (ggml_fill_impl h ctx a c inplace) (\<lambda>_. True)"
  unfolding ggml_interpolate_impl_def
    ggml_pad_ext_def
    ggml_pad_ext_circular_def
    ggml_fill_impl_def
  using assms
  by (intro creates_bind creates_let creates_if mk_node_any creates_intros; simp add: node_simps GGML_N_OP_PARAMS_def)+

lemma conv_a_b_creates [creates_intros]:
  assumes "heap_inv h" "live h a" "live h b"
  shows "creates h (ggml_im2col h ctx a b s0 s1 p0 p1 d0 d1 is_2D dst_type) (\<lambda>_. True)"
    "creates h (ggml_im2col_back h ctx a b ne s0 s1 p0 p1 d0 d1 is_2D) (\<lambda>_. True)"
    "creates h (ggml_im2col_3d h ctx a b IC s0 s1 s2 p0 p1 p2 d0 d1 d2 dst_type) (\<lambda>_. True)"
    "creates h (ggml_conv_transpose_1d h ctx a b s0 p0 d0) (\<lambda>_. True)"
    "creates h (ggml_conv_2d_dw_direct h ctx a b stride0 stride1 pad0 pad1 dilation0 dilation1) (\<lambda>_. True)"
    "creates h (ggml_conv_2d_direct h ctx a b s0 s1 p0 p1 d0 d1) (\<lambda>_. True)"
    "creates h (ggml_conv_3d_direct h ctx a b s0 s1 s2 p0 p1 p2 d0 d1 d2 c n oc) (\<lambda>_. True)"
    "creates h (ggml_conv_transpose_2d_p0 h ctx a b stride) (\<lambda>_. True)"
  unfolding ggml_im2col_def
    ggml_im2col_back_def
    ggml_im2col_3d_def
    ggml_conv_transpose_1d_def
    ggml_conv_2d_dw_direct_def
    ggml_conv_2d_direct_def
    ggml_conv_3d_direct_def
    ggml_conv_transpose_2d_p0_def
  using assms
  by (intro creates_bind creates_let creates_if mk_node_any creates_intros; simp add: node_simps GGML_N_OP_PARAMS_def)+

lemma conv_a_creates [creates_intros]:
  assumes "heap_inv h" "live h a"
  shows "creates h (ggml_upscale h ctx a scale_factor mode) (\<lambda>_. True)"
    "creates h (ggml_upscale_ext h ctx a ne0 ne1 ne2 ne3 mode) (\<lambda>_. True)"
    "creates h (ggml_interpolate h ctx a ne0 ne1 ne2 ne3 mode) (\<lambda>_. True)"
    "creates h (ggml_pad h ctx a p0 p1 p2 p3) (\<lambda>_. True)"
    "creates h (ggml_pad_circular h ctx a p0 p1 p2 p3) (\<lambda>_. True)"
    "creates h (ggml_pad_reflect_1d h ctx a p0 p1) (\<lambda>_. True)"
    "creates h (ggml_roll h ctx a shift0 shift1 shift2 shift3) (\<lambda>_. True)"
    "creates h (ggml_tri h ctx a type) (\<lambda>_. True)"
    "creates h (ggml_fill h ctx a c) (\<lambda>_. True)"
    "creates h (ggml_fill_inplace h ctx a c) (\<lambda>_. True)"
    "creates h (ggml_argsort h ctx a order) (\<lambda>_. True)"
    "creates h (ggml_top_k h ctx a k) (\<lambda>_. True)"
  unfolding ggml_upscale_def
    ggml_upscale_ext_def
    ggml_interpolate_def
    ggml_pad_def
    ggml_pad_circular_def
    ggml_pad_reflect_1d_def
    ggml_roll_def
    ggml_tri_def
    ggml_fill_def
    ggml_fill_inplace_def
    ggml_argsort_def
    ggml_top_k_def
  using assms
  by (intro creates_bind creates_let creates_if mk_node_any creates_intros; simp add: node_simps GGML_N_OP_PARAMS_def)+

lemma conv_timesteps_creates [creates_intros]:
  assumes "heap_inv h" "live h timesteps"
  shows "creates h (ggml_timestep_embedding h ctx timesteps dim max_period) (\<lambda>_. True)"
  unfolding ggml_timestep_embedding_def
  using assms
  by (intro creates_bind creates_let creates_if mk_node_any creates_intros; simp add: node_simps GGML_N_OP_PARAMS_def)+

lemma ggml_pool_1d_creates [creates_intros]:
  assumes "heap_inv h" "live h a"
  shows "creates h (ggml_pool_1d fo h ctx a op k0 s0 p0) (\<lambda>_. True)"
  unfolding ggml_pool_1d_def using assms
  by (intro creates_bind creates_let creates_if mk_node_any creates_intros; simp add: node_simps GGML_N_OP_PARAMS_def)

lemma ggml_pool_2d_creates [creates_intros]:
  assumes "heap_inv h" "live h a"
  shows "creates h (ggml_pool_2d fo h ctx a op k0 k1 s0 s1 p0 p1) (\<lambda>_. True)"
  unfolding ggml_pool_2d_def using assms
  by (intro creates_bind creates_let creates_if mk_node_any creates_intros; simp add: node_simps GGML_N_OP_PARAMS_def)

lemma ggml_pool_2d_back_creates [creates_intros]:
  assumes "heap_inv h" "live h a" "live h af"
  shows "creates h (ggml_pool_2d_back fo h ctx a af op k0 k1 s0 s1 p0 p1) (\<lambda>_. True)"
  unfolding ggml_pool_2d_back_def using assms
  by (intro creates_bind creates_let creates_if mk_node_any creates_intros; simp add: node_simps GGML_N_OP_PARAMS_def)

lemma ggml_arange_creates [creates_intros]:
  assumes "heap_inv h"
  shows "creates h (ggml_arange fo h ctx start stop step) (\<lambda>_. True)"
  unfolding ggml_arange_def using assms
  by (intro creates_bind creates_let creates_if mk_node_any creates_intros; simp add: node_simps GGML_N_OP_PARAMS_def)

lemmas creates_grows_any = creates_grows [where P = "\<lambda>_. True"]

lemma ggml_conv_1d_grows [grows_intros]:
  assumes "heap_inv h" "live h a" "live h b"
  shows "grows h (ggml_conv_1d h ctx a b s0 p0 d0)"
  unfolding ggml_conv_1d_def using assms
  by (intro grows_seq grows_bind grows_intros creates_grows_any creates_intros; simp)

lemma ggml_conv_1d_ph_grows [grows_intros]:
  assumes "heap_inv h" "live h a" "live h b"
  shows "grows h (ggml_conv_1d_ph h ctx a b s d)"
  unfolding ggml_conv_1d_ph_def using assms
  by (intro grows_seq grows_bind grows_intros creates_grows_any creates_intros; simp)

lemma ggml_conv_1d_dw_grows [grows_intros]:
  assumes "heap_inv h" "live h a" "live h b"
  shows "grows h (ggml_conv_1d_dw h ctx a b s0 p0 d0)"
  unfolding ggml_conv_1d_dw_def using assms
  by (intro grows_seq grows_bind grows_intros creates_grows_any creates_intros; simp)

lemma ggml_conv_1d_dw_ph_grows [grows_intros]:
  assumes "heap_inv h" "live h a" "live h b"
  shows "grows h (ggml_conv_1d_dw_ph h ctx a b s0 d0)"
  unfolding ggml_conv_1d_dw_ph_def using assms
  by (intro grows_seq grows_bind grows_intros creates_grows_any creates_intros; simp)

lemma ggml_conv_2d_grows [grows_intros]:
  assumes "heap_inv h" "live h a" "live h b"
  shows "grows h (ggml_conv_2d h ctx a b s0 s1 p0 p1 d0 d1)"
  unfolding ggml_conv_2d_def using assms
  by (intro grows_seq grows_bind grows_intros creates_grows_any creates_intros; simp)

lemma ggml_conv_3d_grows [grows_intros]:
  assumes "heap_inv h" "live h a" "live h b"
  shows "grows h (ggml_conv_3d h ctx a b IC s0 s1 s2 p0 p1 p2 d0 d1 d2)"
  unfolding ggml_conv_3d_def using assms
  by (intro grows_seq grows_bind grows_intros creates_grows_any creates_intros; simp)

lemma ggml_conv_2d_sk_p0_grows [grows_intros]:
  assumes "heap_inv h" "live h a" "live h b"
  shows "grows h (ggml_conv_2d_sk_p0 h ctx a b)"
  unfolding ggml_conv_2d_sk_p0_def using assms
  by (intro grows_seq grows_bind grows_intros creates_grows_any creates_intros; simp)

lemma ggml_conv_2d_s1_ph_grows [grows_intros]:
  assumes "heap_inv h" "live h a" "live h b"
  shows "grows h (ggml_conv_2d_s1_ph h ctx a b)"
  unfolding ggml_conv_2d_s1_ph_def using assms
  by (intro grows_seq grows_bind grows_intros creates_grows_any creates_intros; simp)

lemma ggml_conv_2d_dw_grows [grows_intros]:
  assumes "heap_inv h" "live h a" "live h b"
  shows "grows h (ggml_conv_2d_dw h ctx a b s0 s1 p0 p1 d0 d1)"
  unfolding ggml_conv_2d_dw_def using assms
  by (intro grows_seq grows_bind grows_intros creates_grows_any creates_intros; simp)

lemma ggml_argsort_top_k_grows [grows_intros]:
  assumes "heap_inv h" "live h a"
  shows "grows h (ggml_argsort_top_k h ctx a k)"
  unfolding ggml_argsort_top_k_def using assms
  by (intro grows_seq grows_bind grows_intros creates_grows_any creates_intros; simp)

end
