(* ===== verification/OpsModel.thy ===== *)
theory OpsModel
  imports OpsConv
begin

text \<open>
  The constructors of ggml.c for attention, state-space and recurrent layers, windows, custom
  operations, losses, optimiser steps, and the rotation of this fork (ggml_turbo_wht).
\<close>

text \<open>Tensor flags (ggml.h).\<close>

definition GGML_TENSOR_FLAG_INPUT :: int where "GGML_TENSOR_FLAG_INPUT = 1"

definition GGML_TENSOR_FLAG_OUTPUT :: int where "GGML_TENSOR_FLAG_OUTPUT = 2"

definition GGML_TENSOR_FLAG_PARAM :: int where "GGML_TENSOR_FLAG_PARAM = 4"

definition GGML_TENSOR_FLAG_LOSS :: int where "GGML_TENSOR_FLAG_LOSS = 8"

definition GGML_TENSOR_FLAG_COMPUTE :: int where "GGML_TENSOR_FLAG_COMPUTE = 16"

section \<open>Attention\<close>

definition ggml_flash_attn_ext :: "heap \<Rightarrow> ptr \<Rightarrow> ptr \<Rightarrow> ptr \<Rightarrow> ptr \<Rightarrow> ptr \<Rightarrow> 32 word \<Rightarrow> 32 word \<Rightarrow> 32 word \<Rightarrow> node_result" where
  "ggml_flash_attn_ext h ctx q k v msk scale max_bias logit_softcap =
     do {
     tk \<leftarrow> tget h k; tq \<leftarrow> tget h q; tv \<leftarrow> tget h v;
     can \<leftarrow> ggml_can_mul_mat tk tq;
     gassert can;
     gassert (ne_at tq 3 = ne_at tk 3);
     gassert (ne_at tq 3 = ne_at tv 3);
     (if msk \<noteq> NULL
      then do {
        tm \<leftarrow> tget h msk;
        gassert (t_type tm = GGML_TYPE_F16);
        gassert (ggml_is_contiguous tm);
        m2 \<leftarrow> cmod (ne_at tq 2) (ne_at tm 2);
        gassert (m2 = 0);
        m3 \<leftarrow> cmod (ne_at tq 3) (ne_at tm 3);
        gassert (m3 = 0) }
      else Some ());
     gassert (f32_positive max_bias \<longrightarrow> msk \<noteq> NULL);
     let ne = [ne_at tv 0, ne_at tq 2, ne_at tq 1, ne_at tq 3];
     mk_node (ggml_new_tensor h ctx GGML_TYPE_F32 4 ne)
       [ggml_set_op_params [scale, max_bias, logit_softcap],
        set_op GGML_OP_FLASH_ATTN_EXT, set_src 0 q, set_src 1 k, set_src 2 v, set_src 3 msk] }"

definition ggml_flash_attn_ext_set_prec :: "heap \<Rightarrow> ptr \<Rightarrow> ggml_prec \<Rightarrow> heap option" where
  "ggml_flash_attn_ext_set_prec h a prec = do {
     ta \<leftarrow> tget h a;
     gassert (t_op ta = GGML_OP_FLASH_ATTN_EXT);
     tset h a (ggml_set_op_params_i32 3 (enum_of_prec prec)) }"

definition ggml_flash_attn_ext_get_prec :: "heap \<Rightarrow> ptr \<Rightarrow> int option" where
  "ggml_flash_attn_ext_get_prec h a = do {
     ta \<leftarrow> tget h a;
     gassert (t_op ta = GGML_OP_FLASH_ATTN_EXT);
     Some (ggml_get_op_params_i32 ta 3) }"

definition ggml_flash_attn_ext_add_sinks :: "heap \<Rightarrow> ptr \<Rightarrow> ptr \<Rightarrow> heap option" where
  "ggml_flash_attn_ext_add_sinks h a sinks =
     (if sinks = NULL then tset h a (set_src 4 NULL)
      else do {
        ta \<leftarrow> tget h a;
        gassert (t_op ta = GGML_OP_FLASH_ATTN_EXT);
        gassert (t_src ta ! 4 = NULL);
        t0 \<leftarrow> tget h (t_src ta ! 0); ts \<leftarrow> tget h sinks;
        gassert (ne_at t0 2 = ne_at ts 0);
        gassert (t_type ts = GGML_TYPE_F32);
        tset h a (set_src 4 sinks) })"

text \<open>The first statement of ggml_flash_attn_back is GGML_ABORT.\<close>

definition ggml_flash_attn_back :: "heap \<Rightarrow> ptr \<Rightarrow> ptr \<Rightarrow> ptr \<Rightarrow> ptr \<Rightarrow> ptr \<Rightarrow> bool \<Rightarrow> node_result" where
  "ggml_flash_attn_back h ctx q k v d masked =
     None"

section \<open>State-space and recurrent operations\<close>

definition ggml_ssm_conv :: "heap \<Rightarrow> ptr \<Rightarrow> ptr \<Rightarrow> ptr \<Rightarrow> node_result" where
  "ggml_ssm_conv h ctx sx c =
     do {
     tsx \<leftarrow> tget h sx; tc \<leftarrow> tget h c;
     gassert (ggml_is_3d tsx);
     gassert (ggml_is_matrix tc);
     let d_conv = ne_at tc 0; let d_inner = ne_at tc 1;
     let n_t = i64 (ne_at tsx 0 - d_conv + 1); let n_s = ne_at tsx 2;
     gassert (ne_at tsx 0 = i64 (d_conv - 1 + n_t));
     gassert (ne_at tsx 1 = d_inner);
     gassert (n_t \<ge> 0);
     mk_node (ggml_new_tensor_3d h ctx GGML_TYPE_F32 d_inner n_t n_s)
       [set_op GGML_OP_SSM_CONV, set_src 0 sx, set_src 1 c] }"

definition ggml_ssm_scan :: "heap \<Rightarrow> ptr \<Rightarrow> ptr \<Rightarrow> ptr \<Rightarrow> ptr \<Rightarrow> ptr \<Rightarrow> ptr \<Rightarrow> ptr \<Rightarrow> ptr \<Rightarrow> node_result" where
  "ggml_ssm_scan h ctx s x dt A B C ids =
     do {
     ts \<leftarrow> tget h s; tx \<leftarrow> tget h x; tdt \<leftarrow> tget h dt; tA \<leftarrow> tget h A; tB \<leftarrow> tget h B; tC \<leftarrow> tget h C; tids \<leftarrow> tget h ids;
     gassert (ggml_is_contiguous ts);
     gassert (ggml_is_contiguous tdt);
     gassert (ggml_is_contiguous tA);
     gassert (nb_at tx 0 = ggml_type_size (t_type tx));
     gassert (nb_at tB 0 = ggml_type_size (t_type tB));
     gassert (nb_at tC 0 = ggml_type_size (t_type tC));
     gassert (nb_at tx 1 = u64 (ne_at tx 0 * nb_at tx 0));
     gassert (nb_at tB 1 = u64 (ne_at tB 0 * nb_at tB 0));
     gassert (nb_at tC 1 = u64 (ne_at tC 0 * nb_at tC 0));
     gassert (ggml_are_same_shape tB tC);
     gassert (t_type tids = GGML_TYPE_I32);
     let d_state = ne_at ts 0; let head_dim = ne_at tx 0; let n_head = ne_at tx 1;
     let n_seq_tokens = ne_at tx 2; let n_seqs = ne_at tx 3;
     gassert (ne_at tdt 0 = n_head \<and> ne_at tdt 1 = n_seq_tokens \<and> ne_at tdt 2 = n_seqs \<and> ggml_is_3d tdt);
     gassert (ne_at ts 1 = head_dim \<and> ne_at ts 2 = n_head);
     gassert (ne_at tB 0 = d_state \<and> ne_at tB 2 = n_seq_tokens \<and> ne_at tB 3 = n_seqs);
     gassert (ne_at tids 0 = n_seqs \<and> ggml_is_vector tids);
     gassert (ne_at tA 1 = n_head \<and> ggml_is_matrix tA);
     gassert (ne_at tA 0 \<noteq> 1 \<longrightarrow> ne_at tA 0 = d_state);
     let ne0 = i64 (ggml_nelements tx + ne_at ts 0 * ne_at ts 1 * ne_at ts 2 * ne_at tids 0);
     mk_node (ggml_new_tensor_1d h ctx GGML_TYPE_F32 ne0)
       [set_op GGML_OP_SSM_SCAN, set_src 0 s, set_src 1 x, set_src 2 dt, set_src 3 A, set_src 4 B, set_src 5 C, set_src 6 ids] }"

definition ggml_rwkv_wkv6 :: "heap \<Rightarrow> ptr \<Rightarrow> ptr \<Rightarrow> ptr \<Rightarrow> ptr \<Rightarrow> ptr \<Rightarrow> ptr \<Rightarrow> ptr \<Rightarrow> node_result" where
  "ggml_rwkv_wkv6 h ctx k v r tf td state =
     do {
     tk \<leftarrow> tget h k; tv \<leftarrow> tget h v; tr \<leftarrow> tget h r; ttf \<leftarrow> tget h tf; ttd \<leftarrow> tget h td; tstate \<leftarrow> tget h state;
     gassert (ggml_is_contiguous tk);
     gassert (ggml_is_contiguous tv);
     gassert (ggml_is_contiguous tr);
     gassert (ggml_is_contiguous ttf);
     gassert (ggml_is_contiguous ttd);
     gassert (ggml_is_contiguous tstate);
     let S = ne_at tk 0; let H = ne_at tk 1; let n_tokens = ne_at tk 2; let n_seqs = ne_at tstate 1;
     gassert (ne_at tv 0 = S \<and> ne_at tv 1 = H \<and> ne_at tv 2 = n_tokens);
     gassert (ne_at tr 0 = S \<and> ne_at tr 1 = H \<and> ne_at tr 2 = n_tokens);
     gassert (ne_at ttd 0 = S \<and> ne_at ttd 1 = H \<and> ne_at ttd 2 = n_tokens);
     gassert (ggml_nelements tstate = i64 (S * S * H * n_seqs));
     let ne = [i64 (S * H), i64 (n_tokens + S * n_seqs), 1, 1];
     mk_node (ggml_new_tensor h ctx GGML_TYPE_F32 4 ne)
       [set_op GGML_OP_RWKV_WKV6, set_src 0 k, set_src 1 v, set_src 2 r, set_src 3 tf, set_src 4 td, set_src 5 state] }"

definition ggml_gated_linear_attn :: "heap \<Rightarrow> ptr \<Rightarrow> ptr \<Rightarrow> ptr \<Rightarrow> ptr \<Rightarrow> ptr \<Rightarrow> ptr \<Rightarrow> 32 word \<Rightarrow> node_result" where
  "ggml_gated_linear_attn h ctx k v q g state scale =
     do {
     tk \<leftarrow> tget h k; tv \<leftarrow> tget h v; tq \<leftarrow> tget h q; tg \<leftarrow> tget h g; tstate \<leftarrow> tget h state;
     gassert (ggml_is_contiguous tk);
     gassert (ggml_is_contiguous tv);
     gassert (ggml_is_contiguous tq);
     gassert (ggml_is_contiguous tg);
     gassert (ggml_is_contiguous tstate);
     let S = ne_at tk 0; let H = ne_at tk 1; let n_tokens = ne_at tk 2; let n_seqs = ne_at tstate 1;
     gassert (ne_at tv 0 = S \<and> ne_at tv 1 = H \<and> ne_at tv 2 = n_tokens);
     gassert (ne_at tq 0 = S \<and> ne_at tq 1 = H \<and> ne_at tq 2 = n_tokens);
     gassert (ne_at tg 0 = S \<and> ne_at tg 1 = H \<and> ne_at tg 2 = n_tokens);
     gassert (ggml_nelements tstate = i64 (S * S * H * n_seqs));
     let ne = [i64 (S * H), i64 (n_tokens + S * n_seqs), 1, 1];
     mk_node (ggml_new_tensor h ctx GGML_TYPE_F32 4 ne)
       [ggml_set_op_params_f32 0 scale, set_op GGML_OP_GATED_LINEAR_ATTN, set_src 0 k, set_src 1 v, set_src 2 q, set_src 3 g, set_src 4 state] }"

definition ggml_rwkv_wkv7 :: "heap \<Rightarrow> ptr \<Rightarrow> ptr \<Rightarrow> ptr \<Rightarrow> ptr \<Rightarrow> ptr \<Rightarrow> ptr \<Rightarrow> ptr \<Rightarrow> ptr \<Rightarrow> node_result" where
  "ggml_rwkv_wkv7 h ctx r w k v a b state =
     do {
     tr \<leftarrow> tget h r; tw \<leftarrow> tget h w; tk \<leftarrow> tget h k; tv \<leftarrow> tget h v; ta \<leftarrow> tget h a; tb \<leftarrow> tget h b; tstate \<leftarrow> tget h state;
     gassert (ggml_is_contiguous tr);
     gassert (ggml_is_contiguous tw);
     gassert (ggml_is_contiguous tk);
     gassert (ggml_is_contiguous tv);
     gassert (ggml_is_contiguous ta);
     gassert (ggml_is_contiguous tb);
     gassert (ggml_is_contiguous tstate);
     let S = ne_at tk 0; let H = ne_at tk 1; let n_tokens = ne_at tk 2; let n_seqs = ne_at tstate 1;
     gassert (ne_at tw 0 = S \<and> ne_at tw 1 = H \<and> ne_at tw 2 = n_tokens);
     gassert (ne_at tk 0 = S \<and> ne_at tk 1 = H \<and> ne_at tk 2 = n_tokens);
     gassert (ne_at tv 0 = S \<and> ne_at tv 1 = H \<and> ne_at tv 2 = n_tokens);
     gassert (ne_at ta 0 = S \<and> ne_at ta 1 = H \<and> ne_at ta 2 = n_tokens);
     gassert (ne_at tb 0 = S \<and> ne_at tb 1 = H \<and> ne_at tb 2 = n_tokens);
     gassert (ggml_nelements tstate = i64 (S * S * H * n_seqs));
     let ne = [i64 (S * H), i64 (n_tokens + S * n_seqs), 1, 1];
     mk_node (ggml_new_tensor h ctx GGML_TYPE_F32 4 ne)
       [set_op GGML_OP_RWKV_WKV7, set_src 0 r, set_src 1 w, set_src 2 k, set_src 3 v, set_src 4 a, set_src 5 b, set_src 6 state] }"

definition ggml_gated_delta_net :: "heap \<Rightarrow> ptr \<Rightarrow> ptr \<Rightarrow> ptr \<Rightarrow> ptr \<Rightarrow> ptr \<Rightarrow> ptr \<Rightarrow> ptr \<Rightarrow> node_result" where
  "ggml_gated_delta_net h ctx q k v g beta state =
     do {
     tq \<leftarrow> tget h q; tk \<leftarrow> tget h k; tv \<leftarrow> tget h v; tg \<leftarrow> tget h g; tbeta \<leftarrow> tget h beta; tstate \<leftarrow> tget h state;
     gassert (ggml_is_contiguous_rows tq);
     gassert (ggml_is_contiguous_rows tk);
     gassert (ggml_is_contiguous_rows tv);
     gassert (ggml_is_contiguous tg);
     gassert (ggml_is_contiguous tbeta);
     gassert (ggml_is_contiguous tstate);
     gassert (t_type tq = GGML_TYPE_F32 \<and> t_type tk = GGML_TYPE_F32 \<and> t_type tv = GGML_TYPE_F32 \<and>
              t_type tg = GGML_TYPE_F32 \<and> t_type tbeta = GGML_TYPE_F32 \<and> t_type tstate = GGML_TYPE_F32);
     let S_v = ne_at tv 0; let H = ne_at tv 1; let n_tokens = ne_at tv 2; let n_seqs = ne_at tv 3;
     gassert (ne_at tg 0 = 1 \<or> ne_at tg 0 = S_v);
     gassert (ne_at tbeta 0 = 1);
     gassert (ggml_nelements tstate = i64 (S_v * S_v * H * n_seqs));
     let ne = [i64 (S_v * H), i64 (n_tokens * n_seqs + S_v * n_seqs), 1, 1];
     mk_node (ggml_new_tensor h ctx GGML_TYPE_F32 4 ne)
       [set_op GGML_OP_GATED_DELTA_NET, set_src 0 q, set_src 1 k, set_src 2 v, set_src 3 g, set_src 4 beta, set_src 5 state] }"

section \<open>Windows and relative positions\<close>

definition ggml_win_part :: "heap \<Rightarrow> ptr \<Rightarrow> ptr \<Rightarrow> int \<Rightarrow> node_result" where
  "ggml_win_part h ctx a w =
     do {
     ta \<leftarrow> tget h a;
     gassert (ne_at ta 3 = 1);
     gassert (t_type ta = GGML_TYPE_F32);
     r1 \<leftarrow> cmod (ne_at ta 1) w; x1 \<leftarrow> cmod (i64 (w - r1)) w;
     r2 \<leftarrow> cmod (ne_at ta 2) w; x2 \<leftarrow> cmod (i64 (w - r2)) w;
     let px = i32 x1; let py = i32 x2;
     npx \<leftarrow> cdiv (i64 (px + ne_at ta 1)) w;
     npy \<leftarrow> cdiv (i64 (py + ne_at ta 2)) w;
     let npx = i32 npx; let npy = i32 npy; let np = i32 (npx * npy);
     let ne = [ne_at ta 0, w, w, np];
     mk_node (ggml_new_tensor h ctx GGML_TYPE_F32 4 ne)
       [ggml_set_op_params [word_of_int npx, word_of_int npy, word_of_int w], set_op GGML_OP_WIN_PART, set_src 0 a] }"

definition ggml_win_unpart :: "heap \<Rightarrow> ptr \<Rightarrow> ptr \<Rightarrow> int \<Rightarrow> int \<Rightarrow> int \<Rightarrow> node_result" where
  "ggml_win_unpart h ctx a w0 h0 w =
     do {
     ta \<leftarrow> tget h a;
     gassert (t_type ta = GGML_TYPE_F32);
     let ne = [ne_at ta 0, w0, h0, 1];
     mk_node (ggml_new_tensor h ctx GGML_TYPE_F32 3 ne)
       [ggml_set_op_params [word_of_int w], set_op GGML_OP_WIN_UNPART, set_src 0 a] }"

definition ggml_get_rel_pos :: "heap \<Rightarrow> ptr \<Rightarrow> ptr \<Rightarrow> int \<Rightarrow> int \<Rightarrow> node_result" where
  "ggml_get_rel_pos h ctx a qh kh =
     do {
     gassert (qh = kh);
     ta \<leftarrow> tget h a;
     gassert (i32 (2 * max qh kh - 1) = ne_at ta 1);
     let ne = [ne_at ta 0, kh, qh, 1];
     mk_node (ggml_new_tensor h ctx GGML_TYPE_F16 3 ne) [set_op GGML_OP_GET_REL_POS, set_src 0 a] }"

definition ggml_add_rel_pos_impl :: "heap \<Rightarrow> ptr \<Rightarrow> ptr \<Rightarrow> ptr \<Rightarrow> ptr \<Rightarrow> bool \<Rightarrow> node_result" where
  "ggml_add_rel_pos_impl h ctx a pw ph inplace =
     do {
     ta \<leftarrow> tget h a; tpw \<leftarrow> tget h pw; tph \<leftarrow> tget h ph;
     gassert (ggml_are_same_shape tpw tph);
     gassert (ggml_is_contiguous ta);
     gassert (ggml_is_contiguous tpw);
     gassert (ggml_is_contiguous tph);
     gassert (t_type tph = GGML_TYPE_F32);
     gassert (t_type tpw = GGML_TYPE_F32);
     gassert (ne_at tpw 3 = ne_at ta 2);
     gassert (i64 (ne_at tpw 0 * ne_at tpw 0) = ne_at ta 0);
     gassert (i64 (ne_at tpw 1 * ne_at tpw 2) = ne_at ta 1);
     mk_node (if inplace then ggml_view_tensor h ctx a else ggml_dup_tensor h ctx a)
       [ggml_set_op_params_i32 0 (if inplace then 1 else 0), set_op GGML_OP_ADD_REL_POS,
        set_src 0 a, set_src 1 pw, set_src 2 ph] }"

definition ggml_add_rel_pos :: "heap \<Rightarrow> ptr \<Rightarrow> ptr \<Rightarrow> ptr \<Rightarrow> ptr \<Rightarrow> node_result" where
  "ggml_add_rel_pos h ctx a pw ph =
     ggml_add_rel_pos_impl h ctx a pw ph False"

definition ggml_add_rel_pos_inplace :: "heap \<Rightarrow> ptr \<Rightarrow> ptr \<Rightarrow> ptr \<Rightarrow> ptr \<Rightarrow> node_result" where
  "ggml_add_rel_pos_inplace h ctx a pw ph =
     ggml_add_rel_pos_impl h ctx a pw ph True"

section \<open>Operations supplied by the caller\<close>

text \<open>
  The parameter block is the function pointer, the task count, four bytes of padding (0 here) and
  the user pointer; a pointer takes two parameters, the low half first.  GGML_N_TASKS_MAX is -1.
\<close>

definition custom_params :: "ptr \<Rightarrow> int \<Rightarrow> ptr \<Rightarrow> 32 word list" where
  "custom_params fn n_tasks userdata =
     [word_of_int fn, word_of_int (fn div 2 ^ 32), word_of_int n_tasks, 0,
      word_of_int userdata, word_of_int (userdata div 2 ^ 32)]"

definition ggml_map_custom1_impl :: "heap \<Rightarrow> ptr \<Rightarrow> ptr \<Rightarrow> ptr \<Rightarrow> int \<Rightarrow> ptr \<Rightarrow> bool \<Rightarrow> node_result" where
  "ggml_map_custom1_impl h ctx a fn n_tasks userdata inplace =
     do {
     gassert (n_tasks = -1 \<or> n_tasks > 0);
     mk_node (if inplace then ggml_view_tensor h ctx a else ggml_dup_tensor h ctx a)
       [ggml_set_op_params (custom_params fn n_tasks userdata), set_op GGML_OP_MAP_CUSTOM1, set_src 0 a] }"

definition ggml_map_custom1 :: "heap \<Rightarrow> ptr \<Rightarrow> ptr \<Rightarrow> ptr \<Rightarrow> int \<Rightarrow> ptr \<Rightarrow> node_result" where
  "ggml_map_custom1 h ctx a fn n_tasks userdata =
     ggml_map_custom1_impl h ctx a fn n_tasks userdata False"

definition ggml_map_custom1_inplace :: "heap \<Rightarrow> ptr \<Rightarrow> ptr \<Rightarrow> ptr \<Rightarrow> int \<Rightarrow> ptr \<Rightarrow> node_result" where
  "ggml_map_custom1_inplace h ctx a fn n_tasks userdata =
     ggml_map_custom1_impl h ctx a fn n_tasks userdata True"

definition ggml_map_custom2_impl :: "heap \<Rightarrow> ptr \<Rightarrow> ptr \<Rightarrow> ptr \<Rightarrow> ptr \<Rightarrow> int \<Rightarrow> ptr \<Rightarrow> bool \<Rightarrow> node_result" where
  "ggml_map_custom2_impl h ctx a b fn n_tasks userdata inplace =
     do {
     gassert (n_tasks = -1 \<or> n_tasks > 0);
     mk_node (if inplace then ggml_view_tensor h ctx a else ggml_dup_tensor h ctx a)
       [ggml_set_op_params (custom_params fn n_tasks userdata), set_op GGML_OP_MAP_CUSTOM2, set_src 0 a, set_src 1 b] }"

definition ggml_map_custom2 :: "heap \<Rightarrow> ptr \<Rightarrow> ptr \<Rightarrow> ptr \<Rightarrow> ptr \<Rightarrow> int \<Rightarrow> ptr \<Rightarrow> node_result" where
  "ggml_map_custom2 h ctx a b fn n_tasks userdata =
     ggml_map_custom2_impl h ctx a b fn n_tasks userdata False"

definition ggml_map_custom2_inplace :: "heap \<Rightarrow> ptr \<Rightarrow> ptr \<Rightarrow> ptr \<Rightarrow> ptr \<Rightarrow> int \<Rightarrow> ptr \<Rightarrow> node_result" where
  "ggml_map_custom2_inplace h ctx a b fn n_tasks userdata =
     ggml_map_custom2_impl h ctx a b fn n_tasks userdata True"

definition ggml_map_custom3_impl :: "heap \<Rightarrow> ptr \<Rightarrow> ptr \<Rightarrow> ptr \<Rightarrow> ptr \<Rightarrow> ptr \<Rightarrow> int \<Rightarrow> ptr \<Rightarrow> bool \<Rightarrow> node_result" where
  "ggml_map_custom3_impl h ctx a b c fn n_tasks userdata inplace =
     do {
     gassert (n_tasks = -1 \<or> n_tasks > 0);
     mk_node (if inplace then ggml_view_tensor h ctx a else ggml_dup_tensor h ctx a)
       [ggml_set_op_params (custom_params fn n_tasks userdata), set_op GGML_OP_MAP_CUSTOM3, set_src 0 a, set_src 1 b, set_src 2 c] }"

definition ggml_map_custom3 :: "heap \<Rightarrow> ptr \<Rightarrow> ptr \<Rightarrow> ptr \<Rightarrow> ptr \<Rightarrow> ptr \<Rightarrow> int \<Rightarrow> ptr \<Rightarrow> node_result" where
  "ggml_map_custom3 h ctx a b c fn n_tasks userdata =
     ggml_map_custom3_impl h ctx a b c fn n_tasks userdata False"

definition ggml_map_custom3_inplace :: "heap \<Rightarrow> ptr \<Rightarrow> ptr \<Rightarrow> ptr \<Rightarrow> ptr \<Rightarrow> ptr \<Rightarrow> int \<Rightarrow> ptr \<Rightarrow> node_result" where
  "ggml_map_custom3_inplace h ctx a b c fn n_tasks userdata =
     ggml_map_custom3_impl h ctx a b c fn n_tasks userdata True"

text \<open>A negative n_args leaves the loops empty; more arguments than args has is a read out of bounds.\<close>

definition ggml_custom_4d :: "heap \<Rightarrow> ptr \<Rightarrow> ggml_type \<Rightarrow> int \<Rightarrow> int \<Rightarrow> int \<Rightarrow> int \<Rightarrow> ptr list \<Rightarrow> int \<Rightarrow> ptr \<Rightarrow> int \<Rightarrow> ptr \<Rightarrow> node_result" where
  "ggml_custom_4d h ctx type ne0 ne1 ne2 ne3 args n_args fn n_tasks userdata =
     do {
     gassert (n_args < int GGML_MAX_SRC);
     gassert (nat n_args \<le> length args);
     mk_node (ggml_new_tensor_4d h ctx type ne0 ne1 ne2 ne3)
       ([ggml_set_op_params (custom_params fn n_tasks userdata), set_op GGML_OP_CUSTOM] @
        map (\<lambda>i. set_src i (args ! i)) [0..<nat n_args]) }"

definition ggml_custom_inplace :: "heap \<Rightarrow> ptr \<Rightarrow> ptr \<Rightarrow> ptr list \<Rightarrow> int \<Rightarrow> ptr \<Rightarrow> int \<Rightarrow> ptr \<Rightarrow> node_result" where
  "ggml_custom_inplace h ctx a args n_args fn n_tasks userdata =
     do {
     gassert (n_args < int GGML_MAX_SRC - 1);
     gassert (nat n_args \<le> length args);
     mk_node (ggml_view_tensor h ctx a)
       ([ggml_set_op_params (custom_params fn n_tasks userdata), set_op GGML_OP_CUSTOM, set_src 0 a] @
        map (\<lambda>i. set_src (i + 1) (args ! i)) [0..<nat n_args]) }"

section \<open>Losses and optimiser steps\<close>

definition ggml_cross_entropy_loss :: "heap \<Rightarrow> ptr \<Rightarrow> ptr \<Rightarrow> ptr \<Rightarrow> node_result" where
  "ggml_cross_entropy_loss h ctx a b =
     do {
     ta \<leftarrow> tget h a; tb \<leftarrow> tget h b;
     gassert (ggml_are_same_shape ta tb);
     mk_node (ggml_new_tensor_1d h ctx (t_type ta) 1)
       [set_op GGML_OP_CROSS_ENTROPY_LOSS, set_src 0 a, set_src 1 b] }"

definition ggml_cross_entropy_loss_back :: "heap \<Rightarrow> ptr \<Rightarrow> ptr \<Rightarrow> ptr \<Rightarrow> ptr \<Rightarrow> node_result" where
  "ggml_cross_entropy_loss_back h ctx a b c =
     do {
     ta \<leftarrow> tget h a; tb \<leftarrow> tget h b; tc \<leftarrow> tget h c;
     gassert (ggml_is_scalar ta);
     gassert (ggml_are_same_shape tb tc);
     mk_node (ggml_dup_tensor h ctx b)
       [set_op GGML_OP_CROSS_ENTROPY_LOSS_BACK, set_src 0 a, set_src 1 b, set_src 2 c] }"

definition ggml_opt_step_adamw :: "heap \<Rightarrow> ptr \<Rightarrow> ptr \<Rightarrow> ptr \<Rightarrow> ptr \<Rightarrow> ptr \<Rightarrow> ptr \<Rightarrow> node_result" where
  "ggml_opt_step_adamw h ctx a grad m v adamw_params =
     do {
     ta \<leftarrow> tget h a; tg \<leftarrow> tget h grad; tm \<leftarrow> tget h m; tv \<leftarrow> tget h v; tp \<leftarrow> tget h adamw_params;
     gassert (t_flags ta AND GGML_TENSOR_FLAG_PARAM \<noteq> 0);
     gassert (ggml_are_same_shape ta tg);
     gassert (ggml_are_same_shape ta tm);
     gassert (ggml_are_same_shape ta tv);
     gassert (t_type tp = GGML_TYPE_F32);
     gassert (ggml_nelements tp = 7);
     mk_node (ggml_view_tensor h ctx a)
       [set_op GGML_OP_OPT_STEP_ADAMW, set_src 0 a, set_src 1 grad, set_src 2 m, set_src 3 v,
        set_src 4 adamw_params] }"

definition ggml_opt_step_sgd :: "heap \<Rightarrow> ptr \<Rightarrow> ptr \<Rightarrow> ptr \<Rightarrow> ptr \<Rightarrow> node_result" where
  "ggml_opt_step_sgd h ctx a grad params =
     do {
     ta \<leftarrow> tget h a; tg \<leftarrow> tget h grad; tp \<leftarrow> tget h params;
     gassert (t_flags ta AND GGML_TENSOR_FLAG_PARAM \<noteq> 0);
     gassert (ggml_are_same_shape ta tg);
     gassert (t_type tp = GGML_TYPE_F32);
     gassert (ggml_nelements tp = 2);
     mk_node (ggml_view_tensor h ctx a)
       [set_op GGML_OP_OPT_STEP_SGD, set_src 0 a, set_src 1 grad, set_src 2 params] }"

section \<open>Triangular solve and the Walsh-Hadamard rotation\<close>

definition ggml_solve_tri :: "heap \<Rightarrow> ptr \<Rightarrow> ptr \<Rightarrow> ptr \<Rightarrow> bool \<Rightarrow> bool \<Rightarrow> bool \<Rightarrow> node_result" where
  "ggml_solve_tri h ctx a b left lower uni =
     do {
     ta \<leftarrow> tget h a; tb \<leftarrow> tget h b;
     gassert (t_type ta = GGML_TYPE_F32);
     gassert (t_type tb = GGML_TYPE_F32);
     gassert (ne_at ta 0 = ne_at ta 1);
     gassert (ne_at ta 1 = ne_at tb 1);
     gassert (ne_at ta 2 = ne_at tb 2);
     gassert (ne_at ta 3 = ne_at tb 3);
     gassert (ggml_is_contiguous ta);
     gassert (ggml_is_contiguous tb);
     gassert (lower \<and> left \<and> \<not> uni);
     mk_node (ggml_new_tensor_4d h ctx GGML_TYPE_F32 (ne_at tb 0) (ne_at tb 1) (ne_at tb 2) (ne_at tb 3))
       [set_op GGML_OP_SOLVE_TRI, set_src 0 a, set_src 1 b] }"

text \<open>
  op_params is an array of int32_t, so op_params + sizeof(int) is its entry 4: the group size is
  parameter 4, not the bytes after the direction.
\<close>

definition ggml_turbo_wht :: "heap \<Rightarrow> ptr \<Rightarrow> ptr \<Rightarrow> int \<Rightarrow> int \<Rightarrow> ptr \<Rightarrow> node_result" where
  "ggml_turbo_wht h ctx a direction group_size scale =
     do {
     ta \<leftarrow> tget h a;
     gassert (ggml_is_contiguous ta);
     gassert (t_type ta = GGML_TYPE_F32);
     gassert (direction = 0 \<or> direction = 1);
     let group_size = (if group_size = 0 then (if ne_at ta 0 smod 128 = 0 then 128 else 64) else group_size);
     gassert (group_size = 64 \<or> group_size = 128);
     gassert (ne_at ta 0 smod group_size = 0);
     mk_node (ggml_new_tensor h ctx GGML_TYPE_F32 4 (t_ne ta))
       [set_op GGML_OP_TURBO_WHT, set_src 0 a, set_src 1 scale,
        ggml_set_op_params_i32 0 direction, ggml_set_op_params_i32 4 group_size] }"

section \<open>Every constructor adds one well-formed tensor\<close>

lemma custom_params_length [simp]: "length (custom_params fn n_tasks userdata) = 6"
  by (simp add: custom_params_def)

lemma model_impl_a_pw_ph_creates [creates_intros]:
  assumes "heap_inv h" "live h a" "live h pw" "live h ph"
  shows "creates h (ggml_add_rel_pos_impl h ctx a pw ph inplace) (\<lambda>_. True)"
  unfolding ggml_add_rel_pos_impl_def
  using assms
  by (intro creates_bind creates_let creates_if mk_node_any creates_intros; simp add: node_simps GGML_N_OP_PARAMS_def)+

lemma model_impl_a_creates [creates_intros]:
  assumes "heap_inv h" "live h a"
  shows "creates h (ggml_map_custom1_impl h ctx a fn n_tasks userdata inplace) (\<lambda>_. True)"
  unfolding ggml_map_custom1_impl_def
  using assms
  by (intro creates_bind creates_let creates_if mk_node_any creates_intros; simp add: node_simps GGML_N_OP_PARAMS_def)+

lemma model_impl_a_b_creates [creates_intros]:
  assumes "heap_inv h" "live h a" "live h b"
  shows "creates h (ggml_map_custom2_impl h ctx a b fn n_tasks userdata inplace) (\<lambda>_. True)"
  unfolding ggml_map_custom2_impl_def
  using assms
  by (intro creates_bind creates_let creates_if mk_node_any creates_intros; simp add: node_simps GGML_N_OP_PARAMS_def)+

lemma model_impl_a_b_c_creates [creates_intros]:
  assumes "heap_inv h" "live h a" "live h b" "live h c"
  shows "creates h (ggml_map_custom3_impl h ctx a b c fn n_tasks userdata inplace) (\<lambda>_. True)"
  unfolding ggml_map_custom3_impl_def
  using assms
  by (intro creates_bind creates_let creates_if mk_node_any creates_intros; simp add: node_simps GGML_N_OP_PARAMS_def)+

lemma model_q_k_v_msk_creates [creates_intros]:
  assumes "heap_inv h" "live h q" "live h k" "live h v" "live h msk"
  shows "creates h (ggml_flash_attn_ext h ctx q k v msk scale max_bias logit_softcap) (\<lambda>_. True)"
  unfolding ggml_flash_attn_ext_def
  using assms
  by (intro creates_bind creates_let creates_if mk_node_any creates_intros; simp add: node_simps GGML_N_OP_PARAMS_def)+

lemma model_sx_c_creates [creates_intros]:
  assumes "heap_inv h" "live h sx" "live h c"
  shows "creates h (ggml_ssm_conv h ctx sx c) (\<lambda>_. True)"
  unfolding ggml_ssm_conv_def
  using assms
  by (intro creates_bind creates_let creates_if mk_node_any creates_intros; simp add: node_simps GGML_N_OP_PARAMS_def)+

lemma model_s_x_dt_A_B_C_ids_creates [creates_intros]:
  assumes "heap_inv h" "live h s" "live h x" "live h dt" "live h A" "live h B" "live h C" "live h ids"
  shows "creates h (ggml_ssm_scan h ctx s x dt A B C ids) (\<lambda>_. True)"
  unfolding ggml_ssm_scan_def
  using assms
  by (intro creates_bind creates_let creates_if mk_node_any creates_intros; simp add: node_simps GGML_N_OP_PARAMS_def)+

lemma model_k_v_r_tf_td_state_creates [creates_intros]:
  assumes "heap_inv h" "live h k" "live h v" "live h r" "live h tf" "live h td" "live h state"
  shows "creates h (ggml_rwkv_wkv6 h ctx k v r tf td state) (\<lambda>_. True)"
  unfolding ggml_rwkv_wkv6_def
  using assms
  by (intro creates_bind creates_let creates_if mk_node_any creates_intros; simp add: node_simps GGML_N_OP_PARAMS_def)+

lemma model_k_v_q_g_state_creates [creates_intros]:
  assumes "heap_inv h" "live h k" "live h v" "live h q" "live h g" "live h state"
  shows "creates h (ggml_gated_linear_attn h ctx k v q g state scale) (\<lambda>_. True)"
  unfolding ggml_gated_linear_attn_def
  using assms
  by (intro creates_bind creates_let creates_if mk_node_any creates_intros; simp add: node_simps GGML_N_OP_PARAMS_def)+

lemma model_r_w_k_v_a_b_state_creates [creates_intros]:
  assumes "heap_inv h" "live h r" "live h w" "live h k" "live h v" "live h a" "live h b" "live h state"
  shows "creates h (ggml_rwkv_wkv7 h ctx r w k v a b state) (\<lambda>_. True)"
  unfolding ggml_rwkv_wkv7_def
  using assms
  by (intro creates_bind creates_let creates_if mk_node_any creates_intros; simp add: node_simps GGML_N_OP_PARAMS_def)+

lemma model_q_k_v_g_beta_state_creates [creates_intros]:
  assumes "heap_inv h" "live h q" "live h k" "live h v" "live h g" "live h beta" "live h state"
  shows "creates h (ggml_gated_delta_net h ctx q k v g beta state) (\<lambda>_. True)"
  unfolding ggml_gated_delta_net_def
  using assms
  by (intro creates_bind creates_let creates_if mk_node_any creates_intros; simp add: node_simps GGML_N_OP_PARAMS_def)+

lemma model_a_creates [creates_intros]:
  assumes "heap_inv h" "live h a"
  shows "creates h (ggml_win_part h ctx a w) (\<lambda>_. True)"
    "creates h (ggml_win_unpart h ctx a w0 h0 w) (\<lambda>_. True)"
    "creates h (ggml_get_rel_pos h ctx a qh kh) (\<lambda>_. True)"
    "creates h (ggml_map_custom1 h ctx a fn n_tasks userdata) (\<lambda>_. True)"
    "creates h (ggml_map_custom1_inplace h ctx a fn n_tasks userdata) (\<lambda>_. True)"
  unfolding ggml_win_part_def
    ggml_win_unpart_def
    ggml_get_rel_pos_def
    ggml_map_custom1_def
    ggml_map_custom1_inplace_def
  using assms
  by (intro creates_bind creates_let creates_if mk_node_any creates_intros; simp add: node_simps GGML_N_OP_PARAMS_def)+

lemma model_a_pw_ph_creates [creates_intros]:
  assumes "heap_inv h" "live h a" "live h pw" "live h ph"
  shows "creates h (ggml_add_rel_pos h ctx a pw ph) (\<lambda>_. True)"
    "creates h (ggml_add_rel_pos_inplace h ctx a pw ph) (\<lambda>_. True)"
  unfolding ggml_add_rel_pos_def
    ggml_add_rel_pos_inplace_def
  using assms
  by (intro creates_bind creates_let creates_if mk_node_any creates_intros; simp add: node_simps GGML_N_OP_PARAMS_def)+

lemma model_a_b_creates [creates_intros]:
  assumes "heap_inv h" "live h a" "live h b"
  shows "creates h (ggml_map_custom2 h ctx a b fn n_tasks userdata) (\<lambda>_. True)"
    "creates h (ggml_map_custom2_inplace h ctx a b fn n_tasks userdata) (\<lambda>_. True)"
    "creates h (ggml_cross_entropy_loss h ctx a b) (\<lambda>_. True)"
    "creates h (ggml_solve_tri h ctx a b left lower uni) (\<lambda>_. True)"
  unfolding ggml_map_custom2_def
    ggml_map_custom2_inplace_def
    ggml_cross_entropy_loss_def
    ggml_solve_tri_def
  using assms
  by (intro creates_bind creates_let creates_if mk_node_any creates_intros; simp add: node_simps GGML_N_OP_PARAMS_def)+

lemma model_a_b_c_creates [creates_intros]:
  assumes "heap_inv h" "live h a" "live h b" "live h c"
  shows "creates h (ggml_map_custom3 h ctx a b c fn n_tasks userdata) (\<lambda>_. True)"
    "creates h (ggml_map_custom3_inplace h ctx a b c fn n_tasks userdata) (\<lambda>_. True)"
    "creates h (ggml_cross_entropy_loss_back h ctx a b c) (\<lambda>_. True)"
  unfolding ggml_map_custom3_def
    ggml_map_custom3_inplace_def
    ggml_cross_entropy_loss_back_def
  using assms
  by (intro creates_bind creates_let creates_if mk_node_any creates_intros; simp add: node_simps GGML_N_OP_PARAMS_def)+

lemma model_a_grad_m_v_adamw_params_creates [creates_intros]:
  assumes "heap_inv h" "live h a" "live h grad" "live h m" "live h v" "live h adamw_params"
  shows "creates h (ggml_opt_step_adamw h ctx a grad m v adamw_params) (\<lambda>_. True)"
  unfolding ggml_opt_step_adamw_def
  using assms
  by (intro creates_bind creates_let creates_if mk_node_any creates_intros; simp add: node_simps GGML_N_OP_PARAMS_def)+

lemma model_a_grad_params_creates [creates_intros]:
  assumes "heap_inv h" "live h a" "live h grad" "live h params"
  shows "creates h (ggml_opt_step_sgd h ctx a grad params) (\<lambda>_. True)"
  unfolding ggml_opt_step_sgd_def
  using assms
  by (intro creates_bind creates_let creates_if mk_node_any creates_intros; simp add: node_simps GGML_N_OP_PARAMS_def)+

lemma model_a_scale_creates [creates_intros]:
  assumes "heap_inv h" "live h a" "live h scale"
  shows "creates h (ggml_turbo_wht h ctx a direction group_size scale) (\<lambda>_. True)"
  unfolding ggml_turbo_wht_def
  using assms
  by (intro creates_bind creates_let creates_if mk_node_any creates_intros; simp add: node_simps GGML_N_OP_PARAMS_def)+

lemma node_wf_set_srcs:
  "node_wf h r t \<Longrightarrow> t_op t \<noteq> GGML_OP_NONE \<Longrightarrow> \<forall>i \<in> set is. live h (p i) \<Longrightarrow>
     node_wf h r (fold (\<lambda>f t. f t) (map (\<lambda>i. set_src (g i) (p i)) is) t)"
  by (induction "is" arbitrary: t) (simp_all add: node_simps)

lemma ggml_flash_attn_back_creates [creates_intros]:
  "creates h (ggml_flash_attn_back h ctx q k v d masked) (\<lambda>_. True)"
  by (simp add: ggml_flash_attn_back_def creates_def)

lemma ggml_custom_creates [creates_intros]:
  assumes "heap_inv h" "live h a" "\<forall>p \<in> set args. live h p"
  shows "creates h (ggml_custom_4d h ctx type ne0 ne1 ne2 ne3 args n_args fn n_tasks userdata) (\<lambda>_. True)"
    "creates h (ggml_custom_inplace h ctx a args n_args fn n_tasks userdata) (\<lambda>_. True)"
  unfolding ggml_custom_4d_def ggml_custom_inplace_def using assms
  by (intro creates_bind mk_node_any creates_intros;
      simp add: node_simps GGML_N_OP_PARAMS_def node_wf_set_srcs)+

end
