(* ===== verification/Graph.thy ===== *)
theory Graph
  imports OpsModel HashSet "HOL-Library.Sublist" "HOL-Library.Multiset"
begin

text \<open>
  Computation graphs (ggml.c, struct ggml_cgraph of ggml-impl.h): creation, the depth-first walk that
  puts the tensors a result depends on in evaluation order, copies and views, lookups, and the check
  that a group of nodes may be fused.

  The walk is ggml_visit_parents_graph.  It changes the graph, and flags and names of tensors, so it
  runs on the heap and the graph.  A call that aborts or does not return is None.
\<close>

fun dec_string :: "nat \<Rightarrow> string" where
  "dec_string n = (if n < 10 then [char_of (48 + n)] else dec_string (n div 10) @ [char_of (48 + n mod 10)])"

declare dec_string.simps [simp del]

section \<open>The walk\<close>

definition eval_order_index :: "ggml_cgraph_eval_order \<Rightarrow> nat \<Rightarrow> nat" where
  "eval_order_index order i =
     (case order of
        GGML_CGRAPH_EVAL_ORDER_LEFT_TO_RIGHT \<Rightarrow> i
      | GGML_CGRAPH_EVAL_ORDER_RIGHT_TO_LEFT \<Rightarrow> GGML_MAX_SRC - 1 - i
      | _ \<Rightarrow> i)"

text \<open>The end of a first visit: the node goes to the leafs or to the nodes.\<close>

definition push_leaf :: "ggml_cgraph \<Rightarrow> ptr \<Rightarrow> ggml_cgraph" where
  "push_leaf g node = g\<lparr> g_leafs := (g_leafs g)[nat (g_n_leafs g) := node], g_n_leafs := g_n_leafs g + 1 \<rparr>"

definition push_node :: "ggml_cgraph \<Rightarrow> ptr \<Rightarrow> ggml_cgraph" where
  "push_node g node = g\<lparr> g_nodes := (g_nodes g)[nat (g_n_nodes g) := node], g_n_nodes := g_n_nodes g + 1 \<rparr>"

definition name_if_empty :: "heap \<Rightarrow> ptr \<Rightarrow> string \<Rightarrow> int \<Rightarrow> heap option" where
  "name_if_empty h node prfx n = do {
     t \<leftarrow> tget h node;
     if t_name t = [] then tset h node (ggml_format_name (prfx @ dec_string (nat n))) else Some h }"

definition add_visited :: "heap \<Rightarrow> ggml_cgraph \<Rightarrow> ptr \<Rightarrow> (heap \<times> ggml_cgraph) option" where
  "add_visited h g node = do {
     t \<leftarrow> tget h node;
     if t_op t = GGML_OP_NONE \<and> t_flags t AND GGML_TENSOR_FLAG_PARAM = 0
     then do {
       gassert (g_n_leafs g < g_size g);
       h \<leftarrow> name_if_empty h node ''leaf_'' (g_n_leafs g);
       Some (h, push_leaf g node) }
     else do {
       gassert (g_n_nodes g < g_size g);
       h \<leftarrow> name_if_empty h node ''node_'' (g_n_nodes g);
       Some (h, push_node g node) } }"

definition mark_compute :: "heap \<Rightarrow> ptr \<Rightarrow> bool \<Rightarrow> heap option" where
  "mark_compute h node compute = do {
     t \<leftarrow> tget h node;
     if t_op t \<noteq> GGML_OP_NONE \<and> compute
     then tset h node (\<lambda>t. t\<lparr> t_flags := t_flags t OR GGML_TENSOR_FLAG_COMPUTE \<rparr>)
     else Some h }"

definition count_use :: "ggml_cgraph \<Rightarrow> nat \<Rightarrow> ggml_cgraph" where
  "count_use g pos = g\<lparr> g_use_counts := (g_use_counts g)[pos := i32 (g_use_counts g ! pos + 1)] \<rparr>"

definition enter_visited :: "ggml_cgraph \<Rightarrow> nat \<Rightarrow> ptr \<Rightarrow> ggml_cgraph" where
  "enter_visited g pos node =
     g\<lparr> g_visited := hs_put (g_visited g) pos node, g_use_counts := (g_use_counts g)[pos := 0] \<rparr>"

partial_function (option) ggml_visit_parents_graph ::
    "heap \<Rightarrow> ggml_cgraph \<Rightarrow> ptr \<Rightarrow> bool \<Rightarrow> (nat \<times> heap \<times> ggml_cgraph) option" where
  "ggml_visit_parents_graph h g node compute = do {
     h \<leftarrow> mark_compute h node compute;
     node_hash_pos \<leftarrow> ggml_hash_find (g_visited g) node;
     gassert (node_hash_pos \<noteq> GGML_HASHSET_FULL);
     if hs_get (g_visited g) node_hash_pos
     then do {
       (h, g) \<leftarrow>
         (if compute
          then for_each (\<lambda>i (h, g). do {
                 t \<leftarrow> tget h node;
                 let src = t_src t ! i;
                 if src = NULL then Some (h, g)
                 else do {
                   s \<leftarrow> tget h src;
                   if t_flags s AND GGML_TENSOR_FLAG_COMPUTE = 0
                   then do { (_, h, g) \<leftarrow> ggml_visit_parents_graph h g src True; Some (h, g) }
                   else Some (h, g) } }) [0..<GGML_MAX_SRC] (h, g)
          else Some (h, g));
       Some (node_hash_pos, h, g) }
     else do {
       let g = enter_visited g node_hash_pos node;
       (h, g) \<leftarrow> for_each (\<lambda>i (h, g). do {
                 t \<leftarrow> tget h node;
                 let src = t_src t ! eval_order_index (g_order g) i;
                 if src = NULL then Some (h, g)
                 else do {
                   (src_hash_pos, h, g) \<leftarrow> ggml_visit_parents_graph h g src compute;
                   Some (h, count_use g src_hash_pos) } }) [0..<GGML_MAX_SRC] (h, g);
       (h, g) \<leftarrow> add_visited h g node;
       Some (node_hash_pos, h, g) } }"

section \<open>What the walk preserves\<close>

definition srcs :: "heap \<Rightarrow> ptr \<Rightarrow> ptr list" where
  "srcs h p = (case h_tensors h p of None \<Rightarrow> [] | Some t \<Rightarrow> t_src t)"

definition is_leaf :: "heap \<Rightarrow> ptr \<Rightarrow> bool" where
  "is_leaf h p \<longleftrightarrow>
     (case h_tensors h p of None \<Rightarrow> False
      | Some t \<Rightarrow> t_op t = GGML_OP_NONE \<and> t_flags t AND GGML_TENSOR_FLAG_PARAM = 0)"

definition is_op :: "heap \<Rightarrow> ptr \<Rightarrow> bool" where
  "is_op h p \<longleftrightarrow> (case h_tensors h p of None \<Rightarrow> False | Some t \<Rightarrow> t_op t \<noteq> GGML_OP_NONE)"

definition computed :: "heap \<Rightarrow> ptr \<Rightarrow> bool" where
  "computed h p \<longleftrightarrow>
     (case h_tensors h p of None \<Rightarrow> False | Some t \<Rightarrow> t_flags t AND GGML_TENSOR_FLAG_COMPUTE \<noteq> 0)"

text \<open>A tensor up to its name and the flag COMPUTE.\<close>

definition tensor_core :: "ggml_tensor \<Rightarrow> ggml_tensor" where
  "tensor_core t = t\<lparr> t_flags := t_flags t AND NOT GGML_TENSOR_FLAG_COMPUTE, t_name := [] \<rparr>"

definition heap_frame :: "heap \<Rightarrow> heap \<Rightarrow> bool" where
  "heap_frame h h' \<longleftrightarrow>
     h_ctxs h' = h_ctxs h \<and> h_objs h' = h_objs h \<and> h_graphs h' = h_graphs h \<and>
     (\<forall>p. map_option tensor_core (h_tensors h' p) = map_option tensor_core (h_tensors h p)) \<and>
     (\<forall>p. computed h p \<longrightarrow> computed h' p)"

lemma heap_frame_refl [simp]: "heap_frame h h"
  by (simp add: heap_frame_def)

lemma heap_frame_trans: "heap_frame h1 h2 \<Longrightarrow> heap_frame h2 h3 \<Longrightarrow> heap_frame h1 h3"
  by (simp add: heap_frame_def)

lemma flags_core: "(x AND NOT GGML_TENSOR_FLAG_COMPUTE) AND GGML_TENSOR_FLAG_PARAM = x AND GGML_TENSOR_FLAG_PARAM"
proof -
  have "NOT (16::int) AND 4 = 4" by simp
  then show ?thesis
    by (simp add: GGML_TENSOR_FLAG_COMPUTE_def GGML_TENSOR_FLAG_PARAM_def and.assoc)
qed

lemma tensor_core_simps:
  "t_src (tensor_core t) = t_src t" "t_op (tensor_core t) = t_op t"
  "t_flags (tensor_core t) AND GGML_TENSOR_FLAG_PARAM = t_flags t AND GGML_TENSOR_FLAG_PARAM"
  by (simp_all add: tensor_core_def flags_core)

lemma tensor_core_fields:
  assumes "tensor_core t = tensor_core t'"
  shows "t_src t = t_src t'" "t_op t = t_op t'"
    "t_flags t AND GGML_TENSOR_FLAG_PARAM = t_flags t' AND GGML_TENSOR_FLAG_PARAM"
  using tensor_core_simps [of t] tensor_core_simps [of t'] assms by metis+

lemma heap_frame_cases:
  assumes "heap_frame h h'"
  obtains "h_tensors h p = None" "h_tensors h' p = None"
  | t t' where "h_tensors h p = Some t" "h_tensors h' p = Some t'" "tensor_core t' = tensor_core t"
proof -
  have f: "map_option tensor_core (h_tensors h' p) = map_option tensor_core (h_tensors h p)"
    using assms by (simp add: heap_frame_def)
  show thesis
  proof (cases "h_tensors h p")
    case None
    then show ?thesis using f that(1) by simp
  next
    case (Some t)
    then show ?thesis using f that(2) by (cases "h_tensors h' p") simp_all
  qed
qed

lemma heap_frame_static:
  assumes "heap_frame h h'"
  shows "srcs h' p = srcs h p \<and> is_leaf h' p = is_leaf h p \<and> is_op h' p = is_op h p \<and>
    (h_tensors h' p = None \<longleftrightarrow> h_tensors h p = None)"
proof (rule heap_frame_cases [OF assms, of p])
  fix t t' assume t: "h_tensors h p = Some t" "h_tensors h' p = Some t'" and c: "tensor_core t' = tensor_core t"
  show ?thesis
    by (simp only: t srcs_def is_leaf_def is_op_def option.case tensor_core_fields [OF c] option.distinct simp_thms)
qed (simp add: srcs_def is_leaf_def is_op_def)

lemma heap_frame_fun:
  assumes "heap_frame h h'"
  shows "srcs h' = srcs h" "is_leaf h' = is_leaf h" "is_op h' = is_op h"
  by (simp_all add: fun_eq_iff heap_frame_static [OF assms])

lemma tset_frame:
  assumes "tset h p f = Some h'" "\<And>t. tensor_core (f t) = tensor_core t"
    "\<And>t. t_flags t AND GGML_TENSOR_FLAG_COMPUTE \<noteq> 0 \<Longrightarrow> t_flags (f t) AND GGML_TENSOR_FLAG_COMPUTE \<noteq> 0"
  shows "heap_frame h h'"
  using assms by (auto simp: tset_Some heap_frame_def computed_def)

lemma name_core: "tensor_core (ggml_format_name s t) = tensor_core t" "t_flags (ggml_format_name s t) = t_flags t"
  by (simp_all add: tensor_core_def ggml_format_name_def)

lemma compute_core:
  "tensor_core (t\<lparr> t_flags := t_flags t OR GGML_TENSOR_FLAG_COMPUTE \<rparr>) = tensor_core t"
  "(x OR GGML_TENSOR_FLAG_COMPUTE) AND GGML_TENSOR_FLAG_COMPUTE \<noteq> 0"
proof -
  have "((x OR y) AND NOT y) = x AND NOT (y::int)" for x y
    by (rule bit_eqI) (auto simp: bit_simps)
  then show "tensor_core (t\<lparr> t_flags := t_flags t OR GGML_TENSOR_FLAG_COMPUTE \<rparr>) = tensor_core t"
    by (simp add: tensor_core_def)
  have "((x OR y) AND y) = (y::int)" for x y
    by (rule bit_eqI) (auto simp: bit_simps)
  then show "(x OR GGML_TENSOR_FLAG_COMPUTE) AND GGML_TENSOR_FLAG_COMPUTE \<noteq> 0"
    by (simp add: GGML_TENSOR_FLAG_COMPUTE_def)
qed

lemma mark_compute_frame:
  assumes "h_tensors h p \<noteq> None" "p \<noteq> NULL"
  shows "\<exists>h'. mark_compute h p compute = Some h' \<and> heap_frame h h' \<and> (compute \<longrightarrow> is_op h p \<longrightarrow> computed h' p)"
proof -
  obtain t where t: "h_tensors h p = Some t" using assms by auto
  show ?thesis
  proof (cases "t_op t \<noteq> GGML_OP_NONE \<and> compute")
    case True
    let ?f = "\<lambda>t::ggml_tensor. t\<lparr> t_flags := t_flags t OR GGML_TENSOR_FLAG_COMPUTE \<rparr>"
    obtain h' where h': "tset h p ?f = Some h'" "h' = h\<lparr> h_tensors := (h_tensors h)(p \<mapsto> ?f t) \<rparr>"
      using t assms(2) by (auto simp: tset_Some)
    have "heap_frame h h'" by (rule tset_frame [OF h'(1)]) (simp_all add: compute_core)
    moreover have "mark_compute h p compute = Some h'" using True t assms(2) h' by (simp add: mark_compute_def tget_def)
    moreover have "computed h' p" using h'(2) by (simp add: computed_def compute_core)
    ultimately show ?thesis by blast
  next
    case False
    then show ?thesis using t assms(2) by (auto simp: mark_compute_def tget_def is_op_def)
  qed
qed

section \<open>The invariant of a graph\<close>

definition g_node_list :: "ggml_cgraph \<Rightarrow> ptr list" where
  "g_node_list g = take (nat (g_n_nodes g)) (g_nodes g)"

definition g_leaf_list :: "ggml_cgraph \<Rightarrow> ptr list" where
  "g_leaf_list g = take (nat (g_n_leafs g)) (g_leafs g)"

text \<open>Visited tensors are done (in one of the two lists) or open (their sources are being visited).\<close>

definition g_done :: "ggml_cgraph \<Rightarrow> ptr set" where
  "g_done g = set (g_node_list g) \<union> set (g_leaf_list g)"

definition g_open :: "ggml_cgraph \<Rightarrow> ptr set" where
  "g_open g = hs_set (g_visited g) - g_done g"

definition use_count_of :: "ggml_cgraph \<Rightarrow> ptr \<Rightarrow> int" where
  "use_count_of g p =
     (case ggml_hash_find (g_visited g) p of
        None \<Rightarrow> 0
      | Some pos \<Rightarrow> if pos \<noteq> GGML_HASHSET_FULL \<and> hs_get (g_visited g) pos then g_use_counts g ! pos else 0)"

text \<open>Every node comes after its sources, or is its own source.\<close>

definition sources_before :: "(ptr \<Rightarrow> ptr list) \<Rightarrow> ptr set \<Rightarrow> ptr list \<Rightarrow> bool" where
  "sources_before src L ns \<longleftrightarrow>
     (\<forall>i < length ns. set (src (ns ! i)) \<subseteq> {NULL, ns ! i} \<union> set (take i ns) \<union> L)"

definition graph_shape :: "ggml_cgraph \<Rightarrow> bool" where
  "graph_shape g \<longleftrightarrow>
     hs_inv (g_visited g) \<and> g_size g \<le> int (hs_size (g_visited g)) \<and>
     0 \<le> g_n_nodes g \<and> g_n_nodes g \<le> g_size g \<and> 0 \<le> g_n_leafs g \<and> g_n_leafs g \<le> g_size g \<and>
     int (length (g_nodes g)) = g_size g \<and> int (length (g_leafs g)) = g_size g \<and>
     length (g_use_counts g) = hs_size (g_visited g) \<and>
     (\<forall>c \<in> set (g_use_counts g). is_i32 c) \<and>
     pred_option (\<lambda>gr. length gr = hs_size (g_visited g)) (g_grads g) \<and>
     pred_option (\<lambda>gr. length gr = hs_size (g_visited g)) (g_grad_accs g)"

definition graph_ok :: "heap \<Rightarrow> ggml_cgraph \<Rightarrow> bool" where
  "graph_ok h g \<longleftrightarrow> graph_shape g \<and>
     distinct (g_node_list g @ g_leaf_list g) \<and> g_done g \<subseteq> hs_set (g_visited g) \<and>
     (\<forall>p \<in> set (g_leaf_list g). is_leaf h p) \<and> (\<forall>p \<in> set (g_node_list g). \<not> is_leaf h p) \<and>
     sources_before (srcs h) (set (g_leaf_list g)) (g_node_list g)"

text \<open>
  What a step of the walk does to the state.  \<open>E\<close> counts the uses by nodes that are not done yet; a use
  count is a 32-bit number.
\<close>

definition new_uses :: "heap \<Rightarrow> ggml_cgraph \<Rightarrow> ggml_cgraph \<Rightarrow> ptr \<Rightarrow> int" where
  "new_uses h g g' p = (\<Sum>q \<in> g_done g' - g_done g. int (count_list (srcs h q) p))"

definition walk :: "(ptr \<Rightarrow> int) \<Rightarrow> heap \<times> ggml_cgraph \<Rightarrow> heap \<times> ggml_cgraph \<Rightarrow> bool" where
  "walk E = (\<lambda>(h, g) (h', g').
     heap_frame h h' \<and> g_size g' = g_size g \<and> g_order g' = g_order g \<and>
     g_grads g' = g_grads g \<and> g_grad_accs g' = g_grad_accs g \<and>
     hs_size (g_visited g') = hs_size (g_visited g) \<and>
     prefix (g_node_list g) (g_node_list g') \<and> prefix (g_leaf_list g) (g_leaf_list g') \<and>
     hs_set (g_visited g) \<subseteq> hs_set (g_visited g') \<and>
     (\<forall>j x. hs_occupied (g_visited g) j x \<longrightarrow> hs_occupied (g_visited g') j x) \<and>
     (\<forall>p. p \<noteq> NULL \<longrightarrow> i32 (use_count_of g' p) = i32 (use_count_of g p + new_uses h g g' p + E p)))"

abbreviation walk0 :: "heap \<times> ggml_cgraph \<Rightarrow> heap \<times> ggml_cgraph \<Rightarrow> bool" where
  "walk0 \<equiv> walk (\<lambda>_. 0)"

lemma walkD:
  assumes "walk E (h, g) (h', g')"
  shows "heap_frame h h'" "g_size g' = g_size g" "g_order g' = g_order g" "g_grads g' = g_grads g"
    "g_grad_accs g' = g_grad_accs g" "hs_size (g_visited g') = hs_size (g_visited g)"
    "prefix (g_node_list g) (g_node_list g')" "prefix (g_leaf_list g) (g_leaf_list g')"
    "hs_set (g_visited g) \<subseteq> hs_set (g_visited g')"
    "\<And>j x. hs_occupied (g_visited g) j x \<Longrightarrow> hs_occupied (g_visited g') j x"
    "\<And>p. p \<noteq> NULL \<Longrightarrow> i32 (use_count_of g' p) = i32 (use_count_of g p + new_uses h g g' p + E p)"
  using assms by (simp_all add: walk_def)

lemmas walk_heap_frame = walkD(1)

lemma walk_refl: "walk0 s s"
  by (cases s) (simp add: walk_def new_uses_def)

lemma walk_done_mono: "walk E (h, g) (h', g') \<Longrightarrow> g_done g \<subseteq> g_done g'"
  using set_mono_prefix [OF walkD(7)] set_mono_prefix [OF walkD(8)] unfolding g_done_def by blast

lemma new_uses_trans:
  assumes "g_done g1 \<subseteq> g_done g2" "g_done g2 \<subseteq> g_done g3" "srcs h' = srcs h"
  shows "new_uses h g1 g3 p = new_uses h g1 g2 p + new_uses h' g2 g3 p"
proof -
  have "g_done g3 - g_done g1 = (g_done g2 - g_done g1) \<union> (g_done g3 - g_done g2)" using assms by auto
  moreover have "finite (g_done g)" for g by (simp add: g_done_def)
  moreover have "(g_done g2 - g_done g1) \<inter> (g_done g3 - g_done g2) = {}" by blast
  ultimately show ?thesis
    unfolding new_uses_def assms(3) by (simp only: sum.union_disjoint finite_Diff)
qed

lemma walk_trans:
  assumes 1: "walk E1 (h1, g1) (h2, g2)" and 2: "walk E2 (h2, g2) (h3, g3)"
  shows "walk (\<lambda>p. E1 p + E2 p) (h1, g1) (h3, g3)"
proof -
  note n = new_uses_trans [OF walk_done_mono [OF 1] walk_done_mono [OF 2]
    heap_frame_fun(1) [OF walk_heap_frame [OF 1]]]
  have u: "i32 (use_count_of g3 p) = i32 (use_count_of g1 p + new_uses h1 g1 g3 p + (E1 p + E2 p))"
    if p: "p \<noteq> NULL" for p
  proof -
    have "i32 (use_count_of g2 p + (new_uses h2 g2 g3 p + E2 p))
        = i32 (use_count_of g1 p + new_uses h1 g1 g2 p + E1 p + (new_uses h2 g2 g3 p + E2 p))"
      by (rule i32_add_cong [OF walkD(11) [OF 1 p]])
    then show ?thesis unfolding n walkD(11) [OF 2 p] add.assoc by (simp only: ac_simps)
  qed
  show ?thesis
    unfolding walk_def split
  proof (intro conjI allI impI)
    show "heap_frame h1 h3" by (rule heap_frame_trans [OF walkD(1) [OF 1] walkD(1) [OF 2]])
    show "prefix (g_node_list g1) (g_node_list g3)" by (rule prefix_order.trans [OF walkD(7) [OF 1] walkD(7) [OF 2]])
    show "prefix (g_leaf_list g1) (g_leaf_list g3)" by (rule prefix_order.trans [OF walkD(8) [OF 1] walkD(8) [OF 2]])
    show "hs_set (g_visited g1) \<subseteq> hs_set (g_visited g3)" using walkD(9) [OF 1] walkD(9) [OF 2] by blast
    show "hs_occupied (g_visited g3) j x" if "hs_occupied (g_visited g1) j x" for j x
      by (rule walkD(10) [OF 2 walkD(10) [OF 1 that]])
    show "i32 (use_count_of g3 p) = i32 (use_count_of g1 p + new_uses h1 g1 g3 p + (E1 p + E2 p))"
      if "p \<noteq> NULL" for p using that by (rule u)
  qed (simp_all only: walkD(2-6) [OF 1] walkD(2-6) [OF 2])
qed

lemma walk_cong: "walk E s s' \<Longrightarrow> (\<And>p. p \<noteq> NULL \<Longrightarrow> E p = E' p) \<Longrightarrow> walk E' s s'"
  by (simp add: walk_def split_def)

section \<open>The steps\<close>

lemma use_count_of_occupied:
  assumes "hs_inv (g_visited g)" "hs_occupied (g_visited g) j p"
  shows "use_count_of g p = g_use_counts g ! j"
proof -
  have p: "p \<in> hs_set (g_visited g)" using assms(2) by (auto simp: hs_occupied_def hs_set_def)
  then obtain r where r: "ggml_hash_find (g_visited g) p = Some r" "r < hs_size (g_visited g)"
    "hs_get (g_visited g) r" "hs_keys (g_visited g) ! r = p"
    using ggml_hash_find_spec [OF assms(1), of p] by auto
  moreover have "r = j" using hs_keys_distinct [OF assms(1) r(2,3)] assms(2) r(4) by (auto simp: hs_occupied_def)
  moreover have "r \<noteq> GGML_HASHSET_FULL"
    using hs_invD(2) [OF assms(1)] r(2) by (auto simp: GGML_HASHSET_FULL_def GGML_HASHSET_ALREADY_EXISTS_def)
  ultimately show ?thesis by (simp add: use_count_of_def)
qed

lemma use_count_of_absent:
  assumes "hs_inv (g_visited g)" "p \<notin> hs_set (g_visited g)"
  shows "use_count_of g p = 0"
  using ggml_hash_find_spec [OF assms(1), of p] assms(2) by (auto simp: use_count_of_def split: if_splits)

lemma hs_set_occupied: "p \<in> hs_set hs \<longleftrightarrow> (\<exists>j. hs_occupied hs j p)"
  by (auto simp: hs_set_def hs_occupied_def)

lemma hs_occupied_unique:
  "hs_inv hs \<Longrightarrow> hs_occupied hs i p \<Longrightarrow> hs_occupied hs j p \<Longrightarrow> i = j"
  using hs_keys_distinct by (auto simp: hs_occupied_def)

lemma use_count_of_range: "graph_shape g \<Longrightarrow> is_i32 (use_count_of g p)"
proof -
  assume g: "graph_shape g"
  then have inv: "hs_inv (g_visited g)" by (simp add: graph_shape_def)
  show ?thesis
  proof (cases "p \<in> hs_set (g_visited g)")
    case True
    then obtain j where j: "hs_occupied (g_visited g) j p" by (auto simp: hs_set_occupied)
    then have "g_use_counts g ! j \<in> set (g_use_counts g)" using g by (simp add: graph_shape_def hs_occupied_def)
    then show ?thesis using g use_count_of_occupied [OF inv j] by (simp add: graph_shape_def)
  next
    case False
    then show ?thesis using use_count_of_absent [OF inv] by (simp add: is_i32_def)
  qed
qed

lemma enter_visited_simps [simp]:
  "g_size (enter_visited g i p) = g_size g" "g_n_nodes (enter_visited g i p) = g_n_nodes g"
  "g_n_leafs (enter_visited g i p) = g_n_leafs g" "g_nodes (enter_visited g i p) = g_nodes g"
  "g_leafs (enter_visited g i p) = g_leafs g" "g_order (enter_visited g i p) = g_order g"
  "g_grads (enter_visited g i p) = g_grads g" "g_grad_accs (enter_visited g i p) = g_grad_accs g"
  "g_visited (enter_visited g i p) = hs_put (g_visited g) i p"
  "g_use_counts (enter_visited g i p) = (g_use_counts g)[i := 0]"
  "g_node_list (enter_visited g i p) = g_node_list g" "g_leaf_list (enter_visited g i p) = g_leaf_list g"
  "g_done (enter_visited g i p) = g_done g"
  by (simp_all add: enter_visited_def g_node_list_def g_leaf_list_def g_done_def)

text \<open>A key put in a free slot together with a count.\<close>

lemma put_use_count:
  assumes inv: "hs_inv (g_visited g)" and i: "i < hs_size (g_visited g)" "\<not> hs_get (g_visited g) i"
      "hs_inv (hs_put (g_visited g) i p)"
    and len: "length (g_use_counts g) = hs_size (g_visited g)" and new: "p \<notin> hs_set (g_visited g)"
    and g': "g_visited g' = hs_put (g_visited g) i p" "g_use_counts g' = (g_use_counts g)[i := v]"
  shows "use_count_of g' q = (if q = p then v else use_count_of g q)"
proof (cases "q \<in> hs_set (g_visited g)")
  case True
  then obtain j where j: "hs_occupied (g_visited g) j q" by (auto simp: hs_set_occupied)
  then have "j \<noteq> i" using i(2) by (auto simp: hs_occupied_def)
  then show ?thesis
    using use_count_of_occupied [OF inv j] use_count_of_occupied [of g' j q] hs_put_occupied(2) [OF inv i(1,2) j]
      i(3) True new by (auto simp: g')
next
  case False
  have "hs_occupied (g_visited g') i p" using hs_put_occupied(1) [OF inv i(1,2)] by (simp add: g')
  then have "use_count_of g' p = v"
    using use_count_of_occupied [of g' i p] i(1,3) len by (simp add: g')
  then show ?thesis
    using False use_count_of_absent [OF inv] use_count_of_absent [of g' q] hs_put_set [OF inv i(1,2)] i(3)
    by (cases "q = p") (simp_all add: g')
qed

lemma set_list_update_subset: "\<forall>x \<in> set xs. P x \<Longrightarrow> P v \<Longrightarrow> \<forall>x \<in> set (xs[i := v]). P x"
  using set_update_subset_insert by fastforce

lemma enter_visited_step:
  assumes g: "graph_ok h g" and new: "p \<notin> hs_set (g_visited g)"
    and i: "i < hs_size (g_visited g)" "\<not> hs_get (g_visited g) i" "hs_inv (hs_put (g_visited g) i p)"
  shows "graph_ok h (enter_visited g i p)" "walk0 (h, g) (h, enter_visited g i p)"
    "hs_occupied (g_visited (enter_visited g i p)) i p"
    "g_open (enter_visited g i p) = insert p (g_open g)"
    "hs_set (g_visited (enter_visited g i p)) = insert p (hs_set (g_visited g))"
proof -
  let ?g = "enter_visited g i p"
  have inv: "hs_inv (g_visited g)" and sh: "graph_shape g" using g by (simp_all add: graph_ok_def graph_shape_def)
  have set: "hs_set (hs_put (g_visited g) i p) = insert p (hs_set (g_visited g))"
    by (rule hs_put_set [OF inv i(1,2)])
  then show "hs_set (g_visited ?g) = insert p (hs_set (g_visited g))" by simp
  have "is_i32 0" by (simp add: is_i32_def)
  then have sh': "graph_shape ?g" using sh i(3) by (auto simp: graph_shape_def intro: set_list_update_subset [rule_format])
  then show ok: "graph_ok h ?g" using g set by (auto simp: graph_ok_def)
  show occ: "hs_occupied (g_visited ?g) i p" using hs_put_occupied(1) [OF inv i(1,2)] by simp
  have dn: "p \<notin> g_done g" using g new by (auto simp: graph_ok_def)
  then show "g_open ?g = insert p (g_open g)" using set by (auto simp: g_open_def)
  have keep: "hs_occupied (g_visited ?g) j x" if "hs_occupied (g_visited g) j x" for j x
    using hs_put_occupied(2) [OF inv i(1,2) that] by simp
  have use: "use_count_of ?g q = use_count_of g q" for q
    using put_use_count [OF inv i _ new, of ?g 0 q] use_count_of_absent [OF inv new] sh
    by (auto simp: graph_shape_def)
  show "walk0 (h, g) (h, ?g)"
    using set keep by (auto simp: walk_def new_uses_def use)
qed

lemma count_use_simps [simp]:
  "g_size (count_use g i) = g_size g" "g_n_nodes (count_use g i) = g_n_nodes g"
  "g_n_leafs (count_use g i) = g_n_leafs g" "g_nodes (count_use g i) = g_nodes g"
  "g_leafs (count_use g i) = g_leafs g" "g_order (count_use g i) = g_order g"
  "g_grads (count_use g i) = g_grads g" "g_grad_accs (count_use g i) = g_grad_accs g"
  "g_visited (count_use g i) = g_visited g"
  "g_use_counts (count_use g i) = (g_use_counts g)[i := i32 (g_use_counts g ! i + 1)]"
  "g_node_list (count_use g i) = g_node_list g" "g_leaf_list (count_use g i) = g_leaf_list g"
  "g_done (count_use g i) = g_done g" "g_open (count_use g i) = g_open g"
  by (simp_all add: count_use_def g_node_list_def g_leaf_list_def g_done_def g_open_def)

lemma count_use_step:
  assumes g: "graph_ok h g" and i: "hs_occupied (g_visited g) i p"
  shows "graph_ok h (count_use g i)" "walk (\<lambda>q. if q = p then 1 else 0) (h, g) (h, count_use g i)"
proof -
  let ?g = "count_use g i"
  have inv: "hs_inv (g_visited g)" and sh: "graph_shape g" using g by (simp_all add: graph_ok_def graph_shape_def)
  have sh': "graph_shape ?g"
    using sh set_list_update_subset [of "g_use_counts g" is_i32, OF _ is_i32_i32] by (simp add: graph_shape_def)
  then show "graph_ok h ?g" using g by (auto simp: graph_ok_def)
  have use: "i32 (use_count_of ?g q) = i32 (use_count_of g q + (if q = p then 1 else 0))" for q
  proof (cases "q \<in> hs_set (g_visited g)")
    case True
    then obtain j where j: "hs_occupied (g_visited g) j q" by (auto simp: hs_set_occupied)
    have u: "use_count_of g q = g_use_counts g ! j" "use_count_of ?g q = g_use_counts ?g ! j"
      using use_count_of_occupied [OF inv j] use_count_of_occupied [of ?g j q] inv j by simp_all
    have "j < length (g_use_counts g)" using sh j by (simp add: graph_shape_def hs_occupied_def)
    moreover have "j = i \<longleftrightarrow> q = p" using i j hs_occupied_unique [OF inv] by (auto simp: hs_occupied_def)
    ultimately show ?thesis using u by (auto simp: nth_list_update i32_add_left [of _ 0, simplified])
  next
    case False
    then have "q \<noteq> p" using i by (auto simp: hs_set_occupied)
    then show ?thesis using use_count_of_absent [OF inv False] use_count_of_absent [of ?g q] inv False by simp
  qed
  show "walk (\<lambda>q. if q = p then 1 else 0) (h, g) (h, ?g)"
    by (auto simp: walk_def new_uses_def use)
qed

lemma push_simps [simp]:
  "g_size (push_leaf g p) = g_size g" "g_order (push_leaf g p) = g_order g" "g_grads (push_leaf g p) = g_grads g"
  "g_grad_accs (push_leaf g p) = g_grad_accs g" "g_visited (push_leaf g p) = g_visited g"
  "g_use_counts (push_leaf g p) = g_use_counts g" "g_node_list (push_leaf g p) = g_node_list g"
  "g_size (push_node g p) = g_size g" "g_order (push_node g p) = g_order g" "g_grads (push_node g p) = g_grads g"
  "g_grad_accs (push_node g p) = g_grad_accs g" "g_visited (push_node g p) = g_visited g"
  "g_use_counts (push_node g p) = g_use_counts g" "g_leaf_list (push_node g p) = g_leaf_list g"
  by (simp_all add: push_leaf_def push_node_def g_node_list_def g_leaf_list_def)

lemma use_count_of_push [simp]:
  "use_count_of (push_leaf g p) q = use_count_of g q" "use_count_of (push_node g p) q = use_count_of g q"
  by (simp_all add: use_count_of_def cong: option.case_cong if_cong)

lemma take_update_snoc: "n < length xs \<Longrightarrow> take (Suc n) (xs[n := p]) = take n xs @ [p]"
  by (simp add: take_Suc_conv_app_nth)

lemma push_list:
  "graph_shape g \<Longrightarrow> g_n_leafs g < g_size g \<Longrightarrow> g_leaf_list (push_leaf g p) = g_leaf_list g @ [p]"
  "graph_shape g \<Longrightarrow> g_n_nodes g < g_size g \<Longrightarrow> g_node_list (push_node g p) = g_node_list g @ [p]"
proof -
  assume g: "graph_shape g"
  have n: "nat (k + 1) = Suc (nat k)" if "0 \<le> k" for k :: int using that by simp
  have r: "nat k < length xs" if "0 \<le> k" "k < m" "int (length xs) = m" for k m and xs :: "ptr list"
    using that by linarith
  show "g_leaf_list (push_leaf g p) = g_leaf_list g @ [p]" if "g_n_leafs g < g_size g"
    using g that n [of "g_n_leafs g"] take_update_snoc [OF r [of "g_n_leafs g" "g_size g" "g_leafs g"], of p]
    by (simp add: push_leaf_def g_leaf_list_def graph_shape_def)
  show "g_node_list (push_node g p) = g_node_list g @ [p]" if "g_n_nodes g < g_size g"
    using g that n [of "g_n_nodes g"] take_update_snoc [OF r [of "g_n_nodes g" "g_size g" "g_nodes g"], of p]
    by (simp add: push_node_def g_node_list_def graph_shape_def)
qed

lemma push_shape:
  "graph_shape g \<Longrightarrow> g_n_leafs g < g_size g \<Longrightarrow> graph_shape (push_leaf g p)"
  "graph_shape g \<Longrightarrow> g_n_nodes g < g_size g \<Longrightarrow> graph_shape (push_node g p)"
  by (simp_all add: push_leaf_def push_node_def graph_shape_def)

lemma list_lengths:
  assumes "graph_shape g"
  shows "int (length (g_node_list g)) = g_n_nodes g" "int (length (g_leaf_list g)) = g_n_leafs g"
  using assms by (auto simp: graph_shape_def g_node_list_def g_leaf_list_def)

text \<open>While a visited tensor is open there is room for it in both lists.\<close>

lemma room_for_open:
  assumes g: "graph_ok h g" and p: "p \<in> g_open g" and cap: "int (card (hs_set (g_visited g))) \<le> g_size g"
  shows "g_n_leafs g < g_size g" "g_n_nodes g < g_size g"
proof -
  have sh: "graph_shape g" and d: "distinct (g_node_list g @ g_leaf_list g)"
    and sub: "g_done g \<subseteq> hs_set (g_visited g)" using g by (simp_all add: graph_ok_def)
  have "g_done g \<subset> hs_set (g_visited g)" using sub p by (auto simp: g_open_def)
  then have "card (g_done g) < card (hs_set (g_visited g))" by (rule psubset_card_mono [OF hs_set_finite])
  moreover have "card (g_done g) = length (g_node_list g @ g_leaf_list g)"
    using distinct_card [OF d] by (simp add: g_done_def)
  ultimately show "g_n_leafs g < g_size g" "g_n_nodes g < g_size g"
    using list_lengths [OF sh] cap by auto
qed

lemma sources_before_snoc:
  "sources_before src L (ns @ [p]) \<longleftrightarrow> sources_before src L ns \<and> set (src p) \<subseteq> {NULL, p} \<union> set ns \<union> L"
  by (auto simp: sources_before_def nth_append less_Suc_eq)

lemma sources_before_mono: "sources_before src L ns \<Longrightarrow> L \<subseteq> L' \<Longrightarrow> sources_before src L' ns"
  unfolding sources_before_def by blast

lemma graph_ok_frame: "heap_frame h h' \<Longrightarrow> graph_ok h' g = graph_ok h g"
  by (simp add: graph_ok_def heap_frame_fun)

lemma name_if_empty_frame:
  assumes "h_tensors h p \<noteq> None" "p \<noteq> NULL"
  shows "\<exists>h'. name_if_empty h p s n = Some h' \<and> heap_frame h h'"
proof -
  obtain t where t: "h_tensors h p = Some t" using assms by auto
  show ?thesis
  proof (cases "t_name t = []")
    case True
    obtain h' where h': "tset h p (ggml_format_name (s @ dec_string (nat n))) = Some h'"
      using t assms(2) by (auto simp: tset_Some)
    have "heap_frame h h'" by (rule tset_frame [OF h']) (simp_all add: name_core)
    then show ?thesis using True t assms(2) h' by (simp add: name_if_empty_def tget_def)
  next
    case False
    then show ?thesis using t assms(2) by (simp add: name_if_empty_def tget_def)
  qed
qed

lemma push_leaf_ok:
  assumes "graph_ok h g" "p \<in> g_open g" "is_leaf h p" and n: "g_n_leafs g < g_size g"
  shows "graph_ok h (push_leaf g p)" "g_leaf_list (push_leaf g p) = g_leaf_list g @ [p]"
    "g_done (push_leaf g p) = insert p (g_done g)"
proof -
  have sh: "graph_shape g" using assms(1) by (simp add: graph_ok_def)
  show l: "g_leaf_list (push_leaf g p) = g_leaf_list g @ [p]" by (rule push_list(1) [OF sh n])
  then show "g_done (push_leaf g p) = insert p (g_done g)" by (auto simp: g_done_def)
  moreover have "sources_before (srcs h) (set (g_leaf_list g @ [p])) (g_node_list g)"
    by (rule sources_before_mono [of _ "set (g_leaf_list g)"]) (use assms(1) in \<open>auto simp: graph_ok_def\<close>)
  ultimately show "graph_ok h (push_leaf g p)"
    using assms(1-3) push_shape(1) [OF sh n] l by (auto simp: graph_ok_def g_open_def g_done_def)
qed

lemma push_node_ok:
  assumes "graph_ok h g" "p \<in> g_open g" "\<not> is_leaf h p" and n: "g_n_nodes g < g_size g"
    and "set (srcs h p) \<subseteq> {NULL, p} \<union> g_done g"
  shows "graph_ok h (push_node g p)" "g_node_list (push_node g p) = g_node_list g @ [p]"
    "g_done (push_node g p) = insert p (g_done g)"
proof -
  have sh: "graph_shape g" using assms(1) by (simp add: graph_ok_def)
  show l: "g_node_list (push_node g p) = g_node_list g @ [p]" by (rule push_list(2) [OF sh n])
  then show "g_done (push_node g p) = insert p (g_done g)" by (auto simp: g_done_def)
  moreover have "sources_before (srcs h) (set (g_leaf_list g)) (g_node_list g @ [p])"
    using assms(1,5) by (auto simp: graph_ok_def sources_before_snoc g_done_def)
  ultimately show "graph_ok h (push_node g p)"
    using assms(1-3) push_shape(2) [OF sh n] l by (auto simp: graph_ok_def g_open_def g_done_def)
qed

definition appended :: "heap \<Rightarrow> ggml_cgraph \<Rightarrow> ggml_cgraph \<Rightarrow> ptr \<Rightarrow> bool" where
  "appended h g g' p \<longleftrightarrow>
     (if is_leaf h p then g_leaf_list g' = g_leaf_list g @ [p] \<and> g_node_list g' = g_node_list g
      else g_node_list g' = g_node_list g @ [p] \<and> g_leaf_list g' = g_leaf_list g)"

lemma add_visited_step:
  assumes g: "graph_ok h g" and p: "p \<in> g_open g" "h_tensors h p \<noteq> None" "p \<noteq> NULL"
    and cap: "room \<Longrightarrow> int (card (hs_set (g_visited g))) \<le> g_size g"
    and src: "set (srcs h p) \<subseteq> {NULL, p} \<union> g_done g"
  shows "settles room (\<lambda>(h', g'). graph_ok h' g' \<and> walk (\<lambda>q. - int (count_list (srcs h p) q)) (h, g) (h', g') \<and>
    g_visited g' = g_visited g \<and> g_done g' = insert p (g_done g) \<and> appended h g g' p) (add_visited h g p)"
    (is "settles room ?P _")
proof -
  have dn: "p \<notin> g_done g" using p by (simp add: g_open_def)
  note room = room_for_open [OF g p(1) cap]
  obtain t where t: "h_tensors h p = Some t" using p(2) by auto
  have w: "walk (\<lambda>q. - int (count_list (srcs h p) q)) (h, g) (h', g')"
    if "heap_frame h h'" "g_done g' = insert p (g_done g)" "appended h g g' p"
      "g' = push_leaf g p \<or> g' = push_node g p" for h' g'
    using that dn by (auto simp: walk_def appended_def new_uses_def insert_Diff_if split: if_splits)
  show ?thesis
  proof (cases "is_leaf h p")
    case True
    obtain h' where h': "name_if_empty h p ''leaf_'' (g_n_leafs g) = Some h'" "heap_frame h h'"
      using name_if_empty_frame [OF p(2,3)] by blast
    have "?P (h', push_leaf g p)" if n: "g_n_leafs g < g_size g"
    proof -
      note l = push_leaf_ok [OF g p(1) True n]
      have a: "appended h g (push_leaf g p) p" using True l by (simp add: appended_def)
      show ?thesis using l a w [OF h'(2) l(3) a] graph_ok_frame [OF h'(2)] by simp
    qed
    then show ?thesis
      using True t p(3) h'(1) room(1) by (auto simp: add_visited_def tget_def is_leaf_def)
  next
    case False
    obtain h' where h': "name_if_empty h p ''node_'' (g_n_nodes g) = Some h'" "heap_frame h h'"
      using name_if_empty_frame [OF p(2,3)] by blast
    have "?P (h', push_node g p)" if n: "g_n_nodes g < g_size g"
    proof -
      note l = push_node_ok [OF g p(1) False n src]
      have a: "appended h g (push_node g p) p" using False l by (simp add: appended_def)
      show ?thesis using l a w [OF h'(2) l(3) a] graph_ok_frame [OF h'(2)] by simp
    qed
    then show ?thesis
      using False t p(3) h'(1) room(2) by (auto simp: add_visited_def tget_def is_leaf_def)
  qed
qed

section \<open>The walk ends and succeeds\<close>

text \<open>
  \<open>U\<close> is a set of tensors closed under sources, in which tensors without an operation have no sources
  and a rank falls from every tensor to its sources (a tensor that is its own source excepted).
\<close>

definition universe :: "heap \<Rightarrow> (ptr \<Rightarrow> nat) \<Rightarrow> ptr set \<Rightarrow> bool" where
  "universe h rk U \<longleftrightarrow> finite U \<and> NULL \<notin> U \<and>
     (\<forall>p \<in> U. h_tensors h p \<noteq> None \<and> length (srcs h p) = GGML_MAX_SRC \<and>
        set (srcs h p) \<subseteq> insert NULL U \<and> (\<not> is_op h p \<longrightarrow> set (srcs h p) \<subseteq> {NULL}) \<and>
        (\<forall>s \<in> set (srcs h p). s \<noteq> NULL \<longrightarrow> s \<noteq> p \<longrightarrow> rk s < rk p))"

lemma universe_frame: "heap_frame h h' \<Longrightarrow> universe h' rk U = universe h rk U"
  by (simp add: universe_def heap_frame_fun heap_frame_static)

lemma universeD:
  assumes "universe h rk U" "p \<in> U"
  shows "h_tensors h p \<noteq> None" "p \<noteq> NULL" "length (srcs h p) = GGML_MAX_SRC"
    "\<And>s. s \<in> set (srcs h p) \<Longrightarrow> s \<noteq> NULL \<Longrightarrow> s \<in> U"
    "\<And>s. s \<in> set (srcs h p) \<Longrightarrow> s \<noteq> NULL \<Longrightarrow> is_op h p"
    "\<And>s. s \<in> set (srcs h p) \<Longrightarrow> s \<noteq> NULL \<Longrightarrow> s = p \<or> rk s < rk p"
  using assms by (auto simp: universe_def)

definition pending :: "ptr set \<Rightarrow> heap \<Rightarrow> ptr set" where
  "pending U h = {p \<in> U. is_op h p \<and> \<not> computed h p}"

definition visit_measure :: "ptr set \<Rightarrow> heap \<Rightarrow> ggml_cgraph \<Rightarrow> ptr \<Rightarrow> nat \<times> nat" where
  "visit_measure U h g node =
     (card (U - hs_set (g_visited g)),
      2 * card (pending U h) + (if is_op h node \<and> computed h node then 1 else 0))"

abbreviation lower :: "((nat \<times> nat) \<times> (nat \<times> nat)) set" where
  "lower \<equiv> less_than <*lex*> less_than"

definition visit_inv :: "(ptr \<Rightarrow> nat) \<Rightarrow> ptr set \<Rightarrow> heap \<times> ggml_cgraph \<Rightarrow> bool" where
  "visit_inv rk U = (\<lambda>(h, g). universe h rk U \<and> graph_ok h g \<and> hs_set (g_visited g) \<subseteq> U)"

definition visit_pre :: "(ptr \<Rightarrow> nat) \<Rightarrow> ptr set \<Rightarrow> heap \<Rightarrow> ggml_cgraph \<Rightarrow> ptr \<Rightarrow> bool" where
  "visit_pre rk U h g node \<longleftrightarrow> visit_inv rk U (h, g) \<and> node \<in> U \<and>
     (\<forall>p \<in> g_open g. p = node \<or> rk node < rk p)"

text \<open>Nothing was added.\<close>

definition same_lists :: "ggml_cgraph \<Rightarrow> ggml_cgraph \<Rightarrow> bool" where
  "same_lists g g' \<longleftrightarrow> g_node_list g' = g_node_list g \<and> g_leaf_list g' = g_leaf_list g"

definition ends_with :: "heap \<Rightarrow> ggml_cgraph \<Rightarrow> ptr \<Rightarrow> bool" where
  "ends_with h g p \<longleftrightarrow> (if is_leaf h p then suffix [p] (g_leaf_list g) else suffix [p] (g_node_list g))"

definition visit_post ::
    "(ptr \<Rightarrow> nat) \<Rightarrow> ptr set \<Rightarrow> heap \<Rightarrow> ggml_cgraph \<Rightarrow> ptr \<Rightarrow> nat \<Rightarrow> heap \<Rightarrow> ggml_cgraph \<Rightarrow> bool" where
  "visit_post rk U h g node pos h' g' \<longleftrightarrow>
     walk0 (h, g) (h', g') \<and> visit_inv rk U (h', g') \<and> g_open g' = g_open g \<and>
     hs_occupied (g_visited g') pos node \<and>
     (node \<in> g_done g \<longrightarrow> same_lists g g') \<and>
     (node \<notin> hs_set (g_visited g) \<longrightarrow> ends_with h g' node \<and> (is_leaf h node \<longrightarrow> g_node_list g' = g_node_list g))"

definition visits :: "(ptr \<Rightarrow> nat) \<Rightarrow> ptr set \<Rightarrow> heap \<Rightarrow> ggml_cgraph \<Rightarrow> ptr \<Rightarrow> bool \<Rightarrow> bool" where
  "visits rk U h g node compute \<longleftrightarrow>
     settles (int (card U) \<le> g_size g) (\<lambda>(pos, h', g'). visit_post rk U h g node pos h' g')
       (ggml_visit_parents_graph h g node compute)"

definition visits_below :: "(ptr \<Rightarrow> nat) \<Rightarrow> ptr set \<Rightarrow> nat \<times> nat \<Rightarrow> bool" where
  "visits_below rk U m \<longleftrightarrow>
     (\<forall>h g p compute. (visit_measure U h g p, m) \<in> lower \<longrightarrow> visit_pre rk U h g p \<longrightarrow> visits rk U h g p compute)"

lemma visit_invD:
  assumes "visit_inv rk U (h, g)"
  shows "universe h rk U" "graph_ok h g" "hs_set (g_visited g) \<subseteq> U" "finite U" "hs_inv (g_visited g)" "graph_shape g"
    "int (card U) \<le> g_size g \<Longrightarrow> int (card (hs_set (g_visited g))) \<le> g_size g"
proof -
  show "universe h rk U" "graph_ok h g" and s: "hs_set (g_visited g) \<subseteq> U" and "hs_inv (g_visited g)" "graph_shape g"
    using assms by (simp_all add: visit_inv_def graph_ok_def graph_shape_def)
  show f: "finite U" using assms by (simp add: visit_inv_def universe_def)
  show "int (card (hs_set (g_visited g))) \<le> g_size g" if "int (card U) \<le> g_size g" using card_mono [OF f s] that by simp
qed

text \<open>The sources of what is done are done.\<close>

lemma done_closed:
  assumes "visit_inv rk U (h, g)" "p \<in> g_done g" "s \<in> set (srcs h p)" "s \<noteq> NULL"
  shows "s \<in> g_done g"
proof (cases "p \<in> set (g_leaf_list g)")
  case True
  then have "is_leaf h p" using visit_invD(2) [OF assms(1)] by (simp add: graph_ok_def)
  then have "\<not> is_op h p" by (simp add: is_leaf_def is_op_def split: option.splits)
  moreover have "p \<in> U" using assms(2) visit_invD(2,3) [OF assms(1)] by (auto simp: graph_ok_def)
  ultimately show ?thesis using universeD(5) [OF visit_invD(1) [OF assms(1)] _ assms(3,4)] by blast
next
  case False
  then have "p \<in> set (g_node_list g)" using assms(2) by (auto simp: g_done_def)
  then obtain i where i: "i < length (g_node_list g)" "g_node_list g ! i = p" by (auto simp: in_set_conv_nth)
  moreover have "sources_before (srcs h) (set (g_leaf_list g)) (g_node_list g)"
    using visit_invD(2) [OF assms(1)] by (simp add: graph_ok_def)
  ultimately have "set (srcs h p) \<subseteq> {NULL, p} \<union> set (take i (g_node_list g)) \<union> set (g_leaf_list g)"
    unfolding sources_before_def by blast
  then show ?thesis using assms set_take_subset [of i "g_node_list g"] by (auto simp: g_done_def)
qed

lemma pending_antimono:
  assumes "heap_frame h h'"
  shows "pending U h' \<subseteq> pending U h"
proof -
  have "\<forall>p. computed h p \<longrightarrow> computed h' p" using assms by (simp add: heap_frame_def)
  then show ?thesis unfolding pending_def heap_frame_fun(3) [OF assms] by blast
qed

lemma visit_inv_frame:
  assumes "visit_inv rk U (h, g)" "heap_frame h h'"
  shows "visit_inv rk U (h', g)"
  using assms universe_frame [OF assms(2)] graph_ok_frame [OF assms(2)] by (simp add: visit_inv_def)

lemma walk_frame: "heap_frame h h' \<Longrightarrow> walk0 (h, g) (h', g)"
  by (simp add: walk_def new_uses_def)

lemma walk0_trans: "walk0 (h1, g1) (h2, g2) \<Longrightarrow> walk0 (h2, g2) (h3, g3) \<Longrightarrow> walk0 (h1, g1) (h3, g3)"
  using walk_trans [of "\<lambda>_. 0" h1 g1 h2 g2 "\<lambda>_. 0" h3 g3] by simp

text \<open>The bodies of the two loops.\<close>

definition propagate :: "ptr \<Rightarrow> nat \<Rightarrow> heap \<times> ggml_cgraph \<Rightarrow> (heap \<times> ggml_cgraph) option" where
  "propagate node i = (\<lambda>(h, g). do {
     t \<leftarrow> tget h node;
     let src = t_src t ! i;
     if src = NULL then Some (h, g)
     else do {
       s \<leftarrow> tget h src;
       if t_flags s AND GGML_TENSOR_FLAG_COMPUTE = 0
       then do { (_, h, g) \<leftarrow> ggml_visit_parents_graph h g src True; Some (h, g) }
       else Some (h, g) } })"

definition visit_src :: "ptr \<Rightarrow> bool \<Rightarrow> nat \<Rightarrow> heap \<times> ggml_cgraph \<Rightarrow> (heap \<times> ggml_cgraph) option" where
  "visit_src node compute i = (\<lambda>(h, g). do {
     t \<leftarrow> tget h node;
     let src = t_src t ! eval_order_index (g_order g) i;
     if src = NULL then Some (h, g)
     else do {
       (src_hash_pos, h, g) \<leftarrow> ggml_visit_parents_graph h g src compute;
       Some (h, count_use g src_hash_pos) } })"

lemma visit_unfold:
  "ggml_visit_parents_graph h g node compute = do {
     h \<leftarrow> mark_compute h node compute;
     pos \<leftarrow> ggml_hash_find (g_visited g) node;
     gassert (pos \<noteq> GGML_HASHSET_FULL);
     if hs_get (g_visited g) pos
     then do {
       (h, g) \<leftarrow> (if compute then for_each (propagate node) [0..<GGML_MAX_SRC] (h, g) else Some (h, g));
       Some (pos, h, g) }
     else do {
       (h, g) \<leftarrow> for_each (visit_src node compute) [0..<GGML_MAX_SRC] (h, enter_visited g pos node);
       (h, g) \<leftarrow> add_visited h g node;
       Some (pos, h, g) } }"
  unfolding propagate_def visit_src_def by (subst ggml_visit_parents_graph.simps) (simp only: Let_def)

text \<open>A source that is visited again without the flag: the number of pending tensors has dropped.\<close>

lemma propagate_step:
  assumes pre: "visit_pre rk U h g node" and IH: "visits_below rk U (visit_measure U h g node)"
    and mk: "heap_frame h h1" "is_op h node \<longrightarrow> computed h1 node"
    and I: "walk0 (h1, g) (h', g')" "visit_inv rk U (h', g')" "g_open g' = g_open g"
      "node \<in> g_done g \<longrightarrow> same_lists g g'"
    and i: "i < GGML_MAX_SRC"
  shows "settles (int (card U) \<le> g_size g) (\<lambda>(h2, g2). walk0 (h1, g) (h2, g2) \<and> visit_inv rk U (h2, g2) \<and>
    g_open g2 = g_open g \<and> (node \<in> g_done g \<longrightarrow> same_lists g g2)) (propagate node i (h', g'))"
proof -
  note u = visit_invD(1) [OF I(2)]
  have node: "node \<in> U" using pre by (simp add: visit_pre_def)
  have fr: "heap_frame h h'" by (rule heap_frame_trans [OF mk(1) walkD(1) [OF I(1)]])
  obtain t where t: "h_tensors h' node = Some t" using universeD(1) [OF u node] by auto
  then have sr: "srcs h' node = t_src t" by (simp add: srcs_def)
  let ?s = "t_src t ! i"
  have s_in: "?s \<in> set (srcs h' node)" using universeD(3) [OF u node] sr i by simp
  have tg: "tget h' node = Some t" using t universeD(2) [OF u node] by simp
  show ?thesis
  proof (cases "?s = NULL")
    case True
    then show ?thesis using tg I by (simp add: propagate_def Let_def del: tget_Some)
  next
    case nn: False
    have sU: "?s \<in> U" by (rule universeD(4) [OF u node s_in nn])
    obtain v where v: "h_tensors h' ?s = Some v" using universeD(1) [OF u sU] by auto
    then have tv: "tget h' ?s = Some v" using nn by simp
    show ?thesis
    proof (cases "t_flags v AND GGML_TENSOR_FLAG_COMPUTE = 0")
      case False
      then show ?thesis using tg tv nn I by (simp add: propagate_def Let_def del: tget_Some)
    next
      case True
      then have nc: "\<not> computed h' ?s" using v by (simp add: computed_def)
      have op: "is_op h node" using universeD(5) [OF u node s_in nn] heap_frame_fun(3) [OF fr] by simp
      then have cn: "computed h' node" using mk(2) walkD(1) [OF I(1)] by (simp add: heap_frame_def)
      then have "?s \<noteq> node" using nc by auto
      then have rk: "rk ?s < rk node" using universeD(6) [OF u node s_in nn] by simp
      have "visit_pre rk U h' g' ?s"
        using pre I(2,3) sU rk by (auto simp: visit_pre_def)
      moreover have "(visit_measure U h' g' ?s, visit_measure U h g node) \<in> lower"
      proof -
        have fU: "finite U" by (rule visit_invD(4) [OF I(2)])
        have "hs_set (g_visited g) \<subseteq> hs_set (g_visited g')" by (rule walkD(9) [OF I(1)])
        then have "card (U - hs_set (g_visited g')) \<le> card (U - hs_set (g_visited g))"
          using fU by (intro card_mono) auto
        moreover have "card (pending U h') \<le> card (pending U h)"
          using fU by (intro card_mono pending_antimono [OF fr]) (simp add: pending_def)
        moreover have "card (pending U h') < card (pending U h)" if "\<not> computed h node"
        proof (rule psubset_card_mono)
          show "finite (pending U h)" using fU by (simp add: pending_def)
          have "node \<in> pending U h - pending U h'" using that op node cn by (simp add: pending_def)
          then show "pending U h' \<subset> pending U h" using pending_antimono [OF fr] by blast
        qed
        ultimately show ?thesis using nc op by (auto simp: visit_measure_def)
      qed
      ultimately have "visits rk U h' g' ?s True" using IH unfolding visits_below_def by blast
      then have v: "settles (int (card U) \<le> g_size g) (\<lambda>(pos, h2, g2). visit_post rk U h' g' ?s pos h2 g2)
          (ggml_visit_parents_graph h' g' ?s True)" using walkD(2) [OF I(1)] by (simp add: visits_def)
      have "walk0 (h1, g) (h2, g2) \<and> visit_inv rk U (h2, g2) \<and> g_open g2 = g_open g \<and> (node \<in> g_done g \<longrightarrow> same_lists g g2)"
        if post: "visit_post rk U h' g' ?s pos h2 g2" for pos h2 g2
      proof -
        have "same_lists g g2" if d: "node \<in> g_done g"
        proof -
          have "node \<in> g_done g'" using walk_done_mono [OF I(1)] d by blast
          then have "?s \<in> g_done g'" by (rule done_closed [OF I(2) _ s_in nn])
          then show ?thesis using post I(4) d by (simp add: visit_post_def same_lists_def)
        qed
        then show ?thesis using post I(3) walk0_trans [OF I(1)] by (simp add: visit_post_def)
      qed
      moreover have "propagate node i (h', g') = (ggml_visit_parents_graph h' g' ?s True \<bind> (\<lambda>(_, h, g). Some (h, g)))"
        using tg tv nn True by (simp add: propagate_def Let_def del: tget_Some)
      ultimately show ?thesis by (auto intro!: settles_bind [OF v])
    qed
  qed
qed

lemma FULL_not_slot: "hs_inv hs \<Longrightarrow> i < hs_size hs \<Longrightarrow> i \<noteq> GGML_HASHSET_FULL"
  using hs_invD(2) by (fastforce simp: GGML_HASHSET_FULL_def GGML_HASHSET_ALREADY_EXISTS_def)

text \<open>A tensor that was visited before.\<close>

lemma visit_hit:
  assumes pre: "visit_pre rk U h g node" and IH: "visits_below rk U (visit_measure U h g node)"
    and hit: "node \<in> hs_set (g_visited g)"
  shows "visits rk U h g node compute"
proof -
  have inv: "visit_inv rk U (h, g)" and node: "node \<in> U" using pre by (simp_all add: visit_pre_def)
  note D = visit_invD [OF inv]
  obtain h1 where h1: "mark_compute h node compute = Some h1" "heap_frame h h1"
    "compute \<longrightarrow> is_op h node \<longrightarrow> computed h1 node"
    using mark_compute_frame [OF universeD(1,2) [OF D(1) node], of compute] by blast
  obtain pos where pos: "ggml_hash_find (g_visited g) node = Some pos" "pos < hs_size (g_visited g)"
    "hs_get (g_visited g) pos" "hs_keys (g_visited g) ! pos = node"
    using ggml_hash_find_spec [OF D(5), of node] hit by auto
  then have occ: "hs_occupied (g_visited g) pos node" and nf: "pos \<noteq> GGML_HASHSET_FULL"
    using FULL_not_slot [OF D(5)] by (auto simp: hs_occupied_def)
  have w1: "walk0 (h, g) (h1, g)" by (rule walk_frame [OF h1(2)])
  have inv1: "visit_inv rk U (h1, g)" by (rule visit_inv_frame [OF inv h1(2)])
  define I where "I = (\<lambda>(i::nat) (h', g'). walk0 (h1, g) (h', g') \<and> visit_inv rk U (h', g') \<and>
    g_open g' = g_open g \<and> (node \<in> g_done g \<longrightarrow> same_lists g g'))"
  have I0: "I 0 (h1, g)" using inv1 walk_refl by (simp add: I_def same_lists_def)
  let ?room = "int (card U) \<le> g_size g"
  have l: "settles ?room (I GGML_MAX_SRC) (if compute then for_each (propagate node) [0..<GGML_MAX_SRC] (h1, g) else Some (h1, g))"
  proof (cases compute)
    case True
    have "settles ?room (I (length [0..<GGML_MAX_SRC])) (for_each (propagate node) [0..<GGML_MAX_SRC] (h1, g))"
    proof (rule settles_for_each [of I, OF I0])
      fix i s assume i: "i < length [0..<GGML_MAX_SRC]" and I: "I i s"
      obtain h' g' where s: "s = (h', g')" by (cases s)
      have "settles ?room (\<lambda>(h2, g2). walk0 (h1, g) (h2, g2) \<and> visit_inv rk U (h2, g2) \<and> g_open g2 = g_open g \<and>
          (node \<in> g_done g \<longrightarrow> same_lists g g2)) (propagate node i (h', g'))"
        by (rule propagate_step [OF pre IH h1(2)]) (use h1(3) True I i in \<open>simp_all add: I_def s\<close>)
      then show "settles ?room (I (Suc i)) (propagate node ([0..<GGML_MAX_SRC] ! i) s)"
        using i by (simp add: s I_def split_def del: upt_rec_numeral)
    qed
    then show ?thesis using True by (simp del: upt_rec_numeral)
  next
    case False
    then show ?thesis using I0 by (simp add: I_def)
  qed
  have "ggml_visit_parents_graph h g node compute =
      ((if compute then for_each (propagate node) [0..<GGML_MAX_SRC] (h1, g) else Some (h1, g)) \<bind> (\<lambda>(h2, g2). Some (pos, h2, g2)))"
    using h1(1) pos(1,3) nf by (simp add: visit_unfold)
  moreover have "visit_post rk U h g node pos h2 g2" if "I GGML_MAX_SRC (h2, g2)" for h2 g2
    using that walk0_trans [OF w1] walkD(10) [OF _ occ] hit by (auto simp: I_def visit_post_def)
  ultimately show ?thesis unfolding visits_def by (simp only:) (rule settles_bind [OF l], auto)
qed

definition ordered_srcs :: "heap \<Rightarrow> ggml_cgraph \<Rightarrow> ptr \<Rightarrow> ptr list" where
  "ordered_srcs h g node = map (\<lambda>i. srcs h node ! eval_order_index (g_order g) i) [0..<GGML_MAX_SRC]"

lemma ordered_srcs_perm:
  assumes "length (srcs h node) = GGML_MAX_SRC"
  shows "mset (ordered_srcs h g node) = mset (srcs h node)"
proof -
  let ?s = "srcs h node"
  have id: "map (\<lambda>i. ?s ! i) [0..<GGML_MAX_SRC] = ?s"
    using assms by (metis map_nth)
  have rev: "map (\<lambda>i. ?s ! (GGML_MAX_SRC - 1 - i)) [0..<GGML_MAX_SRC] = rev ?s"
    by (rule nth_equalityI) (simp_all add: assms rev_nth)
  have "ordered_srcs h g node = ?s \<or> ordered_srcs h g node = rev ?s"
    unfolding ordered_srcs_def eval_order_index_def
    by (cases "g_order g") (simp_all only: ggml_cgraph_eval_order.case id rev, simp_all)
  then show ?thesis by auto
qed

lemma ordered_srcs_facts:
  assumes "length (srcs h node) = GGML_MAX_SRC"
  shows "length (ordered_srcs h g node) = GGML_MAX_SRC" "set (ordered_srcs h g node) = set (srcs h node)"
    "count_list (ordered_srcs h g node) p = count_list (srcs h node) p"
proof -
  note m = ordered_srcs_perm [OF assms, of g]
  show "length (ordered_srcs h g node) = GGML_MAX_SRC" using m assms by (metis size_mset)
  show "set (ordered_srcs h g node) = set (srcs h node)" using m by (metis set_mset_mset)
  show "count_list (ordered_srcs h g node) p = count_list (srcs h node) p" using m by (metis count_mset)
qed

text \<open>The state in the middle of a first visit, \<open>xs\<close> being the sources looked at so far.\<close>

definition visiting ::
    "(ptr \<Rightarrow> nat) \<Rightarrow> ptr set \<Rightarrow> heap \<times> ggml_cgraph \<Rightarrow> ptr \<Rightarrow> ptr list \<Rightarrow> heap \<times> ggml_cgraph \<Rightarrow> bool" where
  "visiting rk U s1 node xs = (\<lambda>(h', g').
     walk (\<lambda>p. int (count_list xs p)) s1 (h', g') \<and> visit_inv rk U (h', g') \<and>
     g_open g' = g_open (snd s1) \<and> set xs \<subseteq> {NULL, node} \<union> g_done g' \<and>
     (is_leaf (fst s1) node \<longrightarrow> same_lists (snd s1) g'))"

lemma take_snoc_count:
  "i < length xs \<Longrightarrow> count_list (take (Suc i) xs) p = count_list (take i xs) p + (if p = xs ! i then 1 else 0)"
  by (simp add: take_Suc_conv_app_nth)

text \<open>One source of a first visit.\<close>

lemma visit_src_step:
  assumes IH: "visits_below rk U m"
    and s1: "node \<in> U" "node \<in> g_open g1" "\<forall>p \<in> g_open g1. p = node \<or> rk node < rk p"
    and dec: "card (U - hs_set (g_visited g1)) < fst m"
    and I: "visiting rk U (h1, g1) node (take i (ordered_srcs h1 g1 node)) (h', g')"
    and i: "i < GGML_MAX_SRC"
  shows "settles (int (card U) \<le> g_size g1) (visiting rk U (h1, g1) node (take (Suc i) (ordered_srcs h1 g1 node)))
    (visit_src node compute i (h', g'))"
proof -
  have w: "walk (\<lambda>p. int (count_list (take i (ordered_srcs h1 g1 node)) p)) (h1, g1) (h', g')"
    and inv: "visit_inv rk U (h', g')" and op: "g_open g' = g_open g1"
    and sub: "set (take i (ordered_srcs h1 g1 node)) \<subseteq> {NULL, node} \<union> g_done g'"
    and same: "is_leaf h1 node \<longrightarrow> same_lists g1 g'"
    using I by (simp_all add: visiting_def)
  note u = visit_invD(1) [OF inv] and fr = walkD(1) [OF w]
  let ?ss = "ordered_srcs h1 g1 node"
  have len: "length (srcs h1 node) = GGML_MAX_SRC"
    using universeD(3) [OF u s1(1)] heap_frame_fun(1) [OF fr] by simp
  note os = ordered_srcs_facts [OF len, of g1]
  obtain t where t: "h_tensors h' node = Some t" using universeD(1) [OF u s1(1)] by auto
  have "srcs h' node = t_src t" using t by (simp add: srcs_def)
  then have ts: "srcs h1 node = t_src t" by (simp only: heap_frame_fun(1) [OF fr])
  have tg: "tget h' node = Some t" using t universeD(2) [OF u s1(1)] by simp
  let ?s = "?ss ! i"
  have si: "t_src t ! eval_order_index (g_order g') i = ?s"
    using i ts walkD(3) [OF w] by (simp add: ordered_srcs_def del: upt_rec_numeral)
  have s_in: "?s \<in> set (srcs h' node)" using os i heap_frame_fun(1) [OF fr] by (metis nth_mem)
  note tk = take_Suc_conv_app_nth [of i ?ss, unfolded os(1), OF i]
  show ?thesis
  proof (cases "?s = NULL")
    case True
    have "walk (\<lambda>p. int (count_list (take (Suc i) ?ss) p)) (h1, g1) (h', g')"
      by (rule walk_cong [OF w]) (simp add: tk True)
    then show ?thesis
      using tg si True inv op sub same by (auto simp: visit_src_def Let_def visiting_def tk simp del: tget_Some)
  next
    case nn: False
    have sU: "?s \<in> U" by (rule universeD(4) [OF u s1(1) s_in nn])
    have sr: "?s = node \<or> rk ?s < rk node" by (rule universeD(6) [OF u s1(1) s_in nn])
    have "\<not> is_leaf h1 node"
      using universeD(5) [OF u s1(1) s_in nn] heap_frame_fun(2,3) [OF fr]
      by (auto simp: is_leaf_def is_op_def split: option.splits)
    have "visit_pre rk U h' g' ?s"
      using inv sU sr s1(3) by (auto simp: visit_pre_def op)
    moreover have "(visit_measure U h' g' ?s, m) \<in> lower"
    proof -
      have "card (U - hs_set (g_visited g')) \<le> card (U - hs_set (g_visited g1))"
        using visit_invD(4) [OF inv] walkD(9) [OF w] by (intro card_mono) auto
      then show ?thesis using dec by (cases m) (simp add: visit_measure_def)
    qed
    ultimately have "visits rk U h' g' ?s compute" using IH unfolding visits_below_def by blast
    then have v: "settles (int (card U) \<le> g_size g1) (\<lambda>(pos, h2, g2). visit_post rk U h' g' ?s pos h2 g2)
        (ggml_visit_parents_graph h' g' ?s compute)" using walkD(2) [OF w] by (simp add: visits_def)
    have "visiting rk U (h1, g1) node (take (Suc i) ?ss) (h2, count_use g2 pos)"
      if post: "visit_post rk U h' g' ?s pos h2 g2" for pos h2 g2
    proof -
      have w2: "walk0 (h', g') (h2, g2)" and inv2: "visit_inv rk U (h2, g2)" and op2: "g_open g2 = g_open g'"
        and occ: "hs_occupied (g_visited g2) pos ?s" using post by (simp_all add: visit_post_def)
      note c = count_use_step [OF visit_invD(2) [OF inv2] occ]
      have "walk (\<lambda>p. int (count_list (take (Suc i) ?ss) p)) (h1, g1) (h2, count_use g2 pos)"
        by (rule walk_cong [OF walk_trans [OF w walk_trans [OF w2 c(2)]]]) (simp add: tk)
      moreover have "visit_inv rk U (h2, count_use g2 pos)" using inv2 c(1) by (simp add: visit_inv_def)
      moreover have "?s = node \<or> ?s \<in> g_done g2"
      proof (rule disjCI)
        assume "?s \<notin> g_done g2"
        then have "?s \<in> g_open g2" using occ by (auto simp: g_open_def hs_set_occupied)
        then show "?s = node" using op2 op s1(3) sr by auto
      qed
      moreover have "g_done g' \<subseteq> g_done g2" by (rule walk_done_mono [OF w2])
      ultimately show ?thesis using sub op op2 \<open>\<not> is_leaf h1 node\<close> by (auto simp: visiting_def tk)
    qed
    moreover have "visit_src node compute i (h', g') =
        (ggml_visit_parents_graph h' g' ?s compute \<bind> (\<lambda>(pos, h, g). Some (h, count_use g pos)))"
      using tg si nn by (simp add: visit_src_def Let_def del: tget_Some)
    ultimately show ?thesis by (auto intro!: settles_bind [OF v])
  qed
qed

text \<open>The loop over all sources of a first visit.\<close>

lemma visit_srcs:
  assumes IH: "visits_below rk U m"
    and s1: "node \<in> U" "node \<in> g_open g1" "\<forall>p \<in> g_open g1. p = node \<or> rk node < rk p"
    and dec: "card (U - hs_set (g_visited g1)) < fst m" and inv: "visit_inv rk U (h1, g1)"
  shows "settles (int (card U) \<le> g_size g1) (visiting rk U (h1, g1) node (ordered_srcs h1 g1 node))
    (for_each (visit_src node compute) [0..<GGML_MAX_SRC] (h1, g1))"
proof -
  let ?ss = "ordered_srcs h1 g1 node"
  have len: "length ?ss = GGML_MAX_SRC" by (simp add: ordered_srcs_def del: upt_rec_numeral)
  let ?room = "int (card U) \<le> g_size g1"
  have "settles ?room (visiting rk U (h1, g1) node (take (length [0..<GGML_MAX_SRC]) ?ss))
      (for_each (visit_src node compute) [0..<GGML_MAX_SRC] (h1, g1))"
  proof (rule settles_for_each)
    show "visiting rk U (h1, g1) node (take 0 ?ss) (h1, g1)"
      using inv walk_refl by (simp add: visiting_def same_lists_def)
    fix i s assume i: "i < length [0..<GGML_MAX_SRC]" and I: "visiting rk U (h1, g1) node (take i ?ss) s"
    obtain h' g' where s: "s = (h', g')" by (cases s)
    from visit_src_step [OF IH s1 dec I [unfolded s]] i
    show "settles ?room (visiting rk U (h1, g1) node (take (Suc i) ?ss)) (visit_src node compute ([0..<GGML_MAX_SRC] ! i) s)"
      by (simp add: s del: upt_rec_numeral)
  qed
  then show ?thesis using len by (simp del: upt_rec_numeral)
qed

text \<open>A tensor that was not visited before.\<close>

lemma visit_miss:
  assumes pre: "visit_pre rk U h g node" and IH: "visits_below rk U (visit_measure U h g node)"
    and miss: "node \<notin> hs_set (g_visited g)"
  shows "visits rk U h g node compute"
proof -
  have inv: "visit_inv rk U (h, g)" and node: "node \<in> U" using pre by (simp_all add: visit_pre_def)
  note D = visit_invD [OF inv]
  obtain h1 where h1: "mark_compute h node compute = Some h1" "heap_frame h h1"
    using mark_compute_frame [OF universeD(1,2) [OF D(1) node], of compute] by blast
  note inv1 = visit_inv_frame [OF inv h1(2)]
  show ?thesis
  proof (cases "hs_full (g_visited g)")
    case True
    have "hs_set (g_visited g) \<subset> U" using D(3) node miss by blast
    then have "card (hs_set (g_visited g)) < card U" by (rule psubset_card_mono [OF D(4)])
    then have "\<not> int (card U) \<le> g_size g" using True D(5,6) by (simp add: hs_full_card graph_shape_def)
    moreover have "ggml_hash_find (g_visited g) node = Some GGML_HASHSET_FULL"
      using ggml_hash_find_spec [OF D(5), of node] miss True by auto
    ultimately show ?thesis using h1(1) by (simp add: visits_def visit_unfold)
  next
    case False
    then have "card (hs_set (g_visited g)) < hs_size (g_visited g)"
      using hs_card_le [OF D(5)] D(5) by (simp add: hs_full_card)
    then obtain pos where pos: "ggml_hash_find (g_visited g) node = Some pos" "pos < hs_size (g_visited g)"
      "\<not> hs_get (g_visited g) pos" "hs_inv (hs_put (g_visited g) pos node)"
      using ggml_hash_find_new [OF D(5) miss] by blast
    let ?g1 = "enter_visited g pos node" let ?room = "int (card U) \<le> g_size g"
    note e = enter_visited_step [OF visit_invD(2) [OF inv1] miss pos(2-4)]
    have inv2: "visit_inv rk U (h1, ?g1)" using inv1 e(1,5) node by (simp add: visit_inv_def)
    have "U - hs_set (g_visited ?g1) \<subset> U - hs_set (g_visited g)" using e(5) node miss by blast
    then have dec: "card (U - hs_set (g_visited ?g1)) < fst (visit_measure U h g node)"
      using psubset_card_mono [of "U - hs_set (g_visited g)"] D(4) by (simp add: visit_measure_def)
    have "\<forall>p \<in> g_open ?g1. p = node \<or> rk node < rk p" "node \<in> g_open ?g1"
      using pre e(4) by (auto simp: visit_pre_def)
    from visit_srcs [OF IH node this(2,1) dec inv2, of compute]
    have l: "settles ?room (visiting rk U (h1, ?g1) node (ordered_srcs h1 ?g1 node))
        (for_each (visit_src node compute) [0..<GGML_MAX_SRC] (h1, ?g1))" by simp
    have v: "ggml_visit_parents_graph h g node compute =
        (for_each (visit_src node compute) [0..<GGML_MAX_SRC] (h1, ?g1) \<bind>
          (\<lambda>(h2, g2). add_visited h2 g2 node \<bind> (\<lambda>(h3, g3). Some (pos, h3, g3))))"
      using h1(1) pos FULL_not_slot [OF D(5) pos(2)] by (simp add: visit_unfold)
    have step: "settles ?room (\<lambda>(pos, h', g'). visit_post rk U h g node pos h' g')
        (add_visited h2 g2 node \<bind> (\<lambda>(h3, g3). Some (pos, h3, g3)))"
      if vis: "visiting rk U (h1, ?g1) node (ordered_srcs h1 ?g1 node) (h2, g2)" for h2 g2
    proof -
      have w: "walk (\<lambda>p. int (count_list (ordered_srcs h1 ?g1 node) p)) (h1, ?g1) (h2, g2)"
        and i2: "visit_inv rk U (h2, g2)" and o2: "g_open g2 = insert node (g_open g)"
        and sub: "set (ordered_srcs h1 ?g1 node) \<subseteq> {NULL, node} \<union> g_done g2"
        and same: "is_leaf h1 node \<longrightarrow> same_lists ?g1 g2" using vis e(4) by (simp_all add: visiting_def)
      note fr = heap_frame_fun [OF walkD(1) [OF w]]
      note os = ordered_srcs_facts [OF universeD(3) [OF visit_invD(1) [OF inv1] node]]
      have a: "settles ?room (\<lambda>(h3, g3). graph_ok h3 g3 \<and> walk (\<lambda>q. - int (count_list (srcs h2 node) q)) (h2, g2) (h3, g3) \<and>
          g_visited g3 = g_visited g2 \<and> g_done g3 = insert node (g_done g2) \<and> appended h2 g2 g3 node) (add_visited h2 g2 node)"
        by (rule add_visited_step)
          (use visit_invD(2,7) [OF i2] o2 universeD(1,2) [OF visit_invD(1) [OF i2] node] sub os(2) fr(1) walkD(2) [OF w] in auto)
      have "visit_post rk U h g node pos h3 g3"
        if a: "graph_ok h3 g3" "walk (\<lambda>q. - int (count_list (srcs h2 node) q)) (h2, g2) (h3, g3)"
          "g_visited g3 = g_visited g2" "g_done g3 = insert node (g_done g2)" "appended h2 g2 g3 node" for h3 g3
      proof -
        have "walk0 (h, g) (h3, g3)"
          by (rule walk_cong [OF walk_trans [OF walk0_trans [OF walk_frame [OF h1(2)] e(2)] walk_trans [OF w a(2)]]])
            (simp add: fr(1) os(3))
        moreover have "visit_inv rk U (h3, g3)"
          using i2 a(1,3) universe_frame [OF walkD(1) [OF a(2)]] by (simp add: visit_inv_def)
        moreover have "g_open g3 = g_open g" using o2 a(3,4) miss by (auto simp: g_open_def)
        moreover have "hs_occupied (g_visited g3) pos node" using walkD(10) [OF w e(3)] a(3) by simp
        moreover have "is_leaf h2 node = is_leaf h node" using fr(2) heap_frame_fun(2) [OF h1(2)] by simp
        moreover have "node \<notin> g_done g" using miss D(2) by (auto simp: graph_ok_def)
        ultimately show ?thesis
          using a(5) same fr(2) by (auto simp: visit_post_def appended_def ends_with_def same_lists_def)
      qed
      then show ?thesis by (intro settles_bind [OF a]) auto
    qed
    then show ?thesis unfolding visits_def v by (intro settles_bind [OF l]) auto
  qed
qed

theorem visit_settles:
  assumes "visit_pre rk U h g node"
  shows "visits rk U h g node compute"
proof -
  have "wf lower" by blast
  then have "visits_below rk U m" for m
  proof (induction m rule: wf_induct_rule)
    case (less m)
    show ?case
      unfolding visits_below_def
    proof (intro allI impI)
      fix h g p compute assume "(visit_measure U h g p, m) \<in> lower" and p: "visit_pre rk U h g p"
      note b = less.IH [OF this(1)]
      show "visits rk U h g p compute"
        by (cases "p \<in> hs_set (g_visited g)") (rule visit_hit [OF p b], simp, rule visit_miss [OF p b], simp)
    qed
  qed
  then have "visits_below rk U (visit_measure U h g node)" .
  then show ?thesis using visit_hit [OF assms] visit_miss [OF assms] by blast
qed

end
