(* ===== verification/GraphOps.thy ===== *)
theory GraphOps
  imports Graph
begin

text \<open>
  The operations on graphs of ggml.c: creation in a pool, building by ggml_build_forward_expand and
  ggml_build_forward_select, clearing, views, copies, reset, lookups, tensor flags, and the check that
  a group of nodes can be fused.  ggml_build_forward_expand on a heap that the library built is shown
  to succeed and to list what the result depends on, each tensor once and after its sources.
\<close>

section \<open>Access\<close>

definition gget :: "heap \<Rightarrow> ptr \<Rightarrow> ggml_cgraph option" where
  "gget h p = (if p = NULL then None else h_graphs h p)"

definition gset :: "heap \<Rightarrow> ptr \<Rightarrow> ggml_cgraph \<Rightarrow> heap" where
  "gset h p g = h\<lparr> h_graphs := (h_graphs h)(p \<mapsto> g) \<rparr>"

section \<open>Building\<close>

definition ggml_graph_clear :: "ggml_cgraph \<Rightarrow> ggml_cgraph" where
  "ggml_graph_clear g = g\<lparr> g_n_leafs := 0, g_n_nodes := 0, g_visited := ggml_hash_set_reset (g_visited g) \<rparr>"

definition ggml_build_forward_impl :: "heap \<Rightarrow> ptr \<Rightarrow> ptr \<Rightarrow> bool \<Rightarrow> bool \<Rightarrow> heap option" where
  "ggml_build_forward_impl h cgraph tensor expand compute = do {
     g \<leftarrow> gget h cgraph;
     let g = (if \<not> expand then ggml_graph_clear g else g);
     let n_old = g_n_nodes g;
     (_, h, g) \<leftarrow> ggml_visit_parents_graph h g tensor compute;
     let n_new = i32 (g_n_nodes g - n_old);
     gassert (n_new > 0 \<longrightarrow> g_nodes g ! nat (g_n_nodes g - 1) = tensor);
     Some (gset h cgraph g) }"

definition ggml_build_forward_select :: "heap \<Rightarrow> ptr \<Rightarrow> ptr list \<Rightarrow> int \<Rightarrow> int \<Rightarrow> (ptr \<times> heap) option" where
  "ggml_build_forward_select h cgraph tensors n_tensors idx = do {
     gassert (0 \<le> idx \<and> idx < n_tensors);
     h \<leftarrow> for_each (\<lambda>i h. ggml_build_forward_impl h cgraph (tensors ! i) True (int i = idx)) [0..<nat n_tensors] h;
     Some (tensors ! nat idx, h) }"

definition ggml_build_forward_expand :: "heap \<Rightarrow> ptr \<Rightarrow> ptr \<Rightarrow> heap option" where
  "ggml_build_forward_expand h cgraph tensor = ggml_build_forward_impl h cgraph tensor True True"

section \<open>Creation\<close>

text \<open>The size of struct ggml_cgraph on a 64-bit target, and of what its arrays hold.\<close>

definition GGML_CGRAPH_SIZE :: int where "GGML_CGRAPH_SIZE = 88"

definition GGML_DEFAULT_GRAPH_SIZE :: int where "GGML_DEFAULT_GRAPH_SIZE = 2048"

text \<open>incr_ptr_aligned returns the aligned position and moves the cursor behind the block.\<close>

definition incr_ptr_aligned :: "int \<Rightarrow> int \<Rightarrow> int \<Rightarrow> int \<times> int" where
  "incr_ptr_aligned p sz align = (let ptr = GGML_PAD p align in (ptr, u64 (ptr + sz)))"

definition graph_hash_size :: "int \<Rightarrow> int" where
  "graph_hash_size sz = int (ggml_hash_size (nat (u64 (sz * 2))))"

definition ggml_graph_nbytes :: "int \<Rightarrow> bool \<Rightarrow> int" where
  "ggml_graph_nbytes sz grads =
     (let hash_size = graph_hash_size sz;
          p = snd (incr_ptr_aligned 0 GGML_CGRAPH_SIZE 1);
          p = snd (incr_ptr_aligned p (u64 (sz * 8)) 8);
          p = snd (incr_ptr_aligned p (u64 (sz * 8)) 8);
          p = snd (incr_ptr_aligned p (u64 (hash_size * 4)) 4);
          p = snd (incr_ptr_aligned p (u64 (hash_size * 8)) 8);
          p = (if grads then snd (incr_ptr_aligned p (u64 (hash_size * 8)) 8) else p);
          p = (if grads then snd (incr_ptr_aligned p (u64 (hash_size * 8)) 8) else p)
      in snd (incr_ptr_aligned p (u64 (int (ggml_bitset_size (nat hash_size)) * 4)) 4))"

definition ggml_graph_overhead_custom :: "int \<Rightarrow> bool \<Rightarrow> int" where
  "ggml_graph_overhead_custom sz grads =
     u64 (GGML_OBJECT_SIZE + GGML_PAD (ggml_graph_nbytes sz grads) GGML_MEM_ALIGN)"

definition ggml_graph_overhead :: int where
  "ggml_graph_overhead = ggml_graph_overhead_custom GGML_DEFAULT_GRAPH_SIZE False"

text \<open>
  The arrays behind a graph in memory: sizes in bytes and alignments of nodes, leafs, use_counts, hash
  keys, grads and grad_accs (when there are gradients) and hash_used, and where ggml_new_graph_custom
  puts them.
\<close>

definition graph_blocks :: "int \<Rightarrow> bool \<Rightarrow> (int \<times> int) list" where
  "graph_blocks sz grads =
     (let hash_size = graph_hash_size sz in
      [(u64 (sz * 8), 8), (u64 (sz * 8), 8), (u64 (hash_size * 4), 4), (u64 (hash_size * 8), 8)] @
      (if grads then [(u64 (hash_size * 8), 8), (u64 (hash_size * 8), 8)] else []) @
      [(u64 (int (ggml_bitset_size (nat hash_size)) * 4), 4)])"

fun lay_out :: "int \<Rightarrow> (int \<times> int) list \<Rightarrow> (int \<times> int) list \<times> int" where
  "lay_out p [] = ([], p)"
| "lay_out p ((n, a) # bs) =
     (let (q, p') = incr_ptr_aligned p n a; (rs, e) = lay_out p' bs in ((q, n) # rs, e))"

definition graph_layout :: "int \<Rightarrow> int \<Rightarrow> bool \<Rightarrow> (int \<times> int) list" where
  "graph_layout cgraph sz grads = fst (lay_out (u64 (cgraph + GGML_CGRAPH_SIZE)) (graph_blocks sz grads))"

text \<open>The arrays that are not cleared hold what the memory held: \<open>junk\<close> and \<open>junk32\<close>.\<close>

definition fresh_graph :: "(nat \<Rightarrow> ptr) \<Rightarrow> (nat \<Rightarrow> int) \<Rightarrow> int \<Rightarrow> bool \<Rightarrow> ggml_cgraph" where
  "fresh_graph junk junk32 sz grads =
     (let hash_size = nat (graph_hash_size sz);
          hs = \<lparr> hs_size = hash_size, hs_used = replicate (ggml_bitset_size hash_size) 0, hs_keys = map junk [0..<hash_size] \<rparr>
      in \<lparr> g_size = i32 sz, g_n_nodes = 0, g_n_leafs = 0,
           g_nodes = map junk [0..<nat sz],
           g_grads = (if grads then Some (replicate hash_size NULL) else None),
           g_grad_accs = (if grads then Some (replicate hash_size NULL) else None),
           g_leafs = map junk [0..<nat sz],
           g_use_counts = map (\<lambda>i. i32 (junk32 i)) [0..<hash_size],
           g_visited = ggml_hash_set_reset hs,
           g_order = GGML_CGRAPH_EVAL_ORDER_LEFT_TO_RIGHT \<rparr>)"

definition ggml_new_graph_custom ::
    "(nat \<Rightarrow> ptr) \<Rightarrow> (nat \<Rightarrow> int) \<Rightarrow> heap \<Rightarrow> ptr \<Rightarrow> int \<Rightarrow> bool \<Rightarrow> (ptr \<times> heap) option" where
  "ggml_new_graph_custom junk junk32 h ctx sz grads = do {
     let obj_size = ggml_graph_nbytes sz grads;
     (obj, h) \<leftarrow> ggml_new_object h ctx GGML_OBJECT_TYPE_GRAPH obj_size;
     c \<leftarrow> cget h ctx;
     ob \<leftarrow> oget h obj;
     let cgraph = u64 (c_mem_buffer c + o_offs ob);
     Some (cgraph, gset h cgraph (fresh_graph junk junk32 sz grads)) }"

definition ggml_new_graph :: "(nat \<Rightarrow> ptr) \<Rightarrow> (nat \<Rightarrow> int) \<Rightarrow> heap \<Rightarrow> ptr \<Rightarrow> (ptr \<times> heap) option" where
  "ggml_new_graph junk junk32 h ctx = ggml_new_graph_custom junk junk32 h ctx GGML_DEFAULT_GRAPH_SIZE False"

section \<open>Views and copies\<close>

text \<open>A view shares the arrays of the graph; the nodes array of the view starts at \<open>i0\<close>.\<close>

definition ggml_graph_view :: "ggml_cgraph \<Rightarrow> int \<Rightarrow> int \<Rightarrow> ggml_cgraph" where
  "ggml_graph_view g i0 i1 =
     \<lparr> g_size = 0, g_n_nodes = i32 (i1 - i0), g_n_leafs = 0, g_nodes = drop (nat i0) (g_nodes g),
       g_grads = None, g_grad_accs = None, g_leafs = [], g_use_counts = g_use_counts g,
       g_visited = g_visited g, g_order = g_order g \<rparr>"

text \<open>
  The copy of the visited set inserts every key of the source and copies its use count to the slot
  ggml_hash_insert returns.  For a key that is there already that is GGML_HASHSET_ALREADY_EXISTS, which
  is outside the array: None.
\<close>

definition copy_key :: "ggml_cgraph \<Rightarrow> nat \<Rightarrow> ggml_cgraph \<Rightarrow> ggml_cgraph option" where
  "copy_key src i dst =
     (if hs_get (g_visited src) i
      then do {
        (pos, hs) \<leftarrow> ggml_hash_insert (g_visited dst) (hs_keys (g_visited src) ! i);
        gassert (pos < length (g_use_counts dst));
        Some (dst\<lparr> g_visited := hs, g_use_counts := (g_use_counts dst)[pos := g_use_counts src ! i] \<rparr>) }
      else Some dst)"

definition copy_grad :: "ggml_cgraph \<Rightarrow> nat \<Rightarrow> ggml_cgraph \<Rightarrow> ggml_cgraph option" where
  "copy_grad src i dst = do {
     igrad_src \<leftarrow> ggml_hash_find (g_visited src) (g_nodes src ! i);
     igrad_dst \<leftarrow> ggml_hash_find (g_visited dst) (g_nodes dst ! i);
     gassert (igrad_src \<noteq> GGML_HASHSET_FULL);
     gassert (hs_get (g_visited src) igrad_src);
     gassert (igrad_dst \<noteq> GGML_HASHSET_FULL);
     gassert (hs_get (g_visited dst) igrad_dst);
     grads \<leftarrow> g_grads src; accs \<leftarrow> g_grad_accs src;
     Some (dst\<lparr> g_grads := map_option (\<lambda>d. d[igrad_dst := grads ! igrad_src]) (g_grads dst),
                g_grad_accs := map_option (\<lambda>d. d[igrad_dst := accs ! igrad_src]) (g_grad_accs dst) \<rparr>) }"

definition ggml_graph_cpy :: "ggml_cgraph \<Rightarrow> ggml_cgraph \<Rightarrow> ggml_cgraph option" where
  "ggml_graph_cpy src dst = do {
     gassert (g_size dst \<ge> g_n_leafs src);
     gassert (g_size dst \<ge> g_n_nodes src);
     gassert (hs_size (g_visited dst) \<ge> hs_size (g_visited src));
     let dst = dst\<lparr> g_n_leafs := g_n_leafs src, g_n_nodes := g_n_nodes src, g_order := g_order src,
                    g_leafs := take (nat (g_n_leafs src)) (g_leafs src) @ drop (nat (g_n_leafs src)) (g_leafs dst),
                    g_nodes := take (nat (g_n_nodes src)) (g_nodes src) @ drop (nat (g_n_nodes src)) (g_nodes dst) \<rparr>;
     dst \<leftarrow> for_each (copy_key src) [0..<hs_size (g_visited src)] dst;
     let dst = (if g_grads dst \<noteq> None
                then dst\<lparr> g_grads := Some (replicate (hs_size (g_visited dst)) NULL),
                          g_grad_accs := Some (replicate (hs_size (g_visited dst)) NULL) \<rparr>
                else dst);
     if g_grads src \<noteq> None
     then do {
       gassert (g_grads dst \<noteq> None);
       gassert (g_grad_accs dst \<noteq> None);
       for_each (copy_grad src) [0..<nat (g_n_nodes src)] dst }
     else Some dst }"

definition ggml_graph_dup ::
    "(nat \<Rightarrow> ptr) \<Rightarrow> (nat \<Rightarrow> int) \<Rightarrow> heap \<Rightarrow> ptr \<Rightarrow> ptr \<Rightarrow> bool \<Rightarrow> (ptr \<times> heap) option" where
  "ggml_graph_dup junk junk32 h ctx cgraph force_grads = do {
     g \<leftarrow> gget h cgraph;
     (result, h) \<leftarrow> ggml_new_graph_custom junk junk32 h ctx (u64 (g_size g)) (g_grads g \<noteq> None \<or> force_grads);
     src \<leftarrow> gget h cgraph;
     dst \<leftarrow> gget h result;
     dst \<leftarrow> ggml_graph_cpy src dst;
     Some (result, gset h result dst) }"

section \<open>Lookups\<close>

definition ggml_graph_size :: "ggml_cgraph \<Rightarrow> int" where
  "ggml_graph_size g = g_size g"

definition ggml_graph_n_nodes :: "ggml_cgraph \<Rightarrow> int" where
  "ggml_graph_n_nodes g = g_n_nodes g"

definition ggml_graph_nodes :: "ggml_cgraph \<Rightarrow> ptr list" where
  "ggml_graph_nodes g = g_nodes g"

definition ggml_graph_node :: "ggml_cgraph \<Rightarrow> int \<Rightarrow> ptr option" where
  "ggml_graph_node g i =
     (if i < 0
      then do { gassert (g_n_nodes g + i \<ge> 0); Some (g_nodes g ! nat (g_n_nodes g + i)) }
      else do { gassert (i < g_n_nodes g); Some (g_nodes g ! nat i) })"

definition ggml_graph_add_node :: "ggml_cgraph \<Rightarrow> ptr \<Rightarrow> ggml_cgraph option" where
  "ggml_graph_add_node g tensor = do {
     gassert (g_size g > g_n_nodes g);
     Some (g\<lparr> g_nodes := (g_nodes g)[nat (g_n_nodes g) := tensor], g_n_nodes := g_n_nodes g + 1 \<rparr>) }"

text \<open>The first tensor of a list with the name, or NULL.\<close>

fun first_named :: "heap \<Rightarrow> string \<Rightarrow> ptr list \<Rightarrow> ptr option" where
  "first_named h name [] = Some NULL"
| "first_named h name (p # ps) = do {
     t \<leftarrow> tget h p;
     if t_name t = name then Some p else first_named h name ps }"

definition ggml_graph_get_tensor :: "heap \<Rightarrow> ggml_cgraph \<Rightarrow> string \<Rightarrow> ptr option" where
  "ggml_graph_get_tensor h g name = do {
     leaf \<leftarrow> first_named h name (g_leaf_list g);
     if leaf \<noteq> NULL then Some leaf else first_named h name (g_node_list g) }"

definition ggml_graph_get_grad :: "ggml_cgraph \<Rightarrow> ptr \<Rightarrow> ptr option" where
  "ggml_graph_get_grad g node = do {
     igrad \<leftarrow> ggml_hash_find (g_visited g) node;
     Some (if igrad \<noteq> GGML_HASHSET_FULL \<and> hs_get (g_visited g) igrad
           then (case g_grads g of None \<Rightarrow> NULL | Some grads \<Rightarrow> grads ! igrad) else NULL) }"

definition ggml_graph_get_grad_acc :: "ggml_cgraph \<Rightarrow> ptr \<Rightarrow> ptr option" where
  "ggml_graph_get_grad_acc g node = do {
     igrad \<leftarrow> ggml_hash_find (g_visited g) node;
     Some (if igrad \<noteq> GGML_HASHSET_FULL \<and> hs_get (g_visited g) igrad
           then (case g_grad_accs g of None \<Rightarrow> NULL | Some accs \<Rightarrow> accs ! igrad) else NULL) }"

definition ggml_graph_find :: "ggml_cgraph option \<Rightarrow> ptr \<Rightarrow> bool" where
  "ggml_graph_find g node = (case g of None \<Rightarrow> True | Some g \<Rightarrow> node \<in> set (g_node_list g))"

fun parent_in :: "ggml_cgraph \<Rightarrow> ptr \<Rightarrow> ptr list \<Rightarrow> ptr option" where
  "parent_in g node [] = Some NULL"
| "parent_in g node (p # ps) = do {
     grad \<leftarrow> ggml_graph_get_grad g p;
     if grad = node then Some p else parent_in g node ps }"

definition ggml_graph_get_parent :: "ggml_cgraph \<Rightarrow> ptr \<Rightarrow> ptr option" where
  "ggml_graph_get_parent g node = parent_in g node (g_node_list g)"

section \<open>Reset\<close>

text \<open>The contents of tensors are not part of the heap: a reset is the list of its writes.\<close>

datatype data_write =
    ZeroBytes ptr int
  | FloatOne ptr

definition ggml_set_zero :: "heap \<Rightarrow> ptr \<Rightarrow> data_write list option" where
  "ggml_set_zero h tensor = do {
     t \<leftarrow> tget h tensor;
     if ggml_is_empty t then Some []
     else if t_buffer t \<noteq> NULL then Some [ZeroBytes tensor (ggml_nbytes t)]
     else do { gassert (t_data t \<noteq> NULL); Some [ZeroBytes tensor (ggml_nbytes t)] } }"

definition reset_node :: "heap \<Rightarrow> ggml_cgraph \<Rightarrow> ptr \<Rightarrow> data_write list option" where
  "reset_node h g node = do {
     grad_acc \<leftarrow> ggml_graph_get_grad_acc g node;
     t \<leftarrow> tget h node;
     ws \<leftarrow> (if t_op t = GGML_OP_OPT_STEP_ADAMW
           then do { w2 \<leftarrow> ggml_set_zero h (t_src t ! 2); w3 \<leftarrow> ggml_set_zero h (t_src t ! 3); Some (w2 @ w3) }
           else Some []);
     if grad_acc \<noteq> NULL
     then
       (if t_flags t AND GGML_TENSOR_FLAG_LOSS \<noteq> 0
        then do {
          ga \<leftarrow> tget h grad_acc;
          gassert (t_type ga = GGML_TYPE_F32);
          gassert (ggml_is_scalar ga);
          gassert (t_buffer ga \<noteq> NULL \<or> t_data ga \<noteq> NULL);
          Some (ws @ [FloatOne grad_acc]) }
        else do { wz \<leftarrow> ggml_set_zero h grad_acc; Some (ws @ wz) })
     else Some ws }"

definition ggml_graph_reset :: "heap \<Rightarrow> ggml_cgraph option \<Rightarrow> data_write list option" where
  "ggml_graph_reset h graph =
     (case graph of
        None \<Rightarrow> Some []
      | Some g \<Rightarrow> do {
          gassert (g_grads g \<noteq> None);
          for_each (\<lambda>node ws. do { ws' \<leftarrow> reset_node h g node; Some (ws @ ws') }) (g_node_list g) [] })"

section \<open>Flags\<close>

definition ggml_set_input :: "heap \<Rightarrow> ptr \<Rightarrow> heap option" where
  "ggml_set_input h tensor = tset h tensor (\<lambda>t. t\<lparr> t_flags := t_flags t OR GGML_TENSOR_FLAG_INPUT \<rparr>)"

definition ggml_set_output :: "heap \<Rightarrow> ptr \<Rightarrow> heap option" where
  "ggml_set_output h tensor = tset h tensor (\<lambda>t. t\<lparr> t_flags := t_flags t OR GGML_TENSOR_FLAG_OUTPUT \<rparr>)"

definition ggml_set_param :: "heap \<Rightarrow> ptr \<Rightarrow> heap option" where
  "ggml_set_param h tensor = do {
     t \<leftarrow> tget h tensor;
     gassert (t_op t = GGML_OP_NONE);
     tset h tensor (\<lambda>t. t\<lparr> t_flags := t_flags t OR GGML_TENSOR_FLAG_PARAM \<rparr>) }"

definition ggml_set_loss :: "heap \<Rightarrow> ptr \<Rightarrow> heap option" where
  "ggml_set_loss h tensor = do {
     t \<leftarrow> tget h tensor;
     gassert (ggml_is_scalar t);
     gassert (t_type t = GGML_TYPE_F32);
     tset h tensor (\<lambda>t. t\<lparr> t_flags := t_flags t OR GGML_TENSOR_FLAG_LOSS \<rparr>) }"

section \<open>Fusion\<close>

definition ggml_node_get_use_count :: "ggml_cgraph \<Rightarrow> int \<Rightarrow> int option" where
  "ggml_node_get_use_count g node_idx = do {
     pos \<leftarrow> ggml_hash_find (g_visited g) (g_nodes g ! nat node_idx);
     gassert (pos \<noteq> GGML_HASHSET_FULL);
     Some (if hs_get (g_visited g) pos then g_use_counts g ! pos else 0) }"

fun node_list_find :: "ggml_cgraph \<Rightarrow> ptr \<Rightarrow> int list \<Rightarrow> int \<Rightarrow> int" where
  "node_list_find g tensor [] i = -1"
| "node_list_find g tensor (idx # idxs) i =
     (if idx \<ge> g_n_nodes g then -1
      else if g_nodes g ! nat idx = tensor then i
      else node_list_find g tensor idxs (i + 1))"

definition ggml_node_list_find_tensor :: "ggml_cgraph \<Rightarrow> int list \<Rightarrow> ptr \<Rightarrow> int" where
  "ggml_node_list_find_tensor g idxs tensor = node_list_find g tensor idxs 0"

partial_function (option) views_within :: "heap \<Rightarrow> ggml_cgraph \<Rightarrow> int list \<Rightarrow> ptr \<Rightarrow> bool option" where
  "views_within h g node_idxs view_src =
     (if view_src = NULL then Some True
      else if ggml_node_list_find_tensor g node_idxs view_src = -1 then Some False
      else do { v \<leftarrow> tget h view_src; views_within h g node_idxs (t_view_src v) })"

definition subgraph_uses :: "heap \<Rightarrow> ggml_cgraph \<Rightarrow> ptr \<Rightarrow> int list \<Rightarrow> int option" where
  "subgraph_uses h g node idxs =
     for_each (\<lambda>idx n. do {
       gassert (0 \<le> idx \<and> nat idx < length (g_nodes g));
       t \<leftarrow> tget h (g_nodes g ! nat idx);
       Some (n + int (count_list (t_src t) node)) }) idxs 0"

text \<open>One node of the group; \<open>rest\<close> are the nodes after it.\<close>

definition node_fusable ::
    "heap \<Rightarrow> ggml_cgraph \<Rightarrow> int list \<Rightarrow> int list \<Rightarrow> int \<Rightarrow> ggml_op \<Rightarrow> int list \<Rightarrow> bool option" where
  "node_fusable h g node_idxs outputs idx op rest =
     (if idx \<ge> g_n_nodes g then Some False
      else do {
        gassert (0 \<le> idx);
        let node = g_nodes g ! nat idx;
        t \<leftarrow> tget h node;
        if t_op t \<noteq> op then Some False
        else if t_flags t AND GGML_TENSOR_FLAG_COMPUTE = 0 then Some False
        else if ggml_node_list_find_tensor g outputs node \<noteq> -1 then Some True
        else if t_flags t AND GGML_TENSOR_FLAG_OUTPUT \<noteq> 0 then Some False
        else do {
          uses \<leftarrow> subgraph_uses h g node rest;
          count \<leftarrow> ggml_node_get_use_count g idx;
          if uses \<noteq> count then Some False else views_within h g node_idxs (t_view_src t) } })"

fun all_fusable :: "heap \<Rightarrow> ggml_cgraph \<Rightarrow> int list \<Rightarrow> int list \<Rightarrow> int list \<Rightarrow> ggml_op list \<Rightarrow> bool option" where
  "all_fusable h g node_idxs outputs (idx # rest) (op # ops) = do {
     ok \<leftarrow> node_fusable h g node_idxs outputs idx op rest;
     if ok then all_fusable h g node_idxs outputs rest ops else Some False }"
| "all_fusable h g node_idxs outputs [] ops = Some True"
| "all_fusable h g node_idxs outputs (idx # rest) [] = None"

definition ggml_can_fuse_subgraph_ext :: "heap \<Rightarrow> ggml_cgraph \<Rightarrow> int list \<Rightarrow> ggml_op list \<Rightarrow> int list \<Rightarrow> bool option" where
  "ggml_can_fuse_subgraph_ext h g node_idxs ops outputs = do {
     gassert (outputs \<noteq> []);
     all_fusable h g node_idxs outputs node_idxs ops }"

section \<open>What a tensor depends on\<close>

inductive_set reach :: "heap \<Rightarrow> ptr \<Rightarrow> ptr set" for h p where
  reach_self: "p \<in> reach h p"
| reach_src: "q \<in> reach h p \<Longrightarrow> s \<in> set (srcs h q) \<Longrightarrow> s \<noteq> NULL \<Longrightarrow> s \<in> reach h p"

lemma reach_trans: "r \<in> reach h q \<Longrightarrow> q \<in> reach h p \<Longrightarrow> r \<in> reach h p"
  by (induction rule: reach.induct) (auto intro: reach.intros)

lemma reach_least:
  assumes "p \<in> U" "\<And>q s. q \<in> U \<Longrightarrow> s \<in> set (srcs h q) \<Longrightarrow> s \<noteq> NULL \<Longrightarrow> s \<in> U"
  shows "reach h p \<subseteq> U"
proof
  fix x assume "x \<in> reach h p"
  then show "x \<in> U" by induction (use assms in auto)
qed

lemma srcs_iff: "s \<in> set (srcs h q) \<longleftrightarrow> (\<exists>t. h_tensors h q = Some t \<and> s \<in> set (t_src t))"
  by (cases "h_tensors h q") (simp_all add: srcs_def)

lemma srcs_live:
  assumes "heap_inv h" "s \<in> set (srcs h q)" "s \<noteq> NULL"
  shows "h_tensors h s \<noteq> None"
proof -
  obtain t where t: "h_tensors h q = Some t" "s \<in> set (t_src t)"
    using assms(2) by (auto simp: srcs_iff)
  then have "s = q \<or> live h s" using assms(1) by (auto simp: heap_inv_def tensors_wf_def node_wf_def)
  then show ?thesis using t assms(3) by (auto simp: live_def)
qed

lemma reach_live:
  assumes "heap_inv h" "h_tensors h p \<noteq> None" "p \<noteq> NULL" "q \<in> reach h p"
  shows "h_tensors h q \<noteq> None \<and> q \<noteq> NULL"
  using assms(4) by induction (use assms(1-3) srcs_live in auto)

lemma reach_finite:
  assumes "heap_inv h" "graph_rank h rk"
  shows "finite (reach h p)"
proof (induction "rk p" arbitrary: p rule: less_induct)
  case less
  let ?S = "{s \<in> set (srcs h p). s \<noteq> NULL \<and> s \<noteq> p}"
  have "finite (reach h s)" if "s \<in> ?S" for s
  proof (rule less)
    show "rk s < rk p" using that assms(2) by (auto simp: graph_rank_def srcs_iff)
  qed
  then have fin: "finite (insert p (\<Union>s \<in> ?S. reach h s))" by simp
  have "reach h p \<subseteq> insert p (\<Union>s \<in> ?S. reach h s)"
    by (rule reach_least) (auto intro: reach.intros)
  then show ?case using fin by (rule finite_subset)
qed

lemma universeI:
  assumes inv: "heap_inv h" and rk: "graph_rank h rk" and fin: "finite U"
    and live: "\<And>p. p \<in> U \<Longrightarrow> h_tensors h p \<noteq> None \<and> p \<noteq> NULL"
    and closed: "\<And>q s. q \<in> U \<Longrightarrow> s \<in> set (srcs h q) \<Longrightarrow> s \<noteq> NULL \<Longrightarrow> s \<in> U"
  shows "universe h rk U"
  unfolding universe_def
proof (intro conjI ballI fin)
  show "NULL \<notin> U" using live by auto
  fix p assume p: "p \<in> U"
  then obtain t where t: "h_tensors h p = Some t" using live by blast
  have wf: "node_wf h p t" using inv t by (auto simp: heap_inv_def tensors_wf_def)
  show "h_tensors h p \<noteq> None" "length (srcs h p) = GGML_MAX_SRC" "\<not> is_op h p \<longrightarrow> set (srcs h p) \<subseteq> {NULL}"
    using t wf by (auto simp: srcs_def is_op_def node_wf_def tensor_shape_ok_def)
  show "set (srcs h p) \<subseteq> insert NULL U" using closed [OF p] by auto
  fix s assume "s \<in> set (srcs h p)"
  then show "s \<noteq> NULL \<longrightarrow> s \<noteq> p \<longrightarrow> rk s < rk p" using rk t by (auto simp: graph_rank_def srcs_def)
qed

section \<open>Building succeeds\<close>

text \<open>A graph between two calls: everything visited is listed, and every listed tensor is live.\<close>

definition graph_complete :: "heap \<Rightarrow> ggml_cgraph \<Rightarrow> bool" where
  "graph_complete h g \<longleftrightarrow> graph_ok h g \<and> g_open g = {} \<and>
     (\<forall>p \<in> g_done g. h_tensors h p \<noteq> None \<and> p \<noteq> NULL)"

text \<open>The use count of a tensor counts its occurrences among the sources of what is listed.\<close>

definition uses_ok :: "heap \<Rightarrow> ggml_cgraph \<Rightarrow> bool" where
  "uses_ok h g \<longleftrightarrow> (\<forall>p. p \<noteq> NULL \<longrightarrow>
     use_count_of g p = i32 (\<Sum>q \<in> g_done g. int (count_list (srcs h q) p)))"

lemma complete_visited: "graph_complete h g \<Longrightarrow> hs_set (g_visited g) = g_done g"
  by (auto simp: graph_complete_def graph_ok_def g_open_def)

lemma complete_closed:
  assumes "heap_inv h" "graph_complete h g" "p \<in> g_done g" "s \<in> set (srcs h p)" "s \<noteq> NULL"
  shows "s \<in> g_done g"
proof (cases "p \<in> set (g_leaf_list g)")
  case True
  then have "is_leaf h p" using assms(2) by (simp add: graph_complete_def graph_ok_def)
  then obtain t where t: "h_tensors h p = Some t" "t_op t = GGML_OP_NONE" by (auto simp: is_leaf_def split: option.splits)
  then have "set (t_src t) \<subseteq> {NULL}" using assms(1) by (auto simp: heap_inv_def tensors_wf_def node_wf_def)
  then show ?thesis using t assms(4,5) by (auto simp: srcs_def)
next
  case False
  then have "p \<in> set (g_node_list g)" using assms(3) by (auto simp: g_done_def)
  then obtain i where i: "i < length (g_node_list g)" "g_node_list g ! i = p" by (auto simp: in_set_conv_nth)
  have "sources_before (srcs h) (set (g_leaf_list g)) (g_node_list g)"
    using assms(2) by (simp add: graph_complete_def graph_ok_def)
  then have "set (srcs h p) \<subseteq> {NULL, p} \<union> set (take i (g_node_list g)) \<union> set (g_leaf_list g)"
    using i unfolding sources_before_def by blast
  then show ?thesis using assms set_take_subset [of i "g_node_list g"] by (auto simp: g_done_def)
qed

lemma complete_universe:
  assumes "heap_inv h" "graph_rank h rk" "graph_complete h g" "h_tensors h p \<noteq> None" "p \<noteq> NULL"
  shows "universe h rk (g_done g \<union> reach h p)"
proof (rule universeI [OF assms(1,2)])
  show "finite (g_done g \<union> reach h p)" using reach_finite [OF assms(1,2)] by (simp add: g_done_def)
  show "h_tensors h q \<noteq> None \<and> q \<noteq> NULL" if "q \<in> g_done g \<union> reach h p" for q
    using that assms(3) reach_live [OF assms(1,4,5)] by (auto simp: graph_complete_def)
  show "s \<in> g_done g \<union> reach h p" if "q \<in> g_done g \<union> reach h p" "s \<in> set (srcs h q)" "s \<noteq> NULL" for q s
    using that complete_closed [OF assms(1,3)] reach_src by blast
qed

text \<open>The walk from a tensor, started on a complete graph.\<close>

lemma visit_complete:
  assumes inv: "heap_inv h" "acyclic_heap h" and g: "graph_complete h g"
    and p: "h_tensors h p \<noteq> None" "p \<noteq> NULL"
  shows "settles (int (card (g_done g \<union> reach h p)) \<le> g_size g)
    (\<lambda>(pos, h', g'). walk0 (h, g) (h', g') \<and> graph_ok h' g' \<and> g_open g' = {} \<and> g_done g' = g_done g \<union> reach h p \<and>
      (p \<in> g_done g \<longrightarrow> same_lists g g') \<and>
      (p \<notin> g_done g \<longrightarrow> ends_with h g' p \<and> (is_leaf h p \<longrightarrow> g_node_list g' = g_node_list g)))
    (ggml_visit_parents_graph h g p compute)"
    (is "settles ?room ?Q ?v")
proof -
  obtain rk where rk: "graph_rank h rk" using inv(2) by (auto simp: acyclic_heap_def)
  let ?U = "g_done g \<union> reach h p"
  note v = complete_visited [OF g]
  have "visit_inv rk ?U (h, g)"
    using complete_universe [OF inv(1) rk g p] g v by (simp add: visit_inv_def graph_complete_def)
  moreover have "g_open g = {}" using g by (simp add: graph_complete_def)
  ultimately have "visit_pre rk ?U h g p" by (simp add: visit_pre_def reach_self)
  note V = visit_settles [OF this, of compute, unfolded visits_def]
  have "?Q (pos, h', g')" if post: "visit_post rk ?U h g p pos h' g'" for pos h' g'
  proof -
    have w: "walk0 (h, g) (h', g')" and i: "visit_inv rk ?U (h', g')" and o: "g_open g' = {}"
      and occ: "hs_occupied (g_visited g') pos p"
      using post g by (simp_all add: visit_post_def graph_complete_def)
    have vd: "hs_set (g_visited g') = g_done g'"
      using o visit_invD(2) [OF i] by (auto simp: g_open_def graph_ok_def)
    have "g_done g' \<subseteq> ?U" using visit_invD(3) [OF i] vd by simp
    moreover have "g_done g \<subseteq> g_done g'" by (rule walk_done_mono [OF w])
    moreover have "reach h p \<subseteq> g_done g'"
    proof (rule reach_least)
      show "p \<in> g_done g'" using occ vd hs_set_occupied by blast
      show "s \<in> g_done g'" if "q \<in> g_done g'" "s \<in> set (srcs h q)" "s \<noteq> NULL" for q s
        by (rule done_closed [OF i that(1) _ that(3)])
          (simp only: heap_frame_fun(1) [OF walkD(1) [OF w]] that(2))
    qed
    ultimately have "g_done g' = ?U" by blast
    then show ?thesis using w visit_invD(2) [OF i] o post v by (simp add: visit_post_def)
  qed
  then show ?thesis using V by (cases ?v) auto
qed

lemma uses_walk:
  assumes g: "graph_shape g'" "uses_ok h g" and w: "walk0 (h, g) (h', g')"
  shows "uses_ok h' g'"
  unfolding uses_ok_def
proof (intro allI impI)
  fix p :: ptr assume p: "p \<noteq> NULL"
  note fr = heap_frame_fun(1) [OF walkD(1) [OF w]]
  have split: "(\<Sum>q \<in> g_done g'. int (count_list (srcs h q) p)) =
      (\<Sum>q \<in> g_done g. int (count_list (srcs h q) p)) + new_uses h g g' p"
    unfolding new_uses_def using walk_done_mono [OF w]
    by (subst add.commute, intro sum.subset_diff) (simp_all add: g_done_def)
  have "i32 (use_count_of g' p) = i32 (use_count_of g p + new_uses h g g' p)"
    using walkD(11) [OF w p] by simp
  also have "\<dots> = i32 ((\<Sum>q \<in> g_done g. int (count_list (srcs h q) p)) + new_uses h g g' p)"
    using g(2) p by (simp add: uses_ok_def i32_add_left)
  finally have "i32 (use_count_of g' p) = i32 (\<Sum>q \<in> g_done g'. int (count_list (srcs h q) p))"
    unfolding split .
  moreover have "i32 (use_count_of g' p) = use_count_of g' p"
    using use_count_of_range [OF g(1), of p] by (simp add: is_i32_def i32_id)
  ultimately show "use_count_of g' p = i32 (\<Sum>q \<in> g_done g'. int (count_list (srcs h' q) p))"
    by (simp only: fr)
qed

text \<open>What one call of ggml_build_forward_impl (with expand) does.\<close>

definition built :: "heap \<Rightarrow> ggml_cgraph \<Rightarrow> ptr \<Rightarrow> heap \<Rightarrow> ggml_cgraph \<Rightarrow> bool" where
  "built h g p h' g' \<longleftrightarrow> graph_complete h' g' \<and> g_size g' = g_size g \<and>
     prefix (g_node_list g) (g_node_list g') \<and> prefix (g_leaf_list g) (g_leaf_list g') \<and>
     g_done g' = g_done g \<union> reach h p \<and> (uses_ok h g \<longrightarrow> uses_ok h' g') \<and>
     (p \<notin> g_done g \<longrightarrow> ends_with h g' p)"

lemma heap_frame_complete:
  "heap_frame h h' \<Longrightarrow> graph_complete h' g = graph_complete h g"
  by (simp add: graph_complete_def graph_ok_frame heap_frame_static)

lemma last_is_root:
  assumes g: "graph_shape g'" and n: "length (g_node_list g) < length (g_node_list g')"
    and r: "suffix [p] (g_node_list g')"
  shows "g_nodes g' ! nat (g_n_nodes g' - 1) = p"
proof -
  have l: "int (length (g_node_list g')) = g_n_nodes g'" by (rule list_lengths(1) [OF g])
  from r obtain xs where xs: "g_node_list g' = xs @ [p]" by (auto simp: suffix_def)
  moreover from this have n1: "nat (g_n_nodes g' - 1) = length xs" using l by simp
  ultimately have "g_node_list g' ! (nat (g_n_nodes g' - 1)) = p" by simp
  moreover have "nat (g_n_nodes g' - 1) < nat (g_n_nodes g')" using l n1 n by linarith
  ultimately show ?thesis by (simp add: g_node_list_def)
qed

text \<open>The same for any graph: the call fails only for lack of room.\<close>

lemma build_forward_settles:
  assumes inv: "heap_inv h" "acyclic_heap h" and cg: "gget h cg = Some g" and g: "graph_complete h g"
    and p: "h_tensors h p \<noteq> None" "p \<noteq> NULL" and small: "g_size g < 2 ^ 31"
  shows "settles (int (card (g_done g \<union> reach h p)) \<le> g_size g)
    (\<lambda>h'. \<exists>h1 g'. h' = gset h1 cg g' \<and> heap_frame h h1 \<and> walk0 (h, g) (h1, g') \<and> built h g p h' g')
    (ggml_build_forward_impl h cg p True compute)"
proof -
  note V = visit_complete [OF inv g p, of compute]
  have "settles (int (card (g_done g \<union> reach h p)) \<le> g_size g)
      (\<lambda>h'. \<exists>h1 g'. h' = gset h1 cg g' \<and> heap_frame h h1 \<and> walk0 (h, g) (h1, g') \<and> built h g p h' g')
      (gassert (i32 (g_n_nodes g' - g_n_nodes g) > 0 \<longrightarrow> g_nodes g' ! nat (g_n_nodes g' - 1) = p) \<bind> (\<lambda>_. Some (gset h1 cg g')))"
    if w: "walk0 (h, g) (h1, g')" and ok: "graph_ok h1 g'" "g_open g' = {}" "g_done g' = g_done g \<union> reach h p"
      and old: "p \<in> g_done g \<longrightarrow> same_lists g g'"
      and new: "p \<notin> g_done g \<longrightarrow> ends_with h g' p \<and> (is_leaf h p \<longrightarrow> g_node_list g' = g_node_list g)" for h1 g'
  proof -
    have sh: "graph_shape g'" "graph_shape g" using ok(1) g by (simp_all add: graph_ok_def graph_complete_def)
    have len: "g_n_nodes g = int (length (g_node_list g))" "g_n_nodes g' = int (length (g_node_list g'))"
      using list_lengths sh by simp_all
    have le: "length (g_node_list g) \<le> length (g_node_list g')" using prefix_length_le [OF walkD(7) [OF w]] .
    have "g_n_nodes g' \<le> g_size g" "0 \<le> g_n_nodes g" using sh walkD(2) [OF w] by (simp_all add: graph_shape_def)
    then have d: "i32 (g_n_nodes g' - g_n_nodes g) = g_n_nodes g' - g_n_nodes g"
      using le len small by (intro i32_id) auto
    have last: "g_nodes g' ! nat (g_n_nodes g' - 1) = p" if "g_n_nodes g' - g_n_nodes g > 0"
    proof (rule last_is_root [OF sh(1)])
      show "length (g_node_list g) < length (g_node_list g')" using that len by simp
      then show "suffix [p] (g_node_list g')" using old new by (auto simp: same_lists_def ends_with_def split: if_splits)
    qed
    let ?h = "gset h1 cg g'"
    have fr: "h_tensors ?h = h_tensors h1" by (simp add: gset_def)
    then have same: "srcs ?h = srcs h1" "is_leaf ?h = is_leaf h1" by (simp_all add: fun_eq_iff srcs_def is_leaf_def)
    have "graph_complete ?h g'"
      unfolding graph_complete_def
    proof (intro conjI)
      show "graph_ok ?h g'" using ok(1) by (simp add: graph_ok_def same)
      show "\<forall>q \<in> g_done g'. h_tensors ?h q \<noteq> None \<and> q \<noteq> NULL"
        using ok(3) g reach_live [OF inv(1) p] heap_frame_static [OF walkD(1) [OF w]]
        by (auto simp: fr graph_complete_def)
    qed (rule ok(2))
    moreover have "uses_ok h g \<longrightarrow> uses_ok ?h g'"
      using uses_walk [OF sh(1) _ w] by (simp add: uses_ok_def same)
    ultimately have "built h g p ?h g'"
      using walkD(2,7,8) [OF w] ok(3) new by (simp add: built_def)
    then show ?thesis using last walkD(1) [OF w] w by (auto simp: d)
  qed
  then show ?thesis
    using cg by (simp add: ggml_build_forward_impl_def Let_def) (rule settles_bind [OF V], auto)
qed

lemma build_forward_built:
  assumes inv: "heap_inv h" "acyclic_heap h" and cg: "gget h cg = Some g" and g: "graph_complete h g"
    and p: "h_tensors h p \<noteq> None" "p \<noteq> NULL"
    and cap: "int (card (g_done g \<union> reach h p)) \<le> g_size g" "g_size g < 2 ^ 31"
  obtains h1 h' g' where "ggml_build_forward_impl h cg p True compute = Some h'" "h' = gset h1 cg g'"
    "heap_frame h h1" "built h g p h' g'"
  using settlesD(1) [OF build_forward_settles [OF inv cg g p cap(2), of compute] cap(1)] by blast

section \<open>The heap invariant\<close>

lemma pools_ok_cong:
  assumes "h_ctxs h' = h_ctxs h" "h_objs h' = h_objs h"
    "\<And>p. h_tensors h' p \<noteq> None \<longleftrightarrow> h_tensors h p \<noteq> None"
    "\<And>p. h_graphs h' p \<noteq> None \<longleftrightarrow> h_graphs h p \<noteq> None"
  shows "pools_ok h' = pools_ok h"
proof -
  have "pool_with h' = pool_with h"
    by (intro ext) (simp only: pool_with_def obj_payload_def assms)
  then show ?thesis by (simp only: pools_ok_def pools_disjoint_def assms)
qed

lemma tensor_core_wf:
  assumes "heap_frame h h'" "tensor_core t' = tensor_core t"
  shows "node_wf h' p t' = node_wf h p t"
proof -
  have f: "t_ne (tensor_core u) = t_ne u" "t_nb (tensor_core u) = t_nb u" "t_op_params (tensor_core u) = t_op_params u"
    "t_src (tensor_core u) = t_src u" "t_op (tensor_core u) = t_op u" "t_view_src (tensor_core u) = t_view_src u" for u
    by (simp_all add: tensor_core_def)
  have e: "t_ne t' = t_ne t" "t_nb t' = t_nb t" "t_op_params t' = t_op_params t" "t_src t' = t_src t"
    "t_op t' = t_op t" "t_view_src t' = t_view_src t"
    using f [of t] f [of t'] assms(2) by metis+
  have "live h' s = live h s" for s using heap_frame_static [OF assms(1)] by (simp add: live_def)
  moreover have "(\<exists>v. h_tensors h' s = Some v \<and> t_view_src v = NULL) =
      (\<exists>v. h_tensors h s = Some v \<and> t_view_src v = NULL)" for s
    by (rule heap_frame_cases [OF assms(1), of s]) (auto, (metis f(6))+)
  ultimately show ?thesis by (simp add: node_wf_def tensor_shape_ok_def e)
qed

lemma heap_frame_inv:
  assumes "heap_inv h" "heap_frame h h'"
  shows "heap_inv h'"
  unfolding heap_inv_def
proof
  show "pools_ok h'"
    using assms(1) heap_frame_static [OF assms(2)] assms(2) pools_ok_cong [of h' h]
    by (simp add: heap_inv_def heap_frame_def)
  show "tensors_wf h'"
    unfolding tensors_wf_def
  proof (intro allI impI)
    fix p t' assume t': "h_tensors h' p = Some t'"
    show "node_wf h' p t'"
      by (rule heap_frame_cases [OF assms(2), of p])
        (use t' assms(1) tensor_core_wf [OF assms(2)] in \<open>auto simp: heap_inv_def tensors_wf_def\<close>)
  qed
qed

lemma heap_frame_acyclic:
  assumes "acyclic_heap h" "heap_frame h h'"
  shows "acyclic_heap h'"
proof -
  obtain rk where "graph_rank h rk" using assms(1) by (auto simp: acyclic_heap_def)
  moreover have "t_src t' = srcs h p" if "h_tensors h' p = Some t'" for p t'
    using heap_frame_fun(1) [OF assms(2)] that by (metis option.simps(5) srcs_def)
  ultimately have "graph_rank h' rk" by (auto simp: graph_rank_def srcs_iff)
  then show ?thesis by (auto simp: acyclic_heap_def)
qed

lemma gset_inv:
  assumes "heap_inv h" "h_graphs h cg \<noteq> None"
  shows "heap_inv (gset h cg g)"
proof -
  let ?h = "gset h cg g"
  have f: "h_ctxs ?h = h_ctxs h" "h_objs ?h = h_objs h" "h_tensors ?h = h_tensors h"
    "h_graphs ?h p \<noteq> None \<longleftrightarrow> h_graphs h p \<noteq> None" for p
    using assms(2) by (auto simp: gset_def)
  have "pools_ok ?h" using assms(1) pools_ok_cong [OF f(1,2) _ f(4)] f(3) by (simp add: heap_inv_def)
  moreover have "node_wf ?h p t = node_wf h p t" for p t by (simp add: node_wf_def live_def f(3))
  then have "tensors_wf ?h" using assms(1) by (simp add: heap_inv_def tensors_wf_def f(3))
  ultimately show ?thesis by (simp add: heap_inv_def)
qed

lemma gset_acyclic: "acyclic_heap (gset h cg g) = acyclic_heap h"
  by (simp add: acyclic_heap_def graph_rank_def gset_def)

section \<open>Sequences of builds\<close>

text \<open>What the builders need of the heap and of the graph at \<open>cg\<close>.\<close>

definition graph_state :: "heap \<Rightarrow> ptr \<Rightarrow> ggml_cgraph \<Rightarrow> bool" where
  "graph_state h cg g \<longleftrightarrow> heap_inv h \<and> acyclic_heap h \<and> gget h cg = Some g \<and>
     graph_complete h g \<and> uses_ok h g \<and> g_size g < 2 ^ 31"

lemma gget_gset [simp]: "cg \<noteq> NULL \<Longrightarrow> gget (gset h cg g) cg = Some g"
  by (simp add: gget_def gset_def)

lemma srcs_gset [simp]: "srcs (gset h cg g) = srcs h" "is_leaf (gset h cg g) = is_leaf h"
  "h_tensors (gset h cg g) = h_tensors h"
  by (simp_all add: fun_eq_iff srcs_def is_leaf_def gset_def)

lemma reach_cong: "srcs h' = srcs h \<Longrightarrow> reach h' p = reach h p"
proof -
  assume s: "srcs h' = srcs h"
  have "reach h' p \<subseteq> reach h p" by (rule reach_least) (auto simp: s intro: reach.intros)
  moreover have "reach h p \<subseteq> reach h' p" by (rule reach_least) (auto simp: s [symmetric] intro: reach.intros)
  ultimately show ?thesis by simp
qed

lemma built_state:
  assumes st: "graph_state h cg g" and b: "h' = gset h1 cg g'" "heap_frame h h1" "built h g p h' g'"
  shows "graph_state h' cg g'"
proof -
  have cg: "cg \<noteq> NULL" "h_graphs h cg = Some g" using st by (auto simp: graph_state_def gget_def split: if_splits)
  have "h_graphs h1 cg \<noteq> None" using cg b(2) by (simp add: heap_frame_def)
  then have "heap_inv h'" using st heap_frame_inv [OF _ b(2)] gset_inv b(1) by (simp add: graph_state_def)
  moreover have "acyclic_heap h'" using st heap_frame_acyclic [OF _ b(2)] b(1) by (simp add: gset_acyclic graph_state_def)
  ultimately show ?thesis using b(1,3) cg st by (simp add: graph_state_def built_def)
qed

lemma build_forward_state:
  assumes st: "graph_state h cg g" and p: "h_tensors h p \<noteq> None" "p \<noteq> NULL"
    and cap: "int (card (g_done g \<union> reach h p)) \<le> g_size g"
  obtains h' g' where "ggml_build_forward_impl h cg p True compute = Some h'" "graph_state h' cg g'"
    "built h g p h' g'" "srcs h' = srcs h" "\<And>q. h_tensors h' q = None \<longleftrightarrow> h_tensors h q = None"
proof -
  obtain h1 h' g' where r: "ggml_build_forward_impl h cg p True compute = Some h'" "h' = gset h1 cg g'"
    "heap_frame h h1" "built h g p h' g'"
    by (rule build_forward_built [OF _ _ _ _ p cap, where compute = compute])
      (use st in \<open>auto simp: graph_state_def\<close>)
  from that [OF r(1) built_state [OF st r(2-4)] r(4)]
  show thesis using r(2) heap_frame_fun(1) [OF r(3)] heap_frame_static [OF r(3)] by simp
qed

text \<open>Building several results one after the other.\<close>

lemma build_select_loop:
  assumes "graph_state h cg g" "\<forall>p \<in> set ps. h_tensors h p \<noteq> None \<and> p \<noteq> NULL"
    and "int (card (g_done g \<union> (\<Union>p \<in> set ps. reach h p))) \<le> g_size g"
  shows "\<exists>h' g'. for_each (\<lambda>i h. ggml_build_forward_impl h cg ((qs @ ps) ! i) True (c i)) [length qs..<length (qs @ ps)] h = Some h' \<and>
    graph_state h' cg g' \<and> g_done g' = g_done g \<union> (\<Union>p \<in> set ps. reach h p) \<and>
    prefix (g_node_list g) (g_node_list g')"
  using assms
proof (induction ps arbitrary: h g qs)
  case Nil
  then show ?case by auto
next
  case (Cons p ps)
  let ?R = "\<Union>p \<in> set (p # ps). reach h p"
  have fin: "finite (g_done g \<union> ?R)"
    using Cons.prems(1) reach_finite unfolding graph_state_def acyclic_heap_def by (auto simp: g_done_def)
  have "card (g_done g \<union> reach h p) \<le> card (g_done g \<union> ?R)" by (rule card_mono [OF fin]) auto
  then have c: "int (card (g_done g \<union> reach h p)) \<le> g_size g" using Cons.prems(3) by simp
  obtain h1 g1 where b: "ggml_build_forward_impl h cg p True (c (length qs)) = Some h1" "graph_state h1 cg g1"
    "built h g p h1 g1" "srcs h1 = srcs h" "\<And>q. h_tensors h1 q = None \<longleftrightarrow> h_tensors h q = None"
    by (rule build_forward_state [OF Cons.prems(1) _ _ c, where compute = "c (length qs)"])
      (use Cons.prems(2) in auto)
  have d1: "g_done g1 = g_done g \<union> reach h p" "g_size g1 = g_size g" using b(3) by (simp_all add: built_def)
  note rc = reach_cong [OF b(4)]
  have e: "g_done g1 \<union> (\<Union>p \<in> set ps. reach h1 p) = g_done g \<union> ?R" using d1(1) rc by auto
  have p1: "\<forall>p \<in> set ps. h_tensors h1 p \<noteq> None \<and> p \<noteq> NULL" using Cons.prems(2) b(5) by simp
  have "int (card (g_done g1 \<union> (\<Union>p \<in> set ps. reach h1 p))) \<le> g_size g1"
    using Cons.prems(3) e d1(2) by simp
  from Cons.IH [OF b(2) p1 this, of "qs @ [p]"] obtain h' g' where
    f: "for_each (\<lambda>i h. ggml_build_forward_impl h cg ((qs @ p # ps) ! i) True (c i)) [Suc (length qs)..<length (qs @ p # ps)] h1 = Some h'"
    and s: "graph_state h' cg g'" "g_done g' = g_done g1 \<union> (\<Union>p \<in> set ps. reach h1 p)"
      "prefix (g_node_list g1) (g_node_list g')" by auto
  have "[length qs..<length (qs @ p # ps)] = length qs # [Suc (length qs)..<length (qs @ p # ps)]"
    by (rule upt_conv_Cons) simp
  moreover have "prefix (g_node_list g) (g_node_list g1)" using b(3) by (simp add: built_def)
  ultimately show ?case
    using f s b(1) e prefix_order.trans by (intro exI [of _ h'] exI [of _ g']) (auto simp: nth_append)
qed

lemma build_select_state:
  assumes "graph_state h cg g" "\<forall>p \<in> set ps. h_tensors h p \<noteq> None \<and> p \<noteq> NULL"
    and "int (card (g_done g \<union> (\<Union>p \<in> set ps. reach h p))) \<le> g_size g"
    and "0 \<le> idx" "idx < int (length ps)"
  shows "\<exists>h' g'. ggml_build_forward_select h cg ps (int (length ps)) idx = Some (ps ! nat idx, h') \<and>
    graph_state h' cg g' \<and> g_done g' = g_done g \<union> (\<Union>p \<in> set ps. reach h p) \<and>
    prefix (g_node_list g) (g_node_list g')"
  using build_select_loop [OF assms(1-3), of "[]" "\<lambda>i. int i = idx"] assms(4,5)
  by (auto simp: ggml_build_forward_select_def)

section \<open>Fresh and cleared graphs\<close>

lemma empty_lists:
  assumes "g_n_nodes g = 0" "g_n_leafs g = 0"
  shows "g_node_list g = []" "g_leaf_list g = []" "g_done g = {}"
  using assms by (simp_all add: g_node_list_def g_leaf_list_def g_done_def)

lemma empty_graph_complete:
  assumes "graph_shape g" "g_n_nodes g = 0" "g_n_leafs g = 0" "hs_set (g_visited g) = {}"
  shows "graph_complete h g" "uses_ok h g"
proof -
  note e = empty_lists [OF assms(2,3)]
  show "graph_complete h g"
    using assms e by (simp add: graph_complete_def graph_ok_def g_open_def sources_before_def)
  have "use_count_of g p = 0" for p
    using use_count_of_absent [of g p] assms(1,4) by (simp add: graph_shape_def)
  then show "uses_ok h g" by (simp add: uses_ok_def e i32_id)
qed

lemma ggml_graph_clear_empty:
  assumes "graph_shape g"
  shows "graph_shape (ggml_graph_clear g)" "g_n_nodes (ggml_graph_clear g) = 0" "g_n_leafs (ggml_graph_clear g) = 0"
    "hs_set (g_visited (ggml_graph_clear g)) = {}"
  using assms ggml_hash_set_reset_spec [of "g_visited g"]
  by (simp_all add: ggml_graph_clear_def graph_shape_def)

lemma graph_hash_size_bounds:
  assumes "0 \<le> sz" "sz < 2 ^ 31"
  shows "2 * sz \<le> graph_hash_size sz" "0 < graph_hash_size sz" "graph_hash_size sz < 2 ^ 33"
    "nat (graph_hash_size sz) = ggml_hash_size (nat (2 * sz))"
proof -
  have e: "nat (u64 (sz * 2)) = nat (2 * sz)" using assms by (simp add: u64_id mult.commute)
  show "2 * sz \<le> graph_hash_size sz"
    using ggml_hash_size_ge [of "nat (2 * sz)"] assms by (simp add: graph_hash_size_def e)
  show "0 < graph_hash_size sz" using ggml_hash_size_pos by (simp add: graph_hash_size_def)
  have "int (ggml_hash_size (nat (2 * sz))) \<le> int (max 2147483659 (nat (2 * sz) + 1))"
    using ggml_hash_size_le [of "nat (2 * sz)"] by (rule of_nat_mono)
  then show "graph_hash_size sz < 2 ^ 33" using assms by (simp add: graph_hash_size_def e)
  show "nat (graph_hash_size sz) = ggml_hash_size (nat (2 * sz))" by (simp add: graph_hash_size_def e)
qed

lemma fresh_graph_empty:
  assumes "0 \<le> sz" "sz < 2 ^ 31"
  shows "graph_shape (fresh_graph junk junk32 sz grads)" "g_n_nodes (fresh_graph junk junk32 sz grads) = 0"
    "g_n_leafs (fresh_graph junk junk32 sz grads) = 0" "hs_set (g_visited (fresh_graph junk junk32 sz grads)) = {}"
    "g_size (fresh_graph junk junk32 sz grads) = sz"
proof -
  let ?n = "nat (graph_hash_size sz)"
  let ?hs = "\<lparr> hs_size = ?n, hs_used = replicate (ggml_bitset_size ?n) 0, hs_keys = map junk [0..<?n] \<rparr>"
  note b = graph_hash_size_bounds [OF assms]
  have i: "i32 sz = sz" using assms by (simp add: i32_id)
  have "hs_inv ?hs \<and> hs_set ?hs = {}"
    using b by (intro hs_empty) (simp_all add: GGML_HASHSET_ALREADY_EXISTS_def nat_less_iff)
  then have r: "hs_inv (ggml_hash_set_reset ?hs)" "hs_set (ggml_hash_set_reset ?hs) = {}"
    "hs_size (ggml_hash_set_reset ?hs) = ?n"
    using ggml_hash_set_reset_spec [of ?hs] by auto
  then show "hs_set (g_visited (fresh_graph junk junk32 sz grads)) = {}" by (simp add: fresh_graph_def Let_def)
  show "graph_shape (fresh_graph junk junk32 sz grads)"
    using r b assms by (auto simp: fresh_graph_def Let_def graph_shape_def i)
  show "g_size (fresh_graph junk junk32 sz grads) = sz" by (simp add: fresh_graph_def Let_def i)
qed (simp_all add: fresh_graph_def Let_def)

section \<open>The memory of a graph\<close>

lemma incr_range: "0 \<le> snd (incr_ptr_aligned p n a)"
  by (simp add: incr_ptr_aligned_def Let_def u64_range)

lemma GGML_PAD_pow2:
  assumes "0 \<le> x" "x + 2 ^ k < 2 ^ 64" "k \<le> 64"
  shows "GGML_PAD x (2 ^ k) = (x + 2 ^ k - 1) div 2 ^ k * 2 ^ k"
proof -
  have "u64 (x + 2 ^ k) = x + 2 ^ k" using assms by (intro u64_id) auto
  moreover have p: "1 \<le> (2::int) ^ k" by simp
  moreover have "0 \<le> x + 2 ^ k - 1" using assms(1) p by linarith
  moreover have "x + 2 ^ k - 1 < 18446744073709551616" using assms(2) by simp
  moreover from calculation have "u64 (x + 2 ^ k - 1) = x + 2 ^ k - 1" by (intro u64_id) simp_all
  moreover have "is_u64 (x + 2 ^ k - 1)" using assms p unfolding is_u64_def by linarith
  ultimately show ?thesis using and_u64_not_mask [of "x + 2 ^ k - 1" k] assms(3) by (simp add: GGML_PAD_def)
qed

lemma GGML_PAD_align:
  assumes "0 \<le> x" "x + 8 < 2 ^ 64" "a \<in> {1, 4, 8}"
  shows "x \<le> GGML_PAD x a" "GGML_PAD x a < x + a" "GGML_PAD x a = (x + a - 1) div a * a"
proof -
  have "a = 2 ^ 0 \<and> 0 \<le> (3::nat) \<or> a = 2 ^ 2 \<and> 2 \<le> (3::nat) \<or> a = 2 ^ 3 \<and> 3 \<le> (3::nat)"
    using assms(3) by auto
  then obtain k :: nat where k: "a = 2 ^ k" "k \<le> 3" by blast
  then show e: "GGML_PAD x a = (x + a - 1) div a * a"
    using GGML_PAD_pow2 [of x k] assms power_increasing [of k 3 "2::int"] by simp
  show "x \<le> GGML_PAD x a" "GGML_PAD x a < x + a" unfolding e using assms(3) by (auto; presburger)+
qed

lemma align_shift:
  assumes "8 dvd c" "a \<in> {1, 4, 8 :: int}"
  shows "(c + p + a - 1) div a * a = c + (p + a - 1) div a * a"
proof -
  have "a dvd c" using assms by auto
  then obtain k where k: "c = a * k" by auto
  have "(a * k + (p + a - 1)) div a = k + (p + a - 1) div a" using assms(2) by (intro div_mult_self4) auto
  then show ?thesis by (simp add: k algebra_simps)
qed

lemma lay_out_bounds:
  assumes "0 \<le> p" "p + (\<Sum>(n, a) \<leftarrow> bs. n + 8) < 2 ^ 63" "\<forall>(n, a) \<in> set bs. 0 \<le> n \<and> a \<in> {1, 4, 8}"
  shows "(\<forall>(q, n) \<in> set (fst (lay_out p bs)). p \<le> q \<and> q + n \<le> snd (lay_out p bs)) \<and>
    sorted_wrt (\<lambda>(q, n) (q', n'). q + n \<le> q') (fst (lay_out p bs)) \<and>
    p \<le> snd (lay_out p bs) \<and>
    (\<forall>c. 8 dvd c \<longrightarrow> 0 \<le> c \<longrightarrow> c < 2 ^ 63 \<longrightarrow>
      snd (lay_out (c + p) bs) = c + snd (lay_out p bs))"
  using assms
proof (induction bs arbitrary: p)
  case Nil
  then show ?case by simp
next
  case (Cons b bs)
  obtain n a where b: "b = (n, a)" by (cases b)
  have na: "0 \<le> n" "a \<in> {1, 4, 8}" using Cons.prems(3) by (auto simp: b)
  have sum: "0 \<le> (\<Sum>(n, a) \<leftarrow> bs. n + 8)" using Cons.prems(3) by (fastforce intro!: sum_list_nonneg)
  have p8: "p + 8 < 2 ^ 64" using Cons.prems(2) sum na by (simp add: b)
  note pad = GGML_PAD_align [OF Cons.prems(1) p8 na(2)]
  let ?q = "GGML_PAD p a"
  have q8: "?q < p + 8" using pad(2) na(2) by auto
  have e: "u64 (?q + n) = ?q + n" using Cons.prems pad(1) q8 na sum by (intro u64_id) (auto simp: b)
  have "0 \<le> ?q + n" "?q + n + (\<Sum>(n, a) \<leftarrow> bs. n + 8) < 2 ^ 63"
    using Cons.prems pad(1) q8 na sum by (auto simp: b)
  note IH = Cons.IH [OF this] 
  have tl: "\<forall>(n, a) \<in> set bs. 0 \<le> n \<and> a \<in> {1, 4, 8}" using Cons.prems(3) by simp
  have shift: "GGML_PAD (c + p) a = c + ?q \<and> u64 (c + ?q + n) = c + (?q + n)"
    if c: "8 dvd c" "0 \<le> c" "c < 2 ^ 63" for c
  proof
    have "c + p + 8 < 2 ^ 64" using c Cons.prems(2) sum na by (simp add: b)
    then have "GGML_PAD (c + p) a = (c + p + a - 1) div a * a"
      using GGML_PAD_align(3) [of "c + p" a] c Cons.prems(1) na(2) by simp
    also have "\<dots> = c + (p + a - 1) div a * a" by (rule align_shift [OF c(1) na(2)])
    finally show "GGML_PAD (c + p) a = c + ?q" using pad(3) by simp
    show "u64 (c + ?q + n) = c + (?q + n)"
      using c Cons.prems pad(1) q8 na sum by (subst u64_id) (auto simp: b)
  qed
  let ?L = "lay_out (?q + n) bs"
  have eq: "fst (lay_out p (b # bs)) = (?q, n) # fst ?L" "snd (lay_out p (b # bs)) = snd ?L"
    by (simp_all add: b incr_ptr_aligned_def Let_def e split_def)
  have sh: "snd (lay_out (c + p) (b # bs)) = snd (lay_out (c + (?q + n)) bs)"
    if "8 dvd c" "0 \<le> c" "c < 2 ^ 63" for c
    using shift [OF that] by (simp add: b incr_ptr_aligned_def Let_def split_def)
  have I: "\<forall>(q', n') \<in> set (fst ?L). ?q + n \<le> q' \<and> q' + n' \<le> snd ?L"
    "sorted_wrt (\<lambda>(q, n) (q', n'). q + n \<le> q') (fst ?L)" "?q + n \<le> snd ?L"
    "\<forall>c. 8 dvd c \<longrightarrow> 0 \<le> c \<longrightarrow> c < 2 ^ 63 \<longrightarrow> snd (lay_out (c + (?q + n)) bs) = c + snd ?L"
    using IH [OF tl] by blast+
  have p: "p \<le> ?q + n" using pad(1) na(1) by linarith
  show ?case
  proof (intro conjI)
    have "p \<le> q' \<and> q' + n' \<le> snd ?L" if "(q', n') \<in> set (fst ?L)" for q' n' using I(1) that p by fastforce
    then show "\<forall>(q, n) \<in> set (fst (lay_out p (b # bs))). p \<le> q \<and> q + n \<le> snd (lay_out p (b # bs))"
      unfolding eq using pad(1) I(3) by auto
    show "sorted_wrt (\<lambda>(q, n) (q', n'). q + n \<le> q') (fst (lay_out p (b # bs)))"
      unfolding eq using I(1,2) by auto
    show "p \<le> snd (lay_out p (b # bs))" unfolding eq using I(3) p by linarith
    show "\<forall>c. 8 dvd c \<longrightarrow> 0 \<le> c \<longrightarrow> c < 2 ^ 63 \<longrightarrow>
        snd (lay_out (c + p) (b # bs)) = c + snd (lay_out p (b # bs))"
      using sh I(4) unfolding eq(2) by metis
  qed
qed

lemma ggml_graph_nbytes_lay_out: "ggml_graph_nbytes sz grads = snd (lay_out 88 (graph_blocks sz grads))"
proof -
  have "snd (incr_ptr_aligned 0 GGML_CGRAPH_SIZE 1) = 88"
    by (simp add: incr_ptr_aligned_def GGML_PAD_def GGML_CGRAPH_SIZE_def u64_def)
  then show ?thesis
    by (cases grads) (simp_all add: ggml_graph_nbytes_def graph_blocks_def Let_def split_def)
qed

lemma graph_blocks_bounds:
  assumes "0 \<le> sz" "sz < 2 ^ 31"
  shows "\<forall>(n, a) \<in> set (graph_blocks sz grads). 0 \<le> n \<and> a \<in> {1, 4, 8}"
    "(\<Sum>(n, a) \<leftarrow> graph_blocks sz grads. n + 8) < 2 ^ 40"
proof -
  note b = graph_hash_size_bounds [OF assms]
  have w: "int (ggml_bitset_size (nat (graph_hash_size sz))) \<le> graph_hash_size sz + 32"
    using b(2) by (simp add: ggml_bitset_size_def)
  have u: "u64 (sz * 8) = sz * 8" "u64 (graph_hash_size sz * 4) = graph_hash_size sz * 4"
    "u64 (graph_hash_size sz * 8) = graph_hash_size sz * 8"
    "u64 (int (ggml_bitset_size (nat (graph_hash_size sz))) * 4) = int (ggml_bitset_size (nat (graph_hash_size sz))) * 4"
    using b(1-3) w assms by (intro u64_id; simp)+
  show "\<forall>(n, a) \<in> set (graph_blocks sz grads). 0 \<le> n \<and> a \<in> {1, 4, 8}"
    by (auto simp: graph_blocks_def Let_def u64_range)
  show "(\<Sum>(n, a) \<leftarrow> graph_blocks sz grads. n + 8) < 2 ^ 40"
    using b(1-3) w assms by (auto simp: graph_blocks_def Let_def u)
qed

lemma ggml_graph_nbytes_pos:
  assumes "0 \<le> sz" "sz < 2 ^ 31"
  shows "0 < ggml_graph_nbytes sz grads"
  using lay_out_bounds [OF _ _ graph_blocks_bounds(1) [OF assms], of 88 grads] graph_blocks_bounds(2) [OF assms, of grads]
  by (simp add: ggml_graph_nbytes_lay_out)

text \<open>The arrays of a new graph follow the structure, do not overlap, and end with the object.\<close>

lemma graph_layout_in_object:
  assumes sz: "0 \<le> sz" "sz < 2 ^ 31" and c: "0 \<le> cgraph" "cgraph < 2 ^ 62" "cgraph mod 16 = 0"
  shows "\<forall>(q, n) \<in> set (graph_layout cgraph sz grads). cgraph + 88 \<le> q \<and> q + n \<le> cgraph + ggml_graph_nbytes sz grads"
    "sorted_wrt (\<lambda>(q, n) (q', n'). q + n \<le> q') (graph_layout cgraph sz grads)"
proof -
  let ?bs = "graph_blocks sz grads"
  note b = graph_blocks_bounds [OF sz, of grads]
  have u: "u64 (cgraph + GGML_CGRAPH_SIZE) = cgraph + 88"
    using c by (simp add: u64_id GGML_CGRAPH_SIZE_def)
  have "cgraph + 88 + (\<Sum>(n, a) \<leftarrow> ?bs. n + 8) < 2 ^ 63" "(88::int) + (\<Sum>(n, a) \<leftarrow> ?bs. n + 8) < 2 ^ 63"
    using b(2) c by simp_all
  note l = lay_out_bounds [OF _ this(1) b(1)] lay_out_bounds [OF _ this(2) b(1)]
  have "8 dvd cgraph" using c(3) by presburger
  then have e: "snd (lay_out (cgraph + 88) ?bs) = cgraph + ggml_graph_nbytes sz grads"
    using l(2) c by (simp add: ggml_graph_nbytes_lay_out)
  show "\<forall>(q, n) \<in> set (graph_layout cgraph sz grads). cgraph + 88 \<le> q \<and> q + n \<le> cgraph + ggml_graph_nbytes sz grads"
    "sorted_wrt (\<lambda>(q, n) (q', n'). q + n \<le> q') (graph_layout cgraph sz grads)"
    using l(1) c e by (simp_all add: graph_layout_def u)
qed

lemma ggml_graph_nbytes_range: "0 \<le> ggml_graph_nbytes sz grads"
  by (simp add: ggml_graph_nbytes_def Let_def incr_range)

lemma ggml_new_graph_custom_state:
  assumes inv: "heap_inv h" "acyclic_heap h" and sz: "0 \<le> sz" "sz < 2 ^ 31"
    and res: "ggml_new_graph_custom junk junk32 h ctx sz grads = Some (cg, h')"
  shows "graph_state h' cg (fresh_graph junk junk32 sz grads)" "h_tensors h' = h_tensors h" "h_graphs h cg = None"
proof -
  let ?g = "fresh_graph junk junk32 sz grads" and ?n = "ggml_graph_nbytes sz grads"
  have ok: "pools_ok h" using inv by (simp add: heap_inv_def)
  from res obtain p h1 c1 ob where o: "ggml_new_object h ctx GGML_OBJECT_TYPE_GRAPH ?n = Some (p, h1)"
    and p: "p \<noteq> NULL" and ob: "h_objs h1 p = Some ob" and c1: "h_ctxs h1 ctx = Some c1"
    and cg: "cg = u64 (c_mem_buffer c1 + o_offs ob)" and h': "h' = gset h1 cg ?g"
    by (auto simp: ggml_new_graph_custom_def monad_simps Let_def)
  let ?ob = "\<lambda>fin. \<lparr> o_offs = fin + 32, o_size = GGML_PAD ?n 16, o_next = NULL, o_type = GGML_OBJECT_TYPE_GRAPH \<rparr>"
  obtain c ps fin where a: "h_ctxs h ctx = Some c" "pool_with h c ps fin" "ctx \<noteq> NULL"
    "p = c_mem_buffer c + fin" "fin + 32 + GGML_PAD ?n 16 \<le> c_mem_size c" "?n \<le> GGML_PAD ?n 16"
    "GGML_PAD ?n 16 mod 16 = 0" "0 \<le> fin"
    "h1 = h\<lparr> h_objs := link_obj (h_objs h) ps p (?ob fin),
            h_ctxs := (h_ctxs h)(ctx \<mapsto> c\<lparr> c_objects_begin := hd (ps @ [p]), c_objects_end := p \<rparr>) \<rparr>"
    "h_objs h1 p = Some (?ob fin)"
    by (rule ggml_new_object_alloc [OF ok o p ggml_graph_nbytes_range]) (rule that; assumption)
  have n88: "0 < ?n" by (rule ggml_graph_nbytes_pos [OF sz])
  have k: "ctx_ok (h_objs h) c ps fin" using a(2) by (simp add: pool_with_def)
  have "u64 (c_mem_buffer c + (fin + 32)) = c_mem_buffer c + (fin + 32)"
    using k a(5,6,8) n88 unfolding ctx_ok_def by (intro u64_id) auto
  moreover have "o_offs ob = fin + 32" using ob a(10) by (metis ggml_object.select_convs(1) option.inject)
  ultimately have cg': "cg = c_mem_buffer c + fin + 32" using cg c1 a(9) by (auto simp: add.assoc)
  have "pools_ok h'" and "h_graphs h cg = None"
    using pools_ok_alloc(1,3) [OF ok a(1,2,4) cg' refl _ a(7,5), where ty = GGML_OBJECT_TYPE_GRAPH and h' = h' and
        c' = "c\<lparr> c_objects_begin := hd (ps @ [p]), c_objects_end := p \<rparr>"]
      n88 a(6) by (auto simp: h' gset_def a(9) ctx_frame_def)
  then show "h_graphs h cg = None" by simp
  show t: "h_tensors h' = h_tensors h" by (simp add: h' a(9))
  have "node_wf h' q t = node_wf h q t" for q t by (simp add: node_wf_def live_def t)
  then have "tensors_wf h'" using inv by (simp add: heap_inv_def tensors_wf_def t)
  moreover have "acyclic_heap h'" using inv(2) by (simp add: acyclic_heap_def graph_rank_def t)
  moreover have "cg \<noteq> NULL" using cg' k a(8) by (auto simp: ctx_ok_def)
  ultimately show "graph_state h' cg ?g"
    using \<open>pools_ok h'\<close> fresh_graph_empty [OF sz, of junk junk32 grads]
      empty_graph_complete [OF fresh_graph_empty(1-4) [OF sz, of junk junk32 grads]] sz
    by (simp add: graph_state_def heap_inv_def h')
qed

section \<open>Copies\<close>

text \<open>The state of the copy of the visited set: the keys of the slots below \<open>i\<close> are there.\<close>

definition copied :: "ggml_cgraph \<Rightarrow> ggml_cgraph \<Rightarrow> nat \<Rightarrow> ggml_cgraph \<Rightarrow> bool" where
  "copied src d0 i d \<longleftrightarrow>
     hs_inv (g_visited d) \<and> hs_size (g_visited d) = hs_size (g_visited d0) \<and>
     hs_set (g_visited d) = {hs_keys (g_visited src) ! j |j. j < i \<and> hs_get (g_visited src) j} \<and>
     length (g_use_counts d) = hs_size (g_visited d) \<and> (\<forall>c \<in> set (g_use_counts d). is_i32 c) \<and>
     (\<forall>p \<in> hs_set (g_visited d). use_count_of d p = use_count_of src p) \<and>
     (\<exists>v u. d = d0\<lparr> g_visited := v, g_use_counts := u \<rparr>)"

lemma copy_key_step:
  assumes src: "graph_shape src" and le: "hs_size (g_visited src) \<le> hs_size (g_visited d0)"
    and i: "i < hs_size (g_visited src)" and d: "copied src d0 i d"
  shows "\<exists>d'. copy_key src i d = Some d' \<and> copied src d0 (Suc i) d'"
proof (cases "hs_get (g_visited src) i")
  case False
  then have "{hs_keys (g_visited src) ! j |j. j < Suc i \<and> hs_get (g_visited src) j} =
      {hs_keys (g_visited src) ! j |j. j < i \<and> hs_get (g_visited src) j}" by (auto simp: less_Suc_eq)
  then show ?thesis using False d by (simp add: copy_key_def copied_def)
next
  case True
  let ?k = "hs_keys (g_visited src) ! i" and ?v = "g_use_counts src ! i"
  let ?S = "\<lambda>i. {hs_keys (g_visited src) ! j |j. j < i \<and> hs_get (g_visited src) j}"
  have sinv: "hs_inv (g_visited src)" and dinv: "hs_inv (g_visited d)"
    using src d by (simp_all add: graph_shape_def copied_def)
  have S: "hs_set (g_visited d) = ?S i" using d by (simp add: copied_def)
  have new: "?k \<notin> hs_set (g_visited d)"
  proof
    assume "?k \<in> hs_set (g_visited d)"
    then obtain j where j: "j < i" "hs_get (g_visited src) j" "hs_keys (g_visited src) ! j = ?k"
      unfolding S by auto
    then have "j = i" using hs_keys_distinct [OF sinv _ j(2) i True] i by simp
    then show False using j(1) by simp
  qed
  have "?S i \<subseteq> (\<lambda>j. hs_keys (g_visited src) ! j) ` {..<i}" by auto
  then have "card (?S i) \<le> card ((\<lambda>j. hs_keys (g_visited src) ! j) ` {..<i})" by (intro card_mono) simp_all
  also have "\<dots> \<le> i" using card_image_le [of "{..<i}"] by simp
  finally have "card (hs_set (g_visited d)) < hs_size (g_visited d)"
    using i le d S by (simp add: copied_def)
  from ggml_hash_insert_new [OF dinv new this] obtain pos where
    pos: "ggml_hash_insert (g_visited d) ?k = Some (pos, hs_put (g_visited d) pos ?k)"
      "pos < hs_size (g_visited d)" "\<not> hs_get (g_visited d) pos" "hs_inv (hs_put (g_visited d) pos ?k)"
      "hs_set (hs_put (g_visited d) pos ?k) = insert ?k (hs_set (g_visited d))" by blast
  let ?d = "d\<lparr> g_visited := hs_put (g_visited d) pos ?k, g_use_counts := (g_use_counts d)[pos := ?v] \<rparr>"
  have len: "length (g_use_counts d) = hs_size (g_visited d)" using d by (simp add: copied_def)
  have r: "copy_key src i d = Some ?d" using True pos(1,2) len by (simp add: copy_key_def)
  have occ: "hs_occupied (g_visited src) i ?k" using i True by (simp add: hs_occupied_def)
  have vk: "use_count_of src ?k = ?v" by (rule use_count_of_occupied [OF sinv occ])
  have "?v \<in> set (g_use_counts src)" using src i by (simp add: graph_shape_def)
  then have v32: "is_i32 ?v" using src by (simp add: graph_shape_def)
  have use: "use_count_of ?d q = (if q = ?k then ?v else use_count_of d q)" for q
    by (rule put_use_count [OF dinv pos(2-4) len new]) simp_all
  have "?S (Suc i) = insert ?k (?S i)" using True by (auto simp: less_Suc_eq)
  then have set: "hs_set (g_visited ?d) = ?S (Suc i)" using pos(5) S by simp
  obtain v u where e: "d = d0\<lparr> g_visited := v, g_use_counts := u \<rparr>" using d by (auto simp: copied_def)
  have "?d = d0\<lparr> g_visited := hs_put v pos ?k, g_use_counts := u[pos := ?v] \<rparr>" by (simp add: e)
  then have fr: "\<exists>v u. ?d = d0\<lparr> g_visited := v, g_use_counts := u \<rparr>" by blast
  have c32: "\<forall>c \<in> set (g_use_counts ?d). is_i32 c"
    using set_list_update_subset [of "g_use_counts d" is_i32 ?v pos] d v32 by (simp add: copied_def)
  have "use_count_of ?d p = use_count_of src p" if "p \<in> hs_set (g_visited ?d)" for p
    using that use [of p] vk d pos(5) by (auto simp: copied_def)
  then have "copied src d0 (Suc i) ?d"
    using d pos(4) set fr c32 by (simp add: copied_def)
  with r show ?thesis by blast
qed

lemma copy_keys:
  assumes "graph_shape src" "hs_size (g_visited src) \<le> hs_size (g_visited d0)" "copied src d0 0 d0"
  shows "\<exists>d. for_each (copy_key src) [0..<hs_size (g_visited src)] d0 = Some d \<and>
    copied src d0 (hs_size (g_visited src)) d"
proof -
  let ?xs = "[0..<hs_size (g_visited src)]"
  have "\<exists>d. for_each (copy_key src) ?xs d0 = Some d \<and> copied src d0 (length ?xs) d"
    by (rule for_each_rule [where I = "copied src d0", OF assms(3)])
      (use copy_key_step [OF assms(1,2)] in simp)
  then show ?thesis by simp
qed

lemma take_take_append: "take n (take n xs @ ys) = take n xs" if "n \<le> length xs"
  using that by simp

text \<open>The gradient arrays are indexed by the slots of the visited set.\<close>

lemma find_at:
  assumes "hs_inv hs" "hs_occupied hs j x"
  shows "ggml_hash_find hs x = Some j" "j \<noteq> GGML_HASHSET_FULL" "hs_get hs j"
proof -
  have x: "x \<in> hs_set hs" and j: "j < hs_size hs" "hs_get hs j" using assms(2) by (auto simp: hs_set_occupied hs_occupied_def)
  obtain r where r: "ggml_hash_find hs x = Some r" "r < hs_size hs" "hs_get hs r" "hs_keys hs ! r = x"
    using ggml_hash_find_spec [OF assms(1), of x] x by auto
  have "r = j" using hs_occupied_unique [OF assms(1) _ assms(2)] r(2-4) by (simp add: hs_occupied_def)
  then show "ggml_hash_find hs x = Some j" "j \<noteq> GGML_HASHSET_FULL" "hs_get hs j"
    using r(1) j FULL_not_slot [OF assms(1) j(1)] by simp_all
qed

definition slot_value :: "ggml_hash_set \<Rightarrow> ptr list option \<Rightarrow> ptr \<Rightarrow> ptr option" where
  "slot_value hs l p = do {
     i \<leftarrow> ggml_hash_find hs p;
     Some (if i \<noteq> GGML_HASHSET_FULL \<and> hs_get hs i then (case l of None \<Rightarrow> NULL | Some l \<Rightarrow> l ! i) else NULL) }"

lemma get_grad_slot:
  "ggml_graph_get_grad g p = slot_value (g_visited g) (g_grads g) p"
  "ggml_graph_get_grad_acc g p = slot_value (g_visited g) (g_grad_accs g) p"
  by (simp_all add: ggml_graph_get_grad_def ggml_graph_get_grad_acc_def slot_value_def)

lemma slot_value_at: "hs_inv hs \<Longrightarrow> hs_occupied hs j p \<Longrightarrow> slot_value hs (Some l) p = Some (l ! j)"
  by (simp add: slot_value_def find_at)

lemma slot_value_absent: "hs_inv hs \<Longrightarrow> p \<notin> hs_set hs \<Longrightarrow> slot_value hs l p = Some NULL"
  using ggml_hash_find_spec [of hs p] by (auto simp: slot_value_def split: if_splits)

lemma slot_value_null:
  assumes "hs_inv hs" "l = None \<or> l = Some (replicate (hs_size hs) NULL)"
  shows "slot_value hs l p = Some NULL"
  using ggml_hash_find_spec [OF assms(1), of p] assms(2) by (auto simp: slot_value_def split: if_splits)

lemma slot_value_update:
  assumes inv: "hs_inv hs" and j: "hs_occupied hs j p" and len: "length l = hs_size hs"
  shows "slot_value hs (Some (l[j := v])) q = (if q = p then Some v else slot_value hs (Some l) q)"
proof (cases "q \<in> hs_set hs")
  case True
  then obtain k where k: "hs_occupied hs k q" by (auto simp: hs_set_occupied)
  have "k = j \<longleftrightarrow> q = p" using hs_occupied_unique [OF inv] j k by (auto simp: hs_occupied_def)
  then show ?thesis using slot_value_at [OF inv k] j len by (auto simp: hs_occupied_def nth_list_update)
next
  case False
  then have "q \<noteq> p" using j by (auto simp: hs_set_occupied)
  then show ?thesis using slot_value_absent [OF inv False] by simp
qed

text \<open>The loop that copies the gradients of the nodes.\<close>

definition grads_copied :: "ggml_cgraph \<Rightarrow> ggml_cgraph \<Rightarrow> nat \<Rightarrow> ggml_cgraph \<Rightarrow> bool" where
  "grads_copied src d0 i d \<longleftrightarrow> (\<exists>gs as. d = d0\<lparr> g_grads := Some gs, g_grad_accs := Some as \<rparr> \<and>
     length gs = hs_size (g_visited d0) \<and> length as = hs_size (g_visited d0)) \<and>
     (\<forall>p. ggml_graph_get_grad d p = (if p \<in> set (take i (g_node_list src)) then ggml_graph_get_grad src p else Some NULL) \<and>
       ggml_graph_get_grad_acc d p =
         (if p \<in> set (take i (g_node_list src)) then ggml_graph_get_grad_acc src p else Some NULL))"

lemma copy_grad_step:
  assumes src: "hs_inv (g_visited src)" "g_grads src \<noteq> None" "g_grad_accs src \<noteq> None" "set (g_node_list src) \<subseteq> hs_set (g_visited src)"
    and d0: "hs_inv (g_visited d0)" "hs_set (g_visited d0) = hs_set (g_visited src)" "g_node_list d0 = g_node_list src"
    and i: "i < length (g_node_list src)" and d: "grads_copied src d0 i d"
  shows "\<exists>d'. copy_grad src i d = Some d' \<and> grads_copied src d0 (Suc i) d'"
proof -
  let ?p = "g_node_list src ! i"
  obtain gs as where e: "d = d0\<lparr> g_grads := Some gs, g_grad_accs := Some as \<rparr>"
    and len: "length gs = hs_size (g_visited d0)" "length as = hs_size (g_visited d0)" using d unfolding grads_copied_def by blast
  obtain gr ac where ga: "g_grads src = Some gr" "g_grad_accs src = Some ac" using src(2,3) by auto
  have p: "?p \<in> hs_set (g_visited src)" using src(4) i by (simp add: subset_eq)
  then have "?p \<in> hs_set (g_visited d0)" using d0(2) by simp
  then obtain jd where jd: "hs_occupied (g_visited d0) jd ?p" unfolding hs_set_occupied by blast
  obtain js where js: "hs_occupied (g_visited src) js ?p" using p unfolding hs_set_occupied by blast
  note j = js jd
  have at: "g_nodes b ! i = g_node_list b ! i" if "i < length (g_node_list b)" for b
    using that by (simp add: g_node_list_def)
  have "g_nodes d0 ! i = ?p" using at [of d0] i by (simp only: d0(3))
  then have n: "g_nodes src ! i = ?p" "g_nodes d ! i = ?p" using at [OF i] by (simp_all add: e)
  let ?d = "d0\<lparr> g_grads := Some (gs[jd := gr ! js]), g_grad_accs := Some (as[jd := ac ! js]) \<rparr>"
  have r: "copy_grad src i d = Some ?d"
    using find_at [OF src(1) j(1)] find_at [OF d0(1) j(2)] n by (simp add: copy_grad_def e ga)
  have t: "set (take (Suc i) (g_node_list src)) = insert ?p (set (take i (g_node_list src)))"
    using i by (simp add: take_Suc_conv_app_nth)
  have step: "slot_value (g_visited d0) (Some (l[jd := m ! js])) q =
      (if q \<in> set (take (Suc i) (g_node_list src)) then slot_value (g_visited src) (Some m) q else Some NULL)"
    if len: "length l = hs_size (g_visited d0)" and old: "slot_value (g_visited d0) (Some l) q =
      (if q \<in> set (take i (g_node_list src)) then slot_value (g_visited src) (Some m) q else Some NULL)" for l m q
    unfolding slot_value_update [OF d0(1) j(2) len] t
    using old slot_value_at [OF src(1) j(1), of m] by (cases "q = ?p") simp_all
  have "slot_value (g_visited d0) (Some gs) q = (if q \<in> set (take i (g_node_list src)) then slot_value (g_visited src) (Some gr) q else Some NULL)"
    "slot_value (g_visited d0) (Some as) q = (if q \<in> set (take i (g_node_list src)) then slot_value (g_visited src) (Some ac) q else Some NULL)" for q
    using d by (simp_all add: grads_copied_def get_grad_slot e ga)
  note new = step [OF len(1) this(1)] step [OF len(2) this(2)]
  have "grads_copied src d0 (Suc i) ?d"
    unfolding grads_copied_def get_grad_slot ga
  proof (intro conjI allI)
    show "\<exists>gs as. ?d = d0\<lparr> g_grads := Some gs, g_grad_accs := Some as \<rparr> \<and>
       length gs = hs_size (g_visited d0) \<and> length as = hs_size (g_visited d0)"
      by (rule exI [of _ "gs[jd := gr ! js]"], rule exI [of _ "as[jd := ac ! js]"]) (simp add: len)
  qed (use new in simp_all)
  with r show ?thesis by blast
qed

text \<open>A copy into a graph whose visited set is empty.\<close>

definition copy_of :: "ggml_cgraph \<Rightarrow> ggml_cgraph \<Rightarrow> bool" where
  "copy_of src d \<longleftrightarrow> graph_shape d \<and> g_node_list d = g_node_list src \<and> g_leaf_list d = g_leaf_list src \<and>
     hs_set (g_visited d) = hs_set (g_visited src) \<and> (\<forall>p. use_count_of d p = use_count_of src p)"

lemma copy_of_grads:
  assumes "copy_of src d" "length gs = hs_size (g_visited d)" "length as = hs_size (g_visited d)"
  shows "copy_of src (d\<lparr> g_grads := Some gs, g_grad_accs := Some as \<rparr>)"
  using assms by (simp add: copy_of_def graph_shape_def g_node_list_def g_leaf_list_def use_count_of_def
      cong: option.case_cong if_cong)

lemma ggml_graph_cpy_start:
  assumes src: "graph_shape src" and dst: "graph_shape dst" "hs_set (g_visited dst) = {}"
    and sz: "g_n_leafs src \<le> g_size dst" "g_n_nodes src \<le> g_size dst" "hs_size (g_visited src) \<le> hs_size (g_visited dst)"
  shows "\<exists>d. ggml_graph_cpy src dst = (if g_grads src \<noteq> None then do {
        gassert (g_grads d \<noteq> None);
        gassert (g_grad_accs d \<noteq> None);
        for_each (copy_grad src) [0..<length (g_node_list src)] d } else Some d) \<and>
    copy_of src d \<and> g_size d = g_size dst \<and> (g_grads d = None \<longleftrightarrow> g_grads dst = None) \<and>
    ((g_grads dst = None \<longleftrightarrow> g_grad_accs dst = None) \<longrightarrow> (g_grads d = None \<longleftrightarrow> g_grad_accs d = None) \<and>
      (\<forall>p. ggml_graph_get_grad d p = Some NULL \<and> ggml_graph_get_grad_acc d p = Some NULL))"
proof -
  define d0 where "d0 = dst\<lparr> g_n_leafs := g_n_leafs src, g_n_nodes := g_n_nodes src, g_order := g_order src,
    g_leafs := take (nat (g_n_leafs src)) (g_leafs src) @ drop (nat (g_n_leafs src)) (g_leafs dst),
    g_nodes := take (nat (g_n_nodes src)) (g_nodes src) @ drop (nat (g_n_nodes src)) (g_nodes dst) \<rparr>"
  have n: "nat (g_n_leafs src) \<le> length (g_leafs src)" "nat (g_n_nodes src) \<le> length (g_nodes src)"
    "nat (g_n_leafs src) \<le> length (g_leafs dst)" "nat (g_n_nodes src) \<le> length (g_nodes dst)"
    using src dst(1) sz(1,2) by (auto simp: graph_shape_def)
  have sh0: "graph_shape d0" using src dst sz(1,2) n by (simp add: graph_shape_def d0_def)
  have vis0: "g_visited d0 = g_visited dst" and l0: "g_node_list d0 = g_node_list src" "g_leaf_list d0 = g_leaf_list src"
    using n by (simp_all add: d0_def g_node_list_def g_leaf_list_def)
  have "\<exists>v u. d0 = d0\<lparr> g_visited := v, g_use_counts := u \<rparr>"
    by (rule exI [of _ "g_visited d0"], rule exI [of _ "g_use_counts d0"]) simp
  then have "copied src d0 0 d0" using sh0 dst(2) by (simp add: copied_def graph_shape_def vis0)
  from copy_keys [OF src _ this] obtain d1 where
    d1: "for_each (copy_key src) [0..<hs_size (g_visited src)] d0 = Some d1" "copied src d0 (hs_size (g_visited src)) d1"
    using sz(3) by (auto simp: vis0)
  obtain v u where e: "d1 = d0\<lparr> g_visited := v, g_use_counts := u \<rparr>" using d1(2) by (auto simp: copied_def)
  define d where "d = (if g_grads d1 \<noteq> None
      then d1\<lparr> g_grads := Some (replicate (hs_size (g_visited d1)) NULL),
                g_grad_accs := Some (replicate (hs_size (g_visited d1)) NULL) \<rparr>
      else d1)"
  have f: "g_visited d = g_visited d1" "g_use_counts d = g_use_counts d1" "g_node_list d = g_node_list d0"
    "g_leaf_list d = g_leaf_list d0" "g_size d = g_size dst"
    by (simp_all add: d_def e d0_def g_node_list_def g_leaf_list_def)
  have set: "hs_set (g_visited d) = hs_set (g_visited src)"
  proof -
    have "hs_set (g_visited d1) =
        {hs_keys (g_visited src) ! j |j. j < hs_size (g_visited src) \<and> hs_get (g_visited src) j}"
      using d1(2) by (simp only: copied_def)
    also have "\<dots> = hs_set (g_visited src)" by (auto simp: hs_set_def)
    finally show ?thesis by (simp add: f)
  qed
  have "graph_shape d1" using d1(2) sh0 by (simp add: copied_def graph_shape_def e)
  then have sh: "graph_shape d" by (simp add: d_def graph_shape_def)
  have "use_count_of d p = use_count_of d1 p" for p
    by (simp add: use_count_of_def f(1,2) cong: option.case_cong if_cong)
  then have "use_count_of d p = use_count_of src p" for p
    using d1(2) set use_count_of_absent [of d p] use_count_of_absent [of src p] sh src
    by (cases "p \<in> hs_set (g_visited src)") (simp_all add: copied_def f(1) graph_shape_def)
  then have uses: "\<forall>p. use_count_of d p = use_count_of src p" ..
  have inv: "hs_inv (g_visited d)" using sh by (simp add: graph_shape_def)
  have gd: "g_grads d = None \<longleftrightarrow> g_grads dst = None" by (simp add: d_def e d0_def)
  have null: "(g_grads d = None \<longleftrightarrow> g_grad_accs d = None) \<and>
      (\<forall>p. ggml_graph_get_grad d p = Some NULL \<and> ggml_graph_get_grad_acc d p = Some NULL)"
    if gr: "g_grads dst = None \<longleftrightarrow> g_grad_accs dst = None"
  proof -
    have "g_grads d = None \<or> g_grads d = Some (replicate (hs_size (g_visited d)) NULL)"
      "g_grad_accs d = None \<or> g_grad_accs d = Some (replicate (hs_size (g_visited d)) NULL)"
      "g_grads d = None \<longleftrightarrow> g_grad_accs d = None"
      using gr by (auto simp: d_def e d0_def)
    then show ?thesis unfolding get_grad_slot by (simp add: slot_value_null [OF inv])
  qed
  have len: "nat (g_n_nodes src) = length (g_node_list src)" using n by (simp add: g_node_list_def)
  have asserts: "(g_size dst \<ge> g_n_leafs src) = True" "(g_size dst \<ge> g_n_nodes src) = True"
      "(hs_size (g_visited dst) \<ge> hs_size (g_visited src)) = True" using sz by auto
  have "ggml_graph_cpy src dst = (if g_grads src \<noteq> None then do {
       gassert (g_grads d \<noteq> None);
       gassert (g_grad_accs d \<noteq> None);
       for_each (copy_grad src) [0..<length (g_node_list src)] d } else Some d)"
    unfolding ggml_graph_cpy_def Let_def d0_def [symmetric] len [symmetric]
    by (simp only: asserts gassert_def if_True bind.bind_lunit d1(1) d_def [symmetric])
  note cpy = this
  have cp: "copy_of src d" using sh f l0 set uses by (simp add: copy_of_def)
  show ?thesis by (intro exI [of _ d] conjI) (fact cpy, fact cp, fact f(5), fact gd, rule impI, rule null, assumption)
qed

lemma ggml_graph_cpy_result:
  assumes src: "graph_shape src" and dst: "graph_shape dst" "hs_set (g_visited dst) = {}"
    and r: "ggml_graph_cpy src dst = Some b"
  shows "copy_of src b" "g_size b = g_size dst"
proof -
  have sz: "g_n_leafs src \<le> g_size dst" "g_n_nodes src \<le> g_size dst" "hs_size (g_visited src) \<le> hs_size (g_visited dst)"
    using r by (simp_all add: ggml_graph_cpy_def split: if_split_asm)
  obtain d where c: "ggml_graph_cpy src dst = (if g_grads src \<noteq> None then do {
        gassert (g_grads d \<noteq> None);
        gassert (g_grad_accs d \<noteq> None);
        for_each (copy_grad src) [0..<length (g_node_list src)] d } else Some d)"
    and d: "copy_of src d" "g_size d = g_size dst" using ggml_graph_cpy_start [OF src dst sz] by blast
  have "copy_of src b \<and> g_size b = g_size dst"
  proof (cases "g_grads src = None")
    case True
    then show ?thesis using c d r by simp
  next
    case False
    then have l: "for_each (copy_grad src) [0..<length (g_node_list src)] d = Some b" using c r by (auto split: if_split_asm)
    let ?I = "\<lambda>i :: nat. \<lambda>b. copy_of src b \<and> g_size b = g_size dst \<and> g_grads b \<noteq> None \<and> g_grad_accs b \<noteq> None"
    have "?I (length [0..<length (g_node_list src)]) b"
    proof (rule for_each_inv [OF l])
      show "?I 0 d" using d c r False by (auto split: if_split_asm)
      fix i x y assume I: "?I i x" and s: "copy_grad src ([0..<length (g_node_list src)] ! i) x = Some y"
      obtain gs as where ga: "g_grads x = Some gs" "g_grad_accs x = Some as" using I by auto
      then have "length gs = hs_size (g_visited x)" "length as = hs_size (g_visited x)"
        using I by (simp_all add: copy_of_def graph_shape_def)
      moreover obtain j v w where "y = x\<lparr> g_grads := Some (gs[j := v]), g_grad_accs := Some (as[j := w]) \<rparr>"
        using s ga by (auto simp: copy_grad_def bind_Some_iff split: if_split_asm)
      ultimately show "?I (Suc i) y" using I copy_of_grads [of src x "gs[j := v]" "as[j := w]"] by simp
    qed
    then show ?thesis by blast
  qed
  then show "copy_of src b" "g_size b = g_size dst" by blast+
qed

lemma ggml_graph_cpy_empty:
  assumes src: "graph_shape src" and dst: "graph_shape dst" "hs_set (g_visited dst) = {}"
    and sz: "g_size src \<le> g_size dst" "hs_size (g_visited src) \<le> hs_size (g_visited dst)"
    and gr: "g_grads src = None \<longleftrightarrow> g_grad_accs src = None" "g_grads dst = None \<longleftrightarrow> g_grad_accs dst = None"
      "g_grads src = None \<or> g_grads dst \<noteq> None"
    and vis: "set (g_node_list src) \<subseteq> hs_set (g_visited src)"
  shows "\<exists>d. ggml_graph_cpy src dst = Some d \<and> copy_of src d \<and> g_size d = g_size dst \<and>
    (g_grads d = None \<longleftrightarrow> g_grads dst = None) \<and>
    (\<forall>p. ggml_graph_get_grad d p = (if p \<in> set (g_node_list src) then ggml_graph_get_grad src p else Some NULL) \<and>
      ggml_graph_get_grad_acc d p = (if p \<in> set (g_node_list src) then ggml_graph_get_grad_acc src p else Some NULL))"
proof -
  have "g_n_leafs src \<le> g_size dst" "g_n_nodes src \<le> g_size dst" using src sz(1) by (auto simp: graph_shape_def)
  note start = ggml_graph_cpy_start [OF src dst this sz(2)]
  obtain d where
    c: "ggml_graph_cpy src dst = (if g_grads src \<noteq> None then do {
        gassert (g_grads d \<noteq> None);
        gassert (g_grad_accs d \<noteq> None);
        for_each (copy_grad src) [0..<length (g_node_list src)] d } else Some d)"
    and d: "copy_of src d" "g_size d = g_size dst" "g_grads d = None \<longleftrightarrow> g_grads dst = None"
    and null: "(g_grads dst = None \<longleftrightarrow> g_grad_accs dst = None) \<longrightarrow> (g_grads d = None \<longleftrightarrow> g_grad_accs d = None) \<and>
      (\<forall>p. ggml_graph_get_grad d p = Some NULL \<and> ggml_graph_get_grad_acc d p = Some NULL)"
    using start by (elim exE conjE) (rule that)
  have dn: "g_grads d = None \<longleftrightarrow> g_grad_accs d = None"
      "ggml_graph_get_grad d p = Some NULL" "ggml_graph_get_grad_acc d p = Some NULL" for p
    using null gr(2) by simp_all
  have inv: "hs_inv (g_visited src)" "hs_inv (g_visited d)" using src d(1) by (simp_all add: graph_shape_def copy_of_def)
  show ?thesis
  proof (cases "g_grads src = None")
    case True
    then have "ggml_graph_get_grad src p = Some NULL" "ggml_graph_get_grad_acc src p = Some NULL" for p
      unfolding get_grad_slot using gr(1) by (simp_all add: slot_value_null [OF inv(1)])
    then show ?thesis using True c d dn by auto
  next
    case False
    then obtain gs as where ga: "g_grads d = Some gs" "g_grad_accs d = Some as" using d(3) dn(1) gr(3) by fastforce
    then have "length gs = hs_size (g_visited d)" "length as = hs_size (g_visited d)"
      using d(1) by (simp_all add: graph_shape_def copy_of_def)
    moreover have "d = d\<lparr> g_grads := Some gs, g_grad_accs := Some as \<rparr>" using ga by simp
    ultimately have "grads_copied src d 0 d" using dn(2,3) unfolding grads_copied_def by auto
    then have "\<exists>b. for_each (copy_grad src) [0..<length (g_node_list src)] d = Some b \<and>
        grads_copied src d (length [0..<length (g_node_list src)]) b"
      by (rule for_each_rule [where I = "grads_copied src d"])
        (use copy_grad_step [OF inv(1) False _ vis inv(2)] gr(1) False d(1) in \<open>simp add: copy_of_def\<close>)
    then obtain b where b: "for_each (copy_grad src) [0..<length (g_node_list src)] d = Some b"
      "grads_copied src d (length (g_node_list src)) b" by auto
    then obtain gs as where eb: "b = d\<lparr> g_grads := Some gs, g_grad_accs := Some as \<rparr>"
      "length gs = hs_size (g_visited d)" "length as = hs_size (g_visited d)" unfolding grads_copied_def by blast
    have "copy_of src b" unfolding eb(1) by (rule copy_of_grads [OF d(1) eb(2,3)])
    then show ?thesis using False c b d(2,3) ga eb(1) by (simp add: grads_copied_def)
  qed
qed

text \<open>A copy into a graph that has visited one of the tensors already writes outside the use counts.\<close>

lemma for_each_fails:
  assumes "x \<in> set xs" "P s" "\<And>s. P s \<Longrightarrow> f x s = None" "\<And>y s s'. P s \<Longrightarrow> f y s = Some s' \<Longrightarrow> P s'"
  shows "for_each f xs s = None"
  using assms(1,2)
proof (induction xs arbitrary: s)
  case (Cons y ys)
  show ?case
  proof (cases "f y s")
    case (Some s')
    then have "y \<noteq> x" using assms(3) Cons.prems(2) by auto
    then show ?thesis using Some Cons assms(4) by simp
  qed simp
qed simp

lemma ggml_graph_cpy_twice:
  assumes src: "graph_shape src" and dst: "graph_shape dst"
    and k: "k \<in> hs_set (g_visited src)" "k \<in> hs_set (g_visited dst)"
  shows "ggml_graph_cpy src dst = None"
proof -
  obtain i where i: "i < hs_size (g_visited src)" "hs_get (g_visited src) i" "hs_keys (g_visited src) ! i = k"
    using k(1) by (auto simp: hs_set_def)
  define P where "P = (\<lambda>d :: ggml_cgraph. hs_inv (g_visited d) \<and> k \<in> hs_set (g_visited d) \<and>
    length (g_use_counts d) = hs_size (g_visited d))"
  have fails: "copy_key src i d = None" if "P d" for d
    using that i ggml_hash_insert_old [of "g_visited d" k] hs_invD(2) [of "g_visited d"]
    by (auto simp: P_def copy_key_def gassert_def)
  have keeps: "P d'" if P: "P d" and c: "copy_key src j d = Some d'" for d d' j
  proof (cases "hs_get (g_visited src) j")
    case True
    let ?x = "hs_keys (g_visited src) ! j"
    obtain pos hs where ins: "ggml_hash_insert (g_visited d) ?x = Some (pos, hs)"
      and p: "pos < length (g_use_counts d)"
      and d': "d' = d\<lparr> g_visited := hs, g_use_counts := (g_use_counts d)[pos := g_use_counts src ! j] \<rparr>"
      using c True by (auto simp: copy_key_def bind_Some_iff split: if_splits)
    have "hs_inv hs \<and> k \<in> hs_set hs \<and> hs_size hs = hs_size (g_visited d)"
      using hash_insert_spec [OF _ ins [unfolded ggml_hash_insert_home]] P
      by (auto simp: P_def split: if_splits)
    then show ?thesis using P d' by (simp add: P_def)
  qed (use P c in \<open>simp add: copy_key_def\<close>)
  have "for_each (copy_key src) [0..<hs_size (g_visited src)] d = None" if "P d" for d
    by (rule for_each_fails [where P = P and x = i and f = "copy_key src"])
      (use i(1) that fails keeps in auto)
  moreover have "P (dst\<lparr> g_n_leafs := a, g_n_nodes := b, g_order := c, g_leafs := l, g_nodes := n \<rparr>)" for a b c l n
    using dst k(2) by (simp add: P_def graph_shape_def)
  ultimately show ?thesis by (simp add: ggml_graph_cpy_def gassert_def)
qed

section \<open>What fusion relies on\<close>

lemma subgraph_uses_sum:
  assumes "for_each (\<lambda>idx n. do {
       gassert (0 \<le> idx \<and> nat idx < length (g_nodes g));
       t \<leftarrow> tget h (g_nodes g ! nat idx);
       Some (n + int (count_list (t_src t) node)) }) idxs m = Some n"
  shows "n = m + (\<Sum>idx \<leftarrow> idxs. int (count_list (srcs h (g_nodes g ! nat idx)) node))"
  using assms
proof (induction idxs arbitrary: m)
  case (Cons idx idxs)
  obtain t where t: "tget h (g_nodes g ! nat idx) = Some t"
    and r: "for_each (\<lambda>idx n. do {
       gassert (0 \<le> idx \<and> nat idx < length (g_nodes g));
       t \<leftarrow> tget h (g_nodes g ! nat idx);
       Some (n + int (count_list (t_src t) node)) }) idxs (m + int (count_list (t_src t) node)) = Some n"
    using Cons.prems by (auto simp: bind_Some_iff split: if_splits)
  have "srcs h (g_nodes g ! nat idx) = t_src t" using t by (simp add: srcs_def)
  then show ?case using Cons.IH [OF r] by simp
qed simp

lemma all_fusableD:
  assumes "all_fusable h g grp outputs idxs ops = Some True" "k < length idxs"
  shows "node_fusable h g grp outputs (idxs ! k) (ops ! k) (drop (Suc k) idxs) = Some True" "k < length ops"
  using assms
proof (induction idxs arbitrary: ops k)
  case (Cons idx rest)
  case 1
  then obtain op ops' where o: "ops = op # ops'" by (cases ops) auto
  then have n: "node_fusable h g grp outputs idx op rest = Some True"
    and r: "all_fusable h g grp outputs rest ops' = Some True"
    using 1(1) by (auto simp: bind_Some_iff split: if_splits)
  show ?case using n o 1(2) Cons.IH(1) [OF r] by (cases k) auto
next
  case (Cons idx rest)
  case 2
  then obtain op ops' where o: "ops = op # ops'" by (cases ops) auto
  then have r: "all_fusable h g grp outputs rest ops' = Some True"
    using 2(1) by (auto simp: bind_Some_iff split: if_splits)
  show ?case using o 2(2) Cons.IH(2) [OF r] by (cases k) auto
qed simp_all

text \<open>A node of the group that is no output: its uses are exactly those by later nodes of the group.\<close>

definition elided :: "heap \<Rightarrow> ggml_cgraph \<Rightarrow> int list \<Rightarrow> int list \<Rightarrow> nat \<Rightarrow> bool" where
  "elided h g idxs outputs k \<longleftrightarrow> k < length idxs \<and>
     ggml_node_list_find_tensor g outputs (g_nodes g ! nat (idxs ! k)) = -1"

lemma node_fusable_range:
  "node_fusable h g grp outputs idx op rest = Some True \<Longrightarrow> 0 \<le> idx \<and> idx < g_n_nodes g"
  by (auto simp: node_fusable_def split: if_splits)

lemma elided_uses:
  assumes f: "ggml_can_fuse_subgraph_ext h g idxs ops outputs = Some True" and k: "elided h g idxs outputs k"
  shows "ggml_node_get_use_count g (idxs ! k) =
      Some (\<Sum>idx \<leftarrow> drop (Suc k) idxs. int (count_list (srcs h (g_nodes g ! nat idx)) (g_nodes g ! nat (idxs ! k))))"
    "\<exists>t. h_tensors h (g_nodes g ! nat (idxs ! k)) = Some t \<and> t_op t = ops ! k \<and>
       t_flags t AND GGML_TENSOR_FLAG_COMPUTE \<noteq> 0 \<and> t_flags t AND GGML_TENSOR_FLAG_OUTPUT = 0"
proof -
  have "all_fusable h g idxs outputs idxs ops = Some True"
    using f by (auto simp: ggml_can_fuse_subgraph_ext_def split: if_splits)
  then have nf: "node_fusable h g idxs outputs (idxs ! k) (ops ! k) (drop (Suc k) idxs) = Some True"
    using k all_fusableD(1) by (auto simp: elided_def)
  from nf k show "\<exists>t. h_tensors h (g_nodes g ! nat (idxs ! k)) = Some t \<and> t_op t = ops ! k \<and>
       t_flags t AND GGML_TENSOR_FLAG_COMPUTE \<noteq> 0 \<and> t_flags t AND GGML_TENSOR_FLAG_OUTPUT = 0"
    by (auto simp: node_fusable_def elided_def Let_def bind_Some_iff split: if_splits)
  from nf k obtain c where u: "subgraph_uses h g (g_nodes g ! nat (idxs ! k)) (drop (Suc k) idxs) = Some c"
    and c: "ggml_node_get_use_count g (idxs ! k) = Some c"
    by (auto simp: node_fusable_def elided_def Let_def bind_Some_iff split: if_splits)
  show "ggml_node_get_use_count g (idxs ! k) =
      Some (\<Sum>idx \<leftarrow> drop (Suc k) idxs. int (count_list (srcs h (g_nodes g ! nat idx)) (g_nodes g ! nat (idxs ! k))))"
    using subgraph_uses_sum [OF u [unfolded subgraph_uses_def]] c by simp
qed

lemma node_list_nth:
  assumes "graph_shape g" "0 \<le> idx" "idx < g_n_nodes g"
  shows "nat idx < length (g_node_list g)" "g_node_list g ! nat idx = g_nodes g ! nat idx"
  using assms list_lengths(1) [OF assms(1)] by (auto simp: g_node_list_def nat_less_iff)

lemma finite_done: "finite (g_done g)"
  by (simp add: g_done_def)

lemma done_card:
  assumes "graph_shape g"
  shows "int (card (g_done g)) \<le> 2 * g_size g"
proof -
  have "card (g_done g) \<le> length (g_node_list g) + length (g_leaf_list g)"
    unfolding g_done_def using card_Un_le card_length by (metis add_mono le_trans)
  then show ?thesis using assms list_lengths [OF assms] by (simp add: graph_shape_def)
qed

lemma use_total_bound:
  assumes inv: "heap_inv h" and g: "graph_complete h g"
  shows "(\<Sum>q \<in> g_done g. int (count_list (srcs h q) p)) \<le> 20 * g_size g"
proof -
  have "int (count_list (srcs h q) p) \<le> 10" if q: "q \<in> g_done g" for q
  proof -
    obtain t where t: "h_tensors h q = Some t" using g q by (auto simp: graph_complete_def)
    then have "length (srcs h q) = 10"
      using inv by (auto simp: srcs_def heap_inv_def tensors_wf_def node_wf_def tensor_shape_ok_def GGML_MAX_SRC_def)
    then show ?thesis using count_le_length [of "srcs h q" p] by simp
  qed
  then have "(\<Sum>q \<in> g_done g. int (count_list (srcs h q) p)) \<le> of_nat (card (g_done g)) * 10"
    by (rule sum_bounded_above)
  then show ?thesis using done_card [of g] g by (simp add: graph_complete_def graph_ok_def)
qed

lemma group_nodes:
  assumes sh: "graph_shape g" and d: "distinct (g_node_list g)" "distinct idxs"
    and r: "\<And>idx. idx \<in> set idxs \<Longrightarrow> 0 \<le> idx \<and> idx < g_n_nodes g"
  shows "distinct (map (\<lambda>idx. g_nodes g ! nat idx) idxs)" "(\<lambda>idx. g_nodes g ! nat idx) ` set idxs \<subseteq> g_done g"
proof -
  have "inj_on (\<lambda>idx. g_nodes g ! nat idx) (set idxs)"
  proof (rule inj_onI)
    fix x y assume xy: "x \<in> set idxs" "y \<in> set idxs" and eq: "g_nodes g ! nat x = g_nodes g ! nat y"
    have b: "0 \<le> x" "x < g_n_nodes g" "0 \<le> y" "y < g_n_nodes g" using r xy by simp_all
    note nx = node_list_nth [OF sh b(1,2)] and ny = node_list_nth [OF sh b(3,4)]
    have "g_node_list g ! nat x = g_node_list g ! nat y" using nx(2) ny(2) eq by simp
    then have "nat x = nat y" using nth_eq_iff_index_eq [OF d(1) nx(1) ny(1)] by simp
    then show "x = y" using b by simp
  qed
  then show "distinct (map (\<lambda>idx. g_nodes g ! nat idx) idxs)" using d(2) by (simp add: distinct_map)
  show "(\<lambda>idx. g_nodes g ! nat idx) ` set idxs \<subseteq> g_done g"
  proof
    fix q assume "q \<in> (\<lambda>idx. g_nodes g ! nat idx) ` set idxs"
    then obtain x where x: "x \<in> set idxs" "q = g_nodes g ! nat x" by blast
    then have b: "0 \<le> x" "x < g_n_nodes g" using r by simp_all
    from node_list_nth [OF sh b] nth_mem [of "nat x" "g_node_list g"] x(2)
    show "q \<in> g_done g" by (simp add: g_done_def)
  qed
qed

lemma fusion_confines_uses:
  assumes inv: "heap_inv h" and g: "graph_complete h g" "uses_ok h g" "20 * g_size g < 2 ^ 31"
    and f: "ggml_can_fuse_subgraph_ext h g idxs ops outputs = Some True" and k: "elided h g idxs outputs k"
    and d: "distinct idxs" and q: "q \<in> g_done g" "g_nodes g ! nat (idxs ! k) \<in> set (srcs h q)"
  shows "\<exists>j. k < j \<and> j < length idxs \<and> q = g_nodes g ! nat (idxs ! j)"
proof -
  let ?p = "g_nodes g ! nat (idxs ! k)" and ?later = "drop (Suc k) idxs"
  let ?n = "\<lambda>idx. g_nodes g ! nat idx" and ?c = "\<lambda>q. int (count_list (srcs h q) (g_nodes g ! nat (idxs ! k)))"
  have sh: "graph_shape g" and dn: "distinct (g_node_list g)"
    using g(1) by (simp_all add: graph_complete_def graph_ok_def)
  have all: "all_fusable h g idxs outputs idxs ops = Some True"
    using f by (auto simp: ggml_can_fuse_subgraph_ext_def split: if_splits)
  have r: "0 \<le> idx \<and> idx < g_n_nodes g" if "idx \<in> set idxs" for idx
    using that all_fusableD(1) [OF all] node_fusable_range by (metis in_set_conv_nth)
  have rl: "0 \<le> idx \<and> idx < g_n_nodes g" if "idx \<in> set ?later" for idx
    using r in_set_dropD [OF that] by blast
  note gn = group_nodes [OF sh dn distinct_drop [OF d] rl]
  have kl: "k < length idxs" using k by (simp add: elided_def)
  then have "0 \<le> idxs ! k" "idxs ! k < g_n_nodes g" using r by simp_all
  from node_list_nth [OF sh this] nth_mem [of "nat (idxs ! k)" "g_node_list g"]
  have pd: "?p \<in> g_done g" by (simp add: g_done_def)
  then have pn: "?p \<noteq> NULL" using g(1) by (simp add: graph_complete_def)
  have "?p \<in> hs_set (g_visited g)" using pd complete_visited [OF g(1)] by simp
  then have "Some (use_count_of g ?p) = ggml_node_get_use_count g (idxs ! k)"
    using ggml_hash_find_spec [of "g_visited g" ?p] FULL_not_slot [of "g_visited g"] sh
    by (auto simp: use_count_of_def ggml_node_get_use_count_def graph_shape_def)
  then have "use_count_of g ?p = (\<Sum>idx \<leftarrow> ?later. ?c (?n idx))" using elided_uses(1) [OF f k] by simp
  also have "\<dots> = (\<Sum>q \<in> ?n ` set ?later. ?c q)"
    using sum_list_distinct_conv_sum_set [OF gn(1), where f = ?c] by (simp add: comp_def)
  finally have 1: "use_count_of g ?p = (\<Sum>q \<in> ?n ` set ?later. ?c q)" .
  have "0 \<le> (\<Sum>q \<in> g_done g. ?c q)" by (simp add: sum_nonneg)
  then have "use_count_of g ?p = (\<Sum>q \<in> g_done g. ?c q)"
    using g(2,3) pn use_total_bound [OF inv g(1), of ?p] by (simp add: uses_ok_def i32_id)
  moreover have "(\<Sum>q \<in> g_done g. ?c q) = (\<Sum>q \<in> g_done g - ?n ` set ?later. ?c q) + (\<Sum>q \<in> ?n ` set ?later. ?c q)"
    by (rule sum.subset_diff [OF gn(2) finite_done])
  ultimately have "(\<Sum>q \<in> g_done g - ?n ` set ?later. ?c q) = 0" using 1 by simp
  moreover have "finite (g_done g - ?n ` set ?later)" by (simp add: finite_done)
  ultimately have z: "?c x = 0" if "x \<in> g_done g - ?n ` set ?later" for x
    using that sum_nonneg_eq_0_iff [of "g_done g - ?n ` set ?later" ?c] by simp
  have "?c q \<noteq> 0" using q(2) by (simp add: count_list_0_iff)
  then have "q \<in> ?n ` set ?later" using z q(1) by blast
  then obtain i where i: "i < length ?later" "q = ?n (?later ! i)" by (metis image_iff in_set_conv_nth)
  then show ?thesis by (intro exI [of _ "Suc k + i"]) auto
qed

end
