(* ===== verification/GraphCompute.thy ===== *)
theory GraphCompute
  imports GraphOps
begin

text \<open>
  The flag GGML_TENSOR_FLAG_COMPUTE that ggml_visit_parents_graph sets (ggml.c): building a result with
  the flag marks exactly the operations the result depends on, also where they were visited before.
\<close>

section \<open>Which marks a visit sets\<close>

lemma for_each_post:
  assumes "for_each f xs s = Some s'" "I 0 s"
    and "\<And>i s s'. i < length xs \<Longrightarrow> I i s \<Longrightarrow> f (xs ! i) s = Some s' \<Longrightarrow> I (Suc i) s'"
  shows "I (length xs) s'"
  using assms
proof (induction xs arbitrary: s I)
  case (Cons x xs)
  obtain s1 where s1: "f x s = Some s1" "for_each f xs s1 = Some s'" using Cons.prems(1) by (auto simp: bind_Some_iff)
  have "I (Suc 0) s1" using Cons.prems(3) [of 0 s s1] Cons.prems(2) s1(1) by simp
  then show ?case using Cons.IH [OF s1(2), of "\<lambda>i. I (Suc i)"] Cons.prems(3) by force
qed simp

text \<open>The operations a tensor depends on, and the marked tensors whose operations are not all marked.\<close>

definition ops_of :: "heap \<Rightarrow> ptr \<Rightarrow> ptr set" where
  "ops_of h p = {q \<in> reach h p. is_op h q}"

definition marks_closed :: "heap \<Rightarrow> ptr set \<Rightarrow> bool" where
  "marks_closed h S \<longleftrightarrow> (\<forall>q s. computed h q \<longrightarrow> q \<notin> S \<longrightarrow> s \<in> set (srcs h q) \<longrightarrow> s \<noteq> NULL \<longrightarrow>
     is_op h s \<longrightarrow> computed h s)"

definition visit_marks :: "bool \<Rightarrow> heap \<Rightarrow> ptr \<Rightarrow> heap \<Rightarrow> bool" where
  "visit_marks c h p h' \<longleftrightarrow> heap_frame h h' \<and>
     (\<forall>q. computed h' q \<longrightarrow> computed h q \<or> (c \<and> p \<noteq> NULL \<and> q \<in> ops_of h p)) \<and>
     (c \<longrightarrow> p \<noteq> NULL \<longrightarrow> is_op h p \<longrightarrow> computed h' p) \<and>
     (c \<longrightarrow> (\<forall>S. marks_closed h S \<longrightarrow> marks_closed h' S))"

lemma visit_marks_refl: "p = NULL \<or> computed h p \<Longrightarrow> visit_marks c h p h"
  by (auto simp: visit_marks_def)

lemma reach_frame: "heap_frame h h' \<Longrightarrow> reach h' p = reach h p"
  by (rule reach_cong) (rule heap_frame_fun(1))

lemma ops_of_frame: "heap_frame h h' \<Longrightarrow> ops_of h' p = ops_of h p"
  by (simp add: ops_of_def reach_frame heap_frame_fun)

lemma heap_frame_computed: "heap_frame h h' \<Longrightarrow> computed h q \<Longrightarrow> computed h' q"
  by (simp add: heap_frame_def)

lemma ops_of_src: "s \<in> set (srcs h p) \<Longrightarrow> s \<noteq> NULL \<Longrightarrow> ops_of h s \<subseteq> ops_of h p"
  by (auto simp: ops_of_def intro: reach_trans reach_src [OF reach_self])

lemma mark_compute_marks:
  assumes "mark_compute h p c = Some h'"
  shows "heap_frame h h'" "computed h' q \<Longrightarrow> computed h q \<or> (c \<and> is_op h p \<and> q = p)"
    "c \<Longrightarrow> is_op h p \<Longrightarrow> computed h' p" "h_tensors h p \<noteq> None" "p \<noteq> NULL"
proof -
  obtain t where t: "h_tensors h p = Some t" "p \<noteq> NULL"
    using assms by (auto simp: mark_compute_def bind_Some_iff)
  then show "h_tensors h p \<noteq> None" "p \<noteq> NULL" by simp_all
  then show "heap_frame h h'" "c \<Longrightarrow> is_op h p \<Longrightarrow> computed h' p"
    using mark_compute_frame [of h p c] assms by auto
  show "computed h' q \<Longrightarrow> computed h q \<or> (c \<and> is_op h p \<and> q = p)"
    using assms t by (auto simp: mark_compute_def bind_Some_iff tset_Some computed_def is_op_def split: if_splits)
qed

lemma add_visited_marks:
  assumes "add_visited h g p = Some (h', g')"
  shows "heap_frame h h'" "computed h' = computed h" "g_order g' = g_order g"
proof -
  have n: "heap_frame h h1 \<and> computed h1 = computed h" if "name_if_empty h p pr n = Some h1" for pr n h1
    using that by (auto simp: name_if_empty_def bind_Some_iff tset_Some computed_def name_core heap_frame_def
        fun_eq_iff split: if_splits)
  show "heap_frame h h'" "computed h' = computed h" "g_order g' = g_order g"
    using assms n by (auto simp: add_visited_def bind_Some_iff push_leaf_def push_node_def split: if_splits)
qed

lemma loop_marks:
  fixes F :: "nat \<Rightarrow> heap \<times> ggml_cgraph \<Rightarrow> (heap \<times> ggml_cgraph) option"
  assumes run: "for_each F [0..<n] (h, g) = Some (h', g')"
    and step: "\<And>i h1 g1 h2 g2. i < n \<Longrightarrow> heap_frame h h1 \<Longrightarrow> g_order g1 = g_order g \<Longrightarrow>
      F i (h1, g1) = Some (h2, g2) \<Longrightarrow> visit_marks c h1 (src i) h2 \<and> g_order g2 = g_order g1"
    and src: "\<And>i. i < n \<Longrightarrow> src i \<in> set (srcs h p)"
  shows "heap_frame h h' \<and> g_order g' = g_order g \<and>
    (\<forall>q. computed h' q \<longrightarrow> computed h q \<or> (c \<and> q \<in> ops_of h p)) \<and>
    (c \<longrightarrow> (\<forall>i < n. src i \<noteq> NULL \<longrightarrow> is_op h (src i) \<longrightarrow> computed h' (src i))) \<and>
    (c \<longrightarrow> (\<forall>S. marks_closed h S \<longrightarrow> marks_closed h' S))"
proof -
  define I where "I = (\<lambda>k (h1, g1 :: ggml_cgraph). heap_frame h h1 \<and> g_order g1 = g_order g \<and>
    (\<forall>q. computed h1 q \<longrightarrow> computed h q \<or> (c \<and> q \<in> ops_of h p)) \<and>
    (c \<longrightarrow> (\<forall>i < k. src i \<noteq> NULL \<longrightarrow> is_op h (src i) \<longrightarrow> computed h1 (src i))) \<and>
    (c \<longrightarrow> (\<forall>S. marks_closed h S \<longrightarrow> marks_closed h1 S)))"
  have "I (length [0..<n]) (h', g')"
  proof (rule for_each_post [OF run])
    show "I 0 (h, g)" by (simp add: I_def)
    fix i s1 s2 assume i: "i < length [0..<n]" and I: "I i s1" and F: "F ([0..<n] ! i) s1 = Some s2"
    obtain h1 g1 h2 g2 where s: "s1 = (h1, g1)" "s2 = (h2, g2)" by (cases s1, cases s2)
    have k: "heap_frame h h1" "g_order g1 = g_order g"
      "\<forall>q. computed h1 q \<longrightarrow> computed h q \<or> (c \<and> q \<in> ops_of h p)"
      "c \<longrightarrow> (\<forall>j < i. src j \<noteq> NULL \<longrightarrow> is_op h (src j) \<longrightarrow> computed h1 (src j))"
      "c \<longrightarrow> (\<forall>S. marks_closed h S \<longrightarrow> marks_closed h1 S)"
      using I by (simp_all add: I_def s)
    have v: "visit_marks c h1 (src i) h2" "g_order g2 = g_order g1"
      using step [OF _ k(1,2)] F i s by simp_all
    have f: "heap_frame h1 h2" and new: "\<forall>q. computed h2 q \<longrightarrow> computed h1 q \<or> (c \<and> src i \<noteq> NULL \<and> q \<in> ops_of h (src i))"
      and own: "c \<longrightarrow> src i \<noteq> NULL \<longrightarrow> is_op h (src i) \<longrightarrow> computed h2 (src i)"
      and cl: "c \<longrightarrow> (\<forall>S. marks_closed h1 S \<longrightarrow> marks_closed h2 S)"
      using v(1) heap_frame_fun [OF k(1)] by (simp_all add: visit_marks_def ops_of_frame [OF k(1)])
    have sub: "src i \<noteq> NULL \<Longrightarrow> ops_of h (src i) \<subseteq> ops_of h p" using ops_of_src src i by simp
    have "\<forall>q. computed h2 q \<longrightarrow> computed h q \<or> (c \<and> q \<in> ops_of h p)"
      using new k(3) sub by blast
    moreover have "c \<longrightarrow> (\<forall>j < Suc i. src j \<noteq> NULL \<longrightarrow> is_op h (src j) \<longrightarrow> computed h2 (src j))"
      using k(4) own heap_frame_computed [OF f] less_Suc_eq by auto
    ultimately show "I (Suc i) s2"
      using heap_frame_trans [OF k(1) f] k(2,5) v(2) cl by (simp add: I_def s)
  qed
  then show ?thesis by (simp add: I_def)
qed

lemma marks_closed_root:
  assumes "heap_frame h h1" "\<And>q. computed h1 q \<Longrightarrow> computed h q \<or> q = p" "marks_closed h S"
  shows "marks_closed h1 (insert p S)"
  using assms(2,3) heap_frame_computed [OF assms(1)] heap_frame_fun [OF assms(1)]
  unfolding marks_closed_def by (simp (no_asm_simp)) blast

lemma marks_closed_drop:
  assumes "marks_closed h (insert p S)" "\<And>s. s \<in> set (srcs h p) \<Longrightarrow> s \<noteq> NULL \<Longrightarrow> is_op h s \<Longrightarrow> computed h s"
  shows "marks_closed h S"
  using assms unfolding marks_closed_def by blast

text \<open>Marking the root and then visiting all its sources.\<close>

lemma root_and_sources:
  fixes F :: "nat \<Rightarrow> heap \<times> ggml_cgraph \<Rightarrow> (heap \<times> ggml_cgraph) option"
  assumes m: "mark_compute h p c = Some h1"
    and run: "for_each F [0..<n] (h1, g) = Some (h2, g2)"
    and step: "\<And>i ha ga hb gb. i < n \<Longrightarrow> heap_frame h1 ha \<Longrightarrow> g_order ga = g_order g \<Longrightarrow>
      F i (ha, ga) = Some (hb, gb) \<Longrightarrow> visit_marks c ha (src i) hb \<and> g_order gb = g_order ga"
    and src: "src ` {..<n} = set (srcs h p)"
  shows "visit_marks c h p h2 \<and> g_order g2 = g_order g"
proof -
  note m1 = mark_compute_marks [OF m]
  note st = heap_frame_fun [OF m1(1)]
  have l: "heap_frame h1 h2 \<and> g_order g2 = g_order g \<and>
    (\<forall>q. computed h2 q \<longrightarrow> computed h1 q \<or> (c \<and> q \<in> ops_of h1 p)) \<and>
    (c \<longrightarrow> (\<forall>i < n. src i \<noteq> NULL \<longrightarrow> is_op h1 (src i) \<longrightarrow> computed h2 (src i))) \<and>
    (c \<longrightarrow> (\<forall>S. marks_closed h1 S \<longrightarrow> marks_closed h2 S))"
  proof (rule loop_marks [OF run])
    show "src i \<in> set (srcs h1 p)" if "i < n" for i using src that by (auto simp: st)
  qed (rule step)
  have f2: "heap_frame h1 h2" and o: "g_order g2 = g_order g"
    and new: "\<forall>q. computed h2 q \<longrightarrow> computed h1 q \<or> (c \<and> q \<in> ops_of h1 p)"
    and own: "c \<longrightarrow> (\<forall>i < n. src i \<noteq> NULL \<longrightarrow> is_op h1 (src i) \<longrightarrow> computed h2 (src i))"
    and cl: "c \<longrightarrow> (\<forall>S. marks_closed h1 S \<longrightarrow> marks_closed h2 S)"
    using l by blast+
  have p: "is_op h p \<Longrightarrow> p \<in> ops_of h p" by (simp add: ops_of_def reach_self)
  have "marks_closed h2 S" if c and S: "marks_closed h S" for S
  proof (rule marks_closed_drop)
    have "marks_closed h1 (insert p S)" by (rule marks_closed_root [OF m1(1) _ S]) (use m1(2) in blast)
    then show "marks_closed h2 (insert p S)" using cl that(1) by blast
    fix s assume "s \<in> set (srcs h2 p)" "s \<noteq> NULL" "is_op h2 s"
    moreover from this have "s \<in> src ` {..<n}" unfolding src by (simp add: heap_frame_fun [OF f2] st)
    then obtain i where "i < n" "src i = s" by blast
    ultimately show "computed h2 s" using own that(1) by (auto simp: heap_frame_fun [OF f2])
  qed
  moreover have "computed h q \<or> (c \<and> p \<noteq> NULL \<and> q \<in> ops_of h p)" if "computed h2 q" for q
    using new that m1(2,5) p by (auto simp: ops_of_frame [OF m1(1)])
  ultimately show ?thesis
    using heap_frame_trans [OF m1(1) f2] m1(3) heap_frame_computed [OF f2] o by (auto simp: visit_marks_def)
qed

section \<open>Every visit\<close>

definition full_srcs :: "heap \<Rightarrow> bool" where
  "full_srcs h \<longleftrightarrow> (\<forall>p t. h_tensors h p = Some t \<longrightarrow> length (t_src t) = GGML_MAX_SRC)"

lemma full_srcs_frame: "heap_frame h h' \<Longrightarrow> full_srcs h \<Longrightarrow> full_srcs h'"
proof -
  assume f: "heap_frame h h'" and l: "full_srcs h"
  have "length (t_src t') = GGML_MAX_SRC" if t': "h_tensors h' p = Some t'" for p t'
  proof -
    obtain t where t: "h_tensors h p = Some t" using heap_frame_static [OF f, of p] t' by (cases "h_tensors h p") auto
    have "srcs h' p = srcs h p" by (simp add: heap_frame_fun [OF f])
    then show ?thesis using l t t' by (simp add: srcs_def full_srcs_def)
  qed
  then show ?thesis by (simp add: full_srcs_def)
qed

lemma all_indices:
  assumes "length xs = GGML_MAX_SRC"
  shows "(\<lambda>i. xs ! eval_order_index order i) ` {..<GGML_MAX_SRC} = set xs" "(\<lambda>i. xs ! i) ` {..<GGML_MAX_SRC} = set xs"
proof -
  show p: "(\<lambda>i. xs ! i) ` {..<GGML_MAX_SRC} = set xs"
    using assms by (auto simp: in_set_conv_nth image_iff) 
  have r: "(\<lambda>i. xs ! (GGML_MAX_SRC - 1 - i)) ` {..<GGML_MAX_SRC} = set xs"
  proof -
    have "(\<lambda>i. GGML_MAX_SRC - 1 - i) ` {..<GGML_MAX_SRC} = {..<GGML_MAX_SRC}"
    proof
      have "i \<in> (\<lambda>i. GGML_MAX_SRC - 1 - i) ` {..<GGML_MAX_SRC}" if "i < GGML_MAX_SRC" for i
        by (rule image_eqI [of _ _ "GGML_MAX_SRC - 1 - i"]) (use that in \<open>auto simp: GGML_MAX_SRC_def\<close>)
      then show "{..<GGML_MAX_SRC} \<subseteq> (\<lambda>i. GGML_MAX_SRC - 1 - i) ` {..<GGML_MAX_SRC}" by blast
    qed (auto simp: GGML_MAX_SRC_def)
    then show ?thesis using p by (metis (no_types) image_image)
  qed
  show "(\<lambda>i. xs ! eval_order_index order i) ` {..<GGML_MAX_SRC} = set xs"
    using p r by (cases order) (simp_all add: eval_order_index_def)
qed

definition visit_result :: "heap \<Rightarrow> ggml_cgraph \<Rightarrow> ptr \<Rightarrow> bool \<Rightarrow> nat \<times> heap \<times> ggml_cgraph \<Rightarrow> bool" where
  "visit_result h g p c r \<longleftrightarrow> (full_srcs h \<longrightarrow> visit_marks c h p (fst (snd r)) \<and> g_order (snd (snd r)) = g_order g)"

text \<open>The two loops over the sources, for any function in the place of the recursive call.\<close>

definition propagate_by ::
    "(heap \<Rightarrow> ggml_cgraph \<Rightarrow> ptr \<Rightarrow> bool \<Rightarrow> (nat \<times> heap \<times> ggml_cgraph) option) \<Rightarrow> ptr \<Rightarrow> nat \<Rightarrow>
     heap \<times> ggml_cgraph \<Rightarrow> (heap \<times> ggml_cgraph) option" where
  "propagate_by visit node i = (\<lambda>(h, g). do {
     t \<leftarrow> tget h node;
     let src = t_src t ! i;
     if src = NULL then Some (h, g)
     else do {
       s \<leftarrow> tget h src;
       if t_flags s AND GGML_TENSOR_FLAG_COMPUTE = 0
       then do { (_, h, g) \<leftarrow> visit h g src True; Some (h, g) }
       else Some (h, g) } })"

definition visit_src_by ::
    "(heap \<Rightarrow> ggml_cgraph \<Rightarrow> ptr \<Rightarrow> bool \<Rightarrow> (nat \<times> heap \<times> ggml_cgraph) option) \<Rightarrow> ptr \<Rightarrow> bool \<Rightarrow> nat \<Rightarrow>
     heap \<times> ggml_cgraph \<Rightarrow> (heap \<times> ggml_cgraph) option" where
  "visit_src_by visit node compute i = (\<lambda>(h, g). do {
     t \<leftarrow> tget h node;
     let src = t_src t ! eval_order_index (g_order g) i;
     if src = NULL then Some (h, g)
     else do {
       (src_hash_pos, h, g) \<leftarrow> visit h g src compute;
       Some (h, count_use g src_hash_pos) } })"

lemma propagate_by_marks:
  assumes IH: "\<And>h g p c r. visit h g p c = Some r \<Longrightarrow> visit_result h g p c r"
    and f: "heap_frame h h1" "full_srcs h" and r: "propagate_by visit p i (h1, g1) = Some (h2, g2)"
  shows "visit_marks True h1 (srcs h p ! i) h2 \<and> g_order g2 = g_order g1"
proof -
  obtain t where t: "h_tensors h1 p = Some t" using r by (auto simp: propagate_by_def Let_def bind_Some_iff)
  have "srcs h1 p = t_src t" by (simp add: srcs_def t)
  then have s: "srcs h p = t_src t" by (simp only: heap_frame_fun(1) [OF f(1)])
  have full: "full_srcs h1" by (rule full_srcs_frame [OF f])
  let ?s = "t_src t ! i"
  show ?thesis
  proof (cases "?s = NULL")
    case True
    then show ?thesis using r t by (auto simp: propagate_by_def Let_def s bind_Some_iff visit_marks_refl)
  next
    case False
    then obtain u where u: "h_tensors h1 ?s = Some u" using r t by (auto simp: propagate_by_def Let_def bind_Some_iff)
    show ?thesis
    proof (cases "t_flags u AND GGML_TENSOR_FLAG_COMPUTE = 0")
      case True
      then obtain pos where "visit h1 g1 ?s True = Some (pos, h2, g2)"
        using r t u False by (auto simp: propagate_by_def Let_def bind_Some_iff)
      from IH [OF this] full show ?thesis by (simp add: visit_result_def s)
    next
      case flag: False
      then have "computed h1 ?s" by (simp add: computed_def u)
      then show ?thesis using r t u False flag by (auto simp: propagate_by_def Let_def s bind_Some_iff visit_marks_refl)
    qed
  qed
qed

lemma visit_src_by_marks:
  assumes IH: "\<And>h g p c r. visit h g p c = Some r \<Longrightarrow> visit_result h g p c r"
    and f: "heap_frame h h1" "full_srcs h" and r: "visit_src_by visit p c i (h1, g1) = Some (h2, g2)"
  shows "visit_marks c h1 (srcs h p ! eval_order_index (g_order g1) i) h2 \<and> g_order g2 = g_order g1"
proof -
  obtain t where t: "h_tensors h1 p = Some t" using r by (auto simp: visit_src_by_def Let_def bind_Some_iff)
  have "srcs h1 p = t_src t" by (simp add: srcs_def t)
  then have s: "srcs h p = t_src t" by (simp only: heap_frame_fun(1) [OF f(1)])
  have full: "full_srcs h1" by (rule full_srcs_frame [OF f])
  let ?s = "t_src t ! eval_order_index (g_order g1) i"
  show ?thesis
  proof (cases "?s = NULL")
    case True
    then show ?thesis using r t by (auto simp: visit_src_by_def Let_def s bind_Some_iff visit_marks_refl)
  next
    case False
    then obtain pos g3 where "visit h1 g1 ?s c = Some (pos, h2, g3)" "g2 = count_use g3 pos"
      using r t by (auto simp: visit_src_by_def Let_def bind_Some_iff)
    from IH [OF this(1)] this(2) full show ?thesis by (simp add: visit_result_def s)
  qed
qed

lemma visit_body_marks:
  assumes IH: "\<And>h g p c r. visit h g p c = Some r \<Longrightarrow> visit_result h g p c r"
    and body: "do {
     h \<leftarrow> mark_compute h p c;
     pos \<leftarrow> ggml_hash_find (g_visited g) p;
     gassert (pos \<noteq> GGML_HASHSET_FULL);
     if hs_get (g_visited g) pos
     then do {
       (h, g) \<leftarrow> (if c then for_each (propagate_by visit p) [0..<GGML_MAX_SRC] (h, g) else Some (h, g));
       Some (pos, h, g) }
     else do {
       (h, g) \<leftarrow> for_each (visit_src_by visit p c) [0..<GGML_MAX_SRC] (h, enter_visited g pos p);
       (h, g) \<leftarrow> add_visited h g p;
       Some (pos, h, g) } } = Some r"
  shows "visit_result h g p c r"
  unfolding visit_result_def
proof
  assume full: "full_srcs h"
  obtain h1 pos where m: "mark_compute h p c = Some h1" and pos: "ggml_hash_find (g_visited g) p = Some pos"
    using body by (auto simp: bind_Some_iff)
  note m1 = mark_compute_marks [OF m]
  have full1: "full_srcs h1" by (rule full_srcs_frame [OF m1(1) full])
  have same: "srcs h1 p = srcs h p" by (simp add: heap_frame_fun [OF m1(1)])
  have len: "length (srcs h p) = GGML_MAX_SRC" using full m1(4) by (auto simp: full_srcs_def srcs_def)
  consider (hit) "hs_get (g_visited g) pos" c | (skip) "hs_get (g_visited g) pos" "\<not> c"
    | (miss) "\<not> hs_get (g_visited g) pos" by blast
  then show "visit_marks c h p (fst (snd r)) \<and> g_order (snd (snd r)) = g_order g"
  proof cases
    case hit
    then obtain h2 g2 where l: "for_each (propagate_by visit p) [0..<GGML_MAX_SRC] (h1, g) = Some (h2, g2)"
      "r = (pos, h2, g2)"
      using body m pos by (auto simp: bind_Some_iff split: if_splits)
    have "visit_marks True h p h2 \<and> g_order g2 = g_order g"
    proof (rule root_and_sources [OF _ l(1)])
      fix i ha ga hb gb
      assume "heap_frame h1 ha" "propagate_by visit p i (ha, ga) = Some (hb, gb)"
      then show "visit_marks True ha (srcs h p ! i) hb \<and> g_order gb = g_order ga"
        using propagate_by_marks [of visit h1 ha p i ga hb gb] IH full1 by (simp add: same)
    qed (use m hit(2) in simp, rule all_indices(2) [OF len])
    then show ?thesis using hit(2) l(2) by simp
  next
    case skip
    then have "r = (pos, h1, g)" using body m pos by (auto simp: bind_Some_iff split: if_splits)
    then show ?thesis using m1 skip(2) by (auto simp: visit_marks_def)
  next
    case miss
    then obtain h2 g2 h3 g3 where l: "for_each (visit_src_by visit p c) [0..<GGML_MAX_SRC] (h1, enter_visited g pos p) = Some (h2, g2)"
      and a: "add_visited h2 g2 p = Some (h3, g3)" "r = (pos, h3, g3)"
      using body m pos by (auto simp: bind_Some_iff split: if_splits)
    have v: "visit_marks c h p h2 \<and> g_order g2 = g_order (enter_visited g pos p)"
    proof (rule root_and_sources [OF m l])
      fix i ha ga hb gb
      assume "heap_frame h1 ha" "g_order ga = g_order (enter_visited g pos p)"
        "visit_src_by visit p c i (ha, ga) = Some (hb, gb)"
      then show "visit_marks c ha (srcs h p ! eval_order_index (g_order g) i) hb \<and> g_order gb = g_order ga"
        using visit_src_by_marks [of visit h1 ha p c i ga hb gb] IH full1 by (simp add: same)
    qed (rule all_indices(1) [OF len])
    note a1 = add_visited_marks [OF a(1)]
    have "visit_marks c h p h3"
      using v a1(2) heap_frame_trans [OF _ a1(1), of h] heap_frame_fun [OF a1(1)]
      by (auto simp: visit_marks_def marks_closed_def)
    then show ?thesis using v a(2) a1(3) by simp
  qed
qed

lemma visit_marks_all: "ggml_visit_parents_graph h g p c = Some r \<Longrightarrow> visit_result h g p c r"
  apply (erule ggml_visit_parents_graph.raw_induct [of visit_result h g p c r, rotated])
  subgoal premises body for visit h g p c r
    by (rule visit_body_marks [where visit = visit], erule body(1))
      (insert body(2), unfold propagate_by_def visit_src_by_def Let_def, assumption)
  done

section \<open>Building marks what is needed\<close>

text \<open>The operations in a heap whose marks are complete.\<close>

lemma marked_reachable:
  assumes inv: "heap_inv h" and cl: "marks_closed h {}" and p: "computed h p \<or> \<not> is_op h p" and q: "q \<in> reach h p"
  shows "q \<in> reach h p \<and> (is_op h q \<longrightarrow> computed h q)"
  using q
proof (induction rule: reach.induct)
  case reach_self
  then show ?case using p by (auto intro: reach.reach_self)
next
  case (reach_src q s)
  have "is_op h q"
  proof (rule ccontr)
    assume "\<not> is_op h q"
    then have "set (srcs h q) \<subseteq> {NULL}"
      using inv by (auto simp: is_op_def srcs_def heap_inv_def tensors_wf_def node_wf_def split: option.splits)
    then show False using reach_src(2,3) by auto
  qed
  then have "computed h q" using reach_src by simp
  then have "is_op h s \<longrightarrow> computed h s" using cl reach_src(2,3) unfolding marks_closed_def by blast
  then show ?case using reach.reach_src [of q h p s] reach_src by simp
qed

lemma build_forward_marks:
  assumes inv: "heap_inv h" and r: "ggml_build_forward_impl h cg p True c = Some h'"
  shows "srcs h' = srcs h \<and> is_op h' = is_op h \<and>
    (\<forall>q. computed h q \<longrightarrow> computed h' q) \<and>
    (\<forall>q. computed h' q \<longrightarrow> computed h q \<or> (c \<and> q \<in> ops_of h p)) \<and>
    (c \<longrightarrow> is_op h p \<longrightarrow> computed h' p) \<and> (c \<longrightarrow> marks_closed h {} \<longrightarrow> marks_closed h' {})"
proof -
  obtain g pos h1 g1 where v: "ggml_visit_parents_graph h g p c = Some (pos, h1, g1)" "h' = gset h1 cg g1"
    using r by (auto simp: ggml_build_forward_impl_def Let_def bind_Some_iff split: if_splits)
  have "p \<noteq> NULL" using v(1) by (auto simp: visit_unfold [of h] mark_compute_def bind_Some_iff)
  have "full_srcs h" using inv by (auto simp: full_srcs_def heap_inv_def tensors_wf_def node_wf_def tensor_shape_ok_def)
  then have m: "visit_marks c h p h1" using visit_marks_all [OF v(1)] by (simp add: visit_result_def)
  have c: "computed h' = computed h1" "srcs h' = srcs h1" "is_op h' = is_op h1"
    by (simp_all add: v(2) computed_def srcs_def is_op_def gset_def fun_eq_iff)
  have f: "heap_frame h h1" and new: "\<forall>q. computed h1 q \<longrightarrow> computed h q \<or> (c \<and> p \<noteq> NULL \<and> q \<in> ops_of h p)"
    and own: "c \<longrightarrow> p \<noteq> NULL \<longrightarrow> is_op h p \<longrightarrow> computed h1 p"
    and cl: "c \<longrightarrow> (\<forall>S. marks_closed h S \<longrightarrow> marks_closed h1 S)"
    using m unfolding visit_marks_def by blast+
  have "marks_closed h' S = marks_closed h1 S" for S by (simp only: marks_closed_def c)
  then show ?thesis
    unfolding c using heap_frame_fun [OF f] heap_frame_computed [OF f] new own cl \<open>p \<noteq> NULL\<close> by blast
qed

end
