(* ===== verification/PoolLife.thy ===== *)
theory PoolLife
  imports ContextPool
begin

text \<open>
  The life of memory pools (ggml_init, ggml_reset, ggml_free of ggml.c) and the walks over the tensors of
  a context.  The invariant of ContextPool survives each of them, and the walks meet the tensors of a
  pool in the order of their allocation.
\<close>

section \<open>Objects do not overlap\<close>

lemma obj_chain_ordered:
  "obj_chain objs base off ps fin \<Longrightarrow>
     sorted_wrt (\<lambda>q q'. \<forall>ob. objs q = Some ob \<longrightarrow> base + o_offs ob + o_size ob \<le> q') ps"
proof (induction ps arbitrary: off)
  case (Cons p ps)
  from Cons.prems obtain ob where ob: "objs p = Some ob" "obj_chain objs base (o_offs ob + o_size ob) ps fin"
    by (auto split: option.splits)
  then show ?case using obj_chain_bounds [OF ob(2)] Cons.IH [OF ob(2)] by auto
qed simp

lemma sorted_wrt_related:
  "sorted_wrt R xs \<Longrightarrow> x \<in> set xs \<Longrightarrow> y \<in> set xs \<Longrightarrow> x \<noteq> y \<Longrightarrow> R x y \<or> R y x"
  by (induction xs) auto

lemma tensor_payload:
  assumes "pool_with h c ps fin" "in_pool c p" "h_tensors h p \<noteq> None"
  obtains q ob where "q \<in> set ps" "h_objs h q = Some ob" "p = q + 32" "p = c_mem_buffer c + o_offs ob"
    "GGML_TENSOR_SIZE \<le> o_size ob" "p + o_size ob \<le> c_mem_buffer c + c_mem_size c"
    "o_type ob = GGML_OBJECT_TYPE_TENSOR"
proof -
  have k: "ctx_ok (h_objs h) c ps fin" using assms(1) by (simp add: pool_with_def)
  then have ch: "obj_chain (h_objs h) (c_mem_buffer c) 0 ps fin" and f: "fin \<le> c_mem_size c"
    by (simp_all add: ctx_ok_def)
  obtain q where q: "q \<in> set ps" "obj_payload h c q GGML_OBJECT_TYPE_TENSOR p"
    using assms unfolding pool_with_def by blast
  then obtain ob where ob: "h_objs h q = Some ob" "o_type ob = GGML_OBJECT_TYPE_TENSOR" "p = c_mem_buffer c + o_offs ob"
    by (auto simp: obj_payload_def split: option.splits)
  from obj_chain_payload [OF ch q(1) ob(1)] ob f q(1) show thesis by (intro that [of q ob]) auto
qed

lemma pool_of:
  assumes "heap_inv h" "h_tensors h p \<noteq> None"
  obtains a c ps fin where "h_ctxs h a = Some c" "in_pool c p" "pool_with h c ps fin"
  using assms unfolding heap_inv_def pools_ok_def by metis

lemma tensors_apart:
  assumes inv: "heap_inv h" and p: "h_tensors h p \<noteq> None" and q: "h_tensors h q \<noteq> None" and "p \<noteq> q"
  shows "p + GGML_TENSOR_SIZE \<le> q \<or> q + GGML_TENSOR_SIZE \<le> p"
proof -
  obtain a c ps fin where c: "h_ctxs h a = Some c" "in_pool c p" "pool_with h c ps fin"
    by (rule pool_of [OF inv p])
  obtain b d qs gin where d: "h_ctxs h b = Some d" "in_pool d q" "pool_with h d qs gin"
    by (rule pool_of [OF inv q])
  obtain x ox where x: "x \<in> set ps" "h_objs h x = Some ox" "p = x + 32" "p = c_mem_buffer c + o_offs ox"
    "GGML_TENSOR_SIZE \<le> o_size ox" "p + o_size ox \<le> c_mem_buffer c + c_mem_size c"
    by (rule tensor_payload [OF c(3,2) p])
  obtain y oy where y: "y \<in> set qs" "h_objs h y = Some oy" "q = y + 32" "q = c_mem_buffer d + o_offs oy"
    "GGML_TENSOR_SIZE \<le> o_size oy" "q + o_size oy \<le> c_mem_buffer d + c_mem_size d"
    by (rule tensor_payload [OF d(3,2) q])
  show ?thesis
  proof (cases "a = b")
    case False
    then have "c_mem_buffer c + c_mem_size c \<le> c_mem_buffer d \<or> c_mem_buffer d + c_mem_size d \<le> c_mem_buffer c"
      using inv c(1) d(1) unfolding heap_inv_def pools_ok_def pools_disjoint_def by blast
    then show ?thesis using x y c(2) d(2) by (auto simp: in_pool_def)
  next
    case True
    then have cd: "c = d" using c d by simp
    have "in_pool c y" using pool_with_in_pool(1) [OF d(3) y(1)] cd by simp
    then have "y \<in> set ps" using c(3) y(2) unfolding pool_with_def by blast
    moreover have "obj_chain (h_objs h) (c_mem_buffer c) 0 ps fin"
      using c(3) by (simp add: pool_with_def ctx_ok_def)
    ultimately have "(\<forall>ob. h_objs h x = Some ob \<longrightarrow> c_mem_buffer c + o_offs ob + o_size ob \<le> y) \<or>
        (\<forall>ob. h_objs h y = Some ob \<longrightarrow> c_mem_buffer c + o_offs ob + o_size ob \<le> x)"
      using sorted_wrt_related [OF obj_chain_ordered x(1)] x(3) y(3) \<open>p \<noteq> q\<close> by auto
    then show ?thesis using x y cd by auto
  qed
qed

section \<open>Opening and closing pools\<close>

definition empty_heap :: heap where
  "empty_heap = \<lparr> h_ctxs = (\<lambda>_. None), h_objs = (\<lambda>_. None), h_tensors = (\<lambda>_. None), h_graphs = (\<lambda>_. None) \<rparr>"

lemma empty_heap_inv: "heap_inv empty_heap" "acyclic_heap empty_heap"
  by (simp_all add: empty_heap_def heap_inv_def pools_ok_def pools_disjoint_def tensors_wf_def
      acyclic_heap_def graph_rank_def)

text \<open>The memory a call of ggml_init takes over: addresses that no pool and no context uses.\<close>

definition init_size :: "ggml_init_params \<Rightarrow> int" where
  "init_size params =
     (let req = (if ip_mem_size params = 0 then GGML_MEM_ALIGN else ip_mem_size params)
      in if ip_mem_buffer params \<noteq> NULL then req else GGML_PAD req GGML_MEM_ALIGN)"

definition init_buffer :: "ggml_init_params \<Rightarrow> ptr \<Rightarrow> ptr" where
  "init_buffer params buf_addr = (if ip_mem_buffer params \<noteq> NULL then ip_mem_buffer params else buf_addr)"

definition fresh_memory :: "heap \<Rightarrow> ptr \<Rightarrow> int \<Rightarrow> bool" where
  "fresh_memory h buf sz \<longleftrightarrow> 0 < buf \<and> 0 \<le> sz \<and> buf + sz < 2 ^ 64 \<and>
     (\<forall>a c. h_ctxs h a = Some c \<longrightarrow>
        c_mem_buffer c + c_mem_size c \<le> buf \<or> buf + sz \<le> c_mem_buffer c)"

lemma init_ok:
  assumes inv: "heap_inv h" and new: "h_ctxs h ctx_addr = None"
    and fr: "fresh_memory h (init_buffer params buf_addr) (init_size params)"
    and res: "ggml_init h params ctx_addr buf_addr = Some (ctx, h')"
  shows "heap_inv h' \<and> ctx = ctx_addr \<and> h_tensors h' = h_tensors h \<and> h_graphs h' = h_graphs h \<and>
    (acyclic_heap h \<longrightarrow> acyclic_heap h')"
proof -
  let ?c = "\<lparr> c_mem_size = init_size params, c_mem_buffer = init_buffer params buf_addr,
    c_mem_buffer_owned = (if ip_mem_buffer params \<noteq> NULL then False else True),
    c_no_alloc = ip_no_alloc params, c_n_objects = 0, c_objects_begin = NULL, c_objects_end = NULL \<rparr>"
  have r: "ctx = ctx_addr" "ctx_addr \<noteq> NULL" "h' = h\<lparr> h_ctxs := (h_ctxs h)(ctx_addr \<mapsto> ?c) \<rparr>"
    "init_buffer params buf_addr mod 16 = 0"
    using res by (auto simp: ggml_init_def Let_def init_size_def init_buffer_def GGML_MEM_ALIGN_def split: if_splits)
  have apart: "c_mem_buffer c + c_mem_size c \<le> c_mem_buffer ?c \<or> c_mem_buffer ?c + c_mem_size ?c \<le> c_mem_buffer c"
    if "h_ctxs h a = Some c" for a c
    using fr that unfolding fresh_memory_def by simp
  have ok: "pools_ok h" using inv by (simp add: heap_inv_def)
  have same: "pool_with h' c ps fin = pool_with h c ps fin" for c ps fin
    by (simp add: r(3) pool_with_def obj_payload_def)
  have none: "h_objs h p = None \<and> h_tensors h p = None \<and> h_graphs h p = None" if p: "in_pool ?c p" for p
  proof (rule ccontr)
    assume "\<not> ?thesis"
    then obtain a c where c: "h_ctxs h a = Some c" "in_pool c p" using ok unfolding pools_ok_def by blast
    from apart [OF c(1)] c(2) p show False by (auto simp: in_pool_def)
  qed
  have new_pool: "pool_with h' ?c [] 0"
    unfolding same using none fr r(4) by (simp add: pool_with_def ctx_ok_def fresh_memory_def)
  have "pools_ok h'"
    unfolding pools_ok_def
  proof (intro conjI allI impI)
    fix a c assume a: "h_ctxs h' a = Some c"
    show "a \<noteq> NULL" using a r(2,3) ok by (auto simp: pools_ok_def split: if_splits)
    show "\<exists>ps fin. pool_with h' c ps fin"
    proof (cases "a = ctx_addr")
      case True
      then show ?thesis using a r(3) new_pool by auto
    next
      case False
      then show ?thesis using a r(3) ok unfolding pools_ok_def same by auto
    qed
  next
    show "pools_disjoint h'"
      using ok apart unfolding pools_disjoint_def pools_ok_def r(3) by (auto split: if_splits)
    fix p assume "h_objs h' p \<noteq> None \<or> h_tensors h' p \<noteq> None \<or> h_graphs h' p \<noteq> None"
    then obtain a c where c: "h_ctxs h a = Some c" "in_pool c p" using ok unfolding pools_ok_def r(3) by auto
    then have "h_ctxs h' a = Some c" using new r(3) by auto
    then show "\<exists>a c. h_ctxs h' a = Some c \<and> in_pool c p" using c(2) by blast
  qed
  moreover have "tensors_wf h'" using inv by (simp add: r(3) heap_inv_def tensors_wf_def node_wf_def live_def)
  moreover have "acyclic_heap h' = acyclic_heap h" by (simp add: acyclic_heap_def graph_rank_def r(3))
  ultimately show ?thesis using r by (simp add: heap_inv_def)
qed

text \<open>Nothing outside the pool refers into it.\<close>

definition self_contained :: "heap \<Rightarrow> ggml_context \<Rightarrow> bool" where
  "self_contained h c \<longleftrightarrow> (\<forall>p t. h_tensors h p = Some t \<and> \<not> in_pool c p \<longrightarrow>
     (\<forall>s \<in> set (t_src t). s = NULL \<or> \<not> in_pool c s) \<and> (t_view_src t = NULL \<or> \<not> in_pool c (t_view_src t)))"

lemma drop_pool_other:
  assumes ok: "pools_ok h" and c: "h_ctxs h ctx = Some c" and d: "h_ctxs h a = Some d" "a \<noteq> ctx"
    and pw: "pool_with h d ps fin" and h': "h_objs h' = h_objs (drop_pool h c)"
      "h_tensors h' = h_tensors (drop_pool h c)" "h_graphs h' = h_graphs (drop_pool h c)"
  shows "pool_with h' d ps fin"
proof (rule pool_with_cong [OF pw])
  fix p assume p: "in_pool d p"
  have "\<not> in_pool c p" using pools_disjoint_in_pool [OF _ d(1) c d(2) p] ok by (simp add: pools_ok_def)
  then show "h_objs h' p = h_objs h p \<and> h_tensors h' p = h_tensors h p \<and> h_graphs h' p = h_graphs h p"
    by (simp add: h' drop_pool_def)
qed

lemma drop_pool_wf:
  assumes inv: "heap_inv h" and sc: "self_contained h c" and t': "h_tensors h' = h_tensors (drop_pool h c)"
  shows "tensors_wf h'" "acyclic_heap h \<Longrightarrow> acyclic_heap h'"
proof -
  have sub: "h_tensors h' p = Some t \<Longrightarrow> h_tensors h p = Some t \<and> \<not> in_pool c p" for p t
    by (auto simp: t' drop_pool_def split: if_splits)
  have keep: "\<not> in_pool c p \<Longrightarrow> h_tensors h' p = h_tensors h p" for p by (simp add: t' drop_pool_def)
  show "tensors_wf h'"
    unfolding tensors_wf_def
  proof (intro allI impI)
    fix p t assume "h_tensors h' p = Some t"
    note p = sub [OF this]
    have wf: "node_wf h p t" using inv p by (simp add: heap_inv_def tensors_wf_def)
    have out: "\<forall>s \<in> set (t_src t). s = NULL \<or> \<not> in_pool c s" "t_view_src t = NULL \<or> \<not> in_pool c (t_view_src t)"
      using sc p unfolding self_contained_def by blast+
    show "node_wf h' p t"
      unfolding node_wf_def
    proof (intro conjI)
      show "\<forall>s \<in> set (t_src t). s = p \<or> live h' s"
      proof
        fix s assume "s \<in> set (t_src t)"
        then have "s = p \<or> live h s" "s = NULL \<or> \<not> in_pool c s" using wf out(1) by (auto simp: node_wf_def)
        then show "s = p \<or> live h' s" using keep by (auto simp: live_def)
      qed
      show "t_view_src t = NULL \<or> (\<exists>v. h_tensors h' (t_view_src t) = Some v \<and> t_view_src v = NULL)"
        using wf out(2) keep by (auto simp: node_wf_def)
    qed (use wf in \<open>simp_all add: node_wf_def\<close>)
  qed
  show "acyclic_heap h'" if "acyclic_heap h"
    using that sub unfolding acyclic_heap_def graph_rank_def by blast
qed

text \<open>
  After ggml_reset, and after ggml_free of a buffer the caller owns, the old structures are still in the memory of
  the pool.  The invariant holds of the store without them: \<open>h1\<close> is what the call leaves, \<open>h'\<close> what is still in use.
\<close>

lemma ggml_free_inv:
  assumes inv: "heap_inv h" and c: "h_ctxs h ctx = Some c" and sc: "self_contained h c"
    and res: "ggml_free h ctx = Some h1" and used: "h' = drop_pool h1 c"
  shows "heap_inv h'" "acyclic_heap h \<Longrightarrow> acyclic_heap h'"
    "h_tensors h' = (\<lambda>p. if in_pool c p then None else h_tensors h p)" "h_ctxs h' ctx = None"
proof -
  have ok: "pools_ok h" using inv by (simp add: heap_inv_def)
  then have "ctx \<noteq> NULL" using c by (auto simp: pools_ok_def)
  then have h1: "h1 = (if c_mem_buffer_owned c then drop_pool h c else h)\<lparr> h_ctxs := (h_ctxs h)(ctx := None) \<rparr>"
    using res c by (auto simp: ggml_free_def monad_simps Let_def drop_pool_def)
  then have f: "h_ctxs h' = (h_ctxs h)(ctx := None)" "h_objs h' = h_objs (drop_pool h c)"
    "h_tensors h' = h_tensors (drop_pool h c)" "h_graphs h' = h_graphs (drop_pool h c)"
    by (simp_all add: used h1 drop_pool_def fun_eq_iff)
  show "h_tensors h' = (\<lambda>p. if in_pool c p then None else h_tensors h p)" "h_ctxs h' ctx = None"
    by (simp_all add: f drop_pool_def fun_eq_iff)
  have "pools_ok h'"
    unfolding pools_ok_def
  proof (intro conjI allI impI)
    fix a d assume "h_ctxs h' a = Some d"
    then have a: "h_ctxs h a = Some d" "a \<noteq> ctx" by (auto simp: f split: if_splits)
    then show "a \<noteq> NULL" using ok by (auto simp: pools_ok_def)
    obtain ps fin where "pool_with h d ps fin" using ok a unfolding pools_ok_def by blast
    then show "\<exists>ps fin. pool_with h' d ps fin" using drop_pool_other [OF ok c a _ f(2-4)] by blast
  next
    show "pools_disjoint h'" using ok by (auto simp: pools_ok_def pools_disjoint_def f split: if_splits)
    fix p assume "h_objs h' p \<noteq> None \<or> h_tensors h' p \<noteq> None \<or> h_graphs h' p \<noteq> None"
    then have p: "h_objs h p \<noteq> None \<or> h_tensors h p \<noteq> None \<or> h_graphs h p \<noteq> None" "\<not> in_pool c p"
      by (auto simp: f drop_pool_def split: if_splits)
    then obtain a d where d: "h_ctxs h a = Some d" "in_pool d p" using ok unfolding pools_ok_def by blast
    then have "a \<noteq> ctx" using p(2) c by auto
    then show "\<exists>a d. h_ctxs h' a = Some d \<and> in_pool d p" using d f(1) by auto
  qed
  then show "heap_inv h'" using drop_pool_wf(1) [OF inv sc f(3)] by (simp add: heap_inv_def)
  show "acyclic_heap h \<Longrightarrow> acyclic_heap h'" by (rule drop_pool_wf(2) [OF inv sc f(3)])
qed

lemma ggml_reset_inv:
  assumes inv: "heap_inv h" and c: "h_ctxs h ctx = Some c" and sc: "self_contained h c"
    and res: "ggml_reset h ctx = Some h1" and used: "h' = drop_pool h1 c"
  shows "heap_inv h'" "acyclic_heap h \<Longrightarrow> acyclic_heap h'"
    "h_tensors h' = (\<lambda>p. if in_pool c p then None else h_tensors h p)" "ggml_used_mem h' ctx = Some 0"
proof -
  have ok: "pools_ok h" using inv by (simp add: heap_inv_def)
  then have nn: "ctx \<noteq> NULL" using c by (auto simp: pools_ok_def)
  let ?c = "c\<lparr> c_n_objects := 0, c_objects_begin := NULL, c_objects_end := NULL \<rparr>"
  have h1: "h1 = h\<lparr> h_ctxs := (h_ctxs h)(ctx \<mapsto> ?c) \<rparr>"
    using res c nn by (auto simp: ggml_reset_def monad_simps Let_def)
  then have f: "h_ctxs h' = (h_ctxs h)(ctx \<mapsto> ?c)" "h_objs h' = h_objs (drop_pool h c)"
    "h_tensors h' = h_tensors (drop_pool h c)" "h_graphs h' = h_graphs (drop_pool h c)"
    by (simp_all add: used h1 drop_pool_def fun_eq_iff)
  have ip: "in_pool ?c = in_pool c" by (simp add: in_pool_def fun_eq_iff)
  show "h_tensors h' = (\<lambda>p. if in_pool c p then None else h_tensors h p)"
    by (simp add: f drop_pool_def fun_eq_iff)
  show "ggml_used_mem h' ctx = Some 0" using nn by (simp add: ggml_used_mem_def cget_def f)
  obtain ps fin where pw: "pool_with h c ps fin" using ok c unfolding pools_ok_def by blast
  then have k: "ctx_ok (h_objs h) c ps fin" by (simp add: pool_with_def)
  have empty: "pool_with h' ?c [] 0"
    using k unfolding pool_with_def ip ctx_ok_def by (simp add: f drop_pool_def)
  have "pools_ok h'"
    unfolding pools_ok_def
  proof (intro conjI allI impI)
    fix a d assume ad: "h_ctxs h' a = Some d"
    show "a \<noteq> NULL" using ad nn ok by (auto simp: f pools_ok_def split: if_splits)
    show "\<exists>ps fin. pool_with h' d ps fin"
    proof (cases "a = ctx")
      case True
      then show ?thesis using ad empty f(1) by auto
    next
      case False
      then have a: "h_ctxs h a = Some d" using ad f(1) by simp
      obtain ps fin where "pool_with h d ps fin" using ok a unfolding pools_ok_def by blast
      then show ?thesis using drop_pool_other [OF ok c a False _ f(2-4)] by blast
    qed
  next
    have fr: "map_option ctx_frame (h_ctxs h' a) = map_option ctx_frame (h_ctxs h a)" for a
      using c by (simp add: f ctx_frame_def)
    have "pools_disjoint h" using ok by (simp add: pools_ok_def)
    then show "pools_disjoint h'" by (rule pools_disjoint_cong [OF _ fr])
    fix p assume "h_objs h' p \<noteq> None \<or> h_tensors h' p \<noteq> None \<or> h_graphs h' p \<noteq> None"
    then have p: "h_objs h p \<noteq> None \<or> h_tensors h p \<noteq> None \<or> h_graphs h p \<noteq> None" "\<not> in_pool c p"
      by (auto simp: f drop_pool_def split: if_splits)
    then obtain a d where d: "h_ctxs h a = Some d" "in_pool d p" using ok unfolding pools_ok_def by blast
    then have "a \<noteq> ctx" using p(2) c by auto
    then have "h_ctxs h' a = Some d" using d(1) f(1) by simp
    then show "\<exists>a d. h_ctxs h' a = Some d \<and> in_pool d p" using d(2) by blast
  qed
  then show "heap_inv h'" using drop_pool_wf(1) [OF inv sc f(3)] by (simp add: heap_inv_def)
  show "acyclic_heap h \<Longrightarrow> acyclic_heap h'" by (rule drop_pool_wf(2) [OF inv sc f(3)])
qed

section \<open>Walks\<close>

text \<open>The tensors of the objects of a list, and the first of them.\<close>

definition tensor_objs :: "heap \<Rightarrow> ptr list \<Rightarrow> ptr list" where
  "tensor_objs h ps = map (\<lambda>q. q + 32)
     (filter (\<lambda>q. case h_objs h q of None \<Rightarrow> False | Some ob \<Rightarrow> o_type ob = GGML_OBJECT_TYPE_TENSOR) ps)"

definition first_or_null :: "ptr list \<Rightarrow> ptr" where
  "first_or_null ps = (case ps of [] \<Rightarrow> NULL | p # _ \<Rightarrow> p)"

lemma obj_chain_cons:
  assumes "obj_chain objs base off (q # qs) fin"
  obtains ob where "objs q = Some ob" "q = base + off" "o_offs ob = off + 32" "0 \<le> o_size ob"
    "o_next ob = first_or_null qs" "obj_chain objs base (off + 32 + o_size ob) qs fin"
    "off + 32 + o_size ob \<le> fin"
proof -
  from assms obtain ob where ob: "objs q = Some ob" "q = base + off" "o_offs ob = off + 32" "0 \<le> o_size ob"
    "o_next ob = (if qs = [] then NULL else hd qs)" "obj_chain objs base (off + 32 + o_size ob) qs fin"
    by (auto simp: GGML_OBJECT_SIZE_def split: option.splits)
  moreover have "off + 32 + o_size ob \<le> fin" using obj_chain_bounds [OF ob(6)] by simp
  ultimately show thesis by (intro that [of ob]) (simp_all add: first_or_null_def split: list.split)
qed

lemma tensor_at_or_after_chain:
  assumes "obj_chain (h_objs h) base off ps fin" "0 < base" "0 \<le> off" "base + fin < 2 ^ 64"
  shows "tensor_at_or_after h base (first_or_null ps) = Some (first_or_null (tensor_objs h ps))"
  using assms(1,3)
proof (induction ps arbitrary: off)
  case Nil
  then show ?case by (simp add: tensor_at_or_after.simps first_or_null_def tensor_objs_def)
next
  case (Cons q qs)
  obtain ob where ob: "h_objs h q = Some ob" "q = base + off" "o_offs ob = off + 32" "0 \<le> o_size ob"
    "o_next ob = first_or_null qs" "obj_chain (h_objs h) base (off + 32 + o_size ob) qs fin"
    "off + 32 + o_size ob \<le> fin"
    by (rule obj_chain_cons [OF Cons.prems(1)])
  have "u64 (base + o_offs ob) = q + 32" using ob assms(2,4) Cons.prems(2) by (subst u64_id) auto
  moreover have "oget h q = Some ob" using ob(1,2) assms(2) Cons.prems(2) by simp
  moreover have "q \<noteq> NULL" using ob(2) assms(2) Cons.prems(2) by simp
  ultimately show ?case
    using Cons.IH [OF ob(6)] ob(1,4,5) Cons.prems(2)
    by (subst tensor_at_or_after.simps)
      (simp add: first_or_null_def [of "_ # _"] tensor_objs_def del: oget_Some)
qed

lemma obj_chain_suffix:
  "obj_chain objs base off (xs @ ps) fin \<Longrightarrow> 0 \<le> off \<Longrightarrow> \<exists>off'. 0 \<le> off' \<and> obj_chain objs base off' ps fin"
proof (induction xs arbitrary: off)
  case (Cons x xs)
  obtain ob :: ggml_object where ob: "0 \<le> o_size ob" "obj_chain objs base (off + 32 + o_size ob) (xs @ ps) fin"
    by (rule obj_chain_cons [OF Cons.prems(1) [unfolded append_Cons]]) blast
  then show ?case using Cons.IH [OF ob(2)] Cons.prems(2) by simp
qed auto

lemma ctx_okD:
  assumes "pool_with h c ps fin"
  shows "obj_chain (h_objs h) (c_mem_buffer c) 0 ps fin" "0 < c_mem_buffer c" "c_mem_buffer c + fin < 2 ^ 64"
    "c_objects_begin c = first_or_null ps"
  using assms by (cases ps; auto simp: pool_with_def ctx_ok_def first_or_null_def)+

lemma get_first_tensor:
  assumes "cget h ctx = Some c" "pool_with h c ps fin"
  shows "ggml_get_first_tensor h ctx = Some (first_or_null (tensor_objs h ps))"
  using tensor_at_or_after_chain [OF ctx_okD(1,2) [OF assms(2)] _ ctx_okD(3) [OF assms(2)]]
    ctx_okD(4) [OF assms(2)] assms(1) by (simp add: ggml_get_first_tensor_def del: cget_Some)

lemma get_next_tensor:
  assumes c: "cget h ctx = Some c" and pw: "pool_with h c (xs @ q # qs) fin"
  shows "ggml_get_next_tensor h ctx (q + 32) = Some (first_or_null (tensor_objs h qs))"
proof -
  note k = ctx_okD [OF pw]
  obtain off where off: "0 \<le> off" "obj_chain (h_objs h) (c_mem_buffer c) off (q # qs) fin"
    using obj_chain_suffix [OF k(1)] by auto
  obtain ob where ob: "h_objs h q = Some ob" "q = c_mem_buffer c + off" "0 \<le> o_size ob"
    "o_next ob = first_or_null qs" "obj_chain (h_objs h) (c_mem_buffer c) (off + 32 + o_size ob) qs fin"
    "off + 32 + o_size ob \<le> fin"
    using obj_chain_cons [OF off(2)] by metis
  have "u64 (q + 32 - GGML_OBJECT_SIZE) = q" using ob k off by (subst u64_id) (auto simp: GGML_OBJECT_SIZE_def)
  moreover have "oget h q = Some ob" using ob(1,2) k(2) off(1) by simp
  ultimately show ?thesis
    using tensor_at_or_after_chain [OF ob(5) k(2) _ k(3)] ob(3,4) off(1) c
    by (simp add: ggml_get_next_tensor_def del: cget_Some oget_Some)
qed

text \<open>Following ggml_get_next_tensor from \<open>p\<close> meets the tensors of the list and ends.\<close>

fun walk_list :: "heap \<Rightarrow> ptr \<Rightarrow> ptr \<Rightarrow> ptr list \<Rightarrow> bool" where
  "walk_list h ctx p [] \<longleftrightarrow> p = NULL"
| "walk_list h ctx p (x # xs) \<longleftrightarrow> p = x \<and> x \<noteq> NULL \<and>
     (case ggml_get_next_tensor h ctx x of None \<Rightarrow> False | Some n \<Rightarrow> walk_list h ctx n xs)"

lemma walk_tensor_objs:
  assumes c: "cget h ctx = Some c" and pw: "pool_with h c (xs @ ps) fin"
  shows "walk_list h ctx (first_or_null (tensor_objs h ps)) (tensor_objs h ps)"
  using pw
proof (induction ps arbitrary: xs)
  case Nil
  then show ?case by (simp add: tensor_objs_def first_or_null_def)
next
  case (Cons q qs)
  have IH: "walk_list h ctx (first_or_null (tensor_objs h qs)) (tensor_objs h qs)"
    using Cons.IH [of "xs @ [q]"] Cons.prems by simp
  have "q \<in> set (xs @ q # qs)" by simp
  then have "0 < q" using obj_chain_bounds [OF ctx_okD(1) [OF Cons.prems]] ctx_okD(2) [OF Cons.prems] by force
  then show ?case
    using IH get_next_tensor [OF c Cons.prems] by (auto simp: tensor_objs_def first_or_null_def)
qed

lemma tensor_objs_set:
  assumes "pool_with h c ps fin"
  shows "set (tensor_objs h ps) = {p. in_pool c p \<and> h_tensors h p \<noteq> None}"
proof -
  have "p \<in> set (tensor_objs h ps)" if "in_pool c p" "h_tensors h p \<noteq> None" for p
    by (rule tensor_payload [OF assms that]) (auto simp: tensor_objs_def)
  moreover have "in_pool c p \<and> h_tensors h p \<noteq> None" if p: "p \<in> set (tensor_objs h ps)" for p
  proof -
    from p obtain q ob where q: "q \<in> set ps" "h_objs h q = Some ob" "o_type ob = GGML_OBJECT_TYPE_TENSOR" "p = q + 32"
      by (auto simp: tensor_objs_def split: option.splits)
    have "o_offs ob = q - c_mem_buffer c + 32" using obj_chain_payload [OF ctx_okD(1) [OF assms] q(1,2)] by simp
    then have "obj_payload h c q GGML_OBJECT_TYPE_TENSOR p" using q by (simp add: obj_payload_def)
    then show ?thesis using pool_with_in_pool(2) [OF assms q(1)] q(1) assms unfolding pool_with_def by blast
  qed
  ultimately show ?thesis by blast
qed

lemma tensor_objs_sorted:
  assumes "obj_chain (h_objs h) base off ps fin"
  shows "sorted_wrt (<) (tensor_objs h ps)"
proof -
  have "sorted_wrt (<) ps" using assms
  proof (induction ps arbitrary: off)
    case (Cons p ps)
    from Cons.prems obtain ob :: ggml_object where ob: "o_offs ob = off + 32" "p = base + off" "0 \<le> o_size ob"
      "obj_chain (h_objs h) base (o_offs ob + o_size ob) ps fin"
      by (auto simp: GGML_OBJECT_SIZE_def split: option.splits)
    have "p < x" if "x \<in> set ps" for x
      using obj_chain_bounds [OF ob(4)] that ob(1-3) by (smt (verit) add.assoc)
    then show ?case using Cons.IH [OF ob(4)] by simp
  qed simp
  then show ?thesis unfolding tensor_objs_def sorted_wrt_map
    by (intro sorted_wrt_mono_rel [OF _ sorted_wrt_filter]) auto
qed

text \<open>The first tensor of a list with a given name.\<close>

definition named :: "heap \<Rightarrow> string \<Rightarrow> ptr \<Rightarrow> bool" where
  "named h name p \<longleftrightarrow> (case h_tensors h p of None \<Rightarrow> False | Some t \<Rightarrow> t_name t = name)"

lemma named_at_or_after_chain:
  assumes "obj_chain (h_objs h) base off ps fin" "0 < base" "0 \<le> off" "base + fin < 2 ^ 64"
    and "\<forall>p \<in> set (tensor_objs h ps). h_tensors h p \<noteq> None"
  shows "named_at_or_after h base name (first_or_null ps) =
    Some (first_or_null (filter (named h name) (tensor_objs h ps)))"
  using assms(1,3,5)
proof (induction ps arbitrary: off)
  case Nil
  then show ?case by (simp add: named_at_or_after.simps first_or_null_def tensor_objs_def)
next
  case (Cons q qs)
  obtain ob where ob: "h_objs h q = Some ob" "q = base + off" "o_offs ob = off + 32" "0 \<le> o_size ob"
    "o_next ob = first_or_null qs" "obj_chain (h_objs h) base (off + 32 + o_size ob) qs fin"
    "off + 32 + o_size ob \<le> fin"
    by (rule obj_chain_cons [OF Cons.prems(1)])
  have u: "u64 (base + o_offs ob) = q + 32" using ob assms(2,4) Cons.prems(2) by (subst u64_id) auto
  have g: "oget h q = Some ob" and nn: "0 < q" using ob(1,2) assms(2) Cons.prems(2) by simp_all
  have IH: "named_at_or_after h base name (first_or_null qs) =
      Some (first_or_null (filter (named h name) (tensor_objs h qs)))"
    using Cons.prems(2,3) ob(4) by (intro Cons.IH [OF ob(6)]) (auto simp: tensor_objs_def)
  show ?case
  proof (cases "o_type ob = GGML_OBJECT_TYPE_TENSOR")
    case True
    then have "h_tensors h (q + 32) \<noteq> None" using Cons.prems(3) ob(1) by (simp add: tensor_objs_def)
    then obtain t where "h_tensors h (q + 32) = Some t" by blast
    then have t: "tget h (q + 32) = Some t" "named h name (q + 32) \<longleftrightarrow> t_name t = name"
      using nn by (simp_all add: named_def)
    show ?thesis
      using u g nn IH True ob(1,5) t
      by (subst named_at_or_after.simps)
        (simp add: first_or_null_def [of "_ # _"] tensor_objs_def del: oget_Some tget_Some)
  next
    case False
    then show ?thesis
      using u g nn IH ob(1,5)
      by (subst named_at_or_after.simps)
        (simp add: first_or_null_def [of "_ # _"] tensor_objs_def del: oget_Some tget_Some)
  qed
qed

lemma get_tensor_by_name:
  assumes "cget h ctx = Some c" "pool_with h c ps fin"
  shows "ggml_get_tensor h ctx name = Some (first_or_null (filter (named h name) (tensor_objs h ps)))"
  using named_at_or_after_chain [OF ctx_okD(1,2) [OF assms(2)] _ ctx_okD(3) [OF assms(2)]]
    ctx_okD(4) [OF assms(2)] assms(1) tensor_objs_set [OF assms(2)]
  by (simp add: ggml_get_tensor_def del: cget_Some)

text \<open>The largest tensor.\<close>

lemma max_size_walk:
  assumes "walk_list h ctx p L" "\<forall>x \<in> set L. h_tensors h x \<noteq> None"
  shows "max_size_loop h ctx p m = Some (foldl (\<lambda>m x. max m (ggml_nbytes (the (h_tensors h x)))) m L)"
  using assms
proof (induction L arbitrary: p m)
  case Nil
  then show ?case by (simp add: max_size_loop.simps)
next
  case (Cons x xs)
  obtain n where n: "ggml_get_next_tensor h ctx x = Some n" "walk_list h ctx n xs" "p = x" "x \<noteq> NULL"
    using Cons.prems(1) by (auto split: option.splits)
  obtain t where "h_tensors h x = Some t" using Cons.prems(2) by auto
  then have "tget h x = Some t" "the (h_tensors h x) = t" using n(4) by simp_all
  then show ?case
    using n Cons.IH [OF n(2)] Cons.prems(2) by (subst max_size_loop.simps) (simp del: tget_Some)
qed

lemma foldl_max: "foldl (\<lambda>m x. max m (f x)) m L = Max (insert m (f ` set L))"
  for m :: "'a :: linorder"
proof (induction L arbitrary: m)
  case (Cons x xs)
  have "insert m (f ` set (x # xs)) = insert m (insert (f x) (f ` set xs))" by simp
  then show ?case using Cons by (cases "f ` set xs = {}") (simp_all add: max.assoc)
qed simp

section \<open>An example\<close>

text \<open>A pool with two matrices, allocated by the model.\<close>

definition demo_params :: ggml_init_params where
  "demo_params = \<lparr> ip_mem_size = 8192, ip_mem_buffer = 0, ip_no_alloc = True \<rparr>"

definition demo_run :: "(ptr \<times> ptr \<times> heap) option" where
  "demo_run = do {
     (ctx, h) \<leftarrow> ggml_init empty_heap demo_params 64 65536;
     (a, h) \<leftarrow> ggml_new_tensor_2d h ctx GGML_TYPE_F32 4 3;
     (b, h) \<leftarrow> ggml_new_tensor_2d h ctx GGML_TYPE_F32 4 2;
     Some (a, b, h) }"

definition demo_matrix :: "int \<Rightarrow> int \<Rightarrow> ggml_tensor" where
  "demo_matrix cols rows =
     \<lparr> t_type = GGML_TYPE_F32, t_buffer = 0, t_ne = [cols, rows, 1, 1],
       t_nb = [4, 4 * cols, 4 * cols * rows, 4 * cols * rows], t_op = GGML_OP_NONE,
       t_op_params = replicate 16 0, t_flags = 0, t_src = replicate 10 0, t_view_src = 0, t_view_offs = 0,
       t_data = 0, t_name = [], t_extra = 0 \<rparr>"

definition demo_ctx :: "int \<Rightarrow> ptr \<Rightarrow> ptr \<Rightarrow> ggml_context" where
  "demo_ctx n b e =
     \<lparr> c_mem_size = 8192, c_mem_buffer = 65536, c_mem_buffer_owned = True, c_no_alloc = True,
       c_n_objects = n, c_objects_begin = b, c_objects_end = e \<rparr>"

definition demo_heap :: heap where
  "demo_heap = \<lparr> h_ctxs = [64 \<mapsto> demo_ctx 2 65536 65904],
     h_objs =
       [65904 \<mapsto> \<lparr> o_offs = 400, o_size = 336, o_next = 0, o_type = GGML_OBJECT_TYPE_TENSOR \<rparr>,
        65536 \<mapsto> \<lparr> o_offs = 32, o_size = 336, o_next = 65904, o_type = GGML_OBJECT_TYPE_TENSOR \<rparr>],
     h_tensors = [65568 \<mapsto> demo_matrix 4 3, 65936 \<mapsto> demo_matrix 4 2], h_graphs = \<lambda>_. None \<rparr>"

lemmas alloc_eval =
  ggml_new_tensor_2d_def ggml_new_tensor_def ggml_new_tensor_impl_def view_base_def place_tensor_def
  ggml_new_object_def Let_def cget_def oget_def tget_def GGML_TENSOR_SIZE_def GGML_OBJECT_SIZE_def
  GGML_MEM_ALIGN_def u64_def i32_def i64_def SIZE_MAX_def GGML_PAD_def pad_dims_def GGML_MAX_DIMS_def
  fresh_tensor_def fresh_strides_def GGML_MAX_SRC_def GGML_N_OP_PARAMS_def upt_rec

lemma demo_init: "ggml_init empty_heap demo_params 64 65536 =
    Some (64, empty_heap\<lparr> h_ctxs := [64 \<mapsto> demo_ctx 0 0 0] \<rparr>)"
proof -
  have "GGML_PAD 8192 16 = 8192" by (simp add: GGML_PAD_def u64_def)
  then show ?thesis
    by (simp add: ggml_init_def demo_params_def Let_def GGML_MEM_ALIGN_def demo_ctx_def)
      (simp add: empty_heap_def)
qed

lemma demo_run: "demo_run = Some (65568, 65936, demo_heap)"
  unfolding demo_run_def demo_init
  by (simp add: alloc_eval empty_heap_def demo_ctx_def demo_heap_def demo_matrix_def)

lemma demo_fresh: "h_ctxs empty_heap 64 = None"
  "fresh_memory empty_heap (init_buffer demo_params 65536) (init_size demo_params)"
proof -
  have "GGML_PAD 8192 16 = 8192" by (simp add: GGML_PAD_def u64_def)
  then show "fresh_memory empty_heap (init_buffer demo_params 65536) (init_size demo_params)"
    by (simp add: fresh_memory_def init_buffer_def init_size_def demo_params_def GGML_MEM_ALIGN_def empty_heap_def)
qed (simp add: empty_heap_def)

lemma demo_tensors:
  obtains a h1 b where
    "ggml_new_tensor_2d (empty_heap\<lparr> h_ctxs := [64 \<mapsto> demo_ctx 0 0 0] \<rparr>) 64 GGML_TYPE_F32 4 3 = Some (a, h1)"
    "ggml_new_tensor_2d h1 64 GGML_TYPE_F32 4 2 = Some (b, demo_heap)"
  using demo_run unfolding demo_run_def demo_init by (auto simp: bind_Some_iff)

lemma demo_heap_inv: "heap_inv demo_heap" "acyclic_heap demo_heap"
proof -
  let ?h0 = "empty_heap\<lparr> h_ctxs := [64 \<mapsto> demo_ctx 0 0 0] \<rparr>"
  from init_ok [OF empty_heap_inv(1) demo_fresh demo_init] empty_heap_inv(2)
  have h0: "heap_inv ?h0" "acyclic_heap ?h0" by simp_all
  obtain a h1 b where r: "ggml_new_tensor_2d ?h0 64 GGML_TYPE_F32 4 3 = Some (a, h1)"
    "ggml_new_tensor_2d h1 64 GGML_TYPE_F32 4 2 = Some (b, demo_heap)"
    by (rule demo_tensors)
  have e1: "extends ?h0 h1"
    using createsD [OF new_tensor_nd_any(2) [OF h0(1)] r(1)] new_node_extends [OF h0(1)] by blast
  have "extends h1 demo_heap"
    using createsD [OF new_tensor_nd_any(2) [OF extends_inv [OF e1]] r(2)]
      new_node_extends [OF extends_inv [OF e1]] by blast
  then show "heap_inv demo_heap" "acyclic_heap demo_heap"
    using e1 h0(2) by (auto simp: extends_def)
qed

section \<open>Properties\<close>

text \<open>C28: In a heap that satisfies the invariant of the pools, ggml_new_tensor either aborts or adds one tensor with the given type, its extents padded with
  ones, fresh strides, no sources and no name, at an address where nothing lived; every other tensor and
  every graph is left as it was, and the invariant of the pools is kept.\<close>

theorem new_tensor_adds_one:
  assumes "heap_inv h" "ggml_new_tensor h ctx ty n_dims ne = Some (r, h')"
  shows "heap_inv h' \<and> r \<noteq> NULL \<and> h_tensors h r = None \<and> h_graphs h' = h_graphs h \<and>
    (\<exists>data. h_tensors h' = (h_tensors h)(r \<mapsto> fresh_tensor ty (pad_dims n_dims ne) NULL 0 data)) \<and>
    (acyclic_heap h \<longrightarrow> acyclic_heap h')"
proof -
  obtain t where t: "new_node h r t h'" "node_wf h r t"
    "\<exists>data. t = fresh_tensor ty (pad_dims n_dims ne) NULL 0 data"
    using createsD [OF ggml_new_tensor_creates [OF assms(1)] assms(2)] by blast
  then show ?thesis using new_node_extends [OF assms(1) t(1,2)] by (auto simp: new_node_def extends_def)
qed

theorem new_tensor_adds_one_witness:
  "\<exists>h. ggml_new_tensor demo_heap 64 GGML_TYPE_F16 1 [8] = Some (66304, h) \<and> heap_inv h"
proof -
  have "\<exists>h. ggml_new_tensor demo_heap 64 GGML_TYPE_F16 1 [8] = Some (66304, h)"
    by (simp add: alloc_eval demo_heap_def demo_ctx_def)
  then show ?thesis using new_tensor_adds_one [OF demo_heap_inv(1)] by blast
qed

lemma new_object_decided:
  assumes c: "cget h ctx = Some c" and k: "ctx_ok (h_objs h) c ps fin" and sz: "0 \<le> sz" "sz \<le> SIZE_MAX - 15"
  shows "if fin + GGML_OBJECT_SIZE + GGML_PAD sz GGML_MEM_ALIGN \<le> c_mem_size c
    then \<exists>h'. ggml_new_object h ctx ty sz = Some (c_mem_buffer c + fin, h')
    else ggml_new_object h ctx ty sz = Some (NULL, h)"
proof -
  have chain: "obj_chain (h_objs h) (c_mem_buffer c) 0 ps fin" using k by (simp add: ctx_ok_def)
  note b = obj_chain_bounds [OF chain]
  have m: "0 < c_mem_buffer c" "fin \<le> c_mem_size c" "c_mem_buffer c + c_mem_size c < 18446744073709551616"
    "c_mem_buffer c mod 16 = 0" "0 \<le> fin" "fin mod 16 = 0"
    using k b by (simp_all add: ctx_ok_def)
  have pad: "0 \<le> GGML_PAD sz 16" "sz \<le> GGML_PAD sz 16"
    using GGML_PAD_16_bounds [of sz] sz by (simp_all add: SIZE_MAX_def)
  have u: "u64 fin = fin" "u64 (c_mem_buffer c + fin) = c_mem_buffer c + fin"
    using m by (auto intro!: u64_id)
  have al: "u64 (c_mem_buffer c + (fin + 32)) mod 16 = 0" if "fin + 32 + GGML_PAD sz 16 \<le> c_mem_size c"
  proof -
    have "u64 (c_mem_buffer c + (fin + 32)) = c_mem_buffer c + (fin + 32)"
      using m that pad by (intro u64_id) linarith+
    then show ?thesis using m(4,6) by presburger
  qed
  obtain offs sz0 where cur: "offs + sz0 = fin" "(if c_objects_end c = NULL then Some (0, 0)
      else do { ob \<leftarrow> oget h (c_objects_end c); Some (o_offs ob, o_size ob) }) = Some (offs, sz0)"
  proof (cases "ps = []")
    case True
    then show thesis using k chain that [of 0 0] by (simp add: ctx_ok_def)
  next
    case False
    then obtain ob :: ggml_object where ob: "h_objs h (last ps) = Some ob" "o_offs ob + o_size ob = fin" "0 < last ps"
      using obj_chain_last [OF chain] m(1) by force
    then have "oget h (last ps) \<bind> (\<lambda>ob. Some (o_offs ob, o_size ob)) = Some (o_offs ob, o_size ob)"
      by (simp add: oget_def)
    then show thesis using ob k False that [of "o_offs ob" "o_size ob"] by (simp add: ctx_ok_def)
  qed
  have last: "c_objects_end c \<noteq> NULL \<longrightarrow> h_objs h (c_objects_end c) \<noteq> None"
    using obj_chain_last [OF chain] k by (auto simp: ctx_ok_def)
  show ?thesis
    unfolding ggml_new_object_def Let_def
    using c cur last m pad sz u al
    by (auto simp: monad_simps GGML_OBJECT_SIZE_def GGML_MEM_ALIGN_def SIZE_MAX_def)
qed

text \<open>C29: A pool that is filled up to some offset serves a request exactly when the header and the padded
  payload still fit: then the object is placed at the end of the used part; otherwise ggml_new_object
  returns NULL and changes nothing.\<close>

theorem pool_exhausted:
  assumes "pool_with h c ps fin" "cget h ctx = Some c" "0 \<le> sz" "sz \<le> SIZE_MAX - 15"
  shows "if fin + GGML_OBJECT_SIZE + GGML_PAD sz GGML_MEM_ALIGN \<le> c_mem_size c
    then \<exists>h'. ggml_new_object h ctx ty sz = Some (c_mem_buffer c + fin, h')
    else ggml_new_object h ctx ty sz = Some (NULL, h)"
proof -
  have "ctx_ok (h_objs h) c ps fin" using assms(1) by (simp only: pool_with_def)
  then show ?thesis by (rule new_object_decided [OF assms(2) _ assms(3,4)])
qed

theorem pool_exhausted_witness:
  "\<exists>h'. ggml_new_object demo_heap 64 GGML_OBJECT_TYPE_WORK_BUFFER 100 = Some (66272, h')"
proof -
  obtain ps fin where pw: "pool_with demo_heap (demo_ctx 2 65536 65904) ps fin"
    using demo_heap_inv(1) unfolding heap_inv_def pools_ok_def by (fastforce simp: demo_heap_def)
  then have "obj_chain (h_objs demo_heap) 65536 0 ps fin"
    by (simp add: pool_with_def ctx_ok_def demo_ctx_def)
  moreover have "ps \<noteq> []" "last ps = 65904"
    using pw by (auto simp: pool_with_def ctx_ok_def demo_ctx_def split: if_splits)
  ultimately have fin: "fin = 736" using obj_chain_last by (fastforce simp: demo_heap_def)
  have "cget demo_heap 64 = Some (demo_ctx 2 65536 65904)" by (simp add: cget_def demo_heap_def)
  from pool_exhausted [OF pw this, of 100 GGML_OBJECT_TYPE_WORK_BUFFER] show ?thesis
    by (simp add: fin SIZE_MAX_def demo_ctx_def GGML_OBJECT_SIZE_def GGML_MEM_ALIGN_def GGML_PAD_16)
qed

text \<open>C30: In a heap that satisfies the invariant of the pools, walking a context with ggml_get_first_tensor and ggml_get_next_tensor ends and meets exactly
  the tensors of the pool, each once, in the order of their addresses.\<close>

theorem context_walk_complete:
  assumes "heap_inv h" "cget h ctx = Some c"
  shows "\<exists>L p. ggml_get_first_tensor h ctx = Some p \<and> walk_list h ctx p L \<and>
    set L = {q. in_pool c q \<and> h_tensors h q \<noteq> None} \<and> sorted_wrt (<) L"
proof -
  have "h_ctxs h ctx = Some c" using assms(2) by (simp add: cget_def split: if_splits)
  then obtain ps fin where pw: "pool_with h c ps fin" using assms(1) unfolding heap_inv_def pools_ok_def by blast
  have "walk_list h ctx (first_or_null (tensor_objs h ps)) (tensor_objs h ps)"
    by (rule walk_tensor_objs [OF assms(2), of "[]"]) (use pw in simp)
  moreover have "sorted_wrt (<) (tensor_objs h ps)"
    by (rule tensor_objs_sorted [OF ctx_okD(1) [OF pw]])
  ultimately show ?thesis
    using get_first_tensor [OF assms(2) pw] tensor_objs_set [OF pw] by blast
qed

theorem context_walk_complete_witness:
  "\<exists>L p. ggml_get_first_tensor demo_heap 64 = Some p \<and> walk_list demo_heap 64 p L \<and> 65936 \<in> set L"
proof -
  have "cget demo_heap 64 = Some (demo_ctx 2 65536 65904)" by (simp add: cget_def demo_heap_def)
  from context_walk_complete [OF demo_heap_inv(1) this] obtain L p where
    L: "ggml_get_first_tensor demo_heap 64 = Some p" "walk_list demo_heap 64 p L"
      "set L = {q. in_pool (demo_ctx 2 65536 65904) q \<and> h_tensors demo_heap q \<noteq> None}" by blast
  have "65936 \<in> set L" unfolding L(3) by (simp add: in_pool_def demo_ctx_def demo_heap_def)
  then show ?thesis using L by blast
qed

text \<open>ggml_get_tensor returns the first tensor of the context that carries the name, and NULL when
  there is none.\<close>

theorem get_tensor_finds_name:
  assumes "heap_inv h" "cget h ctx = Some c"
  shows "\<exists>r. ggml_get_tensor h ctx name = Some r \<and>
    (if r = NULL then \<forall>p t. in_pool c p \<and> h_tensors h p = Some t \<longrightarrow> t_name t \<noteq> name
     else in_pool c r \<and> named h name r \<and>
       (\<forall>p t. in_pool c p \<and> h_tensors h p = Some t \<and> t_name t = name \<longrightarrow> r \<le> p))"
proof -
  have "h_ctxs h ctx = Some c" using assms(2) by (simp add: cget_def split: if_splits)
  then obtain ps fin where pw: "pool_with h c ps fin" using assms(1) unfolding heap_inv_def pools_ok_def by blast
  let ?L = "filter (named h name) (tensor_objs h ps)"
  have s: "set ?L = {p. in_pool c p \<and> named h name p}"
    using tensor_objs_set [OF pw] by (auto simp: named_def split: option.splits)
  have so: "sorted_wrt (<) ?L" by (intro sorted_wrt_filter tensor_objs_sorted [OF ctx_okD(1) [OF pw]])
  have pos: "in_pool c p \<Longrightarrow> p \<noteq> NULL" for p using ctx_okD(2) [OF pw] by (auto simp: in_pool_def)
  have nm: "h_tensors h p = Some t \<Longrightarrow> named h name p \<longleftrightarrow> t_name t = name" for p t by (simp add: named_def)
  have g: "ggml_get_tensor h ctx name = Some (first_or_null ?L)" by (rule get_tensor_by_name [OF assms(2) pw])
  show ?thesis
  proof (cases ?L)
    case Nil
    then have "\<forall>p. in_pool c p \<longrightarrow> \<not> named h name p" using s by simp
    then show ?thesis using g Nil nm by (auto simp: first_or_null_def)
  next
    case (Cons r L)
    have "r \<in> set ?L" unfolding Cons by simp
    then have r: "in_pool c r" "named h name r" unfolding s by simp_all
    have "r \<le> p" if "in_pool c p" "h_tensors h p = Some t" "t_name t = name" for p t
    proof -
      have "p \<in> set ?L" unfolding s using that nm by simp
      then show ?thesis using so unfolding Cons by auto
    qed
    then show ?thesis using g r pos [OF r(1)] unfolding Cons by (auto simp: first_or_null_def)
  qed
qed

theorem get_tensor_finds_name_witness:
  "\<exists>r. ggml_get_tensor demo_heap 64 ''missing'' = Some r \<and> r = NULL"
proof -
  have c: "cget demo_heap 64 = Some (demo_ctx 2 65536 65904)" by (simp add: cget_def demo_heap_def)
  from get_tensor_finds_name [OF demo_heap_inv(1) c, of "''missing''"] obtain r where
    r: "ggml_get_tensor demo_heap 64 ''missing'' = Some r" "r \<noteq> NULL \<Longrightarrow> named demo_heap ''missing'' r"
    by (auto split: if_splits)
  have "\<not> named demo_heap ''missing'' r"
    by (simp add: named_def demo_heap_def demo_matrix_def split: option.split)
  then show ?thesis using r by blast
qed

text \<open>ggml_get_max_tensor_size returns the largest ggml_nbytes of a tensor of the context, 0 for a
  context without tensors.\<close>

theorem max_tensor_size_is_maximum:
  assumes "heap_inv h" "cget h ctx = Some c"
  shows "ggml_get_max_tensor_size h ctx =
    Some (Max (insert 0 ((\<lambda>p. ggml_nbytes (the (h_tensors h p))) ` {p. in_pool c p \<and> h_tensors h p \<noteq> None})))"
proof -
  have "h_ctxs h ctx = Some c" using assms(2) by (simp add: cget_def split: if_splits)
  then obtain ps fin where pw: "pool_with h c ps fin" using assms(1) unfolding heap_inv_def pools_ok_def by blast
  have "walk_list h ctx (first_or_null (tensor_objs h ps)) (tensor_objs h ps)"
    by (rule walk_tensor_objs [OF assms(2), of "[]"]) (use pw in simp)
  from max_size_walk [OF this, of 0] show ?thesis
    using get_first_tensor [OF assms(2) pw]
    by (simp add: ggml_get_max_tensor_size_def tensor_objs_set [OF pw] foldl_max)
qed

theorem max_tensor_size_is_maximum_witness:
  "\<exists>m. ggml_get_max_tensor_size demo_heap 64 = Some m \<and> ggml_nbytes (demo_matrix 4 3) \<le> m"
proof -
  have c: "cget demo_heap 64 = Some (demo_ctx 2 65536 65904)" by (simp add: cget_def demo_heap_def)
  let ?S = "{p. in_pool (demo_ctx 2 65536 65904) p \<and> h_tensors demo_heap p \<noteq> None}"
  have "?S \<subseteq> {65568, 65936}" by (auto simp: demo_heap_def split: if_splits)
  then have "finite ?S" by (rule finite_subset) simp
  moreover have "65568 \<in> ?S" by (simp add: in_pool_def demo_ctx_def demo_heap_def)
  moreover have "the (h_tensors demo_heap 65568) = demo_matrix 4 3" by (simp add: demo_heap_def)
  ultimately have "ggml_nbytes (demo_matrix 4 3) \<le>
      Max (insert 0 ((\<lambda>p. ggml_nbytes (the (h_tensors demo_heap p))) ` ?S))"
    by (intro Max_ge) (force intro!: image_eqI [of _ _ "65568"])+
  then show ?thesis using max_tensor_size_is_maximum [OF demo_heap_inv(1) c] by blast
qed

end
