(* ===== verification/GraphProps.thy ===== *)
theory GraphProps
  imports GraphCompute PoolLife
begin

text \<open>
  A small graph, allocated by the model on the pool of PoolLife, and the properties of the graph
  builder and of the functions on graphs.
\<close>

section \<open>An example\<close>

definition demo_product :: ggml_tensor where
  "demo_product = (demo_matrix 3 2)\<lparr> t_op := GGML_OP_MUL_MAT, t_src := (replicate 10 0)[0 := 65568, Suc 0 := 65936] \<rparr>"

definition demo_nodes :: heap where
  "demo_nodes = \<lparr> h_ctxs = [64 \<mapsto> demo_ctx 3 65536 66272],
     h_objs =
       [65536 \<mapsto> \<lparr> o_offs = 32, o_size = 336, o_next = 65904, o_type = GGML_OBJECT_TYPE_TENSOR \<rparr>,
        66272 \<mapsto> \<lparr> o_offs = 768, o_size = 336, o_next = 0, o_type = GGML_OBJECT_TYPE_TENSOR \<rparr>,
        65904 \<mapsto> \<lparr> o_offs = 400, o_size = 336, o_next = 66272, o_type = GGML_OBJECT_TYPE_TENSOR \<rparr>],
     h_tensors = [65568 \<mapsto> demo_matrix 4 3, 65936 \<mapsto> demo_matrix 4 2, 66304 \<mapsto> demo_product],
     h_graphs = \<lambda>_. None \<rparr>"

lemmas node_eval = mk_node_def set_op_def set_src_def tset_def foldr.simps

lemma demo_matrix_fields:
  "ne_at (demo_matrix m n) 0 = m" "ne_at (demo_matrix m n) (Suc 0) = n" "ne_at (demo_matrix m n) 2 = 1"
  "ne_at (demo_matrix m n) 3 = 1" "ggml_is_transposed (demo_matrix m n) \<longleftrightarrow> m < 1"
  "t_src (demo_matrix m n) = replicate 10 0" "t_op (demo_matrix m n) = GGML_OP_NONE"
  "t_flags (demo_matrix m n) = 0" "t_view_src (demo_matrix m n) = 0"
  by (simp_all add: demo_matrix_def ggml_is_transposed_def)

lemma demo_can_mul_mat: "ggml_can_mul_mat (demo_matrix 4 3) (demo_matrix 4 2) = Some True"
  by (simp add: ggml_can_mul_mat_def demo_matrix_fields cmod_def signed_modulo_int_def)

lemma demo_heap_lookup:
  "h_tensors demo_heap 65568 = Some (demo_matrix 4 3)" "h_tensors demo_heap 65936 = Some (demo_matrix 4 2)"
  by (simp_all add: demo_heap_def)

lemma demo_mul_mat: "ggml_mul_mat demo_heap 64 65568 65936 = Some (66304, demo_nodes)"
proof -
  have "ggml_mul_mat demo_heap 64 65568 65936 =
    mk_node (ggml_new_tensor demo_heap 64 GGML_TYPE_F32 4 [3, 2, 1, 1])
       [set_op GGML_OP_MUL_MAT, set_src 0 65568, set_src 1 65936]"
    by (simp add: ggml_mul_mat_def tget_def demo_heap_lookup demo_can_mul_mat demo_matrix_fields)
  also have "\<dots> = Some (66304, demo_nodes)"
    by (simp add: demo_heap_def demo_ctx_def alloc_eval node_eval demo_nodes_def demo_product_def demo_matrix_def)
  finally show ?thesis .
qed

definition demo_graph :: ggml_cgraph where
  "demo_graph = fresh_graph (\<lambda>_. 0) (\<lambda>_. 0) 8 False"

definition demo_run2 :: "(ptr \<times> heap) option" where
  "demo_run2 = ggml_new_graph_custom (\<lambda>_. 0) (\<lambda>_. 0) demo_nodes 64 8 False"

lemma demo_hash_size: "ggml_hash_size 16 = 17"
  by (simp add: ggml_hash_size_def hash_primes_def hash_size_search.simps)

lemma demo_graph_bytes: "ggml_graph_nbytes 8 False = 428"
proof -
  have h: "graph_hash_size 8 = 17" by (simp add: graph_hash_size_def u64_def demo_hash_size)
  have i: "snd (incr_ptr_aligned 0 88 1) = 88" "snd (incr_ptr_aligned 88 64 8) = 152"
    "snd (incr_ptr_aligned 152 64 8) = 216" "snd (incr_ptr_aligned 216 68 4) = 284"
    "snd (incr_ptr_aligned 284 136 8) = 424" "snd (incr_ptr_aligned 424 4 4) = 428"
    by (simp_all add: incr_ptr_aligned_def GGML_PAD_align(3) u64_id)
  have b: "ggml_bitset_size 17 = 1" by (simp add: ggml_bitset_size_def)
  show ?thesis by (simp add: ggml_graph_nbytes_def h i b u64_id GGML_CGRAPH_SIZE_def)
qed

lemma demo_new_graph: "\<exists>h. ggml_new_graph_custom (\<lambda>_. 0) (\<lambda>_. 0) demo_nodes 64 8 False = Some (66672, h)"
  by (simp add: ggml_new_graph_custom_def demo_graph_bytes demo_nodes_def demo_ctx_def alloc_eval)

lemma demo_nodes_inv: "heap_inv demo_nodes" "acyclic_heap demo_nodes"
proof -
  obtain t where "new_node demo_heap 66304 t demo_nodes" "node_wf demo_heap 66304 t"
    using createsD [OF shape_a_b_creates(1) [OF demo_heap_inv(1)] demo_mul_mat]
    by (auto simp: live_def demo_heap_lookup)
  from new_node_extends [OF demo_heap_inv(1) this] demo_heap_inv(2)
  show "heap_inv demo_nodes" "acyclic_heap demo_nodes" by (simp_all add: extends_def)
qed

lemma demo_state:
  obtains h where "ggml_new_graph_custom (\<lambda>_. 0) (\<lambda>_. 0) demo_nodes 64 8 False = Some (66672, h)"
    "graph_state h 66672 demo_graph" "h_tensors h = h_tensors demo_nodes"
proof -
  obtain h where h: "ggml_new_graph_custom (\<lambda>_. 0) (\<lambda>_. 0) demo_nodes 64 8 False = Some (66672, h)"
    using demo_new_graph by blast
  from ggml_new_graph_custom_state [OF demo_nodes_inv _ _ h] show thesis
    by (intro that [OF h]) (simp_all add: demo_graph_def)
qed

lemma demo_graph_facts:
  "graph_shape demo_graph" "g_size demo_graph = 8" "g_done demo_graph = {}" "g_grads demo_graph = None"
  "hs_set (g_visited demo_graph) = {}" "g_n_nodes demo_graph = 0"
  using fresh_graph_empty [of 8 "\<lambda>_. 0" "\<lambda>_. 0" False] empty_lists [of demo_graph]
  by (simp_all add: demo_graph_def) (simp_all add: fresh_graph_def Let_def)

lemma demo_reach:
  assumes "h_tensors h = h_tensors demo_nodes"
  shows "reach h 66304 = {65568, 65936, 66304}"
proof
  have s: "srcs h 66304 = [65568, 65936] @ replicate 8 0" "set (srcs h 65568) \<subseteq> {0}" "set (srcs h 65936) \<subseteq> {0}"
    by (simp_all add: srcs_def assms demo_nodes_def demo_product_def demo_matrix_def numeral_eq_Suc)
  show "reach h 66304 \<subseteq> {65568, 65936, 66304}" by (rule reach_least) (use s in auto)
  show "{65568, 65936, 66304} \<subseteq> reach h 66304"
    using s(1) by (auto intro!: reach_self reach_src [OF reach_self])
qed

text \<open>The same pool with the square of the product, and a graph built for it.\<close>

definition demo_chain :: heap where
  "demo_chain = \<lparr> h_ctxs = [64 \<mapsto> demo_ctx 4 65536 66640],
     h_objs = (h_objs demo_nodes)(66640 \<mapsto> \<lparr> o_offs = 1136, o_size = 336, o_next = 0, o_type = GGML_OBJECT_TYPE_TENSOR \<rparr>,
       66272 \<mapsto> \<lparr> o_offs = 768, o_size = 336, o_next = 66640, o_type = GGML_OBJECT_TYPE_TENSOR \<rparr>),
     h_tensors = (h_tensors demo_nodes)(66672 \<mapsto>
       (demo_matrix 3 2)\<lparr> t_op := GGML_OP_SQR, t_src := (replicate 10 0)[0 := 66304] \<rparr>),
     h_graphs = \<lambda>_. None \<rparr>"

lemma demo_sqr: "ggml_sqr demo_nodes 64 66304 = Some (66672, demo_chain)"
proof -
  have t: "h_tensors demo_nodes 66304 = Some demo_product" by (simp add: demo_nodes_def)
  have "ggml_sqr demo_nodes 64 66304 =
      mk_node (ggml_new_tensor demo_nodes 64 GGML_TYPE_F32 4 [3, 2, 1, 1]) [set_op GGML_OP_SQR, set_src 0 66304]"
    by (simp add: ggml_sqr_def ggml_sqr_impl_def ggml_dup_tensor_def tget_def t demo_product_def demo_matrix_def
        GGML_MAX_DIMS_def)
  also have "\<dots> = Some (66672, demo_chain)"
    by (simp add: demo_nodes_def demo_ctx_def alloc_eval node_eval demo_chain_def demo_product_def demo_matrix_def)
  finally show ?thesis .
qed

lemma demo_chain_inv: "heap_inv demo_chain" "acyclic_heap demo_chain"
proof -
  have "live demo_nodes 66304" by (simp add: live_def demo_nodes_def)
  then obtain t where "new_node demo_nodes 66672 t demo_chain" "node_wf demo_nodes 66672 t"
    using createsD [OF basic_a_creates(3) [OF demo_nodes_inv(1)] demo_sqr] by blast
  from new_node_extends [OF demo_nodes_inv(1) this] demo_nodes_inv(2)
  show "heap_inv demo_chain" "acyclic_heap demo_chain" by (simp_all add: extends_def)
qed

lemma demo_chain_state:
  obtains h where "graph_state h 67040 demo_graph" "h_tensors h = h_tensors demo_chain"
proof -
  obtain h where h: "ggml_new_graph_custom (\<lambda>_. 0) (\<lambda>_. 0) demo_chain 64 8 False = Some (67040, h)"
    by (simp add: ggml_new_graph_custom_def demo_graph_bytes demo_chain_def demo_ctx_def alloc_eval)
  from ggml_new_graph_custom_state [OF demo_chain_inv _ _ h] show thesis
    by (intro that [of h]) (simp_all add: demo_graph_def)
qed

lemma demo_chain_srcs:
  assumes "h_tensors h = h_tensors demo_chain"
  shows "srcs h 66672 = 66304 # replicate 9 0" "srcs h 66304 = [65568, 65936] @ replicate 8 0"
    "srcs h 65568 = replicate 10 0" "srcs h 65936 = replicate 10 0"
  by (simp_all add: srcs_def assms demo_chain_def demo_nodes_def demo_product_def demo_matrix_def numeral_eq_Suc)

lemma demo_chain_reach:
  assumes "h_tensors h = h_tensors demo_chain"
  shows "reach h 66672 = {65568, 65936, 66304, 66672}"
proof
  note s = demo_chain_srcs [OF assms]
  show "reach h 66672 \<subseteq> {65568, 65936, 66304, 66672}" by (rule reach_least) (use s in auto)
  have "66304 \<in> reach h 66672" by (rule reach_src [OF reach_self]) (simp_all add: s)
  then show "{65568, 65936, 66304, 66672} \<subseteq> reach h 66672"
    using s(2) by (auto intro!: reach_self reach_src [of 66304 h 66672])
qed

section \<open>Creation leaves the other graphs alone\<close>

lemma new_graph_keeps:
  assumes "ggml_new_graph_custom junk junk32 h ctx sz grads = Some (r, h')"
  shows "h_graphs h' = (h_graphs h)(r \<mapsto> fresh_graph junk junk32 sz grads)"
proof -
  have o: "ggml_new_object h ctx ty n = Some (p, h1) \<Longrightarrow> h_graphs h1 = h_graphs h" for ty n p h1
    by (auto simp: ggml_new_object_def Let_def bind_Some_iff split: if_splits)
  show ?thesis using assms o by (auto simp: ggml_new_graph_custom_def bind_Some_iff Let_def gset_def)
qed

section \<open>Properties\<close>

lemma build_order:
  assumes "graph_state h cg g" "h_tensors h p \<noteq> None" "p \<noteq> NULL"
    and "int (card (g_done g \<union> reach h p)) \<le> g_size g"
  shows "\<exists>h' g'. ggml_build_forward_impl h cg p True compute = Some h' \<and> graph_state h' cg g' \<and>
    prefix (g_node_list g) (g_node_list g') \<and> prefix (g_leaf_list g) (g_leaf_list g') \<and>
    g_done g' = g_done g \<union> reach h p \<and> distinct (g_node_list g' @ g_leaf_list g') \<and>
    (\<forall>q \<in> g_done g'. q \<in> set (g_leaf_list g') \<longleftrightarrow> is_leaf h' q) \<and>
    (\<forall>i < length (g_node_list g'). set (srcs h (g_node_list g' ! i)) \<subseteq>
       {NULL, g_node_list g' ! i} \<union> set (take i (g_node_list g')) \<union> set (g_leaf_list g'))"
proof -
  obtain h' g' where r: "ggml_build_forward_impl h cg p True compute = Some h'" "graph_state h' cg g'"
    "built h g p h' g'" "srcs h' = srcs h"
    by (rule build_forward_state [OF assms]) (rule that; assumption)
  have ok: "graph_ok h' g'" using r(2) by (simp add: graph_state_def graph_complete_def)
  then have "distinct (g_node_list g' @ g_leaf_list g')"
    "\<forall>q \<in> g_done g'. q \<in> set (g_leaf_list g') \<longleftrightarrow> is_leaf h' q"
    "sources_before (srcs h) (set (g_leaf_list g')) (g_node_list g')"
    by (auto simp: graph_ok_def g_done_def r(4))
  then show ?thesis using r(1-3) unfolding built_def sources_before_def by blast
qed

text \<open>C2: ggml_build_forward_impl on a graph with room for everything the tensor depends on ends without
  an abort.  It keeps what the graph listed, adds exactly the tensors that the new result depends on, each
  once, puts parameters and operation results into nodes and the rest into leafs, and lists every node
  after all its sources.  The graph is a consistent one of a well-formed heap (graph_state), as every graph of a program
  is, and p is a live tensor.\<close>

theorem build_forward_topological:
  assumes "graph_state h cg g" "h_tensors h p \<noteq> None" "p \<noteq> NULL"
    and "int (card (g_done g \<union> reach h p)) \<le> g_size g"
  shows "\<exists>h' g'. ggml_build_forward_impl h cg p True compute = Some h' \<and> graph_state h' cg g' \<and>
    prefix (g_node_list g) (g_node_list g') \<and> prefix (g_leaf_list g) (g_leaf_list g') \<and>
    g_done g' = g_done g \<union> reach h p \<and> distinct (g_node_list g' @ g_leaf_list g') \<and>
    (\<forall>q \<in> g_done g'. q \<in> set (g_leaf_list g') \<longleftrightarrow> is_leaf h' q) \<and>
    (\<forall>i < length (g_node_list g'). set (srcs h (g_node_list g' ! i)) \<subseteq>
       {NULL, g_node_list g' ! i} \<union> set (take i (g_node_list g')) \<union> set (g_leaf_list g'))"
  by (rule build_order [OF assms])

theorem build_forward_topological_witness:
  "\<exists>h h' g'. graph_state h 66672 demo_graph \<and> ggml_build_forward_impl h 66672 66304 True True = Some h' \<and>
     graph_state h' 66672 g' \<and> g_done g' = {65568, 65936, 66304}"
proof -
  obtain h where h: "graph_state h 66672 demo_graph" "h_tensors h = h_tensors demo_nodes"
    by (rule demo_state)
  have "\<exists>h' g'. ggml_build_forward_impl h 66672 66304 True True = Some h' \<and>
     graph_state h' 66672 g' \<and> g_done g' = g_done demo_graph \<union> reach h 66304"
    using build_forward_topological [OF h(1), of 66304 True] h(2)
    by (fastforce simp: demo_reach [OF h(2)] demo_graph_facts demo_nodes_def)
  then show ?thesis using h(1) by (auto simp: demo_reach [OF h(2)] demo_graph_facts)
qed

text \<open>C7: The use count that the graph keeps of a tensor is the number of times that the listed tensors
  have it among their sources, as a 32-bit number; building further results keeps this, for a
  consistent graph of a well-formed heap (graph_state) with room for everything the tensor depends on.\<close>

theorem build_forward_use_counts:
  assumes "graph_state h cg g" "h_tensors h p \<noteq> None" "p \<noteq> NULL"
    and "int (card (g_done g \<union> reach h p)) \<le> g_size g"
  shows "\<exists>h' g'. ggml_build_forward_impl h cg p True compute = Some h' \<and> gget h' cg = Some g' \<and>
    (\<forall>q. q \<noteq> NULL \<longrightarrow>
       use_count_of g' q = i32 (\<Sum>n \<in> g_done g \<union> reach h p. int (count_list (srcs h n) q)))"
proof -
  obtain h' g' where r: "ggml_build_forward_impl h cg p True compute = Some h'" "graph_state h' cg g'"
    "built h g p h' g'" "srcs h' = srcs h"
    by (rule build_forward_state [OF assms]) (rule that; assumption)
  have "g_done g' = g_done g \<union> reach h p" using r(3) by (simp add: built_def)
  then show ?thesis using r unfolding graph_state_def uses_ok_def by auto
qed

theorem build_forward_use_counts_witness:
  "\<exists>h h' g'. ggml_build_forward_impl h 66672 66304 True True = Some h' \<and> gget h' 66672 = Some g' \<and>
     use_count_of g' 65568 = 1"
proof -
  obtain h where h: "graph_state h 66672 demo_graph" "h_tensors h = h_tensors demo_nodes"
    by (rule demo_state)
  have c: "(\<Sum>n \<in> {65568, 65936, 66304}. int (count_list (srcs h n) 65568)) = 1"
    by (simp add: srcs_def h(2) demo_nodes_def demo_product_def demo_matrix_def numeral_eq_Suc)
  have "\<exists>h' g'. ggml_build_forward_impl h 66672 66304 True True = Some h' \<and> gget h' 66672 = Some g' \<and>
    (\<forall>q. q \<noteq> NULL \<longrightarrow>
       use_count_of g' q = i32 (\<Sum>n \<in> g_done demo_graph \<union> reach h 66304. int (count_list (srcs h n) q)))"
    using h(2) by (intro build_forward_use_counts [OF h(1)])
      (simp_all add: demo_reach [OF h(2)] demo_graph_facts demo_nodes_def)
  then obtain h' g' where "ggml_build_forward_impl h 66672 66304 True True = Some h'" "gget h' 66672 = Some g'"
    "use_count_of g' 65568 = i32 1"
    unfolding demo_reach [OF h(2)] demo_graph_facts using c by (metis numeral_neq_zero sup_bot_left)
  then show ?thesis by (auto simp: i32_def)
qed

text \<open>ggml_build_forward_select lists everything that any of its tensors depends on and returns the one
  at the index asked for.\<close>

theorem build_select_lists_all:
  assumes "graph_state h cg g" "\<forall>p \<in> set ps. h_tensors h p \<noteq> None \<and> p \<noteq> NULL"
    and "int (card (g_done g \<union> (\<Union>p \<in> set ps. reach h p))) \<le> g_size g"
    and "0 \<le> idx" "idx < int (length ps)"
  shows "\<exists>h' g'. ggml_build_forward_select h cg ps (int (length ps)) idx = Some (ps ! nat idx, h') \<and>
    graph_state h' cg g' \<and> g_done g' = g_done g \<union> (\<Union>p \<in> set ps. reach h p) \<and>
    prefix (g_node_list g) (g_node_list g')"
  by (rule build_select_state [OF assms])

theorem build_select_lists_all_witness:
  "\<exists>h h' g'. ggml_build_forward_select h 66672 [66304, 65568] 2 0 = Some (66304, h') \<and>
     graph_state h' 66672 g' \<and> g_done g' = {65568, 65936, 66304}"
proof -
  obtain h where h: "graph_state h 66672 demo_graph" "h_tensors h = h_tensors demo_nodes"
    by (rule demo_state)
  have "reach h 65568 \<subseteq> {65568}"
    by (rule reach_least) (simp_all add: srcs_def h(2) demo_nodes_def demo_matrix_def)
  then have u: "(\<Union>p \<in> set [66304, 65568]. reach h p) = {65568, 65936, 66304}"
    by (auto simp: demo_reach [OF h(2)])
  have "\<exists>h' g'. ggml_build_forward_select h 66672 [66304, 65568] (int (length [66304, 65568 :: int])) 0 =
      Some ([66304, 65568] ! nat 0, h') \<and> graph_state h' 66672 g' \<and>
      g_done g' = g_done demo_graph \<union> (\<Union>p \<in> set [66304, 65568]. reach h p) \<and>
      prefix (g_node_list demo_graph) (g_node_list g')"
    by (rule build_select_lists_all [OF h(1)]; (unfold u)?)
      (simp_all add: h(2) demo_graph_facts demo_nodes_def)
  then show ?thesis unfolding u demo_graph_facts by auto
qed

text \<open>C32: A graph that ggml_new_graph_custom creates in a well-formed heap, with a size below 2^31, is empty and consistent with the heap whatever the
  memory held before.  It is at an address where no graph was; every tensor and every other graph is as before.\<close>

theorem new_graph_empty:
  assumes "heap_inv h" "acyclic_heap h" "0 \<le> sz" "sz < 2 ^ 31"
    and "ggml_new_graph_custom junk junk32 h ctx sz grads = Some (cg, h')"
  shows "\<exists>g. graph_state h' cg g \<and> g_done g = {} \<and> g_size g = sz \<and> hs_set (g_visited g) = {} \<and>
    h_tensors h' = h_tensors h \<and> h_graphs h cg = None \<and> h_graphs h' = (h_graphs h)(cg \<mapsto> g)"
proof (intro exI conjI)
  let ?g = "fresh_graph junk junk32 sz grads"
  note e = fresh_graph_empty [OF assms(3,4), of junk junk32 grads]
  show "graph_state h' cg ?g" "h_tensors h' = h_tensors h" "h_graphs h cg = None"
    by (rule ggml_new_graph_custom_state [OF assms])+
  show "g_done ?g = {}" by (rule empty_lists(3) [OF e(2,3)])
  show "g_size ?g = sz" "hs_set (g_visited ?g) = {}" by (rule e(5), rule e(4))
  show "h_graphs h' = (h_graphs h)(cg \<mapsto> ?g)" by (rule new_graph_keeps [OF assms(5)])
qed

theorem new_graph_empty_witness:
  "\<exists>h g. ggml_new_graph_custom (\<lambda>_. 0) (\<lambda>_. 0) demo_nodes 64 8 False = Some (66672, h) \<and>
     graph_state h 66672 g \<and> g_size g = 8"
proof -
  obtain h where h: "ggml_new_graph_custom (\<lambda>_. 0) (\<lambda>_. 0) demo_nodes 64 8 False = Some (66672, h)"
    using demo_new_graph by blast
  from new_graph_empty [OF demo_nodes_inv _ _ h] show ?thesis using h by auto
qed

text \<open>C31: The arrays that ggml_new_graph_custom places behind the graph structure (nodes, leafs, use counts, hash keys, gradients,
  bits) do not overlap, start behind the structure and end inside the object whose size ggml_graph_nbytes
  computed before the address was known.  This holds for every number of nodes below 2^31, with and without gradients, at
  every address below 2^62 that is a multiple of 16, as the objects of a pool are.  The C code checks the sizes
  against each other by an assert that the release build does not have.\<close>

theorem graph_arrays_in_object:
  assumes "0 \<le> sz" "sz < 2 ^ 31" "0 \<le> cgraph" "cgraph < 2 ^ 62" "cgraph mod 16 = 0"
  shows "(\<forall>(q, n) \<in> set (graph_layout cgraph sz grads).
      cgraph + GGML_CGRAPH_SIZE \<le> q \<and> q + n \<le> cgraph + ggml_graph_nbytes sz grads) \<and>
    sorted_wrt (\<lambda>(q, n) (q', n'). q + n \<le> q') (graph_layout cgraph sz grads)"
  using graph_layout_in_object [OF assms] by (simp add: GGML_CGRAPH_SIZE_def)

theorem graph_arrays_in_object_witness:
  "sorted_wrt (\<lambda>(q, n) (q', n'). q + n \<le> q') (graph_layout 66672 2048 True)"
  using graph_arrays_in_object [of 2048 66672 True] by simp

lemma copied_state:
  assumes "graph_complete h g" "uses_ok h g" "copy_of g d" "h_tensors h' = h_tensors h"
  shows "graph_complete h' d" "uses_ok h' d"
proof -
  have "srcs h' = srcs h" "is_leaf h' = is_leaf h" using assms(4) by (simp_all add: srcs_def is_leaf_def fun_eq_iff)
  moreover have "g_done d = g_done g" using assms(3) by (simp add: copy_of_def g_done_def)
  ultimately show "graph_complete h' d" "uses_ok h' d"
    using assms by (simp_all add: graph_complete_def graph_ok_def g_open_def uses_ok_def copy_of_def)
qed

text \<open>C8: ggml_graph_dup.  When the pool has room for the new graph, the call succeeds: the copy lists the same nodes and
  leafs, has visited the same tensors and holds the same use counts; every node has the gradient and the accumulator
  it has in the original, and no other tensor has one; the copy has gradient arrays if the original has them or
  force_grads is set; the original is unchanged.  This is for a well-formed graph that has both gradient arrays or none
  and whose hash table is not larger than the one ggml_new_graph_custom gives to a graph of its size, as it is for
  every graph which that function made.\<close>

theorem graph_dup_copies:
  assumes st: "graph_state h cg g" and gr: "g_grads g = None \<longleftrightarrow> g_grad_accs g = None" and sz: "0 \<le> g_size g"
    and hs: "hs_size (g_visited g) \<le> nat (graph_hash_size (g_size g))"
    and new: "ggml_new_graph_custom junk junk32 h ctx (g_size g) (g_grads g \<noteq> None \<or> force_grads) = Some (r, h1)"
  shows "\<exists>h' d. ggml_graph_dup junk junk32 h ctx cg force_grads = Some (r, h') \<and> graph_state h' r d \<and>
    gget h' cg = Some g \<and> g_node_list d = g_node_list g \<and> g_leaf_list d = g_leaf_list g \<and>
    hs_set (g_visited d) = hs_set (g_visited g) \<and> (\<forall>p. use_count_of d p = use_count_of g p) \<and>
    (g_grads d \<noteq> None \<longleftrightarrow> g_grads g \<noteq> None \<or> force_grads) \<and>
    (\<forall>p. ggml_graph_get_grad d p = (if p \<in> set (g_node_list g) then ggml_graph_get_grad g p else Some NULL) \<and>
      ggml_graph_get_grad_acc d p = (if p \<in> set (g_node_list g) then ggml_graph_get_grad_acc g p else Some NULL))"
proof -
  have inv: "heap_inv h" "acyclic_heap h" and g31: "g_size g < 2 ^ 31" and cg: "gget h cg = Some g"
    using st by (simp_all add: graph_state_def)
  let ?gr = "g_grads g \<noteq> None \<or> force_grads"
  let ?f = "fresh_graph junk junk32 (g_size g) ?gr"
  note e = fresh_graph_empty [OF sz g31, of junk junk32 ?gr]
  note n = ggml_new_graph_custom_state [OF inv sz g31 new]
  have sh: "graph_shape g" and vis: "set (g_node_list g) \<subseteq> hs_set (g_visited g)"
    using st by (simp_all add: graph_state_def graph_complete_def graph_ok_def g_done_def)
  have f0: "hs_size (g_visited ?f) = nat (graph_hash_size (g_size g))" "(g_grads ?f = None) = (\<not> ?gr)"
      "(g_grad_accs ?f = None) = (\<not> ?gr)"
    by (simp_all add: fresh_graph_def Let_def ggml_hash_set_reset_def)
  have "g_size g \<le> g_size ?f" "hs_size (g_visited g) \<le> hs_size (g_visited ?f)" using e(5) hs f0(1) by simp_all
  note le = this
  have fg: "g_grads ?f = None \<longleftrightarrow> g_grad_accs ?f = None" by (simp only: f0(2,3))
  have fs: "g_grads g = None \<or> g_grads ?f \<noteq> None" unfolding f0(2) by blast
  obtain d where cp: "ggml_graph_cpy g ?f = Some d" "copy_of g d" and gs: "g_size d = g_size ?f" "(g_grads d = None) = (g_grads ?f = None)"
    and gc: "\<forall>p. ggml_graph_get_grad d p = (if p \<in> set (g_node_list g) then ggml_graph_get_grad g p else Some NULL) \<and>
      ggml_graph_get_grad_acc d p = (if p \<in> set (g_node_list g) then ggml_graph_get_grad_acc g p else Some NULL)"
    using ggml_graph_cpy_empty [OF sh e(1,4) le gr fg fs vis] by (elim exE conjE) (rule that)
  have d: "graph_shape d" "g_node_list d = g_node_list g" "g_leaf_list d = g_leaf_list g"
    "hs_set (g_visited d) = hs_set (g_visited g)" "\<forall>p. use_count_of d p = use_count_of g p" using cp(2) by (simp_all add: copy_of_def)
  have ds: "g_size d = g_size g" and gd: "g_grads d \<noteq> None \<longleftrightarrow> ?gr" using gs e(5) f0(2) by simp_all
  have f: "gget h1 r = Some ?f" and r: "r \<noteq> NULL" using n(1) by (auto simp: graph_state_def gget_def split: if_splits)
  have ne: "r \<noteq> cg" using n(3) cg by (auto simp: gget_def split: if_splits)
  have keep: "gget h1 cg = Some g"
    using new_graph_keeps [OF new] cg ne by (auto simp: gget_def split: if_splits)
  have u: "u64 (g_size g) = g_size g" using sz g31 by (intro u64_id) auto
  have res: "ggml_graph_dup junk junk32 h ctx cg force_grads = Some (r, gset h1 r d)"
    by (simp only: ggml_graph_dup_def cg u new keep f cp(1) bind.bind_lunit split_conv)
  have hi: "heap_inv (gset h1 r d)" "acyclic_heap (gset h1 r d)"
    using n(1) f r gset_inv [of h1 r d] by (auto simp: graph_state_def gset_acyclic gget_def)
  have "h_tensors (gset h1 r d) = h_tensors h" using n(2) by simp
  from copied_state [OF _ _ cp(2) this] have "graph_complete (gset h1 r d) d" "uses_ok (gset h1 r d) d"
    using st by (simp_all add: graph_state_def)
  then have "graph_state (gset h1 r d) r d" using hi r ds g31 by (simp add: graph_state_def)
  moreover have "gget (gset h1 r d) cg = Some g" using keep ne by (auto simp: gget_def gset_def split: if_splits)
  ultimately show ?thesis using res d(2-5) gc gd by blast
qed

theorem graph_dup_copies_witness:
  "\<exists>h h' d. ggml_graph_dup (\<lambda>_. 0) (\<lambda>_. 0) h 64 66672 False = Some (67136, h') \<and> graph_state h' 67136 d"
proof -
  obtain h where h: "ggml_new_graph_custom (\<lambda>_. 0) (\<lambda>_. 0) demo_nodes 64 8 False = Some (66672, h)"
    "graph_state h 66672 demo_graph" by (rule demo_state)
  have "\<exists>h1. ggml_new_graph_custom (\<lambda>_. 0) (\<lambda>_. 0) h 64 8 False = Some (67136, h1)"
    using h(1) by (auto simp: ggml_new_graph_custom_def demo_graph_bytes demo_nodes_def demo_ctx_def alloc_eval gset_def)
  then obtain h1 where h1: "ggml_new_graph_custom (\<lambda>_. 0) (\<lambda>_. 0) h 64 (g_size demo_graph) False = Some (67136, h1)"
    by (auto simp: demo_graph_facts)
  have "hs_size (g_visited demo_graph) \<le> nat (graph_hash_size (g_size demo_graph))"
    unfolding demo_graph_facts by (simp add: demo_graph_def fresh_graph_def Let_def ggml_hash_set_reset_def)
  moreover have "g_grads demo_graph = None" "g_grad_accs demo_graph = None"
    by (simp_all add: demo_graph_def fresh_graph_def Let_def)
  ultimately show ?thesis using graph_dup_copies [OF h(2), of "\<lambda>_. 0" "\<lambda>_. 0" 64 False 67136 h1] h1
    by (auto simp: demo_graph_facts)
qed

text \<open>C33: ggml_graph_cpy into a graph that has already visited one of the tensors of the source aborts or
  writes outside use_counts: the slot that ggml_hash_insert returns for a key that is present is the marker
  GGML_HASHSET_ALREADY_EXISTS, which the code takes for an index.\<close>

theorem graph_cpy_needs_fresh_target:
  assumes "graph_shape src" "graph_shape dst" "k \<in> hs_set (g_visited src)" "k \<in> hs_set (g_visited dst)"
  shows "ggml_graph_cpy src dst = None"
  by (rule ggml_graph_cpy_twice [OF assms])

theorem graph_cpy_needs_fresh_target_witness:
  "\<exists>g. g_done g = {65568, 65936, 66304} \<and> ggml_graph_cpy g g = None"
proof -
  obtain h where h: "graph_state h 66672 demo_graph" "h_tensors h = h_tensors demo_nodes"
    by (rule demo_state)
  have "h_tensors h 66304 \<noteq> None" by (simp add: h(2) demo_nodes_def)
  then obtain h' g' where g: "graph_state h' 66672 g'" "built h demo_graph 66304 h' g'"
    by (rule build_forward_state [OF h(1), where compute = True])
      (simp_all add: demo_reach [OF h(2)] demo_graph_facts)
  then have d: "g_done g' = {65568, 65936, 66304}" by (simp add: built_def demo_reach [OF h(2)] demo_graph_facts)
  have c: "graph_complete h' g'" using g(1) by (simp add: graph_state_def)
  then have sh: "graph_shape g'" by (simp add: graph_complete_def graph_ok_def)
  have k: "66304 \<in> hs_set (g_visited g')" using complete_visited [OF c] d by simp
  show ?thesis using graph_cpy_needs_fresh_target [OF sh sh k k] d by blast
qed

text \<open>C10: When ggml_can_fuse_subgraph_ext accepts a group of distinct nodes, a tensor of the group that is not
  one of its outputs is read by no listed tensor outside the group, and only by nodes later in the group: a
  fused kernel need not store it.  The graph is consistent (graph_state) and small enough (20 times its size below 2^31)
  for 32-bit use counts not to wrap.\<close>

theorem fused_nodes_private:
  assumes "graph_state h cg g" "20 * g_size g < 2 ^ 31"
    and "ggml_can_fuse_subgraph_ext h g idxs ops outputs = Some True" "distinct idxs" "k < length idxs"
    and "ggml_node_list_find_tensor g outputs (g_nodes g ! nat (idxs ! k)) = -1"
    and "q \<in> g_done g" "g_nodes g ! nat (idxs ! k) \<in> set (srcs h q)"
  shows "\<exists>j. k < j \<and> j < length idxs \<and> q = g_nodes g ! nat (idxs ! j)"
  by (rule fusion_confines_uses [of h g idxs ops outputs]) (use assms in \<open>simp_all add: graph_state_def elided_def\<close>)

lemma clear_state:
  assumes "graph_state h cg g"
  shows "graph_state (gset h cg (ggml_graph_clear g)) cg (ggml_graph_clear g) \<and>
    g_done (ggml_graph_clear g) = {} \<and> hs_set (g_visited (ggml_graph_clear g)) = {} \<and>
    g_size (ggml_graph_clear g) = g_size g"
proof -
  let ?c = "ggml_graph_clear g"
  have sh: "graph_shape g" using assms by (simp add: graph_state_def graph_complete_def graph_ok_def)
  note c = ggml_graph_clear_empty [OF sh]
  have cg: "cg \<noteq> NULL" "h_graphs h cg \<noteq> None" using assms by (auto simp: graph_state_def gget_def split: if_splits)
  have "heap_inv (gset h cg ?c)" "acyclic_heap (gset h cg ?c)"
    using assms gset_inv [OF _ cg(2)] by (simp_all add: graph_state_def gset_acyclic)
  moreover have sz: "g_size ?c = g_size g" by (simp add: ggml_graph_clear_def)
  ultimately have "graph_state (gset h cg ?c) cg ?c"
    using assms empty_graph_complete [OF c] cg(1) by (simp add: graph_state_def)
  then show ?thesis using empty_lists [OF c(2,3)] c(4) sz by simp
qed

text \<open>C21: After ggml_graph_clear a graph lists nothing and has visited nothing, keeps its capacity, and is
  ready for another build.\<close>

theorem cleared_graph_ready:
  assumes "graph_state h cg g"
  shows "graph_state (gset h cg (ggml_graph_clear g)) cg (ggml_graph_clear g) \<and>
    g_done (ggml_graph_clear g) = {} \<and> hs_set (g_visited (ggml_graph_clear g)) = {} \<and>
    g_size (ggml_graph_clear g) = g_size g"
  by (rule clear_state [OF assms])

theorem cleared_graph_ready_witness:
  "\<exists>h. graph_state h 66672 demo_graph \<and>
     graph_state (gset h 66672 (ggml_graph_clear demo_graph)) 66672 (ggml_graph_clear demo_graph)"
  by (rule demo_state) (use cleared_graph_ready in blast)

text \<open>C34: Building a result with the flag compute marks with GGML_TENSOR_FLAG_COMPUTE exactly the operations
  that the result depends on, also those that an earlier build listed without the flag; without the flag no
  mark changes.  It starts from marks that are closed under sources (marks_closed: what a marked operation reads is
  marked), as they are when nothing is marked, and a build with the flag keeps them closed.\<close>

theorem build_marks_exactly:
  assumes "graph_state h cg g" "h_tensors h p \<noteq> None" "p \<noteq> NULL"
    and "int (card (g_done g \<union> reach h p)) \<le> g_size g" "marks_closed h {}"
  shows "\<exists>h'. ggml_build_forward_impl h cg p True compute = Some h' \<and> (compute \<longrightarrow> marks_closed h' {}) \<and>
    (\<forall>q. is_op h q \<longrightarrow> computed h' q = (computed h q \<or> (compute \<and> q \<in> reach h p)))"
proof -
  obtain h' g' where r: "ggml_build_forward_impl h cg p True compute = Some h'" "graph_state h' cg g'"
    by (rule build_forward_state [OF assms(1-4)]) (rule that; assumption)
  have inv: "heap_inv h" "heap_inv h'" using assms(1) r(2) by (simp_all add: graph_state_def)
  note m = build_forward_marks [OF inv(1) r(1)]
  have cl: "compute \<Longrightarrow> marks_closed h' {}" using m assms(5) by blast
  have st: "srcs h' = srcs h" "is_op h' = is_op h" using m by simp_all
  have "computed h' q" if "compute" "is_op h q" "q \<in> reach h p" for q
    using marked_reachable [OF inv(2) cl [OF that(1)], of p q] m that reach_cong [OF st(1), of p] by (auto simp: st)
  then have "\<forall>q. is_op h q \<longrightarrow> computed h' q = (computed h q \<or> (compute \<and> q \<in> reach h p))"
    using m unfolding ops_of_def by blast
  then show ?thesis using r(1) cl by blast
qed

lemma demo_unmarked:
  assumes "h_tensors h = h_tensors demo_chain"
  shows "\<not> computed h q" "marks_closed h {}"
proof -
  show n: "\<not> computed h q" for q
    by (auto simp: computed_def assms demo_chain_def demo_nodes_def demo_product_def demo_matrix_def)
  show "marks_closed h {}" by (simp add: marks_closed_def n)
qed

theorem build_marks_exactly_witness:
  "\<exists>h h'. ggml_build_forward_impl h 67040 66672 True True = Some h' \<and> computed h' 66304 \<and> \<not> computed h 66304"
proof -
  obtain h where h: "graph_state h 67040 demo_graph" "h_tensors h = h_tensors demo_chain"
    by (rule demo_chain_state)
  note r = demo_chain_reach [OF h(2)] and u = demo_unmarked [OF h(2)]
  have o: "is_op h 66304" by (simp add: is_op_def h(2) demo_chain_def demo_nodes_def demo_product_def)
  have "h_tensors h 66672 \<noteq> None" by (simp add: h(2) demo_chain_def)
  from build_marks_exactly [OF h(1) this _ _ u(2), of True] o u(1) show ?thesis
    by (auto simp: r demo_graph_facts)
qed

lemma node_list_pair:
  assumes "set ns = {a, b}" "distinct ns" "suffix [b] ns" "a \<noteq> b"
  shows "ns = [a, b]"
proof -
  obtain xs where xs: "ns = xs @ [b]" using assms(3) by (auto simp: suffix_def)
  have s: "set xs = {a}" using assms(1,2,4) by (auto simp: xs)
  have "length xs = card (set xs)" using assms(2) by (simp add: xs distinct_card)
  then obtain x where "xs = [x]" using s by (auto simp: length_Suc_conv)
  then show ?thesis using s by (simp add: xs)
qed

lemma node_use_count:
  assumes "graph_shape g" "g_nodes g ! nat idx \<in> hs_set (g_visited g)"
  shows "ggml_node_get_use_count g idx = Some (use_count_of g (g_nodes g ! nat idx))"
proof -
  have inv: "hs_inv (g_visited g)" using assms(1) by (simp add: graph_shape_def)
  obtain r where r: "ggml_hash_find (g_visited g) (g_nodes g ! nat idx) = Some r" "r < hs_size (g_visited g)"
    "hs_get (g_visited g) r"
    using ggml_hash_find_spec [OF inv, of "g_nodes g ! nat idx"] assms(2) by auto
  then have "r \<noteq> GGML_HASHSET_FULL" using FULL_not_slot [OF inv] by simp
  then show ?thesis using r by (simp add: ggml_node_get_use_count_def use_count_of_def)
qed

lemma core_flags_clear:
  assumes "tensor_core t' = tensor_core t" "t_flags t = 0"
  shows "t_flags t' AND GGML_TENSOR_FLAG_OUTPUT = 0"
proof -
  have "t_flags t' AND NOT GGML_TENSOR_FLAG_COMPUTE = t_flags t AND NOT GGML_TENSOR_FLAG_COMPUTE"
    using arg_cong [OF assms(1), of t_flags] by (simp add: tensor_core_def)
  then have "t_flags t' AND NOT GGML_TENSOR_FLAG_COMPUTE = 0" by (simp add: assms(2))
  moreover have "GGML_TENSOR_FLAG_OUTPUT = NOT GGML_TENSOR_FLAG_COMPUTE AND GGML_TENSOR_FLAG_OUTPUT"
    by (simp add: GGML_TENSOR_FLAG_OUTPUT_def GGML_TENSOR_FLAG_COMPUTE_def)
  ultimately show ?thesis by (metis and.assoc and_zero_eq zero_and_eq)
qed

lemma demo_built:
  obtains h g where "graph_state h 67040 g" "g_size g = 8" "g_done g = {65568, 65936, 66304, 66672}"
    "g_node_list g = [66304, 66672]" "computed h 66304" "computed h 66672"
    "\<And>p. map_option tensor_core (h_tensors h p) = map_option tensor_core (h_tensors demo_chain p)"
proof -
  obtain h where h: "graph_state h 67040 demo_graph" "h_tensors h = h_tensors demo_chain"
    by (rule demo_chain_state)
  note r = demo_chain_reach [OF h(2)] and f = demo_graph_facts and u = demo_unmarked [OF h(2)]
  have p: "h_tensors h 66672 \<noteq> None" by (simp add: h(2) demo_chain_def)
  have ops: "is_op h 66304" "is_op h 66672" "is_leaf h 65568" "is_leaf h 65936"
    by (simp_all add: is_op_def is_leaf_def h(2) demo_chain_def demo_nodes_def demo_product_def demo_matrix_def)
  have hs: "heap_inv h" "acyclic_heap h" "gget h 67040 = Some demo_graph" "graph_complete h demo_graph"
    using h(1) by (simp_all add: graph_state_def)
  obtain h1 h' g' where b: "ggml_build_forward_impl h 67040 66672 True True = Some h'" "h' = gset h1 67040 g'"
    "heap_frame h h1" "built h demo_graph 66672 h' g'"
    by (rule build_forward_built [OF hs p, where compute = True]) (simp_all add: r f)
  obtain h2 g2 where s: "ggml_build_forward_impl h 67040 66672 True True = Some h2" "graph_state h2 67040 g2"
    by (rule build_forward_state [OF h(1) p, where compute = True]) (simp_all add: r f)
  have st: "graph_state h' 67040 g'" using s b(1,2) by (auto simp: graph_state_def)
  obtain h3 where m: "ggml_build_forward_impl h 67040 66672 True True = Some h3"
      "\<forall>q. is_op h q \<longrightarrow> computed h3 q = (computed h q \<or> q \<in> reach h 66672)"
    using build_marks_exactly [OF h(1) p _ _ u(2), of True] by (auto simp: r f)
  have d: "g_done g' = {65568, 65936, 66304, 66672}" using b(4) by (simp add: built_def r f)
  have c: "computed h' 66304" "computed h' 66672" using m b(1) ops by (auto simp: r)
  have ok: "graph_ok h' g'" using st by (simp add: graph_state_def graph_complete_def)
  have lf: "is_leaf h' = is_leaf h" using heap_frame_fun [OF b(3)] by (simp add: b(2))
  have nl: "\<not> is_leaf h 66304" "\<not> is_leaf h 66672"
    using ops(1,2) by (auto simp: is_leaf_def is_op_def split: option.splits)
  have "set (g_node_list g') = {p \<in> g_done g'. \<not> is_leaf h p}" using ok by (auto simp: graph_ok_def g_done_def lf)
  then have "set (g_node_list g') = {66304, 66672}" using ops(3,4) nl by (auto simp: d)
  moreover have "suffix [66672] (g_node_list g')" using b(4) nl by (simp add: built_def ends_with_def f)
  ultimately have "g_node_list g' = [66304, 66672]" using ok by (intro node_list_pair) (auto simp: graph_ok_def)
  moreover have "g_size g' = 8" using b(4) by (simp add: built_def f)
  moreover have "map_option tensor_core (h_tensors h' p) = map_option tensor_core (h_tensors demo_chain p)" for p
    using b(3) by (simp add: b(2) h(2) heap_frame_def)
  ultimately show thesis using that st d c by blast
qed

lemma demo_fusable:
  obtains h g where "graph_state h 67040 g" "g_size g = 8" "g_done g = {65568, 65936, 66304, 66672}"
    "g_nodes g ! 0 = 66304" "g_nodes g ! 1 = 66672" "g_n_nodes g = 2" "srcs h 66672 = 66304 # replicate 9 0"
    "ggml_can_fuse_subgraph_ext h g [0, 1] [GGML_OP_MUL_MAT, GGML_OP_SQR] [1] = Some True"
proof -
  obtain h g where b: "graph_state h 67040 g" "g_size g = 8" "g_done g = {65568, 65936, 66304, 66672}"
    "g_node_list g = [66304, 66672]" "computed h 66304" "computed h 66672"
    "\<And>p. map_option tensor_core (h_tensors h p) = map_option tensor_core (h_tensors demo_chain p)"
    by (rule demo_built) (rule that; assumption)
  have gc: "graph_complete h g" using b(1) by (simp add: graph_state_def)
  then have sh: "graph_shape g" by (simp add: graph_complete_def graph_ok_def)
  have n2: "g_n_nodes g = 2" using list_lengths(1) [OF sh] b(4) by simp
  have n: "g_nodes g ! 0 = 66304" "g_nodes g ! 1 = 66672"
    using node_list_nth [OF sh, of 0] node_list_nth [OF sh, of 1] by (simp_all add: n2 b(4))
  obtain t where t: "h_tensors h 66304 = Some t" "tensor_core t = tensor_core demo_product"
    using b(7) [of 66304] by (auto simp: demo_chain_def demo_nodes_def)
  obtain u where u: "h_tensors h 66672 = Some u"
    "tensor_core u = tensor_core ((demo_matrix 3 2)\<lparr> t_op := GGML_OP_SQR, t_src := (replicate 10 0)[0 := 66304] \<rparr>)"
    using b(7) [of 66672] by (auto simp: demo_chain_def)
  have tf: "t_op t = GGML_OP_MUL_MAT" "t_view_src t = 0" "t_flags t AND GGML_TENSOR_FLAG_OUTPUT = 0"
    "t_flags t AND GGML_TENSOR_FLAG_COMPUTE \<noteq> 0"
    using tensor_core_fields [OF t(2)] core_flags_clear [OF t(2)] b(5) arg_cong [OF t(2), of t_view_src] t(1)
    by (simp_all add: demo_product_def demo_matrix_def computed_def tensor_core_def)
  have uf: "t_op u = GGML_OP_SQR" "t_flags u AND GGML_TENSOR_FLAG_COMPUTE \<noteq> 0" "t_src u = 66304 # replicate 9 0"
    using tensor_core_fields [OF u(2)] b(6) u(1) by (simp_all add: demo_matrix_def computed_def numeral_eq_Suc)
  have "srcs h = srcs demo_chain"
  proof
    fix p
    have "map_option t_src (map_option tensor_core (h_tensors h p)) =
        map_option t_src (map_option tensor_core (h_tensors demo_chain p))" by (simp only: b(7))
    then show "srcs h p = srcs demo_chain p"
      by (cases "h_tensors h p"; cases "h_tensors demo_chain p") (simp_all add: srcs_def tensor_core_def)
  qed
  then have s: "srcs h 66672 = 66304 # replicate 9 0" "srcs h 66304 = [65568, 65936] @ replicate 8 0"
    "srcs h 65568 = replicate 10 0" "srcs h 65936 = replicate 10 0"
    using demo_chain_srcs [of demo_chain] by simp_all
  have "use_count_of g 66304 = i32 (\<Sum>q \<in> g_done g. int (count_list (srcs h q) 66304))"
    using b(1) by (simp add: graph_state_def uses_ok_def)
  also have "\<dots> = 1" by (simp add: b(3) s numeral_eq_Suc i32_id)
  finally have c: "ggml_node_get_use_count g 0 = Some 1"
    using node_use_count [OF sh, of 0] complete_visited [OF gc] by (simp add: n b(3))
  have sub: "subgraph_uses h g 66304 [1] = Some 1"
    using sh n2 by (simp add: subgraph_uses_def n(2) [unfolded One_nat_def] u(1) uf(3) tget_def graph_shape_def numeral_eq_Suc)
  have f0: "node_fusable h g [0, 1] [1] 0 GGML_OP_MUL_MAT [1] = Some True"
    by (simp add: node_fusable_def n2 n t(1) tf tget_def ggml_node_list_find_tensor_def sub c views_within.simps)
  have f1: "node_fusable h g [0, 1] [1] 1 GGML_OP_SQR [] = Some True"
    by (simp add: node_fusable_def n2 n(2) [unfolded One_nat_def] u(1) uf tget_def ggml_node_list_find_tensor_def)
  have "ggml_can_fuse_subgraph_ext h g [0, 1] [GGML_OP_MUL_MAT, GGML_OP_SQR] [1] = Some True"
    by (simp add: ggml_can_fuse_subgraph_ext_def f0 f1)
  then show thesis using that b(1-3) n n2 s(1) by blast
qed

theorem fused_nodes_private_witness:
  "\<exists>h g. ggml_can_fuse_subgraph_ext h g [0, 1] [GGML_OP_MUL_MAT, GGML_OP_SQR] [1] = Some True \<and>
    (\<exists>j. 0 < j \<and> j < 2 \<and> 66672 = g_nodes g ! nat ([0, 1] ! j))"
proof -
  from demo_fusable obtain h g where f: "graph_state h 67040 g" "g_size g = 8" "g_done g = {65568, 65936, 66304, 66672}"
    "g_nodes g ! 0 = 66304" "g_nodes g ! 1 = 66672" "g_n_nodes g = 2" "srcs h 66672 = 66304 # replicate 9 0"
    "ggml_can_fuse_subgraph_ext h g [0, 1] [GGML_OP_MUL_MAT, GGML_OP_SQR] [1] = Some True"
    by (rule demo_fusable)
  have "ggml_node_list_find_tensor g [1] (g_nodes g ! nat ([0, 1] ! 0)) = -1"
    using f(4-6) by (simp add: ggml_node_list_find_tensor_def)
  from fused_nodes_private [OF f(1) _ f(8) _ _ this, of 66672] f(2-4,7) obtain j where
    "0 < j" "j < 2" "66672 = g_nodes g ! nat ([0, 1] ! j)" by auto
  then show ?thesis using f(8) by blast
qed

end
