(* ===== verification/OpsProps.thy ===== *)
theory OpsProps
  imports GraphProps
begin

text \<open>
  What the constructors promise about the tensors they make: shapes, the tensor a view shows, the bytes a
  view may reach, and the calls that are refused.
\<close>

section \<open>Reading a constructor backwards\<close>

definition result_of :: "heap \<Rightarrow> ptr \<Rightarrow> heap \<Rightarrow> ggml_tensor \<Rightarrow> bool" where
  "result_of h r h' t \<longleftrightarrow>
     r \<noteq> NULL \<and> h_tensors h r = None \<and> h_tensors h' = (h_tensors h)(r \<mapsto> t)"

lemma mk_nodeD:
  assumes "creates h m P" "mk_node m fs = Some (r, h')"
  shows "\<exists>t. P t \<and> result_of h r h' (fold (\<lambda>f t. f t) fs t)"
proof -
  from assms(2) obtain h1 t1 where m: "m = Some (r, h1)" and t1: "r \<noteq> NULL" "h_tensors h1 r = Some t1"
    and h': "h' = h1\<lparr> h_tensors := (h_tensors h1)(r \<mapsto> fold (\<lambda>f t. f t) fs t1) \<rparr>"
    by (auto simp: mk_node_def bind_Some_iff tset_Some)
  from createsD [OF assms(1) m] obtain t where t: "new_node h r t h1" "P t" by blast
  then have "t = t1" using t1 by (simp add: new_node_def)
  then show ?thesis using t h' by (auto simp: new_node_def result_of_def)
qed

lemma result_ofD: "result_of h r h' t \<Longrightarrow> h_tensors h' r = Some t"
  by (simp add: result_of_def)

lemmas op_fields = set_op_def set_src_def set_ne_def set_nb_def ggml_format_name_def ggml_set_op_params_def
  ggml_set_op_params_i32_def fresh_tensor_def GGML_MAX_SRC_def

lemma pad_dims_4: "pad_dims 4 [x, y, z, w] = [x, y, z, w]"
  using pad_dims_full [of "[x, y, z, w]"] by (simp add: GGML_MAX_DIMS_def)

lemma result_fields:
  assumes "creates h m P" "mk_node m fs = Some (r, h')" "\<And>t. P t \<Longrightarrow> Q (fold (\<lambda>f t. f t) fs t)"
  shows "\<exists>t. result_of h r h' t \<and> Q t"
  using mk_nodeD [OF assms(1,2)] assms(3) by blast

lemma creates_any_grows: "heap_inv h \<Longrightarrow> creates h m (\<lambda>_. True) \<Longrightarrow> grows h m"
  by (rule creates_grows)

section \<open>Products and sums\<close>

lemma can_mul_mat_iff:
  "ggml_can_mul_mat ta tb = Some True \<longleftrightarrow>
     ne_at ta 0 = ne_at tb 0 \<and> ne_at ta 2 \<noteq> 0 \<and> ne_at ta 2 dvd ne_at tb 2 \<and>
     ne_at ta 3 \<noteq> 0 \<and> ne_at ta 3 dvd ne_at tb 3"
  by (auto simp: ggml_can_mul_mat_def bind_Some_iff smod_eq_0_iff_dvd split: if_splits)

text \<open>
  C9: ggml_mul_mat.  It returns only for matrices with rows of the same length, the first one not
  transposed, whose batch extents divide those of the second one (everything else aborts); the result is a
  contiguous F32 tensor of ne1(a) x ne1(b), with the batch extents of b and the two matrices as sources, at an
  address where no tensor was.  Every other tensor and every graph is as before (the pool gets one more
  object), and the invariant of the pools and tensors is kept.
\<close>

theorem mul_mat_result:
  assumes "heap_inv h" "ggml_mul_mat h ctx a b = Some (r, h')"
  shows "\<exists>ta tb t. h_tensors h a = Some ta \<and> h_tensors h b = Some tb \<and> result_of h r h' t \<and>
    ne_at ta 0 = ne_at tb 0 \<and> \<not> ggml_is_transposed ta \<and>
    ne_at ta 2 dvd ne_at tb 2 \<and> ne_at ta 3 dvd ne_at tb 3 \<and>
    t_type t = GGML_TYPE_F32 \<and> t_ne t = [ne_at ta 1, ne_at tb 1, ne_at tb 2, ne_at tb 3] \<and>
    ggml_is_contiguous t \<and> t_op t = GGML_OP_MUL_MAT \<and> t_src t ! 0 = a \<and> t_src t ! 1 = b \<and> t_view_src t = NULL \<and>
    h_graphs h' = h_graphs h \<and> heap_inv h'"
proof -
  from assms(2) obtain ta :: ggml_tensor and tb :: ggml_tensor
    where ab: "h_tensors h a = Some ta" "h_tensors h b = Some tb" "a \<noteq> NULL" "b \<noteq> NULL"
    and can: "ggml_can_mul_mat ta tb = Some True" and tr: "\<not> ggml_is_transposed ta"
    and m: "mk_node (ggml_new_tensor h ctx GGML_TYPE_F32 4 [ne_at ta 1, ne_at tb 1, ne_at tb 2, ne_at tb 3])
      [set_op GGML_OP_MUL_MAT, set_src 0 a, set_src 1 b] = Some (r, h')"
    by (auto simp: ggml_mul_mat_def bind_Some_iff Let_def split: if_splits)
  have "\<exists>t. result_of h r h' t \<and> t_type t = GGML_TYPE_F32 \<and>
      t_ne t = [ne_at ta 1, ne_at tb 1, ne_at tb 2, ne_at tb 3] \<and> t_nb t = fresh_strides (t_type t) (t_ne t) \<and>
      t_op t = GGML_OP_MUL_MAT \<and> t_src t ! 0 = a \<and> t_src t ! 1 = b \<and> t_view_src t = NULL"
    by (intro result_fields [OF ggml_new_tensor_creates [OF assms(1)] m]) (auto simp: op_fields pad_dims_4)
  then obtain t where t: "result_of h r h' t" "t_type t = GGML_TYPE_F32"
      "t_ne t = [ne_at ta 1, ne_at tb 1, ne_at tb 2, ne_at tb 3]" "t_nb t = fresh_strides (t_type t) (t_ne t)"
      "t_op t = GGML_OP_MUL_MAT" "t_src t ! 0 = a" "t_src t ! 1 = b" "t_view_src t = NULL" by blast
  have "grows h (ggml_mul_mat h ctx a b)"
    using ab by (intro creates_any_grows shape_a_b_creates assms(1) live_Some)
  then have "extends h h'" using growsD assms(2) by blast
  then have "heap_inv h'" "h_graphs h' = h_graphs h" by (simp_all add: extends_def)
  with t contiguous_of_strides [OF t(4)] ab tr can show ?thesis unfolding can_mul_mat_iff by blast
qed

corollary mul_mat_result_witness:
  "\<exists>t. h_tensors demo_nodes 66304 = Some t \<and> t_ne t = [3, 2, 1, 1] \<and> ggml_is_contiguous t"
  using mul_mat_result [OF demo_heap_inv(1) demo_mul_mat] result_ofD
  by (fastforce simp: demo_heap_lookup demo_matrix_fields)


text \<open>
  C36: the element-wise operations.  ggml_add, ggml_sub, ggml_mul and ggml_div abort unless b can be
  repeated to the shape of a; the result has the type and the extents of a, packed.  The
  heap satisfies the invariant of the pools.
\<close>

theorem broadcast_result:
  assumes "heap_inv h"
    and "(op, m) \<in> {(GGML_OP_ADD, ggml_add h ctx a b), (GGML_OP_SUB, ggml_sub h ctx a b),
         (GGML_OP_MUL, ggml_mul h ctx a b), (GGML_OP_DIV, ggml_div h ctx a b)}"
    and "m = Some (r, h')"
  shows "\<exists>ta tb t. h_tensors h a = Some ta \<and> h_tensors h b = Some tb \<and> result_of h r h' t \<and>
    ggml_can_repeat tb ta \<and> t_type t = t_type ta \<and> t_ne t = t_ne ta \<and> ggml_is_contiguous t \<and>
    t_op t = op \<and>
    t_src t ! 0 = a \<and> t_src t ! 1 = b \<and> t_view_src t = NULL"
proof -
  from assms(2,3) have
    "op = GGML_OP_ADD \<and> ggml_add h ctx a b = Some (r, h') \<or> op = GGML_OP_SUB \<and> ggml_sub h ctx a b = Some (r, h') \<or>
     op = GGML_OP_MUL \<and> ggml_mul h ctx a b = Some (r, h') \<or> op = GGML_OP_DIV \<and> ggml_div h ctx a b = Some (r, h')"
    by auto
  then obtain ta tb where ab: "h_tensors h a = Some ta" "h_tensors h b = Some tb" "ggml_can_repeat tb ta"
    and m: "mk_node (ggml_dup_tensor h ctx a) [set_op op, set_src 0 a, set_src 1 b] = Some (r, h')"
    by (auto simp: ggml_add_def ggml_add_impl_def ggml_sub_def ggml_sub_impl_def ggml_mul_def
        ggml_mul_impl_def ggml_div_def ggml_div_impl_def bind_Some_iff split: if_splits)
  have "\<exists>t. result_of h r h' t \<and> t_type t = t_type ta \<and> t_ne t = t_ne ta \<and>
      t_nb t = fresh_strides (t_type t) (t_ne t) \<and> t_op t = op \<and>
      t_src t ! 0 = a \<and> t_src t ! 1 = b \<and> t_view_src t = NULL"
    using ab(1) by (intro result_fields [OF ggml_dup_tensor_creates [OF assms(1)] m]) (auto simp: op_fields)
  with ab contiguous_of_strides show ?thesis by blast
qed

section \<open>Views\<close>

lemma view_base_base:
  assumes "view_base h a 0 = Some (vs, vo)" "a \<noteq> NULL" "h_tensors h' r = Some t" "r \<noteq> NULL"
    "t_view_src t = vs" "t_view_offs t = vo"
  shows "view_base h' r 0 = Some (vs, vo)"
proof -
  from assms(1,2) have "vs \<noteq> NULL" "u64 vo = vo"
    by (auto simp: view_base_def bind_Some_iff u64_def split: if_splits)

  then show ?thesis using assms(3-6) by (simp add: view_base_def tget_def)
qed

lemma swap_first_two:
  "length xs = GGML_MAX_DIMS \<Longrightarrow>
     (let ys = xs[0 := xs ! 1, 1 := xs ! 0] in ys[0 := ys ! 1, 1 := ys ! 0]) = xs"
  by (auto simp: Let_def nth_list_update GGML_MAX_DIMS_def intro!: nth_equalityI)

text \<open>What one transposition makes of its argument.\<close>

lemma transpose_step:
  assumes "heap_inv h" "ggml_transpose h ctx a = Some (r, h')"
  obtains ta t :: ggml_tensor where "h_tensors h a = Some ta" "a \<noteq> NULL" "result_of h r h' t"
    "t_type t = t_type ta" "t_ne t = (t_ne ta)[0 := ne_at ta 1, 1 := ne_at ta 0]"
    "t_nb t = (t_nb ta)[0 := nb_at ta 1, 1 := nb_at ta 0]"
    "view_base h a 0 = Some (t_view_src t, t_view_offs t)"
proof -
  from assms(2) obtain ta :: ggml_tensor where a: "h_tensors h a = Some ta" "a \<noteq> NULL"
    and m: "mk_node (ggml_view_tensor h ctx a)
       [ggml_format_name (t_name ta @ '' (transposed)''),
        set_ne 0 (ne_at ta 1), set_ne 1 (ne_at ta 0), set_nb 0 (nb_at ta 1), set_nb 1 (nb_at ta 0),
        set_op GGML_OP_TRANSPOSE, set_src 0 a] = Some (r, h')"
    by (auto simp: ggml_transpose_def bind_Some_iff)
  have "\<exists>t. result_of h r h' t \<and> t_type t = t_type ta \<and> t_ne t = (t_ne ta)[0 := ne_at ta 1, 1 := ne_at ta 0] \<and>
      t_nb t = (t_nb ta)[0 := nb_at ta 1, 1 := nb_at ta 0] \<and> view_base h a 0 = Some (t_view_src t, t_view_offs t)"
    using a by (intro result_fields [OF ggml_view_tensor_creates [OF assms(1)] m]) (auto simp: op_fields)
  with a that show ?thesis by blast
qed

text \<open>
  C37: transposing twice gives the tensor back: a view with the type, the extents and the strides of a,
  starting at the same byte of the same base.
\<close>

theorem transpose_twice:
  assumes "heap_inv h" "ggml_transpose h ctx a = Some (r1, h1)" "ggml_transpose h1 ctx r1 = Some (r2, h2)"
  shows "\<exists>ta t. h_tensors h a = Some ta \<and> h_tensors h2 r2 = Some t \<and> t_type t = t_type ta \<and>
    t_ne t = t_ne ta \<and> t_nb t = t_nb ta \<and> view_base h2 r2 0 = view_base h a 0"
proof -
  obtain ta t1 :: ggml_tensor where a: "h_tensors h a = Some ta" "a \<noteq> NULL" "result_of h r1 h1 t1"
    "t_type t1 = t_type ta" "t_ne t1 = (t_ne ta)[0 := ne_at ta 1, 1 := ne_at ta 0]"
    "t_nb t1 = (t_nb ta)[0 := nb_at ta 1, 1 := nb_at ta 0]"
    and v1: "view_base h a 0 = Some (t_view_src t1, t_view_offs t1)"
    using transpose_step [OF assms(1,2)] by metis
  have "grows h (ggml_transpose h ctx a)"
    using a by (intro creates_any_grows shape_a_creates assms(1) live_Some)
  then have inv: "heap_inv h1" using growsD assms(2) extends_inv by blast
  obtain t1' t2 :: ggml_tensor where b: "h_tensors h1 r1 = Some t1'" "r1 \<noteq> NULL" "result_of h1 r2 h2 t2"
    "t_type t2 = t_type t1'" "t_ne t2 = (t_ne t1')[0 := ne_at t1' 1, 1 := ne_at t1' 0]"
    "t_nb t2 = (t_nb t1')[0 := nb_at t1' 1, 1 := nb_at t1' 0]"
    and v2: "view_base h1 r1 0 = Some (t_view_src t2, t_view_offs t2)"
    using transpose_step [OF inv assms(3)] by metis
  have t1: "t1' = t1" using b(1) a(3) by (simp add: result_of_def)
  have len: "length (t_ne ta) = GGML_MAX_DIMS" "length (t_nb ta) = GGML_MAX_DIMS"
    using node_wf_shape a(1) assms(1) by (auto simp: heap_inv_def)
  have "view_base h1 r1 0 = view_base h a 0"
    using view_base_base [OF v1 a(2) b(1,2)] v1 t1 by simp
  then have "view_base h2 r2 0 = view_base h a 0"
    using view_base_base [OF v2 b(2), of h2 r2 t2] b(3) v2 by (simp add: result_of_def)
  moreover have "t_ne t2 = t_ne ta" "t_nb t2 = t_nb ta"
    using swap_first_two [OF len(1)] swap_first_two [OF len(2)] b(5,6) a(5,6) unfolding t1 Let_def by simp_all
  ultimately show ?thesis using a(1,4) b(3,4) t1 result_ofD by auto
qed


lemma demo_nbytes: "ggml_nbytes (demo_matrix 4 3) = 48"
  by (simp add: ggml_nbytes_def nbytes_strides_def demo_matrix_def u64_def GGML_MAX_DIMS_def upt_rec)

text \<open>The pool of PoolLife with one or two more tensors: every allocation there has this form.\<close>

definition demo_put :: "ggml_tensor \<Rightarrow> heap" where
  "demo_put t = demo_nodes\<lparr> h_tensors := [65568 \<mapsto> demo_matrix 4 3, 65936 \<mapsto> demo_matrix 4 2, 66304 \<mapsto> t] \<rparr>"

definition demo_put2 :: "ggml_tensor \<Rightarrow> ggml_tensor \<Rightarrow> heap" where
  "demo_put2 t u = demo_chain\<lparr> h_tensors := [65568 \<mapsto> demo_matrix 4 3, 65936 \<mapsto> demo_matrix 4 2, 66304 \<mapsto> t, 66672 \<mapsto> u] \<rparr>"

lemma demo_lookup:
  "cget demo_heap 64 = Some (demo_ctx 2 65536 65904)" "cget (demo_put t) 64 = Some (demo_ctx 3 65536 66272)"
  "tget demo_heap 65568 = Some (demo_matrix 4 3)" "tget demo_heap 65936 = Some (demo_matrix 4 2)"
  "tget (demo_put t) 65568 = Some (demo_matrix 4 3)" "tget (demo_put t) 66304 = Some t"
  by (simp_all add: cget_def tget_def demo_heap_def demo_put_def demo_nodes_def)

lemma demo_place:
  "place_tensor demo_heap 64 ty ne vs vo dat 0 = Some (66304, demo_put (fresh_tensor ty ne vs vo dat))"
  by (simp add: alloc_eval demo_heap_def demo_put_def demo_nodes_def demo_ctx_def)

lemma demo_place2:
  "place_tensor (demo_put t) 64 ty ne vs vo dat 0 = Some (66672, demo_put2 t (fresh_tensor ty ne vs vo dat))"
  by (simp add: alloc_eval demo_put_def demo_put2_def demo_chain_def demo_nodes_def demo_ctx_def)

lemma demo_mk_node:
  "mk_node (Some (66304, demo_put t)) fs = Some (66304, demo_put (fold (\<lambda>f t. f t) fs t))"
  "mk_node (Some (66672, demo_put2 t u)) fs = Some (66672, demo_put2 t (fold (\<lambda>f t. f t) fs u))"
  by (simp_all add: mk_node_def tset_def tget_def demo_put_def demo_put2_def)

lemmas demo_eval = ggml_new_tensor_def ggml_new_tensor_impl_def Let_def demo_lookup demo_place demo_place2 demo_mk_node
  ggml_view_tensor_mk_node ggml_dup_tensor_def ggml_row_size_def demo_nbytes demo_matrix_fields view_base_def

lemma demo_view_impl:
  assumes "1 \<le> nd" "nd \<le> GGML_MAX_DIMS" "0 \<le> offs"
    "fold (\<lambda>i s. u64 (s * ne ! i)) [1..<nd] (ggml_row_size ty (ne ! 0)) \<le> 48 - offs"
  shows "ggml_new_tensor_impl demo_heap 64 ty nd ne 65568 offs =
      Some (66304, demo_put (fresh_tensor ty (pad_dims nd ne) 65568 offs 0))"
    and "t_view_src t = 65568 \<Longrightarrow> t_view_offs t = 0 \<Longrightarrow> ggml_new_tensor_impl (demo_put t) 64 ty nd ne 66304 offs =
      Some (66672, demo_put2 t (fresh_tensor ty (pad_dims nd ne) 65568 offs 0))"
proof -
  let ?s = "fold (\<lambda>i s. u64 (s * ne ! i)) [1..<nd] (ggml_row_size ty (ne ! 0))"
  have d: "t_data (demo_matrix 4 3) = 0" "c_no_alloc (demo_ctx n b e)" for n b e
    by (simp_all add: demo_matrix_def demo_ctx_def)
  have "0 \<le> ?s" by (rule data_size_nonneg)
  then have u: "u64 (?s + offs) \<le> 48" "u64 offs = offs" using assms(3,4) by (simp_all add: u64_id)
  show "ggml_new_tensor_impl demo_heap 64 ty nd ne 65568 offs =
      Some (66304, demo_put (fresh_tensor ty (pad_dims nd ne) 65568 offs 0))"
    using assms u d by (simp add: demo_eval del: tget_Some)
  show "ggml_new_tensor_impl (demo_put t) 64 ty nd ne 66304 offs =
      Some (66672, demo_put2 t (fresh_tensor ty (pad_dims nd ne) 65568 offs 0))"
    if "t_view_src t = 65568" "t_view_offs t = 0"
    using assms u d that by (simp add: demo_eval del: tget_Some)
qed

lemma demo_put_inj: "demo_put t = demo_put u \<longleftrightarrow> t = u"
proof
  assume "demo_put t = demo_put u"
  then have "h_tensors (demo_put t) 66304 = h_tensors (demo_put u) 66304" by simp
  then show "t = u" by (simp add: demo_put_def)
qed simp

lemma demo_transpose:
  "\<exists>h1 h2. ggml_transpose demo_heap 64 65568 = Some (66304, h1) \<and> ggml_transpose h1 64 66304 = Some (66672, h2)"
proof -
  have ne: "t_ne (demo_matrix 4 3) = [4, 3, 1, 1]" "t_type (demo_matrix 4 3) = GGML_TYPE_F32"
    by (simp_all add: demo_matrix_def)
  have "\<exists>t. ggml_transpose demo_heap 64 65568 = Some (66304, demo_put t) \<and>
    t_view_src t = 65568 \<and> t_view_offs t = 0 \<and> t_ne t = [3, 4, 1, 1] \<and> t_type t = GGML_TYPE_F32"
    by (simp add: ggml_transpose_def ggml_view_tensor_mk_node demo_lookup demo_view_impl demo_mk_node ne
        ggml_row_size_def GGML_MAX_DIMS_def upt_rec u64_def demo_matrix_fields op_fields pad_dims_4 demo_put_inj
        del: tget_Some)
  then obtain t where t: "ggml_transpose demo_heap 64 65568 = Some (66304, demo_put t)"
    "t_view_src t = 65568" "t_view_offs t = 0" "t_ne t = [3, 4, 1, 1]" "t_type t = GGML_TYPE_F32" by blast
  have "\<exists>h2. ggml_transpose (demo_put t) 64 66304 = Some (66672, h2)"
    using t(2-) by (simp add: ggml_transpose_def ggml_view_tensor_mk_node demo_lookup demo_view_impl demo_mk_node
        ggml_row_size_def GGML_MAX_DIMS_def upt_rec u64_def del: tget_Some)
  with t show ?thesis by blast
qed

corollary transpose_twice_witness:
  "\<exists>h1 h2 t. ggml_transpose demo_heap 64 65568 = Some (66304, h1) \<and>
     ggml_transpose h1 64 66304 = Some (66672, h2) \<and> h_tensors h2 66672 = Some t \<and> t_ne t = [4, 3, 1, 1]"
proof -
  obtain h1 h2 where r: "ggml_transpose demo_heap 64 65568 = Some (66304, h1)"
    "ggml_transpose h1 64 66304 = Some (66672, h2)" using demo_transpose by blast
  from transpose_twice [OF demo_heap_inv(1) r] r show ?thesis
    by (auto simp: demo_heap_lookup) (simp add: demo_matrix_def)
qed


section \<open>Bytes of a view\<close>

text \<open>The size ggml_new_tensor_impl checks is the one ggml_nbytes computes for packed strides.\<close>

lemma data_size_nbytes:
  fixes vs :: ptr and vo :: int and dat :: ptr
  assumes "sane_shape ty (pad_dims nd ne)" "1 \<le> nd" "nd \<le> GGML_MAX_DIMS"
  defines "t \<equiv> fresh_tensor ty (pad_dims nd ne) vs vo dat"
  shows "fold (\<lambda>i s. u64 (s * ne ! i)) [1..<nd] (ggml_row_size ty (ne ! 0)) = ggml_nbytes t"
    and "0 < ggml_nbytes t" "ggml_nbytes t < 2 ^ 63"
proof -
  let ?p = "pad_dims nd ne"
  have f: "t_type t = ty" "t_ne t = ?p" "t_nb t = fresh_strides ty ?p"
    by (simp_all add: t_def fresh_tensor_def)
  let ?R = "ggml_row_size ty (?p ! 0)"
  have R: "?R = ggml_type_size ty * (?p ! 0 div ggml_blck_size ty)" and
    n: "ggml_nbytes t = ?R * ?p ! 1 * ?p ! 2 * ?p ! 3"
    using nbytes_of_strides [of t] assms(1) f by simp_all
  note b = fresh_strides_sane(2-7) [OF assms(1), folded R]
  show "0 < ggml_nbytes t" "ggml_nbytes t < 2 ^ 63" using b n by simp_all
  have w: "u64 (?R * ?p ! 1) = ?R * ?p ! 1" "u64 (?R * ?p ! 1 * ?p ! 2) = ?R * ?p ! 1 * ?p ! 2"
    "u64 (?R * ?p ! 1 * ?p ! 2 * ?p ! 3) = ?R * ?p ! 1 * ?p ! 2 * ?p ! 3"
    using b by (intro u64_id; linarith)+
  have p: "?p ! i = (if i < nd then ne ! i else 1)" if "i < 4" for i
    using that by (simp add: pad_dims_def GGML_MAX_DIMS_def)
  have "nd = 1 \<or> nd = 2 \<or> nd = 3 \<or> nd = 4" using assms(2,3) unfolding GGML_MAX_DIMS_def by arith
  then show "fold (\<lambda>i s. u64 (s * ne ! i)) [1..<nd] (ggml_row_size ty (ne ! 0)) = ggml_nbytes t"
    by (elim disjE) (use w n p in \<open>simp_all add: upt_rec numeral_eq_Suc\<close>)
qed

definition inside_base :: "heap \<Rightarrow> ptr \<Rightarrow> bool" where
  "inside_base h r \<longleftrightarrow> (\<exists>t v. h_tensors h r = Some t \<and> h_tensors h (t_view_src t) = Some v \<and>
     t_view_src v = NULL \<and> 0 \<le> t_view_offs t \<and> t_view_offs t + ggml_nbytes t \<le> ggml_nbytes v)"

definition base_offs :: "ggml_tensor \<Rightarrow> int" where
  "base_offs t = (if t_view_src t = NULL then 0 else t_view_offs t)"

lemma nbytes_range: "0 \<le> ggml_nbytes t" "ggml_nbytes t < 2 ^ 64"
  by (simp_all add: ggml_nbytes_def nbytes_strides_def GGML_MAX_DIMS_def upt_rec numeral_eq_Suc u64_def)

text \<open>
  ggml_new_tensor_impl compares the size plus the offset with the size of the base, as numbers of 64 bits.  So a
  packed view is inside its base exactly if this sum does not wrap around.
\<close>

lemma packed_view_inside:
  assumes inv: "heap_inv h" and a: "h_tensors h a = Some ta" "a \<noteq> NULL"
    and m: "mk_node (ggml_new_tensor_impl h ctx ty nd ne a offs) fs = Some (r, h')"
    and sane: "sane_shape ty (pad_dims nd ne)"
    and offs: "0 \<le> offs" "offs < 2 ^ 64"
    and fs: "\<And>t. t_type (fold (\<lambda>f t. f t) fs t) = t_type t \<and> t_ne (fold (\<lambda>f t. f t) fs t) = t_ne t \<and>
      t_nb (fold (\<lambda>f t. f t) fs t) = t_nb t \<and> t_view_src (fold (\<lambda>f t. f t) fs t) = t_view_src t \<and>
      t_view_offs (fold (\<lambda>f t. f t) fs t) = t_view_offs t"
  shows "\<exists>t. result_of h r h' t \<and> t_type t = ty \<and> t_ne t = pad_dims nd ne \<and> ggml_is_contiguous t \<and>
    t_view_src t = (if t_view_src ta = NULL then a else t_view_src ta) \<and> t_view_offs t = u64 (offs + base_offs ta) \<and>
    (inside_base h' r \<longleftrightarrow> t_view_offs t + ggml_nbytes t < 2 ^ 64)"
proof -
  let ?vs = "if t_view_src ta = NULL then a else t_view_src ta" and ?vo = "u64 (offs + base_offs ta)"
  have vb: "view_base h a offs = Some (?vs, ?vo)"
    using a offs by (auto simp: view_base_def tget_def base_offs_def u64_id)
  obtain h1 where m1: "ggml_new_tensor_impl h ctx ty nd ne a offs = Some (r, h1)"
    using m by (auto simp: mk_node_def bind_Some_iff)
  have vs: "?vs \<noteq> NULL" using a(2) by simp
  from m1 vb vs obtain v :: ggml_tensor where v: "h_tensors h ?vs = Some v" and nd: "1 \<le> nd" "nd \<le> GGML_MAX_DIMS"
    and le: "fold (\<lambda>i s. u64 (s * ne ! i)) [1..<nd] (ggml_row_size ty (ne ! 0)) = 0 \<or>
      u64 (fold (\<lambda>i s. u64 (s * ne ! i)) [1..<nd] (ggml_row_size ty (ne ! 0)) + ?vo) \<le> ggml_nbytes v"
    by (auto simp: ggml_new_tensor_impl_def bind_Some_iff Let_def split: if_splits)
  have "\<exists>t. result_of h r h' t \<and> t_type t = ty \<and> t_ne t = pad_dims nd ne \<and> t_nb t = fresh_strides ty (pad_dims nd ne) \<and>
      t_view_src t = ?vs \<and> t_view_offs t = ?vo"
    by (intro result_fields [OF ggml_new_tensor_impl_creates [OF inv] m]) (auto simp: vb fs fresh_tensor_def)
  then obtain t where t: "result_of h r h' t" "t_type t = ty" "t_ne t = pad_dims nd ne"
    "t_nb t = fresh_strides ty (pad_dims nd ne)" "t_view_src t = ?vs" "t_view_offs t = ?vo" by blast
  have n: "ggml_nbytes t = ggml_nbytes (fresh_tensor ty (pad_dims nd ne) ?vs ?vo 0)"
    using t by (simp add: ggml_nbytes_def nbytes_strides_def fresh_tensor_def)
  have "u64 (ggml_nbytes t + ?vo) \<le> ggml_nbytes v"
    using le data_size_nbytes [OF sane nd, of ?vs ?vo 0] unfolding n by auto
  moreover have pos: "0 \<le> ?vo" by (simp add: u64_def)
  then have "u64 (ggml_nbytes t + ?vo) = ggml_nbytes t + ?vo" if "?vo + ggml_nbytes t < 2 ^ 64"
    using nbytes_range(1) [of t] that by (intro u64_id) simp_all
  ultimately have "?vo + ggml_nbytes t < 2 ^ 64 \<longleftrightarrow> ?vo + ggml_nbytes t \<le> ggml_nbytes v"
    using nbytes_range(2) [of v] by fastforce
  moreover have "t_view_src v = NULL"
    using view_base_root [OF _ vb] inv v vs by (auto simp: heap_inv_def split: if_splits)
  moreover have "h_tensors h' ?vs = Some v" using v t(1) by (auto simp: result_of_def)
  ultimately have "inside_base h' r \<longleftrightarrow> t_view_offs t + ggml_nbytes t < 2 ^ 64"
    unfolding inside_base_def using t(5,6) result_ofD [OF t(1)] pos by simp
  then show ?thesis using t contiguous_of_strides [of t] by auto
qed

lemma inside_fields:
  "fold (\<lambda>f t. f t) [ggml_format_name s, set_op op, set_src 0 a] t =
     t\<lparr> t_name := take 63 s, t_op := op, t_src := (t_src t)[0 := a] \<rparr>"
  "fold (\<lambda>f t. f t) [ggml_format_name s, ggml_set_op_params ps, set_op op, set_src 0 a] t =
     t\<lparr> t_name := take 63 s, t_op_params := ps @ drop (length ps) (t_op_params t), t_op := op, t_src := (t_src t)[0 := a] \<rparr>"
  by (simp_all add: op_fields GGML_MAX_NAME_def)

text \<open>
  C38: the bytes of a one-dimensional view.  For an extent that is positive, holds whole blocks and has less than
  2^63 bytes (sane_shape), and an offset of 64 bits: when ggml_view_1d returns, the result is a packed tensor of
  this extent on the base of a, at the offset plus the offset of a, modulo 2^64; and its bytes are bytes of the
  base, which is no view itself, if and only if offset and size together stay below 2^64.  The condition is needed: the
  guard of ggml_new_tensor_impl adds the two modulo 2^64.
\<close>

theorem view_1d_inside:
  assumes "heap_inv h" "h_tensors h a = Some ta" "ggml_view_1d h ctx a ne0 offs = Some (r, h')"
    and "sane_shape (t_type ta) [ne0, 1, 1, 1]" "0 \<le> offs" "offs < 2 ^ 64"
  shows "\<exists>t. result_of h r h' t \<and> t_type t = t_type ta \<and> t_ne t = [ne0, 1, 1, 1] \<and> ggml_is_contiguous t \<and>
    t_view_src t = (if t_view_src ta = NULL then a else t_view_src ta) \<and> t_view_offs t = u64 (offs + base_offs ta) \<and>
    (inside_base h' r \<longleftrightarrow> t_view_offs t + ggml_nbytes t < 2 ^ 64)"
proof -
  have p: "pad_dims 1 [ne0] = [ne0, 1, 1, 1]" by (simp add: pad_dims_def GGML_MAX_DIMS_def upt_rec)
  from assms(2,3) have "a \<noteq> NULL" and
    m: "mk_node (ggml_new_tensor_impl h ctx (t_type ta) 1 [ne0] a offs)
       [ggml_format_name (t_name ta @ '' (view)''), ggml_set_op_params [word_of_int offs, word_of_int (offs div 2 ^ 32)],
        set_op GGML_OP_VIEW, set_src 0 a] = Some (r, h')"
    by (auto simp: ggml_view_1d_def ggml_view_impl_def bind_Some_iff)
  from packed_view_inside [OF assms(1,2) this] assms(4-6) show ?thesis
    unfolding p inside_fields by auto
qed

lemma reshape_call:
  assumes "h_tensors h a = Some ta"
    and "(ne, m) \<in> {([ne0, 1, 1, 1], ggml_reshape_1d h ctx a ne0), ([ne0, ne1, 1, 1], ggml_reshape_2d h ctx a ne0 ne1),
      ([ne0, ne1, ne2, 1], ggml_reshape_3d h ctx a ne0 ne1 ne2), ([ne0, ne1, ne2, ne3], ggml_reshape_4d h ctx a ne0 ne1 ne2 ne3)}"
    and "m = Some (r, h')"
  shows "\<exists>nd l. a \<noteq> NULL \<and> ggml_is_contiguous ta \<and> pad_dims nd l = ne \<and>
      ggml_nelements ta = i64 (ne ! 0 * ne ! 1 * ne ! 2 * ne ! 3) \<and>
      mk_node (ggml_new_tensor_impl h ctx (t_type ta) nd l a 0)
       [ggml_format_name (t_name ta @ '' (reshaped)''), set_op GGML_OP_RESHAPE, set_src 0 a] = Some (r, h')"
    (is "\<exists>nd l. ?Q nd l ne")
proof -
  have p: "pad_dims (Suc 0) [ne0] = [ne0, 1, 1, 1]" "pad_dims 2 [ne0, ne1] = [ne0, ne1, 1, 1]"
    "pad_dims 3 [ne0, ne1, ne2] = [ne0, ne1, ne2, 1]" by (simp_all add: pad_dims_def GGML_MAX_DIMS_def upt_rec)
  note rs = ggml_reshape_1d_def ggml_reshape_2d_def ggml_reshape_3d_def ggml_reshape_4d_def
  from assms(2,3) consider
      (1) "ne = [ne0, 1, 1, 1]" "ggml_reshape_1d h ctx a ne0 = Some (r, h')"
    | (2) "ne = [ne0, ne1, 1, 1]" "ggml_reshape_2d h ctx a ne0 ne1 = Some (r, h')"
    | (3) "ne = [ne0, ne1, ne2, 1]" "ggml_reshape_3d h ctx a ne0 ne1 ne2 = Some (r, h')"
    | (4) "ne = [ne0, ne1, ne2, ne3]" "ggml_reshape_4d h ctx a ne0 ne1 ne2 ne3 = Some (r, h')"
    by auto
  then show ?thesis
  proof cases
    case 1
    moreover from this have "ggml_nelements ta = i64 (ggml_nelements ta)" by (simp add: ggml_nelements_def)
    ultimately have "?Q 1 [ne0] ne" using assms(1) by (auto simp: rs p bind_Some_iff split: if_splits)
    then show ?thesis by blast
  next
    case 2
    then have "?Q 2 [ne0, ne1] ne" using assms(1) by (auto simp: rs p bind_Some_iff split: if_splits)
    then show ?thesis by blast
  next
    case 3
    then have "?Q 3 [ne0, ne1, ne2] ne" using assms(1) by (auto simp: rs p bind_Some_iff split: if_splits)
    then show ?thesis by blast
  next
    case 4
    then have "?Q 4 [ne0, ne1, ne2, ne3] ne" using assms(1) by (auto simp: rs pad_dims_4 bind_Some_iff split: if_splits)
    then show ?thesis by blast
  qed
qed

text \<open>
  C39: reshaping.  ggml_reshape_1d to ggml_reshape_4d return only for a packed tensor and the same number of
  elements; the result is a packed tensor of the type of a and of exactly the extents asked for, padded with ones, with
  a as its source, and its view base is a, or the view base of a if a is a view itself.  If moreover the extents are
  positive, hold whole blocks and have less than 2^63 bytes (sane_shape), and the offset of a in its base is a number of
  64 bits, then the result starts where a starts, and stays inside the base if and only if this offset and its size
  together stay below 2^64 (the guard of the code adds them modulo 2^64).
\<close>

theorem reshape_result:
  assumes "heap_inv h" "h_tensors h a = Some ta"
    and "(ne, m) \<in> {([ne0, 1, 1, 1], ggml_reshape_1d h ctx a ne0), ([ne0, ne1, 1, 1], ggml_reshape_2d h ctx a ne0 ne1),
      ([ne0, ne1, ne2, 1], ggml_reshape_3d h ctx a ne0 ne1 ne2), ([ne0, ne1, ne2, ne3], ggml_reshape_4d h ctx a ne0 ne1 ne2 ne3)}"
    and "m = Some (r, h')"
  shows "\<exists>t. result_of h r h' t \<and> ggml_is_contiguous ta \<and> t_type t = t_type ta \<and> t_ne t = ne \<and>
    ggml_nelements t = ggml_nelements ta \<and> ggml_is_contiguous t \<and> t_op t = GGML_OP_RESHAPE \<and> t_src t ! 0 = a \<and>
    t_view_src t = (if t_view_src ta = NULL then a else t_view_src ta) \<and>
    (sane_shape (t_type ta) ne \<longrightarrow> 0 \<le> base_offs ta \<longrightarrow> base_offs ta < 2 ^ 64 \<longrightarrow>
      t_view_offs t = base_offs ta \<and> (inside_base h' r \<longleftrightarrow> base_offs ta + ggml_nbytes t < 2 ^ 64))"
proof -
  from reshape_call [OF assms(2-4)] obtain nd l where "a \<noteq> NULL" and c: "ggml_is_contiguous ta" and p: "pad_dims nd l = ne" and
    n: "ggml_nelements ta = i64 (ne ! 0 * ne ! 1 * ne ! 2 * ne ! 3)" and
    m: "mk_node (ggml_new_tensor_impl h ctx (t_type ta) nd l a 0)
       [ggml_format_name (t_name ta @ '' (reshaped)''), set_op GGML_OP_RESHAPE, set_src 0 a] = Some (r, h')"
    by blast
  have "\<exists>t. result_of h r h' t \<and> t_type t = t_type ta \<and> t_ne t = ne \<and>
      t_nb t = fresh_strides (t_type t) (t_ne t) \<and> t_op t = GGML_OP_RESHAPE \<and> t_src t ! 0 = a \<and>
      t_view_src t = (if t_view_src ta = NULL then a else t_view_src ta)"
    using \<open>a \<noteq> NULL\<close> assms(2) by (intro result_fields [OF ggml_new_tensor_impl_creates [OF assms(1)] m])
      (auto simp: op_fields view_base_def bind_Some_iff p split: if_splits)
  then obtain t where t: "result_of h r h' t" "t_type t = t_type ta" "t_ne t = ne"
    "t_nb t = fresh_strides (t_type t) (t_ne t)" "t_op t = GGML_OP_RESHAPE" "t_src t ! 0 = a"
    "t_view_src t = (if t_view_src ta = NULL then a else t_view_src ta)" by blast
  have "t_view_offs t = base_offs ta \<and> (inside_base h' r \<longleftrightarrow> base_offs ta + ggml_nbytes t < 2 ^ 64)"
    if sane: "sane_shape (t_type ta) ne" and offs: "0 \<le> base_offs ta" "base_offs ta < 2 ^ 64"
  proof -
    obtain t' where t': "result_of h r h' t'" "t_view_offs t' = u64 (0 + base_offs ta)"
      "inside_base h' r \<longleftrightarrow> t_view_offs t' + ggml_nbytes t' < 2 ^ 64"
      using packed_view_inside [OF assms(1,2) \<open>a \<noteq> NULL\<close> m] sane unfolding inside_fields p by auto
    moreover have "t' = t" using result_ofD [OF t'(1)] result_ofD [OF t(1)] by simp
    ultimately show ?thesis using u64_id offs by simp
  qed
  moreover have "ggml_nelements t = ggml_nelements ta" using n t(3) by (simp add: ggml_nelements_def)
  ultimately show ?thesis using t c contiguous_of_strides [OF t(4)] by blast
qed

lemma demo_base: "base_offs (demo_matrix m n) = 0" "t_type (demo_matrix m n) = GGML_TYPE_F32"
  by (simp_all add: base_offs_def demo_matrix_def)

text \<open>Views of the 48 bytes of the first matrix, as the guard of the code admits them.\<close>

lemma demo_view_1d:
  assumes "ggml_row_size GGML_TYPE_F32 n = 4 * n" "0 \<le> offs" "u64 (4 * n + offs) \<le> 48"
  obtains t where "ggml_view_1d demo_heap 64 65568 n offs = Some (66304, demo_put t)" "h_tensors (demo_put t) 66304 = Some t"
    "t_type t = GGML_TYPE_F32" "t_ne t = [n, 1, 1, 1]" "t_nb t = fresh_strides GGML_TYPE_F32 [n, 1, 1, 1]"
    "t_view_src t = 65568" "t_view_offs t = offs"
proof -
  have d: "t_data (demo_matrix 4 3) = 0" "c_no_alloc (demo_ctx m b e)" for m b e
    by (simp_all add: demo_matrix_def demo_ctx_def)
  have p: "pad_dims 1 [n] = [n, 1, 1, 1]" by (simp add: pad_dims_def GGML_MAX_DIMS_def upt_rec)
  let ?t = "fold (\<lambda>f t. f t) [ggml_format_name (t_name (demo_matrix 4 3) @ '' (view)''),
    ggml_set_op_params [word_of_int offs, word_of_int (offs div 2 ^ 32)], set_op GGML_OP_VIEW, set_src 0 65568]
    (fresh_tensor GGML_TYPE_F32 [n, 1, 1, 1] 65568 offs 0)"
  have i: "ggml_new_tensor_impl demo_heap 64 GGML_TYPE_F32 1 [n] 65568 offs =
      Some (66304, demo_put (fresh_tensor GGML_TYPE_F32 [n, 1, 1, 1] 65568 offs 0))"
    using assms by (simp add: ggml_new_tensor_impl_def Let_def demo_lookup demo_place view_base_def demo_nbytes
        demo_matrix_fields GGML_MAX_DIMS_def d p del: tget_Some One_nat_def)
  have "ggml_view_1d demo_heap 64 65568 n offs = Some (66304, demo_put ?t)"
    by (simp only: ggml_view_1d_def ggml_view_impl_def demo_lookup demo_base bind.bind_lunit i demo_mk_node)
  then show thesis by (rule that) (simp_all add: op_fields demo_put_def)
qed

corollary view_1d_inside_witness:
  "\<exists>h'. ggml_view_1d demo_heap 64 65568 5 16 = Some (66304, h') \<and> inside_base h' 66304"
proof -
  have "ggml_row_size GGML_TYPE_F32 5 = 4 * 5" by (simp add: ggml_row_size_def u64_def)
  then obtain t where r: "ggml_view_1d demo_heap 64 65568 5 16 = Some (66304, demo_put t)" and t: "h_tensors (demo_put t) 66304 = Some t"
      "t_type t = GGML_TYPE_F32" "t_ne t = [5, 1, 1, 1]" "t_nb t = fresh_strides GGML_TYPE_F32 [5, 1, 1, 1]" "t_view_offs t = 16"
    by (rule demo_view_1d [of 5 16]) (simp_all add: u64_def)
  have "sane_shape GGML_TYPE_F32 [5, 1, 1, 1]" by (simp add: sane_shape_def GGML_MAX_DIMS_def)
  with view_1d_inside [OF demo_heap_inv(1) demo_heap_lookup(1) r] t(1) result_ofD
  have "inside_base (demo_put t) 66304 \<longleftrightarrow> t_view_offs t + ggml_nbytes t < 2 ^ 64" by (fastforce simp: demo_base)
  moreover have "ggml_nbytes t = 20"
    using t by (simp add: ggml_nbytes_def nbytes_strides_def fresh_strides_def GGML_MAX_DIMS_def upt_rec numeral_eq_Suc u64_def)
  ultimately show ?thesis using r t(5) by simp
qed


lemma demo_reshape: "\<exists>h'. ggml_reshape_2d demo_heap 64 65568 2 6 = Some (66304, h')"
proof -
  have "ggml_nelements (demo_matrix 4 3) = 12" "ggml_is_contiguous (demo_matrix 4 3)"
    by (simp_all add: ggml_nelements_def demo_matrix_fields i64_def ggml_is_contiguous_def ggml_is_contiguous_0_def
      ggml_is_contiguous_n_def demo_matrix_def signed_divide_int_def u64_def)
  then show ?thesis
    by (simp add: ggml_reshape_2d_def demo_lookup demo_view_impl demo_mk_node demo_base
      ggml_row_size_def GGML_MAX_DIMS_def u64_def i64_def upt_rec del: tget_Some)
qed

corollary reshape_result_witness:
  "\<exists>h' t. ggml_reshape_2d demo_heap 64 65568 2 6 = Some (66304, h') \<and> h_tensors h' 66304 = Some t \<and>
     ggml_is_contiguous t \<and> t_ne t = [2, 6, 1, 1]"
proof -
  obtain h' where r: "ggml_reshape_2d demo_heap 64 65568 2 6 = Some (66304, h')" using demo_reshape by blast
  from reshape_result [OF demo_heap_inv(1) demo_heap_lookup(1), of "[2, 6, 1, 1]" "ggml_reshape_2d demo_heap 64 65568 2 6" 2 64 6]
  show ?thesis using r result_ofD by fastforce
qed

lemma demo_add: "\<exists>h'. ggml_add demo_heap 64 65568 65568 = Some (66304, h')"
proof -
  have "ggml_can_repeat (demo_matrix 4 3) (demo_matrix 4 3)"
    by (simp add: ggml_can_repeat_def demo_matrix_fields signed_modulo_int_def)
  then show ?thesis
    by (simp add: ggml_add_def ggml_add_impl_def ggml_dup_tensor_def ggml_new_tensor_def ggml_new_tensor_impl_def
      view_base_def demo_lookup demo_place demo_mk_node GGML_MAX_DIMS_def Let_def demo_ctx_def del: tget_Some)
qed

corollary broadcast_result_witness:
  "\<exists>h' t. ggml_add demo_heap 64 65568 65568 = Some (66304, h') \<and> h_tensors h' 66304 = Some t \<and> t_ne t = [4, 3, 1, 1]"
proof -
  obtain h' where r: "ggml_add demo_heap 64 65568 65568 = Some (66304, h')" using demo_add by blast
  have "t_ne (demo_matrix 4 3) = [4, 3, 1, 1]" by (simp add: demo_matrix_def)
  with broadcast_result [OF demo_heap_inv(1), of GGML_OP_ADD _ 64 65568 65568 66304 h'] r result_ofD show ?thesis
    by (fastforce simp: demo_heap_lookup)
qed


section \<open>Permutations of the axes\<close>

definition axes :: "int list \<Rightarrow> bool" where
  "axes xs \<longleftrightarrow> length xs = 4 \<and> distinct xs \<and> set xs \<subseteq> {0..<4}"

lemma axesD: "axes [x0, x1, x2, x3] \<Longrightarrow>
    {x0, x1, x2, x3} = {0..<4} \<and> distinct [x0, x1, x2, x3]"
proof -
  assume a: "axes [x0, x1, x2, x3]"
  have "card (set [x0, x1, x2, x3]) = card {0..<4::int}"
    using a distinct_card [of "[x0, x1, x2, x3]"] by (simp add: axes_def)
  with a have "set [x0, x1, x2, x3] = {0..<4}" by (intro card_subset_eq) (auto simp: axes_def)
  with a show ?thesis by (simp add: axes_def)
qed

lemma axes_onto:
  assumes "axes [x0, x1, x2, x3]" "k < 4"
  shows "\<exists>i < 4. [x0, x1, x2, x3] ! i = int k"
proof -
  have "int k \<in> set [x0, x1, x2, x3]" using axesD [OF assms(1)] assms(2) by auto
  then obtain i where "i < length [x0, x1, x2, x3]" "[x0, x1, x2, x3] ! i = int k"
    by (metis in_set_conv_nth)
  then show ?thesis by (intro exI [of _ i]) simp
qed

text \<open>The entries go where the axes say, cut to 32 bits on the way.\<close>

lemma permute_entries_nth:
  assumes "axes [x0, x1, x2, x3]" "i < 4"
  shows "permute_entries x0 x1 x2 x3 v ! nat ([x0, x1, x2, x3] ! i) = i32 (v ! i)"
proof -
  have "i = 0 \<or> i = 1 \<or> i = 2 \<or> i = 3" using assms(2) by arith
  moreover have "distinct [nat x0, nat x1, nat x2, nat x3]" "nat x0 < 4" "nat x1 < 4" "nat x2 < 4" "nat x3 < 4"
    using assms(1) by (auto simp: axes_def)
  ultimately show ?thesis
    by (elim disjE) (simp_all add: permute_entries_def nth_list_update GGML_MAX_DIMS_def)
qed

lemma permute_entries_inverse:
  assumes x: "axes [x0, x1, x2, x3]" and y: "axes [y0, y1, y2, y3]"
    and inv: "\<And>i. i < 4 \<Longrightarrow> [y0, y1, y2, y3] ! nat ([x0, x1, x2, x3] ! i) = int i"
    and v: "length v = GGML_MAX_DIMS" "\<forall>n \<in> set v. - (2 ^ 31) \<le> n \<and> n < 2 ^ 31"
  shows "permute_entries y0 y1 y2 y3 (permute_entries x0 x1 x2 x3 v) = v"
proof (rule nth_equalityI)
  fix i assume "i < length (permute_entries y0 y1 y2 y3 (permute_entries x0 x1 x2 x3 v))"
  then have i: "i < 4" by (simp add: permute_entries_def GGML_MAX_DIMS_def)
  let ?j = "nat ([x0, x1, x2, x3] ! i)"
  have "[x0, x1, x2, x3] ! i \<in> {0..<4}" using x nth_mem [of i "[x0, x1, x2, x3]"] i unfolding axes_def by auto
  then have j: "?j < 4" by auto
  have m: "i32 (v ! i) = v ! i" using v i nth_mem [of i v] by (auto simp: i32_id GGML_MAX_DIMS_def)
  have "permute_entries y0 y1 y2 y3 (permute_entries x0 x1 x2 x3 v) ! nat ([y0, y1, y2, y3] ! ?j) =
      i32 (permute_entries x0 x1 x2 x3 v ! ?j)"
    using permute_entries_nth [OF y j] .
  also have "\<dots> = v ! i" unfolding permute_entries_nth [OF x i] by (simp add: m)
  finally show "permute_entries y0 y1 y2 y3 (permute_entries x0 x1 x2 x3 v) ! i = v ! i" using inv [OF i] by simp
qed (use v in \<open>simp add: permute_entries_def\<close>)

lemma permute_entries_subset:
  assumes x: "axes [x0, x1, x2, x3]" and v: "length v = GGML_MAX_DIMS" "\<forall>n \<in> set v. - (2 ^ 31) \<le> n \<and> n < 2 ^ 31"
  shows "set (permute_entries x0 x1 x2 x3 v) \<subseteq> set v"
proof
  fix n assume "n \<in> set (permute_entries x0 x1 x2 x3 v)"
  then obtain k where k: "k < 4" "permute_entries x0 x1 x2 x3 v ! k = n"
    by (auto simp: in_set_conv_nth permute_entries_def GGML_MAX_DIMS_def)
  obtain i where i: "i < 4" "[x0, x1, x2, x3] ! i = int k" using axes_onto [OF x k(1)] by blast
  from permute_entries_nth [OF x i(1), of v] i k have n: "n = i32 (v ! i)" by simp
  have m: "v ! i \<in> set v" using v(1) i by (simp add: GGML_MAX_DIMS_def)
  with v(2) have "n = v ! i" unfolding n by (simp add: i32_id)
  with m show "n \<in> set v" by simp
qed

lemma permute_step:
  assumes "heap_inv h" "ggml_permute h ctx a x0 x1 x2 x3 = Some (r, h')"
  obtains ta t :: ggml_tensor where "h_tensors h a = Some ta" "a \<noteq> NULL" "axes [x0, x1, x2, x3]" "result_of h r h' t"
    "t_type t = t_type ta" "t_ne t = permute_entries x0 x1 x2 x3 (t_ne ta)"
    "t_nb t = map u64 (permute_entries x0 x1 x2 x3 (t_nb ta))"
    "view_base h a 0 = Some (t_view_src t, t_view_offs t)"
proof -
  let ?ne = "\<lambda>ta. permute_entries x0 x1 x2 x3 (t_ne ta)" and ?nb = "\<lambda>ta. permute_entries x0 x1 x2 x3 (t_nb ta)"
  from assms(2) obtain ta :: ggml_tensor where a: "h_tensors h a = Some ta" "a \<noteq> NULL"
    and x: "axes [x0, x1, x2, x3]"
    and m: "mk_node (ggml_view_tensor h ctx a)
       [ggml_format_name (t_name ta @ '' (permuted)''),
        set_ne 0 (?ne ta ! 0), set_ne 1 (?ne ta ! 1), set_ne 2 (?ne ta ! 2), set_ne 3 (?ne ta ! 3),
        set_nb 0 (u64 (?nb ta ! 0)), set_nb 1 (u64 (?nb ta ! 1)), set_nb 2 (u64 (?nb ta ! 2)), set_nb 3 (u64 (?nb ta ! 3)),
        set_op GGML_OP_PERMUTE, set_src 0 a,
        ggml_set_op_params [word_of_int x0, word_of_int x1, word_of_int x2, word_of_int x3]] = Some (r, h')"
    by (auto simp: ggml_permute_def bind_Some_iff Let_def axes_def GGML_MAX_DIMS_def split: if_splits)
  have four: "xs[0 := f (ys ! 0), Suc 0 := f (ys ! Suc 0), 2 := f (ys ! 2), 3 := f (ys ! 3)] = map f ys"
    if "length xs = 4" "length ys = 4" for xs ys :: "int list" and f :: "int \<Rightarrow> int"
    using that by (auto simp: numeral_eq_Suc length_Suc_conv)
  have len: "length (t_ne ta) = 4" "length (t_nb ta) = 4"
    using node_wf_shape a(1) assms(1) by (auto simp: heap_inv_def GGML_MAX_DIMS_def)
  have "length (permute_entries x0 x1 x2 x3 v) = 4" for v by (simp add: permute_entries_def GGML_MAX_DIMS_def)
  note f = four [OF len(1) this, of "\<lambda>x. x"] four [OF len(2) this, of u64]
  have "\<exists>t. result_of h r h' t \<and> t_type t = t_type ta \<and> t_ne t = ?ne ta \<and> t_nb t = map u64 (?nb ta) \<and>
      view_base h a 0 = Some (t_view_src t, t_view_offs t)"
    using a by (intro result_fields [OF ggml_view_tensor_creates [OF assms(1)] m]) (auto simp: op_fields f)
  with a x that show ?thesis by blast
qed


text \<open>
  C40: permutations.  Permuting the axes and then permuting them back gives the tensor back: the extents and
  the strides of a, and the same byte of the same base, when extents and strides fit in 31 bits.
\<close>

theorem permute_inverse:
  assumes "heap_inv h" "h_tensors h a = Some ta"
    and fit: "\<forall>n \<in> set (t_ne ta) \<union> set (t_nb ta). 0 \<le> n \<and> n < 2 ^ 31"
    and p: "ggml_permute h ctx a x0 x1 x2 x3 = Some (r1, h1)" "ggml_permute h1 ctx r1 y0 y1 y2 y3 = Some (r2, h2)"
    and inv: "\<forall>i < 4. [y0, y1, y2, y3] ! nat ([x0, x1, x2, x3] ! i) = int i"
  shows "\<exists>t. h_tensors h2 r2 = Some t \<and> t_type t = t_type ta \<and> t_ne t = t_ne ta \<and> t_nb t = t_nb ta \<and>
    view_base h2 r2 0 = view_base h a 0"
proof -
  have uniq: "ta' = ta" if "h_tensors h a = Some ta'" for ta' using that assms(2) by simp
  obtain t1 :: ggml_tensor where a: "a \<noteq> NULL" "axes [x0, x1, x2, x3]" "result_of h r1 h1 t1"
    "t_type t1 = t_type ta" "t_ne t1 = permute_entries x0 x1 x2 x3 (t_ne ta)"
    "t_nb t1 = map u64 (permute_entries x0 x1 x2 x3 (t_nb ta))"
    and v1: "view_base h a 0 = Some (t_view_src t1, t_view_offs t1)"
    by (rule permute_step [OF assms(1) p(1)]) (use uniq in blast)
  have "grows h (ggml_permute h ctx a x0 x1 x2 x3)"
    using assms(2) by (intro creates_any_grows shape_a_creates assms(1) live_Some)
  then have hi: "heap_inv h1" using growsD p(1) extends_inv by blast
  have uniq1: "t' = t1" if "h_tensors h1 r1 = Some t'" for t' using that a(3) by (simp add: result_of_def)
  obtain t2 :: ggml_tensor where b: "r1 \<noteq> NULL" "axes [y0, y1, y2, y3]" "result_of h1 r2 h2 t2"
    "t_type t2 = t_type t1" "t_ne t2 = permute_entries y0 y1 y2 y3 (t_ne t1)"
    "t_nb t2 = map u64 (permute_entries y0 y1 y2 y3 (t_nb t1))"
    and v2: "view_base h1 r1 0 = Some (t_view_src t2, t_view_offs t2)"
    by (rule permute_step [OF hi p(2)]) (use uniq1 in blast)
  have len: "length (t_ne ta) = GGML_MAX_DIMS" "length (t_nb ta) = GGML_MAX_DIMS"
    using node_wf_shape assms(1,2) by (auto simp: heap_inv_def)
  let ?nb = "permute_entries x0 x1 x2 x3 (t_nb ta)"
  have in31: "0 \<le> n \<and> n < 2147483648" if "n \<in> set (t_nb ta)" for n using fit that by auto
  have ne: "permute_entries y0 y1 y2 y3 (permute_entries x0 x1 x2 x3 (t_ne ta)) = t_ne ta"
    and nb: "permute_entries y0 y1 y2 y3 ?nb = t_nb ta"
    using fit by (intro permute_entries_inverse [OF a(2) b(2)]; force simp: inv len)+
  have entry: "set ?nb \<subseteq> set (t_nb ta)"
    by (rule permute_entries_subset [OF a(2)]) (use len(2) in31 in force)+
  then have "map u64 ?nb = ?nb" using in31 by (intro map_idI u64_id) force+
  moreover have "map u64 (t_nb ta) = t_nb ta" using in31 by (intro map_idI u64_id) force+
  ultimately have "t_nb t2 = t_nb ta" using a(6) b(6) nb by simp
  moreover have "view_base h2 r2 0 = view_base h a 0"
    using view_base_base [OF v2 b(1), of h2 r2 t2] view_base_base [OF v1 a(1), of h1 r1 t1] a(3) b(3) v1 v2
    by (simp add: result_of_def)
  ultimately show ?thesis using a(4,5) b(4,5) ne result_ofD [OF b(3)] by auto
qed


lemma demo_permute:
  "\<exists>h1 h2. ggml_permute demo_heap 64 65568 1 2 0 3 = Some (66304, h1) \<and>
     ggml_permute h1 64 66304 2 0 1 3 = Some (66672, h2)"
proof -
  have f: "t_ne (demo_matrix 4 3) = [4, 3, 1, 1]" "t_type (demo_matrix 4 3) = GGML_TYPE_F32"
    by (simp_all add: demo_matrix_def)
  have "\<exists>t. ggml_permute demo_heap 64 65568 1 2 0 3 = Some (66304, demo_put t) \<and>
    t_view_src t = 65568 \<and> t_view_offs t = 0 \<and> t_ne t = [1, 4, 3, 1] \<and> t_type t = GGML_TYPE_F32"
    by (simp add: ggml_permute_def permute_entries_def ggml_view_tensor_mk_node demo_lookup demo_view_impl demo_mk_node f
        ggml_row_size_def GGML_MAX_DIMS_def upt_rec u64_def i32_def op_fields pad_dims_4 demo_put_inj
        del: tget_Some)
  then obtain t where t: "ggml_permute demo_heap 64 65568 1 2 0 3 = Some (66304, demo_put t)"
    "t_view_src t = 65568" "t_view_offs t = 0" "t_ne t = [1, 4, 3, 1]" "t_type t = GGML_TYPE_F32" by blast
  have "\<exists>h2. ggml_permute (demo_put t) 64 66304 2 0 1 3 = Some (66672, h2)"
    using t(2-) by (simp add: ggml_permute_def ggml_view_tensor_mk_node demo_lookup demo_view_impl demo_mk_node
        ggml_row_size_def GGML_MAX_DIMS_def upt_rec u64_def Let_def del: tget_Some)
  with t show ?thesis by blast
qed

corollary permute_inverse_witness:
  "\<exists>h1 h2 t. ggml_permute demo_heap 64 65568 1 2 0 3 = Some (66304, h1) \<and>
     ggml_permute h1 64 66304 2 0 1 3 = Some (66672, h2) \<and> h_tensors h2 66672 = Some t \<and> t_ne t = [4, 3, 1, 1]"
proof -
  obtain h1 h2 where r: "ggml_permute demo_heap 64 65568 1 2 0 3 = Some (66304, h1)"
    "ggml_permute h1 64 66304 2 0 1 3 = Some (66672, h2)" using demo_permute by blast
  have f: "t_ne (demo_matrix 4 3) = [4, 3, 1, 1]" "t_nb (demo_matrix 4 3) = [4, 16, 48, 48]"
    by (simp_all add: demo_matrix_def)
  have "\<forall>i < 4. [2, 0, 1, 3] ! nat ([1, 2, 0, 3] ! i) = int i"
    by (simp add: numeral_eq_Suc less_Suc_eq all_conj_distrib)
  from permute_inverse [OF demo_heap_inv(1) demo_heap_lookup(1) _ r this] f
  have "\<exists>t. h_tensors h2 66672 = Some t \<and> t_ne t = [4, 3, 1, 1]" by auto
  with r show ?thesis by blast
qed

text \<open>
  The locals of ggml_permute are ints (ne and nb in ggml.c), so an extent of 2^32 becomes 0 and one of 2^31
  turns negative: the bound of the theorem is needed.
\<close>

lemma permute_truncates: "permute_entries 0 1 2 3 [2 ^ 32, 2 ^ 31, 1, 1] = [0, - (2 ^ 31), 1, 1]"
  by (simp add: permute_entries_def i32_def GGML_MAX_DIMS_def numeral_eq_Suc)

text \<open>
  A two-dimensional view is checked as if its rows were packed: a stride that leads out of the tensor passes.
  Here two rows of 2 floats, 1000 bytes apart, in a tensor of 48 bytes.
\<close>

lemma view_2d_outside:
  "\<exists>h' t. ggml_view_2d demo_heap 64 65568 2 2 1000 0 = Some (66304, h') \<and> h_tensors h' 66304 = Some t \<and>
     t_view_src t = 65568 \<and> ggml_nbytes t = 1008 \<and> ggml_nbytes (demo_matrix 4 3) = 48"
proof -
  let ?P = "\<lambda>t. t_view_src t = 65568 \<and> t_type t = GGML_TYPE_F32 \<and> t_ne t = [2, 2, 1, 1] \<and> t_nb t = [4, 1000, 2000, 2000]"
  have "\<exists>t. ggml_view_2d demo_heap 64 65568 2 2 1000 0 = Some (66304, demo_put t) \<and> ?P t"
    by (simp add: ggml_view_2d_def ggml_view_impl_def demo_lookup demo_view_impl demo_mk_node demo_base
        ggml_row_size_def GGML_MAX_DIMS_def upt_rec u64_def op_fields demo_put_inj pad_dims_def fresh_strides_def
        numeral_eq_Suc del: tget_Some)
  then obtain t where t: "ggml_view_2d demo_heap 64 65568 2 2 1000 0 = Some (66304, demo_put t)" "?P t" by blast
  then have "ggml_nbytes t = 1008"
    by (simp add: ggml_nbytes_def nbytes_strides_def GGML_MAX_DIMS_def upt_rec u64_def)
  moreover have "h_tensors (demo_put t) 66304 = Some t" by (simp add: demo_put_def)
  ultimately show ?thesis using t demo_nbytes by blast
qed

section \<open>Concatenation\<close>

lemma i64_sum_prod:
  "i64 (i64 (a + b) * p) = i64 (i64 (a * p) + i64 (b * p))"
proof (rule i64_cong)
  have u: "i64 x mod 2 ^ 64 = x mod 2 ^ 64" for x
    using u64_i64 [of x] by (simp add: u64_def)
  have "i64 (a + b) * p mod 2 ^ 64 = (a + b) * p mod 2 ^ 64" using u [of "a + b"] by (metis mod_mult_left_eq)
  also have "\<dots> = (i64 (a * p) + i64 (b * p)) mod 2 ^ 64"
    using u [of "a * p"] u [of "b * p"] by (metis distrib_right mod_add_eq)
  finally show "i64 (a + b) * p mod 2 ^ 64 = (i64 (a * p) + i64 (b * p)) mod 2 ^ 64" .
qed

text \<open>
  Concatenation.  ggml_concat returns only for tensors of one type that agree in every extent but the
  chosen one; that extent of the result is the sum, and so is the number of elements.
\<close>

theorem concat_result:
  assumes "heap_inv h" "ggml_concat h ctx a b dim = Some (r, h')"
  shows "\<exists>ta tb t. h_tensors h a = Some ta \<and> h_tensors h b = Some tb \<and> result_of h r h' t \<and>
    0 \<le> dim \<and> dim < 4 \<and> t_type ta = t_type tb \<and> (\<forall>d < 4. int d \<noteq> dim \<longrightarrow> ne_at ta d = ne_at tb d) \<and>
    t_type t = t_type ta \<and> t_ne t = (t_ne ta)[nat dim := i64 (ne_at ta (nat dim) + ne_at tb (nat dim))] \<and>
    ggml_nelements t = i64 (ggml_nelements ta + ggml_nelements tb) \<and> ggml_is_contiguous t \<and>
    t_src t ! 0 = a \<and> t_src t ! 1 = b"
proof -
  let ?ne = "\<lambda>ta tb. map (\<lambda>d. if int d = dim then i64 (ne_at ta d + ne_at tb d) else ne_at ta d) [0..<GGML_MAX_DIMS]"
  from assms(2) obtain ta tb :: ggml_tensor where dim: "0 \<le> dim" "dim < 4"
    and ab: "h_tensors h a = Some ta" "h_tensors h b = Some tb" "t_type ta = t_type tb"
    and same: "\<forall>d < 4. int d \<noteq> dim \<longrightarrow> ne_at ta d = ne_at tb d"
    and m: "mk_node (ggml_new_tensor h ctx (t_type ta) GGML_MAX_DIMS (?ne ta tb))
       [ggml_set_op_params_i32 0 dim, set_op GGML_OP_CONCAT, set_src 0 a, set_src 1 b] = Some (r, h')"
    by (auto simp: ggml_concat_def bind_Some_iff Let_def GGML_MAX_DIMS_def split: if_splits)
  have len: "length (t_ne ta) = 4" using node_wf_shape ab(1) assms(1) by (auto simp: heap_inv_def GGML_MAX_DIMS_def)
  have ne: "?ne ta tb = (t_ne ta)[nat dim := i64 (ne_at ta (nat dim) + ne_at tb (nat dim))]"
    using dim len by (intro nth_equalityI) (auto simp: GGML_MAX_DIMS_def nth_list_update)
  have "pad_dims GGML_MAX_DIMS (?ne ta tb) = ?ne ta tb" by (rule pad_dims_full) (simp del: dims_upt)
  then have "\<exists>t. result_of h r h' t \<and> t_type t = t_type ta \<and> t_ne t = ?ne ta tb \<and>
      t_nb t = fresh_strides (t_type t) (t_ne t) \<and> t_src t ! 0 = a \<and> t_src t ! 1 = b"
    by (intro result_fields [OF ggml_new_tensor_creates [OF assms(1)] m]) (auto simp: op_fields simp del: dims_upt)
  then obtain t where t: "result_of h r h' t" "t_type t = t_type ta" "t_ne t = ?ne ta tb"
    "t_nb t = fresh_strides (t_type t) (t_ne t)" "t_src t ! 0 = a" "t_src t ! 1 = b" by blast
  have "dim = 0 \<or> dim = 1 \<or> dim = 2 \<or> dim = 3" using dim by arith
  then have "ggml_nelements t = i64 (ggml_nelements ta + ggml_nelements tb)"
    using same i64_sum_prod [of "ne_at ta 0" "ne_at tb 0" "ne_at ta 1 * ne_at ta 2 * ne_at ta 3"]
      i64_sum_prod [of "ne_at ta 1" "ne_at tb 1" "ne_at ta 0 * ne_at ta 2 * ne_at ta 3"]
      i64_sum_prod [of "ne_at ta 2" "ne_at tb 2" "ne_at ta 0 * ne_at ta 1 * ne_at ta 3"]
      i64_sum_prod [of "ne_at ta 3" "ne_at tb 3" "ne_at ta 0 * ne_at ta 1 * ne_at ta 2"]
    by (elim disjE) (simp_all add: ggml_nelements_def t(3) ne len ac_simps)
  with t ab dim same ne contiguous_of_strides [OF t(4)] show ?thesis by auto
qed


lemma demo_concat: "\<exists>h'. ggml_concat demo_heap 64 65568 65936 1 = Some (66304, h')"
  by (simp add: ggml_concat_def GGML_MAX_DIMS_def upt_rec demo_lookup demo_matrix_fields demo_base
      ggml_new_tensor_def ggml_new_tensor_impl_def view_base_def demo_place demo_mk_node Let_def demo_ctx_def
      del: tget_Some) (simp add: demo_matrix_def numeral_eq_Suc)

corollary concat_result_witness:
  "\<exists>h' t. ggml_concat demo_heap 64 65568 65936 1 = Some (66304, h') \<and> h_tensors h' 66304 = Some t \<and>
     t_ne t = [4, 5, 1, 1]"
proof -
  obtain h' where r: "ggml_concat demo_heap 64 65568 65936 1 = Some (66304, h')" using demo_concat by blast
  have "t_ne (demo_matrix 4 3) = [4, 3, 1, 1]" by (simp add: demo_matrix_def)
  with concat_result [OF demo_heap_inv(1) r] r result_ofD show ?thesis
    by (fastforce simp: demo_heap_lookup demo_matrix_fields i64_def)
qed

end
