(* ===== verification/Calls.thy ===== *)
theory Calls
  imports OpsProps
begin

text \<open>
  The calls a client makes: every constructor of ggml.c, with any arguments, on tensors that exist (an
  argument the C code takes by pointer is a live tensor or NULL).  Each predicate lists the constructors of
  one theory; \<open>op_call\<close> is their union.  Each call keeps the invariant of the heap and adds to it.
\<close>

section \<open>Allocations and the constructors, theory by theory\<close>

inductive alloc_call :: "heap \<Rightarrow> node_result \<Rightarrow> bool" for h where
  "alloc_call h (ggml_new_tensor h ctx ty nd ne)"
| "alloc_call h (ggml_new_tensor_1d h ctx ty n0)"
| "alloc_call h (ggml_new_tensor_2d h ctx ty n0 n1)"
| "alloc_call h (ggml_new_tensor_3d h ctx ty n0 n1 n2)"
| "alloc_call h (ggml_new_tensor_4d h ctx ty n0 n1 n2 n3)"
| "live h a \<Longrightarrow> alloc_call h (ggml_dup_tensor h ctx a)"
| "live h a \<Longrightarrow> alloc_call h (ggml_view_tensor h ctx a)"

lemma alloc_call_grows: "alloc_call h m \<Longrightarrow> heap_inv h \<Longrightarrow> grows h m"
  by (induction rule: alloc_call.induct)
    (rule creates_any_grows, assumption, rule alloc_any new_tensor_nd_any; assumption)+

text \<open>Element-wise operations, reductions, activations (OpsBasic).\<close>

inductive basic_call :: "heap \<Rightarrow> node_result \<Rightarrow> bool" for h where
  "live h a \<Longrightarrow> basic_call h (ggml_unary h ctx a op)"
| "live h a \<Longrightarrow> basic_call h (ggml_unary_inplace h ctx a op)"
| "live h a \<Longrightarrow> basic_call h (ggml_dup h ctx a)"
| "live h a \<Longrightarrow> basic_call h (ggml_dup_inplace h ctx a)"
| "live h a \<Longrightarrow> basic_call h (ggml_sqr h ctx a)"
| "live h a \<Longrightarrow> basic_call h (ggml_sqr_inplace h ctx a)"
| "live h a \<Longrightarrow> basic_call h (ggml_sqrt h ctx a)"
| "live h a \<Longrightarrow> basic_call h (ggml_sqrt_inplace h ctx a)"
| "live h a \<Longrightarrow> basic_call h (ggml_log h ctx a)"
| "live h a \<Longrightarrow> basic_call h (ggml_log_inplace h ctx a)"
| "live h a \<Longrightarrow> basic_call h (ggml_sin h ctx a)"
| "live h a \<Longrightarrow> basic_call h (ggml_sin_inplace h ctx a)"
| "live h a \<Longrightarrow> basic_call h (ggml_cos h ctx a)"
| "live h a \<Longrightarrow> basic_call h (ggml_cos_inplace h ctx a)"
| "live h a \<Longrightarrow> basic_call h (ggml_abs h ctx a)"
| "live h a \<Longrightarrow> basic_call h (ggml_abs_inplace h ctx a)"
| "live h a \<Longrightarrow> basic_call h (ggml_sgn h ctx a)"
| "live h a \<Longrightarrow> basic_call h (ggml_sgn_inplace h ctx a)"
| "live h a \<Longrightarrow> basic_call h (ggml_neg h ctx a)"
| "live h a \<Longrightarrow> basic_call h (ggml_neg_inplace h ctx a)"
| "live h a \<Longrightarrow> basic_call h (ggml_step h ctx a)"
| "live h a \<Longrightarrow> basic_call h (ggml_step_inplace h ctx a)"
| "live h a \<Longrightarrow> basic_call h (ggml_tanh h ctx a)"
| "live h a \<Longrightarrow> basic_call h (ggml_tanh_inplace h ctx a)"
| "live h a \<Longrightarrow> basic_call h (ggml_elu h ctx a)"
| "live h a \<Longrightarrow> basic_call h (ggml_elu_inplace h ctx a)"
| "live h a \<Longrightarrow> basic_call h (ggml_relu h ctx a)"
| "live h a \<Longrightarrow> basic_call h (ggml_relu_inplace h ctx a)"
| "live h a \<Longrightarrow> basic_call h (ggml_sigmoid h ctx a)"
| "live h a \<Longrightarrow> basic_call h (ggml_sigmoid_inplace h ctx a)"
| "live h a \<Longrightarrow> basic_call h (ggml_gelu h ctx a)"
| "live h a \<Longrightarrow> basic_call h (ggml_gelu_inplace h ctx a)"
| "live h a \<Longrightarrow> basic_call h (ggml_gelu_erf h ctx a)"
| "live h a \<Longrightarrow> basic_call h (ggml_gelu_erf_inplace h ctx a)"
| "live h a \<Longrightarrow> basic_call h (ggml_gelu_quick h ctx a)"
| "live h a \<Longrightarrow> basic_call h (ggml_gelu_quick_inplace h ctx a)"
| "live h a \<Longrightarrow> basic_call h (ggml_silu h ctx a)"
| "live h a \<Longrightarrow> basic_call h (ggml_silu_inplace h ctx a)"
| "live h a \<Longrightarrow> basic_call h (ggml_exp h ctx a)"
| "live h a \<Longrightarrow> basic_call h (ggml_exp_inplace h ctx a)"
| "live h a \<Longrightarrow> basic_call h (ggml_expm1 h ctx a)"
| "live h a \<Longrightarrow> basic_call h (ggml_expm1_inplace h ctx a)"
| "live h a \<Longrightarrow> basic_call h (ggml_softplus h ctx a)"
| "live h a \<Longrightarrow> basic_call h (ggml_softplus_inplace h ctx a)"
| "live h a \<Longrightarrow> basic_call h (ggml_floor h ctx a)"
| "live h a \<Longrightarrow> basic_call h (ggml_floor_inplace h ctx a)"
| "live h a \<Longrightarrow> basic_call h (ggml_ceil h ctx a)"
| "live h a \<Longrightarrow> basic_call h (ggml_ceil_inplace h ctx a)"
| "live h a \<Longrightarrow> basic_call h (ggml_round h ctx a)"
| "live h a \<Longrightarrow> basic_call h (ggml_round_inplace h ctx a)"
| "live h a \<Longrightarrow> basic_call h (ggml_trunc h ctx a)"
| "live h a \<Longrightarrow> basic_call h (ggml_trunc_inplace h ctx a)"
| "live h a \<Longrightarrow> basic_call h (ggml_hardswish h ctx a)"
| "live h a \<Longrightarrow> basic_call h (ggml_hardsigmoid h ctx a)"
| "live h a \<Longrightarrow> basic_call h (ggml_leaky_relu h ctx a negative_slope inplace)"
| "live h a \<Longrightarrow> basic_call h (ggml_sum h ctx a)"
| "live h a \<Longrightarrow> basic_call h (ggml_sum_rows h ctx a)"
| "live h a \<Longrightarrow> basic_call h (ggml_cumsum h ctx a)"
| "live h a \<Longrightarrow> basic_call h (ggml_mean h ctx a)"
| "live h a \<Longrightarrow> basic_call h (ggml_argmax h ctx a)"
| "live h a \<Longrightarrow> basic_call h (ggml_repeat_4d h ctx a ne0 ne1 ne2 ne3)"
| "live h a \<Longrightarrow> basic_call h (ggml_glu h ctx a op swapped)"
| "live h a \<Longrightarrow> basic_call h (ggml_reglu h ctx a)"
| "live h a \<Longrightarrow> basic_call h (ggml_reglu_swapped h ctx a)"
| "live h a \<Longrightarrow> basic_call h (ggml_geglu h ctx a)"
| "live h a \<Longrightarrow> basic_call h (ggml_geglu_swapped h ctx a)"
| "live h a \<Longrightarrow> basic_call h (ggml_swiglu h ctx a)"
| "live h a \<Longrightarrow> basic_call h (ggml_swiglu_swapped h ctx a)"
| "live h a \<Longrightarrow> basic_call h (ggml_geglu_erf h ctx a)"
| "live h a \<Longrightarrow> basic_call h (ggml_geglu_erf_swapped h ctx a)"
| "live h a \<Longrightarrow> basic_call h (ggml_geglu_quick h ctx a)"
| "live h a \<Longrightarrow> basic_call h (ggml_geglu_quick_swapped h ctx a)"
| "live h a \<Longrightarrow> basic_call h (ggml_norm h ctx a eps)"
| "live h a \<Longrightarrow> basic_call h (ggml_norm_inplace h ctx a eps)"
| "live h a \<Longrightarrow> basic_call h (ggml_rms_norm h ctx a eps)"
| "live h a \<Longrightarrow> basic_call h (ggml_rms_norm_inplace h ctx a eps)"
| "live h a \<Longrightarrow> basic_call h (ggml_group_norm h ctx a n_groups eps)"
| "live h a \<Longrightarrow> basic_call h (ggml_group_norm_inplace h ctx a n_groups eps)"
| "live h a \<Longrightarrow> basic_call h (ggml_l2_norm h ctx a eps)"
| "live h a \<Longrightarrow> basic_call h (ggml_l2_norm_inplace h ctx a eps)"
| "live h a \<Longrightarrow> live h b \<Longrightarrow> basic_call h (ggml_add h ctx a b)"
| "live h a \<Longrightarrow> live h b \<Longrightarrow> basic_call h (ggml_add_inplace h ctx a b)"
| "live h a \<Longrightarrow> live h b \<Longrightarrow> basic_call h (ggml_add_cast h ctx a b type)"
| "live h a \<Longrightarrow> live h b \<Longrightarrow> basic_call h (ggml_add1 h ctx a b)"
| "live h a \<Longrightarrow> live h b \<Longrightarrow> basic_call h (ggml_add1_inplace h ctx a b)"
| "live h a \<Longrightarrow> live h b \<Longrightarrow> basic_call h (ggml_acc h ctx a b nb1 nb2 nb3 offset)"
| "live h a \<Longrightarrow> live h b \<Longrightarrow> basic_call h (ggml_acc_inplace h ctx a b nb1 nb2 nb3 offset)"
| "live h a \<Longrightarrow> live h b \<Longrightarrow> basic_call h (ggml_sub h ctx a b)"
| "live h a \<Longrightarrow> live h b \<Longrightarrow> basic_call h (ggml_sub_inplace h ctx a b)"
| "live h a \<Longrightarrow> live h b \<Longrightarrow> basic_call h (ggml_mul h ctx a b)"
| "live h a \<Longrightarrow> live h b \<Longrightarrow> basic_call h (ggml_mul_inplace h ctx a b)"
| "live h a \<Longrightarrow> live h b \<Longrightarrow> basic_call h (ggml_div h ctx a b)"
| "live h a \<Longrightarrow> live h b \<Longrightarrow> basic_call h (ggml_div_inplace h ctx a b)"
| "live h a \<Longrightarrow> live h b \<Longrightarrow> basic_call h (ggml_silu_back h ctx a b)"
| "live h a \<Longrightarrow> live h b \<Longrightarrow> basic_call h (ggml_count_equal h ctx a b)"
| "live h a \<Longrightarrow> live h b \<Longrightarrow> basic_call h (ggml_repeat h ctx a b)"
| "live h a \<Longrightarrow> live h b \<Longrightarrow> basic_call h (ggml_repeat_back h ctx a b)"
| "live h a \<Longrightarrow> live h b \<Longrightarrow> basic_call h (ggml_concat h ctx a b dim)"
| "live h a \<Longrightarrow> live h b \<Longrightarrow> basic_call h (ggml_glu_split h ctx a b op)"
| "live h a \<Longrightarrow> live h b \<Longrightarrow> basic_call h (ggml_reglu_split h ctx a b)"
| "live h a \<Longrightarrow> live h b \<Longrightarrow> basic_call h (ggml_geglu_split h ctx a b)"
| "live h a \<Longrightarrow> live h b \<Longrightarrow> basic_call h (ggml_swiglu_split h ctx a b)"
| "live h a \<Longrightarrow> live h b \<Longrightarrow> basic_call h (ggml_geglu_erf_split h ctx a b)"
| "live h a \<Longrightarrow> live h b \<Longrightarrow> basic_call h (ggml_geglu_quick_split h ctx a b)"
| "live h a \<Longrightarrow> live h b \<Longrightarrow> basic_call h (ggml_swiglu_oai h ctx a b alpha limit)"
| "live h a \<Longrightarrow> live h b \<Longrightarrow> basic_call h (ggml_rms_norm_back h ctx a b eps)"
| "live h a \<Longrightarrow> live h b \<Longrightarrow> live h ids \<Longrightarrow> basic_call h (ggml_add_id h ctx a b ids)"
| "live h a \<Longrightarrow> basic_call h (ggml_xielu fo h ctx a alpha_n alpha_p beta eps)"

lemma basic_call_grows: "basic_call h m \<Longrightarrow> heap_inv h \<Longrightarrow> grows h m"
  by (induction rule: basic_call.induct)
    ((rule creates_any_grows, assumption, rule basic_impl_a_creates basic_a_creates basic_a_b_creates basic_a_b_ids_creates ggml_xielu_creates; assumption))+

text \<open>Products, copies, views, permutations, rows, soft max and rotary embeddings (OpsShape).\<close>

inductive shape_call :: "heap \<Rightarrow> node_result \<Rightarrow> bool" for h where
  "live h a \<Longrightarrow> shape_call h (ggml_cont_4d h ctx a ne0 ne1 ne2 ne3)"
| "live h a \<Longrightarrow> live h b \<Longrightarrow> shape_call h (ggml_mul_mat h ctx a b)"
| "live h a \<Longrightarrow> live h b \<Longrightarrow> shape_call h (ggml_out_prod h ctx a b)"
| "live h a \<Longrightarrow> live h b \<Longrightarrow> shape_call h (ggml_set h ctx a b nb1 nb2 nb3 offset)"
| "live h a \<Longrightarrow> live h b \<Longrightarrow> shape_call h (ggml_set_inplace h ctx a b nb1 nb2 nb3 offset)"
| "live h a \<Longrightarrow> live h b \<Longrightarrow> shape_call h (ggml_set_1d h ctx a b offset)"
| "live h a \<Longrightarrow> live h b \<Longrightarrow> shape_call h (ggml_set_1d_inplace h ctx a b offset)"
| "live h a \<Longrightarrow> live h b \<Longrightarrow> shape_call h (ggml_set_2d h ctx a b nb1 offset)"
| "live h a \<Longrightarrow> live h b \<Longrightarrow> shape_call h (ggml_set_2d_inplace h ctx a b nb1 offset)"
| "live h a \<Longrightarrow> live h b \<Longrightarrow> shape_call h (ggml_cpy h ctx a b)"
| "live h a \<Longrightarrow> live h b \<Longrightarrow> shape_call h (ggml_reshape h ctx a b)"
| "live h a \<Longrightarrow> live h b \<Longrightarrow> shape_call h (ggml_get_rows h ctx a b)"
| "live h a \<Longrightarrow> live h b \<Longrightarrow> shape_call h (ggml_soft_max_ext_back h ctx a b scale max_bias)"
| "live h a \<Longrightarrow> live h b \<Longrightarrow> shape_call h (ggml_soft_max_ext_back_inplace h ctx a b scale max_bias)"
| "live h as \<Longrightarrow> live h b \<Longrightarrow> live h ids \<Longrightarrow> shape_call h (ggml_mul_mat_id h ctx as b ids)"
| "live h a \<Longrightarrow> shape_call h (ggml_scale h ctx a s)"
| "live h a \<Longrightarrow> shape_call h (ggml_scale_inplace h ctx a s)"
| "live h a \<Longrightarrow> shape_call h (ggml_scale_bias h ctx a s b)"
| "live h a \<Longrightarrow> shape_call h (ggml_scale_bias_inplace h ctx a s b)"
| "live h a \<Longrightarrow> shape_call h (ggml_cont h ctx a)"
| "live h a \<Longrightarrow> shape_call h (ggml_cont_1d h ctx a ne0)"
| "live h a \<Longrightarrow> shape_call h (ggml_cont_2d h ctx a ne0 ne1)"
| "live h a \<Longrightarrow> shape_call h (ggml_cont_3d h ctx a ne0 ne1 ne2)"
| "live h a \<Longrightarrow> shape_call h (ggml_reshape_1d h ctx a ne0)"
| "live h a \<Longrightarrow> shape_call h (ggml_reshape_2d h ctx a ne0 ne1)"
| "live h a \<Longrightarrow> shape_call h (ggml_reshape_3d h ctx a ne0 ne1 ne2)"
| "live h a \<Longrightarrow> shape_call h (ggml_reshape_4d h ctx a ne0 ne1 ne2 ne3)"
| "live h a \<Longrightarrow> shape_call h (ggml_view_1d h ctx a ne0 offset)"
| "live h a \<Longrightarrow> shape_call h (ggml_view_2d h ctx a ne0 ne1 nb1 offset)"
| "live h a \<Longrightarrow> shape_call h (ggml_view_3d h ctx a ne0 ne1 ne2 nb1 nb2 offset)"
| "live h a \<Longrightarrow> shape_call h (ggml_view_4d h ctx a ne0 ne1 ne2 ne3 nb1 nb2 nb3 offset)"
| "live h a \<Longrightarrow> shape_call h (ggml_permute h ctx a axis0 axis1 axis2 axis3)"
| "live h a \<Longrightarrow> shape_call h (ggml_transpose h ctx a)"
| "live h a \<Longrightarrow> shape_call h (ggml_diag h ctx a)"
| "live h a \<Longrightarrow> shape_call h (ggml_diag_mask_inf h ctx a n_past)"
| "live h a \<Longrightarrow> shape_call h (ggml_diag_mask_inf_inplace h ctx a n_past)"
| "live h a \<Longrightarrow> shape_call h (ggml_diag_mask_zero h ctx a n_past)"
| "live h a \<Longrightarrow> shape_call h (ggml_diag_mask_zero_inplace h ctx a n_past)"
| "live h a \<Longrightarrow> shape_call h (ggml_soft_max h ctx a)"
| "live h a \<Longrightarrow> shape_call h (ggml_soft_max_inplace h ctx a)"
| "live h a \<Longrightarrow> shape_call h (ggml_clamp h ctx a mn mx)"
| "live h a \<Longrightarrow> live h b \<Longrightarrow> live h c \<Longrightarrow> shape_call h (ggml_get_rows_back h ctx a b c)"
| "live h a \<Longrightarrow> live h b \<Longrightarrow> live h c \<Longrightarrow> shape_call h (ggml_set_rows h ctx a b c)"
| "live h a \<Longrightarrow> live h msk \<Longrightarrow> shape_call h (ggml_soft_max_ext h ctx a msk scale max_bias)"
| "live h a \<Longrightarrow> live h msk \<Longrightarrow> shape_call h (ggml_soft_max_ext_inplace h ctx a msk scale max_bias)"
| "live h a \<Longrightarrow> shape_call h (ggml_cast h ctx a type)"
| "live h a \<Longrightarrow> live h b \<Longrightarrow> shape_call h (ggml_rope h ctx a b n_dims mode)"
| "live h a \<Longrightarrow> live h b \<Longrightarrow> shape_call h (ggml_rope_custom h ctx a b n_dims mode n_ctx_orig freq_base freq_scale ext_factor attn_factor beta_fast beta_slow)"
| "live h a \<Longrightarrow> live h b \<Longrightarrow> shape_call h (ggml_rope_inplace h ctx a b n_dims mode)"
| "live h a \<Longrightarrow> live h b \<Longrightarrow> shape_call h (ggml_rope_custom_inplace h ctx a b n_dims mode n_ctx_orig freq_base freq_scale ext_factor attn_factor beta_fast beta_slow)"
| "live h a \<Longrightarrow> live h b \<Longrightarrow> live h c \<Longrightarrow> shape_call h (ggml_rope_multi h ctx a b c n_dims sections mode n_ctx_orig freq_base freq_scale ext_factor attn_factor beta_fast beta_slow)"
| "live h a \<Longrightarrow> live h b \<Longrightarrow> live h c \<Longrightarrow> shape_call h (ggml_rope_ext h ctx a b c n_dims mode n_ctx_orig freq_base freq_scale ext_factor attn_factor beta_fast beta_slow)"
| "live h a \<Longrightarrow> live h b \<Longrightarrow> live h c \<Longrightarrow> shape_call h (ggml_rope_multi_inplace h ctx a b c n_dims sections mode n_ctx_orig freq_base freq_scale ext_factor attn_factor beta_fast beta_slow)"
| "live h a \<Longrightarrow> live h b \<Longrightarrow> live h c \<Longrightarrow> shape_call h (ggml_rope_ext_inplace h ctx a b c n_dims mode n_ctx_orig freq_base freq_scale ext_factor attn_factor beta_fast beta_slow)"
| "live h a \<Longrightarrow> live h b \<Longrightarrow> live h c \<Longrightarrow> shape_call h (ggml_rope_ext_back h ctx a b c n_dims mode n_ctx_orig freq_base freq_scale ext_factor attn_factor beta_fast beta_slow)"
| "live h a \<Longrightarrow> live h b \<Longrightarrow> live h c \<Longrightarrow> shape_call h (ggml_rope_multi_back h ctx a b c n_dims sections mode n_ctx_orig freq_base freq_scale ext_factor attn_factor beta_fast beta_slow)"

lemma shape_call_grows: "shape_call h m \<Longrightarrow> heap_inv h \<Longrightarrow> grows h m"
  by (induction rule: shape_call.induct)
    ((rule creates_any_grows, assumption, rule shape_impl_a_creates shape_a_b_creates shape_as_b_ids_creates shape_a_creates shape_a_b_c_creates shape_a_msk_creates ggml_cast_creates rope_a_b_creates rope_a_b_c_creates rope_back_a_b_c_creates; assumption))+

text \<open>Convolutions, pooling, padding, sorting (OpsConv).\<close>

inductive conv_call :: "heap \<Rightarrow> node_result \<Rightarrow> bool" for h where
  "live h a \<Longrightarrow> conv_call h (ggml_pad_ext h ctx a lp0 rp0 lp1 rp1 lp2 rp2 lp3 rp3)"
| "live h a \<Longrightarrow> conv_call h (ggml_pad_ext_circular h ctx a lp0 rp0 lp1 rp1 lp2 rp2 lp3 rp3)"
| "live h a \<Longrightarrow> live h b \<Longrightarrow> conv_call h (ggml_im2col h ctx a b s0 s1 p0 p1 d0 d1 is_2D dst_type)"
| "live h a \<Longrightarrow> live h b \<Longrightarrow> conv_call h (ggml_im2col_back h ctx a b ne s0 s1 p0 p1 d0 d1 is_2D)"
| "live h a \<Longrightarrow> live h b \<Longrightarrow> conv_call h (ggml_im2col_3d h ctx a b IC s0 s1 s2 p0 p1 p2 d0 d1 d2 dst_type)"
| "live h a \<Longrightarrow> live h b \<Longrightarrow> conv_call h (ggml_conv_transpose_1d h ctx a b s0 p0 d0)"
| "live h a \<Longrightarrow> live h b \<Longrightarrow> conv_call h (ggml_conv_2d_dw_direct h ctx a b stride0 stride1 pad0 pad1 dilation0 dilation1)"
| "live h a \<Longrightarrow> live h b \<Longrightarrow> conv_call h (ggml_conv_2d_direct h ctx a b s0 s1 p0 p1 d0 d1)"
| "live h a \<Longrightarrow> live h b \<Longrightarrow> conv_call h (ggml_conv_3d_direct h ctx a b s0 s1 s2 p0 p1 p2 d0 d1 d2 c n oc)"
| "live h a \<Longrightarrow> live h b \<Longrightarrow> conv_call h (ggml_conv_transpose_2d_p0 h ctx a b stride)"
| "live h a \<Longrightarrow> conv_call h (ggml_upscale h ctx a scale_factor mode)"
| "live h a \<Longrightarrow> conv_call h (ggml_upscale_ext h ctx a ne0 ne1 ne2 ne3 mode)"
| "live h a \<Longrightarrow> conv_call h (ggml_interpolate h ctx a ne0 ne1 ne2 ne3 mode)"
| "live h a \<Longrightarrow> conv_call h (ggml_pad h ctx a p0 p1 p2 p3)"
| "live h a \<Longrightarrow> conv_call h (ggml_pad_circular h ctx a p0 p1 p2 p3)"
| "live h a \<Longrightarrow> conv_call h (ggml_pad_reflect_1d h ctx a p0 p1)"
| "live h a \<Longrightarrow> conv_call h (ggml_roll h ctx a shift0 shift1 shift2 shift3)"
| "live h a \<Longrightarrow> conv_call h (ggml_tri h ctx a type)"
| "live h a \<Longrightarrow> conv_call h (ggml_fill h ctx a c)"
| "live h a \<Longrightarrow> conv_call h (ggml_fill_inplace h ctx a c)"
| "live h a \<Longrightarrow> conv_call h (ggml_argsort h ctx a order)"
| "live h a \<Longrightarrow> conv_call h (ggml_top_k h ctx a k)"
| "live h timesteps \<Longrightarrow> conv_call h (ggml_timestep_embedding h ctx timesteps dim max_period)"
| "live h a \<Longrightarrow> conv_call h (ggml_pool_1d fo h ctx a op k0 s0 p0)"
| "live h a \<Longrightarrow> conv_call h (ggml_pool_2d fo h ctx a op k0 k1 s0 s1 p0 p1)"
| "live h a \<Longrightarrow> live h af \<Longrightarrow> conv_call h (ggml_pool_2d_back fo h ctx a af op k0 k1 s0 s1 p0 p1)"
| "conv_call h (ggml_arange fo h ctx start stop step)"
| "live h a \<Longrightarrow> live h b \<Longrightarrow> conv_call h (ggml_conv_1d h ctx a b s0 p0 d0)"
| "live h a \<Longrightarrow> live h b \<Longrightarrow> conv_call h (ggml_conv_1d_ph h ctx a b s d)"
| "live h a \<Longrightarrow> live h b \<Longrightarrow> conv_call h (ggml_conv_1d_dw h ctx a b s0 p0 d0)"
| "live h a \<Longrightarrow> live h b \<Longrightarrow> conv_call h (ggml_conv_1d_dw_ph h ctx a b s0 d0)"
| "live h a \<Longrightarrow> live h b \<Longrightarrow> conv_call h (ggml_conv_2d h ctx a b s0 s1 p0 p1 d0 d1)"
| "live h a \<Longrightarrow> live h b \<Longrightarrow> conv_call h (ggml_conv_3d h ctx a b IC s0 s1 s2 p0 p1 p2 d0 d1 d2)"
| "live h a \<Longrightarrow> live h b \<Longrightarrow> conv_call h (ggml_conv_2d_sk_p0 h ctx a b)"
| "live h a \<Longrightarrow> live h b \<Longrightarrow> conv_call h (ggml_conv_2d_s1_ph h ctx a b)"
| "live h a \<Longrightarrow> live h b \<Longrightarrow> conv_call h (ggml_conv_2d_dw h ctx a b s0 s1 p0 p1 d0 d1)"
| "live h a \<Longrightarrow> conv_call h (ggml_argsort_top_k h ctx a k)"

lemma conv_call_grows: "conv_call h m \<Longrightarrow> heap_inv h \<Longrightarrow> grows h m"
  by (induction rule: conv_call.induct)
    ((rule ggml_conv_1d_grows ggml_conv_1d_ph_grows ggml_conv_1d_dw_grows ggml_conv_1d_dw_ph_grows ggml_conv_2d_grows ggml_conv_3d_grows ggml_conv_2d_sk_p0_grows ggml_conv_2d_s1_ph_grows ggml_conv_2d_dw_grows ggml_argsort_top_k_grows; assumption) | (rule creates_any_grows, assumption, rule conv_impl_a_creates conv_a_b_creates conv_a_creates conv_timesteps_creates ggml_pool_1d_creates ggml_pool_2d_creates ggml_pool_2d_back_creates ggml_arange_creates; assumption))+

text \<open>Attention, state space and recurrent operations, custom operations, optimiser steps (OpsModel).\<close>

inductive model_call :: "heap \<Rightarrow> node_result \<Rightarrow> bool" for h where
  "live h q \<Longrightarrow> live h k \<Longrightarrow> live h v \<Longrightarrow> live h msk \<Longrightarrow> model_call h (ggml_flash_attn_ext h ctx q k v msk scale max_bias logit_softcap)"
| "live h sx \<Longrightarrow> live h c \<Longrightarrow> model_call h (ggml_ssm_conv h ctx sx c)"
| "live h s \<Longrightarrow> live h x \<Longrightarrow> live h dt \<Longrightarrow> live h A \<Longrightarrow> live h B \<Longrightarrow> live h C \<Longrightarrow> live h ids \<Longrightarrow> model_call h (ggml_ssm_scan h ctx s x dt A B C ids)"
| "live h k \<Longrightarrow> live h v \<Longrightarrow> live h r \<Longrightarrow> live h tf \<Longrightarrow> live h td \<Longrightarrow> live h state \<Longrightarrow> model_call h (ggml_rwkv_wkv6 h ctx k v r tf td state)"
| "live h k \<Longrightarrow> live h v \<Longrightarrow> live h q \<Longrightarrow> live h g \<Longrightarrow> live h state \<Longrightarrow> model_call h (ggml_gated_linear_attn h ctx k v q g state scale)"
| "live h r \<Longrightarrow> live h w \<Longrightarrow> live h k \<Longrightarrow> live h v \<Longrightarrow> live h a \<Longrightarrow> live h b \<Longrightarrow> live h state \<Longrightarrow> model_call h (ggml_rwkv_wkv7 h ctx r w k v a b state)"
| "live h q \<Longrightarrow> live h k \<Longrightarrow> live h v \<Longrightarrow> live h g \<Longrightarrow> live h beta \<Longrightarrow> live h state \<Longrightarrow> model_call h (ggml_gated_delta_net h ctx q k v g beta state)"
| "live h a \<Longrightarrow> model_call h (ggml_win_part h ctx a w)"
| "live h a \<Longrightarrow> model_call h (ggml_win_unpart h ctx a w0 h0 w)"
| "live h a \<Longrightarrow> model_call h (ggml_get_rel_pos h ctx a qh kh)"
| "live h a \<Longrightarrow> model_call h (ggml_map_custom1 h ctx a fn n_tasks userdata)"
| "live h a \<Longrightarrow> model_call h (ggml_map_custom1_inplace h ctx a fn n_tasks userdata)"
| "live h a \<Longrightarrow> live h pw \<Longrightarrow> live h ph \<Longrightarrow> model_call h (ggml_add_rel_pos h ctx a pw ph)"
| "live h a \<Longrightarrow> live h pw \<Longrightarrow> live h ph \<Longrightarrow> model_call h (ggml_add_rel_pos_inplace h ctx a pw ph)"
| "live h a \<Longrightarrow> live h b \<Longrightarrow> model_call h (ggml_map_custom2 h ctx a b fn n_tasks userdata)"
| "live h a \<Longrightarrow> live h b \<Longrightarrow> model_call h (ggml_map_custom2_inplace h ctx a b fn n_tasks userdata)"
| "live h a \<Longrightarrow> live h b \<Longrightarrow> model_call h (ggml_cross_entropy_loss h ctx a b)"
| "live h a \<Longrightarrow> live h b \<Longrightarrow> model_call h (ggml_solve_tri h ctx a b left lo uni)"
| "live h a \<Longrightarrow> live h b \<Longrightarrow> live h c \<Longrightarrow> model_call h (ggml_map_custom3 h ctx a b c fn n_tasks userdata)"
| "live h a \<Longrightarrow> live h b \<Longrightarrow> live h c \<Longrightarrow> model_call h (ggml_map_custom3_inplace h ctx a b c fn n_tasks userdata)"
| "live h a \<Longrightarrow> live h b \<Longrightarrow> live h c \<Longrightarrow> model_call h (ggml_cross_entropy_loss_back h ctx a b c)"
| "live h a \<Longrightarrow> live h grad \<Longrightarrow> live h m \<Longrightarrow> live h v \<Longrightarrow> live h adamw_params \<Longrightarrow> model_call h (ggml_opt_step_adamw h ctx a grad m v adamw_params)"
| "live h a \<Longrightarrow> live h grad \<Longrightarrow> live h params \<Longrightarrow> model_call h (ggml_opt_step_sgd h ctx a grad params)"
| "live h a \<Longrightarrow> live h scale \<Longrightarrow> model_call h (ggml_turbo_wht h ctx a direction group_size scale)"
| "model_call h (ggml_flash_attn_back h ctx q k v d masked)"
| "live h a \<Longrightarrow> \<forall>p \<in> set args. live h p \<Longrightarrow> model_call h (ggml_custom_4d h ctx type ne0 ne1 ne2 ne3 args n_args fn n_tasks userdata)"
| "live h a \<Longrightarrow> \<forall>p \<in> set args. live h p \<Longrightarrow> model_call h (ggml_custom_inplace h ctx a args n_args fn n_tasks userdata)"

lemma model_call_grows: "model_call h m \<Longrightarrow> heap_inv h \<Longrightarrow> grows h m"
  by (induction rule: model_call.induct)
    ((rule creates_any_grows, assumption, rule model_q_k_v_msk_creates model_sx_c_creates model_s_x_dt_A_B_C_ids_creates model_k_v_r_tf_td_state_creates model_k_v_q_g_state_creates model_r_w_k_v_a_b_state_creates model_q_k_v_g_beta_state_creates model_a_creates model_a_pw_ph_creates model_a_b_creates model_a_b_c_creates model_a_grad_m_v_adamw_params_creates model_a_grad_params_creates model_a_scale_creates ggml_flash_attn_back_creates ggml_custom_creates; assumption))+


text \<open>One call of the public interface.\<close>

inductive op_call :: "heap \<Rightarrow> node_result \<Rightarrow> bool" for h where
  "alloc_call h m \<Longrightarrow> op_call h m"
| "basic_call h m \<Longrightarrow> op_call h m"
| "shape_call h m \<Longrightarrow> op_call h m"
| "conv_call h m \<Longrightarrow> op_call h m"
| "model_call h m \<Longrightarrow> op_call h m"

lemma op_call_grows: "op_call h m \<Longrightarrow> heap_inv h \<Longrightarrow> grows h m"
  by (induction rule: op_call.induct)
    (blast intro: alloc_call_grows basic_call_grows shape_call_grows conv_call_grows model_call_grows)+

end
