(* ===== verification/Session.thy ===== *)
theory Session
  imports Calls
begin

text \<open>
  Sessions of a client: sequences of opening pools, calling constructors, making graphs, building and
  clearing them, setting flags, and resetting or freeing pools that nothing outside refers to.  The invariant
  of the heap, of the sources and of every graph holds after each of them.  Client adds the other operations on
  graphs.
\<close>

section \<open>The invariant of a session\<close>

definition graphs_ok :: "heap \<Rightarrow> bool" where
  "graphs_ok h \<longleftrightarrow> (\<forall>cg g. cg \<noteq> NULL \<longrightarrow> h_graphs h cg = Some g \<longrightarrow>
     graph_complete h g \<and> uses_ok h g \<and> g_size g < 2 ^ 31)"

definition session_ok :: "heap \<Rightarrow> bool" where
  "session_ok h \<longleftrightarrow> heap_inv h \<and> acyclic_heap h \<and> graphs_ok h"

lemma session_graph_state: "session_ok h \<Longrightarrow> gget h cg = Some g \<Longrightarrow> graph_state h cg g"
  by (auto simp: session_ok_def graphs_ok_def graph_state_def gget_def split: if_splits)

text \<open>A graph stays well-formed as long as its tensors keep their sources and stay leafs or nodes.\<close>

definition same_tensors :: "heap \<Rightarrow> heap \<Rightarrow> ggml_cgraph \<Rightarrow> bool" where
  "same_tensors h h' g \<longleftrightarrow> (\<forall>p \<in> g_done g.
     h_tensors h' p \<noteq> None \<and> srcs h' p = srcs h p \<and> is_leaf h' p = is_leaf h p)"

lemma graph_transfer:
  assumes "graph_complete h g" "uses_ok h g" "same_tensors h h' g"
  shows "graph_complete h' g" "uses_ok h' g"
proof -
  have s: "srcs h' p = srcs h p" "is_leaf h' p = is_leaf h p" "h_tensors h' p \<noteq> None" if "p \<in> g_done g" for p
    using assms(3) that by (auto simp: same_tensors_def)
  have "srcs h' (g_node_list g ! i) = srcs h (g_node_list g ! i)" if "i < length (g_node_list g)" for i
    using that by (intro s) (simp add: g_done_def)
  then have "sources_before (srcs h') (set (g_leaf_list g)) (g_node_list g) =
      sources_before (srcs h) (set (g_leaf_list g)) (g_node_list g)"
    unfolding sources_before_def by simp
  moreover have "(\<forall>p \<in> set (g_leaf_list g). is_leaf h' p) = (\<forall>p \<in> set (g_leaf_list g). is_leaf h p)"
    "(\<forall>p \<in> set (g_node_list g). \<not> is_leaf h' p) = (\<forall>p \<in> set (g_node_list g). \<not> is_leaf h p)"
    using s(2) by (auto simp: g_done_def)
  ultimately have "graph_ok h' g" using assms(1) by (simp add: graph_complete_def graph_ok_def)
  then show "graph_complete h' g" using assms(1) s(3) by (auto simp: graph_complete_def)
  show "uses_ok h' g" using assms(2) s(1) by (simp add: uses_ok_def cong: sum.cong)
qed

lemma graphs_ok_transfer:
  assumes "graphs_ok h"
    and "\<And>cg g. cg \<noteq> NULL \<Longrightarrow> h_graphs h' cg = Some g \<Longrightarrow>
      h_graphs h cg = Some g \<and> same_tensors h h' g \<or> graph_complete h' g \<and> uses_ok h' g \<and> g_size g < 2 ^ 31"
  shows "graphs_ok h'"
  using assms graph_transfer unfolding graphs_ok_def by blast

lemma graphs_ok_same:
  assumes "graphs_ok h" "\<And>cg. h_graphs h' cg = h_graphs h cg \<or> h_graphs h' cg = None"
    and "\<And>cg g. h_graphs h' cg = Some g \<Longrightarrow> h_graphs h cg = Some g \<Longrightarrow> graph_complete h g \<Longrightarrow> same_tensors h h' g"
  shows "graphs_ok h'"
proof (rule graphs_ok_transfer [OF assms(1)])
  fix cg g assume g: "cg \<noteq> NULL" "h_graphs h' cg = Some g"
  then have "h_graphs h cg = Some g" using assms(2) [of cg] by simp
  moreover from this g(1) have "graph_complete h g" using assms(1) by (simp add: graphs_ok_def)
  ultimately show "h_graphs h cg = Some g \<and> same_tensors h h' g \<or>
      graph_complete h' g \<and> uses_ok h' g \<and> g_size g < 2 ^ 31"
    using assms(3) g by blast
qed

section \<open>The steps\<close>

text \<open>No graph outside the pool lists a tensor of it (\<open>self_contained\<close> says the same of the tensors).\<close>

definition detached :: "heap \<Rightarrow> ggml_context \<Rightarrow> bool" where
  "detached h c \<longleftrightarrow> self_contained h c \<and>
     (\<forall>cg g. h_graphs h cg = Some g \<longrightarrow> \<not> in_pool c cg \<longrightarrow> (\<forall>p \<in> g_done g. \<not> in_pool c p))"

definition in_no_graph :: "heap \<Rightarrow> ptr \<Rightarrow> bool" where
  "in_no_graph h p \<longleftrightarrow> (\<forall>cg g. h_graphs h cg = Some g \<longrightarrow> p \<notin> g_done g)"

text \<open>
  Two of the steps have conditions that the C code does not check and that its callers have to respect.  ggml_set_param is called
  before a graph lists the tensor: it turns a leaf into a node, and a graph that has it among its leafs
  would be wrong from then on.  ggml_reset and ggml_free are called when nothing outside the pool refers into it; from
  then on the client uses nothing of what the pool held, so the step ends in the store without these structures.
\<close>

inductive client_step :: "heap \<Rightarrow> heap \<Rightarrow> bool" where
  open_pool: "h_ctxs h ctx_addr = None \<Longrightarrow>
     fresh_memory h (init_buffer params buf_addr) (init_size params) \<Longrightarrow>
     ggml_init h params ctx_addr buf_addr = Some (ctx, h') \<Longrightarrow> client_step h h'"
| call: "op_call h m \<Longrightarrow> m = Some (r, h') \<Longrightarrow> client_step h h'"
| new_graph: "0 \<le> sz \<Longrightarrow> sz < 2 ^ 31 \<Longrightarrow>
     ggml_new_graph_custom junk junk32 h ctx sz grads = Some (cg, h') \<Longrightarrow> client_step h h'"
| build: "gget h cg = Some g \<Longrightarrow> h_tensors h p \<noteq> None \<Longrightarrow> p \<noteq> NULL \<Longrightarrow>
     ggml_build_forward_impl h cg p True compute = Some h' \<Longrightarrow> client_step h h'"
| clear: "gget h cg = Some g \<Longrightarrow> client_step h (gset h cg (ggml_graph_clear g))"
| flag: "ggml_set_input h p = Some h' \<or> ggml_set_output h p = Some h' \<or> ggml_set_loss h p = Some h' \<Longrightarrow>
     client_step h h'"
| param: "in_no_graph h p \<Longrightarrow> ggml_set_param h p = Some h' \<Longrightarrow> client_step h h'"
| reset_pool: "h_ctxs h ctx = Some c \<Longrightarrow> detached h c \<Longrightarrow> ggml_reset h ctx = Some h1 \<Longrightarrow> client_step h (drop_pool h1 c)"
| free_pool: "h_ctxs h ctx = Some c \<Longrightarrow> detached h c \<Longrightarrow> ggml_free h ctx = Some h1 \<Longrightarrow> client_step h (drop_pool h1 c)"

abbreviation session :: "heap \<Rightarrow> bool" where
  "session h \<equiv> client_step\<^sup>*\<^sup>* empty_heap h"

section \<open>Every step keeps the invariant\<close>

lemma extends_same: "extends h h' \<Longrightarrow> graph_complete h g \<Longrightarrow> same_tensors h h' g"
  unfolding same_tensors_def
proof
  fix p assume e: "extends h h'" and g: "graph_complete h g" and p: "p \<in> g_done g"
  then obtain t where t: "h_tensors h p = Some t" by (auto simp: graph_complete_def)
  then have "h_tensors h' p = Some t" using e extends_tensor by blast
  with t show "h_tensors h' p \<noteq> None \<and> srcs h' p = srcs h p \<and> is_leaf h' p = is_leaf h p"
    by (simp add: srcs_def is_leaf_def)
qed

lemma extends_ok:
  assumes "session_ok h" "extends h h'"
  shows "session_ok h'"
proof -
  have i: "acyclic_heap h" "graphs_ok h" using assms(1) by (simp_all add: session_ok_def)
  then have f: "h_graphs h' = h_graphs h" "heap_inv h'" "acyclic_heap h'" using assms(2) by (simp_all add: extends_def)
  have "graphs_ok h'" by (rule graphs_ok_same [OF i(2)]) (use f(1) extends_same [OF assms(2)] in auto)
  then show ?thesis using f by (simp add: session_ok_def)
qed

lemma call_ok:
  assumes "session_ok h" "op_call h m" "m = Some (r, h')"
  shows "session_ok h'"
proof -
  have "heap_inv h" using assms(1) by (simp add: session_ok_def)
  from growsD [OF op_call_grows [OF assms(2) this] assms(3)] show ?thesis using extends_ok [OF assms(1)] by blast
qed

lemma same_tensors_eq: "h_tensors h' = h_tensors h \<Longrightarrow> graph_complete h g \<Longrightarrow> same_tensors h h' g"
  by (auto simp: same_tensors_def srcs_def is_leaf_def graph_complete_def)


lemma new_graph_ok:
  assumes "session_ok h" "0 \<le> sz" "sz < 2 ^ 31" "ggml_new_graph_custom junk junk32 h ctx sz grads = Some (cg, h')"
  shows "session_ok h'"
proof -
  let ?g = "fresh_graph junk junk32 sz grads"
  have inv: "heap_inv h" "acyclic_heap h" "graphs_ok h" using assms(1) by (simp_all add: session_ok_def)
  note st = ggml_new_graph_custom_state [OF inv(1,2) assms(2-4)] and fr = new_graph_keeps [OF assms(4)]
  have "graphs_ok h'"
  proof (rule graphs_ok_transfer [OF inv(3)])
    fix cg' g assume g: "cg' \<noteq> NULL" "h_graphs h' cg' = Some g"
    show "h_graphs h cg' = Some g \<and> same_tensors h h' g \<or> graph_complete h' g \<and> uses_ok h' g \<and> g_size g < 2 ^ 31"
    proof (cases "cg' = cg")
      case True
      then show ?thesis using g st(1) by (auto simp: graph_state_def gget_def split: if_splits)
    next
      case False
      then have "h_graphs h cg' = Some g" using g fr by simp
      moreover from this g(1) have "graph_complete h g" using inv(3) by (simp add: graphs_ok_def)
      ultimately show ?thesis using same_tensors_eq [OF st(2)] by blast
    qed
  qed
  then show ?thesis using st(1) by (simp add: session_ok_def graph_state_def)
qed

lemma heap_frame_same: "heap_frame h h' \<Longrightarrow> graph_complete h g \<Longrightarrow> same_tensors h h' g"
  by (simp add: same_tensors_def heap_frame_fun heap_frame_static graph_complete_def)

text \<open>A step that replaces one graph and frames the rest.\<close>

lemma replace_graph_ok:
  assumes ok: "session_ok h" and fr: "heap_frame h h1" and h': "h' = gset h1 cg g'" and st: "graph_state h' cg g'"
  shows "session_ok h'"
proof -
  have t: "h_tensors h' = h_tensors h1" "h_graphs h1 = h_graphs h" using fr h' by (simp_all add: heap_frame_def)
  have cg: "gget h' cg = Some g'" "cg \<noteq> NULL" using st by (auto simp: graph_state_def gget_def split: if_splits)
  have "graphs_ok h'"
  proof (rule graphs_ok_transfer [of h])
    show "graphs_ok h" using ok by (simp add: session_ok_def)
    fix c g assume g: "c \<noteq> NULL" "h_graphs h' c = Some g"
    show "h_graphs h c = Some g \<and> same_tensors h h' g \<or> graph_complete h' g \<and> uses_ok h' g \<and> g_size g < 2 ^ 31"
    proof (cases "c = cg")
      case True
      then show ?thesis using g st cg by (auto simp: graph_state_def gget_def)
    next
      case False
      then have "h_graphs h c = Some g" using g t(2) h' by (simp add: gset_def)
      moreover from this g(1) have "graph_complete h g" using ok by (simp add: graphs_ok_def session_ok_def)
      moreover from heap_frame_same [OF fr this] have "same_tensors h h' g"
        by (simp add: same_tensors_def t(1) srcs_def is_leaf_def)
      ultimately show ?thesis by blast
    qed
  qed
  then show ?thesis using st by (simp add: session_ok_def graph_state_def)
qed

lemma build_ok:
  assumes ok: "session_ok h" and cg: "gget h cg = Some g" and p: "h_tensors h p \<noteq> None" "p \<noteq> NULL"
    and res: "ggml_build_forward_impl h cg p True compute = Some h'"
  shows "session_ok h'" "\<exists>h1 g'. h' = gset h1 cg g' \<and> heap_frame h h1 \<and> walk0 (h, g) (h1, g') \<and> built h g p h' g'"
proof -
  have st: "graph_state h cg g" by (rule session_graph_state [OF ok cg])
  then have s: "heap_inv h" "acyclic_heap h" "graph_complete h g" "g_size g < 2 ^ 31" by (simp_all add: graph_state_def)
  from settlesD(2) [OF build_forward_settles [OF s(1,2) cg s(3) p s(4), of compute] res]
  show b: "\<exists>h1 g'. h' = gset h1 cg g' \<and> heap_frame h h1 \<and> walk0 (h, g) (h1, g') \<and> built h g p h' g'" .
  then obtain h1 g' where r: "h' = gset h1 cg g'" "heap_frame h h1" "built h g p h' g'" by blast
  show "session_ok h'" by (rule replace_graph_ok [OF ok r(2,1) built_state [OF st r]])
qed

lemma clear_ok:
  assumes ok: "session_ok h" and cg: "gget h cg = Some g"
  shows "session_ok (gset h cg (ggml_graph_clear g))"
proof -
  have "heap_frame h h" by (simp add: heap_frame_def)
  then show ?thesis using replace_graph_ok [OF ok _ refl] clear_state [OF session_graph_state [OF ok cg]] by blast
qed


text \<open>Setting a flag.\<close>

lemma flag_ok:
  assumes ok: "session_ok h" and res: "tset h p (\<lambda>t. t\<lparr> t_flags := t_flags t OR w \<rparr>) = Some h'"
    and leaf: "w AND GGML_TENSOR_FLAG_PARAM = 0 \<or> in_no_graph h p"
  shows "session_ok h'"
proof -
  have i: "heap_inv h" "acyclic_heap h" "graphs_ok h" using ok by (simp_all add: session_ok_def)
  from res obtain t where t: "h_tensors h p = Some t"
    and h': "h' = h\<lparr> h_tensors := (h_tensors h)(p \<mapsto> t\<lparr> t_flags := t_flags t OR w \<rparr>) \<rparr>"
    by (auto simp: tset_Some)
  have c: "\<exists>u. h_tensors h q = Some u \<and> (u' = u \<or> q = p \<and> u' = u\<lparr> t_flags := t_flags u OR w \<rparr>)"
    if "h_tensors h' q = Some u'" for q u' using that t by (auto simp: h' split: if_splits)
  have lv: "live h' q = live h q" and vw: "(\<exists>v. h_tensors h' q = Some v \<and> t_view_src v = NULL) =
      (\<exists>v. h_tensors h q = Some v \<and> t_view_src v = NULL)" for q
    using t by (auto simp: h' live_def)
  have "node_wf h' q u'" if u': "h_tensors h' q = Some u'" for q u'
  proof -
    obtain u where u: "h_tensors h q = Some u" "u' = u \<or> u' = u\<lparr> t_flags := t_flags u OR w \<rparr>" using c [OF u'] by blast
    then have "node_wf h q u" using i(1) by (simp add: heap_inv_def tensors_wf_def)
    then show ?thesis using u(2) by (auto simp: node_wf_def tensor_shape_ok_def lv vw)
  qed
  moreover have "pools_ok h'" using i(1) pools_ok_tensor_update t by (simp add: h' heap_inv_def)
  ultimately have hi: "heap_inv h'" by (simp add: heap_inv_def tensors_wf_def)
  obtain rk where rk: "graph_rank h rk" using i(2) by (auto simp: acyclic_heap_def)
  have "graph_rank h' rk"
    unfolding graph_rank_def
  proof (intro allI impI ballI)
    fix q u' s assume u': "h_tensors h' q = Some u'" and s: "s \<in> set (t_src u')" "s \<noteq> NULL" "s \<noteq> q"
    obtain u where u: "h_tensors h q = Some u" "t_src u' = t_src u" using c [OF u'] by force
    then show "rk s < rk q" using rk s by (simp add: graph_rank_def)
  qed
  then have "acyclic_heap h'" by (auto simp: acyclic_heap_def)
  moreover have "graphs_ok h'"
  proof (rule graphs_ok_same [OF i(3)])
    fix cg show "h_graphs h' cg = h_graphs h cg \<or> h_graphs h' cg = None" by (simp add: h')
    fix g assume g: "h_graphs h cg = Some g" "graph_complete h g"
    show "same_tensors h h' g"
      unfolding same_tensors_def
    proof
      fix q assume q: "q \<in> g_done g"
      have "is_leaf h' q = is_leaf h q"
      proof (cases "q = p")
        case True
        then have "w AND GGML_TENSOR_FLAG_PARAM = 0" using leaf q g(1) by (auto simp: in_no_graph_def)
        then have "(t_flags t OR w) AND GGML_TENSOR_FLAG_PARAM = t_flags t AND GGML_TENSOR_FLAG_PARAM"
          by (simp add: bit.conj_disj_distrib2)
        then show ?thesis using True t by (simp add: is_leaf_def h')
      qed (simp add: is_leaf_def h')
      moreover have "h_tensors h q \<noteq> None" using g(2) q by (auto simp: graph_complete_def)
      ultimately show "h_tensors h' q \<noteq> None \<and> srcs h' q = srcs h q \<and> is_leaf h' q = is_leaf h q"
        using t by (simp add: h' srcs_def)
    qed
  qed
  ultimately show ?thesis using hi by (simp add: session_ok_def)
qed

text \<open>Dropping a pool.\<close>

lemma drop_ok:
  assumes ok: "session_ok h" and c: "h_ctxs h ctx = Some c" and d: "detached h c"
    and res: "ggml_reset h ctx = Some h1 \<or> ggml_free h ctx = Some h1"
  shows "session_ok (drop_pool h1 c)"
proof -
  have i: "heap_inv h" "acyclic_heap h" "graphs_ok h" using ok by (simp_all add: session_ok_def)
  have sc: "self_contained h c" using d by (simp add: detached_def)
  let ?h' = "drop_pool h1 c"
  have inv: "heap_inv ?h'" "acyclic_heap ?h'" and t: "h_tensors ?h' = (\<lambda>p. if in_pool c p then None else h_tensors h p)"
    using res ggml_reset_inv [OF i(1) c sc _ refl, of h1] ggml_free_inv [OF i(1) c sc _ refl, of h1] i(2) by auto
  have "ctx \<noteq> NULL" using i(1) c by (auto simp: heap_inv_def pools_ok_def)
  then have gr: "h_graphs ?h' = (\<lambda>p. if in_pool c p then None else h_graphs h p)"
    using res c by (auto simp: ggml_reset_def ggml_free_def drop_pool_def monad_simps Let_def fun_eq_iff)
  have "graphs_ok ?h'"
  proof (rule graphs_ok_same [OF i(3)])
    fix cg show "h_graphs ?h' cg = h_graphs h cg \<or> h_graphs ?h' cg = None" by (simp add: gr)
    fix g assume g: "h_graphs ?h' cg = Some g" "h_graphs h cg = Some g" "graph_complete h g"
    then have "\<forall>p \<in> g_done g. \<not> in_pool c p" using d by (auto simp: detached_def gr split: if_splits)
    then show "same_tensors h ?h' g" using g(3) by (auto simp: same_tensors_def t srcs_def is_leaf_def graph_complete_def)
  qed
  then show ?thesis using inv by (simp add: session_ok_def)
qed

lemma open_ok:
  assumes ok: "session_ok h" and new: "h_ctxs h a = None"
    and fr: "fresh_memory h (init_buffer params b) (init_size params)" and res: "ggml_init h params a b = Some (ctx, h')"
  shows "session_ok h'"
proof -
  have i: "heap_inv h" "acyclic_heap h" "graphs_ok h" using ok by (simp_all add: session_ok_def)
  note r = init_ok [OF i(1) new fr res]
  have "graphs_ok h'" by (rule graphs_ok_same [OF i(3)]) (use r same_tensors_eq in auto)
  then show ?thesis using r i(2) by (simp add: session_ok_def)
qed

lemma client_step_ok: "client_step h h' \<Longrightarrow> session_ok h \<Longrightarrow> session_ok h'"
proof (induction rule: client_step.induct)
  case (flag h p h')
  have "session_ok h'" if "tset h p (\<lambda>t. t\<lparr> t_flags := t_flags t OR w \<rparr>) = Some h'" "w AND GGML_TENSOR_FLAG_PARAM = 0" for w
    using flag_ok [OF flag.prems that(1)] that(2) by blast
  then show ?case using flag.hyps
    by (auto simp: ggml_set_input_def ggml_set_output_def ggml_set_loss_def bind_Some_iff
        GGML_TENSOR_FLAG_INPUT_def GGML_TENSOR_FLAG_OUTPUT_def GGML_TENSOR_FLAG_LOSS_def GGML_TENSOR_FLAG_PARAM_def
        split: if_splits)
next
  case (param h p h')
  then show ?case using flag_ok [OF param.prems] by (auto simp: ggml_set_param_def bind_Some_iff split: if_splits)
qed (blast intro: open_ok call_ok new_graph_ok build_ok(1) clear_ok drop_ok)+


section \<open>Sessions\<close>

lemma session_inv: "session h \<Longrightarrow> session_ok h"
proof (induction rule: rtranclp_induct)
  case base
  show ?case using empty_heap_inv by (simp add: session_ok_def graphs_ok_def) (simp add: empty_heap_def)
qed (rule client_step_ok)

text \<open>The example of PoolLife and GraphProps is a session.\<close>

lemma demo_session:
  obtains h where "session h" "gget h 66672 = Some demo_graph" "h_tensors h = h_tensors demo_nodes"
proof -
  let ?h0 = "empty_heap\<lparr> h_ctxs := [64 \<mapsto> demo_ctx 0 0 0] \<rparr>"
  obtain a h1 b where r: "ggml_new_tensor_2d ?h0 64 GGML_TYPE_F32 4 3 = Some (a, h1)"
    "ggml_new_tensor_2d h1 64 GGML_TYPE_F32 4 2 = Some (b, demo_heap)" by (rule demo_tensors)
  obtain h where h: "ggml_new_graph_custom (\<lambda>_. 0) (\<lambda>_. 0) demo_nodes 64 8 False = Some (66672, h)"
    "graph_state h 66672 demo_graph" "h_tensors h = h_tensors demo_nodes" by (rule demo_state)
  have "client_step empty_heap ?h0" by (rule open_pool [OF demo_fresh demo_init])
  moreover have "client_step ?h0 h1"
    by (rule call [OF op_call.intros(1) r(1)]) (rule alloc_call.intros)
  moreover have "client_step h1 demo_heap"
    by (rule call [OF op_call.intros(1) r(2)]) (rule alloc_call.intros)
  moreover have "live demo_heap 65568" "live demo_heap 65936" by (simp_all add: live_def demo_heap_lookup)
  then have "client_step demo_heap demo_nodes"
    by (intro call [OF op_call.intros(3) demo_mul_mat] shape_call.intros)
  moreover have "client_step demo_nodes h" by (rule new_graph [OF _ _ h(1)]) simp_all
  ultimately have "session h" by (meson rtranclp.rtrancl_into_rtrancl rtranclp.rtrancl_refl)
  then show thesis using that h(2,3) by (simp add: graph_state_def)
qed

end
