(* ===== verification/Backward.thy ===== *)
theory Backward
  imports Session
begin

text \<open>
  The backward pass of ggml.c: ggml_build_backward_expand extends a graph by the tensors that compute the
  gradients of its loss with respect to its parameters.  Gradients and their accumulators sit in two arrays of
  the graph, at the slot their tensor has in the table of visited tensors.  Every gradient that is built is
  listed by ggml_build_forward_expand, so the graph, its table and its lists grow while the pass runs.
\<close>

section \<open>The arrays of gradients\<close>

definition grad_ref :: "ggml_cgraph \<Rightarrow> nat \<Rightarrow> ptr option" where
  "grad_ref g i = (case g_grads g of None \<Rightarrow> None | Some gr \<Rightarrow> if i < length gr then Some (gr ! i) else None)"

definition acc_ref :: "ggml_cgraph \<Rightarrow> nat \<Rightarrow> ptr option" where
  "acc_ref g i = (case g_grad_accs g of None \<Rightarrow> None | Some ac \<Rightarrow> if i < length ac then Some (ac ! i) else None)"

definition put_grad :: "heap \<Rightarrow> ptr \<Rightarrow> nat \<Rightarrow> ptr \<Rightarrow> heap option" where
  "put_grad h cgraph i p = do {
     g \<leftarrow> gget h cgraph;
     gr \<leftarrow> g_grads g;
     gassert (i < length gr);
     Some (gset h cgraph (g\<lparr> g_grads := Some (gr[i := p]) \<rparr>)) }"

definition put_acc :: "heap \<Rightarrow> ptr \<Rightarrow> nat \<Rightarrow> ptr \<Rightarrow> heap option" where
  "put_acc h cgraph i p = do {
     g \<leftarrow> gget h cgraph;
     ac \<leftarrow> g_grad_accs g;
     gassert (i < length ac);
     Some (gset h cgraph (g\<lparr> g_grad_accs := Some (ac[i := p]) \<rparr>)) }"

section \<open>Changing a gradient\<close>

text \<open>The tensor at a slot of the table.\<close>

definition slot_key :: "ggml_cgraph \<Rightarrow> nat \<Rightarrow> ptr option" where
  "slot_key g isrc = do {
     gassert (isrc < hs_size (g_visited g));
     let src = hs_keys (g_visited g) ! isrc;
     gassert (src \<noteq> NULL);
     Some src }"

text \<open>How the four functions that change a gradient end: store it, name it, list what computes it.\<close>

definition store_grad :: "heap \<Rightarrow> ptr \<Rightarrow> nat \<Rightarrow> ptr \<Rightarrow> ptr \<Rightarrow> heap option" where
  "store_grad h cgraph isrc src grad = do {
     h \<leftarrow> put_grad h cgraph isrc grad;
     s \<leftarrow> tget h src;
     h \<leftarrow> tset h grad (ggml_format_name (''grad for '' @ t_name s));
     ggml_build_forward_expand h cgraph grad }"

definition ggml_add_or_set :: "heap \<Rightarrow> ptr \<Rightarrow> ptr \<Rightarrow> nat \<Rightarrow> ptr \<Rightarrow> heap option" where
  "ggml_add_or_set h ctx cgraph isrc tensor = do {
     g \<leftarrow> gget h cgraph;
     src \<leftarrow> slot_key g isrc;
     old \<leftarrow> grad_ref g isrc;
     (grad, h) \<leftarrow>
       (if old \<noteq> NULL
        then do { acc \<leftarrow> acc_ref g isrc; ggml_add_impl h ctx old tensor (acc \<noteq> NULL) }
        else Some (tensor, h));
     store_grad h cgraph isrc src grad }"

definition ggml_acc_or_set :: "heap \<Rightarrow> ptr \<Rightarrow> ptr \<Rightarrow> nat \<Rightarrow> ptr \<Rightarrow> int \<Rightarrow> int \<Rightarrow> int \<Rightarrow> int \<Rightarrow> heap option" where
  "ggml_acc_or_set h ctx cgraph isrc tensor nb1 nb2 nb3 offset = do {
     g \<leftarrow> gget h cgraph;
     src \<leftarrow> slot_key g isrc;
     old \<leftarrow> grad_ref g isrc;
     (grad, h) \<leftarrow>
       (if old \<noteq> NULL
        then do { acc \<leftarrow> acc_ref g isrc; ggml_acc_impl h ctx old tensor nb1 nb2 nb3 offset (acc \<noteq> NULL) }
        else do { (a_zero, h) \<leftarrow> ggml_scale h ctx src 0; ggml_acc_impl h ctx a_zero tensor nb1 nb2 nb3 offset False });
     store_grad h cgraph isrc src grad }"

definition ggml_add1_or_set :: "heap \<Rightarrow> ptr \<Rightarrow> ptr \<Rightarrow> nat \<Rightarrow> ptr \<Rightarrow> heap option" where
  "ggml_add1_or_set h ctx cgraph isrc tensor = do {
     g \<leftarrow> gget h cgraph;
     src \<leftarrow> slot_key g isrc;
     old \<leftarrow> grad_ref g isrc;
     (grad, h) \<leftarrow>
       (if old \<noteq> NULL
        then do { acc \<leftarrow> acc_ref g isrc; ggml_add1_impl h ctx old tensor (acc \<noteq> NULL) }
        else ggml_repeat h ctx tensor src);
     store_grad h cgraph isrc src grad }"

definition ggml_sub_or_set :: "heap \<Rightarrow> ptr \<Rightarrow> ptr \<Rightarrow> nat \<Rightarrow> ptr \<Rightarrow> heap option" where
  "ggml_sub_or_set h ctx cgraph isrc tensor = do {
     g \<leftarrow> gget h cgraph;
     src \<leftarrow> slot_key g isrc;
     old \<leftarrow> grad_ref g isrc;
     (grad, h) \<leftarrow>
       (if old \<noteq> NULL
        then do { acc \<leftarrow> acc_ref g isrc; ggml_sub_impl h ctx old tensor (acc \<noteq> NULL) }
        else ggml_neg h ctx tensor);
     store_grad h cgraph isrc src grad }"

text \<open>A gradient that is built for the call.\<close>

definition add_new :: "ptr \<Rightarrow> ptr \<Rightarrow> nat \<Rightarrow> node_result \<Rightarrow> heap option" where
  "add_new ctx cgraph isrc m = do { (r, h) \<leftarrow> m; ggml_add_or_set h ctx cgraph isrc r }"

definition sub_new :: "ptr \<Rightarrow> ptr \<Rightarrow> nat \<Rightarrow> node_result \<Rightarrow> heap option" where
  "sub_new ctx cgraph isrc m = do { (r, h) \<leftarrow> m; ggml_sub_or_set h ctx cgraph isrc r }"

definition add1_new :: "ptr \<Rightarrow> ptr \<Rightarrow> nat \<Rightarrow> node_result \<Rightarrow> heap option" where
  "add1_new ctx cgraph isrc m = do { (r, h) \<leftarrow> m; ggml_add1_or_set h ctx cgraph isrc r }"

section \<open>The rules of differentiation\<close>

text \<open>The floats 2, 1/2 and 1.\<close>

definition F32_TWO :: "32 word" where "F32_TWO = 0x40000000"
definition F32_HALF :: "32 word" where "F32_HALF = 0x3F000000"
definition F32_ONE :: "32 word" where "F32_ONE = 0x3F800000"

text \<open>A size_t converted from an int32_t parameter, and the size_t in the first two parameters.\<close>

definition param_size :: "ggml_tensor \<Rightarrow> nat \<Rightarrow> int" where
  "param_size t i = u64 (ggml_get_op_params_i32 t i)"

definition param_offset :: "ggml_tensor \<Rightarrow> int" where
  "param_offset t = uint (t_op_params t ! 0) + 2 ^ 32 * uint (t_op_params t ! 1)"

definition pool_of :: "int \<Rightarrow> ggml_op_pool option" where
  "pool_of v = (if v = 0 then Some GGML_OP_POOL_MAX else if v = 1 then Some GGML_OP_POOL_AVG else None)"

text \<open>
  The gradient of the first matrix of a product, summed over the dimensions it was broadcast along.
\<close>

definition mul_mat_back0 :: "heap \<Rightarrow> ptr \<Rightarrow> ptr \<Rightarrow> ptr \<Rightarrow> ptr \<Rightarrow> node_result" where
  "mul_mat_back0 h ctx grad src0 src1 = do {
     tg \<leftarrow> tget h grad;
     t1 \<leftarrow> tget h src1;
     gassert (ne_at tg 2 = ne_at t1 2);
     gassert (ne_at tg 3 = ne_at t1 3);
     (tmp, h) \<leftarrow> ggml_out_prod h ctx src1 grad;
     tt \<leftarrow> tget h tmp;
     t0 \<leftarrow> tget h src0;
     if \<not> ggml_are_same_shape tt t0
     then do {
       gassert (ne_at tt 0 = ne_at t0 0);
       gassert (ne_at tt 1 = ne_at t0 1);
       gassert (ne_at tt 3 = 1);
       nr2 \<leftarrow> cdiv (ne_at tt 2) (ne_at t0 2);
       let nb2 = u64 (nb_at tt 2 * nr2); let nb3 = nb_at tt 2;
       (tmp, h) \<leftarrow> ggml_view_4d h ctx tmp (ne_at t0 0) (ne_at t0 1) (ne_at t0 2) nr2 (nb_at tt 1) nb2 nb3 0;
       ggml_repeat_back h ctx tmp src0 }
     else Some (tmp, h) }"

text \<open>The view of the gradient under the part of the result that src1 was written to.\<close>

definition part_view :: "heap \<Rightarrow> ptr \<Rightarrow> ptr \<Rightarrow> ptr \<Rightarrow> ggml_tensor \<Rightarrow> node_result" where
  "part_view h ctx grad src1 t = do {
     t1 \<leftarrow> tget h src1;
     ggml_view_4d h ctx grad (ne_at t1 0) (ne_at t1 1) (ne_at t1 2) (ne_at t1 3)
       (param_size t 0) (param_size t 1) (param_size t 2) (param_size t 3) }"

definition set_back ::
    "heap \<Rightarrow> ptr \<Rightarrow> ptr \<Rightarrow> ggml_tensor \<Rightarrow> ptr \<Rightarrow> ptr \<Rightarrow> ptr \<Rightarrow> nat \<Rightarrow> nat \<Rightarrow> bool \<Rightarrow> bool \<Rightarrow> heap option" where
  "set_back h ctx cgraph t grad src0 src1 isrc0 isrc1 need0 need1 = do {
     let nb1 = param_size t 0; let nb2 = param_size t 1; let nb3 = param_size t 2; let offset = param_size t 3;
     (tensor_grad_view, h) \<leftarrow>
       (if need0 \<or> need1
        then do {
          t0 \<leftarrow> tget h src0;
          gassert (t_type t0 = t_type t);
          g \<leftarrow> gget h cgraph;
          tg \<leftarrow> tget h grad;
          g0 \<leftarrow> grad_ref g isrc0;
          (if g0 = NULL then Some () else do { u \<leftarrow> tget h g0; gassert (t_type u = t_type tg) });
          g1 \<leftarrow> grad_ref g isrc1;
          (if g1 = NULL \<or> \<not> need1 then Some () else do { u \<leftarrow> tget h g1; gassert (t_type u = t_type tg) });
          part_view h ctx grad src1 t }
        else Some (NULL, h));
     h \<leftarrow> (if need0
          then do {
            (tmp, h) \<leftarrow> ggml_neg h ctx tensor_grad_view;
            add_new ctx cgraph isrc0 (ggml_acc_impl h ctx grad tmp nb1 nb2 nb3 offset False) }
          else Some h);
     if need1
     then do { (c, h) \<leftarrow> ggml_cont h ctx tensor_grad_view; add_new ctx cgraph isrc1 (ggml_reshape h ctx c src1) }
     else Some h }"

definition cont_back :: "heap \<Rightarrow> ptr \<Rightarrow> ptr \<Rightarrow> ggml_tensor \<Rightarrow> ptr \<Rightarrow> ptr \<Rightarrow> nat \<Rightarrow> heap option" where
  "cont_back h ctx cgraph t grad src0 isrc0 = do {
     g \<leftarrow> gget h cgraph;
     g0 \<leftarrow> grad_ref g isrc0;
     (if g0 = NULL then Some () else do { u \<leftarrow> tget h g0; gassert (ggml_is_contiguous u) });
     tg \<leftarrow> tget h grad;
     gassert (ggml_is_contiguous tg);
     t0 \<leftarrow> tget h src0;
     gassert (ggml_nelements t = ggml_nelements t0);
     add_new ctx cgraph isrc0 (if ggml_are_same_shape t t0 then Some (grad, h) else ggml_reshape h ctx grad src0) }"

text \<open>The strides of a view, measured in elements of the gradient when its type is another one.\<close>

definition rescale :: "int \<Rightarrow> int \<Rightarrow> int \<Rightarrow> int option" where
  "rescale ng n0 x = do { gassert (n0 \<noteq> 0); gassert (x mod n0 = 0); Some (u64 (x div n0 * ng)) }"

definition view_back :: "heap \<Rightarrow> ptr \<Rightarrow> ptr \<Rightarrow> ggml_tensor \<Rightarrow> ptr \<Rightarrow> ptr \<Rightarrow> nat \<Rightarrow> heap option" where
  "view_back h ctx cgraph t grad src0 isrc0 = do {
     let offset = param_offset t; let nb1 = nb_at t 1; let nb2 = nb_at t 2; let nb3 = nb_at t 3;
     g \<leftarrow> gget h cgraph;
     g0 \<leftarrow> grad_ref g isrc0;
     (offset, nb1, nb2, nb3) \<leftarrow>
       (if g0 = NULL then Some (offset, nb1, nb2, nb3)
        else do {
          u \<leftarrow> tget h g0;
          t0 \<leftarrow> tget h src0;
          if t_type t0 \<noteq> t_type u
          then do {
            let ng = ggml_element_size u; let n0 = ggml_element_size t0;
            offset \<leftarrow> rescale ng n0 offset; nb1 \<leftarrow> rescale ng n0 nb1;
            nb2 \<leftarrow> rescale ng n0 nb2; nb3 \<leftarrow> rescale ng n0 nb3;
            Some (offset, nb1, nb2, nb3) }
          else Some (offset, nb1, nb2, nb3) });
     ggml_acc_or_set h ctx cgraph isrc0 grad nb1 nb2 nb3 offset }"

text \<open>The inverse of the permutation of the axes.\<close>

definition axes_back :: "ggml_tensor \<Rightarrow> int list" where
  "axes_back t =
     (let axis = (\<lambda>k. nat (ggml_get_op_params_i32 t k AND 3)) in
      [0, 0, 0, 0][axis 0 := 0, axis 1 := 1, axis 2 := 2, axis 3 := 3])"

definition rope_back :: "heap \<Rightarrow> ptr \<Rightarrow> ggml_tensor \<Rightarrow> ptr \<Rightarrow> ptr \<Rightarrow> ptr \<Rightarrow> node_result" where
  "rope_back h ctx t grad src1 src2 = do {
     let n_dims = ggml_get_op_params_i32 t 1; let mode = ggml_get_op_params_i32 t 2; let n_ctx_orig = ggml_get_op_params_i32 t 4;
     let freq_base = ggml_get_op_params_f32 t 5; let freq_scale = ggml_get_op_params_f32 t 6;
     let ext_factor = ggml_get_op_params_f32 t 7; let attn_factor = ggml_get_op_params_f32 t 8;
     let beta_fast = ggml_get_op_params_f32 t 9; let beta_slow = ggml_get_op_params_f32 t 10;
     let sections = map (ggml_get_op_params_i32 t) [11, 12, 13, 14];
     tg \<leftarrow> tget h grad;
     t1 \<leftarrow> tget h src1;
     if ne_at tg 2 = ne_at t1 0
     then ggml_rope_ext_back h ctx grad src1 src2 n_dims mode n_ctx_orig freq_base freq_scale ext_factor attn_factor beta_fast beta_slow
     else ggml_rope_multi_back h ctx grad src1 src2 n_dims (Some sections) mode n_ctx_orig freq_base freq_scale ext_factor
       attn_factor beta_fast beta_slow }"

definition pool_2d_back :: "float_ops \<Rightarrow> heap \<Rightarrow> ptr \<Rightarrow> ggml_tensor \<Rightarrow> ptr \<Rightarrow> ptr \<Rightarrow> node_result" where
  "pool_2d_back fo h ctx t grad src0 = do {
     op \<leftarrow> pool_of (ggml_get_op_params_i32 t 0);
     ggml_pool_2d_back fo h ctx grad src0 op (ggml_get_op_params_i32 t 1) (ggml_get_op_params_i32 t 2)
       (ggml_get_op_params_i32 t 3) (ggml_get_op_params_i32 t 4)
       (f_of_int fo (ggml_get_op_params_i32 t 5)) (f_of_int fo (ggml_get_op_params_i32 t 6)) }"

definition im2col_back :: "heap \<Rightarrow> ptr \<Rightarrow> ggml_tensor \<Rightarrow> ptr \<Rightarrow> ptr \<Rightarrow> ptr \<Rightarrow> node_result" where
  "im2col_back h ctx t grad src0 src1 = do {
     t1 \<leftarrow> tget h src1;
     ggml_im2col_back h ctx grad src0 (t_ne t1) (ggml_get_op_params_i32 t 0) (ggml_get_op_params_i32 t 1)
       (ggml_get_op_params_i32 t 2) (ggml_get_op_params_i32 t 3) (ggml_get_op_params_i32 t 4) (ggml_get_op_params_i32 t 5)
       (ggml_get_op_params_i32 t 6 = 1) }"

text \<open>One constructor applied to the result of another.\<close>

definition chain :: "node_result \<Rightarrow> (heap \<Rightarrow> ptr \<Rightarrow> node_result) \<Rightarrow> node_result" where
  "chain m f = do { (r, h) \<leftarrow> m; f h r }"

definition unary_back :: "heap \<Rightarrow> ptr \<Rightarrow> ptr \<Rightarrow> ptr \<Rightarrow> ggml_unary_op \<Rightarrow> ptr \<Rightarrow> ptr \<Rightarrow> nat \<Rightarrow> bool \<Rightarrow> heap option" where
  "unary_back h ctx cgraph tensor op grad src0 isrc0 need0 =
     (case op of
        GGML_UNARY_OP_ABS \<Rightarrow>
          if need0 then add_new ctx cgraph isrc0 (chain (ggml_sgn h ctx src0) (\<lambda>h s. ggml_mul h ctx s grad)) else Some h
      | GGML_UNARY_OP_SGN \<Rightarrow> Some h
      | GGML_UNARY_OP_NEG \<Rightarrow> if need0 then ggml_sub_or_set h ctx cgraph isrc0 grad else Some h
      | GGML_UNARY_OP_STEP \<Rightarrow> Some h
      | GGML_UNARY_OP_RELU \<Rightarrow>
          if need0 then add_new ctx cgraph isrc0 (chain (ggml_step h ctx src0) (\<lambda>h s. ggml_mul h ctx s grad)) else Some h
      | GGML_UNARY_OP_SILU \<Rightarrow> if need0 then add_new ctx cgraph isrc0 (ggml_silu_back h ctx grad src0) else Some h
      | GGML_UNARY_OP_EXP \<Rightarrow> if need0 then add_new ctx cgraph isrc0 (ggml_mul h ctx tensor grad) else Some h
      | GGML_UNARY_OP_EXPM1 \<Rightarrow>
          if need0 then add_new ctx cgraph isrc0 (chain (ggml_exp h ctx src0) (\<lambda>h e. ggml_mul h ctx grad e)) else Some h
      | GGML_UNARY_OP_SOFTPLUS \<Rightarrow>
          if need0 then add_new ctx cgraph isrc0 (chain (ggml_sigmoid h ctx src0) (\<lambda>h s. ggml_mul h ctx grad s)) else Some h
      | _ \<Rightarrow> None)"

definition glu_back ::
    "heap \<Rightarrow> ptr \<Rightarrow> ptr \<Rightarrow> ggml_glu_op \<Rightarrow> ptr \<Rightarrow> ptr \<Rightarrow> ptr \<Rightarrow> nat \<Rightarrow> nat \<Rightarrow> bool \<Rightarrow> bool \<Rightarrow> heap option" where
  "glu_back h ctx cgraph op grad src0 src1 isrc0 isrc1 need0 need1 =
     (case op of
        GGML_GLU_OP_SWIGLU \<Rightarrow> do {
          h \<leftarrow> (if need0
               then do {
                 gassert (src1 \<noteq> NULL);
                 add_new ctx cgraph isrc0 (chain (ggml_mul h ctx grad src1) (\<lambda>h m. ggml_silu_back h ctx m src0)) }
               else Some h);
          if need1 then add_new ctx cgraph isrc1 (chain (ggml_silu h ctx src0) (\<lambda>h s. ggml_mul h ctx s grad)) else Some h }
      | _ \<Rightarrow> None)"

text \<open>A gradient reduced to the shape of a source that was broadcast.\<close>

definition unbroadcast :: "heap \<Rightarrow> ptr \<Rightarrow> ptr \<Rightarrow> ptr \<Rightarrow> ptr \<Rightarrow> node_result" where
  "unbroadcast h ctx tmp src0 src1 = do {
     t0 \<leftarrow> tget h src0;
     t1 \<leftarrow> tget h src1;
     if \<not> ggml_are_same_shape t0 t1 then ggml_repeat_back h ctx tmp src1 else Some (tmp, h) }"

text \<open>
  The switch of ggml_compute_backward.  \<open>t\<close> is the tensor, \<open>grad\<close> its gradient; an operation without a rule aborts.
\<close>

definition backward_rule ::
    "float_ops \<Rightarrow> heap \<Rightarrow> ptr \<Rightarrow> ptr \<Rightarrow> ptr \<Rightarrow> ggml_tensor \<Rightarrow> ptr \<Rightarrow> nat \<Rightarrow> nat \<Rightarrow> bool \<Rightarrow> bool \<Rightarrow> bool \<Rightarrow> heap option" where
  "backward_rule fo h ctx cgraph tensor t grad isrc0 isrc1 need0 need1 need2 =
     (let src0 = t_src t ! 0; src1 = t_src t ! 1; src2 = t_src t ! 2 in
      case t_op t of
        GGML_OP_DUP \<Rightarrow> if need0 then ggml_add_or_set h ctx cgraph isrc0 grad else Some h
      | GGML_OP_ADD \<Rightarrow> do {
          h \<leftarrow> (if need0 then ggml_add_or_set h ctx cgraph isrc0 grad else Some h);
          if need1 then add_new ctx cgraph isrc1 (unbroadcast h ctx grad src0 src1) else Some h }
      | GGML_OP_ADD1 \<Rightarrow> do {
          h \<leftarrow> (if need0 then ggml_add_or_set h ctx cgraph isrc0 grad else Some h);
          if need1 then add_new ctx cgraph isrc1 (ggml_mean h ctx grad) else Some h }
      | GGML_OP_ACC \<Rightarrow> do {
          h \<leftarrow> (if need0 then ggml_add_or_set h ctx cgraph isrc0 grad else Some h);
          if need1
          then add_new ctx cgraph isrc1
            (chain (chain (part_view h ctx grad src1 t) (\<lambda>h v. ggml_cont h ctx v)) (\<lambda>h c. ggml_reshape h ctx c src1))
          else Some h }
      | GGML_OP_SUB \<Rightarrow> do {
          h \<leftarrow> (if need0 then ggml_add_or_set h ctx cgraph isrc0 grad else Some h);
          if need1 then ggml_sub_or_set h ctx cgraph isrc1 grad else Some h }
      | GGML_OP_MUL \<Rightarrow> do {
          h \<leftarrow> (if need0 then add_new ctx cgraph isrc0 (ggml_mul h ctx grad src1) else Some h);
          if need1
          then add_new ctx cgraph isrc1 (chain (ggml_mul h ctx src0 grad) (\<lambda>h m. unbroadcast h ctx m src0 src1))
          else Some h }
      | GGML_OP_DIV \<Rightarrow> do {
          h \<leftarrow> (if need0 then add_new ctx cgraph isrc0 (ggml_div h ctx grad src1) else Some h);
          if need1
          then sub_new ctx cgraph isrc1 (chain (ggml_div h ctx tensor src1) (\<lambda>h d. ggml_mul h ctx grad d))
          else Some h }
      | GGML_OP_SQR \<Rightarrow>
          if need0
          then add_new ctx cgraph isrc0 (chain (ggml_mul h ctx src0 grad) (\<lambda>h m. ggml_scale h ctx m F32_TWO)) else Some h
      | GGML_OP_SQRT \<Rightarrow>
          if need0
          then add_new ctx cgraph isrc0 (chain (ggml_div h ctx grad tensor) (\<lambda>h d. ggml_scale h ctx d F32_HALF)) else Some h
      | GGML_OP_LOG \<Rightarrow> if need0 then add_new ctx cgraph isrc0 (ggml_div h ctx grad src0) else Some h
      | GGML_OP_SIN \<Rightarrow>
          if need0 then add_new ctx cgraph isrc0 (chain (ggml_cos h ctx src0) (\<lambda>h c. ggml_mul h ctx grad c)) else Some h
      | GGML_OP_COS \<Rightarrow>
          if need0 then sub_new ctx cgraph isrc0 (chain (ggml_sin h ctx src0) (\<lambda>h s. ggml_mul h ctx grad s)) else Some h
      | GGML_OP_SUM \<Rightarrow> if need0 then ggml_add1_or_set h ctx cgraph isrc0 grad else Some h
      | GGML_OP_SUM_ROWS \<Rightarrow> if need0 then add_new ctx cgraph isrc0 (ggml_repeat h ctx grad src0) else Some h
      | GGML_OP_MEAN \<Rightarrow>
          if need0
          then do {
            t0 \<leftarrow> tget h src0;
            add1_new ctx cgraph isrc0 (ggml_scale_impl h ctx grad (f_div fo F32_ONE (f_of_int fo (ne_at t0 0))) 0 False) }
          else Some h
      | GGML_OP_REPEAT \<Rightarrow> if need0 then add_new ctx cgraph isrc0 (ggml_repeat_back h ctx grad src0) else Some h
      | GGML_OP_REPEAT_BACK \<Rightarrow> if need0 then add_new ctx cgraph isrc0 (ggml_repeat h ctx grad src0) else Some h
      | GGML_OP_RMS_NORM \<Rightarrow>
          if need0 then add_new ctx cgraph isrc0 (ggml_rms_norm_back h ctx grad src0 (ggml_get_op_params_f32 t 0)) else Some h
      | GGML_OP_MUL_MAT \<Rightarrow> do {
          h \<leftarrow> (if need0 then add_new ctx cgraph isrc0 (mul_mat_back0 h ctx grad src0 src1) else Some h);
          if need1
          then add_new ctx cgraph isrc1 (chain (ggml_transpose h ctx grad) (\<lambda>h u. ggml_out_prod h ctx src0 u))
          else Some h }
      | GGML_OP_SCALE \<Rightarrow>
          if need0 then add_new ctx cgraph isrc0 (ggml_scale_impl h ctx grad (ggml_get_op_params_f32 t 0) 0 False) else Some h
      | GGML_OP_SET \<Rightarrow> set_back h ctx cgraph t grad src0 src1 isrc0 isrc1 need0 need1
      | GGML_OP_CPY \<Rightarrow> if need0 then add_new ctx cgraph isrc0 (ggml_reshape h ctx grad src0) else Some h
      | GGML_OP_CONT \<Rightarrow> if need0 then cont_back h ctx cgraph t grad src0 isrc0 else Some h
      | GGML_OP_RESHAPE \<Rightarrow>
          if need0
          then do {
            tg \<leftarrow> tget h grad;
            add_new ctx cgraph isrc0
              (chain (if ggml_is_contiguous tg then Some (grad, h) else ggml_cont h ctx grad) (\<lambda>h c. ggml_reshape h ctx c src0)) }
          else Some h
      | GGML_OP_VIEW \<Rightarrow> if need0 then view_back h ctx cgraph t grad src0 isrc0 else Some h
      | GGML_OP_PERMUTE \<Rightarrow>
          if need0
          then (let axb = axes_back t in
                add_new ctx cgraph isrc0 (ggml_permute h ctx grad (axb ! 0) (axb ! 1) (axb ! 2) (axb ! 3)))
          else Some h
      | GGML_OP_TRANSPOSE \<Rightarrow> if need0 then add_new ctx cgraph isrc0 (ggml_transpose h ctx grad) else Some h
      | GGML_OP_GET_ROWS \<Rightarrow> if need0 then add_new ctx cgraph isrc0 (ggml_get_rows_back h ctx grad src1 src0) else Some h
      | GGML_OP_DIAG_MASK_INF \<Rightarrow>
          if need0
          then add_new ctx cgraph isrc0 (ggml_diag_mask_zero_impl h ctx grad (ggml_get_op_params_i32 t 0) False) else Some h
      | GGML_OP_DIAG_MASK_ZERO \<Rightarrow>
          if need0
          then add_new ctx cgraph isrc0 (ggml_diag_mask_zero_impl h ctx grad (ggml_get_op_params_i32 t 0) False) else Some h
      | GGML_OP_SOFT_MAX \<Rightarrow> do {
          h \<leftarrow> (if need0
               then add_new ctx cgraph isrc0
                 (ggml_soft_max_ext_back h ctx grad tensor (ggml_get_op_params_f32 t 0) (ggml_get_op_params_f32 t 1))
               else Some h);
          gassert (src1 = NULL \<or> \<not> need1);
          Some h }
      | GGML_OP_ROPE \<Rightarrow> do {
          h \<leftarrow> (if need0 then add_new ctx cgraph isrc0 (rope_back h ctx t grad src1 src2) else Some h);
          gassert (src2 = NULL \<or> \<not> need2);
          Some h }
      | GGML_OP_IM2COL \<Rightarrow> if need1 then add_new ctx cgraph isrc1 (im2col_back h ctx t grad src0 src1) else Some h
      | GGML_OP_POOL_2D \<Rightarrow> if need0 then add_new ctx cgraph isrc0 (pool_2d_back fo h ctx t grad src0) else Some h
      | GGML_OP_WIN_PART \<Rightarrow> do { op \<leftarrow> ggml_get_unary_op t; unary_back h ctx cgraph tensor op grad src0 isrc0 need0 }
      | GGML_OP_WIN_UNPART \<Rightarrow> do { op \<leftarrow> ggml_get_unary_op t; unary_back h ctx cgraph tensor op grad src0 isrc0 need0 }
      | GGML_OP_UNARY \<Rightarrow> do { op \<leftarrow> ggml_get_unary_op t; unary_back h ctx cgraph tensor op grad src0 isrc0 need0 }
      | GGML_OP_CROSS_ENTROPY_LOSS \<Rightarrow> do {
          h \<leftarrow> (if need0 then add_new ctx cgraph isrc0 (ggml_cross_entropy_loss_back h ctx grad src0 src1) else Some h);
          gassert (\<not> need1);
          Some h }
      | GGML_OP_GLU \<Rightarrow> do { op \<leftarrow> ggml_get_glu_op t; glu_back h ctx cgraph op grad src0 src1 isrc0 isrc1 need0 need1 }
      | GGML_OP_NONE \<Rightarrow> Some h
      | _ \<Rightarrow> None)"

section \<open>One step of the pass\<close>

definition grad_slot :: "ggml_hash_set \<Rightarrow> ptr \<Rightarrow> nat option" where
  "grad_slot hs src = (if src \<noteq> NULL then ggml_hash_find hs src else Some GGML_HASHSET_FULL)"

definition needs_grad :: "ggml_hash_set \<Rightarrow> bool list \<Rightarrow> ptr \<Rightarrow> nat \<Rightarrow> bool" where
  "needs_grad hs grads_needed src isrc \<longleftrightarrow>
     src \<noteq> NULL \<and> isrc \<noteq> GGML_HASHSET_FULL \<and> hs_get hs isrc \<and> grads_needed ! isrc"

text \<open>The check at the end: the gradient has the shape of its tensor.\<close>

definition check_grad :: "heap \<Rightarrow> ptr \<Rightarrow> bool \<Rightarrow> ptr \<Rightarrow> nat \<Rightarrow> unit option" where
  "check_grad h cgraph need src isrc =
     (if \<not> need then Some ()
      else do {
        g \<leftarrow> gget h cgraph;
        p \<leftarrow> grad_ref g isrc;
        s \<leftarrow> tget h src;
        u \<leftarrow> tget h p;
        gassert (ggml_are_same_shape s u) })"

definition ggml_compute_backward :: "float_ops \<Rightarrow> heap \<Rightarrow> ptr \<Rightarrow> ptr \<Rightarrow> nat \<Rightarrow> bool list \<Rightarrow> heap option" where
  "ggml_compute_backward fo h ctx cgraph i grads_needed = do {
     g \<leftarrow> gget h cgraph;
     gassert (i < length (g_nodes g));
     let tensor = g_nodes g ! i;
     grad \<leftarrow> ggml_graph_get_grad g tensor;
     if grad = NULL then Some h
     else do {
       t \<leftarrow> tget h tensor;
       let src0 = t_src t ! 0; let src1 = t_src t ! 1; let src2 = t_src t ! 2; let hash_set = g_visited g;
       isrc0 \<leftarrow> grad_slot hash_set src0;
       isrc1 \<leftarrow> grad_slot hash_set src1;
       isrc2 \<leftarrow> grad_slot hash_set src2;
       let need0 = needs_grad hash_set grads_needed src0 isrc0;
       let need1 = needs_grad hash_set grads_needed src1 isrc1;
       let need2 = needs_grad hash_set grads_needed src2 isrc2;
       h \<leftarrow> backward_rule fo h ctx cgraph tensor t grad isrc0 isrc1 need0 need1 need2;
       check_grad h cgraph need0 src0 isrc0;
       check_grad h cgraph need1 src1 isrc1;
       check_grad h cgraph need2 src2 isrc2;
       Some h } }"

section \<open>The whole pass\<close>

definition any_flag :: "heap \<Rightarrow> int \<Rightarrow> ptr list \<Rightarrow> bool option" where
  "any_flag h w nodes =
     for_each (\<lambda>node b. if b then Some b else do { t \<leftarrow> tget h node; Some (t_flags t AND w \<noteq> 0) }) nodes False"

text \<open>The source whose gradients have no effect on the result.\<close>

definition ignored_src :: "ggml_tensor \<Rightarrow> nat option option" where
  "ignored_src t =
     (case t_op t of
        GGML_OP_IM2COL \<Rightarrow> Some (Some 0)
      | GGML_OP_IM2COL_BACK \<Rightarrow> Some (Some 0)
      | GGML_OP_UNARY \<Rightarrow> do {
          uop \<leftarrow> ggml_get_unary_op t;
          Some (if uop = GGML_UNARY_OP_SGN \<or> uop = GGML_UNARY_OP_STEP then Some 0 else None) }
      | GGML_OP_CPY \<Rightarrow> Some (Some 1)
      | GGML_OP_GET_ROWS \<Rightarrow> Some (Some 1)
      | GGML_OP_GET_ROWS_BACK \<Rightarrow> Some (Some 1)
      | GGML_OP_ROPE \<Rightarrow> Some (Some 1)
      | _ \<Rightarrow> Some None)"

text \<open>Whether a source that counts needs a gradient (the loop over the sources, up to its break).\<close>

fun src_needs :: "heap \<Rightarrow> ggml_hash_set \<Rightarrow> bool list \<Rightarrow> nat option \<Rightarrow> nat \<Rightarrow> ptr list \<Rightarrow> bool option" where
  "src_needs h hs grads_needed ignore j [] = Some False"
| "src_needs h hs grads_needed ignore j (src # rest) =
     (if src = NULL \<or> ignore = Some j then src_needs h hs grads_needed ignore (Suc j) rest
      else do {
        k \<leftarrow> ggml_hash_find hs src;
        gassert (k < length grads_needed);
        if \<not> grads_needed ! k then src_needs h hs grads_needed ignore (Suc j) rest
        else do {
          s \<leftarrow> tget h src;
          gassert (t_type s = GGML_TYPE_F32 \<or> t_type s = GGML_TYPE_F16);
          Some True } })"

definition inplace_ok :: "ggml_tensor \<Rightarrow> bool" where
  "inplace_ok t \<longleftrightarrow> t_view_src t = NULL \<or>
     t_op t \<in> {GGML_OP_CPY, GGML_OP_VIEW, GGML_OP_RESHAPE, GGML_OP_PERMUTE, GGML_OP_TRANSPOSE}"

text \<open>grad_accs[i] of the caller, which may pass no array.\<close>

definition given_acc :: "ptr list option \<Rightarrow> nat \<Rightarrow> ptr option" where
  "given_acc grad_accs i =
     (case grad_accs of None \<Rightarrow> Some NULL | Some as \<Rightarrow> if i < length as then Some (as ! i) else None)"

text \<open>The accumulator of a slot: the one given by the caller, a new one for a loss, or none.\<close>

definition set_acc :: "ptr \<Rightarrow> ptr \<Rightarrow> nat \<Rightarrow> ptr \<Rightarrow> ggml_tensor \<Rightarrow> heap \<Rightarrow> heap option" where
  "set_acc ctx cgraph ihash acc t h =
     (if acc \<noteq> NULL then do { h \<leftarrow> put_acc h cgraph ihash acc; put_grad h cgraph ihash acc }
      else if t_flags t AND GGML_TENSOR_FLAG_LOSS \<noteq> 0
      then do {
        (acc, h) \<leftarrow> ggml_new_tensor h ctx GGML_TYPE_F32 GGML_MAX_DIMS (t_ne t);
        h \<leftarrow> put_acc h cgraph ihash acc;
        put_grad h cgraph ihash acc }
      else Some h)"

text \<open>One node of the loop that marks what needs a gradient and sets up the accumulators.\<close>

definition mark_needed ::
    "ptr \<Rightarrow> ptr \<Rightarrow> ptr list option \<Rightarrow> nat \<times> ptr \<Rightarrow> heap \<times> bool list \<Rightarrow> (heap \<times> bool list) option" where
  "mark_needed ctx cgraph grad_accs = (\<lambda>(i, node) (h, grads_needed). do {
     t \<leftarrow> tget h node;
     if t_type t = GGML_TYPE_I32 then Some (h, grads_needed)
     else do {
       let flagged = (t_flags t AND GGML_TENSOR_FLAG_PARAM \<noteq> 0 \<or> t_flags t AND GGML_TENSOR_FLAG_LOSS \<noteq> 0);
       ignore \<leftarrow> ignored_src t;
       g \<leftarrow> gget h cgraph;
       b \<leftarrow> src_needs h (g_visited g) grads_needed ignore 0 (t_src t);
       if \<not> (flagged \<or> b) then Some (h, grads_needed)
       else do {
         gassert (inplace_ok t);
         ihash \<leftarrow> ggml_hash_find (g_visited g) node;
         gassert (ihash \<noteq> GGML_HASHSET_FULL);
         gassert (hs_get (g_visited g) ihash);
         acc \<leftarrow> given_acc grad_accs i;
         h \<leftarrow> set_acc ctx cgraph ihash acc t h;
         Some (h, grads_needed[ihash := True]) } } })"

definition zero_grads :: "ggml_cgraph \<Rightarrow> ggml_cgraph" where
  "zero_grads g = g\<lparr> g_grads := Some (replicate (hs_size (g_visited g)) NULL),
     g_grad_accs := Some (replicate (hs_size (g_visited g)) NULL) \<rparr>"

definition ggml_build_backward_expand ::
    "float_ops \<Rightarrow> heap \<Rightarrow> ptr \<Rightarrow> ptr \<Rightarrow> ptr list option \<Rightarrow> heap option" where
  "ggml_build_backward_expand fo h ctx cgraph grad_accs = do {
     g \<leftarrow> gget h cgraph;
     gassert (g_n_nodes g > 0);
     gassert (g_grads g \<noteq> None);
     gassert (g_grad_accs g \<noteq> None);
     let nodes_f = g_node_list g;
     let h = gset h cgraph (zero_grads g);
     any_params \<leftarrow> any_flag h GGML_TENSOR_FLAG_PARAM nodes_f;
     any_loss \<leftarrow> any_flag h GGML_TENSOR_FLAG_LOSS nodes_f;
     gassert any_params;
     gassert any_loss;
     (h, grads_needed) \<leftarrow> for_each (mark_needed ctx cgraph grad_accs) (enumerate 0 nodes_f)
       (h, replicate (hs_size (g_visited g)) False);
     for_each (\<lambda>i h. ggml_compute_backward fo h ctx cgraph i grads_needed) (rev [0..<length nodes_f]) h }"

end
