(* ===== verification/BackwardProps.thy ===== *)
theory BackwardProps
  imports Backward
begin

text \<open>
  What the backward pass keeps: the invariant of the session, the forward graph as a beginning of the extended
  one, and that the gradient of a tensor has the shape of the tensor.
\<close>

section \<open>Steps of the pass\<close>

text \<open>Tensors keep everything but their name and the flag COMPUTE.\<close>

definition tensors_kept :: "heap \<Rightarrow> heap \<Rightarrow> bool" where
  "tensors_kept h h' \<longleftrightarrow> (\<forall>p t. h_tensors h p = Some t \<longrightarrow>
     (\<exists>t'. h_tensors h' p = Some t' \<and> tensor_core t' = tensor_core t))"

definition has_grad :: "ggml_cgraph \<Rightarrow> nat \<Rightarrow> bool" where
  "has_grad g j \<longleftrightarrow> (\<exists>gr. g_grads g = Some gr \<and> j < length gr \<and> gr ! j \<noteq> NULL)"

text \<open>The graph keeps its size, the tensors it has listed, the slots of those it has visited, and its gradients.\<close>

definition graph_grown :: "ggml_cgraph \<Rightarrow> ggml_cgraph \<Rightarrow> bool" where
  "graph_grown g g' \<longleftrightarrow> g_size g' = g_size g \<and> hs_size (g_visited g') = hs_size (g_visited g) \<and>
     prefix (g_node_list g) (g_node_list g') \<and>
     (\<forall>j x. hs_occupied (g_visited g) j x \<longrightarrow> hs_occupied (g_visited g') j x) \<and> (\<forall>j. has_grad g j \<longrightarrow> has_grad g' j)"

definition grown :: "ptr \<Rightarrow> heap \<Rightarrow> heap \<Rightarrow> bool" where
  "grown cg h h' \<longleftrightarrow> session_ok h' \<and> tensors_kept h h' \<and> (\<forall>c. c \<noteq> cg \<longrightarrow> h_graphs h' c = h_graphs h c) \<and>
     (\<forall>g. gget h cg = Some g \<longrightarrow> (\<exists>g'. gget h' cg = Some g' \<and> graph_grown g g'))"

text \<open>
  Gradients belong to visited tensors, and outside the slots S (those being worked on) have their shape.
\<close>

definition grads_ok :: "nat set \<Rightarrow> heap \<Rightarrow> ggml_cgraph \<Rightarrow> bool" where
  "grads_ok S h g \<longleftrightarrow> (\<forall>gr j. g_grads g = Some gr \<longrightarrow> j < length gr \<longrightarrow> gr ! j \<noteq> NULL \<longrightarrow>
     (\<exists>x t u. hs_occupied (g_visited g) j x \<and> h_tensors h x = Some t \<and> h_tensors h (gr ! j) = Some u \<and>
        (j \<notin> S \<longrightarrow> ggml_are_same_shape t u)))"

definition back_inv :: "nat set \<Rightarrow> ptr \<Rightarrow> heap \<Rightarrow> bool" where
  "back_inv S cg h \<longleftrightarrow> session_ok h \<and> (\<exists>g. gget h cg = Some g \<and> grads_ok S h g)"

lemma graph_grown_refl [simp]: "graph_grown g g"
  by (simp add: graph_grown_def)

lemma graph_grown_trans: "graph_grown g1 g2 \<Longrightarrow> graph_grown g2 g3 \<Longrightarrow> graph_grown g1 g3"
  unfolding graph_grown_def by (metis prefix_order.trans)

lemma tensors_kept_refl [simp]: "tensors_kept h h"
  by (simp add: tensors_kept_def)

lemma tensors_kept_trans: "tensors_kept h1 h2 \<Longrightarrow> tensors_kept h2 h3 \<Longrightarrow> tensors_kept h1 h3"
  unfolding tensors_kept_def by metis

lemma grown_refl: "session_ok h \<Longrightarrow> grown cg h h"
  by (simp add: grown_def)

lemma grown_trans: "grown cg h1 h2 \<Longrightarrow> grown cg h2 h3 \<Longrightarrow> grown cg h1 h3"
  unfolding grown_def using tensors_kept_trans graph_grown_trans by (elim conjE, intro conjI) (blast | simp)+

lemma tensors_keptD:
  assumes "tensors_kept h h'" "h_tensors h p = Some t"
  obtains t' where "h_tensors h' p = Some t'" "tensor_core t' = tensor_core t"
  using assms unfolding tensors_kept_def by blast

lemma tensors_kept_live: "tensors_kept h h' \<Longrightarrow> live h p \<Longrightarrow> live h' p"
  by (force simp: tensors_kept_def live_def)

lemma grown_live: "grown cg h h' \<Longrightarrow> live h p \<Longrightarrow> live h' p"
  using tensors_kept_live by (simp add: grown_def) blast

lemma extends_kept: "extends h h' \<Longrightarrow> tensors_kept h h'"
  unfolding tensors_kept_def using extends_tensor by blast

lemma frame_kept: "heap_frame h h' \<Longrightarrow> tensors_kept h h'"
  unfolding tensors_kept_def by (metis heap_frame_cases option.distinct(1) option.inject)

lemma core_fields: "t_ne (tensor_core t) = t_ne t" "t_type (tensor_core t) = t_type t" "t_view_src (tensor_core t) = t_view_src t"
  by (simp_all add: tensor_core_def)

lemma core_shape: "tensor_core t' = tensor_core t \<Longrightarrow> t_ne t' = t_ne t"
  using core_fields(1) by metis

lemma same_shape_core:
  "tensor_core t' = tensor_core t \<Longrightarrow> tensor_core u' = tensor_core u \<Longrightarrow> ggml_are_same_shape t' u' = ggml_are_same_shape t u"
  using core_shape [of t' t] core_shape [of u' u] by (simp add: ggml_are_same_shape_def)

lemma grads_okD:
  assumes "grads_ok S h g" "g_grads g = Some gr" "j < length gr" "gr ! j \<noteq> NULL"
  obtains x t u where "hs_occupied (g_visited g) j x" "h_tensors h x = Some t" "h_tensors h (gr ! j) = Some u"
    "j \<notin> S \<Longrightarrow> ggml_are_same_shape t u"
  using assms unfolding grads_ok_def by blast

text \<open>Gradients stay well-formed while tensors are kept, the table grows and the array does not change.\<close>

lemma grads_ok_kept:
  assumes "grads_ok S h g" "tensors_kept h h'" "g_grads g' = g_grads g"
    and "\<And>j x. hs_occupied (g_visited g) j x \<Longrightarrow> hs_occupied (g_visited g') j x"
  shows "grads_ok S h' g'"
  unfolding grads_ok_def
proof (intro allI impI)
  fix gr j assume g: "g_grads g' = Some gr" "j < length gr" "gr ! j \<noteq> NULL"
  then obtain x t u where o: "hs_occupied (g_visited g) j x" and t: "h_tensors h x = Some t" and u: "h_tensors h (gr ! j) = Some u"
    and s: "j \<notin> S \<Longrightarrow> ggml_are_same_shape t u" using grads_okD [OF assms(1) _ g(2,3)] g(1) assms(3) by metis
  obtain t' where t': "h_tensors h' x = Some t'" "tensor_core t' = tensor_core t" by (rule tensors_keptD [OF assms(2) t])
  obtain u' where u': "h_tensors h' (gr ! j) = Some u'" "tensor_core u' = tensor_core u" by (rule tensors_keptD [OF assms(2) u])
  show "\<exists>x t u. hs_occupied (g_visited g') j x \<and> h_tensors h' x = Some t \<and> h_tensors h' (gr ! j) = Some u \<and>
      (j \<notin> S \<longrightarrow> ggml_are_same_shape t u)"
    using t'(1) u'(1) assms(4) [OF o] s same_shape_core [OF t'(2) u'(2)] by blast
qed

text \<open>An allocation of a constructor.\<close>

lemma extends_step:
  assumes "back_inv S cg h" "extends h h'"
  shows "grown cg h h'" "back_inv S cg h'"
proof -
  have e: "h_graphs h' = h_graphs h" using assms(2) by (simp add: extends_def)
  have ok: "session_ok h'" using assms extends_ok back_inv_def by blast
  then show "grown cg h h'" using extends_kept [OF assms(2)] e by (auto simp: grown_def gget_def)
  obtain g where "gget h cg = Some g" "grads_ok S h g" using assms(1) by (auto simp: back_inv_def)
  moreover from this have "grads_ok S h' g" using grads_ok_kept [OF _ extends_kept [OF assms(2)]] by blast
  ultimately show "back_inv S cg h'" using ok e by (auto simp: back_inv_def gget_def)
qed

text \<open>A change of names and flags.\<close>

lemma frame_session_ok:
  assumes "session_ok h" "heap_frame h h'"
  shows "session_ok h'"
proof -
  have i: "heap_inv h" "acyclic_heap h" "graphs_ok h" using assms(1) by (simp_all add: session_ok_def)
  have "graphs_ok h'"
    by (rule graphs_ok_same [OF i(3)]) (use assms(2) heap_frame_same [OF assms(2)] in \<open>simp_all add: heap_frame_def\<close>)
  then show ?thesis using heap_frame_inv [OF i(1) assms(2)] heap_frame_acyclic [OF i(2) assms(2)] by (simp add: session_ok_def)
qed

lemma frame_step:
  assumes "back_inv S cg h" "heap_frame h h'"
  shows "grown cg h h'" "back_inv S cg h'"
proof -
  have e: "h_graphs h' = h_graphs h" using assms(2) by (simp add: heap_frame_def)
  have ok: "session_ok h'" using assms frame_session_ok back_inv_def by blast
  then show "grown cg h h'" using frame_kept [OF assms(2)] e by (auto simp: grown_def gget_def)
  obtain g where "gget h cg = Some g" "grads_ok S h g" using assms(1) by (auto simp: back_inv_def)
  moreover from this have "grads_ok S h' g" using grads_ok_kept [OF _ frame_kept [OF assms(2)]] by blast
  ultimately show "back_inv S cg h'" using ok e by (auto simp: back_inv_def gget_def)
qed

text \<open>A change of the two arrays of a graph.\<close>

definition with_grads :: "ggml_cgraph \<Rightarrow> ptr list option \<Rightarrow> ptr list option \<Rightarrow> ggml_cgraph" where
  "with_grads g gr ac = g\<lparr> g_grads := gr, g_grad_accs := ac \<rparr>"

lemma with_grads_simps [simp]:
  "g_size (with_grads g gr ac) = g_size g" "g_visited (with_grads g gr ac) = g_visited g"
  "g_node_list (with_grads g gr ac) = g_node_list g" "g_leaf_list (with_grads g gr ac) = g_leaf_list g"
  "g_done (with_grads g gr ac) = g_done g" "g_open (with_grads g gr ac) = g_open g"
  "g_grads (with_grads g gr ac) = gr" "g_grad_accs (with_grads g gr ac) = ac"
  "use_count_of (with_grads g gr ac) p = use_count_of g p"
  by (simp_all add: with_grads_def g_node_list_def g_leaf_list_def g_done_def g_open_def use_count_of_def
      cong: option.case_cong if_cong)

lemma with_grads_eq: "g\<lparr> g_grads := gr \<rparr> = with_grads g gr (g_grad_accs g)" "g\<lparr> g_grad_accs := ac \<rparr> = with_grads g (g_grads g) ac"
  by (simp_all add: with_grads_def)

lemma with_both: "g\<lparr> g_grad_accs := ac, g_grads := gr \<rparr> = with_grads g gr ac"
  by (simp add: with_grads_def)

lemma gset_gset: "gset (gset h cg g1) cg g2 = gset h cg g2"
  by (simp add: gset_def)

lemma session_grads_length:
  assumes "session_ok h" "gget h cg = Some g"
  shows "pred_option (\<lambda>gr. length gr = hs_size (g_visited g)) (g_grads g)"
    "pred_option (\<lambda>gr. length gr = hs_size (g_visited g)) (g_grad_accs g)" "hs_inv (g_visited g)"
  using session_graph_state [OF assms] by (simp_all add: graph_state_def graph_complete_def graph_ok_def graph_shape_def)

lemma grads_step:
  assumes ok: "session_ok h" and g: "gget h cg = Some g" and h': "h' = gset h cg (with_grads g gr ac)"
    and len: "pred_option (\<lambda>gr. length gr = hs_size (g_visited g)) gr" "pred_option (\<lambda>gr. length gr = hs_size (g_visited g)) ac"
  shows "session_ok h'" "(\<And>j. has_grad g j \<Longrightarrow> has_grad (with_grads g gr ac) j) \<Longrightarrow> grown cg h h'" "gget h' cg = Some (with_grads g gr ac)" "h_tensors h' = h_tensors h"
proof -
  let ?g = "with_grads g gr ac"
  have cg: "cg \<noteq> NULL" "h_graphs h cg \<noteq> None" using g by (auto simp: gget_def split: if_splits)
  have st: "graph_state h cg g" by (rule session_graph_state [OF ok g])
  show t: "h_tensors h' = h_tensors h" and gg: "gget h' cg = Some ?g" using cg by (simp_all add: h')
  then have same: "srcs h' = srcs h" "is_leaf h' = is_leaf h" by (simp_all add: fun_eq_iff srcs_def is_leaf_def)
  have "graph_shape ?g" using st len by (simp add: graph_state_def graph_complete_def graph_ok_def graph_shape_def with_grads_def)
  then have "graph_complete h' ?g"
    using st t same by (simp add: graph_state_def graph_complete_def graph_ok_def)
  moreover have "uses_ok h' ?g" using st same by (simp add: graph_state_def uses_ok_def)
  moreover have "heap_inv h'" "acyclic_heap h'" using st gset_inv [OF _ cg(2)] by (simp_all add: h' graph_state_def gset_acyclic)
  ultimately have st': "graph_state h' cg ?g" using st gg by (simp add: graph_state_def)
  have "heap_frame h h" by simp
  then show s: "session_ok h'" using replace_graph_ok [OF ok _ h' st'] by blast
  have "tensors_kept h h'" by (simp add: tensors_kept_def t)
  moreover have "\<forall>c. c \<noteq> cg \<longrightarrow> h_graphs h' c = h_graphs h c" by (simp add: h' gset_def)
  ultimately show "grown cg h h'" if "\<And>j. has_grad g j \<Longrightarrow> has_grad ?g j"
    using s g gg that by (simp add: grown_def graph_grown_def)
qed

text \<open>A visited tensor sits at the slot.\<close>

definition occ :: "ptr \<Rightarrow> nat \<Rightarrow> heap \<Rightarrow> bool" where
  "occ cg i h \<longleftrightarrow> (\<exists>g x. gget h cg = Some g \<and> hs_occupied (g_visited g) i x)"

lemma grown_occ: "grown cg h h' \<Longrightarrow> occ cg i h \<Longrightarrow> occ cg i h'"
  unfolding grown_def graph_grown_def occ_def by metis

lemma put_grad_step:
  assumes "back_inv S cg h" "occ cg i h" "i \<in> S" "live h p" "p \<noteq> NULL" and r: "put_grad h cg i p = Some h'"
  shows "grown cg h h'" "back_inv S cg h'" "h_tensors h' = h_tensors h"
proof -
  obtain g gr where g: "gget h cg = Some g" "g_grads g = Some gr" "i < length gr"
    and h': "h' = gset h cg (with_grads g (Some (gr[i := p])) (g_grad_accs g))"
    using r by (auto simp: put_grad_def bind_Some_iff with_grads_eq split: if_split_asm)
  have ok: "session_ok h" using assms(1) by (simp add: back_inv_def)
  note l = session_grads_length [OF ok g(1)]
  have len: "pred_option (\<lambda>gr. length gr = hs_size (g_visited g)) (Some (gr[i := p]))" using l(1) g(2) by simp
  note st = grads_step [OF ok g(1) h' len l(2)]
  show "h_tensors h' = h_tensors h" by (fact st)
  show "grown cg h h'" by (rule st(2)) (use g(2,3) assms(5) in \<open>auto simp: has_grad_def nth_list_update\<close>)
  have G: "grads_ok S h g" using assms(1) g(1) by (auto simp: back_inv_def)
  obtain x where x: "hs_occupied (g_visited g) i x" using assms(2) g(1) by (auto simp: occ_def)
  have "x \<in> g_done g"
    using x complete_visited session_graph_state [OF ok g(1)] hs_set_occupied by (metis graph_state_def)
  then obtain tx where tx: "h_tensors h x = Some tx"
    using session_graph_state [OF ok g(1)] by (auto simp: graph_state_def graph_complete_def)
  have "grads_ok S h' (with_grads g (Some (gr[i := p])) (g_grad_accs g))"
    unfolding grads_ok_def with_grads_simps st(4)
  proof (intro allI impI)
    fix gr' j assume gr': "Some (gr[i := p]) = Some gr'" and j: "j < length gr'" "gr' ! j \<noteq> NULL"
    show "\<exists>x t u. hs_occupied (g_visited g) j x \<and> h_tensors h x = Some t \<and> h_tensors h (gr' ! j) = Some u \<and>
        (j \<notin> S \<longrightarrow> ggml_are_same_shape t u)"
    proof (cases "j = i")
      case True
      then have "gr' ! j = p" using gr' j(1) by auto
      then obtain u where "h_tensors h (gr' ! j) = Some u" using assms(4) j(2) by (auto simp: live_def)
      then show ?thesis using x tx assms(3) True by blast
    next
      case False
      then have "gr' ! j = gr ! j" "j < length gr" using gr' j(1) by auto
      then show ?thesis using grads_okD [OF G g(2), of j] j(2) by metis
    qed
  qed
  then show "back_inv S cg h'" using st(1,3) by (auto simp: back_inv_def)
qed

lemma build_step:
  assumes "back_inv S cg h" "live h p" "p \<noteq> NULL" and r: "ggml_build_forward_expand h cg p = Some h'"
  shows "grown cg h h'" "back_inv S cg h'"
proof -
  have ok: "session_ok h" using assms(1) by (simp add: back_inv_def)
  obtain g where g: "gget h cg = Some g" "grads_ok S h g" using assms(1) by (auto simp: back_inv_def)
  have p: "h_tensors h p \<noteq> None" using assms(2,3) by (simp add: live_def)
  note b = build_ok [OF ok g(1) p assms(3) r [unfolded ggml_build_forward_expand_def]]
  obtain h1 g' where h': "h' = gset h1 cg g'" and fr: "heap_frame h h1" and w: "walk0 (h, g) (h1, g')" using b(2) by blast
  have cg: "cg \<noteq> NULL" using g(1) by (auto simp: gget_def split: if_splits)
  then have gg: "gget h' cg = Some g'" by (simp add: h')
  have t: "h_tensors h' = h_tensors h1" "h_graphs h1 = h_graphs h" using fr by (simp_all add: h' heap_frame_def)
  have k: "tensors_kept h h'" using frame_kept [OF fr] by (simp add: tensors_kept_def t)
  moreover have "graph_grown g g'" using walkD(2,4,6,7,10) [OF w] by (simp add: graph_grown_def has_grad_def)
  moreover have "\<forall>c. c \<noteq> cg \<longrightarrow> h_graphs h' c = h_graphs h c" using t(2) by (simp add: h' gset_def)
  ultimately show "grown cg h h'" using b(1) g(1) gg by (simp add: grown_def)
  have "grads_ok S h' g'" by (rule grads_ok_kept [OF g(2) k walkD(4) [OF w] walkD(10) [OF w]])
  then show "back_inv S cg h'" using b(1) gg by (auto simp: back_inv_def)
qed

section \<open>A small logic for the rules of differentiation\<close>

text \<open>A computation that yields a tensor that was built or is at hand.\<close>

definition yields :: "heap \<Rightarrow> node_result \<Rightarrow> bool" where
  "yields h m \<longleftrightarrow> (\<forall>r h'. m = Some (r, h') \<longrightarrow> extends h h' \<and> live h' r)"

text \<open>A computation that changes the graph.\<close>

definition steps :: "nat set \<Rightarrow> ptr \<Rightarrow> heap \<Rightarrow> heap option \<Rightarrow> bool" where
  "steps S cg h m \<longleftrightarrow> (\<forall>h'. m = Some h' \<longrightarrow> grown cg h h' \<and> back_inv S cg h')"

lemma yields_simps [simp]: "yields h None"
  by (simp add: yields_def)

lemma yields_at_hand: "heap_inv h \<Longrightarrow> live h r \<Longrightarrow> yields h (Some (r, h))"
  by (simp add: yields_def extends_refl)

lemma yields_creates: "heap_inv h \<Longrightarrow> creates h m (\<lambda>_. True) \<Longrightarrow> yields h m"
  using growsD [OF creates_any_grows] by (fastforce simp: yields_def)

lemma yields_bind: "(\<And>x. m = Some x \<Longrightarrow> yields h (f x)) \<Longrightarrow> yields h (m \<bind> f)"
  by (cases m) simp_all

lemma yields_seq:
  assumes "yields h m"
    and "\<And>r h1. heap_inv h1 \<Longrightarrow> live h1 r \<Longrightarrow> (\<And>p. live h p \<Longrightarrow> live h1 p) \<Longrightarrow> yields h1 (f r h1)"
  shows "yields h (m \<bind> (\<lambda>(r, h1). f r h1))"
  unfolding yields_def
proof (intro allI impI)
  fix r2 h2 assume "(m \<bind> (\<lambda>(r, h1). f r h1)) = Some (r2, h2)"
  then obtain r h1 where m: "m = Some (r, h1)" and f: "f r h1 = Some (r2, h2)" by (auto simp: bind_Some_iff)
  then have e: "extends h h1" "live h1 r" using assms(1) by (simp_all add: yields_def)
  then have "yields h1 (f r h1)" using assms(2) extends_inv extends_live by blast
  then show "extends h h2 \<and> live h2 r2" using f e(1) extends_trans by (auto simp: yields_def)
qed

lemma yields_chain:
  assumes "yields h m"
    and "\<And>r h1. heap_inv h1 \<Longrightarrow> live h1 r \<Longrightarrow> (\<And>p. live h p \<Longrightarrow> live h1 p) \<Longrightarrow> yields h1 (f h1 r)"
  shows "yields h (chain m f)"
  unfolding chain_def using assms by (rule yields_seq)

lemma back_heap_inv: "back_inv S cg h \<Longrightarrow> heap_inv h"
  by (simp add: back_inv_def session_ok_def)

lemma steps_simps [simp]: "steps S cg h None" "back_inv S cg h \<Longrightarrow> steps S cg h (Some h)"
  by (simp_all add: steps_def back_inv_def grown_refl)

lemma steps_bind: "(\<And>x. m = Some x \<Longrightarrow> steps S cg h (f x)) \<Longrightarrow> steps S cg h (m \<bind> f)"
  by (cases m) simp_all

lemma steps_seq:
  assumes "steps S cg h m" "\<And>h1. grown cg h h1 \<Longrightarrow> back_inv S cg h1 \<Longrightarrow> steps S cg h1 (f h1)"
  shows "steps S cg h (m \<bind> f)"
  unfolding steps_def
proof (intro allI impI)
  fix h2 assume "(m \<bind> f) = Some h2"
  then obtain h1 where m: "m = Some h1" and f: "f h1 = Some h2" by (auto simp: bind_Some_iff)
  then have g: "grown cg h h1" "back_inv S cg h1" using assms(1) by (simp_all add: steps_def)
  with assms(2) f have "grown cg h1 h2" "back_inv S cg h2" by (auto simp: steps_def)
  then show "grown cg h h2 \<and> back_inv S cg h2" using grown_trans g(1) by blast
qed

lemma steps_node:
  assumes "yields h m" "back_inv S cg h"
    and "\<And>r h1. grown cg h h1 \<Longrightarrow> back_inv S cg h1 \<Longrightarrow> live h1 r \<Longrightarrow> steps S cg h1 (f r h1)"
  shows "steps S cg h (m \<bind> (\<lambda>(r, h1). f r h1))"
  unfolding steps_def
proof (intro allI impI)
  fix h2 assume "(m \<bind> (\<lambda>(r, h1). f r h1)) = Some h2"
  then obtain r h1 where m: "m = Some (r, h1)" and f: "f r h1 = Some h2" by (auto simp: bind_Some_iff)
  then have e: "extends h h1" "live h1 r" using assms(1) by (simp_all add: yields_def)
  note x = extends_step [OF assms(2) e(1)]
  from assms(3) [OF x e(2)] f have "grown cg h1 h2" "back_inv S cg h2" by (auto simp: steps_def)
  then show "grown cg h h2 \<and> back_inv S cg h2" using grown_trans x(1) by blast
qed

section \<open>Changing a gradient\<close>

lemma store_grad_steps:
  assumes inv: "back_inv S cg h" and o: "occ cg i h" "i \<in> S" and p: "live h p"
  shows "steps S cg h (store_grad h cg i src p)"
  unfolding steps_def
proof (intro allI impI)
  fix h' assume "store_grad h cg i src p = Some h'"
  then obtain h1 w h2 where 1: "put_grad h cg i p = Some h1" and 2: "tset h1 p (ggml_format_name w) = Some h2"
    and 3: "ggml_build_forward_expand h2 cg p = Some h'" unfolding store_grad_def bind_Some_iff by blast
  have nn: "p \<noteq> NULL" using 2 by (auto simp: tset_Some)
  note a = put_grad_step [OF inv o p nn 1]
  have fr: "heap_frame h1 h2" by (rule tset_frame [OF 2]) (simp_all add: name_core)
  note b = frame_step [OF a(2) fr]
  have "live h2 p" using grown_live [OF b(1)] grown_live [OF a(1) p] by blast
  note c = build_step [OF b(2) this nn 3]
  show "grown cg h h' \<and> back_inv S cg h'" using grown_trans [OF a(1) grown_trans [OF b(1) c(1)]] c(2) by blast
qed

text \<open>What a slot of a graph in order holds is live.\<close>

lemma slot_live:
  assumes "back_inv S cg h" "gget h cg = Some g"
  shows "grad_ref g i = Some p \<Longrightarrow> live h p" "occ cg i h \<Longrightarrow> slot_key g i = Some x \<Longrightarrow> live h x"
proof -
  have ok: "session_ok h" and G: "grads_ok S h g" using assms by (auto simp: back_inv_def)
  show "live h p" if "grad_ref g i = Some p"
  proof (cases "p = NULL")
    case False
    with that obtain gr where "g_grads g = Some gr" "i < length gr" "gr ! i = p"
      by (auto simp: grad_ref_def split: option.splits if_splits)
    then show ?thesis using grads_okD [OF G, of gr i] False by (metis live_Some)
  qed simp
  show "live h x" if o: "occ cg i h" and k: "slot_key g i = Some x"
  proof -
    obtain y where y: "hs_occupied (g_visited g) i y" using o assms(2) by (auto simp: occ_def)
    then have "y = x" using k by (auto simp: slot_key_def hs_occupied_def Let_def split: if_splits)
    moreover have "y \<in> g_done g"
      using y complete_visited session_graph_state [OF ok assms(2)] hs_set_occupied by (metis graph_state_def)
    ultimately show ?thesis
      using session_graph_state [OF ok assms(2)] by (auto simp: graph_state_def graph_complete_def live_def)
  qed
qed

text \<open>The four functions share one shape: a tensor is built from the old gradient or without one.\<close>

lemma or_set_steps:
  assumes inv: "back_inv S cg h" and o: "occ cg i h" "i \<in> S"
    and add: "\<And>old acc. live h old \<Longrightarrow> yields h (add old acc)" and new: "\<And>src. live h src \<Longrightarrow> yields h (new src)"
  shows "steps S cg h (do {
     g \<leftarrow> gget h cg;
     src \<leftarrow> slot_key g i;
     old \<leftarrow> grad_ref g i;
     (grad, h) \<leftarrow> (if old \<noteq> NULL then do { acc \<leftarrow> acc_ref g i; add old acc } else new src);
     store_grad h cg i src grad })"
proof (rule steps_bind, rule steps_bind, rule steps_bind)
  fix g src old assume g: "gget h cg = Some g" "slot_key g i = Some src" "grad_ref g i = Some old"
  note l = slot_live [OF inv g(1)]
  show "steps S cg h ((if old \<noteq> NULL then do { acc \<leftarrow> acc_ref g i; add old acc } else new src) \<bind>
      (\<lambda>(grad, h). store_grad h cg i src grad))"
  proof (rule steps_node [OF _ inv])
    show "yields h (if old \<noteq> NULL then do { acc \<leftarrow> acc_ref g i; add old acc } else new src)"
      using add [OF l(1) [OF g(3)]] new [OF l(2) [OF o(1) g(2)]] by (auto intro: yields_bind)
    show "steps S cg h1 (store_grad h1 cg i src r)" if "grown cg h h1" "back_inv S cg h1" "live h1 r" for r h1
      by (rule store_grad_steps [OF that(2) grown_occ [OF that(1) o(1)] o(2) that(3)])
  qed
qed

section \<open>The rules\<close>

lemma yields_ops:
  assumes "heap_inv h" "live h a"
  shows "yields h (ggml_scale h ctx a s)" "yields h (ggml_scale_impl h ctx a s b inplace)" "yields h (ggml_neg h ctx a)"
    "yields h (ggml_mean h ctx a)" "yields h (ggml_cont h ctx a)" "yields h (ggml_cos h ctx a)" "yields h (ggml_sin h ctx a)"
    "yields h (ggml_transpose h ctx a)" "yields h (ggml_permute h ctx a x0 x1 x2 x3)"
    "yields h (ggml_diag_mask_zero_impl h ctx a n_past inplace)" "yields h (ggml_sgn h ctx a)" "yields h (ggml_step h ctx a)"
    "yields h (ggml_silu h ctx a)" "yields h (ggml_exp h ctx a)" "yields h (ggml_sigmoid h ctx a)"
    "yields h (ggml_view_4d h ctx a ne0 ne1 ne2 ne3 nb1 nb2 nb3 offset)"
  by (rule yields_creates, rule assms, rule creates_intros; rule assms)+

lemma yields_ops2:
  assumes "heap_inv h" "live h a" "live h b"
  shows "yields h (ggml_add_impl h ctx a b inplace)" "yields h (ggml_add1_impl h ctx a b inplace)"
    "yields h (ggml_sub_impl h ctx a b inplace)" "yields h (ggml_acc_impl h ctx a b nb1 nb2 nb3 offset inplace)"
    "yields h (ggml_repeat h ctx a b)" "yields h (ggml_repeat_back h ctx a b)" "yields h (ggml_reshape h ctx a b)"
    "yields h (ggml_mul h ctx a b)" "yields h (ggml_div h ctx a b)" "yields h (ggml_rms_norm_back h ctx a b eps)"
    "yields h (ggml_out_prod h ctx a b)" "yields h (ggml_soft_max_ext_back h ctx a b scale max_bias)"
    "yields h (ggml_im2col_back h ctx a b ne s0 s1 p0 p1 d0 d1 is_2D)" "yields h (ggml_silu_back h ctx a b)"
    "yields h (ggml_pool_2d_back fo h ctx a b op k0 k1 s0 s1 w0 w1)"
  by (rule yields_creates, rule assms, rule creates_intros; rule assms)+

lemma yields_ops3:
  assumes "heap_inv h" "live h a" "live h b" "live h c"
  shows "yields h (ggml_get_rows_back h ctx a b c)" "yields h (ggml_cross_entropy_loss_back h ctx a b c)"
    "yields h (ggml_rope_ext_back h ctx a b c n_dims mode n_ctx_orig freq_base freq_scale ext_factor attn_factor beta_fast beta_slow)"
    "yields h (ggml_rope_multi_back h ctx a b c n_dims sections mode n_ctx_orig freq_base freq_scale ext_factor attn_factor beta_fast beta_slow)"
  by (rule yields_creates, rule assms, rule creates_intros; rule assms)+


lemma add_or_set_steps:
  assumes "back_inv S cg h" "occ cg i h" "i \<in> S" "live h p"
  shows "steps S cg h (ggml_add_or_set h ctx cg i p)" "steps S cg h (ggml_acc_or_set h ctx cg i p nb1 nb2 nb3 offset)"
    "steps S cg h (ggml_add1_or_set h ctx cg i p)" "steps S cg h (ggml_sub_or_set h ctx cg i p)"
proof -
  note hi = back_heap_inv [OF assms(1)]
  show "steps S cg h (ggml_add_or_set h ctx cg i p)" unfolding ggml_add_or_set_def
    by (rule or_set_steps [OF assms(1-3)]) (rule yields_ops2 yields_at_hand; (rule hi assms | assumption))+
  have "yields h (do { (z, h) \<leftarrow> ggml_scale h ctx src 0; ggml_acc_impl h ctx z p nb1 nb2 nb3 offset False })" if "live h src" for src
    by (rule yields_seq, rule yields_ops [OF hi that]) (rule yields_ops2; use assms(4) in blast)
  then show "steps S cg h (ggml_acc_or_set h ctx cg i p nb1 nb2 nb3 offset)" unfolding ggml_acc_or_set_def
    by (intro or_set_steps [OF assms(1-3)]) (rule yields_ops2 [OF hi _ assms(4)])
  show "steps S cg h (ggml_add1_or_set h ctx cg i p)" unfolding ggml_add1_or_set_def
    by (rule or_set_steps [OF assms(1-3)]) (rule yields_ops2; (rule hi assms | assumption))+
  show "steps S cg h (ggml_sub_or_set h ctx cg i p)" unfolding ggml_sub_or_set_def
    by (rule or_set_steps [OF assms(1-3)]) (rule yields_ops2 yields_ops; (rule hi assms | assumption))+
qed

lemma new_steps:
  assumes "back_inv S cg h" "occ cg i h" "i \<in> S" "yields h m"
  shows "steps S cg h (add_new ctx cg i m)" "steps S cg h (sub_new ctx cg i m)" "steps S cg h (add1_new ctx cg i m)"
  unfolding add_new_def sub_new_def add1_new_def
  by (rule steps_node [OF assms(4,1)], rule add_or_set_steps, assumption, erule grown_occ [OF _ assms(2)], rule assms(3), assumption)+

text \<open>What a rule may rely on, in every heap on its way.\<close>

definition rule_env :: "nat set \<Rightarrow> ptr \<Rightarrow> ptr list \<Rightarrow> nat \<Rightarrow> nat \<Rightarrow> bool \<Rightarrow> bool \<Rightarrow> heap \<Rightarrow> bool" where
  "rule_env S cg ps i0 i1 need0 need1 h \<longleftrightarrow> back_inv S cg h \<and> (\<forall>p \<in> set ps. live h p) \<and>
     (need0 \<longrightarrow> occ cg i0 h \<and> i0 \<in> S) \<and> (need1 \<longrightarrow> occ cg i1 h \<and> i1 \<in> S)"

lemma rule_env_grown:
  "rule_env S cg ps i0 i1 need0 need1 h \<Longrightarrow> grown cg h h1 \<Longrightarrow> back_inv S cg h1 \<Longrightarrow> rule_env S cg ps i0 i1 need0 need1 h1"
  using grown_live grown_occ unfolding rule_env_def by blast

lemma rule_envD:
  assumes "rule_env S cg ps i0 i1 need0 need1 h"
  shows "back_inv S cg h" "heap_inv h" "p \<in> set ps \<Longrightarrow> live h p"
  using assms back_heap_inv by (auto simp: rule_env_def)

lemma rule_steps:
  assumes "rule_env S cg ps i0 i1 need0 need1 h"
  shows "(need0 \<Longrightarrow> steps S cg h m) \<Longrightarrow> steps S cg h (if need0 then m else Some h)"
    "(need1 \<Longrightarrow> steps S cg h m) \<Longrightarrow> steps S cg h (if need1 then m else Some h)"
    "need0 \<Longrightarrow> yields h n \<Longrightarrow> steps S cg h (add_new ctx cg i0 n)" "need0 \<Longrightarrow> yields h n \<Longrightarrow> steps S cg h (sub_new ctx cg i0 n)"
    "need0 \<Longrightarrow> yields h n \<Longrightarrow> steps S cg h (add1_new ctx cg i0 n)"
    "need1 \<Longrightarrow> yields h n \<Longrightarrow> steps S cg h (add_new ctx cg i1 n)" "need1 \<Longrightarrow> yields h n \<Longrightarrow> steps S cg h (sub_new ctx cg i1 n)"
    "need0 \<Longrightarrow> p \<in> set ps \<Longrightarrow> steps S cg h (ggml_add_or_set h ctx cg i0 p)"
    "need0 \<Longrightarrow> p \<in> set ps \<Longrightarrow> steps S cg h (ggml_sub_or_set h ctx cg i0 p)"
    "need1 \<Longrightarrow> p \<in> set ps \<Longrightarrow> steps S cg h (ggml_sub_or_set h ctx cg i1 p)"
    "need0 \<Longrightarrow> p \<in> set ps \<Longrightarrow> steps S cg h (ggml_add1_or_set h ctx cg i0 p)"
    "need0 \<Longrightarrow> p \<in> set ps \<Longrightarrow> steps S cg h (ggml_acc_or_set h ctx cg i0 p nb1 nb2 nb3 offset)"
  using assms new_steps add_or_set_steps by (auto simp: rule_env_def)

lemma rule_seq:
  assumes "rule_env S cg ps i0 i1 need0 need1 h" "steps S cg h m"
    and "\<And>h1. rule_env S cg ps i0 i1 need0 need1 h1 \<Longrightarrow> steps S cg h1 (f h1)"
  shows "steps S cg h (m \<bind> f)"
  by (rule steps_seq [OF assms(2)]) (rule assms(3) [OF rule_env_grown [OF assms(1)]])


text \<open>The composed gradients.\<close>

lemma yields_view:
  assumes "heap_inv h" "live h grad"
  shows "yields h (part_view h ctx grad src1 t)"
  unfolding part_view_def by (rule yields_bind, rule yields_ops [OF assms])

lemma yields_unbroadcast:
  assumes "heap_inv h" "live h tmp" "live h src1"
  shows "yields h (unbroadcast h ctx tmp src0 src1)"
  unfolding unbroadcast_def using yields_ops2(6) [OF assms] yields_at_hand [OF assms(1,2)] by (auto intro!: yields_bind)

lemma yields_mul_mat_back0:
  assumes "heap_inv h" "live h grad" "live h src0" "live h src1"
  shows "yields h (mul_mat_back0 h ctx grad src0 src1)"
proof -
  have rest: "yields h1 (if \<not> ggml_are_same_shape tt t0
      then do {
        gassert (ne_at tt 0 = ne_at t0 0); gassert (ne_at tt 1 = ne_at t0 1); gassert (ne_at tt 3 = 1);
        nr2 \<leftarrow> cdiv (ne_at tt 2) (ne_at t0 2);
        let nb2 = u64 (nb_at tt 2 * nr2); let nb3 = nb_at tt 2;
        (tmp, h) \<leftarrow> ggml_view_4d h1 ctx tmp (ne_at t0 0) (ne_at t0 1) (ne_at t0 2) nr2 (nb_at tt 1) nb2 nb3 0;
        ggml_repeat_back h ctx tmp src0 }
      else Some (tmp, h1))"
    if h1: "heap_inv h1" "live h1 tmp" "\<And>p. live h p \<Longrightarrow> live h1 p" for h1 tmp tt t0
  proof -
    have v: "yields h1 (ggml_view_4d h1 ctx tmp n0 n1 n2 nr2 nb1 nb2 nb3 0 \<bind> (\<lambda>(tmp, h). ggml_repeat_back h ctx tmp src0))" for n0 n1 n2 nr2 nb1 nb2 nb3
      by (rule yields_seq [OF yields_ops(16) [OF h1(1,2)]], rule yields_ops2) (use h1(3) assms(3) in blast)+
    show ?thesis using yields_at_hand [OF h1(1,2)]
      by (cases "ggml_are_same_shape tt t0") (simp, simp only: if_True not_False_eq_True Let_def, (rule v | rule yields_bind)+)
  qed
  show ?thesis
    unfolding mul_mat_back0_def
    by (rule yields_bind, rule yields_bind, rule yields_bind, rule yields_bind,
        rule yields_seq [OF yields_ops2(11) [OF assms(1,4,2)]], rule yields_bind, rule yields_bind, rule rest)
qed

lemma yields_rope_back:
  assumes "heap_inv h" "live h grad" "live h src1" "live h src2"
  shows "yields h (rope_back h ctx t grad src1 src2)"
  unfolding rope_back_def Let_def using yields_ops3(3,4) [OF assms] by (auto intro!: yields_bind)

lemma yields_pool_im2col:
  assumes "heap_inv h" "live h grad" "live h src0"
  shows "yields h (pool_2d_back fo h ctx t grad src0)" "yields h (im2col_back h ctx t grad src0 src1)"
  unfolding pool_2d_back_def im2col_back_def by (rule yields_bind, rule yields_ops2; rule assms)+

text \<open>A constructor applied to the result of another, with pointers that were live before.\<close>

lemma yields_chain_ops:
  assumes "heap_inv h" "yields h m"
  shows "live h b \<Longrightarrow> yields h (chain m (\<lambda>h r. ggml_mul h ctx r b))" "live h b \<Longrightarrow> yields h (chain m (\<lambda>h r. ggml_mul h ctx b r))"
    "yields h (chain m (\<lambda>h r. ggml_scale h ctx r s))" "yields h (chain m (\<lambda>h r. ggml_cont h ctx r))"
    "live h b \<Longrightarrow> yields h (chain m (\<lambda>h r. ggml_reshape h ctx r b))" "live h b \<Longrightarrow> yields h (chain m (\<lambda>h r. ggml_out_prod h ctx b r))"
    "live h b \<Longrightarrow> yields h (chain m (\<lambda>h r. ggml_silu_back h ctx r b))"
    "live h b \<Longrightarrow> yields h (chain m (\<lambda>h r. unbroadcast h ctx r c b))"
  by (rule yields_chain [OF assms(2)], (rule yields_ops2 yields_ops yields_unbroadcast), blast, blast?, blast?)+


text \<open>The rules with several steps.\<close>

abbreviation back_env where
  "back_env S cg tensor grad t i0 i1 need0 need1 h \<equiv>
     rule_env S cg [tensor, grad, t_src t ! 0, t_src t ! 1, t_src t ! 2] i0 i1 need0 need1 h"

lemma set_back_steps:
  assumes env: "back_env S cg tensor grad t i0 i1 need0 need1 h"
  shows "steps S cg h (set_back h ctx cg t grad (t_src t ! 0) (t_src t ! 1) i0 i1 need0 need1)"
proof -
  note E = rule_envD [OF env]
  have l: "live h grad" "live h (t_src t ! 1)" by (rule E(3), simp)+
  let ?s0 = "t_src t ! 0" and ?s1 = "t_src t ! 1"
  have view: "yields h (do {
        t0 \<leftarrow> tget h ?s0; gassert (t_type t0 = t_type t); g \<leftarrow> gget h cg; tg \<leftarrow> tget h grad; g0 \<leftarrow> grad_ref g i0;
        (if g0 = NULL then Some () else do { u \<leftarrow> tget h g0; gassert (t_type u = t_type tg) });
        g1 \<leftarrow> grad_ref g i1;
        (if g1 = NULL \<or> \<not> need1 then Some () else do { u \<leftarrow> tget h g1; gassert (t_type u = t_type tg) });
        part_view h ctx grad ?s1 t })"
    by (rule yields_view [OF E(2) l(1)] | rule yields_bind)+
  show ?thesis
    unfolding set_back_def Let_def
  proof (rule steps_node [OF _ E(1)])
    show "yields h (if need0 \<or> need1 then do {
        t0 \<leftarrow> tget h ?s0; gassert (t_type t0 = t_type t); g \<leftarrow> gget h cg; tg \<leftarrow> tget h grad; g0 \<leftarrow> grad_ref g i0;
        (if g0 = NULL then Some () else do { u \<leftarrow> tget h g0; gassert (t_type u = t_type tg) });
        g1 \<leftarrow> grad_ref g i1;
        (if g1 = NULL \<or> \<not> need1 then Some () else do { u \<leftarrow> tget h g1; gassert (t_type u = t_type tg) });
        part_view h ctx grad ?s1 t } else Some (NULL, h))"
      using view yields_at_hand [OF E(2) live_NULL] by simp
    fix r h1 assume g1: "grown cg h h1" and b1: "back_inv S cg h1" and r: "live h1 r"
    note env1 = rule_env_grown [OF env g1 b1]
    note E1 = rule_envD [OF env1]
    show "steps S cg h1
        ((if need0 then ggml_neg h1 ctx r \<bind> (\<lambda>(tmp, h). add_new ctx cg i0 (ggml_acc_impl h ctx grad tmp (param_size t 0)
             (param_size t 1) (param_size t 2) (param_size t 3) False)) else Some h1) \<bind>
         (\<lambda>h. if need1 then ggml_cont h ctx r \<bind> (\<lambda>(c, h). add_new ctx cg i1 (ggml_reshape h ctx c ?s1)) else Some h))"
    proof (rule steps_seq)
      show "steps S cg h1 (if need0 then ggml_neg h1 ctx r \<bind> (\<lambda>(tmp, h). add_new ctx cg i0 (ggml_acc_impl h ctx grad tmp (param_size t 0)
             (param_size t 1) (param_size t 2) (param_size t 3) False)) else Some h1)"
      proof (rule rule_steps(1) [OF env1], rule steps_node [OF yields_ops(3) [OF E1(2) r] b1])
        fix n h2 assume n: need0 and g2: "grown cg h1 h2" and b2: "back_inv S cg h2" and l2: "live h2 n"
        note env2 = rule_env_grown [OF env1 g2 b2]
        show "steps S cg h2 (add_new ctx cg i0 (ggml_acc_impl h2 ctx grad n (param_size t 0) (param_size t 1) (param_size t 2)
            (param_size t 3) False))"
          by (rule rule_steps(3) [OF env2 n], rule yields_ops2(4) [OF rule_envD(2) [OF env2] rule_envD(3) [OF env2] l2]) simp
      qed
      fix h2 assume g2: "grown cg h1 h2" and b2: "back_inv S cg h2"
      note env2 = rule_env_grown [OF env1 g2 b2]
      note E2 = rule_envD [OF env2]
      show "steps S cg h2 (if need1 then ggml_cont h2 ctx r \<bind> (\<lambda>(c, h). add_new ctx cg i1 (ggml_reshape h ctx c ?s1)) else Some h2)"
      proof (rule rule_steps(2) [OF env2], rule steps_node [OF yields_ops(5) [OF E2(2) grown_live [OF g2 r]] b2])
        fix c h3 assume n: need1 and g3: "grown cg h2 h3" and b3: "back_inv S cg h3" and l3: "live h3 c"
        note env3 = rule_env_grown [OF env2 g3 b3]
        show "steps S cg h3 (add_new ctx cg i1 (ggml_reshape h3 ctx c ?s1))"
          by (rule rule_steps(6) [OF env3 n], rule yields_ops2(7) [OF rule_envD(2) [OF env3] l3 rule_envD(3) [OF env3]]) simp
      qed
    qed
  qed
qed

lemma cont_view_steps:
  assumes env: "back_env S cg tensor grad t i0 i1 True need1 h"
  shows "steps S cg h (cont_back h ctx cg t grad (t_src t ! 0) i0)" "steps S cg h (view_back h ctx cg t grad (t_src t ! 0) i0)"
proof -
  note E = rule_envD [OF env]
  have l: "live h grad" "live h (t_src t ! 0)" by (rule E(3), simp)+
  have c: "yields h (if ggml_are_same_shape t t0 then Some (grad, h) else ggml_reshape h ctx grad (t_src t ! 0))" for t0
    using yields_at_hand [OF E(2) l(1)] yields_ops2(7) [OF E(2) l] by simp
  show "steps S cg h (cont_back h ctx cg t grad (t_src t ! 0) i0)"
    unfolding cont_back_def by (rule rule_steps(3) [OF env TrueI c] | rule steps_bind)+
  have v: "steps S cg h (ggml_acc_or_set h ctx cg i0 grad nb1 nb2 nb3 offset)" for nb1 nb2 nb3 offset
    by (rule rule_steps(12) [OF env]) simp_all
  show "steps S cg h (view_back h ctx cg t grad (t_src t ! 0) i0)"
    unfolding view_back_def Let_def split_def by (rule v | rule steps_bind)+
qed

lemma unary_glu_steps:
  assumes env: "back_env S cg tensor grad t i0 i1 need0 need1 h"
  shows "steps S cg h (unary_back h ctx cg tensor op grad (t_src t ! 0) i0 need0)"
    "steps S cg h (glu_back h ctx cg gop grad (t_src t ! 0) (t_src t ! 1) i0 i1 need0 need1)"
proof -
  note E = rule_envD [OF env]
  have l: "live h tensor" "live h grad" "live h (t_src t ! 0)" "live h (t_src t ! 1)" by (rule E(3), simp)+
  show "steps S cg h (unary_back h ctx cg tensor op grad (t_src t ! 0) i0 need0)"
    unfolding unary_back_def
    by (cases op; simp only: ggml_unary_op.case)
      (rule steps_simps E(1) rule_steps(1,3,9) [OF env] yields_ops yields_ops2 yields_chain_ops E(2) l | assumption | simp)+
  show "steps S cg h (glu_back h ctx cg gop grad (t_src t ! 0) (t_src t ! 1) i0 i1 need0 need1)"
  proof (cases "gop = GGML_GLU_OP_SWIGLU")
    case True
    have "steps S cg h (if need0 then gassert (t_src t ! 1 \<noteq> NULL) \<bind> (\<lambda>_. add_new ctx cg i0
        (chain (ggml_mul h ctx grad (t_src t ! 1)) (\<lambda>h m. ggml_silu_back h ctx m (t_src t ! 0)))) else Some h)"
      by (rule rule_steps(1) [OF env], rule steps_bind, rule rule_steps(3) [OF env], assumption)
        (rule yields_chain_ops yields_ops2 E(2) l)+
    moreover have "steps S cg h1 (if need1 then add_new ctx cg i1 (chain (ggml_silu h1 ctx (t_src t ! 0))
        (\<lambda>h s. ggml_mul h ctx s grad)) else Some h1)" if env1: "back_env S cg tensor grad t i0 i1 need0 need1 h1" for h1
      by (rule rule_steps(2) [OF env1], rule rule_steps(6) [OF env1], assumption,
          rule yields_chain_ops(1) [OF rule_envD(2) [OF env1] yields_ops(13) [OF rule_envD(2,3) [OF env1]]])
        (simp, rule rule_envD(3) [OF env1], simp)
    ultimately show ?thesis unfolding True glu_back_def ggml_glu_op.case by (intro rule_seq [OF env])
  next
    case False
    then have "glu_back h ctx cg gop grad (t_src t ! 0) (t_src t ! 1) i0 i1 need0 need1 = None"
      by (cases gop) (simp_all add: glu_back_def)
    then show ?thesis by simp
  qed
qed


text \<open>Every rule keeps the invariant.\<close>

lemma first_steps:
  assumes env: "back_env S cg tensor grad t i0 i1 need0 need1 h"
    and m: "yields h m" and f: "\<And>h1. back_env S cg tensor grad t i0 i1 need0 need1 h1 \<Longrightarrow> steps S cg h1 (f h1)"
  shows "steps S cg h ((if need0 then ggml_add_or_set h ctx cg i0 grad else Some h) \<bind> f)"
    "steps S cg h ((if need0 then add_new ctx cg i0 m else Some h) \<bind> f)"
  by (rule rule_seq [OF env rule_steps(1) [OF env rule_steps(8) [OF env]] f], assumption, simp, assumption)
    (rule rule_seq [OF env rule_steps(1) [OF env rule_steps(3) [OF env _ m]] f], assumption, assumption)

lemma backward_rule_steps:
  assumes env: "back_env S cg tensor grad t i0 i1 need0 need1 h"
  shows "steps S cg h (backward_rule fo h ctx cg tensor t grad i0 i1 need0 need1 need2)"
proof -
  let ?s0 = "t_src t ! 0" and ?s1 = "t_src t ! 1" and ?s2 = "t_src t ! 2"
  note E = rule_envD [OF env]
  have l: "live h1 tensor" "live h1 grad" "live h1 ?s0" "live h1 ?s1" "live h1 ?s2" "heap_inv h1"
    if "back_env S cg tensor grad t i0 i1 need0 need1 h1" for h1
    by (rule rule_envD(2,3) [OF that]; simp)+
  note L = l [OF env]
  have second: "steps S cg h1 (if need1 then add_new ctx cg i1 m else Some h1)"
    if "back_env S cg tensor grad t i0 i1 need0 need1 h1" "yields h1 m" for h1 m
    by (rule rule_steps(2) [OF that(1)], rule rule_steps(6) [OF that(1) _ that(2)])
  have fin: "steps S cg h1 (gassert b \<bind> (\<lambda>_. Some h1))" if "back_env S cg tensor grad t i0 i1 need0 need1 h1" for h1 b
    by (rule steps_bind, rule steps_simps(2) [OF rule_envD(1) [OF that]])
  have mem: "tensor \<in> set [tensor, grad, ?s0, ?s1, ?s2]" "grad \<in> set [tensor, grad, ?s0, ?s1, ?s2]" by simp_all
  have second_sub: "steps S cg h1 (if need1 then ggml_sub_or_set h1 ctx cg i1 grad else Some h1)"
      "yields h1 m \<Longrightarrow> steps S cg h1 (if need1 then sub_new ctx cg i1 m else Some h1)"
    if e: "back_env S cg tensor grad t i0 i1 need0 need1 h1" for h1 m
    by (rule rule_steps(2) [OF e], rule rule_steps(10) [OF e _ mem(2)], assumption)
      (rule rule_steps(2) [OF e], rule rule_steps(7) [OF e])
  note first = first_steps(1) [OF env yields_at_hand [OF L(6,1)]] first_steps(2) [OF env]
  have cv: "steps S cg h (cont_back h ctx cg t grad ?s0 i0)" "steps S cg h (view_back h ctx cg t grad ?s0 i0)" if need0
    using cont_view_steps [of S cg tensor grad t i0 i1 need1 h] env that by simp_all
  have cont: "yields h (if ggml_is_contiguous tg then Some (grad, h) else ggml_cont h ctx grad)" for tg
    using yields_at_hand [OF L(6,2)] yields_ops(5) [OF L(6,2)] by simp
  note sets = cv cont unary_glu_steps [OF env] set_back_steps [OF env]
  show ?thesis
    unfolding backward_rule_def Let_def
    by (cases "t_op t"; simp only: ggml_op.case;
      ((rule steps_simps E(1) first rule_steps(1,2) [OF env] rule_steps(3-12) [OF env] second second_sub fin sets mem
        yields_chain_ops yields_ops yields_ops2 yields_ops3 yields_view yields_unbroadcast yields_mul_mat_back0 yields_rope_back
        yields_pool_im2col l env steps_bind | assumption)+)?)
qed


section \<open>One step of the pass\<close>

text \<open>A tensor has a gradient; it is marked as needing one.\<close>

definition graded :: "ggml_cgraph \<Rightarrow> ptr \<Rightarrow> bool" where
  "graded g x \<longleftrightarrow> (\<exists>j. hs_occupied (g_visited g) j x \<and> has_grad g j)"

definition marked :: "ggml_cgraph \<Rightarrow> bool list \<Rightarrow> ptr \<Rightarrow> bool" where
  "marked g need x \<longleftrightarrow> (\<exists>j. hs_occupied (g_visited g) j x \<and> need ! j)"

lemma graded_grown: "graph_grown g g' \<Longrightarrow> graded g x \<Longrightarrow> graded g' x"
  unfolding graph_grown_def graded_def by blast

lemma marked_grown: "graph_grown g g' \<Longrightarrow> marked g need x \<Longrightarrow> marked g' need x"
  unfolding graph_grown_def marked_def by blast

lemma grownD:
  assumes "grown cg h h'" "gget h cg = Some g"
  obtains g' where "gget h' cg = Some g'" "graph_grown g g'"
  using assms unfolding grown_def by blast

lemma found_at:
  assumes "hs_inv hs" "ggml_hash_find hs x = Some r" "r \<noteq> GGML_HASHSET_FULL" "hs_get hs r"
  shows "hs_occupied hs r x"
proof -
  have "x \<in> hs_set hs" using ggml_hash_find_spec [OF assms(1), of x] assms(2-4) by (auto split: if_splits)
  then show ?thesis using ggml_hash_find_spec [OF assms(1), of x] assms(2) by (auto simp: hs_occupied_def)
qed

lemma get_grad_graded:
  assumes ok: "session_ok h" and g: "gget h cg = Some g" and x: "graded g x"
  obtains p where "ggml_graph_get_grad g x = Some p" "p \<noteq> NULL"
proof -
  note inv = session_grads_length(3) [OF ok g]
  obtain j gr where j: "hs_occupied (g_visited g) j x" "g_grads g = Some gr" "gr ! j \<noteq> NULL"
    using x by (auto simp: graded_def has_grad_def)
  have "ggml_graph_get_grad g x = Some (gr ! j)" using find_at [OF inv j(1)] j(2) by (simp add: ggml_graph_get_grad_def)
  then show thesis using j(3) that by blast
qed

lemma back_inv_mono: "S \<subseteq> T \<Longrightarrow> back_inv S cg h \<Longrightarrow> back_inv T cg h"
  unfolding back_inv_def grads_ok_def by blast

text \<open>The last check on a slot makes its gradient well-formed again.\<close>

lemma check_grad_slot:
  assumes inv: "back_inv (insert i S) cg h" and g: "gget h cg = Some g" and o: "hs_occupied (g_visited g) i src"
    and c: "check_grad h cg True src i = Some ()"
  shows "back_inv S cg h" "has_grad g i"
proof -
  obtain p s u gr where p: "grad_ref g i = Some p" and s: "h_tensors h src = Some s" and u: "h_tensors h p = Some u" "p \<noteq> NULL"
    and sh: "ggml_are_same_shape s u" using c g by (auto simp: check_grad_def bind_Some_iff split: if_split_asm)
  obtain gr where gr: "g_grads g = Some gr" "i < length gr" "gr ! i = p"
    using p by (auto simp: grad_ref_def split: option.splits if_splits)
  show "has_grad g i" using gr u(2) by (simp add: has_grad_def)
  have G: "grads_ok (insert i S) h g" using inv g by (auto simp: back_inv_def)
  have "grads_ok S h g"
    unfolding grads_ok_def
  proof (intro allI impI)
    fix gr' j assume j: "g_grads g = Some gr'" "j < length gr'" "gr' ! j \<noteq> NULL"
    show "\<exists>x t u. hs_occupied (g_visited g) j x \<and> h_tensors h x = Some t \<and> h_tensors h (gr' ! j) = Some u \<and>
        (j \<notin> S \<longrightarrow> ggml_are_same_shape t u)"
    proof (cases "j = i")
      case True
      then show ?thesis using o s u(1) sh gr j(1) by auto
    next
      case False
      then show ?thesis using grads_okD [OF G j] by (metis insert_iff)
    qed
  qed
  then show "back_inv S cg h" using inv g by (auto simp: back_inv_def)
qed


lemma needs_grad_slot:
  assumes "hs_inv (g_visited g)" "grad_slot (g_visited g) src = Some i"
  shows "needs_grad (g_visited g) need src i \<Longrightarrow> hs_occupied (g_visited g) i src"
    "src \<noteq> NULL \<Longrightarrow> marked g need src \<Longrightarrow> needs_grad (g_visited g) need src i"
proof -
  show "hs_occupied (g_visited g) i src" if "needs_grad (g_visited g) need src i"
    using that found_at [OF assms(1)] assms(2) by (auto simp: needs_grad_def grad_slot_def split: if_splits)
  show "needs_grad (g_visited g) need src i" if n: "src \<noteq> NULL" and m: "marked g need src"
  proof -
    obtain j where j: "hs_occupied (g_visited g) j src" "need ! j" using m by (auto simp: marked_def)
    then show ?thesis using find_at [OF assms(1) j(1)] assms(2) n by (simp add: needs_grad_def grad_slot_def)
  qed
qed

lemma compute_step:
  assumes inv: "back_inv {} cg h" and g: "gget h cg = Some g" and i: "i < length (g_node_list g)"
    and r: "ggml_compute_backward fo h ctx cg i need = Some h'"
  shows "grown cg h h'" "back_inv {} cg h'"
    "graded g (g_node_list g ! i) \<Longrightarrow> k < 3 \<Longrightarrow> gget h' cg = Some g' \<Longrightarrow> srcs h (g_node_list g ! i) ! k \<noteq> NULL \<Longrightarrow>
      marked g need (srcs h (g_node_list g ! i) ! k) \<Longrightarrow> graded g' (srcs h (g_node_list g ! i) ! k)"
proof -
  have ok: "session_ok h" using inv by (simp add: back_inv_def)
  note hi = session_grads_length(3) [OF ok g]
  let ?x = "g_node_list g ! i"
  have x: "g_nodes g ! i = ?x" using i by (simp add: g_node_list_def)
  have xd: "?x \<in> g_done g" using i by (simp add: g_done_def)
  then obtain t where t: "h_tensors h ?x = Some t" "?x \<noteq> NULL"
    using session_graph_state [OF ok g] by (auto simp: graph_state_def graph_complete_def)
  have sx: "srcs h ?x = t_src t" using t by (simp add: srcs_def)
  have il: "i < length (g_nodes g)" using i by (simp add: g_node_list_def)
  obtain grad where grad: "ggml_graph_get_grad g ?x = Some grad"
    using r g il by (cases "ggml_graph_get_grad g ?x") (simp_all add: ggml_compute_backward_def x Let_def)
  have "(grad = NULL \<longrightarrow> h' = h) \<and> (grad \<noteq> NULL \<longrightarrow> grown cg h h' \<and> back_inv {} cg h' \<and>
    (\<forall>k < 3. \<forall>g'. gget h' cg = Some g' \<longrightarrow> t_src t ! k \<noteq> NULL \<longrightarrow> marked g need (t_src t ! k) \<longrightarrow> graded g' (t_src t ! k)))"
  proof (intro conjI impI)
    show "h' = h" if "grad = NULL"
      using r g grad that il by (simp add: ggml_compute_backward_def x Let_def)
    assume nn: "grad \<noteq> NULL"
    let ?s = "\<lambda>k. t_src t ! k" and ?n = "\<lambda>k j. needs_grad (g_visited g) need (t_src t ! k) j"
    obtain i0 i1 i2 where sl: "grad_slot (g_visited g) (?s 0) = Some i0" "grad_slot (g_visited g) (?s 1) = Some i1"
        "grad_slot (g_visited g) (?s 2) = Some i2"
      and b: "backward_rule fo h ctx cg ?x t grad i0 i1 (?n 0 i0) (?n 1 i1) (?n 2 i2) = Some h'"
      and c: "check_grad h' cg (?n 0 i0) (?s 0) i0 = Some ()" "check_grad h' cg (?n 1 i1) (?s 1) i1 = Some ()"
        "check_grad h' cg (?n 2 i2) (?s 2) i2 = Some ()"
      using r g grad nn t il by (auto simp: ggml_compute_backward_def bind_Some_iff x Let_def)
    have o: "?n 0 i0 \<Longrightarrow> hs_occupied (g_visited g) i0 (?s 0)" "?n 1 i1 \<Longrightarrow> hs_occupied (g_visited g) i1 (?s 1)"
        "?n 2 i2 \<Longrightarrow> hs_occupied (g_visited g) i2 (?s 2)"
      by (rule needs_grad_slot(1) [OF hi]; (rule sl | assumption))+
    let ?S = "{j. ?n 0 i0 \<and> j = i0 \<or> ?n 1 i1 \<and> j = i1}"
    have "node_wf h ?x t" using ok t(1) by (simp add: session_ok_def heap_inv_def tensors_wf_def)
    then have w: "\<forall>s \<in> set (t_src t). s = ?x \<or> live h s" "length (t_src t) = GGML_MAX_SRC"
      by (simp_all add: node_wf_def tensor_shape_ok_def)
    have ls: "live h (?s k)" if "k < 3" for k
    proof -
      have "?s k \<in> set (t_src t)" using w(2) that by (simp add: GGML_MAX_SRC_def)
      then show ?thesis using w(1) live_Some [OF t(1)] by metis
    qed
    have lg: "live h grad"
    proof -
      obtain j gr where "g_grads g = Some gr" "j < length gr" "gr ! j = grad"
        using grad nn session_grads_length(1) [OF ok g] ggml_hash_find_spec [OF hi, of ?x]
        by (auto simp: ggml_graph_get_grad_def split: option.splits if_splits)
      then show ?thesis using slot_live(1) [OF inv g, of j] by (simp add: grad_ref_def)
    qed
    have "rule_env ?S cg [?x, grad, ?s 0, ?s 1, ?s 2] i0 i1 (?n 0 i0) (?n 1 i1) h"
      using back_inv_mono [OF _ inv, of ?S] live_Some [OF t(1)] lg ls o(1,2) g by (auto simp: rule_env_def occ_def)
    from backward_rule_steps [OF this] b have gr: "grown cg h h'" and bi: "back_inv ?S cg h'" unfolding steps_def by blast+
    obtain g' where g': "gget h' cg = Some g'" "graph_grown g g'" by (rule grownD [OF gr g])
    have o': "?n 0 i0 \<Longrightarrow> hs_occupied (g_visited g') i0 (?s 0)" "?n 1 i1 \<Longrightarrow> hs_occupied (g_visited g') i1 (?s 1)"
        "?n 2 i2 \<Longrightarrow> hs_occupied (g_visited g') i2 (?s 2)"
      using o g'(2) by (simp_all add: graph_grown_def)
    show "grown cg h h'" by (rule gr)
    let ?S1 = "{j. ?n 1 i1 \<and> j = i1}"
    have b1: "back_inv ?S1 cg h'"
    proof (cases "?n 0 i0")
      case True
      have "back_inv (insert i0 ?S1) cg h'" by (rule back_inv_mono [OF _ bi]) auto
      from check_grad_slot(1) [OF this g'(1) o'(1) [OF True]] c(1) True show ?thesis by simp
    qed (use back_inv_mono [OF _ bi, of ?S1] in simp)
    show b2: "back_inv {} cg h'"
    proof (cases "?n 1 i1")
      case True
      have "back_inv (insert i1 {}) cg h'" by (rule back_inv_mono [OF _ b1]) auto
      from check_grad_slot(1) [OF this g'(1) o'(2) [OF True]] c(2) True show ?thesis by simp
    qed (use b1 in simp)
    have has: "?n 0 i0 \<Longrightarrow> has_grad g' i0" "?n 1 i1 \<Longrightarrow> has_grad g' i1" "?n 2 i2 \<Longrightarrow> has_grad g' i2"
      using check_grad_slot(2) [OF back_inv_mono [OF empty_subsetI b2] g'(1)] o' c by auto
    show "\<forall>k < 3. \<forall>g'. gget h' cg = Some g' \<longrightarrow> ?s k \<noteq> NULL \<longrightarrow> marked g need (?s k) \<longrightarrow> graded g' (?s k)"
    proof (intro allI impI)
      fix k g2 assume k: "(k::nat) < 3" and g2: "gget h' cg = Some g2" and m: "?s k \<noteq> NULL" "marked g need (?s k)"
      have n: "?s 0 \<noteq> NULL \<Longrightarrow> marked g need (?s 0) \<Longrightarrow> ?n 0 i0" "?s 1 \<noteq> NULL \<Longrightarrow> marked g need (?s 1) \<Longrightarrow> ?n 1 i1"
          "?s 2 \<noteq> NULL \<Longrightarrow> marked g need (?s 2) \<Longrightarrow> ?n 2 i2"
        by (rule needs_grad_slot(2) [OF hi]; (rule sl | assumption))+
      have "k = 0 \<or> k = 1 \<or> k = 2" using k by auto
      moreover have "g2 = g'" using g2 g'(1) by simp
      ultimately show "graded g2 (?s k)" using n has o' m unfolding graded_def by metis
    qed
  qed
  note D = this
  show "grown cg h h'" "back_inv {} cg h'" using D inv grown_refl [OF ok] by auto
  assume x: "graded g ?x" and k: "k < 3" and rest: "gget h' cg = Some g'" "srcs h ?x ! k \<noteq> NULL" "marked g need (srcs h ?x ! k)"
  obtain p where "ggml_graph_get_grad g ?x = Some p" "p \<noteq> NULL" by (rule get_grad_graded [OF ok g x])
  then show "graded g' (srcs h ?x ! k)" using D grad k rest by (simp add: sx)
qed

end
