(* ===== verification/BackwardRun.thy ===== *)
theory BackwardRun
  imports BackwardProps
begin

text \<open>
  The whole backward pass: what the loop that marks leaves, what the loop over the nodes makes of it, and the
  properties of ggml_build_backward_expand.
\<close>

section \<open>Marking what needs a gradient\<close>

text \<open>A node of floats with the flag, and a source that its gradient flows to.\<close>

definition flagged :: "heap \<Rightarrow> int \<Rightarrow> ptr \<Rightarrow> bool" where
  "flagged h w x \<longleftrightarrow> (\<exists>t. h_tensors h x = Some t \<and> t_type t \<noteq> GGML_TYPE_I32 \<and> t_flags t AND w \<noteq> 0)"

definition flows :: "heap \<Rightarrow> nat \<Rightarrow> ptr \<Rightarrow> ptr \<Rightarrow> bool" where
  "flows h n x s \<longleftrightarrow> (\<exists>t k. h_tensors h x = Some t \<and> t_type t \<noteq> GGML_TYPE_I32 \<and> k < n \<and> t_src t ! k = s \<and> s \<noteq> NULL \<and>
     ignored_src t \<noteq> Some (Some k))"

lemma src_needs_False:
  "src_needs h hs need ign j ss = Some False \<Longrightarrow> k < length ss \<Longrightarrow> ss ! k \<noteq> NULL \<Longrightarrow> ign \<noteq> Some (j + k) \<Longrightarrow>
    ggml_hash_find hs (ss ! k) = Some i \<Longrightarrow> \<not> need ! i"
proof (induction ss arbitrary: j k)
  case (Cons s ss)
  show ?case
  proof (cases k)
    case 0
    then show ?thesis using Cons.prems by (auto simp: bind_Some_iff split: if_split_asm)
  next
    case (Suc k')
    have "src_needs h hs need ign (Suc j) ss = Some False"
      using Cons.prems(1) by (auto simp: bind_Some_iff split: if_split_asm)
    from Cons.IH [OF this, of k'] show ?thesis using Cons.prems(2-5) Suc by simp
  qed
qed simp

text \<open>What the caller may give as accumulators: for each node nothing, or a tensor of its shape.\<close>

definition accs_ok :: "heap \<Rightarrow> ptr list \<Rightarrow> ptr list option \<Rightarrow> bool" where
  "accs_ok h nodes accs \<longleftrightarrow> (\<forall>as i. accs = Some as \<longrightarrow> i < length as \<longrightarrow> i < length nodes \<longrightarrow> as ! i \<noteq> NULL \<longrightarrow>
     (\<exists>t u. h_tensors h (nodes ! i) = Some t \<and> h_tensors h (as ! i) = Some u \<and> ggml_are_same_shape t u))"

text \<open>Setting accumulator and gradient of a slot to a tensor of the right shape.\<close>

lemma put_both_step:
  assumes inv: "back_inv {} cg h" and g: "gget h cg = Some g" and o: "hs_occupied (g_visited g) j x"
    and t: "h_tensors h x = Some t" "h_tensors h a = Some u" "ggml_are_same_shape t u" "a \<noteq> NULL"
    and r: "(put_acc h cg j a \<bind> (\<lambda>h. put_grad h cg j a)) = Some h'"
  shows "grown cg h h'" "back_inv {} cg h'" "h_tensors h' = h_tensors h"
    "\<exists>g'. gget h' cg = Some g' \<and> g_visited g' = g_visited g \<and> g_node_list g' = g_node_list g \<and> graded g' x"
proof -
  have ok: "session_ok h" and G: "grads_ok {} h g" using inv g by (auto simp: back_inv_def)
  note l = session_grads_length [OF ok g]
  have cg: "cg \<noteq> NULL" using g by (auto simp: gget_def split: if_splits)
  obtain gr ac where gr: "g_grads g = Some gr" "j < length gr" and ac: "g_grad_accs g = Some ac"
    and h': "h' = gset h cg (with_grads g (Some (gr[j := a])) (Some (ac[j := a])))"
    using r g cg by (auto simp: put_acc_def put_grad_def bind_Some_iff gset_gset with_both split: if_split_asm)
  have len: "pred_option (\<lambda>gr. length gr = hs_size (g_visited g)) (Some (gr[j := a]))"
      "pred_option (\<lambda>gr. length gr = hs_size (g_visited g)) (Some (ac[j := a]))" using l gr ac by simp_all
  note st = grads_step [OF ok g h' len]
  show "h_tensors h' = h_tensors h" by (rule st(4))
  show "grown cg h h'" by (rule st(2)) (use gr t(4) in \<open>auto simp: has_grad_def nth_list_update\<close>)
  have "grads_ok {} h' (with_grads g (Some (gr[j := a])) (Some (ac[j := a])))"
    unfolding grads_ok_def with_grads_simps st(4)
  proof (intro allI impI)
    fix gr' k assume k: "Some (gr[j := a]) = Some gr'" "k < length gr'" "gr' ! k \<noteq> NULL"
    show "\<exists>x t u. hs_occupied (g_visited g) k x \<and> h_tensors h x = Some t \<and> h_tensors h (gr' ! k) = Some u \<and>
        (k \<notin> {} \<longrightarrow> ggml_are_same_shape t u)"
    proof (cases "k = j")
      case True
      then show ?thesis using o t k by auto
    next
      case False
      then have "gr' ! k = gr ! k" "k < length gr" using k by auto
      then show ?thesis using grads_okD [OF G gr(1), of k] k(3) by (metis empty_iff)
    qed
  qed
  then show "back_inv {} cg h'" using st(1,3) by (auto simp: back_inv_def)
  have "graded (with_grads g (Some (gr[j := a])) (Some (ac[j := a]))) x"
    using o gr(2) t(4) by (auto simp: graded_def has_grad_def)
  then show "\<exists>g'. gget h' cg = Some g' \<and> g_visited g' = g_visited g \<and> g_node_list g' = g_node_list g \<and> graded g' x"
    using st(3) by auto
qed

text \<open>The setting of one accumulator: given by the caller, made for a loss, or none.\<close>

lemma set_acc_step:
  assumes inv: "back_inv {} cg h" and g: "gget h cg = Some g" and o: "hs_occupied (g_visited g) j x"
    and t: "h_tensors h x = Some t" and a: "a \<noteq> NULL \<Longrightarrow> \<exists>u. h_tensors h a = Some u \<and> ggml_are_same_shape t u"
    and r: "set_acc ctx cg j a t h = Some h'" and loss: "loss \<longleftrightarrow> t_flags t AND GGML_TENSOR_FLAG_LOSS \<noteq> 0"
  shows "grown cg h h'" "back_inv {} cg h'" "h_tensors h \<subseteq>\<^sub>m h_tensors h'"
    "\<exists>g'. gget h' cg = Some g' \<and> g_visited g' = g_visited g \<and> g_node_list g' = g_node_list g \<and>
      (\<forall>y. graded g y \<longrightarrow> graded g' y) \<and> (loss \<longrightarrow> graded g' x)"
proof -
  have ok: "session_ok h" using inv by (simp add: back_inv_def)
  have "grown cg h h' \<and> back_inv {} cg h' \<and> h_tensors h \<subseteq>\<^sub>m h_tensors h' \<and>
    (\<exists>g'. gget h' cg = Some g' \<and> g_visited g' = g_visited g \<and> g_node_list g' = g_node_list g \<and> (loss \<longrightarrow> graded g' x))"
  proof (cases "a = NULL")
    case False
    then obtain u where u: "h_tensors h a = Some u" "ggml_are_same_shape t u" using a by blast
    have r': "(put_acc h cg j a \<bind> (\<lambda>h. put_grad h cg j a)) = Some h'" using r False loss by (simp add: set_acc_def)
    from put_both_step [OF inv g o t u False r'] show ?thesis by auto
  next
    case an: True
    show ?thesis
    proof (cases loss)
      case True
      have hi: "heap_inv h" using ok by (simp add: session_ok_def)
      obtain a1 h1 where n: "ggml_new_tensor h ctx GGML_TYPE_F32 GGML_MAX_DIMS (t_ne t) = Some (a1, h1)"
        and p: "(put_acc h1 cg j a1 \<bind> (\<lambda>h. put_grad h cg j a1)) = Some h'"
        using r an loss True by (auto simp: set_acc_def bind_Some_iff)
      have c: "creates h (ggml_new_tensor h ctx GGML_TYPE_F32 GGML_MAX_DIMS (t_ne t))
          (\<lambda>u. \<exists>dat. u = fresh_tensor GGML_TYPE_F32 (pad_dims GGML_MAX_DIMS (t_ne t)) NULL 0 dat)"
        by (rule ggml_new_tensor_creates [OF hi])
      from createsD [OF c n] obtain dat where u: "new_node h a1 (fresh_tensor GGML_TYPE_F32 (pad_dims GGML_MAX_DIMS (t_ne t)) NULL 0 dat) h1"
        by blast
      have e: "extends h h1" and nn: "a1 \<noteq> NULL"
        using growsD [OF creates_grows [OF hi c] n] by simp_all
      have "length (t_ne t) = GGML_MAX_DIMS" using node_wf_shape(1) [OF _ t] hi by (simp add: heap_inv_def)
      then have sh: "ggml_are_same_shape t (fresh_tensor GGML_TYPE_F32 (pad_dims GGML_MAX_DIMS (t_ne t)) NULL 0 dat)"
        by (simp add: pad_dims_full fresh_tensor_def ggml_are_same_shape_def)
      note E = extends_step [OF inv e]
      have g1: "gget h1 cg = Some g" using g e by (auto simp: gget_def extends_def split: if_split_asm)
      have a1: "h_tensors h1 a1 = Some (fresh_tensor GGML_TYPE_F32 (pad_dims GGML_MAX_DIMS (t_ne t)) NULL 0 dat)"
        using u by (simp add: new_node_def)
      note B = put_both_step [OF E(2) g1 o extends_tensor [OF e t] a1 sh nn p]
      have "h_tensors h \<subseteq>\<^sub>m h_tensors h'" using e B(3) by (simp add: extends_def)
      then show ?thesis using grown_trans [OF E(1) B(1)] B(2,4) by blast
    next
      case False
      then have "h' = h" using r an loss by (simp add: set_acc_def)
      then show ?thesis using inv g False grown_refl [OF ok] by simp
    qed
  qed
  then show G: "grown cg h h'" and "back_inv {} cg h'" "h_tensors h \<subseteq>\<^sub>m h_tensors h'"
    and X: "\<exists>g'. gget h' cg = Some g' \<and> g_visited g' = g_visited g \<and> g_node_list g' = g_node_list g \<and>
      (\<forall>y. graded g y \<longrightarrow> graded g' y) \<and> (loss \<longrightarrow> graded g' x)"
    using grownD [OF _ g, of h'] graded_grown by (blast, blast, blast, metis option.inject)
qed


text \<open>A source that a gradient flows to is not listed after its user.\<close>

lemma flows_earlier:
  assumes ok: "session_ok h" and g: "gget h cg = Some g" and m: "m < length (g_node_list g)"
    and f: "flows h n (g_node_list g ! m) s" "n \<le> GGML_MAX_SRC" and j: "j < length (g_node_list g)" "g_node_list g ! j = s"
  shows "j \<le> m"
proof (rule ccontr)
  assume "\<not> j \<le> m"
  then have jm: "m < j" by simp
  let ?ns = "g_node_list g"
  have gs: "graph_ok h g" using session_graph_state [OF ok g] by (simp add: graph_state_def graph_complete_def)
  have sb: "set (srcs h (?ns ! m)) \<subseteq> {NULL, ?ns ! m} \<union> set (take m ?ns) \<union> set (g_leaf_list g)"
    and d: "distinct (?ns @ g_leaf_list g)"
    using gs m by (simp_all add: graph_ok_def sources_before_def)
  obtain t k where t: "h_tensors h (?ns ! m) = Some t" "k < GGML_MAX_SRC" "t_src t ! k = s" "s \<noteq> NULL"
    using f unfolding flows_def by (metis order.strict_trans2)
  have "length (t_src t) = GGML_MAX_SRC"
    using node_wf_shape(4) [OF _ t(1)] ok by (simp add: session_ok_def heap_inv_def)
  then have "s \<in> set (t_src t)" using t nth_mem by metis
  then have "s \<in> {NULL, ?ns ! m} \<union> set (take m ?ns) \<union> set (g_leaf_list g)" using sb t(1) by (auto simp: srcs_def)
  moreover have "?ns ! m \<noteq> s" using d j jm m by (metis distinct_append nth_eq_iff_index_eq nat_neq_iff)
  moreover have "s \<notin> set (take m ?ns)"
  proof
    assume "s \<in> set (take m ?ns)"
    then obtain a where "a < m" "?ns ! a = s" using m by (metis in_set_conv_nth length_take min.absorb4 nth_take)
    then show False using d j jm m by (metis distinct_append nth_eq_iff_index_eq less_trans nat_neq_iff)
  qed
  moreover have "s \<notin> set (g_leaf_list g)" using d j nth_mem [OF j(1)] by auto
  ultimately show False using t(4) by simp
qed

text \<open>What the flags of the loop that marks say after \<open>i\<close> nodes.\<close>

definition marking :: "heap \<Rightarrow> ggml_cgraph \<Rightarrow> nat \<Rightarrow> bool list \<Rightarrow> bool" where
  "marking h g i need \<longleftrightarrow> length need = hs_size (g_visited g) \<and>
     (\<forall>x. marked g need x \<longrightarrow> (\<exists>m < i. g_node_list g ! m = x)) \<and>
     (\<forall>m < i. flagged h GGML_TENSOR_FLAG_PARAM (g_node_list g ! m) \<longrightarrow> marked g need (g_node_list g ! m)) \<and>
     (\<forall>m < i. \<forall>s. flows h GGML_MAX_SRC (g_node_list g ! m) s \<longrightarrow> marked g need s \<longrightarrow> marked g need (g_node_list g ! m))"

lemma markingD:
  assumes "marking h g i need"
  shows "length need = hs_size (g_visited g)" "marked g need x \<Longrightarrow> \<exists>m < i. g_node_list g ! m = x"
    "m < i \<Longrightarrow> flagged h GGML_TENSOR_FLAG_PARAM (g_node_list g ! m) \<Longrightarrow> marked g need (g_node_list g ! m)"
    "m < i \<Longrightarrow> flows h GGML_MAX_SRC (g_node_list g ! m) s \<Longrightarrow> marked g need s \<Longrightarrow> marked g need (g_node_list g ! m)"
  using assms unfolding marking_def by blast+

lemma marking_skip:
  assumes I: "marking h g i need" and "\<not> flagged h GGML_TENSOR_FLAG_PARAM (g_node_list g ! i)"
    and "\<And>s. flows h GGML_MAX_SRC (g_node_list g ! i) s \<Longrightarrow> \<not> marked g need s"
  shows "marking h g (Suc i) need"
  unfolding marking_def
proof (intro conjI allI impI)
  show "length need = hs_size (g_visited g)" by (rule markingD(1) [OF I])
next
  fix x assume "marked g need x"
  then show "\<exists>m < Suc i. g_node_list g ! m = x" using markingD(2) [OF I] less_SucI by blast
next
  fix m assume "m < Suc i" "flagged h GGML_TENSOR_FLAG_PARAM (g_node_list g ! m)"
  then show "marked g need (g_node_list g ! m)" using markingD(3) [OF I, of m] assms(2) by (cases "m = i") simp_all
next
  fix m s assume "m < Suc i" "flows h GGML_MAX_SRC (g_node_list g ! m) s" "marked g need s"
  then show "marked g need (g_node_list g ! m)" using markingD(4) [OF I, of m s] assms(3) [of s] by (cases "m = i") simp_all
qed

lemma marked_update:
  assumes "hs_occupied (g_visited g) j x" "length need = hs_size (g_visited g)"
  shows "marked g (need[j := True]) y \<longleftrightarrow> y = x \<or> marked g need y"
proof -
  have j: "j < length need" using assms by (simp add: hs_occupied_def)
  have yx: "y = x" if "hs_occupied (g_visited g) j y" for y using that assms(1) by (simp add: hs_occupied_def)
  have n: "need[j := True] ! k \<longleftrightarrow> k = j \<or> need ! k" for k using j by (cases "k = j") simp_all
  show ?thesis unfolding marked_def n using assms(1) yx by blast
qed

lemma marking_set:
  assumes ok: "session_ok h" and g: "gget h cg = Some g" and i: "i < length (g_node_list g)"
    and I: "marking h g i need" and o: "hs_occupied (g_visited g) j (g_node_list g ! i)"
  shows "marking h g (Suc i) (need[j := True])"
  unfolding marking_def marked_update [OF o markingD(1) [OF I]]
proof (intro conjI allI impI)
  show "length (need[j := True]) = hs_size (g_visited g)" using markingD(1) [OF I] by simp
next
  fix x assume "x = g_node_list g ! i \<or> marked g need x"
  then show "\<exists>m < Suc i. g_node_list g ! m = x" using markingD(2) [OF I] less_SucI by blast
next
  fix m assume "m < Suc i" "flagged h GGML_TENSOR_FLAG_PARAM (g_node_list g ! m)"
  then show "g_node_list g ! m = g_node_list g ! i \<or> marked g need (g_node_list g ! m)"
    using markingD(3) [OF I, of m] by (cases "m = i") simp_all
next
  fix m s assume m: "m < Suc i" and f: "flows h GGML_MAX_SRC (g_node_list g ! m) s" and s: "s = g_node_list g ! i \<or> marked g need s"
  show "g_node_list g ! m = g_node_list g ! i \<or> marked g need (g_node_list g ! m)"
  proof (cases "m = i")
    case False
    then have mi: "m < i" using m by simp
    have "s \<noteq> g_node_list g ! i" using flows_earlier [OF ok g less_trans [OF mi i] f order.refl i] mi by auto
    then show ?thesis using markingD(4) [OF I mi f] s by simp
  qed simp
qed

text \<open>And what it says of the heap: gradients of the losses among them are there.\<close>

definition prepared :: "heap \<Rightarrow> ptr \<Rightarrow> ggml_cgraph \<Rightarrow> nat \<Rightarrow> heap \<Rightarrow> bool" where
  "prepared h0 cg g0 i h \<longleftrightarrow> grown cg h0 h \<and> back_inv {} cg h \<and> h_tensors h0 \<subseteq>\<^sub>m h_tensors h \<and>
     (\<exists>g. gget h cg = Some g \<and> g_visited g = g_visited g0 \<and> g_node_list g = g_node_list g0 \<and>
        (\<forall>m < i. flagged h0 GGML_TENSOR_FLAG_LOSS (g_node_list g0 ! m) \<longrightarrow> graded g (g_node_list g0 ! m)))"

lemma preparedD:
  assumes "prepared h0 cg g0 i h"
  obtains g where "grown cg h0 h" "back_inv {} cg h" "h_tensors h0 \<subseteq>\<^sub>m h_tensors h"
    "gget h cg = Some g" "g_visited g = g_visited g0" "g_node_list g = g_node_list g0"
    "\<And>m. m < i \<Longrightarrow> flagged h0 GGML_TENSOR_FLAG_LOSS (g_node_list g0 ! m) \<Longrightarrow> graded g (g_node_list g0 ! m)"
  using assms unfolding prepared_def by blast

lemma prepared_skip:
  assumes "prepared h0 cg g0 i h" "\<not> flagged h0 GGML_TENSOR_FLAG_LOSS (g_node_list g0 ! i)"
  shows "prepared h0 cg g0 (Suc i) h"
  using assms unfolding prepared_def by (metis less_Suc_eq)

text \<open>One node of the loop.\<close>

lemma mark_needed_cases:
  assumes r: "mark_needed ctx cg accs (i, x) (h, need) = Some (h', need')" and t: "h_tensors h x = Some t" "x \<noteq> NULL"
    and g: "gget h cg = Some g"
  obtains (skip) "h' = h" "need' = need"
      "t_type t \<noteq> GGML_TYPE_I32 \<Longrightarrow> t_flags t AND GGML_TENSOR_FLAG_PARAM = 0 \<and> t_flags t AND GGML_TENSOR_FLAG_LOSS = 0 \<and>
         (\<exists>ign. ignored_src t = Some ign \<and> src_needs h (g_visited g) need ign 0 (t_src t) = Some False)"
    | (mark) j a where "given_acc accs i = Some a" "t_type t \<noteq> GGML_TYPE_I32" "ggml_hash_find (g_visited g) x = Some j" "j \<noteq> GGML_HASHSET_FULL"
      "hs_get (g_visited g) j" "need' = need[j := True]"
      "set_acc ctx cg j a t h = Some h'"
proof -
  have t': "tget h x = Some t" using t by simp
  show thesis
proof (cases "t_type t = GGML_TYPE_I32")
  case True
  then show ?thesis using r t' skip by (simp add: mark_needed_def)
next
  case f: False
  have r': "mark_needed ctx cg accs (i, x) (h, need) = Some (h', need')" by (rule r)
  obtain ign where ign: "ignored_src t = Some ign"
    using r' t' f by (cases "ignored_src t") (simp_all add: mark_needed_def)
  obtain b where b: "src_needs h (g_visited g) need ign 0 (t_src t) = Some b"
    using r' t' f g ign by (cases "src_needs h (g_visited g) need ign 0 (t_src t)") (simp_all add: mark_needed_def)
  let ?flag = "t_flags t AND GGML_TENSOR_FLAG_PARAM \<noteq> 0 \<or> t_flags t AND GGML_TENSOR_FLAG_LOSS \<noteq> 0"
  show ?thesis
  proof (cases "?flag \<or> b")
    case False
    then have "h' = h" "need' = need" using r' t' f g ign b by (simp_all add: mark_needed_def)
    then show ?thesis using skip ign b False by simp
  next
    case True
    obtain j where j: "ggml_hash_find (g_visited g) x = Some j"
      using r' t' f g ign b True by (cases "ggml_hash_find (g_visited g) x") (auto simp: mark_needed_def bind_Some_iff)
    have a: "inplace_ok t" "j \<noteq> GGML_HASHSET_FULL" "hs_get (g_visited g) j"
      using r' t' f g ign b True j by (simp_all add: mark_needed_def split: if_split_asm)
    obtain acc where acc: "given_acc accs i = Some acc"
      using r' t' f g ign b True j a by (cases "given_acc accs i") (simp_all add: mark_needed_def split: if_split_asm)
    show ?thesis
      by (rule mark [OF acc f j a(2,3)])
        (use r' t' f g ign b True j a acc in \<open>simp_all add: mark_needed_def split: if_split_asm bind_splits\<close>)
  qed
qed
qed

lemma mark_step:
  assumes ok: "session_ok h0" and g0: "gget h0 cg = Some g0" and acc: "accs_ok h0 (g_node_list g0) accs"
    and i: "i < length (g_node_list g0)" and P: "prepared h0 cg g0 i h" and M: "marking h0 g0 i need"
    and r: "mark_needed ctx cg accs (i, g_node_list g0 ! i) (h, need) = Some (h', need')"
  shows "prepared h0 cg g0 (Suc i) h'" "marking h0 g0 (Suc i) need'"
proof -
  let ?x = "g_node_list g0 ! i" let ?V = "g_visited g0"
  obtain g where gr: "grown cg h0 h" and bi: "back_inv {} cg h" and sub: "h_tensors h0 \<subseteq>\<^sub>m h_tensors h"
    and g: "gget h cg = Some g" "g_visited g = ?V" "g_node_list g = g_node_list g0"
    and los: "\<And>m. m < i \<Longrightarrow> flagged h0 GGML_TENSOR_FLAG_LOSS (g_node_list g0 ! m) \<Longrightarrow> graded g (g_node_list g0 ! m)"
    by (rule preparedD [OF P]) (rule that)
  have gs: "graph_complete h0 g0" using session_graph_state [OF ok g0] by (simp add: graph_state_def)
  note hv = session_grads_length(3) [OF ok g0]
  have "?x \<in> g_done g0" using i by (simp add: g_done_def)
  then obtain t where t0: "h_tensors h0 ?x = Some t" "?x \<noteq> NULL" using gs by (auto simp: graph_complete_def)
  have up: "h_tensors h y = Some u" if "h_tensors h0 y = Some u" for y u using that sub by (metis domI map_le_def)
  have flt: "flagged h0 w ?x \<longleftrightarrow> t_type t \<noteq> GGML_TYPE_I32 \<and> t_flags t AND w \<noteq> 0" for w by (simp add: flagged_def t0)
  have wf: "length (t_src t) = GGML_MAX_SRC" using node_wf_shape(4) [OF _ t0(1)] ok by (simp add: session_ok_def heap_inv_def)
  have "prepared h0 cg g0 (Suc i) h' \<and> marking h0 g0 (Suc i) need'"
    using r up [OF t0(1)] t0(2) g(1)
  proof (cases rule: mark_needed_cases)
    case skip
    have n: "\<not> flagged h0 GGML_TENSOR_FLAG_PARAM ?x" "\<not> flagged h0 GGML_TENSOR_FLAG_LOSS ?x"
      using skip(3) flt by blast+
    have "\<not> marked g0 need s" if f: "flows h0 GGML_MAX_SRC ?x s" for s
    proof
      assume "marked g0 need s"
      then obtain j where j: "hs_occupied ?V j s" "need ! j" by (auto simp: marked_def)
      obtain k where k: "t_type t \<noteq> GGML_TYPE_I32" "k < GGML_MAX_SRC" "t_src t ! k = s" "s \<noteq> NULL" "ignored_src t \<noteq> Some (Some k)"
        using f t0(1) by (auto simp: flows_def)
      obtain ign where ign: "ignored_src t = Some ign" "src_needs h ?V need ign 0 (t_src t) = Some False"
        using skip(3) k(1) g(2) by auto
      have "\<not> need ! j"
        by (rule src_needs_False [OF ign(2), of k j]) (use ign(1) k wf find_at(1) [OF hv j(1)] in simp_all)
      then show False using j(2) by simp
    qed
    then show ?thesis using prepared_skip [OF P n(2)] marking_skip [OF M n(1)] skip(1,2) by simp
  next
    case (mark j a)
    have o: "hs_occupied ?V j ?x" by (rule found_at [OF hv]) (use mark g(2) in simp_all)
    have a: "\<exists>u. h_tensors h a = Some u \<and> ggml_are_same_shape t u" if n: "a \<noteq> NULL"
    proof -
      obtain as where as: "accs = Some as" "i < length as" "a = as ! i"
        using n mark(1) by (cases accs) (auto simp: given_acc_def split: if_split_asm)
      then obtain u where u: "h_tensors h0 (as ! i) = Some u" "ggml_are_same_shape t u"
        using acc i t0(1) n unfolding accs_ok_def by fastforce
      then show ?thesis using up [OF u(1)] as by simp
    qed
    note S = set_acc_step [OF bi g(1) o [folded g(2)] up [OF t0(1)] a mark(7) refl]
    obtain g' where g': "gget h' cg = Some g'" "g_visited g' = ?V" "g_node_list g' = g_node_list g0"
      and gd: "\<And>y. graded g y \<Longrightarrow> graded g' y" "t_flags t AND GGML_TENSOR_FLAG_LOSS \<noteq> 0 \<Longrightarrow> graded g' ?x"
      using S(4) g(2,3) by auto
    have "graded g' (g_node_list g0 ! m)" if "m < Suc i" "flagged h0 GGML_TENSOR_FLAG_LOSS (g_node_list g0 ! m)" for m
      using that los [of m] gd flt by (cases "m = i") simp_all
    then have "prepared h0 cg g0 (Suc i) h'"
      unfolding prepared_def using grown_trans [OF gr S(1)] S(2) map_le_trans [OF sub S(3)] g' by blast
    moreover have "marking h0 g0 (Suc i) need'" using marking_set [OF ok g0 i M o] mark(6) by simp
    ultimately show ?thesis ..
  qed
  then show "prepared h0 cg g0 (Suc i) h'" "marking h0 g0 (Suc i) need'" by simp_all
qed

lemma mark_loop:
  assumes ok: "session_ok h0" and g0: "gget h0 cg = Some g0" and acc: "accs_ok h0 (g_node_list g0) accs"
    and G: "grads_ok {} h0 g0"
    and r: "for_each (mark_needed ctx cg accs) (enumerate 0 (g_node_list g0)) (h0, replicate (hs_size (g_visited g0)) False) =
      Some (h, need)"
  shows "prepared h0 cg g0 (length (g_node_list g0)) h" "marking h0 g0 (length (g_node_list g0)) need"
proof -
  let ?ns = "g_node_list g0"
  let ?I = "\<lambda>i (h, need). prepared h0 cg g0 i h \<and> marking h0 g0 i need"
  have "?I (length (enumerate 0 ?ns)) (h, need)"
  proof (rule for_each_inv [OF r])
    have "marking h0 g0 0 (replicate (hs_size (g_visited g0)) False)"
      by (auto simp: marking_def marked_def hs_occupied_def)
    moreover have "prepared h0 cg g0 0 h0" using ok g0 G by (simp add: prepared_def back_inv_def grown_refl)
    ultimately show "?I 0 (h0, replicate (hs_size (g_visited g0)) False)" by simp
  next
    fix i s s' assume i: "i < length (enumerate 0 ?ns)" and I: "?I i s" and f: "mark_needed ctx cg accs (enumerate 0 ?ns ! i) s = Some s'"
    have "enumerate 0 ?ns ! i = (i, ?ns ! i)" using i by (simp add: nth_enumerate_eq)
    then show "?I (Suc i) s'" using mark_step [OF ok g0 acc, of i "fst s" "snd s" ctx "fst s'" "snd s'"] i I f
      by (simp add: split_beta)
  qed
  then show "prepared h0 cg g0 (length ?ns) h" "marking h0 g0 (length ?ns) need" by simp_all
qed


section \<open>From the losses to the parameters\<close>

text \<open>
  The edges that gradients flow along: from a node to one of the three sources that the rules serve. An edge counts
  for the pass when the source is marked.
\<close>

definition grad_edge :: "heap \<Rightarrow> ggml_cgraph \<Rightarrow> ptr \<Rightarrow> ptr \<Rightarrow> bool" where
  "grad_edge h g x s \<longleftrightarrow> x \<in> set (g_node_list g) \<and> flows h 3 x s"

definition live_edge :: "heap \<Rightarrow> ggml_cgraph \<Rightarrow> bool list \<Rightarrow> ptr \<Rightarrow> ptr \<Rightarrow> bool" where
  "live_edge h g need x s \<longleftrightarrow> grad_edge h g x s \<and> marked g need s"

definition from_loss :: "heap \<Rightarrow> ggml_cgraph \<Rightarrow> bool list \<Rightarrow> ptr \<Rightarrow> bool" where
  "from_loss h g need y \<longleftrightarrow> (\<exists>l \<in> set (g_node_list g). flagged h GGML_TENSOR_FLAG_LOSS l \<and> (live_edge h g need)\<^sup>*\<^sup>* l y)"

lemma from_lossE:
  assumes "from_loss h g need y"
  obtains "y \<in> set (g_node_list g)" "flagged h GGML_TENSOR_FLAG_LOSS y"
    | x where "from_loss h g need x" "x \<noteq> y" "live_edge h g need x y"
proof -
  obtain l where l: "l \<in> set (g_node_list g)" "flagged h GGML_TENSOR_FLAG_LOSS l" "(live_edge h g need)\<^sup>*\<^sup>* l y"
    using assms unfolding from_loss_def by blast
  have "y = l \<or> (\<exists>x. from_loss h g need x \<and> x \<noteq> y \<and> live_edge h g need x y)"
    using l(3)
  proof (induction rule: rtranclp_induct)
    case (step x y)
    have "from_loss h g need x" using l step.hyps(1) unfolding from_loss_def by blast
    then show ?case using step by (cases "x = y") auto
  qed simp
  then show thesis using that l by blast
qed

text \<open>A path to a marked tensor is marked all along.\<close>

lemma marked_path:
  assumes M: "marking h g (length (g_node_list g)) need" and p: "marked g need p" and path: "(grad_edge h g)\<^sup>*\<^sup>* l p"
  shows "(live_edge h g need)\<^sup>*\<^sup>* l p"
proof -
  have "marked g need l \<and> (live_edge h g need)\<^sup>*\<^sup>* l p"
    using path
  proof (induction rule: converse_rtranclp_induct)
    case base
    then show ?case using p by simp
  next
    case (step x s)
    obtain m where m: "m < length (g_node_list g)" "g_node_list g ! m = x"
      using step.hyps(1) by (auto simp: grad_edge_def in_set_conv_nth)
    have f: "flows h 3 x s" using step.hyps(1) by (simp add: grad_edge_def)
    then have "flows h GGML_MAX_SRC x s" unfolding flows_def by (force simp: GGML_MAX_SRC_def)
    then have "marked g need x" using markingD(4) [OF M m(1), of s] m(2) step.IH by simp
    moreover have "live_edge h g need x s" using step by (simp add: live_edge_def)
    ultimately show ?case using step.IH by (meson converse_rtranclp_into_rtranclp)
  qed
  then show ?thesis ..
qed

text \<open>The state of the loop over the nodes, from the last to the first, when those from \<open>a\<close> on are done.\<close>

definition backing :: "heap \<Rightarrow> ptr \<Rightarrow> ggml_cgraph \<Rightarrow> bool list \<Rightarrow> nat \<Rightarrow> heap \<Rightarrow> bool" where
  "backing h0 cg g0 need a h \<longleftrightarrow> grown cg h0 h \<and> back_inv {} cg h \<and>
     (\<forall>g. gget h cg = Some g \<longrightarrow>
        (\<forall>l \<in> set (g_node_list g0). flagged h0 GGML_TENSOR_FLAG_LOSS l \<longrightarrow> graded g l) \<and>
        (\<forall>m s. a \<le> m \<longrightarrow> m < length (g_node_list g0) \<longrightarrow> from_loss h0 g0 need (g_node_list g0 ! m) \<longrightarrow>
           live_edge h0 g0 need (g_node_list g0 ! m) s \<longrightarrow> graded g s))"

lemma backingD:
  assumes "backing h0 cg g0 need a h" "gget h cg = Some g"
  shows "grown cg h0 h" "back_inv {} cg h"
    "l \<in> set (g_node_list g0) \<Longrightarrow> flagged h0 GGML_TENSOR_FLAG_LOSS l \<Longrightarrow> graded g l"
    "a \<le> m \<Longrightarrow> m < length (g_node_list g0) \<Longrightarrow> from_loss h0 g0 need (g_node_list g0 ! m) \<Longrightarrow>
       live_edge h0 g0 need (g_node_list g0 ! m) s \<Longrightarrow> graded g s"
  using assms unfolding backing_def by blast+

text \<open>When the loop comes to a node, it has the gradient that it is due.\<close>

lemma due_gradient:
  assumes ok: "session_ok h0" and g0: "gget h0 cg = Some g0" and B: "backing h0 cg g0 need (Suc i) h" and g: "gget h cg = Some g"
    and i: "i < length (g_node_list g0)" and f: "from_loss h0 g0 need (g_node_list g0 ! i)"
  shows "graded g (g_node_list g0 ! i)"
  using f
proof (cases rule: from_lossE)
  case 1
  then show ?thesis using backingD(3) [OF B g] by simp
next
  case (2 x)
  then obtain m where m: "m < length (g_node_list g0)" "g_node_list g0 ! m = x"
    by (auto simp: live_edge_def grad_edge_def in_set_conv_nth)
  have fl: "flows h0 3 (g_node_list g0 ! m) (g_node_list g0 ! i)" using 2(3) m(2) by (simp add: live_edge_def grad_edge_def)
  have "i \<le> m" by (rule flows_earlier [OF ok g0 m(1) fl _ i refl]) (simp add: GGML_MAX_SRC_def)
  moreover have "i \<noteq> m" using 2(2) m(2) by auto
  ultimately show ?thesis using backingD(4) [OF B g _ m(1)] 2(1,3) m(2) by simp
qed

lemma back_step:
  assumes ok: "session_ok h0" and g0: "gget h0 cg = Some g0" and B: "backing h0 cg g0 need (Suc i) h"
    and i: "i < length (g_node_list g0)" and r: "ggml_compute_backward fo h ctx cg i need = Some h'"
  shows "backing h0 cg g0 need i h'"
proof -
  let ?ns = "g_node_list g0" let ?x = "g_node_list g0 ! i"
  have gr0: "grown cg h0 h" and bi: "back_inv {} cg h" using B by (simp_all add: backing_def)
  obtain g where g: "gget h cg = Some g" and gg: "graph_grown g0 g" using grownD [OF gr0 g0] by blast
  have ns: "prefix ?ns (g_node_list g)" using gg by (simp add: graph_grown_def)
  have il: "i < length (g_node_list g)" and xi: "g_node_list g ! i = ?x"
    using ns i by (auto simp: prefix_def nth_append)
  note C = compute_step [OF bi g il r]
  obtain g' where g': "gget h' cg = Some g'" and gg': "graph_grown g g'" using grownD [OF C(1) g] by blast
  have new: "graded g' s" if f: "from_loss h0 g0 need ?x" and e: "live_edge h0 g0 need ?x s" for s
  proof -
    obtain t k where t: "h_tensors h0 ?x = Some t" "k < 3" "t_src t ! k = s" "s \<noteq> NULL"
      using e by (auto simp: live_edge_def grad_edge_def flows_def)
    obtain t' where t': "h_tensors h ?x = Some t'" "tensor_core t' = tensor_core t"
      using tensors_keptD [OF _ t(1)] gr0 unfolding grown_def by blast
    have "t_src t' = t_src t" using arg_cong [OF t'(2), of t_src] by (simp add: tensor_core_def)
    then have sx: "srcs h ?x ! k = s" using t'(1) t(3) by (simp add: srcs_def)
    have "marked g0 need s" using e by (simp add: live_edge_def)
    then have mk: "marked g need s" using gg unfolding graph_grown_def marked_def by blast
    show ?thesis using C(3) [of k g'] due_gradient [OF ok g0 B g i f] t(2,4) g' mk by (simp add: xi sx)
  qed
  show ?thesis
    unfolding backing_def
  proof (intro conjI allI impI ballI)
    show "grown cg h0 h'" by (rule grown_trans [OF gr0 C(1)])
    show "back_inv {} cg h'" by (rule C(2))
  next
    fix g2 l assume "gget h' cg = Some g2" "l \<in> set ?ns" "flagged h0 GGML_TENSOR_FLAG_LOSS l"
    then show "graded g2 l" using graded_grown [OF gg'] backingD(3) [OF B g] g' by simp
  next
    fix g2 m s assume a: "gget h' cg = Some g2" "i \<le> m" "m < length ?ns" "from_loss h0 g0 need (?ns ! m)" "live_edge h0 g0 need (?ns ! m) s"
    show "graded g2 s"
    proof (cases "m = i")
      case True
      then show ?thesis using new a g' by simp
    next
      case False
      then have "Suc i \<le> m" using a(2) by simp
      then have "graded g s" using backingD(4) [OF B g _ a(3-5)] by simp
      then show ?thesis using graded_grown [OF gg'] a(1) g' by simp
    qed
  qed
qed

lemma back_loop:
  assumes ok: "session_ok h0" and g0: "gget h0 cg = Some g0" and P: "prepared h0 cg g0 (length (g_node_list g0)) h"
    and r: "for_each (\<lambda>i h. ggml_compute_backward fo h ctx cg i need) (rev [0..<length (g_node_list g0)]) h = Some h'"
  shows "backing h0 cg g0 need 0 h'"
proof -
  let ?n = "length (g_node_list g0)"
  have "backing h0 cg g0 need (?n - length (rev [0..<?n])) h'"
  proof (rule for_each_inv [OF r])
    have "backing h0 cg g0 need ?n h"
      using P unfolding prepared_def backing_def all_set_conv_all_nth by auto
    then show "backing h0 cg g0 need (?n - 0) h" by simp
  next
    fix k s s' assume k: "k < length (rev [0..<?n])" and b: "backing h0 cg g0 need (?n - k) s"
      and f: "ggml_compute_backward fo s ctx cg (rev [0..<?n] ! k) need = Some s'"
    have e: "rev [0..<?n] ! k = ?n - Suc k" "Suc (?n - Suc k) = ?n - k" "?n - Suc k < ?n" using k by (simp_all add: rev_nth)
    show "backing h0 cg g0 need (?n - Suc k) s'"
      by (rule back_step [OF ok g0 _ e(3) f [unfolded e(1)]]) (use b e(2) in simp)
  qed
  then show ?thesis by simp
qed

section \<open>The whole pass\<close>

lemma backward_steps:
  assumes ok: "session_ok h" and g: "gget h cg = Some g" and acc: "accs_ok h (g_node_list g) accs"
    and r: "ggml_build_backward_expand fo h ctx cg accs = Some h'"
  obtains h1 g1 need where "h1 = gset h cg g1" "session_ok h1" "gget h1 cg = Some g1" "h_tensors h1 = h_tensors h"
    "g_node_list g1 = g_node_list g"
    "marking h1 g1 (length (g_node_list g1)) need" "backing h1 cg g1 need 0 h'"
proof -
  let ?none = "Some (replicate (hs_size (g_visited g)) NULL)"
  define g1 where "g1 = with_grads g ?none ?none"
  have z: "zero_grads g = g1" by (simp add: zero_grads_def g1_def with_grads_def)
  have len: "pred_option (\<lambda>gr. length gr = hs_size (g_visited g)) ?none" by simp
  note st = grads_step [OF ok g refl len len, folded g1_def]
  let ?h1 = "gset h cg g1"
  obtain h2 need where 1: "for_each (mark_needed ctx cg accs) (enumerate 0 (g_node_list g))
        (?h1, replicate (hs_size (g_visited g)) False) = Some (h2, need)"
    and 2: "for_each (\<lambda>i h. ggml_compute_backward fo h ctx cg i need) (rev [0..<length (g_node_list g)]) h2 = Some h'"
    using r g by (auto simp: ggml_build_backward_expand_def Let_def z split: if_split_asm bind_splits)
  have l: "g_node_list g1 = g_node_list g" "hs_size (g_visited g1) = hs_size (g_visited g)" by (simp_all add: g1_def)
  have G: "grads_ok {} ?h1 g1" by (simp add: grads_ok_def g1_def with_grads_def)
  have acc1: "accs_ok ?h1 (g_node_list g1) accs" using acc st(4) l by (simp add: accs_ok_def)
  note M = mark_loop [OF st(1,3) acc1 G, of ctx h2 need, unfolded l, OF 1]
  have "backing ?h1 cg g1 need 0 h'" by (rule back_loop [OF st(1,3), unfolded l, OF M(1) 2])
  then show thesis using that [OF refl st(1,3,4) l(1)] M(2) l(1) by simp
qed

lemma get_grad_shape:
  assumes ok: "session_ok h" and g: "gget h cg = Some g" and G: "grads_ok {} h g"
    and y: "ggml_graph_get_grad g x = Some y" "y \<noteq> NULL"
  shows "\<exists>t u. h_tensors h x = Some t \<and> h_tensors h y = Some u \<and> ggml_are_same_shape t u"
proof -
  note l = session_grads_length [OF ok g]
  obtain r where r: "ggml_hash_find (g_visited g) x = Some r" using y(1) by (auto simp: ggml_graph_get_grad_def bind_Some_iff)
  have r': "r \<noteq> GGML_HASHSET_FULL" "hs_get (g_visited g) r" "g_grads g \<noteq> None"
    using y r by (auto simp: ggml_graph_get_grad_def split: if_split_asm option.split_asm)
  then obtain gr where gr: "g_grads g = Some gr" "y = gr ! r" using y r by (auto simp: ggml_graph_get_grad_def)
  have o: "hs_occupied (g_visited g) r x" by (rule found_at [OF l(3) r r'(1,2)])
  then have "r < length gr" using l(1) gr(1) by (simp add: hs_occupied_def)
  then obtain x' t u where "hs_occupied (g_visited g) r x'" "h_tensors h x' = Some t" "h_tensors h y = Some u" "ggml_are_same_shape t u"
    using grads_okD [OF G gr(1), of r] gr(2) y(2) by (metis empty_iff)
  moreover have "x' = x" using calculation(1) o by (simp add: hs_occupied_def)
  ultimately show ?thesis by blast
qed

text \<open>With room, storing a gradient succeeds.\<close>

lemma store_grad_succeeds:
  assumes ok: "session_ok h" and g: "gget h cg = Some g" and gr: "g_grads g = Some gr" "i < length gr"
    and src: "h_tensors h src \<noteq> None" "src \<noteq> NULL" and p: "h_tensors h p \<noteq> None" "p \<noteq> NULL"
    and cap: "int (card (g_done g \<union> reach h p)) \<le> g_size g"
  obtains h' g' where "store_grad h cg i src p = Some h'" "session_ok h'" "gget h' cg = Some g'" "g_grads g' = Some (gr[i := p])"
    "prefix (g_node_list g) (g_node_list g')" "\<And>j x. hs_occupied (g_visited g) j x \<Longrightarrow> hs_occupied (g_visited g') j x"
    "\<And>q. map_option tensor_core (h_tensors h' q) = map_option tensor_core (h_tensors h q)"
proof -
  let ?g = "with_grads g (Some (gr[i := p])) (g_grad_accs g)" let ?h1 = "gset h cg ?g"
  note l = session_grads_length [OF ok g]
  have len: "pred_option (\<lambda>gr. length gr = hs_size (g_visited g)) (Some (gr[i := p]))" using l(1) gr by simp
  note st = grads_step [OF ok g refl len l(2)]
  have 1: "put_grad h cg i p = Some ?h1" using g gr by (simp add: put_grad_def with_grads_eq)
  obtain s where s: "h_tensors h src = Some s" using src by blast
  let ?f = "ggml_format_name (''grad for '' @ t_name s)"
  obtain h2 where 2: "tset ?h1 p ?f = Some h2" using p by (auto simp: tset_def tget_def)
  have fr: "heap_frame ?h1 h2" by (rule tset_frame [OF 2]) (simp_all add: name_core)
  have ok2: "session_ok h2" by (rule frame_session_ok [OF st(1) fr])
  have g2: "gget h2 cg = Some ?g" using st(3) fr by (auto simp: gget_def heap_frame_def split: if_split_asm)
  have p2: "h_tensors h2 p \<noteq> None" using p heap_frame_static [OF fr] by simp
  have "srcs h2 = srcs h" using heap_frame_fun(1) [OF fr] by simp
  then have "reach h2 p = reach h p" by (rule reach_cong)
  then have cap2: "int (card (g_done ?g \<union> reach h2 p)) \<le> g_size ?g" using cap by simp
  obtain h3 where 3: "ggml_build_forward_impl h2 cg p True True = Some h3"
    using build_order [OF session_graph_state [OF ok2 g2] p2 p(2) cap2, of True] by blast
  note B = build_ok [OF ok2 g2 p2 p(2) 3]
  obtain h3' g3 where r: "h3 = gset h3' cg g3" "heap_frame h2 h3'" "walk0 (h2, ?g) (h3', g3)" using B(2) by blast
  show thesis
  proof (rule that)
    show "store_grad h cg i src p = Some h3"
      using 1 2 3 s src(2) by (simp add: store_grad_def ggml_build_forward_expand_def tget_def)
    show "session_ok h3" by (rule B(1))
    show "gget h3 cg = Some g3" using r(1) g by (auto simp: gget_def gset_def split: if_split_asm)
    show "g_grads g3 = Some (gr[i := p])" "prefix (g_node_list g) (g_node_list g3)" using walkD(4,7) [OF r(3)] by simp_all
    show "hs_occupied (g_visited g3) j x" if "hs_occupied (g_visited g) j x" for j x using walkD(10) [OF r(3)] that by simp
    show "map_option tensor_core (h_tensors h3 q) = map_option tensor_core (h_tensors h q)" for q
      using fr r(1,2) by (simp add: heap_frame_def)
  qed
qed

section \<open>An example\<close>

text \<open>A weight, a copy of it as the loss, and a tensor for the gradient of the loss.\<close>

definition demo_training :: heap where
  "demo_training = \<lparr> h_ctxs = [64 \<mapsto> demo_ctx 3 65536 66272],
     h_objs = h_objs demo_nodes,
     h_tensors = [65568 \<mapsto> (demo_matrix 1 1)\<lparr> t_flags := 4 \<rparr>,
       65936 \<mapsto> (demo_matrix 1 1)\<lparr> t_op := GGML_OP_DUP, t_src := (replicate 10 0)[0 := 65568], t_flags := 8 \<rparr>,
       66304 \<mapsto> demo_matrix 1 1],
     h_graphs = \<lambda>_. None \<rparr>"

lemma demo_training_session: "session demo_training"
proof -
  let ?h0 = "empty_heap\<lparr> h_ctxs := [64 \<mapsto> demo_ctx 0 0 0] \<rparr>"
  let ?h1 = "?h0\<lparr> h_ctxs := [64 \<mapsto> demo_ctx 1 65536 65536],
    h_objs := [65536 \<mapsto> \<lparr> o_offs = 32, o_size = 336, o_next = 0, o_type = GGML_OBJECT_TYPE_TENSOR \<rparr>],
    h_tensors := [65568 \<mapsto> demo_matrix 1 1] \<rparr>"
  let ?dup = "(demo_matrix 1 1)\<lparr> t_op := GGML_OP_DUP, t_src := (replicate 10 0)[0 := 65568] \<rparr>"
  let ?h2 = "demo_heap\<lparr> h_tensors := [65568 \<mapsto> demo_matrix 1 1, 65936 \<mapsto> ?dup] \<rparr>"
  let ?h3 = "demo_nodes\<lparr> h_tensors := [65568 \<mapsto> demo_matrix 1 1, 65936 \<mapsto> ?dup, 66304 \<mapsto> demo_matrix 1 1] \<rparr>"
  let ?h4 = "demo_nodes\<lparr> h_tensors := [65568 \<mapsto> (demo_matrix 1 1)\<lparr> t_flags := 4 \<rparr>, 65936 \<mapsto> ?dup, 66304 \<mapsto> demo_matrix 1 1] \<rparr>"
  have 1: "ggml_new_tensor_2d ?h0 64 GGML_TYPE_F32 1 1 = Some (65568, ?h1)"
    by (simp add: alloc_eval empty_heap_def demo_ctx_def demo_matrix_def)
  have 2: "ggml_dup ?h1 64 65568 = Some (65936, ?h2)"
  proof -
    have "ggml_dup ?h1 64 65568 = mk_node (ggml_new_tensor ?h1 64 GGML_TYPE_F32 4 [1, 1, 1, 1]) [set_op GGML_OP_DUP, set_src 0 65568]"
      by (simp add: ggml_dup_def ggml_dup_impl_def ggml_dup_tensor_def tget_def demo_matrix_def GGML_MAX_DIMS_def)
    also have "\<dots> = Some (65936, ?h2)"
      by (simp add: alloc_eval node_eval empty_heap_def demo_ctx_def demo_heap_def demo_matrix_def fun_upd_twist)
    finally show ?thesis .
  qed
  have 3: "ggml_new_tensor_2d ?h2 64 GGML_TYPE_F32 1 1 = Some (66304, ?h3)"
    by (simp add: alloc_eval demo_heap_def demo_ctx_def demo_matrix_def demo_nodes_def fun_upd_twist)
  have 4: "ggml_set_param ?h3 65568 = Some ?h4"
    by (simp add: ggml_set_param_def tget_def tset_def demo_matrix_def GGML_TENSOR_FLAG_PARAM_def fun_upd_twist)
  have 5: "ggml_set_loss ?h4 65936 = Some demo_training"
    by (simp add: ggml_set_loss_def tget_def tset_def demo_matrix_def GGML_TENSOR_FLAG_LOSS_def fun_upd_twist
        ggml_is_scalar_def demo_training_def demo_nodes_def)
  have "client_step empty_heap ?h0" by (rule open_pool [OF demo_fresh demo_init])
  moreover have "client_step ?h0 ?h1" by (rule call [OF op_call.intros(1) 1]) (rule alloc_call.intros)
  moreover have "live ?h1 65568" by (simp add: live_def)
  then have "client_step ?h1 ?h2" by (intro call [OF op_call.intros(2) 2] basic_call.intros)
  moreover have "client_step ?h2 ?h3" by (rule call [OF op_call.intros(1) 3]) (rule alloc_call.intros)
  moreover have "in_no_graph ?h3 65568" by (simp add: in_no_graph_def demo_nodes_def)
  then have "client_step ?h3 ?h4" by (rule param [OF _ 4])
  moreover have "client_step ?h4 demo_training" by (rule flag [where p = 65936]) (use 5 in simp)
  ultimately show ?thesis by (meson rtranclp.rtrancl_into_rtrancl rtranclp.rtrancl_refl)
qed

lemma demo_training_bytes: "ggml_graph_nbytes 8 True = 700"
proof -
  have h: "graph_hash_size 8 = 17" by (simp add: graph_hash_size_def u64_def demo_hash_size)
  have i: "snd (incr_ptr_aligned 0 88 1) = 88" "snd (incr_ptr_aligned 88 64 8) = 152"
    "snd (incr_ptr_aligned 152 64 8) = 216" "snd (incr_ptr_aligned 216 68 4) = 284"
    "snd (incr_ptr_aligned 284 136 8) = 424" "snd (incr_ptr_aligned 424 136 8) = 560"
    "snd (incr_ptr_aligned 560 136 8) = 696" "snd (incr_ptr_aligned 696 4 4) = 700"
    by (simp_all add: incr_ptr_aligned_def GGML_PAD_align(3) u64_id)
  have b: "ggml_bitset_size 17 = 1" by (simp add: ggml_bitset_size_def)
  show ?thesis by (simp add: ggml_graph_nbytes_def h i b u64_id GGML_CGRAPH_SIZE_def)
qed

abbreviation demo_train_graph :: ggml_cgraph where
  "demo_train_graph \<equiv> fresh_graph (\<lambda>_. 0) (\<lambda>_. 0) 8 True"

lemma demo_train_start:
  obtains h where "session h" "gget h 66672 = Some demo_train_graph" "h_tensors h = h_tensors demo_training"
proof -
  obtain h where h: "ggml_new_graph_custom (\<lambda>_. 0) (\<lambda>_. 0) demo_training 64 8 True = Some (66672, h)"
    by (simp add: ggml_new_graph_custom_def demo_training_bytes demo_training_def demo_nodes_def demo_ctx_def alloc_eval)
  have ok: "session_ok demo_training" by (rule session_inv [OF demo_training_session])
  have "client_step demo_training h" by (rule new_graph [OF _ _ h]) simp_all
  then have "session h" using demo_training_session by (rule rtranclp.rtrancl_into_rtrancl [rotated])
  moreover have "graph_state h 66672 demo_train_graph" "h_tensors h = h_tensors demo_training"
    using ggml_new_graph_custom_state [OF _ _ _ _ h] ok by (simp_all add: session_ok_def)
  ultimately show thesis using that by (simp add: graph_state_def)
qed

lemma demo_train_reach:
  assumes "h_tensors h = h_tensors demo_training"
  shows "reach h 65936 = {65568, 65936}"
proof
  have s: "srcs h 65936 = 65568 # replicate 9 0" "set (srcs h 65568) \<subseteq> {0}"
    by (simp_all add: srcs_def assms demo_training_def demo_matrix_def numeral_eq_Suc)
  show "reach h 65936 \<subseteq> {65568, 65936}" by (rule reach_least) (use s in auto)
  show "{65568, 65936} \<subseteq> reach h 65936"
    using s(1) by (auto intro!: reach_self reach_src [OF reach_self])
qed

text \<open>The tensors of the example, up to names and the flag COMPUTE.\<close>

definition training_tensors :: "heap \<Rightarrow> bool" where
  "training_tensors h \<longleftrightarrow> (\<forall>p. map_option tensor_core (h_tensors h p) = map_option tensor_core (h_tensors demo_training p))"

lemma training_flag:
  assumes "tensor_core t = tensor_core u"
  shows "t_flags t AND GGML_TENSOR_FLAG_PARAM = t_flags u AND GGML_TENSOR_FLAG_PARAM"
    "t_flags t AND GGML_TENSOR_FLAG_LOSS = t_flags u AND GGML_TENSOR_FLAG_LOSS"
proof -
  have f: "t_flags t AND NOT GGML_TENSOR_FLAG_COMPUTE = t_flags u AND NOT GGML_TENSOR_FLAG_COMPUTE"
    using arg_cong [OF assms, of t_flags] by (simp add: tensor_core_def)
  have w: "x AND w = (x AND NOT GGML_TENSOR_FLAG_COMPUTE) AND w" if "NOT GGML_TENSOR_FLAG_COMPUTE AND w = w" for x w
    using that by (simp add: and.assoc)
  show "t_flags t AND GGML_TENSOR_FLAG_PARAM = t_flags u AND GGML_TENSOR_FLAG_PARAM"
    by (subst (1 2) w) (simp_all add: f, simp_all add: GGML_TENSOR_FLAG_COMPUTE_def GGML_TENSOR_FLAG_PARAM_def)
  show "t_flags t AND GGML_TENSOR_FLAG_LOSS = t_flags u AND GGML_TENSOR_FLAG_LOSS"
    by (subst (1 2) w) (simp_all add: f, simp_all add: GGML_TENSOR_FLAG_COMPUTE_def GGML_TENSOR_FLAG_LOSS_def)
qed

lemma training_tensorsE:
  assumes "training_tensors h"
  obtains x y a where "h_tensors h 65568 = Some x" "h_tensors h 65936 = Some y" "h_tensors h 66304 = Some a"
    "t_type x = GGML_TYPE_F32" "t_type y = GGML_TYPE_F32" "t_op x = GGML_OP_NONE" "t_op y = GGML_OP_DUP"
    "t_src x = replicate 10 0" "t_src y = (replicate 10 0)[0 := 65568]" "t_src a = replicate 10 0"
    "t_view_src x = 0" "t_view_src y = 0" "t_ne x = [1, 1, 1, 1]" "t_ne y = [1, 1, 1, 1]" "t_ne a = [1, 1, 1, 1]"
    "t_flags x AND GGML_TENSOR_FLAG_PARAM \<noteq> 0" "t_flags x AND GGML_TENSOR_FLAG_LOSS = 0"
    "t_flags y AND GGML_TENSOR_FLAG_PARAM = 0" "t_flags y AND GGML_TENSOR_FLAG_LOSS \<noteq> 0"
proof -
  let ?x = "(demo_matrix 1 1)\<lparr> t_flags := 4 \<rparr>"
  let ?y = "(demo_matrix 1 1)\<lparr> t_op := GGML_OP_DUP, t_src := (replicate 10 0)[0 := 65568], t_flags := 8 \<rparr>"
  have t: "map_option tensor_core (h_tensors h 65568) = Some (tensor_core ?x)"
    "map_option tensor_core (h_tensors h 65936) = Some (tensor_core ?y)"
    "map_option tensor_core (h_tensors h 66304) = Some (tensor_core (demo_matrix 1 1))"
    using assms by (simp_all add: training_tensors_def demo_training_def)
  obtain x y a where x: "h_tensors h 65568 = Some x" "tensor_core x = tensor_core ?x"
    and y: "h_tensors h 65936 = Some y" "tensor_core y = tensor_core ?y"
    and a: "h_tensors h 66304 = Some a" "tensor_core a = tensor_core (demo_matrix 1 1)" using t by auto
  have f: "t_type p = t_type q" "t_op p = t_op q" "t_src p = t_src q" "t_view_src p = t_view_src q" "t_ne p = t_ne q"
    if "tensor_core p = tensor_core q" for p q
    using arg_cong [OF that, of t_type] arg_cong [OF that, of t_op] arg_cong [OF that, of t_src]
      arg_cong [OF that, of t_view_src] arg_cong [OF that, of t_ne] by (simp_all add: tensor_core_def)
  have fl: "t_flags x AND GGML_TENSOR_FLAG_PARAM \<noteq> 0" "t_flags x AND GGML_TENSOR_FLAG_LOSS = 0"
    "t_flags y AND GGML_TENSOR_FLAG_PARAM = 0" "t_flags y AND GGML_TENSOR_FLAG_LOSS \<noteq> 0"
    unfolding training_flag [OF x(2)] training_flag [OF y(2)]
    by (simp_all add: GGML_TENSOR_FLAG_PARAM_def GGML_TENSOR_FLAG_LOSS_def)
  show thesis
    by (rule that [OF x(1) y(1) a(1)])
      (use fl in \<open>simp_all add: f [OF x(2)] f [OF y(2)] f [OF a(2)] demo_matrix_def\<close>)
qed

text \<open>The graph of the copy: the weight, then the copy.\<close>

lemma demo_train_built:
  obtains h g where "session h" "gget h 66672 = Some g" "g_node_list g = [65568, 65936]" "g_leaf_list g = []" "g_size g = 8"
    "g_grads g \<noteq> None" "g_grad_accs g \<noteq> None" "training_tensors h"
proof -
  obtain h where h: "session h" "gget h 66672 = Some demo_train_graph" "h_tensors h = h_tensors demo_training" by (rule demo_train_start)
  note ok = session_inv [OF h(1)]
  note f = fresh_graph_empty [of 8 "\<lambda>_. 0" "\<lambda>_. 0" True, simplified]
  note e = empty_lists [OF f(2,3)]
  have p: "h_tensors h 65936 \<noteq> None" "(65936 :: int) \<noteq> NULL" by (simp_all add: h(3) demo_training_def)
  have cap: "int (card (g_done demo_train_graph \<union> reach h 65936)) \<le> g_size demo_train_graph"
    by (simp add: demo_train_reach [OF h(3)] e f(5))
  obtain h' where b: "ggml_build_forward_impl h 66672 65936 True True = Some h'"
    using build_order [OF session_graph_state [OF ok h(2)] p cap, of True] by blast
  note B = build_ok [OF ok h(2) p b]
  obtain h1 g where r: "h' = gset h1 66672 g" "heap_frame h h1" "walk0 (h, demo_train_graph) (h1, g)" "built h demo_train_graph 65936 h' g"
    using B(2) by blast
  have s: "session h'" using h(1) build [OF h(2) p b] by (rule rtranclp.rtrancl_into_rtrancl)
  have g: "gget h' 66672 = Some g" by (simp add: r(1))
  have tt: "training_tensors h'" using r(2) by (simp add: training_tensors_def r(1) heap_frame_def h(3))
  from tt obtain x y a where T: "h_tensors h' 65568 = Some x" "h_tensors h' 65936 = Some y"
    "t_op x = GGML_OP_NONE" "t_op y = GGML_OP_DUP" "t_src y = (replicate 10 0)[0 := 65568]"
    "t_flags x AND GGML_TENSOR_FLAG_PARAM \<noteq> 0" by (rule training_tensorsE)
  have ok': "graph_ok h' g" and d: "g_done g = {65568, 65936}"
    using r(4) by (simp_all add: built_def graph_complete_def demo_train_reach [OF h(3)] e)
  have nl: "\<not> is_leaf h' 65568" "\<not> is_leaf h' 65936" using T by (simp_all add: is_leaf_def)
  have lf: "q = 65568 \<or> q = 65936" "is_leaf h' q" if "q \<in> set (g_leaf_list g)" for q
    using ok' d that by (auto simp: graph_ok_def g_done_def)
  have l: "set (g_leaf_list g) = {}"
  proof (rule equals0I)
    show "q \<in> set (g_leaf_list g) \<Longrightarrow> False" for q using nl lf [of q] by auto
  qed
  have n: "set (g_node_list g) = {65568, 65936}" "distinct (g_node_list g)" using l d ok' by (auto simp: graph_ok_def g_done_def)
  then have "length (g_node_list g) = 2" using distinct_card [OF n(2)] by simp
  then obtain u v where uv: "g_node_list g = [u, v]" by (auto simp: numeral_2_eq_2 length_Suc_conv)
  have "0 < length (g_node_list g)" by (simp add: uv)
  moreover have "sources_before (srcs h') (set (g_leaf_list g)) (g_node_list g)" using ok' by (simp add: graph_ok_def)
  ultimately have "set (srcs h' (g_node_list g ! 0)) \<subseteq> {NULL, g_node_list g ! 0} \<union> set (take 0 (g_node_list g)) \<union> set (g_leaf_list g)"
    unfolding sources_before_def by blast
  then have "set (srcs h' u) \<subseteq> {NULL, u}" using l by (simp add: uv)
  moreover have "65568 \<in> set (srcs h' 65936)" using T(2,5) by (simp add: srcs_def numeral_eq_Suc)
  ultimately have "u \<noteq> 65936" by auto
  then have nl: "g_node_list g = [65568, 65936]" using n uv by auto
  have "g_grads g = g_grads demo_train_graph" "g_grad_accs g = g_grad_accs demo_train_graph" "g_size g = 8"
    using walkD(4,5,2) [OF r(3)] f(5) by simp_all
  then have "g_grads g \<noteq> None" "g_grad_accs g \<noteq> None" "g_size g = 8" by (simp_all add: fresh_graph_def Let_def)
  with that [OF s g nl _ _ _ _ tt] l show thesis by simp
qed

text \<open>The pass over the example succeeds: the gradient of the copy is handed on to the weight.\<close>

lemma demo_train_pass:
  assumes ok: "session_ok h" and g: "gget h 66672 = Some g" and ns: "g_node_list g = [65568, 65936]" and ls: "g_leaf_list g = []"
    and sz: "g_size g = 8" and gr: "g_grads g \<noteq> None" "g_grad_accs g \<noteq> None" and tt: "training_tensors h"
  shows "\<exists>h'. ggml_build_backward_expand fo h 64 66672 (Some [0, 66304]) = Some h'"
proof -
  obtain x y a where T: "h_tensors h 65568 = Some x" "h_tensors h 65936 = Some y" "h_tensors h 66304 = Some a"
    "t_type x = GGML_TYPE_F32" "t_type y = GGML_TYPE_F32" "t_op x = GGML_OP_NONE" "t_op y = GGML_OP_DUP"
    "t_src x = replicate 10 0" "t_src y = (replicate 10 0)[0 := 65568]" "t_src a = replicate 10 0"
    "t_view_src x = 0" "t_view_src y = 0" "t_ne x = [1, 1, 1, 1]" "t_ne y = [1, 1, 1, 1]" "t_ne a = [1, 1, 1, 1]"
    "t_flags x AND GGML_TENSOR_FLAG_PARAM \<noteq> 0" "t_flags x AND GGML_TENSOR_FLAG_LOSS = 0"
    "t_flags y AND GGML_TENSOR_FLAG_PARAM = 0" "t_flags y AND GGML_TENSOR_FLAG_LOSS \<noteq> 0"
    by (rule training_tensorsE [OF tt])
  let ?V = "g_visited g" let ?n = "hs_size (g_visited g)" let ?r = "replicate ?n (0 :: int)"
  note l = session_grads_length [OF ok g]
  have gs: "graph_complete h g" using session_graph_state [OF ok g] by (simp add: graph_state_def)
  have "65568 \<in> hs_set ?V" "65936 \<in> hs_set ?V" using complete_visited [OF gs] by (simp_all add: g_done_def ns)
  then obtain jx jy where j: "hs_occupied ?V jx 65568" "hs_occupied ?V jy 65936" by (auto simp: hs_set_occupied)
  note fx = find_at [OF l(3) j(1)] and fy = find_at [OF l(3) j(2)]
  have jn: "jx < ?n" "jy < ?n" "jx \<noteq> jy" using j by (auto simp: hs_occupied_def)
  have pos: "g_n_nodes g > 0" using ns by (auto simp: g_node_list_def intro: ccontr)
  define h1 where "h1 = gset h 66672 (with_grads g (Some ?r) (Some ?r))"
  define h2 where "h2 = gset h 66672 (with_grads g (Some (?r[jy := 66304])) (Some (?r[jy := 66304])))"
  have t1: "h_tensors h1 = h_tensors h" and g1: "gget h1 66672 = Some (with_grads g (Some ?r) (Some ?r))"
    by (simp_all add: h1_def)
  have t2: "h_tensors h2 = h_tensors h"
    and g2: "gget h2 66672 = Some (with_grads g (Some (?r[jy := 66304])) (Some (?r[jy := 66304])))"
    by (simp_all add: h2_def)
  let ?need = "(replicate ?n False)[jx := True, jy := True]"
  have m0: "mark_needed 64 66672 (Some [0, 66304]) (0, 65568) (h1, replicate ?n False) = Some (h1, (replicate ?n False)[jx := True])"
    using T fx g1 by (simp add: mark_needed_def tget_def t1 ignored_src_def inplace_ok_def given_acc_def set_acc_def numeral_eq_Suc)
  have m1: "mark_needed 64 66672 (Some [0, 66304]) (1, 65936) (h1, (replicate ?n False)[jx := True]) = Some (h2, ?need)"
    using T fx fy g1 jn by (simp add: mark_needed_def tget_def t1 ignored_src_def inplace_ok_def given_acc_def set_acc_def
      put_acc_def put_grad_def h1_def h2_def gset_gset with_both with_grads_def numeral_eq_Suc)
  have acc: "accs_ok h1 [65568, 65936] (Some [0, 66304])"
    using T by (auto simp: accs_ok_def t1 ggml_are_same_shape_def less_Suc_eq nth_Cons')
  have len: "pred_option (\<lambda>gr. length gr = ?n) (Some ?r)" by simp
  note st = grads_step [OF ok g refl len len, folded h1_def]
  have len2: "pred_option (\<lambda>gr. length gr = ?n) (Some (?r[jy := 66304]))" by simp
  note ok2 = grads_step(1) [OF ok g refl len2 len2, folded h2_def]
  have z: "gset h 66672 (zero_grads g) = h1" by (simp add: h1_def zero_grads_def with_grads_def)
  have loop: "for_each (mark_needed 64 66672 (Some [0, 66304])) (enumerate 0 [65568, 65936]) (h1, replicate ?n False) = Some (h2, ?need)"
    using m0 m1 by simp
  have any: "any_flag h1 GGML_TENSOR_FLAG_PARAM [65568, 65936] = Some True" "any_flag h1 GGML_TENSOR_FLAG_LOSS [65568, 65936] = Some True"
    using T by (simp_all add: any_flag_def tget_def t1)
  let ?g2 = "with_grads g (Some (?r[jy := 66304])) (Some (?r[jy := 66304]))"
  have p: "h_tensors h2 65568 \<noteq> None" "h_tensors h2 66304 \<noteq> None" using T by (simp_all add: t2)
  have "reach h2 66304 \<subseteq> {66304}" by (rule reach_least) (use T in \<open>auto simp: srcs_def t2\<close>)
  then have "g_done ?g2 \<union> reach h2 66304 \<subseteq> {65568, 65936, 66304}" by (auto simp: g_done_def ns ls)
  then have "card (g_done ?g2 \<union> reach h2 66304) \<le> card {65568, 65936, 66304 :: int}" by (rule card_mono [rotated]) simp
  then have cap: "int (card (g_done ?g2 \<union> reach h2 66304)) \<le> g_size ?g2" using sz by simp
  obtain h3 g3 where s: "store_grad h2 66672 jx 65568 66304 = Some h3" "session_ok h3" "gget h3 66672 = Some g3"
      "g_grads g3 = Some (?r[jy := 66304, jx := 66304])" "prefix [65568, 65936] (g_node_list g3)"
      "\<And>j x. hs_occupied ?V j x \<Longrightarrow> hs_occupied (g_visited g3) j x"
      "\<And>q. map_option tensor_core (h_tensors h3 q) = map_option tensor_core (h_tensors h2 q)"
    by (rule store_grad_succeeds [OF ok2 g2 _ _ p(1) _ p(2) _ cap, of "?r[jy := 66304]" jx]) (use jn ns in simp_all)
  have t3: "training_tensors h3" using s(7) tt t2 by (simp add: training_tensors_def)
  have grads: "ggml_graph_get_grad ?g2 65936 = Some 66304" using fy jn by (simp add: ggml_graph_get_grad_def)
  have nth: "g_nodes G ! i = g_node_list G ! i \<and> i < length (g_nodes G)" if "i < length (g_node_list G)" for G i
    using that by (simp add: g_node_list_def)
  obtain zs where zs: "g_node_list g3 = 65568 # 65936 # zs" using s(5) by (auto simp: prefix_def)
  have nodes: "g_nodes ?g2 ! 1 = 65936" "1 < length (g_nodes ?g2)" "g_nodes g3 ! 0 = 65568" "0 < length (g_nodes g3)"
    using nth [of 1 ?g2] nth [of 0 g3] by (simp_all add: ns zs)
  obtain x3 a3 where T3: "h_tensors h3 65568 = Some x3" "h_tensors h3 66304 = Some a3" "t_op x3 = GGML_OP_NONE"
    "t_src x3 = replicate 10 0" "t_ne x3 = [1, 1, 1, 1]" "t_ne a3 = [1, 1, 1, 1]"
    by (rule training_tensorsE [OF t3])
  have c: "check_grad h3 66672 True 65568 jx = Some ()"
    using T3 s(3,4) jn by (simp add: check_grad_def grad_ref_def tget_def ggml_are_same_shape_def)
  have full: "\<not> needs_grad hs need NULL i" "grad_slot hs NULL = Some GGML_HASHSET_FULL" for hs need i
    by (simp_all add: needs_grad_def grad_slot_def)
  have add: "ggml_add_or_set h2 64 66672 jx 66304 = Some h3"
    using s(1) g2 jn j(1) by (simp add: ggml_add_or_set_def slot_key_def grad_ref_def hs_occupied_def)
  have src: "t_src y ! 0 = 65568" "t_src y ! 1 = NULL" "t_src y ! 2 = NULL" "t_src x3 ! 0 = NULL" "t_src x3 ! 1 = NULL" "t_src x3 ! 2 = NULL"
    using T(9) T3(4) by (simp_all add: numeral_eq_Suc)
  have rule: "backward_rule fo h2 64 66672 65936 y 66304 jx i1 True n1 n2 = Some h3" for i1 n1 n2
    using T(7) add by (simp add: backward_rule_def)
  have need: "needs_grad ?V ?need 65568 jx" "grad_slot ?V 65568 = Some jx"
    using fx jn by (simp_all add: needs_grad_def grad_slot_def)
  have b1: "ggml_compute_backward fo h2 64 66672 1 ?need = Some h3"
    unfolding ggml_compute_backward_def
    using g2 nodes(1,2) grads T(2) by (simp add: src src [unfolded One_nat_def] full need rule c check_grad_def [of _ _ False] tget_def t2)
  note f3 = find_at [OF session_grads_length(3) [OF s(2,3)] s(6) [OF j(1)]]
  have "ggml_graph_get_grad g3 65568 = Some 66304" using f3 s(4) jn by (simp add: ggml_graph_get_grad_def)
  then have b0: "ggml_compute_backward fo h3 64 66672 0 ?need = Some h3"
    unfolding ggml_compute_backward_def
    using s(3) nodes(3,4) T3 by (simp add: src src [unfolded One_nat_def] full tget_def backward_rule_def check_grad_def)
  have "for_each (\<lambda>i h. ggml_compute_backward fo h 64 66672 i ?need) (rev [0..<length [65568, 65936 :: int]]) h2 = Some h3"
    using b1 b0 by (simp add: numeral_2_eq_2)
  then have "ggml_build_backward_expand fo h 64 66672 (Some [0, 66304]) = Some h3"
    using g pos gr ns z any loop by (simp add: ggml_build_backward_expand_def)
  then show ?thesis ..
qed

lemma demo_pass:
  obtains h g h' where "session h" "session_ok h" "gget h 66672 = Some g" "accs_ok h (g_node_list g) (Some [0, 66304])"
    "ggml_build_backward_expand fo h 64 66672 (Some [0, 66304]) = Some h'" "g_node_list g = [65568, 65936]"
    "flagged h GGML_TENSOR_FLAG_LOSS 65936" "flagged h GGML_TENSOR_FLAG_PARAM 65568" "grad_edge h g 65936 65568"
proof -
  obtain h g where d: "session h" "gget h 66672 = Some g" "g_node_list g = [65568, 65936]" "g_leaf_list g = []" "g_size g = 8"
    "g_grads g \<noteq> None" "g_grad_accs g \<noteq> None" "training_tensors h" by (rule demo_train_built)
  note ok = session_inv [OF d(1)]
  obtain h' where r: "ggml_build_backward_expand fo h 64 66672 (Some [0, 66304]) = Some h'"
    using demo_train_pass [OF ok d(2-8)] by blast
  obtain x y a where T: "h_tensors h 65568 = Some x" "h_tensors h 65936 = Some y" "h_tensors h 66304 = Some a"
    "t_type x = GGML_TYPE_F32" "t_type y = GGML_TYPE_F32" "t_op y = GGML_OP_DUP" "t_src y = (replicate 10 0)[0 := 65568]"
    "t_ne y = [1, 1, 1, 1]" "t_ne a = [1, 1, 1, 1]"
    "t_flags x AND GGML_TENSOR_FLAG_PARAM \<noteq> 0" "t_flags y AND GGML_TENSOR_FLAG_LOSS \<noteq> 0"
    by (rule training_tensorsE [OF d(8)])
  have acc: "accs_ok h (g_node_list g) (Some [0, 66304])"
    using T by (auto simp: accs_ok_def d(3) ggml_are_same_shape_def less_Suc_eq nth_Cons')
  have "flagged h GGML_TENSOR_FLAG_LOSS 65936" "flagged h GGML_TENSOR_FLAG_PARAM 65568"
    using T by (simp_all add: flagged_def)
  moreover have "grad_edge h g 65936 65568"
    using T by (auto simp: grad_edge_def flows_def d(3) ignored_src_def intro!: exI [of _ 0])
  ultimately show thesis using that [OF d(1) ok d(2) acc r d(3)] by blast
qed

section \<open>Properties\<close>

text \<open>
  C13: The gradients of the pass have the shapes of their tensors: after ggml_build_backward_expand the session is
  well-formed again, and whatever ggml_graph_get_grad returns for a visited tensor is a live tensor of its shape.  The
  session is well-formed before (session_ok), and accumulators that the caller hands in are live and have the shapes
  of their nodes (accs_ok); for the gradients that the pass computes nothing is assumed.
\<close>

theorem gradients_shaped:
  assumes "session_ok h" "gget h cg = Some g" "accs_ok h (g_node_list g) accs"
    and "ggml_build_backward_expand fo h ctx cg accs = Some h'"
  shows "session_ok h' \<and> (\<exists>g'. gget h' cg = Some g' \<and>
    (\<forall>x y. ggml_graph_get_grad g' x = Some y \<longrightarrow> y \<noteq> NULL \<longrightarrow>
      (\<exists>t u. h_tensors h' x = Some t \<and> h_tensors h' y = Some u \<and> ggml_are_same_shape t u)))"
proof -
  obtain h1 g1 need where B: "backing h1 cg g1 need 0 h'" by (rule backward_steps [OF assms]) blast
  then obtain g' where g': "gget h' cg = Some g'" "grads_ok {} h' g'" and ok: "session_ok h'"
    by (auto simp: backing_def back_inv_def)
  have "\<exists>t u. h_tensors h' x = Some t \<and> h_tensors h' y = Some u \<and> ggml_are_same_shape t u"
    if "ggml_graph_get_grad g' x = Some y" "y \<noteq> NULL" for x y
    by (rule get_grad_shape [OF ok g' that])
  then show ?thesis using ok g'(1) by blast
qed

theorem gradients_shaped_witness:
  "\<forall>fo. \<exists>h h' g'. session h \<and> ggml_build_backward_expand fo h 64 66672 (Some [0, 66304]) = Some h' \<and>
     session_ok h' \<and> gget h' 66672 = Some g'"
proof
  fix fo
  obtain h g h' where d: "session h" "session_ok h" "gget h 66672 = Some g" "accs_ok h (g_node_list g) (Some [0, 66304])"
    "ggml_build_backward_expand fo h 64 66672 (Some [0, 66304]) = Some h'" by (rule demo_pass [of fo])
  from gradients_shaped [OF d(2-5)] d(1,5)
  show "\<exists>h h' g'. session h \<and> ggml_build_backward_expand fo h 64 66672 (Some [0, 66304]) = Some h' \<and>
     session_ok h' \<and> gget h' 66672 = Some g'" by blast
qed

text \<open>
  C14: The forward graph is kept: the extended list of nodes begins with the nodes of the forward graph, it is again an
  order of evaluation, the tensors that were there keep shape, operation and sources, and no other graph changes.  The session
  is well-formed before (session_ok) and accumulators handed in have the shapes of their nodes (accs_ok).
\<close>

theorem backward_keeps_forward:
  assumes "session_ok h" "gget h cg = Some g" "accs_ok h (g_node_list g) accs"
    and "ggml_build_backward_expand fo h ctx cg accs = Some h'"
  shows "\<exists>g'. gget h' cg = Some g' \<and> prefix (g_node_list g) (g_node_list g') \<and>
    distinct (g_node_list g' @ g_leaf_list g') \<and> sources_before (srcs h') (set (g_leaf_list g')) (g_node_list g') \<and>
    (\<forall>p t. h_tensors h p = Some t \<longrightarrow> (\<exists>t'. h_tensors h' p = Some t' \<and> t_type t' = t_type t \<and> t_ne t' = t_ne t \<and>
       t_nb t' = t_nb t \<and> t_op t' = t_op t \<and> t_src t' = t_src t \<and> t_view_src t' = t_view_src t)) \<and>
    (\<forall>c. c \<noteq> cg \<longrightarrow> h_graphs h' c = h_graphs h c)"
proof -
  obtain h1 g1 need where h1: "h1 = gset h cg g1" "gget h1 cg = Some g1" "h_tensors h1 = h_tensors h" "g_node_list g1 = g_node_list g"
    and B: "backing h1 cg g1 need 0 h'" by (rule backward_steps [OF assms]) blast
  have gr: "grown cg h1 h'" and bi: "back_inv {} cg h'" using B by (simp_all add: backing_def)
  obtain g' where g': "gget h' cg = Some g'" "graph_grown g1 g'" by (rule grownD [OF gr h1(2)])
  have "graph_ok h' g'" using bi session_graph_state [OF _ g'(1)]
    by (auto simp: back_inv_def graph_state_def graph_complete_def)
  moreover have "\<exists>t'. h_tensors h' p = Some t' \<and> t_type t' = t_type t \<and> t_ne t' = t_ne t \<and>
       t_nb t' = t_nb t \<and> t_op t' = t_op t \<and> t_src t' = t_src t \<and> t_view_src t' = t_view_src t"
    if p: "h_tensors h p = Some t" for p t
  proof -
    obtain t' where t': "h_tensors h' p = Some t'" "tensor_core t' = tensor_core t"
      using tensors_keptD [of h1 h' p t] gr p h1(3) by (auto simp: grown_def)
    have "f (tensor_core t') = f (tensor_core t)" for f :: "ggml_tensor \<Rightarrow> 'x" by (simp add: t'(2))
    from this [of t_type] this [of t_ne] this [of t_nb] this [of t_op] this [of t_src] this [of t_view_src]
    show ?thesis using t'(1) by (simp add: tensor_core_def)
  qed
  ultimately show ?thesis
    using g' gr h1(1,4) by (auto simp: graph_ok_def graph_grown_def grown_def gset_def)
qed

theorem backward_keeps_forward_witness:
  "\<forall>fo. \<exists>h h' g'. session h \<and> ggml_build_backward_expand fo h 64 66672 (Some [0, 66304]) = Some h' \<and>
     gget h' 66672 = Some g' \<and> prefix [65568, 65936] (g_node_list g')"
proof
  fix fo
  obtain h g h' where d: "session h" "session_ok h" "gget h 66672 = Some g" "accs_ok h (g_node_list g) (Some [0, 66304])"
    "ggml_build_backward_expand fo h 64 66672 (Some [0, 66304]) = Some h'" "g_node_list g = [65568, 65936]"
    by (rule demo_pass [of fo])
  from backward_keeps_forward [OF d(2-5)] d(1,5,6)
  show "\<exists>h h' g'. session h \<and> ggml_build_backward_expand fo h 64 66672 (Some [0, 66304]) = Some h' \<and>
     gget h' 66672 = Some g' \<and> prefix [65568, 65936] (g_node_list g')" by auto
qed

text \<open>
  C12: Every parameter that a loss depends on gets a gradient: if a chain of operations leads from a loss to a parameter,
  each passing its gradient to one of its first three sources, then after the pass ggml_graph_get_grad of the
  parameter is a tensor of the shape of the parameter.  The session is well-formed before (session_ok) and accumulators
  handed in have the shapes of their nodes (accs_ok).
\<close>

theorem parameters_get_gradients:
  assumes "session_ok h" "gget h cg = Some g" "accs_ok h (g_node_list g) accs"
    and "ggml_build_backward_expand fo h ctx cg accs = Some h'"
    and "l \<in> set (g_node_list g)" "flagged h GGML_TENSOR_FLAG_LOSS l"
    and "p \<in> set (g_node_list g)" "flagged h GGML_TENSOR_FLAG_PARAM p" "(grad_edge h g)\<^sup>*\<^sup>* l p"
  shows "\<exists>g' y t u. gget h' cg = Some g' \<and> ggml_graph_get_grad g' p = Some y \<and> y \<noteq> NULL \<and>
    h_tensors h' p = Some t \<and> h_tensors h' y = Some u \<and> ggml_are_same_shape t u"
proof -
  obtain h1 g1 need where ok: "session_ok h1" and h1: "gget h1 cg = Some g1" "h_tensors h1 = h_tensors h" "g_node_list g1 = g_node_list g"
    and M: "marking h1 g1 (length (g_node_list g1)) need" and B: "backing h1 cg g1 need 0 h'"
    by (rule backward_steps [OF assms(1-4)]) blast
  have fl: "flagged h1 = flagged h" "grad_edge h1 g1 = grad_edge h g"
    by (simp_all add: fun_eq_iff flagged_def grad_edge_def flows_def h1)
  obtain m where m: "m < length (g_node_list g1)" "g_node_list g1 ! m = p"
    using assms(7) h1(3) by (auto simp: in_set_conv_nth)
  have "marked g1 need p" using markingD(3) [OF M m(1)] m(2) assms(8) fl by simp
  then have "from_loss h1 g1 need p"
    using marked_path [OF M, of p l] assms(5,6,9) fl h1(3) unfolding from_loss_def by auto
  moreover have gr: "grown cg h1 h'" and bi: "back_inv {} cg h'" using B by (simp_all add: backing_def)
  obtain g' where g': "gget h' cg = Some g'" "grads_ok {} h' g'" and ok: "session_ok h'"
    using bi by (auto simp: back_inv_def)
  ultimately have "graded g' p"
  proof (cases rule: from_lossE)
    case 1
    then show ?thesis using backingD(3) [OF B g'(1)] by simp
  next
    case (2 x)
    then obtain i where "i < length (g_node_list g1)" "g_node_list g1 ! i = x"
      by (auto simp: live_edge_def grad_edge_def in_set_conv_nth)
    then show ?thesis using backingD(4) [OF B g'(1), of i p] 2(1,3) by simp
  qed
  then obtain y where y: "ggml_graph_get_grad g' p = Some y" "y \<noteq> NULL" by (rule get_grad_graded [OF ok g'(1)])
  show ?thesis using get_grad_shape [OF ok g' y] g'(1) y by blast
qed

theorem parameters_get_gradients_witness:
  "\<forall>fo. \<exists>h h' g' y. session h \<and> ggml_build_backward_expand fo h 64 66672 (Some [0, 66304]) = Some h' \<and>
     gget h' 66672 = Some g' \<and> ggml_graph_get_grad g' 65568 = Some y \<and> y \<noteq> NULL"
proof
  fix fo
  obtain h g h' where d: "session h" "session_ok h" "gget h 66672 = Some g" "accs_ok h (g_node_list g) (Some [0, 66304])"
    "ggml_build_backward_expand fo h 64 66672 (Some [0, 66304]) = Some h'" "g_node_list g = [65568, 65936]"
    "flagged h GGML_TENSOR_FLAG_LOSS 65936" "flagged h GGML_TENSOR_FLAG_PARAM 65568" "grad_edge h g 65936 65568"
    by (rule demo_pass [of fo])
  from parameters_get_gradients [OF d(2-5) _ d(7) _ d(8) r_into_rtranclp [where r = "grad_edge h g", OF d(9)]] d(1,5,6)
  show "\<exists>h h' g' y. session h \<and> ggml_build_backward_expand fo h 64 66672 (Some [0, 66304]) = Some h' \<and>
     gget h' 66672 = Some g' \<and> ggml_graph_get_grad g' 65568 = Some y \<and> y \<noteq> NULL" by auto
qed

end
