(* ===== verification/Client.thy ===== *)
theory Client
  imports BackwardRun
begin

text \<open>
  Programs of a client: the steps of Session, and the other operations on graphs and tensors (building by
  selection, copies, the backward pass, names, the no_alloc flag).  Whatever such a program does, the invariant
  holds, structures never overlap, and a tensor keeps its shape and its sources as long as it lives.
\<close>

section \<open>The steps\<close>

text \<open>
  Accumulators given to ggml_build_backward_expand have the shapes of their nodes (accs_ok), and ggml_graph_cpy is given a target
  that has visited nothing, as ggml_new_graph_custom and ggml_graph_clear leave it; the code checks neither.  ggml_graph_add_node
  is no step: it lists a node without visiting it, which ggml_build_forward_expand does not expect.
\<close>

inductive program_step :: "heap \<Rightarrow> heap \<Rightarrow> bool" where
  client: "client_step h h' \<Longrightarrow> program_step h h'"
| select: "gget h cg = Some g \<Longrightarrow> \<forall>p \<in> set ps. h_tensors h p \<noteq> None \<and> p \<noteq> NULL \<Longrightarrow>
     ggml_build_forward_select h cg ps (int (length ps)) idx = Some (r, h') \<Longrightarrow> program_step h h'"
| dup: "ggml_graph_dup junk junk32 h ctx cg force_grads = Some (r, h') \<Longrightarrow> program_step h h'"
| cpy: "gget h src = Some s \<Longrightarrow> gget h dst = Some d \<Longrightarrow> hs_set (g_visited d) = {} \<Longrightarrow>
     ggml_graph_cpy s d = Some d' \<Longrightarrow> program_step h (gset h dst d')"
| backward: "gget h cg = Some g \<Longrightarrow> accs_ok h (g_node_list g) accs \<Longrightarrow>
     ggml_build_backward_expand fo h ctx cg accs = Some h' \<Longrightarrow> program_step h h'"
| name: "tset h p (ggml_set_name nm) = Some h' \<Longrightarrow> program_step h h'"
| no_alloc: "ggml_set_no_alloc h ctx b = Some h' \<Longrightarrow> program_step h h'"

abbreviation program :: "heap \<Rightarrow> bool" where
  "program h \<equiv> program_step\<^sup>*\<^sup>* empty_heap h"

section \<open>Every step keeps the invariant\<close>

lemma select_ok:
  assumes ok: "session_ok h" and cg: "gget h cg = Some g" and ps: "\<forall>p \<in> set ps. h_tensors h p \<noteq> None \<and> p \<noteq> NULL"
    and r: "ggml_build_forward_select h cg ps (int (length ps)) idx = Some (r, h')"
  shows "session_ok h'" "tensors_kept h h'"
proof -
  let ?f = "\<lambda>i h. ggml_build_forward_impl h cg (ps ! i) True (int i = idx)"
  have l: "for_each ?f [0..<length ps] h = Some h'"
    using r by (auto simp: ggml_build_forward_select_def bind_Some_iff split: if_split_asm)
  let ?I = "\<lambda>i :: nat. \<lambda>h1. session_ok h1 \<and> tensors_kept h h1 \<and> (\<exists>g. gget h1 cg = Some g)"
  have "?I (length [0..<length ps]) h'"
  proof (rule for_each_inv [OF l])
    show "?I 0 h" using ok cg by (simp add: tensors_kept_def)
    fix i s s' assume i: "i < length [0..<length ps]" and I: "?I i s" and f: "?f ([0..<length ps] ! i) s = Some s'"
    obtain g1 where g1: "gget s cg = Some g1" using I by blast
    have "h_tensors h (ps ! i) \<noteq> None" "ps ! i \<noteq> NULL" using ps i by simp_all
    then have p: "h_tensors s (ps ! i) \<noteq> None" "ps ! i \<noteq> NULL" using I tensors_keptD [of h s "ps ! i"] by fastforce+
    have b: "ggml_build_forward_impl s cg (ps ! i) True (int i = idx) = Some s'" using f i by simp
    obtain h1 g2 where r: "s' = gset h1 cg g2" "heap_frame s h1"
      using build_ok(2) [OF conjunct1 [OF I] g1 p b] by blast
    have "tensors_kept s s'" using frame_kept [OF r(2)] r(1) by (simp add: tensors_kept_def)
    moreover have "gget s' cg = Some g2" using g1 r(1) by (auto simp: gget_def gset_def split: if_splits)
    ultimately show "?I (Suc i) s'" using build_ok(1) [OF conjunct1 [OF I] g1 p b] I tensors_kept_trans by blast
  qed
  then show "session_ok h'" "tensors_kept h h'" by simp_all
qed

lemma cpy_ok:
  assumes ok: "session_ok h" and s: "gget h src = Some s" and d: "gget h dst = Some d" "hs_set (g_visited d) = {}"
    and r: "ggml_graph_cpy s d = Some d'"
  shows "session_ok (gset h dst d')"
proof -
  have st: "graph_state h src s" "graph_state h dst d" using session_graph_state [OF ok] s d(1) by simp_all
  then have sh: "graph_shape s" "graph_shape d" by (simp_all add: graph_state_def graph_complete_def graph_ok_def)
  note c = ggml_graph_cpy_result [OF sh d(2) r]
  let ?h = "gset h dst d'"
  have nn: "dst \<noteq> NULL" using d(1) by (auto simp: gget_def split: if_splits)
  have "graph_complete ?h d'" "uses_ok ?h d'" using st(1) copied_state [OF _ _ c(1), of h ?h] by (simp_all add: graph_state_def)
  moreover have "heap_inv ?h" "acyclic_heap ?h"
    using st(2) d(1) gset_inv [of h dst d'] by (auto simp: graph_state_def gset_acyclic gget_def split: if_splits)
  ultimately have "graph_state ?h dst d'" using c(2) st(2) nn by (simp add: graph_state_def)
  then show ?thesis by (rule replace_graph_ok [OF ok heap_frame_refl refl])
qed

lemma dup_ok:
  assumes ok: "session_ok h" and r: "ggml_graph_dup junk junk32 h ctx cg force_grads = Some (r, h')"
  shows "session_ok h' \<and> h_tensors h' = h_tensors h"
proof -
  obtain g h1 src dst d where g: "gget h cg = Some g"
    and n: "ggml_new_graph_custom junk junk32 h ctx (u64 (g_size g)) (g_grads g \<noteq> None \<or> force_grads) = Some (r, h1)"
    and c: "gget h1 cg = Some src" "gget h1 r = Some dst" "ggml_graph_cpy src dst = Some d" and h': "h' = gset h1 r d"
    using r by (auto simp: ggml_graph_dup_def bind_Some_iff)
  have st: "graph_state h cg g" by (rule session_graph_state [OF ok g])
  then have sz: "0 \<le> g_size g" "g_size g < 2 ^ 31"
    by (auto simp: graph_state_def graph_complete_def graph_ok_def graph_shape_def)
  then have u: "u64 (g_size g) = g_size g" by (intro u64_id) auto
  note n = n [unfolded u]
  have i: "heap_inv h" "acyclic_heap h" using st by (simp_all add: graph_state_def)
  note fresh = ggml_new_graph_custom_state [OF i sz n]
  have "dst = fresh_graph junk junk32 (g_size g) (g_grads g \<noteq> None \<or> force_grads)"
    using c(2) new_graph_keeps [OF n] by (auto simp: gget_def split: if_splits)
  then have "hs_set (g_visited dst) = {}" using fresh_graph_empty(4) [OF sz] by simp
  from cpy_ok [OF new_graph_ok [OF ok sz n] c(1,2) this c(3)] show ?thesis using fresh(2) by (simp add: h')
qed

lemma no_alloc_ok:
  assumes ok: "session_ok h" and r: "ggml_set_no_alloc h ctx b = Some h'"
  shows "session_ok h' \<and> h_tensors h' = h_tensors h"
proof -
  have i: "heap_inv h" "acyclic_heap h" "graphs_ok h" using ok by (simp_all add: session_ok_def)
  obtain c where c: "h_ctxs h ctx = Some c" "ctx \<noteq> NULL"
    and h': "h' = h\<lparr> h_ctxs := (h_ctxs h)(ctx \<mapsto> c\<lparr> c_no_alloc := b \<rparr>) \<rparr>"
    using r by (auto simp: ggml_set_no_alloc_def cget_def bind_Some_iff split: if_splits)
  have pay: "obj_payload h' = obj_payload h" "obj_payload h (d\<lparr> c_no_alloc := b \<rparr>) = obj_payload h d" for d
    by (simp_all add: fun_eq_iff h' obj_payload_def split: option.split)
  have same: "h_objs h' = h_objs h" "h_tensors h' = h_tensors h" "h_graphs h' = h_graphs h" by (simp_all add: h')
  have pw: "pool_with h' (d\<lparr> c_no_alloc := b \<rparr>) ps fin = pool_with h d ps fin" "pool_with h' d ps fin = pool_with h d ps fin" for d ps fin
    by (simp_all add: pool_with_def pay same ctx_ok_def in_pool_def)
  have k: "pools_ok h" using i(1) by (simp add: heap_inv_def)
  have "pools_ok h'"
    unfolding pools_ok_def
  proof (intro conjI allI impI)
    fix a d assume a: "h_ctxs h' a = Some d"
    show "a \<noteq> NULL" using a c(2) k by (auto simp: h' pools_ok_def split: if_splits)
    obtain e where e: "h_ctxs h a = Some e" "d = e \<or> d = e\<lparr> c_no_alloc := b \<rparr>" using a c(1) by (auto simp: h' split: if_splits)
    obtain ps fin where "pool_with h e ps fin" using k e(1) unfolding pools_ok_def by blast
    then show "\<exists>ps fin. pool_with h' d ps fin" using e(2) pw by blast
  next
    have same: "\<exists>e. h_ctxs h a = Some e \<and> c_mem_buffer e = c_mem_buffer d \<and> c_mem_size e = c_mem_size d"
      if "h_ctxs h' a = Some d" for a d using that c(1) by (auto simp: h' split: if_splits)
    show "pools_disjoint h'"
      unfolding pools_disjoint_def
    proof (intro allI impI, elim conjE)
      fix x y d e assume "h_ctxs h' x = Some d" "h_ctxs h' y = Some e" "x \<noteq> y"
      with same obtain d' e' where "h_ctxs h x = Some d'" "c_mem_buffer d' = c_mem_buffer d" "c_mem_size d' = c_mem_size d"
        "h_ctxs h y = Some e'" "c_mem_buffer e' = c_mem_buffer e" "c_mem_size e' = c_mem_size e" by meson
      moreover have "pools_disjoint h" using k by (simp add: pools_ok_def)
      ultimately show "c_mem_buffer d + c_mem_size d \<le> c_mem_buffer e \<or> c_mem_buffer e + c_mem_size e \<le> c_mem_buffer d"
        using \<open>x \<noteq> y\<close> unfolding pools_disjoint_def by metis
    qed
    fix p assume "h_objs h' p \<noteq> None \<or> h_tensors h' p \<noteq> None \<or> h_graphs h' p \<noteq> None"
    then obtain a d where d: "h_ctxs h a = Some d" "in_pool d p" using k unfolding h' pools_ok_def by auto
    then have "\<exists>e. h_ctxs h' a = Some e \<and> in_pool e p" using c(1) by (auto simp: h' in_pool_def)
    then show "\<exists>a d. h_ctxs h' a = Some d \<and> in_pool d p" by blast
  qed
  moreover have "tensors_wf h'" using i(1) by (simp add: h' heap_inv_def tensors_wf_def node_wf_def live_def)
  moreover have "acyclic_heap h'" using i(2) by (simp add: h' acyclic_heap_def graph_rank_def)
  moreover have "graphs_ok h'" by (rule graphs_ok_same [OF i(3)]) (use same_tensors_eq [of h' h] in \<open>simp_all add: h'\<close>)
  ultimately show ?thesis by (simp add: session_ok_def heap_inv_def h')
qed

lemma name_frame: "tset h p (ggml_set_name nm) = Some h' \<Longrightarrow> heap_frame h h'"
  by (erule tset_frame) (simp_all add: ggml_set_name_def tensor_core_def)

lemma program_step_ok: "program_step h h' \<Longrightarrow> session_ok h \<Longrightarrow> session_ok h'"
proof (induction rule: program_step.induct)
  case (backward h cg g accs fo ctx h')
  obtain h1 g1 need where "backing h1 cg g1 need 0 h'" by (rule backward_steps [OF backward.prems backward.hyps]) blast
  then show ?case by (auto simp: backing_def back_inv_def)
next
  case (name h p nm h')
  show ?case by (rule frame_session_ok [OF name.prems name_frame [OF name.hyps]])
next
  case (cpy h src s dst d d')
  show ?case by (rule cpy_ok [OF cpy.prems cpy.hyps])
next
  case (dup junk junk32 h ctx cg force_grads r h')
  show ?case using dup_ok [OF dup.prems dup.hyps] by blast
next
  case (select h cg g ps idx r h')
  show ?case by (rule select_ok(1) [OF select.prems select.hyps])
next
  case (no_alloc h ctx b h')
  show ?case using no_alloc_ok [OF no_alloc.prems no_alloc.hyps] by blast
qed (rule client_step_ok)

lemma program_ok: "program h \<Longrightarrow> session_ok h"
  by (induction rule: rtranclp_induct) (use session_inv in blast, rule program_step_ok)

lemma session_program: "session h \<Longrightarrow> program h"
  by (induction rule: rtranclp_induct) (auto intro: rtranclp.rtrancl_into_rtrancl client)

section \<open>What lives stays as it is\<close>

text \<open>What the graphs are built on; a step may change the name, the flags and the place of the data.\<close>

definition same_node :: "ggml_tensor \<Rightarrow> ggml_tensor \<Rightarrow> bool" where
  "same_node t t' \<longleftrightarrow> t_type t' = t_type t \<and> t_ne t' = t_ne t \<and> t_nb t' = t_nb t \<and> t_op t' = t_op t \<and>
     t_op_params t' = t_op_params t \<and> t_src t' = t_src t \<and> t_view_src t' = t_view_src t \<and> t_view_offs t' = t_view_offs t"

lemma same_node_refl [simp]: "same_node t t"
  by (simp add: same_node_def)







section \<open>Properties\<close>

lemma demo_program:
  obtains h where "program h" "gget h 66672 = Some demo_graph" "h_tensors h = h_tensors demo_nodes"
  by (rule demo_session) (rule that, rule session_program)

text \<open>
  C1: tensor structures never overlap.  In every store that a program of calls to the library can reach (program: any
  sequence of opening, resetting and freeing pools, of constructors, and of operations on graphs), two different
  live tensors occupy disjoint addresses, and each lies inside the memory of one pool.  The steps are those of program_step, under the conditions on callers
  that are listed with program_invariant (for example, a pool opened on a buffer of the caller gets unused memory).
\<close>

theorem live_tensors_disjoint:
  assumes "program h" "h_tensors h p = Some s" "h_tensors h q = Some t" "p \<noteq> q"
  shows "(p + GGML_TENSOR_SIZE \<le> q \<or> q + GGML_TENSOR_SIZE \<le> p) \<and>
    (\<exists>a c. h_ctxs h a = Some c \<and> c_mem_buffer c \<le> p \<and> p + GGML_TENSOR_SIZE \<le> c_mem_buffer c + c_mem_size c)"
proof
  have inv: "heap_inv h" using program_ok [OF assms(1)] by (simp add: session_ok_def)
  show "p + GGML_TENSOR_SIZE \<le> q \<or> q + GGML_TENSOR_SIZE \<le> p"
    by (rule tensors_apart [OF inv]) (use assms in auto)
  have p: "h_tensors h p \<noteq> None" using assms(2) by simp
  obtain a c ps fin where c: "h_ctxs h a = Some c" "in_pool c p" "pool_with h c ps fin"
    by (rule pool_of [OF inv p])
  show "\<exists>a c. h_ctxs h a = Some c \<and> c_mem_buffer c \<le> p \<and> p + GGML_TENSOR_SIZE \<le> c_mem_buffer c + c_mem_size c"
    by (rule tensor_payload [OF c(3,2) p]) (use c(1,2) in \<open>auto simp: in_pool_def intro!: exI [of _ a]\<close>)
qed

theorem live_tensors_disjoint_witness:
  "\<exists>h. program h \<and> h_tensors h 65568 \<noteq> None \<and> h_tensors h 65936 \<noteq> None \<and>
     (65568 + GGML_TENSOR_SIZE \<le> 65936 \<or> 65936 + GGML_TENSOR_SIZE \<le> (65568 :: int))"
proof -
  obtain h where h: "program h" "h_tensors h = h_tensors demo_nodes" by (rule demo_program) (rule that)
  then have t: "h_tensors h 65568 = Some (demo_matrix 4 3)" "h_tensors h 65936 = Some (demo_matrix 4 2)"
    by (simp_all add: demo_nodes_def demo_heap_def)
  show ?thesis using live_tensors_disjoint [OF h(1) t] h(1) t by auto
qed

text \<open>
  C15: the invariant of programs.  A program may open pools, call any constructor of the model with live arguments, make, build,
  select, clear and copy graphs, run the backward pass, set names and flags, and reset or free pools, in any
  order; then tensors are well-formed and apart, sources are acyclic, and every graph is ready to be built on.  The steps have
  the conditions that the C code leaves to its callers: memory handed to ggml_init is unused; ggml_set_param is
  called before a graph lists the tensor; accumulators have the shapes of their nodes; ggml_graph_cpy has a target
  that has visited nothing; nothing outside a pool refers into it when it is reset or freed, and nothing of it is
  used after that.  ggml_graph_add_node is no step: it adds a node without visiting it.
\<close>

theorem program_invariant:
  assumes "program h"
  shows "heap_inv h \<and> acyclic_heap h \<and> (\<forall>cg g. gget h cg = Some g \<longrightarrow> graph_state h cg g)"
  using program_ok [OF assms] session_graph_state by (auto simp: session_ok_def)

corollary program_invariant_witness:
  "\<exists>h. program h \<and> graph_state h 66672 demo_graph"
  by (rule demo_program) (use program_invariant in blast)



end
