(* ===== verification/DynAlloc.thy ===== *)
theory DynAlloc
  imports Prelude
begin

text \<open>
  The dynamic tensor allocator of ggml-alloc.c (ggml_dyn_tallocr): free lists of byte ranges in up to
  sixteen chunks, from which the graph allocator plans the addresses of a graph's tensors.  The array of
  free blocks with its counter is a list; size_t is an int with its wrap-around written out; a full free
  list and a failed reservation (GGML_ASSERT, GGML_ABORT) are None.

  The contract is the locale \<open>range_allocator\<close>: what is handed out was available, what is given back is
  available again.  Its lemmas show that no two live allocations ever overlap and that each lies below
  the size that is reported for its chunk.
\<close>

section \<open>Alignment\<close>

definition aligned_offset :: "ptr \<Rightarrow> int \<Rightarrow> int \<Rightarrow> int option" where
  "aligned_offset buffer offset alignment = do {
     gassert (alignment \<noteq> 0);
     let align = u64 (alignment - u64 (buffer + offset) mod alignment) mod alignment;
     Some (u64 (offset + align)) }"

section \<open>State\<close>

definition MAX_FREE_BLOCKS :: nat where "MAX_FREE_BLOCKS = 256"

definition GGML_VBUFFER_MAX_CHUNKS :: nat where "GGML_VBUFFER_MAX_CHUNKS = 16"

record buffer_address =
  ba_chunk :: int
  ba_offset :: int

record free_block =
  fb_offset :: int
  fb_size :: int

record tallocr_chunk =
  tc_free_blocks :: "free_block list"
  tc_max_size :: int

record ggml_dyn_tallocr =
  da_alignment :: int
  da_max_chunk_size :: int
  da_chunks :: "tallocr_chunk list"

definition GGML_BUFFER_ADDRESS_INVALID :: buffer_address where
  "GGML_BUFFER_ADDRESS_INVALID = \<lparr> ba_chunk = -1, ba_offset = SIZE_MAX \<rparr>"

definition ggml_buffer_address_less :: "buffer_address \<Rightarrow> buffer_address \<Rightarrow> bool" where
  "ggml_buffer_address_less a b \<longleftrightarrow>
     (if ba_chunk a \<noteq> ba_chunk b then ba_chunk a < ba_chunk b else ba_offset a < ba_offset b)"

section \<open>Blocks\<close>

text \<open>The position that keeps the blocks sorted by address.\<close>

fun insert_pos :: "free_block list \<Rightarrow> int \<Rightarrow> nat" where
  "insert_pos [] offset = 0"
| "insert_pos (b # bs) offset = (if fb_offset b < offset then Suc (insert_pos bs offset) else 0)"

definition ggml_dyn_tallocr_insert_block :: "tallocr_chunk \<Rightarrow> int \<Rightarrow> int \<Rightarrow> tallocr_chunk option" where
  "ggml_dyn_tallocr_insert_block chunk offset sz = do {
     let bs = tc_free_blocks chunk;
     gassert (length bs < MAX_FREE_BLOCKS);
     let pos = insert_pos bs offset;
     Some (chunk\<lparr> tc_free_blocks := take pos bs @ \<lparr> fb_offset = offset, fb_size = sz \<rparr> # drop pos bs \<rparr>) }"

definition ggml_dyn_tallocr_remove_block :: "tallocr_chunk \<Rightarrow> nat \<Rightarrow> tallocr_chunk" where
  "ggml_dyn_tallocr_remove_block chunk idx =
     chunk\<lparr> tc_free_blocks := take idx (tc_free_blocks chunk) @ drop (Suc idx) (tc_free_blocks chunk) \<rparr>"

definition ggml_dyn_tallocr_new_chunk :: "ggml_dyn_tallocr \<Rightarrow> int \<Rightarrow> int \<times> ggml_dyn_tallocr" where
  "ggml_dyn_tallocr_new_chunk alloc min_size =
     (let n = length (da_chunks alloc) in
      if n \<ge> GGML_VBUFFER_MAX_CHUNKS then (-1, alloc)
      else
        let sz = max min_size (da_max_chunk_size alloc);
            sz = (if n = GGML_VBUFFER_MAX_CHUNKS - 1 then SIZE_MAX div 2 else sz);
            chunk = \<lparr> tc_free_blocks = [\<lparr> fb_offset = 0, fb_size = sz \<rparr>], tc_max_size = 0 \<rparr>
        in (int n, alloc\<lparr> da_chunks := da_chunks alloc @ [chunk] \<rparr>))"

section \<open>Allocation\<close>

text \<open>
  The search over all blocks but the last of every chunk; the size to beat starts anew in every chunk.
  A result is a chunk and a block, -1 and -1 when there is none.
\<close>

definition fit_block :: "int \<Rightarrow> int \<Rightarrow> nat \<times> free_block \<Rightarrow> int \<times> int \<times> int \<Rightarrow> int \<times> int \<times> int" where
  "fit_block sz c = (\<lambda>(i, b) (best_chunk, best_block, best_size).
     if fb_size b \<ge> sz \<and> fb_size b \<le> best_size then (c, int i, fb_size b)
     else (best_chunk, best_block, best_size))"

definition fit_chunk :: "int \<Rightarrow> nat \<times> tallocr_chunk \<Rightarrow> int \<times> int \<Rightarrow> int \<times> int" where
  "fit_chunk sz = (\<lambda>(c, chunk) (best_chunk, best_block).
     let (best_chunk, best_block, _) =
       fold (fit_block sz (int c)) (enumerate 0 (butlast (tc_free_blocks chunk))) (best_chunk, best_block, SIZE_MAX)
     in (best_chunk, best_block))"

definition find_fit :: "int \<Rightarrow> tallocr_chunk list \<Rightarrow> int \<times> int" where
  "find_fit sz chunks = fold (fit_chunk sz) (enumerate 0 chunks) (-1, -1)"

text \<open>The search over the last blocks, which may grow a chunk.\<close>

definition fit_last :: "int \<Rightarrow> nat \<times> tallocr_chunk \<Rightarrow> int \<times> int \<times> int \<Rightarrow> int \<times> int \<times> int" where
  "fit_last sz = (\<lambda>(c, chunk) (best_chunk, best_block, best_reuse).
     if tc_free_blocks chunk = [] then (best_chunk, best_block, best_reuse)
     else
       let block = last (tc_free_blocks chunk);
           reuse_factor = i64 (tc_max_size chunk - fb_offset block - sz);
           better_reuse = (best_reuse < 0 \<and> reuse_factor > best_reuse);
           better_fit = (reuse_factor \<ge> 0 \<and> reuse_factor < best_reuse)
       in if fb_size block \<ge> sz \<and> (better_reuse \<or> better_fit)
          then (int c, int (length (tc_free_blocks chunk)) - 1, reuse_factor)
          else (best_chunk, best_block, best_reuse))"

definition find_last :: "int \<Rightarrow> tallocr_chunk list \<Rightarrow> int \<times> int \<Rightarrow> int \<times> int" where
  "find_last sz chunks = (\<lambda>(best_chunk, best_block).
     let (best_chunk, best_block, _) = fold (fit_last sz) (enumerate 0 chunks) (best_chunk, best_block, - (2 ^ 63))
     in (best_chunk, best_block))"

text \<open>Cutting the request off the front of a block.\<close>

definition take_front :: "tallocr_chunk \<Rightarrow> nat \<Rightarrow> int \<Rightarrow> tallocr_chunk" where
  "take_front chunk i sz =
     (let block = tc_free_blocks chunk ! i;
          block' = \<lparr> fb_offset = u64 (fb_offset block + sz), fb_size = u64 (fb_size block - sz) \<rparr>;
          chunk' = chunk\<lparr> tc_free_blocks := (tc_free_blocks chunk)[i := block'] \<rparr>;
          chunk' = (if fb_size block' = 0 then ggml_dyn_tallocr_remove_block chunk' i else chunk')
      in chunk'\<lparr> tc_max_size := max (tc_max_size chunk') (u64 (fb_offset block + sz)) \<rparr>)"

definition ggml_dyn_tallocr_alloc :: "ggml_dyn_tallocr \<Rightarrow> int \<Rightarrow> (buffer_address \<times> ggml_dyn_tallocr) option" where
  "ggml_dyn_tallocr_alloc alloc sz = do {
     sz \<leftarrow> aligned_offset NULL sz (da_alignment alloc);
     let (best_chunk, best_block) = find_fit sz (da_chunks alloc);
     let (best_chunk, best_block) =
       (if best_block = -1 then find_last sz (da_chunks alloc) (best_chunk, best_block) else (best_chunk, best_block));
     let (best_chunk, best_block, alloc) =
       (if best_block = -1 then (let (c, alloc) = ggml_dyn_tallocr_new_chunk alloc sz in (c, 0, alloc))
        else (best_chunk, best_block, alloc));
     gassert (best_chunk \<noteq> -1);
     let chunk = da_chunks alloc ! nat best_chunk;
     let block = tc_free_blocks chunk ! nat best_block;
     Some (\<lparr> ba_chunk = best_chunk, ba_offset = fb_offset block \<rparr>,
       alloc\<lparr> da_chunks := (da_chunks alloc)[nat best_chunk := take_front chunk (nat best_block) sz] \<rparr>) }"

section \<open>Release\<close>

text \<open>The range against one block: merged with it (and with the neighbour it now touches), or None.\<close>

definition merge_block :: "tallocr_chunk \<Rightarrow> int \<Rightarrow> int \<Rightarrow> nat \<Rightarrow> tallocr_chunk option" where
  "merge_block chunk offset sz i =
     (let bs = tc_free_blocks chunk; block = bs ! i in
      if u64 (fb_offset block + fb_size block) = offset then
        let block = block\<lparr> fb_size := u64 (fb_size block + sz) \<rparr> in
        if Suc i < length bs \<and> u64 (fb_offset block + fb_size block) = fb_offset (bs ! Suc i) then
          let block = block\<lparr> fb_size := u64 (fb_size block + fb_size (bs ! Suc i)) \<rparr>
          in Some (ggml_dyn_tallocr_remove_block (chunk\<lparr> tc_free_blocks := bs[i := block] \<rparr>) (Suc i))
        else Some (chunk\<lparr> tc_free_blocks := bs[i := block] \<rparr>)
      else if u64 (offset + sz) = fb_offset block then
        let block = \<lparr> fb_offset = offset, fb_size = u64 (fb_size block + sz) \<rparr> in
        if i > 0 \<and> u64 (fb_offset (bs ! (i - 1)) + fb_size (bs ! (i - 1))) = fb_offset block then
          let prev = (bs ! (i - 1))\<lparr> fb_size := u64 (fb_size (bs ! (i - 1)) + fb_size block) \<rparr>
          in Some (ggml_dyn_tallocr_remove_block (chunk\<lparr> tc_free_blocks := bs[i := block, i - 1 := prev] \<rparr>) i)
        else Some (chunk\<lparr> tc_free_blocks := bs[i := block] \<rparr>)
      else None)"

fun first_merge :: "tallocr_chunk \<Rightarrow> int \<Rightarrow> int \<Rightarrow> nat list \<Rightarrow> tallocr_chunk option" where
  "first_merge chunk offset sz [] = None"
| "first_merge chunk offset sz (i # is) =
     (case merge_block chunk offset sz i of None \<Rightarrow> first_merge chunk offset sz is | Some chunk' \<Rightarrow> Some chunk')"

definition ggml_dyn_tallocr_free_bytes :: "ggml_dyn_tallocr \<Rightarrow> buffer_address \<Rightarrow> int \<Rightarrow> ggml_dyn_tallocr option" where
  "ggml_dyn_tallocr_free_bytes alloc addr sz = do {
     sz \<leftarrow> aligned_offset NULL sz (da_alignment alloc);
     gassert (0 \<le> ba_chunk addr \<and> nat (ba_chunk addr) < length (da_chunks alloc));
     let chunk = da_chunks alloc ! nat (ba_chunk addr);
     chunk' \<leftarrow> (case first_merge chunk (ba_offset addr) sz [0..<length (tc_free_blocks chunk)] of
         Some chunk' \<Rightarrow> Some chunk'
       | None \<Rightarrow> ggml_dyn_tallocr_insert_block chunk (ba_offset addr) sz);
     Some (alloc\<lparr> da_chunks := (da_chunks alloc)[nat (ba_chunk addr) := chunk'] \<rparr>) }"

definition ggml_dyn_tallocr_reset :: "ggml_dyn_tallocr \<Rightarrow> ggml_dyn_tallocr" where
  "ggml_dyn_tallocr_reset alloc = alloc\<lparr> da_chunks := [] \<rparr>"

definition ggml_dyn_tallocr_new :: "int \<Rightarrow> int \<Rightarrow> ggml_dyn_tallocr" where
  "ggml_dyn_tallocr_new alignment max_buffer_size =
     ggml_dyn_tallocr_reset
       \<lparr> da_alignment = alignment, da_max_chunk_size = min max_buffer_size (SIZE_MAX div 2), da_chunks = [] \<rparr>"

definition ggml_dyn_tallocr_max_size :: "ggml_dyn_tallocr \<Rightarrow> int \<Rightarrow> int" where
  "ggml_dyn_tallocr_max_size alloc chunk =
     (if chunk < int (length (da_chunks alloc)) then tc_max_size (da_chunks alloc ! nat chunk) else 0)"

section \<open>Free lists\<close>

text \<open>
  A free list holds disjoint ranges in the order of their addresses, none touching the next, all below
  \<open>cap\<close> and starting at multiples of the alignment.
\<close>

abbreviation fb_end :: "free_block \<Rightarrow> int" where
  "fb_end b \<equiv> fb_offset b + fb_size b"

definition block_ok :: "int \<Rightarrow> free_block \<Rightarrow> bool" where
  "block_ok a b \<longleftrightarrow> 0 \<le> fb_offset b \<and> 0 < fb_size b \<and> fb_end b \<le> SIZE_MAX div 2 \<and> fb_offset b mod a = 0"

definition free_list :: "int \<Rightarrow> free_block list \<Rightarrow> bool" where
  "free_list a bs \<longleftrightarrow> (\<forall>b \<in> set bs. block_ok a b) \<and> sorted_wrt (\<lambda>b b'. fb_end b < fb_offset b') bs"

definition bytes :: "free_block list \<Rightarrow> int set" where
  "bytes bs = (\<Union>b \<in> set bs. {fb_offset b ..< fb_end b})"

lemma bytes_simps [simp]:
  "bytes [] = {}" "bytes (b # bs) = {fb_offset b ..< fb_end b} \<union> bytes bs" "bytes (xs @ ys) = bytes xs \<union> bytes ys"
  by (auto simp: bytes_def)

lemma free_list_append:
  "free_list a (xs @ ys) \<longleftrightarrow> free_list a xs \<and> free_list a ys \<and> (\<forall>x \<in> set xs. \<forall>y \<in> set ys. fb_end x < fb_offset y)"
  by (auto simp: free_list_def sorted_wrt_append)

lemma free_list_Cons:
  "free_list a (b # bs) \<longleftrightarrow> block_ok a b \<and> free_list a bs \<and> (\<forall>y \<in> set bs. fb_end b < fb_offset y)"
  by (auto simp: free_list_def)

lemma free_list_Nil [simp]: "free_list a []"
  by (simp add: free_list_def)

lemma block_ok_u64:
  assumes "block_ok a b"
  shows "u64 (fb_end b) = fb_end b" "0 \<le> fb_end b"
  using assms by (auto simp: block_ok_def SIZE_MAX_def intro!: u64_id)

lemma split_nth: "i < length xs \<Longrightarrow> xs = take i xs @ xs ! i # drop (Suc i) xs"
  by (rule id_take_nth_drop)

lemma update_split: "i < length xs \<Longrightarrow> xs[i := x] = take i xs @ x # drop (Suc i) xs"
  by (rule upd_conv_take_nth_drop)

lemma bytes_after: "(\<forall>y \<in> set ys. e < fb_offset y) \<Longrightarrow> x \<le> e \<Longrightarrow> x \<notin> bytes ys"
  by (force simp: bytes_def)

lemma bytes_before: "(\<forall>x \<in> set xs. fb_end x < o') \<Longrightarrow> o' \<le> x \<Longrightarrow> x \<notin> bytes xs"
  by (force simp: bytes_def)

section \<open>Taking and giving back\<close>

lemma take_front_spec:
  assumes fl: "free_list a (tc_free_blocks ch)" and i: "i < length (tc_free_blocks ch)"
    and sz: "0 < sz" "sz mod a = 0" "sz \<le> fb_size (tc_free_blocks ch ! i)" and m: "0 \<le> tc_max_size ch"
  shows "let off = fb_offset (tc_free_blocks ch ! i); ch' = take_front ch i sz in
    free_list a (tc_free_blocks ch') \<and> bytes (tc_free_blocks ch') = bytes (tc_free_blocks ch) - {off ..< off + sz} \<and>
    {off ..< off + sz} \<subseteq> bytes (tc_free_blocks ch) \<and> 0 \<le> off \<and> off mod a = 0 \<and> off + sz \<le> SIZE_MAX div 2 \<and>
    tc_max_size ch' = max (tc_max_size ch) (off + sz) \<and>
    length (tc_free_blocks ch') \<le> length (tc_free_blocks ch)"
proof -
  let ?bs = "tc_free_blocks ch"
  define xs where "xs = take i ?bs"
  define b where "b = ?bs ! i"
  define ys where "ys = drop (Suc i) ?bs"
  have bs: "?bs = xs @ b # ys" unfolding xs_def b_def ys_def by (rule split_nth [OF i])
  have len: "length xs = i" using i by (simp add: xs_def)
  have k: "free_list a xs" "free_list a ys" "block_ok a b" "\<forall>x \<in> set xs. fb_end x < fb_offset b"
    "\<forall>x \<in> set xs. \<forall>y \<in> set ys. fb_end x < fb_offset y" "\<forall>y \<in> set ys. fb_end b < fb_offset y"
    using fl by (auto simp: bs free_list_append free_list_Cons)
  let ?o = "fb_offset b" and ?n = "fb_size b"
  have b: "0 \<le> ?o" "0 < ?n" "?o + ?n \<le> 9223372036854775807" "?o mod a = 0" "sz \<le> ?n"
    using k(3) sz(3) by (simp_all add: block_ok_def b_def SIZE_MAX_def)
  have u: "u64 (?o + sz) = ?o + sz" "u64 (?n - sz) = ?n - sz" using b sz(1) by (auto intro!: u64_id)
  have al: "(?o + sz) mod a = 0" using b(4) sz(2) by (metis add.right_neutral mod_add_eq mod_0)
  have out: "{?o ..< ?o + sz} \<inter> bytes xs = {}" "{?o ..< ?o + sz} \<inter> bytes ys = {}"
  proof -
    have "x \<notin> bytes ys" if "x < ?o + sz" for x by (rule bytes_after [OF k(6)]) (use that b(5) in simp)
    then show "{?o ..< ?o + sz} \<inter> bytes ys = {}" by auto
    have "x \<notin> bytes xs" if "?o \<le> x" for x by (rule bytes_before [OF k(4) that])
    then show "{?o ..< ?o + sz} \<inter> bytes xs = {}" by auto
  qed
  let ?b' = "\<lparr> fb_offset = ?o + sz, fb_size = ?n - sz \<rparr>"
  have tf: "tc_free_blocks (take_front ch i sz) = (if ?n = sz then xs @ ys else xs @ ?b' # ys)"
    using i len by (auto simp: take_front_def Let_def u ggml_dyn_tallocr_remove_block_def bs nth_append list_update_append)
  have mx: "tc_max_size (take_front ch i sz) = max (tc_max_size ch) (?o + sz)"
    using i by (simp add: take_front_def Let_def u ggml_dyn_tallocr_remove_block_def b_def [symmetric])
  have "free_list a (tc_free_blocks (take_front ch i sz))"
    using k b al sz(1) by (auto simp: tf free_list_append free_list_Cons block_ok_def SIZE_MAX_def)
  moreover have "bytes (tc_free_blocks (take_front ch i sz)) = bytes ?bs - {?o ..< ?o + sz}"
    unfolding tf bs using out b(5) sz(1) by (auto simp: disjoint_iff)
  moreover have "{?o ..< ?o + sz} \<subseteq> bytes ?bs" unfolding bs using b(5) by auto
  moreover have "?o + sz \<le> SIZE_MAX div 2" using b(3,5) by (simp add: SIZE_MAX_def)
  moreover have "length (tc_free_blocks (take_front ch i sz)) \<le> length ?bs" by (simp add: tf bs)
  ultimately show ?thesis using b(1,4) mx by (simp only: Let_def b_def [symmetric] simp_thms)
qed

text \<open>Giving back a range that is not free: the two ways around the blocks it may touch.\<close>

lemma split_at_range:
  assumes fl: "free_list a bs" and d: "{off ..< off + sz} \<inter> bytes bs = {}" and sz: "0 < sz"
  obtains xs ys where "bs = xs @ ys" "\<forall>x \<in> set xs. fb_end x \<le> off" "\<forall>y \<in> set ys. off + sz \<le> fb_offset y"
proof -
  let ?p = "\<lambda>b. fb_offset b < off"
  have s: "\<forall>b \<in> set bs. fb_end b \<le> off \<or> off + sz \<le> fb_offset b"
  proof
    fix b assume b: "b \<in> set bs"
    then have "0 < fb_size b" using fl by (simp add: free_list_def block_ok_def)
    moreover have "max off (fb_offset b) \<notin> {off ..< off + sz} \<or> max off (fb_offset b) \<notin> bytes bs" using d by blast
    then have "max off (fb_offset b) \<notin> {off ..< off + sz} \<or> max off (fb_offset b) \<notin> {fb_offset b ..< fb_end b}"
      using b by (auto simp: bytes_def)
    ultimately show "fb_end b \<le> off \<or> off + sz \<le> fb_offset b" using sz by (auto simp: max_def split: if_splits)
  qed
  let ?xs = "takeWhile ?p bs" and ?ys = "dropWhile ?p bs"
  have x: "fb_end x \<le> off" if "x \<in> set ?xs" for x
    using s set_takeWhileD [OF that] fl sz by (fastforce simp: free_list_def block_ok_def)
  have y: "off + sz \<le> fb_offset y" if yy: "y \<in> set ?ys" for y
  proof (cases ?ys)
    case (Cons z zs)
    then have z: "\<not> ?p z" "z \<in> set bs" using hd_dropWhile [of ?p bs] set_dropWhileD [of z ?p bs] by auto
    then have "off + sz \<le> fb_offset z" using s fl sz by (fastforce simp: free_list_def block_ok_def)
    moreover have "free_list a (?xs @ z # zs)" using fl Cons by (metis takeWhile_dropWhile_id)
    then have "y = z \<or> fb_end z < fb_offset y" "0 < fb_size z"
      using yy by (auto simp: Cons free_list_append free_list_Cons block_ok_def)
    ultimately show ?thesis by auto
  next
    case Nil
    then show ?thesis using yy by (simp only: list.set empty_iff)
  qed
  show thesis by (rule that [of ?xs ?ys]) (use x y in auto)
qed

text \<open>What a release does to the list, given the blocks before and after the range.\<close>

definition put_back :: "free_block list \<Rightarrow> int \<Rightarrow> int \<Rightarrow> free_block list \<Rightarrow> free_block list" where
  "put_back xs off sz ys =
     (let left = (xs \<noteq> [] \<and> fb_end (last xs) = off);
          right = (ys \<noteq> [] \<and> off + sz = fb_offset (hd ys));
          start = (if left then fb_offset (last xs) else off);
          stop = (if right then fb_end (hd ys) else off + sz)
      in (if left then butlast xs else xs) @ \<lparr> fb_offset = start, fb_size = stop - start \<rparr> #
         (if right then tl ys else ys))"

lemma put_back_spec:
  assumes xs: "free_list a xs" "\<forall>x \<in> set xs. fb_end x \<le> off" and ys: "free_list a ys" "\<forall>y \<in> set ys. off + sz \<le> fb_offset y"
    and r: "0 \<le> off" "0 < sz" "off + sz \<le> SIZE_MAX div 2" "off mod a = 0"
  shows "free_list a (put_back xs off sz ys)" "bytes (put_back xs off sz ys) = bytes xs \<union> {off ..< off + sz} \<union> bytes ys"
proof -
  define left where "left \<longleftrightarrow> xs \<noteq> [] \<and> fb_end (last xs) = off"
  define right where "right \<longleftrightarrow> ys \<noteq> [] \<and> off + sz = fb_offset (hd ys)"
  define start where "start = (if left then fb_offset (last xs) else off)"
  define stop where "stop = (if right then fb_end (hd ys) else off + sz)"
  define xs' where "xs' = (if left then butlast xs else xs)"
  define ys' where "ys' = (if right then tl ys else ys)"
  have p: "put_back xs off sz ys = xs' @ \<lparr> fb_offset = start, fb_size = stop - start \<rparr> # ys'"
    by (simp add: put_back_def Let_def left_def right_def start_def stop_def xs'_def ys'_def)
  have x: "free_list a xs'" "\<forall>x \<in> set xs'. fb_end x < start" "0 \<le> start" "start \<le> off" "start mod a = 0"
    "bytes xs' \<union> {start ..< off} = bytes xs"
  proof -
    have "free_list a xs' \<and> (\<forall>x \<in> set xs'. fb_end x < start) \<and> 0 \<le> start \<and> start \<le> off \<and> start mod a = 0 \<and>
      bytes xs' \<union> {start ..< off} = bytes xs"
    proof (cases left)
      case True
      then obtain zs l where z: "xs = zs @ [l]" "fb_end l = off" by (cases xs rule: rev_cases) (auto simp: left_def)
      then show ?thesis using xs(1) True
        by (auto simp: xs'_def start_def free_list_append free_list_Cons block_ok_def)
    next
      case False
      have "fb_end x < off" if mem: "x \<in> set xs" for x
      proof (cases "x = last xs")
        case True
        then show ?thesis using False xs(2) mem by (cases xs) (auto simp: left_def order_less_le)
      next
        case no: False
        obtain zs l where z: "xs = zs @ [l]" using mem by (cases xs rule: rev_cases) auto
        then have "fb_end x < fb_offset l" "block_ok a l" using xs(1) mem no by (auto simp: free_list_append free_list_Cons)
        moreover have "fb_end l \<le> off" using xs(2) z by simp
        ultimately show ?thesis by (simp add: block_ok_def)
      qed
      then show ?thesis using False xs(1) r by (auto simp: xs'_def start_def)
    qed
    then show "free_list a xs'" "\<forall>x \<in> set xs'. fb_end x < start" "0 \<le> start" "start \<le> off" "start mod a = 0"
      "bytes xs' \<union> {start ..< off} = bytes xs" by simp_all
  qed
  have y: "free_list a ys' \<and> (\<forall>y \<in> set ys'. stop < fb_offset y) \<and> off + sz \<le> stop \<and> stop \<le> SIZE_MAX div 2 \<and>
      {off + sz ..< stop} \<union> bytes ys' = bytes ys"
  proof (cases right)
    case True
    then obtain z zs where z: "ys = z # zs" "off + sz = fb_offset z" by (cases ys) (auto simp: right_def)
    then show ?thesis using ys(1) True by (auto simp: ys'_def stop_def free_list_Cons block_ok_def)
  next
    case False
    have "off + sz < fb_offset y" if "y \<in> set ys" for y
    proof (cases ys)
      case (Cons z zs)
      then have "off + sz < fb_offset z" using False ys(2) by (auto simp: right_def order_less_le)
      moreover have "y = z \<or> fb_end z < fb_offset y" "block_ok a z" using that ys(1) by (auto simp: Cons free_list_Cons)
      ultimately show ?thesis by (auto simp: block_ok_def)
    qed (use that in simp)
    then show ?thesis using False ys(1) r by (auto simp: ys'_def stop_def)
  qed
  have "fb_end u < fb_offset v" if "u \<in> set xs'" "v \<in> set ys'" for u v
  proof -
    have "fb_end u < start" "stop < fb_offset v" using x(2) y that by blast+
    then show ?thesis using x(4) y r(2) by linarith
  qed
  then show "free_list a (put_back xs off sz ys)"
    using x y r by (auto simp: p free_list_append free_list_Cons block_ok_def)
  have "{start ..< stop} = {start ..< off} \<union> {off ..< off + sz} \<union> {off + sz ..< stop}" using x(4) y r(2) by auto
  then show "bytes (put_back xs off sz ys) = bytes xs \<union> {off ..< off + sz} \<union> bytes ys"
    using x(6) y by (auto simp: p)
qed

lemma block_record: "b\<lparr> fb_size := n \<rparr> = \<lparr> fb_offset = fb_offset b, fb_size = n \<rparr>" for b :: free_block
  by (cases b) simp

lemma first_merge_skip:
  "(\<And>i. i \<in> set is \<Longrightarrow> merge_block ch off sz i = None) \<Longrightarrow>
    first_merge ch off sz (is @ js) = first_merge ch off sz js"
  by (induction "is") simp_all

lemma merge_block_None:
  "u64 (fb_end (tc_free_blocks ch ! i)) \<noteq> off \<Longrightarrow> u64 (off + sz) \<noteq> fb_offset (tc_free_blocks ch ! i) \<Longrightarrow>
    merge_block ch off sz i = None"
  by (simp add: merge_block_def Let_def)

lemma upt_split: "n < m \<Longrightarrow> [0..<m] = [0..<n] @ n # [Suc n..<m]"
  by (metis le_add1 le_add_same_cancel1 less_imp_le_nat upt_add_eq_append upt_conv_Cons le_add_diff_inverse)

lemma insert_pos_split:
  "\<forall>x \<in> set xs. fb_offset x < off \<Longrightarrow> \<forall>y \<in> set ys. off \<le> fb_offset y \<Longrightarrow> insert_pos (xs @ ys) off = length xs"
  by (induction xs) (cases ys, auto)

lemma release_list:
  assumes bs: "tc_free_blocks ch = xs @ ys" and fl: "free_list a (xs @ ys)"
    and x: "\<forall>x \<in> set xs. fb_end x \<le> off" and y: "\<forall>y \<in> set ys. off + sz \<le> fb_offset y"
    and r: "0 \<le> off" "0 < sz" "off + sz \<le> SIZE_MAX div 2"
  shows "(case first_merge ch off sz [0..<length (tc_free_blocks ch)] of Some c \<Rightarrow> Some c
      | None \<Rightarrow> ggml_dyn_tallocr_insert_block ch off sz) =
    (if (xs \<noteq> [] \<and> fb_end (last xs) = off) \<or> (ys \<noteq> [] \<and> off + sz = fb_offset (hd ys)) \<or> length (xs @ ys) < MAX_FREE_BLOCKS
     then Some (ch\<lparr> tc_free_blocks := put_back xs off sz ys \<rparr>) else None)"
proof -
  have ok: "\<forall>b \<in> set (xs @ ys). block_ok a b" using fl by (simp add: free_list_def)
  have uo: "u64 (off + sz) = off + sz" using r by (auto simp: SIZE_MAX_def intro!: u64_id)
  have ue: "u64 (fb_end b) = fb_end b" if "b \<in> set (xs @ ys)" for b using ok that block_ok_u64 by blast
  have pos: "0 < fb_size b" if "b \<in> set (xs @ ys)" for b using ok that by (simp add: block_ok_def)
  have none_x: "merge_block ch off sz i = None" if i: "i < length xs" and e: "fb_end (xs ! i) \<noteq> off" for i
  proof (rule merge_block_None)
    have m: "xs ! i \<in> set (xs @ ys)" "tc_free_blocks ch ! i = xs ! i" using i by (simp_all add: bs nth_append)
    then show "u64 (fb_end (tc_free_blocks ch ! i)) \<noteq> off" using e ue by simp
    have "fb_end (xs ! i) \<le> off" using x i by simp
    then show "u64 (off + sz) \<noteq> fb_offset (tc_free_blocks ch ! i)" using pos [OF m(1)] m(2) uo r(2) by simp
  qed
  have none_y: "merge_block ch off sz (length xs + j) = None" if j: "j < length ys" and e: "off + sz \<noteq> fb_offset (ys ! j)" for j
  proof (rule merge_block_None)
    have m: "ys ! j \<in> set (xs @ ys)" "tc_free_blocks ch ! (length xs + j) = ys ! j" using j by (simp_all add: bs)
    have "off + sz \<le> fb_offset (ys ! j)" using y j by simp
    then show "u64 (fb_end (tc_free_blocks ch ! (length xs + j))) \<noteq> off" using ue [OF m(1)] m(2) pos [OF m(1)] r(2) by simp
    show "u64 (off + sz) \<noteq> fb_offset (tc_free_blocks ch ! (length xs + j))" using e m(2) uo by simp
  qed
  have fl1: "free_list a xs" "free_list a ys" using fl by (simp_all add: free_list_append)
  have inner: "fb_end (xs ! i) \<noteq> off" if i: "Suc i < length xs" for i
  proof -
    have "fb_end (xs ! i) < fb_offset (xs ! Suc i)"
      using fl1 i by (simp add: free_list_def sorted_wrt_iff_nth_less)
    moreover have "xs ! Suc i \<in> set xs" using i by simp
    ultimately show ?thesis using x pos [of "xs ! Suc i"] by fastforce
  qed
  have later: "off + sz \<noteq> fb_offset (ys ! Suc j)" if j: "Suc j < length ys" for j
  proof -
    have "fb_end (ys ! j) < fb_offset (ys ! Suc j)"
      using fl1 j by (simp add: free_list_def sorted_wrt_iff_nth_less)
    moreover have "ys ! j \<in> set ys" using j by simp
    ultimately show ?thesis using y pos [of "ys ! j"] by fastforce
  qed
  consider (left) "xs \<noteq> []" "fb_end (last xs) = off"
    | (right) "\<not> (xs \<noteq> [] \<and> fb_end (last xs) = off)" "ys \<noteq> []" "off + sz = fb_offset (hd ys)"
    | (new) "\<not> (xs \<noteq> [] \<and> fb_end (last xs) = off)" "\<not> (ys \<noteq> [] \<and> off + sz = fb_offset (hd ys))" by blast
  then show ?thesis
  proof cases
    case left
    then obtain zs l where z: "xs = zs @ [l]" "fb_end l = off" by (cases xs rule: rev_cases) auto
    have skip: "merge_block ch off sz i = None" if "i \<in> set [0..<length zs]" for i
      using none_x [of i] inner [of i] that by (simp add: z(1))
    have at: "tc_free_blocks ch ! length zs = l" "tc_free_blocks ch = zs @ l # ys" by (simp_all add: bs z(1))
    have u1: "u64 (fb_end l) = off" using ue [of l] z by simp
    have lb: "0 \<le> fb_offset l" "0 < fb_size l" using ok by (simp_all add: z(1) block_ok_def)
    have h: "off + sz \<le> 9223372036854775807" using r by (simp add: SIZE_MAX_def)
    have e1: "fb_offset l + (fb_size l + sz) = off + sz" using z(2) by simp
    have u0: "u64 off = off" using h r by (intro u64_id) linarith+
    have "u64 (fb_size l + sz) = fb_size l + sz" using lb h z(2) r(2) by (intro u64_id) linarith+
    then have u2: "u64 (fb_size l + sz) = fb_size l + sz" "u64 (fb_offset l + (fb_size l + sz)) = off + sz"
      by (simp_all only: e1 uo)
    have "merge_block ch off sz (length zs) = Some (ch\<lparr> tc_free_blocks := put_back xs off sz ys \<rparr>)"
    proof (cases "ys \<noteq> [] \<and> off + sz = fb_offset (hd ys)")
      case True
      then obtain w ws where w: "ys = w # ws" "off + sz = fb_offset w" by (cases ys) auto
      have "fb_end w \<le> 9223372036854775807" "0 < fb_size w" using ok by (simp_all add: w block_ok_def SIZE_MAX_def)
      moreover have e3: "fb_size l + sz + fb_size w = fb_end w - fb_offset l" using z(2) w(2) by linarith
      ultimately have u3: "u64 (fb_size l + sz + fb_size w) = fb_end w - fb_offset l"
        unfolding e3 using lb r(2) z(2) w(2) by (intro u64_id) linarith+
      show ?thesis
        by (simp add: merge_block_def Let_def at u0 u1 u2 w u3 put_back_def z ggml_dyn_tallocr_remove_block_def
            block_record nth_append list_update_append)
    next
      case False
      have e: "off + sz - fb_offset l = fb_size l + sz" using z(2) by simp
      show ?thesis
        using False by (cases ys)
          (simp_all add: merge_block_def Let_def at u0 u1 u2 put_back_def z block_record nth_append list_update_append e)
    qed
    moreover have "[0..<length (tc_free_blocks ch)] = [0..<length zs] @ length zs # [Suc (length zs)..<length (tc_free_blocks ch)]"
      by (rule upt_split) (simp add: at(2))
    ultimately have "first_merge ch off sz [0..<length (tc_free_blocks ch)] = Some (ch\<lparr> tc_free_blocks := put_back xs off sz ys \<rparr>)"
      using first_merge_skip [of "[0..<length zs]", OF skip] by simp
    then show ?thesis using left by simp
  next
    case right
    then obtain w ws where w: "ys = w # ws" "off + sz = fb_offset w" by (cases ys) auto
    have nl: "fb_end (xs ! i) \<noteq> off" if "i < length xs" for i
    proof (cases "Suc i < length xs")
      case False
      then have "i = length xs - 1" "xs \<noteq> []" using that by auto
      then show ?thesis using right(1) by (simp add: last_conv_nth)
    qed (rule inner)
    have skip: "merge_block ch off sz i = None" if "i \<in> set [0..<length xs]" for i
      using none_x [of i] nl that by simp
    have at: "tc_free_blocks ch = xs @ w # ws" by (simp add: bs w)
    have u1: "u64 (fb_end w) \<noteq> off" using ue [of w] w pos [of w] r(2) by simp
    have "fb_end w \<le> 9223372036854775807" "0 < fb_size w" using ok by (simp_all add: w block_ok_def SIZE_MAX_def)
    moreover have e: "fb_size w + sz = fb_end w - off" using w(2) by linarith
    ultimately have u2: "u64 (fb_size w + sz) = fb_end w - off"
      unfolding e using r w(2) by (intro u64_id) linarith+
    have uw: "u64 (fb_offset w) = fb_offset w" using uo w(2) by simp
    have prev: "\<not> (0 < length xs \<and> u64 (fb_end ((xs @ w # ws) ! (length xs - 1))) = off)"
    proof
      assume a: "0 < length xs \<and> u64 (fb_end ((xs @ w # ws) ! (length xs - 1))) = off"
      then have "(xs @ w # ws) ! (length xs - 1) = last xs" "last xs \<in> set (xs @ ys)"
        by (simp_all add: nth_append last_conv_nth)
      then show False using a ue right(1) by auto
    qed
    have "merge_block ch off sz (length xs) = Some (ch\<lparr> tc_free_blocks := put_back xs off sz ys \<rparr>)"
      using right(1) prev
      by (cases "xs = []") (auto simp: merge_block_def Let_def at u1 u2 uw w put_back_def list_update_append)
    moreover have "[0..<length (tc_free_blocks ch)] = [0..<length xs] @ length xs # [Suc (length xs)..<length (tc_free_blocks ch)]"
      by (rule upt_split) (simp add: at)
    ultimately have "first_merge ch off sz [0..<length (tc_free_blocks ch)] = Some (ch\<lparr> tc_free_blocks := put_back xs off sz ys \<rparr>)"
      using first_merge_skip [of "[0..<length xs]", OF skip] by simp
    then show ?thesis using right by simp
  next
    case new
    have nl: "fb_end (xs ! i) \<noteq> off" if "i < length xs" for i
    proof (cases "Suc i < length xs")
      case False
      then have "i = length xs - 1" "xs \<noteq> []" using that by auto
      then show ?thesis using new(1) by (simp add: last_conv_nth)
    qed (rule inner)
    have nr: "off + sz \<noteq> fb_offset (ys ! j)" if "j < length ys" for j
      using later [of "j - 1"] new(2) that by (cases j) (auto simp: hd_conv_nth)
    have "merge_block ch off sz i = None" if "i \<in> set [0..<length (tc_free_blocks ch)]" for i
    proof (cases "i < length xs")
      case True
      then show ?thesis using none_x nl by simp
    next
      case False
      then show ?thesis using none_y [of "i - length xs"] nr that by (simp add: bs)
    qed
    then have "first_merge ch off sz [0..<length (tc_free_blocks ch)] = None"
      using first_merge_skip [of "[0..<length (tc_free_blocks ch)]" ch off sz "[]"] by simp
    moreover have "insert_pos (xs @ ys) off = length xs"
      using x y pos r(2) by (intro insert_pos_split) fastforce+
    ultimately show ?thesis
      using new by (auto simp: ggml_dyn_tallocr_insert_block_def Let_def bs put_back_def)
  qed
qed

section \<open>The searches\<close>

definition fits :: "tallocr_chunk list \<Rightarrow> int \<Rightarrow> int \<Rightarrow> int \<Rightarrow> bool" where
  "fits chunks sz c i \<longleftrightarrow> 0 \<le> c \<and> nat c < length chunks \<and> 0 \<le> i \<and>
     nat i < length (tc_free_blocks (chunks ! nat c)) \<and> sz \<le> fb_size (tc_free_blocks (chunks ! nat c) ! nat i)"

definition found :: "tallocr_chunk list \<Rightarrow> int \<Rightarrow> int \<times> int \<Rightarrow> bool" where
  "found chunks sz r \<longleftrightarrow> r = (-1, -1) \<or> fits chunks sz (fst r) (snd r)"

lemma foundD: "found chunks sz (c, i) \<Longrightarrow> i \<noteq> -1 \<Longrightarrow> fits chunks sz c i"
  by (simp add: found_def)

lemma find_fit_found: "found chunks sz (find_fit sz chunks)"
  unfolding find_fit_def
proof (rule fold_invariant [where Q = "\<lambda>(c, ch). c < length chunks \<and> chunks ! c = ch"])
  show "case x of (c, ch) \<Rightarrow> c < length chunks \<and> chunks ! c = ch" if "x \<in> set (enumerate 0 chunks)" for x
    using that by (auto simp: in_set_enumerate_eq)
  show "found chunks sz (-1, -1)" by (simp add: found_def)
  fix x r assume "case x of (c, ch) \<Rightarrow> c < length chunks \<and> chunks ! c = ch" and r: "found chunks sz r"
  then obtain c ch where x: "x = (c, ch)" "c < length chunks" "chunks ! c = ch" by (cases x) auto
  let ?st = "fold (fit_block sz (int c)) (enumerate 0 (butlast (tc_free_blocks ch))) (fst r, snd r, SIZE_MAX)"
  have "found chunks sz (fst ?st, fst (snd ?st))"
  proof (rule fold_invariant [where Q = "\<lambda>(i, b). i < length (tc_free_blocks ch) \<and> tc_free_blocks ch ! i = b"])
    show "case y of (i, b) \<Rightarrow> i < length (tc_free_blocks ch) \<and> tc_free_blocks ch ! i = b"
      if "y \<in> set (enumerate 0 (butlast (tc_free_blocks ch)))" for y
      using that by (auto simp: in_set_enumerate_eq nth_butlast)
    show "found chunks sz (fst (fst r, snd r, SIZE_MAX), fst (snd (fst r, snd r, SIZE_MAX)))" using r by simp
    fix y and st :: "int \<times> int \<times> int"
    assume "case y of (i, b) \<Rightarrow> i < length (tc_free_blocks ch) \<and> tc_free_blocks ch ! i = b"
      "found chunks sz (fst st, fst (snd st))"
    then show "found chunks sz (fst (fit_block sz (int c) y st), fst (snd (fit_block sz (int c) y st)))"
      using x by (cases y; cases st) (auto simp: fit_block_def found_def fits_def)
  qed
  then show "found chunks sz (fit_chunk sz x r)" by (simp add: fit_chunk_def x(1) split_beta)
qed

lemma fit_last_found:
  assumes "c < length chunks" "found chunks sz (fst st, fst (snd st))"
  shows "found chunks sz (fst (fit_last sz (c, chunks ! c) st), fst (snd (fit_last sz (c, chunks ! c) st)))"
proof (cases "tc_free_blocks (chunks ! c)" rule: rev_cases)
  case Nil
  then show ?thesis using assms(2) by (cases st) (simp add: fit_last_def)
next
  case (snoc bs b)
  then show ?thesis using assms by (cases st) (auto simp: fit_last_def Let_def found_def fits_def nth_append)
qed

lemma find_last_found:
  assumes "found chunks sz r"
  shows "found chunks sz (find_last sz chunks r)"
proof -
  let ?st = "fold (fit_last sz) (enumerate 0 chunks) (fst r, snd r, - (2 ^ 63))"
  have "found chunks sz (fst ?st, fst (snd ?st))"
  proof (rule fold_invariant [where Q = "\<lambda>(c, ch). c < length chunks \<and> chunks ! c = ch"])
    show "case x of (c, ch) \<Rightarrow> c < length chunks \<and> chunks ! c = ch" if "x \<in> set (enumerate 0 chunks)" for x
      using that by (auto simp: in_set_enumerate_eq)
    show "found chunks sz (fst (fst r, snd r, - (2 ^ 63)), fst (snd (fst r, snd r, - (2 ^ 63))))" using assms by simp
    fix x and st :: "int \<times> int \<times> int"
    assume "case x of (c, ch) \<Rightarrow> c < length chunks \<and> chunks ! c = ch" "found chunks sz (fst st, fst (snd st))"
    then show "found chunks sz (fst (fit_last sz x st), fst (snd (fit_last sz x st)))"
      using fit_last_found [of "fst x" chunks sz st] by (cases x) auto
  qed
  then show ?thesis by (simp add: find_last_def split_beta)
qed

section \<open>The allocator\<close>

definition padded :: "int \<Rightarrow> int \<Rightarrow> int" where
  "padded a n = (n + a - 1) div a * a"

lemma padded_bounds:
  assumes "0 < a" "0 \<le> n"
  shows "n \<le> padded a n" "padded a n < n + a" "padded a n mod a = 0"
proof -
  have e: "padded a n = (n + a - 1) - (n + a - 1) mod a" by (simp add: padded_def minus_mod_eq_div_mult)
  have "0 \<le> (n + a - 1) mod a" "(n + a - 1) mod a < a" using assms(1) by simp_all
  then show "n \<le> padded a n" "padded a n < n + a" unfolding e by linarith+
  show "padded a n mod a = 0" by (simp add: padded_def)
qed

lemma aligned_offset_padded:
  assumes "0 < a" "a \<le> SIZE_MAX div 2" "0 \<le> n" "padded a n \<le> SIZE_MAX div 2"
  shows "aligned_offset NULL n a = Some (padded a n)"
proof -
  have h: "SIZE_MAX div 2 = 9223372036854775807" by (simp add: SIZE_MAX_def)
  note p = padded_bounds [OF assms(1,3)]
  have n: "u64 n = n" using p(1) assms by (intro u64_id) (simp_all add: h)
  let ?r = "n mod a"
  have r: "0 \<le> ?r" "?r < a" using assms(1) by simp_all
  have "u64 (a - ?r) = a - ?r" using r assms(2) by (intro u64_id) (simp_all add: h)
  moreover have "n + (a - ?r) mod a = padded a n"
  proof (cases "?r = 0")
    case True
    then obtain k where k: "n = a * k" by auto
    have "(a * k + (a - 1)) div a = k" using assms(1) by simp
    then show ?thesis using k by (simp add: padded_def algebra_simps)
  next
    case False
    then have m: "(a - ?r) mod a = a - ?r" using r by (intro mod_pos_pos_trivial) auto
    have "n + (a - ?r) = (n div a + 1) * a" by (simp add: algebra_simps minus_mod_eq_mult_div)
    moreover have "(n + a - 1) div a = n div a + 1"
    proof -
      have "n + a - 1 = a * (n div a + 1) + (?r - 1)" by (simp add: algebra_simps)
      moreover have "(a * (n div a + 1) + (?r - 1)) div a = n div a + 1"
      proof -
        have "(?r - 1) div a = 0" using False r by (intro div_pos_pos_trivial) linarith+
        then show ?thesis using assms(1) by simp
      qed
      ultimately show ?thesis by (simp only:)
    qed
    ultimately show ?thesis by (simp only: m padded_def)
  qed
  moreover have "u64 (padded a n) = padded a n" using p(1) assms(3,4) by (intro u64_id) (simp_all add: h)
  ultimately show ?thesis using assms(1) by (simp add: aligned_offset_def n Let_def)
qed

definition chunk_ok :: "int \<Rightarrow> tallocr_chunk \<Rightarrow> bool" where
  "chunk_ok a ch \<longleftrightarrow> free_list a (tc_free_blocks ch) \<and> 0 \<le> tc_max_size ch \<and> length (tc_free_blocks ch) \<le> MAX_FREE_BLOCKS"

definition dyn_ok :: "ggml_dyn_tallocr \<Rightarrow> bool" where
  "dyn_ok al \<longleftrightarrow> 0 < da_alignment al \<and> da_alignment al \<le> SIZE_MAX div 2 \<and>
     0 \<le> da_max_chunk_size al \<and> da_max_chunk_size al \<le> SIZE_MAX div 2 \<and>
     length (da_chunks al) \<le> GGML_VBUFFER_MAX_CHUNKS \<and> (\<forall>ch \<in> set (da_chunks al). chunk_ok (da_alignment al) ch)"

text \<open>The bytes that can still be handed out, the chunks to come included, and the bytes of a range.\<close>

definition avail :: "ggml_dyn_tallocr \<Rightarrow> (int \<times> int) set" where
  "avail al = {(c, x). 0 \<le> c \<and> (nat c < length (da_chunks al) \<longrightarrow> x \<in> bytes (tc_free_blocks (da_chunks al ! nat c)))}"

definition cells :: "buffer_address \<Rightarrow> int \<Rightarrow> (int \<times> int) set" where
  "cells addr n = {(c, x). c = ba_chunk addr \<and> ba_offset addr \<le> x \<and> x < ba_offset addr + n}"

definition in_range :: "ggml_dyn_tallocr \<Rightarrow> buffer_address \<Rightarrow> int \<Rightarrow> bool" where
  "in_range al addr n \<longleftrightarrow> 0 \<le> ba_chunk addr \<and> nat (ba_chunk addr) < length (da_chunks al) \<and>
     0 \<le> ba_offset addr \<and> ba_offset addr mod da_alignment al = 0 \<and>
     ba_offset addr + n \<le> ggml_dyn_tallocr_max_size al (ba_chunk addr) \<and> ba_offset addr + n \<le> SIZE_MAX div 2"

definition grown :: "ggml_dyn_tallocr \<Rightarrow> ggml_dyn_tallocr \<Rightarrow> bool" where
  "grown al al' \<longleftrightarrow> da_alignment al' = da_alignment al \<and> da_max_chunk_size al' = da_max_chunk_size al \<and>
     length (da_chunks al) \<le> length (da_chunks al') \<and>
     (\<forall>c. 0 \<le> c \<and> c < int (length (da_chunks al)) \<longrightarrow> ggml_dyn_tallocr_max_size al c \<le> ggml_dyn_tallocr_max_size al' c)"

lemma in_range_grown: "in_range al addr n \<Longrightarrow> grown al al' \<Longrightarrow> in_range al' addr n"
  unfolding in_range_def grown_def by (auto simp: nat_less_iff)

lemma new_chunk_ok:
  assumes ok: "dyn_ok al" and n: "length (da_chunks al) < GGML_VBUFFER_MAX_CHUNKS"
    and sz: "0 < sz" "sz \<le> SIZE_MAX div 2"
  shows "\<exists>al'. ggml_dyn_tallocr_new_chunk al sz = (int (length (da_chunks al)), al') \<and> dyn_ok al' \<and> grown al al' \<and>
    avail al' \<subseteq> avail al \<and> fits (da_chunks al') sz (int (length (da_chunks al))) 0"
proof -
  let ?n = "length (da_chunks al)"
  define s where "s = (if ?n = GGML_VBUFFER_MAX_CHUNKS - 1 then SIZE_MAX div 2 else max sz (da_max_chunk_size al))"
  let ?ch = "\<lparr> tc_free_blocks = [\<lparr> fb_offset = 0, fb_size = s \<rparr>], tc_max_size = 0 \<rparr>"
  let ?al = "al\<lparr> da_chunks := da_chunks al @ [?ch] \<rparr>"
  have s: "sz \<le> s" "0 < s" "s \<le> SIZE_MAX div 2" using ok sz by (auto simp: s_def dyn_ok_def)
  have "ggml_dyn_tallocr_new_chunk al sz = (int ?n, ?al)"
    using n by (simp add: ggml_dyn_tallocr_new_chunk_def Let_def s_def)
  moreover have "dyn_ok ?al"
    using ok n s by (auto simp: dyn_ok_def chunk_ok_def free_list_Cons block_ok_def MAX_FREE_BLOCKS_def)
  moreover have "grown al ?al" by (auto simp: grown_def ggml_dyn_tallocr_max_size_def nth_append nat_less_iff)
  moreover have "avail ?al \<subseteq> avail al" by (auto simp: avail_def nth_append split: if_splits)
  moreover have "fits (da_chunks ?al) sz (int ?n) 0" using s by (simp add: fits_def)
  ultimately show ?thesis by blast
qed

lemma cut_block:
  assumes ok: "dyn_ok al" and f: "fits (da_chunks al) sz c i" and sz: "0 < sz" "sz mod da_alignment al = 0"
  shows "let ch = da_chunks al ! nat c; addr = \<lparr> ba_chunk = c, ba_offset = fb_offset (tc_free_blocks ch ! nat i) \<rparr>;
      al' = al\<lparr> da_chunks := (da_chunks al)[nat c := take_front ch (nat i) sz] \<rparr> in
    dyn_ok al' \<and> grown al al' \<and> cells addr sz \<subseteq> avail al \<and> avail al' = avail al - cells addr sz \<and> in_range al' addr sz"
proof -
  let ?ch = "da_chunks al ! nat c"
  let ?o = "fb_offset (tc_free_blocks ?ch ! nat i)"
  let ?al = "al\<lparr> da_chunks := (da_chunks al)[nat c := take_front ?ch (nat i) sz] \<rparr>"
  have c: "0 \<le> c" "nat c < length (da_chunks al)" "nat i < length (tc_free_blocks ?ch)"
    "sz \<le> fb_size (tc_free_blocks ?ch ! nat i)" using f by (simp_all add: fits_def)
  have k: "chunk_ok (da_alignment al) ?ch" using ok c(2) by (simp add: dyn_ok_def)
  have t: "free_list (da_alignment al) (tc_free_blocks (take_front ?ch (nat i) sz))"
    "bytes (tc_free_blocks (take_front ?ch (nat i) sz)) = bytes (tc_free_blocks ?ch) - {?o ..< ?o + sz}"
    "{?o ..< ?o + sz} \<subseteq> bytes (tc_free_blocks ?ch)" "0 \<le> ?o" "?o mod da_alignment al = 0" "?o + sz \<le> SIZE_MAX div 2"
    "tc_max_size (take_front ?ch (nat i) sz) = max (tc_max_size ?ch) (?o + sz)"
    "length (tc_free_blocks (take_front ?ch (nat i) sz)) \<le> length (tc_free_blocks ?ch)"
    using take_front_spec [of "da_alignment al" ?ch "nat i" sz] k c sz by (simp_all add: chunk_ok_def Let_def)
  have "chunk_ok (da_alignment al) (take_front ?ch (nat i) sz)"
    using k t(1,7,8) by (auto simp: chunk_ok_def le_max_iff_disj)
  then have "dyn_ok ?al" using ok set_update_subset_insert [of "da_chunks al" "nat c"] by (fastforce simp: dyn_ok_def)
  moreover have mx: "ggml_dyn_tallocr_max_size ?al x = (if x = c then max (tc_max_size ?ch) (?o + sz) else ggml_dyn_tallocr_max_size al x)"
    if "0 \<le> x" for x using c(1,2) t(7) that by (auto simp: ggml_dyn_tallocr_max_size_def nth_list_update)
  moreover have "grown al ?al"
    using c(1,2) t(7) by (auto simp: grown_def ggml_dyn_tallocr_max_size_def nth_list_update)
  moreover have "cells \<lparr> ba_chunk = c, ba_offset = ?o \<rparr> sz \<subseteq> avail al"
    using t(3) c(1) by (auto simp: cells_def avail_def)
  moreover have "avail ?al = avail al - cells \<lparr> ba_chunk = c, ba_offset = ?o \<rparr> sz"
    using t(2) c(1,2) by (auto simp: avail_def cells_def nth_list_update split: if_splits)
  moreover have "in_range ?al \<lparr> ba_chunk = c, ba_offset = ?o \<rparr> sz"
    using c(1,2) t(4-6) mx [OF c(1)] by (simp add: in_range_def)
  ultimately show ?thesis by (simp only: Let_def simp_thms)
qed

lemma alloc_cases:
  assumes r: "ggml_dyn_tallocr_alloc al sz = Some (addr, al')" and ao: "aligned_offset NULL sz (da_alignment al) = Some n"
  obtains c i al1 where "c \<noteq> -1" "(found (da_chunks al) n (c, i) \<and> i \<noteq> -1 \<and> al1 = al) \<or>
      (ggml_dyn_tallocr_new_chunk al n = (c, al1) \<and> i = 0)"
    "addr = \<lparr> ba_chunk = c, ba_offset = fb_offset (tc_free_blocks (da_chunks al1 ! nat c) ! nat i) \<rparr>"
    "al' = al1\<lparr> da_chunks := (da_chunks al1)[nat c := take_front (da_chunks al1 ! nat c) (nat i) n] \<rparr>"
proof -
  obtain c0 i0 where f0: "find_fit n (da_chunks al) = (c0, i0)" by fastforce
  obtain c1 i1 where f1: "(if i0 = -1 then find_last n (da_chunks al) (c0, i0) else (c0, i0)) = (c1, i1)" by fastforce
  obtain c2 al2 where f2: "ggml_dyn_tallocr_new_chunk al n = (c2, al2)" by fastforce
  have fd: "found (da_chunks al) n (c1, i1)"
    using find_fit_found [of "da_chunks al" n] find_last_found [of "da_chunks al" n "(c0, i0)"] f0 f1 by (auto split: if_splits)
  show thesis
  proof (cases "i1 = -1")
    case False
    then show thesis
      using that [of c1 i1 al] r fd by (simp add: ggml_dyn_tallocr_alloc_def ao f0 f1 f2 Let_def split: if_splits)
  next
    case True
    then show thesis
      using that [of c2 0 al2] r f2 by (simp add: ggml_dyn_tallocr_alloc_def ao f0 f1 Let_def split: if_splits)
  qed
qed

lemma alloc_spec:
  assumes ok: "dyn_ok al" and sz: "0 < sz" "padded (da_alignment al) sz \<le> SIZE_MAX div 2"
    and r: "ggml_dyn_tallocr_alloc al sz = Some (addr, al')"
  shows "dyn_ok al' \<and> grown al al' \<and> cells addr (padded (da_alignment al) sz) \<subseteq> avail al \<and>
    avail al' \<subseteq> avail al - cells addr (padded (da_alignment al) sz) \<and> in_range al' addr (padded (da_alignment al) sz)"
proof -
  let ?n = "padded (da_alignment al) sz"
  have a: "0 < da_alignment al" "da_alignment al \<le> SIZE_MAX div 2" using ok by (simp_all add: dyn_ok_def)
  have p: "0 < ?n" "?n mod da_alignment al = 0" using padded_bounds [of "da_alignment al" sz] a sz by simp_all
  have ao: "aligned_offset NULL sz (da_alignment al) = Some ?n"
    by (rule aligned_offset_padded) (use a sz in simp_all)
  obtain c i al1 where ci: "c \<noteq> -1" "(found (da_chunks al) ?n (c, i) \<and> i \<noteq> -1 \<and> al1 = al) \<or>
      (ggml_dyn_tallocr_new_chunk al ?n = (c, al1) \<and> i = 0)"
    and res: "addr = \<lparr> ba_chunk = c, ba_offset = fb_offset (tc_free_blocks (da_chunks al1 ! nat c) ! nat i) \<rparr>"
      "al' = al1\<lparr> da_chunks := (da_chunks al1)[nat c := take_front (da_chunks al1 ! nat c) (nat i) ?n] \<rparr>"
    by (rule alloc_cases [OF r ao])
  have s: "dyn_ok al1" "grown al al1" "avail al1 \<subseteq> avail al" "fits (da_chunks al1) ?n c i"
  proof -
    have "dyn_ok al1 \<and> grown al al1 \<and> avail al1 \<subseteq> avail al \<and> fits (da_chunks al1) ?n c i"
      using ci(2)
    proof
      assume "found (da_chunks al) ?n (c, i) \<and> i \<noteq> -1 \<and> al1 = al"
      then show ?thesis using ok foundD by (auto simp: grown_def)
    next
      assume n: "ggml_dyn_tallocr_new_chunk al ?n = (c, al1) \<and> i = 0"
      then have "length (da_chunks al) < GGML_VBUFFER_MAX_CHUNKS"
        using ci(1) by (auto simp: ggml_dyn_tallocr_new_chunk_def Let_def split: if_splits)
      from new_chunk_ok [OF ok this p(1) sz(2)] n show ?thesis by auto
    qed
    then show "dyn_ok al1" "grown al al1" "avail al1 \<subseteq> avail al" "fits (da_chunks al1) ?n c i" by simp_all
  qed
  have p1: "?n mod da_alignment al1 = 0" using s(2) p(2) by (simp add: grown_def)
  have g: "grown al al'" if "grown al1 al'"
    using s(2) that unfolding grown_def by (auto intro: order_trans)
  show ?thesis using cut_block [OF s(1,4) p(1) p1] s(3) res g by (auto simp: Let_def)
qed

lemma put_back_length:
  "length (put_back xs off sz ys) + (if xs \<noteq> [] \<and> fb_end (last xs) = off then 1 else 0) +
    (if ys \<noteq> [] \<and> off + sz = fb_offset (hd ys) then 1 else 0) = Suc (length xs + length ys)"
  by (cases xs; cases ys) (simp_all add: put_back_def Let_def)

lemma release_spec:
  assumes ok: "dyn_ok al" and sz: "0 < sz" "padded (da_alignment al) sz \<le> SIZE_MAX div 2"
    and rg: "in_range al addr (padded (da_alignment al) sz)"
    and used: "cells addr (padded (da_alignment al) sz) \<inter> avail al = {}"
  shows "ggml_dyn_tallocr_free_bytes al addr sz = Some al' \<Longrightarrow>
      dyn_ok al' \<and> grown al al' \<and> length (da_chunks al') = length (da_chunks al) \<and>
      avail al' = avail al \<union> cells addr (padded (da_alignment al) sz)"
    and "length (tc_free_blocks (da_chunks al ! nat (ba_chunk addr))) < MAX_FREE_BLOCKS \<or>
        (\<exists>b \<in> set (tc_free_blocks (da_chunks al ! nat (ba_chunk addr))).
          fb_offset b = ba_offset addr + padded (da_alignment al) sz) \<Longrightarrow>
      \<exists>al'. ggml_dyn_tallocr_free_bytes al addr sz = Some al'"
proof -
  let ?n = "padded (da_alignment al) sz" and ?c = "nat (ba_chunk addr)" and ?off = "ba_offset addr"
  let ?ch = "da_chunks al ! ?c"
  have a: "0 < da_alignment al" "da_alignment al \<le> SIZE_MAX div 2" using ok by (simp_all add: dyn_ok_def)
  have p: "0 < ?n" using padded_bounds(1) [of "da_alignment al" sz] a sz by simp
  have ao: "aligned_offset NULL sz (da_alignment al) = Some ?n"
    by (rule aligned_offset_padded) (use a sz in simp_all)
  have c: "0 \<le> ba_chunk addr" "?c < length (da_chunks al)" "0 \<le> ?off" "?off mod da_alignment al = 0" "?off + ?n \<le> SIZE_MAX div 2"
    using rg by (simp_all add: in_range_def)
  have k: "chunk_ok (da_alignment al) ?ch" using ok c(2) by (simp add: dyn_ok_def)
  then have fl: "free_list (da_alignment al) (tc_free_blocks ?ch)" by (simp add: chunk_ok_def)
  have d: "{?off ..< ?off + ?n} \<inter> bytes (tc_free_blocks ?ch) = {}"
  proof -
    have "x \<notin> bytes (tc_free_blocks ?ch)" if "x \<in> {?off ..< ?off + ?n}" for x
    proof
      assume "x \<in> bytes (tc_free_blocks ?ch)"
      then have "(ba_chunk addr, x) \<in> cells addr ?n \<inter> avail al" using that c(1) by (simp add: cells_def avail_def)
      then show False using used by blast
    qed
    then show ?thesis by blast
  qed
  obtain xs ys where xy: "tc_free_blocks ?ch = xs @ ys" "\<forall>x \<in> set xs. fb_end x \<le> ?off" "\<forall>y \<in> set ys. ?off + ?n \<le> fb_offset y"
    by (rule split_at_range [OF fl d p])
  let ?ch' = "?ch\<lparr> tc_free_blocks := put_back xs ?off ?n ys \<rparr>"
  have res: "ggml_dyn_tallocr_free_bytes al addr sz =
     (if (xs \<noteq> [] \<and> fb_end (last xs) = ?off) \<or> (ys \<noteq> [] \<and> ?off + ?n = fb_offset (hd ys)) \<or> length (xs @ ys) < MAX_FREE_BLOCKS
      then Some (al\<lparr> da_chunks := (da_chunks al)[?c := ?ch'] \<rparr>) else None)"
    using release_list [OF xy(1) fl [unfolded xy(1)] xy(2,3) c(3) p c(5)] c(1,2)
    by (simp add: ggml_dyn_tallocr_free_bytes_def ao Let_def)
  have touch: "ys \<noteq> [] \<and> ?off + ?n = fb_offset (hd ys)" if b: "b \<in> set (tc_free_blocks ?ch)" "fb_offset b = ?off + ?n" for b
  proof -
    have "block_ok (da_alignment al) b" using fl b(1) by (simp add: free_list_def)
    then have "b \<notin> set xs" using xy(2) b(2) p by (fastforce simp: block_ok_def)
    then have "b \<in> set ys" using b(1) xy(1) by simp
    then obtain y zs where ys: "ys = y # zs" "b = y \<or> b \<in> set zs" by (cases ys) auto
    have "free_list (da_alignment al) (y # zs)" using fl by (simp add: xy(1) ys(1) free_list_append)
    then have "b = y" using ys(2) b(2) xy(3) by (fastforce simp: ys(1) free_list_Cons block_ok_def)
    then show ?thesis using ys(1) b(2) by simp
  qed
  show "\<exists>al'. ggml_dyn_tallocr_free_bytes al addr sz = Some al'"
    if "length (tc_free_blocks ?ch) < MAX_FREE_BLOCKS \<or> (\<exists>b \<in> set (tc_free_blocks ?ch). fb_offset b = ?off + ?n)"
    using that res touch xy(1) by (auto split: if_splits)
  assume "ggml_dyn_tallocr_free_bytes al addr sz = Some al'"
  then have r: "al' = al\<lparr> da_chunks := (da_chunks al)[?c := ?ch'] \<rparr>"
    "(xs \<noteq> [] \<and> fb_end (last xs) = ?off) \<or> (ys \<noteq> [] \<and> ?off + ?n = fb_offset (hd ys)) \<or> length (xs @ ys) < MAX_FREE_BLOCKS"
    using res by (auto split: if_splits)
  have f: "free_list (da_alignment al) xs" "free_list (da_alignment al) ys"
    using fl by (simp_all add: xy(1) free_list_append)
  note pb = put_back_spec [OF f(1) xy(2) f(2) xy(3) c(3) p c(5,4)]
  have "length (put_back xs ?off ?n ys) \<le> MAX_FREE_BLOCKS"
    using put_back_length [of xs ?off ?n ys] r(2) k by (auto simp: chunk_ok_def xy(1) split: if_splits)
  then have "chunk_ok (da_alignment al) ?ch'" using pb(1) k by (simp add: chunk_ok_def)
  then have "dyn_ok al'" using ok set_update_subset_insert [of "da_chunks al" ?c] by (fastforce simp: dyn_ok_def r(1))
  moreover have "grown al al'" using c(2) by (auto simp: grown_def r(1) ggml_dyn_tallocr_max_size_def nth_list_update)
  moreover have "avail al' = avail al \<union> cells addr ?n"
    using pb(2) c(1,2) xy(1) by (auto simp: avail_def cells_def r(1) nth_list_update split: if_splits)
  ultimately show "dyn_ok al' \<and> grown al al' \<and> length (da_chunks al') = length (da_chunks al) \<and>
      avail al' = avail al \<union> cells addr ?n" by (simp add: r(1))
qed

section \<open>The contract\<close>

text \<open>
  A client's view: live allocations under keys of its own choice.  A step allocates under a fresh key or
  releases a live one; \<open>valid\<close> are the sizes the allocator accepts.
\<close>

inductive alloc_step for alloc release valid where
  step_alloc: "live k = None \<Longrightarrow> valid s n \<Longrightarrow> alloc s n = Some (a, s') \<Longrightarrow>
    alloc_step alloc release valid (s, live) (s', live(k \<mapsto> (a, n)))"
| step_release: "live k = Some (a, n) \<Longrightarrow> release s a n = Some s' \<Longrightarrow>
    alloc_step alloc release valid (s, live) (s', live(k := None))"

inductive_cases alloc_stepE: "alloc_step alloc release valid (s, live) (s', live')"

locale range_allocator =
  fixes ok :: "'s \<Rightarrow> bool"
    and avl :: "'s \<Rightarrow> (int \<times> int) set"
    and room :: "'s \<Rightarrow> int \<Rightarrow> int"
    and valid :: "'s \<Rightarrow> int \<Rightarrow> bool"
    and holds :: "'s \<Rightarrow> buffer_address \<Rightarrow> int \<Rightarrow> bool"
    and alloc :: "'s \<Rightarrow> int \<Rightarrow> (buffer_address \<times> 's) option"
    and release :: "'s \<Rightarrow> buffer_address \<Rightarrow> int \<Rightarrow> 's option"
  assumes alloc_law: "ok s \<Longrightarrow> valid s n \<Longrightarrow> alloc s n = Some (a, s') \<Longrightarrow>
      ok s' \<and> cells a (room s n) \<subseteq> avl s \<and> avl s' \<subseteq> avl s - cells a (room s n) \<and> holds s' a n"
    and release_law: "ok s \<Longrightarrow> valid s n \<Longrightarrow> holds s a n \<Longrightarrow> cells a (room s n) \<inter> avl s = {} \<Longrightarrow>
      release s a n = Some s' \<Longrightarrow> ok s' \<and> avl s' = avl s \<union> cells a (room s n)"
    and alloc_stable: "ok s \<Longrightarrow> valid s n \<Longrightarrow> alloc s n = Some (a, s') \<Longrightarrow>
      room s' = room s \<and> valid s' = valid s \<and> (\<forall>b m. holds s b m \<longrightarrow> holds s' b m)"
    and release_stable: "ok s \<Longrightarrow> valid s n \<Longrightarrow> holds s a n \<Longrightarrow> cells a (room s n) \<inter> avl s = {} \<Longrightarrow>
      release s a n = Some s' \<Longrightarrow> room s' = room s \<and> valid s' = valid s \<and> (\<forall>b m. holds s b m \<longrightarrow> holds s' b m)"
begin

definition apart :: "'s \<times> (nat \<rightharpoonup> buffer_address \<times> int) \<Rightarrow> bool" where
  "apart = (\<lambda>(s, live). ok s \<and>
     (\<forall>k a n. live k = Some (a, n) \<longrightarrow> valid s n \<and> holds s a n \<and> cells a (room s n) \<inter> avl s = {}) \<and>
     (\<forall>i j a m b n. live i = Some (a, m) \<longrightarrow> live j = Some (b, n) \<longrightarrow> i \<noteq> j \<longrightarrow>
        cells a (room s m) \<inter> cells b (room s n) = {}))"

lemma apart_empty: "ok s \<Longrightarrow> apart (s, \<lambda>_. None)"
  by (simp add: apart_def)

lemma apart_step:
  assumes "alloc_step alloc release valid (s, live) (s', live')" "apart (s, live)"
  shows "apart (s', live')"
  using assms(1)
proof (rule alloc_stepE, goal_cases)
  case (1 k n a)
  have ok: "ok s" and own: "\<And>k a n. live k = Some (a, n) \<Longrightarrow> valid s n \<and> holds s a n \<and> cells a (room s n) \<inter> avl s = {}"
    and two: "\<And>i j a m b n. live i = Some (a, m) \<Longrightarrow> live j = Some (b, n) \<Longrightarrow> i \<noteq> j \<Longrightarrow>
        cells a (room s m) \<inter> cells b (room s n) = {}"
    using assms(2) unfolding apart_def by blast+
  note l = alloc_law [OF ok 1(3,4)] and t = alloc_stable [OF ok 1(3,4)]
  have st: "room s' = room s" "valid s' = valid s" "\<And>b m. holds s b m \<Longrightarrow> holds s' b m" using t by simp_all
  have new: "cells a (room s n) \<inter> cells b (room s m) = {}" if "live j = Some (b, m)" for j b m
    using own [OF that] l by blast
  show ?thesis
    unfolding apart_def prod.case st 1(1)
  proof (intro conjI allI impI)
    show "ok s'" using l by simp
    fix j b m assume "(live(k \<mapsto> (a, n))) j = Some (b, m)"
    then have "j = k \<and> b = a \<and> m = n \<or> live j = Some (b, m)" by (auto split: if_splits)
    then show "valid s m" "holds s' b m" "cells b (room s m) \<inter> avl s' = {}"
      using own [of j b m] l 1(3) st(3) by blast+
  next
    fix i j b m d q assume "(live(k \<mapsto> (a, n))) i = Some (b, m)" "(live(k \<mapsto> (a, n))) j = Some (d, q)" "i \<noteq> j"
    then show "cells b (room s m) \<inter> cells d (room s q) = {}"
      using two [of i b m j d q] new [of i b m] new [of j d q] by (auto split: if_splits)
  qed
next
  case (2 k a n)
  have ok: "ok s" and own: "\<And>k a n. live k = Some (a, n) \<Longrightarrow> valid s n \<and> holds s a n \<and> cells a (room s n) \<inter> avl s = {}"
    and two: "\<And>i j a m b n. live i = Some (a, m) \<Longrightarrow> live j = Some (b, n) \<Longrightarrow> i \<noteq> j \<Longrightarrow>
        cells a (room s m) \<inter> cells b (room s n) = {}"
    using assms(2) unfolding apart_def by blast+
  have o: "valid s n" "holds s a n" "cells a (room s n) \<inter> avl s = {}" using own [OF 2(2)] by simp_all
  note l = release_law [OF ok o 2(3)] and t = release_stable [OF ok o 2(3)]
  have st: "room s' = room s" "valid s' = valid s" "\<And>b m. holds s b m \<Longrightarrow> holds s' b m" using t by simp_all
  show ?thesis
    unfolding apart_def prod.case st 2(1)
  proof (intro conjI allI impI)
    show "ok s'" using l by simp
    fix j b m assume j: "(live(k := None)) j = Some (b, m)"
    then have "j \<noteq> k" "live j = Some (b, m)" by (auto split: if_splits)
    then show "valid s m" "holds s' b m" "cells b (room s m) \<inter> avl s' = {}"
      using own [of j b m] l st(3) two [of j b m k a n] 2(2) by blast+
  next
    fix i j b m d q assume "(live(k := None)) i = Some (b, m)" "(live(k := None)) j = Some (d, q)" "i \<noteq> j"
    then show "cells b (room s m) \<inter> cells d (room s q) = {}"
      using two [of i b m j d q] by (auto split: if_splits)
  qed
qed

lemma apart_run:
  assumes "(alloc_step alloc release valid)\<^sup>*\<^sup>* st st'" "apart st"
  shows "apart st'"
  using assms
proof (induction rule: rtranclp_induct)
  case (step y z)
  then show ?case using apart_step by (cases y; cases z) auto
qed simp

end

definition dyn_valid :: "ggml_dyn_tallocr \<Rightarrow> int \<Rightarrow> bool" where
  "dyn_valid al n \<longleftrightarrow> 0 < n \<and> padded (da_alignment al) n \<le> SIZE_MAX div 2"

interpretation dyn: range_allocator dyn_ok avail "\<lambda>al. padded (da_alignment al)" dyn_valid
  "\<lambda>al a n. in_range al a (padded (da_alignment al) n)" ggml_dyn_tallocr_alloc ggml_dyn_tallocr_free_bytes
proof (unfold_locales, goal_cases)
  case (1 s n a s')
  then have g: "da_alignment s' = da_alignment s" using alloc_spec [of s n a s'] by (simp add: dyn_valid_def grown_def)
  show ?case using alloc_spec [of s n a s'] 1 by (simp add: dyn_valid_def g)
next
  case (2 s n a s')
  then show ?case using release_spec(1) [of s n a s'] by (simp add: dyn_valid_def)
next
  case (3 s n a s')
  then have "grown s s'" using alloc_spec [of s n a s'] by (simp add: dyn_valid_def)
  then show ?case using in_range_grown by (auto simp: grown_def dyn_valid_def fun_eq_iff)
next
  case (4 s n a s')
  then have "grown s s'" using release_spec(1) [of s n a s'] by (simp add: dyn_valid_def)
  then show ?case using in_range_grown by (auto simp: grown_def dyn_valid_def fun_eq_iff)
qed

section \<open>Canonical free lists\<close>

text \<open>Two free lists that describe the same bytes are the same list.\<close>

lemma free_list_first:
  assumes "free_list a (x # xs)" "free_list a ys" "bytes (x # xs) = bytes ys"
  obtains y ys' where "ys = y # ys'" "fb_offset y \<le> fb_offset x" "fb_end x \<notin> bytes ys"
proof -
  have "fb_offset x \<in> bytes (x # xs)" using assms(1) by (simp add: free_list_Cons block_ok_def)
  then have "fb_offset x \<in> bytes ys" by (simp only: assms(3))
  then obtain y ys' where y: "ys = y # ys'" by (cases ys) auto
  have "fb_offset y \<le> z" if "z \<in> bytes ys" for z
    using that assms(2) by (fastforce simp: y free_list_Cons block_ok_def bytes_def)
  then have "fb_offset y \<le> fb_offset x" using \<open>fb_offset x \<in> bytes ys\<close> by blast
  moreover have "fb_end x \<notin> bytes xs"
    using assms(1) by (intro bytes_after [of _ "fb_end x"]) (auto simp: free_list_Cons)
  then have "fb_end x \<notin> bytes (x # xs)" by simp
  then have "fb_end x \<notin> bytes ys" by (simp only: assms(3) not_False_eq_True)
  ultimately show thesis using that y by blast
qed

lemma bytes_tail:
  assumes "free_list a (x # xs)"
  shows "bytes xs = bytes (x # xs) - {fb_offset x ..< fb_end x}"
proof -
  have "z \<notin> bytes xs" if "z < fb_end x" for z
    using assms that by (intro bytes_after [of _ "fb_end x"]) (auto simp: free_list_Cons)
  then show ?thesis by auto
qed

lemma free_list_unique:
  "free_list a xs \<Longrightarrow> free_list a ys \<Longrightarrow> bytes xs = bytes ys \<Longrightarrow> xs = ys"
proof (induction xs arbitrary: ys)
  case Nil
  then show ?case by (cases ys) (auto simp: free_list_Cons block_ok_def)
next
  case (Cons x xs)
  obtain y ys' where y: "ys = y # ys'" "fb_offset y \<le> fb_offset x" "fb_end x \<notin> bytes ys"
    by (rule free_list_first [OF Cons.prems])
  have fy: "free_list a (y # ys')" using Cons.prems(2) y(1) by simp
  have "bytes (y # ys') = bytes (x # xs)" using Cons.prems(3) y(1) by simp
  then obtain x' xs' where x': "x # xs = x' # xs'" "fb_offset x' \<le> fb_offset y" "fb_end y \<notin> bytes (x # xs)"
    by (rule free_list_first [OF fy Cons.prems(1)])
  have o: "fb_offset x = fb_offset y" using y(2) x' by simp
  have pos: "0 < fb_size x" "0 < fb_size y" using Cons.prems(1) fy by (simp_all add: free_list_Cons block_ok_def)
  have "\<not> fb_end x < fb_end y" using y(1,3) o pos by auto
  moreover have "\<not> fb_end y < fb_end x" using x'(3) o pos by auto
  ultimately have e: "x = y" using o by (intro free_block.equality) auto
  have "bytes xs = bytes ys'"
    using bytes_tail [OF Cons.prems(1)] bytes_tail [OF fy] Cons.prems(3) by (simp only: y(1) e)
  then have "xs = ys'" using Cons.IH Cons.prems(1) fy by (simp add: free_list_Cons)
  then show ?case using y(1) e by simp
qed

lemma avail_chunk:
  assumes "c < length (da_chunks al)"
  shows "bytes (tc_free_blocks (da_chunks al ! c)) = {x. (int c, x) \<in> avail al}"
  using assms by (simp add: avail_def)

lemma avail_lists:
  assumes "dyn_ok al" "dyn_ok al'" "avail al = avail al'" "c < length (da_chunks al)" "c < length (da_chunks al')"
    "da_alignment al' = da_alignment al"
  shows "tc_free_blocks (da_chunks al' ! c) = tc_free_blocks (da_chunks al ! c)"
proof (rule free_list_unique)
  show "free_list (da_alignment al) (tc_free_blocks (da_chunks al' ! c))"
    "free_list (da_alignment al) (tc_free_blocks (da_chunks al ! c))"
    using assms nth_mem [OF assms(4)] nth_mem [OF assms(5)] by (simp_all add: dyn_ok_def chunk_ok_def)
  show "bytes (tc_free_blocks (da_chunks al' ! c)) = bytes (tc_free_blocks (da_chunks al ! c))"
    by (simp only: avail_chunk assms(3-5))
qed

lemma take_front_room:
  assumes "i < length (tc_free_blocks ch)" "length (tc_free_blocks ch) \<le> MAX_FREE_BLOCKS"
    "fb_offset (tc_free_blocks ch ! i) + sz \<le> SIZE_MAX div 2" "0 \<le> fb_offset (tc_free_blocks ch ! i)" "0 < sz"
  shows "length (tc_free_blocks (take_front ch i sz)) < MAX_FREE_BLOCKS \<or>
    (\<exists>b \<in> set (tc_free_blocks (take_front ch i sz)). fb_offset b = fb_offset (tc_free_blocks ch ! i) + sz)"
proof -
  let ?b = "tc_free_blocks ch ! i"
  have u: "u64 (fb_offset ?b + sz) = fb_offset ?b + sz" using assms(3-5) by (intro u64_id) (simp_all add: SIZE_MAX_def)
  show ?thesis
  proof (cases "u64 (fb_size ?b - sz) = 0")
    case True
    then show ?thesis using assms(1,2)
      by (intro disjI1) (simp add: take_front_def Let_def ggml_dyn_tallocr_remove_block_def MAX_FREE_BLOCKS_def)
  next
    case False
    then have "\<lparr> fb_offset = fb_offset ?b + sz, fb_size = u64 (fb_size ?b - sz) \<rparr> \<in> set (tc_free_blocks (take_front ch i sz))"
      using assms(1) by (simp add: take_front_def Let_def u set_update_memI)
    then show ?thesis by force
  qed
qed

lemma alloc_then_release:
  assumes ok: "dyn_ok al" and v: "dyn_valid al n" and r: "ggml_dyn_tallocr_alloc al n = Some (addr, al')"
  shows "\<exists>al''. ggml_dyn_tallocr_free_bytes al' addr n = Some al'' \<and> dyn_ok al'' \<and>
    (\<forall>c < length (da_chunks al). tc_free_blocks (da_chunks al'' ! c) = tc_free_blocks (da_chunks al ! c))"
proof -
  let ?n = "padded (da_alignment al) n"
  have sz: "0 < n" "?n \<le> SIZE_MAX div 2" using v by (simp_all add: dyn_valid_def)
  have a: "0 < da_alignment al" "da_alignment al \<le> SIZE_MAX div 2" using ok by (simp_all add: dyn_ok_def)
  have p: "0 < ?n" "?n mod da_alignment al = 0" using padded_bounds [of "da_alignment al" n] a sz by simp_all
  have ao: "aligned_offset NULL n (da_alignment al) = Some ?n"
    by (rule aligned_offset_padded) (use a sz in simp_all)
  obtain c i al1 where ci: "c \<noteq> -1" "(found (da_chunks al) ?n (c, i) \<and> i \<noteq> -1 \<and> al1 = al) \<or>
      (ggml_dyn_tallocr_new_chunk al ?n = (c, al1) \<and> i = 0)"
    and res: "addr = \<lparr> ba_chunk = c, ba_offset = fb_offset (tc_free_blocks (da_chunks al1 ! nat c) ! nat i) \<rparr>"
      "al' = al1\<lparr> da_chunks := (da_chunks al1)[nat c := take_front (da_chunks al1 ! nat c) (nat i) ?n] \<rparr>"
    by (rule alloc_cases [OF r ao])
  have s: "dyn_ok al1 \<and> da_alignment al1 = da_alignment al \<and> fits (da_chunks al1) ?n c i \<and>
    (\<forall>c < length (da_chunks al). c < length (da_chunks al1) \<and> da_chunks al1 ! c = da_chunks al ! c)"
    using ci(2)
  proof
    assume "found (da_chunks al) ?n (c, i) \<and> i \<noteq> -1 \<and> al1 = al"
    then show ?thesis using ok foundD by auto
  next
    assume n: "ggml_dyn_tallocr_new_chunk al ?n = (c, al1) \<and> i = 0"
    then have l: "length (da_chunks al) < GGML_VBUFFER_MAX_CHUNKS"
      using ci(1) by (auto simp: ggml_dyn_tallocr_new_chunk_def Let_def split: if_splits)
    then have "\<exists>ch. da_chunks al1 = da_chunks al @ [ch]" using n by (auto simp: ggml_dyn_tallocr_new_chunk_def Let_def)
    then show ?thesis using new_chunk_ok [OF ok l p(1) sz(2)] n by (auto simp: nth_append grown_def)
  qed
  have fit: "0 \<le> c" "nat c < length (da_chunks al1)" "nat i < length (tc_free_blocks (da_chunks al1 ! nat c))"
    using s by (simp_all add: fits_def)
  have p1: "?n mod da_alignment al1 = 0" using p(2) s by simp
  have f1: "fits (da_chunks al1) ?n c i" and ok1: "dyn_ok al1" using s by simp_all
  have cut: "dyn_ok al'" "cells addr ?n \<subseteq> avail al1" "avail al' = avail al1 - cells addr ?n" "in_range al' addr ?n"
    "da_alignment al' = da_alignment al"
    using cut_block [OF ok1 f1 p(1) p1] s by (simp_all add: Let_def res grown_def)
  have "cells addr ?n \<inter> avail al' = {}" using cut(3) by blast
  note rel = release_spec [of al' n addr, unfolded cut(5), OF cut(1) sz cut(4) this]
  have "length (tc_free_blocks (da_chunks al1 ! nat c)) \<le> MAX_FREE_BLOCKS"
    using ok1 fit(2) by (simp add: dyn_ok_def chunk_ok_def)
  from take_front_room [OF fit(3) this, of ?n]
  have "length (tc_free_blocks (da_chunks al' ! nat c)) < MAX_FREE_BLOCKS \<or>
      (\<exists>b \<in> set (tc_free_blocks (da_chunks al' ! nat c)). fb_offset b = ba_offset addr + ?n)"
    using cut(4) p(1) fit(2) by (simp add: res in_range_def)
  then obtain al'' where r2: "ggml_dyn_tallocr_free_bytes al' addr n = Some al''"
    using rel(2) by (auto simp: res)
  note r3 = rel(1) [OF r2]
  have av: "avail al'' = avail al1" using r3 cut(2,3) by blast
  have "tc_free_blocks (da_chunks al'' ! x) = tc_free_blocks (da_chunks al ! x)" if "x < length (da_chunks al)" for x
  proof -
    have x: "x < length (da_chunks al1)" "da_chunks al1 ! x = da_chunks al ! x" using s that by simp_all
    have "x < length (da_chunks al'')" using r3 x(1) by (simp add: res(2))
    from avail_lists [OF ok1 _ av [symmetric] x(1) this] r3 s cut(5) show ?thesis by (simp add: x(2) grown_def)
  qed
  then show ?thesis using r2 r3 by blast
qed

lemma alloc_total:
  assumes ok: "dyn_ok al" and v: "dyn_valid al n" and room: "length (da_chunks al) < GGML_VBUFFER_MAX_CHUNKS"
  shows "\<exists>addr al'. ggml_dyn_tallocr_alloc al n = Some (addr, al')"
proof -
  let ?n = "padded (da_alignment al) n"
  have a: "0 < da_alignment al" "da_alignment al \<le> SIZE_MAX div 2" "0 < n" "?n \<le> SIZE_MAX div 2"
    using ok v by (simp_all add: dyn_ok_def dyn_valid_def)
  have ao: "aligned_offset NULL n (da_alignment al) = Some ?n"
    by (rule aligned_offset_padded) (use a in simp_all)
  obtain c0 i0 where f0: "find_fit ?n (da_chunks al) = (c0, i0)" by fastforce
  obtain c1 i1 where f1: "(if i0 = -1 then find_last ?n (da_chunks al) (c0, i0) else (c0, i0)) = (c1, i1)" by fastforce
  have fd: "found (da_chunks al) ?n (c1, i1)"
    using find_fit_found [of "da_chunks al" ?n] find_last_found [of "da_chunks al" ?n "(c0, i0)"] f0 f1 by (auto split: if_splits)
  then have "i1 \<noteq> -1 \<Longrightarrow> c1 \<noteq> -1" by (auto simp: found_def fits_def)
  then show ?thesis
    using room by (cases "i1 = -1") (simp_all add: ggml_dyn_tallocr_alloc_def ao f0 f1 Let_def ggml_dyn_tallocr_new_chunk_def)
qed

lemma new_ok:
  assumes "0 < a" "a \<le> SIZE_MAX div 2" "0 \<le> m"
  shows "dyn_ok (ggml_dyn_tallocr_new a m)"
  using assms by (simp add: ggml_dyn_tallocr_new_def ggml_dyn_tallocr_reset_def dyn_ok_def min_def SIZE_MAX_def)

lemma dyn_run_alignment:
  assumes "(alloc_step ggml_dyn_tallocr_alloc ggml_dyn_tallocr_free_bytes dyn_valid)\<^sup>*\<^sup>* st st'" "dyn.apart st"
  shows "da_alignment (fst st') = da_alignment (fst st)"
  using assms
proof (induction rule: rtranclp_induct)
  case (step y z)
  obtain s live s' live' where yz: "y = (s, live)" "z = (s', live')" by (cases y; cases z)
  have ap: "dyn.apart (s, live)" using dyn.apart_run [OF step.hyps(1) step.prems] yz by simp
  have "da_alignment s' = da_alignment s"
    using step.hyps(2) [unfolded yz]
  proof (rule alloc_stepE, goal_cases)
    case (1 k n a)
    then show ?thesis using alloc_spec [of s n a s'] ap by (simp add: dyn.apart_def dyn_valid_def grown_def)
  next
    case (2 k a n)
    then have "dyn_ok s" "dyn_valid s n" "in_range s a (padded (da_alignment s) n)"
      "cells a (padded (da_alignment s) n) \<inter> avail s = {}"
      using ap unfolding dyn.apart_def by auto
    then show ?thesis using release_spec(1) [of s n a s'] 2 by (simp add: dyn_valid_def grown_def)
  qed
  then show ?case using step yz by simp
qed simp

section \<open>Properties\<close>

text \<open>C5: Starting from a new allocator, whatever sequence of allocations and releases succeeds, two live
  allocations never share a byte; each starts at a multiple of the alignment and ends below the maximal size
  that the allocator reports for its chunk, so a buffer of that size holds it.\<close>

theorem live_allocations_disjoint:
  fixes live :: "nat \<rightharpoonup> buffer_address \<times> int"
  assumes "0 < a" "a \<le> SIZE_MAX div 2" "0 \<le> m"
    and "(alloc_step ggml_dyn_tallocr_alloc ggml_dyn_tallocr_free_bytes dyn_valid)\<^sup>*\<^sup>*
      (ggml_dyn_tallocr_new a m, \<lambda>_. None) (al, live)"
    and "live i = Some (x, s)" "live j = Some (y, t)" "i \<noteq> j"
  shows "cells x (padded a s) \<inter> cells y (padded a t) = {} \<and> ba_offset x mod a = 0 \<and>
    ba_offset x + padded a s \<le> ggml_dyn_tallocr_max_size al (ba_chunk x)"
proof -
  have start: "dyn.apart (ggml_dyn_tallocr_new a m, \<lambda>_. None)"
    by (rule dyn.apart_empty [OF new_ok [OF assms(1-3)]])
  have "dyn.apart (al, live)" by (rule dyn.apart_run [OF assms(4) start])
  moreover have al: "da_alignment al = a"
    using dyn_run_alignment [OF assms(4) start] by (simp add: ggml_dyn_tallocr_new_def ggml_dyn_tallocr_reset_def)
  ultimately have "in_range al x (padded a s)" "cells x (padded a s) \<inter> cells y (padded a t) = {}"
    using assms(5-7) unfolding dyn.apart_def by blast+
  then show ?thesis by (simp add: in_range_def al)
qed

definition demo_alloc :: "tallocr_chunk list \<Rightarrow> ggml_dyn_tallocr" where
  "demo_alloc chunks = \<lparr> da_alignment = 32, da_max_chunk_size = 4096, da_chunks = chunks \<rparr>"

definition demo_tail :: "int \<Rightarrow> tallocr_chunk" where
  "demo_tail off = \<lparr> tc_free_blocks = [\<lparr> fb_offset = off, fb_size = 4096 - off \<rparr>], tc_max_size = off \<rparr>"

lemmas dyn_eval = ggml_dyn_tallocr_alloc_def aligned_offset_def find_fit_def find_last_def fit_chunk_def fit_block_def
  fit_last_def take_front_def ggml_dyn_tallocr_new_chunk_def GGML_VBUFFER_MAX_CHUNKS_def Let_def u64_def i64_def
  SIZE_MAX_def ggml_dyn_tallocr_remove_block_def

lemma demo_new: "ggml_dyn_tallocr_new 32 4096 = demo_alloc []"
  by (simp add: ggml_dyn_tallocr_new_def ggml_dyn_tallocr_reset_def demo_alloc_def SIZE_MAX_def)

lemma demo_alloc_1: "ggml_dyn_tallocr_alloc (demo_alloc []) 100 = Some (\<lparr> ba_chunk = 0, ba_offset = 0 \<rparr>, demo_alloc [demo_tail 128])"
  by (simp add: dyn_eval demo_alloc_def demo_tail_def)

lemma demo_alloc_2:
  "ggml_dyn_tallocr_alloc (demo_alloc [demo_tail 128]) 50 = Some (\<lparr> ba_chunk = 0, ba_offset = 128 \<rparr>, demo_alloc [demo_tail 192])"
  by (simp add: dyn_eval demo_alloc_def demo_tail_def)

lemma demo_valid: "dyn_valid (demo_alloc cs) 100" "dyn_valid (demo_alloc cs) 50"
  by (simp_all add: dyn_valid_def demo_alloc_def padded_def SIZE_MAX_def)

theorem live_allocations_disjoint_witness:
  "cells \<lparr> ba_chunk = 0, ba_offset = 0 \<rparr> (padded 32 100) \<inter> cells \<lparr> ba_chunk = 0, ba_offset = 128 \<rparr> (padded 32 50) = {}"
proof -
  let ?step = "alloc_step ggml_dyn_tallocr_alloc ggml_dyn_tallocr_free_bytes dyn_valid"
  let ?x = "\<lparr> ba_chunk = 0, ba_offset = 0 \<rparr>" and ?y = "\<lparr> ba_chunk = 0, ba_offset = 128 \<rparr>"
  have "?step (demo_alloc [], \<lambda>_. None) (demo_alloc [demo_tail 128], [0 :: nat \<mapsto> (?x, 100)])"
    by (rule step_alloc) (simp_all add: demo_valid demo_alloc_1)
  moreover have "?step (demo_alloc [demo_tail 128], [0 :: nat \<mapsto> (?x, 100)])
      (demo_alloc [demo_tail 192], [0 :: nat \<mapsto> (?x, 100), 1 \<mapsto> (?y, 50)])"
    by (rule step_alloc) (simp_all add: demo_valid demo_alloc_2)
  ultimately have "?step\<^sup>*\<^sup>* (ggml_dyn_tallocr_new 32 4096, \<lambda>_. None) (demo_alloc [demo_tail 192], [0 :: nat \<mapsto> (?x, 100), 1 \<mapsto> (?y, 50)])"
    unfolding demo_new by (rule converse_rtranclp_into_rtranclp [OF _ r_into_rtranclp])
  from live_allocations_disjoint [OF _ _ _ this, of 0 ?x 100 1 ?y 50] show ?thesis by (simp add: SIZE_MAX_def)
qed

text \<open>C11: Releasing what was just allocated restores the free list of every chunk exactly as it was: the
  blocks are split and merged back without loss, and the release cannot run out of blocks.\<close>

theorem release_undoes_alloc:
  assumes "dyn_ok al" "dyn_valid al n" "ggml_dyn_tallocr_alloc al n = Some (addr, al')"
  shows "\<exists>al''. ggml_dyn_tallocr_free_bytes al' addr n = Some al'' \<and> dyn_ok al'' \<and>
    (\<forall>c < length (da_chunks al). tc_free_blocks (da_chunks al'' ! c) = tc_free_blocks (da_chunks al ! c))"
  by (rule alloc_then_release [OF assms])

lemma demo_ok: "dyn_ok (demo_alloc [demo_tail 128])"
  by (simp add: dyn_ok_def demo_alloc_def demo_tail_def chunk_ok_def free_list_def block_ok_def SIZE_MAX_def
      GGML_VBUFFER_MAX_CHUNKS_def MAX_FREE_BLOCKS_def)

theorem release_undoes_alloc_witness:
  "\<exists>al. ggml_dyn_tallocr_free_bytes (demo_alloc [demo_tail 192]) \<lparr> ba_chunk = 0, ba_offset = 128 \<rparr> 50 = Some al \<and>
    tc_free_blocks (da_chunks al ! 0) = [\<lparr> fb_offset = 128, fb_size = 3968 \<rparr>]"
  using release_undoes_alloc [OF demo_ok demo_valid(2) demo_alloc_2] by (auto simp: demo_alloc_def demo_tail_def)

text \<open>C35: A reservation of a positive size that fits in the address space never aborts while fewer than
  GGML_VBUFFER_MAX_CHUNKS chunks are in use; it takes bytes that were available and nothing else.\<close>

theorem alloc_never_aborts:
  assumes "dyn_ok al" "dyn_valid al n" "length (da_chunks al) < GGML_VBUFFER_MAX_CHUNKS"
  shows "\<exists>addr al'. ggml_dyn_tallocr_alloc al n = Some (addr, al') \<and> dyn_ok al' \<and>
    cells addr (padded (da_alignment al) n) \<subseteq> avail al \<and>
    avail al' \<subseteq> avail al - cells addr (padded (da_alignment al) n)"
proof -
  obtain addr al' where r: "ggml_dyn_tallocr_alloc al n = Some (addr, al')" using alloc_total [OF assms] by blast
  from alloc_spec [OF assms(1) _ _ r] assms(2) r show ?thesis by (auto simp: dyn_valid_def)
qed

theorem alloc_never_aborts_witness:
  "\<exists>addr al'. ggml_dyn_tallocr_alloc (demo_alloc [demo_tail 128]) 50 = Some (addr, al') \<and> dyn_ok al'"
  using alloc_never_aborts [OF demo_ok demo_valid(2)] by (auto simp: demo_alloc_def GGML_VBUFFER_MAX_CHUNKS_def)

text \<open>The search starts its comparison anew in every chunk: a later chunk wins with a worse fit, here 96
  bytes against the exact 32 of the first chunk.\<close>

lemma best_fit_not_global:
  "find_fit 32
     [\<lparr> tc_free_blocks = [\<lparr> fb_offset = 0, fb_size = 32 \<rparr>, \<lparr> fb_offset = 64, fb_size = 1000 \<rparr>], tc_max_size = 64 \<rparr>,
      \<lparr> tc_free_blocks = [\<lparr> fb_offset = 0, fb_size = 96 \<rparr>, \<lparr> fb_offset = 128, fb_size = 1000 \<rparr>], tc_max_size = 128 \<rparr>]
   = (1, 0)"
  by (simp add: dyn_eval)

end
