(* ===== verification/Galloc.thy ===== *)
theory Galloc
  imports DynAlloc Graph
begin

text \<open>
  The graph allocator of ggml-alloc.c (ggml_gallocr) as far as it plans: which tensor goes where in the
  address range of its buffer type, which buffers are reused in place, and when a range is given back.

  A buffer type is an address; what its function pointers answer is a field of \<open>backend_ops\<close>, a parameter
  of the model (None for a function pointer that is NULL).  A buffer type that occurs twice has one
  allocator, so the allocators are a list and each buffer id has an index into it.
\<close>

section \<open>Buffer types\<close>

record backend_ops =
  bo_alignment :: "ptr \<Rightarrow> int"
  bo_max_size :: "ptr \<Rightarrow> int option"
  bo_alloc_size :: "ptr \<Rightarrow> (ggml_tensor \<Rightarrow> int) option"

definition ggml_backend_buft_get_alignment :: "backend_ops \<Rightarrow> ptr \<Rightarrow> int option" where
  "ggml_backend_buft_get_alignment bo buft = do { gassert (buft \<noteq> NULL); Some (bo_alignment bo buft) }"

definition ggml_backend_buft_get_max_size :: "backend_ops \<Rightarrow> ptr \<Rightarrow> int option" where
  "ggml_backend_buft_get_max_size bo buft = do {
     gassert (buft \<noteq> NULL);
     Some (case bo_max_size bo buft of Some n \<Rightarrow> n | None \<Rightarrow> SIZE_MAX) }"

definition ggml_backend_buft_get_alloc_size :: "backend_ops \<Rightarrow> ptr \<Rightarrow> ggml_tensor \<Rightarrow> int option" where
  "ggml_backend_buft_get_alloc_size bo buft tensor = do {
     gassert (buft \<noteq> NULL);
     Some (case bo_alloc_size bo buft of Some f \<Rightarrow> f tensor | None \<Rightarrow> ggml_nbytes tensor) }"

section \<open>State\<close>

record hash_node =
  hn_n_children :: int
  hn_n_views :: int
  hn_buffer_id :: int
  hn_addr :: buffer_address
  hn_allocated :: bool

record tensor_alloc =
  ta_buffer_id :: int
  ta_addr :: buffer_address
  ta_size_max :: int

record node_alloc =
  na_dst :: tensor_alloc
  na_src :: "tensor_alloc list"

record ggml_gallocr =
  ga_bufts :: "ptr list"
  ga_buffers :: "ptr list"
  ga_buf_tallocs :: "nat list"
  ga_tallocs :: "ggml_dyn_tallocr list"
  ga_hash_set :: ggml_hash_set
  ga_hash_values :: "hash_node list"
  ga_node_allocs :: "node_alloc list"
  ga_n_nodes :: int
  ga_leaf_allocs :: "tensor_alloc list"
  ga_n_leafs :: int

definition zero_node :: hash_node where
  "zero_node = \<lparr> hn_n_children = 0, hn_n_views = 0, hn_buffer_id = 0,
     hn_addr = \<lparr> ba_chunk = 0, ba_offset = 0 \<rparr>, hn_allocated = False \<rparr>"

text \<open>The position of the first earlier buffer with the same type (the inner loop of ggml_gallocr_new_n).\<close>

fun same_buft :: "ptr list \<Rightarrow> ptr \<Rightarrow> nat \<Rightarrow> nat option" where
  "same_buft [] buft j = None"
| "same_buft (b # bs) buft j = (if b = buft then Some j else same_buft bs buft (Suc j))"

definition add_buft :: "backend_ops \<Rightarrow> ptr \<Rightarrow> ggml_gallocr \<Rightarrow> ggml_gallocr option" where
  "add_buft bo buft ga =
     (case same_buft (ga_bufts ga) buft 0 of
        Some j \<Rightarrow> Some (ga\<lparr> ga_bufts := ga_bufts ga @ [buft], ga_buffers := ga_buffers ga @ [NULL],
                           ga_buf_tallocs := ga_buf_tallocs ga @ [ga_buf_tallocs ga ! j] \<rparr>)
      | None \<Rightarrow> do {
          alignment \<leftarrow> ggml_backend_buft_get_alignment bo buft;
          max_size \<leftarrow> ggml_backend_buft_get_max_size bo buft;
          Some (ga\<lparr> ga_bufts := ga_bufts ga @ [buft], ga_buffers := ga_buffers ga @ [NULL],
                    ga_buf_tallocs := ga_buf_tallocs ga @ [length (ga_tallocs ga)],
                    ga_tallocs := ga_tallocs ga @ [ggml_dyn_tallocr_new alignment max_size] \<rparr>) })"

definition ggml_gallocr_new_n :: "backend_ops \<Rightarrow> ptr list \<Rightarrow> ggml_gallocr option" where
  "ggml_gallocr_new_n bo bufts =
     for_each (add_buft bo) bufts
       \<lparr> ga_bufts = [], ga_buffers = [], ga_buf_tallocs = [], ga_tallocs = [],
         ga_hash_set = \<lparr> hs_size = 0, hs_used = [], hs_keys = [] \<rparr>, ga_hash_values = [],
         ga_node_allocs = [], ga_n_nodes = 0, ga_leaf_allocs = [], ga_n_leafs = 0 \<rparr>"

definition ggml_gallocr_new :: "backend_ops \<Rightarrow> ptr \<Rightarrow> ggml_gallocr option" where
  "ggml_gallocr_new bo buft = ggml_gallocr_new_n bo [buft]"

section \<open>Access\<close>

definition buft_at :: "ggml_gallocr \<Rightarrow> int \<Rightarrow> ptr option" where
  "buft_at ga i = (if 0 \<le> i \<and> nat i < length (ga_bufts ga) then Some (ga_bufts ga ! nat i) else None)"

definition talloc_index :: "ggml_gallocr \<Rightarrow> int \<Rightarrow> nat option" where
  "talloc_index ga i =
     (if 0 \<le> i \<and> nat i < length (ga_buf_tallocs ga) \<and> ga_buf_tallocs ga ! nat i < length (ga_tallocs ga)
      then Some (ga_buf_tallocs ga ! nat i) else None)"

definition set_talloc :: "ggml_gallocr \<Rightarrow> nat \<Rightarrow> ggml_dyn_tallocr \<Rightarrow> ggml_gallocr" where
  "set_talloc ga k al = ga\<lparr> ga_tallocs := (ga_tallocs ga)[k := al] \<rparr>"

text \<open>The pointer ggml_gallocr_hash_get returns is an index into hash_values.\<close>

definition ggml_gallocr_hash_get :: "ggml_gallocr \<Rightarrow> ptr \<Rightarrow> (nat \<times> ggml_gallocr) option" where
  "ggml_gallocr_hash_get ga t = do {
     (i, hs) \<leftarrow> ggml_hash_find_or_insert (ga_hash_set ga) t;
     gassert (i < length (ga_hash_values ga));
     Some (i, ga\<lparr> ga_hash_set := hs \<rparr>) }"

abbreviation hn_at :: "ggml_gallocr \<Rightarrow> nat \<Rightarrow> hash_node" where
  "hn_at ga i \<equiv> ga_hash_values ga ! i"

definition set_hn :: "ggml_gallocr \<Rightarrow> nat \<Rightarrow> (hash_node \<Rightarrow> hash_node) \<Rightarrow> ggml_gallocr" where
  "set_hn ga i f = ga\<lparr> ga_hash_values := (ga_hash_values ga)[i := f (hn_at ga i)] \<rparr>"

definition ggml_gallocr_is_own :: "ggml_gallocr \<Rightarrow> ptr \<Rightarrow> (bool \<times> ggml_gallocr) option" where
  "ggml_gallocr_is_own ga t = do {
     (i, ga) \<leftarrow> ggml_gallocr_hash_get ga t;
     Some (hn_allocated (hn_at ga i), ga) }"

definition ggml_gallocr_is_allocated :: "heap \<Rightarrow> ggml_gallocr \<Rightarrow> ptr \<Rightarrow> (bool \<times> ggml_gallocr) option" where
  "ggml_gallocr_is_allocated h ga t = do {
     x \<leftarrow> tget h t;
     if t_data x \<noteq> NULL then Some (True, ga)
     else if t_buffer x \<noteq> NULL then Some (True, ga)
     else ggml_gallocr_is_own ga t }"

section \<open>In place\<close>

definition ggml_op_can_inplace :: "ggml_op \<Rightarrow> bool" where
  "ggml_op_can_inplace op \<longleftrightarrow>
     op \<in> {GGML_OP_FILL, GGML_OP_SCALE, GGML_OP_DIAG_MASK_ZERO, GGML_OP_DIAG_MASK_INF, GGML_OP_ADD,
       GGML_OP_ADD_ID, GGML_OP_ADD1, GGML_OP_SUB, GGML_OP_MUL, GGML_OP_DIV, GGML_OP_SQR, GGML_OP_SQRT,
       GGML_OP_LOG, GGML_OP_UNARY, GGML_OP_ROPE, GGML_OP_ROPE_BACK, GGML_OP_SILU_BACK, GGML_OP_RMS_NORM,
       GGML_OP_RMS_NORM_BACK, GGML_OP_SOFT_MAX, GGML_OP_SOFT_MAX_BACK}"

definition ggml_gallocr_free_extra_space ::
    "backend_ops \<Rightarrow> heap \<Rightarrow> ggml_gallocr \<Rightarrow> ptr \<Rightarrow> ptr \<Rightarrow> ggml_gallocr option" where
  "ggml_gallocr_free_extra_space bo h ga node parent = do {
     (hn, ga) \<leftarrow> ggml_gallocr_hash_get ga node;
     (p_hn, ga) \<leftarrow> ggml_gallocr_hash_get ga parent;
     p_buft \<leftarrow> buft_at ga (hn_buffer_id (hn_at ga p_hn));
     pt \<leftarrow> tget h parent;
     parent_size \<leftarrow> ggml_backend_buft_get_alloc_size bo p_buft pt;
     buft \<leftarrow> buft_at ga (hn_buffer_id (hn_at ga hn));
     nt \<leftarrow> tget h node;
     node_size \<leftarrow> ggml_backend_buft_get_alloc_size bo buft nt;
     gassert (parent_size \<ge> node_size);
     k \<leftarrow> talloc_index ga (hn_buffer_id (hn_at ga p_hn));
     let p_alloc = ga_tallocs ga ! k;
     parent_size \<leftarrow> aligned_offset NULL parent_size (da_alignment p_alloc);
     node_size \<leftarrow> aligned_offset NULL node_size (da_alignment p_alloc);
     if parent_size > node_size
     then do {
       let p_addr = hn_addr (hn_at ga p_hn);
       let p_addr = p_addr\<lparr> ba_offset := u64 (ba_offset p_addr + node_size) \<rparr>;
       al \<leftarrow> ggml_dyn_tallocr_free_bytes p_alloc p_addr (parent_size - node_size);
       Some (set_talloc ga k al) }
     else Some ga }"

text \<open>
  One parent of the loop in ggml_gallocr_allocate_node: True when the node took over its range.  \<open>hn\<close> is
  the hash value of the node.
\<close>

definition reuse_parent ::
    "backend_ops \<Rightarrow> heap \<Rightarrow> ptr \<Rightarrow> nat \<Rightarrow> ptr \<Rightarrow> ggml_gallocr \<Rightarrow> (bool \<times> ggml_gallocr) option" where
  "reuse_parent bo h node hn parent ga =
     (if parent = NULL then Some (False, ga)
      else do {
        (own, ga) \<leftarrow> ggml_gallocr_is_own ga parent;
        if \<not> own then Some (False, ga)
        else do {
          nt \<leftarrow> tget h node;
          pt \<leftarrow> tget h parent;
          out \<leftarrow> (if t_flags pt AND GGML_TENSOR_FLAG_OUTPUT \<noteq> 0 then Some True
                 else if t_view_src pt \<noteq> NULL
                 then do { vt \<leftarrow> tget h (t_view_src pt); Some (t_flags vt AND GGML_TENSOR_FLAG_OUTPUT \<noteq> 0) }
                 else Some False);
          if out then Some (False, ga)
          else if \<not> ggml_are_same_layout nt pt then Some (False, ga)
          else do {
            (p_hn, ga) \<leftarrow> ggml_gallocr_hash_get ga parent;
            if hn_n_children (hn_at ga p_hn) = 1 \<and> hn_n_views (hn_at ga p_hn) = 0
            then
              if ggml_is_view pt
              then do {
                let view_src = t_view_src pt;
                (view_src_hn, ga) \<leftarrow> ggml_gallocr_hash_get ga view_src;
                vt \<leftarrow> tget h view_src;
                if hn_n_views (hn_at ga view_src_hn) = 1 \<and> hn_n_children (hn_at ga view_src_hn) = 0 \<and>
                   t_data vt = t_data pt
                then do {
                  let p = hn_at ga p_hn;
                  let ga = set_hn ga hn (\<lambda>n. n\<lparr> hn_buffer_id := hn_buffer_id p, hn_addr := hn_addr p \<rparr>);
                  let ga = set_hn ga p_hn (\<lambda>n. n\<lparr> hn_allocated := False \<rparr>);
                  let ga = set_hn ga view_src_hn (\<lambda>n. n\<lparr> hn_allocated := False \<rparr>);
                  ga \<leftarrow> ggml_gallocr_free_extra_space bo h ga node view_src;
                  Some (True, ga) }
                else Some (False, ga) }
              else do {
                let p = hn_at ga p_hn;
                let ga = set_hn ga hn (\<lambda>n. n\<lparr> hn_buffer_id := hn_buffer_id p, hn_addr := hn_addr p \<rparr>);
                let ga = set_hn ga p_hn (\<lambda>n. n\<lparr> hn_allocated := False \<rparr>);
                ga \<leftarrow> ggml_gallocr_free_extra_space bo h ga node parent;
                Some (True, ga) }
            else Some (False, ga) } } })"

fun reuse_parents ::
    "backend_ops \<Rightarrow> heap \<Rightarrow> ptr \<Rightarrow> nat \<Rightarrow> ptr list \<Rightarrow> ggml_gallocr \<Rightarrow> (bool \<times> ggml_gallocr) option" where
  "reuse_parents bo h node hn [] ga = Some (False, ga)"
| "reuse_parents bo h node hn (parent # ps) ga = do {
     (done, ga) \<leftarrow> reuse_parent bo h node hn parent ga;
     if done then Some (True, ga) else reuse_parents bo h node hn ps ga }"

section \<open>Nodes\<close>

definition ggml_gallocr_allocate_node ::
    "backend_ops \<Rightarrow> heap \<Rightarrow> ptr \<Rightarrow> int \<Rightarrow> ggml_gallocr \<Rightarrow> ggml_gallocr option" where
  "ggml_gallocr_allocate_node bo h node buffer_id ga = do {
     gassert (buffer_id \<ge> 0);
     (hn, ga) \<leftarrow> ggml_gallocr_hash_get ga node;
     (allocated, ga) \<leftarrow> ggml_gallocr_is_allocated h ga node;
     t \<leftarrow> tget h node;
     if \<not> allocated \<and> \<not> ggml_is_view t
     then do {
       let ga = set_hn ga hn (\<lambda>n. n\<lparr> hn_allocated := True \<rparr>);
       (done, ga) \<leftarrow>
         (if ggml_op_can_inplace (t_op t) then reuse_parents bo h node hn (t_src t) ga else Some (False, ga));
       if done then Some ga
       else do {
         k \<leftarrow> talloc_index ga buffer_id;
         buft \<leftarrow> buft_at ga buffer_id;
         sz \<leftarrow> ggml_backend_buft_get_alloc_size bo buft t;
         (addr, al) \<leftarrow> ggml_dyn_tallocr_alloc (ga_tallocs ga ! k) sz;
         let ga = set_talloc ga k al;
         Some (set_hn ga hn (\<lambda>n. n\<lparr> hn_buffer_id := buffer_id, hn_addr := addr \<rparr>)) } }
     else Some ga }"

definition ggml_gallocr_free_node :: "backend_ops \<Rightarrow> heap \<Rightarrow> ptr \<Rightarrow> ggml_gallocr \<Rightarrow> ggml_gallocr option" where
  "ggml_gallocr_free_node bo h node ga = do {
     t \<leftarrow> tget h node;
     if t_flags t AND GGML_TENSOR_FLAG_OUTPUT \<noteq> 0 then Some ga
     else do {
       (hn, ga) \<leftarrow> ggml_gallocr_hash_get ga node;
       let buffer_id = hn_buffer_id (hn_at ga hn);
       k \<leftarrow> talloc_index ga buffer_id;
       buft \<leftarrow> buft_at ga buffer_id;
       sz \<leftarrow> ggml_backend_buft_get_alloc_size bo buft t;
       al \<leftarrow> ggml_dyn_tallocr_free_bytes (ga_tallocs ga ! k) (hn_addr (hn_at ga hn)) sz;
       let ga = set_talloc ga k al;
       Some (set_hn ga hn (\<lambda>n. n\<lparr> hn_allocated := False \<rparr>)) } }"

section \<open>The plan of a graph\<close>

definition get_node_buffer_id :: "int list option \<Rightarrow> nat \<Rightarrow> int option" where
  "get_node_buffer_id ids i =
     (case ids of None \<Rightarrow> Some 0 | Some xs \<Rightarrow> if i < length xs then Some (xs ! i) else None)"

text \<open>The loop over the leafs.\<close>

definition plan_leaf ::
    "backend_ops \<Rightarrow> heap \<Rightarrow> int list option \<Rightarrow> nat \<times> ptr \<Rightarrow> ggml_gallocr \<Rightarrow> ggml_gallocr option" where
  "plan_leaf bo h ids = (\<lambda>(i, leaf) ga. do {
     b \<leftarrow> get_node_buffer_id ids i;
     ggml_gallocr_allocate_node bo h leaf b ga })"

text \<open>The loop that counts children and views and places the explicit inputs.\<close>

definition count_src ::
    "backend_ops \<Rightarrow> heap \<Rightarrow> int list option \<Rightarrow> nat \<Rightarrow> ptr \<Rightarrow> ggml_gallocr \<Rightarrow> ggml_gallocr option" where
  "count_src bo h ids i src ga =
     (if src = NULL then Some ga
      else do {
        (s, ga) \<leftarrow> ggml_gallocr_hash_get ga src;
        let ga = set_hn ga s (\<lambda>n. n\<lparr> hn_n_children := i32 (hn_n_children n + 1) \<rparr>);
        st \<leftarrow> tget h src;
        if t_flags st AND GGML_TENSOR_FLAG_INPUT \<noteq> 0
        then do { b \<leftarrow> get_node_buffer_id ids i; ggml_gallocr_allocate_node bo h src b ga }
        else Some ga })"

definition count_node ::
    "backend_ops \<Rightarrow> heap \<Rightarrow> int list option \<Rightarrow> nat \<times> ptr \<Rightarrow> ggml_gallocr \<Rightarrow> ggml_gallocr option" where
  "count_node bo h ids = (\<lambda>(i, node) ga. do {
     t \<leftarrow> tget h node;
     ga \<leftarrow> (if ggml_is_view t \<and> t_op t \<noteq> GGML_OP_NONE
           then do { (v, ga) \<leftarrow> ggml_gallocr_hash_get ga (t_view_src t);
                     Some (set_hn ga v (\<lambda>n. n\<lparr> hn_n_views := i32 (hn_n_views n + 1) \<rparr>)) }
           else Some ga);
     ga \<leftarrow> (if t_flags t AND GGML_TENSOR_FLAG_INPUT \<noteq> 0
           then do { b \<leftarrow> get_node_buffer_id ids i; ggml_gallocr_allocate_node bo h node b ga }
           else Some ga);
     for_each (count_src bo h ids i) (t_src t) ga })"

text \<open>The loop that places the nodes: the parents, the node, and then the parents that have served.\<close>

definition place_parent :: "backend_ops \<Rightarrow> heap \<Rightarrow> int \<Rightarrow> ptr \<Rightarrow> ggml_gallocr \<Rightarrow> ggml_gallocr option" where
  "place_parent bo h buffer_id parent ga =
     (if parent = NULL then Some ga else ggml_gallocr_allocate_node bo h parent buffer_id ga)"

definition update_parent :: "backend_ops \<Rightarrow> heap \<Rightarrow> ptr \<Rightarrow> ggml_gallocr \<Rightarrow> ggml_gallocr option" where
  "update_parent bo h parent ga =
     (if parent = NULL then Some ga
      else do {
        (p, ga) \<leftarrow> ggml_gallocr_hash_get ga parent;
        let ga = set_hn ga p (\<lambda>n. n\<lparr> hn_n_children := i32 (hn_n_children n - 1) \<rparr>);
        if hn_n_children (hn_at ga p) = 0 \<and> hn_n_views (hn_at ga p) = 0
        then do {
          pt \<leftarrow> tget h parent;
          if ggml_is_view pt
          then do {
            (v, ga) \<leftarrow> ggml_gallocr_hash_get ga (t_view_src pt);
            let ga = set_hn ga v (\<lambda>n. n\<lparr> hn_n_views := i32 (hn_n_views n - 1) \<rparr>);
            if hn_n_views (hn_at ga v) = 0 \<and> hn_n_children (hn_at ga v) = 0 \<and> hn_allocated (hn_at ga v)
            then ggml_gallocr_free_node bo h (t_view_src pt) ga
            else Some ga }
          else if hn_allocated (hn_at ga p) then ggml_gallocr_free_node bo h parent ga
          else Some ga }
        else Some ga })"

definition place_node ::
    "backend_ops \<Rightarrow> heap \<Rightarrow> int list option \<Rightarrow> nat \<times> ptr \<Rightarrow> ggml_gallocr \<Rightarrow> ggml_gallocr option" where
  "place_node bo h ids = (\<lambda>(i, node) ga. do {
     t \<leftarrow> tget h node;
     b \<leftarrow> get_node_buffer_id ids i;
     ga \<leftarrow> for_each (place_parent bo h b) (t_src t) ga;
     ga \<leftarrow> ggml_gallocr_allocate_node bo h node b ga;
     for_each (update_parent bo h) (t_src t) ga })"

definition ggml_gallocr_alloc_graph_impl ::
    "backend_ops \<Rightarrow> heap \<Rightarrow> ggml_cgraph \<Rightarrow> int list option \<Rightarrow> int list option \<Rightarrow> ggml_gallocr \<Rightarrow> ggml_gallocr option" where
  "ggml_gallocr_alloc_graph_impl bo h g node_buffer_ids leaf_buffer_ids ga = do {
     let ga = ga\<lparr> ga_hash_set := ggml_hash_set_reset (ga_hash_set ga),
                  ga_hash_values := replicate (hs_size (ga_hash_set ga)) zero_node \<rparr>;
     ga \<leftarrow> for_each (plan_leaf bo h leaf_buffer_ids) (enumerate 0 (g_leaf_list g)) ga;
     ga \<leftarrow> for_each (count_node bo h node_buffer_ids) (enumerate 0 (g_node_list g)) ga;
     for_each (place_node bo h node_buffer_ids) (enumerate 0 (g_node_list g)) ga }"

end
