(* ===== verification/Backend.thy ===== *)
theory Backend
  imports Galloc
begin

text \<open>
  Buffers of ggml-backend.cpp, as far as allocation goes: creating and freeing buffers, their sizes and bases,
  and the two functions that give a tensor its address (ggml_backend_tensor_alloc, ggml_backend_view_init).

  What a backend does behind its function pointers is a parameter (\<open>backend_sys\<close>, and the answers of a buffer's
  own function pointers are fields of the buffer).  Buffers and virtual buffers live at addresses; memory that
  holds neither is None.
\<close>

section \<open>State\<close>

text \<open>
  \<open>bb_base\<close> is what iface.get_base answers and \<open>bb_init_tensor\<close> what iface.init_tensor answers (a status, and what
  it leaves in the field extra of the tensor), None for a NULL pointer; \<open>bb_parts\<close> is the list of buffers of a
  multi-buffer; \<open>bb_frees\<close> says whether iface.free_buffer is set.
\<close>

record backend_buffer =
  bb_buft :: ptr
  bb_base :: "ptr option"
  bb_init_tensor :: "(ggml_tensor \<Rightarrow> int \<times> ptr) option"
  bb_frees :: bool
  bb_parts :: "ptr list option"
  bb_size :: int
  bb_usage :: int

type_synonym buffer_map = "ptr \<Rightarrow> backend_buffer option"

record alloc_state =
  as_heap :: heap
  as_bufs :: buffer_map
  as_vbufs :: "ptr \<Rightarrow> ptr list option"

text \<open>
  The allocation callback of a buffer type may fail (None for a returned NULL).  \<open>bs_new\<close> and \<open>bs_calloc\<close> are
  the addresses operator new and calloc return.
\<close>

record backend_sys =
  bs_ops :: backend_ops
  bs_alloc_buffer :: "ptr \<Rightarrow> int \<Rightarrow> buffer_map \<Rightarrow> (ptr \<times> backend_buffer) option"
  bs_new :: "buffer_map \<Rightarrow> ptr"
  bs_calloc :: "(ptr \<Rightarrow> ptr list option) \<Rightarrow> ptr"

definition GGML_STATUS_SUCCESS :: int where "GGML_STATUS_SUCCESS = 0"

definition GGML_BACKEND_BUFFER_USAGE_ANY :: int where "GGML_BACKEND_BUFFER_USAGE_ANY = 0"

definition GGML_BACKEND_BUFFER_USAGE_COMPUTE :: int where "GGML_BACKEND_BUFFER_USAGE_COMPUTE = 2"

section \<open>Buffers\<close>

definition bget :: "buffer_map \<Rightarrow> ptr \<Rightarrow> backend_buffer option" where
  "bget bufs p = (if p = NULL then None else bufs p)"

definition ggml_backend_buffer_init ::
    "backend_sys \<Rightarrow> ptr \<Rightarrow> ptr option \<Rightarrow> (ggml_tensor \<Rightarrow> int \<times> ptr) option \<Rightarrow> bool \<Rightarrow> ptr list option \<Rightarrow> int \<Rightarrow> buffer_map \<Rightarrow>
     ptr \<times> buffer_map" where
  "ggml_backend_buffer_init sys buft base init frees parts sz bufs =
     (let p = bs_new sys bufs in
      (p, bufs(p \<mapsto> \<lparr> bb_buft = buft, bb_base = base, bb_init_tensor = init, bb_frees = frees, bb_parts = parts,
                      bb_size = sz, bb_usage = GGML_BACKEND_BUFFER_USAGE_ANY \<rparr>)))"

definition ggml_backend_buft_alloc_buffer :: "backend_sys \<Rightarrow> ptr \<Rightarrow> int \<Rightarrow> buffer_map \<Rightarrow> (ptr \<times> buffer_map) option" where
  "ggml_backend_buft_alloc_buffer sys buft sz bufs = do {
     gassert (buft \<noteq> NULL);
     if sz = 0 then Some (ggml_backend_buffer_init sys buft None None False None 0 bufs)
     else Some (case bs_alloc_buffer sys buft sz bufs of
                  None \<Rightarrow> (NULL, bufs) | Some (p, b) \<Rightarrow> (p, bufs(p \<mapsto> b))) }"

text \<open>Freeing a multi-buffer frees its parts first; a buffer without free_buffer stays.\<close>

partial_function (option) ggml_backend_buffer_free :: "ptr \<Rightarrow> buffer_map \<Rightarrow> buffer_map option" where
  "ggml_backend_buffer_free p bufs =
     (if p = NULL then Some bufs
      else do {
        b \<leftarrow> bget bufs p;
        if bb_frees b
        then do {
          bufs \<leftarrow> for_each ggml_backend_buffer_free (case bb_parts b of None \<Rightarrow> [] | Some ps \<Rightarrow> ps) bufs;
          Some (bufs(p := None)) }
        else Some bufs })"

definition ggml_backend_buffer_get_size :: "buffer_map \<Rightarrow> ptr \<Rightarrow> int option" where
  "ggml_backend_buffer_get_size bufs p = do { b \<leftarrow> bget bufs p; Some (bb_size b) }"

definition ggml_backend_buffer_get_base :: "buffer_map \<Rightarrow> ptr \<Rightarrow> ptr option" where
  "ggml_backend_buffer_get_base bufs p = do {
     b \<leftarrow> bget bufs p;
     if bb_size b = 0 then Some NULL
     else case bb_base b of
            None \<Rightarrow> Some NULL
          | Some base \<Rightarrow> do { gassert (base \<noteq> NULL); Some base } }"

definition ggml_backend_buffer_get_alignment :: "backend_sys \<Rightarrow> buffer_map \<Rightarrow> ptr \<Rightarrow> int option" where
  "ggml_backend_buffer_get_alignment sys bufs p = do {
     b \<leftarrow> bget bufs p; ggml_backend_buft_get_alignment (bs_ops sys) (bb_buft b) }"

definition ggml_backend_buffer_get_max_size :: "backend_sys \<Rightarrow> buffer_map \<Rightarrow> ptr \<Rightarrow> int option" where
  "ggml_backend_buffer_get_max_size sys bufs p = do {
     b \<leftarrow> bget bufs p; ggml_backend_buft_get_max_size (bs_ops sys) (bb_buft b) }"

definition ggml_backend_buffer_get_alloc_size :: "backend_sys \<Rightarrow> buffer_map \<Rightarrow> ptr \<Rightarrow> ggml_tensor \<Rightarrow> int option" where
  "ggml_backend_buffer_get_alloc_size sys bufs p t = do {
     b \<leftarrow> bget bufs p; ggml_backend_buft_get_alloc_size (bs_ops sys) (bb_buft b) t }"

definition ggml_backend_buffer_is_multi_buffer :: "buffer_map \<Rightarrow> ptr \<Rightarrow> bool option" where
  "ggml_backend_buffer_is_multi_buffer bufs p = do { b \<leftarrow> bget bufs p; Some (bb_parts b \<noteq> None) }"

partial_function (option) ggml_backend_buffer_set_usage :: "int \<Rightarrow> ptr \<Rightarrow> buffer_map \<Rightarrow> buffer_map option" where
  "ggml_backend_buffer_set_usage usage p bufs = do {
     b \<leftarrow> bget bufs p;
     let bufs = bufs(p \<mapsto> b\<lparr> bb_usage := usage \<rparr>);
     case bb_parts b of
       None \<Rightarrow> Some bufs
     | Some ps \<Rightarrow> for_each (ggml_backend_buffer_set_usage usage) ps bufs }"

definition ggml_backend_buffer_get_usage :: "buffer_map \<Rightarrow> ptr \<Rightarrow> int option" where
  "ggml_backend_buffer_get_usage bufs p = do { b \<leftarrow> bget bufs p; Some (bb_usage b) }"

text \<open>The reset callback clears the device's own state, of which the model has none.\<close>

definition ggml_backend_buffer_reset :: "buffer_map \<Rightarrow> ptr \<Rightarrow> unit option" where
  "ggml_backend_buffer_reset bufs p = do { b \<leftarrow> bget bufs p; Some () }"

definition ggml_backend_multi_buffer_alloc_buffer :: "backend_sys \<Rightarrow> ptr list \<Rightarrow> buffer_map \<Rightarrow> (ptr \<times> buffer_map) option" where
  "ggml_backend_multi_buffer_alloc_buffer sys parts bufs = do {
     total_size \<leftarrow> for_each (\<lambda>p n. do { sz \<leftarrow> ggml_backend_buffer_get_size bufs p; Some (u64 (n + sz)) }) parts 0;
     gassert (parts \<noteq> []);
     b \<leftarrow> bget bufs (hd parts);
     Some (ggml_backend_buffer_init sys (bb_buft b) None None True (Some parts) total_size bufs) }"

section \<open>Addresses of tensors\<close>

definition ggml_backend_buffer_init_tensor :: "buffer_map \<Rightarrow> ptr \<Rightarrow> ptr \<Rightarrow> heap \<Rightarrow> (int \<times> heap) option" where
  "ggml_backend_buffer_init_tensor bufs p tensor h = do {
     b \<leftarrow> bget bufs p;
     case bb_init_tensor b of
       None \<Rightarrow> Some (GGML_STATUS_SUCCESS, h)
     | Some f \<Rightarrow> do {
         t \<leftarrow> tget h tensor;
         let (status, extra) = f t;
         h \<leftarrow> tset h tensor (\<lambda>t. t\<lparr> t_extra := extra \<rparr>);
         Some (status, h) } }"

definition ggml_backend_view_init :: "buffer_map \<Rightarrow> ptr \<Rightarrow> heap \<Rightarrow> (int \<times> heap) option" where
  "ggml_backend_view_init bufs tensor h = do {
     t \<leftarrow> tget h tensor;
     gassert (t_buffer t = NULL);
     gassert (t_view_src t \<noteq> NULL);
     v \<leftarrow> tget h (t_view_src t);
     gassert (t_buffer v \<noteq> NULL);
     gassert (t_data v \<noteq> NULL);
     h \<leftarrow> tset h tensor (\<lambda>t. t\<lparr> t_buffer := t_buffer v, t_data := u64 (t_data v + t_view_offs t) \<rparr>);
     ggml_backend_buffer_init_tensor bufs (t_buffer v) tensor h }"

definition ggml_backend_tensor_alloc :: "backend_sys \<Rightarrow> buffer_map \<Rightarrow> ptr \<Rightarrow> ptr \<Rightarrow> ptr \<Rightarrow> heap \<Rightarrow> (int \<times> heap) option" where
  "ggml_backend_tensor_alloc sys bufs buffer tensor addr h = do {
     t \<leftarrow> tget h tensor;
     gassert (t_buffer t = NULL);
     gassert (t_data t = NULL);
     gassert (t_view_src t = NULL);
     base \<leftarrow> ggml_backend_buffer_get_base bufs buffer;
     gassert (addr \<ge> base);
     sz \<leftarrow> ggml_backend_buffer_get_alloc_size sys bufs buffer t;
     buffer_size \<leftarrow> ggml_backend_buffer_get_size bufs buffer;
     gassert (u64 (addr + sz) \<le> u64 (base + buffer_size));
     h \<leftarrow> tset h tensor (\<lambda>t. t\<lparr> t_buffer := buffer, t_data := addr \<rparr>);
     ggml_backend_buffer_init_tensor bufs buffer tensor h }"

end
