(* ===== verification/GallocRun.thy ===== *)
theory GallocRun
  imports Backend
begin

text \<open>
  The rest of ggml-alloc.c: the virtual buffers behind a plan, ggml_gallocr_reserve_n (plan a graph, record the
  plan, size the buffers), ggml_gallocr_alloc_graph (give the tensors of a graph their addresses), and the
  linear allocator ggml_tallocr with ggml_backend_alloc_ctx_tensors_from_buft.
\<close>

section \<open>Virtual buffers\<close>

definition vbget :: "alloc_state \<Rightarrow> ptr \<Rightarrow> ptr list option" where
  "vbget st p = (if p = NULL then None else as_vbufs st p)"

definition ggml_vbuffer_free :: "ptr \<Rightarrow> alloc_state \<Rightarrow> alloc_state option" where
  "ggml_vbuffer_free buf st =
     (if buf = NULL then Some st
      else do {
        chunks \<leftarrow> vbget st buf;
        bufs \<leftarrow> for_each ggml_backend_buffer_free chunks (as_bufs st);
        Some (st\<lparr> as_bufs := bufs, as_vbufs := (as_vbufs st)(buf := None) \<rparr>) })"

definition ggml_vbuffer_chunk_size :: "alloc_state \<Rightarrow> ptr \<Rightarrow> nat \<Rightarrow> int option" where
  "ggml_vbuffer_chunk_size st buf chunk = do {
     chunks \<leftarrow> vbget st buf;
     gassert (chunk < length chunks);
     if chunks ! chunk \<noteq> NULL then ggml_backend_buffer_get_size (as_bufs st) (chunks ! chunk) else Some 0 }"

definition ggml_vbuffer_size :: "alloc_state \<Rightarrow> ptr \<Rightarrow> int option" where
  "ggml_vbuffer_size st buf = do {
     chunks \<leftarrow> vbget st buf;
     for_each (\<lambda>p n. do { sz \<leftarrow> ggml_backend_buffer_get_size (as_bufs st) p; Some (u64 (n + sz)) })
       (takeWhile (\<lambda>p. p \<noteq> NULL) chunks) 0 }"

text \<open>One backend buffer per chunk; on a failure everything is given back and NULL is returned.\<close>

fun alloc_chunks :: "backend_sys \<Rightarrow> ptr \<Rightarrow> int \<Rightarrow> ptr \<Rightarrow> (nat \<times> tallocr_chunk) list \<Rightarrow> alloc_state \<Rightarrow> (ptr \<times> alloc_state) option" where
  "alloc_chunks sys buft usage buf [] st = Some (buf, st)"
| "alloc_chunks sys buft usage buf ((n, ch) # rest) st = do {
     (p, bufs) \<leftarrow> ggml_backend_buft_alloc_buffer sys buft (tc_max_size ch) (as_bufs st);
     chunks \<leftarrow> vbget st buf;
     gassert (n < length chunks);
     let st = st\<lparr> as_bufs := bufs, as_vbufs := (as_vbufs st)(buf \<mapsto> chunks[n := p]) \<rparr>;
     if p = NULL
     then do { st \<leftarrow> ggml_vbuffer_free buf st; Some (NULL, st) }
     else do {
       bufs \<leftarrow> ggml_backend_buffer_set_usage usage p (as_bufs st);
       alloc_chunks sys buft usage buf rest (st\<lparr> as_bufs := bufs \<rparr>) } }"

definition ggml_vbuffer_alloc :: "backend_sys \<Rightarrow> ptr \<Rightarrow> ggml_dyn_tallocr \<Rightarrow> int \<Rightarrow> alloc_state \<Rightarrow> (ptr \<times> alloc_state) option" where
  "ggml_vbuffer_alloc sys buft talloc usage st =
     (let buf = bs_calloc sys (as_vbufs st) in
      if buf = NULL then Some (NULL, st)
      else alloc_chunks sys buft usage buf (enumerate 0 (da_chunks talloc))
             (st\<lparr> as_vbufs := (as_vbufs st)(buf \<mapsto> replicate GGML_VBUFFER_MAX_CHUNKS NULL) \<rparr>))"

text \<open>The status of ggml_backend_tensor_alloc is dropped, as in the code.\<close>

definition ggml_vbuffer_tensor_alloc :: "backend_sys \<Rightarrow> ptr \<Rightarrow> ptr \<Rightarrow> buffer_address \<Rightarrow> alloc_state \<Rightarrow> alloc_state option" where
  "ggml_vbuffer_tensor_alloc sys buf tensor buf_addr st = do {
     chunks \<leftarrow> vbget st buf;
     gassert (0 \<le> ba_chunk buf_addr \<and> nat (ba_chunk buf_addr) < length chunks);
     let p = chunks ! nat (ba_chunk buf_addr);
     base \<leftarrow> ggml_backend_buffer_get_base (as_bufs st) p;
     (status, h) \<leftarrow> ggml_backend_tensor_alloc sys (as_bufs st) p tensor (u64 (base + ba_offset buf_addr)) (as_heap st);
     Some (st\<lparr> as_heap := h \<rparr>) }"

definition ggml_vbuffer_reset :: "ptr \<Rightarrow> alloc_state \<Rightarrow> unit option" where
  "ggml_vbuffer_reset buf st = do {
     chunks \<leftarrow> vbget st buf;
     for_each (\<lambda>p u. ggml_backend_buffer_reset (as_bufs st) p) (takeWhile (\<lambda>p. p \<noteq> NULL) chunks) () }"

section \<open>Reserve\<close>

definition no_alloc_slot :: tensor_alloc where
  "no_alloc_slot = \<lparr> ta_buffer_id = -1, ta_addr = GGML_BUFFER_ADDRESS_INVALID, ta_size_max = 0 \<rparr>"

definition zero_alloc :: tensor_alloc where
  "zero_alloc = \<lparr> ta_buffer_id = 0, ta_addr = \<lparr> ba_chunk = 0, ba_offset = 0 \<rparr>, ta_size_max = 0 \<rparr>"

text \<open>What is recorded for a tensor, from its hash value.\<close>

definition hash_slot :: "backend_ops \<Rightarrow> heap \<Rightarrow> ptr \<Rightarrow> ggml_gallocr \<Rightarrow> (tensor_alloc \<times> ggml_gallocr) option" where
  "hash_slot bo h x ga = do {
     (i, ga) \<leftarrow> ggml_gallocr_hash_get ga x;
     buft \<leftarrow> buft_at ga (hn_buffer_id (hn_at ga i));
     t \<leftarrow> tget h x;
     sz \<leftarrow> ggml_backend_buft_get_alloc_size bo buft t;
     Some (\<lparr> ta_buffer_id = hn_buffer_id (hn_at ga i), ta_addr = hn_addr (hn_at ga i), ta_size_max = sz \<rparr>, ga) }"

definition node_slot :: "backend_ops \<Rightarrow> heap \<Rightarrow> ptr \<Rightarrow> ggml_gallocr \<Rightarrow> (tensor_alloc \<times> ggml_gallocr) option" where
  "node_slot bo h x ga = do {
     t \<leftarrow> tget h x;
     if t_view_src t \<noteq> NULL \<or> t_data t \<noteq> NULL then Some (no_alloc_slot, ga) else hash_slot bo h x ga }"

definition src_slot :: "backend_ops \<Rightarrow> heap \<Rightarrow> ptr \<Rightarrow> ggml_gallocr \<Rightarrow> (tensor_alloc \<times> ggml_gallocr) option" where
  "src_slot bo h x ga = (if x = NULL then Some (no_alloc_slot, ga) else node_slot bo h x ga)"

text \<open>The slot of a leaf: the leaf is looked up before the test.\<close>

definition leaf_slot :: "backend_ops \<Rightarrow> heap \<Rightarrow> ptr \<Rightarrow> ggml_gallocr \<Rightarrow> (tensor_alloc \<times> ggml_gallocr) option" where
  "leaf_slot bo h x ga = do {
     (i, ga) \<leftarrow> ggml_gallocr_hash_get ga x;
     node_slot bo h x ga }"

fun slots :: "(ptr \<Rightarrow> ggml_gallocr \<Rightarrow> (tensor_alloc \<times> ggml_gallocr) option) \<Rightarrow> ptr list \<Rightarrow> ggml_gallocr \<Rightarrow>
    (tensor_alloc list \<times> ggml_gallocr) option" where
  "slots f [] ga = Some ([], ga)"
| "slots f (x # xs) ga = do { (s, ga) \<leftarrow> f x ga; (ss, ga) \<leftarrow> slots f xs ga; Some (s # ss, ga) }"

definition record_node :: "backend_ops \<Rightarrow> heap \<Rightarrow> nat \<times> ptr \<Rightarrow> ggml_gallocr \<Rightarrow> ggml_gallocr option" where
  "record_node bo h = (\<lambda>(i, node) ga. do {
     (dst, ga) \<leftarrow> node_slot bo h node ga;
     t \<leftarrow> tget h node;
     (src, ga) \<leftarrow> slots (src_slot bo h) (t_src t) ga;
     gassert (i < length (ga_node_allocs ga));
     Some (ga\<lparr> ga_node_allocs := (ga_node_allocs ga)[i := \<lparr> na_dst = dst, na_src = src \<rparr>] \<rparr>) })"

definition record_leaf :: "backend_ops \<Rightarrow> heap \<Rightarrow> nat \<times> ptr \<Rightarrow> ggml_gallocr \<Rightarrow> ggml_gallocr option" where
  "record_leaf bo h = (\<lambda>(i, leaf) ga. do {
     (s, ga) \<leftarrow> leaf_slot bo h leaf ga;
     gassert (i < length (ga_leaf_allocs ga));
     Some (ga\<lparr> ga_leaf_allocs := (ga_leaf_allocs ga)[i := s] \<rparr>) })"

text \<open>The plan is copied out of the hash table, so that it outlives it.\<close>

definition record_plan :: "backend_ops \<Rightarrow> heap \<Rightarrow> ggml_cgraph \<Rightarrow> ggml_gallocr \<Rightarrow> ggml_gallocr option" where
  "record_plan bo h g ga = do {
     let ga = (if ga_n_nodes ga < g_n_nodes g
               then ga\<lparr> ga_node_allocs := replicate (nat (g_n_nodes g)) \<lparr> na_dst = zero_alloc, na_src = replicate GGML_MAX_SRC zero_alloc \<rparr> \<rparr>
               else ga);
     ga \<leftarrow> for_each (record_node bo h) (enumerate 0 (g_node_list g)) (ga\<lparr> ga_n_nodes := g_n_nodes g \<rparr>);
     let ga = (if ga_n_leafs ga < g_n_leafs g
               then ga\<lparr> ga_leaf_allocs := replicate (nat (g_n_leafs g)) zero_alloc \<rparr> else ga);
     for_each (record_leaf bo h) (enumerate 0 (g_leaf_list g)) (ga\<lparr> ga_n_leafs := g_n_leafs g \<rparr>) }"

text \<open>The buffer of an earlier id with the same allocator (the first one).\<close>

fun shared_buffer :: "ggml_gallocr \<Rightarrow> nat \<Rightarrow> nat list \<Rightarrow> ptr" where
  "shared_buffer ga i [] = ga_buffers ga ! i"
| "shared_buffer ga i (j # js) =
     (if ga_buf_tallocs ga ! j = ga_buf_tallocs ga ! i then ga_buffers ga ! j else shared_buffer ga i js)"

definition chunk_too_small :: "alloc_state \<Rightarrow> ptr \<Rightarrow> ggml_dyn_tallocr \<Rightarrow> nat \<Rightarrow> bool \<Rightarrow> bool option" where
  "chunk_too_small st buf talloc c re = do {
     cur_chunk_size \<leftarrow> (if buf \<noteq> NULL then ggml_vbuffer_chunk_size st buf c else Some 0);
     Some (re \<or> ggml_dyn_tallocr_max_size talloc (int c) > cur_chunk_size) }"

text \<open>
  One turn of the loop that reallocates buffers.  The state carries whether the loop has ended with a failure;
  after that nothing happens.
\<close>

definition realloc_buffer ::
    "backend_sys \<Rightarrow> bool \<Rightarrow> nat \<Rightarrow> bool \<times> alloc_state \<times> ggml_gallocr \<Rightarrow> (bool \<times> alloc_state \<times> ggml_gallocr) option" where
  "realloc_buffer sys no_alloc i = (\<lambda>(ok, st, ga).
     if \<not> ok then Some (ok, st, ga)
     else do {
       let ga = ga\<lparr> ga_buffers := (ga_buffers ga)[i := shared_buffer ga i [0..<i]] \<rparr>;
       let buf = ga_buffers ga ! i;
       k \<leftarrow> talloc_index ga (int i);
       let talloc = ga_tallocs ga ! k;
       re \<leftarrow> for_each (chunk_too_small st buf talloc) [0..<length (da_chunks talloc)] (buf = NULL);
       if re
       then do {
         st \<leftarrow> ggml_vbuffer_free buf st;
         if no_alloc then Some (True, st, ga\<lparr> ga_buffers := (ga_buffers ga)[i := NULL] \<rparr>)
         else do {
           buft \<leftarrow> buft_at ga (int i);
           (p, st) \<leftarrow> ggml_vbuffer_alloc sys buft talloc GGML_BACKEND_BUFFER_USAGE_COMPUTE st;
           Some (p \<noteq> NULL, st, ga\<lparr> ga_buffers := (ga_buffers ga)[i := p] \<rparr>) } }
       else Some (True, st, ga) })"

definition reset_talloc :: "nat \<Rightarrow> ggml_gallocr \<Rightarrow> ggml_gallocr option" where
  "reset_talloc i ga = do {
     k \<leftarrow> talloc_index ga (int i);
     Some (set_talloc ga k (ggml_dyn_tallocr_reset (ga_tallocs ga ! k))) }"

text \<open>
  The hash table has room for all tensors of the graph and a quarter more.  The contents of fresh memory
  (\<open>junk\<close>) do not matter: the plan clears the table.
\<close>

definition size_table :: "(nat \<Rightarrow> ptr) \<Rightarrow> ggml_cgraph \<Rightarrow> ggml_gallocr \<Rightarrow> ggml_gallocr" where
  "size_table junk g ga =
     (let n = u64 (i32 (g_n_nodes g + g_n_leafs g)); min_hash_size = u64 (n + n div 4) in
      if int (hs_size (ga_hash_set ga)) < min_hash_size
      then let hs = ggml_hash_set_new junk (nat min_hash_size) in
           ga\<lparr> ga_hash_set := hs, ga_hash_values := replicate (hs_size hs) zero_node \<rparr>
      else ga)"

definition ggml_gallocr_reserve_n_impl ::
    "(nat \<Rightarrow> ptr) \<Rightarrow> backend_sys \<Rightarrow> ggml_cgraph \<Rightarrow> int list option \<Rightarrow> int list option \<Rightarrow> bool \<Rightarrow> alloc_state \<Rightarrow> ggml_gallocr \<Rightarrow>
     (bool \<times> alloc_state \<times> ggml_gallocr) option" where
  "ggml_gallocr_reserve_n_impl junk sys g node_buffer_ids leaf_buffer_ids no_alloc st ga = do {
     let h = as_heap st;
     ga \<leftarrow> for_each reset_talloc [0..<length (ga_bufts ga)] (size_table junk g ga);
     ga \<leftarrow> ggml_gallocr_alloc_graph_impl (bs_ops sys) h g node_buffer_ids leaf_buffer_ids ga;
     ga \<leftarrow> record_plan (bs_ops sys) h g ga;
     for_each (realloc_buffer sys no_alloc) [0..<length (ga_bufts ga)] (True, st, ga) }"

definition ggml_gallocr_reserve_n_size ::
    "(nat \<Rightarrow> ptr) \<Rightarrow> backend_sys \<Rightarrow> ggml_cgraph \<Rightarrow> int list option \<Rightarrow> int list option \<Rightarrow> alloc_state \<Rightarrow> ggml_gallocr \<Rightarrow>
     (int list \<times> alloc_state \<times> ggml_gallocr) option" where
  "ggml_gallocr_reserve_n_size junk sys g node_buffer_ids leaf_buffer_ids st ga = do {
     (ok, st, ga) \<leftarrow> ggml_gallocr_reserve_n_impl junk sys g node_buffer_ids leaf_buffer_ids True st ga;
     gassert ok;
     sizes \<leftarrow> for_each (\<lambda>i sizes. do {
         k \<leftarrow> talloc_index ga (int i);
         Some (sizes @ [fold (\<lambda>ch n. u64 (n + tc_max_size ch)) (da_chunks (ga_tallocs ga ! k)) 0]) })
       [0..<length (ga_bufts ga)] [];
     Some (sizes, st, ga) }"

definition ggml_gallocr_reserve_n ::
    "(nat \<Rightarrow> ptr) \<Rightarrow> backend_sys \<Rightarrow> ggml_cgraph \<Rightarrow> int list option \<Rightarrow> int list option \<Rightarrow> alloc_state \<Rightarrow> ggml_gallocr \<Rightarrow>
     (bool \<times> alloc_state \<times> ggml_gallocr) option" where
  "ggml_gallocr_reserve_n junk sys g node_buffer_ids leaf_buffer_ids st ga =
     ggml_gallocr_reserve_n_impl junk sys g node_buffer_ids leaf_buffer_ids False st ga"

definition ggml_gallocr_reserve ::
    "(nat \<Rightarrow> ptr) \<Rightarrow> backend_sys \<Rightarrow> ggml_cgraph \<Rightarrow> alloc_state \<Rightarrow> ggml_gallocr \<Rightarrow> (bool \<times> alloc_state \<times> ggml_gallocr) option" where
  "ggml_gallocr_reserve junk sys g st ga = ggml_gallocr_reserve_n junk sys g None None st ga"

section \<open>Allocation of a graph\<close>

definition ggml_gallocr_init_tensor :: "backend_sys \<Rightarrow> ggml_gallocr \<Rightarrow> ptr \<Rightarrow> tensor_alloc \<Rightarrow> alloc_state \<Rightarrow> alloc_state option" where
  "ggml_gallocr_init_tensor sys ga tensor slot st = do {
     t \<leftarrow> tget (as_heap st) tensor;
     if t_view_src t \<noteq> NULL
     then
       if t_buffer t = NULL
       then do {
         v \<leftarrow> tget (as_heap st) (t_view_src t);
         if t_buffer v = NULL then Some st
         else do {
           (status, h) \<leftarrow> ggml_backend_view_init (as_bufs st) tensor (as_heap st);
           Some (st\<lparr> as_heap := h \<rparr>) } }
       else Some st
     else
       if t_data t = NULL
       then do {
         gassert (0 \<le> ta_buffer_id slot \<and> nat (ta_buffer_id slot) < length (ga_buffers ga));
         ggml_vbuffer_tensor_alloc sys (ga_buffers ga ! nat (ta_buffer_id slot)) tensor (ta_addr slot) st }
       else Some st }"

text \<open>True when the recorded slot still has room for the tensor.\<close>

definition ggml_gallocr_node_needs_realloc ::
    "backend_ops \<Rightarrow> heap \<Rightarrow> ggml_gallocr \<Rightarrow> ptr \<Rightarrow> tensor_alloc \<Rightarrow> bool option" where
  "ggml_gallocr_node_needs_realloc bo h ga node talloc = do {
     t \<leftarrow> tget h node;
     if t_data t = NULL \<and> t_view_src t = NULL
     then
       if ta_buffer_id talloc < 0 then Some False
       else do {
         buft \<leftarrow> buft_at ga (ta_buffer_id talloc);
         node_size \<leftarrow> ggml_backend_buft_get_alloc_size bo buft t;
         Some (ta_size_max talloc \<ge> node_size) }
     else Some (ta_size_max talloc \<ge> 0) }"

fun srcs_fit :: "backend_ops \<Rightarrow> heap \<Rightarrow> ggml_gallocr \<Rightarrow> ptr list \<Rightarrow> tensor_alloc list \<Rightarrow> bool option" where
  "srcs_fit bo h ga (x # xs) (s # ss) =
     (if x = NULL then srcs_fit bo h ga xs ss
      else do {
        ok \<leftarrow> ggml_gallocr_node_needs_realloc bo h ga x s;
        if ok then srcs_fit bo h ga xs ss else Some False })"
| "srcs_fit bo h ga [] ss = Some True"
| "srcs_fit bo h ga (x # xs) [] = None"

fun nodes_fit :: "backend_ops \<Rightarrow> heap \<Rightarrow> ggml_gallocr \<Rightarrow> (nat \<times> ptr) list \<Rightarrow> bool option" where
  "nodes_fit bo h ga [] = Some True"
| "nodes_fit bo h ga ((i, node) # rest) = do {
     gassert (i < length (ga_node_allocs ga));
     let na = ga_node_allocs ga ! i;
     ok \<leftarrow> ggml_gallocr_node_needs_realloc bo h ga node (na_dst na);
     if \<not> ok then Some False
     else do {
       t \<leftarrow> tget h node;
       ok \<leftarrow> srcs_fit bo h ga (t_src t) (na_src na);
       if ok then nodes_fit bo h ga rest else Some False } }"

definition ggml_gallocr_needs_realloc :: "backend_ops \<Rightarrow> heap \<Rightarrow> ggml_gallocr \<Rightarrow> ggml_cgraph \<Rightarrow> bool option" where
  "ggml_gallocr_needs_realloc bo h ga g =
     (if ga_n_nodes ga \<noteq> g_n_nodes g then Some True
      else if ga_n_leafs ga \<noteq> g_n_leafs g then Some True
      else do { ok \<leftarrow> nodes_fit bo h ga (enumerate 0 (g_node_list g)); Some (\<not> ok) })"

definition init_leaf :: "backend_sys \<Rightarrow> ggml_gallocr \<Rightarrow> nat \<times> ptr \<Rightarrow> alloc_state \<Rightarrow> alloc_state option" where
  "init_leaf sys ga = (\<lambda>(i, leaf) st. do {
     gassert (i < length (ga_leaf_allocs ga));
     ggml_gallocr_init_tensor sys ga leaf (ga_leaf_allocs ga ! i) st })"

definition init_src :: "backend_sys \<Rightarrow> ggml_gallocr \<Rightarrow> ptr \<times> tensor_alloc \<Rightarrow> alloc_state \<Rightarrow> alloc_state option" where
  "init_src sys ga = (\<lambda>(src, slot) st.
     if src = NULL then Some st else ggml_gallocr_init_tensor sys ga src slot st)"

definition init_node :: "backend_sys \<Rightarrow> ggml_gallocr \<Rightarrow> nat \<times> ptr \<Rightarrow> alloc_state \<Rightarrow> alloc_state option" where
  "init_node sys ga = (\<lambda>(i, node) st. do {
     gassert (i < length (ga_node_allocs ga));
     t \<leftarrow> tget (as_heap st) node;
     st \<leftarrow> for_each (init_src sys ga) (zip (t_src t) (na_src (ga_node_allocs ga ! i))) st;
     ggml_gallocr_init_tensor sys ga node (na_dst (ga_node_allocs ga ! i)) st })"

definition ggml_gallocr_alloc_graph ::
    "(nat \<Rightarrow> ptr) \<Rightarrow> backend_sys \<Rightarrow> ggml_cgraph \<Rightarrow> alloc_state \<Rightarrow> ggml_gallocr \<Rightarrow> (bool \<times> alloc_state \<times> ggml_gallocr) option" where
  "ggml_gallocr_alloc_graph junk sys g st ga = do {
     re \<leftarrow> ggml_gallocr_needs_realloc (bs_ops sys) (as_heap st) ga g;
     (ok, st, ga) \<leftarrow>
       (if re
        then if length (ga_bufts ga) = 1 then ggml_gallocr_reserve junk sys g st ga else Some (False, st, ga)
        else Some (True, st, ga));
     if \<not> ok then Some (False, st, ga)
     else do {
       _ \<leftarrow> for_each (\<lambda>p u. if p \<noteq> NULL then ggml_vbuffer_reset p st else Some ()) (ga_buffers ga) ();
       st \<leftarrow> for_each (init_leaf sys ga) (enumerate 0 (g_leaf_list g)) st;
       st \<leftarrow> for_each (init_node sys ga) (enumerate 0 (g_node_list g)) st;
       Some (True, st, ga) } }"

definition ggml_gallocr_get_buffer_size :: "alloc_state \<Rightarrow> ggml_gallocr \<Rightarrow> int \<Rightarrow> int option" where
  "ggml_gallocr_get_buffer_size st ga buffer_id = do {
     gassert (0 \<le> buffer_id \<and> buffer_id < int (length (ga_buffers ga)));
     let buf = ga_buffers ga ! nat buffer_id;
     if buf = NULL then Some 0
     else if buf \<in> set (take (nat buffer_id) (ga_buffers ga)) then Some 0
     else ggml_vbuffer_size st buf }"

text \<open>ggml_gallocr_free gives back every virtual buffer once.\<close>

definition ggml_gallocr_free :: "ggml_gallocr \<Rightarrow> alloc_state \<Rightarrow> alloc_state option" where
  "ggml_gallocr_free ga st =
     for_each (\<lambda>i st. if ga_buffers ga ! i \<in> set (take i (ga_buffers ga)) then Some st
                      else ggml_vbuffer_free (ga_buffers ga ! i) st) [0..<length (ga_buffers ga)] st"

section \<open>The linear allocator\<close>

record ggml_tallocr =
  tr_buffer :: ptr
  tr_base :: ptr
  tr_alignment :: int
  tr_offset :: int

definition ggml_tallocr_new :: "backend_sys \<Rightarrow> buffer_map \<Rightarrow> ptr \<Rightarrow> ggml_tallocr option" where
  "ggml_tallocr_new sys bufs buffer = do {
     base \<leftarrow> ggml_backend_buffer_get_base bufs buffer;
     align \<leftarrow> ggml_backend_buffer_get_alignment sys bufs buffer;
     offset \<leftarrow> aligned_offset base 0 align;
     Some \<lparr> tr_buffer = buffer, tr_base = base, tr_alignment = align, tr_offset = offset \<rparr> }"

definition ggml_tallocr_alloc :: "backend_sys \<Rightarrow> buffer_map \<Rightarrow> ptr \<Rightarrow> ggml_tallocr \<Rightarrow> heap \<Rightarrow> (int \<times> ggml_tallocr \<times> heap) option" where
  "ggml_tallocr_alloc sys bufs tensor talloc h = do {
     t \<leftarrow> tget h tensor;
     sz \<leftarrow> ggml_backend_buffer_get_alloc_size sys bufs (tr_buffer talloc) t;
     let sz = GGML_PAD sz (tr_alignment talloc);
     buffer_size \<leftarrow> ggml_backend_buffer_get_size bufs (tr_buffer talloc);
     gassert (u64 (tr_offset talloc + sz) \<le> buffer_size);
     base \<leftarrow> ggml_backend_buffer_get_base bufs (tr_buffer talloc);
     let addr = u64 (base + tr_offset talloc);
     (status, h) \<leftarrow> ggml_backend_tensor_alloc sys bufs (tr_buffer talloc) tensor addr h;
     Some (status, talloc\<lparr> tr_offset := u64 (tr_offset talloc + sz) \<rparr>, h) }"

section \<open>All tensors of a context\<close>

definition free_buffers :: "ptr list \<Rightarrow> buffer_map \<Rightarrow> buffer_map option" where
  "free_buffers buffers bufs = for_each ggml_backend_buffer_free buffers bufs"

text \<open>
  One tensor of alloc_tensor_range.
\<close>

definition place_in_range :: "backend_sys \<Rightarrow> buffer_map \<Rightarrow> ptr \<Rightarrow> ggml_tallocr \<Rightarrow> heap \<Rightarrow> (int \<times> ggml_tallocr \<times> heap) option" where
  "place_in_range sys bufs tensor tr h = do {
     t \<leftarrow> tget h tensor;
     if t_data t = NULL
     then
       if t_view_src t = NULL then ggml_tallocr_alloc sys bufs tensor tr h
       else if t_buffer t = NULL then do { (s, h) \<leftarrow> ggml_backend_view_init bufs tensor h; Some (s, tr, h) }
       else Some (GGML_STATUS_SUCCESS, tr, h)
     else if t_view_src t \<noteq> NULL \<and> t_buffer t = NULL
     then do { (s, h) \<leftarrow> ggml_backend_view_init bufs tensor h; Some (s, tr, h) }
     else Some (GGML_STATUS_SUCCESS, tr, h) }"

text \<open>
  The walk over the tensors of the context from \<open>t\<close> up to \<open>last\<close>: True when all were placed.  It follows the
  object list, and so may not end on a malformed one.
\<close>

partial_function (option) place_range ::
    "backend_sys \<Rightarrow> buffer_map \<Rightarrow> ptr \<Rightarrow> ptr \<Rightarrow> ptr \<Rightarrow> ggml_tallocr \<Rightarrow> heap \<Rightarrow> (bool \<times> heap) option" where
  "place_range sys bufs ctx t stop tr h =
     (if t = stop then Some (True, h)
      else do {
        (status, tr, h) \<leftarrow> place_in_range sys bufs t tr h;
        if status \<noteq> GGML_STATUS_SUCCESS then Some (False, h)
        else do { next \<leftarrow> ggml_get_next_tensor h ctx t; place_range sys bufs ctx next stop tr h } })"

definition alloc_tensor_range ::
    "backend_sys \<Rightarrow> ptr \<Rightarrow> ptr \<Rightarrow> ptr \<Rightarrow> ptr \<Rightarrow> int \<Rightarrow> ptr list \<times> alloc_state \<Rightarrow> (bool \<times> ptr list \<times> alloc_state) option" where
  "alloc_tensor_range sys ctx first stop buft sz = (\<lambda>(buffers, st). do {
     (buffer, bufs) \<leftarrow> ggml_backend_buft_alloc_buffer sys buft sz (as_bufs st);
     if buffer = NULL
     then do { bufs \<leftarrow> free_buffers buffers bufs; Some (False, [], st\<lparr> as_bufs := bufs \<rparr>) }
     else do {
       let buffers = buffers @ [buffer];
       tr \<leftarrow> ggml_tallocr_new sys bufs buffer;
       (ok, h) \<leftarrow> place_range sys bufs ctx first stop tr (as_heap st);
       if ok then Some (True, buffers, st\<lparr> as_bufs := bufs, as_heap := h \<rparr>)
       else do { bufs \<leftarrow> free_buffers buffers bufs; Some (False, [], st\<lparr> as_bufs := bufs, as_heap := h \<rparr>) } } })"

text \<open>
  The loop over the tensors of the context: it cuts them into runs that fit a buffer.  The state is the first
  tensor of the run, the bytes of the run, the bytes so far, and the buffers; False when an allocation failed.
\<close>

type_synonym ctx_run = "ptr \<times> int \<times> int \<times> ptr list \<times> alloc_state"

partial_function (option) cut_runs ::
    "backend_sys \<Rightarrow> ptr \<Rightarrow> ptr \<Rightarrow> int \<Rightarrow> int \<Rightarrow> bool \<Rightarrow> ptr \<Rightarrow> ptr \<Rightarrow> int \<Rightarrow> int \<Rightarrow> ptr list \<Rightarrow> alloc_state \<Rightarrow>
     (bool \<times> ctx_run) option" where
  "cut_runs sys ctx buft alignment max_size no_alloc t first cur nbytes buffers st =
    (if t = NULL then Some (True, first, cur, nbytes, buffers, st)
     else do {
       x \<leftarrow> tget (as_heap st) t;
       this_size \<leftarrow> (if t_data x = NULL \<and> t_view_src x = NULL
         then do { n \<leftarrow> ggml_backend_buft_get_alloc_size (bs_ops sys) buft x; Some (GGML_PAD n alignment) }
         else Some 0);
       if cur > 0 \<and> u64 (cur + this_size) > max_size
       then do {
         (ok, buffers, st) \<leftarrow>
           (if no_alloc then Some (True, buffers, st) else alloc_tensor_range sys ctx first t buft cur (buffers, st));
         if \<not> ok then Some (False, first, cur, nbytes, buffers, st)
         else do {
           next \<leftarrow> ggml_get_next_tensor (as_heap st) ctx t;
           cut_runs sys ctx buft alignment max_size no_alloc next t this_size (u64 (nbytes + cur)) buffers st } }
       else do {
         next \<leftarrow> ggml_get_next_tensor (as_heap st) ctx t;
         cut_runs sys ctx buft alignment max_size no_alloc next first (u64 (cur + this_size)) nbytes buffers st } })"

definition ggml_backend_alloc_ctx_tensors_from_buft_impl ::
    "backend_sys \<Rightarrow> ptr \<Rightarrow> ptr \<Rightarrow> bool \<Rightarrow> alloc_state \<Rightarrow> (ptr \<times> int \<times> alloc_state) option" where
  "ggml_backend_alloc_ctx_tensors_from_buft_impl sys ctx buft no_alloc st = do {
     na \<leftarrow> ggml_get_no_alloc (as_heap st) ctx;
     gassert na;
     alignment \<leftarrow> ggml_backend_buft_get_alignment (bs_ops sys) buft;
     max_size \<leftarrow> ggml_backend_buft_get_max_size (bs_ops sys) buft;
     first \<leftarrow> ggml_get_first_tensor (as_heap st) ctx;
     (ok, first, cur, nbytes, buffers, st) \<leftarrow>
       cut_runs sys ctx buft alignment max_size no_alloc first first 0 0 [] st;
     if \<not> ok then Some (NULL, nbytes, st)
     else do {
       (ok, nbytes, buffers, st) \<leftarrow>
         (if cur > 0
          then do {
            (ok, buffers, st) \<leftarrow>
              (if no_alloc then Some (True, buffers, st) else alloc_tensor_range sys ctx first NULL buft cur (buffers, st));
            Some (ok, u64 (nbytes + cur), buffers, st) }
          else Some (True, nbytes, buffers, st));
       if \<not> ok \<or> no_alloc \<or> buffers = [] then Some (NULL, nbytes, st)
       else if length buffers = 1 then Some (hd buffers, nbytes, st)
       else do {
         (p, bufs) \<leftarrow> ggml_backend_multi_buffer_alloc_buffer sys buffers (as_bufs st);
         Some (p, nbytes, st\<lparr> as_bufs := bufs \<rparr>) } } }"

definition ggml_backend_alloc_ctx_tensors_from_buft_size :: "backend_sys \<Rightarrow> ptr \<Rightarrow> ptr \<Rightarrow> alloc_state \<Rightarrow> int option" where
  "ggml_backend_alloc_ctx_tensors_from_buft_size sys ctx buft st = do {
     (buf, nbytes, st) \<leftarrow> ggml_backend_alloc_ctx_tensors_from_buft_impl sys ctx buft True st;
     gassert (buf = NULL);
     Some nbytes }"

definition ggml_backend_alloc_ctx_tensors_from_buft :: "backend_sys \<Rightarrow> ptr \<Rightarrow> ptr \<Rightarrow> alloc_state \<Rightarrow> (ptr \<times> alloc_state) option" where
  "ggml_backend_alloc_ctx_tensors_from_buft sys ctx buft st = do {
     (buf, nbytes, st) \<leftarrow> ggml_backend_alloc_ctx_tensors_from_buft_impl sys ctx buft False st;
     Some (buf, st) }"

end
