(* ===== verification/GallocProps.thy ===== *)
theory GallocProps
  imports Galloc GraphOps
begin

text \<open>
  What the planner of ggml-alloc.c guarantees: the books it keeps (one range per tensor that is allocated,
  all apart from each other and from what is free), and that no node is given bytes that a later node reads.
\<close>

section \<open>The table of hash values\<close>

definition table_ok :: "ggml_gallocr \<Rightarrow> bool" where
  "table_ok ga \<longleftrightarrow> hs_inv (ga_hash_set ga) \<and> length (ga_hash_values ga) = hs_size (ga_hash_set ga) \<and>
     (\<forall>i < hs_size (ga_hash_set ga). \<not> hs_get (ga_hash_set ga) i \<longrightarrow> hn_at ga i = zero_node)"

abbreviation slot_of :: "ggml_gallocr \<Rightarrow> nat \<Rightarrow> ptr \<Rightarrow> bool" where
  "slot_of ga i x \<equiv> hs_occupied (ga_hash_set ga) i x"

text \<open>The hash value of a tensor; a tensor that was never looked up has the initial one.\<close>

definition node_at :: "ggml_gallocr \<Rightarrow> ptr \<Rightarrow> hash_node" where
  "node_at ga x =
     (case List.find (\<lambda>i. slot_of ga i x) [0..<hs_size (ga_hash_set ga)] of
        None \<Rightarrow> zero_node | Some i \<Rightarrow> hn_at ga i)"

lemma node_at_slot: "table_ok ga \<Longrightarrow> slot_of ga i x \<Longrightarrow> node_at ga x = hn_at ga i"
proof -
  assume ok: "table_ok ga" and i: "slot_of ga i x"
  then have "hs_inv (ga_hash_set ga)" "i < hs_size (ga_hash_set ga)" by (simp_all add: table_ok_def hs_occupied_def)
  then show ?thesis using hs_occupied_unique i
    by (auto simp: node_at_def find_None_iff find_Some_iff split: option.split)
qed

lemma node_at_none: "(\<And>i. \<not> slot_of ga i x) \<Longrightarrow> node_at ga x = zero_node"
  by (simp add: node_at_def find_None_iff split: option.split) (metis find_Some_iff nth_upt)

text \<open>The fields the planner does not change.\<close>

definition static_of :: "ggml_gallocr \<Rightarrow> ptr list \<times> ptr list \<times> nat list \<times> nat" where
  "static_of ga = (ga_bufts ga, ga_buffers ga, ga_buf_tallocs ga, hs_size (ga_hash_set ga))"

definition slots_kept :: "ggml_gallocr \<Rightarrow> ggml_gallocr \<Rightarrow> bool" where
  "slots_kept ga ga' \<longleftrightarrow> static_of ga' = static_of ga \<and> (\<forall>j y. slot_of ga j y \<longrightarrow> slot_of ga' j y)"

lemma slots_kept_refl [simp]: "slots_kept ga ga"
  by (simp add: slots_kept_def)

lemma slots_kept_trans: "slots_kept a b \<Longrightarrow> slots_kept b c \<Longrightarrow> slots_kept a c"
  by (simp add: slots_kept_def)

lemma hash_getD:
  assumes ok: "table_ok ga" and r: "ggml_gallocr_hash_get ga x = Some (i, ga')"
  shows "table_ok ga'" "slot_of ga' i x" "node_at ga' = node_at ga" "hn_at ga' i = node_at ga x"
    "slots_kept ga ga'" "ga_tallocs ga' = ga_tallocs ga"
proof -
  let ?hs = "ga_hash_set ga"
  have inv: "hs_inv ?hs" using ok by (simp add: table_ok_def)
  obtain hs where f: "ggml_hash_find_or_insert ?hs x = Some (i, hs)" and ga': "ga' = ga\<lparr> ga_hash_set := hs \<rparr>"
    using r by (auto simp: ggml_gallocr_hash_get_def bind_Some_iff split: if_splits)
  have D: "hs_size hs = hs_size ?hs \<and> hs_inv hs \<and> hs_occupied hs i x \<and>
      (\<forall>j y. hs_occupied ?hs j y \<longrightarrow> hs_occupied hs j y) \<and>
      (\<forall>j y. hs_occupied hs j y \<longrightarrow> hs_occupied ?hs j y \<or> (j = i \<and> y = x \<and> \<not> hs_get ?hs i)) \<and>
      (\<forall>j < hs_size ?hs. \<not> hs_get hs j \<longrightarrow> \<not> hs_get ?hs j)"
  proof (cases "x \<in> hs_set ?hs")
    case True
    then show ?thesis
      using hash_insert_spec [OF inv f [unfolded ggml_hash_find_or_insert_home]] inv by (auto simp: hs_occupied_def)
  next
    case False
    then have h: "hs = hs_put ?hs i x" "i < hs_size ?hs" "\<not> hs_get ?hs i" "hs_inv hs"
      using hash_insert_spec [OF inv f [unfolded ggml_hash_find_or_insert_home]] by (auto split: if_splits)
    then show ?thesis
      using hs_put_occupied [OF inv h(2,3)] hs_put_get [OF inv h(2)] hs_invD(3) [OF inv]
      by (auto simp: hs_occupied_def nth_list_update split: if_splits)
  qed
  have len: "length (ga_hash_values ga) = hs_size ?hs" using ok by (simp add: table_ok_def)
  show "table_ok ga'" using D ok by (auto simp: ga' table_ok_def)
  show slot: "slot_of ga' i x" using D by (simp add: ga')
  show "slots_kept ga ga'" "ga_tallocs ga' = ga_tallocs ga" using D by (simp_all add: slots_kept_def static_of_def ga')
  have i: "i < hs_size ?hs" using D by (auto simp: hs_occupied_def)
  show eq: "node_at ga' = node_at ga"
  proof
    fix y show "node_at ga' y = node_at ga y"
    proof (cases "\<exists>j. slot_of ga j y")
      case True
      then obtain j where j: "slot_of ga j y" ..
      then have "slot_of ga' j y" using D by (simp add: ga')
      then show ?thesis using node_at_slot [OF \<open>table_ok ga'\<close>] node_at_slot [OF ok j] by (simp add: ga')
    next
      case False
      then have n: "node_at ga y = zero_node" by (intro node_at_none) blast
      show ?thesis
      proof (cases "\<exists>j. slot_of ga' j y")
        case True
        then obtain j where j: "slot_of ga' j y" ..
        then have "hs_occupied hs j y" by (simp add: ga')
        then have "j = i \<and> \<not> hs_get ?hs i" using D False by blast
        then have "hn_at ga j = zero_node" using ok i by (simp add: table_ok_def)
        then show ?thesis using node_at_slot [OF \<open>table_ok ga'\<close> j] n by (simp add: ga')
      next
        case False
        then have "node_at ga' y = zero_node" by (intro node_at_none) blast
        then show ?thesis using n by simp
      qed
    qed
  qed
  show "hn_at ga' i = node_at ga x" using node_at_slot [OF \<open>table_ok ga'\<close> slot] eq by simp
qed

lemma set_hnD:
  assumes ok: "table_ok ga" and i: "slot_of ga i x"
  shows "table_ok (set_hn ga i f)" "node_at (set_hn ga i f) = (node_at ga)(x := f (node_at ga x))"
    "slots_kept ga (set_hn ga i f)" "ga_tallocs (set_hn ga i f) = ga_tallocs ga"
proof -
  let ?ga = "set_hn ga i f"
  have hs: "ga_hash_set ?ga = ga_hash_set ga" by (simp add: set_hn_def)
  have il: "i < hs_size (ga_hash_set ga)" "i < length (ga_hash_values ga)" "hs_get (ga_hash_set ga) i"
    using i ok by (auto simp: hs_occupied_def table_ok_def)
  show ok': "table_ok ?ga" using ok il by (auto simp: table_ok_def set_hn_def nth_list_update)
  show "slots_kept ga ?ga" "ga_tallocs ?ga = ga_tallocs ga" by (simp_all add: slots_kept_def static_of_def set_hn_def)
  show "node_at ?ga = (node_at ga)(x := f (node_at ga x))"
  proof
    fix y show "node_at ?ga y = ((node_at ga)(x := f (node_at ga x))) y"
    proof (cases "\<exists>j. slot_of ga j y")
      case True
      then obtain j where j: "slot_of ga j y" ..
      then have j': "slot_of ?ga j y" by (simp add: hs)
      have "j = i \<longleftrightarrow> y = x" using i j hs_occupied_unique ok by (auto simp: table_ok_def hs_occupied_def)
      then show ?thesis using node_at_slot [OF ok' j'] node_at_slot [OF ok j] node_at_slot [OF ok i] il
        by (auto simp: set_hn_def nth_list_update)
    next
      case False
      then have "y \<noteq> x" using i by blast
      have "node_at ga y = zero_node" by (rule node_at_none) (use False in blast)
      moreover have "node_at ?ga y = zero_node" by (rule node_at_none) (use False hs in auto)
      ultimately show ?thesis using \<open>y \<noteq> x\<close> by simp
    qed
  qed
qed

lemma set_tallocD:
  "table_ok ga \<Longrightarrow> table_ok (set_talloc ga k al)" "node_at (set_talloc ga k al) = node_at ga"
  "slots_kept ga (set_talloc ga k al)" "ga_tallocs (set_talloc ga k al) = (ga_tallocs ga)[k := al]"
  "hn_at (set_talloc ga k al) i = hn_at ga i" "slot_of (set_talloc ga k al) i x = slot_of ga i x"
  by (auto simp: set_talloc_def table_ok_def node_at_def slots_kept_def static_of_def fun_eq_iff split: option.split)


section \<open>The books\<close>

definition tsize :: "backend_ops \<Rightarrow> ptr \<Rightarrow> ggml_tensor \<Rightarrow> int" where
  "tsize bo buft t = (case bo_alloc_size bo buft of Some f \<Rightarrow> f t | None \<Rightarrow> ggml_nbytes t)"

lemma get_alloc_size_Some: "ggml_backend_buft_get_alloc_size bo buft t = Some n \<longleftrightarrow> buft \<noteq> NULL \<and> n = tsize bo buft t"
  by (auto simp: ggml_backend_buft_get_alloc_size_def tsize_def split: if_splits)

text \<open>The tensors the planner has to place, among those of the graph (\<open>X\<close>).\<close>

definition planned :: "heap \<Rightarrow> ptr set \<Rightarrow> ptr \<Rightarrow> bool" where
  "planned h X x \<longleftrightarrow> x \<in> X \<and> x \<noteq> NULL \<and>
     (\<exists>t. h_tensors h x = Some t \<and> t_view_src t = NULL \<and> t_data t = NULL \<and> t_buffer t = NULL)"

definition aligns :: "ggml_gallocr \<Rightarrow> int list" where
  "aligns ga = map da_alignment (ga_tallocs ga)"

definition talloc_of :: "ggml_gallocr \<Rightarrow> int \<Rightarrow> nat" where
  "talloc_of ga b = ga_buf_tallocs ga ! nat b"

definition need :: "backend_ops \<Rightarrow> heap \<Rightarrow> ggml_gallocr \<Rightarrow> int \<Rightarrow> ptr \<Rightarrow> int" where
  "need bo h ga b x = tsize bo (ga_bufts ga ! nat b) (the (h_tensors h x))"

text \<open>
  The tables of the allocator fit each other, and every tensor that is to be placed has a size above zero that can be
  padded without overflow.  The size above zero is a condition of the theorems, not a test of the code: for an empty
  tensor the code reserves no bytes, and releasing it puts an empty block into the free list.
\<close>

definition env_ok :: "backend_ops \<Rightarrow> heap \<Rightarrow> ptr set \<Rightarrow> ggml_gallocr \<Rightarrow> bool" where
  "env_ok bo h X ga \<longleftrightarrow> length (ga_bufts ga) = length (ga_buf_tallocs ga) \<and>
     (\<forall>k \<in> set (ga_buf_tallocs ga). k < length (ga_tallocs ga)) \<and>
     (\<forall>b x. 0 \<le> b \<longrightarrow> nat b < length (ga_bufts ga) \<longrightarrow> planned h X x \<longrightarrow>
        0 < need bo h ga b x \<and> padded (aligns ga ! talloc_of ga b) (need bo h ga b x) \<le> SIZE_MAX div 2)"

definition span :: "backend_ops \<Rightarrow> heap \<Rightarrow> ggml_gallocr \<Rightarrow> int \<Rightarrow> ptr \<Rightarrow> int" where
  "span bo h ga b x = padded (aligns ga ! talloc_of ga b) (need bo h ga b x)"

text \<open>Addresses of the plan: an allocator, a chunk of it, a byte of the chunk.\<close>

definition place :: "nat \<Rightarrow> buffer_address \<Rightarrow> int \<Rightarrow> (nat \<times> int \<times> int) set" where
  "place k addr n = {k} \<times> cells addr n"

definition range_of :: "backend_ops \<Rightarrow> heap \<Rightarrow> ggml_gallocr \<Rightarrow> ptr \<Rightarrow> (nat \<times> int \<times> int) set" where
  "range_of bo h ga x = (let n = node_at ga x; b = hn_buffer_id n in
     place (talloc_of ga b) (hn_addr n) (span bo h ga b x))"

definition free_of :: "ggml_gallocr \<Rightarrow> (nat \<times> int \<times> int) set" where
  "free_of ga = {(k, c). k < length (ga_tallocs ga) \<and> c \<in> avail (ga_tallocs ga ! k)}"

definition holds :: "backend_ops \<Rightarrow> heap \<Rightarrow> ptr set \<Rightarrow> ggml_gallocr \<Rightarrow> ptr \<Rightarrow> bool" where
  "holds bo h X ga x \<longleftrightarrow> planned h X x \<and> (let n = node_at ga x; b = hn_buffer_id n in
     0 \<le> b \<and> nat b < length (ga_bufts ga) \<and>
     in_range (ga_tallocs ga ! talloc_of ga b) (hn_addr n) (span bo h ga b x)) \<and>
     range_of bo h ga x \<inter> free_of ga = {}"

abbreviation allocated :: "ggml_gallocr \<Rightarrow> ptr \<Rightarrow> bool" where
  "allocated ga x \<equiv> hn_allocated (node_at ga x)"

definition books :: "backend_ops \<Rightarrow> heap \<Rightarrow> ptr set \<Rightarrow> ggml_gallocr \<Rightarrow> bool" where
  "books bo h X ga \<longleftrightarrow> table_ok ga \<and> env_ok bo h X ga \<and> (\<forall>al \<in> set (ga_tallocs ga). dyn_ok al) \<and>
     (\<forall>x. allocated ga x \<longrightarrow> holds bo h X ga x) \<and>
     (\<forall>x y. allocated ga x \<longrightarrow> allocated ga y \<longrightarrow> x \<noteq> y \<longrightarrow> range_of bo h ga x \<inter> range_of bo h ga y = {})"

text \<open>What stays through planning: the buffers, the slots, the alignments, the bounds of ranges.\<close>

definition kept_ranges :: "ggml_gallocr \<Rightarrow> ggml_gallocr \<Rightarrow> bool" where
  "kept_ranges ga ga' \<longleftrightarrow> (\<forall>k a n. k < length (ga_tallocs ga) \<longrightarrow>
     in_range (ga_tallocs ga ! k) a n \<longrightarrow> in_range (ga_tallocs ga' ! k) a n)"

definition frame :: "ggml_gallocr \<Rightarrow> ggml_gallocr \<Rightarrow> bool" where
  "frame ga ga' \<longleftrightarrow> slots_kept ga ga' \<and> aligns ga' = aligns ga \<and> kept_ranges ga ga'"

lemma frame_refl [simp]: "frame ga ga"
  by (simp add: frame_def kept_ranges_def)

lemma frame_trans: "frame a b \<Longrightarrow> frame b c \<Longrightarrow> frame a c"
proof -
  assume ab: "frame a b" and bc: "frame b c"
  have "length (ga_tallocs b) = length (ga_tallocs a)" using ab by (metis frame_def aligns_def length_map)
  then have "kept_ranges a c" using ab bc by (simp add: frame_def kept_ranges_def)
  then show ?thesis using ab bc slots_kept_trans [of a b c] by (simp add: frame_def)
qed

lemma frame_fun:
  assumes "frame ga ga'"
  shows "ga_bufts ga' = ga_bufts ga" "talloc_of ga' = talloc_of ga" "need bo h ga' = need bo h ga"
    "span bo h ga' = span bo h ga" "length (ga_tallocs ga') = length (ga_tallocs ga)"
    "env_ok bo h X ga' = env_ok bo h X ga" "ga_buf_tallocs ga' = ga_buf_tallocs ga"
proof -
  have f: "ga_bufts ga' = ga_bufts ga" "ga_buf_tallocs ga' = ga_buf_tallocs ga" "aligns ga' = aligns ga"
    using assms by (simp_all add: frame_def slots_kept_def static_of_def)
  show "ga_bufts ga' = ga_bufts ga" "ga_buf_tallocs ga' = ga_buf_tallocs ga" by (fact f)+
  show "talloc_of ga' = talloc_of ga" "need bo h ga' = need bo h ga"
    by (simp_all add: fun_eq_iff talloc_of_def need_def f)
  then show "span bo h ga' = span bo h ga" by (simp add: fun_eq_iff span_def f(3))
  show len: "length (ga_tallocs ga') = length (ga_tallocs ga)" using f(3) by (metis aligns_def length_map)
  show "env_ok bo h X ga' = env_ok bo h X ga"
    using \<open>talloc_of ga' = talloc_of ga\<close> \<open>need bo h ga' = need bo h ga\<close> by (simp add: env_ok_def f len)
qed

lemma frame_range: "frame ga ga' \<Longrightarrow> hn_buffer_id (node_at ga' x) = hn_buffer_id (node_at ga x) \<Longrightarrow>
    hn_addr (node_at ga' x) = hn_addr (node_at ga x) \<Longrightarrow> range_of bo h ga' x = range_of bo h ga x"
  by (simp add: range_of_def frame_fun Let_def)

lemma hash_get_frame: "table_ok ga \<Longrightarrow> ggml_gallocr_hash_get ga x = Some (i, ga') \<Longrightarrow> frame ga ga'"
  using hash_getD(5,6) by (simp add: frame_def aligns_def kept_ranges_def)

lemma set_hn_frame: "table_ok ga \<Longrightarrow> slot_of ga i x \<Longrightarrow> frame ga (set_hn ga i f)"
  using set_hnD(3,4) by (simp add: frame_def aligns_def kept_ranges_def)

text \<open>Equal tables and allocators give equal books.\<close>

lemma books_cong:
  assumes "books bo h X ga" "frame ga ga'" "table_ok ga'" "ga_tallocs ga' = ga_tallocs ga"
    and "\<And>x. hn_buffer_id (node_at ga' x) = hn_buffer_id (node_at ga x) \<and>
      hn_addr (node_at ga' x) = hn_addr (node_at ga x) \<and> (allocated ga' x \<longrightarrow> allocated ga x)"
  shows "books bo h X ga'"
proof -
  have r: "range_of bo h ga' x = range_of bo h ga x" for x using frame_range [OF assms(2)] assms(5) by simp
  have f: "free_of ga' = free_of ga" by (simp add: free_of_def assms(4))
  have "holds bo h X ga' x" if "holds bo h X ga x" for x
    using that assms(4) assms(5) [of x] by (simp add: holds_def Let_def r f frame_fun [OF assms(2)])
  then show ?thesis using assms(1,3-5) unfolding books_def by (simp add: frame_fun [OF assms(2)] r)
qed

section \<open>Allocators within the state\<close>

lemma talloc_index_Some: "talloc_index ga b = Some k \<longleftrightarrow>
    0 \<le> b \<and> nat b < length (ga_buf_tallocs ga) \<and> k < length (ga_tallocs ga) \<and> k = talloc_of ga b"
  by (auto simp: talloc_index_def talloc_of_def)

lemma buft_at_Some: "buft_at ga b = Some p \<longleftrightarrow> 0 \<le> b \<and> nat b < length (ga_bufts ga) \<and> p = ga_bufts ga ! nat b"
  by (auto simp: buft_at_def)

lemma kept_update: "grown (ga_tallocs ga ! k) al \<Longrightarrow> kept_ranges ga (set_talloc ga k al)"
  unfolding kept_ranges_def
proof (intro allI impI)
  fix j a n assume g: "grown (ga_tallocs ga ! k) al" and j: "j < length (ga_tallocs ga)" "in_range (ga_tallocs ga ! j) a n"
  show "in_range (ga_tallocs (set_talloc ga k al) ! j) a n"
    using j in_range_grown [OF _ g, of a n] by (cases "j = k") (simp_all add: set_tallocD)
qed

lemma set_talloc_frame:
  "k < length (ga_tallocs ga) \<Longrightarrow> grown (ga_tallocs ga ! k) al \<Longrightarrow> frame ga (set_talloc ga k al)"
  using kept_update by (simp add: frame_def set_tallocD aligns_def map_update list_update_same_conv grown_def)

lemma talloc_alloc:
  assumes ok: "\<forall>al \<in> set (ga_tallocs ga). dyn_ok al" and k: "k < length (ga_tallocs ga)"
    and sz: "0 < sz" "padded (aligns ga ! k) sz \<le> SIZE_MAX div 2"
    and r: "ggml_dyn_tallocr_alloc (ga_tallocs ga ! k) sz = Some (addr, al)"
  defines "ga' \<equiv> set_talloc ga k al" and "R \<equiv> place k addr (padded (aligns ga ! k) sz)"
  shows "R \<subseteq> free_of ga" "free_of ga' \<subseteq> free_of ga - R" "\<forall>al \<in> set (ga_tallocs ga'). dyn_ok al"
    "frame ga ga'" "kept_ranges ga ga'" "in_range (ga_tallocs ga' ! k) addr (padded (aligns ga ! k) sz)"
proof -
  have a: "aligns ga ! k = da_alignment (ga_tallocs ga ! k)" using k by (simp add: aligns_def)
  have o: "dyn_ok (ga_tallocs ga ! k)" using ok k by simp
  note S = alloc_spec [OF o sz(1) sz(2) [unfolded a] r]
  have t: "ga_tallocs ga' = (ga_tallocs ga)[k := al]" by (simp add: ga'_def set_tallocD)
  show "R \<subseteq> free_of ga" using S k by (auto simp: R_def place_def free_of_def a)
  show "free_of ga' \<subseteq> free_of ga - R" using S k by (auto simp: R_def place_def free_of_def a t nth_list_update split: if_splits)
  show "\<forall>al \<in> set (ga_tallocs ga'). dyn_ok al" using S ok set_update_subset_insert [of "ga_tallocs ga" k al] by (auto simp: t)
  show "frame ga ga'" unfolding ga'_def by (rule set_talloc_frame [OF k]) (use S in simp)
  show "kept_ranges ga ga'" unfolding ga'_def by (rule kept_update) (use S in simp)
  show "in_range (ga_tallocs ga' ! k) addr (padded (aligns ga ! k) sz)" using S k by (simp add: t a)
qed

lemma talloc_release:
  assumes ok: "\<forall>al \<in> set (ga_tallocs ga). dyn_ok al" and k: "k < length (ga_tallocs ga)"
    and sz: "0 < sz" "padded (aligns ga ! k) sz \<le> SIZE_MAX div 2"
    and rg: "in_range (ga_tallocs ga ! k) addr (padded (aligns ga ! k) sz)"
    and used: "place k addr (padded (aligns ga ! k) sz) \<inter> free_of ga = {}"
    and r: "ggml_dyn_tallocr_free_bytes (ga_tallocs ga ! k) addr sz = Some al"
  defines "ga' \<equiv> set_talloc ga k al" and "R \<equiv> place k addr (padded (aligns ga ! k) sz)"
  shows "free_of ga' = free_of ga \<union> R" "\<forall>al \<in> set (ga_tallocs ga'). dyn_ok al" "frame ga ga'" "kept_ranges ga ga'"
proof -
  have a: "aligns ga ! k = da_alignment (ga_tallocs ga ! k)" using k by (simp add: aligns_def)
  have o: "dyn_ok (ga_tallocs ga ! k)" using ok k by simp
  have u: "cells addr (padded (da_alignment (ga_tallocs ga ! k)) sz) \<inter> avail (ga_tallocs ga ! k) = {}"
    using used k by (auto simp: place_def free_of_def a)
  note S = release_spec(1) [OF o sz(1) sz(2) [unfolded a] rg [unfolded a] u r]
  have t: "ga_tallocs ga' = (ga_tallocs ga)[k := al]" by (simp add: ga'_def set_tallocD)
  show "free_of ga' = free_of ga \<union> R" using S k
    by (auto simp: R_def place_def free_of_def a t nth_list_update split: if_splits)
  show "\<forall>al \<in> set (ga_tallocs ga'). dyn_ok al" using S ok set_update_subset_insert [of "ga_tallocs ga" k al] by (auto simp: t)
  show "frame ga ga'" unfolding ga'_def by (rule set_talloc_frame [OF k]) (use S in simp)
  show "kept_ranges ga ga'" unfolding ga'_def by (rule kept_update) (use S in simp)
qed


text \<open>One tensor changes hands; the others keep what they have.\<close>

definition same_place :: "ggml_gallocr \<Rightarrow> ggml_gallocr \<Rightarrow> ptr \<Rightarrow> bool" where
  "same_place ga ga' y \<longleftrightarrow> hn_buffer_id (node_at ga' y) = hn_buffer_id (node_at ga y) \<and>
     hn_addr (node_at ga' y) = hn_addr (node_at ga y)"

lemma books_move:
  assumes b: "books bo h X ga" and fr: "frame ga ga'" and tab: "table_ok ga'"
    and dyn: "\<forall>al \<in> set (ga_tallocs ga'). dyn_ok al"
    and others: "\<And>y. y \<noteq> x \<Longrightarrow> allocated ga' y \<Longrightarrow>
      allocated ga y \<and> same_place ga ga' y \<and> range_of bo h ga y \<inter> free_of ga' = {}"
    and mine: "allocated ga' x \<Longrightarrow> holds bo h X ga' x \<and>
      (\<forall>y. y \<noteq> x \<longrightarrow> allocated ga' y \<longrightarrow> range_of bo h ga' x \<inter> range_of bo h ga y = {})"
  shows "books bo h X ga'"
proof -
  have kept: "kept_ranges ga ga'" using fr by (simp add: frame_def)
  have r: "range_of bo h ga' y = range_of bo h ga y" if "y \<noteq> x" "allocated ga' y" for y
    using frame_range [OF fr] others [OF that] by (simp add: same_place_def)
  have h: "holds bo h X ga' y" if y: "y \<noteq> x" "allocated ga' y" for y
  proof -
    let ?b = "hn_buffer_id (node_at ga y)"
    have hy: "holds bo h X ga y" using b others [OF y] by (simp add: books_def)
    then have "nat ?b < length (ga_buf_tallocs ga)" "env_ok bo h X ga" using b by (simp_all add: holds_def Let_def books_def env_ok_def)
    then have "talloc_of ga ?b < length (ga_tallocs ga)" by (simp add: env_ok_def talloc_of_def)
    then show ?thesis using hy others [OF y] kept r [OF y]
      by (simp add: holds_def Let_def frame_fun [OF fr] same_place_def kept_ranges_def)
  qed
  have two: "range_of bo h ga' y \<inter> range_of bo h ga' z = {}"
    if "allocated ga' y" "allocated ga' z" "y \<noteq> z" for y z
  proof (cases "y = x \<or> z = x")
    case True
    then show ?thesis using mine that r by (metis inf_commute)
  next
    case False
    then have "allocated ga y" "allocated ga z" using others that by blast+
    then show ?thesis using b that(3) r False that(1,2) by (simp add: books_def)
  qed
  have e: "env_ok bo h X ga'" using b by (simp add: books_def frame_fun [OF fr])
  have hh: "holds bo h X ga' y" if "allocated ga' y" for y using h mine that by (cases "y = x") simp_all
  show ?thesis
    unfolding books_def
  proof (intro conjI allI impI)
    show "table_ok ga'" "env_ok bo h X ga'" "\<forall>al \<in> set (ga_tallocs ga'). dyn_ok al" by (fact tab e dyn)+
  qed (rule hh two; assumption)+
qed

lemma booksD:
  assumes "books bo h X ga"
  shows "table_ok ga" "env_ok bo h X ga" "\<forall>al \<in> set (ga_tallocs ga). dyn_ok al"
    "allocated ga x \<Longrightarrow> holds bo h X ga x"
    "allocated ga x \<Longrightarrow> allocated ga y \<Longrightarrow> x \<noteq> y \<Longrightarrow> range_of bo h ga x \<inter> range_of bo h ga y = {}"
  using assms by (simp_all add: books_def)

lemma env_index:
  assumes "env_ok bo h X ga" "0 \<le> b" "nat b < length (ga_bufts ga)"
  shows "talloc_of ga b < length (ga_tallocs ga)"
    "planned h X x \<Longrightarrow> 0 < need bo h ga b x"
    "planned h X x \<Longrightarrow> padded (aligns ga ! talloc_of ga b) (need bo h ga b x) \<le> SIZE_MAX div 2"
  using assms by (simp_all add: env_ok_def talloc_of_def)

text \<open>The planner looks something up: nothing changes.\<close>

lemma hash_get_books:
  assumes "books bo h X ga" "ggml_gallocr_hash_get ga x = Some (i, ga')"
  shows "books bo h X ga'" "frame ga ga'" "slot_of ga' i x" "node_at ga' = node_at ga" "hn_at ga' i = node_at ga x"
    "ga_tallocs ga' = ga_tallocs ga" "table_ok ga'"
proof -
  note d = hash_getD [OF booksD(1) [OF assms(1)] assms(2)]
  show "frame ga ga'" by (rule hash_get_frame [OF booksD(1) [OF assms(1)] assms(2)])
  then show "books bo h X ga'" by (rule books_cong [OF assms(1) _ d(1,6)]) (simp add: d(3))
  show "slot_of ga' i x" "node_at ga' = node_at ga" "hn_at ga' i = node_at ga x"
    "ga_tallocs ga' = ga_tallocs ga" "table_ok ga'" by (fact d)+
qed

text \<open>A tensor sits at the front of a range; the rest is given back.\<close>

lemma padded_mono: "0 < a \<Longrightarrow> n \<le> m \<Longrightarrow> padded a n \<le> padded a m"
  by (simp add: padded_def zdiv_mono1)

lemma padded_diff: "0 < a \<Longrightarrow> padded a (padded a m - padded a n) = padded a m - padded a n"
proof -
  assume a: "0 < a"
  obtain k where k: "padded a m - padded a n = k * a" by (metis left_diff_distrib padded_def)
  have "(k * a + a - 1) div a = k"
    using a div_pos_pos_trivial [of "a - 1" a] div_mult_self4 [of a k "a - 1"] by (simp add: algebra_simps)
  then have "padded a (k * a) = k * a" by (simp add: padded_def)
  then show ?thesis by (simp only: k)
qed

lemma place_split:
  assumes "0 \<le> n" "n \<le> m"
  shows "place k addr n \<subseteq> place k addr m"
    "place k (addr\<lparr> ba_offset := ba_offset addr + n \<rparr>) (m - n) = place k addr m - place k addr n"
  using assms by (auto simp: place_def cells_def)

lemma extra_space:
  assumes tab: "table_ok ga" and env: "env_ok bo h X ga" and dyn: "\<forall>al \<in> set (ga_tallocs ga). dyn_ok al"
    and bx: "hn_buffer_id (node_at ga x) = b" "hn_addr (node_at ga x) = addr"
    and bp: "hn_buffer_id (node_at ga p) = b" "hn_addr (node_at ga p) = addr"
    and b: "0 \<le> b" "nat b < length (ga_bufts ga)" and pl: "planned h X x" "planned h X p"
    and rg: "in_range (ga_tallocs ga ! talloc_of ga b) addr (span bo h ga b p)"
    and used: "range_of bo h ga p \<inter> free_of ga = {}"
    and r: "ggml_gallocr_free_extra_space bo h ga x p = Some ga'"
  shows "table_ok ga' \<and> node_at ga' = node_at ga \<and> frame ga ga' \<and> kept_ranges ga ga' \<and>
    (\<forall>al \<in> set (ga_tallocs ga'). dyn_ok al) \<and> span bo h ga b x \<le> span bo h ga b p \<and>
    free_of ga' = free_of ga \<union> (range_of bo h ga p - range_of bo h ga x)"
proof -
  let ?k = "talloc_of ga b" let ?al = "ga_tallocs ga ! ?k" let ?a = "da_alignment ?al"
  let ?n = "need bo h ga b x" let ?m = "need bo h ga b p"
  note ex = env_index [OF env b]
  have k: "?k < length (ga_tallocs ga)" by (rule ex)
  have a: "aligns ga ! ?k = ?a" using k by (simp add: aligns_def)
  have al: "dyn_ok ?al" using dyn k by simp
  then have a0: "0 < ?a" "?a \<le> SIZE_MAX div 2" by (simp_all add: dyn_ok_def)
  obtain i g1 j g2 where g: "ggml_gallocr_hash_get ga x = Some (i, g1)" "ggml_gallocr_hash_get g1 p = Some (j, g2)"
    using r by (auto simp: ggml_gallocr_free_extra_space_def bind_Some_iff)
  note d1 = hash_getD [OF tab g(1)]
  note d2 = hash_getD [OF d1(1) g(2)]
  have f: "frame ga g2" using hash_get_frame [OF tab g(1)] hash_get_frame [OF d1(1) g(2)] by (rule frame_trans)
  note F = frame_fun [OF f]
  have nd: "node_at g2 = node_at ga" using d1(3) d2(3) by simp
  have tl: "ga_tallocs g2 = ga_tallocs ga" using d1(6) d2(6) by simp
  have at: "hn_at g2 i = node_at ga x" "hn_at g2 j = node_at ga p"
  proof -
    have "slot_of g2 i x" using d1(2) d2(5) by (simp add: slots_kept_def)
    then show "hn_at g2 i = node_at ga x" using node_at_slot [OF d2(1)] nd by simp
    show "hn_at g2 j = node_at ga p" using d2(4) d1(3) by simp
  qed
  have ap: "aligned_offset NULL ?n ?a = Some (span bo h ga b x)" "aligned_offset NULL ?m ?a = Some (span bo h ga b p)"
    using aligned_offset_padded [OF a0] ex(2,3) pl by (simp_all add: span_def a less_imp_le)
  obtain tp tx where t: "h_tensors h p = Some tp" "h_tensors h x = Some tx" using pl by (auto simp: planned_def)
  have le: "?n \<le> ?m" and rest: "(if span bo h ga b p > span bo h ga b x
      then do { al \<leftarrow> ggml_dyn_tallocr_free_bytes ?al (addr\<lparr> ba_offset := u64 (ba_offset addr + span bo h ga b x) \<rparr>)
                        (span bo h ga b p - span bo h ga b x);
                Some (set_talloc g2 ?k al) } else Some g2) = Some ga'"
    using r g t ap by (auto simp: ggml_gallocr_free_extra_space_def bind_Some_iff buft_at_Some get_alloc_size_Some
        talloc_index_Some at bx bp tl need_def F Let_def split: if_splits)
  have sp: "span bo h ga b x \<le> span bo h ga b p" using padded_mono [OF a0(1) le] by (simp add: span_def a)
  have R: "range_of bo h ga x = place ?k addr (span bo h ga b x)" "range_of bo h ga p = place ?k addr (span bo h ga b p)"
    by (simp_all add: range_of_def bx bp)
  have x0: "0 \<le> span bo h ga b x" using padded_bounds(1) [OF a0(1), of ?n] ex(2) [OF pl(1)] by (simp add: span_def a)
  show ?thesis
  proof (cases "span bo h ga b p > span bo h ga b x")
    case False
    then have "ga' = g2" "span bo h ga b x = span bo h ga b p" using rest sp by simp_all
    then show ?thesis using d2(1) nd f tl dyn by (simp add: R kept_ranges_def free_of_def)
  next
    case True
    let ?d = "span bo h ga b p - span bo h ga b x"
    let ?e = "addr\<lparr> ba_offset := ba_offset addr + span bo h ga b x \<rparr>"
    have u: "u64 (ba_offset addr + span bo h ga b x) = ba_offset addr + span bo h ga b x"
      using rg x0 sp by (intro u64_id) (simp_all add: in_range_def SIZE_MAX_def)
    obtain al where al: "ggml_dyn_tallocr_free_bytes ?al ?e ?d = Some al" and ga': "ga' = set_talloc g2 ?k al"
      using rest True by (auto simp: u bind_Some_iff)
    have pd: "padded ?a ?d = ?d" using padded_diff [OF a0(1)] by (simp add: span_def a)
    have q: "place ?k ?e ?d = range_of bo h ga p - range_of bo h ga x" using place_split(2) [OF x0 sp] by (simp add: R)
    have xm: "span bo h ga b x mod ?a = 0" using padded_bounds(3) [OF a0(1), of ?n] ex(2) [OF pl(1)] by (simp add: span_def a)
    have "frame g2 ga' \<and> kept_ranges g2 ga' \<and> free_of ga' = free_of g2 \<union> place ?k ?e ?d \<and>
      (\<forall>al \<in> set (ga_tallocs ga'). dyn_ok al)"
    proof -
      have k2: "?k < length (ga_tallocs g2)" using k tl by simp
      have sz: "0 < ?d" "padded (aligns g2 ! ?k) ?d \<le> SIZE_MAX div 2"
        using True pd x0 ex(3) [OF pl(2)] by (simp_all add: aligns_def tl k span_def)
      have in2: "in_range (ga_tallocs g2 ! ?k) ?e (padded (aligns g2 ! ?k) ?d)"
        using rg xm x0 pd k by (simp add: in_range_def tl aligns_def mod_add_eq [symmetric, of "ba_offset addr"])
      have un: "place ?k ?e (padded (aligns g2 ! ?k) ?d) \<inter> free_of g2 = {}"
        using used q pd k by (auto simp: aligns_def tl free_of_def)
      have fb: "ggml_dyn_tallocr_free_bytes (ga_tallocs g2 ! ?k) ?e ?d = Some al" using al tl by simp
      have dyn2: "\<forall>al \<in> set (ga_tallocs g2). dyn_ok al" using dyn tl by simp
      have pd2: "padded (aligns g2 ! ?k) ?d = ?d" using pd k by (simp add: aligns_def tl)
      show ?thesis using talloc_release [OF dyn2 k2 sz in2 un fb] by (simp add: ga' pd2)
    qed
    moreover have "free_of g2 = free_of ga" by (simp add: free_of_def tl)
    moreover have "kept_ranges ga ga'" if "kept_ranges g2 ga'" using that by (simp add: kept_ranges_def tl)
    ultimately show ?thesis using sp q frame_trans [OF f] d2(1) nd by (simp add: ga' set_tallocD)
  qed
qed

text \<open>A tensor takes over the range of another.\<close>

lemma take_over:
  assumes b: "books bo h X ga0" and x: "planned h X x" and p: "allocated ga0 p" "p \<noteq> x"
    and tab: "table_ok ga" and fr: "frame ga0 ga" and tl: "ga_tallocs ga = ga_tallocs ga0"
    and nd: "node_at ga = (node_at ga0)(x := nx, p := np)"
    and nx: "hn_buffer_id nx = hn_buffer_id (node_at ga0 p)" "hn_addr nx = hn_addr (node_at ga0 p)"
    and np: "\<not> hn_allocated np" "hn_buffer_id np = hn_buffer_id (node_at ga0 p)" "hn_addr np = hn_addr (node_at ga0 p)"
    and r: "ggml_gallocr_free_extra_space bo h ga x p = Some ga'"
  shows "books bo h X ga'" "frame ga0 ga'" "node_at ga' = node_at ga" "range_of bo h ga' x \<subseteq> range_of bo h ga0 p"
proof -
  let ?b = "hn_buffer_id (node_at ga0 p)" let ?addr = "hn_addr (node_at ga0 p)"
  have hp: "holds bo h X ga0 p" using b p(1) by (rule booksD)
  then have pp: "planned h X p" and bi: "0 \<le> ?b" "nat ?b < length (ga_bufts ga0)"
    and rg: "in_range (ga_tallocs ga0 ! talloc_of ga0 ?b) ?addr (span bo h ga0 ?b p)"
    and us: "range_of bo h ga0 p \<inter> free_of ga0 = {}" by (simp_all add: holds_def Let_def)
  note F = frame_fun [OF fr]
  have fo: "free_of ga = free_of ga0" by (simp add: free_of_def tl)
  have rp: "range_of bo h ga p = range_of bo h ga0 p" by (rule frame_range [OF fr]) (simp_all add: nd np)
  have env: "env_ok bo h X ga" using booksD(2) [OF b] F by simp
  have dyn: "\<forall>al \<in> set (ga_tallocs ga). dyn_ok al" using booksD(3) [OF b] tl by simp
  have E: "table_ok ga' \<and> node_at ga' = node_at ga \<and> frame ga ga' \<and> kept_ranges ga ga' \<and>
      (\<forall>al \<in> set (ga_tallocs ga'). dyn_ok al) \<and> span bo h ga ?b x \<le> span bo h ga ?b p \<and>
      free_of ga' = free_of ga \<union> (range_of bo h ga p - range_of bo h ga x)"
    by (rule extra_space [OF tab env dyn _ _ _ _ _ _ x pp _ _ r, of ?b ?addr])
       (use bi rg us p(2) in \<open>simp_all add: nd nx np F tl rp fo\<close>)
  show fr': "frame ga0 ga'" using fr E frame_trans by blast
  show nd': "node_at ga' = node_at ga" using E by simp
  have rx: "range_of bo h ga' x = range_of bo h ga x"
    by (rule frame_range) (use E in \<open>simp_all\<close>)
  have RX: "range_of bo h ga x = place (talloc_of ga0 ?b) ?addr (span bo h ga0 ?b x)"
    and RP: "range_of bo h ga p = place (talloc_of ga0 ?b) ?addr (span bo h ga0 ?b p)"
    using p(2) by (simp_all add: range_of_def nd nx np F Let_def)
  have sp: "span bo h ga0 ?b x \<le> span bo h ga0 ?b p" using E by (simp add: F)
  have sub: "range_of bo h ga x \<subseteq> range_of bo h ga p" using sp by (auto simp: RX RP place_def cells_def)
  then show "range_of bo h ga' x \<subseteq> range_of bo h ga0 p" using rx rp by simp
  show "books bo h X ga'"
  proof (rule books_move [OF b fr'])
    show "table_ok ga'" "\<forall>al \<in> set (ga_tallocs ga'). dyn_ok al" using E by simp_all
    have k: "kept_ranges ga ga'" using E by simp
    show "allocated ga0 y \<and> same_place ga0 ga' y \<and> range_of bo h ga0 y \<inter> free_of ga' = {}"
      if y: "y \<noteq> x" "allocated ga' y" for y
    proof -
      have n: "y \<noteq> p" using y np by (auto simp: nd' nd)
      then have a: "allocated ga0 y" "same_place ga0 ga' y" using y by (simp_all add: nd' nd same_place_def)
      have "range_of bo h ga0 y \<inter> free_of ga0 = {}" using booksD(4) [OF b a(1)] by (simp add: holds_def)
      moreover have "range_of bo h ga0 y \<inter> range_of bo h ga0 p = {}" using booksD(5) [OF b a(1) p(1) n] .
      ultimately show ?thesis using a E rp fo by blast
    qed
    have "range_of bo h ga' x \<inter> free_of ga' = {}" using E us rx sub rp fo by blast
    moreover have "in_range (ga_tallocs ga' ! talloc_of ga0 ?b) ?addr (span bo h ga0 ?b x)"
    proof -
      have "talloc_of ga0 ?b < length (ga_tallocs ga)" using env_index(1) [OF booksD(2) [OF b] bi] tl by simp
      moreover have "in_range (ga_tallocs ga ! talloc_of ga0 ?b) ?addr (span bo h ga0 ?b x)"
        using rg sp tl by (simp add: in_range_def)
      ultimately show ?thesis using k by (simp add: kept_ranges_def)
    qed
    ultimately have "holds bo h X ga' x" using x bi p(2) by (simp add: holds_def Let_def nd' nd nx frame_fun [OF fr'])
    moreover have "range_of bo h ga' x \<inter> range_of bo h ga0 y = {}" if y: "y \<noteq> x" "allocated ga' y" for y
    proof -
      have n: "y \<noteq> p" "allocated ga0 y" using y np by (auto simp: nd' nd split: if_splits)
      then show ?thesis using booksD(5) [OF b n(2) p(1) n(1)] rx sub rp by blast
    qed
    ultimately show "holds bo h X ga' x \<and>
      (\<forall>y. y \<noteq> x \<longrightarrow> allocated ga' y \<longrightarrow> range_of bo h ga' x \<inter> range_of bo h ga0 y = {})" by blast
  qed
qed

section \<open>The search for a parent to take over\<close>

text \<open>While it runs the tensor is marked, and has no range yet.\<close>

definition pending :: "ggml_gallocr \<Rightarrow> ptr \<Rightarrow> ggml_gallocr \<Rightarrow> bool" where
  "pending ga0 x ga \<longleftrightarrow> table_ok ga \<and> frame ga0 ga \<and> ga_tallocs ga = ga_tallocs ga0 \<and>
     node_at ga = (node_at ga0)(x := (node_at ga0 x)\<lparr> hn_allocated := True \<rparr>)"

definition no_output :: "heap \<Rightarrow> ptr \<Rightarrow> bool" where
  "no_output h x \<longleftrightarrow> (case h_tensors h x of None \<Rightarrow> False | Some t \<Rightarrow> t_flags t AND GGML_TENSOR_FLAG_OUTPUT = 0)"

text \<open>What the planner checks before a tensor takes over the range of a source: the tensor reads it last.\<close>

definition last_reader :: "heap \<Rightarrow> ggml_gallocr \<Rightarrow> ptr \<Rightarrow> ptr \<Rightarrow> bool" where
  "last_reader h ga x p \<longleftrightarrow> p \<noteq> NULL \<and> allocated ga p \<and> hn_n_children (node_at ga p) = 1 \<and> hn_n_views (node_at ga p) = 0 \<and>
     no_output h p \<and> (\<exists>t u. h_tensors h x = Some t \<and> h_tensors h p = Some u \<and> ggml_are_same_layout t u)"

definition taken_over :: "backend_ops \<Rightarrow> heap \<Rightarrow> ptr set \<Rightarrow> ggml_gallocr \<Rightarrow> ptr \<Rightarrow> ptr \<Rightarrow> ggml_gallocr \<Rightarrow> bool" where
  "taken_over bo h X ga x p ga' \<longleftrightarrow> books bo h X ga' \<and> frame ga ga' \<and> range_of bo h ga' x \<subseteq> range_of bo h ga p \<and>
     last_reader h ga x p \<and>
     node_at ga' = (node_at ga)
       (x := (node_at ga x)\<lparr> hn_allocated := True, hn_buffer_id := hn_buffer_id (node_at ga p), hn_addr := hn_addr (node_at ga p) \<rparr>,
        p := (node_at ga p)\<lparr> hn_allocated := False \<rparr>)"

lemma pending_get:
  assumes "pending ga0 x ga" "ggml_gallocr_hash_get ga y = Some (i, ga')"
  shows "pending ga0 x ga'" "slot_of ga' i y" "hn_at ga' i = node_at ga y" "node_at ga' = node_at ga"
    "slot_of ga j z \<Longrightarrow> slot_of ga' j z"
  using assms hash_getD [OF _ assms(2)] frame_trans [OF _ hash_get_frame [OF _ assms(2)]]
  by (auto simp: pending_def slots_kept_def)

lemma reuse_parent_step:
  assumes b: "books bo h X ga0" and x: "planned h X x" "\<not> allocated ga0 x" "p \<noteq> x"
    and pd: "pending ga0 x ga" and sl: "slot_of ga hn x"
    and r: "reuse_parent bo h x hn p ga = Some (d, ga')"
  shows "if d then taken_over bo h X ga0 x p ga' else pending ga0 x ga' \<and> slot_of ga' hn x"
proof (cases "p = NULL")
  case True
  then show ?thesis using r pd sl by (simp add: reuse_parent_def)
next
  case np: False
  obtain i g1 where g1: "ggml_gallocr_hash_get ga p = Some (i, g1)"
    using r np by (auto simp: reuse_parent_def ggml_gallocr_is_own_def bind_Some_iff)
  note p1 = pending_get [OF pd g1]
  have own: "hn_allocated (hn_at g1 i) = allocated ga0 p" using p1(3) pd x(3) by (simp add: pending_def)
  show ?thesis
  proof (cases "allocated ga0 p")
    case False
    then have "\<not> d" "ga' = g1" using r np g1 own by (auto simp: reuse_parent_def ggml_gallocr_is_own_def)
    then show ?thesis using p1(1) p1(5) [OF sl] by simp
  next
    case True
    then have "planned h X p" using booksD(4) [OF b] by (simp add: holds_def)
    then obtain u where u: "h_tensors h p = Some u" "t_view_src u = NULL" by (auto simp: planned_def)
    obtain t where t: "h_tensors h x = Some t" "x \<noteq> NULL" using x(1) by (auto simp: planned_def)
    show ?thesis
    proof (cases "t_flags u AND GGML_TENSOR_FLAG_OUTPUT = 0 \<and> ggml_are_same_layout t u")
      case False
      then have "\<not> d" "ga' = g1" using r np g1 own True u t
        by (auto simp: reuse_parent_def ggml_gallocr_is_own_def bind_Some_iff split: if_splits)
      then show ?thesis using p1(1) p1(5) [OF sl] by simp
    next
      case ok: True
      obtain j g2 where g2: "ggml_gallocr_hash_get g1 p = Some (j, g2)"
        using r np g1 own True u t ok by (auto simp: reuse_parent_def ggml_gallocr_is_own_def bind_Some_iff)
      note p2 = pending_get [OF p1(1) g2]
      have slot: "slot_of g2 hn x" using p1(5) [OF sl] by (rule p2(5))
      have P: "hn_at g2 j = node_at ga0 p" using p2(3) p1(4) pd x(3) by (simp add: pending_def)
      let ?ga = "set_hn (set_hn g2 hn (\<lambda>n. n\<lparr> hn_buffer_id := hn_buffer_id (hn_at g2 j), hn_addr := hn_addr (hn_at g2 j) \<rparr>))
          j (\<lambda>n. n\<lparr> hn_allocated := False \<rparr>)"
      have R: "(if hn_n_children (node_at ga0 p) = 1 \<and> hn_n_views (node_at ga0 p) = 0
          then do { ga \<leftarrow> ggml_gallocr_free_extra_space bo h ?ga x p; Some (True, ga) }
          else Some (False, g2)) = Some (d, ga')"
        using r np g1 own True u t ok g2 P
        by (simp add: reuse_parent_def ggml_gallocr_is_own_def tget_def ggml_is_view_def Let_def cong: if_cong)
      show ?thesis
      proof (cases "hn_n_children (node_at ga0 p) = 1 \<and> hn_n_views (node_at ga0 p) = 0")
        case False
        then show ?thesis using R p2(1) slot by auto
      next
        case last: True
        obtain g3 where ex: "ggml_gallocr_free_extra_space bo h ?ga x p = Some g3" and D: "d" "ga' = g3"
          using R last by (auto simp: bind_Some_iff)
        have t2: "table_ok g2" "frame ga0 g2" "ga_tallocs g2 = ga_tallocs ga0"
          "node_at g2 = (node_at ga0)(x := (node_at ga0 x)\<lparr> hn_allocated := True \<rparr>)"
          using p2(1) by (simp_all add: pending_def)
        note s1 = set_hnD [OF t2(1) slot, of "\<lambda>n. n\<lparr> hn_buffer_id := hn_buffer_id (hn_at g2 j), hn_addr := hn_addr (hn_at g2 j) \<rparr>"]
        have sj: "slot_of (set_hn g2 hn f) j p" for f using p2(2) by (simp add: set_hn_def)
        note s2 = set_hnD [OF s1(1) sj, of "\<lambda>n. n\<lparr> hn_allocated := False \<rparr>"]
        have f: "frame ga0 ?ga"
          by (rule frame_trans [OF frame_trans [OF t2(2) set_hn_frame [OF t2(1) slot]] set_hn_frame [OF s1(1) sj]])
        have nd: "node_at ?ga = (node_at ga0)
          (x := (node_at ga0 x)\<lparr> hn_allocated := True, hn_buffer_id := hn_buffer_id (node_at ga0 p), hn_addr := hn_addr (node_at ga0 p) \<rparr>,
           p := (node_at ga0 p)\<lparr> hn_allocated := False \<rparr>)"
          using s2(2) s1(2) t2(4) x(3) P by auto
        have tl: "ga_tallocs ?ga = ga_tallocs ga0" using s2(4) s1(4) t2(3) by simp
        note T = take_over [OF b x(1) True x(3) s2(1) f tl nd _ _ _ _ _ ex]
        have "last_reader h ga0 x p" using np True last u t ok by (simp add: last_reader_def no_output_def)
        moreover have "books bo h X g3" "frame ga0 g3" "node_at g3 = node_at ?ga"
          "range_of bo h g3 x \<subseteq> range_of bo h ga0 p" by (rule T; simp)+
        ultimately show ?thesis using D nd by (simp add: taken_over_def)
      qed
    qed
  qed
qed

lemma reuse_parents_step:
  assumes b: "books bo h X ga0" and x: "planned h X x" "\<not> allocated ga0 x"
  shows "x \<notin> set ps \<Longrightarrow> pending ga0 x ga \<Longrightarrow> slot_of ga hn x \<Longrightarrow> reuse_parents bo h x hn ps ga = Some (d, ga') \<Longrightarrow>
    if d then \<exists>p \<in> set ps. taken_over bo h X ga0 x p ga' else pending ga0 x ga' \<and> slot_of ga' hn x"
proof (induction ps arbitrary: ga)
  case Nil
  then show ?case by simp
next
  case (Cons p ps)
  obtain e g1 where r: "reuse_parent bo h x hn p ga = Some (e, g1)"
    and rest: "(if e then Some (True, g1) else reuse_parents bo h x hn ps g1) = Some (d, ga')"
    using Cons.prems(4) by (auto simp: bind_Some_iff)
  have S: "if e then taken_over bo h X ga0 x p g1 else pending ga0 x g1 \<and> slot_of g1 hn x"
    by (rule reuse_parent_step [OF b x _ Cons.prems(2,3) r]) (use Cons.prems(1) in simp)
  show ?case
  proof (cases e)
    case True
    then show ?thesis using S rest by auto
  next
    case False
    then show ?thesis using S rest Cons.IH [of g1] Cons.prems(1) by (auto split: if_splits)
  qed
qed

section \<open>Placing and releasing one tensor\<close>

definition quiet :: "backend_ops \<Rightarrow> heap \<Rightarrow> ptr set \<Rightarrow> ggml_gallocr \<Rightarrow> ggml_gallocr \<Rightarrow> bool" where
  "quiet bo h X ga ga' \<longleftrightarrow> books bo h X ga' \<and> frame ga ga' \<and> node_at ga' = node_at ga \<and> ga_tallocs ga' = ga_tallocs ga"

definition placed_fresh :: "backend_ops \<Rightarrow> heap \<Rightarrow> ptr set \<Rightarrow> ggml_gallocr \<Rightarrow> ptr \<Rightarrow> ggml_gallocr \<Rightarrow> bool" where
  "placed_fresh bo h X ga x ga' \<longleftrightarrow> books bo h X ga' \<and> frame ga ga' \<and>
     node_at ga' = (node_at ga)(x := (node_at ga x)\<lparr> hn_allocated := True,
       hn_buffer_id := hn_buffer_id (node_at ga' x), hn_addr := hn_addr (node_at ga' x) \<rparr>) \<and>
     (\<forall>y. allocated ga y \<longrightarrow> range_of bo h ga' x \<inter> range_of bo h ga y = {})"

lemma quiet_get: "books bo h X ga \<Longrightarrow> ggml_gallocr_hash_get ga y = Some (i, ga') \<Longrightarrow> quiet bo h X ga ga'"
  using hash_get_books by (simp add: quiet_def)

lemma quiet_trans: "quiet bo h X a b \<Longrightarrow> quiet bo h X b c \<Longrightarrow> quiet bo h X a c"
  unfolding quiet_def using frame_trans by fastforce

lemma pending_quiet:
  assumes "quiet bo h X ga0 ga" "slot_of ga hn x"
  shows "pending ga0 x (set_hn ga hn (\<lambda>n. n\<lparr> hn_allocated := True \<rparr>))"
    "slot_of (set_hn ga hn f) hn x"
proof -
  have t: "table_ok ga" using assms(1) by (simp add: quiet_def books_def)
  show "pending ga0 x (set_hn ga hn (\<lambda>n. n\<lparr> hn_allocated := True \<rparr>))"
    using assms set_hnD [OF t assms(2)] frame_trans [OF _ set_hn_frame [OF t assms(2)]]
    by (simp add: pending_def quiet_def)
  show "slot_of (set_hn ga hn f) hn x" using assms(2) by (simp add: set_hn_def)
qed

text \<open>The marked tensor gets fresh bytes.\<close>

lemma assign_marked:
  assumes b: "books bo h X ga0" and x: "planned h X x" and pd: "pending ga0 x ga" and sl: "slot_of ga i x"
    and bi: "0 \<le> b" "nat b < length (ga_bufts ga)"
    and r: "ggml_dyn_tallocr_alloc (ga_tallocs ga ! talloc_of ga b) (need bo h ga b x) = Some (addr, al)"
  shows "placed_fresh bo h X ga0 x
    (set_hn (set_talloc ga (talloc_of ga b) al) i (\<lambda>n. n\<lparr> hn_buffer_id := b, hn_addr := addr \<rparr>))"
proof -
  let ?f = "\<lambda>n. n\<lparr> hn_buffer_id := b, hn_addr := addr \<rparr>"
  let ?k = "talloc_of ga b" let ?g = "set_talloc ga ?k al" define ga' where "ga' = set_hn ?g i ?f"
  have p: "table_ok ga" "frame ga0 ga" "ga_tallocs ga = ga_tallocs ga0"
    "node_at ga = (node_at ga0)(x := (node_at ga0 x)\<lparr> hn_allocated := True \<rparr>)" using pd by (simp_all add: pending_def)
  note F = frame_fun [OF p(2)]
  have env: "env_ok bo h X ga" and dyn: "\<forall>al \<in> set (ga_tallocs ga). dyn_ok al"
    using booksD(2,3) [OF b] F p(3) by simp_all
  note e = env_index [OF env bi]
  note t = talloc_alloc [OF dyn e(1) e(2) [OF x] e(3) [OF x] r, folded span_def]
  have tg: "table_ok ?g" using p(1) by (rule set_tallocD)
  have sg: "slot_of ?g i x" using sl by (simp add: set_tallocD)
  note d = set_hnD [OF tg sg, of ?f, folded ga'_def]
  have fr: "frame ga0 ga'" by (rule frame_trans [OF frame_trans [OF p(2) t(4)] set_hn_frame [OF tg sg], of ?f, folded ga'_def])
  have nd: "node_at ga' = (node_at ga0)(x := (node_at ga0 x)\<lparr> hn_allocated := True, hn_buffer_id := b, hn_addr := addr \<rparr>)"
    using d(2) p(4) by (simp add: set_tallocD)
  have R: "range_of bo h ga' x = place ?k addr (span bo h ga b x)"
    by (simp add: range_of_def Let_def nd frame_fun [OF fr] F)
  have tl: "ga_tallocs ga' = ga_tallocs ?g" "free_of ga' = free_of ?g" using d(4) by (simp_all add: free_of_def)
  have fo: "free_of ga = free_of ga0" by (simp add: free_of_def p(3))
  have own: "range_of bo h ga0 y \<inter> free_of ga0 = {}" if "allocated ga0 y" for y
    using booksD(4) [OF b that] by (simp add: holds_def)
  have new: "\<forall>y. allocated ga0 y \<longrightarrow> range_of bo h ga' x \<inter> range_of bo h ga0 y = {}"
    using own t(1) R fo by blast
  have "books bo h X ga'"
  proof (rule books_move [OF b fr d(1), where x = x])
    show "\<forall>al \<in> set (ga_tallocs ga'). dyn_ok al" using t(3) tl by simp
    show "allocated ga0 y \<and> same_place ga0 ga' y \<and> range_of bo h ga0 y \<inter> free_of ga' = {}"
      if "y \<noteq> x" "allocated ga' y" for y
    proof -
      have "allocated ga0 y" "same_place ga0 ga' y" using that by (simp_all add: nd same_place_def)
      then show ?thesis using own [of y] t(2) tl(2) fo by blast
    qed
    have "range_of bo h ga' x \<inter> free_of ga' = {}" using t(2) tl(2) R by blast
    then have "holds bo h X ga' x"
      using x bi t(6) tl(1) by (simp add: holds_def Let_def nd frame_fun [OF fr] F)
    then show "holds bo h X ga' x \<and>
      (\<forall>y. y \<noteq> x \<longrightarrow> allocated ga' y \<longrightarrow> range_of bo h ga' x \<inter> range_of bo h ga0 y = {})"
      using new by (simp add: nd)
  qed
  then show ?thesis using fr new by (simp add: placed_fresh_def nd flip: ga'_def)
qed

lemma allocate_node_skip:
  assumes b: "books bo h X ga" and x: "x \<in> X" "\<not> (planned h X x \<and> \<not> allocated ga x)"
    and r: "ggml_gallocr_allocate_node bo h x bid ga = Some ga'"
  shows "quiet bo h X ga ga'"
proof -
  have b0: "0 \<le> bid" using r by (cases "0 \<le> bid") (simp_all add: ggml_gallocr_allocate_node_def)
  obtain hn g1 a g2 t where 1: "ggml_gallocr_hash_get ga x = Some (hn, g1)"
    and 2: "ggml_gallocr_is_allocated h g1 x = Some (a, g2)" and t: "h_tensors h x = Some t" "x \<noteq> NULL"
    using r b0 by (auto simp: ggml_gallocr_allocate_node_def bind_Some_iff)
  have q1: "quiet bo h X ga g1" using quiet_get [OF b 1] .
  have b1: "books bo h X g1" using q1 by (simp add: quiet_def)
  have q2: "quiet bo h X g1 g2 \<and> (a \<longleftrightarrow> t_data t \<noteq> NULL \<or> t_buffer t \<noteq> NULL \<or> allocated ga x)"
  proof (cases "t_data t \<noteq> NULL \<or> t_buffer t \<noteq> NULL")
    case True
    then have "g2 = g1" "a" using 2 t by (auto simp: ggml_gallocr_is_allocated_def tget_def split: if_splits)
    then show ?thesis using True b1 by (auto simp: quiet_def)
  next
    case False
    then obtain i where i: "ggml_gallocr_hash_get g1 x = Some (i, g2)" "a = hn_allocated (hn_at g2 i)"
      using 2 t by (auto simp: ggml_gallocr_is_allocated_def ggml_gallocr_is_own_def bind_Some_iff)
    then show ?thesis using quiet_get [OF b1 i(1)] hash_get_books(5) [OF b1 i(1)] q1 False by (simp add: quiet_def)
  qed
  have "a \<or> ggml_is_view t" using q2 x t by (auto simp: planned_def ggml_is_view_def)
  then have "ga' = g2" using r b0 1 2 t by (auto simp: ggml_gallocr_allocate_node_def bind_Some_iff split: if_splits)
  then show ?thesis using q1 q2 quiet_trans by blast
qed

lemma allocate_node_new:
  assumes b: "books bo h X ga" and x: "planned h X x" "\<not> allocated ga x" and t: "h_tensors h x = Some t"
    and self: "ggml_op_can_inplace (t_op t) \<Longrightarrow> x \<notin> set (t_src t)"
    and r: "ggml_gallocr_allocate_node bo h x bid ga = Some ga'"
  shows "placed_fresh bo h X ga x ga' \<or>
    (ggml_op_can_inplace (t_op t) \<and> (\<exists>p \<in> set (t_src t). taken_over bo h X ga x p ga'))"
proof -
  have b0: "0 \<le> bid" using r by (cases "0 \<le> bid") (simp_all add: ggml_gallocr_allocate_node_def)
  have pl: "t_data t = NULL" "t_buffer t = NULL" "t_view_src t = NULL" "x \<noteq> NULL" using x(1) t by (auto simp: planned_def)
  obtain hn g1 i g2 where 1: "ggml_gallocr_hash_get ga x = Some (hn, g1)" and 2: "ggml_gallocr_hash_get g1 x = Some (i, g2)"
    using r b0 t pl by (auto simp: ggml_gallocr_allocate_node_def ggml_gallocr_is_allocated_def ggml_gallocr_is_own_def bind_Some_iff)
  have b1: "books bo h X g1" using hash_get_books(1) [OF b 1] .
  have q: "quiet bo h X ga g2" using quiet_get [OF b 1] quiet_get [OF b1 2] by (rule quiet_trans)
  have own: "hn_allocated (hn_at g2 i) = allocated ga x" using hash_get_books(5) [OF b1 2] hash_get_books(4) [OF b 1] by simp
  have sl: "slot_of g2 hn x" using hash_get_books(2,3) [OF b 1] hash_get_books(2) [OF b1 2] by (simp add: frame_def slots_kept_def)
  let ?g = "set_hn g2 hn (\<lambda>n. n\<lparr> hn_allocated := True \<rparr>)"
  obtain d g3 where s: "(if ggml_op_can_inplace (t_op t) then reuse_parents bo h x hn (t_src t) ?g else Some (False, ?g)) = Some (d, g3)"
    and rest: "(if d then Some g3 else do {
         k \<leftarrow> talloc_index g3 bid; buft \<leftarrow> buft_at g3 bid;
         sz \<leftarrow> ggml_backend_buft_get_alloc_size bo buft t;
         (addr, al) \<leftarrow> ggml_dyn_tallocr_alloc (ga_tallocs g3 ! k) sz;
         let ga = set_talloc g3 k al;
         Some (set_hn ga hn (\<lambda>n. n\<lparr> hn_buffer_id := bid, hn_addr := addr \<rparr>)) }) = Some ga'"
    using r b0 t pl 1 2 own x(2) by (auto simp: ggml_gallocr_allocate_node_def ggml_gallocr_is_allocated_def
        ggml_gallocr_is_own_def ggml_is_view_def bind_Some_iff Let_def split: if_splits)
  have p: "if d then ggml_op_can_inplace (t_op t) \<and> (\<exists>p \<in> set (t_src t). taken_over bo h X ga x p g3)
      else pending ga x g3 \<and> slot_of g3 hn x"
  proof (cases "ggml_op_can_inplace (t_op t)")
    case True
    then have s': "reuse_parents bo h x hn (t_src t) ?g = Some (d, g3)" using s by simp
    show ?thesis using reuse_parents_step [OF b x self [OF True] pending_quiet [OF q sl] s'] True by simp
  next
    case False
    then show ?thesis using s pending_quiet [OF q sl] by auto
  qed
  show ?thesis
  proof (cases d)
    case True
    then show ?thesis using p rest by auto
  next
    case False
    then have pd: "pending ga x g3" "slot_of g3 hn x" using p by simp_all
    obtain addr al where bi: "0 \<le> bid" "nat bid < length (ga_bufts g3)"
      and al: "ggml_dyn_tallocr_alloc (ga_tallocs g3 ! talloc_of g3 bid) (need bo h g3 bid x) = Some (addr, al)"
      and ga': "ga' = set_hn (set_talloc g3 (talloc_of g3 bid) al) hn (\<lambda>n. n\<lparr> hn_buffer_id := bid, hn_addr := addr \<rparr>)"
      using rest False t by (auto simp: bind_Some_iff buft_at_Some get_alloc_size_Some talloc_index_Some need_def Let_def)
    show ?thesis using assign_marked [OF b x(1) pd bi al] ga' by simp
  qed
qed

text \<open>Counting does not touch the books.\<close>

lemma set_hn_count:
  assumes b: "books bo h X ga" and sl: "slot_of ga i x"
    and f: "\<And>n. hn_allocated (f n) = hn_allocated n \<and> hn_buffer_id (f n) = hn_buffer_id n \<and> hn_addr (f n) = hn_addr n"
  shows "books bo h X (set_hn ga i f)" "frame ga (set_hn ga i f)"
    "node_at (set_hn ga i f) = (node_at ga)(x := f (node_at ga x))" "slot_of (set_hn ga i f) j y = slot_of ga j y"
    "hn_at (set_hn ga i f) i = f (node_at ga x)"
proof -
  note t = booksD(1) [OF b] and s = set_hnD [OF booksD(1) [OF b] sl, of f]
  show fr: "frame ga (set_hn ga i f)" by (rule set_hn_frame [OF t sl])
  show "node_at (set_hn ga i f) = (node_at ga)(x := f (node_at ga x))" by (rule s)
  then show "books bo h X (set_hn ga i f)" using f by (intro books_cong [OF b fr s(1,4)]) auto
  show so: "slot_of (set_hn ga i f) j y = slot_of ga j y" for j y by (simp add: set_hn_def)
  then have "slot_of (set_hn ga i f) i x" using sl by simp
  then show "hn_at (set_hn ga i f) i = f (node_at ga x)" using node_at_slot [OF s(1), of i x] s(2) by simp
qed

definition give_back :: "heap \<Rightarrow> ptr \<Rightarrow> hash_node \<Rightarrow> hash_node" where
  "give_back h x n = (if no_output h x then n\<lparr> hn_allocated := False \<rparr> else n)"

lemma free_node_step:
  assumes b: "books bo h X ga" and a: "allocated ga x" and r: "ggml_gallocr_free_node bo h x ga = Some ga'"
  shows "books bo h X ga' \<and> frame ga ga' \<and> node_at ga' = (node_at ga)(x := give_back h x (node_at ga x))"
proof -
  have hx: "holds bo h X ga x" by (rule booksD(4) [OF b a])
  then obtain t where t: "h_tensors h x = Some t" "x \<noteq> NULL" by (auto simp: holds_def planned_def)
  show ?thesis
  proof (cases "no_output h x")
    case False
    then have "ga' = ga" using r t by (auto simp: ggml_gallocr_free_node_def no_output_def tget_def)
    then show ?thesis using b False by (simp add: give_back_def)
  next
    case True
    let ?n = "node_at ga x" let ?b = "hn_buffer_id ?n" let ?k = "talloc_of ga ?b"
    obtain i g1 where 1: "ggml_gallocr_hash_get ga x = Some (i, g1)"
      using r t True by (auto simp: ggml_gallocr_free_node_def no_output_def bind_Some_iff)
    note g = hash_get_books [OF b 1]
    note F = frame_fun [OF g(2)]
    obtain al where al: "ggml_dyn_tallocr_free_bytes (ga_tallocs ga ! ?k) (hn_addr ?n) (need bo h ga ?b x) = Some al"
      and ga': "ga' = set_hn (set_talloc g1 ?k al) i (\<lambda>n. n\<lparr> hn_allocated := False \<rparr>)"
      using r t True 1 by (auto simp: ggml_gallocr_free_node_def no_output_def bind_Some_iff g(5,6) F talloc_index_Some
          buft_at_Some get_alloc_size_Some need_def Let_def)
    have pl: "planned h X x" and bi: "0 \<le> ?b" "nat ?b < length (ga_bufts ga)"
      and rg: "in_range (ga_tallocs ga ! ?k) (hn_addr ?n) (span bo h ga ?b x)"
      and us: "range_of bo h ga x \<inter> free_of ga = {}" using hx by (simp_all add: holds_def Let_def)
    note e = env_index [OF booksD(2) [OF b] bi]
    have R: "range_of bo h ga x = place ?k (hn_addr ?n) (span bo h ga ?b x)" by (simp add: range_of_def Let_def)
    have k: "?k < length (ga_tallocs g1)" using e(1) g(6) by simp
    have al1: "aligns g1 = aligns ga" by (simp add: aligns_def g(6))
    have fo: "free_of g1 = free_of ga" by (simp add: free_of_def g(6))
    have T: "free_of (set_talloc g1 ?k al) = free_of g1 \<union> range_of bo h ga x"
      "\<forall>al \<in> set (ga_tallocs (set_talloc g1 ?k al)). dyn_ok al" "frame g1 (set_talloc g1 ?k al)" "kept_ranges g1 (set_talloc g1 ?k al)"
      using talloc_release [OF _ k e(2) [OF pl] _ _ _ al [folded g(6)]] booksD(3) [OF g(1)] e(3) [OF pl] rg us
      by (simp_all add: al1 g(6) fo R flip: span_def)
    have tg: "table_ok (set_talloc g1 ?k al)" "slot_of (set_talloc g1 ?k al) i x"
      using set_tallocD(1) [OF g(7)] g(3) by (simp_all add: set_tallocD)
    note s = set_hnD [OF tg, of "\<lambda>n. n\<lparr> hn_allocated := False \<rparr>", folded ga']
    have fr: "frame ga ga'"
      using frame_trans [OF frame_trans [OF g(2) T(3)] set_hn_frame [OF tg]] ga' by simp
    have nd: "node_at ga' = (node_at ga)(x := ?n\<lparr> hn_allocated := False \<rparr>)" using s(2) by (simp add: set_tallocD g(4))
    have fo': "free_of ga' = free_of ga \<union> range_of bo h ga x" using T(1) s(4) fo by (simp add: free_of_def)
    have "books bo h X ga'"
    proof (rule books_move [OF b fr s(1), where x = x])
      show "\<forall>al \<in> set (ga_tallocs ga'). dyn_ok al" using T(2) s(4) by simp
        show "allocated ga y \<and> same_place ga ga' y \<and> range_of bo h ga y \<inter> free_of ga' = {}" if "y \<noteq> x" "allocated ga' y" for y
      proof -
        have y: "allocated ga y" "same_place ga ga' y" using that by (simp_all add: nd same_place_def)
        have "range_of bo h ga y \<inter> free_of ga = {}" using booksD(4) [OF b y(1)] by (simp add: holds_def)
        then show ?thesis using y booksD(5) [OF b y(1) a that(1)] fo' by blast
      qed
    qed (simp add: nd)
    then show ?thesis using fr nd True by (simp add: give_back_def)
  qed
qed

text \<open>What the planner does to the table of hash values when a source has been read.\<close>

definition drop_child :: "hash_node \<Rightarrow> hash_node" where
  "drop_child n = n\<lparr> hn_n_children := i32 (hn_n_children n - 1) \<rparr>"

definition drop_view :: "hash_node \<Rightarrow> hash_node" where
  "drop_view n = n\<lparr> hn_n_views := i32 (hn_n_views n - 1) \<rparr>"

definition idle :: "hash_node \<Rightarrow> bool" where
  "idle n \<longleftrightarrow> hn_n_children n = 0 \<and> hn_n_views n = 0"

definition when_idle :: "heap \<Rightarrow> ptr \<Rightarrow> hash_node \<Rightarrow> hash_node" where
  "when_idle h x n = (if idle n \<and> hn_allocated n then give_back h x n else n)"

definition base_of :: "heap \<Rightarrow> ptr \<Rightarrow> ptr" where
  "base_of h x = (case h_tensors h x of None \<Rightarrow> NULL | Some t \<Rightarrow> t_view_src t)"

definition after_read :: "heap \<Rightarrow> ptr \<Rightarrow> (ptr \<Rightarrow> hash_node) \<Rightarrow> ptr \<Rightarrow> hash_node" where
  "after_read h p N = (let n = drop_child (N p); v = base_of h p; N' = N(p := n) in
     if \<not> idle n then N'
     else if v \<noteq> NULL then N'(v := when_idle h v (drop_view (N' v)))
     else N'(p := when_idle h p n))"

lemma update_parent_step:
  assumes b: "books bo h X ga" and p: "h_tensors h p \<noteq> None" "p \<noteq> NULL"
    and r: "update_parent bo h p ga = Some ga'"
  shows "books bo h X ga' \<and> frame ga ga' \<and> node_at ga' = after_read h p (node_at ga)"
proof -
  obtain t where t: "h_tensors h p = Some t" using p by auto
  obtain i g1 where 1: "ggml_gallocr_hash_get ga p = Some (i, g1)"
    using r p by (auto simp: update_parent_def bind_Some_iff)
  note g = hash_get_books [OF b 1]
  let ?n = "drop_child (node_at ga p)" let ?g = "set_hn g1 i drop_child"
  have c: "books bo h X ?g" "frame g1 ?g" "node_at ?g = (node_at g1)(p := drop_child (node_at g1 p))"
    "hn_at ?g i = drop_child (node_at g1 p)"
    by (rule set_hn_count [OF g(1,3)]; simp add: drop_child_def)+
  have fr: "frame ga ?g" by (rule frame_trans [OF g(2) c(2)])
  have nd: "node_at ?g = (node_at ga)(p := ?n)" "hn_at ?g i = ?n" using c(3,4) g(4) by simp_all
  show ?thesis
  proof (cases "idle ?n")
    case False
    then have "ga' = ?g" using r p(2) 1 nd(2)
      by (auto simp: update_parent_def idle_def drop_child_def [abs_def] Let_def split: if_splits)
    then show ?thesis using c(1) fr nd False by (simp add: after_read_def Let_def)
  next
    case idle: True
    show ?thesis
    proof (cases "t_view_src t = NULL")
      case True
      have r': "(if hn_allocated ?n then ggml_gallocr_free_node bo h p ?g else Some ?g) = Some ga'"
        using r p(2) 1 nd(2) idle True t
        by (simp add: update_parent_def idle_def drop_child_def [abs_def] Let_def tget_def ggml_is_view_def split: if_splits)
      have v: "after_read h p (node_at ga) = (node_at ga)(p := when_idle h p ?n)"
        using idle True t by (simp add: after_read_def Let_def base_of_def)
      show ?thesis
      proof (cases "hn_allocated ?n")
        case True
        then have "allocated ?g p" using nd by simp
        then have "books bo h X ga' \<and> frame ?g ga' \<and> node_at ga' = (node_at ?g)(p := give_back h p (node_at ?g p))"
          using free_node_step [OF c(1)] r' True by simp
        then show ?thesis using frame_trans [OF fr] v nd(1) idle True by (simp add: when_idle_def)
      next
        case False
        then show ?thesis using r' c(1) fr nd(1) v by (simp add: when_idle_def)
      qed
    next
      case False
      let ?v = "t_view_src t"
      obtain j g2 where 2: "ggml_gallocr_hash_get ?g ?v = Some (j, g2)"
        and r': "(let ga = set_hn g2 j drop_view in
          if hn_n_views (hn_at ga j) = 0 \<and> hn_n_children (hn_at ga j) = 0 \<and> hn_allocated (hn_at ga j)
          then ggml_gallocr_free_node bo h ?v ga else Some ga) = Some ga'"
        using r p(2) 1 nd(2) idle False t
        by (auto simp: update_parent_def idle_def drop_child_def [abs_def] drop_view_def [abs_def] Let_def tget_def
            ggml_is_view_def bind_Some_iff)
      note g2 = hash_get_books [OF c(1) 2]
      let ?h = "set_hn g2 j drop_view" let ?m = "drop_view (node_at ?g ?v)"
      have d: "books bo h X ?h" "frame g2 ?h" "node_at ?h = (node_at g2)(?v := drop_view (node_at g2 ?v))"
        "hn_at ?h j = drop_view (node_at g2 ?v)"
        by (rule set_hn_count [OF g2(1,3)]; simp add: drop_view_def)+
      have fr2: "frame ga ?h" by (rule frame_trans [OF frame_trans [OF fr g2(2)] d(2)])
      have nd2: "node_at ?h = ((node_at ga)(p := ?n))(?v := ?m)" using d(3) g2(4) nd(1) by simp
      have m: "hn_at ?h j = ?m" using d(4) g2(4) by simp
      have v: "after_read h p (node_at ga) = ((node_at ga)(p := ?n))(?v := when_idle h ?v ?m)"
        using idle False t nd(1) by (simp add: after_read_def Let_def base_of_def)
      show ?thesis
      proof (cases "idle ?m \<and> hn_allocated ?m")
        case True
        then have f: "ggml_gallocr_free_node bo h ?v ?h = Some ga'" using r' m by (simp add: Let_def idle_def)
        have "allocated ?h ?v" using True nd2 by simp
        from free_node_step [OF d(1) this f]
        show ?thesis using frame_trans [OF fr2] v nd2 True by (simp add: when_idle_def)
      next
        case False
        then have "ga' = ?h" using r' m by (auto simp: Let_def idle_def split: if_splits)
        then show ?thesis using d(1) fr2 nd2 v False by (auto simp: when_idle_def)
      qed
    qed
  qed
qed

end
