(* ===== verification/GallocPlan.thy ===== *)
theory GallocPlan
  imports GallocProps
begin

text \<open>
  The plan of a whole graph (ggml_gallocr_alloc_graph_impl): the counts the planner keeps are the reads that
  are still to come, a tensor that is still to be read keeps its range, and so no node is written over one.
\<close>

section \<open>Loops and counts\<close>

text \<open>How often the nodes of a list read a tensor, and which of its views can still be read.\<close>

definition reads :: "heap \<Rightarrow> ptr list \<Rightarrow> ptr \<Rightarrow> int" where
  "reads h ns x = (if x = NULL then 0 else (\<Sum>q \<leftarrow> ns. int (count_list (srcs h q) x)))"

definition open_views :: "heap \<Rightarrow> ptr list \<Rightarrow> (ptr \<Rightarrow> int) \<Rightarrow> ptr \<Rightarrow> ptr list" where
  "open_views h ns U x = (if x = NULL then [] else filter (\<lambda>v. base_of h v = x \<and> (0 < U v \<or> reads h ns v = 0)) ns)"

lemma reads_nonneg [simp]: "0 \<le> reads h ns x"
  by (auto simp: reads_def intro!: sum_list_nonneg)

lemma reads_append: "reads h (xs @ ys) x = reads h xs x + reads h ys x"
  by (simp add: reads_def)

lemma reads_Cons: "reads h (q # ys) x = (if x = NULL then 0 else int (count_list (srcs h q) x)) + reads h ys x"
  by (simp add: reads_def)

lemma reads_pos: "x \<noteq> NULL \<Longrightarrow> q \<in> set ns \<Longrightarrow> x \<in> set (srcs h q) \<Longrightarrow> 0 < reads h ns x"
proof -
  assume a: "x \<noteq> NULL" "q \<in> set ns" "x \<in> set (srcs h q)"
  then obtain xs ys where ns: "ns = xs @ q # ys" by (meson split_list)
  have "0 < count_list (srcs h q) x" using a(3) by (simp add: count_list_0_iff zero_less_iff_neq_zero)
  moreover have "0 \<le> reads h xs x" "0 \<le> reads h ys x" by simp_all
  ultimately show ?thesis using a(1) unfolding ns reads_append reads_Cons by (simp add: add_nonneg_pos add_pos_nonneg)
qed

text \<open>
  What the planner relies on: the lists are those of a graph in evaluation order; views are nodes, not leafs;
  tensors flagged as input are leafs; a tensor that names itself as a source is not computed in place.
  These are conditions of the theorems on the planner, not tests of the code: ggml_gallocr_alloc_graph_impl also
  takes leafs that are views, views whose operation is GGML_OP_NONE and nodes flagged as input.  Of such graphs the
  theorems say nothing (a view without operation is not counted as a reader of its base, so the base may be
  released while it is still read).
\<close>

definition plannable :: "heap \<Rightarrow> ptr list \<Rightarrow> ptr list \<Rightarrow> bool" where
  "plannable h ns ls \<longleftrightarrow> distinct (ns @ ls) \<and>
     (\<forall>x \<in> set ns \<union> set ls. x \<noteq> NULL \<and> h_tensors h x \<noteq> None) \<and>
     (\<forall>x \<in> set ls. \<forall>t. h_tensors h x = Some t \<longrightarrow> t_op t = GGML_OP_NONE \<and> t_view_src t = NULL) \<and>
     (\<forall>i < length ns. set (srcs h (ns ! i)) \<subseteq> {NULL, ns ! i} \<union> set (take i ns) \<union> set ls) \<and>
     (\<forall>x \<in> set ns. \<forall>t. h_tensors h x = Some t \<longrightarrow>
        t_flags t AND GGML_TENSOR_FLAG_INPUT = 0 \<and> (x \<in> set (t_src t) \<longrightarrow> \<not> ggml_op_can_inplace (t_op t)) \<and>
        (t_view_src t \<noteq> NULL \<longrightarrow> t_op t \<noteq> GGML_OP_NONE \<and> base_of h (t_view_src t) = NULL)) \<and>
     (\<Sum>q \<leftarrow> ns. int (length (srcs h q))) < 2 ^ 31 \<and> int (length ns) < 2 ^ 31"

lemma plannableD:
  assumes "plannable h ns ls"
  shows "distinct ns" "distinct ls" "set ns \<inter> set ls = {}"
    "x \<in> set ns \<union> set ls \<Longrightarrow> x \<noteq> NULL" "x \<in> set ns \<union> set ls \<Longrightarrow> \<exists>t. h_tensors h x = Some t"
    "x \<in> set ls \<Longrightarrow> h_tensors h x = Some t \<Longrightarrow> t_op t = GGML_OP_NONE \<and> t_view_src t = NULL"
    "i < length ns \<Longrightarrow> s \<in> set (srcs h (ns ! i)) \<Longrightarrow> s = NULL \<or> s = ns ! i \<or> s \<in> set (take i ns) \<union> set ls"
    "x \<in> set ns \<Longrightarrow> h_tensors h x = Some t \<Longrightarrow> t_flags t AND GGML_TENSOR_FLAG_INPUT = 0"
    "x \<in> set ns \<Longrightarrow> h_tensors h x = Some t \<Longrightarrow> x \<in> set (t_src t) \<Longrightarrow> \<not> ggml_op_can_inplace (t_op t)"
    "x \<in> set ns \<Longrightarrow> h_tensors h x = Some t \<Longrightarrow> t_view_src t \<noteq> NULL \<Longrightarrow>
       t_op t \<noteq> GGML_OP_NONE \<and> base_of h (t_view_src t) = NULL"
    "reads h ns x < 2 ^ 31" "int (length ns) < 2 ^ 31"
proof -
  have "reads h ns x \<le> (\<Sum>q \<leftarrow> ns. int (length (srcs h q)))" for x
    by (auto simp: reads_def count_le_length intro!: sum_list_nonneg sum_list_mono)
  moreover have "(\<Sum>q \<leftarrow> ns. int (length (srcs h q))) < 2 ^ 31" using assms unfolding plannable_def by (elim conjE)
  ultimately show "reads h ns x < 2 ^ 31" by (rule order_le_less_trans)
qed (use assms in \<open>auto simp: plannable_def simp del: Un_iff\<close>)

section \<open>The invariant of the table of hash values\<close>

text \<open>
  \<open>U\<close> is the number of reads to come, \<open>D\<close> the tensors that have been placed, \<open>E\<close> those whose range has
  been taken over.
\<close>

definition needed :: "heap \<Rightarrow> ptr list \<Rightarrow> (ptr \<Rightarrow> int) \<Rightarrow> ptr \<Rightarrow> bool" where
  "needed h ns U x \<longleftrightarrow> \<not> no_output h x \<or> 0 < U x \<or> open_views h ns U x \<noteq> []"

definition counts :: "heap \<Rightarrow> ptr list \<Rightarrow> (ptr \<Rightarrow> int) \<Rightarrow> (ptr \<Rightarrow> hash_node) \<Rightarrow> bool" where
  "counts h ns U N \<longleftrightarrow> (\<forall>x. hn_n_children (N x) = U x) \<and>
     (\<forall>x. hn_n_views (N x) = int (length (open_views h ns U x)))"

definition alive :: "heap \<Rightarrow> ptr set \<Rightarrow> ptr list \<Rightarrow> (ptr \<Rightarrow> int) \<Rightarrow> ptr set \<Rightarrow> ptr set \<Rightarrow> (ptr \<Rightarrow> hash_node) \<Rightarrow> bool" where
  "alive h X ns U D E N \<longleftrightarrow> (\<forall>x. hn_allocated (N x) \<longrightarrow> x \<in> D) \<and>
     (\<forall>x \<in> D. planned h X x \<longrightarrow> needed h ns U x \<longrightarrow> x \<notin> E \<longrightarrow> hn_allocated (N x))"

lemma open_views_le: "length (open_views h ns U x) \<le> length ns"
  by (simp add: open_views_def)

lemma i32_small: "0 \<le> n \<Longrightarrow> n < 2 ^ 31 \<Longrightarrow> i32 n = n"
  by (rule i32_id) simp_all

text \<open>A source has been read: the counts, and what that releases.\<close>

lemma open_views_other:
  assumes "0 < U p - 1 \<or> base_of h p \<noteq> x"
  shows "open_views h ns (U(p := U p - 1)) x = open_views h ns U x"
  using assms by (auto simp: open_views_def intro!: filter_cong)

lemma open_views_close:
  assumes "distinct ns" "p \<in> set ns" "U p = 1" "0 < reads h ns p" "base_of h p = x" "x \<noteq> NULL"
  shows "length (open_views h ns U x) = Suc (length (open_views h ns (U(p := U p - 1)) x))"
proof -
  let ?P = "\<lambda>v. base_of h v = x \<and> (0 < U v \<or> reads h ns v = 0)"
  have "filter (\<lambda>v. base_of h v = x \<and> (0 < (U(p := U p - 1)) v \<or> reads h ns v = 0)) ns = filter (\<lambda>v. p \<noteq> v) (filter ?P ns)"
    unfolding filter_filter using assms(3,4) by (intro filter_cong) auto
  also have "\<dots> = remove1 p (filter ?P ns)" using assms(1) by (simp add: distinct_remove1_removeAll removeAll_filter_not_eq)
  also have "length \<dots> = length (filter ?P ns) - 1" using assms by (simp add: length_remove1)
  moreover have "0 < length (filter ?P ns)" using assms by (auto simp: length_pos_if_in_set filter_empty_conv)
  ultimately show ?thesis using assms(6) by (simp add: open_views_def)
qed

lemma after_read_places:
  "hn_buffer_id (after_read h p N x) = hn_buffer_id (N x)" "hn_addr (after_read h p N x) = hn_addr (N x)"
  "hn_allocated (after_read h p N x) \<Longrightarrow> hn_allocated (N x)"
  by (auto simp: after_read_def Let_def when_idle_def give_back_def drop_child_def drop_view_def split: if_splits)

lemma after_read_release:
  "hn_allocated (N x) \<Longrightarrow> \<not> hn_allocated (after_read h p N x) \<Longrightarrow> idle (after_read h p N x) \<and> no_output h x"
  by (auto simp: after_read_def Let_def when_idle_def give_back_def drop_child_def drop_view_def idle_def split: if_splits)

lemma when_idle_counts [simp]:
  "hn_n_children (when_idle h x n) = hn_n_children n" "hn_n_views (when_idle h x n) = hn_n_views n"
  by (simp_all add: when_idle_def give_back_def)

lemma after_read_counts:
  assumes g: "plannable h ns ls" and p: "p \<in> set ns \<union> set ls" "0 < U p" "U p \<le> reads h ns p"
    and c: "counts h ns U N"
  shows "counts h ns (U(p := U p - 1)) (after_read h p N)"
proof -
  let ?U = "U(p := U p - 1)" let ?n = "drop_child (N p)" let ?v = "base_of h p"
  note P = plannableD [OF g]
  obtain t where t: "h_tensors h p = Some t" and p0: "p \<noteq> NULL" using P(4,5) [OF p(1)] by blast
  have N: "hn_n_children (N x) = U x" "hn_n_views (N x) = int (length (open_views h ns U x))" for x
    using c by (simp_all add: counts_def)
  have "i32 (U p - 1) = U p - 1" using p(2,3) P(11) [of p] by (intro i32_small) linarith+
  then have n: "hn_n_children ?n = U p - 1" "hn_n_views ?n = int (length (open_views h ns U p))"
    by (simp_all add: drop_child_def N)
  show ?thesis
  proof (cases "U p = 1 \<and> ?v \<noteq> NULL")
    case False
    then have "0 < U p - 1 \<or> ?v = NULL" using p(2) by linarith
    then have o: "open_views h ns ?U x = open_views h ns U x" for x
      by (cases "x = NULL") (auto simp: open_views_def intro!: filter_cong)
    have "hn_n_children (after_read h p N x) = ?U x \<and> hn_n_views (after_read h p N x) = hn_n_views (N x)" for x
      using False n by (auto simp: after_read_def Let_def idle_def N drop_child_def)
    then show ?thesis by (simp add: counts_def o N)
  next
    case True
    then have pn: "p \<in> set ns" "base_of h ?v = NULL" "?v = t_view_src t"
      using p(1) t P(6) [of p t] P(10) [of p t] by (auto simp: base_of_def)
    have nv: "open_views h ns U p = []"
    proof (rule ccontr)
      assume "open_views h ns U p \<noteq> []"
      then obtain q where q: "q \<in> set ns" "base_of h q = p" by (auto simp: open_views_def filter_empty_conv split: if_splits)
      obtain u where "h_tensors h q = Some u" using P(5) q(1) by blast
      then show False using P(10) [OF q(1)] q(2) p0 True by (auto simp: base_of_def)
    qed
    have vp: "?v \<noteq> p" using pn(2) True by auto
    have close: "length (open_views h ns U ?v) = Suc (length (open_views h ns ?U ?v))"
      by (rule open_views_close) (use P(1) pn(1) True p in auto)
    have len: "int (length ns) < 2 ^ 31" by (rule P(12))
    have "i32 (int (length (open_views h ns U ?v)) - 1) = int (length (open_views h ns U ?v)) - 1"
      using close open_views_le [of h ns U ?v] len by (intro i32_small) linarith+
    then have "hn_n_views (drop_view (N ?v)) = int (length (open_views h ns ?U ?v))" by (simp add: drop_view_def N close)
    moreover have "after_read h p N = (N(p := ?n))(?v := when_idle h ?v (drop_view (N ?v)))"
      using True n nv vp by (simp add: after_read_def Let_def idle_def)
    moreover have "open_views h ns ?U x = open_views h ns U x" if "x \<noteq> ?v" for x
      by (rule open_views_other) (use that in simp)
    ultimately show ?thesis using vp n nv True by (auto simp: counts_def N drop_view_def)
  qed
qed

lemma needed_mono: "needed h ns (U(p := U p - 1)) x \<Longrightarrow> needed h ns U x"
  by (auto simp: needed_def open_views_def filter_empty_conv split: if_splits)

lemma after_read_alive:
  assumes c: "counts h ns (U(p := U p - 1)) (after_read h p N)" and a: "alive h X ns U D E N"
  shows "alive h X ns (U(p := U p - 1)) D E (after_read h p N)"
  unfolding alive_def
proof (intro conjI allI ballI impI)
  show "x \<in> D" if "hn_allocated (after_read h p N x)" for x
    using after_read_places(3) [OF that] a by (simp add: alive_def)
  fix x assume x: "x \<in> D" "planned h X x" "needed h ns (U(p := U p - 1)) x" "x \<notin> E"
  have al: "hn_allocated (N x)" using needed_mono [OF x(3)] a x by (simp add: alive_def)
  show "hn_allocated (after_read h p N x)"
  proof (rule ccontr)
    assume "\<not> hn_allocated (after_read h p N x)"
    with al have "idle (after_read h p N x)" "no_output h x" using after_read_release by blast+
    then show False using c x(3) by (simp add: idle_def counts_def needed_def)
  qed
qed

text \<open>All the sources of a node have been read.\<close>

definition read_off :: "(ptr \<Rightarrow> int) \<Rightarrow> ptr list \<Rightarrow> ptr \<Rightarrow> int" where
  "read_off U ps x = (if x = NULL then U x else U x - int (count_list ps x))"

lemma update_parents_step:
  assumes g: "plannable h ns ls"
  shows "books bo h (set ns \<union> set ls) ga \<Longrightarrow> set ps \<subseteq> insert NULL (set ns \<union> set ls) \<Longrightarrow>
    \<forall>x. x \<noteq> NULL \<longrightarrow> int (count_list ps x) \<le> U x \<Longrightarrow> \<forall>x. U x \<le> reads h ns x \<Longrightarrow>
    counts h ns U (node_at ga) \<Longrightarrow> alive h (set ns \<union> set ls) ns U D E (node_at ga) \<Longrightarrow>
    for_each (update_parent bo h) ps ga = Some ga' \<Longrightarrow>
    books bo h (set ns \<union> set ls) ga' \<and> frame ga ga' \<and> counts h ns (read_off U ps) (node_at ga') \<and>
    alive h (set ns \<union> set ls) ns (read_off U ps) D E (node_at ga') \<and> (\<forall>x. same_place ga ga' x)"
proof (induction ps arbitrary: ga U)
  case Nil
  have "read_off U [] = U" by (rule ext) (simp add: read_off_def)
  then show ?case using Nil by (simp add: same_place_def)
next
  case (Cons p ps)
  let ?X = "set ns \<union> set ls"
  obtain g1 where 1: "update_parent bo h p ga = Some g1" and 2: "for_each (update_parent bo h) ps g1 = Some ga'"
    using Cons.prems(7) by (auto simp: bind_Some_iff)
  show ?case
  proof (cases "p = NULL")
    case True
    then have "g1 = ga" using 1 by (simp add: update_parent_def)
    moreover have "read_off U (p # ps) = read_off U ps" by (rule ext) (simp add: read_off_def True)
    moreover have "\<forall>x. x \<noteq> NULL \<longrightarrow> int (count_list ps x) \<le> U x" using Cons.prems(3) True by (metis count_list.simps(2))
    ultimately show ?thesis using Cons.IH [of g1 U] Cons.prems 2 by simp
  next
    case False
    let ?U = "U(p := U p - 1)"
    have pX: "p \<in> ?X" using Cons.prems(2) False by simp
    have "int (count_list (p # ps) p) \<le> U p" using Cons.prems(3) False by blast
    then have pos: "0 < U p" by simp
    have live: "h_tensors h p \<noteq> None" using plannableD(5) [OF g pX] by auto
    note u = update_parent_step [OF Cons.prems(1) live False 1]
    have c: "counts h ns ?U (node_at g1)"
      using after_read_counts [OF g pX pos _ Cons.prems(5)] Cons.prems(4) u by simp
    then have a: "alive h ?X ns ?U D E (node_at g1)" using after_read_alive Cons.prems(6) u by simp
    have k: "\<forall>x. x \<noteq> NULL \<longrightarrow> int (count_list ps x) \<le> ?U x" using Cons.prems(3) by (auto split: if_splits)
    have l: "\<forall>x. ?U x \<le> reads h ns x" using Cons.prems(4) by (auto intro: order_trans [rotated])
    have r: "read_off ?U ps = read_off U (p # ps)" by (rule ext) (simp add: read_off_def False)
    have s: "\<forall>x. same_place ga g1 x" using u by (simp add: same_place_def after_read_places)
    have "set ps \<subseteq> insert NULL ?X" using Cons.prems(2) by simp
    from Cons.IH [OF _ this k l c a 2] u s show ?thesis unfolding r
      using frame_trans [of ga g1 ga'] by (auto simp: same_place_def)
  qed
qed

section \<open>One node\<close>

definition settled :: "backend_ops \<Rightarrow> heap \<Rightarrow> ptr set \<Rightarrow> ggml_gallocr \<Rightarrow> ptr \<Rightarrow> ggml_gallocr \<Rightarrow> bool" where
  "settled bo h X ga x ga' \<longleftrightarrow>
     (if planned h X x \<and> \<not> allocated ga x
      then placed_fresh bo h X ga x ga' \<or>
        (\<exists>t. h_tensors h x = Some t \<and> ggml_op_can_inplace (t_op t) \<and> (\<exists>p \<in> set (t_src t). taken_over bo h X ga x p ga'))
      else quiet bo h X ga ga')"

lemma quiet_range: "quiet bo h X ga ga' \<Longrightarrow> range_of bo h ga' y = range_of bo h ga y"
  by (rule frame_range) (simp_all add: quiet_def)

lemma placed_fresh_quiet: "placed_fresh bo h X ga x g \<Longrightarrow> quiet bo h X g ga' \<Longrightarrow> placed_fresh bo h X ga x ga'"
  using quiet_range [of bo h X g ga' x] frame_trans unfolding placed_fresh_def quiet_def by fastforce

lemma quiet_settled:
  assumes "quiet bo h X ga g" "settled bo h X g x ga'"
  shows "settled bo h X ga x ga'"
proof -
  have n: "node_at g = node_at ga" and f: "frame ga g" using assms(1) by (simp_all add: quiet_def)
  have t: "frame g ga' \<Longrightarrow> frame ga ga'" using f by (rule frame_trans)
  note r = quiet_range [OF assms(1)]
  have "placed_fresh bo h X g x ga' \<Longrightarrow> placed_fresh bo h X ga x ga'"
    using t by (simp add: placed_fresh_def n r)
  moreover have "taken_over bo h X g x p ga' \<Longrightarrow> taken_over bo h X ga x p ga'" for p
    using t by (simp add: taken_over_def last_reader_def n r)
  moreover have "quiet bo h X g ga' \<Longrightarrow> quiet bo h X ga ga'" using assms(1) by (rule quiet_trans)
  ultimately show ?thesis using assms(2) unfolding settled_def n by (auto split: if_splits)
qed

lemma allocate_node_settled:
  assumes "books bo h X ga" "x \<in> X" "h_tensors h x = Some t" "ggml_op_can_inplace (t_op t) \<Longrightarrow> x \<notin> set (t_src t)"
    and "ggml_gallocr_allocate_node bo h x bid ga = Some ga'"
  shows "settled bo h X ga x ga'"
  using allocate_node_skip [OF assms(1,2) _ assms(5)] allocate_node_new [OF assms(1) _ _ assms(3,4,5)] assms(3)
  by (auto simp: settled_def)

lemma placed_freshD:
  assumes "placed_fresh bo h X ga x ga'"
  shows "books bo h X ga'" "frame ga ga'" "y \<noteq> x \<Longrightarrow> node_at ga' y = node_at ga y" "allocated ga' x"
    "hn_n_children (node_at ga' x) = hn_n_children (node_at ga x)" "hn_n_views (node_at ga' x) = hn_n_views (node_at ga x)"
proof -
  have eq: "node_at ga' = (node_at ga)(x := (node_at ga x)\<lparr> hn_allocated := True,
      hn_buffer_id := hn_buffer_id (node_at ga' x), hn_addr := hn_addr (node_at ga' x) \<rparr>)"
    using assms unfolding placed_fresh_def by (elim conjE)
  have e: "node_at ga' x = (node_at ga x)\<lparr> hn_allocated := True,
      hn_buffer_id := hn_buffer_id (node_at ga' x), hn_addr := hn_addr (node_at ga' x) \<rparr>"
    using fun_cong [OF eq, of x] by simp
  show "allocated ga' x" "hn_n_children (node_at ga' x) = hn_n_children (node_at ga x)"
    "hn_n_views (node_at ga' x) = hn_n_views (node_at ga x)" by (subst e, simp)+
  show "y \<noteq> x \<Longrightarrow> node_at ga' y = node_at ga y" by (subst eq) simp
  show "books bo h X ga'" "frame ga ga'" using assms by (simp_all add: placed_fresh_def)
qed

lemma place_parents_step:
  assumes x: "x \<in> X" "h_tensors h x = Some t"
  shows "quiet bo h X ga0 ga \<or> (planned h X x \<and> \<not> allocated ga0 x \<and> placed_fresh bo h X ga0 x ga) \<Longrightarrow>
    \<forall>s \<in> set ps. s \<noteq> NULL \<longrightarrow> s = x \<and> \<not> ggml_op_can_inplace (t_op t) \<or> s \<in> X \<and> (planned h X s \<longrightarrow> allocated ga0 s) \<Longrightarrow>
    for_each (place_parent bo h bid) ps ga = Some ga' \<Longrightarrow>
    quiet bo h X ga0 ga' \<or> (planned h X x \<and> \<not> allocated ga0 x \<and> placed_fresh bo h X ga0 x ga')"
proof (induction ps arbitrary: ga)
  case Nil
  then show ?case by simp
next
  case (Cons p ps)
  obtain g1 where 1: "place_parent bo h bid p ga = Some g1" and 2: "for_each (place_parent bo h bid) ps g1 = Some ga'"
    using Cons.prems(3) by (auto simp: bind_Some_iff)
  have b: "books bo h X ga" using Cons.prems(1) by (auto simp: quiet_def placed_fresh_def)
  have keep: "allocated ga0 y \<Longrightarrow> allocated ga y" for y
    using Cons.prems(1) placed_freshD(3,4) [of bo h X ga0 x ga] by (cases "y = x") (auto simp: quiet_def)
  have "quiet bo h X ga0 g1 \<or> (planned h X x \<and> \<not> allocated ga0 x \<and> placed_fresh bo h X ga0 x g1)"
  proof (cases "p = NULL \<or> p \<noteq> x \<or> \<not> planned h X x \<or> allocated ga x")
    case True
    have "quiet bo h X ga g1"
    proof (cases "p = NULL")
      case True
      then show ?thesis using 1 b by (simp add: place_parent_def quiet_def)
    next
      case False
      then have a: "ggml_gallocr_allocate_node bo h p bid ga = Some g1" using 1 by (simp add: place_parent_def)
      have "p \<in> X" "\<not> (planned h X p \<and> \<not> allocated ga p)" using Cons.prems(2) False True x(1) keep by auto
      then show ?thesis by (rule allocate_node_skip [OF b _ _ a])
    qed
    then show ?thesis using Cons.prems(1) quiet_trans placed_fresh_quiet by blast
  next
    case False
    then have a: "ggml_gallocr_allocate_node bo h x bid ga = Some g1" and n: "\<not> ggml_op_can_inplace (t_op t)"
      and pl: "planned h X x" "\<not> allocated ga x" using 1 Cons.prems(2) keep by (auto simp: place_parent_def)
    have q: "quiet bo h X ga0 ga" using Cons.prems(1) pl(2) placed_freshD(4) by blast
    have "settled bo h X ga x g1" by (rule allocate_node_settled [OF b x _ a]) (use n in simp)
    then have "settled bo h X ga0 x g1" by (rule quiet_settled [OF q])
    then show ?thesis using n x(2) pl q by (auto simp: settled_def quiet_def)
  qed
  from Cons.IH [OF this _ 2] Cons.prems(2) show ?case by simp
qed

lemma settled_fun:
  assumes "settled bo h X ga x ga'"
  shows "books bo h X ga'" "frame ga ga'" "y \<noteq> x \<Longrightarrow> same_place ga ga' y"
    "hn_n_children (node_at ga' y) = hn_n_children (node_at ga y)" "hn_n_views (node_at ga' y) = hn_n_views (node_at ga y)"
    "allocated ga' y \<Longrightarrow> y = x \<or> allocated ga y" "planned h X x \<Longrightarrow> allocated ga' x"
proof -
  have D: "(quiet bo h X ga ga' \<and> (planned h X x \<longrightarrow> allocated ga x)) \<or> placed_fresh bo h X ga x ga' \<or>
      (\<exists>p. taken_over bo h X ga x p ga' \<and> allocated ga p \<and> \<not> allocated ga x)"
    using assms by (auto simp: settled_def taken_over_def last_reader_def split: if_splits)
  note F = placed_freshD [of bo h X ga x ga']
  show "books bo h X ga'" "frame ga ga'"
    using D F(1,2) by (auto simp: quiet_def taken_over_def)
  show "y \<noteq> x \<Longrightarrow> same_place ga ga' y"
    using D F(3) [of y] by (auto simp: quiet_def taken_over_def same_place_def)
  show "hn_n_children (node_at ga' y) = hn_n_children (node_at ga y)" "hn_n_views (node_at ga' y) = hn_n_views (node_at ga y)"
    using D F(3) [of y] F(5,6) by (cases "y = x"; auto simp: quiet_def taken_over_def)+
  show "allocated ga' y \<Longrightarrow> y = x \<or> allocated ga y"
    using D F(3) [of y] by (cases "y = x") (auto simp: quiet_def taken_over_def split: if_splits)
  show "planned h X x \<Longrightarrow> allocated ga' x"
    using D F(4) by (auto simp: quiet_def taken_over_def split: if_splits)
qed

text \<open>A tensor whose range was taken over was read for the last time.\<close>

definition in_place :: "heap \<Rightarrow> ptr list \<Rightarrow> nat \<Rightarrow> ptr \<Rightarrow> bool" where
  "in_place h ns i r \<longleftrightarrow> r \<in> set (srcs h (ns ! i)) \<and> no_output h r \<and> reads h (drop i ns) r = 1 \<and>
     open_views h ns (reads h (drop i ns)) r = [] \<and>
     (\<exists>t u. h_tensors h (ns ! i) = Some t \<and> h_tensors h r = Some u \<and> ggml_op_can_inplace (t_op t) \<and> ggml_are_same_layout t u)"

lemma taken_in_place:
  assumes "counts h ns (reads h (drop i ns)) (node_at ga)" "taken_over bo h X ga (ns ! i) p ga'"
    and "h_tensors h (ns ! i) = Some t" "ggml_op_can_inplace (t_op t)" "p \<in> set (t_src t)"
  shows "in_place h ns i p"
  using assms by (auto simp: in_place_def taken_over_def last_reader_def counts_def srcs_def)

text \<open>The new range is apart from every range in use, but for the one that was taken over.\<close>

lemma settled_apart:
  assumes b: "books bo h X ga" and s: "settled bo h X ga (ns ! i) g" and c: "counts h ns (reads h (drop i ns)) (node_at ga)"
    and n: "planned h X (ns ! i)" "\<not> allocated ga (ns ! i)" and r: "allocated ga r"
  shows "range_of bo h g (ns ! i) \<inter> range_of bo h ga r = {} \<or> in_place h ns i r"
proof -
  consider (fresh) "placed_fresh bo h X ga (ns ! i) g"
    | (taken) t p where "h_tensors h (ns ! i) = Some t" "ggml_op_can_inplace (t_op t)" "p \<in> set (t_src t)"
        "taken_over bo h X ga (ns ! i) p g"
    using s n by (auto simp: settled_def)
  then show ?thesis
  proof cases
    case fresh
    then show ?thesis using r by (simp add: placed_fresh_def)
  next
    case taken
    then have sub: "range_of bo h g (ns ! i) \<subseteq> range_of bo h ga p" "allocated ga p"
      by (simp_all add: taken_over_def last_reader_def)
    show ?thesis
    proof (cases "r = p")
      case True
      then show ?thesis using taken_in_place [OF c taken(4,1,2,3)] by simp
    next
      case False
      then show ?thesis using booksD(5) [OF b r sub(2)] sub(1) by blast
    qed
  qed
qed

lemma settled_lost:
  assumes "settled bo h X ga (ns ! i) g" "counts h ns (reads h (drop i ns)) (node_at ga)" "allocated ga p" "\<not> allocated g p"
  shows "in_place h ns i p"
proof -
  have "\<not> quiet bo h X ga g" using assms(3,4) by (auto simp: quiet_def)
  moreover have "\<not> placed_fresh bo h X ga (ns ! i) g"
    using assms(3,4) placed_freshD(3,4) by (cases "p = ns ! i") auto
  ultimately obtain t q where "h_tensors h (ns ! i) = Some t" "ggml_op_can_inplace (t_op t)" "q \<in> set (t_src t)"
      "taken_over bo h X ga (ns ! i) q g" using assms(1) by (auto simp: settled_def split: if_splits)
  note T = this
  have "p = q" using T(4) assms(3,4) by (auto simp: taken_over_def split: if_splits)
  then show ?thesis using taken_in_place [OF assms(2) T(4,1,2,3)] by simp
qed

text \<open>What holds when the nodes up to the i-th have been placed.\<close>

definition placed_ok :: "backend_ops \<Rightarrow> heap \<Rightarrow> ggml_gallocr \<Rightarrow> ptr \<Rightarrow> bool" where
  "placed_ok bo h ga x \<longleftrightarrow> (let n = node_at ga x; b = hn_buffer_id n in
     0 \<le> b \<and> nat b < length (ga_bufts ga) \<and>
     in_range (ga_tallocs ga ! talloc_of ga b) (hn_addr n) (span bo h ga b x))"

definition apart_at :: "backend_ops \<Rightarrow> heap \<Rightarrow> ptr list \<Rightarrow> ptr list \<Rightarrow> ggml_gallocr \<Rightarrow> nat \<Rightarrow> bool" where
  "apart_at bo h ns ls ga i \<longleftrightarrow> (let X = set ns \<union> set ls in
     \<forall>r \<in> set ls \<union> set (take i ns). planned h X (ns ! i) \<longrightarrow> planned h X r \<longrightarrow> needed h ns (reads h (drop i ns)) r \<longrightarrow>
       range_of bo h ga (ns ! i) \<inter> range_of bo h ga r = {} \<or> in_place h ns i r)"

definition planning :: "backend_ops \<Rightarrow> heap \<Rightarrow> ptr list \<Rightarrow> ptr list \<Rightarrow> nat \<Rightarrow> ggml_gallocr \<Rightarrow> bool" where
  "planning bo h ns ls i ga \<longleftrightarrow> (let X = set ns \<union> set ls; D = set ls \<union> set (take i ns) in
     books bo h X ga \<and> counts h ns (reads h (drop i ns)) (node_at ga) \<and>
     alive h X ns (reads h (drop i ns)) D {} (node_at ga) \<and>
     (\<forall>x \<in> D. planned h X x \<longrightarrow> placed_ok bo h ga x) \<and> (\<forall>j < i. apart_at bo h ns ls ga j))"

lemma placed_ok_frame:
  assumes "env_ok bo h X ga" "frame ga ga'" "same_place ga ga' x" "placed_ok bo h ga x"
  shows "placed_ok bo h ga' x"
proof -
  let ?n = "node_at ga x" let ?b = "hn_buffer_id ?n"
  have b: "0 \<le> ?b" "nat ?b < length (ga_bufts ga)"
    and r: "in_range (ga_tallocs ga ! talloc_of ga ?b) (hn_addr ?n) (span bo h ga ?b x)"
    using assms(4) by (simp_all add: placed_ok_def Let_def)
  have "in_range (ga_tallocs ga' ! talloc_of ga ?b) (hn_addr ?n) (span bo h ga ?b x)"
    using assms(2) env_index(1) [OF assms(1) b] r by (simp add: frame_def kept_ranges_def)
  then show ?thesis using b assms(3) by (simp add: placed_ok_def Let_def frame_fun [OF assms(2)] same_place_def)
qed

lemma apart_at_frame:
  assumes "frame ga ga'" "same_place ga ga' (ns ! i)" "\<And>x. x \<in> set ls \<union> set (take i ns) \<Longrightarrow> same_place ga ga' x"
    and "apart_at bo h ns ls ga i"
  shows "apart_at bo h ns ls ga' i"
proof -
  have "same_place ga ga' x \<Longrightarrow> range_of bo h ga' x = range_of bo h ga x" for x
    using frame_range [OF assms(1)] by (simp add: same_place_def)
  then show ?thesis using assms(2-4) unfolding apart_at_def Let_def by auto
qed

lemma drop_step: "i < length ns \<Longrightarrow> drop i ns = ns ! i # drop (Suc i) ns"
  by (rule Cons_nth_drop_Suc [symmetric])

lemma reads_drop_le: "reads h (drop i ns) x \<le> reads h ns x"
  using reads_append [of h "take i ns" "drop i ns" x] by simp

lemma reads_step: "i < length ns \<Longrightarrow> read_off (reads h (drop i ns)) (srcs h (ns ! i)) = reads h (drop (Suc i) ns)"
  by (rule ext) (simp add: drop_step [of i] reads_Cons read_off_def reads_def)

lemma open_views_mono: "(\<And>v. U' v \<le> U v) \<Longrightarrow> set (open_views h ns U' x) \<subseteq> set (open_views h ns U x)"
  by (auto simp: open_views_def dest: order_less_le_trans)

text \<open>After its last reader has run, nothing needs a tensor any more.\<close>

lemma in_place_done: "i < length ns \<Longrightarrow> in_place h ns i r \<Longrightarrow> \<not> needed h ns (reads h (drop (Suc i) ns)) r"
proof
  assume i: "i < length ns" and p: "in_place h ns i r" and n: "needed h ns (reads h (drop (Suc i) ns)) r"
  have le: "reads h (drop (Suc i) ns) v \<le> reads h (drop i ns) v" for v
    by (cases "v = NULL") (simp_all add: drop_step [OF i] reads_Cons reads_def)
  have "r \<noteq> NULL" using p by (auto simp: in_place_def reads_def)
  moreover have "0 < count_list (srcs h (ns ! i)) r" using p by (simp add: in_place_def count_list_0_iff zero_less_iff_neq_zero)
  ultimately have "\<not> 0 < reads h (drop (Suc i) ns) r" using p i by (simp add: in_place_def drop_step [OF i] reads_Cons)
  moreover have "open_views h ns (reads h (drop (Suc i) ns)) r = []"
    using open_views_mono [of "reads h (drop (Suc i) ns)" "reads h (drop i ns)" h ns r] le p by (simp add: in_place_def)
  ultimately show False using n p by (simp add: needed_def in_place_def)
qed

lemma place_node_settles:
  assumes g: "plannable h ns ls" and X: "X = set ns \<union> set ls" and i: "i < length ns"
    and pl: "planning bo h ns ls i ga" and r: "place_node bo h ids (i, ns ! i) ga = Some ga'"
  obtains g2 where "settled bo h X ga (ns ! i) g2" "for_each (update_parent bo h) (srcs h (ns ! i)) g2 = Some ga'"
proof -
  let ?n = "ns ! i"
  note P = plannableD [OF g]
  have nX: "?n \<in> X" using i X by simp
  obtain t where t: "h_tensors h ?n = Some t" and n0: "?n \<noteq> NULL" using P(4,5) nX X by blast
  have src: "srcs h ?n = t_src t" using t by (simp add: srcs_def)
  obtain b g1 g2 where 1: "for_each (place_parent bo h b) (t_src t) ga = Some g1"
    and 2: "ggml_gallocr_allocate_node bo h ?n b g1 = Some g2" and 3: "for_each (update_parent bo h) (t_src t) g2 = Some ga'"
    using r t by (auto simp: place_node_def bind_Some_iff)
  have b: "books bo h X ga" and al: "alive h X ns (reads h (drop i ns)) (set ls \<union> set (take i ns)) {} (node_at ga)"
    using pl X by (simp_all add: planning_def Let_def)
  have inp: "?n \<in> set (t_src t) \<Longrightarrow> \<not> ggml_op_can_inplace (t_op t)" using P(9) [OF _ t] i by simp
  have S: "\<forall>s \<in> set (t_src t). s \<noteq> NULL \<longrightarrow>
      s = ?n \<and> \<not> ggml_op_can_inplace (t_op t) \<or> s \<in> X \<and> (planned h X s \<longrightarrow> allocated ga s)"
  proof (intro ballI impI)
    fix s assume s: "s \<in> set (t_src t)" "s \<noteq> NULL"
    show "s = ?n \<and> \<not> ggml_op_can_inplace (t_op t) \<or> s \<in> X \<and> (planned h X s \<longrightarrow> allocated ga s)"
    proof (cases "s = ?n")
      case True
      then show ?thesis using inp s by simp
    next
      case False
      then have d: "s \<in> set ls \<union> set (take i ns)" using P(7) [OF i] s src by auto
      have "0 < reads h (drop i ns) s" using s src i by (intro reads_pos [of _ ?n]) (auto simp: drop_step [OF i])
      then have "planned h X s \<longrightarrow> allocated ga s" using al d by (simp add: alive_def needed_def)
      moreover have "s \<in> X" using d X set_take_subset [of i ns] by auto
      ultimately show ?thesis by simp
    qed
  qed
  have "quiet bo h X ga ga" using b by (simp add: quiet_def)
  then have Q: "quiet bo h X ga g1 \<or> (planned h X ?n \<and> \<not> allocated ga ?n \<and> placed_fresh bo h X ga ?n g1)"
    using place_parents_step [OF nX t _ S 1] by blast
  then have b1: "books bo h X g1" by (auto simp: quiet_def placed_fresh_def)
  have s2: "settled bo h X g1 ?n g2" by (rule allocate_node_settled [OF b1 nX t _ 2]) (use inp in blast)
  have "settled bo h X ga ?n g2"
  proof (cases "quiet bo h X ga g1")
    case True
    then show ?thesis using s2 by (rule quiet_settled)
  next
    case False
    then have f: "planned h X ?n" "\<not> allocated ga ?n" "placed_fresh bo h X ga ?n g1" using Q by simp_all
    then have "quiet bo h X g1 g2" using s2 placed_freshD(4) [OF f(3)] by (simp add: settled_def)
    then show ?thesis using f placed_fresh_quiet [OF f(3)] by (simp add: settled_def)
  qed
  then show thesis using that 3 src by simp
qed

lemma place_node_step:
  assumes g: "plannable h ns ls" and i: "i < length ns"
    and pl: "planning bo h ns ls i ga" and r: "place_node bo h ids (i, ns ! i) ga = Some ga'"
  shows "planning bo h ns ls (Suc i) ga'"
proof -
  let ?n = "ns ! i" let ?X = "set ns \<union> set ls" let ?D = "set ls \<union> set (take i ns)"
  let ?U = "reads h (drop i ns)" let ?U' = "reads h (drop (Suc i) ns)"
  note P = plannableD [OF g]
  have b: "books bo h ?X ga" and c: "counts h ns ?U (node_at ga)" and al: "alive h ?X ns ?U ?D {} (node_at ga)"
    and po: "\<forall>x \<in> ?D. planned h ?X x \<longrightarrow> placed_ok bo h ga x" and ap: "\<forall>j < i. apart_at bo h ns ls ga j"
    using pl by (simp_all add: planning_def Let_def)
  obtain g2 where s: "settled bo h ?X ga ?n g2" and u: "for_each (update_parent bo h) (srcs h ?n) g2 = Some ga'"
    by (rule place_node_settles [OF g refl i pl r])
  note S = settled_fun [OF s]
  define E where "E = {p. allocated ga p \<and> \<not> allocated g2 p}"
  have "?n \<notin> set (take i ns)" using P(1) i by (auto simp: in_set_conv_nth nth_eq_iff_index_eq)
  then have nD: "?n \<notin> ?D" using P(3) nth_mem [OF i] by blast
  have D': "set ls \<union> set (take (Suc i) ns) = insert ?n ?D" using i by (simp add: take_Suc_conv_app_nth)
  have c2: "counts h ns ?U (node_at g2)" using c S(4,5) by (simp add: counts_def)
  have a2: "alive h ?X ns ?U (insert ?n ?D) E (node_at g2)"
    unfolding alive_def
  proof (intro conjI allI ballI impI)
    show "x \<in> insert ?n ?D" if "allocated g2 x" for x using S(6) [OF that] al by (auto simp: alive_def)
    show "allocated g2 x" if "x \<in> insert ?n ?D" "planned h ?X x" "needed h ns ?U x" "x \<notin> E" for x
      using that S(7) al by (cases "x = ?n") (auto simp: alive_def E_def)
  qed
  have sub: "set (srcs h ?n) \<subseteq> insert NULL ?X" using P(7) [OF i] i set_take_subset [of i ns] by fastforce
  have le: "\<forall>x. x \<noteq> NULL \<longrightarrow> int (count_list (srcs h ?n) x) \<le> ?U x" by (simp add: drop_step [OF i] reads_Cons)
  have top: "\<forall>x. ?U x \<le> reads h ns x" by (simp add: reads_drop_le)
  note V = update_parents_step [OF g S(1) sub le top c2 a2 u, unfolded reads_step [OF i]]
  have fr: "frame ga ga'" using S(2) V frame_trans by blast
  have same: "same_place ga ga' x" if "x \<noteq> ?n" for x using S(3) [OF that] V by (simp add: same_place_def)
  have a3: "alive h ?X ns ?U' (insert ?n ?D) {} (node_at ga')"
  proof -
    have "\<not> needed h ns ?U' e" if "e \<in> E" for e
      using in_place_done [OF i settled_lost [OF s c]] that by (simp add: E_def)
    then show ?thesis using V by (auto simp: alive_def)
  qed
  have al2: "planned h ?X ?n \<Longrightarrow> placed_ok bo h g2 ?n"
    using booksD(4) [OF S(1) S(7)] by (simp add: placed_ok_def holds_def Let_def)
  have po': "placed_ok bo h ga' x" if "x \<in> insert ?n ?D" "planned h ?X x" for x
  proof (cases "x = ?n")
    case True
    show ?thesis by (rule placed_ok_frame [OF booksD(2) [OF S(1)]]) (use V al2 that True in simp_all)
  next
    case False
    show ?thesis by (rule placed_ok_frame [OF booksD(2) [OF b] fr same [OF False]]) (use po that False in simp)
  qed
  have ap': "apart_at bo h ns ls ga' j" if j: "j < Suc i" for j
  proof (cases "j = i")
    case False
    then have ji: "j < i" using j by simp
    have "ns ! j \<noteq> ?n" using P(1) ji i by (simp add: nth_eq_iff_index_eq)
    moreover have "x \<noteq> ?n" if "x \<in> set ls \<union> set (take j ns)" for x
      using that nD set_take_subset_set_take [of j i ns] ji by auto
    ultimately show ?thesis using apart_at_frame [OF fr] same ap ji by blast
  next
    case True
    show ?thesis unfolding apart_at_def Let_def True
    proof (intro ballI impI)
      fix r assume r: "r \<in> ?D" "planned h ?X ?n" "planned h ?X r" "needed h ns ?U r"
      have a: "allocated ga r" "\<not> allocated ga ?n" using al r nD by (auto simp: alive_def)
      have "range_of bo h g2 ?n \<inter> range_of bo h ga r = {} \<or> in_place h ns i r"
        by (rule settled_apart [OF b s c r(2) a(2,1)])
      moreover have "range_of bo h ga' ?n = range_of bo h g2 ?n" by (rule frame_range) (use V in \<open>simp_all add: same_place_def\<close>)
      moreover have "range_of bo h ga' r = range_of bo h ga r"
        using frame_range [OF fr] same [of r] r(1) nD by (auto simp: same_place_def)
      ultimately show "range_of bo h ga' ?n \<inter> range_of bo h ga' r = {} \<or> in_place h ns i r" by simp
    qed
  qed
  show ?thesis unfolding planning_def Let_def D' using V a3 po' ap' by auto
qed

section \<open>Leafs, and the first counts\<close>

definition leafs_placed :: "backend_ops \<Rightarrow> heap \<Rightarrow> ptr set \<Rightarrow> ptr list \<Rightarrow> nat \<Rightarrow> ggml_gallocr \<Rightarrow> bool" where
  "leafs_placed bo h X ls i ga \<longleftrightarrow> books bo h X ga \<and>
     (\<forall>x. hn_n_children (node_at ga x) = 0 \<and> hn_n_views (node_at ga x) = 0) \<and>
     (\<forall>x. allocated ga x \<longleftrightarrow> x \<in> set (take i ls) \<and> planned h X x)"

lemma plan_leaf_step:
  assumes g: "plannable h ns ls" and i: "i < length ls" and l: "leafs_placed bo h (set ns \<union> set ls) ls i ga"
    and r: "plan_leaf bo h ids (i, ls ! i) ga = Some ga'"
  shows "leafs_placed bo h (set ns \<union> set ls) ls (Suc i) ga'"
proof -
  let ?X = "set ns \<union> set ls" let ?x = "ls ! i"
  have x: "?x \<in> ?X" "?x \<in> set ls" using i by simp_all
  obtain t where t: "h_tensors h ?x = Some t" using plannableD(5) [OF g x(1)] by blast
  have op: "t_op t = GGML_OP_NONE" using plannableD(6) [OF g x(2) t] by simp
  then have ip: "\<not> ggml_op_can_inplace (t_op t)" by (simp add: ggml_op_can_inplace_def)
  obtain b where a: "ggml_gallocr_allocate_node bo h ?x b ga = Some ga'" using r by (auto simp: plan_leaf_def bind_Some_iff)
  have bk: "books bo h ?X ga" using l by (simp add: leafs_placed_def)
  have s: "settled bo h ?X ga ?x ga'" by (rule allocate_node_settled [OF bk x(1) t _ a]) (use ip in simp)
  note S = settled_fun [OF s]
  have "allocated ga' y = (y = ?x \<and> planned h ?X y \<or> allocated ga y)" for y
  proof -
    have k: "quiet bo h ?X ga ga' \<or> placed_fresh bo h ?X ga ?x ga'" using s ip t by (auto simp: settled_def split: if_splits)
    have "y \<noteq> ?x \<Longrightarrow> allocated ga' y = allocated ga y" using k placed_freshD(3) by (auto simp: quiet_def)
    moreover have "allocated ga' ?x \<Longrightarrow> planned h ?X ?x" using booksD(4) [OF S(1)] by (simp add: holds_def)
    moreover have "allocated ga ?x \<Longrightarrow> allocated ga' ?x" using k placed_freshD(4) by (auto simp: quiet_def)
    ultimately show ?thesis using S(7) by (cases "y = ?x") auto
  qed
  then show ?thesis using l S(1,4,5) i by (auto simp: leafs_placed_def take_Suc_conv_app_nth)
qed

text \<open>The counting loop leaves the ranges alone.\<close>

definition same_ranges :: "backend_ops \<Rightarrow> heap \<Rightarrow> ptr set \<Rightarrow> ggml_gallocr \<Rightarrow> ggml_gallocr \<Rightarrow> bool" where
  "same_ranges bo h X ga ga' \<longleftrightarrow> books bo h X ga' \<and> frame ga ga' \<and>
     (\<forall>x. same_place ga ga' x \<and> allocated ga' x = allocated ga x)"

lemma same_ranges_trans: "same_ranges bo h X a b \<Longrightarrow> same_ranges bo h X b c \<Longrightarrow> same_ranges bo h X a c"
  unfolding same_ranges_def same_place_def using frame_trans [of a b c] by auto

lemma quiet_same: "quiet bo h X a b \<Longrightarrow> same_ranges bo h X a b"
  by (simp add: quiet_def same_ranges_def same_place_def)

lemma count_up:
  assumes b: "books bo h X ga" and r: "ggml_gallocr_hash_get ga x = Some (i, g1)"
    and f: "\<And>n. hn_allocated (f n) = hn_allocated n \<and> hn_buffer_id (f n) = hn_buffer_id n \<and> hn_addr (f n) = hn_addr n"
  shows "same_ranges bo h X ga (set_hn g1 i f)" "node_at (set_hn g1 i f) = (node_at ga)(x := f (node_at ga x))"
proof -
  note g = hash_get_books [OF b r]
  note s = set_hn_count [OF g(1,3), of f, OF f]
  show "node_at (set_hn g1 i f) = (node_at ga)(x := f (node_at ga x))" using s(3) g(4) by simp
  then show "same_ranges bo h X ga (set_hn g1 i f)"
    using s(1) frame_trans [OF g(2) s(2)] f by (simp add: same_ranges_def same_place_def)
qed

lemma count_srcs_step:
  assumes g: "plannable h ns ls"
  shows "books bo h (set ns \<union> set ls) ga \<Longrightarrow> set ps \<subseteq> insert NULL (set ns \<union> set ls) \<Longrightarrow>
    \<forall>x \<in> set ls. planned h (set ns \<union> set ls) x \<longrightarrow> allocated ga x \<Longrightarrow>
    \<forall>x. 0 \<le> hn_n_children (node_at ga x) \<and> (x \<noteq> NULL \<longrightarrow> hn_n_children (node_at ga x) + int (count_list ps x) < 2 ^ 31) \<Longrightarrow>
    for_each (count_src bo h ids i) ps ga = Some ga' \<Longrightarrow>
    same_ranges bo h (set ns \<union> set ls) ga ga' \<and> (\<forall>x. hn_n_views (node_at ga' x) = hn_n_views (node_at ga x) \<and>
      hn_n_children (node_at ga' x) = hn_n_children (node_at ga x) + (if x = NULL then 0 else int (count_list ps x)))"
proof (induction ps arbitrary: ga)
  case Nil
  then show ?case by (simp add: same_ranges_def same_place_def)
next
  case (Cons p ps)
  let ?X = "set ns \<union> set ls"
  obtain g1 where 1: "count_src bo h ids i p ga = Some g1" and 2: "for_each (count_src bo h ids i) ps g1 = Some ga'"
    using Cons.prems(5) by (auto simp: bind_Some_iff)
  show ?case
  proof (cases "p = NULL")
    case True
    then have "g1 = ga" using 1 by (simp add: count_src_def)
    then show ?thesis using Cons.IH [OF Cons.prems(1) _ Cons.prems(3)] Cons.prems(2,4) 2 True by (auto split: if_splits)
  next
    case False
    then have pX: "p \<in> ?X" using Cons.prems(2) by simp
    obtain t where t: "h_tensors h p = Some t" using plannableD(5) [OF g pX] by blast
    let ?f = "\<lambda>n. n\<lparr> hn_n_children := i32 (hn_n_children n + 1) \<rparr>"
    obtain j g0 where 0: "ggml_gallocr_hash_get ga p = Some (j, g0)"
      and rest: "(if t_flags t AND GGML_TENSOR_FLAG_INPUT \<noteq> 0
        then do { b \<leftarrow> get_node_buffer_id ids i; ggml_gallocr_allocate_node bo h p b (set_hn g0 j ?f) }
        else Some (set_hn g0 j ?f)) = Some g1"
      using 1 False t by (auto simp: count_src_def bind_Some_iff Let_def)
    have u: "same_ranges bo h ?X ga (set_hn g0 j ?f)" "node_at (set_hn g0 j ?f) = (node_at ga)(p := ?f (node_at ga p))"
      by (rule count_up [OF Cons.prems(1) 0]; simp)+
    have b0: "books bo h ?X (set_hn g0 j ?f)" using u(1) by (simp add: same_ranges_def)
    have q: "quiet bo h ?X (set_hn g0 j ?f) g1"
    proof (cases "t_flags t AND GGML_TENSOR_FLAG_INPUT = 0")
      case True
      then show ?thesis using rest b0 by (simp add: quiet_def)
    next
      case inp: False
      then obtain b where a: "ggml_gallocr_allocate_node bo h p b (set_hn g0 j ?f) = Some g1" using rest by (auto simp: bind_Some_iff)
      have "p \<notin> set ns" using plannableD(8) [OF g _ t] inp by blast
      then have "\<not> (planned h ?X p \<and> \<not> allocated (set_hn g0 j ?f) p)" using pX Cons.prems(3) u(2) by auto
      then show ?thesis by (rule allocate_node_skip [OF b0 pX _ a])
    qed
    have sr: "same_ranges bo h ?X ga g1" using u(1) quiet_same [OF q] by (rule same_ranges_trans)
    have n1: "node_at g1 = (node_at ga)(p := ?f (node_at ga p))" using q u(2) by (simp add: quiet_def)
    have "0 \<le> hn_n_children (node_at ga p)" "hn_n_children (node_at ga p) + int (count_list (p # ps) p) < 2 ^ 31"
      using Cons.prems(4) False by blast+
    then have "i32 (hn_n_children (node_at ga p) + 1) = hn_n_children (node_at ga p) + 1" by (intro i32_small) simp_all
    then have ch: "hn_n_children (node_at g1 x) = hn_n_children (node_at ga x) + (if x = p then 1 else 0)"
      "hn_n_views (node_at g1 x) = hn_n_views (node_at ga x)" for x by (simp_all add: n1)
    have "\<forall>x \<in> set ls. planned h ?X x \<longrightarrow> allocated g1 x" using Cons.prems(3) sr by (simp add: same_ranges_def)
    moreover have "\<forall>x. 0 \<le> hn_n_children (node_at g1 x) \<and> (x \<noteq> NULL \<longrightarrow> hn_n_children (node_at g1 x) + int (count_list ps x) < 2 ^ 31)"
      using Cons.prems(4) by (auto simp: ch)
    ultimately have "same_ranges bo h ?X g1 ga' \<and> (\<forall>x. hn_n_views (node_at ga' x) = hn_n_views (node_at g1 x) \<and>
      hn_n_children (node_at ga' x) = hn_n_children (node_at g1 x) + (if x = NULL then 0 else int (count_list ps x)))"
      using Cons.IH [OF _ _ _ _ 2] sr Cons.prems(2) by (simp add: same_ranges_def)
    then show ?thesis using same_ranges_trans [OF sr] False by (auto simp: ch)
  qed
qed

definition counting :: "backend_ops \<Rightarrow> heap \<Rightarrow> ptr list \<Rightarrow> ptr list \<Rightarrow> nat \<Rightarrow> ggml_gallocr \<Rightarrow> bool" where
  "counting bo h ns ls i ga \<longleftrightarrow> (let X = set ns \<union> set ls in books bo h X ga \<and>
     (\<forall>x. allocated ga x \<longleftrightarrow> x \<in> set ls \<and> planned h X x) \<and>
     (\<forall>x. hn_n_children (node_at ga x) = reads h (take i ns) x \<and>
        hn_n_views (node_at ga x) = (if x = NULL then 0 else int (length (filter (\<lambda>v. base_of h v = x) (take i ns))))))"

lemma count_node_step:
  assumes g: "plannable h ns ls" and i: "i < length ns" and c: "counting bo h ns ls i ga"
    and r: "count_node bo h ids (i, ns ! i) ga = Some ga'"
  shows "counting bo h ns ls (Suc i) ga'"
proof -
  let ?X = "set ns \<union> set ls" let ?x = "ns ! i"
  note P = plannableD [OF g]
  have x: "?x \<in> ?X" "?x \<in> set ns" using i by simp_all
  obtain t where t: "h_tensors h ?x = Some t" and x0: "?x \<noteq> NULL" using P(4,5) [OF x(1)] by blast
  have v: "ggml_is_view t \<and> t_op t \<noteq> GGML_OP_NONE \<longleftrightarrow> base_of h ?x \<noteq> NULL" and bv: "base_of h ?x = t_view_src t"
    using P(10) [OF x(2) t] t by (auto simp: ggml_is_view_def base_of_def)
  have b: "books bo h ?X ga" and C: "hn_n_children (node_at ga y) = reads h (take i ns) y"
      "hn_n_views (node_at ga y) = (if y = NULL then 0 else int (length (filter (\<lambda>v. base_of h v = y) (take i ns))))" for y
    using c by (simp_all add: counting_def Let_def)
  let ?f = "\<lambda>n. n\<lparr> hn_n_views := i32 (hn_n_views n + 1) \<rparr>"
  have r': "(if base_of h ?x \<noteq> NULL then do { (v, ga) \<leftarrow> ggml_gallocr_hash_get ga (base_of h ?x); Some (set_hn ga v ?f) }
      else Some ga) \<bind> for_each (count_src bo h ids i) (srcs h ?x) = Some ga'"
    using r t P(8) [OF x(2) t] x0
    by (cases "t_view_src t = NULL") (simp_all add: count_node_def v bv tget_def srcs_def)
  then obtain g1 where 1: "(if base_of h ?x \<noteq> NULL then do { (v, ga) \<leftarrow> ggml_gallocr_hash_get ga (base_of h ?x); Some (set_hn ga v ?f) }
      else Some ga) = Some g1" and 2: "for_each (count_src bo h ids i) (srcs h ?x) g1 = Some ga'"
    by (auto simp: bind_eq_Some_conv)
  have len: "int (length (filter Q (take i ns))) + 1 < 2 ^ 31" for Q
  proof -
    have "length (filter Q (take i ns)) < length ns" using length_filter_le [of Q "take i ns"] i by simp
    then show ?thesis using P(12) by simp
  qed
  have n1: "same_ranges bo h ?X ga g1 \<and> (\<forall>y. hn_n_children (node_at g1 y) = reads h (take i ns) y \<and>
      hn_n_views (node_at g1 y) = (if y = NULL then 0 else int (length (filter (\<lambda>v. base_of h v = y) (take (Suc i) ns)))))"
  proof (cases "base_of h ?x = NULL")
    case True
    then show ?thesis using 1 b C i by (simp add: same_ranges_def same_place_def take_Suc_conv_app_nth)
  next
    case False
    then obtain j g0 where 0: "ggml_gallocr_hash_get ga (base_of h ?x) = Some (j, g0)" and g1: "g1 = set_hn g0 j ?f"
      using 1 by (auto simp: bind_Some_iff)
    have u: "same_ranges bo h ?X ga g1" "node_at g1 = (node_at ga)(base_of h ?x := ?f (node_at ga (base_of h ?x)))"
      unfolding g1 by (rule count_up [OF b 0]; simp)+
    have "i32 (hn_n_views (node_at ga (base_of h ?x)) + 1) = hn_n_views (node_at ga (base_of h ?x)) + 1"
      using len False by (intro i32_small) (simp_all add: C)
    then show ?thesis using u(1) C False i by (auto simp: u(2) take_Suc_conv_app_nth)
  qed
  have b1: "books bo h ?X g1" using n1 by (simp add: same_ranges_def)
  have sub: "set (srcs h ?x) \<subseteq> insert NULL ?X" using P(7) [OF i] i set_take_subset [of i ns] by fastforce
  have al: "\<forall>x \<in> set ls. planned h ?X x \<longrightarrow> allocated g1 x" using c n1 by (simp add: counting_def Let_def same_ranges_def)
  have step: "reads h (take (Suc i) ns) y = reads h (take i ns) y + (if y = NULL then 0 else int (count_list (srcs h ?x) y))" for y
    using i by (simp add: take_Suc_conv_app_nth reads_append reads_def)
  have "reads h (take (Suc i) ns) y \<le> reads h ns y" for y
    using reads_append [of h "take (Suc i) ns" "drop (Suc i) ns" y] by simp
  then have "reads h (take (Suc i) ns) y < 2 ^ 31" for y using P(11) [of y] by (rule order_le_less_trans)
  then have "\<forall>y. 0 \<le> hn_n_children (node_at g1 y) \<and>
      (y \<noteq> NULL \<longrightarrow> hn_n_children (node_at g1 y) + int (count_list (srcs h ?x) y) < 2 ^ 31)"
    using n1 step by (metis reads_nonneg)
  from count_srcs_step [OF g b1 sub al this 2] n1 c show ?thesis
    by (simp add: counting_def Let_def same_ranges_def step)
qed

lemma counting_done:
  assumes g: "plannable h ns ls" and c: "counting bo h ns ls (length ns) ga"
  shows "planning bo h ns ls 0 ga"
proof -
  let ?X = "set ns \<union> set ls"
  have "open_views h ns (reads h ns) x = (if x = NULL then [] else filter (\<lambda>v. base_of h v = x) ns)" for x
  proof -
    have "0 < reads h ns v \<or> reads h ns v = 0" for v using reads_nonneg [of h ns v] by linarith
    then show ?thesis by (simp add: open_views_def)
  qed
  moreover have "placed_ok bo h ga x" if "x \<in> set ls" "planned h ?X x" for x
    using c that booksD(4) [of bo h ?X ga x] by (simp add: counting_def Let_def placed_ok_def holds_def)
  ultimately show ?thesis using c by (simp add: planning_def counting_def Let_def counts_def alive_def)
qed

lemma zero_node_fields [simp]:
  "hn_n_children zero_node = 0" "hn_n_views zero_node = 0" "\<not> hn_allocated zero_node"
  by (simp_all add: zero_node_def)

lemma fresh_table:
  assumes hs: "hs_inv (ga_hash_set ga)" and dyn: "\<forall>al \<in> set (ga_tallocs ga). dyn_ok al" and env: "env_ok bo h X ga"
  shows "leafs_placed bo h X ls 0 (ga\<lparr> ga_hash_set := ggml_hash_set_reset (ga_hash_set ga),
    ga_hash_values := replicate (hs_size (ga_hash_set ga)) zero_node \<rparr>)"
proof -
  let ?ga = "ga\<lparr> ga_hash_set := ggml_hash_set_reset (ga_hash_set ga),
    ga_hash_values := replicate (hs_size (ga_hash_set ga)) zero_node \<rparr>"
  note r = ggml_hash_set_reset_spec [OF hs]
  have n: "node_at ?ga x = zero_node" for x
  proof (rule node_at_none)
    fix i show "\<not> slot_of ?ga i x" using r by (auto simp: hs_set_def hs_occupied_def)
  qed
  have t: "table_ok ?ga" using r by (simp add: table_ok_def)
  have "env_ok bo h X ?ga" using env by (auto simp: env_ok_def aligns_def need_def talloc_of_def)
  then have "books bo h X ?ga" using t dyn by (simp add: books_def n)
  then show ?thesis by (simp add: leafs_placed_def n)
qed

lemma plan_result:
  assumes g: "plannable h (g_node_list g) (g_leaf_list g)"
    and ga: "hs_inv (ga_hash_set ga)" "\<forall>al \<in> set (ga_tallocs ga). dyn_ok al" "env_ok bo h (g_done g) ga"
    and r: "ggml_gallocr_alloc_graph_impl bo h g nids lids ga = Some ga'"
  shows "planning bo h (g_node_list g) (g_leaf_list g) (length (g_node_list g)) ga'"
proof -
  let ?ns = "g_node_list g" let ?ls = "g_leaf_list g" let ?X = "set ?ns \<union> set ?ls"
  let ?g0 = "ga\<lparr> ga_hash_set := ggml_hash_set_reset (ga_hash_set ga),
    ga_hash_values := replicate (hs_size (ga_hash_set ga)) zero_node \<rparr>"
  obtain g1 g2 where 1: "for_each (plan_leaf bo h lids) (enumerate 0 ?ls) ?g0 = Some g1"
    and 2: "for_each (count_node bo h nids) (enumerate 0 ?ns) g1 = Some g2"
    and 3: "for_each (place_node bo h nids) (enumerate 0 ?ns) g2 = Some ga'"
    using r by (auto simp: ggml_gallocr_alloc_graph_impl_def bind_Some_iff Let_def)
  have "leafs_placed bo h ?X ?ls 0 ?g0" using fresh_table [OF ga(1,2)] ga(3) by (simp add: g_done_def)
  from for_each_inv [OF 1, of "leafs_placed bo h ?X ?ls", OF this] plan_leaf_step [OF g]
  have "leafs_placed bo h ?X ?ls (length ?ls) g1" by (simp add: nth_enumerate_eq)
  then have "counting bo h ?ns ?ls 0 g1" by (auto simp: leafs_placed_def counting_def Let_def reads_def)
  from for_each_inv [OF 2, of "counting bo h ?ns ?ls", OF this] count_node_step [OF g]
  have "counting bo h ?ns ?ls (length ?ns) g2" by (simp add: nth_enumerate_eq)
  then have "planning bo h ?ns ?ls 0 g2" by (rule counting_done [OF g])
  from for_each_inv [OF 3, of "planning bo h ?ns ?ls", OF this] place_node_step [OF g]
  show ?thesis by (simp add: nth_enumerate_eq)
qed

end
