(* ===== verification/GallocSafe.thy ===== *)
theory GallocSafe
  imports GallocPlan GraphProps OpsProps
begin

text \<open>
  The promise of the graph allocator, in terms of the graph: no node is placed over a tensor that is still to
  be read, and every range lies inside a chunk.
\<close>

section \<open>What a node may overwrite\<close>

text \<open>Some node from the i-th on reads the tensor or a view of it, or the tensor is an output.\<close>

definition read_from :: "heap \<Rightarrow> ggml_cgraph \<Rightarrow> nat \<Rightarrow> ptr \<Rightarrow> bool" where
  "read_from h g i r \<longleftrightarrow> (\<exists>q \<in> set (drop i (g_node_list g)). \<exists>s \<in> set (srcs h q). s \<noteq> NULL \<and> (s = r \<or> base_of h s = r))"

definition still_needed :: "heap \<Rightarrow> ggml_cgraph \<Rightarrow> nat \<Rightarrow> ptr \<Rightarrow> bool" where
  "still_needed h g i r \<longleftrightarrow> \<not> no_output h r \<or> read_from h g i r"

text \<open>The i-th node works in place on a source of the same layout that nothing needs after it.\<close>

definition works_in_place :: "heap \<Rightarrow> ggml_cgraph \<Rightarrow> nat \<Rightarrow> ptr \<Rightarrow> bool" where
  "works_in_place h g i r \<longleftrightarrow> r \<in> set (srcs h (g_node_list g ! i)) \<and> \<not> still_needed h g (Suc i) r \<and>
     (case (h_tensors h (g_node_list g ! i), h_tensors h r) of
        (Some t, Some u) \<Rightarrow> ggml_op_can_inplace (t_op t) \<and> ggml_are_same_layout t u | _ \<Rightarrow> False)"

abbreviation graph_plannable :: "heap \<Rightarrow> ggml_cgraph \<Rightarrow> bool" where
  "graph_plannable h g \<equiv> plannable h (g_node_list g) (g_leaf_list g)"

lemma read_from_reads: "plannable h ns ls \<Longrightarrow> i \<le> length ns \<Longrightarrow> q \<in> set (drop i ns) \<Longrightarrow> s \<in> set (srcs h q) \<Longrightarrow> s \<noteq> NULL \<Longrightarrow>
    0 < reads h (drop i ns) s"
  by (rule reads_pos)

lemma view_source_is_node:
  assumes g: "plannable h ns ls" and q: "q \<in> set ns" "s \<in> set (srcs h q)" "s \<noteq> NULL" "base_of h s \<noteq> NULL"
  shows "s \<in> set ns"
proof -
  obtain i where i: "i < length ns" "q = ns ! i" using q(1) by (auto simp: in_set_conv_nth)
  have s: "s \<in> set ns \<union> set ls" using plannableD(7) [OF g i(1)] q(2,3) i set_take_subset [of i ns] by fastforce
  have "s \<notin> set ls"
  proof
    assume l: "s \<in> set ls"
    obtain t where "h_tensors h s = Some t" using plannableD(5) [OF g s] by blast
    then show False using plannableD(6) [OF g l] q(4) by (simp add: base_of_def)
  qed
  then show ?thesis using s by blast
qed

lemma still_needed_needed:
  assumes g: "plannable h (g_node_list g) ls" and r: "r \<noteq> NULL" and n: "still_needed h g i r"
  shows "needed h (g_node_list g) (reads h (drop i (g_node_list g))) r"
proof (cases "no_output h r")
  case True
  let ?ns = "g_node_list g"
  obtain q s where q: "q \<in> set (drop i ?ns)" "s \<in> set (srcs h q)" "s \<noteq> NULL" "s = r \<or> base_of h s = r"
    using n True by (auto simp: still_needed_def read_from_def)
  have p: "0 < reads h (drop i ?ns) s" using q by (intro reads_pos)
  show ?thesis
  proof (cases "s = r")
    case False
    have "s \<in> set ?ns" by (rule view_source_is_node [OF g _ q(2,3)]) (use q r False in \<open>auto dest: in_set_dropD\<close>)
    then have "s \<in> set (open_views h ?ns (reads h (drop i ?ns)) r)" using p q False r by (simp add: open_views_def)
    then show ?thesis by (auto simp: needed_def)
  qed (use p in \<open>simp add: needed_def\<close>)
qed (simp add: needed_def)

lemma in_place_works:
  assumes g: "plannable h (g_node_list g) ls" and i: "i < length (g_node_list g)" and p: "in_place h (g_node_list g) i r"
  shows "works_in_place h g i r"
proof -
  let ?ns = "g_node_list g"
  have "r \<noteq> NULL" using p by (auto simp: in_place_def reads_def)
  then have "\<not> still_needed h g (Suc i) r" using still_needed_needed [OF g] in_place_done [OF i p] by blast
  then show ?thesis using p by (auto simp: works_in_place_def in_place_def)
qed

text \<open>
  A graph of a session has what the planner relies on, when the client keeps to four rules: leafs are no views,
  only leafs are flagged as inputs, views are results of operations, and a tensor that names itself as a source
  (a cast does) is not computed in place.
\<close>

definition allocatable :: "heap \<Rightarrow> ggml_cgraph \<Rightarrow> bool" where
  "allocatable h g \<longleftrightarrow> (\<forall>x \<in> set (g_leaf_list g). base_of h x = NULL) \<and>
     (\<forall>x \<in> set (g_node_list g). \<forall>t. h_tensors h x = Some t \<longrightarrow>
        t_flags t AND GGML_TENSOR_FLAG_INPUT = 0 \<and> (x \<in> set (t_src t) \<longrightarrow> \<not> ggml_op_can_inplace (t_op t)) \<and>
        (t_view_src t \<noteq> NULL \<longrightarrow> t_op t \<noteq> GGML_OP_NONE)) \<and>
     (\<Sum>q \<leftarrow> g_node_list g. int (length (srcs h q))) < 2 ^ 31"

lemma graph_state_plannable:
  assumes "graph_state h cg g" "allocatable h g"
  shows "graph_plannable h g"
proof -
  have inv: "heap_inv h" and ok: "graph_ok h g" and fin: "\<forall>p \<in> g_done g. h_tensors h p \<noteq> None \<and> p \<noteq> NULL"
    and size: "g_size g < 2 ^ 31" using assms(1) by (simp_all add: graph_state_def graph_complete_def)
  have leaf: "t_op t = GGML_OP_NONE \<and> t_view_src t = NULL" if "x \<in> set (g_leaf_list g)" "h_tensors h x = Some t" for x t
    using ok assms(2) that by (auto simp: graph_ok_def is_leaf_def allocatable_def base_of_def)
  have view: "base_of h (t_view_src t) = NULL" if "h_tensors h x = Some t" "t_view_src t \<noteq> NULL" for x t
    using inv that by (fastforce simp: heap_inv_def tensors_wf_def node_wf_def base_of_def)
  have "int (length (g_nodes g)) = g_size g" using ok by (simp add: graph_ok_def graph_shape_def)
  then have "int (length (g_node_list g)) < 2 ^ 31" using size by (simp add: g_node_list_def)
  moreover have "set (srcs h (g_node_list g ! i)) \<subseteq> {NULL, g_node_list g ! i} \<union> set (take i (g_node_list g)) \<union> set (g_leaf_list g)"
    if "i < length (g_node_list g)" for i
    using ok that unfolding graph_ok_def sources_before_def by blast
  moreover have "distinct (g_node_list g @ g_leaf_list g)" using ok by (simp add: graph_ok_def)
  ultimately show ?thesis
    using fin leaf view assms(2) unfolding plannable_def allocatable_def g_done_def by blast
qed

text \<open>The allocator a plan starts from.\<close>

definition allocator_ready :: "backend_ops \<Rightarrow> heap \<Rightarrow> ggml_cgraph \<Rightarrow> ggml_gallocr \<Rightarrow> bool" where
  "allocator_ready bo h g ga \<longleftrightarrow> hs_inv (ga_hash_set ga) \<and> (\<forall>al \<in> set (ga_tallocs ga). dyn_ok al) \<and> env_ok bo h (g_done g) ga"

section \<open>A small plan\<close>

text \<open>
  The graph of two leafs, their product and its square, on one buffer type with alignment 32, evaluated step by
  step: the leafs are given back after the product, and the square takes over the bytes of the product.
\<close>

definition demo_buft :: backend_ops where
  "demo_buft = \<lparr> bo_alignment = \<lambda>_. 32, bo_max_size = \<lambda>_. Some 4096, bo_alloc_size = \<lambda>_. None \<rparr>"


type_synonym demo_slot = "hash_node option"

abbreviation entry :: "demo_slot \<Rightarrow> hash_node" where
  "entry v \<equiv> case v of None \<Rightarrow> zero_node | Some n \<Rightarrow> n"

definition demo_gallocr :: "demo_slot \<Rightarrow> demo_slot \<Rightarrow> demo_slot \<Rightarrow> demo_slot \<Rightarrow> tallocr_chunk list \<Rightarrow> ggml_gallocr" where
  "demo_gallocr a b c d chunks = \<lparr> ga_bufts = [1], ga_buffers = [0], ga_buf_tallocs = [0], ga_tallocs = [demo_alloc chunks],
     ga_hash_set = \<lparr> hs_size = 5,
       hs_used = [(if b = None then 0 else 2) OR (if d = None then 0 else 4) OR (if a = None then 0 else 8) OR (if c = None then 0 else 16)],
       hs_keys = [0, if b = None then 0 else 65936, if d = None then 0 else 66672, if a = None then 0 else 65568,
         if c = None then 0 else 66304] \<rparr>,
     ga_hash_values = [zero_node, entry b, entry d, entry a, entry c],
     ga_node_allocs = [], ga_n_nodes = 0, ga_leaf_allocs = [], ga_n_leafs = 0 \<rparr>"

lemma demo_new_gallocr: "ggml_gallocr_new demo_buft 1 =
   Some (demo_gallocr None None None None []\<lparr> ga_hash_set := \<lparr> hs_size = 0, hs_used = [], hs_keys = [] \<rparr>, ga_hash_values := [] \<rparr>)"
  by (simp add: ggml_gallocr_new_def ggml_gallocr_new_n_def add_buft_def ggml_backend_buft_get_alignment_def
    ggml_backend_buft_get_max_size_def demo_buft_def demo_new demo_gallocr_def)

lemma demo_get:
  "ggml_gallocr_hash_get (demo_gallocr a b c d ch) 65568 = Some (3, demo_gallocr (Some (entry a)) b c d ch)"
  "ggml_gallocr_hash_get (demo_gallocr a b c d ch) 65936 = Some (1, demo_gallocr a (Some (entry b)) c d ch)"
  "ggml_gallocr_hash_get (demo_gallocr a b c d ch) 66304 = Some (4, demo_gallocr a b (Some (entry c)) d ch)"
  "ggml_gallocr_hash_get (demo_gallocr a b c d ch) 66672 = Some (2, demo_gallocr a b c (Some (entry d)) ch)"
  by (cases a; cases b; cases c; cases d;
    simp add: ggml_gallocr_hash_get_def ggml_hash_find_or_insert_def Let_def hash_insert_loop.simps
        demo_gallocr_def ggml_bitset_get_bit hs_put_def ggml_bitset_set_def ggml_hash_def u64_def)+

lemma demo_set:
  "set_hn (demo_gallocr (Some v) b c d ch) 3 f = demo_gallocr (Some (f v)) b c d ch"
  "set_hn (demo_gallocr a (Some v) c d ch) (Suc 0) f = demo_gallocr a (Some (f v)) c d ch"
  "set_hn (demo_gallocr a b (Some v) d ch) 4 f = demo_gallocr a b (Some (f v)) d ch"
  "set_hn (demo_gallocr a b c (Some v) ch) 2 f = demo_gallocr a b c (Some (f v)) ch"
  by (simp_all add: set_hn_def demo_gallocr_def eval_nat_numeral)

lemma demo_at:
  "ga_hash_values (demo_gallocr a b c d ch) = [zero_node, entry b, entry d, entry a, entry c]"
  "set_talloc (demo_gallocr a b c d ch) 0 (demo_alloc cs) = demo_gallocr a b c d cs"
  "talloc_index (demo_gallocr a b c d ch) 0 = Some 0"
  "buft_at (demo_gallocr a b c d ch) 0 = Some 1"
  "ga_tallocs (demo_gallocr a b c d ch) = [demo_alloc ch]"
  by (simp_all add: set_talloc_def demo_gallocr_def talloc_index_def buft_at_def)

lemma demo_chain_tensors:
  "tget demo_chain 65568 = Some (demo_matrix 4 3)" "tget demo_chain 65936 = Some (demo_matrix 4 2)"
  "tget demo_chain 66304 = Some demo_product"
  "tget demo_chain 66672 = Some ((demo_matrix 3 2)\<lparr> t_op := GGML_OP_SQR, t_src := (replicate 10 0)[0 := 66304] \<rparr>)"
  by (simp_all add: tget_def demo_chain_def demo_nodes_def)

lemma demo_sizes: "ggml_nbytes (demo_matrix 4 2) = 32" "ggml_nbytes demo_product = 24"
  "ggml_nbytes ((demo_matrix 3 2)\<lparr> t_op := GGML_OP_SQR, t_src := (replicate 10 0)[0 := 66304] \<rparr>) = 24"
  by (simp_all add: demo_product_def demo_matrix_def ggml_nbytes_def nbytes_strides_def GGML_MAX_DIMS_def upt_rec u64_def)

lemma demo_data: "t_data (demo_matrix m n) = 0" "t_buffer (demo_matrix m n) = 0" "t_data demo_product = 0" "t_buffer demo_product = 0"
  "t_view_src demo_product = 0" "t_op demo_product = GGML_OP_MUL_MAT" "t_src demo_product = [65568, 65936, 0, 0, 0, 0, 0, 0, 0, 0]"
  "t_flags demo_product = 0" "t_src (demo_matrix 3 2\<lparr> t_op := GGML_OP_SQR, t_src := (replicate 10 0)[0 := 66304] \<rparr>) = [66304, 0, 0, 0, 0, 0, 0, 0, 0, 0]"
  "ggml_are_same_layout ((demo_matrix 3 2)\<lparr> t_op := GGML_OP_SQR, t_src := (replicate 10 0)[0 := 66304] \<rparr>) demo_product"
  by (simp_all add: demo_product_def demo_matrix_def ggml_are_same_layout_def numeral_eq_Suc)

lemma demo_size_of: "ggml_backend_buft_get_alloc_size demo_buft 1 t = Some (ggml_nbytes t)"
  by (simp add: ggml_backend_buft_get_alloc_size_def demo_buft_def)

lemmas demo_eval = demo_get demo_set demo_at demo_chain_tensors demo_sizes demo_nbytes demo_data demo_size_of demo_matrix_fields
  get_node_buffer_id_def ggml_is_view_def ggml_op_can_inplace_def

lemma demo_dyn: "ggml_dyn_tallocr_alloc (demo_alloc []) 48 = Some (\<lparr> ba_chunk = 0, ba_offset = 0 \<rparr>, demo_alloc [demo_tail 64])"
  "ggml_dyn_tallocr_alloc (demo_alloc [demo_tail 64]) 32 = Some (\<lparr> ba_chunk = 0, ba_offset = 64 \<rparr>, demo_alloc [demo_tail 96])"
  "ggml_dyn_tallocr_alloc (demo_alloc [demo_tail 96]) 24 = Some (\<lparr> ba_chunk = 0, ba_offset = 96 \<rparr>, demo_alloc [demo_tail 128])"
  by (simp_all add: dyn_eval demo_alloc_def demo_tail_def)

definition demo_value :: "int \<Rightarrow> int \<Rightarrow> bool \<Rightarrow> hash_node" where
  "demo_value n off a = \<lparr> hn_n_children = n, hn_n_views = 0, hn_buffer_id = 0,
     hn_addr = \<lparr> ba_chunk = 0, ba_offset = off \<rparr>, hn_allocated = a \<rparr>"

lemma demo_values [simp]:
  "hn_allocated (demo_value n off a) = a" "hn_n_children (demo_value n off a) = n" "hn_n_views (demo_value n off a) = 0"
  "hn_buffer_id (demo_value n off a) = 0" "hn_addr (demo_value n off a) = \<lparr> ba_chunk = 0, ba_offset = off \<rparr>"
  "demo_value n off a\<lparr> hn_allocated := a' \<rparr> = demo_value n off a'"
  "demo_value n off a\<lparr> hn_n_children := n' \<rparr> = demo_value n' off a"
  "demo_value n off a\<lparr> hn_buffer_id := 0, hn_addr := \<lparr> ba_chunk = 0, ba_offset = off' \<rparr> \<rparr> = demo_value n off' a"
  "zero_node = demo_value 0 0 False"
  by (simp_all add: demo_value_def zero_node_def)

lemma demo_leafs: "for_each (plan_leaf demo_buft demo_chain None) [(0, 65568), (1, 65936)] (demo_gallocr None None None None []) =
    Some (demo_gallocr (Some (demo_value 0 0 True)) (Some (demo_value 0 64 True)) None None [demo_tail 96])"
  by (simp add: plan_leaf_def ggml_gallocr_allocate_node_def ggml_gallocr_is_allocated_def ggml_gallocr_is_own_def
     demo_eval demo_dyn Let_def)

lemma demo_counts: "for_each (count_node demo_buft demo_chain None) [(0, 66304), (1, 66672)]
    (demo_gallocr (Some (demo_value 0 0 True)) (Some (demo_value 0 64 True)) None None [demo_tail 96]) =
    Some (demo_gallocr (Some (demo_value 1 0 True)) (Some (demo_value 1 64 True)) (Some (demo_value 1 0 False)) None [demo_tail 96])"
  by (simp add: count_node_def count_src_def demo_eval Let_def i32_def)

definition demo_split :: "int \<Rightarrow> tallocr_chunk" where
  "demo_split n = \<lparr> tc_free_blocks = [\<lparr> fb_offset = 0, fb_size = n \<rparr>, \<lparr> fb_offset = 128, fb_size = 3968 \<rparr>], tc_max_size = 128 \<rparr>"

lemma demo_dyn_free:
  "ggml_dyn_tallocr_free_bytes (demo_alloc [demo_tail 128]) \<lparr> ba_chunk = 0, ba_offset = 0 \<rparr> 48 = Some (demo_alloc [demo_split 64])"
  "ggml_dyn_tallocr_free_bytes (demo_alloc [demo_split 64]) \<lparr> ba_chunk = 0, ba_offset = 64 \<rparr> 32 = Some (demo_alloc [demo_split 96])"
  by (simp_all add: ggml_dyn_tallocr_free_bytes_def aligned_offset_def merge_block_def ggml_dyn_tallocr_insert_block_def
    MAX_FREE_BLOCKS_def demo_alloc_def demo_tail_def demo_split_def u64_def upt_rec)

lemmas demo_place = place_node_def place_parent_def update_parent_def ggml_gallocr_allocate_node_def
  ggml_gallocr_is_allocated_def ggml_gallocr_is_own_def ggml_gallocr_free_node_def reuse_parent_def
  ggml_gallocr_free_extra_space_def aligned_offset_def Let_def i32_def

lemma demo_place_0: "place_node demo_buft demo_chain None (0, 66304)
    (demo_gallocr (Some (demo_value 1 0 True)) (Some (demo_value 1 64 True)) (Some (demo_value 1 0 False)) None [demo_tail 96]) =
    Some (demo_gallocr (Some (demo_value 0 0 False)) (Some (demo_value 0 64 False)) (Some (demo_value 1 96 True)) None [demo_split 96])"
  by (simp add: demo_place demo_eval demo_dyn demo_dyn_free)

lemma demo_place_1: "place_node demo_buft demo_chain None (1, 66672)
    (demo_gallocr (Some (demo_value 0 0 False)) (Some (demo_value 0 64 False)) (Some (demo_value 1 96 True)) None [demo_split 96]) =
    Some (demo_gallocr (Some (demo_value 0 0 False)) (Some (demo_value 0 64 False)) (Some (demo_value 0 96 False))
      (Some (demo_value 0 96 True)) [demo_split 96])"
  by (simp add: demo_place demo_eval demo_alloc_def u64_def)

definition demo_plan :: ggml_cgraph where
  "demo_plan = demo_graph\<lparr> g_n_nodes := 2, g_nodes := [66304, 66672], g_n_leafs := 2, g_leafs := [65568, 65936] \<rparr>"

lemma demo_plan_lists: "g_node_list demo_plan = [66304, 66672]" "g_leaf_list demo_plan = [65568, 65936]"
  "g_done demo_plan = {65568, 65936, 66304, 66672}"
  by (auto simp: demo_plan_def g_node_list_def g_leaf_list_def g_done_def)

abbreviation "demo_start \<equiv> demo_gallocr None None None None []"

lemma demo_table: "ggml_bitset_size 5 = Suc 0" "replicate 5 zero_node = [zero_node, zero_node, zero_node, zero_node, zero_node]"
  by (simp add: ggml_bitset_size_def drop_bit_eq_div) (simp add: eval_nat_numeral)

lemma demo_planned: "ggml_gallocr_alloc_graph_impl demo_buft demo_chain demo_plan None None demo_start =
    Some (demo_gallocr (Some (demo_value 0 0 False)) (Some (demo_value 0 64 False)) (Some (demo_value 0 96 False))
      (Some (demo_value 0 96 True)) [demo_split 96])"
proof -
  have "demo_start\<lparr> ga_hash_set := ggml_hash_set_reset (ga_hash_set demo_start),
      ga_hash_values := replicate (hs_size (ga_hash_set demo_start)) zero_node \<rparr> = demo_start"
    using demo_table by (simp add: demo_gallocr_def ggml_hash_set_reset_def)
  moreover have "enumerate 0 [x, y] = [(0, x), (1, y)]" for x y :: ptr by simp
  moreover have "for_each (place_node demo_buft demo_chain None) [(0, 66304), (1, 66672)]
      (demo_gallocr (Some (demo_value 1 0 True)) (Some (demo_value 1 64 True)) (Some (demo_value 1 0 False)) None [demo_tail 96]) =
      Some (demo_gallocr (Some (demo_value 0 0 False)) (Some (demo_value 0 64 False)) (Some (demo_value 0 96 False))
        (Some (demo_value 0 96 True)) [demo_split 96])"
    by (simp only: for_each.simps demo_place_0 demo_place_1 bind.bind_lunit)
  ultimately show ?thesis
    by (simp only: ggml_gallocr_alloc_graph_impl_def Let_def demo_plan_lists demo_leafs demo_counts bind.bind_lunit)
qed

lemma demo_chain_srcs':
  "srcs demo_chain 66672 = [66304, 0, 0, 0, 0, 0, 0, 0, 0, 0]" "srcs demo_chain 66304 = [65568, 65936, 0, 0, 0, 0, 0, 0, 0, 0]"
  using demo_chain_srcs [OF refl] by (simp_all add: numeral_eq_Suc)

lemma demo_chain_of:
  "h_tensors demo_chain 65568 = Some (demo_matrix 4 3)" "h_tensors demo_chain 65936 = Some (demo_matrix 4 2)"
  "h_tensors demo_chain 66304 = Some demo_product"
  "h_tensors demo_chain 66672 = Some ((demo_matrix 3 2)\<lparr> t_op := GGML_OP_SQR, t_src := (replicate 10 0)[0 := 66304] \<rparr>)"
  by (simp_all add: demo_chain_def demo_nodes_def)

lemma demo_plannable: "graph_plannable demo_chain demo_plan"
  by (auto simp: plannable_def demo_plan_lists demo_chain_srcs' demo_chain_of demo_data demo_matrix_fields less_Suc_eq
    numeral_2_eq_2)

lemma demo_ready: "allocator_ready demo_buft demo_chain demo_plan demo_start"
proof -
  have "hs_inv (ga_hash_set demo_start)"
    using demo_table(1) by (intro hs_empty [THEN conjunct1]) (simp_all add: demo_gallocr_def GGML_HASHSET_ALREADY_EXISTS_def)
  moreover have "dyn_ok (demo_alloc [])" by (simp add: dyn_ok_def demo_alloc_def SIZE_MAX_def)
  moreover have "0 < need demo_buft demo_chain demo_start b x \<and> padded 32 (need demo_buft demo_chain demo_start b x) \<le> SIZE_MAX div 2"
    if "planned demo_chain (g_done demo_plan) x" for b x
  proof -
    have "need demo_buft demo_chain demo_start b x \<in> {48, 32, 24}"
      using that by (auto simp: planned_def demo_plan_lists need_def tsize_def demo_buft_def demo_chain_of demo_sizes demo_nbytes)
    then show ?thesis by (auto simp: padded_def SIZE_MAX_def)
  qed
  ultimately show ?thesis
    by (auto simp: allocator_ready_def env_ok_def demo_gallocr_def aligns_def talloc_of_def demo_alloc_def)
qed

lemma demo_planned_all: "x \<in> g_done demo_plan \<Longrightarrow> planned demo_chain (g_done demo_plan) x"
  by (auto simp: planned_def demo_plan_lists demo_chain_of demo_data demo_matrix_fields)

lemma demo_needed: "still_needed demo_chain demo_plan 0 65568"
  by (auto simp: still_needed_def read_from_def demo_plan_lists demo_chain_srcs')

section \<open>Properties\<close>

text \<open>C4: a plan does not let a node overwrite what is still to be read, for the graphs the planner is meant for.  When
  ggml_gallocr_alloc_graph_impl ends, the range it gave to the i-th node is apart from the range of every
  tensor that was placed before it (a leaf or an earlier node) and that is an output or is read, itself or
  through a view, by the i-th node or a later one; the one exception is a source that the node works on in
  place, of the same layout, no output, and read by nothing after it.  The conditions: the lists are in
  evaluation order, no view has GGML_OP_NONE, be it a leaf or a node (for those ggml-alloc.c:807 gives bases back
  too early, and the claim fails), no node is flagged as input, no node that can work in place is its own source (plannable); the
  allocator has a well-formed table and well-formed block lists, there are fewer than 2^31 source slots, and no tensor to be placed is empty or, padded, larger
  than SIZE_MAX/2 (allocator_ready, env_ok: an empty tensor leaves a free block of size 0 when it is released).\<close>

theorem plan_never_overwrites:
  assumes "graph_plannable h g" "allocator_ready bo h g ga"
    and "ggml_gallocr_alloc_graph_impl bo h g node_ids leaf_ids ga = Some ga'"
    and "i < length (g_node_list g)" "planned h (g_done g) (g_node_list g ! i)"
    and "r \<in> set (g_leaf_list g) \<union> set (take i (g_node_list g))" "planned h (g_done g) r" "still_needed h g i r"
  shows "range_of bo h ga' (g_node_list g ! i) \<inter> range_of bo h ga' r = {} \<or> works_in_place h g i r"
proof -
  have "planning bo h (g_node_list g) (g_leaf_list g) (length (g_node_list g)) ga'"
    using plan_result [OF assms(1) _ _ _ assms(3)] assms(2) by (simp add: allocator_ready_def)
  then have "apart_at bo h (g_node_list g) (g_leaf_list g) ga' i" using assms(4) by (simp add: planning_def Let_def)
  moreover have "needed h (g_node_list g) (reads h (drop i (g_node_list g))) r"
    using still_needed_needed [OF assms(1) _ assms(8)] assms(7) by (simp add: planned_def)
  ultimately have "range_of bo h ga' (g_node_list g ! i) \<inter> range_of bo h ga' r = {} \<or> in_place h (g_node_list g) i r"
    using assms(5-7) by (simp add: apart_at_def g_done_def)
  then show ?thesis using in_place_works [OF assms(1,4)] by blast
qed

theorem plan_never_overwrites_witness:
  "\<exists>ga. ggml_gallocr_alloc_graph_impl demo_buft demo_chain demo_plan None None demo_start = Some ga \<and>
     range_of demo_buft demo_chain ga 66304 \<inter> range_of demo_buft demo_chain ga 65568 = {}"
proof -
  have "\<not> works_in_place demo_chain demo_plan 0 65568"
    by (simp add: works_in_place_def demo_plan_lists demo_chain_of demo_data ggml_op_can_inplace_def)
  then show ?thesis
    using plan_never_overwrites [OF demo_plannable demo_ready demo_planned, of 0 65568] demo_needed demo_planned
      demo_planned_all [of 65568] demo_planned_all [of 66304] by (simp add: demo_plan_lists)
qed

text \<open>C17: every tensor such a plan places lies inside a chunk of the allocator of its buffer, at an aligned
  offset, with all the bytes its buffer type asks for below the size recorded for the chunk, which is the
  size ggml_gallocr_reserve_n requests from the backend.  The conditions are those of the plan theorem above: no
  view with GGML_OP_NONE, no node flagged as input, no in-place node that is its own source (plannable), and no
  empty tensor and none above SIZE_MAX/2 among those to be placed (allocator_ready, env_ok).\<close>

theorem plan_within_chunks:
  assumes "graph_plannable h g" "allocator_ready bo h g ga"
    and "ggml_gallocr_alloc_graph_impl bo h g node_ids leaf_ids ga = Some ga'"
    and "planned h (g_done g) x" and "n = node_at ga' x" and "al = ga_tallocs ga' ! talloc_of ga' (hn_buffer_id n)"
  shows "nat (ba_chunk (hn_addr n)) < length (da_chunks al) \<and> 0 \<le> ba_offset (hn_addr n) \<and>
    ba_offset (hn_addr n) mod da_alignment al = 0 \<and>
    ba_offset (hn_addr n) + need bo h ga' (hn_buffer_id n) x \<le> ggml_dyn_tallocr_max_size al (ba_chunk (hn_addr n))"
proof -
  let ?X = "set (g_node_list g) \<union> set (g_leaf_list g)" let ?b = "hn_buffer_id n"
  have P: "planning bo h (g_node_list g) (g_leaf_list g) (length (g_node_list g)) ga'"
    using plan_result [OF assms(1) _ _ _ assms(3)] assms(2) by (simp add: allocator_ready_def)
  then have bk: "books bo h ?X ga'" and ok: "placed_ok bo h ga' x"
    using assms(4) by (auto simp: planning_def Let_def g_done_def planned_def)
  have b: "0 \<le> ?b" "nat ?b < length (ga_bufts ga')" and r: "in_range al (hn_addr n) (span bo h ga' ?b x)"
    using ok by (simp_all add: placed_ok_def Let_def assms(5,6))
  note e = env_index [OF booksD(2) [OF bk] b]
  have pl: "planned h ?X x" using assms(4) by (simp add: g_done_def)
  note k = assms(6)
  have "dyn_ok al" using booksD(3) [OF bk] e(1) by (simp add: k)
  then have "need bo h ga' ?b x \<le> padded (da_alignment al) (need bo h ga' ?b x)"
    using e(2) [OF pl] by (intro padded_bounds) (simp_all add: dyn_ok_def)
  moreover have "padded (da_alignment al) (need bo h ga' ?b x) = span bo h ga' ?b x"
    using e(1) k by (simp add: span_def aligns_def)
  ultimately show ?thesis using r by (simp add: in_range_def)
qed

theorem plan_within_chunks_witness:
  "\<exists>ga. ggml_gallocr_alloc_graph_impl demo_buft demo_chain demo_plan None None demo_start = Some ga \<and>
     0 \<le> ba_offset (hn_addr (node_at ga 66672))"
  using plan_within_chunks [OF demo_plannable demo_ready demo_planned, of 66672] demo_planned
    demo_planned_all [of 66672] by (simp add: demo_plan_lists)

end
