(* ===== verification/GallocMem.thy ===== *)
theory GallocMem
  imports GallocRun GallocSafe
begin

text \<open>
  From the plan to memory: what ggml_gallocr_reserve_n records, the buffers it sizes, and the addresses
  ggml_gallocr_alloc_graph gives.  The last section states the promise of C38 for the bytes themselves.
\<close>

section \<open>The record of a plan\<close>

definition same_plan :: "ggml_gallocr \<Rightarrow> ggml_gallocr \<Rightarrow> bool" where
  "same_plan ga ga' \<longleftrightarrow> table_ok ga' \<and> node_at ga' = node_at ga \<and> frame ga ga' \<and> ga_tallocs ga' = ga_tallocs ga \<and>
     ga_buffers ga' = ga_buffers ga"

lemma same_plan_refl: "table_ok ga \<Longrightarrow> same_plan ga ga"
  by (simp add: same_plan_def)

lemma same_plan_trans: "same_plan a b \<Longrightarrow> same_plan b c \<Longrightarrow> same_plan a c"
  unfolding same_plan_def using frame_trans [of a b c] by simp

lemma hash_get_same_plan: "table_ok ga \<Longrightarrow> ggml_gallocr_hash_get ga x = Some (i, ga') \<Longrightarrow> same_plan ga ga'"
  using hash_getD [of ga x i ga'] hash_get_frame [of ga x i ga'] by (simp add: same_plan_def slots_kept_def static_of_def)

lemma node_at_cong: "ga_hash_set ga' = ga_hash_set ga \<Longrightarrow> ga_hash_values ga' = ga_hash_values ga \<Longrightarrow> node_at ga' = node_at ga"
  by (simp add: node_at_def fun_eq_iff split: option.split)

lemma record_same_plan:
  assumes "table_ok ga" "ga_hash_set ga' = ga_hash_set ga" "ga_hash_values ga' = ga_hash_values ga" "ga_tallocs ga' = ga_tallocs ga"
    "ga_bufts ga' = ga_bufts ga" "ga_buffers ga' = ga_buffers ga" "ga_buf_tallocs ga' = ga_buf_tallocs ga"
  shows "same_plan ga ga'"
  using assms node_at_cong [of ga' ga]
  by (simp add: same_plan_def table_ok_def frame_def slots_kept_def static_of_def aligns_def kept_ranges_def)

text \<open>A tensor that needs a slot: no view, and without data.\<close>

definition wants_slot :: "heap \<Rightarrow> ptr \<Rightarrow> bool" where
  "wants_slot h x \<longleftrightarrow> x \<noteq> NULL \<and> (\<exists>t. h_tensors h x = Some t \<and> t_view_src t = NULL \<and> t_data t = NULL)"

definition the_slot :: "backend_ops \<Rightarrow> heap \<Rightarrow> ggml_gallocr \<Rightarrow> ptr \<Rightarrow> tensor_alloc" where
  "the_slot bo h ga x =
     (if wants_slot h x
      then \<lparr> ta_buffer_id = hn_buffer_id (node_at ga x), ta_addr = hn_addr (node_at ga x),
             ta_size_max = need bo h ga (hn_buffer_id (node_at ga x)) x \<rparr>
      else no_alloc_slot)"

definition slot_ok :: "heap \<Rightarrow> ggml_gallocr \<Rightarrow> ptr \<Rightarrow> bool" where
  "slot_ok h ga x \<longleftrightarrow> (wants_slot h x \<longrightarrow> 0 \<le> hn_buffer_id (node_at ga x) \<and> nat (hn_buffer_id (node_at ga x)) < length (ga_bufts ga))"

lemma same_plan_slots: "same_plan ga ga' \<Longrightarrow> the_slot bo h ga' = the_slot bo h ga \<and> slot_ok h ga' = slot_ok h ga"
proof -
  assume s: "same_plan ga ga'"
  then have "ga_bufts ga' = ga_bufts ga" "need bo h ga' = need bo h ga" "node_at ga' = node_at ga"
    using frame_fun [of ga ga'] by (simp_all add: same_plan_def)
  then show ?thesis by (simp add: the_slot_def slot_ok_def fun_eq_iff)
qed

lemma hash_get_recorded: "ggml_gallocr_hash_get ga x = Some (i, ga') \<Longrightarrow>
    ga_node_allocs ga' = ga_node_allocs ga \<and> ga_leaf_allocs ga' = ga_leaf_allocs ga \<and> ga_n_nodes ga' = ga_n_nodes ga \<and>
    ga_n_leafs ga' = ga_n_leafs ga"
  by (auto simp: ggml_gallocr_hash_get_def bind_Some_iff split: if_splits)

definition recorded :: "ggml_gallocr \<Rightarrow> node_alloc list \<times> tensor_alloc list \<times> int \<times> int" where
  "recorded ga = (ga_node_allocs ga, ga_leaf_allocs ga, ga_n_nodes ga, ga_n_leafs ga)"

lemma node_slot_spec:
  assumes ok: "table_ok ga" and r: "node_slot bo h x ga = Some (s, ga')"
  shows "same_plan ga ga' \<and> recorded ga' = recorded ga \<and> s = the_slot bo h ga x \<and> slot_ok h ga x"
proof -
  obtain t where t: "h_tensors h x = Some t" "x \<noteq> NULL" using r by (auto simp: node_slot_def bind_Some_iff)
  show ?thesis
  proof (cases "wants_slot h x")
    case False
    then have "s = no_alloc_slot" "ga' = ga" using r t by (auto simp: node_slot_def wants_slot_def tget_def)
    then show ?thesis using False same_plan_refl [OF ok] by (simp add: the_slot_def slot_ok_def)
  next
    case True
    then have n: "t_view_src t = NULL" "t_data t = NULL" using t by (simp_all add: wants_slot_def)
    obtain i where i: "ggml_gallocr_hash_get ga x = Some (i, ga')"
      and s: "0 \<le> hn_buffer_id (hn_at ga' i)" "nat (hn_buffer_id (hn_at ga' i)) < length (ga_bufts ga')"
        "s = \<lparr> ta_buffer_id = hn_buffer_id (hn_at ga' i), ta_addr = hn_addr (hn_at ga' i),
               ta_size_max = tsize bo (ga_bufts ga' ! nat (hn_buffer_id (hn_at ga' i))) t \<rparr>"
      using r t n by (auto simp: node_slot_def hash_slot_def bind_Some_iff buft_at_Some get_alloc_size_Some)
    have sp: "same_plan ga ga'" by (rule hash_get_same_plan [OF ok i])
    then have b: "ga_bufts ga' = ga_bufts ga" by (simp add: same_plan_def frame_fun)
    show ?thesis using sp hash_get_recorded [OF i] hash_getD(4) [OF ok i] s True t
      by (simp add: recorded_def the_slot_def slot_ok_def need_def b)
  qed
qed

lemma src_slot_spec:
  assumes ok: "table_ok ga" and r: "src_slot bo h x ga = Some (s, ga')"
  shows "same_plan ga ga' \<and> recorded ga' = recorded ga \<and> s = the_slot bo h ga x \<and> slot_ok h ga x"
proof (cases "x = NULL")
  case True
  then show ?thesis using r same_plan_refl [OF ok] by (simp add: src_slot_def the_slot_def slot_ok_def wants_slot_def)
next
  case False
  then show ?thesis using node_slot_spec [OF ok] r by (simp add: src_slot_def)
qed

lemma leaf_slot_spec:
  assumes ok: "table_ok ga" and r: "leaf_slot bo h x ga = Some (s, ga')"
  shows "same_plan ga ga' \<and> recorded ga' = recorded ga \<and> s = the_slot bo h ga x \<and> slot_ok h ga x"
proof -
  obtain i g1 where 1: "ggml_gallocr_hash_get ga x = Some (i, g1)" and 2: "node_slot bo h x g1 = Some (s, ga')"
    using r by (auto simp: leaf_slot_def bind_Some_iff)
  have sp: "same_plan ga g1" by (rule hash_get_same_plan [OF ok 1])
  then have "table_ok g1" by (simp add: same_plan_def)
  from node_slot_spec [OF this 2] sp show ?thesis
    using hash_get_recorded [OF 1] same_plan_slots [OF sp] same_plan_trans [OF sp] by (simp add: recorded_def)
qed

lemma slots_spec:
  "table_ok ga \<Longrightarrow> slots (src_slot bo h) xs ga = Some (ss, ga') \<Longrightarrow>
    same_plan ga ga' \<and> recorded ga' = recorded ga \<and> ss = map (the_slot bo h ga) xs \<and> (\<forall>x \<in> set xs. slot_ok h ga x)"
proof (induction xs arbitrary: ga ss)
  case Nil
  then show ?case by (simp add: same_plan_refl)
next
  case (Cons x xs)
  obtain s g1 ss' where 1: "src_slot bo h x ga = Some (s, g1)" and 2: "slots (src_slot bo h) xs g1 = Some (ss', ga')"
    and ss: "ss = s # ss'" using Cons.prems(2) by (auto simp: bind_Some_iff)
  note a = src_slot_spec [OF Cons.prems(1) 1]
  have "table_ok g1" using a by (simp add: same_plan_def)
  from Cons.IH [OF this 2] a show ?case
    using same_plan_slots [of ga g1] same_plan_trans [of ga g1 ga'] ss by auto
qed

section \<open>The loops of reserve that record\<close>

definition nodes_recorded :: "backend_ops \<Rightarrow> heap \<Rightarrow> ggml_gallocr \<Rightarrow> ptr list \<Rightarrow> nat \<Rightarrow> ggml_gallocr \<Rightarrow> bool" where
  "nodes_recorded bo h ga0 ns n ga \<longleftrightarrow> (\<forall>i < n. i < length (ga_node_allocs ga) \<and>
     ga_node_allocs ga ! i = \<lparr> na_dst = the_slot bo h ga0 (ns ! i), na_src = map (the_slot bo h ga0) (srcs h (ns ! i)) \<rparr> \<and>
     (\<forall>x \<in> insert (ns ! i) (set (srcs h (ns ! i))). slot_ok h ga0 x))"

definition leafs_recorded :: "backend_ops \<Rightarrow> heap \<Rightarrow> ggml_gallocr \<Rightarrow> ptr list \<Rightarrow> nat \<Rightarrow> ggml_gallocr \<Rightarrow> bool" where
  "leafs_recorded bo h ga0 ls n ga \<longleftrightarrow> (\<forall>i < n. i < length (ga_leaf_allocs ga) \<and>
     ga_leaf_allocs ga ! i = the_slot bo h ga0 (ls ! i) \<and> slot_ok h ga0 (ls ! i))"

lemma record_node_step:
  assumes i: "i < length ns" and sp: "same_plan ga0 ga" and n: "nodes_recorded bo h ga0 ns i ga"
    and r: "record_node bo h (i, ns ! i) ga = Some ga'"
  shows "same_plan ga0 ga' \<and> nodes_recorded bo h ga0 ns (Suc i) ga' \<and> ga_leaf_allocs ga' = ga_leaf_allocs ga \<and>
    ga_n_nodes ga' = ga_n_nodes ga \<and> ga_n_leafs ga' = ga_n_leafs ga"
proof -
  have tab: "table_ok ga" using sp by (simp add: same_plan_def)
  obtain s g1 t ss g2 where 1: "node_slot bo h (ns ! i) ga = Some (s, g1)" and t: "h_tensors h (ns ! i) = Some t"
    and 2: "slots (src_slot bo h) (t_src t) g1 = Some (ss, g2)" and len: "i < length (ga_node_allocs g2)"
    and ga': "ga' = g2\<lparr> ga_node_allocs := (ga_node_allocs g2)[i := \<lparr> na_dst = s, na_src = ss \<rparr>] \<rparr>"
    using r by (auto simp: record_node_def bind_Some_iff split: if_splits)
  note a = node_slot_spec [OF tab 1]
  have t1: "table_ok g1" using a by (simp add: same_plan_def)
  note b = slots_spec [OF t1 2]
  have s2: "same_plan ga0 g2" using sp a b same_plan_trans by blast
  have "same_plan g2 ga'" by (rule record_same_plan) (use s2 in \<open>simp_all add: ga' same_plan_def\<close>)
  then have s3: "same_plan ga0 ga'" using s2 same_plan_trans by blast
  have slots: "s = the_slot bo h ga0 (ns ! i)" "ss = map (the_slot bo h ga0) (srcs h (ns ! i))"
    "slot_ok h ga0 (ns ! i)" "\<forall>x \<in> set (srcs h (ns ! i)). slot_ok h ga0 x"
    using a b same_plan_slots [OF sp] same_plan_slots [of ga g1] t by (auto simp: srcs_def)
  have rec: "ga_node_allocs g2 = ga_node_allocs ga" "ga_leaf_allocs g2 = ga_leaf_allocs ga" "ga_n_nodes g2 = ga_n_nodes ga"
    "ga_n_leafs g2 = ga_n_leafs ga" using a b by (simp_all add: recorded_def)
  have "nodes_recorded bo h ga0 ns (Suc i) ga'"
    unfolding nodes_recorded_def
  proof (intro allI impI)
    fix j assume j: "j < Suc i"
    show "j < length (ga_node_allocs ga') \<and>
      ga_node_allocs ga' ! j = \<lparr> na_dst = the_slot bo h ga0 (ns ! j), na_src = map (the_slot bo h ga0) (srcs h (ns ! j)) \<rparr> \<and>
      (\<forall>x \<in> insert (ns ! j) (set (srcs h (ns ! j))). slot_ok h ga0 x)"
    proof (cases "j = i")
      case True
      then show ?thesis using len slots by (simp add: ga')
    next
      case False
      then have "j < i" using j by simp
      then show ?thesis using n len rec(1) by (simp add: ga' nodes_recorded_def)
    qed
  qed
  then show ?thesis using s3 rec by (simp add: ga')
qed

lemma record_leaf_step:
  assumes i: "i < length ls" and sp: "same_plan ga0 ga" and n: "leafs_recorded bo h ga0 ls i ga"
    and r: "record_leaf bo h (i, ls ! i) ga = Some ga'"
  shows "same_plan ga0 ga' \<and> leafs_recorded bo h ga0 ls (Suc i) ga' \<and> ga_node_allocs ga' = ga_node_allocs ga \<and>
    ga_n_nodes ga' = ga_n_nodes ga \<and> ga_n_leafs ga' = ga_n_leafs ga"
proof -
  have tab: "table_ok ga" using sp by (simp add: same_plan_def)
  obtain s g1 where 1: "leaf_slot bo h (ls ! i) ga = Some (s, g1)" and len: "i < length (ga_leaf_allocs g1)"
    and ga': "ga' = g1\<lparr> ga_leaf_allocs := (ga_leaf_allocs g1)[i := s] \<rparr>"
    using r by (auto simp: record_leaf_def bind_Some_iff split: if_splits)
  note a = leaf_slot_spec [OF tab 1]
  have s1: "same_plan ga0 g1" using sp a same_plan_trans by blast
  have "same_plan g1 ga'" by (rule record_same_plan) (use s1 in \<open>simp_all add: ga' same_plan_def\<close>)
  then have s2: "same_plan ga0 ga'" using s1 same_plan_trans by blast
  have slots: "s = the_slot bo h ga0 (ls ! i)" "slot_ok h ga0 (ls ! i)" using a same_plan_slots [OF sp] by simp_all
  have "leafs_recorded bo h ga0 ls (Suc i) ga'"
    using n len slots a by (auto simp: leafs_recorded_def ga' recorded_def nth_list_update less_Suc_eq)
  then show ?thesis using s2 a by (simp add: ga' recorded_def)
qed

lemma record_plan_spec:
  assumes tab: "table_ok ga" and r: "record_plan bo h g ga = Some ga'"
  shows "same_plan ga ga'" "nodes_recorded bo h ga (g_node_list g) (length (g_node_list g)) ga'"
    "leafs_recorded bo h ga (g_leaf_list g) (length (g_leaf_list g)) ga'"
    "ga_n_nodes ga' = g_n_nodes g" "ga_n_leafs ga' = g_n_leafs g"
proof -
  let ?ns = "g_node_list g" let ?ls = "g_leaf_list g"
  define g0 where "g0 = (if ga_n_nodes ga < g_n_nodes g
      then ga\<lparr> ga_node_allocs := replicate (nat (g_n_nodes g)) \<lparr> na_dst = zero_alloc, na_src = replicate GGML_MAX_SRC zero_alloc \<rparr> \<rparr>
      else ga)\<lparr> ga_n_nodes := g_n_nodes g \<rparr>"
  obtain g1 where 1: "for_each (record_node bo h) (enumerate 0 ?ns) g0 = Some g1"
    and r': "for_each (record_leaf bo h) (enumerate 0 ?ls) ((if ga_n_leafs g1 < g_n_leafs g
      then g1\<lparr> ga_leaf_allocs := replicate (nat (g_n_leafs g)) zero_alloc \<rparr> else g1)\<lparr> ga_n_leafs := g_n_leafs g \<rparr>) = Some ga'"
    using r by (auto simp: record_plan_def bind_Some_iff Let_def g0_def)
  define g2 where "g2 = (if ga_n_leafs g1 < g_n_leafs g
      then g1\<lparr> ga_leaf_allocs := replicate (nat (g_n_leafs g)) zero_alloc \<rparr> else g1)\<lparr> ga_n_leafs := g_n_leafs g \<rparr>"
  have s0: "same_plan ga g0" by (rule record_same_plan [OF tab]) (simp_all add: g0_def)
  let ?N = "\<lambda>n ga'. same_plan ga ga' \<and> nodes_recorded bo h ga ?ns n ga' \<and> ga_n_nodes ga' = g_n_nodes g"
  have "?N (length (enumerate 0 ?ns)) g1"
  proof (rule for_each_inv [OF 1])
    show "?N 0 g0" using s0 by (simp add: nodes_recorded_def g0_def)
    show "?N (Suc i) s'" if "i < length (enumerate 0 ?ns)" "?N i s" "record_node bo h (enumerate 0 ?ns ! i) s = Some s'" for i s s'
      using record_node_step [of i ?ns ga s bo h s'] that by (simp add: nth_enumerate_eq)
  qed
  then have n1: "?N (length ?ns) g1" by simp
  then have "table_ok g1" by (simp add: same_plan_def)
  then have "same_plan g1 g2" by (rule record_same_plan) (simp_all add: g2_def)
  then have s2: "same_plan ga g2" using n1 same_plan_trans by blast
  let ?L = "\<lambda>n ga'. same_plan ga ga' \<and> leafs_recorded bo h ga ?ls n ga' \<and> ga_node_allocs ga' = ga_node_allocs g2 \<and>
    ga_n_nodes ga' = g_n_nodes g \<and> ga_n_leafs ga' = g_n_leafs g"
  have "?L (length (enumerate 0 ?ls)) ga'"
  proof (rule for_each_inv [OF r' [folded g2_def]])
    show "?L 0 g2" using s2 n1 by (simp add: leafs_recorded_def g2_def)
    show "?L (Suc i) s'" if "i < length (enumerate 0 ?ls)" "?L i s" "record_leaf bo h (enumerate 0 ?ls ! i) s = Some s'" for i s s'
      using record_leaf_step [of i ?ls ga s bo h s'] that by (simp add: nth_enumerate_eq)
  qed
  then have n2: "?L (length ?ls) ga'" by simp
  then show "same_plan ga ga'" "leafs_recorded bo h ga ?ls (length ?ls) ga'" "ga_n_nodes ga' = g_n_nodes g" "ga_n_leafs ga' = g_n_leafs g"
    by simp_all
  have "ga_node_allocs g2 = ga_node_allocs g1" by (simp add: g2_def)
  then show "nodes_recorded bo h ga ?ns (length ?ns) ga'" using n1 n2 by (simp add: nodes_recorded_def)
qed

section \<open>A recorded plan fits its graph\<close>

lemma slot_fits:
  assumes "ggml_gallocr_node_needs_realloc bo h ga x (the_slot bo h ga0 x) = Some ok" "slot_ok h ga0 x" "ga_bufts ga = ga_bufts ga0"
  shows ok
proof -
  obtain t where t: "h_tensors h x = Some t" "x \<noteq> NULL" using assms(1) by (auto simp: ggml_gallocr_node_needs_realloc_def bind_Some_iff)
  show ?thesis
  proof (cases "wants_slot h x")
    case True
    then show ?thesis using assms t
      by (auto simp: ggml_gallocr_node_needs_realloc_def bind_Some_iff the_slot_def slot_ok_def wants_slot_def buft_at_Some
          get_alloc_size_Some need_def split: if_splits)
  next
    case False
    then show ?thesis using assms(1) t
      by (auto simp: ggml_gallocr_node_needs_realloc_def bind_Some_iff the_slot_def wants_slot_def no_alloc_slot_def split: if_splits)
  qed
qed

lemma srcs_fit_recorded:
  "srcs_fit bo h ga xs (map (the_slot bo h ga0) xs) = Some ok \<Longrightarrow> \<forall>x \<in> set xs. slot_ok h ga0 x \<Longrightarrow>
    ga_bufts ga = ga_bufts ga0 \<Longrightarrow> ok"
proof (induction xs)
  case Nil
  then show ?case by simp
next
  case (Cons x xs)
  show ?case
  proof (cases "x = NULL")
    case True
    then show ?thesis using Cons by simp
  next
    case False
    then obtain o1 where o1: "ggml_gallocr_node_needs_realloc bo h ga x (the_slot bo h ga0 x) = Some o1"
      and rest: "(if o1 then srcs_fit bo h ga xs (map (the_slot bo h ga0) xs) else Some False) = Some ok"
      using Cons.prems(1) by (auto simp: bind_Some_iff)
    have o1 by (rule slot_fits [OF o1]) (use Cons.prems in simp_all)
    then show ?thesis using Cons rest by simp
  qed
qed

lemma nodes_fit_recorded:
  "nodes_fit bo h ga nxs = Some ok \<Longrightarrow>
    \<forall>(i, x) \<in> set nxs. ga_node_allocs ga ! i = \<lparr> na_dst = the_slot bo h ga0 x, na_src = map (the_slot bo h ga0) (srcs h x) \<rparr> \<and>
      (\<forall>y \<in> insert x (set (srcs h x)). slot_ok h ga0 y) \<Longrightarrow>
    ga_bufts ga = ga_bufts ga0 \<Longrightarrow> ok"
proof (induction nxs)
  case Nil
  then show ?case by simp
next
  case (Cons nx nxs)
  obtain i x where nx: "nx = (i, x)" by (cases nx)
  have na: "ga_node_allocs ga ! i = \<lparr> na_dst = the_slot bo h ga0 x, na_src = map (the_slot bo h ga0) (srcs h x) \<rparr>"
    "\<forall>y \<in> insert x (set (srcs h x)). slot_ok h ga0 y" using Cons.prems(2) nx by auto
  obtain o1 where o1: "ggml_gallocr_node_needs_realloc bo h ga x (the_slot bo h ga0 x) = Some o1"
    and rest: "(if \<not> o1 then Some False else do { t \<leftarrow> tget h x; ok \<leftarrow> srcs_fit bo h ga (t_src t) (map (the_slot bo h ga0) (srcs h x));
      if ok then nodes_fit bo h ga nxs else Some False }) = Some ok"
    using Cons.prems(1) nx na(1)
    by (cases "i < length (ga_node_allocs ga)";
        cases "ggml_gallocr_node_needs_realloc bo h ga x (the_slot bo h ga0 x)") (auto cong: if_cong)
  have "o1" by (rule slot_fits [OF o1]) (use na(2) Cons.prems(3) in simp_all)
  then obtain t o2 where t: "h_tensors h x = Some t" and o2: "srcs_fit bo h ga (t_src t) (map (the_slot bo h ga0) (srcs h x)) = Some o2"
    and rest2: "(if o2 then nodes_fit bo h ga nxs else Some False) = Some ok" using rest by (auto simp: bind_Some_iff)
  have src: "srcs h x = t_src t" using t by (simp add: srcs_def)
  have "o2" by (rule srcs_fit_recorded [OF o2 [unfolded src]]) (use na(2) Cons.prems(3) src in simp_all)
  then show ?case using Cons.IH rest2 Cons.prems by simp
qed

lemma recorded_no_realloc:
  assumes "nodes_recorded bo h ga0 (g_node_list g) (length (g_node_list g)) ga" "ga_n_nodes ga = g_n_nodes g"
    "ga_n_leafs ga = g_n_leafs g" "ga_bufts ga = ga_bufts ga0" "ggml_gallocr_needs_realloc bo h ga g = Some re"
  shows "\<not> re"
proof -
  obtain ok where ok: "nodes_fit bo h ga (enumerate 0 (g_node_list g)) = Some ok" "re = (\<not> ok)"
    using assms(2,3,5) by (auto simp: ggml_gallocr_needs_realloc_def bind_Some_iff)
  have ok by (rule nodes_fit_recorded [OF ok(1) _ assms(4)])
    (use assms(1) in \<open>auto simp: nodes_recorded_def in_set_enumerate_eq\<close>)
  then show ?thesis using ok(2) by simp
qed

section \<open>Tensors get their addresses\<close>

lemma buffer_init_tensor_spec:
  "ggml_backend_buffer_init_tensor bufs p x h = Some (s, h') \<Longrightarrow> h_tensors h x = Some t \<Longrightarrow>
    \<exists>e. h_tensors h' = (h_tensors h)(x \<mapsto> t\<lparr> t_extra := e \<rparr>)"
proof -
  assume r: "ggml_backend_buffer_init_tensor bufs p x h = Some (s, h')" and t: "h_tensors h x = Some t"
  have n: "h_tensors h = (h_tensors h)(x \<mapsto> t\<lparr> t_extra := t_extra t \<rparr>)" using t by (simp add: fun_upd_idem)
  obtain b where b: "bget bufs p = Some b" using r by (auto simp: ggml_backend_buffer_init_tensor_def bind_Some_iff)
  show ?thesis
  proof (cases "bb_init_tensor b")
    case None
    then have "h' = h" using r b by (simp add: ggml_backend_buffer_init_tensor_def)
    then show ?thesis using n by blast
  next
    case (Some f)
    then show ?thesis using r b t
      by (auto simp: ggml_backend_buffer_init_tensor_def bind_Some_iff tset_def Let_def split: prod.splits)
  qed
qed

definition rehoused :: "ptr \<Rightarrow> ptr \<times> ptr \<Rightarrow> heap \<Rightarrow> heap \<Rightarrow> bool" where
  "rehoused x d h h' \<longleftrightarrow> (\<exists>t e. h_tensors h x = Some t \<and>
     h_tensors h' = (h_tensors h)(x \<mapsto> t\<lparr> t_buffer := fst d, t_data := snd d, t_extra := e \<rparr>))"

lemma view_init_spec: "ggml_backend_view_init bufs x h = Some (s, h') \<Longrightarrow> \<exists>d. rehoused x d h h'"
proof -
  assume r: "ggml_backend_view_init bufs x h = Some (s, h')"
  then obtain t where t: "h_tensors h x = Some t" "x \<noteq> NULL" by (auto simp: ggml_backend_view_init_def bind_Some_iff)
  obtain v where v: "h_tensors h (t_view_src t) = Some v" "t_view_src t \<noteq> NULL"
    using r t by (auto simp: ggml_backend_view_init_def bind_Some_iff split: if_splits)
  have i: "ggml_backend_buffer_init_tensor bufs (t_buffer v) x
      (h\<lparr> h_tensors := (h_tensors h)(x \<mapsto> t\<lparr> t_buffer := t_buffer v, t_data := u64 (t_data v + t_view_offs t) \<rparr>) \<rparr>) = Some (s, h')"
    using r t v by (simp add: ggml_backend_view_init_def tset_def tget_def split: if_splits)
  from buffer_init_tensor_spec [OF i] t have "rehoused x (t_buffer v, u64 (t_data v + t_view_offs t)) h h'"
    by (auto simp: rehoused_def)
  then show ?thesis ..
qed

lemma tensor_alloc_spec: "ggml_backend_tensor_alloc sys bufs p x addr h = Some (s, h') \<Longrightarrow> rehoused x (p, addr) h h'"
proof -
  assume r: "ggml_backend_tensor_alloc sys bufs p x addr h = Some (s, h')"
  then obtain t where t: "h_tensors h x = Some t"
    and i: "ggml_backend_buffer_init_tensor bufs p x
      (h\<lparr> h_tensors := (h_tensors h)(x \<mapsto> t\<lparr> t_buffer := p, t_data := addr \<rparr>) \<rparr>) = Some (s, h')"
    by (auto simp: ggml_backend_tensor_alloc_def bind_Some_iff tset_def split: if_splits)
  from buffer_init_tensor_spec [OF i] t show ?thesis by (auto simp: rehoused_def)
qed

text \<open>Where the plan puts a tensor.\<close>

definition chunk_of :: "alloc_state \<Rightarrow> ggml_gallocr \<Rightarrow> ptr \<Rightarrow> ptr" where
  "chunk_of st ga x = (let n = node_at ga x in
     the (vbget st (ga_buffers ga ! nat (hn_buffer_id n))) ! nat (ba_chunk (hn_addr n)))"

definition target :: "alloc_state \<Rightarrow> ggml_gallocr \<Rightarrow> ptr \<Rightarrow> ptr" where
  "target st ga x = u64 (the (ggml_backend_buffer_get_base (as_bufs st) (chunk_of st ga x)) + ba_offset (hn_addr (node_at ga x)))"

text \<open>Its buffer and its address in it.\<close>

definition house :: "alloc_state \<Rightarrow> ggml_gallocr \<Rightarrow> ptr \<Rightarrow> ptr \<times> ptr" where
  "house st ga x = (chunk_of st ga x, target st ga x)"

definition shape_of :: "ggml_tensor \<Rightarrow> ggml_tensor" where
  "shape_of t = t\<lparr> t_buffer := NULL, t_data := NULL, t_extra := NULL \<rparr>"

definition heading :: "heap \<Rightarrow> ptr set \<Rightarrow> (ptr \<Rightarrow> ptr \<times> ptr) \<Rightarrow> heap \<Rightarrow> bool" where
  "heading h0 X to h \<longleftrightarrow> (\<forall>x. map_option shape_of (h_tensors h x) = map_option shape_of (h_tensors h0 x)) \<and>
     (\<forall>x t. planned h0 X x \<longrightarrow> h_tensors h x = Some t \<longrightarrow> t_data t = NULL \<or> (t_buffer t, t_data t) = to x)"

definition arrived :: "(ptr \<Rightarrow> ptr \<times> ptr) \<Rightarrow> heap \<Rightarrow> ptr \<Rightarrow> bool" where
  "arrived to h x \<longleftrightarrow> (case h_tensors h x of None \<Rightarrow> False | Some t \<Rightarrow> (t_buffer t, t_data t) = to x)"

lemma shape_rehoused: "rehoused x d h h' \<Longrightarrow> map_option shape_of (h_tensors h' y) = map_option shape_of (h_tensors h y)"
  by (auto simp: rehoused_def shape_of_def)

lemma heading_view: "heading h0 X to h \<Longrightarrow> h_tensors h x = Some t \<Longrightarrow> planned h0 X x \<Longrightarrow> t_view_src t = NULL"
proof -
  assume i: "heading h0 X to h" and t: "h_tensors h x = Some t" and p: "planned h0 X x"
  obtain t0 where t0: "h_tensors h0 x = Some t0" "t_view_src t0 = NULL" using p by (auto simp: planned_def)
  have "map_option shape_of (h_tensors h x) = map_option shape_of (h_tensors h0 x)" using i by (simp add: heading_def)
  then have "shape_of t = shape_of t0" using t t0(1) by simp
  then have "t_view_src (shape_of t) = t_view_src (shape_of t0)" by simp
  then show ?thesis using t0(2) by (simp add: shape_of_def)
qed

lemma heading_step:
  assumes i: "heading h0 X to h" and r: "rehoused x d h h'" and d: "planned h0 X x \<Longrightarrow> d = to x"
  shows "heading h0 X to h'" "planned h0 X x \<Longrightarrow> arrived to h' x"
    "planned h0 X y \<Longrightarrow> arrived to h y \<Longrightarrow> arrived to h' y"
proof -
  obtain t e where t: "h_tensors h x = Some t"
    and h': "h_tensors h' = (h_tensors h)(x \<mapsto> t\<lparr> t_buffer := fst d, t_data := snd d, t_extra := e \<rparr>)"
    using r by (auto simp: rehoused_def)
  show "heading h0 X to h'" using i shape_rehoused [OF r] d by (auto simp: heading_def h')
  show "planned h0 X x \<Longrightarrow> arrived to h' x" using d by (simp add: arrived_def h')
  show "planned h0 X y \<Longrightarrow> arrived to h y \<Longrightarrow> arrived to h' y" using d by (auto simp: arrived_def h')
qed

lemma init_tensor_step:
  assumes i: "heading h0 X (house st0 ga0) (as_heap st)" and s: "as_bufs st = as_bufs st0" "as_vbufs st = as_vbufs st0"
    and x: "x \<in> X" and slot: "planned h0 X x \<Longrightarrow> slot = the_slot bo h0 ga0 x" and ga: "ga_buffers ga = ga_buffers ga0"
    and nz: "planned h0 X x \<Longrightarrow> target st0 ga0 x \<noteq> NULL"
    and r: "ggml_gallocr_init_tensor sys ga x slot st = Some st'"
  shows "heading h0 X (house st0 ga0) (as_heap st') \<and> as_bufs st' = as_bufs st \<and> as_vbufs st' = as_vbufs st \<and>
    (planned h0 X x \<longrightarrow> arrived (house st0 ga0) (as_heap st') x) \<and>
    (\<forall>y. planned h0 X y \<longrightarrow> arrived (house st0 ga0) (as_heap st) y \<longrightarrow> arrived (house st0 ga0) (as_heap st') y)"
proof -
  let ?to = "house st0 ga0"
  obtain t where t: "h_tensors (as_heap st) x = Some t" "x \<noteq> NULL"
    using r by (auto simp: ggml_gallocr_init_tensor_def bind_Some_iff)
  show ?thesis
  proof (cases "t_view_src t = NULL")
    case False
    then have np: "\<not> planned h0 X x" using heading_view [OF i t(1)] by blast
    show ?thesis
    proof (cases "st' = st")
      case True
      then show ?thesis using i np by simp
    next
      case False
      then obtain st2 h' where v: "ggml_backend_view_init (as_bufs st) x (as_heap st) = Some (st2, h')" and st': "st' = st\<lparr> as_heap := h' \<rparr>"
        using r t \<open>t_view_src t \<noteq> NULL\<close> by (auto simp: ggml_gallocr_init_tensor_def bind_Some_iff split: if_splits)
      obtain d where "rehoused x d (as_heap st) h'" using view_init_spec [OF v] by blast
      from heading_step [OF i this] np st' show ?thesis by simp
    qed
  next
    case nv: True
    show ?thesis
    proof (cases "t_data t = NULL")
      case False
      then have "st' = st" using r t nv by (auto simp: ggml_gallocr_init_tensor_def tget_def)
      then show ?thesis using i t False by (auto simp: heading_def arrived_def)
    next
      case True
      then obtain chunks base s h' where c: "vbget st (ga_buffers ga ! nat (ta_buffer_id slot)) = Some chunks"
        and bs: "ggml_backend_buffer_get_base (as_bufs st) (chunks ! nat (ba_chunk (ta_addr slot))) = Some base"
        and al: "ggml_backend_tensor_alloc sys (as_bufs st) (chunks ! nat (ba_chunk (ta_addr slot))) x
            (u64 (base + ba_offset (ta_addr slot))) (as_heap st) = Some (s, h')" and st': "st' = st\<lparr> as_heap := h' \<rparr>"
        using r t nv by (auto simp: ggml_gallocr_init_tensor_def ggml_vbuffer_tensor_alloc_def bind_Some_iff Let_def split: if_splits)
      have "(chunks ! nat (ba_chunk (ta_addr slot)), u64 (base + ba_offset (ta_addr slot))) = ?to x" if p: "planned h0 X x"
      proof -
        have w: "wants_slot h0 x" using p by (auto simp: planned_def wants_slot_def)
        have "vbget st0 = vbget st" using s by (simp add: vbget_def fun_eq_iff)
        then show ?thesis using slot [OF p] w c bs ga s by (simp add: house_def target_def chunk_of_def the_slot_def Let_def)
      qed
      from heading_step [OF i tensor_alloc_spec [OF al] this] st' show ?thesis by simp
    qed
  qed
qed

text \<open>The state on the way: buffers as they were, tensors at their addresses or not placed yet.\<close>

definition on_way :: "heap \<Rightarrow> ptr set \<Rightarrow> ggml_gallocr \<Rightarrow> alloc_state \<Rightarrow> alloc_state \<Rightarrow> bool" where
  "on_way h0 X ga0 st0 st \<longleftrightarrow> heading h0 X (house st0 ga0) (as_heap st) \<and> as_bufs st = as_bufs st0 \<and> as_vbufs st = as_vbufs st0"

definition got_there :: "heap \<Rightarrow> ptr set \<Rightarrow> ggml_gallocr \<Rightarrow> alloc_state \<Rightarrow> alloc_state \<Rightarrow> ptr \<Rightarrow> bool" where
  "got_there h0 X ga0 st0 st x \<longleftrightarrow> (planned h0 X x \<longrightarrow> arrived (house st0 ga0) (as_heap st) x)"

lemma init_srcs_step:
  assumes ga: "ga_buffers ga = ga_buffers ga0" and nz: "\<And>x. planned h0 X x \<Longrightarrow> target st0 ga0 x \<noteq> NULL"
  shows "on_way h0 X ga0 st0 st \<Longrightarrow> set xs \<subseteq> insert NULL X \<Longrightarrow>
    for_each (init_src sys ga) (zip xs (map (the_slot bo h0 ga0) xs)) st = Some st' \<Longrightarrow>
    on_way h0 X ga0 st0 st' \<and> (\<forall>y. got_there h0 X ga0 st0 st y \<longrightarrow> got_there h0 X ga0 st0 st' y)"
proof (induction xs arbitrary: st)
  case Nil
  then show ?case by simp
next
  case (Cons x xs)
  obtain s1 where 1: "init_src sys ga (x, the_slot bo h0 ga0 x) st = Some s1"
    and 2: "for_each (init_src sys ga) (zip xs (map (the_slot bo h0 ga0) xs)) s1 = Some st'"
    using Cons.prems(3) by (auto simp: bind_Some_iff)
  have "on_way h0 X ga0 st0 s1 \<and> (\<forall>y. got_there h0 X ga0 st0 st y \<longrightarrow> got_there h0 X ga0 st0 s1 y)"
  proof (cases "x = NULL")
    case True
    then show ?thesis using 1 Cons.prems(1) by (simp add: init_src_def)
  next
    case False
    then have x: "x \<in> X" and r: "ggml_gallocr_init_tensor sys ga x (the_slot bo h0 ga0 x) st = Some s1"
      using 1 Cons.prems(2) by (auto simp: init_src_def)
    show ?thesis using init_tensor_step [OF _ _ _ x refl ga nz r] Cons.prems(1) by (auto simp: on_way_def got_there_def)
  qed
  then show ?case using Cons.IH [OF _ _ 2] Cons.prems(2) by auto
qed

lemma init_leafs_spec:
  assumes ga: "ga_buffers ga = ga_buffers ga0" and nz: "\<And>x. planned h0 X x \<Longrightarrow> target st0 ga0 x \<noteq> NULL"
    and o: "on_way h0 X ga0 st0 st" and X: "set ls \<subseteq> X" and rec: "leafs_recorded bo h0 ga0 ls (length ls) ga"
    and r: "for_each (init_leaf sys ga) (enumerate 0 ls) st = Some st'"
  shows "on_way h0 X ga0 st0 st' \<and> (\<forall>x \<in> set ls. got_there h0 X ga0 st0 st' x)"
proof -
  let ?I = "\<lambda>n s. on_way h0 X ga0 st0 s \<and> (\<forall>i < n. got_there h0 X ga0 st0 s (ls ! i))"
  have "?I (length (enumerate 0 ls)) st'"
  proof (rule for_each_inv [OF r])
    show "?I 0 st" using o by simp
    fix i s s' assume i: "i < length (enumerate 0 ls)" and I: "?I i s" and f: "init_leaf sys ga (enumerate 0 ls ! i) s = Some s'"
    have x: "ls ! i \<in> X" using i X by auto
    have t: "ggml_gallocr_init_tensor sys ga (ls ! i) (the_slot bo h0 ga0 (ls ! i)) s = Some s'"
      using f i rec by (auto simp: init_leaf_def nth_enumerate_eq leafs_recorded_def bind_Some_iff)
    show "?I (Suc i) s'" using init_tensor_step [OF _ _ _ x refl ga nz t] I
      by (auto simp: on_way_def got_there_def less_Suc_eq)
  qed
  then show ?thesis by (auto simp: in_set_conv_nth)
qed

lemma init_nodes_spec:
  assumes ga: "ga_buffers ga = ga_buffers ga0" and nz: "\<And>x. planned h0 X x \<Longrightarrow> target st0 ga0 x \<noteq> NULL"
    and o: "on_way h0 X ga0 st0 st" and X: "set ns \<subseteq> X" "\<And>x. x \<in> set ns \<Longrightarrow> set (srcs h0 x) \<subseteq> insert NULL X"
    and rec: "nodes_recorded bo h0 ga0 ns (length ns) ga"
    and r: "for_each (init_node sys ga) (enumerate 0 ns) st = Some st'"
  shows "on_way h0 X ga0 st0 st' \<and> (\<forall>x \<in> set ns. got_there h0 X ga0 st0 st' x) \<and>
    (\<forall>y. got_there h0 X ga0 st0 st y \<longrightarrow> got_there h0 X ga0 st0 st' y)"
proof -
  let ?I = "\<lambda>n s. on_way h0 X ga0 st0 s \<and> (\<forall>i < n. got_there h0 X ga0 st0 s (ns ! i)) \<and>
    (\<forall>y. got_there h0 X ga0 st0 st y \<longrightarrow> got_there h0 X ga0 st0 s y)"
  have "?I (length (enumerate 0 ns)) st'"
  proof (rule for_each_inv [OF r])
    show "?I 0 st" using o by simp
    fix i s s' assume i: "i < length (enumerate 0 ns)" and I: "?I i s" and f: "init_node sys ga (enumerate 0 ns ! i) s = Some s'"
    let ?x = "ns ! i"
    have x: "?x \<in> X" "?x \<in> set ns" using i X by auto
    have na: "ga_node_allocs ga ! i = \<lparr> na_dst = the_slot bo h0 ga0 ?x, na_src = map (the_slot bo h0 ga0) (srcs h0 ?x) \<rparr>"
      using rec i by (simp add: nodes_recorded_def)
    obtain t s1 where t: "h_tensors (as_heap s) ?x = Some t"
      and 1: "for_each (init_src sys ga) (zip (t_src t) (map (the_slot bo h0 ga0) (srcs h0 ?x))) s = Some s1"
      and 2: "ggml_gallocr_init_tensor sys ga ?x (the_slot bo h0 ga0 ?x) s1 = Some s'"
      using f i na by (auto simp: init_node_def nth_enumerate_eq bind_Some_iff split: if_splits)
    have "map_option shape_of (h_tensors (as_heap s) ?x) = map_option shape_of (h_tensors h0 ?x)"
      using I by (simp add: on_way_def heading_def)
    then obtain t0 where t0: "h_tensors h0 ?x = Some t0" "shape_of t = shape_of t0"
      using t by (cases "h_tensors h0 ?x") auto
    then have "t_src (shape_of t) = t_src (shape_of t0)" by simp
    then have src: "t_src t = srcs h0 ?x" using t0(1) by (simp add: shape_of_def srcs_def)
    note a = init_srcs_step [OF ga nz _ X(2) [OF x(2)] 1 [unfolded src]]
    then have w: "on_way h0 X ga0 st0 s1" using I by blast
    show "?I (Suc i) s'" using init_tensor_step [OF _ _ _ x(1) refl ga nz 2] a I w
      by (auto simp: on_way_def got_there_def less_Suc_eq)
  qed
  then show ?thesis by (auto simp: in_set_conv_nth)
qed

lemma alloc_graph_addresses:
  assumes g: "graph_plannable h0 g" and st: "as_heap st0 = h0" and ga: "ga_buffers ga = ga_buffers ga0" "ga_bufts ga = ga_bufts ga0"
    and rec: "nodes_recorded (bs_ops sys) h0 ga0 (g_node_list g) (length (g_node_list g)) ga"
      "leafs_recorded (bs_ops sys) h0 ga0 (g_leaf_list g) (length (g_leaf_list g)) ga"
      "ga_n_nodes ga = g_n_nodes g" "ga_n_leafs ga = g_n_leafs g"
    and nz: "\<And>x. planned h0 (g_done g) x \<Longrightarrow> target st0 ga0 x \<noteq> NULL"
    and r: "ggml_gallocr_alloc_graph junk sys g st0 ga = Some (ok, st, ga')"
    and x: "planned h0 (g_done g) x"
  shows "(\<exists>t t0. h_tensors (as_heap st) x = Some t \<and> h_tensors h0 x = Some t0 \<and> shape_of t = shape_of t0 \<and>
    t_buffer t = chunk_of st0 ga0 x \<and> t_data t = target st0 ga0 x) \<and> as_bufs st = as_bufs st0"
proof -
  let ?X = "g_done g"
  obtain re where re: "ggml_gallocr_needs_realloc (bs_ops sys) h0 ga g = Some re"
    using r st by (auto simp: ggml_gallocr_alloc_graph_def bind_Some_iff)
  have "\<not> re" by (rule recorded_no_realloc [OF rec(1,3,4) ga(2) re])
  then obtain s1 where 1: "for_each (init_leaf sys ga) (enumerate 0 (g_leaf_list g)) st0 = Some s1"
    and 2: "for_each (init_node sys ga) (enumerate 0 (g_node_list g)) s1 = Some st"
    using r re st by (auto simp: ggml_gallocr_alloc_graph_def bind_Some_iff)
  have o: "on_way h0 ?X ga0 st0 st0" using st by (auto simp: on_way_def heading_def planned_def)
  have L: "on_way h0 ?X ga0 st0 s1 \<and> (\<forall>x \<in> set (g_leaf_list g). got_there h0 ?X ga0 st0 s1 x)"
    by (rule init_leafs_spec [OF ga(1) nz o _ rec(2) 1]) (simp_all add: g_done_def)
  have "set (srcs h0 q) \<subseteq> insert NULL ?X" if qn: "q \<in> set (g_node_list g)" for q
  proof -
    obtain i where i: "i < length (g_node_list g)" "q = g_node_list g ! i" using qn unfolding in_set_conv_nth by blast
    show ?thesis
    proof
      fix s assume "s \<in> set (srcs h0 q)"
      then have "s = NULL \<or> s = q \<or> s \<in> set (take i (g_node_list g)) \<union> set (g_leaf_list g)"
        using plannableD(7) [OF g i(1)] i(2) by blast
      then show "s \<in> insert NULL ?X" using qn by (auto simp: g_done_def dest: in_set_takeD)
    qed
  qed
  from init_nodes_spec [OF ga(1) nz conjunct1 [OF L] _ this rec(1) 2]
  have "on_way h0 ?X ga0 st0 st \<and> (\<forall>x \<in> set (g_node_list g). got_there h0 ?X ga0 st0 st x) \<and>
      (\<forall>y. got_there h0 ?X ga0 st0 s1 y \<longrightarrow> got_there h0 ?X ga0 st0 st y)" by (simp add: g_done_def)
  note N = this
  have "x \<in> set (g_node_list g) \<or> x \<in> set (g_leaf_list g)" using x by (simp add: planned_def g_done_def)
  then have "got_there h0 ?X ga0 st0 st x" using L N by blast
  then have "arrived (house st0 ga0) (as_heap st) x" using x by (simp add: got_there_def)
  then obtain t where t: "h_tensors (as_heap st) x = Some t" "t_buffer t = chunk_of st0 ga0 x" "t_data t = target st0 ga0 x"
    by (cases "h_tensors (as_heap st) x") (simp_all add: arrived_def house_def)
  have "map_option shape_of (h_tensors (as_heap st) x) = map_option shape_of (h_tensors h0 x)" "as_bufs st = as_bufs st0"
    using N by (simp_all add: on_way_def heading_def)
  then show ?thesis using t by (cases "h_tensors h0 x") auto
qed

end
