(* ===== verification/GallocStore.thy ===== *)
theory GallocStore
  imports GallocMem
begin

text \<open>
  The buffers behind a plan: what ggml_gallocr_reserve_n leaves is large enough for the plan, different
  allocators have different buffers, and so what is apart in the plan is in different buffers or at different
  addresses of one buffer.
\<close>

section \<open>The store of buffers\<close>

definition memory :: "backend_buffer \<Rightarrow> int set" where
  "memory b = (case bb_base b of None \<Rightarrow> {} | Some base \<Rightarrow> {base ..< base + bb_size b})"

definition plain :: "backend_buffer \<Rightarrow> bool" where
  "plain b \<longleftrightarrow> bb_parts b = None \<and> 0 \<le> bb_size b \<and>
     (0 < bb_size b \<longrightarrow> (\<exists>base. bb_base b = Some base \<and> 0 < base \<and> base + bb_size b < 2 ^ 64))"

definition bufs_ok :: "buffer_map \<Rightarrow> bool" where
  "bufs_ok bufs \<longleftrightarrow> finite (dom bufs)"

text \<open>
  What a backend promises: an allocation yields a new buffer of at least the size asked for, not a multi-buffer, whose
  base is not NULL and whose end is below 2^64; new objects get new addresses; the size a buffer type asks for a
  tensor is at least the tensor's.  Buffers may have the same base: the addresses of a tensor count from the base of
  its own buffer, and the Vulkan backend gives every buffer the base 4096.
\<close>

definition backend_good :: "backend_sys \<Rightarrow> bool" where
  "backend_good sys \<longleftrightarrow>
     (\<forall>buft n bufs p b. bs_alloc_buffer sys buft n bufs = Some (p, b) \<longrightarrow> finite (dom bufs) \<longrightarrow>
        p \<noteq> NULL \<and> bufs p = None \<and> plain b \<and> n \<le> bb_size b) \<and>
     (\<forall>bufs. finite (dom bufs) \<longrightarrow> bs_new sys bufs \<noteq> NULL \<and> bufs (bs_new sys bufs) = None) \<and>
     (\<forall>vbs. bs_calloc sys vbs \<noteq> NULL \<longrightarrow> vbs (bs_calloc sys vbs) = None) \<and>
     (\<forall>buft f t. bo_alloc_size (bs_ops sys) buft = Some f \<longrightarrow> ggml_nbytes t \<le> f t)"

lemma backend_goodD:
  assumes "backend_good sys"
  shows "bs_alloc_buffer sys buft n bufs = Some (p, b) \<Longrightarrow> finite (dom bufs) \<Longrightarrow>
      p \<noteq> NULL \<and> bufs p = None \<and> plain b \<and> n \<le> bb_size b"
    "finite (dom bufs) \<Longrightarrow> bs_new sys bufs \<noteq> NULL \<and> bufs (bs_new sys bufs) = None"
    "bs_calloc sys vbs \<noteq> NULL \<Longrightarrow> vbs (bs_calloc sys vbs) = None"
    "ggml_nbytes t \<le> tsize (bs_ops sys) buft t"
  using assms unfolding backend_good_def by (blast, blast, blast, simp add: tsize_def split: option.split)

abbreviation used :: "ptr list \<Rightarrow> ptr list" where
  "used chunks \<equiv> filter (\<lambda>p. p \<noteq> NULL) chunks"

definition chunks_of :: "alloc_state \<Rightarrow> ptr \<Rightarrow> ptr list" where
  "chunks_of st P = (case as_vbufs st P of None \<Rightarrow> [] | Some cs \<Rightarrow> cs)"

definition vb_ok :: "alloc_state \<Rightarrow> ptr \<Rightarrow> bool" where
  "vb_ok st P \<longleftrightarrow> P \<noteq> NULL \<and> as_vbufs st P \<noteq> None \<and> length (chunks_of st P) = GGML_VBUFFER_MAX_CHUNKS \<and>
     distinct (used (chunks_of st P)) \<and>
     (\<forall>p \<in> set (used (chunks_of st P)). \<exists>b. as_bufs st p = Some b \<and> plain b)"

definition cover :: "alloc_state \<Rightarrow> ptr \<Rightarrow> ggml_dyn_tallocr \<Rightarrow> bool" where
  "cover st P al \<longleftrightarrow> (\<forall>c < length (da_chunks al). 0 < tc_max_size (da_chunks al ! c) \<longrightarrow> c < length (chunks_of st P) \<and>
     (\<exists>b. chunks_of st P ! c \<noteq> NULL \<and> as_bufs st (chunks_of st P ! c) = Some b \<and> plain b \<and>
        tc_max_size (da_chunks al ! c) \<le> bb_size b))"

section \<open>Freeing a virtual buffer\<close>

lemma buffer_free_plain:
  assumes "as p = Some b" "plain b" "p \<noteq> NULL" "ggml_backend_buffer_free p as = Some as'"
  shows "as' \<subseteq>\<^sub>m as" "q \<noteq> p \<Longrightarrow> as' q = as q"
  using assms by (auto simp: ggml_backend_buffer_free.simps [of p as] bget_def plain_def map_le_def split: if_splits)

lemma buffers_free_plain:
  "distinct (used ps) \<Longrightarrow> \<forall>p \<in> set (used ps). \<exists>b. bufs p = Some b \<and> plain b \<Longrightarrow>
    for_each ggml_backend_buffer_free ps bufs = Some bufs' \<Longrightarrow>
    bufs' \<subseteq>\<^sub>m bufs \<and> (\<forall>q. q \<notin> set (used ps) \<longrightarrow> bufs' q = bufs q)"
proof (induction ps arbitrary: bufs)
  case Nil
  then show ?case by simp
next
  case (Cons p ps)
  obtain b1 where 1: "ggml_backend_buffer_free p bufs = Some b1" and 2: "for_each ggml_backend_buffer_free ps b1 = Some bufs'"
    using Cons.prems(3) by (auto simp: bind_Some_iff)
  show ?case
  proof (cases "p = NULL")
    case True
    then have "b1 = bufs" using 1 by (subst (asm) ggml_backend_buffer_free.simps) simp
    then show ?thesis using Cons.IH [OF _ _ 2] Cons.prems(1,2) True by simp
  next
    case False
    then obtain b where b: "bufs p = Some b" "plain b" using Cons.prems(2) by auto
    note f = buffer_free_plain [OF b False 1]
    have "\<forall>q \<in> set (used ps). \<exists>b. b1 q = Some b \<and> plain b"
    proof
      fix q assume q: "q \<in> set (used ps)"
      then have "q \<noteq> p" using Cons.prems(1) False by auto
      then have "b1 q = bufs q" by (rule f(2))
      then show "\<exists>b. b1 q = Some b \<and> plain b" using Cons.prems(2) q by simp
    qed
    from Cons.IH [OF _ this 2] Cons.prems(1) False have "bufs' \<subseteq>\<^sub>m b1" "\<forall>q. q \<notin> set (used ps) \<longrightarrow> bufs' q = b1 q" by auto
    then show ?thesis using f False map_le_trans [of bufs' b1 bufs] by simp
  qed
qed

lemma vbuffer_free_spec:
  assumes ok: "vb_ok st P" and r: "ggml_vbuffer_free P st = Some st'"
  shows "as_heap st' = as_heap st" "as_vbufs st' = (as_vbufs st)(P := None)" "as_bufs st' \<subseteq>\<^sub>m as_bufs st"
    "q \<notin> set (used (chunks_of st P)) \<Longrightarrow> as_bufs st' q = as_bufs st q"
proof -
  obtain cs where cs: "as_vbufs st P = Some cs" "chunks_of st P = cs" using ok by (auto simp: vb_ok_def chunks_of_def)
  obtain bufs where b: "for_each ggml_backend_buffer_free cs (as_bufs st) = Some bufs"
    and st': "st' = st\<lparr> as_bufs := bufs, as_vbufs := (as_vbufs st)(P := None) \<rparr>"
    using r ok cs by (auto simp: ggml_vbuffer_free_def vbget_def vb_ok_def bind_Some_iff)
  have "distinct (used cs)" "\<forall>p \<in> set (used cs). \<exists>b. as_bufs st p = Some b \<and> plain b" using ok cs by (simp_all add: vb_ok_def)
  note f = buffers_free_plain [OF this b]
  show "as_heap st' = as_heap st" "as_vbufs st' = (as_vbufs st)(P := None)" "as_bufs st' \<subseteq>\<^sub>m as_bufs st" using f st' by simp_all
  show "q \<notin> set (used (chunks_of st P)) \<Longrightarrow> as_bufs st' q = as_bufs st q" using f st' cs by simp
qed

lemma bufs_ok_sub: "bufs_ok bufs \<Longrightarrow> bufs' \<subseteq>\<^sub>m bufs \<Longrightarrow> bufs_ok bufs'"
proof -
  assume ok: "bufs_ok bufs" and s: "bufs' \<subseteq>\<^sub>m bufs"
  have sub: "bufs' p = Some b \<Longrightarrow> bufs p = Some b" for p b using s by (metis map_le_def domI)
  have "dom bufs' \<subseteq> dom bufs" using s by (simp add: map_le_implies_dom_le)
  then show ?thesis using ok sub finite_subset unfolding bufs_ok_def by blast
qed

section \<open>Allocating a virtual buffer\<close>

definition growing :: "alloc_state \<Rightarrow> ptr \<Rightarrow> tallocr_chunk list \<Rightarrow> nat \<Rightarrow> alloc_state \<Rightarrow> bool" where
  "growing st0 P chs n st \<longleftrightarrow> as_heap st = as_heap st0 \<and> (\<forall>Q. Q \<noteq> P \<longrightarrow> as_vbufs st Q = as_vbufs st0 Q) \<and>
     as_bufs st0 \<subseteq>\<^sub>m as_bufs st \<and> bufs_ok (as_bufs st) \<and> n \<le> GGML_VBUFFER_MAX_CHUNKS \<and>
     (\<exists>ps. as_vbufs st P = Some (ps @ replicate (GGML_VBUFFER_MAX_CHUNKS - n) NULL) \<and> length ps = n \<and> distinct ps \<and>
        (\<forall>c < n. ps ! c \<noteq> NULL \<and> as_bufs st0 (ps ! c) = None \<and>
           (\<exists>b. as_bufs st (ps ! c) = Some b \<and> plain b \<and> tc_max_size (chs ! c) \<le> bb_size b)))"

lemma alloc_buffer_spec:
  assumes good: "backend_good sys" and ok: "bufs_ok bufs" and n: "0 \<le> n"
    and r: "ggml_backend_buft_alloc_buffer sys buft n bufs = Some (p, bufs')" and p: "p \<noteq> NULL"
  shows "bufs p = None \<and> (\<exists>b. bufs' = bufs(p \<mapsto> b) \<and> plain b \<and> n \<le> bb_size b) \<and> bufs_ok bufs'"
proof -
  have fin: "finite (dom bufs)" using ok by (simp add: bufs_ok_def)
  have "bufs p = None \<and> (\<exists>b. bufs' = bufs(p \<mapsto> b) \<and> plain b \<and> n \<le> bb_size b)"
  proof (cases "n = 0")
    case True
    let ?b = "\<lparr> bb_buft = buft, bb_base = None, bb_init_tensor = None, bb_frees = False, bb_parts = None, bb_size = 0,
      bb_usage = GGML_BACKEND_BUFFER_USAGE_ANY \<rparr>"
    have "p = bs_new sys bufs" "bufs' = bufs(p \<mapsto> ?b)"
      using r True by (auto simp: ggml_backend_buft_alloc_buffer_def ggml_backend_buffer_init_def Let_def split: if_splits)
    moreover have "bufs (bs_new sys bufs) = None" using backend_goodD(2) [OF good fin] by blast
    moreover have "plain ?b" "n \<le> bb_size ?b" using True by (simp_all add: plain_def)
    ultimately show ?thesis by blast
  next
    case False
    then obtain b where b: "bs_alloc_buffer sys buft n bufs = Some (p, b)" "bufs' = bufs(p \<mapsto> b)"
      using r p by (auto simp: ggml_backend_buft_alloc_buffer_def split: if_splits option.splits)
    then show ?thesis using backend_goodD(1) [OF good _ fin] by blast
  qed
  moreover from this have "bufs_ok bufs'" using ok by (auto simp: bufs_ok_def)
  ultimately show ?thesis by blast
qed

lemma bufs_ok_usage: "bufs_ok bufs \<Longrightarrow> bufs_ok (bufs(p \<mapsto> b))"
  by (simp add: bufs_ok_def)

lemma set_usage_plain: "ggml_backend_buffer_set_usage u p bufs = Some bufs' \<Longrightarrow> bufs p = Some b \<Longrightarrow> plain b \<Longrightarrow>
    bufs' = bufs(p \<mapsto> b\<lparr> bb_usage := u \<rparr>)"
  by (subst (asm) ggml_backend_buffer_set_usage.simps) (auto simp: bget_def plain_def bind_Some_iff split: if_splits)

lemma growing_step:
  assumes good: "backend_good sys" and sz: "0 \<le> tc_max_size (chs ! n)" and P: "P \<noteq> NULL"
    and n: "n < length chs" "length chs \<le> GGML_VBUFFER_MAX_CHUNKS" and g: "growing st0 P chs n st"
    and r: "ggml_backend_buft_alloc_buffer sys buft (tc_max_size (chs ! n)) (as_bufs st) = Some (p, bufs)" "p \<noteq> NULL"
    and u: "ggml_backend_buffer_set_usage usage p bufs = Some bufs'"
  shows "\<exists>cs. as_vbufs st P = Some cs \<and>
    growing st0 P chs (Suc n) (st\<lparr> as_vbufs := (as_vbufs st)(P \<mapsto> cs[n := p]), as_bufs := bufs' \<rparr>)"
proof -
  obtain ps where ps: "as_vbufs st P = Some (ps @ replicate (GGML_VBUFFER_MAX_CHUNKS - n) NULL)" "length ps = n" "distinct ps"
    "\<forall>c < n. ps ! c \<noteq> NULL \<and> as_bufs st0 (ps ! c) = None \<and>
           (\<exists>b. as_bufs st (ps ! c) = Some b \<and> plain b \<and> tc_max_size (chs ! c) \<le> bb_size b)"
    and st: "as_heap st = as_heap st0" "\<forall>Q. Q \<noteq> P \<longrightarrow> as_vbufs st Q = as_vbufs st0 Q" "as_bufs st0 \<subseteq>\<^sub>m as_bufs st" "bufs_ok (as_bufs st)"
    using g unfolding growing_def by blast
  obtain b where b: "as_bufs st p = None" "bufs = (as_bufs st)(p \<mapsto> b)" "plain b" "tc_max_size (chs ! n) \<le> bb_size b" "bufs_ok bufs"
    using alloc_buffer_spec [OF good st(4) sz r] by blast
  have bufs': "bufs' = (as_bufs st)(p \<mapsto> b\<lparr> bb_usage := usage \<rparr>)" using set_usage_plain [OF u _ b(3)] b(2) by simp
  have ok': "bufs_ok bufs'" using bufs_ok_usage [OF st(4)] bufs' by simp
  let ?cs = "ps @ replicate (GGML_VBUFFER_MAX_CHUNKS - n) NULL"
  have "?cs[n := p] = (ps @ [p]) @ replicate (GGML_VBUFFER_MAX_CHUNKS - Suc n) NULL"
    using ps(2) n by (cases "GGML_VBUFFER_MAX_CHUNKS - n") (auto simp: list_update_append Suc_diff_Suc [symmetric])
  moreover have new: "p \<notin> set ps" using ps(2,4) b(1) by (auto simp: in_set_conv_nth)
  moreover have "as_bufs st0 p = None" using b(1) map_le_implies_dom_le [OF st(3)] by blast
  moreover have "as_bufs st0 \<subseteq>\<^sub>m bufs'" using st(3) \<open>as_bufs st0 p = None\<close> bufs' by (auto simp: map_le_def)
  moreover have "\<forall>c < Suc n. (ps @ [p]) ! c \<noteq> NULL \<and> as_bufs st0 ((ps @ [p]) ! c) = None \<and>
      (\<exists>b. bufs' ((ps @ [p]) ! c) = Some b \<and> plain b \<and> tc_max_size (chs ! c) \<le> bb_size b)"
  proof (intro allI impI)
    fix c assume c: "c < Suc n"
    show "(ps @ [p]) ! c \<noteq> NULL \<and> as_bufs st0 ((ps @ [p]) ! c) = None \<and>
      (\<exists>b. bufs' ((ps @ [p]) ! c) = Some b \<and> plain b \<and> tc_max_size (chs ! c) \<le> bb_size b)"
    proof (cases "c = n")
      case True
      then have "(ps @ [p]) ! c = p" using ps(2) by (simp add: nth_append)
      then show ?thesis using True r(2) b(3,4) \<open>as_bufs st0 p = None\<close> by (simp add: bufs' plain_def)
    next
      case False
      then have "c < n" using c by simp
      moreover have "ps ! c \<noteq> p" using new ps(2) calculation nth_mem [of c ps] by auto
      ultimately show ?thesis using ps(2,4) by (simp add: nth_append bufs')
    qed
  qed
  ultimately have "growing st0 P chs (Suc n) (st\<lparr> as_vbufs := (as_vbufs st)(P \<mapsto> ?cs[n := p]), as_bufs := bufs' \<rparr>)"
    using ps(2,3) st ok' n unfolding growing_def
    by (intro conjI exI [of _ "ps @ [p]"]) simp_all
  then show ?thesis using ps(1) by blast
qed

lemma alloc_chunks_step:
  assumes good: "backend_good sys" and sz: "\<forall>ch \<in> set chs. 0 \<le> tc_max_size ch" and P: "P \<noteq> NULL"
    and len: "length chs \<le> GGML_VBUFFER_MAX_CHUNKS"
  shows "growing st0 P chs n st \<Longrightarrow> n \<le> length chs \<Longrightarrow>
    alloc_chunks sys buft usage P (enumerate n (drop n chs)) st = Some (Q, st') \<Longrightarrow> Q \<noteq> NULL \<Longrightarrow>
    Q = P \<and> growing st0 P chs (length chs) st'"
proof (induction "length chs - n" arbitrary: n st)
  case 0
  then show ?case by simp
next
  case (Suc m)
  then have n: "n < length chs" by simp
  have e: "enumerate n (drop n chs) = (n, chs ! n) # enumerate (Suc n) (drop (Suc n) chs)"
    using n by (simp add: Cons_nth_drop_Suc [symmetric])
  obtain p bufs cs where r: "ggml_backend_buft_alloc_buffer sys buft (tc_max_size (chs ! n)) (as_bufs st) = Some (p, bufs)"
    and cs: "as_vbufs st P = Some cs"
    and rest: "(if p = NULL
      then do { st \<leftarrow> ggml_vbuffer_free P (st\<lparr> as_bufs := bufs, as_vbufs := (as_vbufs st)(P \<mapsto> cs[n := p]) \<rparr>); Some (NULL, st) }
      else do {
        bufs' \<leftarrow> ggml_backend_buffer_set_usage usage p bufs;
        alloc_chunks sys buft usage P (enumerate (Suc n) (drop (Suc n) chs))
          (st\<lparr> as_bufs := bufs, as_vbufs := (as_vbufs st)(P \<mapsto> cs[n := p]), as_bufs := bufs' \<rparr>) }) = Some (Q, st')"
    using Suc.prems(3) P unfolding e by (auto simp: bind_Some_iff vbget_def Let_def split: if_splits)
  have p: "p \<noteq> NULL" using rest Suc.prems(4) by (auto simp: bind_Some_iff)
  obtain bufs' where u: "ggml_backend_buffer_set_usage usage p bufs = Some bufs'"
    and al: "alloc_chunks sys buft usage P (enumerate (Suc n) (drop (Suc n) chs))
          (st\<lparr> as_vbufs := (as_vbufs st)(P \<mapsto> cs[n := p]), as_bufs := bufs' \<rparr>) = Some (Q, st')"
    using rest p by (auto simp: bind_Some_iff)
  have "growing st0 P chs (Suc n) (st\<lparr> as_vbufs := (as_vbufs st)(P \<mapsto> cs[n := p]), as_bufs := bufs' \<rparr>)"
    using growing_step [OF good _ P n len Suc.prems(1) r p u] sz n cs by auto
  from Suc.hyps(1) [OF _ this _ al Suc.prems(4)] Suc.hyps(2) n show ?case by simp
qed

lemma vbuffer_alloc_spec:
  assumes good: "backend_good sys" and al: "dyn_ok al" and ok: "bufs_ok (as_bufs st)"
    and r: "ggml_vbuffer_alloc sys buft al usage st = Some (P, st')" and P: "P \<noteq> NULL"
  shows "as_heap st' = as_heap st" "as_vbufs st P = None" "Q \<noteq> P \<Longrightarrow> as_vbufs st' Q = as_vbufs st Q"
    "as_bufs st \<subseteq>\<^sub>m as_bufs st'" "bufs_ok (as_bufs st')" "vb_ok st' P" "cover st' P al"
    "p \<in> set (used (chunks_of st' P)) \<Longrightarrow> as_bufs st p = None"
proof -
  let ?P = "bs_calloc sys (as_vbufs st)"
  let ?st = "st\<lparr> as_vbufs := (as_vbufs st)(?P \<mapsto> replicate GGML_VBUFFER_MAX_CHUNKS NULL) \<rparr>"
  let ?chs = "da_chunks al"
  have P0: "?P \<noteq> NULL" and r': "alloc_chunks sys buft usage ?P (enumerate 0 (drop 0 ?chs)) ?st = Some (P, st')"
    using r P by (auto simp: ggml_vbuffer_alloc_def Let_def split: if_splits)
  have fresh: "as_vbufs st ?P = None" by (rule backend_goodD(3) [OF good P0])
  have len: "length ?chs \<le> GGML_VBUFFER_MAX_CHUNKS" "\<forall>ch \<in> set ?chs. 0 \<le> tc_max_size ch" using al by (auto simp: dyn_ok_def chunk_ok_def)
  have "growing st ?P ?chs 0 ?st" using ok by (simp add: growing_def)
  from alloc_chunks_step [OF good len(2) P0 len(1) this _ r' P] have PP: "P = ?P" and g: "growing st ?P ?chs (length ?chs) st'" by simp_all
  obtain ps where ps: "as_vbufs st' P = Some (ps @ replicate (GGML_VBUFFER_MAX_CHUNKS - length ?chs) NULL)" "length ps = length ?chs" "distinct ps"
    "\<forall>c < length ?chs. ps ! c \<noteq> NULL \<and> as_bufs st (ps ! c) = None \<and>
           (\<exists>b. as_bufs st' (ps ! c) = Some b \<and> plain b \<and> tc_max_size (?chs ! c) \<le> bb_size b)"
    and st: "as_heap st' = as_heap st" "\<forall>Q. Q \<noteq> P \<longrightarrow> as_vbufs st' Q = as_vbufs st Q" "as_bufs st \<subseteq>\<^sub>m as_bufs st'" "bufs_ok (as_bufs st')"
    using g PP unfolding growing_def by blast
  have cs: "chunks_of st' P = ps @ replicate (GGML_VBUFFER_MAX_CHUNKS - length ?chs) NULL" using ps(1) by (simp add: chunks_of_def)
  have all: "P p" if "p \<in> set ps" "\<And>c. c < length ?chs \<Longrightarrow> P (ps ! c)" for p P
    using that ps(2) unfolding in_set_conv_nth by auto
  have "\<forall>p \<in> set ps. p \<noteq> NULL" using all [of _ "\<lambda>p. p \<noteq> NULL"] ps(4) by blast
  then have "used ps = ps" by (simp add: filter_id_conv)
  then have us: "used (chunks_of st' P) = ps" by (simp add: cs)
  show "as_heap st' = as_heap st" "as_bufs st \<subseteq>\<^sub>m as_bufs st'" "bufs_ok (as_bufs st')" by (fact st)+
  show "as_vbufs st P = None" using fresh PP by simp
  show "Q \<noteq> P \<Longrightarrow> as_vbufs st' Q = as_vbufs st Q" using st by blast
  have "\<exists>b. as_bufs st' p = Some b \<and> plain b" if "p \<in> set ps" for p
    by (rule all [OF that]) (use ps(4) in blast)
  then show "vb_ok st' P" using P ps(1,2,3) us len cs by (auto simp: vb_ok_def)
  show "cover st' P al" using ps cs by (auto simp: cover_def nth_append)
  show "p \<in> set (used (chunks_of st' P)) \<Longrightarrow> as_bufs st p = None"
    by (rule all [of p "\<lambda>p. as_bufs st p = None"]) (use ps(4) us in simp_all)
qed


section \<open>Reallocation of the buffers\<close>

text \<open>
  Ids of buffers with the same type share an allocator and a virtual buffer; the first such id owns it.
\<close>

definition owner :: "nat list \<Rightarrow> nat \<Rightarrow> bool" where
  "owner ks i \<longleftrightarrow> i < length ks \<and> (\<forall>j < i. ks ! j \<noteq> ks ! i)"

abbreviation chunk_set :: "alloc_state \<Rightarrow> ptr \<Rightarrow> ptr set" where
  "chunk_set st P \<equiv> set (used (chunks_of st P))"

text \<open>The virtual buffers of the owners are well-formed and share nothing.\<close>

definition store_ok :: "alloc_state \<Rightarrow> nat list \<Rightarrow> ptr list \<Rightarrow> bool" where
  "store_ok st ks bs \<longleftrightarrow> bufs_ok (as_bufs st) \<and> length bs = length ks \<and>
     (\<forall>i. owner ks i \<longrightarrow> bs ! i \<noteq> NULL \<longrightarrow> vb_ok st (bs ! i)) \<and>
     (\<forall>i j. owner ks i \<longrightarrow> owner ks j \<longrightarrow> i \<noteq> j \<longrightarrow> bs ! i \<noteq> NULL \<longrightarrow> bs ! j \<noteq> NULL \<longrightarrow>
        bs ! i \<noteq> bs ! j \<and> chunk_set st (bs ! i) \<inter> chunk_set st (bs ! j) = {})"

text \<open>The id has a virtual buffer, that of its owner, with room for what its allocator planned.\<close>

definition backed :: "alloc_state \<Rightarrow> nat list \<Rightarrow> ggml_dyn_tallocr list \<Rightarrow> ptr list \<Rightarrow> nat \<Rightarrow> bool" where
  "backed st ks als bs j \<longleftrightarrow> bs ! j \<noteq> NULL \<and> cover st (bs ! j) (als ! (ks ! j)) \<and>
     (\<exists>f \<le> j. owner ks f \<and> ks ! f = ks ! j \<and> bs ! f = bs ! j)"

lemma store_okD:
  assumes "store_ok st ks bs"
  shows "bufs_ok (as_bufs st)" "length bs = length ks" "owner ks i \<Longrightarrow> bs ! i \<noteq> NULL \<Longrightarrow> vb_ok st (bs ! i)"
    "owner ks i \<Longrightarrow> owner ks j \<Longrightarrow> i \<noteq> j \<Longrightarrow> bs ! i \<noteq> NULL \<Longrightarrow> bs ! j \<noteq> NULL \<Longrightarrow> bs ! i \<noteq> bs ! j"
    "owner ks i \<Longrightarrow> owner ks j \<Longrightarrow> i \<noteq> j \<Longrightarrow> bs ! i \<noteq> NULL \<Longrightarrow> bs ! j \<noteq> NULL \<Longrightarrow>
      chunk_set st (bs ! i) \<inter> chunk_set st (bs ! j) = {}"
  using assms unfolding store_ok_def by blast+

lemma owner_unique: "owner ks i \<Longrightarrow> owner ks j \<Longrightarrow> ks ! i = ks ! j \<Longrightarrow> i = j"
  by (metis linorder_neqE_nat owner_def)

lemma shared_buffer_find: "shared_buffer ga i js =
    (case find (\<lambda>j. ga_buf_tallocs ga ! j = ga_buf_tallocs ga ! i) js of None \<Rightarrow> ga_buffers ga ! i | Some j \<Rightarrow> ga_buffers ga ! j)"
  by (induction js) simp_all

lemma shared_buffer_spec:
  assumes "i < length (ga_buf_tallocs ga)"
  shows "owner (ga_buf_tallocs ga) i \<and> shared_buffer ga i [0..<i] = ga_buffers ga ! i \<or>
    (\<exists>f < i. owner (ga_buf_tallocs ga) f \<and> ga_buf_tallocs ga ! f = ga_buf_tallocs ga ! i \<and>
       shared_buffer ga i [0..<i] = ga_buffers ga ! f)"
proof (cases "find (\<lambda>j. ga_buf_tallocs ga ! j = ga_buf_tallocs ga ! i) [0..<i]")
  case None
  then have "\<forall>j < i. ga_buf_tallocs ga ! j \<noteq> ga_buf_tallocs ga ! i" by (auto simp: find_None_iff)
  then show ?thesis using assms None by (simp add: shared_buffer_find owner_def)
next
  case (Some f)
  then obtain m where m: "m < i" "ga_buf_tallocs ga ! m = ga_buf_tallocs ga ! i" "f = m"
    "\<forall>j < m. ga_buf_tallocs ga ! j \<noteq> ga_buf_tallocs ga ! i" by (auto simp: find_Some_iff)
  then have "owner (ga_buf_tallocs ga) f" using assms by (simp add: owner_def)
  then show ?thesis using Some m by (auto simp: shared_buffer_find)
qed

text \<open>What a change of the store leaves of a virtual buffer.\<close>

definition keeps :: "alloc_state \<Rightarrow> alloc_state \<Rightarrow> ptr \<Rightarrow> bool" where
  "keeps st st' P \<longleftrightarrow> as_vbufs st' P = as_vbufs st P \<and> (\<forall>p \<in> chunk_set st P. as_bufs st' p = as_bufs st p)"

lemma keeps_chunks: "keeps st st' P \<Longrightarrow> chunks_of st' P = chunks_of st P"
  by (simp add: keeps_def chunks_of_def)

lemma keeps_vb_ok: "keeps st st' P \<Longrightarrow> vb_ok st P \<Longrightarrow> vb_ok st' P"
  using keeps_chunks [of st st' P] by (auto simp: vb_ok_def keeps_def)

lemma keeps_cover: "keeps st st' P \<Longrightarrow> cover st P al \<Longrightarrow> cover st' P al"
proof -
  assume k: "keeps st st' P" and c: "cover st P al"
  have "as_bufs st' (chunks_of st P ! i) = as_bufs st (chunks_of st P ! i)"
    if "i < length (chunks_of st P)" "chunks_of st P ! i \<noteq> NULL" for i
    using k that nth_mem [of i "chunks_of st P"] by (simp add: keeps_def)
  then show ?thesis using c unfolding cover_def keeps_chunks [OF k] by metis
qed

text \<open>Giving an owner another virtual buffer.\<close>

lemma store_ok_replace:
  assumes ok: "store_ok st ks bs" and i: "owner ks i" and bufs: "bufs_ok (as_bufs st')"
    and new: "vb_ok st' P" and old: "\<And>j. owner ks j \<Longrightarrow> j \<noteq> i \<Longrightarrow> bs ! j \<noteq> NULL \<Longrightarrow>
      keeps st st' (bs ! j) \<and> bs ! j \<noteq> P \<and> chunk_set st (bs ! j) \<inter> chunk_set st' P = {}"
  shows "store_ok st' ks (bs[i := P])"
proof -
  have len: "length bs = length ks" "i < length bs" using ok i by (simp_all add: store_ok_def owner_def)
  have at: "bs[i := P] ! j = (if j = i then P else bs ! j)" for j using len by (simp add: nth_list_update)
  have ch: "chunk_set st' (bs ! j) = chunk_set st (bs ! j)" if "owner ks j" "j \<noteq> i" "bs ! j \<noteq> NULL" for j
    using keeps_chunks [OF conjunct1 [OF old [OF that]]] by simp
  have "vb_ok st' (bs ! j)" if "owner ks j" "j \<noteq> i" "bs ! j \<noteq> NULL" for j
  proof -
    have "vb_ok st (bs ! j)" using ok that by (simp add: store_ok_def)
    then show ?thesis using keeps_vb_ok old [OF that] by blast
  qed
  moreover have "bs ! j \<noteq> bs ! l \<and> chunk_set st' (bs ! j) \<inter> chunk_set st' (bs ! l) = {}"
    if "owner ks j" "owner ks l" "j \<noteq> l" "j \<noteq> i" "l \<noteq> i" "bs ! j \<noteq> NULL" "bs ! l \<noteq> NULL" for j l
    using ok that ch by (simp add: store_ok_def)
  moreover have "bs ! j \<noteq> P \<and> chunk_set st' (bs ! j) \<inter> chunk_set st' P = {}" if "owner ks j" "j \<noteq> i" "bs ! j \<noteq> NULL" for j
    using old [OF that] ch [OF that] by simp
  ultimately show ?thesis using new bufs len
    unfolding store_ok_def at by (simp add: Int_commute) (metis Int_commute)
qed

definition cur_size :: "alloc_state \<Rightarrow> ptr \<Rightarrow> nat \<Rightarrow> int option" where
  "cur_size st buf c = (if buf \<noteq> NULL then ggml_vbuffer_chunk_size st buf c else Some 0)"

lemma chunk_too_small_loop:
  "for_each (chunk_too_small st buf al) cs re = Some re' \<Longrightarrow>
    (\<forall>c \<in> set cs. \<exists>n. cur_size st buf c = Some n) \<and>
    re' = (re \<or> (\<exists>c \<in> set cs. \<exists>n. cur_size st buf c = Some n \<and> ggml_dyn_tallocr_max_size al (int c) > n))"
proof (induction cs arbitrary: re)
  case Nil
  then show ?case by simp
next
  case (Cons a cs)
  obtain n where n: "cur_size st buf a = Some n"
    and rest: "for_each (chunk_too_small st buf al) cs (re \<or> ggml_dyn_tallocr_max_size al (int a) > n) = Some re'"
    using Cons.prems by (auto simp: chunk_too_small_def [of st buf al a] cur_size_def [of st buf a] bind_Some_iff split: if_splits)
  from Cons.IH [OF rest] n show ?case by auto
qed

lemma chunk_size_spec:
  assumes "vb_ok st P" "ggml_vbuffer_chunk_size st P c = Some n"
  shows "c < length (chunks_of st P)" "chunks_of st P ! c = NULL \<Longrightarrow> n = 0"
    "chunks_of st P ! c \<noteq> NULL \<Longrightarrow> \<exists>b. as_bufs st (chunks_of st P ! c) = Some b \<and> plain b \<and> n = bb_size b"
proof -
  have v: "vbget st P = Some (chunks_of st P)" "P \<noteq> NULL" using assms(1) by (auto simp: vb_ok_def vbget_def chunks_of_def)
  show c: "c < length (chunks_of st P)" using assms(2) v by (auto simp: ggml_vbuffer_chunk_size_def split: if_splits)
  show "chunks_of st P ! c = NULL \<Longrightarrow> n = 0" using assms(2) v by (auto simp: ggml_vbuffer_chunk_size_def split: if_splits)
  assume nn: "chunks_of st P ! c \<noteq> NULL"
  then have "chunks_of st P ! c \<in> chunk_set st P" using c by simp
  then obtain b where "as_bufs st (chunks_of st P ! c) = Some b" "plain b" using assms(1) by (auto simp: vb_ok_def)
  then show "\<exists>b. as_bufs st (chunks_of st P ! c) = Some b \<and> plain b \<and> n = bb_size b"
    using assms(2) v nn c by (auto simp: ggml_vbuffer_chunk_size_def ggml_backend_buffer_get_size_def bget_def)
qed

text \<open>The test of the loop: reallocate exactly when the chunks are not large enough.\<close>

lemma too_small_cover:
  assumes vb: "vb_ok st P" and al: "dyn_ok al"
    and r: "for_each (chunk_too_small st P al) [0..<length (da_chunks al)] (P = NULL) = Some re"
  shows "re \<longleftrightarrow> \<not> cover st P al"
proof -
  have P: "P \<noteq> NULL" using vb by (simp add: vb_ok_def)
  let ?n = "\<lambda>c. ggml_vbuffer_chunk_size st P c"
  have e: "\<exists>n. ?n c = Some n" if "c < length (da_chunks al)" for c
    using chunk_too_small_loop [OF r] that P by (simp add: cur_size_def)
  have re: "re \<longleftrightarrow> (\<exists>c < length (da_chunks al). \<exists>n. ?n c = Some n \<and> tc_max_size (da_chunks al ! c) > n)"
    using chunk_too_small_loop [OF r] P by (auto simp: ggml_dyn_tallocr_max_size_def cur_size_def)
  have nn: "0 \<le> tc_max_size (da_chunks al ! c)" if "c < length (da_chunks al)" for c
    using al nth_mem [OF that] by (simp add: dyn_ok_def chunk_ok_def)
  have one: "tc_max_size (da_chunks al ! c) \<le> n \<longleftrightarrow> (0 < tc_max_size (da_chunks al ! c) \<longrightarrow> c < length (chunks_of st P) \<and>
      (\<exists>b. chunks_of st P ! c \<noteq> NULL \<and> as_bufs st (chunks_of st P ! c) = Some b \<and> plain b \<and>
        tc_max_size (da_chunks al ! c) \<le> bb_size b))" if cn: "?n c = Some n" "c < length (da_chunks al)" for c n
  proof (cases "chunks_of st P ! c = NULL")
    case True
    then show ?thesis using chunk_size_spec(2) [OF vb cn(1)] nn [OF cn(2)] by auto
  next
    case False
    then obtain b where "as_bufs st (chunks_of st P ! c) = Some b" "plain b" "n = bb_size b"
      using chunk_size_spec(3) [OF vb cn(1) False] by blast
    then show ?thesis using False chunk_size_spec(1) [OF vb cn(1)] nn [OF cn(2)] by (auto simp: plain_def)
  qed
  show ?thesis
  proof
    assume re
    then obtain c n where "c < length (da_chunks al)" "?n c = Some n" "\<not> tc_max_size (da_chunks al ! c) \<le> n" using re by auto
    then show "\<not> cover st P al" using one unfolding cover_def by blast
  next
    assume "\<not> cover st P al"
    then obtain c where c: "c < length (da_chunks al)" "\<not> (0 < tc_max_size (da_chunks al ! c) \<longrightarrow> c < length (chunks_of st P) \<and>
      (\<exists>b. chunks_of st P ! c \<noteq> NULL \<and> as_bufs st (chunks_of st P ! c) = Some b \<and> plain b \<and>
        tc_max_size (da_chunks al ! c) \<le> bb_size b))" unfolding cover_def by blast
    obtain n where n: "?n c = Some n" using e [OF c(1)] by blast
    then show re using one [OF n c(1)] c re by (meson linorder_not_less)
  qed
qed


lemma keeps_trans: "keeps st st1 P \<Longrightarrow> keeps st1 st2 P \<Longrightarrow> keeps st st2 P"
  using keeps_chunks [of st st1 P] by (simp add: keeps_def)

lemma keeps_refl [simp]: "keeps st st P"
  by (simp add: keeps_def)

text \<open>Freeing one virtual buffer and allocating another, seen from a third one.\<close>

lemma free_keeps:
  assumes "vb_ok st P" "ggml_vbuffer_free P st = Some st'" "Q \<noteq> P" "chunk_set st P \<inter> chunk_set st Q = {}"
  shows "keeps st st' Q"
  using vbuffer_free_spec [OF assms(1,2)] assms(3,4) unfolding keeps_def by auto

lemma alloc_keeps:
  assumes good: "backend_good sys" and al: "dyn_ok al" and ok: "bufs_ok (as_bufs st)" and vb: "vb_ok st Q"
    and r: "ggml_vbuffer_alloc sys buft al usage st = Some (P, st')" and P: "P \<noteq> NULL"
  shows "keeps st st' Q" "Q \<noteq> P" "chunk_set st Q \<inter> chunk_set st' P = {}"
proof -
  note a = vbuffer_alloc_spec [OF good al ok r P]
  have some: "\<exists>b. as_bufs st p = Some b" if "p \<in> chunk_set st Q" for p using vb that unfolding vb_ok_def by blast
  show ne: "Q \<noteq> P" using a(2) vb by (auto simp: vb_ok_def)
  have "as_bufs st' p = as_bufs st p" if "p \<in> chunk_set st Q" for p
    using some [OF that] a(4) unfolding map_le_def by (metis domI)
  then show "keeps st st' Q" using a(3) [OF ne] by (simp add: keeps_def)
  show "chunk_set st Q \<inter> chunk_set st' P = {}" using some a(8) by fastforce
qed

lemma backed_keeps:
  "backed st ks als bs j \<Longrightarrow> (\<And>f. owner ks f \<Longrightarrow> f \<le> j \<Longrightarrow> bs ! f \<noteq> NULL \<Longrightarrow> bs' ! f = bs ! f \<and> keeps st st' (bs ! f)) \<Longrightarrow>
    bs' ! j = bs ! j \<Longrightarrow> backed st' ks als bs' j"
  unfolding backed_def by (metis keeps_cover)

lemma realloc_unfold:
  assumes "i < length (ga_buffers ga)" "shared_buffer ga i [0..<i] = buf"
    and "realloc_buffer sys False i (True, st, ga) = Some (True, st', ga')"
  defines "al \<equiv> ga_tallocs ga ! (ga_buf_tallocs ga ! i)"
  obtains re where "ga_buf_tallocs ga ! i < length (ga_tallocs ga)"
    "for_each (chunk_too_small st buf al) [0..<length (da_chunks al)] (buf = NULL) = Some re"
    "\<not> re \<Longrightarrow> st' = st \<and> ga' = ga\<lparr> ga_buffers := (ga_buffers ga)[i := buf] \<rparr>"
    "re \<Longrightarrow> \<exists>st1 buft P. ggml_vbuffer_free buf st = Some st1 \<and>
      ggml_vbuffer_alloc sys buft al GGML_BACKEND_BUFFER_USAGE_COMPUTE st1 = Some (P, st') \<and> P \<noteq> NULL \<and>
      ga' = ga\<lparr> ga_buffers := (ga_buffers ga)[i := P] \<rparr>"
proof -
  let ?ga = "ga\<lparr> ga_buffers := (ga_buffers ga)[i := buf] \<rparr>"
  obtain k where k: "talloc_index ?ga (int i) = Some k" "k = ga_buf_tallocs ga ! i" "k < length (ga_tallocs ga)"
    using assms(1,2,3) by (auto simp: realloc_buffer_def talloc_index_def Let_def split: if_splits)
  have r: "(do { re \<leftarrow> for_each (chunk_too_small st buf al) [0..<length (da_chunks al)] (buf = NULL);
       if re
       then do {
         st \<leftarrow> ggml_vbuffer_free buf st;
         buft \<leftarrow> buft_at ?ga (int i);
         (p, st) \<leftarrow> ggml_vbuffer_alloc sys buft al GGML_BACKEND_BUFFER_USAGE_COMPUTE st;
         Some (p \<noteq> NULL, st, ?ga\<lparr> ga_buffers := (ga_buffers ?ga)[i := p] \<rparr>) }
       else Some (True, st, ?ga) }) = Some (True, st', ga')"
    using assms(1,2,3) k by (simp add: realloc_buffer_def Let_def al_def cong: if_cong)
  then obtain re where re: "for_each (chunk_too_small st buf al) [0..<length (da_chunks al)] (buf = NULL) = Some re"
    by (auto simp: bind_Some_iff)
  show thesis
  proof (rule that [OF _ re])
    show "ga_buf_tallocs ga ! i < length (ga_tallocs ga)" using k by simp
    show "\<not> re \<Longrightarrow> st' = st \<and> ga' = ?ga" using r re by simp
    show "re \<Longrightarrow> \<exists>st1 buft P. ggml_vbuffer_free buf st = Some st1 \<and>
      ggml_vbuffer_alloc sys buft al GGML_BACKEND_BUFFER_USAGE_COMPUTE st1 = Some (P, st') \<and> P \<noteq> NULL \<and>
      ga' = ga\<lparr> ga_buffers := (ga_buffers ga)[i := P] \<rparr>" using r re by (auto simp: bind_Some_iff)
  qed
qed

lemma realloc_owner:
  assumes good: "backend_good sys" and ok: "store_ok st (ga_buf_tallocs ga) (ga_buffers ga)"
    and al: "\<forall>al \<in> set (ga_tallocs ga). dyn_ok al" and i: "owner (ga_buf_tallocs ga) i"
    and prev: "\<forall>j < i. backed st (ga_buf_tallocs ga) (ga_tallocs ga) (ga_buffers ga) j"
    and r: "realloc_buffer sys False i (True, st, ga) = Some (True, st', ga')"
  shows "as_heap st' = as_heap st \<and> (\<exists>bs. ga' = ga\<lparr> ga_buffers := bs \<rparr> \<and> store_ok st' (ga_buf_tallocs ga) bs \<and>
    (\<forall>j \<le> i. backed st' (ga_buf_tallocs ga) (ga_tallocs ga) bs j))"
proof -
  let ?ks = "ga_buf_tallocs ga" let ?bs = "ga_buffers ga" let ?buf = "?bs ! i" let ?al = "ga_tallocs ga ! (?ks ! i)"
  have len: "i < length ?ks" "length ?bs = length ?ks" using i ok by (simp_all add: owner_def store_ok_def)
  have sh: "shared_buffer ga i [0..<i] = ?buf" using shared_buffer_spec [OF len(1)] i by (auto simp: owner_def)
  have len': "i < length ?bs" using len by simp
  obtain re where k: "?ks ! i < length (ga_tallocs ga)"
    and re: "for_each (chunk_too_small st ?buf ?al) [0..<length (da_chunks ?al)] (?buf = NULL) = Some re"
    and no: "\<not> re \<Longrightarrow> st' = st \<and> ga' = ga\<lparr> ga_buffers := ?bs[i := ?buf] \<rparr>"
    and yes: "re \<Longrightarrow> \<exists>st1 buft P. ggml_vbuffer_free ?buf st = Some st1 \<and>
      ggml_vbuffer_alloc sys buft ?al GGML_BACKEND_BUFFER_USAGE_COMPUTE st1 = Some (P, st') \<and> P \<noteq> NULL \<and>
      ga' = ga\<lparr> ga_buffers := ?bs[i := P] \<rparr>"
    using realloc_unfold [OF len' sh r] by metis
  have dyn: "dyn_ok ?al" using al k by simp
  have vb: "vb_ok st ?buf" if "?buf \<noteq> NULL" using ok i that by (simp add: store_ok_def)
  have bok: "bufs_ok (as_bufs st)" using ok by (simp add: store_ok_def)
  show ?thesis
  proof (cases re)
    case False
    then have "?buf \<noteq> NULL" using chunk_too_small_loop [OF re] by auto
    then have "cover st ?buf ?al" using too_small_cover [OF vb dyn re] False by simp
    then have "backed st ?ks (ga_tallocs ga) ?bs i" using \<open>?buf \<noteq> NULL\<close> i by (auto simp: backed_def)
    then have "\<forall>j \<le> i. backed st ?ks (ga_tallocs ga) ?bs j" using prev by (auto simp: le_less)
    moreover have "st' = st" "ga' = ga\<lparr> ga_buffers := ?bs \<rparr>" using no [OF False] by simp_all
    ultimately show ?thesis using ok by (intro conjI exI [of _ ?bs]) simp_all
  next
    case True
    then obtain st1 buft P where f: "ggml_vbuffer_free ?buf st = Some st1"
      and a: "ggml_vbuffer_alloc sys buft ?al GGML_BACKEND_BUFFER_USAGE_COMPUTE st1 = Some (P, st')"
      and P: "P \<noteq> NULL" and ga': "ga' = ga\<lparr> ga_buffers := ?bs[i := P] \<rparr>"
      using yes by blast
    have s1: "as_bufs st1 \<subseteq>\<^sub>m as_bufs st \<and> as_heap st1 = as_heap st"
    proof (cases "?buf = NULL")
      case True
      then show ?thesis using f by (simp add: ggml_vbuffer_free_def)
    next
      case False
      show ?thesis using vbuffer_free_spec(1,3) [OF vb [OF False] f] by simp
    qed
    then have bok1: "bufs_ok (as_bufs st1)" and h1: "as_heap st1 = as_heap st" using bufs_ok_sub [OF bok] by simp_all
    note n = vbuffer_alloc_spec [OF good dyn bok1 a P]
    have k1: "keeps st st1 (?bs ! j)" if "owner ?ks j" "j \<noteq> i" "?bs ! j \<noteq> NULL" for j
    proof (cases "?buf = NULL")
      case True
      then show ?thesis using f by (simp add: ggml_vbuffer_free_def)
    next
      case False
      then have "?bs ! j \<noteq> ?buf" "chunk_set st ?buf \<inter> chunk_set st (?bs ! j) = {}"
        using store_okD(4,5) [OF ok i that(1)] that by metis+
      then show ?thesis using free_keeps [OF vb [OF False] f] by blast
    qed
    have k2: "keeps st st' (?bs ! j) \<and> ?bs ! j \<noteq> P \<and> chunk_set st (?bs ! j) \<inter> chunk_set st' P = {}"
      if "owner ?ks j" "j \<noteq> i" "?bs ! j \<noteq> NULL" for j
    proof -
      have "vb_ok st (?bs ! j)" by (rule store_okD(3) [OF ok that(1,3)])
      then have v1: "vb_ok st1 (?bs ! j)" by (rule keeps_vb_ok [OF k1 [OF that]])
      note q = alloc_keeps [OF good dyn bok1 v1 a P]
      then show ?thesis using keeps_trans [OF k1 [OF that] q(1)] keeps_chunks [OF k1 [OF that]] by simp
    qed
    have so: "store_ok st' ?ks (?bs[i := P])" by (rule store_ok_replace [OF ok i n(5,6) k2])
    have "backed st' ?ks (ga_tallocs ga) (?bs[i := P]) j" if "j < i" for j
      by (rule backed_keeps [OF prev [rule_format, OF that]]) (use that k2 in auto)
    moreover have "backed st' ?ks (ga_tallocs ga) (?bs[i := P]) i" using P n(7) i len by (auto simp: backed_def)
    ultimately have "\<forall>j \<le> i. backed st' ?ks (ga_tallocs ga) (?bs[i := P]) j" by (auto simp: le_less)
    then show ?thesis using so ga' n(1) h1 by auto
  qed
qed

lemma realloc_sharer:
  assumes ok: "store_ok st (ga_buf_tallocs ga) (ga_buffers ga)" and al: "\<forall>al \<in> set (ga_tallocs ga). dyn_ok al"
    and i: "i < length (ga_buf_tallocs ga)" "\<not> owner (ga_buf_tallocs ga) i"
    and prev: "\<forall>j < i. backed st (ga_buf_tallocs ga) (ga_tallocs ga) (ga_buffers ga) j"
    and r: "realloc_buffer sys False i (True, st, ga) = Some (True, st', ga')"
  shows "as_heap st' = as_heap st \<and> (\<exists>bs. ga' = ga\<lparr> ga_buffers := bs \<rparr> \<and> store_ok st' (ga_buf_tallocs ga) bs \<and>
    (\<forall>j \<le> i. backed st' (ga_buf_tallocs ga) (ga_tallocs ga) bs j))"
proof -
  let ?ks = "ga_buf_tallocs ga" let ?bs = "ga_buffers ga" let ?al = "ga_tallocs ga ! (?ks ! i)"
  obtain f where f: "f < i" "owner ?ks f" "?ks ! f = ?ks ! i" "shared_buffer ga i [0..<i] = ?bs ! f"
    using shared_buffer_spec [OF i(1)] i(2) by blast
  have len: "i < length ?bs" using i ok by (simp add: store_ok_def)
  have b: "?bs ! f \<noteq> NULL" "cover st (?bs ! f) ?al" using prev f by (auto simp: backed_def)
  then have vb: "vb_ok st (?bs ! f)" using ok f(2) by (simp add: store_ok_def)
  obtain re where k: "?ks ! i < length (ga_tallocs ga)"
    and re: "for_each (chunk_too_small st (?bs ! f) ?al) [0..<length (da_chunks ?al)] (?bs ! f = NULL) = Some re"
    and no: "\<not> re \<Longrightarrow> st' = st \<and> ga' = ga\<lparr> ga_buffers := ?bs[i := ?bs ! f] \<rparr>"
    using realloc_unfold [OF len f(4) r] by metis
  have "\<not> re" using too_small_cover [OF vb _ re] al k b(2) by simp
  then have res: "st' = st" "ga' = ga\<lparr> ga_buffers := ?bs[i := ?bs ! f] \<rparr>" using no by blast+
  have at: "?bs[i := ?bs ! f] ! j = ?bs ! j" if "owner ?ks j" for j using that i(2) by (cases "j = i") simp_all
  have "store_ok st ?ks (?bs[i := ?bs ! f])" using ok by (simp add: store_ok_def at)
  moreover have "backed st ?ks (ga_tallocs ga) (?bs[i := ?bs ! f]) j" if "j \<le> i" for j
  proof (cases "j = i")
    case True
    then show ?thesis using b f len by (auto simp: backed_def intro!: exI [of _ f])
  next
    case False
    show ?thesis by (rule backed_keeps [OF prev [rule_format, of j]]) (use False that at in auto)
  qed
  ultimately show ?thesis using res by auto
qed

lemma realloc_loop:
  assumes good: "backend_good sys" and ok: "store_ok st (ga_buf_tallocs ga) (ga_buffers ga)"
    and al: "\<forall>al \<in> set (ga_tallocs ga). dyn_ok al" and n: "n \<le> length (ga_buf_tallocs ga)"
    and r: "for_each (realloc_buffer sys False) [0..<n] (True, st, ga) = Some (True, st', ga')"
  shows "as_heap st' = as_heap st \<and> (\<exists>bs. ga' = ga\<lparr> ga_buffers := bs \<rparr> \<and> store_ok st' (ga_buf_tallocs ga) bs \<and>
    (\<forall>j < n. backed st' (ga_buf_tallocs ga) (ga_tallocs ga) bs j))"
proof -
  let ?I = "\<lambda>i (okay, st', ga'). okay \<longrightarrow> as_heap st' = as_heap st \<and> (\<exists>bs. ga' = ga\<lparr> ga_buffers := bs \<rparr> \<and>
    store_ok st' (ga_buf_tallocs ga) bs \<and> (\<forall>j < i. backed st' (ga_buf_tallocs ga) (ga_tallocs ga) bs j))"
  have "?I (length [0..<n]) (True, st', ga')"
  proof (rule for_each_inv [OF r])
    show "?I 0 (True, st, ga)" using ok by (auto intro!: exI [of _ "ga_buffers ga"])
    fix i s s' assume i: "i < length [0..<n]" and I: "?I i s" and f: "realloc_buffer sys False ([0..<n] ! i) s = Some s'"
    obtain o1 s1 g1 where s: "s = (o1, s1, g1)" by (cases s)
    obtain o2 s2 g2 where s': "s' = (o2, s2, g2)" by (cases s')
    have i': "i < length (ga_buf_tallocs ga)" "[0..<n] ! i = i" using i n by simp_all
    show "?I (Suc i) s'"
    proof (cases o2)
      case True
      then have o1 using f by (cases o1) (simp_all add: s s' realloc_buffer_def)
      then obtain bs where h: "as_heap s1 = as_heap st" and g1: "g1 = ga\<lparr> ga_buffers := bs \<rparr>"
        and so: "store_ok s1 (ga_buf_tallocs ga) bs" and bk: "\<forall>j < i. backed s1 (ga_buf_tallocs ga) (ga_tallocs ga) bs j"
        using I by (auto simp: s)
      have f': "realloc_buffer sys False i (True, s1, g1) = Some (True, s2, g2)" using f True \<open>o1\<close> i' by (simp add: s s')
      have "as_heap s2 = as_heap s1 \<and> (\<exists>bs. g2 = g1\<lparr> ga_buffers := bs \<rparr> \<and> store_ok s2 (ga_buf_tallocs g1) bs \<and>
          (\<forall>j \<le> i. backed s2 (ga_buf_tallocs g1) (ga_tallocs g1) bs j))"
      proof (cases "owner (ga_buf_tallocs ga) i")
        case True
        show ?thesis by (rule realloc_owner [OF good _ _ _ _ f']) (use so al bk True g1 in simp_all)
      next
        case False
        show ?thesis by (rule realloc_sharer [OF _ _ _ _ _ f']) (use so al bk False g1 i' in simp_all)
      qed
      then show ?thesis using h g1 by (auto simp: s' less_Suc_eq_le)
    qed (simp add: s')
  qed
  then show ?thesis by simp
qed


section \<open>Addresses of a plan that is backed\<close>

lemma target_inside:
  assumes so: "store_ok st (ga_buf_tallocs ga) (ga_buffers ga)"
    and bk: "\<forall>j < length (ga_buf_tallocs ga). backed st (ga_buf_tallocs ga) (ga_tallocs ga) (ga_buffers ga) j"
    and b: "b = hn_buffer_id (node_at ga x)" "0 \<le> b" "nat b < length (ga_buf_tallocs ga)"
    and rng: "in_range (ga_tallocs ga ! talloc_of ga b) (hn_addr (node_at ga x)) n" and n: "0 < n"
  obtains f p buf base where "owner (ga_buf_tallocs ga) f" "ga_buf_tallocs ga ! f = talloc_of ga b"
    "ga_buffers ga ! f = ga_buffers ga ! nat b" "ga_buffers ga ! f \<noteq> NULL"
    "p = chunks_of st (ga_buffers ga ! f) ! nat (ba_chunk (hn_addr (node_at ga x)))" "p \<in> chunk_set st (ga_buffers ga ! f)"
    "nat (ba_chunk (hn_addr (node_at ga x))) < length (chunks_of st (ga_buffers ga ! f))"
    "as_bufs st p = Some buf" "bb_base buf = Some base" "0 < base" "target st ga x = base + ba_offset (hn_addr (node_at ga x))"
    "chunk_of st ga x = p" "{target st ga x ..< target st ga x + n} \<subseteq> memory buf"
proof -
  let ?bs = "ga_buffers ga" let ?ks = "ga_buf_tallocs ga" let ?a = "hn_addr (node_at ga x)" let ?c = "nat (ba_chunk ?a)"
  let ?al = "ga_tallocs ga ! talloc_of ga b"
  have k: "?ks ! nat b = talloc_of ga b" by (simp add: talloc_of_def)
  from bk b(3) have "backed st ?ks (ga_tallocs ga) ?bs (nat b)" by blast
  then obtain f where f: "owner ?ks f" "?ks ! f = talloc_of ga b" "?bs ! f = ?bs ! nat b" "?bs ! f \<noteq> NULL"
    and c: "cover st (?bs ! f) ?al" unfolding backed_def k by metis
  have vb: "vb_ok st (?bs ! f)" by (rule store_okD(3) [OF so f(1,4)])
  have r: "0 \<le> ba_chunk ?a" "?c < length (da_chunks ?al)" "0 \<le> ba_offset ?a" "ba_offset ?a + n \<le> tc_max_size (da_chunks ?al ! ?c)"
    using rng by (auto simp: in_range_def ggml_dyn_tallocr_max_size_def split: if_splits)
  then have pos: "0 < tc_max_size (da_chunks ?al ! ?c)" using n by linarith
  let ?p = "chunks_of st (?bs ! f) ! ?c"
  obtain buf where p: "?c < length (chunks_of st (?bs ! f))" "?p \<noteq> NULL" "as_bufs st ?p = Some buf" "plain buf"
    "tc_max_size (da_chunks ?al ! ?c) \<le> bb_size buf" using c r(2) pos unfolding cover_def by blast
  then obtain base where base: "bb_base buf = Some base" "0 < base" "base + bb_size buf < 2 ^ 64"
    using pos by (auto simp: plain_def)
  have "vbget st (?bs ! f) = Some (chunks_of st (?bs ! f))" using vb by (auto simp: vb_ok_def vbget_def chunks_of_def)
  then have ch: "chunk_of st ga x = ?p" using b(1) f(3) by (simp add: chunk_of_def Let_def)
  have "ggml_backend_buffer_get_base (as_bufs st) ?p = Some base"
    using p base pos by (auto simp: ggml_backend_buffer_get_base_def bget_def)
  moreover have "0 \<le> base + ba_offset ?a" "base + ba_offset ?a < 2 ^ 64" using base r p(5) n by linarith+
  ultimately have t: "target st ga x = base + ba_offset ?a" by (simp add: target_def ch u64_def)
  have "{target st ga x ..< target st ga x + n} \<subseteq> memory buf" using base(1) r p(5) by (auto simp: memory_def t)
  moreover have "?p \<in> chunk_set st (?bs ! f)" using p by simp
  ultimately show thesis using that [OF f refl _ p(1,3) base(1,2) t ch] by blast
qed

text \<open>Ranges that the plan keeps apart are apart in memory.\<close>

lemma distinct_filter_nth:
  "distinct (filter P xs) \<Longrightarrow> i < length xs \<Longrightarrow> j < length xs \<Longrightarrow> xs ! i = v \<Longrightarrow> xs ! j = v \<Longrightarrow> P v \<Longrightarrow> i = j"
proof (induction xs arbitrary: i j)
  case Nil
  then show ?case by simp
next
  case (Cons x xs)
  show ?case
  proof (cases i; cases j)
    fix k assume "i = 0" "j = Suc k"
    then have "v = x" "v \<in> set (filter P xs)" using Cons.prems by auto
    then show ?thesis using Cons.prems by auto
  next
    fix k assume "i = Suc k" "j = 0"
    then have "v = x" "v \<in> set (filter P xs)" using Cons.prems by auto
    then show ?thesis using Cons.prems by auto
  next
    fix k l assume "i = Suc k" "j = Suc l"
    then show ?thesis using Cons.IH [of k l] Cons.prems by (auto split: if_splits)
  qed simp
qed

lemma targets_apart:
  assumes so: "store_ok st (ga_buf_tallocs ga) (ga_buffers ga)"
    and bk: "\<forall>j < length (ga_buf_tallocs ga). backed st (ga_buf_tallocs ga) (ga_tallocs ga) (ga_buffers ga) j"
    and x: "placed_ok bo h ga x" "b1 = hn_buffer_id (node_at ga x)" "0 < span bo h ga b1 x"
    and y: "placed_ok bo h ga y" "b2 = hn_buffer_id (node_at ga y)" "0 < span bo h ga b2 y"
    and len: "length (ga_bufts ga) = length (ga_buf_tallocs ga)"
    and apart: "range_of bo h ga x \<inter> range_of bo h ga y = {}"
  shows "chunk_of st ga x \<noteq> chunk_of st ga y \<or>
    {target st ga x ..< target st ga x + span bo h ga b1 x} \<inter> {target st ga y ..< target st ga y + span bo h ga b2 y} = {}"
proof -
  let ?bs = "ga_buffers ga" let ?ks = "ga_buf_tallocs ga"
  let ?ax = "hn_addr (node_at ga x)" let ?ay = "hn_addr (node_at ga y)"
  have px: "0 \<le> b1" "nat b1 < length ?ks" "in_range (ga_tallocs ga ! talloc_of ga b1) ?ax (span bo h ga b1 x)"
    using x(1) len by (simp_all add: placed_ok_def Let_def x(2))
  have py: "0 \<le> b2" "nat b2 < length ?ks" "in_range (ga_tallocs ga ! talloc_of ga b2) ?ay (span bo h ga b2 y)"
    using y(1) len by (simp_all add: placed_ok_def Let_def y(2))
  obtain f p u bu where f: "owner ?ks f" "?ks ! f = talloc_of ga b1" "?bs ! f \<noteq> NULL"
    "p = chunks_of st (?bs ! f) ! nat (ba_chunk ?ax)" "p \<in> chunk_set st (?bs ! f)"
    "nat (ba_chunk ?ax) < length (chunks_of st (?bs ! f))" "as_bufs st p = Some u" "target st ga x = bu + ba_offset ?ax"
    "chunk_of st ga x = p" "bb_base u = Some bu"
    using target_inside [OF so bk x(2) px x(3)] by metis
  obtain e q v bv where e: "owner ?ks e" "?ks ! e = talloc_of ga b2" "?bs ! e \<noteq> NULL"
    "q = chunks_of st (?bs ! e) ! nat (ba_chunk ?ay)" "q \<in> chunk_set st (?bs ! e)"
    "nat (ba_chunk ?ay) < length (chunks_of st (?bs ! e))" "as_bufs st q = Some v" "target st ga y = bv + ba_offset ?ay"
    "chunk_of st ga y = q" "bb_base v = Some bv"
    using target_inside [OF so bk y(2) py y(3)] by metis
  show ?thesis
  proof (cases "p = q")
    case False
    then show ?thesis using f(9) e(9) by simp
  next
    case True
    have "f = e"
    proof (rule ccontr)
      assume "f \<noteq> e"
      from store_okD(5) [OF so f(1) e(1) this f(3) e(3)] have "chunk_set st (?bs ! f) \<inter> chunk_set st (?bs ! e) = {}" .
      then show False using True f(5) e(5) by blast
    qed
    then have k: "talloc_of ga b1 = talloc_of ga b2" using f(2) e(2) by simp
    have d: "distinct (used (chunks_of st (?bs ! f)))" using store_okD(3) [OF so f(1,3)] by (simp add: vb_ok_def)
    have "chunks_of st (?bs ! f) ! nat (ba_chunk ?ax) = p" "chunks_of st (?bs ! f) ! nat (ba_chunk ?ay) = p" "p \<noteq> NULL"
      using f(4,5) e(4) True \<open>f = e\<close> by simp_all
    then have "nat (ba_chunk ?ax) = nat (ba_chunk ?ay)" using distinct_filter_nth [OF d f(6)] e(6) \<open>f = e\<close> by simp
    then have c: "ba_chunk ?ax = ba_chunk ?ay" using px(3) py(3) by (simp add: in_range_def eq_nat_nat_iff)
    have "bu = bv" using f(7,10) e(7,10) True by simp
    show ?thesis
    proof (rule ccontr)
      assume "\<not> ?thesis"
      then obtain z where "z \<in> {target st ga x ..< target st ga x + span bo h ga b1 x}"
        "z \<in> {target st ga y ..< target st ga y + span bo h ga b2 y}" by blast
      then have z: "target st ga x \<le> z" "z < target st ga x + span bo h ga b1 x"
        "target st ga y \<le> z" "z < target st ga y + span bo h ga b2 y" by simp_all
      have "(talloc_of ga b1, ba_chunk ?ax, z - bu) \<in> range_of bo h ga x \<inter> range_of bo h ga y"
        using z f(8) e(8) \<open>bu = bv\<close> c k x(2) y(2) by (simp add: range_of_def place_def cells_def Let_def)
      then show False using apart by blast
    qed
  qed
qed


section \<open>Reserving\<close>

text \<open>An allocator between calls: a fresh one, or one whose last reservation succeeded.\<close>

definition gallocr_ok :: "alloc_state \<Rightarrow> ggml_gallocr \<Rightarrow> bool" where
  "gallocr_ok st ga \<longleftrightarrow> (hs_inv (ga_hash_set ga) \<or> hs_size (ga_hash_set ga) = 0) \<and> (\<forall>al \<in> set (ga_tallocs ga). dyn_ok al) \<and>
     length (ga_bufts ga) = length (ga_buf_tallocs ga) \<and> (\<forall>k \<in> set (ga_buf_tallocs ga). k < length (ga_tallocs ga)) \<and>
     store_ok st (ga_buf_tallocs ga) (ga_buffers ga)"

definition reservable :: "heap \<Rightarrow> ggml_cgraph \<Rightarrow> bool" where
  "reservable h g \<longleftrightarrow> graph_plannable h g \<and> 0 \<le> g_n_nodes g \<and> 0 \<le> g_n_leafs g \<and>
     0 < g_n_nodes g + g_n_leafs g \<and> g_n_nodes g + g_n_leafs g < 2 ^ 31"

lemma size_table_spec:
  assumes "hs_inv (ga_hash_set ga) \<or> hs_size (ga_hash_set ga) = 0" "reservable h g"
  shows "hs_inv (ga_hash_set (size_table junk g ga))" "ga_tallocs (size_table junk g ga) = ga_tallocs ga"
    "ga_bufts (size_table junk g ga) = ga_bufts ga" "ga_buf_tallocs (size_table junk g ga) = ga_buf_tallocs ga"
    "ga_buffers (size_table junk g ga) = ga_buffers ga"
proof -
  let ?n = "g_n_nodes g + g_n_leafs g"
  have n: "0 < ?n" "?n < 2147483648" using assms(2) by (simp_all add: reservable_def)
  then have e: "u64 (i32 ?n) = ?n" by (simp add: wrap_simps)
  have m: "u64 (?n + ?n div 4) = ?n + ?n div 4" using n by (intro u64_id) auto
  have "0 \<le> ?n div 4" "?n div 4 \<le> ?n" using n by presburger+
  then have b: "0 < ?n + ?n div 4" "nat (?n + ?n div 4) < 2 ^ 63" using n by auto
  show "hs_inv (ga_hash_set (size_table junk g ga))"
    using ggml_hash_set_new_spec [OF b(2), of junk] assms(1) b(1) by (auto simp: size_table_def Let_def e m)
qed (simp_all add: size_table_def Let_def)

lemma reset_loop:
  assumes "for_each reset_talloc [0..<n] ga = Some ga'" "\<forall>al \<in> set (ga_tallocs ga). dyn_ok al"
  shows "(\<forall>al \<in> set (ga_tallocs ga'). dyn_ok al) \<and> aligns ga' = aligns ga \<and>
    ga' = ga\<lparr> ga_tallocs := ga_tallocs ga' \<rparr>"
proof -
  let ?I = "\<lambda>_ s. (\<forall>al \<in> set (ga_tallocs s). dyn_ok al) \<and> aligns s = aligns ga \<and> (\<exists>tl. s = ga\<lparr> ga_tallocs := tl \<rparr>)"
  have "?I (length [0..<n]) ga'"
  proof (rule for_each_inv [OF assms(1)])
    have "ga = ga\<lparr> ga_tallocs := ga_tallocs ga \<rparr>" by simp
    then show "?I 0 ga" using assms(2) by blast
    fix i s s' assume I: "?I i s" and f: "reset_talloc ([0..<n] ! i) s = Some s'"
    then obtain k where k: "k < length (ga_tallocs s)" and s': "s' = set_talloc s k (ggml_dyn_tallocr_reset (ga_tallocs s ! k))"
      by (auto simp: reset_talloc_def bind_Some_iff talloc_index_def split: if_splits)
    have "dyn_ok (ga_tallocs s ! k)" using I k by simp
    then have "dyn_ok (ggml_dyn_tallocr_reset (ga_tallocs s ! k))" by (simp add: dyn_ok_def ggml_dyn_tallocr_reset_def)
    then have "\<forall>al \<in> set (ga_tallocs s'). dyn_ok al"
      using I set_list_update_subset [of "ga_tallocs s" dyn_ok] by (simp add: s' set_talloc_def)
    moreover have "aligns s' = aligns s"
      using k by (simp add: s' set_talloc_def aligns_def map_update ggml_dyn_tallocr_reset_def list_update_same_conv)
    moreover have "\<exists>tl. s' = ga\<lparr> ga_tallocs := tl \<rparr>" using I by (auto simp: s' set_talloc_def)
    ultimately show "?I (Suc i) s'" using I by simp
  qed
  then show ?thesis by auto
qed


text \<open>Planning touches neither the types nor the buffers.\<close>

definition env_of :: "ggml_gallocr \<Rightarrow> ptr list \<times> nat list \<times> ptr list" where
  "env_of ga = (ga_bufts ga, ga_buf_tallocs ga, ga_buffers ga)"

lemma env_of_set [simp]: "env_of (set_hn ga i f) = env_of ga" "env_of (set_talloc ga k al) = env_of ga"
  by (simp_all add: env_of_def set_hn_def set_talloc_def)

lemma hash_get_env: "ggml_gallocr_hash_get ga x = Some (i, ga') \<Longrightarrow> env_of ga' = env_of ga"
  by (auto simp: ggml_gallocr_hash_get_def bind_Some_iff env_of_def split: if_splits)

lemma is_own_env: "ggml_gallocr_is_own ga x = Some (b, ga') \<Longrightarrow> env_of ga' = env_of ga"
  by (auto simp: ggml_gallocr_is_own_def bind_Some_iff dest!: hash_get_env)

lemma is_allocated_env: "ggml_gallocr_is_allocated h ga x = Some (b, ga') \<Longrightarrow> env_of ga' = env_of ga"
  by (auto simp: ggml_gallocr_is_allocated_def bind_Some_iff dest!: is_own_env split: if_splits)

lemma free_extra_env: "ggml_gallocr_free_extra_space bo h ga x y = Some ga' \<Longrightarrow> env_of ga' = env_of ga"
  by (auto simp: ggml_gallocr_free_extra_space_def bind_Some_iff Let_def dest!: hash_get_env split: if_splits)

lemma reuse_parent_env: "reuse_parent bo h x hn p ga = Some (b, ga') \<Longrightarrow> env_of ga' = env_of ga"
  unfolding reuse_parent_def Let_def
  by (auto simp: bind_Some_iff dest!: hash_get_env is_own_env free_extra_env split: if_split_asm)

lemma reuse_parents_env: "reuse_parents bo h x hn ps ga = Some (b, ga') \<Longrightarrow> env_of ga' = env_of ga"
  by (induction ps arbitrary: ga) (auto simp: bind_Some_iff dest!: reuse_parent_env split: if_splits)

lemma allocate_node_env:
  assumes "ggml_gallocr_allocate_node bo h x b ga = Some ga'"
  shows "env_of ga' = env_of ga"
proof -
  let ?r = "\<lambda>i g2 al t. if \<not> al \<and> \<not> ggml_is_view t
      then do {
        (done, g) \<leftarrow> (if ggml_op_can_inplace (t_op t)
          then reuse_parents bo h x i (t_src t) (set_hn g2 i (\<lambda>n. n\<lparr> hn_allocated := True \<rparr>))
          else Some (False, set_hn g2 i (\<lambda>n. n\<lparr> hn_allocated := True \<rparr>)));
        if done then Some g
        else do {
          k \<leftarrow> talloc_index g b;
          buft \<leftarrow> buft_at g b;
          sz \<leftarrow> ggml_backend_buft_get_alloc_size bo buft t;
          (addr, al) \<leftarrow> ggml_dyn_tallocr_alloc (ga_tallocs g ! k) sz;
          Some (set_hn (set_talloc g k al) i (\<lambda>n. n\<lparr> hn_buffer_id := b, hn_addr := addr \<rparr>)) } }
      else Some g2"
  have b0: "b \<ge> 0" using assms by (simp add: ggml_gallocr_allocate_node_def split: if_split_asm)
  obtain i g1 where 1: "ggml_gallocr_hash_get ga x = Some (i, g1)"
    using assms b0 by (cases "ggml_gallocr_hash_get ga x") (auto simp: ggml_gallocr_allocate_node_def)
  obtain al g2 where 2: "ggml_gallocr_is_allocated h g1 x = Some (al, g2)"
    using assms b0 1 by (cases "ggml_gallocr_is_allocated h g1 x") (auto simp: ggml_gallocr_allocate_node_def)
  obtain t where t: "tget h x = Some t"
    using assms b0 1 2 by (cases "tget h x") (auto simp: ggml_gallocr_allocate_node_def)
  have r: "?r i g2 al t = Some ga'" using assms b0 1 2 t by (simp add: ggml_gallocr_allocate_node_def Let_def cong: if_cong)
  have e: "env_of g2 = env_of ga" using hash_get_env [OF 1] is_allocated_env [OF 2] by simp
  show ?thesis
  proof (cases "\<not> al \<and> \<not> ggml_is_view t")
    case True
    then obtain d g where p: "(if ggml_op_can_inplace (t_op t)
          then reuse_parents bo h x i (t_src t) (set_hn g2 i (\<lambda>n. n\<lparr> hn_allocated := True \<rparr>))
          else Some (False, set_hn g2 i (\<lambda>n. n\<lparr> hn_allocated := True \<rparr>))) = Some (d, g)"
      using r by (auto simp: bind_Some_iff split: if_split_asm)
    have "env_of g = env_of ga" using p e reuse_parents_env by (fastforce split: if_split_asm)
    then show ?thesis using r True p by (cases d) (auto simp: bind_Some_iff)
  next
    case False
    then have "ga' = g2" using r by auto
    then show ?thesis using e by simp
  qed
qed

lemma free_node_env: "ggml_gallocr_free_node bo h x ga = Some ga' \<Longrightarrow> env_of ga' = env_of ga"
  by (auto simp: ggml_gallocr_free_node_def bind_Some_iff Let_def dest!: hash_get_env split: if_splits)

lemma update_parent_env: "update_parent bo h p ga = Some ga' \<Longrightarrow> env_of ga' = env_of ga"
  by (auto simp: update_parent_def bind_Some_iff Let_def dest!: hash_get_env free_node_env split: if_splits)

lemma for_each_env:
  assumes "for_each f xs ga = Some ga'" "\<And>x ga ga'. f x ga = Some ga' \<Longrightarrow> env_of ga' = env_of ga"
  shows "env_of ga' = env_of ga"
proof (rule for_each_inv [OF assms(1), of "\<lambda>_ g. env_of g = env_of ga"])
  show "env_of s' = env_of ga" if "env_of s = env_of ga" "f (xs ! i) s = Some s'" for i s s'
    using assms(2) [OF that(2)] that(1) by simp
qed simp

lemma count_src_env: "count_src bo h ids i src ga = Some ga' \<Longrightarrow> env_of ga' = env_of ga"
  by (auto simp: count_src_def bind_Some_iff Let_def dest!: hash_get_env allocate_node_env split: if_splits)

lemma count_node_env: "count_node bo h ids inode ga = Some ga' \<Longrightarrow> env_of ga' = env_of ga"
  by (cases inode) (auto simp: count_node_def bind_Some_iff dest!: hash_get_env allocate_node_env
      for_each_env [of "count_src bo h ids n" for n, OF _ count_src_env] split: if_splits)

lemma plan_leaf_env: "plan_leaf bo h ids ileaf ga = Some ga' \<Longrightarrow> env_of ga' = env_of ga"
  by (cases ileaf) (auto simp: plan_leaf_def bind_Some_iff dest!: allocate_node_env)

lemma place_parent_env: "place_parent bo h b p ga = Some ga' \<Longrightarrow> env_of ga' = env_of ga"
  by (auto simp: place_parent_def dest!: allocate_node_env split: if_splits)

lemma place_node_env: "place_node bo h ids inode ga = Some ga' \<Longrightarrow> env_of ga' = env_of ga"
  by (cases inode) (auto simp: place_node_def bind_Some_iff dest!: allocate_node_env
      for_each_env [of "place_parent bo h b" for b, OF _ place_parent_env]
      for_each_env [of "update_parent bo h", OF _ update_parent_env])

lemma plan_env:
  assumes "ggml_gallocr_alloc_graph_impl bo h g nids lids ga = Some ga'"
  shows "env_of ga' = env_of ga"
proof -
  let ?g0 = "ga\<lparr> ga_hash_set := ggml_hash_set_reset (ga_hash_set ga),
    ga_hash_values := replicate (hs_size (ga_hash_set ga)) zero_node \<rparr>"
  obtain g1 g2 where 1: "for_each (plan_leaf bo h lids) (enumerate 0 (g_leaf_list g)) ?g0 = Some g1"
    and 2: "for_each (count_node bo h nids) (enumerate 0 (g_node_list g)) g1 = Some g2"
    and 3: "for_each (place_node bo h nids) (enumerate 0 (g_node_list g)) g2 = Some ga'"
    using assms by (auto simp: ggml_gallocr_alloc_graph_impl_def bind_Some_iff Let_def)
  have "env_of ga' = env_of g2" "env_of g2 = env_of g1" "env_of g1 = env_of ?g0"
    by (rule for_each_env [OF 3] for_each_env [OF 2] for_each_env [OF 1], erule place_node_env count_node_env plan_leaf_env)+
  then show ?thesis by (simp add: env_of_def)
qed


lemma env_ok_same: "env_ok bo h X ga \<Longrightarrow> ga_bufts ga' = ga_bufts ga \<Longrightarrow> ga_buf_tallocs ga' = ga_buf_tallocs ga \<Longrightarrow>
    aligns ga' = aligns ga \<Longrightarrow> env_ok bo h X ga'"
proof -
  assume e: "env_ok bo h X ga" "ga_bufts ga' = ga_bufts ga" "ga_buf_tallocs ga' = ga_buf_tallocs ga" "aligns ga' = aligns ga"
  from e(4) have "length (ga_tallocs ga') = length (ga_tallocs ga)" unfolding aligns_def by (rule map_eq_imp_length_eq)
  then show "env_ok bo h X ga'" using e by (simp add: env_ok_def need_def talloc_of_def)
qed

text \<open>What a successful reservation leaves: the plan, recorded, on buffers that have room for it.\<close>

definition reserved :: "backend_ops \<Rightarrow> heap \<Rightarrow> ggml_cgraph \<Rightarrow> ggml_gallocr \<Rightarrow> alloc_state \<Rightarrow> ggml_gallocr \<Rightarrow> bool" where
  "reserved bo h g gp st ga \<longleftrightarrow> planning bo h (g_node_list g) (g_leaf_list g) (length (g_node_list g)) gp \<and>
     nodes_recorded bo h gp (g_node_list g) (length (g_node_list g)) ga \<and>
     leafs_recorded bo h gp (g_leaf_list g) (length (g_leaf_list g)) ga \<and>
     ga_n_nodes ga = g_n_nodes g \<and> ga_n_leafs ga = g_n_leafs g \<and>
     ga_bufts gp = ga_bufts ga \<and> ga_buf_tallocs gp = ga_buf_tallocs ga \<and> ga_tallocs gp = ga_tallocs ga \<and>
     length (ga_bufts ga) = length (ga_buf_tallocs ga) \<and> store_ok st (ga_buf_tallocs ga) (ga_buffers ga) \<and>
     (\<forall>j < length (ga_buf_tallocs ga). backed st (ga_buf_tallocs ga) (ga_tallocs ga) (ga_buffers ga) j)"

lemma reserve_result:
  assumes good: "backend_good sys" and rs: "reservable (as_heap st) g" and ok: "gallocr_ok st ga"
    and env: "env_ok (bs_ops sys) (as_heap st) (g_done g) ga"
    and r: "ggml_gallocr_reserve_n junk sys g nids lids st ga = Some (True, st', ga')"
  shows "as_heap st' = as_heap st" "\<exists>gp. reserved (bs_ops sys) (as_heap st) g gp st' ga'" "gallocr_ok st' ga'"
    "ga_bufts ga' = ga_bufts ga" "ga_buf_tallocs ga' = ga_buf_tallocs ga"
proof -
  let ?h = "as_heap st" let ?bo = "bs_ops sys"
  obtain g1 gp gr where 1: "for_each reset_talloc [0..<length (ga_bufts ga)] (size_table junk g ga) = Some g1"
    and 2: "ggml_gallocr_alloc_graph_impl ?bo ?h g nids lids g1 = Some gp" and 3: "record_plan ?bo ?h g gp = Some gr"
    and 4: "for_each (realloc_buffer sys False) [0..<length (ga_bufts gr)] (True, st, gr) = Some (True, st', ga')"
    using r by (auto simp: ggml_gallocr_reserve_n_def ggml_gallocr_reserve_n_impl_def bind_Some_iff Let_def)
  have hs: "hs_inv (ga_hash_set ga) \<or> hs_size (ga_hash_set ga) = 0" and dyn: "\<forall>al \<in> set (ga_tallocs ga). dyn_ok al"
    and len: "length (ga_bufts ga) = length (ga_buf_tallocs ga)" and so: "store_ok st (ga_buf_tallocs ga) (ga_buffers ga)"
    and kk: "\<forall>k \<in> set (ga_buf_tallocs ga). k < length (ga_tallocs ga)"
    using ok by (simp_all add: gallocr_ok_def)
  note t = size_table_spec [OF hs rs, of junk]
  have g1: "\<forall>al \<in> set (ga_tallocs g1). dyn_ok al" "aligns g1 = aligns ga"
      "g1 = (size_table junk g ga)\<lparr> ga_tallocs := ga_tallocs g1 \<rparr>"
    using reset_loop [OF 1] dyn t(2) by (simp_all add: aligns_def)
  have e1: "ga_bufts g1 = ga_bufts ga" "ga_buf_tallocs g1 = ga_buf_tallocs ga" "ga_buffers g1 = ga_buffers ga"
      "hs_inv (ga_hash_set g1)"
    by (subst g1(3), simp add: t)+
  have env1: "env_ok ?bo ?h (g_done g) g1" by (rule env_ok_same [OF env]) (simp_all add: e1 g1(2))
  have pl: "graph_plannable ?h g" using rs by (simp add: reservable_def)
  note P = plan_result [OF pl e1(4) g1(1) env1 2]
  have ep: "ga_bufts gp = ga_bufts ga" "ga_buf_tallocs gp = ga_buf_tallocs ga" "ga_buffers gp = ga_buffers ga"
    using plan_env [OF 2] e1 by (simp_all add: env_of_def)
  have bk: "books ?bo ?h (set (g_node_list g) \<union> set (g_leaf_list g)) gp" using P by (simp add: planning_def Let_def)
  note R = record_plan_spec [OF booksD(1) [OF bk] 3]
  have er: "ga_bufts gr = ga_bufts ga" "ga_buf_tallocs gr = ga_buf_tallocs ga" "ga_buffers gr = ga_buffers ga"
      "ga_tallocs gr = ga_tallocs gp" "table_ok gr"
    using R(1) ep by (auto simp: same_plan_def frame_def slots_kept_def static_of_def)
  have dr: "\<forall>al \<in> set (ga_tallocs gr). dyn_ok al" using booksD(3) [OF bk] er(4) by simp
  have "as_heap st' = as_heap st \<and> (\<exists>bs. ga' = gr\<lparr> ga_buffers := bs \<rparr> \<and> store_ok st' (ga_buf_tallocs gr) bs \<and>
    (\<forall>j < length (ga_bufts gr). backed st' (ga_buf_tallocs gr) (ga_tallocs gr) bs j))"
    by (rule realloc_loop [OF good _ dr _ 4]) (simp_all add: er so len)
  then obtain bs where h: "as_heap st' = ?h" and ga': "ga' = gr\<lparr> ga_buffers := bs \<rparr>" and so': "store_ok st' (ga_buf_tallocs ga) bs"
    and bk': "\<forall>j < length (ga_buf_tallocs ga). backed st' (ga_buf_tallocs ga) (ga_tallocs gr) bs j"
    by (auto simp: er len)
  have kr: "\<forall>k \<in> set (ga_buf_tallocs ga). k < length (ga_tallocs gr)"
    using booksD(2) [OF bk] by (simp add: env_ok_def ep er)
  show "as_heap st' = ?h" by (rule h)
  show "ga_bufts ga' = ga_bufts ga" "ga_buf_tallocs ga' = ga_buf_tallocs ga" by (simp_all add: ga' er)
  have "nodes_recorded ?bo ?h gp (g_node_list g) (length (g_node_list g)) ga'"
    "leafs_recorded ?bo ?h gp (g_leaf_list g) (length (g_leaf_list g)) ga'"
    using R(2,3) by (simp_all add: nodes_recorded_def leafs_recorded_def ga')
  then have "reserved ?bo ?h g gp st' ga'" using P R(4,5) so' bk' ep er len by (simp add: reserved_def ga')
  then show "\<exists>gp. reserved ?bo ?h g gp st' ga'" ..
  show "gallocr_ok st' ga'" using er(5) dr len kr so' by (simp add: gallocr_ok_def ga' er table_ok_def)
qed

section \<open>What the tensors of a reserved graph occupy\<close>

definition bytes_of :: "ggml_tensor \<Rightarrow> int set" where
  "bytes_of t = {t_data t ..< t_data t + ggml_nbytes t}"

lemma nbytes_shape: "shape_of t = shape_of u \<Longrightarrow> ggml_nbytes t = ggml_nbytes u"
proof -
  have "ggml_nbytes t = ggml_nbytes (shape_of t)" for t by (simp add: ggml_nbytes_def nbytes_strides_def shape_of_def Let_def)
  then show "shape_of t = shape_of u \<Longrightarrow> ggml_nbytes t = ggml_nbytes u" by metis
qed

text \<open>After ggml_gallocr_alloc_graph a planned tensor is where its range is, inside a buffer.\<close>

lemma reserved_addresses:
  assumes res: "reserved (bs_ops sys) (as_heap st) g gp st ga" and pl: "graph_plannable (as_heap st) g"
    and r: "ggml_gallocr_alloc_graph junk sys g st ga = Some (ok, st', ga')"
    and x: "planned (as_heap st) (g_done g) x"
  defines "g0 \<equiv> gp\<lparr> ga_buffers := ga_buffers ga \<rparr>"
  defines "b \<equiv> hn_buffer_id (node_at gp x)"
  shows "\<exists>t t0. h_tensors (as_heap st') x = Some t \<and> h_tensors (as_heap st) x = Some t0 \<and> shape_of t = shape_of t0 \<and>
      t_buffer t = chunk_of st g0 x \<and> t_data t = target st g0 x" "as_bufs st' = as_bufs st"
    "placed_ok (bs_ops sys) (as_heap st) g0 x" "0 < need (bs_ops sys) (as_heap st) g0 b x"
    "need (bs_ops sys) (as_heap st) g0 b x \<le> span (bs_ops sys) (as_heap st) g0 b x" "0 < target st g0 x"
    "\<exists>buf. as_bufs st (chunk_of st g0 x) = Some buf \<and> {target st g0 x ..< target st g0 x + span (bs_ops sys) (as_heap st) g0 b x} \<subseteq> memory buf"
proof -
  let ?h = "as_heap st" let ?bo = "bs_ops sys" let ?X = "set (g_node_list g) \<union> set (g_leaf_list g)"
  have n0: "node_at g0 = node_at gp" by (rule node_at_cong) (simp_all add: g0_def)
  have e0: "ga_bufts g0 = ga_bufts ga" "ga_buf_tallocs g0 = ga_buf_tallocs ga" "ga_tallocs g0 = ga_tallocs ga"
      "ga_buffers g0 = ga_buffers ga" "aligns g0 = aligns gp"
    using res by (simp_all add: reserved_def g0_def aligns_def)
  have nd: "need ?bo ?h g0 = need ?bo ?h gp" "talloc_of g0 = talloc_of gp" "span ?bo ?h g0 = span ?bo ?h gp"
    by (simp_all add: fun_eq_iff need_def talloc_of_def span_def g0_def aligns_def)
  have P: "planning ?bo ?h (g_node_list g) (g_leaf_list g) (length (g_node_list g)) gp" using res by (simp add: reserved_def)
  then have bk: "books ?bo ?h ?X gp" and po: "y \<in> ?X \<Longrightarrow> planned ?h ?X y \<Longrightarrow> placed_ok ?bo ?h gp y" for y
    by (auto simp: planning_def Let_def)
  have X: "g_done g = ?X" by (simp add: g_done_def)
  have facts: "placed_ok ?bo ?h g0 y \<and> 0 < need ?bo ?h g0 (hn_buffer_id (node_at gp y)) y \<and>
      need ?bo ?h g0 (hn_buffer_id (node_at gp y)) y \<le> span ?bo ?h g0 (hn_buffer_id (node_at gp y)) y"
    if y: "planned ?h (g_done g) y" for y
  proof -
    let ?b = "hn_buffer_id (node_at gp y)"
    have ok: "placed_ok ?bo ?h gp y" using po y by (auto simp: X planned_def)
    then have b: "0 \<le> ?b" "nat ?b < length (ga_bufts gp)" by (simp_all add: placed_ok_def Let_def)
    note e = env_index [OF booksD(2) [OF bk] b]
    have "dyn_ok (ga_tallocs gp ! talloc_of gp ?b)" using booksD(3) [OF bk] e(1) by simp
    then have "need ?bo ?h gp ?b y \<le> padded (da_alignment (ga_tallocs gp ! talloc_of gp ?b)) (need ?bo ?h gp ?b y)"
      using e(2) [of y] y by (intro padded_bounds) (simp_all add: dyn_ok_def X)
    then have "need ?bo ?h gp ?b y \<le> span ?bo ?h gp ?b y" using e(1) by (simp add: span_def aligns_def)
    moreover have "placed_ok ?bo ?h g0 y"
      using ok nd by (simp add: placed_ok_def Let_def n0) (simp add: g0_def)
    ultimately show ?thesis using e(2) y by (simp add: nd X)
  qed
  have inside: "0 < target st g0 y \<and> (\<exists>buf. as_bufs st (chunk_of st g0 y) = Some buf \<and>
      {target st g0 y ..< target st g0 y + span ?bo ?h g0 (hn_buffer_id (node_at gp y)) y} \<subseteq> memory buf)"
    if y: "planned ?h (g_done g) y" for y
  proof -
    let ?b = "hn_buffer_id (node_at gp y)"
    have po0: "0 \<le> ?b" "nat ?b < length (ga_buf_tallocs g0)"
        "in_range (ga_tallocs g0 ! talloc_of g0 ?b) (hn_addr (node_at g0 y)) (span ?bo ?h g0 ?b y)"
      using facts [OF y] res e0(1,2) by (simp_all add: placed_ok_def Let_def n0 reserved_def)
    have sp: "0 < span ?bo ?h g0 ?b y" using facts [OF y] by linarith
    have so: "store_ok st (ga_buf_tallocs g0) (ga_buffers g0)"
        "\<forall>j < length (ga_buf_tallocs g0). backed st (ga_buf_tallocs g0) (ga_tallocs g0) (ga_buffers g0) j"
      using res by (simp_all add: e0 reserved_def)
    obtain buf base where "as_bufs st (chunk_of st g0 y) = Some buf" "0 < base" "target st g0 y = base + ba_offset (hn_addr (node_at g0 y))"
      "{target st g0 y ..< target st g0 y + span ?bo ?h g0 ?b y} \<subseteq> memory buf"
      using target_inside [OF so _ po0 sp] n0 by metis
    moreover have "0 \<le> ba_offset (hn_addr (node_at g0 y))" using po0(3) by (simp add: in_range_def)
    ultimately show ?thesis by force
  qed
  show "placed_ok ?bo ?h g0 x" "0 < need ?bo ?h g0 b x" "need ?bo ?h g0 b x \<le> span ?bo ?h g0 b x"
    using facts [OF x] by (simp_all add: b_def)
  show "0 < target st g0 x" "\<exists>buf. as_bufs st (chunk_of st g0 x) = Some buf \<and>
      {target st g0 x ..< target st g0 x + span ?bo ?h g0 b x} \<subseteq> memory buf" using inside [OF x] by (simp_all add: b_def)
  have "the_slot ?bo ?h g0 = the_slot ?bo ?h gp" "slot_ok ?h g0 = slot_ok ?h gp"
    by (simp_all add: fun_eq_iff the_slot_def slot_ok_def n0 nd) (simp add: g0_def)
  then have rec: "nodes_recorded ?bo ?h g0 (g_node_list g) (length (g_node_list g)) ga"
      "leafs_recorded ?bo ?h g0 (g_leaf_list g) (length (g_leaf_list g)) ga"
    using res by (simp_all add: reserved_def nodes_recorded_def leafs_recorded_def)
  have "ga_n_nodes ga = g_n_nodes g" "ga_n_leafs ga = g_n_leafs g" using res by (simp_all add: reserved_def)
  from alloc_graph_addresses [OF pl refl e0(4) [symmetric] e0(1) [symmetric] rec this _ r x] inside
  show "\<exists>t t0. h_tensors (as_heap st') x = Some t \<and> h_tensors ?h x = Some t0 \<and> shape_of t = shape_of t0 \<and>
      t_buffer t = chunk_of st g0 x \<and> t_data t = target st g0 x" "as_bufs st' = as_bufs st" by fastforce+
qed


text \<open>A new allocator, over buffer types with sane alignments, has its books in order.\<close>

definition bufts_sane :: "backend_ops \<Rightarrow> bool" where
  "bufts_sane bo \<longleftrightarrow> (\<forall>b. 0 < bo_alignment bo b \<and> bo_alignment bo b \<le> SIZE_MAX div 2 \<and> (\<forall>n. bo_max_size bo b = Some n \<longrightarrow> 0 \<le> n))"

lemma same_buft_nth: "same_buft bs buft k = Some j \<Longrightarrow> k \<le> j \<and> j < k + length bs"
  by (induction bs arbitrary: k) (force split: if_split_asm)+

lemma new_gallocr_ok:
  assumes "bufts_sane bo" "bufs_ok (as_bufs st)" and r: "ggml_gallocr_new_n bo bufts = Some ga"
  shows "gallocr_ok st ga"
proof -
  let ?I = "\<lambda>ga. hs_size (ga_hash_set ga) = 0 \<and> (\<forall>al \<in> set (ga_tallocs ga). dyn_ok al) \<and>
    length (ga_bufts ga) = length (ga_buf_tallocs ga) \<and> length (ga_buffers ga) = length (ga_buf_tallocs ga) \<and>
    (\<forall>k \<in> set (ga_buf_tallocs ga). k < length (ga_tallocs ga)) \<and> set (ga_buffers ga) \<subseteq> {NULL}"
  have step: "?I g'" if s: "add_buft bo b g = Some g'" and i: "?I g" for b g g'
  proof (cases "same_buft (ga_bufts g) b 0")
    case None
    define a where "a = bo_alignment bo b"
    define m where "m = (case bo_max_size bo b of Some n \<Rightarrow> n | None \<Rightarrow> SIZE_MAX)"
    have g': "g' = g\<lparr> ga_bufts := ga_bufts g @ [b], ga_buffers := ga_buffers g @ [NULL],
        ga_buf_tallocs := ga_buf_tallocs g @ [length (ga_tallocs g)], ga_tallocs := ga_tallocs g @ [ggml_dyn_tallocr_new a m] \<rparr>"
      using s None by (simp add: add_buft_def ggml_backend_buft_get_alignment_def ggml_backend_buft_get_max_size_def a_def m_def
          split: if_split_asm)
    have "dyn_ok (ggml_dyn_tallocr_new a m)" using assms(1)
      by (intro new_ok) (auto simp: bufts_sane_def SIZE_MAX_def a_def m_def split: option.split)
    then show ?thesis using i by (simp add: g' less_SucI)
  next
    case (Some j)
    then have "j < length (ga_buf_tallocs g)" using same_buft_nth [OF Some] i by simp
    moreover have "g' = g\<lparr> ga_bufts := ga_bufts g @ [b], ga_buffers := ga_buffers g @ [NULL],
        ga_buf_tallocs := ga_buf_tallocs g @ [ga_buf_tallocs g ! j] \<rparr>" using s Some by (simp add: add_buft_def)
    ultimately show ?thesis using i by simp
  qed
  have I: "?I ga"
    by (rule for_each_inv [OF r [unfolded ggml_gallocr_new_n_def], of "\<lambda>_. ?I"]) (simp, use step in blast)
  have "ga_buffers ga ! i = NULL" if "i < length (ga_buf_tallocs ga)" for i using I that nth_mem [of i "ga_buffers ga"] by (simp add: subset_eq)
  then have "store_ok st (ga_buf_tallocs ga) (ga_buffers ga)"
    using assms(2) I by (simp add: store_ok_def owner_def)
  then show ?thesis using I by (simp add: gallocr_ok_def)
qed

section \<open>A small allocation\<close>

text \<open>
  A device with one piece of memory at 2^20: it gives out a single buffer.
\<close>

definition demo_sys :: backend_sys where
  "demo_sys = \<lparr> bs_ops = demo_buft,
     bs_alloc_buffer = (\<lambda>buft n bufs. if bufs = Map.empty \<and> 0 < n \<and> n < 2 ^ 32
       then Some (8192, \<lparr> bb_buft = buft, bb_base = Some 1048576, bb_init_tensor = None, bb_frees = True, bb_parts = None,
         bb_size = n, bb_usage = GGML_BACKEND_BUFFER_USAGE_ANY \<rparr>) else None),
     bs_new = (\<lambda>bufs. 1 + Max (insert 0 (dom bufs))),
     bs_calloc = (\<lambda>vbs. if vbs 512 = None then 512 else NULL) \<rparr>"

lemma demo_sys_good: "backend_good demo_sys"
proof -
  have new: "1 + Max (insert 0 (dom bufs)) \<noteq> NULL \<and> bufs (1 + Max (insert 0 (dom bufs))) = None"
    if fin: "finite (dom bufs)" for bufs :: buffer_map
  proof -
    have m: "x \<le> Max (insert 0 (dom bufs))" if "x \<in> insert 0 (dom bufs)" for x using fin that by (intro Max_ge) auto
    have "0 \<le> Max (insert 0 (dom bufs))" by (rule m) simp
    moreover have "1 + Max (insert 0 (dom bufs)) \<notin> dom bufs"
    proof
      assume "1 + Max (insert 0 (dom bufs)) \<in> dom bufs"
      then have "1 + Max (insert 0 (dom bufs)) \<le> Max (insert 0 (dom bufs))" by (intro m) simp
      then show False by simp
    qed
    ultimately show ?thesis by (simp add: domIff)
  qed
  have buf: "p \<noteq> NULL \<and> bufs p = None \<and> plain b \<and> n \<le> bb_size b"
    if "bs_alloc_buffer demo_sys buft n bufs = Some (p, b)" for buft n bufs p b
  proof -
    have "bufs = Map.empty" "0 < n" "n < 2 ^ 32" "p = 8192" "bb_size b = n" "bb_base b = Some 1048576" "bb_parts b = None"
      using that by (auto simp: demo_sys_def split: if_split_asm)
    then show ?thesis by (simp add: plain_def)
  qed
  have "bs_calloc demo_sys vbs \<noteq> NULL \<Longrightarrow> vbs (bs_calloc demo_sys vbs) = None" for vbs
    by (simp add: demo_sys_def split: if_split_asm)
  moreover have *: "bs_new demo_sys bufs = 1 + Max (insert 0 (dom bufs))" "bo_alloc_size (bs_ops demo_sys) buft = None" for bufs buft
    by (simp_all add: demo_sys_def demo_buft_def)
  ultimately show ?thesis unfolding backend_good_def
  proof (intro conjI allI impI)
    fix bufs :: buffer_map assume fin: "finite (dom bufs)"
    show "bs_new demo_sys bufs \<noteq> NULL" "bufs (bs_new demo_sys bufs) = None" using new [OF fin] * by simp_all
  qed (use buf in \<open>blast | simp\<close>)+
qed

definition demo_state :: alloc_state where
  "demo_state = \<lparr> as_heap = demo_chain, as_bufs = Map.empty, as_vbufs = Map.empty \<rparr>"

lemma demo_gallocr_ok: "gallocr_ok demo_state demo_start"
proof -
  have "store_ok demo_state [0] [0]" by (auto simp: store_ok_def owner_def bufs_ok_def demo_state_def)
  then show ?thesis using demo_ready by (simp add: gallocr_ok_def allocator_ready_def env_ok_def) (simp add: demo_gallocr_def)
qed

lemma demo_reservable: "reservable demo_chain demo_plan"
  using demo_plannable by (simp add: reservable_def demo_plan_def)

abbreviation demo_planned_gallocr :: ggml_gallocr where
  "demo_planned_gallocr \<equiv> demo_gallocr (Some (demo_value 0 0 False)) (Some (demo_value 0 64 False)) (Some (demo_value 0 96 False))
    (Some (demo_value 0 96 True)) [demo_split 96]"

lemma hash_get_recording:
  "ggml_gallocr_hash_get (ga\<lparr> ga_node_allocs := na \<rparr>) x = map_option (\<lambda>(i, g). (i, g\<lparr> ga_node_allocs := na \<rparr>)) (ggml_gallocr_hash_get ga x)"
  "ggml_gallocr_hash_get (ga\<lparr> ga_leaf_allocs := la \<rparr>) x = map_option (\<lambda>(i, g). (i, g\<lparr> ga_leaf_allocs := la \<rparr>)) (ggml_gallocr_hash_get ga x)"
  "ggml_gallocr_hash_get (ga\<lparr> ga_n_nodes := n \<rparr>) x = map_option (\<lambda>(i, g). (i, g\<lparr> ga_n_nodes := n \<rparr>)) (ggml_gallocr_hash_get ga x)"
  "ggml_gallocr_hash_get (ga\<lparr> ga_n_leafs := n \<rparr>) x = map_option (\<lambda>(i, g). (i, g\<lparr> ga_n_leafs := n \<rparr>)) (ggml_gallocr_hash_get ga x)"
  by (cases "ggml_hash_find_or_insert (ga_hash_set ga) x"; auto simp: ggml_gallocr_hash_get_def)+

definition demo_slot_at :: "int \<Rightarrow> int \<Rightarrow> tensor_alloc" where
  "demo_slot_at off n = \<lparr> ta_buffer_id = 0, ta_addr = \<lparr> ba_chunk = 0, ba_offset = off \<rparr>, ta_size_max = n \<rparr>"

definition demo_recorded :: ggml_gallocr where
  "demo_recorded = demo_planned_gallocr\<lparr>
     ga_node_allocs := [\<lparr> na_dst = demo_slot_at 96 24, na_src = [demo_slot_at 0 48, demo_slot_at 64 32] @ replicate 8 no_alloc_slot \<rparr>,
       \<lparr> na_dst = demo_slot_at 96 24, na_src = demo_slot_at 96 24 # replicate 9 no_alloc_slot \<rparr>],
     ga_n_nodes := 2, ga_leaf_allocs := [demo_slot_at 0 48, demo_slot_at 64 32], ga_n_leafs := 2 \<rparr>"

lemma demo_record: "record_plan demo_buft demo_chain demo_plan demo_planned_gallocr = Some demo_recorded"
proof -
  have n: "ga_n_nodes demo_planned_gallocr = 0" "ga_n_leafs demo_planned_gallocr = 0" "g_n_nodes demo_plan = 2" "g_n_leafs demo_plan = 2"
    by (simp_all add: demo_gallocr_def demo_plan_def)
  have e: "enumerate 0 [x, y] = [(0, x), (1, y)]" for x y :: ptr by simp
  have b: "buft_at (ga\<lparr> ga_node_allocs := na \<rparr>) i = buft_at ga i" "buft_at (ga\<lparr> ga_leaf_allocs := la \<rparr>) i = buft_at ga i"
    "buft_at (ga\<lparr> ga_n_nodes := m \<rparr>) i = buft_at ga i" "buft_at (ga\<lparr> ga_n_leafs := m \<rparr>) i = buft_at ga i" for ga na la m i
    by (simp_all add: buft_at_def)
  have sq: "ggml_nbytes ((demo_matrix 3 2)\<lparr> t_op := GGML_OP_SQR, t_src := xs \<rparr>) = 24" for xs
    by (simp add: demo_matrix_def ggml_nbytes_def nbytes_strides_def GGML_MAX_DIMS_def upt_rec u64_def)
  show ?thesis
    by (simp add: record_plan_def n demo_plan_lists e record_node_def record_leaf_def node_slot_def src_slot_def leaf_slot_def
      hash_slot_def demo_eval hash_get_recording b numeral_2_eq_2 demo_recorded_def demo_slot_at_def eval_nat_numeral Let_def)
      (simp add: demo_gallocr_def sq)
qed

definition demo_buffer :: backend_buffer where
  "demo_buffer = \<lparr> bb_buft = 1, bb_base = Some 1048576, bb_init_tensor = None, bb_frees = True, bb_parts = None,
     bb_size = 128, bb_usage = GGML_BACKEND_BUFFER_USAGE_COMPUTE \<rparr>"

definition demo_reserved :: alloc_state where
  "demo_reserved = \<lparr> as_heap = demo_chain, as_bufs = [8192 \<mapsto> demo_buffer], as_vbufs = [512 \<mapsto> 8192 # replicate 15 0] \<rparr>"

abbreviation demo_backed :: ggml_gallocr where "demo_backed \<equiv> demo_recorded\<lparr> ga_buffers := [512] \<rparr>"

lemma demo_recorded_fields:
  "ga_bufts demo_recorded = [1]" "ga_buffers demo_recorded = [0]" "ga_buf_tallocs demo_recorded = [0]"
  "ga_tallocs demo_recorded = [demo_alloc [demo_split 96]]"
  by (simp_all add: demo_recorded_def demo_gallocr_def)

lemma demo_realloc: "realloc_buffer demo_sys False 0 (True, demo_state, demo_recorded) = Some (True, demo_reserved, demo_backed)"
proof -
  have set: "ggml_backend_buffer_set_usage GGML_BACKEND_BUFFER_USAGE_COMPUTE 8192 [8192 \<mapsto> b] =
    Some [8192 \<mapsto> b\<lparr> bb_usage := GGML_BACKEND_BUFFER_USAGE_COMPUTE \<rparr>]" if "bb_parts b = None" for b
    using that by (subst ggml_backend_buffer_set_usage.simps) (simp add: bget_def)
  have r: "demo_recorded\<lparr> ga_buffers := [0] \<rparr> = demo_recorded" using demo_recorded_fields by (metis ggml_gallocr.surjective ggml_gallocr.update_convs(2))
  have ch: "da_chunks (demo_alloc [demo_split 96]) = [demo_split 96]" "tc_max_size (demo_split 96) = 128"
    by (simp_all add: demo_alloc_def demo_split_def)
  have rep: "(replicate 16 (0::ptr))[0 := 8192] = 8192 # replicate 15 0" by (simp add: eval_nat_numeral)
  have v: "ggml_vbuffer_alloc demo_sys 1 (demo_alloc [demo_split 96]) GGML_BACKEND_BUFFER_USAGE_COMPUTE demo_state = Some (512, demo_reserved)"
    by (simp add: ggml_vbuffer_alloc_def ch demo_sys_def demo_state_def ggml_backend_buft_alloc_buffer_def vbget_def set
        GGML_VBUFFER_MAX_CHUNKS_def demo_reserved_def demo_buffer_def Let_def rep)
  show ?thesis
    by (simp add: realloc_buffer_def demo_recorded_fields talloc_index_def buft_at_def ch chunk_too_small_def
       ggml_vbuffer_free_def r v del: One_nat_def)
qed

lemma demo_reserve: "ggml_gallocr_reserve_n junk demo_sys demo_plan None None demo_state demo_start = Some (True, demo_reserved, demo_backed)"
proof -
  have t: "size_table junk demo_plan demo_start = demo_start"
    by (simp add: size_table_def demo_gallocr_def demo_plan_def u64_def i32_def)
  have z: "reset_talloc 0 demo_start = Some demo_start"
    by (simp add: reset_talloc_def demo_gallocr_def talloc_index_def set_talloc_def ggml_dyn_tallocr_reset_def demo_alloc_def)
  have "length (ga_bufts demo_start) = 1" by (simp add: demo_gallocr_def)
  moreover have "bs_ops demo_sys = demo_buft" "as_heap demo_state = demo_chain" by (simp_all add: demo_sys_def demo_state_def)
  ultimately show ?thesis
    by (simp add: ggml_gallocr_reserve_n_def ggml_gallocr_reserve_n_impl_def t z demo_planned demo_record demo_realloc demo_recorded_fields(1))
qed


abbreviation placed_at :: "ggml_tensor \<Rightarrow> int \<Rightarrow> ggml_tensor" where
  "placed_at t a \<equiv> t\<lparr> t_buffer := 8192, t_data := a \<rparr>"

definition demo_with :: "(ptr \<Rightarrow> ggml_tensor option) \<Rightarrow> alloc_state" where
  "demo_with ts = demo_reserved\<lparr> as_heap := demo_chain\<lparr> h_tensors := ts \<rparr> \<rparr>"

lemma demo_init_fresh:
  assumes "ts x = Some t" "x \<noteq> NULL" "t_view_src t = NULL" "t_data t = NULL" "t_buffer t = NULL"
    and "0 \<le> off" "0 \<le> ggml_nbytes t" "off + ggml_nbytes t \<le> 128"
  shows "ggml_gallocr_init_tensor demo_sys demo_backed x (demo_slot_at off n) (demo_with ts) =
    Some (demo_with (ts(x \<mapsto> placed_at t (1048576 + off))))"
proof -
  have "u64 (1048576 + off) = 1048576 + off" "u64 (1048576 + off + ggml_nbytes t) = 1048576 + off + ggml_nbytes t"
    using assms(6-8) by (simp_all add: u64_def)
  then show ?thesis using assms
    by (simp add: ggml_gallocr_init_tensor_def demo_with_def demo_reserved_def tget_def tset_def ggml_vbuffer_tensor_alloc_def
        demo_slot_at_def vbget_def ggml_backend_buffer_get_base_def bget_def demo_buffer_def ggml_backend_tensor_alloc_def
        ggml_backend_buffer_get_alloc_size_def ggml_backend_buft_get_alloc_size_def ggml_backend_buffer_get_size_def
        ggml_backend_buffer_init_tensor_def demo_sys_def demo_buft_def u64_def)
qed

lemma demo_init_done:
  assumes "ts x = Some t" "x \<noteq> NULL" "t_view_src t = NULL" "t_data t \<noteq> NULL"
  shows "ggml_gallocr_init_tensor demo_sys demo_backed x slot (demo_with ts) = Some (demo_with ts)"
  using assms by (simp add: ggml_gallocr_init_tensor_def demo_with_def demo_reserved_def tget_def)

abbreviation demo_squared :: ggml_tensor where
  "demo_squared \<equiv> (demo_matrix 3 2)\<lparr> t_op := GGML_OP_SQR, t_src := (replicate 10 0)[0 := 66304] \<rparr>"

definition demo_allocated :: alloc_state where
  "demo_allocated = demo_with ((h_tensors demo_chain)(65568 \<mapsto> placed_at (demo_matrix 4 3) 1048576,
     65936 \<mapsto> placed_at (demo_matrix 4 2) 1048640, 66304 \<mapsto> placed_at demo_product 1048672,
     66672 \<mapsto> placed_at demo_squared 1048672))"

lemma demo_recorded_plan:
  "ga_leaf_allocs demo_recorded = [demo_slot_at 0 48, demo_slot_at 64 32]" "ga_n_nodes demo_recorded = 2" "ga_n_leafs demo_recorded = 2"
  "ga_node_allocs demo_recorded = [\<lparr> na_dst = demo_slot_at 96 24, na_src = [demo_slot_at 0 48, demo_slot_at 64 32] @ replicate 8 no_alloc_slot \<rparr>,
     \<lparr> na_dst = demo_slot_at 96 24, na_src = demo_slot_at 96 24 # replicate 9 no_alloc_slot \<rparr>]"
  by (simp_all add: demo_recorded_def)

lemma demo_fit: "ggml_gallocr_needs_realloc demo_buft demo_chain demo_backed demo_plan = Some False"
proof -
  have n: "g_n_nodes demo_plan = 2" "g_n_leafs demo_plan = 2" by (simp_all add: demo_plan_def)
  have k: "ta_buffer_id (demo_slot_at off m) = 0" "ta_size_max (demo_slot_at off m) = m" for off m by (simp_all add: demo_slot_at_def)
  have f: "ggml_gallocr_node_needs_realloc demo_buft demo_chain demo_backed x (demo_slot_at off m) = Some True"
    if "tget demo_chain x = Some t" "ggml_nbytes t \<le> m" "t_data t = NULL" "t_view_src t = NULL" for x t off m
    by (simp add: ggml_gallocr_node_needs_realloc_def k buft_at_def demo_recorded_fields demo_size_of that)
  have e: "ggml_gallocr_node_needs_realloc demo_buft demo_chain demo_backed 65568 (demo_slot_at 0 48) = Some True"
      "ggml_gallocr_node_needs_realloc demo_buft demo_chain demo_backed 65936 (demo_slot_at 64 32) = Some True"
      "ggml_gallocr_node_needs_realloc demo_buft demo_chain demo_backed 66304 (demo_slot_at 96 24) = Some True"
      "ggml_gallocr_node_needs_realloc demo_buft demo_chain demo_backed 66672 (demo_slot_at 96 24) = Some True"
    by (rule f [OF demo_chain_tensors(1)] f [OF demo_chain_tensors(2)] f [OF demo_chain_tensors(3)] f [OF demo_chain_tensors(4)];
        simp add: demo_sizes demo_nbytes demo_data demo_matrix_fields)+
  have g: "(tget demo_chain 66304 \<bind> F) = F demo_product" "(tget demo_chain 66672 \<bind> F) = F demo_squared"
      for F :: "ggml_tensor \<Rightarrow> bool option" by (simp_all only: demo_chain_tensors bind.bind_lunit)
  show ?thesis
    by (simp add: ggml_gallocr_needs_realloc_def n demo_recorded_plan demo_plan_lists e g demo_data eval_nat_numeral)
qed

lemma demo_alloc_graph: "ggml_gallocr_alloc_graph junk demo_sys demo_plan demo_reserved demo_backed = Some (True, demo_allocated, demo_backed)"
proof -
  let ?t = "h_tensors demo_chain"
  have s: "demo_reserved = demo_with ?t" by (simp add: demo_with_def demo_reserved_def)
  have r: "for_each (\<lambda>p u. if p \<noteq> NULL then ggml_vbuffer_reset p demo_reserved else Some ()) (ga_buffers demo_backed) () = Some ()"
    by (simp add: demo_recorded_fields ggml_vbuffer_reset_def vbget_def demo_reserved_def ggml_backend_buffer_reset_def bget_def
        eval_nat_numeral)
  let ?t1 = "?t(65568 \<mapsto> placed_at (demo_matrix 4 3) 1048576)"
  let ?t2 = "?t1(65936 \<mapsto> placed_at (demo_matrix 4 2) 1048640)"
  let ?t3 = "?t2(66304 \<mapsto> placed_at demo_product 1048672)"
  let ?t4 = "?t3(66672 \<mapsto> placed_at demo_squared 1048672)"
  have i1: "ggml_gallocr_init_tensor demo_sys demo_backed 65568 (demo_slot_at 0 48) (demo_with ?t) = Some (demo_with ?t1)"
    by (subst demo_init_fresh [of _ _ "demo_matrix 4 3"]) (simp_all add: demo_chain_of demo_matrix_fields demo_data demo_nbytes)
  have i2: "ggml_gallocr_init_tensor demo_sys demo_backed 65936 (demo_slot_at 64 32) (demo_with ?t1) = Some (demo_with ?t2)"
    by (subst demo_init_fresh [of _ _ "demo_matrix 4 2"]) (simp_all add: demo_chain_of demo_matrix_fields demo_data demo_sizes)
  have i3: "ggml_gallocr_init_tensor demo_sys demo_backed 66304 (demo_slot_at 96 24) (demo_with ?t2) = Some (demo_with ?t3)"
    by (subst demo_init_fresh [of _ _ demo_product]) (simp_all add: demo_chain_of demo_matrix_fields demo_data demo_sizes)
  have i4: "ggml_gallocr_init_tensor demo_sys demo_backed 66672 (demo_slot_at 96 24) (demo_with ?t3) = Some (demo_with ?t4)"
    by (subst demo_init_fresh [of _ _ demo_squared]) (simp_all add: demo_chain_of demo_matrix_fields demo_data demo_sizes)
  have d: "ggml_gallocr_init_tensor demo_sys demo_backed 65568 sl (demo_with ?t2) = Some (demo_with ?t2)"
      "ggml_gallocr_init_tensor demo_sys demo_backed 65936 sl (demo_with ?t2) = Some (demo_with ?t2)"
      "ggml_gallocr_init_tensor demo_sys demo_backed 66304 sl (demo_with ?t3) = Some (demo_with ?t3)" for sl
    by (simp_all add: demo_init_done [of _ _ "placed_at (demo_matrix 4 3) 1048576"] demo_init_done [of _ _ "placed_at (demo_matrix 4 2) 1048640"]
        demo_init_done [of _ _ "placed_at demo_product 1048672"] demo_matrix_fields demo_data)
  have leafs: "for_each (init_leaf demo_sys demo_backed) [(0, 65568), (1, 65936)] (demo_with ?t) = Some (demo_with ?t2)"
    using i1 i2 by (simp add: init_leaf_def demo_recorded_plan)
  have g: "(tget (as_heap (demo_with ts)) x \<bind> F) = F t" if "ts x = Some t" "x \<noteq> NULL" for ts x t and F :: "ggml_tensor \<Rightarrow> alloc_state option"
    using that by (simp add: demo_with_def tget_def)
  have g3: "(tget (as_heap (demo_with ?t2)) 66304 \<bind> F) = F demo_product" for F :: "ggml_tensor \<Rightarrow> alloc_state option"
    by (rule g) (simp_all add: demo_chain_of)
  have g4: "(tget (as_heap (demo_with ?t3)) 66672 \<bind> F) = F demo_squared" for F :: "ggml_tensor \<Rightarrow> alloc_state option"
    by (rule g) (simp_all add: demo_chain_of)
  have n0: "init_node demo_sys demo_backed (0, 66304) (demo_with ?t2) = Some (demo_with ?t3)"
    using d(1,2) i3 by (simp add: init_node_def init_src_def demo_recorded_plan g3 demo_data eval_nat_numeral)
  have n1: "init_node demo_sys demo_backed (1, 66672) (demo_with ?t3) = Some (demo_with ?t4)"
    using d(3) i4 by (simp add: init_node_def init_src_def demo_recorded_plan g4 demo_data eval_nat_numeral)
  have nodes: "for_each (init_node demo_sys demo_backed) [(0, 66304), (1, 66672)] (demo_with ?t2) = Some (demo_with ?t4)"
    by (simp only: for_each.simps n0 n1 bind.bind_lunit)
  have e: "enumerate 0 [x, y] = [(0, x), (1, y)]" for x y :: ptr by simp
  have o: "bs_ops demo_sys = demo_buft" "as_heap demo_reserved = demo_chain" by (simp_all add: demo_sys_def demo_reserved_def)
  show ?thesis
    by (simp only: ggml_gallocr_alloc_graph_def o demo_fit demo_plan_lists e demo_allocated_def bind.bind_lunit if_False split_conv
        not_True_eq_False r) (simp only: s leafs nodes bind.bind_lunit)
qed


section \<open>Properties\<close>

text \<open>The bytes of an allocated tensor lie in the interval of the store its range stands for.\<close>

lemma allocated_bytes:
  assumes good: "backend_good sys" and res: "reserved (bs_ops sys) (as_heap st) g gp st ga" and pl: "graph_plannable (as_heap st) g"
    and r: "ggml_gallocr_alloc_graph junk sys g st ga = Some (ok, st', ga')" and x: "planned (as_heap st) (g_done g) x"
  defines "g0 \<equiv> gp\<lparr> ga_buffers := ga_buffers ga \<rparr>"
  obtains t where "h_tensors (as_heap st') x = Some t" "t_data t \<noteq> NULL" "t_buffer t = chunk_of st g0 x"
    "bytes_of t \<subseteq> {target st g0 x ..< target st g0 x + span (bs_ops sys) (as_heap st) g0 (hn_buffer_id (node_at g0 x)) x}"
    "\<exists>buf. as_bufs st' (t_buffer t) = Some buf \<and> bytes_of t \<subseteq> memory buf"
proof -
  let ?b = "hn_buffer_id (node_at gp x)"
  have n0: "node_at g0 = node_at gp" by (rule node_at_cong) (simp_all add: g0_def)
  note A = reserved_addresses [OF res pl r x, folded g0_def]
  obtain t t0 where t: "h_tensors (as_heap st') x = Some t" "h_tensors (as_heap st) x = Some t0" "shape_of t = shape_of t0"
    "t_data t = target st g0 x" "t_buffer t = chunk_of st g0 x" using A(1) by blast
  have "ggml_nbytes t0 \<le> need (bs_ops sys) (as_heap st) g0 ?b x"
    using backend_goodD(4) [OF good, of t0] by (simp add: need_def t(2))
  then have b: "bytes_of t \<subseteq> {target st g0 x ..< target st g0 x + span (bs_ops sys) (as_heap st) g0 ?b x}"
    using A(5) nbytes_shape [OF t(3)] t(4) by (auto simp: bytes_of_def)
  show ?thesis
  proof (rule that [OF t(1)])
    show "t_data t \<noteq> NULL" "t_buffer t = chunk_of st g0 x" using A(6) t(4,5) by simp_all
    show "bytes_of t \<subseteq> {target st g0 x ..< target st g0 x + span (bs_ops sys) (as_heap st) g0 (hn_buffer_id (node_at g0 x)) x}"
      using b by (simp add: n0)
    show "\<exists>buf. as_bufs st' (t_buffer t) = Some buf \<and> bytes_of t \<subseteq> memory buf" using A(2,7) b t(5) by (metis subset_trans)
  qed
qed

lemma demo_setting:
  "reservable (as_heap demo_state) demo_plan" "env_ok (bs_ops demo_sys) (as_heap demo_state) (g_done demo_plan) demo_start"
  "as_heap demo_state = demo_chain"
  using demo_reservable demo_ready by (simp_all add: demo_state_def demo_sys_def allocator_ready_def)

text \<open>C3: running a graph that was reserved and allocated does not overwrite what is still to be read.  After
  ggml_gallocr_reserve_n and ggml_gallocr_alloc_graph, the i-th node and any tensor placed before it that is an output
  or is read by it or by a later node are in different backend buffers (t_buffer) or have disjoint address
  ranges in the same one, except for a source the node works on in place.  The addresses are those the tensors get: virtual buffers,
  their chunks and the backend's buffers are part of it.  It holds under these conditions, and is claimed only under them.
  Of the graph (reservable, plannable): no view has GGML_OP_NONE, be it a leaf or a node (for such views
  ggml-alloc.c:807 releases bases too early and the promise fails); no node is flagged as input; no node that works in place is its own source; the lists are in evaluation order and have fewer than 2^31 source slots.
  Of sizes (env_ok): no tensor to be placed is empty, since an empty one leaves a free block of size 0 behind when it is released, and
  every padded size is at most SIZE_MAX/2.  Of the backend (backend_good): a buffer it allocates is new, no multi-buffer, at least as large as asked for,
  with a base that is not NULL; two buffers may have the same base, as in the Vulkan backend.  Of the allocator (gallocr_ok):
  it is as ggml_gallocr_new_n or an earlier successful reservation left it.\<close>

theorem memory_never_overwritten:
  assumes "backend_good sys" "reservable (as_heap st) g" "gallocr_ok st ga" "env_ok (bs_ops sys) (as_heap st) (g_done g) ga"
    and "ggml_gallocr_reserve_n junk sys g node_ids leaf_ids st ga = Some (True, st1, ga1)"
    and "ggml_gallocr_alloc_graph junk' sys g st1 ga1 = Some (ok, st2, ga2)"
    and "i < length (g_node_list g)" "planned (as_heap st) (g_done g) (g_node_list g ! i)"
    and "r \<in> set (g_leaf_list g) \<union> set (take i (g_node_list g))" "planned (as_heap st) (g_done g) r"
    and "still_needed (as_heap st) g i r"
  shows "\<exists>t u. h_tensors (as_heap st2) (g_node_list g ! i) = Some t \<and> h_tensors (as_heap st2) r = Some u \<and>
    (t_buffer t \<noteq> t_buffer u \<or> bytes_of t \<inter> bytes_of u = {} \<or> works_in_place (as_heap st) g i r)"
proof -
  let ?h = "as_heap st" let ?bo = "bs_ops sys" let ?x = "g_node_list g ! i"
  have pl: "graph_plannable ?h g" using assms(2) by (simp add: reservable_def)
  note R = reserve_result [OF assms(1-5)]
  obtain gp where res: "reserved ?bo ?h g gp st1 ga1" using R(2) by blast
  have res1: "reserved ?bo (as_heap st1) g gp st1 ga1" using res R(1) by simp
  let ?g0 = "gp\<lparr> ga_buffers := ga_buffers ga1 \<rparr>"
  have x1: "planned (as_heap st1) (g_done g) ?x" and r1: "planned (as_heap st1) (g_done g) r" and pl1: "graph_plannable (as_heap st1) g"
    using assms(8,10) pl R(1) by simp_all
  have hq: "as_heap st1 = ?h" using R(1) by simp
  obtain t where t: "h_tensors (as_heap st2) ?x = Some t" "t_buffer t = chunk_of st1 ?g0 ?x"
    "bytes_of t \<subseteq> {target st1 ?g0 ?x ..< target st1 ?g0 ?x + span ?bo ?h ?g0 (hn_buffer_id (node_at ?g0 ?x)) ?x}"
    by (rule allocated_bytes [OF assms(1) res1 pl1 assms(6) x1, unfolded hq]) (rule that)
  obtain u where u: "h_tensors (as_heap st2) r = Some u" "t_buffer u = chunk_of st1 ?g0 r"
    "bytes_of u \<subseteq> {target st1 ?g0 r ..< target st1 ?g0 r + span ?bo ?h ?g0 (hn_buffer_id (node_at ?g0 r)) r}"
    by (rule allocated_bytes [OF assms(1) res1 pl1 assms(6) r1, unfolded hq]) (rule that)
  have n0: "node_at ?g0 = node_at gp" by (rule node_at_cong) simp_all
  have rg: "range_of ?bo ?h ?g0 = range_of ?bo ?h gp"
    by (simp add: fun_eq_iff range_of_def n0 span_def need_def talloc_of_def aligns_def Let_def)
  have "apart_at ?bo ?h (g_node_list g) (g_leaf_list g) gp i" using res assms(7) by (simp add: reserved_def planning_def Let_def)
  moreover have "needed ?h (g_node_list g) (reads ?h (drop i (g_node_list g))) r"
    using still_needed_needed [OF pl _ assms(11)] assms(10) by (simp add: planned_def)
  ultimately have "range_of ?bo ?h ?g0 ?x \<inter> range_of ?bo ?h ?g0 r = {} \<or> in_place ?h (g_node_list g) i r"
    using assms(8-10) by (simp add: apart_at_def g_done_def rg)
  then have "t_buffer t \<noteq> t_buffer u \<or> bytes_of t \<inter> bytes_of u = {} \<or> works_in_place ?h g i r"
  proof
    assume ap: "range_of ?bo ?h ?g0 ?x \<inter> range_of ?bo ?h ?g0 r = {}"
    have e: "ga_bufts ?g0 = ga_bufts ga1" "ga_buf_tallocs ?g0 = ga_buf_tallocs ga1" "ga_tallocs ?g0 = ga_tallocs ga1"
      "length (ga_bufts ?g0) = length (ga_buf_tallocs ?g0)" using res by (simp_all add: reserved_def)
    have so: "store_ok st1 (ga_buf_tallocs ?g0) (ga_buffers ?g0)"
        "\<forall>j < length (ga_buf_tallocs ?g0). backed st1 (ga_buf_tallocs ?g0) (ga_tallocs ?g0) (ga_buffers ?g0) j"
      using res by (simp_all add: e reserved_def)
    note P = reserved_addresses(3-5) [OF res1 pl1 assms(6) x1] and Q = reserved_addresses(3-5) [OF res1 pl1 assms(6) r1]
    have "0 < span ?bo ?h ?g0 (hn_buffer_id (node_at ?g0 ?x)) ?x" "0 < span ?bo ?h ?g0 (hn_buffer_id (node_at ?g0 r)) r"
      using P(2,3) Q(2,3) by (simp_all add: n0 R(1))
    moreover have "placed_ok ?bo ?h ?g0 ?x" "placed_ok ?bo ?h ?g0 r" using P(1) Q(1) by (simp_all add: R(1))
    ultimately have "chunk_of st1 ?g0 ?x \<noteq> chunk_of st1 ?g0 r \<or>
        {target st1 ?g0 ?x ..< target st1 ?g0 ?x + span ?bo ?h ?g0 (hn_buffer_id (node_at ?g0 ?x)) ?x} \<inter>
        {target st1 ?g0 r ..< target st1 ?g0 r + span ?bo ?h ?g0 (hn_buffer_id (node_at ?g0 r)) r} = {}"
      by (intro targets_apart [OF so _ refl _ _ refl _ e(4) ap])
    then show ?thesis unfolding t(2) u(2) using t(3) u(3) by blast
  qed (use in_place_works [OF pl assms(7)] in blast)
  then show ?thesis using t(1) u(1) by blast
qed

theorem memory_never_overwritten_witness:
  "\<exists>t u. h_tensors (as_heap demo_allocated) 66304 = Some t \<and> h_tensors (as_heap demo_allocated) 65568 = Some u \<and>
     (t_buffer t \<noteq> t_buffer u \<or> bytes_of t \<inter> bytes_of u = {})"
proof -
  have "\<not> works_in_place demo_chain demo_plan 0 65568"
    by (simp add: works_in_place_def demo_plan_lists demo_chain_of demo_data ggml_op_can_inplace_def)
  then show ?thesis
    using memory_never_overwritten [OF demo_sys_good demo_setting(1) demo_gallocr_ok demo_setting(2) demo_reserve demo_alloc_graph, of 0 65568] demo_needed
      demo_planned_all [of 65568] demo_planned_all [of 66304] by (simp add: demo_plan_lists demo_setting(3))
qed

text \<open>C18: every tensor that ggml_gallocr_alloc_graph places is inside a live backend buffer.  After
  ggml_gallocr_reserve_n and ggml_gallocr_alloc_graph each tensor the planner had to place has an address that is
  not NULL, and all its bytes lie in the buffer that its field t_buffer names.  The conditions are those of the
  allocation theorem above: no view with GGML_OP_NONE, no node flagged as input, no in-place node that is its own source (reservable,
  plannable); no empty tensor among those to be placed (env_ok; a graph of empty tensors gets a buffer without memory and
  addresses that are NULL); a backend whose new buffers have the size asked for and a base that is not NULL, where different buffers may
  have the same base (backend_good); an allocator that is new or was left by a successful reservation (gallocr_ok).\<close>

theorem allocated_inside_buffers:
  assumes "backend_good sys" "reservable (as_heap st) g" "gallocr_ok st ga" "env_ok (bs_ops sys) (as_heap st) (g_done g) ga"
    and "ggml_gallocr_reserve_n junk sys g node_ids leaf_ids st ga = Some (True, st1, ga1)"
    and "ggml_gallocr_alloc_graph junk' sys g st1 ga1 = Some (ok, st2, ga2)" and "planned (as_heap st) (g_done g) x"
  shows "\<exists>t buf. h_tensors (as_heap st2) x = Some t \<and> t_data t \<noteq> NULL \<and> as_bufs st2 (t_buffer t) = Some buf \<and>
    bytes_of t \<subseteq> memory buf"
proof -
  note R = reserve_result [OF assms(1-5)]
  obtain gp where res: "reserved (bs_ops sys) (as_heap st1) g gp st1 ga1" using R(1,2) by auto
  have "graph_plannable (as_heap st1) g" "planned (as_heap st1) (g_done g) x"
    using assms(2,7) R(1) by (simp_all add: reservable_def)
  then show ?thesis by (rule allocated_bytes [OF assms(1) res _ assms(6)]) blast
qed

theorem allocated_inside_buffers_witness:
  "\<exists>t buf. h_tensors (as_heap demo_allocated) 66672 = Some t \<and> t_data t \<noteq> NULL \<and>
     as_bufs demo_allocated (t_buffer t) = Some buf \<and>
     bytes_of t \<subseteq> memory buf"
  by (rule allocated_inside_buffers [OF demo_sys_good demo_setting(1) demo_gallocr_ok demo_setting(2) demo_reserve demo_alloc_graph])
    (use demo_planned_all [of 66672] in \<open>simp add: demo_plan_lists demo_setting(3)\<close>)

text \<open>C19: the books of a graph allocator survive a reservation.  From an allocator whose table, block lists and
  virtual buffers are in order (gallocr_ok), a ggml_gallocr_reserve_n that succeeds ends in one, and so does not stop a later
  reservation of another graph; the tensors are not touched.  This is for graphs without a view that has
  GGML_OP_NONE, without a node flagged as input and without an in-place node that is its own source (reservable, plannable), in
  which no tensor to be placed is empty (env_ok: releasing an empty tensor inserts a free block of size 0, which the
  invariant of the block lists rules out), over a backend whose new buffers have the size asked for and a base that is not
  NULL (backend_good).\<close>

theorem reserve_keeps_books:
  assumes "backend_good sys" "reservable (as_heap st) g" "gallocr_ok st ga" "env_ok (bs_ops sys) (as_heap st) (g_done g) ga"
    and "ggml_gallocr_reserve_n junk sys g node_ids leaf_ids st ga = Some (True, st', ga')"
  shows "gallocr_ok st' ga' \<and> as_heap st' = as_heap st"
  using reserve_result(1,3) [OF assms] by blast

theorem reserve_keeps_books_witness: "gallocr_ok demo_reserved demo_backed"
  using reserve_keeps_books [OF demo_sys_good demo_setting(1) demo_gallocr_ok demo_setting(2) demo_reserve] by blast

end
