(* ===== verification/Spec2Isabelle.thy ===== *)
theory Spec2Isabelle
  imports Client GallocStore
begin

text \<open>
  A verification development for ggml, the tensor library at the bottom of this repository
  (src/ml/backend/ggml/ggml): the C code that builds, orders and plans the computations that the Go
  server and its runners ask for.

  How the program is put together.  A client (the Go package ml/backend/ggml through cgo, or llama.cpp)
  opens a memory pool (ggml_init), allocates tensors in it, and calls one constructor per operation
  (ggml_mul_mat, ggml_add, ...).  A constructor computes nothing: it checks shapes and types, allocates a
  result tensor, and records the operation, its parameters and its sources.  ggml_build_forward_expand
  walks from a result to everything it depends on and lists the tensors in evaluation order, remembering
  what it has seen in an open-addressing hash set.  The graph allocator (ggml-alloc.c) then plans where the
  data of each tensor goes, from free lists of byte ranges, and a backend runs the nodes in order.

  Theories, in the order of the imports.
    Prelude       C integers at their widths (u64, i64, i32), GGML_PAD, the failure monad, loops.
    GgmlTypes     enumerations of ggml.h, the type_traits table, name tables (ggml.c).
    Tensor        struct ggml_tensor, sizes, strides, shape and contiguity predicates, parameters, names,
                  ggml_unravel_index (ggml.c, ggml-impl.h).
    HashSet       bitset and hash set of ggml-impl.h, ggml_hash_size, ggml_hash_set_new (ggml.c).
    ContextPool   struct ggml_context, ggml_object, ggml_init, ggml_new_object, ggml_new_tensor, views, walks
                  over a context (ggml.c); the store and its invariant.
    OpsBasic, OpsShape, OpsConv, OpsModel
                  the operation constructors of ggml.c, about 270 functions, in the order of the file.
    Graph         ggml_visit_parents_graph: the walk, its termination and its result.
    GraphOps      creation, build, select, clear, view, copy, reset, lookups and fusion checks of graphs.
    PoolLife      ggml_init, ggml_reset, ggml_free and the walks over the tensors of a pool: properties.
    GraphCompute  which tensors a build marks with GGML_TENSOR_FLAG_COMPUTE.
    GraphProps    properties of graphs, with a small graph on which they are applied.
    DynAlloc      ggml_dyn_tallocr of ggml-alloc.c: the free lists behind the graph allocator.
    Galloc        ggml_gallocr of ggml-alloc.c: the plan that gives every tensor of a graph its range, with
                  buffer types as a parameter (backend_ops).
    GallocProps   the books of the planner: one range per allocated tensor, apart from each other and from
                  what is free; each step of the planner as a change of the table of hash values.
    GallocPlan    the loops of the planner: reference counts are the reads to come, and the invariant planning.
    GallocSafe    what a plan promises in terms of the graph, and a small graph planned step by step.
    Backend       buffers of ggml-backend.cpp, what a device does being a parameter (backend_sys); giving a tensor its
                  address.
    GallocRun     the rest of ggml-alloc.c: virtual buffers, ggml_gallocr_reserve_n, ggml_gallocr_alloc_graph, and
                  the linear allocator with ggml_backend_alloc_ctx_tensors_from_buft.
    GallocMem     the slots recorded from a plan, and the addresses ggml_gallocr_alloc_graph gives from them.
    GallocStore   the store of buffers: a reservation keeps its books, and what the plan keeps apart ends in different
                  buffers or at different addresses of one buffer.
    OpsProps      what constructors promise: shapes, aborts, views, permutations, bytes a view may reach.
    Backward      ggml_build_backward_expand and ggml_compute_backward: the rules of differentiation, the gradients of
                  a graph and the nodes that compute them.
    BackwardProps every rule keeps the session in order, the forward graph and the gradients that are there.
    BackwardRun   the loop that marks, the loop over the nodes, and what the whole pass promises; an example.
    Calls         the public constructors as one relation, op_call, and that each call keeps the invariants.
    Session       sequences of calls, builds, resets: the relation client_step and the invariant session_ok.
    Client        programs: client_step and the other operations on graphs (selection, copies, backward pass); what
                  every program keeps.

  The state.  The record heap of ContextPool maps addresses to the structures that live there: contexts,
  object headers, tensors and graphs; memory that holds nothing of these is None.  An address is an int,
  NULL is 0.  Each function of the C code is a function of the same name that takes the heap (and the
  addresses the C function takes) and returns an option: None is what ends the program (a failing
  GGML_ASSERT, GGML_ABORT, a division by zero, the dereference of a pointer to nothing, an index outside an
  array, and for the loops that are partial functions, not returning).  The modelled build is the release
  build, in which assert() does nothing.  Integers are ints with the wrap-around of their C width written
  where the code computes; float parameters are their bits.

  The invariants.  heap_inv: in every pool the object list is the sequence of headers met by walking the
  pool from its start, aligned and inside the pool; pools do not overlap; every tensor is the payload of such
  an object and its sources and its view base are live, a view base being no view.  acyclic_heap: the source
  relation has a rank.  graph_state: a graph in such a heap whose lists contain each visited tensor once, the
  leafs and the nodes where they belong, every node after its sources, with the right use counts.  dyn_ok:
  the free list of every chunk is sorted, coalesced, aligned and below 2^63.

  What the lemmas show.  Each constructor is in the collection creates_intros: it either aborts or adds one
  well-formed tensor and changes nothing else (grows_intros for those that add several).  Calls
  collects them in one relation, and Session and Client prove that the steps of client_step and program_step, in any
  order, keep heap_inv, acyclic_heap and graph_state of every graph.  These steps are the interface of the model under the
  conditions that the C code leaves to its callers without checking them: ggml_set_param comes before a graph lists the
  tensor; accumulators given to the backward pass have the shapes of their nodes; ggml_graph_cpy has a target that has
  visited nothing; ggml_reset and ggml_free come when nothing outside the pool refers into it, and what it held is not used
  afterwards.  ggml_graph_add_node is modelled but is no step, as it lists a node without visiting it.  On such a heap the walk of the graph
  builder terminates (the measure counts the tensors not visited and those not marked yet), succeeds when the
  graph has room, and yields an evaluation order.  These are stated with settles (Prelude): a computation fails only
  for lack of room, and its result is right in any case, so that the lemmas serve callers that know of the room and
  callers that only know that the program went on.  The backward pass is of the second kind: each of its steps may
  abort, and what it leaves is related to what it found by grown (BackwardProps): every tensor, listed node, slot
  and gradient stays.  Hash set and free lists meet the contracts that the
  locales key_set and range_allocator state, and the clients' lemmas are proved inside these locales.
  Planning (GallocPlan) keeps three things from node to node: the books balance, the counts of children and
  views are the numbers of reads and of open views that are still to come, and whatever is still to be read is
  allocated.  So a fresh range is apart from all of these, and a range taken over was read for the last time.
  GallocStore carries this to addresses: a reservation leaves every virtual buffer with room for its plan, and
  allocation puts a tensor in the buffer of its chunk at the base plus its offset; so ranges that are apart are in different
  buffers or at different addresses of one buffer.  Buffers are told apart by t_buffer, not by addresses: a backend may give all
  of them the same base, as the Vulkan backend does.

  What the planner is proved for.  plannable: no view has GGML_OP_NONE, be it a leaf or a node (ggml_view_tensor makes
  such views; ggml-alloc.c:807 then releases bases too early and the promise fails), no node is flagged as input,
  and no node that may work in place is its own source.  env_ok: no tensor to be placed is empty, and padded sizes are at
  most SIZE_MAX/2; the code accepts empty tensors, but releasing one puts a free block of size 0 into the list,
  which dyn_ok excludes.  backend_good: buffers that a backend allocates are new, no multi-buffers, at least as large as asked
  for, and have a base that is not NULL.  These are conditions of the theorems, not checks of the code.

  The end of a pool.  ggml_reset only forgets the object list and ggml_free returns the memory only if the context owns
  it, so old structures may stay in the store; drop_pool removes them in the steps reset_pool and free_pool, where
  the client gives them up.

  Bounds.  Sizes of graphs are below 2^31 (they are stored in an int), byte sizes of allocations are at most
  SIZE_MAX/2, as ggml_dyn_tallocr_new clamps them.  No fuel is used: loops are structural, or partial
  functions with a proof that they return.

  Not modelled.  Data of tensors and the kernels that compute it (ggml-cpu, ggml-quants.c, CUDA, Vulkan,
  Metal: numeric code over float arrays); the quantisers of this fork (ggml-turbo-quant.c and its relatives);
  printing and dumping, threads and timers; the C++ files (llama.cpp, gguf.cpp, ggml-opt.cpp, of ggml-backend.cpp all but buffers and addresses)
  and the Go code of the server, outside the language this development covers.
\<close>

end
